(* ===== verification/Prelude.thy ===== *)
theory Prelude
  imports Main Complex_Main "HOL-Library.Word" "HOL-Library.Multiset" "HOL-Library.Sublist"
    "HOL-Library.List_Lexorder" "HOL-Library.Char_ord"
begin

text \<open>
  Shared vocabulary of the development: names for the value types the Go code uses, the
  collections of facts the component theories feed, the model of \<open>float64\<close>, the stable sort that
  stands for \<open>sort.Slice\<close>, the binary search of \<open>sort.Search\<close>, and generic lemmas on lists and maps.

  Conventions. A Go \<open>string\<close> or \<open>[]byte\<close> is a \<open>string\<close> (a list of byte-sized characters); a Go
  \<open>int\<close> is an \<open>int\<close> and the places where 64-bit wrap-around can be observed use \<open>i64\<close> or
  \<open>64 word\<close>; \<open>time.Time\<close> is an \<open>int\<close> of nanoseconds and every operation that reads the clock takes
  the reading as the argument \<open>now\<close>; a Go map is a partial function, and where the order in which
  the runtime walks a map can be observed, that order is an argument (a list of keys).
\<close>

section \<open>Collections of facts\<close>

named_theorems inv_defs \<open>definitions of the components' invariants\<close>
named_theorems inv_intros \<open>preservation of the components' invariants\<close>
named_theorems elems_simps \<open>what an operation does to the elements of a container\<close>

section \<open>Names for the value types\<close>

type_synonym time = int
type_synonym duration = int
type_synonym bytes = string
type_synonym octets = "8 word list"
type_synonym node_id = string

abbreviation max_int :: int where
  "max_int \<equiv> 2 ^ 63 - 1"

definition i64 :: "int \<Rightarrow> int" where
  "i64 x = (x + 2 ^ 63) mod 2 ^ 64 - 2 ^ 63"

lemma i64_id: "- (2 ^ 63) \<le> x \<Longrightarrow> x < 2 ^ 63 \<Longrightarrow> i64 x = x"
  by (simp add: i64_def)

lemma i64_range: "- (2 ^ 63) \<le> i64 x \<and> i64 x < 2 ^ 63"
proof -
  have "0 \<le> (x + 2 ^ 63) mod 2 ^ 64" "(x + 2 ^ 63) mod 2 ^ 64 < 2 ^ 64"
    by simp_all
  then show ?thesis
    by (simp add: i64_def)
qed

section \<open>Floating point values\<close>

text \<open>
  A \<open>float64\<close> is a number, one of the two infinities or \<open>NaN\<close>. Comparisons follow IEEE 754: every
  comparison with \<open>NaN\<close> is false and \<open>NaN\<close> differs from itself. Sums of finite numbers are exact
  real sums: rounding, overflow to infinity and the sign of zero are not modelled.
\<close>

datatype f64 = NaN | NegInf | Num real | PosInf

fun flt :: "f64 \<Rightarrow> f64 \<Rightarrow> bool" where
  "flt NaN _ = False"
| "flt _ NaN = False"
| "flt (Num a) (Num b) = (a < b)"
| "flt NegInf NegInf = False"
| "flt NegInf _ = True"
| "flt (Num _) PosInf = True"
| "flt (Num _) NegInf = False"
| "flt PosInf _ = False"

definition feq :: "f64 \<Rightarrow> f64 \<Rightarrow> bool" where
  "feq a b \<longleftrightarrow> a \<noteq> NaN \<and> a = b"

fun fadd :: "f64 \<Rightarrow> f64 \<Rightarrow> f64" where
  "fadd NaN _ = NaN"
| "fadd _ NaN = NaN"
| "fadd (Num a) (Num b) = Num (a + b)"
| "fadd NegInf PosInf = NaN"
| "fadd PosInf NegInf = NaN"
| "fadd NegInf _ = NegInf"
| "fadd _ NegInf = NegInf"
| "fadd PosInf _ = PosInf"
| "fadd _ PosInf = PosInf"

lemma flt_irrefl [simp]: "\<not> flt a a"
  by (cases a) auto

lemma flt_NaN [simp]: "\<not> flt a NaN"
  by (cases a) auto

lemma flt_trans: "flt a b \<Longrightarrow> flt b c \<Longrightarrow> flt a c"
  by (cases a; cases b; cases c) auto

lemma flt_total: "a \<noteq> NaN \<Longrightarrow> b \<noteq> NaN \<Longrightarrow> flt a b \<or> a = b \<or> flt b a"
  by (cases a; cases b) auto

lemma flt_asym: "flt a b \<Longrightarrow> \<not> flt b a"
  using flt_trans [of a b a] by auto

lemma not_flt_trans: "\<not> flt b a \<Longrightarrow> \<not> flt c b \<Longrightarrow> b \<noteq> NaN \<Longrightarrow> \<not> flt c a"
  by (cases a; cases b; cases c) auto

lemma feq_NaN [simp]: "\<not> feq NaN b" "\<not> feq a NaN"
  by (auto simp: feq_def)

section \<open>Sorting with a comparison function\<close>

text \<open>
  \<open>sort.Slice(xs, less)\<close> leaves a permutation of \<open>xs\<close> that is ordered by \<open>less\<close>; the order of
  elements that compare equal is not specified. \<open>go_sort\<close> is the stable representative. Its
  inputs come from a map walk whose order is an argument of the model, so every outcome of the
  unstable sort is the outcome of \<open>go_sort\<close> for some walk.
\<close>

fun go_insert :: "('a \<Rightarrow> 'a \<Rightarrow> bool) \<Rightarrow> 'a \<Rightarrow> 'a list \<Rightarrow> 'a list" where
  "go_insert lt x [] = [x]"
| "go_insert lt x (y # ys) = (if lt y x then y # go_insert lt x ys else x # y # ys)"

definition go_sort :: "('a \<Rightarrow> 'a \<Rightarrow> bool) \<Rightarrow> 'a list \<Rightarrow> 'a list" where
  "go_sort lt xs = foldr (go_insert lt) xs []"

lemma go_sort_simps [simp]:
  "go_sort lt [] = []"
  "go_sort lt (x # xs) = go_insert lt x (go_sort lt xs)"
  by (simp_all add: go_sort_def)

lemma mset_go_insert [simp]: "mset (go_insert lt x xs) = add_mset x (mset xs)"
  by (induction xs) auto

lemma mset_go_sort [simp]: "mset (go_sort lt xs) = mset xs"
  by (induction xs) auto

lemma set_go_insert [simp]: "set (go_insert lt x xs) = insert x (set xs)"
  by (induction xs) auto

lemma set_go_sort [simp]: "set (go_sort lt xs) = set xs"
  by (induction xs) auto

lemma length_go_sort [simp]: "length (go_sort lt xs) = length xs"
  using mset_go_sort [of lt xs] by (metis size_mset)

lemma distinct_go_sort [simp]: "distinct (go_sort lt xs) = distinct xs"
  by (metis mset_go_sort mset_eq_imp_distinct_iff)

text \<open>
  A comparison that is a strict weak order on the elements gives a sorted result: no later
  element is below an earlier one.
\<close>

definition weak_order_on :: "'a set \<Rightarrow> ('a \<Rightarrow> 'a \<Rightarrow> bool) \<Rightarrow> bool" where
  "weak_order_on A lt \<longleftrightarrow>
     (\<forall>x\<in>A. \<forall>y\<in>A. lt x y \<longrightarrow> \<not> lt y x) \<and>
     (\<forall>x\<in>A. \<forall>y\<in>A. \<forall>z\<in>A. \<not> lt y x \<longrightarrow> \<not> lt z y \<longrightarrow> \<not> lt z x)"

lemma weak_order_onD:
  assumes "weak_order_on A lt"
  shows "x \<in> A \<Longrightarrow> y \<in> A \<Longrightarrow> lt x y \<Longrightarrow> \<not> lt y x"
    and "x \<in> A \<Longrightarrow> y \<in> A \<Longrightarrow> z \<in> A \<Longrightarrow> \<not> lt y x \<Longrightarrow> \<not> lt z y \<Longrightarrow> \<not> lt z x"
  using assms unfolding weak_order_on_def by blast+

lemma weak_order_on_subset: "weak_order_on A lt \<Longrightarrow> B \<subseteq> A \<Longrightarrow> weak_order_on B lt"
  unfolding weak_order_on_def by blast

lemma sorted_go_insert:
  assumes "weak_order_on (insert x (set xs)) lt" "sorted_wrt (\<lambda>a b. \<not> lt b a) xs"
  shows "sorted_wrt (\<lambda>a b. \<not> lt b a) (go_insert lt x xs)"
  using assms
proof (induction xs)
  case Nil
  then show ?case by simp
next
  case (Cons y ys)
  have sub: "weak_order_on (insert x (set ys)) lt"
    using Cons.prems(1) by (rule weak_order_on_subset) auto
  show ?case
  proof (cases "lt y x")
    case True
    have "\<not> lt x y"
      using weak_order_onD(1) [OF Cons.prems(1)] True by auto
    with True sub Cons show ?thesis by auto
  next
    case False
    have "\<not> lt z x" if "z \<in> set ys" for z
      using weak_order_onD(2) [OF Cons.prems(1), of x y z] False that Cons.prems(2) by auto
    with False Cons.prems show ?thesis by auto
  qed
qed

lemma sorted_go_sort:
  assumes "weak_order_on (set xs) lt"
  shows "sorted_wrt (\<lambda>a b. \<not> lt b a) (go_sort lt xs)"
  using assms
proof (induction xs)
  case Nil
  then show ?case by simp
next
  case (Cons x xs)
  have "weak_order_on (set xs) lt"
    using Cons.prems by (rule weak_order_on_subset) auto
  with Cons have "sorted_wrt (\<lambda>a b. \<not> lt b a) (go_sort lt xs)" by blast
  with Cons.prems show ?case by (auto intro: sorted_go_insert)
qed

lemma weak_order_flt:
  assumes "\<And>x. x \<in> A \<Longrightarrow> key x \<noteq> NaN"
  shows "weak_order_on A (\<lambda>x y. flt (key x) (key y))"
  unfolding weak_order_on_def
proof (intro conjI ballI impI)
  fix x y assume "flt (key x) (key y)"
  then show "\<not> flt (key y) (key x)" by (rule flt_asym)
next
  fix x y z
  assume "y \<in> A" "\<not> flt (key y) (key x)" "\<not> flt (key z) (key y)"
  then show "\<not> flt (key z) (key x)" using not_flt_trans assms by blast
qed

section \<open>Binary search\<close>

text \<open>The loop of \<open>sort.Search\<close>: \<open>lo\<close> and \<open>hi\<close> are the bounds Go calls \<open>i\<close> and \<open>j\<close>.\<close>

function go_search_loop :: "(nat \<Rightarrow> bool) \<Rightarrow> nat \<Rightarrow> nat \<Rightarrow> nat" where
  "go_search_loop f lo hi =
     (if lo < hi
      then let h = (lo + hi) div 2 in
        if \<not> f h then go_search_loop f (h + 1) hi else go_search_loop f lo h
      else lo)"
  by pat_completeness auto
termination
  by (relation "measure (\<lambda>(f, lo, hi). hi - lo)") auto

declare go_search_loop.simps [simp del]

lemma go_search_loop_stop: "\<not> lo < hi \<Longrightarrow> go_search_loop f lo hi = lo"
  by (subst go_search_loop.simps) simp

definition go_search :: "nat \<Rightarrow> (nat \<Rightarrow> bool) \<Rightarrow> nat" where
  "go_search n f = go_search_loop f 0 n"

lemma go_search_loop_spec:
  assumes "\<And>a b. a \<le> b \<Longrightarrow> b < n \<Longrightarrow> f a \<Longrightarrow> f b" "lo \<le> hi" "hi \<le> n"
    "\<And>a. a < lo \<Longrightarrow> \<not> f a" "hi < n \<Longrightarrow> f hi"
  shows "go_search_loop f lo hi \<le> n \<and>
    (\<forall>a < go_search_loop f lo hi. \<not> f a) \<and>
    (go_search_loop f lo hi < n \<longrightarrow> f (go_search_loop f lo hi))"
  using assms
proof (induction f lo hi rule: go_search_loop.induct)
  case (1 f lo hi)
  define h where "h = (lo + hi) div 2"
  show ?case
  proof (cases "lo < hi")
    case False
    with "1.prems" show ?thesis by (auto simp: go_search_loop_stop)
  next
    case lt: True
    then have h: "lo \<le> h" "h < hi" by (auto simp: h_def)
    show ?thesis
    proof (cases "f h")
      case True
      have step: "go_search_loop f lo hi = go_search_loop f lo h"
        using lt True by (subst go_search_loop.simps) (simp add: h_def Let_def)
      show ?thesis unfolding step
      proof (rule "1.IH"(2) [OF lt h_def])
        show "\<not> \<not> f h" using True by simp
        show "\<And>a b. a \<le> b \<Longrightarrow> b < n \<Longrightarrow> f a \<Longrightarrow> f b" by (rule "1.prems"(1))
        show "lo \<le> h" "h \<le> n" using h "1.prems"(3) by simp_all
        show "\<And>a. a < lo \<Longrightarrow> \<not> f a" by (rule "1.prems"(4))
        show "f h" by (rule True)
      qed
    next
      case False
      have step: "go_search_loop f lo hi = go_search_loop f (h + 1) hi"
        using lt False by (subst go_search_loop.simps) (simp add: h_def Let_def)
      show ?thesis unfolding step
      proof (rule "1.IH"(1) [OF lt h_def False])
        show "\<And>a b. a \<le> b \<Longrightarrow> b < n \<Longrightarrow> f a \<Longrightarrow> f b" by (rule "1.prems"(1))
        show "h + 1 \<le> hi" "hi \<le> n" using h "1.prems"(3) by simp_all
        show "\<not> f a" if "a < h + 1" for a
          using "1.prems"(1) [of a h] False that h "1.prems"(3) by auto
        show "hi < n \<Longrightarrow> f hi" by (rule "1.prems"(5))
      qed
    qed
  qed
qed

text \<open>For a predicate that stays true once it is true, the search finds the first index.\<close>

lemma go_search_spec:
  assumes "\<forall>a b. a \<le> b \<longrightarrow> b < n \<longrightarrow> f a \<longrightarrow> f b"
  shows "go_search n f \<le> n" "\<And>a. a < go_search n f \<Longrightarrow> \<not> f a"
    "go_search n f < n \<Longrightarrow> f (go_search n f)"
  using go_search_loop_spec [of n f 0 n] assms unfolding go_search_def by blast+

section \<open>Results that may be errors\<close>

fun bind_res :: "'e + 'a \<Rightarrow> ('a \<Rightarrow> 'e + 'b) \<Rightarrow> 'e + 'b" where
  "bind_res (Inl e) f = Inl e"
| "bind_res (Inr a) f = f a"

text \<open>Running a fallible step over a list stops at the first error.\<close>

fun fold_res :: "('s \<Rightarrow> 'a \<Rightarrow> 'e + 's) \<Rightarrow> 's \<Rightarrow> 'a list \<Rightarrow> 'e + 's" where
  "fold_res f s [] = Inr s"
| "fold_res f s (x # xs) = bind_res (f s x) (\<lambda>s'. fold_res f s' xs)"

lemma bind_res_Inr: "bind_res r f = Inr b \<longleftrightarrow> (\<exists>a. r = Inr a \<and> f a = Inr b)"
  by (cases r) auto

lemma fold_res_append:
  "fold_res f s (xs @ ys) = bind_res (fold_res f s xs) (\<lambda>s'. fold_res f s' ys)"
proof (induction xs arbitrary: s)
  case Nil
  then show ?case by simp
next
  case (Cons x xs)
  then show ?case by (cases "f s x") auto
qed

section \<open>Maps\<close>

text \<open>The order in which the runtime walks a map.\<close>

definition walk_of :: "'k list \<Rightarrow> ('k \<rightharpoonup> 'v) \<Rightarrow> bool" where
  "walk_of walk m \<longleftrightarrow> distinct walk \<and> set walk = dom m"

lemma walk_ofD: "walk_of walk m \<Longrightarrow> distinct walk" "walk_of walk m \<Longrightarrow> k \<in> set walk \<longleftrightarrow> m k \<noteq> None"
  by (auto simp: walk_of_def)

section \<open>Sorted lists of names\<close>

text \<open>
  \<open>sort.Strings\<close> orders by bytes, which is the lexicographic order of \<open>List_Lexorder\<close> over the
  character order of \<open>Char_ord\<close>. The sorted list of a finite set is unique.
\<close>

lemma sorted_list_of_set_unique:
  "finite A \<Longrightarrow> sorted xs \<Longrightarrow> distinct xs \<Longrightarrow> set xs = A \<Longrightarrow> xs = sorted_list_of_set A"
  by (simp add: sorted_distinct_set_unique)

lemma sum_list_map_nonneg:
  fixes f :: "'a \<Rightarrow> int"
  shows "(\<And>x. x \<in> set xs \<Longrightarrow> 0 \<le> f x) \<Longrightarrow> 0 \<le> sum_list (map f xs)"
  by (induction xs) auto

end
