(* ===== verification/GoText.thy ===== *)
theory GoText
  imports Prelude
begin

text \<open>
  The parts of Go's \<open>strings\<close>, \<open>strconv\<close> and \<open>fmt\<close> packages the nodeset, vault and routing code
  uses: searching, splitting and trimming byte strings, \<open>strconv.Atoi\<close>, \<open>strconv.Itoa\<close> and the
  zero-padded \<open>%0*d\<close> verb. The round trip between printing and parsing decimal numbers at the end
  is what the nodeset round trips rest on. White space is the ASCII white space.
\<close>

section \<open>Searching and splitting\<close>

fun index_byte :: "string \<Rightarrow> char \<Rightarrow> nat option" where
  "index_byte [] c = None"
| "index_byte (x # xs) c = (if x = c then Some 0 else map_option Suc (index_byte xs c))"

fun str_index :: "string \<Rightarrow> string \<Rightarrow> nat option" where
  "str_index [] sub = (if sub = [] then Some 0 else None)"
| "str_index (x # xs) sub =
     (if prefix sub (x # xs) then Some 0 else map_option Suc (str_index xs sub))"

fun split_on :: "char \<Rightarrow> string \<Rightarrow> string list" where
  "split_on c [] = [[]]"
| "split_on c (x # xs) =
     (if x = c then [] # split_on c xs
      else (case split_on c xs of [] \<Rightarrow> [[x]] | p # ps \<Rightarrow> (x # p) # ps))"

fun join :: "string \<Rightarrow> string list \<Rightarrow> string" where
  "join sep [] = []"
| "join sep [p] = p"
| "join sep (p # q # ps) = p @ sep @ join sep (q # ps)"

definition is_space :: "char \<Rightarrow> bool" where
  "is_space c \<longleftrightarrow> c = CHR '' '' \<or> c = CHR 0x09 \<or> c = CHR 0x0A \<or> c = CHR 0x0B \<or>
     c = CHR 0x0C \<or> c = CHR 0x0D"

definition trim_space :: "string \<Rightarrow> string" where
  "trim_space s = rev (dropWhile is_space (rev (dropWhile is_space s)))"

lemma index_byte_None: "index_byte s c = None \<longleftrightarrow> c \<notin> set s"
  by (induction s) auto

lemma index_byte_Some:
  "index_byte s c = Some i \<longleftrightarrow> i < length s \<and> s ! i = c \<and> c \<notin> set (take i s)"
proof (induction s arbitrary: i)
  case Nil
  then show ?case by simp
next
  case (Cons x xs)
  then show ?case by (cases i) auto
qed

lemma index_byte_append:
  "c \<notin> set a \<Longrightarrow> index_byte (a @ c # b) c = Some (length a)"
  by (induction a) auto

lemma index_byte_append_notin:
  "c \<notin> set a \<Longrightarrow> index_byte (a @ b) c = map_option (\<lambda>i. length a + i) (index_byte b c)"
  by (induction a) (cases "index_byte b c"; auto)+

lemma split_on_nonempty [simp]: "split_on c s \<noteq> []"
  by (induction s) (auto split: list.splits)

lemma split_on_single: "c \<notin> set s \<Longrightarrow> split_on c s = [s]"
  by (induction s) auto

lemma split_on_append: "c \<notin> set p \<Longrightarrow> split_on c (p @ c # s) = p # split_on c s"
  by (induction p) auto

lemma join_Cons: "ps \<noteq> [] \<Longrightarrow> join sep (p # ps) = p @ sep @ join sep ps"
  by (cases ps) auto

text \<open>Joining parts that do not contain the separator and splitting again gives the parts back.\<close>

lemma split_on_join:
  "ps \<noteq> [] \<Longrightarrow> (\<And>p. p \<in> set ps \<Longrightarrow> c \<notin> set p) \<Longrightarrow> split_on c (join [c] ps) = ps"
proof (induction ps)
  case Nil
  then show ?case by simp
next
  case (Cons p ps)
  show ?case
  proof (cases "ps = []")
    case True
    with Cons.prems show ?thesis by (simp add: split_on_single)
  next
    case False
    then have "join [c] (p # ps) = p @ c # join [c] ps" by (simp add: join_Cons)
    with Cons False show ?thesis by (simp add: split_on_append)
  qed
qed

lemma set_join_subset: "set (join sep ps) \<subseteq> set sep \<union> (\<Union>p\<in>set ps. set p)"
proof (induction ps)
  case Nil
  then show ?case by simp
next
  case (Cons p ps)
  then show ?case by (cases ps) auto
qed

lemma trim_space_id:
  "s = [] \<or> (\<not> is_space (hd s) \<and> \<not> is_space (last s)) \<Longrightarrow> trim_space s = s"
proof -
  assume a: "s = [] \<or> (\<not> is_space (hd s) \<and> \<not> is_space (last s))"
  show ?thesis
  proof (cases "s = []")
    case True
    then show ?thesis by (simp add: trim_space_def)
  next
    case False
    have "dropWhile is_space s = s"
      using a False by (cases s) auto
    moreover have "dropWhile is_space (rev s) = rev s"
      using a False by (cases "rev s") (auto simp: last_rev hd_rev dest: arg_cong [where f = rev])
    ultimately show ?thesis by (simp add: trim_space_def)
  qed
qed

lemma trim_space_no_space: "(\<And>c. c \<in> set s \<Longrightarrow> \<not> is_space c) \<Longrightarrow> trim_space s = s"
  by (rule trim_space_id) (auto dest: hd_in_set last_in_set)

lemma set_trim_space: "set (trim_space s) \<subseteq> set s"
  unfolding trim_space_def by (metis set_dropWhileD set_rev subsetI)

section \<open>Decimal digits\<close>

definition is_digit :: "char \<Rightarrow> bool" where
  "is_digit c \<longleftrightarrow> 48 \<le> (of_char c :: nat) \<and> (of_char c :: nat) \<le> 57"

definition digit_of :: "char \<Rightarrow> int" where
  "digit_of c = int (of_char c) - 48"

definition digit_char :: "nat \<Rightarrow> char" where
  "digit_char d = char_of (48 + d)"

definition dec_val :: "string \<Rightarrow> int" where
  "dec_val s = foldl (\<lambda>v c. v * 10 + digit_of c) 0 s"

fun itoa_nat :: "nat \<Rightarrow> string" where
  "itoa_nat n = (if n < 10 then [digit_char n] else itoa_nat (n div 10) @ [digit_char (n mod 10)])"

declare itoa_nat.simps [simp del]

definition itoa :: "int \<Rightarrow> string" where
  "itoa v = (if v < 0 then CHR ''-'' # itoa_nat (nat (- v)) else itoa_nat (nat v))"

text \<open>\<open>fmt.Sprintf("%0*d", w, v)\<close>: the sign comes first and the zeros fill up to the width.\<close>

definition sprintf0 :: "int \<Rightarrow> int \<Rightarrow> string" where
  "sprintf0 w v =
     (if v < 0 then CHR ''-'' # replicate (nat w - 1 - length (itoa_nat (nat (- v)))) CHR ''0''
                     @ itoa_nat (nat (- v))
      else replicate (nat w - length (itoa_nat (nat v))) CHR ''0'' @ itoa_nat (nat v))"

text \<open>
  \<open>strconv.Atoi\<close>: an optional sign, then decimal digits only, and a value that fits 64 bits;
  \<open>None\<close> stands for the error.
\<close>

definition atoi :: "string \<Rightarrow> int option" where
  "atoi s =
     (let neg = (s \<noteq> [] \<and> hd s = CHR ''-'');
          ds = (if s \<noteq> [] \<and> (hd s = CHR ''-'' \<or> hd s = CHR ''+'') then tl s else s);
          v = (if neg then - dec_val ds else dec_val ds)
      in if ds = [] \<or> \<not> list_all is_digit ds then None
         else if v < - (2 ^ 63) \<or> max_int < v then None
         else Some v)"

lemma of_char_digit_char: "d < 10 \<Longrightarrow> (of_char (digit_char d) :: nat) = 48 + d"
  by (simp add: digit_char_def)

lemma is_digit_digit_char [simp]: "d < 10 \<Longrightarrow> is_digit (digit_char d)"
  by (simp add: is_digit_def of_char_digit_char)

lemma digit_of_digit_char [simp]: "d < 10 \<Longrightarrow> digit_of (digit_char d) = int d"
proof -
  assume "d < 10"
  then have "(of_char (digit_char d) :: nat) = 48 + d" by (rule of_char_digit_char)
  then show ?thesis by (simp add: digit_of_def)
qed

lemma digit_char_0: "digit_char 0 = CHR ''0''"
  by code_simp

lemma digit_char_eq_0: "d < 10 \<Longrightarrow> digit_char d = CHR ''0'' \<longleftrightarrow> d = 0"
  by (metis of_char_digit_char digit_char_0 add_cancel_left_right of_nat_0_less_iff zero_less_numeral)

lemma digit_of_0 [simp]: "digit_of CHR ''0'' = 0"
  using digit_of_digit_char [of 0] by (simp add: digit_char_0)

lemma is_digit_0 [simp]: "is_digit CHR ''0''"
  using is_digit_digit_char [of 0] by (simp add: digit_char_0)

lemma digit_of_range: "is_digit c \<Longrightarrow> 0 \<le> digit_of c \<and> digit_of c \<le> 9"
proof -
  assume "is_digit c"
  then have "48 \<le> (of_char c :: nat)" "(of_char c :: nat) \<le> 57" by (auto simp: is_digit_def)
  then show ?thesis unfolding digit_of_def by linarith
qed

lemma not_digit_specials [simp]:
  "\<not> is_digit CHR ''-''" "\<not> is_digit CHR ''+''" "\<not> is_digit CHR '',''" "\<not> is_digit CHR ''/''"
  "\<not> is_digit CHR ''[''" "\<not> is_digit CHR '']''" "\<not> is_digit CHR ''!''" "\<not> is_digit CHR ''&''"
  "\<not> is_digit CHR ''^''" "\<not> is_digit CHR ''@''" "\<not> is_digit CHR '':''"
  by (auto simp: is_digit_def)

lemma is_digit_not_space: "is_digit c \<Longrightarrow> \<not> is_space c"
  by (auto simp: is_digit_def is_space_def)

section \<open>Printing and parsing numbers\<close>

lemma dec_val_simps [simp]:
  "dec_val [] = 0"
  "dec_val (s @ [c]) = dec_val s * 10 + digit_of c"
  by (simp_all add: dec_val_def)

lemma dec_val_zeros: "dec_val (replicate k CHR ''0'' @ s) = dec_val s"
proof (induction s rule: rev_induct)
  case Nil
  show ?case by (induction k) (simp_all add: dec_val_def)
next
  case (snoc c s)
  have "dec_val ((replicate k CHR ''0'' @ s) @ [c]) = dec_val s * 10 + digit_of c"
    using snoc by (simp only: dec_val_simps)
  then show ?case by simp
qed

lemma dec_val_nonneg: "list_all is_digit s \<Longrightarrow> 0 \<le> dec_val s"
  by (induction s rule: rev_induct) (use digit_of_range in \<open>auto\<close>)

lemma dec_val_itoa_nat [simp]: "dec_val (itoa_nat n) = int n"
proof (induction n rule: itoa_nat.induct)
  case (1 n)
  show ?case
  proof (cases "n < 10")
    case True
    then have "dec_val ([] @ [digit_char n]) = int n" by (simp only: dec_val_simps) simp
    with True show ?thesis by (simp add: itoa_nat.simps)
  next
    case False
    with 1 have "dec_val (itoa_nat n) = int (n div 10) * 10 + int (n mod 10)"
      by (subst itoa_nat.simps) simp
    then show ?thesis by presburger
  qed
qed

lemma itoa_nat_nonempty [simp]: "itoa_nat n \<noteq> []"
  by (subst itoa_nat.simps) simp

lemma itoa_nat_digits: "list_all is_digit (itoa_nat n)"
proof (induction n rule: itoa_nat.induct)
  case (1 n)
  then show ?case by (subst itoa_nat.simps) auto
qed

lemma itoa_nat_inj [simp]: "itoa_nat m = itoa_nat n \<longleftrightarrow> m = n"
  by (metis dec_val_itoa_nat of_nat_eq_iff)

text \<open>A printed number starts with the digit zero only if it is zero.\<close>

lemma itoa_nat_hd_zero: "hd (itoa_nat n) = CHR ''0'' \<longleftrightarrow> n = 0"
proof (induction n rule: itoa_nat.induct)
  case (1 n)
  then show ?case
    by (subst itoa_nat.simps) (auto simp: digit_char_eq_0)
qed

lemma length_itoa_nat_0 [simp]: "length (itoa_nat 0) = 1"
  by (simp add: itoa_nat.simps)

lemma dec_val_bound: "list_all is_digit s \<Longrightarrow> dec_val s < 10 ^ length s"
proof (induction s rule: rev_induct)
  case Nil
  then show ?case by simp
next
  case (snoc c s)
  then show ?case using digit_of_range [of c] by auto
qed

lemma dec_val_lower: "s \<noteq> [] \<Longrightarrow> list_all is_digit s \<Longrightarrow> hd s \<noteq> CHR ''0'' \<Longrightarrow>
  10 ^ (length s - 1) \<le> dec_val s"
proof (induction s rule: rev_induct)
  case Nil
  then show ?case by simp
next
  case (snoc c s)
  show ?case
  proof (cases "s = []")
    case True
    with snoc.prems have c: "is_digit c" "c \<noteq> CHR ''0''" by auto
    have "digit_of c \<noteq> 0"
    proof
      assume "digit_of c = 0"
      then have "(of_char c :: nat) = of_char CHR ''0''" by (simp add: digit_of_def)
      then show False using c(2) by (simp only: of_char_eq_iff)
    qed
    with c digit_of_range [of c] have "1 \<le> digit_of c" by auto
    with True show ?thesis by (simp add: dec_val_def)
  next
    case False
    with snoc have ih: "10 ^ (length s - 1) \<le> dec_val s" by auto
    have "(10::int) ^ length s = 10 * 10 ^ (length s - 1)"
      using False by (cases s) auto
    with ih snoc.prems digit_of_range [of c] show ?thesis by auto
  qed
qed

text \<open>
  Printing is the only canonical form: a string of digits with no superfluous leading zero is
  what \<open>itoa_nat\<close> prints for its value.
\<close>

lemma itoa_nat_dec_val:
  "s \<noteq> [] \<Longrightarrow> list_all is_digit s \<Longrightarrow> (hd s = CHR ''0'' \<longrightarrow> length s = 1) \<Longrightarrow>
   itoa_nat (nat (dec_val s)) = s"
proof (induction s rule: rev_induct)
  case Nil
  then show ?case by simp
next
  case (snoc c s)
  have dc: "digit_char (nat (digit_of c)) = c"
    using snoc.prems(2) by (auto simp: digit_char_def digit_of_def is_digit_def nat_diff_distrib)
  have r: "0 \<le> digit_of c" "digit_of c \<le> 9"
    using digit_of_range [of c] snoc.prems(2) by auto
  show ?case
  proof (cases "s = []")
    case True
    have "dec_val ([] @ [c]) = digit_of c" using dec_val_simps(2) [of "[]" c] by simp
    with True r dc show ?thesis by (subst itoa_nat.simps) simp
  next
    case False
    with snoc.prems have hd0: "hd s \<noteq> CHR ''0''" by auto
    with False snoc have ih: "itoa_nat (nat (dec_val s)) = s" by auto
    have pos: "1 \<le> dec_val s"
    proof -
      have "(1::int) \<le> 10 ^ (length s - 1)" by simp
      also have "\<dots> \<le> dec_val s"
        using dec_val_lower [of s] False hd0 snoc.prems(2) by simp
      finally show ?thesis .
    qed
    define v where "v = nat (dec_val (s @ [c]))"
    have v: "v = nat (dec_val s) * 10 + nat (digit_of c)"
      unfolding v_def using pos r by (simp add: nat_add_distrib nat_mult_distrib)
    have "\<not> v < 10" "v div 10 = nat (dec_val s)" "v mod 10 = nat (digit_of c)"
      using v pos r by auto
    then have "itoa_nat v = itoa_nat (nat (dec_val s)) @ [digit_char (nat (digit_of c))]"
      by (subst itoa_nat.simps) simp
    with ih dc show ?thesis by (simp add: v_def)
  qed
qed

lemma atoi_digits:
  assumes "ds \<noteq> []" "list_all is_digit ds" "dec_val ds \<le> max_int"
  shows "atoi ds = Some (dec_val ds)"
proof -
  obtain d ds' where ds: "ds = d # ds'" using assms(1) by (cases ds) auto
  have "is_digit d" using assms(2) ds by simp
  then have "d \<noteq> CHR ''-''" "d \<noteq> CHR ''+''" using not_digit_specials by metis+
  then have "atoi ds = (if dec_val ds < - (2 ^ 63) \<or> max_int < dec_val ds then None else Some (dec_val ds))"
    using assms(2) by (simp add: atoi_def ds)
  moreover have "0 \<le> dec_val ds" using assms(2) by (rule dec_val_nonneg)
  ultimately show ?thesis using assms(3) by simp
qed

lemma atoi_itoa_nat: "int n \<le> max_int \<Longrightarrow> atoi (itoa_nat n) = Some (int n)"
  using atoi_digits [OF itoa_nat_nonempty itoa_nat_digits] by simp

lemma sprintf0_digits: "0 \<le> v \<Longrightarrow> list_all is_digit (sprintf0 w v)"
  using itoa_nat_digits [of "nat v"] by (auto simp: sprintf0_def list_all_iff)

lemma sprintf0_nonempty [simp]: "sprintf0 w v \<noteq> []"
  by (simp add: sprintf0_def)

lemma dec_val_sprintf0: "0 \<le> v \<Longrightarrow> dec_val (sprintf0 w v) = v"
  by (simp add: sprintf0_def dec_val_zeros)

lemma atoi_sprintf0: "0 \<le> v \<Longrightarrow> v \<le> max_int \<Longrightarrow> atoi (sprintf0 w v) = Some v"
  using atoi_digits [OF sprintf0_nonempty sprintf0_digits] by (simp add: dec_val_sprintf0)

end
