(* ===== verification/RangeSet.thy ===== *)
theory RangeSet
  imports GoText
begin

text \<open>
  Model of \<open>pkg/mesh/nodeset/rangeset.go\<close>: a set of integers kept as a sorted list of disjoint,
  non-adjacent inclusive ranges. The state is the Go struct \<open>rangeSet\<close>; every method is a function
  of the same name with the prefix \<open>rs_\<close>. \<open>rs_inv\<close> is the invariant the comment of the struct
  promises, \<open>rs_elems\<close> the abstraction to a set of integers, and each operation is shown to keep
  the first and to act on the second as its name says.

  Arithmetic is on unbounded integers. It agrees with Go's 64-bit arithmetic as long as every bound
  lies strictly between the least and the greatest \<open>int\<close>, since the code only ever computes
  \<open>lo - 1\<close>, \<open>hi + 1\<close> and differences of values of the set.
\<close>

section \<open>State\<close>

record rang =
  rlo :: int
  rhi :: int

record rangeSet =
  rs_ranges :: "rang list"
  rs_padding :: int

definition mk_rang :: "int \<Rightarrow> int \<Rightarrow> rang" where
  "mk_rang l h = \<lparr>rlo = l, rhi = h\<rparr>"

lemma rang_sel [simp]: "rlo (mk_rang l h) = l" "rhi (mk_rang l h) = h"
  by (simp_all add: mk_rang_def)

lemma rang_eq_iff: "(a::rang) = b \<longleftrightarrow> rlo a = rlo b \<and> rhi a = rhi b"
  by (cases a; cases b) simp

section \<open>Operations\<close>

definition newRangeSet :: "int \<Rightarrow> rangeSet" where
  "newRangeSet p = \<lparr>rs_ranges = [], rs_padding = p\<rparr>"

fun rs_len_loop :: "int \<Rightarrow> rang list \<Rightarrow> int" where
  "rs_len_loop n [] = n"
| "rs_len_loop n (r # rs) = rs_len_loop (n + (rhi r - rlo r + 1)) rs"

definition rs_len :: "rangeSet \<Rightarrow> int" where
  "rs_len s = rs_len_loop 0 (rs_ranges s)"

definition rs_isEmpty :: "rangeSet \<Rightarrow> bool" where
  "rs_isEmpty s \<longleftrightarrow> rs_ranges s = []"

definition rs_contains :: "rangeSet \<Rightarrow> int \<Rightarrow> bool" where
  "rs_contains s v =
     (let i = go_search (length (rs_ranges s)) (\<lambda>i. rhi (rs_ranges s ! i) \<ge> v)
      in i < length (rs_ranges s) \<and> rlo (rs_ranges s ! i) \<le> v)"

text \<open>
  The loop of \<open>Add\<close>. The result is the slice \<open>merged\<close>, built here by \<open>#\<close> where Go appends;
  \<open>newR\<close> and \<open>inserted\<close> are the loop variables of the same names.
\<close>

fun add_loop :: "rang \<Rightarrow> bool \<Rightarrow> rang list \<Rightarrow> rang list" where
  "add_loop newR inserted [] = (if \<not> inserted then [newR] else [])"
| "add_loop newR inserted (r # rs) =
     (if rhi r < rlo newR - 1 then r # add_loop newR inserted rs
      else if rlo r > rhi newR + 1 then
        (if \<not> inserted then newR # r # add_loop newR True rs
         else r # add_loop newR inserted rs)
      else add_loop
             (mk_rang (if rlo r < rlo newR then rlo r else rlo newR)
                      (if rhi r > rhi newR then rhi r else rhi newR)) inserted rs)"

definition rs_add :: "rangeSet \<Rightarrow> int \<Rightarrow> int \<Rightarrow> rangeSet" where
  "rs_add s l h =
     (if l > h then s else s\<lparr>rs_ranges := add_loop (mk_rang l h) False (rs_ranges s)\<rparr>)"

fun remove_loop :: "int \<Rightarrow> int \<Rightarrow> rang list \<Rightarrow> rang list" where
  "remove_loop l h [] = []"
| "remove_loop l h (r # rs) =
     (if rhi r < l \<or> rlo r > h then r # remove_loop l h rs
      else (if rlo r < l then [mk_rang (rlo r) (l - 1)] else []) @
           (if rhi r > h then [mk_rang (h + 1) (rhi r)] else []) @ remove_loop l h rs)"

definition rs_remove :: "rangeSet \<Rightarrow> int \<Rightarrow> int \<Rightarrow> rangeSet" where
  "rs_remove s l h =
     (if l > h \<or> rs_ranges s = [] then s else s\<lparr>rs_ranges := remove_loop l h (rs_ranges s)\<rparr>)"

definition rs_expand :: "rangeSet \<Rightarrow> int list" where
  "rs_expand s = concat (map (\<lambda>r. [rlo r..rhi r]) (rs_ranges s))"

definition formatInt :: "int \<Rightarrow> int \<Rightarrow> string" where
  "formatInt p v = (if p \<le> 0 then itoa v else sprintf0 p v)"

definition rs_expandStrings :: "rangeSet \<Rightarrow> string list" where
  "rs_expandStrings s = map (formatInt (rs_padding s)) (rs_expand s)"

fun foldRange_part :: "int \<Rightarrow> rang \<Rightarrow> string" where
  "foldRange_part p r =
     (if rlo r = rhi r then formatInt p (rlo r)
      else formatInt p (rlo r) @ ''-'' @ formatInt p (rhi r))"

definition rs_foldRanges :: "rangeSet \<Rightarrow> string" where
  "rs_foldRanges s = join '','' (map (foldRange_part (rs_padding s)) (rs_ranges s))"

fun step_loop :: "int \<Rightarrow> int \<Rightarrow> int list \<Rightarrow> int" where
  "step_loop step prev [] = step"
| "step_loop step prev (v # vs) = (if v - prev \<noteq> step then 0 else step_loop step v vs)"

fun detectStep :: "int list \<Rightarrow> int" where
  "detectStep (a # b # vs) = (if b - a \<le> 0 then 0 else step_loop (b - a) b vs)"
| "detectStep _ = 1"

definition rs_fold :: "rangeSet \<Rightarrow> string" where
  "rs_fold s =
     (let p = rs_padding s; values = rs_expand s in
      if rs_ranges s = [] then ''''
      else if values = [] then ''''
      else if length values = 1 then formatInt p (values ! 0)
      else let step = detectStep values in
        if step > 0 then
          (if step = 1 then rs_foldRanges s
           else formatInt p (values ! 0) @ ''-'' @ formatInt p (values ! (length values - 1)) @
                ''/'' @ itoa step)
        else rs_foldRanges s)"

definition rs_copy :: "rangeSet \<Rightarrow> rangeSet" where
  "rs_copy s = \<lparr>rs_ranges = rs_ranges s, rs_padding = rs_padding s\<rparr>"

definition rs_union :: "rangeSet \<Rightarrow> rangeSet \<Rightarrow> rangeSet" where
  "rs_union s t = foldl (\<lambda>u r. rs_add u (rlo r) (rhi r)) (rs_copy s) (rs_ranges t)"

definition rs_difference :: "rangeSet \<Rightarrow> rangeSet \<Rightarrow> rangeSet" where
  "rs_difference s t = foldl (\<lambda>u r. rs_remove u (rlo r) (rhi r)) (rs_copy s) (rs_ranges t)"

definition inter_step :: "rang \<Rightarrow> rangeSet \<Rightarrow> rang \<Rightarrow> rangeSet" where
  "inter_step a u b =
     (let l = (if rlo b > rlo a then rlo b else rlo a);
          h = (if rhi b < rhi a then rhi b else rhi a)
      in if l \<le> h then rs_add u l h else u)"

definition rs_intersection :: "rangeSet \<Rightarrow> rangeSet \<Rightarrow> rangeSet" where
  "rs_intersection s t =
     foldl (\<lambda>u a. foldl (inter_step a) u (rs_ranges t)) (newRangeSet (rs_padding s)) (rs_ranges s)"

definition rs_symmetricDifference :: "rangeSet \<Rightarrow> rangeSet \<Rightarrow> rangeSet" where
  "rs_symmetricDifference s t = rs_difference (rs_union s t) (rs_intersection s t)"

definition rs_isSubset :: "rangeSet \<Rightarrow> rangeSet \<Rightarrow> bool" where
  "rs_isSubset s t = rs_isEmpty (rs_difference s t)"

definition rs_isSuperset :: "rangeSet \<Rightarrow> rangeSet \<Rightarrow> bool" where
  "rs_isSuperset s t = rs_isSubset t s"

fun ranges_equal_loop :: "rang list \<Rightarrow> rang list \<Rightarrow> bool" where
  "ranges_equal_loop (a # as) (b # bs) = (if a \<noteq> b then False else ranges_equal_loop as bs)"
| "ranges_equal_loop _ _ = True"

definition rs_equal :: "rangeSet \<Rightarrow> rangeSet \<Rightarrow> bool" where
  "rs_equal s t =
     (if length (rs_ranges s) \<noteq> length (rs_ranges t) then False
      else ranges_equal_loop (rs_ranges s) (rs_ranges t))"

section \<open>Invariant and abstraction\<close>

definition ranges_ok :: "rang list \<Rightarrow> bool" where [inv_defs]:
  "ranges_ok rs \<longleftrightarrow>
     (\<forall>r\<in>set rs. rlo r \<le> rhi r) \<and> sorted_wrt (\<lambda>a b. rhi a + 1 < rlo b) rs"

definition rs_inv :: "rangeSet \<Rightarrow> bool" where [inv_defs]:
  "rs_inv s \<longleftrightarrow> ranges_ok (rs_ranges s)"

definition ranges_elems :: "rang list \<Rightarrow> int set" where
  "ranges_elems rs = (\<Union>r\<in>set rs. {rlo r..rhi r})"

definition rs_elems :: "rangeSet \<Rightarrow> int set" where
  "rs_elems s = ranges_elems (rs_ranges s)"

lemma ranges_ok_simps [simp]:
  "ranges_ok []"
  "ranges_ok (r # rs) \<longleftrightarrow> rlo r \<le> rhi r \<and> (\<forall>b\<in>set rs. rhi r + 1 < rlo b) \<and> ranges_ok rs"
  by (auto simp: ranges_ok_def)

lemma ranges_elems_simps [simp]:
  "ranges_elems [] = {}"
  "ranges_elems (r # rs) = {rlo r..rhi r} \<union> ranges_elems rs"
  "ranges_elems (rs @ ts) = ranges_elems rs \<union> ranges_elems ts"
  by (auto simp: ranges_elems_def)

lemma ranges_okD: "ranges_ok rs \<Longrightarrow> r \<in> set rs \<Longrightarrow> rlo r \<le> rhi r"
  by (simp add: ranges_ok_def)

lemma ranges_elems_lower: "ranges_ok rs \<Longrightarrow> (\<And>r. r \<in> set rs \<Longrightarrow> x < rlo r) \<Longrightarrow> v \<in> ranges_elems rs \<Longrightarrow> x < v"
  by (force simp: ranges_elems_def)

lemma newRangeSet_ok [simp]: "rs_inv (newRangeSet p)" "rs_elems (newRangeSet p) = {}"
  "rs_padding (newRangeSet p) = p" "rs_ranges (newRangeSet p) = []"
  by (simp_all add: newRangeSet_def rs_inv_def rs_elems_def)

lemma rs_copy_id [simp]: "rs_copy s = s"
  by (simp add: rs_copy_def)

section \<open>Adding a range\<close>

lemma add_loop_inserted:
  "ranges_ok rs \<Longrightarrow> rlo n \<le> rhi n \<Longrightarrow> (\<And>r. r \<in> set rs \<Longrightarrow> rhi n + 1 < rlo r) \<Longrightarrow> add_loop n True rs = rs"
  by (induction rs) auto

lemma add_loop_lower:
  assumes "ranges_ok rs" "x < rlo n" "\<And>r. r \<in> set rs \<Longrightarrow> x < rlo r"
  shows "\<forall>r\<in>set (add_loop n ins rs). x < rlo r"
  using assms by (induction n ins rs rule: add_loop.induct) auto

lemma add_loop_correct:
  assumes "ranges_ok rs" "rlo n \<le> rhi n"
  shows "ranges_ok (add_loop n False rs) \<and>
    ranges_elems (add_loop n False rs) = ranges_elems rs \<union> {rlo n..rhi n}"
  using assms
proof (induction rs arbitrary: n)
  case Nil
  then show ?case by simp
next
  case (Cons r rs)
  then have ok: "ranges_ok rs" "rlo r \<le> rhi r" and gap: "\<And>b. b \<in> set rs \<Longrightarrow> rhi r + 1 < rlo b"
    by auto
  consider (before) "rhi r < rlo n - 1" | (after) "\<not> rhi r < rlo n - 1" "rlo r > rhi n + 1"
    | (merge) "\<not> rhi r < rlo n - 1" "\<not> rlo r > rhi n + 1" by blast
  then show ?case
  proof cases
    case before
    then have "\<forall>b\<in>set (add_loop n False rs). rhi r + 1 < rlo b"
      by (intro add_loop_lower [OF ok(1)]) (use before gap in auto)
    with before Cons.IH [OF ok(1) Cons.prems(2)] ok show ?thesis by auto
  next
    case after
    have "add_loop n True rs = rs"
      using ok(1) Cons.prems(2) by (rule add_loop_inserted) (use gap after ok in force)
    with after Cons.prems gap ok show ?thesis by fastforce
  next
    case merge
    define m where "m = mk_rang (if rlo r < rlo n then rlo r else rlo n)
                                (if rhi r > rhi n then rhi r else rhi n)"
    have m: "rlo m \<le> rhi m" "{rlo m..rhi m} = {rlo r..rhi r} \<union> {rlo n..rhi n}"
      using merge ok(2) Cons.prems(2) by (auto simp: m_def)
    have "add_loop n False (r # rs) = add_loop m False rs"
      using merge by (simp add: m_def)
    with Cons.IH [OF ok(1) m(1)] m(2) show ?thesis by auto
  qed
qed

lemma rs_add_inv [inv_intros]: "rs_inv s \<Longrightarrow> rs_inv (rs_add s l h)"
  using add_loop_correct [of "rs_ranges s" "mk_rang l h"] by (auto simp: rs_add_def rs_inv_def)

lemma rs_add_elems [elems_simps]: "rs_inv s \<Longrightarrow> rs_elems (rs_add s l h) = rs_elems s \<union> {l..h}"
  using add_loop_correct [of "rs_ranges s" "mk_rang l h"]
  by (auto simp: rs_add_def rs_inv_def rs_elems_def)

lemma rs_add_padding [simp]: "rs_padding (rs_add s l h) = rs_padding s"
  by (simp add: rs_add_def)

section \<open>Removing a range\<close>

lemma remove_loop_lower:
  assumes "ranges_ok rs" "\<forall>r\<in>set rs. x < rlo r"
  shows "\<forall>r\<in>set (remove_loop l h rs). x < rlo r"
  using assms by (induction l h rs rule: remove_loop.induct) auto

lemma remove_loop_correct:
  assumes "ranges_ok rs" "l \<le> h"
  shows "ranges_ok (remove_loop l h rs) \<and>
    ranges_elems (remove_loop l h rs) = ranges_elems rs - {l..h}"
  using assms(1)
proof (induction rs)
  case Nil
  then show ?case by simp
next
  case (Cons r rs)
  then have ok: "ranges_ok rs" "rlo r \<le> rhi r" and gap: "\<forall>b\<in>set rs. rhi r + 1 < rlo b"
    by auto
  have low: "\<forall>b\<in>set (remove_loop l h rs). rhi r + 1 < rlo b"
    using ok(1) gap by (rule remove_loop_lower)
  note ih = Cons.IH [OF ok(1)]
  show ?case
  proof (cases "rhi r < l \<or> rlo r > h")
    case True
    then have "{rlo r..rhi r} - {l..h} = {rlo r..rhi r}" by auto
    with True ih low ok(2) show ?thesis by (simp add: Un_Diff)
  next
    case False
    have cut: "{rlo r..rhi r} - {l..h} =
      (if rlo r < l then {rlo r..l - 1} else {}) \<union> (if rhi r > h then {h + 1..rhi r} else {})"
      using False assms(2) by auto
    have low': "\<forall>b\<in>set (remove_loop l h rs). l < rlo b" if "l \<le> rhi r"
      using low that by auto
    show ?thesis
    proof
      show "ranges_ok (remove_loop l h (r # rs))"
        using False ih low low' assms(2) by auto
      show "ranges_elems (remove_loop l h (r # rs)) = ranges_elems (r # rs) - {l..h}"
        using False ih cut by (simp add: Un_Diff Un_assoc)
    qed
  qed
qed

lemma rs_remove_inv [inv_intros]: "rs_inv s \<Longrightarrow> rs_inv (rs_remove s l h)"
  using remove_loop_correct [of "rs_ranges s" l h] by (auto simp: rs_remove_def rs_inv_def)

lemma rs_remove_elems [elems_simps]:
  "rs_inv s \<Longrightarrow> rs_elems (rs_remove s l h) = rs_elems s - {l..h}"
  using remove_loop_correct [of "rs_ranges s" l h]
  by (auto simp: rs_remove_def rs_inv_def rs_elems_def)

lemma rs_remove_padding [simp]: "rs_padding (rs_remove s l h) = rs_padding s"
  by (simp add: rs_remove_def)

section \<open>The interface the other components use\<close>

text \<open>
  A store of integers into which intervals are inserted. The bracket parser, the fold of node names
  and the set operations below only rely on these two laws.
\<close>

locale interval_store =
  fixes sinv :: "'s \<Rightarrow> bool" and selems :: "'s \<Rightarrow> int set" and ins :: "'s \<Rightarrow> int \<Rightarrow> int \<Rightarrow> 's"
  assumes inv_ins: "sinv s \<Longrightarrow> sinv (ins s l h)"
    and elems_ins: "sinv s \<Longrightarrow> selems (ins s l h) = selems s \<union> {l..h}"
begin

lemma ins_ranges:
  "sinv s \<Longrightarrow> sinv (foldl (\<lambda>u r. ins u (rlo r) (rhi r)) s rs) \<and>
     selems (foldl (\<lambda>u r. ins u (rlo r) (rhi r)) s rs) = selems s \<union> ranges_elems rs"
  by (induction rs arbitrary: s) (auto simp: inv_ins elems_ins)

lemma ins_values:
  "sinv s \<Longrightarrow> sinv (foldl (\<lambda>u v. ins u v v) s vs) \<and>
     selems (foldl (\<lambda>u v. ins u v v) s vs) = selems s \<union> set vs"
  by (induction vs arbitrary: s) (auto simp: inv_ins elems_ins)

end

text \<open>A store from which intervals can be taken out as well.\<close>

locale interval_store_del = interval_store +
  fixes del :: "'s \<Rightarrow> int \<Rightarrow> int \<Rightarrow> 's"
  assumes inv_del: "sinv s \<Longrightarrow> sinv (del s l h)"
    and elems_del: "sinv s \<Longrightarrow> selems (del s l h) = selems s - {l..h}"
begin

lemma del_ranges:
  "sinv s \<Longrightarrow> sinv (foldl (\<lambda>u r. del u (rlo r) (rhi r)) s rs) \<and>
     selems (foldl (\<lambda>u r. del u (rlo r) (rhi r)) s rs) = selems s - ranges_elems rs"
  by (induction rs arbitrary: s) (auto simp: inv_del elems_del)

end

interpretation rset: interval_store_del rs_inv rs_elems rs_add rs_remove
  by unfold_locales (auto intro: inv_intros simp: elems_simps)

section \<open>Set operations\<close>

lemma rs_union_correct:
  assumes "rs_inv s"
  shows "rs_inv (rs_union s t)" "rs_elems (rs_union s t) = rs_elems s \<union> rs_elems t"
  using rset.ins_ranges [OF assms, of "rs_ranges t"] by (simp_all add: rs_union_def rs_elems_def)

lemma rs_difference_correct:
  assumes "rs_inv s"
  shows "rs_inv (rs_difference s t)" "rs_elems (rs_difference s t) = rs_elems s - rs_elems t"
  using rset.del_ranges [OF assms, of "rs_ranges t"] by (simp_all add: rs_difference_def rs_elems_def)

lemma inter_step_correct:
  assumes "rs_inv u"
  shows "rs_inv (inter_step a u b) \<and>
    rs_elems (inter_step a u b) = rs_elems u \<union> ({rlo a..rhi a} \<inter> {rlo b..rhi b})"
  using assms unfolding inter_step_def Let_def
  by (auto intro: inv_intros simp: elems_simps)

lemma inter_row_correct:
  "rs_inv u \<Longrightarrow> rs_inv (foldl (inter_step a) u rs) \<and>
     rs_elems (foldl (inter_step a) u rs) = rs_elems u \<union> ({rlo a..rhi a} \<inter> ranges_elems rs)"
proof (induction rs arbitrary: u)
  case Nil
  then show ?case by simp
next
  case (Cons b rs)
  from inter_step_correct [OF Cons.prems] Cons.IH [of "inter_step a u b"] show ?case by auto
qed

lemma rs_intersection_correct:
  "rs_inv (rs_intersection s t)" "rs_elems (rs_intersection s t) = rs_elems s \<inter> rs_elems t"
proof -
  have "rs_inv (foldl (\<lambda>u a. foldl (inter_step a) u ts) u as) \<and>
    rs_elems (foldl (\<lambda>u a. foldl (inter_step a) u ts) u as) =
      rs_elems u \<union> (ranges_elems as \<inter> ranges_elems ts)" if "rs_inv u" for u as ts
    using that
  proof (induction as arbitrary: u)
    case Nil
    then show ?case by simp
  next
    case (Cons a as)
    from inter_row_correct [OF Cons.prems] Cons.IH [of "foldl (inter_step a) u ts"]
    show ?case by auto
  qed
  from this [of "newRangeSet (rs_padding s)" "rs_ranges t" "rs_ranges s"]
  show "rs_inv (rs_intersection s t)" "rs_elems (rs_intersection s t) = rs_elems s \<inter> rs_elems t"
    by (auto simp: rs_intersection_def rs_elems_def)
qed

lemma rs_symmetricDifference_correct:
  assumes "rs_inv s"
  shows "rs_inv (rs_symmetricDifference s t)"
    "rs_elems (rs_symmetricDifference s t) = (rs_elems s - rs_elems t) \<union> (rs_elems t - rs_elems s)"
  using assms rs_union_correct [OF assms]
  by (auto simp: rs_symmetricDifference_def rs_difference_correct rs_intersection_correct)

section \<open>Queries\<close>

lemma rs_isEmpty_iff: "rs_inv s \<Longrightarrow> rs_isEmpty s \<longleftrightarrow> rs_elems s = {}"
  by (cases "rs_ranges s") (auto simp: rs_isEmpty_def rs_inv_def rs_elems_def)

lemma rs_isSubset_iff: "rs_inv s \<Longrightarrow> rs_isSubset s t \<longleftrightarrow> rs_elems s \<subseteq> rs_elems t"
  by (simp add: rs_isSubset_def rs_isEmpty_iff rs_difference_correct Diff_eq_empty_iff)

lemma rs_len_loop_acc: "rs_len_loop n rs = n + rs_len_loop 0 rs"
proof (induction rs arbitrary: n)
  case Nil
  then show ?case by simp
next
  case (Cons r rs)
  show ?case using Cons.IH [of "n + (rhi r - rlo r + 1)"] Cons.IH [of "rhi r - rlo r + 1"] by simp
qed

lemma ranges_disjoint: "ranges_ok (r # rs) \<Longrightarrow> {rlo r..rhi r} \<inter> ranges_elems rs = {}"
  by (force simp: ranges_elems_def)

lemma finite_ranges_elems [simp]: "finite (ranges_elems rs)"
  by (simp add: ranges_elems_def)

lemma rs_len_card: "rs_inv s \<Longrightarrow> rs_len s = int (card (rs_elems s))"
proof -
  have "ranges_ok rs \<Longrightarrow> rs_len_loop 0 rs = int (card (ranges_elems rs))" for rs
  proof (induction rs)
    case Nil
    then show ?case by simp
  next
    case (Cons r rs)
    have "card ({rlo r..rhi r} \<union> ranges_elems rs) = card {rlo r..rhi r} + card (ranges_elems rs)"
      using ranges_disjoint [OF Cons.prems] by (intro card_Un_disjoint) auto
    with Cons show ?case using rs_len_loop_acc [of "rhi r - rlo r + 1" rs] by simp
  qed
  then show "rs_inv s \<Longrightarrow> rs_len s = int (card (rs_elems s))"
    by (simp add: rs_len_def rs_inv_def rs_elems_def)
qed

lemma rs_expand_correct:
  assumes "rs_inv s"
  shows "sorted_wrt (<) (rs_expand s)" "set (rs_expand s) = rs_elems s"
proof -
  have "ranges_ok rs \<Longrightarrow> sorted_wrt (<) (concat (map (\<lambda>r. [rlo r..rhi r]) rs))" for rs
  proof (induction rs)
    case Nil
    then show ?case by simp
  next
    case (Cons r rs)
    then have "\<forall>b\<in>set rs. rhi r < rlo b" by auto
    with Cons show ?case by (force simp: sorted_wrt_append)
  qed
  with assms show "sorted_wrt (<) (rs_expand s)" by (simp add: rs_expand_def rs_inv_def)
  show "set (rs_expand s) = rs_elems s"
    by (simp add: rs_expand_def rs_elems_def ranges_elems_def)
qed

lemma ranges_ok_nth_mono:
  assumes "ranges_ok rs" "i \<le> j" "j < length rs"
  shows "rhi (rs ! i) \<le> rhi (rs ! j)"
proof (cases "i = j")
  case False
  then have "rhi (rs ! i) + 1 < rlo (rs ! j)"
    using assms sorted_wrt_nth_less [of "\<lambda>a b. rhi a + 1 < rlo b" rs i j] by (simp add: ranges_ok_def)
  then show ?thesis using assms ranges_okD [of rs "rs ! j"] by auto
qed simp

text \<open>
  \<open>rangeSet.Contains\<close> finds a value by binary search over the ranges; on a range set that
  satisfies the invariant it answers exactly whether the value is an element.
\<close>

theorem rs_contains_correct:
  assumes "rs_inv s"
  shows "rs_contains s v \<longleftrightarrow> v \<in> rs_elems s"
proof -
  define rs where "rs = rs_ranges s"
  define f where "f i \<longleftrightarrow> rhi (rs ! i) \<ge> v" for i
  define i where "i = go_search (length rs) f"
  have ok: "ranges_ok rs" using assms by (simp add: rs_inv_def rs_def)
  have mono: "\<forall>a b. a \<le> b \<longrightarrow> b < length rs \<longrightarrow> f a \<longrightarrow> f b"
    using ranges_ok_nth_mono [OF ok] by (force simp: f_def)
  have lo: "\<not> f j" if "j < i" for j
    using that unfolding i_def by (rule go_search_spec(2) [OF mono])
  have hi: "i < length rs \<Longrightarrow> f i"
    unfolding i_def by (rule go_search_spec(3) [OF mono])
  have "rs_contains s v \<longleftrightarrow> i < length rs \<and> rlo (rs ! i) \<le> v"
    unfolding rs_contains_def rs_def [symmetric] i_def f_def Let_def by simp
  also have "\<dots> \<longleftrightarrow> (\<exists>j < length rs. rlo (rs ! j) \<le> v \<and> v \<le> rhi (rs ! j))"
  proof
    assume "\<exists>j < length rs. rlo (rs ! j) \<le> v \<and> v \<le> rhi (rs ! j)"
    then obtain j where j: "j < length rs" "rlo (rs ! j) \<le> v" "v \<le> rhi (rs ! j)" by blast
    then have ij: "i \<le> j" using lo [of j] by (force simp: f_def)
    have "rlo (rs ! i) \<le> v"
    proof (cases "i = j")
      case False
      then have "rhi (rs ! i) + 1 < rlo (rs ! j)"
        using ok ij j sorted_wrt_nth_less [of "\<lambda>a b. rhi a + 1 < rlo b" rs i j]
        by (simp add: ranges_ok_def)
      moreover have "rlo (rs ! i) \<le> rhi (rs ! i)" using ij j by (intro ranges_okD [OF ok]) simp
      ultimately show ?thesis using j by linarith
    qed (use j in simp)
    with ij j show "i < length rs \<and> rlo (rs ! i) \<le> v" by simp
  qed (use hi in \<open>auto simp: f_def\<close>)
  also have "\<dots> \<longleftrightarrow> v \<in> rs_elems s"
    by (simp add: rs_elems_def ranges_elems_def rs_def [symmetric]) (metis in_set_conv_nth)
  finally show ?thesis .
qed

definition rs_sample :: rangeSet where
  "rs_sample = rs_add (rs_add (rs_add (newRangeSet 0) 7 9) 1 3) 12 12"

lemma rs_sample_eval [simp]:
  "rs_sample = \<lparr>rs_ranges = [mk_rang 1 3, mk_rang 7 9, mk_rang 12 12], rs_padding = 0\<rparr>"
  by (simp add: rs_sample_def rs_add_def newRangeSet_def)

lemma rs_sample_inv: "rs_inv rs_sample"
  unfolding rs_sample_def by (intro inv_intros) simp

theorem rs_contains_correct_witness:
  "rs_inv rs_sample \<and> (rs_contains rs_sample 8 \<longleftrightarrow> 8 \<in> rs_elems rs_sample) \<and> 8 \<in> rs_elems rs_sample"
  using rs_sample_inv rs_contains_correct [OF rs_sample_inv, of 8] by (simp add: rs_elems_def)

section \<open>Equality\<close>

text \<open>A set of integers has at most one representation, so comparing the slices compares the sets.\<close>

lemma ranges_min:
  assumes "ranges_ok (a # as)"
  shows "rlo a \<in> ranges_elems (a # as)" "v \<in> ranges_elems (a # as) \<Longrightarrow> rlo a \<le> v"
proof -
  show "rlo a \<in> ranges_elems (a # as)" using assms by simp
  assume "v \<in> ranges_elems (a # as)"
  moreover have "rlo a \<le> v" if "v \<in> ranges_elems as"
    using ranges_elems_lower [of as "rhi a + 1" v] that assms by auto
  ultimately show "rlo a \<le> v" by auto
qed

lemma ranges_hi_least:
  assumes "ranges_ok (a # as)"
  shows "rhi a + 1 \<notin> ranges_elems (a # as)"
  using assms ranges_elems_lower [of as "rhi a + 1" "rhi a + 1"] by auto

lemma ranges_canonical:
  "ranges_ok xs \<Longrightarrow> ranges_ok ys \<Longrightarrow> ranges_elems xs = ranges_elems ys \<Longrightarrow> xs = ys"
proof (induction xs arbitrary: ys)
  case Nil
  then show ?case by (cases ys) auto
next
  case (Cons a as)
  then obtain b bs where ys: "ys = b # bs" by (cases ys) auto
  have ok: "ranges_ok (a # as)" "ranges_ok (b # bs)" using Cons.prems ys by auto
  have eq: "ranges_elems (a # as) = ranges_elems (b # bs)" using Cons.prems ys by simp
  have lo: "rlo a = rlo b"
  proof (rule order_antisym)
    show "rlo a \<le> rlo b"
      by (rule ranges_min(2) [OF ok(1)]) (unfold eq, rule ranges_min(1) [OF ok(2)])
    show "rlo b \<le> rlo a"
      by (rule ranges_min(2) [OF ok(2)]) (fold eq, rule ranges_min(1) [OF ok(1)])
  qed
  have hi: "rhi a = rhi b"
  proof (rule ccontr)
    assume "rhi a \<noteq> rhi b"
    then consider "rhi a + 1 \<le> rhi b" | "rhi b + 1 \<le> rhi a" by linarith
    then show False
    proof cases
      case 1
      then have "rhi a + 1 \<in> ranges_elems (b # bs)" using lo ok by auto
      then show False using ranges_hi_least [OF ok(1)] unfolding eq by blast
    next
      case 2
      then have "rhi b + 1 \<in> ranges_elems (a # as)" using lo ok by auto
      then show False using ranges_hi_least [OF ok(2)] unfolding eq by blast
    qed
  qed
  have "ranges_elems as = ranges_elems bs"
    using eq lo hi ranges_disjoint [OF ok(1)] ranges_disjoint [OF ok(2)] by auto
  then have "as = bs" using Cons.IH [of bs] ok by auto
  with lo hi ys show ?case by (simp add: rang_eq_iff)
qed

lemma ranges_equal_loop_iff:
  "length xs = length ys \<Longrightarrow> ranges_equal_loop xs ys \<longleftrightarrow> xs = ys"
  by (induction xs ys rule: list_induct2) auto

lemma rs_equal_ranges: "rs_equal s t \<longleftrightarrow> rs_ranges s = rs_ranges t"
  by (auto simp: rs_equal_def ranges_equal_loop_iff)

lemma rs_equal_iff:
  "rs_inv s \<Longrightarrow> rs_inv t \<Longrightarrow> rs_equal s t \<longleftrightarrow> rs_elems s = rs_elems t"
  using ranges_canonical by (auto simp: rs_equal_ranges rs_inv_def rs_elems_def)


definition rs_sample2 :: rangeSet where
  "rs_sample2 = rs_add (newRangeSet 0) 2 8"

lemma rs_sample2_inv: "rs_inv rs_sample2"
  unfolding rs_sample2_def by (intro inv_intros) simp


end
