(* ===== verification/Bracket.thy ===== *)
theory Bracket
  imports RangeSet
begin

text \<open>
  Model of the bracket part of \<open>pkg/mesh/nodeset/parser.go\<close>: the parser of a bracket expression such
  as \<open>1-3,5,7-9/2\<close>, the split of a term into literal and bracket segments, and the Cartesian product
  that turns the segments into names. Errors are values of \<open>ns_error\<close>; each \<open>return nil, err\<close> of the
  source is one branch. The theorems show that the parser inverts \<open>rangeSet.Fold\<close>, that the
  stride arithmetic of \<open>cartesianExpand\<close> enumerates the product in lexicographic order, and that the
  limit on the number of names is exact and is checked before any name is built.
\<close>

section \<open>Errors of the nodeset package\<close>

datatype ns_error =
    EmptyBracketExpr
  | InvalidRangeStart string
  | InvalidRangeEnd string
  | StartAfterEnd int int
  | InvalidStep string
  | StepNotPositive int
  | InvalidValue string
  | UnclosedBracket string
  | InvalidBracketExpr string ns_error
  | ProductExceedsLimit int int int
  | ExpansionExceedsLimit int int
  | NoGroupResolver string
  | ResolveFailed string string
  | EmptyPattern
  | UnmatchedBracket string
  | EmptyOperand nat string
  | TrailingOperator string
  | InvalidBracket ns_error
  | BadGlobPattern

section \<open>Bracket expressions\<close>

definition detectPadding :: "string \<Rightarrow> int" where
  "detectPadding s = (if length s > 1 \<and> hd s = CHR ''0'' then int (length s) else 0)"

text \<open>The loop \<open>for v := lo; v <= hi; v += step\<close>; the code has checked that the step is positive.\<close>

function add_steps :: "int \<Rightarrow> int \<Rightarrow> int \<Rightarrow> rangeSet \<Rightarrow> rangeSet" where
  "add_steps v hi step rs =
     (if v \<le> hi \<and> 0 < step then add_steps (v + step) hi step (rs_add rs v v) else rs)"
  by pat_completeness auto
termination
  by (relation "measure (\<lambda>(v, hi, step, rs). nat (hi - v + 1))") auto

declare add_steps.simps [simp del]

definition parse_step :: "string \<Rightarrow> ns_error + int" where
  "parse_step stepStr =
     (if stepStr = [] then Inr 1
      else case atoi stepStr of
        None \<Rightarrow> Inl (InvalidStep stepStr)
      | Some step \<Rightarrow> if step \<le> 0 then Inl (StepNotPositive step) else Inr step)"

definition parse_part :: "int \<times> rangeSet \<Rightarrow> string \<Rightarrow> ns_error + int \<times> rangeSet" where
  "parse_part st part0 =
     (let (padding, rs) = st; part1 = trim_space part0 in
      if part1 = [] then Inr (padding, rs)
      else let (stepStr, part) = (case index_byte part1 CHR ''/'' of
                 Some i \<Rightarrow> (drop (i + 1) part1, take i part1)
               | None \<Rightarrow> ([], part1))
      in case index_byte part CHR ''-'' of
        Some d \<Rightarrow>
          (let loStr = take d part; hiStr = drop (d + 1) part;
               pad = detectPadding loStr;
               padding' = (if pad > padding then pad else padding)
           in case atoi loStr of
                None \<Rightarrow> Inl (InvalidRangeStart loStr)
              | Some lo \<Rightarrow>
             (case atoi hiStr of
                None \<Rightarrow> Inl (InvalidRangeEnd hiStr)
              | Some hi \<Rightarrow>
                 if lo > hi then Inl (StartAfterEnd lo hi)
                 else bind_res (parse_step stepStr) (\<lambda>step.
                   Inr (padding', if step = 1 then rs_add rs lo hi else add_steps lo hi step rs))))
      | None \<Rightarrow>
          (let pad = detectPadding part;
               padding' = (if pad > padding then pad else padding)
           in case atoi part of
                None \<Rightarrow> Inl (InvalidValue part)
              | Some v \<Rightarrow> Inr (padding', rs_add rs v v)))"

definition parseBracketExpr :: "string \<Rightarrow> ns_error + int list \<times> int" where
  "parseBracketExpr expr =
     (if expr = [] then Inl EmptyBracketExpr
      else bind_res (fold_res parse_part (0, newRangeSet 0) (split_on CHR '','' expr))
             (\<lambda>(padding, rs). Inr (rs_expand rs, padding)))"

section \<open>Segments and their Cartesian product\<close>

datatype segment = SegLiteral string | SegBracket "string list"

definition format_value :: "int \<Rightarrow> int \<Rightarrow> string" where
  "format_value padding v = (if padding > 0 then sprintf0 padding v else itoa v)"

text \<open>
  The loop of \<open>splitBrackets\<close>: \<open>rest\<close> is \<open>term[i:]\<close>. The bracket content runs from the character
  after \<open>[\<close> to the one before the next \<open>]\<close>.
\<close>

function split_loop :: "string \<Rightarrow> string \<Rightarrow> ns_error + segment list" where
  "split_loop trm rest =
     (if rest = [] then Inr []
      else case index_byte rest CHR ''['' of
        None \<Rightarrow> Inr [SegLiteral rest]
      | Some b \<Rightarrow>
          (case index_byte (drop b rest) CHR '']'' of
             None \<Rightarrow> Inl (UnclosedBracket trm)
           | Some e \<Rightarrow>
               (let content = take (e - 1) (drop (b + 1) rest) in
                case parseBracketExpr content of
                  Inl err \<Rightarrow> Inl (InvalidBracketExpr content err)
                | Inr (values, padding) \<Rightarrow>
                    (case split_loop trm (drop (b + e + 1) rest) of
                       Inl err \<Rightarrow> Inl err
                     | Inr segs \<Rightarrow>
                         Inr ((if b > 0 then [SegLiteral (take b rest)] else []) @
                              SegBracket (map (format_value padding) values) # segs)))))"
  by pat_completeness auto
termination
  by (relation "measure (\<lambda>(trm, rest). length rest)") (auto simp: length_greater_0_conv [symmetric] simp del: length_greater_0_conv)

declare split_loop.simps [simp del]

definition splitBrackets :: "string \<Rightarrow> ns_error + segment list" where
  "splitBrackets trm = split_loop trm trm"

text \<open>
  The counting loop of \<open>cartesianExpand\<close>: \<open>None\<close> is the early return of an empty slice when a bracket
  has no values, \<open>Some n\<close> the number of names to build.
\<close>

fun count_loop :: "int \<Rightarrow> int \<Rightarrow> segment list \<Rightarrow> ns_error + int option" where
  "count_loop maxExpand tot [] = Inr (Some tot)"
| "count_loop maxExpand tot (SegBracket vs # segs) =
     (if vs = [] then Inr None
      else if maxExpand > 0 \<and> length vs > 0 \<and> tot > maxExpand div int (length vs)
        then Inl (ProductExceedsLimit tot (int (length vs)) maxExpand)
      else count_loop maxExpand (tot * int (length vs)) segs)"
| "count_loop maxExpand tot (SegLiteral l # segs) = count_loop maxExpand tot segs"

text \<open>The strides, computed from the last segment to the first; the second component is \<open>stride\<close>.\<close>

fun strides :: "segment list \<Rightarrow> nat list \<times> nat" where
  "strides [] = ([], 1)"
| "strides (SegBracket vs # segs) =
     (let (ss, stride) = strides segs in (stride # ss, stride * length vs))"
| "strides (SegLiteral l # segs) = (let (ss, stride) = strides segs in (0 # ss, stride))"

fun write_segment :: "nat \<Rightarrow> segment \<times> nat \<Rightarrow> string" where
  "write_segment i (SegLiteral l, _) = l"
| "write_segment i (SegBracket vs, stride) = vs ! ((i div stride) mod length vs)"

definition build_name :: "segment list \<Rightarrow> nat \<Rightarrow> string" where
  "build_name segs i = concat (map (write_segment i) (zip segs (fst (strides segs))))"

definition cartesianExpand :: "segment list \<Rightarrow> int \<Rightarrow> ns_error + string list" where
  "cartesianExpand segs maxExpand =
     (if segs = [] then Inr [[]]
      else case count_loop maxExpand 1 segs of
        Inl err \<Rightarrow> Inl err
      | Inr None \<Rightarrow> Inr []
      | Inr (Some tot) \<Rightarrow>
          if maxExpand > 0 \<and> tot > maxExpand then Inl (ExpansionExceedsLimit tot maxExpand)
          else Inr (map (build_name segs) [0..<nat tot]))"

section \<open>The stepping loop\<close>

definition progression :: "int \<Rightarrow> int \<Rightarrow> nat \<Rightarrow> int list" where
  "progression lo step n = map (\<lambda>k. lo + int k * step) [0..<n]"

lemma length_progression [simp]: "length (progression lo step n) = n"
  by (simp add: progression_def)

lemma progression_Suc: "progression lo step (Suc n) = lo # progression (lo + step) step n"
proof -
  have "[0..<Suc n] = 0 # map Suc [0..<n]" by (simp add: map_Suc_upt upt_conv_Cons del: upt_Suc)
  then show ?thesis by (simp add: progression_def comp_def algebra_simps)
qed

text \<open>Up to \<open>hi\<close> the loop adds exactly the progression that ends there.\<close>

lemma add_steps_progression:
  "0 < step \<Longrightarrow> hi = lo + int n * step \<Longrightarrow>
   add_steps lo hi step rs = foldl (\<lambda>u v. rs_add u v v) rs (progression lo step (Suc n))"
proof (induction n arbitrary: lo rs)
  case 0
  have "add_steps (lo + step) hi step (rs_add rs lo lo) = rs_add rs lo lo"
    using 0 by (subst add_steps.simps) simp
  with 0 show ?case by (subst add_steps.simps) (simp add: progression_def)
next
  case (Suc n)
  have hi: "hi = (lo + step) + int n * step" using Suc.prems by (simp add: algebra_simps)
  have "lo \<le> hi" using Suc.prems by simp
  then have "add_steps lo hi step rs = add_steps (lo + step) hi step (rs_add rs lo lo)"
    using Suc.prems by (subst add_steps.simps) simp
  also have "\<dots> = foldl (\<lambda>u v. rs_add u v v) (rs_add rs lo lo) (progression (lo + step) step (Suc n))"
    by (rule Suc.IH [OF Suc.prems(1) hi])
  finally show ?case by (simp add: progression_Suc [of lo step "Suc n"])
qed

lemma step_loop_progression:
  "step \<noteq> 0 \<Longrightarrow> step_loop step prev vs = step \<Longrightarrow> vs = progression (prev + step) step (length vs)"
proof (induction vs arbitrary: prev)
  case Nil
  then show ?case by (simp add: progression_def)
next
  case (Cons v vs)
  then have v: "v = prev + step" and "step_loop step v vs = step" by (auto split: if_splits)
  with Cons have "vs = progression (v + step) step (length vs)" by blast
  then have "v # vs = progression v step (Suc (length vs))" by (simp add: progression_Suc)
  then show ?case unfolding v by (metis length_Cons)
qed

lemma step_loop_cases: "step_loop step prev vs = step \<or> step_loop step prev vs = 0"
  by (induction vs arbitrary: prev) auto

lemma detectStep_progression:
  assumes "2 \<le> length vs" "0 < detectStep vs"
  shows "vs = progression (hd vs) (detectStep vs) (length vs)"
proof -
  obtain a b ws where vs: "vs = a # b # ws" using assms(1) by (cases vs rule: detectStep.cases) auto
  have st: "detectStep vs = b - a" "0 < b - a" "step_loop (b - a) b ws = b - a"
    using assms(2) step_loop_cases [of "b - a" b ws] by (auto simp: vs split: if_splits)
  have "ws = progression (b + (b - a)) (b - a) (length ws)"
    using st by (intro step_loop_progression) auto
  then have "b # ws = progression b (b - a) (Suc (length ws))" by (simp add: progression_Suc)
  then have "vs = progression a (b - a) (Suc (Suc (length ws)))"
    by (simp add: vs progression_Suc [of a])
  moreover have "hd vs = a" "detectStep vs = b - a" "length vs = Suc (Suc (length ws))"
    using vs st(1) by simp_all
  ultimately show ?thesis by simp
qed

section \<open>Printed parts are read back\<close>

definition zero_detect :: "int \<Rightarrow> int \<Rightarrow> int" where
  "zero_detect p v = detectPadding (formatInt p v)"

lemma formatInt_facts:
  assumes "0 \<le> v" "v \<le> max_int"
  shows "formatInt p v \<noteq> []" "list_all is_digit (formatInt p v)" "atoi (formatInt p v) = Some v"
proof -
  have "formatInt p v = itoa_nat (nat v) \<or> formatInt p v = sprintf0 p v"
    using assms by (auto simp: formatInt_def itoa_def)
  then show "formatInt p v \<noteq> []" "list_all is_digit (formatInt p v)" "atoi (formatInt p v) = Some v"
    using assms atoi_itoa_nat [of "nat v"] atoi_sprintf0 sprintf0_digits itoa_nat_digits by auto
qed

lemma digits_notin:
  "list_all is_digit s \<Longrightarrow> \<not> is_digit c \<Longrightarrow> c \<notin> set s"
  by (auto simp: list_all_iff)

lemma digits_trim: "list_all is_digit s \<Longrightarrow> trim_space s = s"
  by (rule trim_space_no_space) (auto simp: list_all_iff is_digit_not_space)

lemma trim_space_ends: "s \<noteq> [] \<Longrightarrow> is_digit (hd s) \<Longrightarrow> is_digit (last s) \<Longrightarrow> trim_space s = s"
  by (rule trim_space_id) (auto dest: is_digit_not_space)

lemma parse_part_single:
  assumes "0 \<le> v" "v \<le> max_int"
  shows "parse_part (pad, rs) (formatInt p v) = Inr (max pad (zero_detect p v), rs_add rs v v)"
proof -
  note f = formatInt_facts [OF assms, of p]
  have "index_byte (formatInt p v) CHR ''/'' = None" "index_byte (formatInt p v) CHR ''-'' = None"
    using f(2) by (simp_all add: index_byte_None digits_notin)
  with f show ?thesis
    by (auto simp: parse_part_def Let_def digits_trim zero_detect_def)
qed

lemma parse_part_range:
  assumes "0 \<le> lo" "lo \<le> hi" "hi \<le> max_int"
  shows "parse_part (pad, rs) (formatInt p lo @ ''-'' @ formatInt p hi) =
    Inr (max pad (zero_detect p lo), rs_add rs lo hi)"
proof -
  define s where "s = formatInt p lo @ ''-'' @ formatInt p hi"
  have b: "lo \<le> max_int" "0 \<le> hi" using assms by auto
  note f = formatInt_facts [OF assms(1) b(1), of p] and g = formatInt_facts [OF b(2) assms(3), of p]
  have "trim_space s = s"
    using f g by (intro trim_space_ends) (auto simp: s_def list_all_iff)
  moreover have "index_byte s CHR ''/'' = None"
    using f(2) g(2) by (auto simp: s_def index_byte_None dest: digits_notin [of _ "CHR ''/''"])
  moreover have "index_byte s CHR ''-'' = Some (length (formatInt p lo))"
    unfolding s_def using f(2) index_byte_append [of "CHR ''-''" "formatInt p lo"] by (simp add: digits_notin)
  ultimately have "parse_part (pad, rs) s = Inr (max pad (zero_detect p lo), rs_add rs lo hi)"
    using f g assms(2) by (auto simp: parse_part_def Let_def parse_step_def zero_detect_def s_def)
  then show ?thesis by (simp add: s_def)
qed

lemma parse_part_stepped:
  assumes "0 \<le> lo" "lo \<le> hi" "hi \<le> max_int" "1 < step" "step \<le> max_int"
  shows "parse_part (pad, rs) (formatInt p lo @ ''-'' @ formatInt p hi @ ''/'' @ itoa step) =
    Inr (max pad (zero_detect p lo), add_steps lo hi step rs)"
proof -
  define t where "t = formatInt p lo @ ''-'' @ formatInt p hi"
  define s where "s = t @ CHR ''/'' # itoa step"
  have b: "lo \<le> max_int" "0 \<le> hi" using assms by auto
  note f = formatInt_facts [OF assms(1) b(1), of p] and g = formatInt_facts [OF b(2) assms(3), of p]
  have st: "itoa step = formatInt 0 step" using assms(4) by (simp add: formatInt_def)
  have h: "itoa step \<noteq> []" "list_all is_digit (itoa step)" "atoi (itoa step) = Some step"
    unfolding st using assms(4,5) formatInt_facts [of step 0] by auto
  have tr: "trim_space s = s"
    using f h by (intro trim_space_ends) (auto simp: s_def t_def list_all_iff)
  have sl: "index_byte s CHR ''/'' = Some (length t)"
    unfolding s_def using f(2) g(2)
    by (intro index_byte_append) (auto simp: t_def dest: digits_notin [of _ "CHR ''/''"])
  have da: "index_byte t CHR ''-'' = Some (length (formatInt p lo))"
    unfolding t_def using f(2) index_byte_append [of "CHR ''-''" "formatInt p lo"] by (simp add: digits_notin)
  have cut: "drop (length t + 1) s = itoa step" "take (length t) s = t" by (simp_all add: s_def)
  have lo': "take (length (formatInt p lo)) t = formatInt p lo"
    and hi': "drop (length (formatInt p lo) + 1) t = formatInt p hi" by (simp_all add: t_def)
  have "s \<noteq> []" by (simp add: s_def)
  then have "parse_part (pad, rs) s = Inr (max pad (zero_detect p lo), add_steps lo hi step rs)"
    unfolding parse_part_def Let_def prod.case tr sl option.case cut da lo' hi' f(3) g(3)
    using assms(2,4) h by (simp add: parse_step_def zero_detect_def)
  then show ?thesis by (simp add: s_def t_def)
qed

section \<open>Reading back what Fold prints\<close>

text \<open>The parts of \<open>foldRanges\<close>, each read by one call of the loop body.\<close>

lemma parse_parts_ranges:
  assumes "\<And>r. r \<in> set rs \<Longrightarrow> 0 \<le> rlo r \<and> rlo r \<le> rhi r \<and> rhi r \<le> max_int"
  shows "fold_res parse_part (pad, u) (map (foldRange_part p) rs) =
    Inr (foldl max pad (map (\<lambda>r. zero_detect p (rlo r)) rs), foldl (\<lambda>u r. rs_add u (rlo r) (rhi r)) u rs)"
  using assms
proof (induction rs arbitrary: pad u)
  case Nil
  then show ?case by simp
next
  case (Cons r rs)
  have r: "0 \<le> rlo r" "rlo r \<le> rhi r" "rhi r \<le> max_int" using Cons.prems by auto
  have "parse_part (pad, u) (foldRange_part p r) =
    Inr (max pad (zero_detect p (rlo r)), rs_add u (rlo r) (rhi r))"
  proof (cases "rlo r = rhi r")
    case True
    with r parse_part_single [of "rhi r" pad u p] show ?thesis by simp
  next
    case False
    with parse_part_range [OF r, of pad u p] show ?thesis by simp
  qed
  with Cons show ?case by simp
qed

lemma foldRange_part_no_comma:
  assumes "0 \<le> rlo r" "rlo r \<le> rhi r" "rhi r \<le> max_int"
  shows "CHR '','' \<notin> set (foldRange_part p r)"
proof -
  have b: "rlo r \<le> max_int" "0 \<le> rhi r" using assms by auto
  show ?thesis
    using formatInt_facts(2) [OF assms(1) b(1), of p] formatInt_facts(2) [OF b(2) assms(3), of p]
    by (auto simp: digits_notin)
qed

text \<open>
  How many leading zeros the reader detects: none, or the padding width the printer used. When it
  detects none, no printed number has a leading zero, so formatting without padding gives the same
  strings.
\<close>

lemma sprintf0_long: "p \<le> int (length (itoa_nat (nat v))) \<Longrightarrow> 0 \<le> v \<Longrightarrow> sprintf0 p v = itoa v"
  by (simp add: sprintf0_def itoa_def)

lemma zero_detect_cases:
  assumes "0 \<le> v"
  shows "zero_detect p v = (if 1 < p \<and> int (length (itoa_nat (nat v))) < p then p else 0)"
proof (cases "1 < p \<and> int (length (itoa_nat (nat v))) < p")
  case True
  then have "formatInt p v = sprintf0 p v" by (simp add: formatInt_def)
  moreover have lt: "length (itoa_nat (nat v)) < nat p" using True by linarith
  then have "length (sprintf0 p v) = nat p" using assms by (simp add: sprintf0_def)
  moreover have "hd (sprintf0 p v) = CHR ''0''"
    using lt assms by (simp add: sprintf0_def hd_append)
  ultimately show ?thesis using True by (simp add: zero_detect_def detectPadding_def)
next
  case False
  have "1 \<le> length (itoa_nat (nat v))" by (cases "itoa_nat (nat v)") auto
  then have "p \<le> int (length (itoa_nat (nat v)))" using False by linarith
  then have eq: "formatInt p v = itoa_nat (nat v)"
    using assms sprintf0_long [of p v] by (auto simp: formatInt_def itoa_def)
  have "\<not> (1 < length (itoa_nat (nat v)) \<and> hd (itoa_nat (nat v)) = CHR ''0'')"
    using itoa_nat_hd_zero [of "nat v"] by (cases "nat v = 0") auto
  with False eq show ?thesis by (simp add: zero_detect_def detectPadding_def)
qed

lemma length_itoa_nat_mono: "m \<le> n \<Longrightarrow> length (itoa_nat m) \<le> length (itoa_nat n)"
proof (induction n arbitrary: m rule: itoa_nat.induct)
  case (1 n)
  show ?case
  proof (cases "n < 10")
    case True
    with "1.prems" show ?thesis by (simp add: itoa_nat.simps)
  next
    case False
    have "m div 10 \<le> n div 10" using "1.prems" by (rule div_le_mono)
    from "1.IH" [OF False this] show ?thesis
      using False by (cases "m < 10") (simp_all add: itoa_nat.simps [of m] itoa_nat.simps [of n])
  qed
qed

text \<open>The padding found by a reader that has seen the smallest number of every printed part.\<close>

lemma detected_padding_formats:
  assumes "0 \<le> lo" "lo \<le> v" "q = p \<or> (q = 0 \<and> zero_detect p lo = 0)"
  shows "formatInt q v = formatInt p v"
proof (cases "q = p")
  case False
  then have q: "q = 0" and z: "zero_detect p lo = 0" using assms(3) by auto
  have z': "\<not> (1 < p \<and> int (length (itoa_nat (nat lo))) < p)"
    using z unfolding zero_detect_cases [OF assms(1)] by (simp split: if_splits)
  have "1 \<le> length (itoa_nat (nat lo))" by (cases "itoa_nat (nat lo)") auto
  then have "p \<le> int (length (itoa_nat (nat lo)))" using z' by linarith
  also have "\<dots> \<le> int (length (itoa_nat (nat v)))"
    using assms(2) by (simp add: length_itoa_nat_mono)
  finally show ?thesis using assms(1,2) q by (simp add: formatInt_def sprintf0_long)
qed simp

lemma foldl_max_detect:
  assumes "\<And>x. x \<in> set xs \<Longrightarrow> x = 0 \<or> (x = p \<and> 0 < p)" "a = 0 \<or> (a = p \<and> 0 < p)"
  shows "foldl max a xs = (if a = 0 \<and> (\<forall>x\<in>set xs. x = 0) then 0 else (p::int))"
  using assms
proof (induction xs arbitrary: a)
  case Nil
  then show ?case by auto
next
  case (Cons x xs)
  have x: "x = 0 \<or> (x = p \<and> 0 < p)" by (rule Cons.prems(1)) simp
  then have "max a x = 0 \<or> (max a x = p \<and> 0 < p)" using Cons.prems(2) by auto
  then have "foldl max (max a x) xs = (if max a x = 0 \<and> (\<forall>x\<in>set xs. x = 0) then 0 else p)"
    using Cons.prems(1) by (intro Cons.IH) auto
  moreover have "max a x = 0 \<longleftrightarrow> a = 0 \<and> x = 0" using x Cons.prems(2) by auto
  ultimately show ?case by simp
qed

lemma rs_expand_eq:
  assumes "rs_inv u" "rs_inv s" "rs_elems u = rs_elems s"
  shows "rs_expand u = rs_expand s"
proof -
  have "rs_ranges u = rs_ranges s"
    using assms ranges_canonical by (simp add: rs_inv_def rs_elems_def)
  then show ?thesis by (simp add: rs_expand_def)
qed

lemma format_value_formatInt: "format_value = formatInt"
  by (intro ext) (simp add: format_value_def formatInt_def)

lemma rs_min:
  assumes "rs_inv s" "rs_ranges s \<noteq> []"
  shows "rlo (hd (rs_ranges s)) = hd (rs_expand s)" "rs_expand s \<noteq> []"
    "v \<in> rs_elems s \<Longrightarrow> hd (rs_expand s) \<le> v" "hd (rs_expand s) \<in> rs_elems s"
proof -
  obtain r rs where rs: "rs_ranges s = r # rs" using assms(2) by (cases "rs_ranges s") auto
  have r: "rlo r \<le> rhi r" using assms(1) rs by (simp add: rs_inv_def)
  then have up: "[rlo r..rhi r] = rlo r # [rlo r + 1..rhi r]" by (rule upto_rec1)
  show h: "rlo (hd (rs_ranges s)) = hd (rs_expand s)" and "rs_expand s \<noteq> []"
    by (simp_all add: rs_expand_def rs up)
  have ok: "ranges_ok (r # rs)" using assms(1) rs by (simp add: rs_inv_def)
  show "v \<in> rs_elems s \<Longrightarrow> hd (rs_expand s) \<le> v"
    using ranges_min(2) [OF ok, of v] h rs by (simp add: rs_elems_def)
  show "hd (rs_expand s) \<in> rs_elems s"
    using ranges_min(1) [OF ok] h rs by (simp add: rs_elems_def)
qed

text \<open>What the three shapes of \<open>rangeSet.Fold\<close> have in common once their parts are read.\<close>

lemma read_back:
  assumes "rs_inv s" "rs_ranges s \<noteq> []" "\<And>v. v \<in> rs_elems s \<Longrightarrow> 0 \<le> v \<and> v \<le> max_int"
    and parts: "split_on CHR '','' e = ps" "e \<noteq> []"
      "fold_res parse_part (0, newRangeSet 0) ps = Inr (q, u)"
    and u: "rs_inv u" "rs_elems u = rs_elems s"
    and q: "q = rs_padding s \<or> (q = 0 \<and> zero_detect (rs_padding s) (hd (rs_expand s)) = 0)"
  shows "parseBracketExpr e = Inr (rs_expand s, q) \<and> map (format_value q) (rs_expand s) = rs_expandStrings s"
proof
  show "parseBracketExpr e = Inr (rs_expand s, q)"
    using parts rs_expand_eq [OF u(1) assms(1) u(2)] by (simp add: parseBracketExpr_def)
  show "map (format_value q) (rs_expand s) = rs_expandStrings s"
    unfolding rs_expandStrings_def format_value_formatInt
  proof (rule map_cong [OF refl])
    fix v assume "v \<in> set (rs_expand s)"
    then have "v \<in> rs_elems s" by (simp add: rs_expand_correct(2) [OF assms(1)])
    then show "formatInt q v = formatInt (rs_padding s) v"
      using detected_padding_formats [OF _ _ q] rs_min [OF assms(1,2)] assms(3) by blast
  qed
qed

lemma zero_detect_0_or: "0 \<le> v \<Longrightarrow> zero_detect p v = 0 \<or> (zero_detect p v = p \<and> 0 < p)"
  by (simp add: zero_detect_cases)

lemma read_back_ranges:
  assumes inv: "rs_inv s" "rs_ranges s \<noteq> []" and b: "\<And>v. v \<in> rs_elems s \<Longrightarrow> 0 \<le> v \<and> v \<le> max_int"
  shows "\<exists>q. parseBracketExpr (rs_foldRanges s) = Inr (rs_expand s, q) \<and>
    map (format_value q) (rs_expand s) = rs_expandStrings s"
proof -
  define p where "p = rs_padding s"
  define q where "q = foldl max 0 (map (\<lambda>r. zero_detect p (rlo r)) (rs_ranges s))"
  have r: "0 \<le> rlo r" "rlo r \<le> rhi r" "rhi r \<le> max_int" if "r \<in> set (rs_ranges s)" for r
  proof -
    have le: "rlo r \<le> rhi r" using inv(1) that by (simp add: rs_inv_def ranges_ok_def)
    then have "rlo r \<in> rs_elems s" "rhi r \<in> rs_elems s"
      using that by (auto simp: rs_elems_def ranges_elems_def)
    with b le show "0 \<le> rlo r" "rlo r \<le> rhi r" "rhi r \<le> max_int" by auto
  qed
  obtain r0 rs0 where r0: "rs_ranges s = r0 # rs0" using inv(2) by (cases "rs_ranges s") auto
  have ne: "rs_foldRanges s \<noteq> []"
    using r [of r0] formatInt_facts(1) [of "rlo r0" "rs_padding s"]
    by (cases rs0) (auto simp: rs_foldRanges_def r0)
  have sp: "split_on CHR '','' (rs_foldRanges s) = map (foldRange_part p) (rs_ranges s)"
    unfolding rs_foldRanges_def p_def
  proof (rule split_on_join)
    show "CHR '','' \<notin> set t" if "t \<in> set (map (foldRange_part (rs_padding s)) (rs_ranges s))" for t
      using that foldRange_part_no_comma [OF r] by (metis imageE set_map)
  qed (use inv(2) in simp)
  define u where "u = foldl (\<lambda>u r. rs_add u (rlo r) (rhi r)) (newRangeSet 0) (rs_ranges s)"
  have fr: "fold_res parse_part (0, newRangeSet 0) (map (foldRange_part p) (rs_ranges s)) = Inr (q, u)"
    unfolding q_def u_def by (rule parse_parts_ranges) (use r in auto)
  have u: "rs_inv u" "rs_elems u = rs_elems s"
    using rset.ins_ranges [of "newRangeSet 0" "rs_ranges s"] by (simp_all add: u_def rs_elems_def)
  have "q = (if (0::int) = 0 \<and> (\<forall>x\<in>set (map (\<lambda>r. zero_detect p (rlo r)) (rs_ranges s)). x = 0) then 0 else p)"
    unfolding q_def by (rule foldl_max_detect) (use zero_detect_0_or r in auto)
  then have "q = p \<or> (q = 0 \<and> zero_detect p (hd (rs_expand s)) = 0)"
    using rs_min(1) [OF inv] r0 by (auto split: if_splits)
  then show ?thesis using read_back [OF inv b sp ne fr u] by (auto simp: p_def)
qed

text \<open>The three shapes of the printed text are read back by the lemmas above.\<close>

lemma read_back_fold:
  assumes inv: "rs_inv s" "rs_ranges s \<noteq> []" and b: "\<forall>v\<in>rs_elems s. 0 \<le> v \<and> v \<le> max_int"
  shows "\<exists>q. parseBracketExpr (rs_fold s) = Inr (rs_expand s, q) \<and>
    map (format_value q) (rs_expand s) = rs_expandStrings s"
proof -
  define p where "p = rs_padding s"
  define vs where "vs = rs_expand s"
  define step where "step = detectStep vs"
  have ne: "vs \<noteq> []" using rs_min(2) [OF inv] by (simp add: vs_def)
  have set_vs: "set vs = rs_elems s" by (simp add: vs_def rs_expand_correct(2) [OF inv(1)])
  have vb: "0 \<le> v \<and> v \<le> max_int" if "v \<in> set vs" for v using b that set_vs by blast
  consider (one) "length vs = 1" | (step) "2 \<le> length vs" "1 < step" | (ranges) "rs_fold s = rs_foldRanges s"
    using ne inv by (cases "length vs = 1"; cases "step > 0"; cases "step = 1")
      (auto simp: rs_fold_def vs_def step_def Let_def Suc_le_eq length_greater_0_conv [symmetric]
        simp del: length_greater_0_conv)
  then show ?thesis
  proof cases
    case one
    then obtain v where v: "vs = [v]" by (cases vs) auto
    have vv: "0 \<le> v" "v \<le> max_int" using vb v by auto
    have e: "rs_fold s = formatInt p v" using inv v by (simp add: rs_fold_def Let_def vs_def p_def)
    have sp: "split_on CHR '','' (formatInt p v) = [formatInt p v]"
      using formatInt_facts(2) [OF vv, of p] by (simp add: split_on_single digits_notin)
    have fr: "fold_res parse_part (0, newRangeSet 0) [formatInt p v] =
      Inr (max 0 (zero_detect p v), rs_add (newRangeSet 0) v v)"
      using parse_part_single [OF vv] by simp
    have u: "rs_inv (rs_add (newRangeSet 0) v v)" "rs_elems (rs_add (newRangeSet 0) v v) = rs_elems s"
      using set_vs v by (auto simp: inv_intros elems_simps)
    have q: "max 0 (zero_detect p v) = p \<or> (max 0 (zero_detect p v) = 0 \<and> zero_detect p (hd (rs_expand s)) = 0)"
      using zero_detect_0_or [OF vv(1), of p] v by (auto simp: vs_def)
    show ?thesis
      using read_back [OF inv _ sp formatInt_facts(1) [OF vv] fr u] q b e by (auto simp: p_def)
  next
    case step
    define n where "n = length vs - 1"
    define lo where "lo = hd vs"
    define hi where "hi = last vs"
    have vs: "vs = progression lo step (Suc n)"
    proof -
      have "Suc n = length vs" using step by (simp add: n_def)
      then show ?thesis using detectStep_progression [of vs] step by (simp add: step_def lo_def)
    qed
    have hi: "hi = lo + int n * step"
      unfolding hi_def by (subst vs) (simp add: progression_def)
    have lohi: "0 \<le> lo" "hi \<le> max_int" "lo \<le> hi"
    proof -
      have "lo \<in> set vs" "hi \<in> set vs" using ne by (simp_all add: lo_def hi_def)
      then show "0 \<le> lo" "hi \<le> max_int" using vb by blast+
      show "lo \<le> hi" using hi step by simp
    qed
    have "0 < n" using step by (simp add: n_def)
    then have "step \<le> int n * step" using step by (intro mult_le_cancel_right1 [THEN iffD2]) auto
    then have st: "step \<le> max_int" using hi lohi by linarith
    have e: "rs_fold s = formatInt p lo @ ''-'' @ formatInt p hi @ ''/'' @ itoa step"
      using inv step ne
      by (simp add: rs_fold_def Let_def vs_def p_def step_def lo_def hi_def hd_conv_nth last_conv_nth)
    define u where "u = add_steps lo hi step (newRangeSet 0)"
    have pp: "parse_part (0, newRangeSet 0) (rs_fold s) = Inr (max 0 (zero_detect p lo), u)"
      unfolding e u_def by (rule parse_part_stepped [OF lohi(1) lohi(3) lohi(2) step(2) st])
    have "CHR '','' \<notin> set (rs_fold s)"
      using formatInt_facts(2) [of lo p] formatInt_facts(2) [of hi p] formatInt_facts(2) [of step 0] lohi st step
      by (auto simp: e digits_notin formatInt_def split: if_splits)
    then have sp: "split_on CHR '','' (rs_fold s) = [rs_fold s]" by (rule split_on_single)
    have fr: "fold_res parse_part (0, newRangeSet 0) [rs_fold s] = Inr (max 0 (zero_detect p lo), u)"
      using pp by simp
    have ueq: "u = foldl (\<lambda>u v. rs_add u v v) (newRangeSet 0) vs"
      unfolding u_def vs using step hi by (intro add_steps_progression) auto
    have u: "rs_inv u" "rs_elems u = rs_elems s"
      using rset.ins_values [of "newRangeSet 0" vs] set_vs by (simp_all add: ueq)
    have q: "max 0 (zero_detect p lo) = p \<or> (max 0 (zero_detect p lo) = 0 \<and> zero_detect p (hd (rs_expand s)) = 0)"
      using zero_detect_0_or [OF lohi(1), of p] by (auto simp: vs_def lo_def)
    have "rs_fold s \<noteq> []" by (simp add: e)
    then show ?thesis using read_back [OF inv _ sp _ fr u] q b by (auto simp: p_def)
  next
    case ranges
    with read_back_ranges [OF inv] b show ?thesis by auto
  qed
qed


definition rs_padded :: rangeSet where
  "rs_padded = rs_add (rs_add (rs_add (newRangeSet 3) 8 11) 14 14) 99 100"

lemma rs_padded_facts:
  "rs_inv rs_padded" "rs_ranges rs_padded \<noteq> []" "\<forall>v\<in>rs_elems rs_padded. 0 \<le> v \<and> v \<le> max_int"
proof -
  show inv: "rs_inv rs_padded" unfolding rs_padded_def by (intro inv_intros) simp
  have el: "rs_elems rs_padded = {8..11} \<union> {14..14} \<union> {99..100}"
    unfolding rs_padded_def by (simp add: elems_simps inv_intros)
  then show "rs_ranges rs_padded \<noteq> []" by (auto simp: rs_elems_def)
  show "\<forall>v\<in>rs_elems rs_padded. 0 \<le> v \<and> v \<le> max_int" unfolding el by auto
qed


section \<open>The Cartesian product\<close>

fun seg_choices :: "segment \<Rightarrow> string list" where
  "seg_choices (SegLiteral l) = [l]"
| "seg_choices (SegBracket vs) = vs"

definition seg_total :: "segment list \<Rightarrow> nat" where
  "seg_total segs = prod_list (map (\<lambda>s. length (seg_choices s)) segs)"

text \<open>The reference: all choices of one string per segment, in lexicographic order of the choices.\<close>

definition cartesian_ref :: "segment list \<Rightarrow> string list" where
  "cartesian_ref segs = map concat (product_lists (map seg_choices segs))"

lemma seg_total_simps [simp]:
  "seg_total [] = 1"
  "seg_total (s # segs) = length (seg_choices s) * seg_total segs"
  by (simp_all add: seg_total_def)

lemma snd_strides: "snd (strides segs) = seg_total segs"
  by (induction segs rule: strides.induct) (auto split: prod.splits)

lemma length_strides: "length (fst (strides segs)) = length segs"
  by (induction segs rule: strides.induct) (auto split: prod.splits)

lemma strides_dvd:
  "(s, k) \<in> set (zip segs (fst (strides segs))) \<Longrightarrow> s = SegBracket vs \<Longrightarrow> k * length vs dvd seg_total segs"
proof (induction segs rule: strides.induct)
  case (2 ws segs)
  obtain ss st where st: "strides segs = (ss, st)" by (cases "strides segs") auto
  have "st = seg_total segs" using snd_strides [of segs] st by simp
  with 2 st show ?case by (auto simp: mult.commute intro: dvd_mult)
next
  case (3 l segs)
  then show ?case by (auto split: prod.splits)
qed simp

text \<open>An index only matters modulo the total of the segments it selects from.\<close>

lemma div_mod_stride:
  fixes i k n t :: nat
  assumes "k * n dvd t"
  shows "(i mod t) div k mod n = i div k mod n"
proof (cases "k = 0")
  case False
  obtain m where t: "t = k * n * m" using assms by (auto elim: dvdE)
  have "(i mod t) div k = (i div k) mod (n * m)"
    using mod_mult2_eq [of i k "n * m"] False by (simp add: t mult.assoc)
  then show ?thesis by (simp add: mod_mod_cancel)
qed simp

lemma build_name_mod: "build_name segs i = build_name segs (i mod seg_total segs)"
proof -
  have "write_segment i (s, k) = write_segment (i mod seg_total segs) (s, k)"
    if "(s, k) \<in> set (zip segs (fst (strides segs)))" for s k
  proof (cases s)
    case (SegBracket vs)
    then show ?thesis using div_mod_stride [OF strides_dvd [OF that SegBracket]] by simp
  qed simp
  then show ?thesis
    unfolding build_name_def by (intro arg_cong [where f = concat] map_cong) auto
qed

lemma build_name_Lit: "build_name (SegLiteral l # segs) i = l @ build_name segs i"
  by (cases "strides segs") (simp add: build_name_def)

lemma build_name_Br:
  "build_name (SegBracket vs # segs) i = vs ! (i div seg_total segs mod length vs) @ build_name segs i"
  using snd_strides [of segs] by (cases "strides segs") (simp add: build_name_def)

text \<open>Counting with two digits: the high digit selects the value, the low digit the rest.\<close>

lemma upt_mult_concat:
  "0 < t \<Longrightarrow> map f [0..<n * t] = concat (map (\<lambda>a. map (\<lambda>b. f (a * t + b)) [0..<t]) [0..<n])"
proof (induction n)
  case (Suc n)
  have "[0..<Suc n * t] = [0..<n * t] @ map (\<lambda>b. b + n * t) [0..<t]"
    unfolding map_add_upt using upt_add_eq_append [of 0 "n * t" t] by (simp add: add.commute)
  with Suc show ?case by (simp add: comp_def add.commute)
qed simp

lemma map_via_nth: "map g vs = map (\<lambda>a. g (vs ! a)) [0..<length vs]"
  by (rule nth_equalityI) auto

lemma build_all_names:
  "\<forall>s\<in>set segs. seg_choices s \<noteq> [] \<Longrightarrow> map (build_name segs) [0..<seg_total segs] = cartesian_ref segs"
proof (induction segs)
  case Nil
  then show ?case by (simp add: cartesian_ref_def build_name_def)
next
  case (Cons s segs)
  have ih: "map (build_name segs) [0..<seg_total segs] = cartesian_ref segs" using Cons by simp
  show ?case
  proof (cases s)
    case (SegLiteral l)
    have "map (build_name (s # segs)) [0..<seg_total (s # segs)] = map ((@) l) (cartesian_ref segs)"
      using SegLiteral ih [symmetric] by (simp add: build_name_Lit comp_def)
    then show ?thesis using SegLiteral by (simp add: cartesian_ref_def comp_def)
  next
    case (SegBracket vs)
    let ?t = "seg_total segs"
    have t: "0 < ?t"
      using Cons.prems by (auto simp: seg_total_def prod_list_zero_iff intro!: Nat.gr0I)
    have "map (build_name (s # segs)) [0..<seg_total (s # segs)] =
      concat (map (\<lambda>a. map (\<lambda>b. build_name (s # segs) (a * ?t + b)) [0..<?t]) [0..<length vs])"
      using upt_mult_concat [OF t] SegBracket by simp
    also have "\<dots> = concat (map (\<lambda>a. map (\<lambda>b. vs ! a @ build_name segs b) [0..<?t]) [0..<length vs])"
    proof (intro arg_cong [where f = concat] map_cong refl)
      fix a b assume "a \<in> set [0..<length vs]" "b \<in> set [0..<?t]"
      then have ab: "a < length vs" "b < ?t" by auto
      then have "(a * ?t + b) div ?t mod length vs = a" "(a * ?t + b) mod ?t = b" by simp_all
      then show "build_name (s # segs) (a * ?t + b) = vs ! a @ build_name segs b"
        using SegBracket build_name_mod [of segs "a * ?t + b"] by (simp add: build_name_Br)
    qed
    also have "\<dots> = concat (map (\<lambda>a. map ((@) (vs ! a)) (cartesian_ref segs)) [0..<length vs])"
      using ih [symmetric] by (simp add: comp_def)
    also have "\<dots> = concat (map (\<lambda>v. map ((@) v) (cartesian_ref segs)) vs)"
      by (simp only: map_via_nth [of "\<lambda>v. map ((@) v) (cartesian_ref segs)" vs])
    also have "\<dots> = cartesian_ref (s # segs)"
      using SegBracket by (simp add: cartesian_ref_def map_concat comp_def)
    finally show ?thesis .
  qed
qed

lemma guard_iff:
  fixes tot n m :: int
  assumes "0 < n"
  shows "tot > m div n \<longleftrightarrow> tot * n > m"
proof
  assume "tot > m div n"
  show "tot * n > m"
  proof (rule ccontr)
    assume "\<not> tot * n > m"
    then have "(tot * n) div n \<le> m div n" using assms by (intro zdiv_mono1) auto
    with \<open>tot > m div n\<close> assms show False by simp
  qed
next
  assume "tot * n > m"
  show "tot > m div n"
  proof (rule ccontr)
    assume "\<not> tot > m div n"
    then have "tot * n \<le> (m div n) * n" using assms by simp
    also have "\<dots> \<le> m" using assms by (simp add: minus_mod_eq_div_mult [symmetric])
    finally show False using \<open>tot * n > m\<close> by simp
  qed
qed

definition brackets_nonempty :: "segment list \<Rightarrow> bool" where
  "brackets_nonempty segs \<longleftrightarrow> (\<forall>s\<in>set segs. seg_choices s \<noteq> [])"

lemma seg_total_pos: "brackets_nonempty segs \<Longrightarrow> 0 < seg_total segs"
  by (induction segs) (auto simp: brackets_nonempty_def)

lemma count_loop_exact:
  assumes "brackets_nonempty segs" "0 < maxExpand" "0 < tot"
  shows "if tot * int (seg_total segs) \<le> maxExpand
    then count_loop maxExpand tot segs = Inr (Some (tot * int (seg_total segs)))
    else (\<exists>e. count_loop maxExpand tot segs = Inl e) \<or>
         count_loop maxExpand tot segs = Inr (Some (tot * int (seg_total segs)))"
  using assms
proof (induction maxExpand tot segs rule: count_loop.induct)
  case (2 maxExpand tot vs segs)
  have ne: "brackets_nonempty segs" "vs \<noteq> []" using "2.prems"(1) by (auto simp: brackets_nonempty_def)
  define n where "n = int (length vs)"
  have n: "0 < n" using ne(2) by (simp add: n_def)
  have t1: "1 \<le> int (seg_total segs)" using seg_total_pos [OF ne(1)] by simp
  show ?case
  proof (cases "tot * n > maxExpand")
    case True
    then have "tot > maxExpand div n" using guard_iff [OF n] by blast
    then have "\<exists>e. count_loop maxExpand tot (SegBracket vs # segs) = Inl e"
      using ne(2) "2.prems"(2) by (simp add: n_def)
    moreover have "maxExpand < tot * (n * int (seg_total segs))"
    proof -
      have "tot * n \<le> (tot * n) * int (seg_total segs)"
        using t1 n "2.prems"(3) mult_left_mono [of 1 "int (seg_total segs)" "tot * n"] by simp
      with True show ?thesis by (simp add: mult.assoc)
    qed
    ultimately show ?thesis by (auto simp: n_def)
  next
    case False
    then have "\<not> tot > maxExpand div n" using guard_iff [OF n] by blast
    then have step: "count_loop maxExpand tot (SegBracket vs # segs) = count_loop maxExpand (tot * n) segs"
      using ne(2) by (simp add: n_def)
    have "count_loop maxExpand (tot * n) segs = Inr (Some (tot * n * int (seg_total segs))) \<or>
      (\<not> tot * n * int (seg_total segs) \<le> maxExpand \<and> (\<exists>e. count_loop maxExpand (tot * n) segs = Inl e))"
      using "2.IH" ne \<open>\<not> tot > maxExpand div n\<close> n "2.prems"(2,3) False
      by (auto simp: n_def split: if_splits)
    with step False show ?thesis by (auto simp: n_def mult.assoc)
  qed
next
  case (3 maxExpand tot l segs)
  then show ?case by (simp add: brackets_nonempty_def)
qed simp

text \<open>The result of the product by the size of the product.\<close>

lemma cartesianExpand_cases:
  assumes "brackets_nonempty segs" "0 < maxExpand"
  shows "if int (seg_total segs) \<le> maxExpand
    then cartesianExpand segs maxExpand = Inr (cartesian_ref segs) \<and>
         length (cartesian_ref segs) = seg_total segs
    else \<exists>e. cartesianExpand segs maxExpand = Inl e"
proof -
  have names: "map (build_name segs) [0..<seg_total segs] = cartesian_ref segs"
    using assms(1) by (intro build_all_names) (simp add: brackets_nonempty_def)
  then have len: "length (cartesian_ref segs) = seg_total segs" by (metis length_map length_upt minus_nat.diff_0)
  show ?thesis
  proof (cases "segs = []")
    case True
    then show ?thesis using assms(2) by (simp add: cartesianExpand_def cartesian_ref_def)
  next
    case False
    have "count_loop maxExpand 1 segs = Inr (Some (int (seg_total segs))) \<or>
      (\<not> int (seg_total segs) \<le> maxExpand \<and> (\<exists>e. count_loop maxExpand 1 segs = Inl e))"
      using count_loop_exact [OF assms, of 1] by (auto split: if_splits)
    with False len names assms(2) show ?thesis by (auto simp: cartesianExpand_def)
  qed
qed

text \<open>
  Property C12. \<open>cartesianExpand\<close> is exact and its limit is tight. With no empty bracket and a positive limit
  it returns all combinations of literals and bracket values, in lexicographic order of the choices,
  when their number is at most the limit, and an error otherwise; so it never builds more names than
  the limit allows.
\<close>

theorem cartesianExpand_exact:
  assumes "brackets_nonempty segs" "0 < maxExpand"
  shows "if int (seg_total segs) \<le> maxExpand
    then cartesianExpand segs maxExpand = Inr (cartesian_ref segs) \<and>
         length (cartesian_ref segs) = seg_total segs
    else \<exists>e. cartesianExpand segs maxExpand = Inl e"
  by (rule cartesianExpand_cases [OF assms])

definition sample_segments :: "segment list" where
  "sample_segments = [SegLiteral ''r'', SegBracket [''1'', ''2''], SegLiteral ''n'', SegBracket [''1'', ''2'', ''3'']]"

theorem cartesianExpand_exact_witness:
  "brackets_nonempty sample_segments \<and>
   cartesianExpand sample_segments 6 = Inr (cartesian_ref sample_segments) \<and>
   (\<exists>e. cartesianExpand sample_segments 5 = Inl e)"
proof -
  have ne: "brackets_nonempty sample_segments" by (simp add: brackets_nonempty_def sample_segments_def)
  have "seg_total sample_segments = 6" by (simp add: sample_segments_def)
  then show ?thesis
    using ne cartesianExpand_exact [OF ne, of 6] cartesianExpand_exact [OF ne, of 5] by simp
qed

end
