(* ===== verification/SetExpr.thy ===== *)
theory SetExpr
  imports Bracket
begin

text \<open>
  Model of the expression level of \<open>pkg/mesh/nodeset/parser.go\<close>: group references, the expansion of
  one term, the tokenizer that splits an expression at the operators outside brackets, and
  \<open>parseExpr\<close>, which evaluates the operators from left to right. A Go \<open>map[string]struct{}\<close> is a
  finite set of strings. The group resolver is an interface value supplied by the caller: \<open>None\<close> is
  the nil interface, \<open>Some r\<close> a resolver whose \<open>Resolve\<close> method is the function \<open>r\<close>.
\<close>

type_synonym groupResolver = "(string \<Rightarrow> string \<Rightarrow> string + string list) option"

section \<open>Terms\<close>

definition expandGroup :: "string \<Rightarrow> groupResolver \<Rightarrow> ns_error + string list" where
  "expandGroup ref resolver =
     (case resolver of
        None \<Rightarrow> Inl (NoGroupResolver ref)
      | Some resolve \<Rightarrow>
          (let (src, grp) = (case index_byte ref CHR '':'' of
                 Some i \<Rightarrow> (take i ref, drop (i + 1) ref)
               | None \<Rightarrow> ([], ref))
           in case resolve src grp of
                Inl err \<Rightarrow> Inl (ResolveFailed ref err)
              | Inr nodes \<Rightarrow> Inr nodes))"

definition expandTerm :: "string \<Rightarrow> groupResolver \<Rightarrow> int \<Rightarrow> ns_error + string list" where
  "expandTerm trm resolver maxExpand =
     (if length trm > 0 \<and> hd trm = CHR ''@'' then expandGroup (tl trm) resolver
      else case splitBrackets trm of
        Inl err \<Rightarrow> Inl err
      | Inr [SegLiteral _] \<Rightarrow> Inr [trm]
      | Inr segs \<Rightarrow> cartesianExpand segs maxExpand)"

section \<open>Tokens\<close>

definition is_operator :: "char \<Rightarrow> bool" where
  "is_operator c \<longleftrightarrow> c = CHR '','' \<or> c = CHR ''!'' \<or> c = CHR ''&'' \<or> c = CHR ''^''"

text \<open>
  The loop of \<open>tokenize\<close>. \<open>i\<close> is the position, \<open>cur\<close> is \<open>expr[start:i]\<close>, the last argument is
  \<open>expr[i:]\<close>; the terms and operators found are returned in front of those of the rest.
\<close>

fun tok_loop :: "string \<Rightarrow> int \<Rightarrow> nat \<Rightarrow> string \<Rightarrow> string \<Rightarrow> ns_error + string list \<times> char list" where
  "tok_loop expr depth i cur [] =
     (if depth \<noteq> 0 then Inl (UnclosedBracket expr)
      else let trm = trim_space cur in
        if trm = [] then Inl (TrailingOperator expr) else Inr ([trm], []))"
| "tok_loop expr depth i cur (c # cs) =
     (if c = CHR ''['' then tok_loop expr (depth + 1) (i + 1) (cur @ [c]) cs
      else if c = CHR '']'' then
        (if depth - 1 < 0 then Inl (UnmatchedBracket expr)
         else tok_loop expr (depth - 1) (i + 1) (cur @ [c]) cs)
      else if is_operator c \<and> depth = 0 then
        (let trm = trim_space cur in
         if trm = [] then Inl (EmptyOperand i expr)
         else case tok_loop expr depth (i + 1) [] cs of
           Inl err \<Rightarrow> Inl err
         | Inr (trms, ops) \<Rightarrow> Inr (trm # trms, c # ops))
      else tok_loop expr depth (i + 1) (cur @ [c]) cs)"

definition tokenize :: "string \<Rightarrow> ns_error + string list \<times> char list" where
  "tokenize expr = tok_loop expr 0 0 [] expr"

section \<open>Expressions\<close>

definition sliceToSet :: "string list \<Rightarrow> string set" where
  "sliceToSet xs = foldl (\<lambda>m s. insert s m) {} xs"

definition setToSortedSlice :: "string set \<Rightarrow> string list" where
  "setToSortedSlice m = sorted_list_of_set m"

definition apply_operator :: "char \<Rightarrow> string set \<Rightarrow> string set \<Rightarrow> string set" where
  "apply_operator oper l r =
     (if oper = CHR '','' then l \<union> r
      else if oper = CHR ''!'' then l - r
      else if oper = CHR ''&'' then l \<inter> r
      else if oper = CHR ''^'' then (l - r) \<union> (r - l)
      else l)"

text \<open>The operator loop: the terms still to be expanded are paired with their operators.\<close>

fun eval_loop :: "groupResolver \<Rightarrow> int \<Rightarrow> string set \<Rightarrow> (char \<times> string) list \<Rightarrow> ns_error + string set" where
  "eval_loop resolver maxExpand acc [] = Inr acc"
| "eval_loop resolver maxExpand acc ((oper, trm) # rest) =
     (case expandTerm trm resolver maxExpand of
        Inl err \<Rightarrow> Inl err
      | Inr rhs \<Rightarrow> eval_loop resolver maxExpand (apply_operator oper acc (sliceToSet rhs)) rest)"

definition parseExpr :: "string \<Rightarrow> groupResolver \<Rightarrow> int \<Rightarrow> ns_error + string list" where
  "parseExpr expr0 resolver maxExpand =
     (let expr = trim_space expr0 in
      if expr = [] then Inl EmptyPattern
      else case tokenize expr of
        Inl err \<Rightarrow> Inl err
      | Inr (trms, ops) \<Rightarrow>
          (case expandTerm (hd trms) resolver maxExpand of
             Inl err \<Rightarrow> Inl err
           | Inr first \<Rightarrow>
               (case eval_loop resolver maxExpand (sliceToSet first) (zip ops (tl trms)) of
                  Inl err \<Rightarrow> Inl err
                | Inr resultSet \<Rightarrow>
                    if int (card resultSet) > maxExpand
                    then Inl (ExpansionExceedsLimit (int (card resultSet)) maxExpand)
                    else Inr (setToSortedSlice resultSet))))"

lemma sliceToSet_eq [simp]: "sliceToSet xs = set xs"
proof -
  have "foldl (\<lambda>m s. insert s m) A xs = A \<union> set xs" for A
    by (induction xs arbitrary: A) auto
  then show ?thesis by (simp add: sliceToSet_def)
qed

lemma finite_apply_operator: "finite l \<Longrightarrow> finite r \<Longrightarrow> finite (apply_operator oper l r)"
  by (simp add: apply_operator_def)

lemma eval_loop_finite: "eval_loop rv mx acc rest = Inr s \<Longrightarrow> finite acc \<Longrightarrow> finite s"
  by (induction rv mx acc rest rule: eval_loop.induct)
    (auto split: sum.splits intro: finite_apply_operator)

text \<open>The tokenizer returns one term more than operators, so \<open>tokens[0]\<close> and \<open>tokens[i+1]\<close> exist.\<close>

lemma tok_loop_length:
  "tok_loop expr depth i cur cs = Inr (trms, ops) \<Longrightarrow> length trms = Suc (length ops)"
  by (induction expr depth i cur cs arbitrary: trms ops rule: tok_loop.induct)
    (auto simp: Let_def split: if_splits sum.splits prod.splits)

text \<open>
  The expansion limit bounds every successful result: what \<open>parseExpr\<close> returns is sorted in
  byte order, free of duplicates and has at most \<open>maxExpand\<close> names, whatever the expression, the
  resolver and the limit are.
\<close>

theorem parseExpr_sorted_bounded:
  assumes "parseExpr expr resolver maxExpand = Inr names"
  shows "sorted names \<and> distinct names \<and> int (length names) \<le> maxExpand"
proof -
  obtain trms ops first s where
    ev: "eval_loop resolver maxExpand (set first) (zip ops (tl trms)) = Inr s"
    and s: "int (card s) \<le> maxExpand" "names = sorted_list_of_set s"
    using assms by (auto simp: parseExpr_def Let_def setToSortedSlice_def split: if_splits sum.splits prod.splits)
  have "finite s" using eval_loop_finite [OF ev] by simp
  then show ?thesis using s by (simp add: sorted_sorted_list_of_set)
qed

theorem parseExpr_sorted_bounded_witness:
  "parseExpr ''b,a,b'' None 5 = Inr [''a'', ''b''] \<and> sorted [''a'', ''b''] \<and> distinct [''a'', ''b''] \<and>
   int (length [''a'', ''b'']) \<le> 5"
proof -
  have ev: "parseExpr ''b,a,b'' None 5 = Inr [''a'', ''b'']"
    by (simp add: parseExpr_def trim_space_def is_space_def tokenize_def is_operator_def expandTerm_def
      splitBrackets_def split_loop.simps apply_operator_def setToSortedSlice_def insert_commute Let_def)
  show ?thesis using ev parseExpr_sorted_bounded [OF ev] by simp
qed

section \<open>Rendered expressions are tokenized back\<close>

text \<open>
  \<open>scan_term d t\<close> follows the bracket depth through a term: \<open>None\<close> when a bracket closes that was not
  opened or an operator stands outside brackets, otherwise the depth at its end. \<open>operand t\<close>
  says that \<open>t\<close> can stand between operators: non-empty, without blanks at its ends and balanced.
\<close>

fun scan_term :: "nat \<Rightarrow> string \<Rightarrow> nat option" where
  "scan_term d [] = Some d"
| "scan_term d (c # cs) =
     (if c = CHR ''['' then scan_term (Suc d) cs
      else if c = CHR '']'' then (case d of 0 \<Rightarrow> None | Suc e \<Rightarrow> scan_term e cs)
      else if is_operator c \<and> d = 0 then None
      else scan_term d cs)"

definition operand :: "string \<Rightarrow> bool" where
  "operand t \<longleftrightarrow> t \<noteq> [] \<and> trim_space t = t \<and> scan_term 0 t = Some 0"

definition render :: "string \<Rightarrow> (char \<times> string) list \<Rightarrow> string" where
  "render t rest = t @ concat (map (\<lambda>(oper, u). oper # u) rest)"

lemma trim_space_fix:
  assumes "trim_space s = s" "s \<noteq> []"
  shows "\<not> is_space (hd s) \<and> \<not> is_space (last s)"
proof -
  define a where "a = dropWhile is_space s"
  have s: "s = rev (dropWhile is_space (rev a))" using assms(1) by (simp add: trim_space_def a_def)
  have "length s \<le> length a" by (subst s) (simp add: length_dropWhile_le [of is_space "rev a", simplified])
  moreover have "length a \<le> length s" by (simp add: a_def length_dropWhile_le)
  moreover have "s = takeWhile is_space s @ a" by (simp add: a_def)
  ultimately have as: "a = s" by (metis append_eq_append_conv append_self_conv2 le_antisym)
  then have "\<not> is_space (hd s)" using assms(2) hd_dropWhile [of is_space s] by (simp add: a_def)
  moreover have "dropWhile is_space (rev s) = rev s" using s as by (metis rev_rev_ident)
  then have "\<not> is_space (hd (rev s))" using assms(2) hd_dropWhile [of is_space "rev s"] by simp
  ultimately show ?thesis by (simp add: hd_rev)
qed

lemma tok_loop_scan:
  "scan_term d t = Some e \<Longrightarrow>
   tok_loop expr (int d) i cur (t @ rest) = tok_loop expr (int e) (i + length t) (cur @ t) rest"
proof (induction d t arbitrary: i cur rule: scan_term.induct)
  case (2 d c cs)
  show ?case
  proof (cases "c = CHR ''['' \<or> c = CHR '']''")
    case True
    then show ?thesis
    proof
      assume "c = CHR ''[''"
      with 2 show ?thesis by (simp add: add.commute)
    next
      assume c: "c = CHR '']''"
      with "2.prems" obtain d' where "d = Suc d'" "scan_term d' cs = Some e" by (cases d) auto
      with c "2.IH"(2) show ?thesis by simp
    qed
  next
    case False
    with 2 show ?thesis by (cases "is_operator c") (auto split: if_splits)
  qed
qed simp

lemma tokenize_render_loop:
  assumes "operand t" "\<forall>(oper, u)\<in>set rest. is_operator oper \<and> operand u"
  shows "tok_loop expr 0 i [] (render t rest) = Inr (t # map snd rest, map fst rest)"
  using assms
proof (induction rest arbitrary: t i)
  case Nil
  then have "scan_term 0 t = Some 0" by (simp add: operand_def)
  from tok_loop_scan [OF this, of expr i "[]" "[]"] Nil show ?case
    by (simp add: render_def operand_def Let_def)
next
  case (Cons p rest)
  obtain oper u where p: "p = (oper, u)" by (cases p)
  have op: "is_operator oper" "operand u" using Cons.prems p by auto
  have nb: "oper \<noteq> CHR ''[''" "oper \<noteq> CHR '']''" using op(1) by (auto simp: is_operator_def)
  have t: "t \<noteq> []" "trim_space t = t" "scan_term 0 t = Some 0"
    using Cons.prems(1) by (simp_all add: operand_def)
  have r: "render t (p # rest) = t @ oper # render u rest" by (simp add: render_def p)
  have ih: "tok_loop expr 0 (i + length t + 1) [] (render u rest) = Inr (u # map snd rest, map fst rest)"
    using Cons.prems op by (intro Cons.IH) auto
  show ?case
    unfolding r using tok_loop_scan [OF t(3), of expr i "[]" "oper # render u rest"] t ih nb op(1)
    by (simp add: Let_def p)
qed

text \<open>A rendered expression is not changed by the initial trim.\<close>

lemma render_ends:
  assumes "operand t" "\<forall>(oper, u)\<in>set rest. is_operator oper \<and> operand u"
  shows "render t rest \<noteq> [] \<and> hd (render t rest) = hd t \<and>
    last (render t rest) = last (if rest = [] then t else snd (last rest))"
  using assms
proof (induction rest arbitrary: t)
  case Nil
  then show ?case by (simp add: render_def operand_def)
next
  case (Cons p rest)
  obtain oper u where p: "p = (oper, u)" by (cases p)
  have "render t (p # rest) = t @ oper # render u rest" by (simp add: render_def p)
  moreover have "t \<noteq> []" using Cons.prems by (simp add: operand_def)
  ultimately show ?case using Cons p by (auto split: if_splits)
qed

lemma trim_render:
  assumes "operand t" "\<forall>(oper, u)\<in>set rest. is_operator oper \<and> operand u"
  shows "trim_space (render t rest) = render t rest"
proof (rule trim_space_id, intro disjI2 conjI)
  note e = render_ends [OF assms]
  show "\<not> is_space (hd (render t rest))"
    using e assms(1) trim_space_fix [of t] by (auto simp: operand_def)
  have "operand (if rest = [] then t else snd (last rest))"
    using assms last_in_set [of rest] by (cases "last rest") (auto split: if_splits)
  then show "\<not> is_space (last (render t rest))"
    using e trim_space_fix by (auto simp: operand_def)
qed

text \<open>The value of a rendered expression.\<close>

lemma parseExpr_render:
  assumes "operand t" "\<forall>(oper, u)\<in>set rest. is_operator oper \<and> operand u"
    and "\<forall>u\<in>insert t (snd ` set rest). expandTerm u resolver maxExpand = Inr (expansion u)"
  shows "parseExpr (render t rest) resolver maxExpand =
    (let s = foldl (\<lambda>acc (oper, u). apply_operator oper acc (set (expansion u))) (set (expansion t)) rest
     in if int (card s) > maxExpand then Inl (ExpansionExceedsLimit (int (card s)) maxExpand)
        else Inr (sorted_list_of_set s))"
proof -
  have ev: "eval_loop resolver maxExpand acc rest =
    Inr (foldl (\<lambda>acc (oper, u). apply_operator oper acc (set (expansion u))) acc rest)" for acc
    using assms(3)
  proof (induction rest arbitrary: acc)
    case (Cons p rest)
    then show ?case by (cases p) simp
  qed simp
  have tk: "tokenize (render t rest) = Inr (t # map snd rest, map fst rest)"
    unfolding tokenize_def by (rule tokenize_render_loop [OF assms(1,2)])
  have "expandTerm t resolver maxExpand = Inr (expansion t)" using assms(3) by simp
  then show ?thesis
    using render_ends [OF assms(1,2)] tk ev
    by (simp add: parseExpr_def trim_render [OF assms(1,2)] Let_def zip_map_fst_snd setToSortedSlice_def)
qed

text \<open>
  Operators are evaluated strictly from left to right over the expansions of the operands:
  for an expression written as an operand followed by operator and operand pairs, \<open>parseExpr\<close> returns the
  sorted elements of the set obtained by folding union, difference, intersection and symmetric
  difference over the operands' expansions, or an error exactly when that set exceeds the limit.
\<close>

theorem parseExpr_left_to_right:
  assumes "operand t" "\<forall>(oper, u)\<in>set rest. is_operator oper \<and> operand u"
    and "\<forall>u\<in>insert t (snd ` set rest). expandTerm u resolver maxExpand = Inr (expansion u)"
  shows "parseExpr (render t rest) resolver maxExpand =
    (let s = foldl (\<lambda>acc (oper, u). apply_operator oper acc (set (expansion u))) (set (expansion t)) rest
     in if int (card s) > maxExpand then Inl (ExpansionExceedsLimit (int (card s)) maxExpand)
        else Inr (sorted_list_of_set s))"
  by (rule parseExpr_render [OF assms])

theorem parseExpr_left_to_right_witness:
  "parseExpr (render ''a'' [(CHR '','', ''b''), (CHR ''!'', ''a'')]) None 10 = Inr [''b'']"
proof -
  have ops: "operand ''a''" "\<forall>(oper, u)\<in>set [(CHR '','', ''b''), (CHR ''!'', ''a'')]. is_operator oper \<and> operand u"
    by (simp_all add: operand_def trim_space_def is_space_def is_operator_def)
  have ex: "\<forall>u\<in>insert ''a'' (snd ` set [(CHR '','', ''b''), (CHR ''!'', ''a'')]).
    expandTerm u None 10 = Inr ((\<lambda>u. [u]) u)"
    by (simp add: expandTerm_def splitBrackets_def split_loop.simps)
  have "(let s = foldl (\<lambda>acc (oper, u). apply_operator oper acc (set [u])) (set [''a''])
           [(CHR '','', ''b''), (CHR ''!'', ''a'')]
     in if int (card s) > 10 then Inl (ExpansionExceedsLimit (int (card s)) 10)
        else Inr (sorted_list_of_set s)) = Inr [''b'']"
    by (simp add: apply_operator_def Let_def insert_Diff_if)
  with parseExpr_left_to_right [OF ops ex] show ?thesis by simp
qed

end
