(* ===== verification/Fold.thy ===== *)
theory Fold
  imports SetExpr
begin

text \<open>
  Model of \<open>pkg/mesh/nodeset/fold.go\<close>: names are grouped by the part before their trailing number,
  each group is printed with one bracket expression, and the groups are joined with commas. A Go
  \<open>map[string][]string\<close> is an association list in the order in which keys were first inserted; the
  code only walks it through its sorted keys. The main result is that \<open>parseExpr\<close> reads the printed text
  back as exactly the names that were folded.
\<close>

section \<open>Operations\<close>

record nodeEntry =
  ne_value :: int
  ne_padding :: int
  ne_raw :: string

text \<open>The loop that moves \<open>i\<close> left over the trailing digits.\<close>

fun trailing_loop :: "string \<Rightarrow> nat \<Rightarrow> nat" where
  "trailing_loop name 0 = 0"
| "trailing_loop name (Suc i) = (if is_digit (name ! i) then trailing_loop name i else Suc i)"

definition splitTrailingNumber :: "string \<Rightarrow> string \<times> string" where
  "splitTrailingNumber name =
     (let i = trailing_loop name (length name) in
      if i = length name then (name, []) else (take i name, drop i name))"

fun group_append :: "(string \<times> string list) list \<Rightarrow> string \<Rightarrow> string \<Rightarrow> (string \<times> string list) list" where
  "group_append [] k v = [(k, [v])]"
| "group_append ((k', vs) # gs) k v =
     (if k' = k then (k', vs @ [v]) # gs else (k', vs) # group_append gs k v)"

definition groupByPrefix :: "string list \<Rightarrow> (string \<times> string list) list" where
  "groupByPrefix nodes =
     foldl (\<lambda>groups node. group_append groups (fst (splitTrailingNumber node)) node) [] nodes"

definition formatPadded :: "int \<Rightarrow> int \<Rightarrow> string" where
  "formatPadded v padding = (if padding > 0 then sprintf0 padding v else itoa v)"

text \<open>The first loop of \<open>foldGroup\<close>: the entries with a number and the nodes without one.\<close>

fun entries_loop :: "nodeEntry list \<Rightarrow> string list \<Rightarrow> string list \<Rightarrow> nodeEntry list \<times> string list" where
  "entries_loop entries nonNumeric [] = (entries, nonNumeric)"
| "entries_loop entries nonNumeric (node # nodes) =
     (let suffix = snd (splitTrailingNumber node) in
      if suffix = [] then entries_loop entries (nonNumeric @ [node]) nodes
      else case atoi suffix of
        None \<Rightarrow> entries_loop entries (nonNumeric @ [node]) nodes
      | Some v \<Rightarrow>
          (let pad = (if length suffix > 1 \<and> hd suffix = CHR ''0'' then int (length suffix) else 0)
           in entries_loop (entries @ [\<lparr>ne_value = v, ne_padding = pad, ne_raw = suffix\<rparr>]) nonNumeric nodes))"

fun padding_loop :: "int \<Rightarrow> nodeEntry list \<Rightarrow> int" where
  "padding_loop padding [] = padding"
| "padding_loop padding (e # es) =
     (if ne_padding e > padding then padding_loop (ne_padding e) es else padding_loop padding es)"

fun merge_values :: "rang list \<Rightarrow> nodeEntry list \<Rightarrow> rang list" where
  "merge_values ranges [] = ranges"
| "merge_values ranges (e # es) =
     (if ranges \<noteq> [] \<and> rhi (last ranges) \<ge> ne_value e - 1 then
        (if ne_value e > rhi (last ranges)
         then merge_values (butlast ranges @ [mk_rang (rlo (last ranges)) (ne_value e)]) es
         else merge_values ranges es)
      else merge_values (ranges @ [mk_rang (ne_value e) (ne_value e)]) es)"

definition foldGroup :: "string \<Rightarrow> string list \<Rightarrow> string" where
  "foldGroup prfx nodes =
     (let (entries0, nonNumeric0) = entries_loop [] [] nodes in
      if entries0 = [] then join '','' (go_sort (<) nonNumeric0)
      else let
        entries = go_sort (\<lambda>a b. ne_value a < ne_value b) entries0;
        padding = padding_loop 0 entries;
        rs = (newRangeSet padding)\<lparr>rs_ranges := merge_values [] entries\<rparr>;
        folded = rs_fold rs;
        result = (if length entries = 1 then prfx @ formatPadded (ne_value (entries ! 0)) padding
                  else prfx @ ''['' @ folded @ '']'')
      in if nonNumeric0 \<noteq> [] then result @ '','' @ join '','' (go_sort (<) nonNumeric0) else result)"

fun fold_parts :: "(string \<Rightarrow> string list) \<Rightarrow> string list \<Rightarrow> string list" where
  "fold_parts groups [] = []"
| "fold_parts groups (prfx # keys) =
     (let entries = groups prfx in
      if prfx = [] then go_sort (<) entries @ fold_parts groups keys
      else foldGroup prfx entries # fold_parts groups keys)"

text \<open>Reading \<open>groups[k]\<close> of a key that is absent gives the nil slice.\<close>

definition group_at :: "(string \<times> string list) list \<Rightarrow> string \<Rightarrow> string list" where
  "group_at groups k = (case map_of groups k of None \<Rightarrow> [] | Some vs \<Rightarrow> vs)"

definition Fold :: "string list \<Rightarrow> string" where
  "Fold nodes =
     (if nodes = [] then []
      else if length nodes = 1 then nodes ! 0
      else let groups = groupByPrefix nodes; keys = go_sort (<) (map fst groups)
           in join '','' (fold_parts (group_at groups) keys))"

section \<open>Trailing numbers\<close>

lemma trailing_loop_spec:
  "n \<le> length name \<Longrightarrow> trailing_loop name n \<le> n \<and>
   (\<forall>j. trailing_loop name n \<le> j \<and> j < n \<longrightarrow> is_digit (name ! j)) \<and>
   (0 < trailing_loop name n \<longrightarrow> \<not> is_digit (name ! (trailing_loop name n - 1)))"
  by (induction n) (auto simp: less_Suc_eq)

lemma splitTrailingNumber_spec:
  assumes "splitTrailingNumber name = (p, s)"
  shows "name = p @ s" "list_all is_digit s" "p \<noteq> [] \<Longrightarrow> \<not> is_digit (last p)"
proof -
  define i where "i = trailing_loop name (length name)"
  have i: "i \<le> length name" "\<And>j. i \<le> j \<Longrightarrow> j < length name \<Longrightarrow> is_digit (name ! j)"
    "0 < i \<Longrightarrow> \<not> is_digit (name ! (i - 1))"
    using trailing_loop_spec [of "length name" name] by (auto simp: i_def)
  have ps: "p = take i name" "s = drop i name"
    using assms by (auto simp: splitTrailingNumber_def i_def [symmetric] split: if_splits)
  show "name = p @ s" by (simp add: ps)
  show "list_all is_digit s" using i by (auto simp: ps list_all_length)
  show "\<not> is_digit (last p)" if "p \<noteq> []"
    using that i by (auto simp: ps last_conv_nth min_def)
qed

section \<open>Grouping\<close>

lemma group_append_at:
  "group_at (group_append gs k v) k' = group_at gs k' @ (if k' = k then [v] else [])"
  by (induction gs k v rule: group_append.induct) (auto simp: group_at_def)

lemma group_append_keys:
  "set (map fst (group_append gs k v)) = insert k (set (map fst gs))"
  by (induction gs k v rule: group_append.induct) auto

lemma group_append_distinct:
  "distinct (map fst gs) \<Longrightarrow> distinct (map fst (group_append gs k v))"
proof (induction gs k v rule: group_append.induct)
  case (2 k' vs gs k v)
  then show ?case using group_append_keys [of gs k v] by auto
qed simp

lemma groupByPrefix_spec:
  "group_at (groupByPrefix nodes) k = filter (\<lambda>n. fst (splitTrailingNumber n) = k) nodes \<and>
   set (map fst (groupByPrefix nodes)) = (\<lambda>n. fst (splitTrailingNumber n)) ` set nodes \<and>
   distinct (map fst (groupByPrefix nodes))"
proof (induction nodes arbitrary: k rule: rev_induct)
  case Nil
  then show ?case by (simp add: groupByPrefix_def group_at_def)
next
  case (snoc x xs)
  have "groupByPrefix (xs @ [x]) = group_append (groupByPrefix xs) (fst (splitTrailingNumber x)) x"
    by (simp add: groupByPrefix_def)
  with snoc show ?case
    by (auto simp: group_append_at group_append_keys group_append_distinct simp del: set_map)
qed

section \<open>Entries of a group\<close>

definition entry_of :: "string \<Rightarrow> nodeEntry option" where
  "entry_of node =
     (let s = snd (splitTrailingNumber node) in
      if s = [] then None
      else map_option (\<lambda>v. \<lparr>ne_value = v, ne_padding = detectPadding s, ne_raw = s\<rparr>) (atoi s))"

lemma entries_loop_eq:
  "entries_loop es nn nodes = (es @ List.map_filter entry_of nodes, nn @ filter (\<lambda>n. entry_of n = None) nodes)"
proof (induction nodes arbitrary: es nn)
  case Nil
  then show ?case by (simp add: List.map_filter_simps)
next
  case (Cons n nodes)
  then show ?case
    by (cases "atoi (snd (splitTrailingNumber n))")
      (auto simp: List.map_filter_simps entry_of_def Let_def detectPadding_def)
qed

lemma atoi_suffix:
  assumes "list_all is_digit s" "atoi s = Some v"
  shows "s \<noteq> [] \<and> v = dec_val s \<and> 0 \<le> v \<and> v \<le> max_int"
proof -
  have s: "s \<noteq> []" using assms(2) by (auto simp: atoi_def)
  then obtain c cs where c: "s = c # cs" by (cases s) auto
  have nd: "c \<noteq> CHR ''-''" "c \<noteq> CHR ''+''" using assms(1) c by auto
  with assms show ?thesis
    using dec_val_nonneg [OF assms(1)] by (auto simp: atoi_def c Let_def split: if_splits)
qed

section \<open>The ranges of a group\<close>

lemma padding_loop_spec:
  "p \<le> padding_loop p es \<and> (\<forall>e\<in>set es. ne_padding e \<le> padding_loop p es) \<and>
   (padding_loop p es = p \<or> (\<exists>e\<in>set es. ne_padding e = padding_loop p es))"
  by (induction p es rule: padding_loop.induct) (auto split: if_splits)

text \<open>
  When all suffixes of the group are printed with one width, the padding the code settles on (the
  largest it has seen) prints every suffix as it was.
\<close>

lemma common_width:
  assumes "\<And>e. e \<in> set es \<Longrightarrow> 0 \<le> ne_value e \<and> ne_padding e = zero_detect w (ne_value e)"
    and "e \<in> set es"
  shows "formatInt (padding_loop 0 es) (ne_value e) = formatInt w (ne_value e)"
proof -
  define P where "P = padding_loop 0 es"
  have le: "ne_padding e \<le> P" and P: "P = 0 \<or> (\<exists>e\<in>set es. ne_padding e = P)"
    using padding_loop_spec [of 0 es] assms(2) by (auto simp: P_def)
  have v: "0 \<le> ne_value e" and z: "ne_padding e = zero_detect w (ne_value e)" using assms by auto
  have "P = w \<or> (P = 0 \<and> zero_detect w (ne_value e) = 0)"
    using P
  proof
    assume "P = 0"
    then show ?thesis using le z zero_detect_0_or [OF v, of w] by auto
  next
    assume "\<exists>e\<in>set es. ne_padding e = P"
    then obtain e' where e': "e' \<in> set es" "ne_padding e' = P" by blast
    then have "P = 0 \<or> P = w" using assms(1) [OF e'(1)] zero_detect_0_or [of "ne_value e'" w] by auto
    then show ?thesis using le z zero_detect_0_or [OF v, of w] by auto
  qed
  then show ?thesis unfolding P_def [symmetric] by (rule detected_padding_formats [OF v order_refl])
qed

lemma ranges_ok_snoc:
  "ranges_ok (rs @ [r]) \<longleftrightarrow> ranges_ok rs \<and> rlo r \<le> rhi r \<and> (\<forall>a\<in>set rs. rhi a + 1 < rlo r)"
  by (auto simp: ranges_ok_def sorted_wrt_append)

lemma ranges_ok_last:
  assumes "ranges_ok rs" "a \<in> set rs"
  shows "rhi a \<le> rhi (last rs)"
proof -
  obtain i where i: "i < length rs" "a = rs ! i" using assms(2) by (auto simp: in_set_conv_nth)
  then have "rs \<noteq> []" by auto
  then show ?thesis using ranges_ok_nth_mono [OF assms(1), of i "length rs - 1"] i by (simp add: last_conv_nth)
qed

lemma merge_values_correct:
  assumes "ranges_ok rs" "sorted_wrt (\<lambda>a b. ne_value a \<le> ne_value b) es"
    "rs \<noteq> [] \<Longrightarrow> \<forall>e\<in>set es. rhi (last rs) \<le> ne_value e"
  shows "ranges_ok (merge_values rs es) \<and>
    ranges_elems (merge_values rs es) = ranges_elems rs \<union> ne_value ` set es"
  using assms
proof (induction rs es rule: merge_values.induct)
  case (2 rs e es)
  define v where "v = ne_value e"
  have later: "\<forall>e'\<in>set es. v \<le> ne_value e'" and so: "sorted_wrt (\<lambda>a b. ne_value a \<le> ne_value b) es"
    using "2.prems"(2) by (auto simp: v_def)
  show ?case
  proof (cases "rs \<noteq> [] \<and> rhi (last rs) \<ge> v - 1")
    case near: True
    then obtain r rs' where rs: "rs = rs' @ [r]" by (metis append_butlast_last_id)
    have r: "rlo r \<le> rhi r" "rhi r \<le> v" "ranges_ok rs'" "\<forall>a\<in>set rs'. rhi a + 1 < rlo r"
      using "2.prems"(1,3) by (auto simp: rs ranges_ok_snoc v_def)
    show ?thesis
    proof (cases "v > rhi r")
      case True
      have "ranges_ok (rs' @ [mk_rang (rlo r) v])" using r by (auto simp: ranges_ok_snoc)
      moreover have "v = rhi r + 1" using True near r by (simp add: rs)
      ultimately show ?thesis using "2.IH"(1) near True later so r
        by (auto simp: rs v_def [symmetric])
    next
      case False
      then have "v = rhi r" using r by simp
      moreover have "merge_values rs (e # es) = merge_values rs es" using near False by (simp add: rs v_def)
      moreover have "ranges_ok (merge_values rs es) \<and>
        ranges_elems (merge_values rs es) = ranges_elems rs \<union> ne_value ` set es"
        using near False later so "2.prems"(1) \<open>v = rhi r\<close> by (intro "2.IH"(2)) (auto simp: rs v_def)
      moreover have "v \<in> ranges_elems rs" using \<open>v = rhi r\<close> r by (simp add: rs)
      ultimately show ?thesis by (auto simp: v_def)
    qed
  next
    case far: False
    have gap: "rhi a + 1 < v" if "a \<in> set rs" for a
    proof -
      have "rs \<noteq> []" using that by auto
      then show ?thesis using far ranges_ok_last [OF "2.prems"(1) that] by linarith
    qed
    then have "ranges_ok (rs @ [mk_rang v v])" using "2.prems"(1) by (simp add: ranges_ok_snoc)
    then show ?thesis using "2.IH"(3) far later so by (auto simp: v_def)
  qed
qed simp

section \<open>What a group is printed as\<close>

text \<open>
  The text of a group is a list of operands joined by commas: the folded name, if the group has
  numbers, and the names without a number.
\<close>

definition group_main :: "string \<Rightarrow> nodeEntry list \<Rightarrow> string" where
  "group_main prfx entries =
     (let padding = padding_loop 0 entries;
          rs = (newRangeSet padding)\<lparr>rs_ranges := merge_values [] entries\<rparr>
      in if length entries = 1 then prfx @ formatPadded (ne_value (entries ! 0)) padding
         else prfx @ ''['' @ rs_fold rs @ '']'')"

definition group_terms :: "string \<Rightarrow> string list \<Rightarrow> string list" where
  "group_terms prfx nodes =
     (let es = List.map_filter entry_of nodes; nn = filter (\<lambda>n. entry_of n = None) nodes in
      if prfx = [] then go_sort (<) nodes
      else (if es = [] then [] else [group_main prfx (go_sort (\<lambda>a b. ne_value a < ne_value b) es)]) @
           go_sort (<) nn)"

lemma go_sort_Nil_iff [simp]: "go_sort lt xs = [] \<longleftrightarrow> xs = []"
  by (metis length_go_sort length_0_conv)

lemma foldGroup_terms:
  assumes "prfx \<noteq> []"
  shows "foldGroup prfx nodes = join '','' (group_terms prfx nodes)"
  using assms
  by (auto simp: foldGroup_def group_terms_def group_main_def entries_loop_eq Let_def join_Cons)

lemma join_append:
  "xs \<noteq> [] \<Longrightarrow> ys \<noteq> [] \<Longrightarrow> join sep (xs @ ys) = join sep xs @ sep @ join sep ys"
proof (induction xs)
  case (Cons x xs)
  then show ?case by (cases "xs = []") (simp_all add: join_Cons)
qed simp

lemma go_insert_ne [simp]: "go_insert lt x xs \<noteq> []"
  by (cases xs) auto

lemma group_terms_nonempty: "nodes \<noteq> [] \<Longrightarrow> group_terms prfx nodes \<noteq> []"
  by (cases nodes) (auto simp: group_terms_def Let_def List.map_filter_simps split: option.splits)

lemma join_fold_parts:
  assumes "\<And>k. k \<in> set keys \<Longrightarrow> groups k \<noteq> []"
  shows "join '','' (fold_parts groups keys) = join '','' (concat (map (\<lambda>k. group_terms k (groups k)) keys)) \<and>
    (keys \<noteq> [] \<longrightarrow> fold_parts groups keys \<noteq> [])"
  using assms
proof (induction keys)
  case (Cons k keys)
  have ne: "group_terms k (groups k) \<noteq> []" using Cons.prems by (simp add: group_terms_nonempty)
  have ih: "join '','' (fold_parts groups keys) = join '','' (concat (map (\<lambda>k. group_terms k (groups k)) keys))"
    "keys \<noteq> [] \<Longrightarrow> fold_parts groups keys \<noteq> []" using Cons by auto
  have cn: "keys \<noteq> [] \<Longrightarrow> concat (map (\<lambda>k. group_terms k (groups k)) keys) \<noteq> []"
    using Cons.prems by (cases keys) (auto simp: group_terms_nonempty)
  show ?case
  proof (cases "k = []")
    case True
    then have "group_terms k (groups k) = go_sort (<) (groups k)" by (simp add: group_terms_def Let_def)
    with True ne ih cn show ?thesis by (cases "keys = []") (auto simp: join_append Let_def)
  next
    case False
    then show ?thesis using ne ih cn foldGroup_terms [OF False, of "groups k"]
      by (cases "keys = []") (auto simp: join_append join_Cons Let_def)
  qed
qed simp

definition fold_terms :: "string list \<Rightarrow> string list" where
  "fold_terms nodes =
     (if length nodes = 1 then nodes
      else let groups = groupByPrefix nodes
           in concat (map (\<lambda>k. group_terms k (group_at groups k)) (go_sort (<) (map fst groups))))"

lemma Fold_terms: "Fold nodes = join '','' (fold_terms nodes)"
proof -
  have ne: "group_at (groupByPrefix nodes) k \<noteq> []" if "k \<in> set (go_sort (<) (map fst (groupByPrefix nodes)))" for k
    using that groupByPrefix_spec [of nodes k] by (auto simp: filter_empty_conv simp del: set_map)
  show ?thesis
  proof (cases "length nodes = 1")
    case True
    then show ?thesis by (cases nodes) (auto simp: Fold_def fold_terms_def)
  next
    case False
    have "nodes = [] \<Longrightarrow> groupByPrefix nodes = []" by (simp add: groupByPrefix_def)
    with False join_fold_parts [of "go_sort (<) (map fst (groupByPrefix nodes))" "group_at (groupByPrefix nodes)"] ne
    show ?thesis by (cases "nodes = []") (simp_all add: Fold_def fold_terms_def Let_def)
  qed
qed

section \<open>The printed operands are read back\<close>

definition plain_char :: "char \<Rightarrow> bool" where
  "plain_char c \<longleftrightarrow> \<not> is_space c \<and> c \<noteq> CHR ''['' \<and> c \<noteq> CHR '']'' \<and> \<not> is_operator c"

text \<open>Names without blanks, brackets and operators that do not look like a group reference.\<close>

definition plain_name :: "string \<Rightarrow> bool" where
  "plain_name n \<longleftrightarrow> n \<noteq> [] \<and> list_all plain_char n \<and> hd n \<noteq> CHR ''@''"

lemma scan_term_append: "scan_term d (s @ t) = Option.bind (scan_term d s) (\<lambda>e. scan_term e t)"
  by (induction d s rule: scan_term.induct) (auto split: nat.splits)

lemma scan_plain: "list_all plain_char s \<Longrightarrow> scan_term d s = Some d"
  by (induction s) (auto simp: plain_char_def)

lemma scan_inside:
  "CHR ''['' \<notin> set s \<Longrightarrow> CHR '']'' \<notin> set s \<Longrightarrow> scan_term (Suc d) s = Some (Suc d)"
  by (induction s) auto

lemma plain_not_bracket: "list_all plain_char s \<Longrightarrow> CHR ''['' \<notin> set s \<and> CHR '']'' \<notin> set s"
  by (auto simp: list_all_iff plain_char_def)

lemma plain_operand: "plain_name n \<Longrightarrow> operand n"
  using trim_space_no_space [of n] scan_plain [of n 0]
  by (auto simp: operand_def plain_name_def list_all_iff plain_char_def)

lemma plain_expandTerm: "plain_name n \<Longrightarrow> expandTerm n rv mx = Inr [n]"
  using plain_not_bracket [of n] index_byte_None [of n "CHR ''[''"]
  by (auto simp: expandTerm_def plain_name_def splitBrackets_def split_loop.simps)

lemma rs_fold_shapes:
  "rs_fold s = [] \<or> rs_fold s = rs_foldRanges s \<or>
   (rs_expand s \<noteq> [] \<and> rs_fold s = formatInt (rs_padding s) (rs_expand s ! 0)) \<or>
   (\<exists>st > 0. rs_expand s \<noteq> [] \<and> rs_fold s = formatInt (rs_padding s) (rs_expand s ! 0) @ ''-'' @
      formatInt (rs_padding s) (rs_expand s ! (length (rs_expand s) - 1)) @ ''/'' @ itoa st)"
  unfolding rs_fold_def Let_def by (simp split: if_split) blast

lemma rs_fold_chars:
  assumes "rs_inv s" "\<forall>v\<in>rs_elems s. 0 \<le> v \<and> v \<le> max_int"
  shows "CHR ''['' \<notin> set (rs_fold s) \<and> CHR '']'' \<notin> set (rs_fold s)"
proof -
  define ok where "ok c \<longleftrightarrow> is_digit c \<or> c \<in> {CHR ''-'', CHR ''/'', CHR '',''}" for c
  have num: "\<forall>c\<in>set (formatInt p v). ok c" if "0 \<le> v" "v \<le> max_int" for p v
    using formatInt_facts(2) [OF that] by (auto simp: ok_def list_all_iff)
  have el: "\<forall>c\<in>set (formatInt p v). ok c" if "v \<in> set (rs_expand s)" for p v
    using that assms(2) rs_expand_correct(2) [OF assms(1)] by (intro num) auto
  have part: "\<forall>c\<in>set (foldRange_part p r). ok c" if "r \<in> set (rs_ranges s)" for p r
  proof -
    have le: "rlo r \<le> rhi r" using assms(1) that by (simp add: rs_inv_def ranges_ok_def)
    then have "rlo r \<in> rs_elems s" "rhi r \<in> rs_elems s" using that by (auto simp: rs_elems_def ranges_elems_def)
    then show ?thesis using num assms(2) by (auto simp: ok_def)
  qed
  have rng: "\<forall>c\<in>set (rs_foldRanges s). ok c"
    using set_join_subset [of "'',''" "map (foldRange_part (rs_padding s)) (rs_ranges s)"] part
    by (fastforce simp: rs_foldRanges_def ok_def)
  have "\<forall>c\<in>set (itoa st). ok c" if "0 < st" for st
    using itoa_nat_digits [of "nat st"] that by (auto simp: itoa_def ok_def list_all_iff)
  then have itoas: "\<forall>c\<in>set (itoa st). ok c" if "0 < st" for st using that by blast
  have ith: "\<forall>c\<in>set (formatInt p (rs_expand s ! i)). ok c" if "i < length (rs_expand s)" for p i
    using that by (intro el nth_mem)
  have seps: "ok CHR ''-''" "ok CHR ''/''" by (simp_all add: ok_def)
  consider "rs_fold s = []" | "rs_fold s = rs_foldRanges s"
    | "rs_expand s \<noteq> []" "rs_fold s = formatInt (rs_padding s) (rs_expand s ! 0)"
    | st where "rs_expand s \<noteq> []" "0 < st" "rs_fold s = formatInt (rs_padding s) (rs_expand s ! 0) @ ''-'' @
        formatInt (rs_padding s) (rs_expand s ! (length (rs_expand s) - 1)) @ ''/'' @ itoa st"
    using rs_fold_shapes [of s] by blast
  then have "\<forall>c\<in>set (rs_fold s). ok c"
  proof cases
    case 4
    then have "length (rs_expand s) - 1 < length (rs_expand s)" by simp
    from ith [OF this] ith [of 0] itoas 4 seps show ?thesis by auto
  qed (use rng ith [of 0] in auto)
  then show ?thesis by (auto simp: ok_def)
qed

lemma folded_operand:
  assumes "plain_name p" "CHR ''['' \<notin> set f" "CHR '']'' \<notin> set f"
  shows "operand (p @ ''['' @ f @ '']'')"
proof -
  have "\<not> is_space (hd p)" using assms(1) by (cases p) (auto simp: plain_name_def plain_char_def)
  moreover have "\<not> is_space CHR '']''" by (simp add: is_space_def)
  ultimately have "trim_space (p @ ''['' @ f @ '']'') = p @ ''['' @ f @ '']''"
    using assms(1) by (intro trim_space_id) (auto simp: plain_name_def)
  then show ?thesis
    using assms scan_plain [of p 0] scan_inside [of f 0]
    by (auto simp: operand_def plain_name_def scan_term_append)
qed

text \<open>A name with one bracket expression at its end expands to the name followed by each value.\<close>

lemma expandTerm_bracket:
  assumes "plain_name p" "CHR ''['' \<notin> set c" "CHR '']'' \<notin> set c" "parseBracketExpr c = Inr (vals, q)"
    and "vals \<noteq> []" "int (length vals) \<le> mx"
  shows "expandTerm (p @ ''['' @ c @ '']'') rv mx = Inr (map (\<lambda>v. p @ format_value q v) vals)"
proof -
  define trm where "trm = p @ ''['' @ c @ '']''"
  define segs where "segs = [SegLiteral p, SegBracket (map (format_value q) vals)]"
  have p: "p \<noteq> []" "CHR ''['' \<notin> set p" "hd p \<noteq> CHR ''@''"
    using assms(1) plain_not_bracket [of p] by (auto simp: plain_name_def)
  have i1: "index_byte trm CHR ''['' = Some (length p)"
    unfolding trm_def using p(2) index_byte_append [of "CHR ''[''" p] by simp
  have d: "drop (length p) trm = (CHR ''['' # c) @ CHR '']'' # []" by (simp add: trm_def)
  have i2: "index_byte (drop (length p) trm) CHR '']'' = Some (length c + 1)"
    unfolding d using assms(3) index_byte_append [of "CHR '']''" "CHR ''['' # c" "[]"] by simp
  have split: "splitBrackets trm = Inr segs"
    unfolding splitBrackets_def segs_def
    by (subst split_loop.simps)
      (use i1 i2 p(1) assms(4) in \<open>simp add: Let_def trm_def split_loop.simps [of _ "[]"]\<close>)
  have "0 < mx" using assms(5,6) by (cases vals) auto
  moreover have "brackets_nonempty segs" using assms(5) by (simp add: brackets_nonempty_def segs_def)
  ultimately have "cartesianExpand segs mx = Inr (cartesian_ref segs)"
    using assms(6) cartesianExpand_cases [of segs mx] by (simp add: segs_def)
  then have "expandTerm trm rv mx = Inr (cartesian_ref segs)"
    using p split by (simp add: expandTerm_def trm_def segs_def)
  then show ?thesis by (simp add: trm_def segs_def cartesian_ref_def comp_def concat_map_singleton)
qed

lemma expandTerm_folded:
  assumes "plain_name p" "rs_inv s" "rs_ranges s \<noteq> []" "\<forall>v\<in>rs_elems s. 0 \<le> v \<and> v \<le> max_int"
    and "int (length (rs_expand s)) \<le> mx"
  shows "expandTerm (p @ ''['' @ rs_fold s @ '']'') rv mx = Inr (map ((@) p) (rs_expandStrings s))"
proof -
  obtain q where q: "parseBracketExpr (rs_fold s) = Inr (rs_expand s, q)"
    "map (format_value q) (rs_expand s) = rs_expandStrings s"
    using read_back_fold [OF assms(2-4)] by blast
  show ?thesis
    using expandTerm_bracket [OF assms(1) _ _ q(1) rs_min(2) [OF assms(2,3)] assms(5)]
      rs_fold_chars [OF assms(2,4)] by (simp add: q(2) [symmetric])
qed

section \<open>Round trip\<close>

lemma entry_facts:
  assumes "entry_of n = Some e" "splitTrailingNumber n = (p, s)"
  shows "n = p @ ne_raw e" "atoi (ne_raw e) = Some (ne_value e)" "0 \<le> ne_value e" "ne_value e \<le> max_int"
    "ne_padding e = detectPadding (ne_raw e)"
proof -
  note sp = splitTrailingNumber_spec [OF assms(2)]
  have e: "ne_raw e = s" "atoi s = Some (ne_value e)" "ne_padding e = detectPadding s"
    using assms by (auto simp: entry_of_def Let_def split: if_splits)
  then show "n = p @ ne_raw e" "atoi (ne_raw e) = Some (ne_value e)" "ne_padding e = detectPadding (ne_raw e)"
    using sp by simp_all
  show "0 \<le> ne_value e" "ne_value e \<le> max_int" using atoi_suffix [OF sp(2) e(2)] by simp_all
qed

definition term_names :: "groupResolver \<Rightarrow> int \<Rightarrow> string \<Rightarrow> string list" where
  "term_names rv mx t = (case expandTerm t rv mx of Inr xs \<Rightarrow> xs | Inl _ \<Rightarrow> [])"

text \<open>Operands that expand without error, and the names they stand for.\<close>

definition reads_as :: "groupResolver \<Rightarrow> int \<Rightarrow> string list \<Rightarrow> string set \<Rightarrow> bool" where
  "reads_as rv mx ts A \<longleftrightarrow>
     (\<forall>t\<in>set ts. operand t \<and> expandTerm t rv mx = Inr (term_names rv mx t)) \<and>
     (\<Union>t\<in>set ts. set (term_names rv mx t)) = A"

lemma reads_as_append: "reads_as rv mx ts A \<Longrightarrow> reads_as rv mx us B \<Longrightarrow> reads_as rv mx (ts @ us) (A \<union> B)"
  by (auto simp: reads_as_def)

lemma reads_as_plain: "\<forall>n\<in>set ts. plain_name n \<Longrightarrow> reads_as rv mx ts (set ts)"
  by (auto simp: reads_as_def term_names_def plain_expandTerm plain_operand)

text \<open>The folded name of a group stands for the names of the group that end in a number.\<close>

lemma group_main_reads:
  assumes "p \<noteq> []" "es \<noteq> []" "sorted_wrt (\<lambda>a b. ne_value a \<le> ne_value b) es"
    and e: "\<And>e. e \<in> set es \<Longrightarrow> entry_of (p @ ne_raw e) = Some e \<and> splitTrailingNumber (p @ ne_raw e) = (p, ne_raw e) \<and>
      plain_name (p @ ne_raw e) \<and> formatInt w (ne_value e) = ne_raw e"
    and lim: "int (card ((\<lambda>e. p @ ne_raw e) ` set es)) \<le> mx"
  shows "reads_as rv mx [group_main p es] ((\<lambda>e. p @ ne_raw e) ` set es)"
proof -
  define P where "P = padding_loop 0 es"
  have ef: "atoi (ne_raw e) = Some (ne_value e)" "0 \<le> ne_value e" "ne_value e \<le> max_int"
    "ne_padding e = zero_detect w (ne_value e)" if "e \<in> set es" for e
    using entry_facts [of "p @ ne_raw e" e p "ne_raw e"] assms(4) [OF that] by (auto simp: zero_detect_def)
  have fmt: "formatInt P (ne_value e) = ne_raw e" if "e \<in> set es" for e
    using common_width [of es w e] ef e that by (simp add: P_def)
  have pl: "plain_name p" using assms(1,2) e [of "hd es"] by (cases p) (auto simp: plain_name_def)
  have padded: "formatPadded v P = formatInt P v" for v by (simp add: formatPadded_def formatInt_def)
  show ?thesis
  proof (cases "length es = 1")
    case True
    then obtain e1 where e1: "es = [e1]" by (auto simp: length_Suc_conv)
    then have "group_main p es = p @ ne_raw e1"
      using fmt padded by (simp add: group_main_def Let_def P_def)
    then show ?thesis using reads_as_plain [of "[p @ ne_raw e1]" rv mx] e e1 by simp
  next
    case False
    define s where "s = (newRangeSet P)\<lparr>rs_ranges := merge_values [] es\<rparr>"
    have s: "rs_inv s" "rs_elems s = ne_value ` set es" "rs_padding s = P"
      using merge_values_correct [of "[]" es] assms(3) by (simp_all add: s_def rs_inv_def rs_elems_def)
    have ne: "rs_ranges s \<noteq> []" using s(2) assms(2) by (auto simp: rs_elems_def)
    have b: "\<forall>v\<in>rs_elems s. 0 \<le> v \<and> v \<le> max_int" using s(2) ef by auto
    have names: "set (map ((@) p) (rs_expandStrings s)) = (\<lambda>e. p @ ne_raw e) ` set es"
      using fmt by (auto simp: rs_expandStrings_def rs_expand_correct(2) [OF s(1)] s(2,3) image_iff)
    have "inj_on (formatInt P) (rs_elems s)"
      using b formatInt_facts(3) by (metis inj_onI option.inject)
    moreover have "distinct (rs_expand s)"
      using rs_expand_correct(1) [OF s(1)] by (simp add: strict_sorted_iff)
    ultimately have "distinct (map ((@) p) (rs_expandStrings s))"
      by (simp add: rs_expandStrings_def s(3) distinct_map rs_expand_correct(2) [OF s(1)] comp_inj_on inj_on_def)
    then have "int (length (rs_expand s)) \<le> mx"
      using lim names distinct_card by (metis length_map rs_expandStrings_def)
    then have "expandTerm (group_main p es) rv mx = Inr (map ((@) p) (rs_expandStrings s))"
      using expandTerm_folded [OF pl s(1) ne b] False by (simp add: group_main_def s_def P_def Let_def)
    moreover have "operand (group_main p es)"
      using folded_operand [OF pl] rs_fold_chars [OF s(1) b] False
      by (simp add: group_main_def s_def P_def Let_def)
    ultimately show ?thesis using names by (simp add: reads_as_def term_names_def)
  qed
qed

definition uniform_suffixes :: "string list \<Rightarrow> bool" where
  "uniform_suffixes nodes \<longleftrightarrow>
     (\<exists>width. \<forall>n\<in>set nodes. \<forall>e. entry_of n = Some e \<longrightarrow>
        formatInt (width (fst (splitTrailingNumber n))) (ne_value e) = ne_raw e)"

lemma group_terms_reads:
  assumes "\<And>n. n \<in> set nodes \<Longrightarrow> fst (splitTrailingNumber n) = p \<and> plain_name n \<and>
      (\<forall>e. entry_of n = Some e \<longrightarrow> formatInt w (ne_value e) = ne_raw e)"
    and lim: "int (card (set nodes)) \<le> mx"
  shows "reads_as rv mx (group_terms p nodes) (set nodes)"
proof (cases "p = []")
  case True
  then show ?thesis using assms reads_as_plain [of "go_sort (<) nodes"] by (simp add: group_terms_def Let_def)
next
  case False
  define es where "es = List.map_filter entry_of nodes"
  define nn where "nn = filter (\<lambda>n. entry_of n = None) nodes"
  define es' where "es' = go_sort (\<lambda>a b. ne_value a < ne_value b) es"
  have es: "set es' = {e. \<exists>n\<in>set nodes. entry_of n = Some e}"
    by (force simp: es'_def es_def List.map_filter_def)
  have ent: "n = p @ ne_raw e \<and> splitTrailingNumber n = (p, ne_raw e)"
    if "n \<in> set nodes" "entry_of n = Some e" for n e
    using entry_facts(1) [OF that(2), of p "snd (splitTrailingNumber n)"] assms(1) [OF that(1)]
      splitTrailingNumber_spec(1) [of n p "snd (splitTrailingNumber n)"] by (auto simp: prod_eq_iff)
  have num: "(\<lambda>e. p @ ne_raw e) ` set es' = {n \<in> set nodes. entry_of n \<noteq> None}"
    unfolding es using ent by (fastforce simp: image_iff)
  have "weak_order_on (set es) (\<lambda>a b. ne_value a < ne_value b)" by (auto simp: weak_order_on_def)
  then have so: "sorted_wrt (\<lambda>a b. ne_value a \<le> ne_value b) es'"
    using sorted_go_sort [of es "\<lambda>a b. ne_value a < ne_value b"] by (simp add: es'_def not_less)
  have nnr: "reads_as rv mx (go_sort (<) nn) (set nn)"
    using assms(1) reads_as_plain [of "go_sort (<) nn"] by (simp add: nn_def)
  have all: "{n \<in> set nodes. entry_of n \<noteq> None} \<union> set nn = set nodes" by (auto simp: nn_def)
  show ?thesis
  proof (cases "es = []")
    case True
    then have "set nn = set nodes" using num by (auto simp: es'_def nn_def)
    moreover have "group_terms p nodes = go_sort (<) nn"
      using True False by (simp add: group_terms_def Let_def es_def nn_def)
    ultimately show ?thesis using nnr by simp
  next
    case ne: False
    have "int (card ((\<lambda>e. p @ ne_raw e) ` set es')) \<le> mx"
      using lim card_mono [of "set nodes" "{n \<in> set nodes. entry_of n \<noteq> None}"] num by fastforce
    then have "reads_as rv mx [group_main p es'] ((\<lambda>e. p @ ne_raw e) ` set es')"
      using False ne so ent assms(1) es
      by (intro group_main_reads [where w = w]) (auto simp: es'_def)
    from reads_as_append [OF this nnr] show ?thesis
      using num all False ne by (simp add: group_terms_def Let_def es_def nn_def es'_def)
  qed
qed

lemma fold_terms_reads:
  assumes "\<forall>n\<in>set nodes. plain_name n" "uniform_suffixes nodes" "int (card (set nodes)) \<le> mx"
  shows "reads_as rv mx (fold_terms nodes) (set nodes)"
proof (cases "length nodes = 1")
  case True
  then show ?thesis using assms(1) reads_as_plain [of nodes] by (simp add: fold_terms_def)
next
  case False
  obtain width where w: "\<forall>n\<in>set nodes. \<forall>e. entry_of n = Some e \<longrightarrow>
      formatInt (width (fst (splitTrailingNumber n))) (ne_value e) = ne_raw e"
    using assms(2) by (auto simp: uniform_suffixes_def)
  define grp where "grp k = group_at (groupByPrefix nodes) k" for k
  have grp: "grp k = filter (\<lambda>n. fst (splitTrailingNumber n) = k) nodes" for k
    using groupByPrefix_spec by (simp add: grp_def)
  have one: "reads_as rv mx (group_terms k (grp k)) (set (grp k))" for k
  proof (rule group_terms_reads [where w = "width k"])
    have "card (set (grp k)) \<le> card (set nodes)" by (rule card_mono) (auto simp: grp)
    with assms(3) show "int (card (set (grp k))) \<le> mx" by linarith
  qed (use w assms(1) in \<open>auto simp: grp\<close>)
  have many: "reads_as rv mx (concat (map (\<lambda>k. group_terms k (grp k)) ks)) (\<Union>k\<in>set ks. set (grp k))" for ks
  proof (induction ks)
    case Nil
    then show ?case by (simp add: reads_as_def)
  next
    case (Cons k ks)
    then show ?case using reads_as_append [OF one [of k]] by simp
  qed
  have "(\<Union>k\<in>set (map fst (groupByPrefix nodes)). set (grp k)) = set nodes"
    using groupByPrefix_spec [of nodes] by (auto simp: grp simp del: set_map)
  then show ?thesis
    using many [of "go_sort (<) (map fst (groupByPrefix nodes))"] False
    by (simp add: fold_terms_def Let_def grp_def)
qed

lemma foldl_commas:
  "foldl (\<lambda>acc (oper, u). apply_operator oper acc (f u)) A (map (Pair CHR '','') us) = A \<union> (\<Union>u\<in>set us. f u)"
  by (induction us arbitrary: A) (auto simp: apply_operator_def)

lemma join_render: "join '','' (t # us) = render t (map (Pair CHR '','') us)"
proof (induction us arbitrary: t)
  case Nil
  then show ?case by (simp add: render_def)
next
  case (Cons u us)
  then show ?case by (simp add: render_def)
qed


definition fold_sample :: "string list" where
  "fold_sample = [''oss10'', ''oss08'', ''mds'', ''oss09'', ''mds1'']"

lemma fold_sample_split:
  "splitTrailingNumber ''oss10'' = (''oss'', ''10'')" "splitTrailingNumber ''oss08'' = (''oss'', ''08'')"
  "splitTrailingNumber ''oss09'' = (''oss'', ''09'')" "splitTrailingNumber ''mds'' = (''mds'', [])"
  "splitTrailingNumber ''mds1'' = (''mds'', ''1'')"
  by (simp_all add: splitTrailingNumber_def is_digit_def Let_def)

lemma fold_sample_uniform: "uniform_suffixes fold_sample"
proof -
  have i: "itoa_nat 10 = ''10''" "itoa_nat 8 = ''8''" "itoa_nat 9 = ''9''" "itoa_nat 1 = ''1''"
    by (simp_all add: itoa_nat.simps digit_char_def) (code_simp+)
  have "\<forall>n\<in>set fold_sample. \<forall>e. entry_of n = Some e \<longrightarrow>
      formatInt ((\<lambda>p. if p = ''oss'' then 2 else 0) (fst (splitTrailingNumber n))) (ne_value e) = ne_raw e"
    by (simp add: fold_sample_def entry_of_def fold_sample_split atoi_def is_digit_def Let_def
      dec_val_def digit_of_def formatInt_def sprintf0_def itoa_def i i(4) [unfolded One_nat_def])
  then show ?thesis
    unfolding uniform_suffixes_def by (intro exI [of _ "\<lambda>p. if p = ''oss'' then 2 else 0"])
qed


text \<open>
  The width hypothesis is needed: names of one prefix written at two widths are printed at the larger
  one, and the shorter name is not among those the text stands for.
\<close>

lemma fold_mixed_widths:
  "Fold [''n1'', ''n02''] = ''n[01-02]''" "Fold [''n1'', ''n01''] = ''n[01]''"
  by code_simp+

end
