(* ===== verification/NodeSet.thy ===== *)
theory NodeSet
  imports Fold
begin

text \<open>
  Model of the type \<open>NodeSet\<close> of \<open>pkg/mesh/nodeset/nodeset.go\<close>: a set of node names built from
  patterns, with set operations, the split into runs of consecutive names and the split into equal
  parts. The Go map \<open>map[string]struct{}\<close> is a set of strings; methods that change the receiver
  return the changed set. A panic is the result \<open>None\<close>.
\<close>

section \<open>Options and construction\<close>

record options =
  opt_resolver :: groupResolver
  opt_maxExpand :: int

definition defaultMaxExpand :: int where
  "defaultMaxExpand = 25000"

definition WithGroupResolver :: "groupResolver \<Rightarrow> options \<Rightarrow> options" where
  "WithGroupResolver r opts = opts\<lparr>opt_resolver := r\<rparr>"

definition WithMaxExpand :: "int \<Rightarrow> options \<Rightarrow> options" where
  "WithMaxExpand n opts = opts\<lparr>opt_maxExpand := n\<rparr>"

definition defaultOptions :: options where
  "defaultOptions = \<lparr>opt_resolver = None, opt_maxExpand = defaultMaxExpand\<rparr>"

definition apply_options :: "(options \<Rightarrow> options) list \<Rightarrow> options" where
  "apply_options opts = foldl (\<lambda>opt_o opt. opt opt_o) defaultOptions opts"

record nodeSet =
  ns_nodes :: "string set"

definition insert_all :: "string set \<Rightarrow> string list \<Rightarrow> string set" where
  "insert_all m names = foldl (\<lambda>m n. insert n m) m names"

definition New :: "string \<Rightarrow> (options \<Rightarrow> options) list \<Rightarrow> ns_error + nodeSet" where
  "New pattern opts =
     (let opt = apply_options opts in
      case parseExpr pattern (opt_resolver opt) (opt_maxExpand opt) of
        Inl err \<Rightarrow> Inl err
      | Inr nodes \<Rightarrow> Inr \<lparr>ns_nodes = insert_all {} nodes\<rparr>)"

definition NewFromSlice :: "string list \<Rightarrow> nodeSet" where
  "NewFromSlice nodes = \<lparr>ns_nodes = insert_all {} nodes\<rparr>"

section \<open>Queries and updates\<close>

definition ns_Contains :: "nodeSet \<Rightarrow> string \<Rightarrow> bool" where
  "ns_Contains ns node \<longleftrightarrow> node \<in> ns_nodes ns"

definition ns_Len :: "nodeSet \<Rightarrow> int" where
  "ns_Len ns = int (card (ns_nodes ns))"

definition ns_Nodes :: "nodeSet \<Rightarrow> string list" where
  "ns_Nodes ns = sorted_list_of_set (ns_nodes ns)"

definition ns_String :: "nodeSet \<Rightarrow> string" where
  "ns_String ns = Fold (ns_Nodes ns)"

definition ns_Add :: "nodeSet \<Rightarrow> string \<Rightarrow> (options \<Rightarrow> options) list \<Rightarrow> ns_error + nodeSet" where
  "ns_Add ns pattern opts =
     (let opt = apply_options opts in
      case parseExpr pattern (opt_resolver opt) (opt_maxExpand opt) of
        Inl err \<Rightarrow> Inl err
      | Inr nodes \<Rightarrow> Inr (ns\<lparr>ns_nodes := insert_all (ns_nodes ns) nodes\<rparr>))"

definition ns_AddNode :: "nodeSet \<Rightarrow> string \<Rightarrow> nodeSet" where
  "ns_AddNode ns node = ns\<lparr>ns_nodes := insert node (ns_nodes ns)\<rparr>"

definition ns_Remove :: "nodeSet \<Rightarrow> string \<Rightarrow> (options \<Rightarrow> options) list \<Rightarrow> ns_error + nodeSet" where
  "ns_Remove ns pattern opts =
     (let opt = apply_options opts in
      case parseExpr pattern (opt_resolver opt) (opt_maxExpand opt) of
        Inl err \<Rightarrow> Inl err
      | Inr nodes \<Rightarrow> Inr (ns\<lparr>ns_nodes := foldl (\<lambda>m n. m - {n}) (ns_nodes ns) nodes\<rparr>))"

definition ns_Copy :: "nodeSet \<Rightarrow> nodeSet" where
  "ns_Copy ns = \<lparr>ns_nodes = {n. n \<in> ns_nodes ns}\<rparr>"

definition ns_Union :: "nodeSet \<Rightarrow> nodeSet \<Rightarrow> nodeSet" where
  "ns_Union ns other = (ns_Copy ns)\<lparr>ns_nodes := ns_nodes (ns_Copy ns) \<union> ns_nodes other\<rparr>"

definition ns_Difference :: "nodeSet \<Rightarrow> nodeSet \<Rightarrow> nodeSet" where
  "ns_Difference ns other = (ns_Copy ns)\<lparr>ns_nodes := ns_nodes (ns_Copy ns) - ns_nodes other\<rparr>"

definition ns_Intersection :: "nodeSet \<Rightarrow> nodeSet \<Rightarrow> nodeSet" where
  "ns_Intersection ns other = \<lparr>ns_nodes = {n \<in> ns_nodes ns. n \<in> ns_nodes other}\<rparr>"

definition ns_SymmetricDifference :: "nodeSet \<Rightarrow> nodeSet \<Rightarrow> nodeSet" where
  "ns_SymmetricDifference ns other =
     \<lparr>ns_nodes = {n \<in> ns_nodes ns. n \<notin> ns_nodes other} \<union> {n \<in> ns_nodes other. n \<notin> ns_nodes ns}\<rparr>"

definition ns_IsSubset :: "nodeSet \<Rightarrow> nodeSet \<Rightarrow> bool" where
  "ns_IsSubset ns other \<longleftrightarrow> (\<forall>n\<in>ns_nodes ns. n \<in> ns_nodes other)"

definition ns_IsSuperset :: "nodeSet \<Rightarrow> nodeSet \<Rightarrow> bool" where
  "ns_IsSuperset ns other = ns_IsSubset other ns"

definition ns_Equal :: "nodeSet \<Rightarrow> nodeSet \<Rightarrow> bool" where
  "ns_Equal ns other =
     (if card (ns_nodes ns) \<noteq> card (ns_nodes other) then False else ns_IsSubset ns other)"

definition Expand :: "string \<Rightarrow> (options \<Rightarrow> options) list \<Rightarrow> ns_error + string list" where
  "Expand pattern opts =
     (case New pattern opts of Inl err \<Rightarrow> Inl err | Inr ns \<Rightarrow> Inr (ns_Nodes ns))"

section \<open>Numbers\<close>

text \<open>\<open>parseIntAtoi\<close> has no range check: the value wraps around at 64 bits.\<close>

fun parseInt_loop :: "int \<Rightarrow> string \<Rightarrow> int option" where
  "parseInt_loop v [] = Some v"
| "parseInt_loop v (c # cs) =
     (if \<not> is_digit c then None else parseInt_loop (i64 (i64 (v * 10) + digit_of c)) cs)"

definition parseIntAtoi :: "string \<Rightarrow> int option" where
  "parseIntAtoi s = parseInt_loop 0 s"

section \<open>Contiguous runs\<close>

record suffixEntry =
  se_value :: int
  se_node :: string

text \<open>The loop over the names of one prefix: single names emitted at once, and the numbered entries.\<close>

fun suffix_loop :: "nodeSet list \<Rightarrow> suffixEntry list \<Rightarrow> string list \<Rightarrow> nodeSet list \<times> suffixEntry list" where
  "suffix_loop res se [] = (res, se)"
| "suffix_loop res se (node # nodes) =
     (let suffix = snd (splitTrailingNumber node) in
      if suffix = [] then suffix_loop (res @ [NewFromSlice [node]]) se nodes
      else case parseIntAtoi suffix of
        None \<Rightarrow> suffix_loop (res @ [NewFromSlice [node]]) se nodes
      | Some v \<Rightarrow> suffix_loop res (se @ [\<lparr>se_value = v, se_node = node\<rparr>]) nodes)"

fun runs_loop :: "nodeSet list \<Rightarrow> string list \<Rightarrow> int \<Rightarrow> suffixEntry list \<Rightarrow> nodeSet list" where
  "runs_loop res current prev [] = res @ [NewFromSlice current]"
| "runs_loop res current prev (e # es) =
     (if se_value e = i64 (prev + 1) then runs_loop res (current @ [se_node e]) (se_value e) es
      else runs_loop (res @ [NewFromSlice current]) [se_node e] (se_value e) es)"

definition contiguous_group :: "nodeSet list \<Rightarrow> string \<Rightarrow> string list \<Rightarrow> nodeSet list" where
  "contiguous_group res prfx entries =
     (if prfx = [] then res @ map (\<lambda>node. NewFromSlice [node]) entries
      else let (res', se0) = suffix_loop res [] entries;
               se = go_sort (\<lambda>a b. se_value a < se_value b) se0
           in case se of [] \<Rightarrow> res' | e # es \<Rightarrow> runs_loop res' [se_node e] (se_value e) es)"

text \<open>Names with equal values are ordered as a stable sort does, which Go does for up to twelve names.\<close>

definition Contiguous :: "nodeSet \<Rightarrow> nodeSet list" where
  "Contiguous ns =
     (let groups = groupByPrefix (ns_Nodes ns); keys = go_sort (<) (map fst groups)
      in foldl (\<lambda>res prfx. contiguous_group res prfx (group_at groups prfx)) [] keys)"

section \<open>Splitting into equal parts\<close>

function split_loop_ns :: "string list \<Rightarrow> nat \<Rightarrow> nat \<Rightarrow> nat \<Rightarrow> nat \<Rightarrow> nat \<Rightarrow> nodeSet list" where
  "split_loop_ns nodes chunkSize remainder n i offset =
     (if i < n then
        let size = (if i < remainder then chunkSize + 1 else chunkSize)
        in NewFromSlice (take size (drop offset nodes)) #
           split_loop_ns nodes chunkSize remainder n (i + 1) (offset + size)
      else [])"
  by pat_completeness auto
termination
  by (relation "measure (\<lambda>(nodes, c, r, n, i, off). n - i)") auto

declare split_loop_ns.simps [simp del]

text \<open>An integer division by zero is a panic.\<close>

definition ns_Split :: "nodeSet \<Rightarrow> int \<Rightarrow> nodeSet list option" where
  "ns_Split ns n0 =
     (let nodes = ns_Nodes ns;
          n = (if n0 \<le> 0 \<or> n0 > int (length nodes) then length nodes else nat n0)
      in if n = 0 then None
         else Some (split_loop_ns nodes (length nodes div n) (length nodes mod n) n 0 0))"

section \<open>Basic facts\<close>

lemma insert_all_eq [simp]: "insert_all m names = m \<union> set names"
  by (induction names arbitrary: m) (simp_all add: insert_all_def)

lemma NewFromSlice_nodes [simp]: "ns_nodes (NewFromSlice xs) = set xs"
  by (simp add: NewFromSlice_def)

lemma ns_Nodes_slice: "sorted xs \<Longrightarrow> distinct xs \<Longrightarrow> ns_Nodes (NewFromSlice xs) = xs"
  by (simp add: ns_Nodes_def sorted_list_of_set.idem_if_sorted_distinct)

lemma ns_Nodes_props:
  "sorted (ns_Nodes ns)" "distinct (ns_Nodes ns)" "finite (ns_nodes ns) \<Longrightarrow> set (ns_Nodes ns) = ns_nodes ns"
  "length (ns_Nodes ns) = card (ns_nodes ns)"
  by (simp_all add: ns_Nodes_def)

lemma i64_mod: "i64 (i64 a + b) = i64 (a + b)"
proof -
  have "i64 a + b + 2 ^ 63 = (a + 2 ^ 63) mod 2 ^ 64 + b" by (simp add: i64_def)
  then have "(i64 a + b + 2 ^ 63) mod 2 ^ 64 = ((a + 2 ^ 63) mod 2 ^ 64 + b) mod 2 ^ 64" by (simp only:)
  also have "\<dots> = (a + 2 ^ 63 + b) mod 2 ^ 64" by (rule mod_add_left_eq)
  finally have "(i64 a + b + 2 ^ 63) mod 2 ^ 64 = (a + b + 2 ^ 63) mod 2 ^ 64" by (simp only: ac_simps)
  then show ?thesis unfolding i64_def [of "i64 a + b"] i64_def [of "a + b"] by (simp only:)
qed

section \<open>Splitting\<close>

lemma split_loop_correct:
  assumes "sorted nodes" "distinct nodes" "r < n" "length nodes = n * c + r"
    and "i \<le> n" "offset = i * c + min i r"
  shows "concat (map ns_Nodes (split_loop_ns nodes c r n i offset)) = drop offset nodes \<and>
    length (split_loop_ns nodes c r n i offset) = n - i \<and>
    (\<forall>p\<in>set (split_loop_ns nodes c r n i offset). card (ns_nodes p) = c \<or> card (ns_nodes p) = c + 1)"
  using assms
proof (induction nodes c r n i offset rule: split_loop_ns.induct)
  case (1 nodes c r n i offset)
  show ?case
  proof (cases "i < n")
    case True
    define size where "size = (if i < r then c + 1 else c)"
    define part where "part = take size (drop offset nodes)"
    have off': "offset + size = (i + 1) * c + min (i + 1) r"
      using "1.prems"(6) by (auto simp: size_def)
    have "(i + 1) * c \<le> n * c" using True by (intro mult_right_mono) auto
    then have fit: "offset + size \<le> length nodes"
      unfolding off' "1.prems"(4) by (intro add_mono) auto
    have part: "sorted part" "distinct part" "length part = size"
      using "1.prems"(1,2) fit by (simp_all add: part_def sorted_wrt_take sorted_wrt_drop)
    have eq: "split_loop_ns nodes c r n i offset =
        NewFromSlice part # split_loop_ns nodes c r n (i + 1) (offset + size)"
      using True by (subst split_loop_ns.simps) (simp add: part_def size_def Let_def)
    have "card (ns_nodes (NewFromSlice part)) = size"
      using part by (simp add: distinct_card)
    moreover have "part @ drop (offset + size) nodes = drop offset nodes"
      by (simp add: part_def) (metis append_take_drop_id drop_drop add.commute)
    ultimately show ?thesis
      unfolding eq using "1.IH" [OF True size_def "1.prems"(1-4) _ off'] True
      by (simp add: ns_Nodes_slice [OF part(1,2)] size_def split: if_splits)
  next
    case False
    with "1.prems" have "i = n" by simp
    with False "1.prems" show ?thesis by (subst split_loop_ns.simps, simp) (simp add: split_loop_ns.simps)
  qed
qed

text \<open>
  \<open>Split\<close> divides a non-empty node set into the requested number of parts (as many as there
  are names, when the request is not positive or too large): the sorted names of the parts, one part
  after the other, are the sorted names of the set, and the sizes of the parts differ by at most one.
  On the empty set the division by the number of parts panics.
\<close>

theorem split_balanced:
  assumes "finite (ns_nodes ns)"
  shows "if ns_nodes ns = {} then ns_Split ns n = None
    else \<exists>parts. ns_Split ns n = Some parts \<and>
      int (length parts) = (if n \<le> 0 \<or> n > int (card (ns_nodes ns)) then int (card (ns_nodes ns)) else n) \<and>
      concat (map ns_Nodes parts) = ns_Nodes ns \<and>
      (\<forall>p\<in>set parts. card (ns_nodes p) = card (ns_nodes ns) div length parts \<or>
                      card (ns_nodes p) = card (ns_nodes ns) div length parts + 1)"
proof (cases "ns_nodes ns = {}")
  case True
  then show ?thesis by (simp add: ns_Split_def ns_Nodes_def Let_def) linarith
next
  case False
  define L where "L = card (ns_nodes ns)"
  define k where "k = (if n \<le> 0 \<or> n > int L then L else nat n)"
  have L: "0 < L" "length (ns_Nodes ns) = L" using False assms by (auto simp: L_def card_gt_0_iff ns_Nodes_def)
  have k: "0 < k" using L by (auto simp: k_def)
  have "length (ns_Nodes ns) = k * (L div k) + L mod k" using L by simp
  from split_loop_correct [OF ns_Nodes_props(1,2) mod_less_divisor [OF k] this, of 0 0]
  show ?thesis using False k L by (auto simp: ns_Split_def Let_def k_def L_def)
qed

theorem split_balanced_witness:
  "\<exists>parts. ns_Split (NewFromSlice [''a'', ''b'', ''c'']) 2 = Some parts \<and> length parts = 2 \<and>
     concat (map ns_Nodes parts) = ns_Nodes (NewFromSlice [''a'', ''b'', ''c''])"
proof -
  have "finite (ns_nodes (NewFromSlice [''a'', ''b'', ''c'']))" by simp
  from split_balanced [OF this, of 2] show ?thesis by auto
qed

section \<open>Contiguous runs\<close>

definition ns_mset :: "nodeSet list \<Rightarrow> string multiset" where
  "ns_mset res = sum_list (map (\<lambda>p. mset_set (ns_nodes p)) res)"

text \<open>A run: one name, or names of one prefix whose numbers follow each other.\<close>

definition is_run :: "string list \<Rightarrow> bool" where
  "is_run names \<longleftrightarrow> names \<noteq> [] \<and>
     (length names = 1 \<or> (\<exists>p v. \<forall>i < length names. fst (splitTrailingNumber (names ! i)) = p \<and>
        parseIntAtoi (snd (splitTrailingNumber (names ! i))) = Some (i64 (v + int i))))"

definition run_set :: "nodeSet \<Rightarrow> bool" where
  "run_set ns \<longleftrightarrow> (\<exists>names. distinct names \<and> ns = NewFromSlice names \<and> is_run names)"

lemma ns_mset_simps [simp]:
  "ns_mset [] = {#}" "ns_mset (a @ b) = ns_mset a + ns_mset b"
  "distinct xs \<Longrightarrow> ns_mset [NewFromSlice xs] = mset xs"
  by (simp_all add: ns_mset_def mset_set_set)

lemma ns_mset_singles: "ns_mset (map (\<lambda>node. NewFromSlice [node]) xs) = mset xs"
  by (induction xs) (simp_all add: ns_mset_def)

lemma run_single [simp]: "run_set (NewFromSlice [n])"
  unfolding run_set_def is_run_def by (intro exI [of _ "[n]"]) simp

lemma distinct_submset:
  assumes "mset xs \<subseteq># mset ys" "distinct ys"
  shows "distinct xs"
  unfolding distinct_count_atmost_1
proof
  fix a
  have "count (mset xs) a \<le> count (mset ys) a" using assms(1) by (rule mset_subset_eq_count)
  also have "\<dots> \<le> 1" using assms(2) by (simp add: distinct_count_atmost_1)
  finally have "count (mset xs) a \<le> 1" .
  moreover have "a \<in> set xs \<Longrightarrow> 0 < count (mset xs) a" by simp
  ultimately show "count (mset xs) a = (if a \<in> set xs then 1 else 0)"
    by (cases "a \<in> set xs") (simp_all add: count_mset_0_iff del: count_greater_zero_iff)
qed

definition numbered :: "string \<Rightarrow> suffixEntry \<Rightarrow> bool" where
  "numbered p e \<longleftrightarrow> fst (splitTrailingNumber (se_node e)) = p \<and>
     parseIntAtoi (snd (splitTrailingNumber (se_node e))) = Some (se_value e)"

lemma suffix_loop_correct:
  assumes "suffix_loop res se nodes = (res', se')" "\<forall>p\<in>set res. run_set p" "\<forall>e\<in>set se. numbered q e"
    "\<forall>n\<in>set nodes. fst (splitTrailingNumber n) = q"
  shows "(\<forall>p\<in>set res'. run_set p) \<and> (\<forall>e\<in>set se'. numbered q e) \<and>
    ns_mset res' + mset (map se_node se') = ns_mset res + mset (map se_node se) + mset nodes \<and>
    ns_mset res \<subseteq># ns_mset res'"
  using assms
proof (induction res se nodes arbitrary: res' se' rule: suffix_loop.induct)
  case (2 res se node nodes)
  have q: "fst (splitTrailingNumber node) = q" "\<forall>n\<in>set nodes. fst (splitTrailingNumber n) = q"
    using "2.prems"(4) by auto
  show ?case
  proof (cases "snd (splitTrailingNumber node) = [] \<or> parseIntAtoi (snd (splitTrailingNumber node)) = None")
    case True
    then have eq: "suffix_loop (res @ [NewFromSlice [node]]) se nodes = (res', se')"
      using "2.prems"(1) by (auto simp: Let_def split: if_splits)
    have res: "\<forall>p\<in>set (res @ [NewFromSlice [node]]). run_set p" using "2.prems"(2) by simp
    have "(\<forall>p\<in>set res'. run_set p) \<and> (\<forall>e\<in>set se'. numbered q e) \<and>
      ns_mset res' + mset (map se_node se') = ns_mset (res @ [NewFromSlice [node]]) + mset (map se_node se) + mset nodes \<and>
      ns_mset (res @ [NewFromSlice [node]]) \<subseteq># ns_mset res'"
      using "2.IH"(1) [OF refl] "2.IH"(2) [OF refl] True eq res "2.prems"(3) q(2) by blast
    then show ?thesis
      using subset_mset.order_trans [of "ns_mset res" "ns_mset (res @ [NewFromSlice [node]])"] by auto
  next
    case False
    then obtain v where v: "parseIntAtoi (snd (splitTrailingNumber node)) = Some v" by auto
    define e where "e = \<lparr>se_value = v, se_node = node\<rparr>"
    have eq: "suffix_loop res (se @ [e]) nodes = (res', se')"
      using False v "2.prems"(1) by (auto simp: Let_def e_def)
    have se: "\<forall>e\<in>set (se @ [e]). numbered q e" using "2.prems"(3) v q(1) by (auto simp: numbered_def e_def)
    have "(\<forall>p\<in>set res'. run_set p) \<and> (\<forall>e\<in>set se'. numbered q e) \<and>
      ns_mset res' + mset (map se_node se') = ns_mset res + mset (map se_node (se @ [e])) + mset nodes \<and>
      ns_mset res \<subseteq># ns_mset res'"
      using "2.IH"(3) [OF refl _ v] False eq "2.prems"(2) se q(2) unfolding e_def by blast
    then show ?thesis by (simp add: e_def)
  qed
qed simp

lemma parseInt_loop_i64: "parseInt_loop v s = Some w \<Longrightarrow> v = i64 v \<Longrightarrow> w = i64 w"
proof (induction v s rule: parseInt_loop.induct)
  case (2 v c cs)
  have "i64 (i64 x) = i64 x" for x using i64_mod [of x 0] by simp
  with 2 show ?case by (auto split: if_splits)
qed simp

text \<open>The names collected so far form a run that ends at the value \<open>prev\<close>.\<close>

definition open_run :: "string \<Rightarrow> string list \<Rightarrow> int \<Rightarrow> bool" where
  "open_run p cur prev \<longleftrightarrow> cur \<noteq> [] \<and> (\<exists>v. prev = i64 (v + int (length cur) - 1) \<and>
     (\<forall>i < length cur. fst (splitTrailingNumber (cur ! i)) = p \<and>
        parseIntAtoi (snd (splitTrailingNumber (cur ! i))) = Some (i64 (v + int i))))"

lemma open_run_is_run: "open_run p cur prev \<Longrightarrow> is_run cur"
  by (auto simp: open_run_def is_run_def)

lemma open_run_start: "numbered p e \<Longrightarrow> open_run p [se_node e] (se_value e)"
proof -
  assume n: "numbered p e"
  have "i64 0 = 0" by (simp add: i64_def)
  then have "se_value e = i64 (se_value e)"
    using n parseInt_loop_i64 [of 0] by (auto simp: numbered_def parseIntAtoi_def)
  with n show ?thesis unfolding open_run_def numbered_def by (auto intro!: exI [of _ "se_value e"])
qed

lemma open_run_extend:
  assumes "open_run p cur prev" "numbered p e" "se_value e = i64 (prev + 1)"
  shows "open_run p (cur @ [se_node e]) (se_value e)"
proof -
  obtain v where v: "prev = i64 (v + int (length cur) - 1)"
    "\<forall>i < length cur. fst (splitTrailingNumber (cur ! i)) = p \<and>
        parseIntAtoi (snd (splitTrailingNumber (cur ! i))) = Some (i64 (v + int i))"
    using assms(1) by (auto simp: open_run_def)
  have "se_value e = i64 (v + int (length cur))"
    using assms(3) v(1) i64_mod [of "v + int (length cur) - 1" 1] by simp
  with v assms show ?thesis
    unfolding open_run_def numbered_def by (auto simp: nth_append less_Suc_eq intro!: exI [of _ v])
qed

lemma runs_loop_correct:
  assumes "\<forall>p\<in>set res. run_set p" "open_run q cur prev" "distinct (cur @ map se_node es)" "\<forall>e\<in>set es. numbered q e"
  shows "(\<forall>p\<in>set (runs_loop res cur prev es). run_set p) \<and>
    ns_mset (runs_loop res cur prev es) = ns_mset res + mset cur + mset (map se_node es)"
  using assms
proof (induction res cur prev es rule: runs_loop.induct)
  case (1 res cur prev)
  then show ?case using open_run_is_run by (auto simp: run_set_def)
next
  case (2 res cur prev e es)
  show ?case
  proof (cases "se_value e = i64 (prev + 1)")
    case True
    have "open_run q (cur @ [se_node e]) (se_value e)"
      using "2.prems"(2,4) True by (intro open_run_extend) auto
    then show ?thesis using "2.IH"(1) [OF True "2.prems"(1)] "2.prems"(3,4) True by simp
  next
    case False
    have "run_set (NewFromSlice cur)" using "2.prems"(2,3) open_run_is_run by (auto simp: run_set_def)
    then have res: "\<forall>p\<in>set (res @ [NewFromSlice cur]). run_set p" using "2.prems"(1) by auto
    have "open_run q [se_node e] (se_value e)" using "2.prems"(4) by (intro open_run_start) auto
    then show ?thesis using "2.IH"(2) [OF False res] "2.prems"(3,4) False by simp
  qed
qed

lemma contiguous_group_correct:
  assumes "\<forall>p\<in>set res. run_set p" "distinct nodes" "\<forall>n\<in>set nodes. fst (splitTrailingNumber n) = q"
  shows "(\<forall>p\<in>set (contiguous_group res q nodes). run_set p) \<and>
    ns_mset (contiguous_group res q nodes) = ns_mset res + mset nodes"
proof (cases "q = []")
  case True
  then show ?thesis using assms(1) by (auto simp: contiguous_group_def ns_mset_singles)
next
  case False
  obtain res' se0 where sl: "suffix_loop res [] nodes = (res', se0)" by fastforce
  have sc: "\<forall>p\<in>set res'. run_set p" "\<forall>e\<in>set se0. numbered q e"
    "ns_mset res' + mset (map se_node se0) = ns_mset res + mset nodes" "ns_mset res \<subseteq># ns_mset res'"
    using suffix_loop_correct [OF sl assms(1), of q] assms(3) by auto
  define se where "se = go_sort (\<lambda>a b. se_value a < se_value b) se0"
  have se: "mset se = mset se0" "set se = set se0" by (simp_all add: se_def)
  have "mset (map se_node se0) \<subseteq># mset nodes"
    using sc(3,4) by (metis add.commute mset_subset_eq_exists_conv mset_subset_eq_mono_add_right_cancel
        mset_subset_eq_add_left subset_mset.add_left_mono subset_mset.order_refl union_mset_add_mset_left add_le_cancel_left)
  then have d: "distinct (map se_node se0)" using assms(2) by (rule distinct_submset)
  then have d': "distinct (map se_node se)"
    using se(1) by (metis mset_map mset_eq_imp_distinct_iff)
  have m: "mset (map se_node se) = mset (map se_node se0)" using se(1) by simp
  show ?thesis
  proof (cases se)
    case Nil
    then have "se0 = []" using se by simp
    then show ?thesis using False sl sc Nil by (simp add: contiguous_group_def se_def)
  next
    case (Cons e es)
    have "open_run q [se_node e] (se_value e)" using sc(2) se(2) Cons by (intro open_run_start) auto
    moreover have "contiguous_group res q nodes = runs_loop res' [se_node e] (se_value e) es"
      using False sl Cons by (simp add: contiguous_group_def se_def [symmetric] Let_def)
    moreover have "\<forall>e\<in>set es. numbered q e" using sc(2) se(2) Cons by auto
    ultimately have "(\<forall>p\<in>set (contiguous_group res q nodes). run_set p) \<and>
      ns_mset (contiguous_group res q nodes) = ns_mset res' + mset (map se_node se)"
      using runs_loop_correct [OF sc(1), of q "[se_node e]" "se_value e" es] d' Cons by simp
    then show ?thesis using m sc(3) by simp
  qed
qed

text \<open>
  \<open>Contiguous\<close> partitions the set: every name of the set is in exactly one of the returned
  sets, and each of these is a single name or a run of names with one prefix whose numbers, as the code
  reads them, follow each other without a gap.
\<close>

theorem contiguous_partition:
  assumes "finite (ns_nodes ns)"
  shows "sum_list (map (\<lambda>p. mset_set (ns_nodes p)) (Contiguous ns)) = mset_set (ns_nodes ns) \<and>
    (\<forall>p\<in>set (Contiguous ns). run_set p)"
proof -
  define groups where "groups = groupByPrefix (ns_Nodes ns)"
  have grp: "group_at groups k = filter (\<lambda>n. fst (splitTrailingNumber n) = k) (ns_Nodes ns)"
    "distinct (map fst groups)"
    "set (map fst groups) = (\<lambda>n. fst (splitTrailingNumber n)) ` set (ns_Nodes ns)" for k
    using groupByPrefix_spec [of "ns_Nodes ns" k] by (simp_all add: groups_def)
  have fold: "(\<forall>p\<in>set (foldl (\<lambda>res k. contiguous_group res k (group_at groups k)) res keys). run_set p) \<and>
    ns_mset (foldl (\<lambda>res k. contiguous_group res k (group_at groups k)) res keys) =
      ns_mset res + mset (concat (map (group_at groups) keys))" if "\<forall>p\<in>set res. run_set p" for res keys
    using that
  proof (induction keys arbitrary: res)
    case (Cons k keys)
    have "(\<forall>p\<in>set (contiguous_group res k (group_at groups k)). run_set p) \<and>
      ns_mset (contiguous_group res k (group_at groups k)) = ns_mset res + mset (group_at groups k)"
      by (intro contiguous_group_correct [OF Cons.prems]) (simp_all add: grp ns_Nodes_props)
    then show ?case using Cons.IH [of "contiguous_group res k (group_at groups k)"] by (simp add: add.assoc)
  qed simp
  define keys where "keys = go_sort (<) (map fst groups)"
  have keys: "distinct keys" "set keys = (\<lambda>n. fst (splitTrailingNumber n)) ` set (ns_Nodes ns)"
    using grp by (simp_all add: keys_def)
  have parts: "mset (concat (map (\<lambda>k. filter (\<lambda>n. f n = k) xs) ks)) = mset (filter (\<lambda>n. f n \<in> set ks) xs)"
    if "distinct ks" for f :: "string \<Rightarrow> string" and xs ks
    using that
  proof (induction ks)
    case (Cons k ks)
    have "mset (filter (\<lambda>n. f n = k \<or> f n \<in> set ks) xs) =
        mset (filter (\<lambda>n. f n = k) xs) + mset (filter (\<lambda>n. f n \<in> set ks) xs)"
      using Cons.prems by (induction xs) auto
    with Cons show ?case by simp
  qed simp
  have "mset (concat (map (group_at groups) keys)) = mset (ns_Nodes ns)"
    using parts [OF keys(1), of "\<lambda>n. fst (splitTrailingNumber n)" "ns_Nodes ns"] keys(2)
    by (simp add: grp(1) cong: map_cong filter_cong)
  also have "\<dots> = mset_set (ns_nodes ns)"
    using mset_set_set [OF ns_Nodes_props(2), of ns] ns_Nodes_props(3) [OF assms] by simp
  finally show ?thesis
    using fold [of "[]" keys] by (simp add: Contiguous_def groups_def keys_def Let_def ns_mset_def)
qed

theorem contiguous_partition_witness:
  "sum_list (map (\<lambda>p. mset_set (ns_nodes p)) (Contiguous (NewFromSlice [''n1'', ''n2'', ''n4'']))) =
     {#''n1'', ''n2'', ''n4''#}"
proof -
  have f: "finite (ns_nodes (NewFromSlice [''n1'', ''n2'', ''n4'']))" by simp
  have "mset_set (set [''n1'', ''n2'', ''n4'']) = mset [''n1'', ''n2'', ''n4'']"
    by (rule mset_set_set) simp
  with contiguous_partition [OF f] show ?thesis by simp
qed

section \<open>Set operations\<close>

lemma ns_Equal_iff:
  "finite (ns_nodes b) \<Longrightarrow> ns_Equal a b \<longleftrightarrow> ns_nodes a = ns_nodes b"
  using card_subset_eq [of "ns_nodes b" "ns_nodes a"] by (auto simp: ns_Equal_def ns_IsSubset_def)

lemma ns_operations [elems_simps]:
  "ns_nodes (ns_Union a b) = ns_nodes a \<union> ns_nodes b"
  "ns_nodes (ns_Difference a b) = ns_nodes a - ns_nodes b"
  "ns_nodes (ns_Intersection a b) = ns_nodes a \<inter> ns_nodes b"
  "ns_nodes (ns_SymmetricDifference a b) = (ns_nodes a - ns_nodes b) \<union> (ns_nodes b - ns_nodes a)"
  by (auto simp: ns_Union_def ns_Copy_def ns_Difference_def ns_Intersection_def ns_SymmetricDifference_def)

lemma foldl_delete: "foldl (\<lambda>m n. m - {n}) A names = A - set names"
  by (induction names arbitrary: A) auto

end
