(* ===== verification/HostMatch.thy ===== *)
theory HostMatch
  imports NodeSet
begin

text \<open>
  Model of \<open>Match\<close> and its helpers in \<open>pkg/mesh/nodeset/nodeset.go\<close>: does a host name match a pattern? The
  code has a fast path that walks pattern and name together without expanding anything, a path that
  hands a pattern with wildcards to \<open>filepath.Match\<close>, and a general path that expands the pattern. The
  theorems compare the answers with \<open>Expand\<close>; some of them show inputs on which the paths disagree.
  \<open>filepath.Match\<close> is modelled for single-byte characters, as on a Unix system.
\<close>

section \<open>Wildcards of the standard library\<close>

datatype glob_tok = GStar | GAny | GClass bool "(char \<times> char) list" | GLit char

fun glob_getEsc :: "string \<Rightarrow> (char \<times> string) option" where
  "glob_getEsc [] = None"
| "glob_getEsc (c # cs) =
     (if c = CHR ''-'' \<or> c = CHR '']'' then None
      else let (d, ds) = (if c = CHR 0x5C then (case cs of [] \<Rightarrow> (c, []) | d # ds \<Rightarrow> (d, ds)) else (c, cs))
           in if ds = [] then None else Some (d, ds))"

lemma glob_getEsc_shorter: "glob_getEsc s = Some (c, t) \<Longrightarrow> length t < length s"
  by (cases s) (auto simp: Let_def split: if_splits list.splits)

function glob_class :: "(char \<times> char) list \<Rightarrow> string \<Rightarrow> ((char \<times> char) list \<times> string) option" where
  "glob_class rs s =
     (if s \<noteq> [] \<and> hd s = CHR '']'' \<and> rs \<noteq> [] then Some (rs, tl s)
      else case glob_getEsc s of
        None \<Rightarrow> None
      | Some (lo, s1) \<Rightarrow>
          (if hd s1 = CHR ''-'' then
             (case glob_getEsc (tl s1) of
                None \<Rightarrow> None
              | Some (hi, s2) \<Rightarrow> glob_class (rs @ [(lo, hi)]) s2)
           else glob_class (rs @ [(lo, lo)]) s1))"
  by pat_completeness auto
termination
  by (relation "measure (\<lambda>(rs, s). length s)") (auto dest!: glob_getEsc_shorter)

declare glob_class.simps [simp del]

lemma glob_class_shorter: "glob_class rs s = Some (rs', t) \<Longrightarrow> length t < length s"
proof (induction rs s arbitrary: rs' t rule: glob_class.induct)
  case (1 rs s)
  show ?case
  proof (cases "s \<noteq> [] \<and> hd s = CHR '']'' \<and> rs \<noteq> []")
    case True
    then show ?thesis using "1.prems" by (subst (asm) glob_class.simps) auto
  next
    case False
    obtain lo s1 where e: "glob_getEsc s = Some (lo, s1)"
      using "1.prems" False by (subst (asm) glob_class.simps) (auto split: option.splits)
    note l1 = glob_getEsc_shorter [OF e]
    show ?thesis
    proof (cases "hd s1 = CHR ''-''")
      case True
      obtain hi s2 where e2: "glob_getEsc (tl s1) = Some (hi, s2)"
        using "1.prems" False e True by (subst (asm) glob_class.simps) (auto split: option.splits)
      then have "glob_class (rs @ [(lo, hi)]) s2 = Some (rs', t)"
        using "1.prems" False e True by (subst (asm) glob_class.simps) auto
      from "1.IH"(1) [OF False e refl True e2 refl this] glob_getEsc_shorter [OF e2] l1
      show ?thesis by simp
    next
      case no: False
      then have "glob_class (rs @ [(lo, lo)]) s1 = Some (rs', t)"
        using "1.prems" False e by (subst (asm) glob_class.simps) auto
      from "1.IH"(2) [OF False e refl no this] l1 show ?thesis by simp
    qed
  qed
qed

function glob_tokens :: "string \<Rightarrow> glob_tok list option" where
  "glob_tokens [] = Some []"
| "glob_tokens (c # cs) =
     (if c = CHR ''*'' then map_option ((#) GStar) (glob_tokens cs)
      else if c = CHR ''?'' then map_option ((#) GAny) (glob_tokens cs)
      else if c = CHR ''['' then
        (let neg = (cs \<noteq> [] \<and> hd cs = CHR ''^''); body = (if neg then tl cs else cs) in
         case glob_class [] body of
           None \<Rightarrow> None
         | Some (rs, rest) \<Rightarrow> map_option ((#) (GClass neg rs)) (glob_tokens rest))
      else if c = CHR 0x5C then
        (case cs of [] \<Rightarrow> None | d # ds \<Rightarrow> map_option ((#) (GLit d)) (glob_tokens ds))
      else map_option ((#) (GLit c)) (glob_tokens cs))"
  by pat_completeness auto
termination
  by (relation "measure length") (auto dest!: glob_class_shorter split: if_splits)

declare glob_tokens.simps(2) [simp del]

text \<open>The chunks between stars: each with whether a star stands before it.\<close>

fun glob_chunks :: "bool \<Rightarrow> glob_tok list \<Rightarrow> glob_tok list \<Rightarrow> (bool \<times> glob_tok list) list" where
  "glob_chunks star cur [] = (if star \<or> cur \<noteq> [] then [(star, cur)] else [])"
| "glob_chunks star cur (GStar # ts) =
     (if cur = [] then glob_chunks True [] ts else (star, cur) # glob_chunks True [] ts)"
| "glob_chunks star cur (t # ts) = glob_chunks star (cur @ [t]) ts"

fun glob_char :: "glob_tok \<Rightarrow> char \<Rightarrow> bool" where
  "glob_char GStar c = False"
| "glob_char GAny c = (c \<noteq> CHR ''/'')"
| "glob_char (GClass neg rs) c = (list_ex (\<lambda>(lo, hi). lo \<le> c \<and> c \<le> hi) rs \<noteq> neg)"
| "glob_char (GLit d) c = (c = d)"

fun match_chunk :: "glob_tok list \<Rightarrow> string \<Rightarrow> string option" where
  "match_chunk [] s = Some s"
| "match_chunk (t # ts) [] = None"
| "match_chunk (t # ts) (c # cs) = (if glob_char t c then match_chunk ts cs else None)"

fun find_chunk :: "bool \<Rightarrow> glob_tok list \<Rightarrow> string \<Rightarrow> string option" where
  "find_chunk final chunk [] = None"
| "find_chunk final chunk (c # cs) =
     (if c = CHR ''/'' then None
      else case match_chunk chunk cs of
        None \<Rightarrow> find_chunk final chunk cs
      | Some t \<Rightarrow> if final \<and> t \<noteq> [] then find_chunk final chunk cs else Some t)"

fun glob_loop :: "(bool \<times> glob_tok list) list \<Rightarrow> string \<Rightarrow> bool" where
  "glob_loop [] name = (name = [])"
| "glob_loop ((star, chunk) # rest) name =
     (if star \<and> chunk = [] then CHR ''/'' \<notin> set name
      else case match_chunk chunk name of
        Some t \<Rightarrow>
          (if t = [] \<or> rest \<noteq> [] then glob_loop rest t
           else if star then (case find_chunk (rest = []) chunk name of None \<Rightarrow> False | Some t \<Rightarrow> glob_loop rest t)
           else False)
      | None \<Rightarrow>
          (if star then (case find_chunk (rest = []) chunk name of None \<Rightarrow> False | Some t \<Rightarrow> glob_loop rest t)
           else False))"

definition filepath_Match :: "string \<Rightarrow> string \<Rightarrow> ns_error + bool" where
  "filepath_Match pattern name =
     (case glob_tokens pattern of
        None \<Rightarrow> Inl BadGlobPattern
      | Some ts \<Rightarrow> Inr (glob_loop (glob_chunks False [] ts) name))"

section \<open>Which path a pattern takes\<close>

definition containsGlob :: "string \<Rightarrow> bool" where
  "containsGlob s \<longleftrightarrow> list_ex (\<lambda>c. c = CHR ''*'' \<or> c = CHR ''?'') s"

definition containsBracket :: "string \<Rightarrow> bool" where
  "containsBracket s \<longleftrightarrow> list_ex (\<lambda>c. c = CHR ''['') s"

definition containsSetOrGroup :: "string \<Rightarrow> bool" where
  "containsSetOrGroup s \<longleftrightarrow>
     list_ex (\<lambda>c. c = CHR ''@'' \<or> c = CHR '','' \<or> c = CHR ''!'' \<or> c = CHR ''&'' \<or> c = CHR ''^'') s"

definition containsComplex :: "string \<Rightarrow> bool" where
  "containsComplex s \<longleftrightarrow>
     list_ex (\<lambda>c. c = CHR ''@'' \<or> c = CHR ''!'' \<or> c = CHR ''&'' \<or> c = CHR ''^'') s"

section \<open>The fast path\<close>

definition checkNumStr :: "string \<Rightarrow> int list \<Rightarrow> int \<Rightarrow> bool" where
  "checkNumStr numStr ints padding =
     (if padding > 0 \<and> int (length numStr) \<noteq> padding then False
      else if numStr = [] then False
      else case parseIntAtoi numStr of
        None \<Rightarrow> False
      | Some val \<Rightarrow> (let idx = go_search (length ints) (\<lambda>i. ints ! i \<ge> val)
                     in idx < length ints \<and> ints ! idx = val))"

text \<open>
  The loop of \<open>matchSimplePattern\<close>: the last two arguments are \<open>pattern[pIdx:]\<close> and \<open>hostname[hIdx:]\<close>.
\<close>

function match_loop :: "string \<Rightarrow> string \<Rightarrow> string \<Rightarrow> ns_error + bool" where
  "match_loop pattern prest hrest =
     (if prest = [] then Inr (hrest = [])
      else case index_byte prest CHR ''['' of
        None \<Rightarrow> Inr (hrest = prest)
      | Some b \<Rightarrow>
          (if \<not> prefix (take b prest) hrest then Inr False
           else let h = drop b hrest in
             case index_byte (drop b prest) CHR '']'' of
               None \<Rightarrow> Inl (UnclosedBracket pattern)
             | Some e \<Rightarrow>
                 (case parseBracketExpr (take (e - 1) (drop (b + 1) prest)) of
                    Inl err \<Rightarrow> Inl (InvalidBracket err)
                  | Inr (ints, padding) \<Rightarrow>
                      (let p = drop (b + e + 1) prest in
                       if p = [] then Inr (checkNumStr h ints padding)
                       else let nextLiteral = (case index_byte p CHR ''['' of None \<Rightarrow> p | Some n \<Rightarrow> take n p)
                            in case str_index h nextLiteral of
                              None \<Rightarrow> Inr False
                            | Some litIdx \<Rightarrow>
                                if \<not> checkNumStr (take litIdx h) ints padding then Inr False
                                else match_loop pattern p (drop litIdx h)))))"
  by pat_completeness auto
termination
  by (relation "measure (\<lambda>(pattern, prest, hrest). length prest)") (auto simp: length_greater_0_conv [symmetric] simp del: length_greater_0_conv)

declare match_loop.simps [simp del]

definition matchSimplePattern :: "string \<Rightarrow> string \<Rightarrow> ns_error + bool" where
  "matchSimplePattern pattern hostname = match_loop pattern pattern hostname"

fun match_parts :: "string \<Rightarrow> string list \<Rightarrow> ns_error + bool" where
  "match_parts hostname [] = Inr False"
| "match_parts hostname (part0 # parts) =
     (let part = trim_space part0 in
      if part = [] then match_parts hostname parts
      else case matchSimplePattern part hostname of
        Inl err \<Rightarrow> Inl err
      | Inr matched \<Rightarrow> if matched then Inr True else match_parts hostname parts)"

definition matchFast :: "string \<Rightarrow> string \<Rightarrow> ns_error + bool" where
  "matchFast pattern hostname = match_parts hostname (split_on CHR '','' pattern)"

section \<open>Match\<close>

fun match_nodes :: "string \<Rightarrow> string list \<Rightarrow> ns_error + bool" where
  "match_nodes hostname [] = Inr False"
| "match_nodes hostname (node # nodes) =
     (if containsGlob node then
        (case filepath_Match node hostname of
           Inl err \<Rightarrow> Inl err
         | Inr matched \<Rightarrow> if matched then Inr True else match_nodes hostname nodes)
      else if node = hostname then Inr True
      else match_nodes hostname nodes)"

definition Match :: "string \<Rightarrow> string \<Rightarrow> (options \<Rightarrow> options) list \<Rightarrow> ns_error + bool" where
  "Match pattern hostname opts =
     (if pattern = hostname then Inr True
      else let hasGlob = containsGlob pattern;
               hasExpansion = (hasGlob \<or> containsBracket pattern \<or> containsSetOrGroup pattern)
      in if \<not> hasExpansion then Inr (pattern = hostname)
      else if \<not> hasGlob \<and> \<not> containsComplex pattern then matchFast pattern hostname
      else if hasGlob \<and> \<not> containsBracket pattern \<and> \<not> containsSetOrGroup pattern
        then filepath_Match pattern hostname
      else case New pattern opts of
        Inl err \<Rightarrow> Inl err
      | Inr ns \<Rightarrow> match_nodes hostname (ns_Nodes ns))"

section \<open>The parser returns sorted values\<close>

lemma add_steps_inv: "rs_inv rs \<Longrightarrow> rs_inv (add_steps v hi step rs)"
proof (induction v hi step rs rule: add_steps.induct)
  case (1 v hi step rs)
  then show ?case by (subst add_steps.simps) (auto intro: inv_intros)
qed

lemma parse_part_inv:
  "parse_part (pad, rs) s = Inr (pad', rs') \<Longrightarrow> rs_inv rs \<Longrightarrow> rs_inv rs'"
  by (auto simp: parse_part_def Let_def bind_res_Inr add_steps_inv
      split: if_splits option.splits prod.splits intro: inv_intros)

lemma fold_parse_inv:
  "fold_res parse_part (pad, rs) ps = Inr (pad', rs') \<Longrightarrow> rs_inv rs \<Longrightarrow> rs_inv rs'"
proof (induction ps arbitrary: pad rs)
  case (Cons p ps)
  then show ?case by (fastforce simp: bind_res_Inr dest: parse_part_inv)
qed simp

lemma parseBracketExpr_sorted:
  assumes "parseBracketExpr c = Inr (vals, q)"
  shows "sorted_wrt (<) vals"
proof -
  obtain rs where "rs_inv rs" "vals = rs_expand rs"
    using assms fold_parse_inv [of 0 "newRangeSet 0"]
    by (auto simp: parseBracketExpr_def bind_res_Inr split: if_splits)
  then show ?thesis using rs_expand_correct(1) by simp
qed

section \<open>Checking one number\<close>

lemma checkNumStr_iff:
  assumes "sorted_wrt (<) ints"
  shows "checkNumStr s ints pad \<longleftrightarrow>
    (0 < pad \<longrightarrow> int (length s) = pad) \<and> s \<noteq> [] \<and> (\<exists>v\<in>set ints. parseIntAtoi s = Some v)"
proof -
  have "(let idx = go_search (length ints) (\<lambda>i. ints ! i \<ge> v) in idx < length ints \<and> ints ! idx = v) \<longleftrightarrow>
    v \<in> set ints" for v
  proof -
    define idx where "idx = go_search (length ints) (\<lambda>i. ints ! i \<ge> v)"
    have mono: "\<forall>a b. a \<le> b \<longrightarrow> b < length ints \<longrightarrow> ints ! a \<ge> v \<longrightarrow> ints ! b \<ge> v"
      using sorted_wrt_nth_less [OF assms] by (metis le_neq_implies_less less_imp_le order_trans)
    note s = go_search_spec [OF mono, folded idx_def]
    show ?thesis unfolding idx_def [symmetric] Let_def
    proof
      assume "v \<in> set ints"
      then obtain j where j: "j < length ints" "ints ! j = v" by (auto simp: in_set_conv_nth)
      then have "idx \<le> j" using s(2) [of j] by force
      moreover have "idx = j"
      proof (rule ccontr)
        assume "idx \<noteq> j"
        then have "idx < j" using \<open>idx \<le> j\<close> by simp
        then have "ints ! idx < v" "ints ! idx \<ge> v"
          using sorted_wrt_nth_less [OF assms, of idx j] j s(3) by auto
        then show False by simp
      qed
      ultimately show "idx < length ints \<and> ints ! idx = v" using j by simp
    qed (metis nth_mem)
  qed
  then show ?thesis by (auto simp: checkNumStr_def split: option.splits)
qed

lemma dec_foldl_mono: "list_all is_digit s \<Longrightarrow> 0 \<le> v \<Longrightarrow> v \<le> foldl (\<lambda>v c. v * 10 + digit_of c) v s"
proof (induction s arbitrary: v)
  case (Cons c cs)
  then have d: "0 \<le> digit_of c" using digit_of_range by auto
  then have "v * 10 + digit_of c \<le> foldl (\<lambda>v c. v * 10 + digit_of c) (v * 10 + digit_of c) cs"
    using Cons by (intro Cons.IH) auto
  with Cons.prems d show ?case by simp
qed simp

lemma parseInt_loop_digits:
  "list_all is_digit s \<Longrightarrow> 0 \<le> v \<Longrightarrow> foldl (\<lambda>v c. v * 10 + digit_of c) v s \<le> max_int \<Longrightarrow>
   parseInt_loop v s = Some (foldl (\<lambda>v c. v * 10 + digit_of c) v s)"
proof (induction s arbitrary: v)
  case (Cons c cs)
  have d: "0 \<le> digit_of c" "is_digit c" using Cons.prems digit_of_range by auto
  then have "v * 10 + digit_of c \<le> foldl (\<lambda>v c. v * 10 + digit_of c) (v * 10 + digit_of c) cs"
    using Cons.prems by (intro dec_foldl_mono) auto
  then have b: "v * 10 + digit_of c \<le> max_int" using Cons.prems by simp
  have "i64 (v * 10) = v * 10" using b d Cons.prems by (intro i64_id) auto
  moreover have "i64 (v * 10 + digit_of c) = v * 10 + digit_of c"
    using b d Cons.prems by (intro i64_id) auto
  ultimately show ?case using Cons d by simp
qed simp

lemma parseIntAtoi_formatInt:
  assumes "0 \<le> v" "v \<le> max_int"
  shows "parseIntAtoi (formatInt p v) = Some v"
proof -
  note f = formatInt_facts [OF assms, of p]
  have "dec_val (formatInt p v) = v" using atoi_suffix [OF f(2,3)] by simp
  then show ?thesis
    using parseInt_loop_digits [OF f(2), of 0] assms(2) by (simp add: parseIntAtoi_def dec_val_def)
qed

section \<open>A pattern with one bracket expression at its end\<close>

text \<open>Names without any character that has a meaning in patterns, and bracket contents without such.\<close>

definition host_char :: "char \<Rightarrow> bool" where
  "host_char c \<longleftrightarrow> plain_char c \<and> c \<noteq> CHR ''*'' \<and> c \<noteq> CHR ''?'' \<and> c \<noteq> CHR ''@''"

definition host_prefix :: "string \<Rightarrow> bool" where
  "host_prefix p \<longleftrightarrow> p \<noteq> [] \<and> list_all host_char p"

lemma host_prefix_plain: "host_prefix p \<Longrightarrow> plain_name p"
  by (cases p) (auto simp: host_prefix_def plain_name_def host_char_def list_all_iff)

definition bracketed :: "string \<Rightarrow> string \<Rightarrow> string" where
  "bracketed p c = p @ ''['' @ c @ '']''"

text \<open>Such a pattern takes the fast path, and its single part is matched by prefix and number.\<close>

lemma Match_bracketed_path:
  assumes "host_prefix p" "list_all (\<lambda>c. host_char c \<or> c = CHR '','') c" "bracketed p c \<noteq> h"
  shows "Match (bracketed p c) h opts = matchFast (bracketed p c) h"
proof -
  have "list_all (\<lambda>c. host_char c \<or> c = CHR '','' \<or> c = CHR ''['' \<or> c = CHR '']'') (bracketed p c)"
    using assms by (auto simp: bracketed_def host_prefix_def list_all_iff)
  then have "\<not> containsGlob (bracketed p c)" "\<not> containsComplex (bracketed p c)"
    by (auto simp: containsGlob_def containsComplex_def list_ex_iff list_all_iff host_char_def
        plain_char_def is_operator_def)
  moreover have "containsBracket (bracketed p c)" by (simp add: containsBracket_def bracketed_def)
  ultimately show ?thesis using assms(3) by (simp add: Match_def)
qed

lemma matchSimple_bracketed:
  assumes "CHR ''['' \<notin> set p" "CHR '']'' \<notin> set c" "parseBracketExpr c = Inr (vals, q)"
  shows "matchSimplePattern (bracketed p c) (p @ s) = Inr (checkNumStr s vals q)"
proof -
  define pat where "pat = bracketed p c"
  have i1: "index_byte pat CHR ''['' = Some (length p)"
    unfolding pat_def bracketed_def using assms(1) index_byte_append [of "CHR ''[''" p] by simp
  have d: "drop (length p) pat = (CHR ''['' # c) @ CHR '']'' # []" by (simp add: pat_def bracketed_def)
  have i2: "index_byte (drop (length p) pat) CHR '']'' = Some (length c + 1)"
    unfolding d using assms(2) index_byte_append [of "CHR '']''" "CHR ''['' # c" "[]"] by simp
  have m: "take (length p) pat = p" "take (length c) (drop (length p + 1) pat) = c"
    "drop (length p + (length c + 1) + 1) pat = []" "pat \<noteq> []"
    by (simp_all add: pat_def bracketed_def)
  show ?thesis
    unfolding matchSimplePattern_def pat_def [symmetric]
    by (subst match_loop.simps) (use i1 i2 m assms(3) in \<open>simp add: Let_def\<close>)
qed

lemma trim_bracketed: "host_prefix p \<Longrightarrow> trim_space (bracketed p c) = bracketed p c"
  by (cases p) (auto simp: bracketed_def host_prefix_def host_char_def plain_char_def is_space_def
      intro!: trim_space_id)

lemma Match_bracketed:
  assumes "host_prefix p" "list_all host_char c" "parseBracketExpr c = Inr (vals, q)"
    and "p @ s \<noteq> bracketed p c"
  shows "Match (bracketed p c) (p @ s) opts = Inr (checkNumStr s vals q)"
proof -
  have c: "list_all (\<lambda>c. host_char c \<or> c = CHR '','') c" using assms(2) by (auto simp: list_all_iff)
  have nc: "CHR '','' \<notin> set (bracketed p c)" "CHR ''['' \<notin> set p" "CHR '']'' \<notin> set c"
    using assms(1,2) by (auto simp: bracketed_def host_prefix_def list_all_iff host_char_def
        plain_char_def is_operator_def)
  have "bracketed p c \<noteq> []" by (simp add: bracketed_def)
  then have "matchFast (bracketed p c) (p @ s) = Inr (checkNumStr s vals q)"
    using nc matchSimple_bracketed [OF nc(2,3) assms(3), of s] trim_bracketed [OF assms(1), of c]
    by (simp add: matchFast_def split_on_single Let_def)
  then show ?thesis using Match_bracketed_path [OF assms(1) c] assms(4) by simp
qed

lemma Expand_bracketed:
  assumes "host_prefix p" "list_all (\<lambda>c. host_char c \<or> c = CHR '','') c" "parseBracketExpr c = Inr (vals, q)"
    and "vals \<noteq> []" "int (length vals) \<le> opt_maxExpand (apply_options opts)"
  shows "Expand (bracketed p c) opts = Inr (sorted_list_of_set ((\<lambda>v. p @ format_value q v) ` set vals))"
proof -
  define mx where "mx = opt_maxExpand (apply_options opts)"
  define rv where "rv = opt_resolver (apply_options opts)"
  define names where "names = map (\<lambda>v. p @ format_value q v) vals"
  note pl = host_prefix_plain [OF assms(1)]
  have nb: "CHR ''['' \<notin> set c" "CHR '']'' \<notin> set c"
    using assms(2) by (auto simp: list_all_iff host_char_def plain_char_def)
  have "operand (bracketed p c)" unfolding bracketed_def by (rule folded_operand [OF pl nb])
  moreover have ex: "expandTerm (bracketed p c) rv mx = Inr names"
    unfolding bracketed_def names_def mx_def
    by (rule expandTerm_bracket [OF pl nb assms(3-5)])
  moreover have "int (card (set names)) \<le> mx"
    using assms(5) card_length [of names] by (simp add: names_def mx_def)
  ultimately have "parseExpr (bracketed p c) rv mx = Inr (sorted_list_of_set (set names))"
    using parseExpr_render [of "bracketed p c" "[]" rv mx "\<lambda>_. names"]
    by (simp add: render_def Let_def)
  then show ?thesis by (simp add: Expand_def New_def ns_Nodes_def Let_def mx_def rv_def names_def)
qed



section \<open>Inputs on which Match and Expand disagree\<close>

text \<open>
  A comma between brackets breaks the fast path: \<open>Match\<close> splits the pattern at every comma,
  also at those inside brackets, so for a pattern such as \<open>node[1,3,5]\<close> it returns the error of an
  unclosed bracket on every host name that starts with the part before the bracket, although \<open>Expand\<close>
  reads the pattern without an error when the list is well formed.
\<close>

theorem match_comma_in_brackets_fails:
  assumes "host_prefix p" "list_all is_digit a" "list_all (\<lambda>c. host_char c \<or> c = CHR '','') b"
    and "p @ s \<noteq> bracketed p (a @ '','' @ b)"
  shows "Match (bracketed p (a @ '','' @ b)) (p @ s) opts = Inl (UnclosedBracket (p @ ''['' @ a))"
proof -
  have dg: "host_char c" if "is_digit c" for c
  proof -
    have "\<not> is_digit CHR ''*''" "\<not> is_digit CHR ''?''" by (simp_all add: is_digit_def)
    then show ?thesis
      using that is_digit_not_space [OF that] by (auto simp: host_char_def plain_char_def is_operator_def)
  qed
  have c: "list_all (\<lambda>c. host_char c \<or> c = CHR '','') (a @ '','' @ b)"
    using assms(2,3) dg by (auto simp: list_all_iff)
  define part where "part = p @ ''['' @ a"
  have "CHR '','' \<notin> set part" "CHR ''['' \<notin> set p" "CHR '']'' \<notin> set a"
    using assms(1,2) dg by (auto simp: part_def host_prefix_def list_all_iff host_char_def plain_char_def is_operator_def)
  note nc = this
  have sp: "split_on CHR '','' (bracketed p (a @ '','' @ b)) = part # split_on CHR '','' (b @ '']'')"
    using split_on_append [OF nc(1), of "b @ '']''"] by (simp add: bracketed_def part_def)
  have "\<not> is_space CHR ''[''" by (simp add: is_space_def)
  moreover have "\<not> is_space (hd p)" "p \<noteq> []"
    using assms(1) by (cases p; auto simp: host_prefix_def host_char_def plain_char_def)+
  moreover have "a \<noteq> [] \<Longrightarrow> \<not> is_space (last a)"
    using assms(2) by (simp add: list_all_iff is_digit_not_space)
  ultimately have tr: "trim_space part = part"
    by (intro trim_space_id) (auto simp: part_def)
  have i1: "index_byte part CHR ''['' = Some (length p)"
    unfolding part_def using nc(2) index_byte_append [of "CHR ''[''" p] by simp
  have i2: "index_byte (drop (length p) part) CHR '']'' = None"
    using nc(3) by (simp add: part_def index_byte_None)
  have "matchSimplePattern part (p @ s) = Inl (UnclosedBracket part)"
    unfolding matchSimplePattern_def
    by (subst match_loop.simps) (use i1 i2 in \<open>simp add: Let_def part_def\<close>)
  then have "matchFast (bracketed p (a @ '','' @ b)) (p @ s) = Inl (UnclosedBracket part)"
    using sp tr by (simp add: matchFast_def Let_def part_def)
  then show ?thesis using Match_bracketed_path [OF assms(1) c] assms(4) by (simp add: part_def)
qed

theorem match_comma_in_brackets_fails_witness:
  "Match (bracketed ''node'' (''1'' @ '','' @ ''3'')) (''node'' @ ''3'') [] = Inl (UnclosedBracket (''node'' @ ''['' @ ''1'')) \<and>
   Expand (bracketed ''node'' (''1'' @ '','' @ ''3'')) [] = Inr [''node1'', ''node3'']"
proof -
  have a: "host_prefix ''node''" "list_all is_digit ''1''"
    "list_all (\<lambda>c. host_char c \<or> c = CHR '','') ''3''"
    "list_all (\<lambda>c. host_char c \<or> c = CHR '','') (''1'' @ '','' @ ''3'')" by code_simp+
  have b: "''node'' @ ''3'' \<noteq> bracketed ''node'' (''1'' @ '','' @ ''3'')" by code_simp
  have c: "parseBracketExpr (''1'' @ '','' @ ''3'') = Inr ([1, 3], 0)" by code_simp
  have d: "int (length [1, 3::int]) \<le> opt_maxExpand (apply_options [])"
    by (simp add: apply_options_def defaultOptions_def defaultMaxExpand_def)
  have e: "format_value 0 1 = ''1''" "format_value 0 3 = ''3''" by code_simp+
  have f: "sorted_list_of_set {''node1'', ''node3''} = [''node1'', ''node3'']" by simp
  show ?thesis
    using match_comma_in_brackets_fails [OF a(1-3) b, of "[]"] Expand_bracketed [OF a(1,4) c _ d] e f by simp
qed

text \<open>
  The fast path demands exactly the padding width, while \<open>Expand\<close> pads to at least it: a number
  with more digits than the first bound of a padded range, such as 100 in \<open>node[08-100]\<close>, is expanded
  but never matched.
\<close>

theorem match_misses_wide_numbers:
  assumes "host_prefix p" "list_all host_char c" "parseBracketExpr c = Inr (vals, q)"
    and "int (length vals) \<le> opt_maxExpand (apply_options opts)"
    and "v \<in> set vals" "0 \<le> v" "v \<le> max_int" "0 < q" "int (length (format_value q v)) \<noteq> q"
  shows "\<exists>names. Expand (bracketed p c) opts = Inr names \<and> p @ format_value q v \<in> set names \<and>
    Match (bracketed p c) (p @ format_value q v) opts = Inr False"
proof -
  have c: "list_all (\<lambda>c. host_char c \<or> c = CHR '','') c" using assms(2) by (auto simp: list_all_iff)
  have "vals \<noteq> []" using assms(5) by auto
  note ex = Expand_bracketed [OF assms(1) c assms(3) this assms(4)]
  have "CHR ''['' \<notin> set (format_value q v)"
    using formatInt_facts(2) [OF assms(6,7), of q] by (simp add: format_value_formatInt digits_notin)
  then have ne: "p @ format_value q v \<noteq> bracketed p c" by (auto simp: bracketed_def)
  show ?thesis using ex Match_bracketed [OF assms(1-3) ne, of opts] assms(5,8,9) by (simp add: checkNumStr_def)
qed

theorem match_misses_wide_numbers_witness:
  "\<exists>names. Expand (bracketed ''n'' ''09-100'') [] = Inr names \<and> ''n'' @ format_value 2 100 \<in> set names \<and>
     Match (bracketed ''n'' ''09-100'') (''n'' @ format_value 2 100) [] = Inr False"
proof -
  have a: "host_prefix ''n''" "list_all host_char ''09-100''" by code_simp+
  have b: "parseBracketExpr ''09-100'' = Inr ([9..100], 2)" by code_simp
  have c: "int (length [9..100]) \<le> opt_maxExpand (apply_options [])"
    by (simp add: apply_options_def defaultOptions_def defaultMaxExpand_def)
  have d: "int (length (format_value 2 100)) \<noteq> 2" by code_simp
  show ?thesis by (rule match_misses_wide_numbers [OF a b c _ _ _ _ d]) simp_all
qed

section \<open>The general path\<close>

lemma match_nodes_plain:
  "\<forall>n\<in>set nodes. \<not> containsGlob n \<Longrightarrow> match_nodes h nodes = Inr (h \<in> set nodes)"
  by (induction nodes) auto

text \<open>
  On a pattern with an operator or a group reference, \<open>Match\<close> answers whether the host name is
  one of the names the pattern expands to, provided no expanded name contains a wildcard.
\<close>

theorem match_expression_exact:
  assumes "containsComplex pattern" "pattern \<noteq> hostname" "Expand pattern opts = Inr names"
    and "\<forall>n\<in>set names. \<not> containsGlob n"
  shows "Match pattern hostname opts = Inr (hostname \<in> set names)"
proof -
  obtain ns where ns: "New pattern opts = Inr ns" "names = ns_Nodes ns"
    using assms(3) by (auto simp: Expand_def split: sum.splits)
  have sg: "containsSetOrGroup pattern"
    using assms(1) by (auto simp: containsComplex_def containsSetOrGroup_def list_ex_iff)
  then have "Match pattern hostname opts = match_nodes hostname (ns_Nodes ns)"
    using assms(1,2) ns by (simp add: Match_def Let_def)
  then show ?thesis using match_nodes_plain assms(4) ns(2) by simp
qed

theorem match_expression_exact_witness:
  "Match ''a,b!a'' ''b'' [] = Inr (''b'' \<in> set [''b'']) \<and> containsComplex ''a,b!a''"
proof -
  have a: "containsComplex ''a,b!a''" "''a,b!a'' \<noteq> ''b''" by code_simp+
  have ops: "operand ''a''" "\<forall>(oper, u)\<in>set [(CHR '','', ''b''), (CHR ''!'', ''a'')]. is_operator oper \<and> operand u"
    by (simp_all add: operand_def trim_space_def is_space_def is_operator_def)
  have ex: "\<forall>u\<in>insert ''a'' (snd ` set [(CHR '','', ''b''), (CHR ''!'', ''a'')]).
    expandTerm u None 25000 = Inr ((\<lambda>u. [u]) u)"
    by (simp add: expandTerm_def splitBrackets_def split_loop.simps)
  have "parseExpr ''a,b!a'' None 25000 = Inr [''b'']"
    using parseExpr_render [OF ops ex] by (simp add: render_def apply_operator_def Let_def insert_Diff_if)
  then have b: "Expand ''a,b!a'' [] = Inr [''b'']"
    by (simp add: Expand_def New_def apply_options_def defaultOptions_def defaultMaxExpand_def ns_Nodes_def)
  have c: "\<forall>n\<in>set [''b'']. \<not> containsGlob n" by (simp add: containsGlob_def)
  show ?thesis using match_expression_exact [OF a b c] a(1) by simp
qed

section \<open>Wildcard patterns\<close>

lemma glob_tokens_literal:
  "list_all (\<lambda>c. host_char c \<and> c \<noteq> CHR 0x5C) p \<Longrightarrow>
   glob_tokens (p @ rest) = map_option ((@) (map GLit p)) (glob_tokens rest)"
proof (induction p)
  case (Cons c p)
  then show ?case
    by (cases "glob_tokens rest") (auto simp: glob_tokens.simps(2) host_char_def plain_char_def)
next
  case Nil
  then show ?case by (cases "glob_tokens rest") auto
qed

lemma glob_chunks_literal: "glob_chunks star cur (map GLit p @ ts) = glob_chunks star (cur @ map GLit p) ts"
  by (induction p arbitrary: cur) auto

lemma match_chunk_literal:
  "match_chunk (map GLit p) s = (if prefix p s then Some (drop (length p) s) else None)"
  by (induction p arbitrary: s) (case_tac [2] s, auto)

text \<open>
  A pattern that is a literal followed by one star, the usual form of a credential pattern,
  matches exactly the host names that start with the literal and have no slash after it.
\<close>

theorem match_prefix_star:
  assumes "host_prefix p" "CHR 0x5C \<notin> set p"
  shows "Match (p @ ''*'') hostname opts = Inr (\<exists>s. hostname = p @ s \<and> CHR ''/'' \<notin> set s)"
proof -
  have p: "list_all (\<lambda>c. host_char c \<and> c \<noteq> CHR 0x5C) p" "p \<noteq> []"
    using assms by (auto simp: host_prefix_def list_all_iff)
  have "glob_tokens ''*'' = Some [GStar]" by (simp add: glob_tokens.simps(2))
  then have tk: "glob_tokens (p @ ''*'') = Some (map GLit p @ [GStar])"
    using glob_tokens_literal [OF p(1), of "''*''"] by simp
  have ch: "glob_chunks False [] (map GLit p @ [GStar]) = [(False, map GLit p), (True, [])]"
    using p(2) glob_chunks_literal [of False "[]" p "[GStar]"] by simp
  have "glob_loop [(False, map GLit p), (True, [])] hostname \<longleftrightarrow>
      (\<exists>s. hostname = p @ s \<and> CHR ''/'' \<notin> set s)"
    by (auto simp: match_chunk_literal prefix_def split: if_splits)
  then have fm: "filepath_Match (p @ ''*'') hostname = Inr (\<exists>s. hostname = p @ s \<and> CHR ''/'' \<notin> set s)"
    by (simp add: filepath_Match_def tk ch)
  have "containsGlob (p @ ''*'')" by (simp add: containsGlob_def)
  moreover have "\<not> containsBracket (p @ ''*'')" "\<not> containsSetOrGroup (p @ ''*'')"
    using p(1) by (auto simp: containsBracket_def containsSetOrGroup_def list_ex_iff list_all_iff host_char_def
        plain_char_def is_operator_def)
  moreover have "p @ ''*'' = hostname \<Longrightarrow> \<exists>s. hostname = p @ s \<and> CHR ''/'' \<notin> set s" by auto
  ultimately show ?thesis using fm by (auto simp: Match_def Let_def)
qed

theorem match_prefix_star_witness:
  "Match (''mds-'' @ ''*'') ''mds-01'' [] = Inr (\<exists>s. ''mds-01'' = ''mds-'' @ s \<and> CHR ''/'' \<notin> set s)"
proof -
  have "host_prefix ''mds-''" "CHR 0x5C \<notin> set ''mds-''" by code_simp+
  then show ?thesis by (rule match_prefix_star)
qed

end
