(* ===== verification/TopK.thy ===== *)
theory TopK
  imports Prelude
begin

text \<open>
  Model of \<open>internal/registry/stream/topk.go\<close>: the reducer that keeps the \<open>k\<close> highest-scoring items of a
  stream in a bounded min-heap. The heap operations are those of \<open>container/heap\<close> (\<open>up\<close>, \<open>down\<close>, \<open>Init\<close>,
  \<open>Push\<close>, \<open>Fix\<close>) on a slice. The comparison function is the one given to \<open>NewTopK\<close>; the theorems assume
  that it is a strict weak order on the items. An index out of range is the panic \<open>None\<close>.
\<close>

section \<open>Operations\<close>

definition swap :: "'a list \<Rightarrow> nat \<Rightarrow> nat \<Rightarrow> 'a list" where
  "swap xs i j = xs[i := xs ! j, j := xs ! i]"

text \<open>The parent of a node of the heap.\<close>

definition par :: "nat \<Rightarrow> nat" where
  "par j = (j - 1) div 2"

function heap_up :: "('a \<Rightarrow> 'a \<Rightarrow> bool) \<Rightarrow> 'a list \<Rightarrow> nat \<Rightarrow> 'a list" where
  "heap_up lt xs j =
     (let i = par j in
      if j = 0 \<or> \<not> lt (xs ! j) (xs ! i) then xs else heap_up lt (swap xs i j) i)"
  by pat_completeness auto
termination
  by (relation "measure (\<lambda>(lt, xs, j). j)") (auto simp: par_def)

definition min_child :: "('a \<Rightarrow> 'a \<Rightarrow> bool) \<Rightarrow> 'a list \<Rightarrow> nat \<Rightarrow> nat \<Rightarrow> nat" where
  "min_child lt xs i n =
     (let j1 = 2 * i + 1; j2 = j1 + 1 in if j2 < n \<and> lt (xs ! j2) (xs ! j1) then j2 else j1)"

function heap_down :: "('a \<Rightarrow> 'a \<Rightarrow> bool) \<Rightarrow> 'a list \<Rightarrow> nat \<Rightarrow> nat \<Rightarrow> 'a list \<times> nat" where
  "heap_down lt xs i n =
     (if 2 * i + 1 \<ge> n then (xs, i)
      else let j = min_child lt xs i n in
        if \<not> lt (xs ! j) (xs ! i) then (xs, i) else heap_down lt (swap xs i j) j n)"
  by pat_completeness auto
termination
  by (relation "measure (\<lambda>(lt, xs, i, n). n - i)") (auto simp: min_child_def Let_def)

declare heap_up.simps [simp del] heap_down.simps [simp del]

fun heap_init_loop :: "('a \<Rightarrow> 'a \<Rightarrow> bool) \<Rightarrow> 'a list \<Rightarrow> nat \<Rightarrow> 'a list" where
  "heap_init_loop lt xs 0 = xs"
| "heap_init_loop lt xs (Suc i) = heap_init_loop lt (fst (heap_down lt xs i (length xs))) i"

definition heap_Init :: "('a \<Rightarrow> 'a \<Rightarrow> bool) \<Rightarrow> 'a list \<Rightarrow> 'a list" where
  "heap_Init lt xs = heap_init_loop lt xs (length xs div 2)"

definition heap_Push :: "('a \<Rightarrow> 'a \<Rightarrow> bool) \<Rightarrow> 'a list \<Rightarrow> 'a \<Rightarrow> 'a list" where
  "heap_Push lt xs x = heap_up lt (xs @ [x]) (length (xs @ [x]) - 1)"

definition heap_Fix :: "('a \<Rightarrow> 'a \<Rightarrow> bool) \<Rightarrow> 'a list \<Rightarrow> nat \<Rightarrow> 'a list" where
  "heap_Fix lt xs i =
     (let (ys, i') = heap_down lt xs i (length xs) in if i' > i then ys else heap_up lt ys i)"

record 'a topK =
  tk_k :: int
  tk_less :: "'a \<Rightarrow> 'a \<Rightarrow> bool"
  tk_items :: "'a list"

definition NewTopK :: "int \<Rightarrow> ('a \<Rightarrow> 'a \<Rightarrow> bool) \<Rightarrow> 'a topK" where
  "NewTopK k lt = \<lparr>tk_k = k, tk_less = lt, tk_items = heap_Init lt []\<rparr>"

definition tk_Push :: "'a topK \<Rightarrow> 'a \<Rightarrow> 'a topK option" where
  "tk_Push tk item =
     (if int (length (tk_items tk)) < tk_k tk
      then Some (tk\<lparr>tk_items := heap_Push (tk_less tk) (tk_items tk) item\<rparr>)
      else if tk_items tk = [] then None
      else if tk_less tk (tk_items tk ! 0) item
      then Some (tk\<lparr>tk_items := heap_Fix (tk_less tk) ((tk_items tk)[0 := item]) 0\<rparr>)
      else Some tk)"

function sort_inner :: "('a \<Rightarrow> 'a \<Rightarrow> bool) \<Rightarrow> 'a list \<Rightarrow> nat \<Rightarrow> nat \<Rightarrow> 'a list" where
  "sort_inner lt out i j =
     (if j < length out
      then sort_inner lt (if lt (out ! i) (out ! j) then swap out i j else out) i (j + 1) else out)"
  by pat_completeness auto
termination
  by (relation "measure (\<lambda>(lt, out, i, j). length out - j)") (auto simp: swap_def)

declare sort_inner.simps [simp del]

lemma length_swap [simp]: "length (swap xs i j) = length xs"
  by (simp add: swap_def)

lemma length_sort_inner [simp]: "length (sort_inner lt out i j) = length out"
proof (induction lt out i j rule: sort_inner.induct)
  case (1 lt out i j)
  then show ?case by (subst sort_inner.simps) simp
qed

function sort_outer :: "('a \<Rightarrow> 'a \<Rightarrow> bool) \<Rightarrow> 'a list \<Rightarrow> nat \<Rightarrow> 'a list" where
  "sort_outer lt out i =
     (if i < length out then sort_outer lt (sort_inner lt out i (i + 1)) (i + 1) else out)"
  by pat_completeness auto
termination
  by (relation "measure (\<lambda>(lt, out, i). length out - i)") auto

declare sort_outer.simps [simp del]

definition tk_Results :: "'a topK \<Rightarrow> 'a list" where
  "tk_Results tk = sort_outer (tk_less tk) (tk_items tk) 0"

definition tk_Len :: "'a topK \<Rightarrow> nat" where
  "tk_Len tk = length (tk_items tk)"

section \<open>Exchanging two elements\<close>

lemma mset_swap_eq [simp]: "i < length xs \<Longrightarrow> j < length xs \<Longrightarrow> mset (swap xs i j) = mset xs"
  unfolding swap_def by (rule mset_swap)

lemma set_swap [simp]: "i < length xs \<Longrightarrow> j < length xs \<Longrightarrow> set (swap xs i j) = set xs"
  by (rule mset_eq_setD) simp

lemma nth_swap:
  "i < length xs \<Longrightarrow> j < length xs \<Longrightarrow> k < length xs \<Longrightarrow>
   swap xs i j ! k = (if k = j then xs ! i else if k = i then xs ! j else xs ! k)"
  by (auto simp: swap_def)

lemma par_less: "0 < j \<Longrightarrow> par j < j"
  by (auto simp: par_def)

lemma par_child: "0 < k \<Longrightarrow> par k = i \<longleftrightarrow> k = 2 * i + 1 \<or> k = 2 * i + 2"
  by (auto simp: par_def)

section \<open>The heap invariant\<close>

definition heap_ok :: "('a \<Rightarrow> 'a \<Rightarrow> bool) \<Rightarrow> 'a list \<Rightarrow> bool" where [inv_defs]:
  "heap_ok lt xs \<longleftrightarrow> (\<forall>k. 0 < k \<and> k < length xs \<longrightarrow> \<not> lt (xs ! k) (xs ! par k))"

lemma heap_root_least:
  assumes "weak_order_on (set xs) lt" "heap_ok lt xs" "k < length xs"
  shows "\<not> lt (xs ! k) (xs ! 0)"
  using assms(3)
proof (induction k rule: less_induct)
  case (less k)
  show ?case
  proof (cases "k = 0")
    case True
    then show ?thesis using weak_order_onD(1) [OF assms(1), of "xs ! 0" "xs ! 0"] less.prems by auto
  next
    case False
    have p: "par k < k" using False by (simp add: par_less)
    then have "\<not> lt (xs ! par k) (xs ! 0)" using less by auto
    moreover have "\<not> lt (xs ! k) (xs ! par k)" using assms(2) False less.prems by (simp add: heap_ok_def)
    moreover have "xs ! 0 \<in> set xs" "xs ! k \<in> set xs" "xs ! par k \<in> set xs"
      using less.prems p by (auto intro!: nth_mem)
    ultimately show ?thesis using weak_order_onD(2) [OF assms(1)] by blast
  qed
qed

text \<open>
  Sifting up: the heap condition holds everywhere but at \<open>j\<close>, and the children of \<open>j\<close> are not below the
  parent of \<open>j\<close>.
\<close>

lemma heap_up_correct:
  assumes "weak_order_on (set xs) lt" "j < length xs"
    and "\<And>k. 0 < k \<Longrightarrow> k < length xs \<Longrightarrow> k \<noteq> j \<Longrightarrow> \<not> lt (xs ! k) (xs ! par k)"
    and "\<And>k. 0 < k \<Longrightarrow> k < length xs \<Longrightarrow> par k = j \<Longrightarrow> 0 < j \<Longrightarrow> \<not> lt (xs ! k) (xs ! par j)"
  shows "heap_ok lt (heap_up lt xs j) \<and> mset (heap_up lt xs j) = mset xs"
  using assms
proof (induction lt xs j rule: heap_up.induct)
  case (1 lt xs j)
  define i where "i = par j"
  show ?case
  proof (cases "j = 0 \<or> \<not> lt (xs ! j) (xs ! i)")
    case True
    then have "heap_up lt xs j = xs" by (subst heap_up.simps) (simp add: i_def Let_def)
    moreover have "heap_ok lt xs"
      unfolding heap_ok_def using True "1.prems"(3) i_def by (metis less_irrefl)
    ultimately show ?thesis by simp
  next
    case False
    then have j: "0 < j" "lt (xs ! j) (xs ! i)" by auto
    have ij: "i < j" "i < length xs" using par_less [OF j(1)] "1.prems"(2) by (simp_all add: i_def)
    have eq: "heap_up lt xs j = heap_up lt (swap xs i j) i"
      using False by (subst heap_up.simps) (simp add: i_def Let_def)
    define ys where "ys = swap xs i j"
    have set: "set ys = set xs" "length ys = length xs" "mset ys = mset xs"
      using ij "1.prems"(2) by (simp_all add: ys_def)
    have y: "ys ! k = (if k = j then xs ! i else if k = i then xs ! j else xs ! k)" if "k < length xs" for k
      using that ij "1.prems"(2) by (simp add: ys_def nth_swap)
    note wo = weak_order_onD [OF "1.prems"(1)]
    have mem: "k < length xs \<Longrightarrow> xs ! k \<in> set xs" for k by simp
    have asym: "\<not> lt (xs ! i) (xs ! j)" using wo(1) mem j(2) ij "1.prems"(2) by blast
    have ord: "\<not> lt (ys ! k) (ys ! par k)" if k: "0 < k" "k < length xs" "k \<noteq> i" for k
    proof -
      have pk: "par k < length xs" using par_less [OF k(1)] k(2) by simp
      consider (j) "k = j" | (sib) "k \<noteq> j" "par k = i" | (child) "k \<noteq> j" "par k = j"
        | (other) "k \<noteq> j" "par k \<noteq> i" "par k \<noteq> j" by blast
      then show ?thesis
      proof cases
        case j
        then show ?thesis using y [OF k(2)] y [OF pk] asym ij by (simp add: i_def)
      next
        case sib
        have "\<not> lt (xs ! k) (xs ! i)" using "1.prems"(3) [OF k(1,2) sib(1)] sib by simp
        then have "\<not> lt (xs ! k) (xs ! j)"
          using wo(2) [OF mem mem mem, of j i k] asym k ij "1.prems"(2) by blast
        then show ?thesis using y [OF k(2)] y [OF pk] sib k(3) ij by simp
      next
        case child
        then show ?thesis using y [OF k(2)] y [OF pk] "1.prems"(4) [OF k(1,2) child(2) j(1)] k(3) by (simp add: i_def)
      next
        case other
        then show ?thesis using y [OF k(2)] y [OF pk] "1.prems"(3) [OF k(1,2)] k(3) by simp
      qed
    qed
    have up: "\<not> lt (ys ! k) (ys ! par i)" if k: "0 < k" "k < length xs" "par k = i" "0 < i" for k
    proof -
      have pi: "par i < i" using par_less [OF k(4)] .
      then have p: "par i < length xs" "par i \<noteq> i" "par i \<noteq> j" using ij by auto
      have iok: "\<not> lt (xs ! i) (xs ! par i)" using "1.prems"(3) [OF k(4) ij(2)] ij by simp
      show ?thesis
      proof (cases "k = j")
        case True
        then show ?thesis using y [OF k(2)] y [OF p(1)] p iok by simp
      next
        case False
        then have "\<not> lt (xs ! k) (xs ! i)" using "1.prems"(3) [OF k(1,2)] k(3) by simp
        then have "\<not> lt (xs ! k) (xs ! par i)"
          using wo(2) [OF mem mem mem, of "par i" i k] iok k p ij by blast
        moreover have "k \<noteq> i" using k par_less [of k] by auto
        ultimately show ?thesis using y [OF k(2)] y [OF p(1)] p False by simp
      qed
    qed
    have "heap_ok lt (heap_up lt ys i) \<and> mset (heap_up lt ys i) = mset ys"
      unfolding ys_def i_def
    proof (rule "1.IH" [OF refl])
      show "\<not> (j = 0 \<or> \<not> lt (xs ! j) (xs ! par j))" using False by (simp add: i_def)
      show "weak_order_on (set (swap xs (par j) j)) lt" using "1.prems"(1) set by (simp add: ys_def i_def)
    qed (use ij ord up set(2) in \<open>auto simp: ys_def i_def\<close>)
    then show ?thesis unfolding eq using set(3) by (simp add: ys_def)
  qed
qed

text \<open>
  Sifting down: the heap condition holds everywhere but at the children of \<open>i\<close>, and these are not
  below the parent of \<open>i\<close>.
\<close>

lemma min_child_facts:
  assumes "2 * i + 1 < n"
  shows "min_child lt xs i n < n" "par (min_child lt xs i n) = i" "i < min_child lt xs i n"
  using assms by (auto simp: min_child_def Let_def par_def)

lemma min_child_least:
  assumes "weak_order_on (set xs) lt" "0 < k" "k < length xs" "par k = i"
  shows "\<not> lt (xs ! k) (xs ! min_child lt xs i (length xs))"
proof -
  have k: "k = 2 * i + 1 \<or> k = 2 * i + 2" using assms(2,4) by (simp add: par_child)
  note wo = weak_order_onD(1) [OF assms(1)]
  have irr: "\<not> lt (xs ! k) (xs ! k)" using wo [of "xs ! k" "xs ! k"] assms(3) by auto
  have "\<not> lt (xs ! (2 * i + 1)) (xs ! (2 * i + 2))"
    if "2 * i + 2 < length xs" "lt (xs ! (2 * i + 2)) (xs ! (2 * i + 1))"
    using wo [of "xs ! (2 * i + 2)" "xs ! (2 * i + 1)"] that by auto
  then show ?thesis using k irr assms(3) by (auto simp: min_child_def Let_def)
qed

lemma heap_down_correct:
  assumes "weak_order_on (set xs) lt" "i < length xs" "n = length xs"
    and "\<And>k. 0 < k \<Longrightarrow> k < length xs \<Longrightarrow> par k \<noteq> i \<Longrightarrow> \<not> lt (xs ! k) (xs ! par k)"
    and "\<And>k. 0 < k \<Longrightarrow> k < length xs \<Longrightarrow> par k = i \<Longrightarrow> 0 < i \<Longrightarrow> \<not> lt (xs ! k) (xs ! par i)"
  shows "heap_ok lt (fst (heap_down lt xs i n)) \<and> mset (fst (heap_down lt xs i n)) = mset xs"
  using assms
proof (induction lt xs i n rule: heap_down.induct)
  case (1 lt xs i n)
  define j where "j = min_child lt xs i n"
  note wo = weak_order_onD [OF "1.prems"(1)]
  have mem: "k < length xs \<Longrightarrow> xs ! k \<in> set xs" for k by simp
  show ?case
  proof (cases "n \<le> 2 * i + 1 \<or> \<not> lt (xs ! j) (xs ! i)")
    case True
    then have eq: "heap_down lt xs i n = (xs, i)" by (subst heap_down.simps) (auto simp: j_def Let_def)
    have "\<not> lt (xs ! k) (xs ! i)" if k: "0 < k" "k < length xs" "par k = i" for k
    proof -
      have n: "2 * i + 1 < n" using k "1.prems"(3) par_child [of k i] by auto
      then have "\<not> lt (xs ! j) (xs ! i)" using True by simp
      moreover have "\<not> lt (xs ! k) (xs ! j)"
        using min_child_least [OF "1.prems"(1) k] "1.prems"(3) by (simp add: j_def)
      moreover have "j < length xs" using min_child_facts(1) [OF n] "1.prems"(3) by (simp add: j_def)
      ultimately show ?thesis using wo(2) [OF mem mem mem, of i j k] k(2) "1.prems"(2) by blast
    qed
    then have "heap_ok lt xs" unfolding heap_ok_def using "1.prems"(4) by blast
    then show ?thesis by (simp add: eq)
  next
    case False
    then have n: "\<not> n \<le> 2 * i + 1" "2 * i + 1 < length xs" and lt: "lt (xs ! j) (xs ! i)" using "1.prems"(3) by auto
    have j: "j < length xs" "par j = i" "i < j"
      using min_child_facts [of i n lt xs] n "1.prems"(3) by (simp_all add: j_def)
    have eq: "heap_down lt xs i n = heap_down lt (swap xs i j) j n"
      using n lt by (subst heap_down.simps) (simp add: j_def Let_def)
    define ys where "ys = swap xs i j"
    have set: "set ys = set xs" "length ys = length xs" "mset ys = mset xs"
      using j by (simp_all add: ys_def)
    have y: "ys ! k = (if k = j then xs ! i else if k = i then xs ! j else xs ! k)" if "k < length xs" for k
      using that j by (simp add: ys_def nth_swap)
    have ord: "\<not> lt (ys ! k) (ys ! par k)" if k: "0 < k" "k < length xs" "par k \<noteq> j" for k
    proof -
      have pk: "par k < length xs" "par k \<noteq> k" using par_less [OF k(1)] k(2) by simp_all
      consider (top) "k = i" | (j) "k = j" | (sib) "k \<noteq> i" "k \<noteq> j" "par k = i" | (other) "k \<noteq> i" "k \<noteq> j" "par k \<noteq> i"
        by blast
      then show ?thesis
      proof cases
        case top
        then show ?thesis
          using y [OF k(2)] y [OF pk(1)] "1.prems"(5) [of j] j k pk by auto
      next
        case j'': j
        then have "\<not> lt (xs ! i) (xs ! j)" using wo(1) mem j lt by (metis less_trans)
        then show ?thesis using y [OF k(2)] y [OF pk(1)] j'' j by simp
      next
        case sib
        then have "\<not> lt (xs ! k) (xs ! j)"
          using min_child_least [OF "1.prems"(1) k(1,2)] "1.prems"(3) by (simp add: j_def)
        then show ?thesis using y [OF k(2)] y [OF pk(1)] sib j by simp
      next
        case other
        then show ?thesis using y [OF k(2)] y [OF pk(1)] "1.prems"(4) [OF k(1,2)] k(3) by simp
      qed
    qed
    have up: "\<not> lt (ys ! k) (ys ! par j)" if k: "0 < k" "k < length xs" "par k = j" for k
    proof -
      have "k \<noteq> i" "k \<noteq> j" using k par_less [of k] j by auto
      moreover have "\<not> lt (xs ! k) (xs ! j)" using "1.prems"(4) [OF k(1,2)] k(3) j by simp
      ultimately show ?thesis using y [OF k(2)] y [of i] j by simp
    qed
    have "heap_ok lt (fst (heap_down lt ys j n)) \<and> mset (fst (heap_down lt ys j n)) = mset ys"
      unfolding ys_def j_def
    proof (rule "1.IH" [OF n(1) refl])
      show "\<not> \<not> lt (xs ! min_child lt xs i n) (xs ! i)" using lt by (simp add: j_def)
      show "weak_order_on (set (swap xs i (min_child lt xs i n))) lt" using "1.prems"(1) set by (simp add: ys_def j_def)
    qed (use j ord up set(2) "1.prems"(3) in \<open>auto simp: ys_def j_def\<close>)
    then show ?thesis unfolding eq using set(3) by (simp add: ys_def)
  qed
qed

section \<open>The heap operations\<close>

lemma heap_Init_Nil [simp]: "heap_Init lt [] = []"
  by (simp add: heap_Init_def)

lemma heap_Push_correct:
  assumes "weak_order_on (insert x (set xs)) lt" "heap_ok lt xs"
  shows "heap_ok lt (heap_Push lt xs x) \<and> mset (heap_Push lt xs x) = add_mset x (mset xs)"
proof -
  have "heap_ok lt (heap_up lt (xs @ [x]) (length xs)) \<and> mset (heap_up lt (xs @ [x]) (length xs)) = mset (xs @ [x])"
  proof (rule heap_up_correct)
    show "weak_order_on (set (xs @ [x])) lt" using assms(1) by simp
    fix k assume k: "0 < k" "k < length (xs @ [x])"
    show "\<not> lt ((xs @ [x]) ! k) ((xs @ [x]) ! par k)" if "k \<noteq> length xs"
      using that k par_less [OF k(1)] assms(2) by (simp add: heap_ok_def nth_append)
    show "\<not> lt ((xs @ [x]) ! k) ((xs @ [x]) ! par (length xs))" if "par k = length xs"
      using that k par_less [OF k(1)] by simp
  qed simp
  then show ?thesis by (simp add: heap_Push_def)
qed

lemma heap_Fix_root:
  assumes "weak_order_on (insert x (set xs)) lt" "heap_ok lt xs" "xs \<noteq> []"
  shows "heap_ok lt (heap_Fix lt (xs[0 := x]) 0) \<and>
    mset (heap_Fix lt (xs[0 := x]) 0) = add_mset x (mset xs - {#xs ! 0#})"
proof -
  define ys where "ys = xs[0 := x]"
  obtain zs i' where d: "heap_down lt ys 0 (length ys) = (zs, i')" by fastforce
  have "heap_ok lt (fst (heap_down lt ys 0 (length ys))) \<and> mset (fst (heap_down lt ys 0 (length ys))) = mset ys"
  proof (rule heap_down_correct)
    show "weak_order_on (set ys) lt"
      using assms(1) by (rule weak_order_on_subset) (auto simp: ys_def dest: set_update_subset_insert [THEN subsetD])
    show "0 < length ys" using assms(3) by (simp add: ys_def)
    fix k assume k: "0 < k" "k < length ys" "par k \<noteq> 0"
    then show "\<not> lt (ys ! k) (ys ! par k)" using assms(2) by (simp add: ys_def heap_ok_def)
  qed simp_all
  moreover have "heap_Fix lt ys 0 = zs"
    using d by (simp add: heap_Fix_def heap_up.simps [of _ _ 0])
  moreover have "mset ys = add_mset x (mset xs - {#xs ! 0#})"
    using assms(3) by (simp add: ys_def mset_update)
  ultimately show ?thesis using d by (simp add: ys_def)
qed

section \<open>Sorting the results\<close>

lemma sort_inner_correct:
  assumes "weak_order_on (set out) lt" "i < j" "i < length out"
    and "\<forall>m. i < m \<and> m < j \<and> m < length out \<longrightarrow> \<not> lt (out ! i) (out ! m)"
  shows "mset (sort_inner lt out i j) = mset out \<and> take i (sort_inner lt out i j) = take i out \<and>
    (\<forall>m. i < m \<and> m < length out \<longrightarrow> \<not> lt (sort_inner lt out i j ! i) (sort_inner lt out i j ! m))"
  using assms
proof (induction lt out i j rule: sort_inner.induct)
  case (1 lt out i j)
  show ?case
  proof (cases "j < length out")
    case False
    then have "sort_inner lt out i j = out" by (subst sort_inner.simps) simp
    with False "1.prems" show ?thesis by auto
  next
    case True
    note wo = weak_order_onD [OF "1.prems"(1)]
    have mem: "k < length out \<Longrightarrow> out ! k \<in> set out" for k by simp
    define out' where "out' = (if lt (out ! i) (out ! j) then swap out i j else out)"
    have o: "mset out' = mset out" "set out' = set out" "length out' = length out" "take i out' = take i out"
      using True "1.prems"(2,3) by (simp_all add: out'_def swap_def [of out i j] mset_swap_eq [unfolded swap_def]
          set_swap [unfolded swap_def])
    have eq: "sort_inner lt out i j = sort_inner lt out' i (j + 1)"
      using True by (subst sort_inner.simps) (simp add: out'_def)
    have "\<not> lt (out' ! i) (out' ! m)" if m: "i < m" "m < j + 1" "m < length out'" for m
    proof (cases "lt (out ! i) (out ! j)")
      case False
      then show ?thesis using m "1.prems"(4) by (cases "m = j") (auto simp: out'_def)
    next
      case lt: True
      have y: "out' ! i = out ! j" "m \<noteq> j \<Longrightarrow> out' ! m = out ! m" "out' ! j = out ! i"
        using lt True "1.prems"(2,3) m o(3) by (simp_all add: out'_def nth_swap)
      have asym: "\<not> lt (out ! j) (out ! i)" using wo(1) mem lt True "1.prems"(3) by blast
      show ?thesis
      proof (cases "m = j")
        case True
        then show ?thesis using y asym by simp
      next
        case False
        then have "\<not> lt (out ! i) (out ! m)" using "1.prems"(4) m o(3) by auto
        then have "\<not> lt (out ! j) (out ! m)"
          using wo(2) [OF mem mem mem, of m i j] asym m o(3) True "1.prems"(3) by simp
        then show ?thesis using y False by simp
      qed
    qed
    then have all: "\<forall>m. i < m \<and> m < j + 1 \<and> m < length out' \<longrightarrow> \<not> lt (out' ! i) (out' ! m)" by blast
    have wo': "weak_order_on (set out') lt" "i < j + 1" "i < length out'" using "1.prems" o by simp_all
    show ?thesis
      using "1.IH" [OF True, folded out'_def, OF wo' all] o unfolding eq by simp
  qed
qed

lemma sort_outer_correct:
  assumes "weak_order_on (set out) lt" "sorted_wrt (\<lambda>a b. \<not> lt a b) (take i out)"
    and "\<forall>a\<in>set (take i out). \<forall>b\<in>set (drop i out). \<not> lt a b"
  shows "mset (sort_outer lt out i) = mset out \<and> sorted_wrt (\<lambda>a b. \<not> lt a b) (sort_outer lt out i)"
  using assms
proof (induction lt out i rule: sort_outer.induct)
  case (1 lt out i)
  show ?case
  proof (cases "i < length out")
    case False
    then have "sort_outer lt out i = out" by (subst sort_outer.simps) simp
    with False "1.prems"(2) show ?thesis by simp
  next
    case True
    define out' where "out' = sort_inner lt out i (i + 1)"
    have none: "\<forall>m. i < m \<and> m < i + 1 \<and> m < length out \<longrightarrow> \<not> lt (out ! i) (out ! m)" by auto
    have s: "mset out' = mset out" "take i out' = take i out" "length out' = length out"
      "\<And>m. i < m \<Longrightarrow> m < length out \<Longrightarrow> \<not> lt (out' ! i) (out' ! m)"
      using sort_inner_correct [OF "1.prems"(1) _ True none] by (simp_all add: out'_def)
    have set: "set out' = set out" using s(1) by (rule mset_eq_setD)
    have "mset (drop i out') = mset (drop i out)"
      using s(1,2) by (metis append_take_drop_id mset_append add_left_cancel)
    then have dr: "set (drop i out') = set (drop i out)" by (rule mset_eq_setD)
    have t: "take (Suc i) out' = take i out @ [out' ! i]" using True s(2,3) by (simp add: take_Suc_conv_app_nth)
    have mem: "out' ! i \<in> set (drop i out')" using True s(3) by (simp add: Cons_nth_drop_Suc [symmetric])
    have dc: "drop i out' = out' ! i # drop (Suc i) out'" using True s(3) by (simp add: Cons_nth_drop_Suc)
    have rest: "b \<in> set (drop i out') \<and> \<not> lt (out' ! i) b" if b: "b \<in> set (drop (Suc i) out')" for b
    proof -
      obtain n where n: "n < length (drop (Suc i) out')" "b = drop (Suc i) out' ! n"
        using b by (auto simp: in_set_conv_nth)
      then have "b = out' ! (Suc i + n)" "Suc i + n < length out" using s(3) by auto
      then have "\<not> lt (out' ! i) b" using s(4) [of "Suc i + n"] by simp
      then show ?thesis using b dc by simp
    qed
    have so: "sorted_wrt (\<lambda>a b. \<not> lt a b) (take (Suc i) out')"
      unfolding t using "1.prems"(2,3) mem dr by (auto simp: sorted_wrt_append)
    have low: "\<forall>a\<in>set (take (Suc i) out'). \<forall>b\<in>set (drop (Suc i) out'). \<not> lt a b"
      unfolding t using "1.prems"(3) rest dr by auto
    have eq: "sort_outer lt out i = sort_outer lt out' (i + 1)"
      using True by (subst sort_outer.simps) (simp add: out'_def)
    show ?thesis
      unfolding eq using "1.IH" [OF True, folded out'_def] "1.prems"(1) so low set s(1) by simp
  qed
qed

section \<open>The reducer keeps the k greatest items\<close>

fun tk_run :: "'a topK \<Rightarrow> 'a list \<Rightarrow> 'a topK option" where
  "tk_run tk [] = Some tk"
| "tk_run tk (x # xs) = (case tk_Push tk x of None \<Rightarrow> None | Some tk' \<Rightarrow> tk_run tk' xs)"

text \<open>
  \<open>pushed\<close> is what has been pushed so far, \<open>gone\<close> what was discarded or evicted: nothing kept is below
  anything that is gone, and something is gone only if the reducer is full.
\<close>

definition tk_inv :: "'a topK \<Rightarrow> 'a multiset \<Rightarrow> 'a multiset \<Rightarrow> bool" where [inv_defs]:
  "tk_inv tk pushed gone \<longleftrightarrow>
     heap_ok (tk_less tk) (tk_items tk) \<and> mset (tk_items tk) + gone = pushed \<and>
     int (length (tk_items tk)) \<le> tk_k tk \<and> (gone \<noteq> {#} \<longrightarrow> int (length (tk_items tk)) = tk_k tk) \<and>
     (\<forall>d\<in>#gone. \<forall>x\<in>set (tk_items tk). \<not> tk_less tk x d)"

lemma tk_Push_inv:
  assumes wo: "weak_order_on (insert x (set_mset pushed)) (tk_less tk)"
    and inv: "tk_inv tk pushed gone" and k: "0 < tk_k tk"
  shows "\<exists>tk' gone'. tk_Push tk x = Some tk' \<and> tk_inv tk' (add_mset x pushed) gone' \<and>
    tk_less tk' = tk_less tk \<and> tk_k tk' = tk_k tk"
proof -
  define lt where "lt = tk_less tk"
  define xs where "xs = tk_items tk"
  have i: "heap_ok lt xs" "mset xs + gone = pushed" "int (length xs) \<le> tk_k tk"
    "gone \<noteq> {#} \<Longrightarrow> int (length xs) = tk_k tk" "\<And>d y. d \<in># gone \<Longrightarrow> y \<in> set xs \<Longrightarrow> \<not> lt y d"
    using inv by (auto simp: tk_inv_def lt_def xs_def)
  have sub: "set xs \<subseteq> set_mset pushed" "set_mset gone \<subseteq> set_mset pushed" using i(2) by auto
  have wx: "weak_order_on (insert x (set xs)) lt"
    unfolding lt_def by (rule weak_order_on_subset [OF wo]) (use sub(1) in auto)
  note w = weak_order_onD [OF wo, folded lt_def]
  show ?thesis
  proof (cases "int (length xs) < tk_k tk")
    case True
    then have "gone = {#}" using i(4) by force
    then show ?thesis
      using True heap_Push_correct [OF wx i(1)] i(2) size_mset [of "heap_Push lt xs x"]
      by (intro exI [of _ "tk\<lparr>tk_items := heap_Push lt xs x\<rparr>"] exI [of _ "{#}"])
        (auto simp: tk_Push_def tk_inv_def lt_def xs_def simp flip: size_mset)
  next
    case full: False
    then have len: "int (length xs) = tk_k tk" and ne: "xs \<noteq> []" using i(3) k by auto
    define m where "m = xs ! 0"
    have m: "m \<in> set xs" "m \<in># pushed" using ne sub(1) by (auto simp: m_def)
    have least: "\<not> lt y m" if y: "y \<in> set xs" for y
    proof -
      obtain j where "j < length xs" "xs ! j = y" using y by (auto simp: in_set_conv_nth)
      then show ?thesis
        using heap_root_least [OF weak_order_on_subset [OF wx] i(1), of j] by (auto simp: m_def)
    qed
    show ?thesis
    proof (cases "lt m x")
      case True
      define ys where "ys = heap_Fix lt (xs[0 := x]) 0"
      have ys: "heap_ok lt ys" "mset ys = add_mset x (mset xs - {#m#})"
        using heap_Fix_root [OF wx i(1) ne] by (simp_all add: ys_def m_def)
      have "length ys = length xs" using ys(2) m(1) by (metis size_mset size_add_mset size_Diff_singleton Suc_pred' set_mset_mset length_pos_if_in_set)
      moreover have "set ys \<subseteq> insert x (set xs)" using ys(2) by (metis set_mset_mset set_mset_add_mset_insert insert_mono in_diffD subsetI)
      moreover have "mset ys + add_mset m gone = add_mset x pushed"
        using ys(2) i(2) m(1) by (simp add: multi_member_split insert_DiffM flip: i(2))
      moreover have "\<not> lt y d" if "d \<in># add_mset m gone" "y \<in> set ys" for d y
      proof -
        have "\<not> lt x m" using w(1) [of m x] True m(2) by simp
        moreover have "\<not> lt x d" if "d \<in># gone"
        proof -
          have "\<not> lt m d" using i(5) that m(1) by blast
          then show ?thesis using w(2) [of d m x] \<open>\<not> lt x m\<close> m(2) that sub(2) by auto
        qed
        ultimately show ?thesis
          using that \<open>set ys \<subseteq> insert x (set xs)\<close> least i(5) by auto
      qed
      ultimately show ?thesis
        using full ne True ys(1) len
        by (intro exI [of _ "tk\<lparr>tk_items := ys\<rparr>"] exI [of _ "add_mset m gone"])
          (auto simp: tk_Push_def tk_inv_def lt_def xs_def ys_def m_def)
    next
      case False
      have "\<not> lt y x" if "y \<in> set xs" for y
        using w(2) [of x m y] False least [OF that] m(2) that sub(1) by auto
      then show ?thesis
        using full ne False i len
        by (intro exI [of _ tk] exI [of _ "add_mset x gone"])
          (auto simp: tk_Push_def tk_inv_def lt_def xs_def m_def)
    qed
  qed
qed

lemma tk_run_inv:
  assumes "weak_order_on (set_mset pushed \<union> set xs) (tk_less tk)" "tk_inv tk pushed gone" "0 < tk_k tk"
  shows "\<exists>tk' gone'. tk_run tk xs = Some tk' \<and> tk_inv tk' (pushed + mset xs) gone' \<and>
    tk_less tk' = tk_less tk \<and> tk_k tk' = tk_k tk"
  using assms
proof (induction xs arbitrary: tk pushed gone)
  case (Cons x xs)
  have "weak_order_on (insert x (set_mset pushed)) (tk_less tk)"
    using Cons.prems(1) by (rule weak_order_on_subset) auto
  from tk_Push_inv [OF this Cons.prems(2,3)] obtain tk' gone' where
    p: "tk_Push tk x = Some tk'" "tk_inv tk' (add_mset x pushed) gone'" "tk_less tk' = tk_less tk" "tk_k tk' = tk_k tk"
    by blast
  then show ?case using Cons.IH [of "add_mset x pushed" tk' gone'] Cons.prems(1,3) by simp
qed auto

text \<open>
  Property C17. \<open>TopK\<close> returns the \<open>k\<close> greatest items of any stream: for a positive \<open>k\<close> and a comparison that
  is a strict weak order on the items, pushing them never panics, \<open>Results\<close> has \<open>k\<close> items (all of them
  when there are fewer), sorted from the greatest down, the items of the stream are exactly the
  results and the discarded ones, and no result is below a discarded item.
\<close>

theorem topk_keeps_greatest:
  assumes "0 < k" "weak_order_on (set xs) lt"
  shows "\<exists>tk gone. tk_run (NewTopK k lt) xs = Some tk \<and> mset (tk_Results tk) + gone = mset xs \<and>
    length (tk_Results tk) = min (nat k) (length xs) \<and>
    sorted_wrt (\<lambda>a b. \<not> lt a b) (tk_Results tk) \<and>
    (\<forall>d\<in>#gone. \<forall>x\<in>set (tk_Results tk). \<not> lt x d)"
proof -
  have new: "tk_inv (NewTopK k lt) {#} {#}" "tk_less (NewTopK k lt) = lt" "tk_k (NewTopK k lt) = k"
    using assms(1) by (simp_all add: tk_inv_def NewTopK_def heap_ok_def)
  obtain tk gone where tk: "tk_run (NewTopK k lt) xs = Some tk" "tk_inv tk (mset xs) gone" "tk_less tk = lt" "tk_k tk = k"
    using tk_run_inv [of "{#}" xs "NewTopK k lt" "{#}"] new assms by auto
  have i: "mset (tk_items tk) + gone = mset xs" "int (length (tk_items tk)) \<le> k"
    "gone \<noteq> {#} \<Longrightarrow> int (length (tk_items tk)) = k" "\<forall>d\<in>#gone. \<forall>x\<in>set (tk_items tk). \<not> lt x d"
    using tk by (auto simp: tk_inv_def)
  have "set (tk_items tk) \<subseteq> set xs" using i(1) by (metis mset_subset_eq_add_left set_mset_mono set_mset_mset)
  then have "weak_order_on (set (tk_items tk)) lt" by (rule weak_order_on_subset [OF assms(2)])
  from sort_outer_correct [OF this, of 0]
  have r: "mset (tk_Results tk) = mset (tk_items tk)" "sorted_wrt (\<lambda>a b. \<not> lt a b) (tk_Results tk)"
    using tk(3) by (simp_all add: tk_Results_def)
  have "length (tk_Results tk) = length (tk_items tk)" "set (tk_Results tk) = set (tk_items tk)"
    using r(1) by (metis size_mset, metis set_mset_mset)
  moreover have "length (tk_items tk) + size gone = length xs" using i(1) by (metis size_mset size_union)
  ultimately show ?thesis
    using tk(1) r i by (intro exI [of _ tk] exI [of _ gone]) (cases "gone = {#}"; auto)
qed

theorem topk_keeps_greatest_witness:
  "\<exists>tk gone. tk_run (NewTopK 2 (\<lambda>a b. a < (b::nat))) [3, 1, 4, 1, 5] = Some tk \<and>
     mset (tk_Results tk) + gone = {#3, 1, 4, 1, 5#} \<and> length (tk_Results tk) = 2"
proof -
  have k: "(0::int) < 2" by simp
  have w: "weak_order_on (set [3, 1, 4, 1, 5]) (\<lambda>a b. a < (b::nat))" by (auto simp: weak_order_on_def)
  from topk_keeps_greatest [OF k w] show ?thesis by (fastforce simp: numeral_2_eq_2)
qed

text \<open>A capacity that is not positive makes the first push read an element of an empty heap.\<close>

lemma topk_nonpositive_panics: "k \<le> 0 \<Longrightarrow> tk_Push (NewTopK k lt) x = None"
  by (simp add: tk_Push_def NewTopK_def)

end
