(* ===== verification/Streams.thy ===== *)
theory Streams
  imports Prelude
begin

text \<open>
  Model of the stream reducers of \<open>internal/registry/stream\<close> except the heap of \<open>topk.go\<close>: the ring buffer,
  the threshold emitter, the deduplicator and the group-by aggregator. Each reducer is a record of
  the fields of its Go struct; a method that changes the receiver returns the changed record. A panic
  is \<open>None\<close>. The deduplicator and the aggregator both evict their oldest key when they are full; what
  follows from that is proved once in the locale \<open>fifo_keys\<close> and interpreted on both.
\<close>

section \<open>Ring buffer\<close>

record 'a ringBuffer =
  rb_items :: "'a list"
  rb_cap :: nat
  rb_head :: nat
  rb_full :: bool

text \<open>\<open>zero\<close> is the zero value of the element type, with which Go fills the new slice.\<close>

definition NewRingBuffer :: "'a \<Rightarrow> int \<Rightarrow> 'a ringBuffer option" where
  "NewRingBuffer zero cap =
     (if cap \<le> 0 then None
      else Some \<lparr>rb_items = replicate (nat cap) zero, rb_cap = nat cap, rb_head = 0, rb_full = False\<rparr>)"

definition rb_Push :: "'a ringBuffer \<Rightarrow> 'a \<Rightarrow> 'a ringBuffer" where
  "rb_Push rb item =
     (let items = (rb_items rb)[rb_head rb := item];
          head = (rb_head rb + 1) mod rb_cap rb;
          full = (if head = 0 \<and> \<not> rb_full rb then True else rb_full rb)
      in rb\<lparr>rb_items := items, rb_head := head, rb_full := full\<rparr>)"

definition rb_Len :: "'a ringBuffer \<Rightarrow> nat" where
  "rb_Len rb = (if rb_full rb then rb_cap rb else rb_head rb)"

text \<open>The two \<open>copy\<close> calls of the full case fill the new slice one after the other.\<close>

definition rb_Snapshot :: "'a ringBuffer \<Rightarrow> 'a list" where
  "rb_Snapshot rb =
     (if rb_full rb then drop (rb_head rb) (rb_items rb) @ take (rb_head rb) (rb_items rb)
      else take (rb_head rb) (rb_items rb))"

definition rb_Latest :: "'a ringBuffer \<Rightarrow> 'a option" where
  "rb_Latest rb =
     (if rb_Len rb = 0 then None
      else Some (rb_items rb ! ((rb_head rb + rb_cap rb - 1) mod rb_cap rb)))"

definition rb_inv :: "'a ringBuffer \<Rightarrow> bool" where [inv_defs]:
  "rb_inv rb \<longleftrightarrow> 0 < rb_cap rb \<and> length (rb_items rb) = rb_cap rb \<and> rb_head rb < rb_cap rb"

text \<open>The contract: a list of the last \<open>n\<close> pushed items.\<close>

definition bounded_push :: "nat \<Rightarrow> 'a list \<Rightarrow> 'a \<Rightarrow> 'a list" where
  "bounded_push n xs x = (if length xs < n then xs @ [x] else tl xs @ [x])"

lemma rb_Push_inv [inv_intros]: "rb_inv rb \<Longrightarrow> rb_inv (rb_Push rb x)"
  by (simp add: rb_inv_def rb_Push_def Let_def)

lemma length_rb_Snapshot: "rb_inv rb \<Longrightarrow> length (rb_Snapshot rb) = rb_Len rb"
  by (auto simp: rb_inv_def rb_Snapshot_def rb_Len_def)

lemma rb_Push_refines:
  assumes "rb_inv rb"
  shows "rb_Snapshot (rb_Push rb x) = bounded_push (rb_cap rb) (rb_Snapshot rb) x"
proof -
  define h where "h = rb_head rb"
  define items where "items = rb_items rb"
  have h: "h < rb_cap rb" "length items = rb_cap rb" using assms by (simp_all add: rb_inv_def h_def items_def)
  have upd: "items[h := x] = take h items @ x # drop (Suc h) items"
    using h by (simp add: upd_conv_take_nth_drop)
  have dr: "drop h items \<noteq> []" "tl (drop h items) = drop (Suc h) items" using h by (simp_all add: drop_Suc drop_tl)
  show ?thesis
  proof (cases "Suc h = rb_cap rb")
    case True
    then have "drop (Suc h) items = []" using h by simp
    then show ?thesis
      using True upd dr h
      by (simp add: rb_Snapshot_def rb_Push_def bounded_push_def Let_def h_def [symmetric] items_def [symmetric])
  next
    case False
    then have m: "Suc h mod rb_cap rb = Suc h" using h by simp
    have "take (Suc h) (items[h := x]) = take h items @ [x]" "drop (Suc h) (items[h := x]) = drop (Suc h) items"
      unfolding upd using h by simp_all
    then show ?thesis
      using False m dr h
      by (simp add: rb_Snapshot_def rb_Push_def bounded_push_def Let_def h_def [symmetric] items_def [symmetric])
  qed
qed

lemma rb_Push_cap [simp]: "rb_cap (rb_Push rb x) = rb_cap rb"
  by (simp add: rb_Push_def Let_def)

lemma bounded_push_list: "xs \<noteq> [] \<Longrightarrow> length xs \<le> n \<Longrightarrow> length (bounded_push n xs x) \<le> n"
  by (auto simp: bounded_push_def)

lemma bounded_push_last:
  "0 < n \<Longrightarrow> bounded_push n (drop (length xs - n) xs) x = drop (length (xs @ [x]) - n) (xs @ [x])"
  by (auto simp: bounded_push_def drop_Suc [symmetric] tl_drop Suc_diff_le)

text \<open>
  The ring buffer refines the list of the last pushed items: after any sequence of pushes
  into a new buffer of capacity \<open>cap\<close>, \<open>Snapshot\<close> returns the last \<open>cap\<close> items in the order they were
  pushed (all of them when there are fewer), \<open>Len\<close> is their number and \<open>Latest\<close> the last one.
\<close>

theorem ring_keeps_last_items:
  assumes "NewRingBuffer zero cap = Some rb0"
  shows "let rb = foldl rb_Push rb0 xs in
    rb_Snapshot rb = drop (length xs - nat cap) xs \<and> rb_Len rb = min (length xs) (nat cap) \<and>
    rb_Latest rb = (if xs = [] then None else Some (last xs))"
proof -
  have new: "0 < nat cap" "rb_inv rb0" "rb_Snapshot rb0 = []" "rb_cap rb0 = nat cap"
    using assms by (auto simp: NewRingBuffer_def rb_inv_def rb_Snapshot_def split: if_splits)
  have ind: "rb_inv (foldl rb_Push rb0 xs) \<and> rb_cap (foldl rb_Push rb0 xs) = nat cap \<and>
    rb_Snapshot (foldl rb_Push rb0 xs) = drop (length xs - nat cap) xs"
  proof (induction xs rule: rev_induct)
    case (snoc x xs)
    then show ?case
      using rb_Push_refines [of "foldl rb_Push rb0 xs" x] bounded_push_last [OF new(1), of xs x]
      by (simp add: inv_intros)
  qed (use new in simp)
  define rb where "rb = foldl rb_Push rb0 xs"
  have rb: "rb_inv rb" "rb_cap rb = nat cap" "rb_Snapshot rb = drop (length xs - nat cap) xs"
    using ind by (simp_all add: rb_def)
  have len: "rb_Len rb = min (length xs) (nat cap)"
    using length_rb_Snapshot [OF rb(1)] rb(3) by auto
  have "rb_Latest rb = (if xs = [] then None else Some (last xs))"
  proof (cases "xs = []")
    case True
    then show ?thesis using len by (simp add: rb_Latest_def)
  next
    case False
    then obtain ys y where xs: "xs = ys @ [y]" by (metis append_butlast_last_id)
    define rb' where "rb' = foldl rb_Push rb0 ys"
    have "rb_inv rb'" "rb = rb_Push rb' y"
    proof -
      have "rb_inv (foldl rb_Push r ys)" if "rb_inv r" for r
        using that by (induction ys arbitrary: r) (auto intro: inv_intros)
      then show "rb_inv rb'" using new(2) by (simp add: rb'_def)
      show "rb = rb_Push rb' y" by (simp add: rb_def rb'_def xs)
    qed
    note r = this
    have h: "rb_head rb' < rb_cap rb'" "length (rb_items rb') = rb_cap rb'" using r(1) by (simp_all add: rb_inv_def)
    have "(rb_head rb + rb_cap rb - 1) mod rb_cap rb = rb_head rb'"
      using h by (cases "Suc (rb_head rb') = rb_cap rb'") (auto simp: r(2) rb_Push_def Let_def)
    then have "rb_items rb ! ((rb_head rb + rb_cap rb - 1) mod rb_cap rb) = y"
      using h by (simp add: r(2) rb_Push_def Let_def)
    then show ?thesis using len xs new(1) by (simp add: rb_Latest_def)
  qed
  then show ?thesis using rb len by (simp add: rb_def Let_def)
qed

theorem ring_keeps_last_items_witness:
  "\<exists>rb0. NewRingBuffer (0::nat) 2 = Some rb0 \<and> rb_Snapshot (foldl rb_Push rb0 [1, 2, 3]) = [2, 3] \<and>
     rb_Latest (foldl rb_Push rb0 [1, 2, 3]) = Some 3"
proof -
  define rb0 :: "nat ringBuffer" where "rb0 = \<lparr>rb_items = [0, 0], rb_cap = 2, rb_head = 0, rb_full = False\<rparr>"
  have n: "NewRingBuffer (0::nat) 2 = Some rb0" by (simp add: NewRingBuffer_def rb0_def numeral_2_eq_2)
  from ring_keeps_last_items [OF n, of "[1, 2, 3]"] n show ?thesis by (simp add: Let_def)
qed

section \<open>Threshold emitter\<close>

datatype severity = SeverityOK | SeverityWarning | SeverityCritical

instantiation severity :: linorder
begin

fun sev_rank :: "severity \<Rightarrow> nat" where
  "sev_rank SeverityOK = 0"
| "sev_rank SeverityWarning = 1"
| "sev_rank SeverityCritical = 2"

definition less_eq_severity :: "severity \<Rightarrow> severity \<Rightarrow> bool" where
  "less_eq_severity a b \<longleftrightarrow> sev_rank a \<le> sev_rank b"

definition less_severity :: "severity \<Rightarrow> severity \<Rightarrow> bool" where
  "less_severity a b \<longleftrightarrow> sev_rank a < sev_rank b"

instance
proof
  fix a b :: severity
  show "a \<le> b \<Longrightarrow> b \<le> a \<Longrightarrow> a = b"
    by (cases a; cases b) (simp_all add: less_eq_severity_def)
qed (auto simp: less_eq_severity_def less_severity_def)

end

record thresholdEmitter =
  te_warn :: f64
  te_critical :: f64
  te_totalSeen :: int
  te_totalWarning :: int
  te_totalCritical :: int

record thresholdResult =
  tr_value :: f64
  tr_severity :: severity

record thresholdStats =
  ts_totalSeen :: int
  ts_totalOK :: int
  ts_totalWarning :: int
  ts_totalCritical :: int

text \<open>\<open>a >= b\<close> on \<open>float64\<close>.\<close>

definition fge :: "f64 \<Rightarrow> f64 \<Rightarrow> bool" where
  "fge a b \<longleftrightarrow> flt b a \<or> feq a b"

definition NewThresholdEmitter :: "f64 \<Rightarrow> f64 \<Rightarrow> thresholdEmitter" where
  "NewThresholdEmitter warn0 critical0 =
     (let (warn, critical) = (if flt critical0 warn0 then (critical0, warn0) else (warn0, critical0))
      in \<lparr>te_warn = warn, te_critical = critical, te_totalSeen = 0, te_totalWarning = 0, te_totalCritical = 0\<rparr>)"

definition te_Evaluate :: "thresholdEmitter \<Rightarrow> f64 \<Rightarrow> thresholdResult \<times> thresholdEmitter" where
  "te_Evaluate te0 value =
     (let te = te0\<lparr>te_totalSeen := te_totalSeen te0 + 1\<rparr> in
      if fge value (te_critical te)
      then (\<lparr>tr_value = value, tr_severity = SeverityCritical\<rparr>, te\<lparr>te_totalCritical := te_totalCritical te + 1\<rparr>)
      else if fge value (te_warn te)
      then (\<lparr>tr_value = value, tr_severity = SeverityWarning\<rparr>, te\<lparr>te_totalWarning := te_totalWarning te + 1\<rparr>)
      else (\<lparr>tr_value = value, tr_severity = SeverityOK\<rparr>, te))"

definition te_Stats :: "thresholdEmitter \<Rightarrow> thresholdStats" where
  "te_Stats te =
     \<lparr>ts_totalSeen = te_totalSeen te,
      ts_totalOK = te_totalSeen te - te_totalWarning te - te_totalCritical te,
      ts_totalWarning = te_totalWarning te, ts_totalCritical = te_totalCritical te\<rparr>"

text \<open>Evaluating a stream: the severities in order and the emitter at the end.\<close>

fun te_run :: "thresholdEmitter \<Rightarrow> f64 list \<Rightarrow> severity list \<times> thresholdEmitter" where
  "te_run te [] = ([], te)"
| "te_run te (v # vs) =
     (let (r, te') = te_Evaluate te v; (rs, te'') = te_run te' vs in (tr_severity r # rs, te''))"

definition severity_of :: "f64 \<Rightarrow> f64 \<Rightarrow> f64 \<Rightarrow> severity" where
  "severity_of warn crit v =
     (if fge v crit then SeverityCritical else if fge v warn then SeverityWarning else SeverityOK)"

lemma te_Evaluate_severity:
  "tr_severity (fst (te_Evaluate te v)) = severity_of (te_warn te) (te_critical te) v"
  "te_warn (snd (te_Evaluate te v)) = te_warn te" "te_critical (snd (te_Evaluate te v)) = te_critical te"
  by (simp_all add: te_Evaluate_def severity_of_def Let_def)

lemma te_Evaluate_stats:
  "te_Stats (snd (te_Evaluate te v)) =
     (let s = te_Stats te; x = severity_of (te_warn te) (te_critical te) v; d = (\<lambda>y. if x = y then 1 else 0)
      in \<lparr>ts_totalSeen = ts_totalSeen s + 1, ts_totalOK = ts_totalOK s + d SeverityOK,
          ts_totalWarning = ts_totalWarning s + d SeverityWarning,
          ts_totalCritical = ts_totalCritical s + d SeverityCritical\<rparr>)"
  by (auto simp: te_Evaluate_def te_Stats_def severity_of_def Let_def)

lemma te_run_spec:
  "fst (te_run te vs) = map (severity_of (te_warn te) (te_critical te)) vs \<and>
   te_Stats (snd (te_run te vs)) =
     (let s = te_Stats te; c = (\<lambda>x. int (length (filter (\<lambda>v. severity_of (te_warn te) (te_critical te) v = x) vs)))
      in \<lparr>ts_totalSeen = ts_totalSeen s + int (length vs), ts_totalOK = ts_totalOK s + c SeverityOK,
          ts_totalWarning = ts_totalWarning s + c SeverityWarning,
          ts_totalCritical = ts_totalCritical s + c SeverityCritical\<rparr>)"
proof (induction vs arbitrary: te)
  case Nil
  then show ?case by (simp add: te_Stats_def Let_def)
next
  case (Cons v vs)
  obtain r te' where e: "te_Evaluate te v = (r, te')" by fastforce
  obtain rs te'' where r: "te_run te' vs = (rs, te'')" by fastforce
  have w: "te_warn te' = te_warn te" "te_critical te' = te_critical te"
    using te_Evaluate_severity(2,3) [of te v] e by simp_all
  have "tr_severity r = severity_of (te_warn te) (te_critical te) v"
    using te_Evaluate_severity(1) [of te v] e by simp
  moreover note st = te_Evaluate_stats [of te v, unfolded e snd_conv]
  ultimately show ?case
    using Cons.IH [of te'] e r w by (auto simp: st Let_def)
qed

lemma fge_trans: "fge c b \<Longrightarrow> fge b a \<Longrightarrow> fge c a"
  by (cases a; cases b; cases c) (auto simp: fge_def feq_def)

lemma new_thresholds_ordered:
  "warn \<noteq> NaN \<Longrightarrow> crit \<noteq> NaN \<Longrightarrow>
   fge (te_critical (NewThresholdEmitter warn crit)) (te_warn (NewThresholdEmitter warn crit))"
  using flt_total [of warn crit] by (auto simp: NewThresholdEmitter_def fge_def feq_def)

text \<open>
  The threshold emitter classifies monotonically and counts exactly: for thresholds that are
  numbers, given in either order, a value that is at least another one never gets a lower severity, and
  after a stream of values \<open>Stats\<close> reports the length of the stream and the number of values of each
  severity.
\<close>

theorem threshold_monotone_and_counted:
  assumes "warn \<noteq> NaN" "crit \<noteq> NaN" "te_run (NewThresholdEmitter warn crit) vs = (sevs, te)"
  shows "(\<forall>i < length vs. \<forall>j < length vs. fge (vs ! j) (vs ! i) \<longrightarrow> sevs ! i \<le> sevs ! j) \<and>
    ts_totalSeen (te_Stats te) = int (length vs) \<and>
    ts_totalOK (te_Stats te) = int (count_list sevs SeverityOK) \<and>
    ts_totalWarning (te_Stats te) = int (count_list sevs SeverityWarning) \<and>
    ts_totalCritical (te_Stats te) = int (count_list sevs SeverityCritical)"
proof -
  define te0 where "te0 = NewThresholdEmitter warn crit"
  define sev where "sev = severity_of (te_warn te0) (te_critical te0)"
  have s: "sevs = map sev vs" "te_Stats te0 = \<lparr>ts_totalSeen = 0, ts_totalOK = 0, ts_totalWarning = 0, ts_totalCritical = 0\<rparr>"
    using te_run_spec [of te0 vs] assms(3)
    by (simp_all add: te0_def sev_def te_Stats_def NewThresholdEmitter_def Let_def split: prod.splits if_splits)
  have cnt: "count_list (map sev vs) x = length (filter (\<lambda>v. sev v = x) vs)" for x
    by (induction vs) auto
  have mono: "sev a \<le> sev b" if "fge b a" for a b
  proof -
    have "fge a (te_critical te0) \<Longrightarrow> fge b (te_critical te0)" "fge a (te_warn te0) \<Longrightarrow> fge b (te_warn te0)"
      using that fge_trans by blast+
    moreover have "fge a (te_critical te0) \<Longrightarrow> fge a (te_warn te0)"
      using new_thresholds_ordered [OF assms(1,2)] fge_trans te0_def by blast
    ultimately show ?thesis by (auto simp: sev_def severity_of_def less_eq_severity_def)
  qed
  have "te_Stats te = \<lparr>ts_totalSeen = int (length vs), ts_totalOK = int (length (filter (\<lambda>v. sev v = SeverityOK) vs)),
      ts_totalWarning = int (length (filter (\<lambda>v. sev v = SeverityWarning) vs)),
      ts_totalCritical = int (length (filter (\<lambda>v. sev v = SeverityCritical) vs))\<rparr>"
    using te_run_spec [of te0 vs] assms(3) s(2) by (simp add: te0_def sev_def Let_def)
  then show ?thesis using mono cnt by (simp add: s(1))
qed

theorem threshold_monotone_and_counted_witness:
  "\<exists>sevs te. te_run (NewThresholdEmitter (Num 95) (Num 90)) [Num 91, NaN, Num 96, Num 1] = (sevs, te) \<and>
     sevs = [SeverityWarning, SeverityOK, SeverityCritical, SeverityOK] \<and> sevs ! 0 \<le> sevs ! 2 \<and>
     ts_totalWarning (te_Stats te) = int (count_list sevs SeverityWarning)"
proof -
  obtain sevs te where r: "te_run (NewThresholdEmitter (Num 95) (Num 90)) [Num 91, NaN, Num 96, Num 1] = (sevs, te)"
    by fastforce
  have t: "Num 95 \<noteq> NaN" "Num 90 \<noteq> NaN" by simp_all
  have "sevs = [SeverityWarning, SeverityOK, SeverityCritical, SeverityOK]"
    using r by (auto simp: NewThresholdEmitter_def te_Evaluate_def fge_def feq_def Let_def)
  then show ?thesis
    using threshold_monotone_and_counted [OF t r] r by (auto simp: less_eq_severity_def)
qed

section \<open>Keys evicted in insertion order\<close>

text \<open>
  What the deduplicator and the aggregator share: a list of tracked keys, oldest first, to which a new
  key is appended after the oldest was dropped if the store is full; a tracked key changes nothing.
\<close>

locale fifo_keys =
  fixes sinv :: "'s \<Rightarrow> bool" and keys :: "'s \<Rightarrow> 'k list" and cap :: "'s \<Rightarrow> nat"
    and key :: "'x \<Rightarrow> 'k" and touch :: "'s \<Rightarrow> 'x \<Rightarrow> 's"
  assumes inv_touch: "sinv s \<Longrightarrow> sinv (touch s x)"
    and cap_touch: "sinv s \<Longrightarrow> cap (touch s x) = cap s"
    and cap_pos: "sinv s \<Longrightarrow> 0 < cap s"
    and keys_touch: "sinv s \<Longrightarrow> keys (touch s x) =
      (if key x \<in> set (keys s) then keys s
       else (if length (keys s) \<ge> cap s then tl (keys s) else keys s) @ [key x])"
begin

lemma run_inv: "sinv s \<Longrightarrow> sinv (foldl touch s xs) \<and> cap (foldl touch s xs) = cap s"
  by (induction xs arbitrary: s) (simp_all add: inv_touch cap_touch)

lemma run_bounded:
  "sinv s \<Longrightarrow> distinct (keys s) \<Longrightarrow> length (keys s) \<le> cap s \<Longrightarrow>
   distinct (keys (foldl touch s xs)) \<and> length (keys (foldl touch s xs)) \<le> cap s"
proof (induction xs arbitrary: s)
  case (Cons x xs)
  have "set (tl (keys s)) \<subseteq> set (keys s)" by (cases "keys s") auto
  then have "distinct (keys (touch s x))" "length (keys (touch s x)) \<le> cap (touch s x)"
    using Cons.prems cap_pos [OF Cons.prems(1)]
    by (auto simp: keys_touch cap_touch distinct_tl)
  then show ?case
    using Cons.IH [OF inv_touch [OF Cons.prems(1)]] by (simp add: cap_touch [OF Cons.prems(1)])
qed simp

text \<open>A key survives as long as fewer than \<open>cap\<close> keys have been appended after it.\<close>

lemma survives:
  "sinv s \<Longrightarrow> keys s = pre @ k # post \<Longrightarrow> length post + length xs < cap s \<Longrightarrow>
   k \<in> set (keys (foldl touch s xs))"
proof (induction xs arbitrary: s pre post)
  case (Cons x xs)
  have "\<exists>pre' post'. keys (touch s x) = pre' @ k # post' \<and> length post' \<le> Suc (length post)"
  proof (cases "key x \<in> set (keys s)")
    case True
    then have "keys (touch s x) = pre @ k # post" using Cons.prems by (simp add: keys_touch)
    then show ?thesis by (intro exI [of _ pre] exI [of _ post]) simp
  next
    case False
    have "length (keys s) \<ge> cap s \<Longrightarrow> pre \<noteq> []" using Cons.prems(2,3) by auto
    then have "keys (touch s x) = (if length (keys s) \<ge> cap s then tl pre else pre) @ k # post @ [key x]"
      using False Cons.prems by (cases pre) (auto simp: keys_touch)
    then show ?thesis by (metis length_append_singleton order_refl)
  qed
  then obtain pre' post' where p: "keys (touch s x) = pre' @ k # post'" "length post' \<le> Suc (length post)" by blast
  show ?case
    using Cons.IH [OF inv_touch [OF Cons.prems(1)] p(1)] p(2) Cons.prems(3)
    by (simp add: cap_touch [OF Cons.prems(1)])
qed simp

lemma fresh_survives:
  "sinv s \<Longrightarrow> key x \<notin> set (keys s) \<Longrightarrow> length xs < cap s \<Longrightarrow> key x \<in> set (keys (foldl touch (touch s x) xs))"
  by (rule survives [where post = "[]"]) (auto simp: inv_touch cap_touch keys_touch)

text \<open>Every tracked key was there at the start or has been touched.\<close>

lemma run_keys_sub: "sinv s \<Longrightarrow> set (keys (foldl touch s xs)) \<subseteq> set (keys s) \<union> key ` set xs"
proof (induction xs arbitrary: s)
  case (Cons x xs)
  have "set (tl (keys s)) \<subseteq> set (keys s)" by (cases "keys s") auto
  then have "set (keys (touch s x)) \<subseteq> set (keys s) \<union> {key x}"
    using Cons.prems by (auto simp: keys_touch)
  then show ?case using Cons.IH [OF inv_touch [OF Cons.prems]] by auto
qed simp

text \<open>Nothing is evicted while all keys fit.\<close>

lemma run_keys_all:
  "sinv s \<Longrightarrow> distinct (keys s) \<Longrightarrow> card (set (keys s) \<union> key ` set xs) \<le> cap s \<Longrightarrow>
   set (keys (foldl touch s xs)) = set (keys s) \<union> key ` set xs"
proof (induction xs arbitrary: s)
  case (Cons x xs)
  have keys: "set (keys (touch s x)) = insert (key x) (set (keys s)) \<and> distinct (keys (touch s x))"
  proof (cases "key x \<in> set (keys s)")
    case False
    have "Suc (length (keys s)) = card (insert (key x) (set (keys s)))"
      using False Cons.prems(2) by (simp add: distinct_card)
    also have "\<dots> \<le> card (set (keys s) \<union> key ` set (x # xs))" by (rule card_mono) auto
    finally show ?thesis using False Cons.prems by (simp add: keys_touch)
  qed (use Cons.prems in \<open>auto simp: keys_touch\<close>)
  then show ?case
    using Cons.IH [OF inv_touch [OF Cons.prems(1)]] Cons.prems by (simp add: cap_touch)
qed simp

end

section \<open>Deduplicator\<close>

record dedup =
  dd_seen :: "64 word set"
  dd_order :: "64 word list"
  dd_cap :: nat

definition NewDedup :: "int \<Rightarrow> dedup option" where
  "NewDedup cap =
     (if cap \<le> 0 then None else Some \<lparr>dd_seen = {}, dd_order = [], dd_cap = nat cap\<rparr>)"

text \<open>The 64-bit FNV-1a hash of \<open>hash/fnv\<close>.\<close>

definition fnv_step :: "64 word \<Rightarrow> char \<Rightarrow> 64 word" where
  "fnv_step h c = xor h (of_char c) * 1099511628211"

definition hashFNV :: "bytes \<Rightarrow> 64 word" where
  "hashFNV d = foldl fnv_step 14695981039346656037 d"

definition isDuplicateHash :: "dedup \<Rightarrow> 64 word \<Rightarrow> bool \<times> dedup" where
  "isDuplicateHash d h =
     (if h \<in> dd_seen d then (True, d)
      else let d' = (if length (dd_order d) \<ge> dd_cap d
                     then d\<lparr>dd_order := tl (dd_order d), dd_seen := dd_seen d - {hd (dd_order d)}\<rparr>
                     else d)
           in (False, d'\<lparr>dd_seen := insert h (dd_seen d'), dd_order := dd_order d' @ [h]\<rparr>))"

definition IsDuplicate :: "dedup \<Rightarrow> bytes \<Rightarrow> bool \<times> dedup" where
  "IsDuplicate d dat = isDuplicateHash d (hashFNV dat)"

definition dd_Len :: "dedup \<Rightarrow> nat" where
  "dd_Len d = card (dd_seen d)"

definition dd_Reset :: "dedup \<Rightarrow> dedup" where
  "dd_Reset d = d\<lparr>dd_seen := {}, dd_order := []\<rparr>"

definition dd_inv :: "dedup \<Rightarrow> bool" where [inv_defs]:
  "dd_inv d \<longleftrightarrow> 0 < dd_cap d \<and> dd_seen d = set (dd_order d) \<and> distinct (dd_order d) \<and>
     length (dd_order d) \<le> dd_cap d"

abbreviation dd_step :: "dedup \<Rightarrow> bytes \<Rightarrow> dedup" where
  "dd_step d x \<equiv> snd (IsDuplicate d x)"

lemma dd_step_inv [inv_intros]: "dd_inv d \<Longrightarrow> dd_inv (dd_step d x)"
  by (cases "dd_order d") (auto simp: dd_inv_def IsDuplicate_def isDuplicateHash_def Let_def)

interpretation dd: fifo_keys dd_inv dd_order dd_cap hashFNV dd_step
proof
  fix d :: dedup and x assume inv: "dd_inv d"
  show "dd_inv (dd_step d x)" using inv by (rule inv_intros)
  show "dd_cap (dd_step d x) = dd_cap d" by (simp add: IsDuplicate_def isDuplicateHash_def Let_def)
  show "0 < dd_cap d" using inv by (simp add: dd_inv_def)
  show "dd_order (dd_step d x) =
    (if hashFNV x \<in> set (dd_order d) then dd_order d
     else (if dd_cap d \<le> length (dd_order d) then tl (dd_order d) else dd_order d) @ [hashFNV x])"
    using inv by (auto simp: dd_inv_def IsDuplicate_def isDuplicateHash_def Let_def)
qed

text \<open>
  The deduplicator forgets only in insertion order. After any history of calls on a new
  deduplicator it tracks at most \<open>cap\<close> signatures; it calls a record a duplicate only if an earlier record
  had the same hash; and a record it called new is called a duplicate again as long as fewer than \<open>cap\<close>
  calls were made in between.
\<close>

theorem dedup_window:
  assumes "NewDedup cap = Some d0" "d = foldl dd_step d0 hist"
  shows "dd_Len d \<le> nat cap \<and>
    (fst (IsDuplicate d x) \<longrightarrow> (\<exists>y\<in>set hist. hashFNV y = hashFNV x)) \<and>
    (\<not> fst (IsDuplicate d x) \<and> length later < nat cap \<longrightarrow>
       fst (IsDuplicate (foldl dd_step (dd_step d x) later) x))"
proof -
  have new: "dd_inv d0" "dd_order d0 = []" "dd_cap d0 = nat cap"
    using assms(1) by (auto simp: NewDedup_def dd_inv_def split: if_splits)
  have d: "dd_inv d" "dd_cap d = nat cap" "set (dd_order d) \<subseteq> hashFNV ` set hist"
    using dd.run_inv [OF new(1), of hist] dd.run_keys_sub [OF new(1), of hist] new assms(2) by simp_all
  have dup: "fst (IsDuplicate e y) \<longleftrightarrow> hashFNV y \<in> set (dd_order e)" if "dd_inv e" for e y
    using that by (simp add: IsDuplicate_def isDuplicateHash_def dd_inv_def Let_def)
  have "dd_Len d \<le> nat cap"
    using d(1,2) by (simp add: dd_Len_def dd_inv_def distinct_card)
  moreover have "fst (IsDuplicate (foldl dd_step (dd_step d x) later) x)"
    if "\<not> fst (IsDuplicate d x)" "length later < nat cap"
    using dd.fresh_survives [OF d(1), of x later] that dup d dd.run_inv [OF dd_step_inv [OF d(1), of x], of later]
    by simp
  moreover have "\<exists>y\<in>set hist. hashFNV y = hashFNV x" if "fst (IsDuplicate d x)"
    using that dup [OF d(1), of x] d(3) by (metis imageE subsetD)
  ultimately show ?thesis by blast
qed

theorem dedup_window_witness:
  "\<exists>d0. NewDedup 2 = Some d0 \<and>
     (let d = foldl dd_step d0 [''a''] in \<not> fst (IsDuplicate d ''b'') \<longrightarrow>
        fst (IsDuplicate (foldl dd_step (dd_step d ''b'') [''a'']) ''b''))"
proof -
  obtain d0 where n: "NewDedup 2 = Some d0" by (simp add: NewDedup_def)
  from dedup_window [OF n refl, of "[''a'']" "''b''" "[''a'']"] n show ?thesis by (auto simp: Let_def)
qed

section \<open>Aggregator\<close>

record groupStats =
  gs_count :: int
  gs_sum :: f64
  gs_min :: f64
  gs_max :: f64

record aggregator =
  ag_groups :: "string \<rightharpoonup> groupStats"
  ag_order :: "string list"
  ag_maxGroups :: nat

fun fdiv_int :: "f64 \<Rightarrow> int \<Rightarrow> f64" where
  "fdiv_int (Num x) n = Num (x / real_of_int n)"
| "fdiv_int NaN n = NaN"
| "fdiv_int PosInf n = (if n < 0 then NegInf else PosInf)"
| "fdiv_int NegInf n = (if n < 0 then PosInf else NegInf)"

definition gs_Avg :: "groupStats \<Rightarrow> f64" where
  "gs_Avg gs = (if gs_count gs = 0 then Num 0 else fdiv_int (gs_sum gs) (gs_count gs))"

definition NewAggregator :: "int \<Rightarrow> aggregator option" where
  "NewAggregator maxGroups =
     (if maxGroups \<le> 0 then None
      else Some \<lparr>ag_groups = Map.empty, ag_order = [], ag_maxGroups = nat maxGroups\<rparr>)"

definition gs_update :: "groupStats \<Rightarrow> f64 \<Rightarrow> groupStats" where
  "gs_update gs value =
     \<lparr>gs_count = gs_count gs + 1, gs_sum = fadd (gs_sum gs) value,
      gs_min = (if flt value (gs_min gs) then value else gs_min gs),
      gs_max = (if flt (gs_max gs) value then value else gs_max gs)\<rparr>"

definition ag_Add :: "aggregator \<Rightarrow> string \<times> f64 \<Rightarrow> aggregator" where
  "ag_Add a rec =
     (let (key, value) = rec in
      case ag_groups a key of
        Some gs \<Rightarrow> a\<lparr>ag_groups := (ag_groups a)(key \<mapsto> gs_update gs value)\<rparr>
      | None \<Rightarrow>
          (let a' = (if card (dom (ag_groups a)) \<ge> ag_maxGroups a
                     then a\<lparr>ag_order := tl (ag_order a), ag_groups := (ag_groups a)(hd (ag_order a) := None)\<rparr>
                     else a);
               gs = \<lparr>gs_count = 0, gs_sum = Num 0, gs_min = value, gs_max = value\<rparr>
           in a'\<lparr>ag_groups := (ag_groups a')(key \<mapsto> gs_update gs value), ag_order := ag_order a' @ [key]\<rparr>))"

definition ag_Get :: "aggregator \<Rightarrow> string \<Rightarrow> groupStats option" where
  "ag_Get a key = ag_groups a key"

definition ag_Groups :: "aggregator \<Rightarrow> nat" where
  "ag_Groups a = card (dom (ag_groups a))"

definition ag_All :: "aggregator \<Rightarrow> string \<rightharpoonup> groupStats" where
  "ag_All a = (\<lambda>k. map_option (\<lambda>v. v) (ag_groups a k))"

definition ag_inv :: "aggregator \<Rightarrow> bool" where [inv_defs]:
  "ag_inv a \<longleftrightarrow> 0 < ag_maxGroups a \<and> dom (ag_groups a) = set (ag_order a) \<and> distinct (ag_order a) \<and>
     length (ag_order a) \<le> ag_maxGroups a"

lemma ag_card: "ag_inv a \<Longrightarrow> card (dom (ag_groups a)) = length (ag_order a)"
  by (simp add: ag_inv_def distinct_card)

lemma ag_Add_inv [inv_intros]:
  assumes "ag_inv a"
  shows "ag_inv (ag_Add a (key, value))"
proof (cases "ag_groups a key")
  case None
  then have "key \<notin> set (ag_order a)" using assms by (auto simp: ag_inv_def)
  with None show ?thesis
    using assms ag_card [OF assms]
    by (cases "ag_order a") (auto simp: ag_Add_def ag_inv_def Let_def)
next
  case (Some gs)
  then show ?thesis using assms by (auto simp: ag_Add_def ag_inv_def)
qed

interpretation ag: fifo_keys ag_inv ag_order ag_maxGroups fst ag_Add
proof
  fix a :: aggregator and x :: "string \<times> f64" assume inv: "ag_inv a"
  obtain k v where x: "x = (k, v)" by (cases x)
  show "ag_inv (ag_Add a x)" using inv by (simp add: x inv_intros)
  show "ag_maxGroups (ag_Add a x) = ag_maxGroups a"
    by (simp add: ag_Add_def x Let_def split: option.splits)
  show "0 < ag_maxGroups a" using inv by (simp add: ag_inv_def)
  have "k \<in> set (ag_order a) \<longleftrightarrow> ag_groups a k \<noteq> None" using inv by (auto simp: ag_inv_def)
  then show "ag_order (ag_Add a x) =
    (if fst x \<in> set (ag_order a) then ag_order a
     else (if ag_maxGroups a \<le> length (ag_order a) then tl (ag_order a) else ag_order a) @ [fst x])"
    by (auto simp: ag_Add_def x Let_def ag_card [OF inv] split: option.splits)
qed

text \<open>What the statistics of a group say about the values it was given.\<close>

definition gs_of :: "real list \<Rightarrow> groupStats" where
  "gs_of vs = \<lparr>gs_count = int (length vs), gs_sum = Num (sum_list vs),
     gs_min = Num (Min (set vs)), gs_max = Num (Max (set vs))\<rparr>"

lemma gs_update_of:
  assumes "vs \<noteq> []"
  shows "gs_update (gs_of vs) (Num v) = gs_of (vs @ [v])"
proof -
  have m: "Min (set (vs @ [v])) = min v (Min (set vs))" "Max (set (vs @ [v])) = max v (Max (set vs))"
    using assms by simp_all
  define lo where "lo = Min (set vs)"
  define hi where "hi = Max (set vs)"
  show ?thesis
    unfolding gs_update_def gs_of_def m lo_def [symmetric] hi_def [symmetric]
    by (simp add: min_def max_def)
qed

lemma gs_update_first:
  "gs_update \<lparr>gs_count = 0, gs_sum = Num 0, gs_min = Num v, gs_max = Num v\<rparr> (Num v) = gs_of [v]"
  by (simp add: gs_update_def gs_of_def)

definition values_of :: "(string \<times> real) list \<Rightarrow> string \<Rightarrow> real list" where
  "values_of recs k = map snd (filter (\<lambda>r. fst r = k) recs)"

abbreviation ag_run :: "aggregator \<Rightarrow> (string \<times> real) list \<Rightarrow> aggregator" where
  "ag_run a recs \<equiv> foldl ag_Add a (map (\<lambda>(k, v). (k, Num v)) recs)"

lemma ag_run_exact:
  assumes "ag_inv a" "ag_groups a = Map.empty" "card (fst ` set recs) \<le> ag_maxGroups a"
  shows "ag_groups (ag_run a recs) k =
    (if values_of recs k = [] then None else Some (gs_of (values_of recs k)))"
  using assms(3)
proof (induction recs arbitrary: k rule: rev_induct)
  case Nil
  then show ?case using assms(2) by (simp add: values_of_def)
next
  case (snoc r recs)
  obtain key v where r: "r = (key, v)" by (cases r)
  have sub: "card (fst ` set recs) \<le> ag_maxGroups a"
    using snoc.prems card_mono [of "fst ` set (recs @ [r])" "fst ` set recs"] by fastforce
  note ih = snoc.IH [OF sub]
  define b where "b = ag_run a recs"
  have b: "ag_inv b" "ag_maxGroups b = ag_maxGroups a"
    using ag.run_inv [OF assms(1)] by (simp_all add: b_def)
  have vals: "values_of (recs @ [r]) k = values_of recs k @ (if key = k then [v] else [])" for k
    by (simp add: values_of_def r)
  have groups: "ag_groups b k = (if values_of recs k = [] then None else Some (gs_of (values_of recs k)))" for k
    using ih by (simp add: b_def)
  have run: "ag_run a (recs @ [r]) = ag_Add b (key, Num v)" by (simp add: b_def r)
  show ?case
  proof (cases "ag_groups b key")
    case (Some gs)
    then have "values_of recs key \<noteq> []" "gs = gs_of (values_of recs key)" using groups [of key] by (auto split: if_splits)
    then show ?thesis unfolding run using Some groups [of k] by (simp add: ag_Add_def vals gs_update_of)
  next
    case None
    have dom: "dom (ag_groups b) = fst ` set recs"
      using groups by (force simp: dom_def values_of_def filter_empty_conv)
    have "values_of recs key = []" using None groups [of key] by (auto split: if_splits)
    then have "key \<notin> fst ` set recs" by (auto simp: values_of_def filter_empty_conv)
    then have "Suc (card (fst ` set recs)) = card (fst ` set (recs @ [r]))" by (simp add: r)
    then have "\<not> card (dom (ag_groups b)) \<ge> ag_maxGroups b" using snoc.prems dom b(2) by simp
    then show ?thesis
      unfolding run using None groups [of k] \<open>values_of recs key = []\<close>
      by (simp add: ag_Add_def vals gs_update_first)
  qed
qed

text \<open>
  While the number of distinct keys stays within \<open>maxGroups\<close> the aggregator is exact: for every
  key, \<open>Get\<close> returns nothing if no record had the key, and otherwise the number, the sum, the least and
  the greatest of its values. In every case it tracks at most \<open>maxGroups\<close> groups.
\<close>

theorem aggregator_exact:
  assumes "NewAggregator maxGroups = Some a0" "card (fst ` set recs) \<le> nat maxGroups"
  shows "ag_Get (ag_run a0 recs) k =
      (let vs = map snd (filter (\<lambda>r. fst r = k) recs) in
       if vs = [] then None
       else Some \<lparr>gs_count = int (length vs), gs_sum = Num (sum_list vs),
                  gs_min = Num (Min (set vs)), gs_max = Num (Max (set vs))\<rparr>) \<and>
    ag_Groups (foldl ag_Add a0 any) \<le> nat maxGroups"
proof -
  have new: "ag_inv a0" "ag_groups a0 = Map.empty" "ag_order a0 = []" "ag_maxGroups a0 = nat maxGroups"
    using assms(1) by (auto simp: NewAggregator_def ag_inv_def split: if_splits)
  have "ag_inv (foldl ag_Add a0 any)" "ag_maxGroups (foldl ag_Add a0 any) = nat maxGroups"
    using ag.run_inv [OF new(1), of any] new by simp_all
  then have "ag_Groups (foldl ag_Add a0 any) \<le> nat maxGroups"
    by (simp add: ag_Groups_def ag_card) (simp add: ag_inv_def)
  then show ?thesis
    using ag_run_exact [OF new(1,2), of recs k] assms(2) new(4)
    by (simp add: ag_Get_def values_of_def gs_of_def Let_def)
qed

theorem aggregator_exact_witness:
  "\<exists>a0. NewAggregator 1 = Some a0 \<and>
     ag_Get (ag_run a0 [(''oss1'', 42), (''oss1'', 58)]) ''oss1'' =
       Some \<lparr>gs_count = 2, gs_sum = Num 100, gs_min = Num 42, gs_max = Num 58\<rparr> \<and>
     ag_Groups (foldl ag_Add a0 [(''a'', NaN), (''b'', NaN)]) \<le> 1"
proof -
  obtain a0 where n: "NewAggregator 1 = Some a0" by (simp add: NewAggregator_def)
  have c: "card (fst ` set [(''oss1'', 42::real), (''oss1'', 58)]) \<le> nat 1" by simp
  from aggregator_exact [OF n c, of "''oss1''" "[(''a'', NaN), (''b'', NaN)]"] n show ?thesis by (simp add: Let_def)
qed

text \<open>The documentation speaks of the least-seen group; the code evicts the oldest one.\<close>

lemma aggregator_evicts_oldest:
  assumes "NewAggregator 1 = Some a0"
  shows "ag_Get (foldl ag_Add a0 [(''often'', x), (''often'', y), (''once'', z)]) ''often'' = None"
proof -
  have "a0 = \<lparr>ag_groups = Map.empty, ag_order = [], ag_maxGroups = 1\<rparr>"
    using assms by (simp add: NewAggregator_def)
  then show ?thesis by (simp add: ag_Add_def ag_Get_def Let_def)
qed

end
