(* ===== verification/Frames.thy ===== *)
theory Frames
  imports Prelude
begin

text \<open>
  Model of the framing of the control plane, \<open>pkg/mesh/proto/codec.go\<close> and \<open>pkg/mesh/proto/pair.go\<close>: every message is
  sent as its length in four bytes, high byte first, and then the message, and \<open>FrameReader\<close> takes such frames off a
  stream under a limit of size and a budget of memory; and of \<open>pkg/mesh/membrane/pair.go\<close>, which matches the data connection
  of a peer with the control connection that waits for it. The encoding of messages by protocol buffers is
  an argument. A reader is the bytes that are still to come until the end of the stream, a writer the bytes it took and
  how many more it takes before it fails. The pool of buffers only saves allocations: a buffer is
  filled before it is decoded.
\<close>

section \<open>Streams\<close>

record writer =
  w_out :: octets
  w_room :: "nat option"

definition w_write :: "writer \<Rightarrow> octets \<Rightarrow> bool \<times> writer" where
  "w_write w bs =
     (case w_room w of
        None \<Rightarrow> (True, w\<lparr>w_out := w_out w @ bs\<rparr>)
      | Some n \<Rightarrow>
          if length bs \<le> n then (True, \<lparr>w_out = w_out w @ bs, w_room = Some (n - length bs)\<rparr>)
          else (False, \<lparr>w_out = w_out w @ take n bs, w_room = Some 0\<rparr>))"

definition read_full :: "nat \<Rightarrow> octets \<Rightarrow> octets option \<times> octets" where
  "read_full n r = (if n \<le> length r then (Some (take n r), drop n r) else (None, []))"

definition discard :: "nat \<Rightarrow> octets \<Rightarrow> octets" where
  "discard n r = drop n r"

definition put_uint32 :: "nat \<Rightarrow> octets" where
  "put_uint32 n = [of_nat (n div 2 ^ 24), of_nat (n div 2 ^ 16), of_nat (n div 2 ^ 8), of_nat n]"

definition get_uint32 :: "octets \<Rightarrow> nat" where
  "get_uint32 h = foldl (\<lambda>v b. v * 256 + unat b) 0 h"

section \<open>Control frames\<close>

definition MaxFrameSize :: nat where "MaxFrameSize = 256 * 1024"

datatype frame_error =
    MarshalError | WriteHeaderError | WritePayloadError | ReadHeaderError | FrameTooLarge nat
  | BudgetExceeded int | ReadPayloadError | UnmarshalError

record frameReader =
  fr_memoryUsed :: int
  fr_memoryBudget :: int

definition NewFrameReader :: "int \<Rightarrow> frameReader" where
  "NewFrameReader budget = \<lparr>fr_memoryUsed = 0, fr_memoryBudget = budget\<rparr>"

definition UnmarshalFrame :: "(octets \<Rightarrow> 'f option) \<Rightarrow> octets \<Rightarrow> frame_error + 'f" where
  "UnmarshalFrame unmarshal d = (case unmarshal d of None \<Rightarrow> Inl UnmarshalError | Some frame \<Rightarrow> Inr frame)"

definition WriteFrame :: "('f \<Rightarrow> octets option) \<Rightarrow> writer \<Rightarrow> 'f \<Rightarrow> frame_error option \<times> writer" where
  "WriteFrame marshal w frame =
     (case marshal frame of
        None \<Rightarrow> (Some MarshalError, w)
      | Some d \<Rightarrow>
          (let (ok, w1) = w_write w (put_uint32 (length d)) in
           if \<not> ok then (Some WriteHeaderError, w1)
           else let (ok2, w2) = w_write w1 d in
             if \<not> ok2 then (Some WritePayloadError, w2) else (None, w2)))"

definition WriteRawFrame :: "writer \<Rightarrow> octets \<Rightarrow> frame_error option \<times> writer" where
  "WriteRawFrame w d =
     (let (ok, w1) = w_write w (put_uint32 (length d)) in
      if \<not> ok then (Some WriteHeaderError, w1)
      else if length d > 0 then
        (let (ok2, w2) = w_write w1 d in
         if \<not> ok2 then (Some WritePayloadError, w2) else (None, w2))
      else (None, w1))"

definition ReadFrame :: "(octets \<Rightarrow> 'f option) \<Rightarrow> frameReader \<Rightarrow> octets \<Rightarrow> (frame_error + 'f) \<times> frameReader \<times> octets" where
  "ReadFrame unmarshal fr r =
     (let (header, r1) = read_full 4 r in
      case header of
        None \<Rightarrow> (Inl ReadHeaderError, fr, r1)
      | Some h \<Rightarrow>
          (let len = get_uint32 h in
           if len > MaxFrameSize then (Inl (FrameTooLarge len), fr, discard MaxFrameSize r1)
           else if len = 0 then (UnmarshalFrame unmarshal [], fr, r1)
           else
             let newTotal = i64 (fr_memoryUsed fr + int len);
                 fr1 = fr\<lparr>fr_memoryUsed := newTotal\<rparr>
             in if newTotal > fr_memoryBudget fr1
                then (Inl (BudgetExceeded newTotal), fr1\<lparr>fr_memoryUsed := i64 (fr_memoryUsed fr1 - int len)\<rparr>, discard len r1)
                else
                  let (payload, r2) = read_full len r1;
                      fr2 = fr1\<lparr>fr_memoryUsed := i64 (fr_memoryUsed fr1 - int len)\<rparr>
                  in case payload of
                       None \<Rightarrow> (Inl ReadPayloadError, fr2, r2)
                     | Some d \<Rightarrow> (UnmarshalFrame unmarshal d, fr2, r2)))"

section \<open>Pair frames\<close>

definition ValidatePairRole :: "string \<Rightarrow> bool" where
  "ValidatePairRole role \<longleftrightarrow> role = ''control'' \<or> role = ''data''"

definition WritePairFrame :: "('f \<Rightarrow> octets option) \<Rightarrow> writer \<Rightarrow> 'f \<Rightarrow> frame_error option \<times> writer" where
  "WritePairFrame marshal w frame =
     (case marshal frame of
        None \<Rightarrow> (Some MarshalError, w)
      | Some d \<Rightarrow>
          (let (ok, w1) = w_write w (put_uint32 (length d)) in
           if \<not> ok then (Some WriteHeaderError, w1)
           else let (ok2, w2) = w_write w1 d in
             if \<not> ok2 then (Some WritePayloadError, w2) else (None, w2)))"

definition ReadPairFrame :: "(octets \<Rightarrow> 'f option) \<Rightarrow> octets \<Rightarrow> (frame_error + 'f) \<times> octets" where
  "ReadPairFrame unmarshal r =
     (let (header, r1) = read_full 4 r in
      case header of
        None \<Rightarrow> (Inl ReadHeaderError, r1)
      | Some h \<Rightarrow>
          (let len = get_uint32 h in
           if len > 1024 then (Inl (FrameTooLarge len), discard len r1)
           else let (payload, r2) = read_full len r1 in
             case payload of
               None \<Rightarrow> (Inl ReadPayloadError, r2)
             | Some d \<Rightarrow> (UnmarshalFrame unmarshal d, r2)))"

section \<open>Pairing of connections\<close>

text \<open>Connections are named by a type parameter. \<open>created\<close> is the time of the registration.\<close>

record 'conn pendingEntry =
  pe_token :: octets
  pe_conn :: 'conn
  pe_created :: time

record 'conn pendingPairs =
  pp_pending :: "node_id \<rightharpoonup> 'conn pendingEntry"
  pp_timeout :: duration

datatype pair_error = NoPendingControl node_id | PairingExpired node_id | TokenMismatch node_id

definition NewPendingPairsWithTimeout :: "duration \<Rightarrow> 'conn pendingPairs" where
  "NewPendingPairsWithTimeout timeout = \<lparr>pp_pending = Map.empty, pp_timeout = timeout\<rparr>"

definition RegisterControl :: "time \<Rightarrow> 'conn pendingPairs \<Rightarrow> node_id \<Rightarrow> octets \<Rightarrow> 'conn \<Rightarrow> 'conn pendingPairs" where
  "RegisterControl now pp peerID token conn =
     pp\<lparr>pp_pending := (pp_pending pp)(peerID \<mapsto> \<lparr>pe_token = token, pe_conn = conn, pe_created = now\<rparr>)\<rparr>"

definition CompleteData :: "time \<Rightarrow> 'conn pendingPairs \<Rightarrow> node_id \<Rightarrow> octets \<Rightarrow> 'conn \<Rightarrow>
    (pair_error + 'conn \<times> 'conn) \<times> 'conn pendingPairs" where
  "CompleteData now pp peerID token dataConn =
     (case pp_pending pp peerID of
        None \<Rightarrow> (Inl (NoPendingControl peerID), pp)
      | Some e \<Rightarrow>
          if now - pe_created e > pp_timeout pp
          then (Inl (PairingExpired peerID), pp\<lparr>pp_pending := (pp_pending pp)(peerID := None)\<rparr>)
          else if pe_token e \<noteq> token then (Inl (TokenMismatch peerID), pp)
          else (Inr (pe_conn e, dataConn), pp\<lparr>pp_pending := (pp_pending pp)(peerID := None)\<rparr>))"

definition purgeExpired :: "time \<Rightarrow> 'conn pendingPairs \<Rightarrow> 'conn pendingPairs" where
  "purgeExpired now pp =
     pp\<lparr>pp_pending := (\<lambda>p. case pp_pending pp p of
        None \<Rightarrow> None | Some e \<Rightarrow> if now - pe_created e > pp_timeout pp then None else Some e)\<rparr>"

section \<open>A frame is read back\<close>

lemma put_get: "n < 2 ^ 32 \<Longrightarrow> get_uint32 (put_uint32 n) = n"
proof -
  assume n: "n < 2 ^ 32"
  have u: "unat (of_nat k :: 8 word) = k mod 256" for k by (simp add: unsigned_of_nat take_bit_eq_mod)
  define a b c where "a = n div 256" and "b = a div 256" and "c = b div 256"
  have abc: "n div 2 ^ 8 = a" "n div 2 ^ 16 = b" "n div 2 ^ 24 = c"
    by (simp_all add: a_def b_def c_def div_mult2_eq [symmetric])
  have "c < 256" using n by (simp add: a_def b_def c_def div_mult2_eq [symmetric])
  then have "get_uint32 (put_uint32 n) = ((c * 256 + b mod 256) * 256 + a mod 256) * 256 + n mod 256"
    unfolding put_uint32_def abc by (simp add: get_uint32_def u)
  also have "\<dots> = n" unfolding c_def b_def a_def by simp
  finally show ?thesis .
qed

lemma length_put [simp]: "length (put_uint32 n) = 4"
  by (simp add: put_uint32_def)

definition encode :: "octets \<Rightarrow> octets" where
  "encode d = put_uint32 (length d) @ d"

text \<open>What \<open>ReadFrame\<close> makes of the bytes of one frame; the stream and the budget after it.\<close>

lemma ReadFrame_encode:
  assumes "length d < 2 ^ 32" "0 \<le> fr_memoryUsed fr" "fr_memoryUsed fr < 2 ^ 62"
  shows "ReadFrame unmarshal fr (encode d @ rest) =
    (if length d > MaxFrameSize then (Inl (FrameTooLarge (length d)), fr, drop MaxFrameSize (d @ rest))
     else if d \<noteq> [] \<and> fr_memoryUsed fr + int (length d) > fr_memoryBudget fr
     then (Inl (BudgetExceeded (fr_memoryUsed fr + int (length d))), fr, rest)
     else (UnmarshalFrame unmarshal d, fr, rest))"
proof -
  have i: "i64 (fr_memoryUsed fr + int (length d)) = fr_memoryUsed fr + int (length d)" "i64 (fr_memoryUsed fr) = fr_memoryUsed fr"
    using assms by (auto intro!: i64_id)
  have h: "read_full 4 (encode d @ rest) = (Some (put_uint32 (length d)), d @ rest)"
    by (simp add: read_full_def encode_def put_uint32_def)
  have g: "get_uint32 (put_uint32 (length d)) = length d" by (rule put_get [OF assms(1)])
  have p: "read_full (length d) (d @ rest) = (Some d, rest)" by (simp add: read_full_def)
  show ?thesis
  proof (cases "length d > MaxFrameSize")
    case True
    then show ?thesis by (simp add: ReadFrame_def h g discard_def)
  next
    case small: False
    show ?thesis
    proof (cases "d = []")
      case True
      then show ?thesis using small g h by (simp add: ReadFrame_def)
    next
      case False
      then show ?thesis using small i(2) by (simp add: ReadFrame_def h g p i(1) Let_def discard_def)
    qed
  qed
qed

fun send_all :: "('f \<Rightarrow> octets option) \<Rightarrow> writer \<Rightarrow> 'f list \<Rightarrow> frame_error option \<times> writer" where
  "send_all marshal w [] = (None, w)"
| "send_all marshal w (f # fs) =
     (case WriteFrame marshal w f of (Some err, w') \<Rightarrow> (Some err, w') | (None, w') \<Rightarrow> send_all marshal w' fs)"

fun recv_all :: "(octets \<Rightarrow> 'f option) \<Rightarrow> nat \<Rightarrow> frameReader \<Rightarrow> octets \<Rightarrow> (frame_error + 'f) list \<times> frameReader \<times> octets" where
  "recv_all unmarshal 0 fr r = ([], fr, r)"
| "recv_all unmarshal (Suc n) fr r =
     (let (x, fr1, r1) = ReadFrame unmarshal fr r; (xs, fr2, r2) = recv_all unmarshal n fr1 r1 in (x # xs, fr2, r2))"

lemma send_all_unbounded:
  "\<forall>f\<in>set fs. marshal f \<noteq> None \<Longrightarrow>
   send_all marshal \<lparr>w_out = out, w_room = None\<rparr> fs =
     (None, \<lparr>w_out = out @ concat (map (\<lambda>f. encode (the (marshal f))) fs), w_room = None\<rparr>)"
  by (induction fs arbitrary: out) (auto simp: WriteFrame_def w_write_def encode_def Let_def)

lemma recv_all_encoded:
  assumes "\<forall>d\<in>set ds. length d \<le> MaxFrameSize" "0 \<le> fr_memoryUsed fr" "fr_memoryUsed fr < 2 ^ 62"
  shows "recv_all unmarshal (length ds) fr (concat (map encode ds) @ rest) =
    (map (\<lambda>d. if d \<noteq> [] \<and> fr_memoryUsed fr + int (length d) > fr_memoryBudget fr
              then Inl (BudgetExceeded (fr_memoryUsed fr + int (length d))) else UnmarshalFrame unmarshal d) ds, fr, rest)"
  using assms(1)
proof (induction ds)
  case (Cons d ds)
  then have "length d < 2 ^ 32" "\<not> length d > MaxFrameSize" by (simp_all add: MaxFrameSize_def)
  then show ?case
    using Cons ReadFrame_encode [of d fr unmarshal "concat (map encode ds) @ rest"] assms(2,3) by (simp add: Let_def)
qed simp

text \<open>
  Property C14. Framing is a faithful channel. Whatever sequence of messages is written, each at most \<open>MaxFrameSize\<close> bytes, is
  read as the same sequence: every message that fits the budget arrives, one that does not is
  reported and skipped, and the stream stays aligned, with the bytes after the last frame untouched. The
  budget in use is afterwards what it was before.
\<close>

theorem frames_roundtrip:
  assumes "\<And>f. f \<in> set fs \<Longrightarrow> \<exists>d. marshal f = Some d \<and> unmarshal d = Some f \<and> length d \<le> MaxFrameSize"
    and "0 \<le> fr_memoryUsed fr" "fr_memoryUsed fr < 2 ^ 62"
  shows "\<exists>bytes. send_all marshal \<lparr>w_out = [], w_room = None\<rparr> fs = (None, \<lparr>w_out = bytes, w_room = None\<rparr>) \<and>
    recv_all unmarshal (length fs) fr (bytes @ rest) =
      (map (\<lambda>f. let len = int (length (the (marshal f))) in
              if 0 < len \<and> fr_memoryUsed fr + len > fr_memoryBudget fr
              then Inl (BudgetExceeded (fr_memoryUsed fr + len)) else Inr f) fs, fr, rest)"
proof -
  let ?ds = "map (\<lambda>f. the (marshal f)) fs"
  have ds: "\<forall>d\<in>set ?ds. length d \<le> MaxFrameSize" using assms(1) by fastforce
  have m: "\<forall>f\<in>set fs. marshal f \<noteq> None" using assms(1) by fastforce
  have u: "UnmarshalFrame unmarshal (the (marshal f)) = Inr f" if "f \<in> set fs" for f
    using assms(1) [OF that] by (auto simp: UnmarshalFrame_def)
  have "recv_all unmarshal (length fs) fr (concat (map (\<lambda>f. encode (the (marshal f))) fs) @ rest) =
      (map (\<lambda>f. let len = int (length (the (marshal f))) in
              if 0 < len \<and> fr_memoryUsed fr + len > fr_memoryBudget fr
              then Inl (BudgetExceeded (fr_memoryUsed fr + len)) else Inr f) fs, fr, rest)"
    using recv_all_encoded [OF ds assms(2,3), of unmarshal rest]
    by (simp add: comp_def Let_def u del: list.map_comp cong: map_cong) (metis u)
  then show ?thesis using send_all_unbounded [OF m, of "[]"] by simp
qed

theorem frames_roundtrip_witness:
  "\<exists>bytes. send_all Some \<lparr>w_out = [], w_room = None\<rparr> [[1], [], [2, 3]] = (None, \<lparr>w_out = bytes, w_room = None\<rparr>) \<and>
     fst (recv_all Some 3 (NewFrameReader 1) (bytes @ [9])) = [Inr [1], Inr [], Inl (BudgetExceeded 2)]"
proof -
  have a: "\<And>f. f \<in> set [[1], [], [2, 3::8 word]] \<Longrightarrow> \<exists>d. Some f = Some d \<and> Some d = Some f \<and> length d \<le> MaxFrameSize"
    by (auto simp: MaxFrameSize_def)
  show ?thesis
    using frames_roundtrip [of "[[1], [], [2, 3]]" Some Some "NewFrameReader 1" "[9]", OF a] by (auto simp: NewFrameReader_def numeral_3_eq_3)
qed

text \<open>
  An oversized frame makes the receiver read the sender's payload as frames. \<open>WriteFrame\<close> sends a message of any length; the
  receiver reports one above \<open>MaxFrameSize\<close> but drops only \<open>MaxFrameSize\<close> bytes of it, not its length, so what follows
  in the payload is taken for the next frames: the second read returns a message the payload contains, and
  the message that was really sent next is only read after the leftover of the payload, if at all.
\<close>

theorem oversized_frame_desyncs:
  assumes "length pad = MaxFrameSize" "length inner \<le> MaxFrameSize" "unmarshal inner = Some f"
    and "0 \<le> fr_memoryUsed fr" "fr_memoryUsed fr < 2 ^ 62" "fr_memoryUsed fr + int (length inner) \<le> fr_memoryBudget fr"
    and "marshal big = Some (pad @ encode inner)"
  shows "WriteFrame marshal \<lparr>w_out = [], w_room = None\<rparr> big = (None, \<lparr>w_out = encode (pad @ encode inner), w_room = None\<rparr>) \<and>
    fst (recv_all unmarshal 2 fr (encode (pad @ encode inner) @ rest)) =
      [Inl (FrameTooLarge (MaxFrameSize + 4 + length inner)), Inr f]"
proof -
  have l: "length (pad @ encode inner) = MaxFrameSize + 4 + length inner" using assms(1) by (simp add: encode_def)
  then have b: "length (pad @ encode inner) < 2 ^ 32" "length (pad @ encode inner) > MaxFrameSize"
    "length inner < 2 ^ 32" using assms(2) by (simp_all add: MaxFrameSize_def)
  have "ReadFrame unmarshal fr (encode (pad @ encode inner) @ rest) =
      (Inl (FrameTooLarge (MaxFrameSize + 4 + length inner)), fr, encode inner @ rest)"
    using ReadFrame_encode [OF b(1) assms(4,5), of unmarshal rest] b(2) l assms(1) by simp
  moreover have "ReadFrame unmarshal fr (encode inner @ rest) = (Inr f, fr, rest)"
    using ReadFrame_encode [OF b(3) assms(4,5), of unmarshal rest] assms(2,3,6) by (simp add: UnmarshalFrame_def)
  moreover have "WriteFrame marshal \<lparr>w_out = [], w_room = None\<rparr> big = (None, \<lparr>w_out = encode (pad @ encode inner), w_room = None\<rparr>)"
    using assms(7) by (simp add: WriteFrame_def w_write_def encode_def Let_def)
  ultimately show ?thesis by (simp add: numeral_2_eq_2)
qed

theorem oversized_frame_desyncs_witness:
  "fst (recv_all (\<lambda>d. Some d) 2 (NewFrameReader 1000) (encode (replicate MaxFrameSize 0 @ encode [7]) @ encode [8])) =
     [Inl (FrameTooLarge (MaxFrameSize + 4 + 1)), Inr [7]]"
  using oversized_frame_desyncs [of "replicate MaxFrameSize 0" "[7]" "\<lambda>d. Some d" "[7]" "NewFrameReader 1000" Some
      "replicate MaxFrameSize 0 @ encode [7]" "encode [8]"]
  by (simp add: NewFrameReader_def MaxFrameSize_def)

section \<open>Pairing against a store that never forgets\<close>

datatype 'conn pair_event =
    Registers node_id octets 'conn
  | Completes node_id octets 'conn
  | Purges

fun pair_step :: "time \<Rightarrow> 'conn pendingPairs \<Rightarrow> 'conn pair_event \<Rightarrow> ('conn \<times> 'conn) option \<times> 'conn pendingPairs" where
  "pair_step now pp (Registers p tok conn) = (None, RegisterControl now pp p tok conn)"
| "pair_step now pp (Completes p tok conn) =
     (case CompleteData now pp p tok conn of (Inl err, pp') \<Rightarrow> (None, pp') | (Inr pair, pp') \<Rightarrow> (Some pair, pp'))"
| "pair_step now pp Purges = (None, purgeExpired now pp)"

fun pair_run :: "'conn pendingPairs \<Rightarrow> (time \<times> 'conn pair_event) list \<Rightarrow> ('conn \<times> 'conn) option list" where
  "pair_run pp [] = []"
| "pair_run pp ((now, ev) # evs) = (let (out, pp') = pair_step now pp ev in out # pair_run pp' evs)"

text \<open>
  The specification: the control connection of a peer that waits is the one registered last, unless a data
  connection took it. It is given to the next data connection of the same peer with the same token, if that
  comes within the time allowed. Nothing is removed for its age.
\<close>

fun spec_step :: "duration \<Rightarrow> time \<Rightarrow> (node_id \<rightharpoonup> 'conn pendingEntry) \<Rightarrow> 'conn pair_event \<Rightarrow>
    ('conn \<times> 'conn) option \<times> (node_id \<rightharpoonup> 'conn pendingEntry)" where
  "spec_step timeout now m (Registers p tok conn) =
     (None, m(p \<mapsto> \<lparr>pe_token = tok, pe_conn = conn, pe_created = now\<rparr>))"
| "spec_step timeout now m (Completes p tok conn) =
     (case m p of
        Some e \<Rightarrow> if pe_token e = tok \<and> now - pe_created e \<le> timeout
                  then (Some (pe_conn e, conn), m(p := None)) else (None, m)
      | None \<Rightarrow> (None, m))"
| "spec_step timeout now m Purges = (None, m)"

fun spec_run :: "duration \<Rightarrow> (node_id \<rightharpoonup> 'conn pendingEntry) \<Rightarrow> (time \<times> 'conn pair_event) list \<Rightarrow>
    ('conn \<times> 'conn) option list" where
  "spec_run timeout m [] = []"
| "spec_run timeout m ((now, ev) # evs) = (let (out, m') = spec_step timeout now m ev in out # spec_run timeout m' evs)"

text \<open>The code's map lacks only entries that are too old to be paired.\<close>

definition pairs_rel :: "time \<Rightarrow> 'conn pendingPairs \<Rightarrow> (node_id \<rightharpoonup> 'conn pendingEntry) \<Rightarrow> bool" where
  "pairs_rel now pp m \<longleftrightarrow>
     (\<forall>p. pp_pending pp p = m p \<or> pp_pending pp p = None \<and> (\<exists>e. m p = Some e \<and> now - pe_created e > pp_timeout pp))"

lemma pairs_rel_later: "pairs_rel t pp m \<Longrightarrow> t \<le> now \<Longrightarrow> pairs_rel now pp m"
  unfolding pairs_rel_def by (metis diff_right_mono less_le_trans)

lemma pair_step_rel:
  assumes rel: "pairs_rel now pp m" and p: "pair_step now pp ev = (out, pp')"
    and s: "spec_step (pp_timeout pp) now m ev = (out', m')"
  shows "out = out' \<and> pairs_rel now pp' m' \<and> pp_timeout pp' = pp_timeout pp"
proof -
  have r: "pp_pending pp k = m k \<or> pp_pending pp k = None \<and> (\<exists>e. m k = Some e \<and> now - pe_created e > pp_timeout pp)" for k
    using rel by (simp add: pairs_rel_def)
  have "out = out' \<and> pp_timeout pp' = pp_timeout pp \<and>
    (pp_pending pp' k = m' k \<or> pp_pending pp' k = None \<and> (\<exists>e. m' k = Some e \<and> now - pe_created e > pp_timeout pp))" for k
  proof (cases ev)
    case (Registers q tok conn)
    then show ?thesis using p s r [of k] by (cases "k = q") (auto simp: RegisterControl_def)
  next
    case (Completes q tok conn)
    show ?thesis
    proof (cases "pp_pending pp q")
      case None
      then show ?thesis using p s r [of q] r [of k] Completes by (auto simp: CompleteData_def split: if_splits)
    next
      case (Some e)
      then have "m q = Some e" using r [of q] by auto
      then show ?thesis using p s Some Completes r [of k]
        by (cases "k = q") (auto simp: CompleteData_def split: if_splits)
    qed
  next
    case Purges
    then show ?thesis using p s r [of k] by (cases "m k") (auto simp: purgeExpired_def split: if_splits)
  qed
  then show ?thesis unfolding pairs_rel_def by metis
qed

lemma pair_run_rel:
  assumes "sorted (map fst evs)" "pairs_rel t pp m" "\<forall>e\<in>set evs. t \<le> fst e"
  shows "pair_run pp evs = spec_run (pp_timeout pp) m evs"
  using assms
proof (induction evs arbitrary: t pp m)
  case (Cons e evs)
  obtain now ev where e: "e = (now, ev)" by (cases e)
  obtain out pp' where p: "pair_step now pp ev = (out, pp')" by fastforce
  obtain out' m' where s: "spec_step (pp_timeout pp) now m ev = (out', m')" by fastforce
  have "pairs_rel now pp m" using Cons.prems e by (auto intro: pairs_rel_later)
  note st = pair_step_rel [OF this p s]
  have "pair_run pp' evs = spec_run (pp_timeout pp') m' evs"
    by (rule Cons.IH [of now]) (use Cons.prems st e in auto)
  then show ?case using st p s by (simp add: e)
qed simp

text \<open>
  Property C16. Pairing of control and data connections is single-use, bound to the peer and the token, and limited in time,
  and the removal of old entries, by the cleanup loop at any moment or by a late data connection, never changes
  an outcome: at times that do not decrease, every run pairs the same connections as the
  specification that keeps every registration until it is replaced or used.
\<close>

theorem pairing_refines_spec:
  assumes "sorted (map fst evs)"
  shows "pair_run (NewPendingPairsWithTimeout timeout) evs = spec_run timeout Map.empty evs"
proof -
  define t where "t = fst (hd evs)"
  have "pairs_rel t (NewPendingPairsWithTimeout timeout) Map.empty" by (simp add: pairs_rel_def NewPendingPairsWithTimeout_def)
  moreover have "\<forall>e\<in>set evs. t \<le> fst e" using assms by (cases evs) (auto simp: t_def)
  ultimately show ?thesis using pair_run_rel [OF assms] by (fastforce simp: NewPendingPairsWithTimeout_def)
qed

theorem pairing_refines_spec_witness:
  "pair_run (NewPendingPairsWithTimeout 10)
     [(0, Registers ''p'' [1] (1::nat)), (3, Completes ''p'' [2] 2), (4, Completes ''p'' [1] 3), (5, Completes ''p'' [1] 4)] =
   [None, None, Some (1, 3), None]"
proof -
  let ?evs = "[(0::time, Registers ''p'' [1] (1::nat)), (3, Completes ''p'' [2] 2), (4, Completes ''p'' [1] 3), (5, Completes ''p'' [1] 4)]"
  have "sorted (map fst ?evs)" by simp
  from pairing_refines_spec [OF this, of 10] show ?thesis by simp
qed

end
