(* ===== verification/Peers.thy ===== *)
theory Peers
  imports Frames
begin

text \<open>
  Model of the connections of a node to its peers: \<open>pkg/mesh/api/async_writer.go\<close>, and the types \<open>peerConn\<close> and
  \<open>peerManager\<close> of \<open>pkg/mesh/api/neuron.go\<close>. Each connection has a queue of 64 messages that a goroutine of its own
  drains into the control stream, so that nobody who sends waits for a slow peer; the price is that messages are
  refused when the queue is full. The type of the frames is a parameter. The goroutine is the step
  \<open>controlWriteStep\<close>, one message at a time; sends and stops are steps of their own, as \<open>writeMu\<close> makes
  them. Connections are shared by pointer, so the manager keeps them in a list that only grows and its map
  holds positions in it: a connection that was replaced in the map is still there for the goroutines that use it.
\<close>

section \<open>Connections\<close>

definition controlWriteQueueSize :: nat where "controlWriteQueueSize = 64"
definition peerFrameBudget :: int where "peerFrameBudget = 2 * 1024 * 1024"

record 'f controlMsg =
  cm_frame :: "'f option"
  cm_raw :: "octets option"

text \<open>
  \<open>peer_control\<close> is the sending side of the control stream; \<open>peer_chClosed\<close>, \<open>peer_controlClosed\<close>, \<open>peer_sessionClosed\<close>
  and \<open>peer_dead\<close> say that the queue, the stream, the yamux session and \<open>deadCh\<close> are closed; \<open>peer_writerDone\<close> that the
  writer goroutine returned; \<open>peer_deathFired\<close> that \<open>deathOnce\<close> ran.
\<close>

record 'f peerConn =
  peer_nodeID :: node_id
  peer_control :: writer
  peer_controlClosed :: bool
  peer_sessionClosed :: bool
  peer_pubKey :: octets
  peer_frameReader :: frameReader
  peer_writeCh :: "'f controlMsg list"
  peer_chClosed :: bool
  peer_writerStopped :: bool
  peer_writerDone :: bool
  peer_dead :: bool
  peer_deathFired :: bool

definition newPeerConnWithWriter :: "node_id \<Rightarrow> writer \<Rightarrow> octets \<Rightarrow> 'f peerConn" where
  "newPeerConnWithWriter nodeID control peerPubKey =
     \<lparr>peer_nodeID = nodeID, peer_control = control, peer_controlClosed = False, peer_sessionClosed = False,
      peer_pubKey = peerPubKey, peer_frameReader = NewFrameReader peerFrameBudget, peer_writeCh = [], peer_chClosed = False,
      peer_writerStopped = False, peer_writerDone = False, peer_dead = False, peer_deathFired = False\<rparr>"

definition closeDead :: "'f peerConn \<Rightarrow> 'f peerConn" where
  "closeDead pc = pc\<lparr>peer_dead := True\<rparr>"

definition sendControl :: "'f peerConn \<Rightarrow> 'f \<Rightarrow> bool \<times> 'f peerConn" where
  "sendControl pc frame =
     (if peer_writerStopped pc then (False, pc)
      else if length (peer_writeCh pc) < controlWriteQueueSize
      then (True, pc\<lparr>peer_writeCh := peer_writeCh pc @ [\<lparr>cm_frame = Some frame, cm_raw = None\<rparr>]\<rparr>)
      else (False, pc))"

definition sendControlRaw :: "'f peerConn \<Rightarrow> octets \<Rightarrow> bool \<times> 'f peerConn" where
  "sendControlRaw pc d =
     (if peer_writerStopped pc then (False, pc)
      else if length (peer_writeCh pc) < controlWriteQueueSize
      then (True, pc\<lparr>peer_writeCh := peer_writeCh pc @ [\<lparr>cm_frame = None, cm_raw = Some d\<rparr>]\<rparr>)
      else (False, pc))"

section \<open>The writer goroutine\<close>

text \<open>A closed control stream fails every write, as one does that exceeds its deadline.\<close>

definition stream_of :: "'f peerConn \<Rightarrow> writer" where
  "stream_of pc = (if peer_controlClosed pc then (peer_control pc)\<lparr>w_room := Some 0\<rparr> else peer_control pc)"

definition write_msg :: "('f \<Rightarrow> octets option) \<Rightarrow> writer \<Rightarrow> 'f controlMsg \<Rightarrow> frame_error option \<times> writer" where
  "write_msg marshal w msg =
     (case cm_raw msg of
        Some d \<Rightarrow> WriteRawFrame w d
      | None \<Rightarrow> (case cm_frame msg of Some f \<Rightarrow> WriteFrame marshal w f | None \<Rightarrow> (None, w)))"

text \<open>One round of \<open>controlWriteLoop\<close>. With an empty queue it waits, unless the queue is closed.\<close>

definition controlWriteStep :: "('f \<Rightarrow> octets option) \<Rightarrow> 'f peerConn \<Rightarrow> 'f peerConn" where
  "controlWriteStep marshal pc =
     (if peer_writerDone pc then pc
      else case peer_writeCh pc of
        [] \<Rightarrow> (if peer_chClosed pc then pc\<lparr>peer_writerDone := True\<rparr> else pc)
      | msg # queue \<Rightarrow>
          (let (err, w) = write_msg marshal (stream_of pc) msg;
               pc1 = pc\<lparr>peer_writeCh := queue, peer_control := w\<rparr>
           in if err \<noteq> None then pc1\<lparr>peer_controlClosed := True, peer_writerDone := True\<rparr> else pc1))"

text \<open>\<open>stopWriter\<close> returns when the goroutine has returned: the rounds it still runs are enough for the whole queue.\<close>

definition stopWriter :: "('f \<Rightarrow> octets option) \<Rightarrow> 'f peerConn \<Rightarrow> 'f peerConn" where
  "stopWriter marshal pc =
     (let pc1 = pc\<lparr>peer_writerStopped := True, peer_chClosed := True, peer_controlClosed := True\<rparr>
      in (controlWriteStep marshal ^^ Suc (length (peer_writeCh pc1))) pc1)"

section \<open>The peer manager\<close>

record 'f peerManager =
  pm_peers :: "node_id \<rightharpoonup> nat"
  pm_conns :: "'f peerConn list"

definition newPeerManager :: "'f peerManager" where
  "newPeerManager = \<lparr>pm_peers = Map.empty, pm_conns = []\<rparr>"

definition pm_conn :: "'f peerManager \<Rightarrow> nat \<Rightarrow> 'f peerConn" where
  "pm_conn pm c = pm_conns pm ! c"

definition pm_update :: "nat \<Rightarrow> ('f peerConn \<Rightarrow> 'f peerConn) \<Rightarrow> 'f peerManager \<Rightarrow> 'f peerManager" where
  "pm_update c f pm = pm\<lparr>pm_conns := (pm_conns pm)[c := f (pm_conns pm ! c)]\<rparr>"

text \<open>\<open>Add\<close> of a new connection; its pointer is the new position.\<close>

definition pm_Add :: "'f peerManager \<Rightarrow> node_id \<Rightarrow> 'f peerConn \<Rightarrow> nat \<times> 'f peerManager" where
  "pm_Add pm nodeID pc =
     (let c = length (pm_conns pm)
      in (c, \<lparr>pm_peers = (pm_peers pm)(nodeID \<mapsto> c), pm_conns = pm_conns pm @ [pc]\<rparr>))"

definition pm_Remove :: "'f peerManager \<Rightarrow> node_id \<Rightarrow> 'f peerManager" where
  "pm_Remove pm nodeID = pm\<lparr>pm_peers := (pm_peers pm)(nodeID := None)\<rparr>"

definition pm_Get :: "'f peerManager \<Rightarrow> node_id \<Rightarrow> nat option" where
  "pm_Get pm nodeID = pm_peers pm nodeID"

definition pm_All :: "node_id list \<Rightarrow> 'f peerManager \<Rightarrow> nat list" where
  "pm_All walk pm = map (\<lambda>k. the (pm_peers pm k)) walk"

definition pm_ForEach :: "node_id list \<Rightarrow> ('s \<Rightarrow> nat \<Rightarrow> 's) \<Rightarrow> 'f peerManager \<Rightarrow> 's \<Rightarrow> 's" where
  "pm_ForEach walk fn pm s = foldl fn s (pm_All walk pm)"

definition pm_Count :: "'f peerManager \<Rightarrow> int" where
  "pm_Count pm = int (card (dom (pm_peers pm)))"

text \<open>One call of \<open>sendControl\<close> on the connection \<open>c\<close>, counted.\<close>

definition pm_send :: "nat \<Rightarrow> 'f \<Rightarrow> 'f peerManager \<Rightarrow> bool \<times> 'f peerManager" where
  "pm_send c frame pm =
     (let (ok, pc) = sendControl (pm_conns pm ! c) frame in (ok, pm\<lparr>pm_conns := (pm_conns pm)[c := pc]\<rparr>))"

definition count_send :: "bool \<times> 'f peerManager \<Rightarrow> int \<times> int \<Rightarrow> int \<times> int \<times> 'f peerManager" where
  "count_send r sd = (case r of (ok, pm) \<Rightarrow> if ok then (fst sd + 1, snd sd, pm) else (fst sd, snd sd + 1, pm))"

definition broadcastAllPeers :: "node_id list \<Rightarrow> 'f peerManager \<Rightarrow> 'f \<Rightarrow> int \<times> int \<times> 'f peerManager" where
  "broadcastAllPeers walk pm frame =
     pm_ForEach walk (\<lambda>(sent, dropped, pm) c. count_send (pm_send c frame pm) (sent, dropped)) pm (0, 0, pm)"

definition broadcastExceptPeer :: "node_id list \<Rightarrow> 'f peerManager \<Rightarrow> node_id \<Rightarrow> 'f \<Rightarrow> int \<times> int \<times> 'f peerManager" where
  "broadcastExceptPeer walk pm excludeNodeID frame =
     pm_ForEach walk
       (\<lambda>(sent, dropped, pm) c.
          if peer_nodeID (pm_conns pm ! c) = excludeNodeID then (sent, dropped, pm)
          else count_send (pm_send c frame pm) (sent, dropped))
       pm (0, 0, pm)"

definition broadcastAllRaw :: "node_id list \<Rightarrow> 'f peerManager \<Rightarrow> octets \<Rightarrow> int \<times> int \<times> 'f peerManager" where
  "broadcastAllRaw walk pm d =
     pm_ForEach walk
       (\<lambda>(sent, dropped, pm) c.
          let (ok, pc) = sendControlRaw (pm_conns pm ! c) d
          in count_send (ok, pm\<lparr>pm_conns := (pm_conns pm)[c := pc]\<rparr>) (sent, dropped))
       pm (0, 0, pm)"

section \<open>The queue is a channel\<close>

text \<open>The bytes a message becomes on the stream.\<close>

definition payload :: "('f \<Rightarrow> octets option) \<Rightarrow> 'f controlMsg \<Rightarrow> octets option" where
  "payload marshal m = (case cm_raw m of Some d \<Rightarrow> Some d
     | None \<Rightarrow> (case cm_frame m of Some f \<Rightarrow> marshal f | None \<Rightarrow> None))"

definition well_set :: "'f controlMsg \<Rightarrow> bool" where
  "well_set m \<longleftrightarrow> cm_raw m \<noteq> None \<or> cm_frame m \<noteq> None"

lemma w_write_cases:
  assumes "w_write w bs = (ok, w')"
  obtains "ok" "w_out w' = w_out w @ bs" | "\<not> ok" "\<exists>p. prefix p bs \<and> w_out w' = w_out w @ p"
  using assms by (auto simp: w_write_def take_is_prefix split: option.splits if_splits)

lemma write_two:
  assumes "w_write w a = (ok1, w1)" "w_write w1 b = (ok2, w2)"
  shows "\<not> ok1 \<Longrightarrow> \<exists>p. prefix p (a @ b) \<and> w_out w1 = w_out w @ p"
    and "ok1 \<Longrightarrow> \<exists>p. prefix p (a @ b) \<and> w_out w2 = w_out w @ p"
    and "ok1 \<Longrightarrow> ok2 \<Longrightarrow> w_out w2 = w_out w @ a @ b"
proof -
  note c1 = w_write_cases [OF assms(1)] and c2 = w_write_cases [OF assms(2)]
  show "\<not> ok1 \<Longrightarrow> \<exists>p. prefix p (a @ b) \<and> w_out w1 = w_out w @ p"
    by (rule c1) (auto intro: prefix_prefix)
  show "ok1 \<Longrightarrow> \<exists>p. prefix p (a @ b) \<and> w_out w2 = w_out w @ p"
    by (rule c1, rule c2) auto
  show "ok1 \<Longrightarrow> ok2 \<Longrightarrow> w_out w2 = w_out w @ a @ b"
    by (rule c1, rule c2) auto
qed

lemma WriteFrame_spec:
  assumes "WriteFrame marshal w f = (err, w')"
  shows "err = None \<Longrightarrow> \<exists>d. marshal f = Some d \<and> w_out w' = w_out w @ encode d"
    and "err \<noteq> None \<Longrightarrow> \<exists>p. (case marshal f of None \<Rightarrow> p = [] | Some d \<Rightarrow> prefix p (encode d)) \<and> w_out w' = w_out w @ p"
proof -
  show "err = None \<Longrightarrow> \<exists>d. marshal f = Some d \<and> w_out w' = w_out w @ encode d"
    using assms write_two
    by (fastforce simp: WriteFrame_def encode_def Let_def split: option.splits prod.splits if_splits)
  show "err \<noteq> None \<Longrightarrow> \<exists>p. (case marshal f of None \<Rightarrow> p = [] | Some d \<Rightarrow> prefix p (encode d)) \<and> w_out w' = w_out w @ p"
    using assms write_two
    by (fastforce simp: WriteFrame_def encode_def Let_def split: option.splits prod.splits if_splits)
qed

lemma WriteRawFrame_eq: "WriteRawFrame w d = WriteFrame Some w d"
proof (cases d)
  case Nil
  have "w_write w1 [] = (True, w1)" for w1
    by (cases w1) (auto simp: w_write_def split: option.split)
  then show ?thesis by (simp add: WriteRawFrame_def WriteFrame_def Nil Let_def split: prod.split)
qed (simp add: WriteRawFrame_def WriteFrame_def cong: if_cong)

lemma write_msg_spec:
  assumes "write_msg marshal w m = (err, w')" "well_set m"
  shows "err = None \<Longrightarrow> payload marshal m \<noteq> None \<and> w_out w' = w_out w @ encode (the (payload marshal m))"
    and "err \<noteq> None \<Longrightarrow> \<exists>p. w_out w' = w_out w @ p"
  using assms WriteFrame_spec [of _ w _ err w']
  by (auto simp: write_msg_def payload_def well_set_def WriteRawFrame_eq split: option.splits dest: WriteFrame_spec)

text \<open>What can happen to a connection, and the messages its sends accept, in order.\<close>

datatype 'f writer_event = SendFrame 'f | SendRaw octets | WriterTurn | StopWriter

fun conn_step :: "('f \<Rightarrow> octets option) \<Rightarrow> 'f peerConn \<Rightarrow> 'f writer_event \<Rightarrow> 'f controlMsg list \<times> 'f peerConn" where
  "conn_step marshal pc (SendFrame f) =
     (case sendControl pc f of (ok, pc') \<Rightarrow> (if ok then [\<lparr>cm_frame = Some f, cm_raw = None\<rparr>] else [], pc'))"
| "conn_step marshal pc (SendRaw d) =
     (case sendControlRaw pc d of (ok, pc') \<Rightarrow> (if ok then [\<lparr>cm_frame = None, cm_raw = Some d\<rparr>] else [], pc'))"
| "conn_step marshal pc WriterTurn = ([], controlWriteStep marshal pc)"
| "conn_step marshal pc StopWriter = ([], stopWriter marshal pc)"

fun conn_run :: "('f \<Rightarrow> octets option) \<Rightarrow> 'f peerConn \<Rightarrow> 'f writer_event list \<Rightarrow> 'f controlMsg list \<times> 'f peerConn" where
  "conn_run marshal pc [] = ([], pc)"
| "conn_run marshal pc (ev # evs) =
     (let (acc, pc1) = conn_step marshal pc ev; (accs, pc2) = conn_run marshal pc1 evs in (acc @ accs, pc2))"

text \<open>
  The accepted messages are those written, at most one that was lost with the stream, and the queue. The stream holds
  the first, and part of the lost one.
\<close>

definition pipe_ok :: "('f \<Rightarrow> octets option) \<Rightarrow> octets \<Rightarrow> 'f controlMsg list \<Rightarrow> 'f peerConn \<Rightarrow> bool" where [inv_defs]:
  "pipe_ok marshal out acc pc \<longleftrightarrow>
     (\<exists>wr lost tl. acc = wr @ lost @ peer_writeCh pc \<and> list_all well_set acc \<and>
        (\<forall>m\<in>set wr. payload marshal m \<noteq> None) \<and>
        w_out (peer_control pc) = out @ concat (map (\<lambda>m. encode (the (payload marshal m))) wr) @ tl \<and>
        (lost = [] \<longrightarrow> tl = []) \<and> (lost \<noteq> [] \<longrightarrow> peer_writerDone pc) \<and> length lost \<le> 1) \<and>
     length (peer_writeCh pc) \<le> controlWriteQueueSize"

lemma pipe_ok_cong:
  "pipe_ok marshal out acc pc \<Longrightarrow> peer_writeCh pc' = peer_writeCh pc \<Longrightarrow> peer_control pc' = peer_control pc \<Longrightarrow>
   peer_writerDone pc \<longrightarrow> peer_writerDone pc' \<Longrightarrow> pipe_ok marshal out acc pc'"
  unfolding pipe_ok_def by (elim conjE exE, intro conjI, rule_tac x=wr in exI, rule_tac x=lost in exI, rule_tac x=tl in exI) auto

lemma pipe_ok_write:
  assumes "pipe_ok marshal out acc pc"
  shows "pipe_ok marshal out acc (controlWriteStep marshal pc)"
proof (cases "peer_writerDone pc \<or> peer_writeCh pc = []")
  case True
  then show ?thesis using assms by (auto simp: controlWriteStep_def intro: pipe_ok_cong)
next
  case False
  then obtain msg queue where q: "peer_writeCh pc = msg # queue" "\<not> peer_writerDone pc" by (cases "peer_writeCh pc") auto
  obtain wr lost tl where w: "acc = wr @ lost @ peer_writeCh pc" "list_all well_set acc"
      "\<forall>m\<in>set wr. payload marshal m \<noteq> None"
      "w_out (peer_control pc) = out @ concat (map (\<lambda>m. encode (the (payload marshal m))) wr) @ tl"
      "lost = [] \<longrightarrow> tl = []" "lost \<noteq> [] \<longrightarrow> peer_writerDone pc" "length (peer_writeCh pc) \<le> controlWriteQueueSize"
    using assms unfolding pipe_ok_def by blast
  have e: "lost = []" "tl = []" using w(5,6) q(2) by auto
  have ws: "well_set msg" using w(1,2) q(1) by simp
  obtain err w' where m: "write_msg marshal (stream_of pc) msg = (err, w')" by fastforce
  have so: "w_out (stream_of pc) = w_out (peer_control pc)" by (simp add: stream_of_def)
  note sp = write_msg_spec [OF m ws, unfolded so]
  show ?thesis
  proof (cases "err = None")
    case True
    then have "pipe_ok marshal out acc (pc\<lparr>peer_writeCh := queue, peer_control := w'\<rparr>)"
      using sp(1) w e q unfolding pipe_ok_def
      by (intro conjI exI [of _ "wr @ [msg]"] exI [of _ "[]"]) auto
    then show ?thesis using q m True by (simp add: controlWriteStep_def)
  next
    case False
    then obtain p where "w_out w' = w_out (peer_control pc) @ p" using sp(2) by blast
    then have "pipe_ok marshal out acc
        (pc\<lparr>peer_writeCh := queue, peer_control := w', peer_controlClosed := True, peer_writerDone := True\<rparr>)"
      using w e q unfolding pipe_ok_def
      by (intro conjI exI [of _ wr] exI [of _ "[msg]"] exI [of _ p]) auto
    then show ?thesis using q m False by (simp add: controlWriteStep_def)
  qed
qed

lemma pipe_ok_push:
  assumes "pipe_ok marshal out acc pc" "length (peer_writeCh pc) < controlWriteQueueSize" "well_set m"
  shows "pipe_ok marshal out (acc @ [m]) (pc\<lparr>peer_writeCh := peer_writeCh pc @ [m]\<rparr>)"
proof -
  obtain wr lost tl where w: "acc = wr @ lost @ peer_writeCh pc" "list_all well_set acc"
      "\<forall>m\<in>set wr. payload marshal m \<noteq> None"
      "w_out (peer_control pc) = out @ concat (map (\<lambda>m. encode (the (payload marshal m))) wr) @ tl"
      "lost = [] \<longrightarrow> tl = []" "lost \<noteq> [] \<longrightarrow> peer_writerDone pc" "length lost \<le> 1"
    using assms(1) unfolding pipe_ok_def by blast
  then show ?thesis using assms(2,3) unfolding pipe_ok_def
    by (intro conjI exI [of _ wr] exI [of _ lost] exI [of _ tl]) auto
qed

lemma pipe_ok_step:
  assumes "pipe_ok marshal out acc pc" "conn_step marshal pc ev = (new, pc')"
  shows "pipe_ok marshal out (acc @ new) pc'"
proof -
  have it: "pipe_ok marshal out acc x \<Longrightarrow> pipe_ok marshal out acc ((controlWriteStep marshal ^^ n) x)" for n x
    by (induction n) (auto intro: pipe_ok_write)
  show ?thesis
  proof (cases ev)
    case (SendFrame f)
    then show ?thesis using assms pipe_ok_push [OF assms(1)]
      by (auto simp: sendControl_def well_set_def split: if_splits)
  next
    case (SendRaw d)
    then show ?thesis using assms pipe_ok_push [OF assms(1)]
      by (auto simp: sendControlRaw_def well_set_def split: if_splits)
  next
    case WriterTurn
    then show ?thesis using assms pipe_ok_write by auto
  next
    case StopWriter
    let ?pc1 = "pc\<lparr>peer_writerStopped := True, peer_chClosed := True, peer_controlClosed := True\<rparr>"
    have "pipe_ok marshal out acc ?pc1" by (rule pipe_ok_cong [OF assms(1)]) simp_all
    then have "pipe_ok marshal out acc (stopWriter marshal pc)"
      unfolding stopWriter_def Let_def by (rule it)
    then show ?thesis using assms(2) StopWriter by simp
  qed
qed

lemma pipe_ok_run:
  "pipe_ok marshal out acc pc \<Longrightarrow> conn_run marshal pc evs = (new, pc') \<Longrightarrow> pipe_ok marshal out (acc @ new) pc'"
proof (induction evs arbitrary: acc pc new pc')
  case (Cons ev evs)
  obtain a pc1 where s: "conn_step marshal pc ev = (a, pc1)" by fastforce
  obtain b pc2 where r: "conn_run marshal pc1 evs = (b, pc2)" by fastforce
  have e: "new = a @ b" "pc' = pc2" using Cons.prems(2) s r by simp_all
  show ?case using Cons.IH [OF pipe_ok_step [OF Cons.prems(1) s] r] by (simp add: e)
qed simp

text \<open>\<open>stopWriter\<close> returns: every round either ends the goroutine or takes a message off the closed queue.\<close>

lemma write_step_shrinks:
  "peer_chClosed (controlWriteStep marshal pc) = peer_chClosed pc"
  "peer_writerStopped (controlWriteStep marshal pc) = peer_writerStopped pc"
  "peer_chClosed pc \<Longrightarrow> peer_writerDone (controlWriteStep marshal pc) \<or>
     length (peer_writeCh pc) = Suc (length (peer_writeCh (controlWriteStep marshal pc)))"
  "peer_writerDone pc \<Longrightarrow> controlWriteStep marshal pc = pc"
  by (auto simp: controlWriteStep_def Let_def split: list.splits prod.splits)

lemma stopped_writer_done:
  "peer_chClosed pc \<Longrightarrow> length (peer_writeCh pc) < n \<Longrightarrow> peer_writerDone ((controlWriteStep marshal ^^ n) pc)"
proof (induction n arbitrary: pc)
  case (Suc n)
  have keep: "peer_writerDone x \<Longrightarrow> peer_writerDone ((controlWriteStep marshal ^^ k) x)" for x k
    by (induction k) (auto simp: write_step_shrinks(4))
  show ?case
  proof (cases "peer_writerDone (controlWriteStep marshal pc)")
    case True
    then show ?thesis using keep by (simp add: funpow_Suc_right del: funpow.simps)
  next
    case False
    then show ?thesis
      using Suc.IH [of "controlWriteStep marshal pc"] write_step_shrinks(1) [of marshal pc] write_step_shrinks(3) [of pc marshal] Suc.prems
      by (simp add: funpow_Suc_right del: funpow.simps)
  qed
qed simp

lemma stopWriter_stops: "peer_writerDone (stopWriter marshal pc)" "peer_writerStopped (stopWriter marshal pc)"
proof -
  show "peer_writerDone (stopWriter marshal pc)"
    unfolding stopWriter_def Let_def by (rule stopped_writer_done) simp_all
  have "peer_writerStopped ((controlWriteStep marshal ^^ n) x) = peer_writerStopped x" for n x
    by (induction n) (simp_all add: write_step_shrinks(2))
  then show "peer_writerStopped (stopWriter marshal pc)" by (simp add: stopWriter_def Let_def del: funpow.simps)
qed

text \<open>
  Property C8. The asynchronous control channel is faithful. Whatever sends, turns of the writer goroutine and stops happen
  on a new connection, the messages whose sends returned true are, in this order, those the peer reads from
  the stream, then at most one that was lost with a broken stream, then those still queued, never more than
  64; nothing is lost while the writer runs. Frames within \<open>MaxFrameSize\<close> always fit the peer's budget. And
  stopping the writer never hangs: it ends the goroutine, and later sends are refused.
\<close>

theorem control_channel_faithful:
  fixes marshal :: "'f \<Rightarrow> octets option"
  assumes run: "conn_run marshal (newPeerConnWithWriter nodeID \<lparr>w_out = [], w_room = room\<rparr> key) evs = (acc, pc)"
    and size: "\<forall>m\<in>set acc. \<forall>d. payload marshal m = Some d \<longrightarrow> length d \<le> MaxFrameSize"
  shows "(\<exists>wr lost. acc = wr @ lost @ peer_writeCh pc \<and> length lost \<le> 1 \<and> (lost \<noteq> [] \<longrightarrow> peer_writerDone pc) \<and>
      length (peer_writeCh pc) \<le> 64 \<and>
      fst (recv_all unmarshal (length wr) (NewFrameReader peerFrameBudget) (w_out (peer_control pc))) =
        map (\<lambda>m. UnmarshalFrame unmarshal (the (payload marshal m))) wr) \<and>
      (peer_writerDone (stopWriter marshal pc) \<and> \<not> fst (sendControl (stopWriter marshal pc) f) \<and>
      \<not> fst (sendControlRaw (stopWriter marshal pc) d))"
proof -
  have "pipe_ok marshal [] [] (newPeerConnWithWriter nodeID \<lparr>w_out = [], w_room = room\<rparr> key)"
    by (simp add: pipe_ok_def newPeerConnWithWriter_def)
  then have "pipe_ok marshal [] acc pc" using pipe_ok_run [OF _ run, of "[]" "[]"] by simp
  then obtain wr lost tl where w: "acc = wr @ lost @ peer_writeCh pc"
      "\<forall>m\<in>set wr. payload marshal m \<noteq> None"
      "w_out (peer_control pc) = concat (map (\<lambda>m. encode (the (payload marshal m))) wr) @ tl"
      "lost \<noteq> [] \<longrightarrow> peer_writerDone pc" "length lost \<le> 1" "length (peer_writeCh pc) \<le> controlWriteQueueSize"
    unfolding pipe_ok_def by auto
  let ?ds = "map (\<lambda>m. the (payload marshal m)) wr"
  have ds: "\<forall>d\<in>set ?ds. length d \<le> MaxFrameSize" using w(1,2) size by fastforce
  have fit: "\<not> (d \<noteq> [] \<and> int (length d) > peerFrameBudget)" if "d \<in> set ?ds" for d
    using ds that by (force simp: MaxFrameSize_def peerFrameBudget_def)
  have "fst (recv_all unmarshal (length ?ds) (NewFrameReader peerFrameBudget) (concat (map encode ?ds) @ tl)) =
      map (\<lambda>d. UnmarshalFrame unmarshal d) ?ds"
    using fit by (subst recv_all_encoded [OF ds]) (auto simp: NewFrameReader_def)
  then have "fst (recv_all unmarshal (length wr) (NewFrameReader peerFrameBudget) (w_out (peer_control pc))) =
      map (\<lambda>m. UnmarshalFrame unmarshal (the (payload marshal m))) wr"
    by (simp add: w(3) comp_def)
  then have "\<exists>wr lost. acc = wr @ lost @ peer_writeCh pc \<and> length lost \<le> 1 \<and> (lost \<noteq> [] \<longrightarrow> peer_writerDone pc) \<and>
      length (peer_writeCh pc) \<le> 64 \<and>
      fst (recv_all unmarshal (length wr) (NewFrameReader peerFrameBudget) (w_out (peer_control pc))) =
        map (\<lambda>m. UnmarshalFrame unmarshal (the (payload marshal m))) wr"
    using w by (intro exI [of _ wr] exI [of _ lost]) (auto simp: controlWriteQueueSize_def)
  moreover have "peer_writerDone (stopWriter marshal pc) \<and> \<not> fst (sendControl (stopWriter marshal pc) f) \<and>
      \<not> fst (sendControlRaw (stopWriter marshal pc) d)"
    by (simp add: stopWriter_stops sendControl_def sendControlRaw_def)
  ultimately show ?thesis by blast
qed

theorem control_channel_faithful_witness:
  "\<exists>wr lost. [\<lparr>cm_frame = Some [1::8 word], cm_raw = None\<rparr>, \<lparr>cm_frame = None, cm_raw = Some [2, 3]\<rparr>] =
       wr @ lost @ [\<lparr>cm_frame = None, cm_raw = Some [2, 3]\<rparr>] \<and>
     fst (recv_all Some (length wr) (NewFrameReader peerFrameBudget) [0, 0, 0, 1, 1]) =
       map (\<lambda>m. UnmarshalFrame Some (the (payload Some m))) wr"
proof -
  define pc0 where "pc0 = (newPeerConnWithWriter ''b'' \<lparr>w_out = [], w_room = None\<rparr> [] :: octets peerConn)"
  define acc where "acc = [\<lparr>cm_frame = Some [1::8 word], cm_raw = None\<rparr>, \<lparr>cm_frame = None, cm_raw = Some [2, 3]\<rparr>]"
  define pc where "pc = snd (conn_run Some pc0 [SendFrame [1], SendRaw [2, 3], WriterTurn])"
  have r: "conn_run Some pc0 [SendFrame [1], SendRaw [2, 3], WriterTurn] = (acc, pc)"
    and q: "peer_writeCh pc = [\<lparr>cm_frame = None, cm_raw = Some [2, 3]\<rparr>]"
    and o: "w_out (peer_control pc) = [0, 0, 0, 1, 1]"
    by (simp_all add: pc_def pc0_def acc_def newPeerConnWithWriter_def sendControl_def sendControlRaw_def
        controlWriteQueueSize_def controlWriteStep_def write_msg_def stream_of_def WriteFrame_def w_write_def put_uint32_def)
  have s: "\<forall>m\<in>set acc. \<forall>d. payload Some m = Some d \<longrightarrow> length d \<le> MaxFrameSize"
    by (auto simp: acc_def payload_def MaxFrameSize_def)
  obtain wr lost where w: "acc = wr @ lost @ peer_writeCh pc"
      "fst (recv_all Some (length wr) (NewFrameReader peerFrameBudget) (w_out (peer_control pc))) =
         map (\<lambda>m. UnmarshalFrame Some (the (payload Some m))) wr"
    using control_channel_faithful [OF r [unfolded pc0_def] s, where unmarshal = Some, THEN conjunct1]
    by (elim exE conjE) (rule that)
  show ?thesis
    by (rule exI [of _ wr], rule exI [of _ lost], rule conjI [OF w(1) [unfolded q acc_def] w(2) [unfolded o]])
qed

section \<open>Broadcasts\<close>

text \<open>The manager is well formed: its map leads to connections of the node it names.\<close>

definition pm_inv :: "'f peerManager \<Rightarrow> bool" where [inv_defs]:
  "pm_inv pm \<longleftrightarrow> (\<forall>k c. pm_peers pm k = Some c \<longrightarrow> c < length (pm_conns pm) \<and> peer_nodeID (pm_conns pm ! c) = k)"

text \<open>What a broadcast does to the connections, without the counters.\<close>

definition on_conns :: "('f peerConn \<Rightarrow> bool) \<Rightarrow> ('f peerConn \<Rightarrow> 'f peerConn) \<Rightarrow> nat list \<Rightarrow> 'f peerManager \<Rightarrow> 'f peerManager" where
  "on_conns P f cs pm = foldl (\<lambda>pm c. if P (pm_conns pm ! c) then pm_update c f pm else pm) pm cs"

lemma on_conns_Nil [simp]: "on_conns P f [] pm = pm"
  by (simp add: on_conns_def)

lemma on_conns_Cons: "on_conns P f (c # cs) pm = on_conns P f cs (if P (pm_conns pm ! c) then pm_update c f pm else pm)"
  by (simp add: on_conns_def)

lemma on_conns_peers [simp]: "pm_peers (on_conns P f cs pm) = pm_peers pm"
  by (induction cs arbitrary: pm) (auto simp: on_conns_Cons pm_update_def)

lemma on_conns_length [simp]: "length (pm_conns (on_conns P f cs pm)) = length (pm_conns pm)"
  by (induction cs arbitrary: pm) (auto simp: on_conns_Cons pm_update_def)

lemma upd_nth: "i < length xs \<Longrightarrow> xs[c := f (xs ! c)] ! i = (if i = c then f (xs ! i) else xs ! i)"
  by (cases "i = c") simp_all

lemma on_conns_nth:
  "distinct cs \<Longrightarrow> i < length (pm_conns pm) \<Longrightarrow>
   pm_conns (on_conns P f cs pm) ! i = (if i \<in> set cs \<and> P (pm_conns pm ! i) then f (pm_conns pm ! i) else pm_conns pm ! i)"
proof (induction cs arbitrary: pm)
  case (Cons c cs)
  then have "i < length (pm_conns (if P (pm_conns pm ! c) then pm_update c f pm else pm))" by (simp add: pm_update_def)
  with Cons show ?case by (auto simp: on_conns_Cons pm_update_def upd_nth)
qed simp

lemma pm_send_update: "snd (pm_send c frame pm) = pm_update c (\<lambda>pc. snd (sendControl pc frame)) pm"
  by (simp add: pm_send_def pm_update_def split: prod.split)

lemma count_send_pm: "snd (snd (count_send r sd)) = snd r"
  by (cases r) (simp add: count_send_def)

lemma fold_pm:
  assumes "\<And>s d pm c. snd (snd (h (s, d, pm) c)) = (if P (pm_conns pm ! c) then pm_update c f pm else pm)"
  shows "snd (snd (foldl h (s, d, pm) cs)) = on_conns P f cs pm"
proof (induction cs arbitrary: s d pm)
  case (Cons c cs)
  obtain s' d' pm' where h: "h (s, d, pm) c = (s', d', pm')" by (cases "h (s, d, pm) c") auto
  then have "pm' = (if P (pm_conns pm ! c) then pm_update c f pm else pm)" using assms [of s d pm c] by simp
  then show ?case using Cons.IH [of s' d' pm'] h by (simp add: on_conns_Cons)
qed simp

lemma broadcast_conns:
  "snd (snd (broadcastAllPeers walk pm frame)) = on_conns (\<lambda>_. True) (\<lambda>pc. snd (sendControl pc frame)) (pm_All walk pm) pm"
  "snd (snd (broadcastExceptPeer walk pm excl frame)) =
     on_conns (\<lambda>pc. peer_nodeID pc \<noteq> excl) (\<lambda>pc. snd (sendControl pc frame)) (pm_All walk pm) pm"
  "snd (snd (broadcastAllRaw walk pm d)) = on_conns (\<lambda>_. True) (\<lambda>pc. snd (sendControlRaw pc d)) (pm_All walk pm) pm"
  unfolding broadcastAllPeers_def broadcastExceptPeer_def broadcastAllRaw_def pm_ForEach_def
  by (rule fold_pm, simp add: count_send_pm pm_send_update pm_update_def split: prod.split)+

text \<open>The map is injective, so a walk of it reaches every connection once.\<close>

lemma pm_All_distinct:
  assumes "pm_inv pm" "walk_of walk (pm_peers pm)"
  shows "distinct (pm_All walk pm)" and "set (pm_All walk pm) = ran (pm_peers pm)"
proof -
  have d: "distinct walk" "\<And>k. k \<in> set walk \<longleftrightarrow> pm_peers pm k \<noteq> None" using walk_ofD [OF assms(2)] by auto
  have "inj_on (\<lambda>k. the (pm_peers pm k)) (set walk)"
  proof (rule inj_onI)
    fix a b assume ab: "a \<in> set walk" "b \<in> set walk" "the (pm_peers pm a) = the (pm_peers pm b)"
    then obtain c where "pm_peers pm a = Some c" "pm_peers pm b = Some c" using d(2) by fastforce
    then show "a = b" using assms(1) by (auto simp: pm_inv_def)
  qed
  then show "distinct (pm_All walk pm)" by (simp add: pm_All_def distinct_map d(1))
  show "set (pm_All walk pm) = ran (pm_peers pm)"
    by (auto simp: pm_All_def ran_def d(2)) (force simp: d(2))
qed

lemma sendControl_keeps [simp]:
  "peer_nodeID (snd (sendControl pc frame)) = peer_nodeID pc"
  "peer_nodeID (snd (sendControlRaw pc d)) = peer_nodeID pc"
  by (simp_all add: sendControl_def sendControlRaw_def)

lemma pm_inv_on_conns [inv_intros]:
  assumes "pm_inv pm" "\<And>pc. peer_nodeID (f pc) = peer_nodeID pc"
  shows "pm_inv (on_conns P f cs pm)"
proof -
  have "peer_nodeID (pm_conns (on_conns P f cs pm) ! c) = peer_nodeID (pm_conns pm ! c)" if "c < length (pm_conns pm)" for c
    using that
  proof (induction cs arbitrary: pm)
    case (Cons d cs)
    then show ?case using assms(2) by (auto simp: on_conns_Cons pm_update_def upd_nth)
  qed simp
  with assms(1) show ?thesis by (auto simp: pm_inv_def)
qed

lemma pm_inv_new [inv_intros]: "pm_inv newPeerManager"
  by (simp add: pm_inv_def newPeerManager_def)

lemma pm_inv_update [inv_intros]:
  "pm_inv pm \<Longrightarrow> (\<And>pc. peer_nodeID (f pc) = peer_nodeID pc) \<Longrightarrow> pm_inv (pm_update c f pm)"
  using pm_inv_on_conns [of pm f "\<lambda>_. True" "[c]"] by (simp add: on_conns_Cons)

lemma pm_inv_send [inv_intros]: "pm_inv pm \<Longrightarrow> pm_inv (snd (pm_send c frame pm))"
  by (simp add: pm_send_update pm_inv_update)

lemma pm_inv_Add [inv_intros]: "pm_inv pm \<Longrightarrow> peer_nodeID pc = nodeID \<Longrightarrow> pm_inv (snd (pm_Add pm nodeID pc))"
  by (auto simp: pm_inv_def pm_Add_def Let_def nth_append less_Suc_eq)

lemma pm_inv_Remove [inv_intros]: "pm_inv pm \<Longrightarrow> pm_inv (pm_Remove pm nodeID)"
  by (auto simp: pm_inv_def pm_Remove_def)

end
