(* ===== verification/Nucleus.thy ===== *)
theory Nucleus
  imports GoText
begin

text \<open>
  Model of \<open>pkg/mesh/nucleus\<close>, what a node knows about itself and about others: the manifest of its
  capabilities and its impedance (\<open>manifest.go\<close>), the calculation of the impedance from the load
  (\<open>impedance.go\<close>), and the cache of host names and addresses (\<open>resolver.go\<close>) with its three feeds, the
  configured hosts, a file in the format of \<open>/etc/hosts\<close> and the entries gossiped by peers. Every method
  runs under its lock or on one atomic variable, so the operations are functions on the state; readings
  of the clock, of the load and the order of map walks are arguments.
\<close>

section \<open>Manifest\<close>

definition MinImpedance :: real where "MinImpedance = 1"
definition MaxImpedance :: real where "MaxImpedance = 100"

record manifest =
  m_nodeID :: node_id
  m_capabilities :: "string set"
  m_impedance :: f64
  m_addresses :: "string list"

record manifestSnapshot =
  ms_nodeID :: node_id
  ms_capabilities :: "string list"
  ms_impedance :: f64
  ms_addresses :: "string list"

definition NewManifest :: "node_id \<Rightarrow> manifest" where
  "NewManifest nodeID =
     \<lparr>m_nodeID = nodeID, m_capabilities = {}, m_impedance = Num MinImpedance, m_addresses = []\<rparr>"

definition RegisterCapability :: "manifest \<Rightarrow> string \<Rightarrow> manifest" where
  "RegisterCapability m capability = m\<lparr>m_capabilities := insert capability (m_capabilities m)\<rparr>"

definition HasCapability :: "manifest \<Rightarrow> string \<Rightarrow> bool" where
  "HasCapability m capability =
     (if suffix '':*'' capability then
        (let pre = butlast capability in \<exists>cap \<in> m_capabilities m. prefix pre cap)
      else capability \<in> m_capabilities m)"

definition clamp_impedance :: "f64 \<Rightarrow> f64" where
  "clamp_impedance value0 =
     (let value1 = (if flt value0 (Num MinImpedance) then Num MinImpedance else value0)
      in if flt (Num MaxImpedance) value1 then Num MaxImpedance else value1)"

definition SetImpedance :: "manifest \<Rightarrow> f64 \<Rightarrow> manifest" where
  "SetImpedance m value = m\<lparr>m_impedance := clamp_impedance value\<rparr>"

definition SetAddresses :: "manifest \<Rightarrow> string list \<Rightarrow> manifest" where
  "SetAddresses m addrs = m\<lparr>m_addresses := addrs\<rparr>"

text \<open>\<open>walk\<close> is the order in which the capabilities are read off the map.\<close>

definition m_Snapshot :: "string list \<Rightarrow> manifest \<Rightarrow> manifestSnapshot" where
  "m_Snapshot walk m =
     \<lparr>ms_nodeID = m_nodeID m, ms_capabilities = walk, ms_impedance = m_impedance m, ms_addresses = m_addresses m\<rparr>"

section \<open>Impedance\<close>

text \<open>Multiplication of a \<open>float64\<close> by a positive constant.\<close>

fun fscale :: "real \<Rightarrow> f64 \<Rightarrow> f64" where
  "fscale k (Num a) = Num (k * a)"
| "fscale k x = x"

definition cpuWeight :: real where "cpuWeight = 60 / 100"
definition memWeight :: real where "memWeight = 25 / 100"
definition streamWeight :: real where "streamWeight = 15 / 100"
definition maxStreamPressure :: real where "maxStreamPressure = 500"

definition clampNorm :: "f64 \<Rightarrow> f64" where
  "clampNorm v = (if flt v (Num 0) then Num 0 else if flt (Num 1) v then Num 1 else v)"

text \<open>
  The calculator's own state is the stream counter, an \<open>atomic.Int64\<close>. \<open>Calculate\<close> gets the two
  percentages its metric source returns.
\<close>

definition Calculate :: "f64 \<Rightarrow> f64 \<Rightarrow> int \<Rightarrow> f64" where
  "Calculate cpuPercent memPercent streams =
     (let cpuNorm = clampNorm (fscale (1 / 100) cpuPercent);
          memNorm = clampNorm (fscale (1 / 100) memPercent);
          streamCount0 = (of_int streams :: real);
          streamCount = (if streamCount0 < 0 then 0 else streamCount0);
          streamNorm0 = streamCount / maxStreamPressure;
          streamNorm = (if streamNorm0 > 1 then 1 else streamNorm0);
          composite = fadd (fadd (fscale cpuWeight cpuNorm) (fscale memWeight memNorm)) (Num (streamNorm * streamWeight));
          impedance = fadd (Num MinImpedance) (fscale (MaxImpedance - MinImpedance) composite)
      in clamp_impedance impedance)"

definition ic_Update :: "f64 \<Rightarrow> f64 \<Rightarrow> int \<Rightarrow> manifest \<Rightarrow> manifest" where
  "ic_Update cpuPercent memPercent streams m = SetImpedance m (Calculate cpuPercent memPercent streams)"

definition AddStreams :: "int \<Rightarrow> int \<Rightarrow> int" where
  "AddStreams streams n = i64 (streams + n)"

text \<open>The compare-and-swap loop writes this value for the counter it read when nobody interferes.\<close>

definition RemoveStreams :: "int \<Rightarrow> int \<Rightarrow> int" where
  "RemoveStreams streams n = (let newVal = i64 (streams - n) in if newVal < 0 then 0 else newVal)"

section \<open>Addresses\<close>

text \<open>\<open>net.ParseIP\<close> as a test: dotted decimal IPv4, or IPv6 without a zone.\<close>

definition octet :: "string \<Rightarrow> bool" where
  "octet f \<longleftrightarrow> f \<noteq> [] \<and> list_all is_digit f \<and> (length f = 1 \<or> hd f \<noteq> CHR ''0'') \<and> dec_val f \<le> 255"

definition parse_ipv4 :: "string \<Rightarrow> bool" where
  "parse_ipv4 s = (let fs = split_on CHR ''.'' s in length fs = 4 \<and> list_all octet fs)"

definition is_hex :: "char \<Rightarrow> bool" where
  "is_hex c \<longleftrightarrow> is_digit c \<or> c \<in> set ''abcdefABCDEF''"

definition ipv6_end :: "nat \<Rightarrow> bool \<Rightarrow> string \<Rightarrow> bool" where
  "ipv6_end i ellipsis s \<longleftrightarrow> s = [] \<and> (if i < 16 then ellipsis else \<not> ellipsis)"

fun ipv6_loop :: "nat \<Rightarrow> nat \<Rightarrow> bool \<Rightarrow> string \<Rightarrow> bool" where
  "ipv6_loop 0 i ellipsis s = ipv6_end i ellipsis s"
| "ipv6_loop (Suc groups) i ellipsis s =
     (let hs = takeWhile is_hex s; s1 = drop (length hs) s in
      if hs = [] \<or> length hs > 4 then False
      else if s1 \<noteq> [] \<and> hd s1 = CHR ''.'' then
        (if \<not> ellipsis \<and> i \<noteq> 12 \<or> i + 4 > 16 then False else parse_ipv4 s \<and> ipv6_end (i + 4) ellipsis [])
      else if s1 = [] then ipv6_end (i + 2) ellipsis []
      else if hd s1 \<noteq> CHR '':'' \<or> length s1 = 1 then False
      else let s2 = tl s1 in
        if hd s2 = CHR '':'' then
          (if ellipsis then False
           else if tl s2 = [] then ipv6_end (i + 2) True [] else ipv6_loop groups (i + 2) True (tl s2))
        else ipv6_loop groups (i + 2) ellipsis s2)"

definition parse_ipv6 :: "string \<Rightarrow> bool" where
  "parse_ipv6 s =
     (if prefix ''::'' s then (drop 2 s = [] \<or> ipv6_loop 8 0 True (drop 2 s)) else ipv6_loop 8 0 False s)"

definition ParseIP :: "string \<Rightarrow> bool" where
  "ParseIP s =
     (case filter (\<lambda>c. c \<in> set ''.:%'') s of
        [] \<Rightarrow> False
      | c # _ \<Rightarrow> if c = CHR ''.'' then parse_ipv4 s
                 else if c = CHR '':'' then CHR ''%'' \<notin> set s \<and> parse_ipv6 s
                 else False)"

text \<open>\<open>bufio.Scanner\<close> over lines: a line of 64 KiB or more ends the scan with an error.\<close>

definition drop_cr :: "string \<Rightarrow> string" where
  "drop_cr l = (if l \<noteq> [] \<and> last l = CHR 0x0D then butlast l else l)"

definition scan_lines :: "string \<Rightarrow> string list \<times> bool" where
  "scan_lines s =
     (let raw0 = split_on CHR 0x0A s;
          raw = (if last raw0 = [] then butlast raw0 else raw0);
          ok = takeWhile (\<lambda>l. length l < 65536) raw
      in (map drop_cr ok, length ok < length raw))"

function str_fields :: "string \<Rightarrow> string list" where
  "str_fields [] = []"
| "str_fields (x # xs) =
     (if is_space x then str_fields xs
      else (x # takeWhile (\<lambda>c. \<not> is_space c) xs) # str_fields (dropWhile (\<lambda>c. \<not> is_space c) xs))"
  by pat_completeness auto

termination str_fields
  by (relation "measure length") (auto simp: less_Suc_eq_le length_dropWhile_le)

section \<open>Resolver\<close>

text \<open>
  A record keeps its addresses in order and, for the duplicate test, as a set, which is a Go map and so
  may be nil (\<open>None\<close>). The zero time, which never expires, is \<open>None\<close>. The cache maps host names to records.
\<close>

record resolverRecord =
  rr_addresses :: "string list"
  rr_addrSet :: "string set option"
  rr_transport :: string
  rr_proxyURL :: string
  rr_expiresAt :: "time option"

type_synonym resolver = "string \<rightharpoonup> resolverRecord"

record resolverEntry =
  re_hostname :: string
  re_addresses :: "string list"
  re_transport :: string
  re_proxyURL :: string
  re_expiresAt :: "time option"

record dialTarget =
  dt_hostname :: string
  dt_address :: string
  dt_transport :: string
  dt_proxyURL :: string

definition isExpired :: "time \<Rightarrow> resolverRecord \<Rightarrow> bool" where
  "isExpired now r = (case rr_expiresAt r of None \<Rightarrow> False | Some t \<Rightarrow> now > t)"

definition NewResolver :: resolver where
  "NewResolver = Map.empty"

definition AddEntryFull :: "time \<Rightarrow> resolver \<Rightarrow> string \<Rightarrow> string list \<Rightarrow> duration \<Rightarrow> string \<Rightarrow> string \<Rightarrow> resolver" where
  "AddEntryFull now r hostname addresses ttl transport proxyURL =
     (let expiresAt = (if ttl > 0 then Some (now + ttl) else None)
      in r(hostname \<mapsto> \<lparr>rr_addresses = addresses, rr_addrSet = Some (set addresses), rr_transport = transport,
                        rr_proxyURL = proxyURL, rr_expiresAt = expiresAt\<rparr>))"

definition AddEntry :: "time \<Rightarrow> resolver \<Rightarrow> string \<Rightarrow> string list \<Rightarrow> duration \<Rightarrow> resolver" where
  "AddEntry now r hostname addresses ttl = AddEntryFull now r hostname addresses ttl [] []"

definition AddEntryWithTransport :: "time \<Rightarrow> resolver \<Rightarrow> string \<Rightarrow> string list \<Rightarrow> duration \<Rightarrow> string \<Rightarrow> resolver" where
  "AddEntryWithTransport now r hostname addresses ttl transport =
     AddEntryFull now r hostname addresses ttl transport []"

definition Resolve :: "time \<Rightarrow> resolver \<Rightarrow> string \<Rightarrow> string list" where
  "Resolve now r hostname =
     (case r hostname of
        None \<Rightarrow> []
      | Some rec \<Rightarrow> if isExpired now rec then [] else rr_addresses rec)"

definition SeedKnownHosts :: "time \<Rightarrow> string list \<Rightarrow> resolver \<Rightarrow> (string \<rightharpoonup> string list) \<Rightarrow> resolver" where
  "SeedKnownHosts now walk r hosts = foldl (\<lambda>r hostname. AddEntry now r hostname (the (hosts hostname)) 0) r walk"

text \<open>
  One host name of a line of the hosts file. Writing to a nil map panics, which is \<open>None\<close>.
\<close>

definition record_ip :: "string \<Rightarrow> resolver \<Rightarrow> string \<Rightarrow> resolver option" where
  "record_ip ip r hostname =
     (case r hostname of
        None \<Rightarrow> Some (r(hostname \<mapsto> \<lparr>rr_addresses = [ip], rr_addrSet = Some {ip}, rr_transport = [],
                                     rr_proxyURL = [], rr_expiresAt = None\<rparr>))
      | Some rec \<Rightarrow>
          if (case rr_addrSet rec of None \<Rightarrow> False | Some s \<Rightarrow> ip \<in> s) then Some r
          else (case rr_addrSet rec of
                  None \<Rightarrow> None
                | Some s \<Rightarrow> Some (r(hostname \<mapsto> rec\<lparr>rr_addresses := rr_addresses rec @ [ip],
                                                   rr_addrSet := Some (insert ip s)\<rparr>))))"

fun hosts_loop :: "string \<Rightarrow> resolver \<times> string set \<Rightarrow> string list \<Rightarrow> (resolver \<times> string set) option" where
  "hosts_loop ip (r, added) [] = Some (r, added)"
| "hosts_loop ip (r, added) (hostname # hs) =
     (case record_ip ip r hostname of
        None \<Rightarrow> None
      | Some r' \<Rightarrow> hosts_loop ip (r', insert hostname added) hs)"

text \<open>The address and the host names of a line, unless the line is skipped.\<close>

definition host_line :: "string \<Rightarrow> (string \<times> string list) option" where
  "host_line line0 =
     (let line = trim_space line0 in
      if line = [] \<or> prefix ''#'' line then None
      else let fields = str_fields line in
        if length fields < 2 then None
        else if \<not> ParseIP (hd fields) then None
        else Some (hd fields, tl fields))"

fun lines_loop :: "resolver \<times> string set \<Rightarrow> string list \<Rightarrow> (resolver \<times> string set) option" where
  "lines_loop st [] = Some st"
| "lines_loop st (line # lines) =
     (case host_line line of
        None \<Rightarrow> lines_loop st lines
      | Some (ip, hostnames) \<Rightarrow>
          (case hosts_loop ip st hostnames of None \<Rightarrow> None | Some st' \<Rightarrow> lines_loop st' lines))"

text \<open>The result: the number of host names, whether the scanner failed, and the cache.\<close>

definition ParseHostsContent :: "resolver \<Rightarrow> string \<Rightarrow> (int \<times> bool \<times> resolver) option" where
  "ParseHostsContent r content =
     (let (lines, err) = scan_lines content in
      case lines_loop (r, {}) lines of
        None \<Rightarrow> None
      | Some (r', added) \<Rightarrow> Some (int (card added), err, r'))"

definition AllEntries :: "time \<Rightarrow> string list \<Rightarrow> resolver \<Rightarrow> resolverEntry list" where
  "AllEntries now walk r =
     map (\<lambda>h. let rec = the (r h) in
            \<lparr>re_hostname = h, re_addresses = rr_addresses rec, re_transport = rr_transport rec,
             re_proxyURL = rr_proxyURL rec, re_expiresAt = rr_expiresAt rec\<rparr>)
       (filter (\<lambda>h. \<not> isExpired now (the (r h))) walk)"

fun merge_addrs :: "resolverRecord \<Rightarrow> string list \<Rightarrow> resolverRecord" where
  "merge_addrs rec [] = rec"
| "merge_addrs rec (addr # addrs) =
     (if addr \<in> the (rr_addrSet rec) then merge_addrs rec addrs
      else merge_addrs (rec\<lparr>rr_addresses := rr_addresses rec @ [addr],
                            rr_addrSet := Some (insert addr (the (rr_addrSet rec)))\<rparr>) addrs)"

definition merge_entry :: "resolver \<Rightarrow> resolverEntry \<Rightarrow> resolver" where
  "merge_entry r entry =
     (case r (re_hostname entry) of
        None \<Rightarrow> r(re_hostname entry \<mapsto>
           \<lparr>rr_addresses = re_addresses entry, rr_addrSet = Some (set (re_addresses entry)),
            rr_transport = re_transport entry, rr_proxyURL = re_proxyURL entry, rr_expiresAt = None\<rparr>)
      | Some rec0 \<Rightarrow>
          (let rec1 = (if rr_transport rec0 = [] \<and> re_transport entry \<noteq> []
                       then rec0\<lparr>rr_transport := re_transport entry\<rparr> else rec0);
               rec2 = (if rr_proxyURL rec1 = [] \<and> re_proxyURL entry \<noteq> []
                       then rec1\<lparr>rr_proxyURL := re_proxyURL entry\<rparr> else rec1);
               rec3 = (if rr_addrSet rec2 = None
                       then rec2\<lparr>rr_addrSet := Some (set (rr_addresses rec2))\<rparr> else rec2)
           in r(re_hostname entry \<mapsto> merge_addrs rec3 (re_addresses entry))))"

definition Merge :: "resolver \<Rightarrow> resolverEntry list \<Rightarrow> resolver" where
  "Merge r entries = foldl merge_entry r entries"

definition AllDialTargets :: "time \<Rightarrow> string list \<Rightarrow> resolver \<Rightarrow> dialTarget list" where
  "AllDialTargets now walk r =
     concat (map (\<lambda>h. let rec = the (r h) in
         if isExpired now rec then []
         else map (\<lambda>addr. \<lparr>dt_hostname = h, dt_address = addr, dt_transport = rr_transport rec,
                           dt_proxyURL = rr_proxyURL rec\<rparr>) (rr_addresses rec))
       walk)"

section \<open>Lists that grow without duplicates\<close>

text \<open>The elements of \<open>xs\<close> that are new, in their order: what the duplicate tests let through.\<close>

fun fresh :: "'a list \<Rightarrow> 'a list \<Rightarrow> 'a list" where
  "fresh known [] = []"
| "fresh known (x # xs) = (if x \<in> set known then fresh known xs else x # fresh (known @ [x]) xs)"

lemma fresh_append: "fresh known (xs @ ys) = fresh known xs @ fresh (known @ fresh known xs) ys"
  by (induction known xs rule: fresh.induct) auto

lemma set_fresh: "set (fresh known xs) = set xs - set known"
  by (induction known xs rule: fresh.induct) auto

lemma distinct_fresh: "distinct (fresh known xs)"
  by (induction known xs rule: fresh.induct) (auto simp: set_fresh)

lemma fresh_Nil: "set xs \<subseteq> set known \<Longrightarrow> fresh known xs = []"
  by (induction known xs rule: fresh.induct) auto

section \<open>Records stay consistent\<close>

definition rec_ok :: "resolverRecord \<Rightarrow> bool" where [inv_defs]:
  "rec_ok rec \<longleftrightarrow> rr_addrSet rec = Some (set (rr_addresses rec))"

definition rv_inv :: "resolver \<Rightarrow> bool" where [inv_defs]:
  "rv_inv r \<longleftrightarrow> (\<forall>h rec. r h = Some rec \<longrightarrow> rec_ok rec)"

definition addrs_of :: "resolver \<Rightarrow> string \<Rightarrow> string list" where
  "addrs_of r h = (case r h of None \<Rightarrow> [] | Some rec \<Rightarrow> rr_addresses rec)"

lemma rv_inv_new [inv_intros]: "rv_inv NewResolver"
  by (simp add: rv_inv_def NewResolver_def)

lemma rv_inv_add [inv_intros]: "rv_inv r \<Longrightarrow> rv_inv (AddEntryFull now r h addrs ttl t p)"
  by (auto simp: rv_inv_def AddEntryFull_def rec_ok_def Let_def)

lemma rv_inv_seed [inv_intros]: "rv_inv r \<Longrightarrow> rv_inv (SeedKnownHosts now walk r hosts)"
  by (induction walk arbitrary: r) (simp_all add: SeedKnownHosts_def AddEntry_def rv_inv_add)

lemma merge_addrs_spec:
  assumes "rec_ok rec"
  shows "rec_ok (merge_addrs rec xs) \<and> rr_addresses (merge_addrs rec xs) = rr_addresses rec @ fresh (rr_addresses rec) xs \<and>
    rr_transport (merge_addrs rec xs) = rr_transport rec \<and> rr_proxyURL (merge_addrs rec xs) = rr_proxyURL rec \<and>
    rr_expiresAt (merge_addrs rec xs) = rr_expiresAt rec"
  using assms by (induction rec xs rule: merge_addrs.induct) (auto simp: rec_ok_def)

lemma merge_addrs_id: "rec_ok rec \<Longrightarrow> set xs \<subseteq> set (rr_addresses rec) \<Longrightarrow> merge_addrs rec xs = rec"
  by (induction rec xs rule: merge_addrs.induct) (auto simp: rec_ok_def)

text \<open>The first of the two that is set.\<close>

definition first_set :: "string \<Rightarrow> string \<Rightarrow> string" where
  "first_set a b = (if a = [] then b else a)"

lemma merge_entry_other: "h \<noteq> re_hostname e \<Longrightarrow> merge_entry r e h = r h"
  by (simp add: merge_entry_def Let_def split: option.split)

lemma merge_entry_new:
  "r (re_hostname e) = None \<Longrightarrow> merge_entry r e (re_hostname e) =
     Some \<lparr>rr_addresses = re_addresses e, rr_addrSet = Some (set (re_addresses e)),
           rr_transport = re_transport e, rr_proxyURL = re_proxyURL e, rr_expiresAt = None\<rparr>"
  by (simp add: merge_entry_def)

lemma merge_entry_known:
  assumes "rv_inv r" "r (re_hostname e) = Some rec"
  obtains rec' where "merge_entry r e (re_hostname e) = Some rec'" "rec_ok rec'"
    "rr_addresses rec' = rr_addresses rec @ fresh (rr_addresses rec) (re_addresses e)"
    "rr_transport rec' = first_set (rr_transport rec) (re_transport e)"
    "rr_proxyURL rec' = first_set (rr_proxyURL rec) (re_proxyURL e)"
    "rr_expiresAt rec' = rr_expiresAt rec"
proof -
  define rec1 where "rec1 = (if rr_transport rec = [] \<and> re_transport e \<noteq> [] then rec\<lparr>rr_transport := re_transport e\<rparr> else rec)"
  define rec2 where "rec2 = (if rr_proxyURL rec1 = [] \<and> re_proxyURL e \<noteq> [] then rec1\<lparr>rr_proxyURL := re_proxyURL e\<rparr> else rec1)"
  have ok: "rec_ok rec" using assms by (auto simp: rv_inv_def)
  then have ok2: "rec_ok rec2" by (simp add: rec2_def rec1_def rec_ok_def)
  then have "merge_entry r e (re_hostname e) = Some (merge_addrs rec2 (re_addresses e))"
    using assms(2) by (simp add: merge_entry_def Let_def rec1_def [symmetric] rec2_def [symmetric] rec_ok_def)
  moreover have "rr_transport rec2 = first_set (rr_transport rec) (re_transport e)"
    "rr_proxyURL rec2 = first_set (rr_proxyURL rec) (re_proxyURL e)" "rr_expiresAt rec2 = rr_expiresAt rec"
    "rr_addresses rec2 = rr_addresses rec"
    by (simp_all add: rec2_def rec1_def first_set_def)
  ultimately show ?thesis using that merge_addrs_spec [OF ok2] by metis
qed

lemma merge_entry_inv [inv_intros]: "rv_inv r \<Longrightarrow> rv_inv (merge_entry r e)"
  unfolding rv_inv_def
proof (intro allI impI)
  fix h rec' assume inv: "\<forall>h rec. r h = Some rec \<longrightarrow> rec_ok rec" and m: "merge_entry r e h = Some rec'"
  show "rec_ok rec'"
  proof (cases "h = re_hostname e")
    case True
    show ?thesis
    proof (cases "r h")
      case None
      then show ?thesis using m True merge_entry_new [of r e] by (auto simp: rec_ok_def)
    next
      case (Some rec)
      then show ?thesis using m True merge_entry_known [of r e rec] inv by (metis option.inject rv_inv_def)
    qed
  qed (use inv m merge_entry_other [of h e r] in auto)
qed

text \<open>What a cache knows when merging an entry again changes nothing.\<close>

definition knows :: "resolver \<Rightarrow> resolverEntry \<Rightarrow> bool" where
  "knows r e \<longleftrightarrow> (\<exists>rec. r (re_hostname e) = Some rec \<and> set (re_addresses e) \<subseteq> set (rr_addresses rec) \<and>
     (rr_transport rec = [] \<longrightarrow> re_transport e = []) \<and> (rr_proxyURL rec = [] \<longrightarrow> re_proxyURL e = []))"

lemma merge_known_id:
  assumes "rv_inv r" "knows r e"
  shows "merge_entry r e = r"
proof -
  obtain rec where r: "r (re_hostname e) = Some rec" "set (re_addresses e) \<subseteq> set (rr_addresses rec)"
    "rr_transport rec = [] \<longrightarrow> re_transport e = []" "rr_proxyURL rec = [] \<longrightarrow> re_proxyURL e = []"
    using assms(2) by (auto simp: knows_def)
  have ok: "rec_ok rec" using assms(1) r(1) by (auto simp: rv_inv_def)
  then have "merge_entry r e = r(re_hostname e \<mapsto> merge_addrs rec (re_addresses e))"
  proof -
    have "(rr_transport rec = [] \<and> re_transport e \<noteq> []) = False" "(rr_proxyURL rec = [] \<and> re_proxyURL e \<noteq> []) = False"
      using r by auto
    then show ?thesis using r(1) ok by (simp add: merge_entry_def rec_ok_def Let_def del: de_Morgan_conj)
  qed
  then show ?thesis using merge_addrs_id [OF ok r(2)] r(1) by (simp add: fun_upd_idem)
qed

lemma knows_merge:
  assumes "rv_inv r"
  shows "knows (merge_entry r e) e" "knows r e' \<Longrightarrow> knows (merge_entry r e) e'"
proof -
  show "knows (merge_entry r e) e"
  proof (cases "r (re_hostname e)")
    case None
    then show ?thesis by (simp add: knows_def merge_entry_new)
  next
    case (Some rec)
    then obtain rec' where "merge_entry r e (re_hostname e) = Some rec'"
      "rr_addresses rec' = rr_addresses rec @ fresh (rr_addresses rec) (re_addresses e)"
      "rr_transport rec' = first_set (rr_transport rec) (re_transport e)"
      "rr_proxyURL rec' = first_set (rr_proxyURL rec) (re_proxyURL e)"
      using merge_entry_known [OF assms] by metis
    then show ?thesis by (auto simp: knows_def first_set_def set_fresh)
  qed
  assume k: "knows r e'"
  then obtain rec where rec: "r (re_hostname e') = Some rec" by (auto simp: knows_def)
  show "knows (merge_entry r e) e'"
  proof (cases "re_hostname e' = re_hostname e")
    case True
    obtain rec' where "merge_entry r e (re_hostname e) = Some rec'"
      "rr_addresses rec' = rr_addresses rec @ fresh (rr_addresses rec) (re_addresses e)"
      "rr_transport rec' = first_set (rr_transport rec) (re_transport e)"
      "rr_proxyURL rec' = first_set (rr_proxyURL rec) (re_proxyURL e)"
      using merge_entry_known [OF assms, of e rec] rec True by metis
    then show ?thesis using k rec True by (auto simp: knows_def first_set_def)
  next
    case False
    then show ?thesis using k by (simp add: knows_def merge_entry_other)
  qed
qed

definition entries_for :: "string \<Rightarrow> resolverEntry list \<Rightarrow> resolverEntry list" where
  "entries_for h es = filter (\<lambda>e. re_hostname e = h) es"

lemma Merge_Cons: "Merge r (e # es) = Merge (merge_entry r e) es" and Merge_Nil: "Merge r [] = r"
  by (simp_all add: Merge_def)

lemma Merge_inv [inv_intros]: "rv_inv r \<Longrightarrow> rv_inv (Merge r es)"
  by (induction es arbitrary: r) (simp_all add: Merge_Cons Merge_Nil merge_entry_inv)

lemma dom_merge_entry: "dom (merge_entry r e) = insert (re_hostname e) (dom r)"
  by (auto simp: merge_entry_def Let_def split: option.splits)

lemma dom_Merge: "dom (Merge r es) = dom r \<union> re_hostname ` set es"
  by (induction es arbitrary: r) (auto simp: Merge_Cons Merge_Nil dom_merge_entry)

lemma Merge_knows: "rv_inv r \<Longrightarrow> e \<in> set es \<or> knows r e \<Longrightarrow> knows (Merge r es) e"
  by (induction es arbitrary: r) (auto simp: Merge_Cons Merge_Nil merge_entry_inv knows_merge)

lemma Merge_id: "rv_inv r \<Longrightarrow> (\<And>e. e \<in> set es \<Longrightarrow> knows r e) \<Longrightarrow> Merge r es = r"
  by (induction es) (simp_all add: Merge_Cons Merge_Nil merge_known_id)

lemma Merge_known:
  assumes "rv_inv r" "r h = Some rec"
  shows "\<exists>rec'. Merge r es h = Some rec' \<and>
    rr_addresses rec' = rr_addresses rec @ fresh (rr_addresses rec) (concat (map re_addresses (entries_for h es))) \<and>
    rr_transport rec' = foldl first_set (rr_transport rec) (map re_transport (entries_for h es)) \<and>
    rr_proxyURL rec' = foldl first_set (rr_proxyURL rec) (map re_proxyURL (entries_for h es)) \<and>
    rr_expiresAt rec' = rr_expiresAt rec"
  using assms
proof (induction es arbitrary: r rec)
  case (Cons e es)
  show ?case
  proof (cases "re_hostname e = h")
    case True
    then obtain rec1 where e: "merge_entry r e h = Some rec1"
      "rr_addresses rec1 = rr_addresses rec @ fresh (rr_addresses rec) (re_addresses e)"
      "rr_transport rec1 = first_set (rr_transport rec) (re_transport e)"
      "rr_proxyURL rec1 = first_set (rr_proxyURL rec) (re_proxyURL e)"
      "rr_expiresAt rec1 = rr_expiresAt rec"
      using merge_entry_known [OF Cons.prems(1), of e rec] Cons.prems(2) by metis
    show ?thesis
      using Cons.IH [OF merge_entry_inv [OF Cons.prems(1)] e(1)] True e
      by (simp add: Merge_Cons entries_for_def fresh_append)
  next
    case False
    then have "merge_entry r e h = Some rec" using Cons.prems(2) by (simp add: merge_entry_other)
    from Cons.IH [OF merge_entry_inv [OF Cons.prems(1)] this] show ?thesis
      using False by (simp add: Merge_Cons entries_for_def)
  qed
qed (simp add: Merge_Nil entries_for_def)

lemma AllEntries_known:
  assumes "set walk \<subseteq> dom r" "e \<in> set (AllEntries now walk r)"
  shows "knows r e"
  using assms by (auto simp: AllEntries_def knows_def Let_def)

text \<open>
  Merging gossiped resolver entries is exact, loses nothing and is idempotent. The invariant (the set used for
  the duplicate test is the set of the addresses) is kept; the known hosts grow by exactly the hosts of the
  entries; a record that exists keeps its addresses, in order and in front, gains exactly the addresses that are new, each
  once, keeps its expiry, and its transport and proxy are only set where they were empty, by the first entry
  that has one. Merging the same entries again, or the node's own \<open>AllEntries\<close> coming back through the mesh,
  changes nothing.
\<close>

theorem merge_accumulates:
  assumes "rv_inv r" "set walk \<subseteq> dom r"
  shows "rv_inv (Merge r es) \<and> dom (Merge r es) = dom r \<union> re_hostname ` set es \<and>
    (\<forall>h rec. r h = Some rec \<longrightarrow> (\<exists>rec'. Merge r es h = Some rec' \<and>
       rr_addresses rec' = rr_addresses rec @ fresh (rr_addresses rec) (concat (map re_addresses (entries_for h es))) \<and>
       rr_transport rec' = foldl first_set (rr_transport rec) (map re_transport (entries_for h es)) \<and>
       rr_proxyURL rec' = foldl first_set (rr_proxyURL rec) (map re_proxyURL (entries_for h es)) \<and>
       rr_expiresAt rec' = rr_expiresAt rec)) \<and>
    Merge (Merge r es) es = Merge r es \<and>
    Merge r (AllEntries now walk r) = r"
proof (intro conjI allI impI)
  show "rv_inv (Merge r es)" by (rule Merge_inv [OF assms(1)])
  then show "Merge (Merge r es) es = Merge r es" using Merge_knows [OF assms(1)] by (intro Merge_id) auto
  show "Merge r (AllEntries now walk r) = r" using AllEntries_known [OF assms(2)] by (intro Merge_id assms(1)) auto
qed (simp_all add: dom_Merge Merge_known [OF assms(1)])

theorem merge_accumulates_witness:
  "Merge (Merge (AddEntry 0 NewResolver ''h'' [''a''] 0) [\<lparr>re_hostname = ''h'', re_addresses = [''a'', ''b''],
       re_transport = ''ssh'', re_proxyURL = [], re_expiresAt = None\<rparr>])
     [\<lparr>re_hostname = ''h'', re_addresses = [''a'', ''b''], re_transport = ''ssh'', re_proxyURL = [], re_expiresAt = None\<rparr>] =
   Merge (AddEntry 0 NewResolver ''h'' [''a''] 0) [\<lparr>re_hostname = ''h'', re_addresses = [''a'', ''b''],
       re_transport = ''ssh'', re_proxyURL = [], re_expiresAt = None\<rparr>]"
proof -
  have i: "rv_inv (AddEntry 0 NewResolver ''h'' [''a''] 0)" by (simp add: AddEntry_def rv_inv_add rv_inv_new)
  have "set [] \<subseteq> dom (AddEntry 0 NewResolver ''h'' [''a''] 0)" by simp
  from merge_accumulates [OF i this] show ?thesis by blast
qed

text \<open>
  A merge cannot revive a host: the comment on \<open>Merge\<close> says that merged entries have no
  expiry, but while the record of a host is there and has expired, addresses merged in from
  gossip or read from the hosts file are added to the expired record, and \<open>Resolve\<close> goes on returning
  nothing.
\<close>

theorem merge_into_expired_stays_unresolved:
  assumes "rv_inv r" "r h = Some rec" "isExpired now rec"
  shows "Resolve now (Merge r es) h = [] \<and>
    (\<exists>r'. record_ip ip r h = Some r' \<and> Resolve now r' h = [] \<and> ip \<in> set (addrs_of r' h))"
proof -
  obtain rec' where "Merge r es h = Some rec'" "rr_expiresAt rec' = rr_expiresAt rec"
    using Merge_known [OF assms(1,2)] by blast
  then have "Resolve now (Merge r es) h = []" using assms(3) by (simp add: Resolve_def isExpired_def)
  moreover have "rec_ok rec" using assms(1,2) by (auto simp: rv_inv_def)
  ultimately show ?thesis
    using assms(2,3) by (auto simp: record_ip_def rec_ok_def Resolve_def isExpired_def addrs_of_def)
qed

theorem merge_into_expired_stays_unresolved_witness:
  "Resolve 20 (Merge (AddEntry 0 NewResolver ''h'' [''a''] 5) [\<lparr>re_hostname = ''h'', re_addresses = [''b''],
     re_transport = [], re_proxyURL = [], re_expiresAt = None\<rparr>]) ''h'' = []"
proof -
  have i: "rv_inv (AddEntry 0 NewResolver ''h'' [''a''] 5)" by (simp add: AddEntry_def rv_inv_add rv_inv_new)
  obtain rec where r: "AddEntry 0 NewResolver ''h'' [''a''] 5 ''h'' = Some rec" "isExpired 20 rec"
    by (simp add: AddEntry_def AddEntryFull_def isExpired_def)
  from merge_into_expired_stays_unresolved [OF i r] show ?thesis by blast
qed

section \<open>Reading the hosts file\<close>

text \<open>The pairs of host name and address in the lines that are read, in their order.\<close>

definition host_pairs :: "string list \<Rightarrow> (string \<times> string) list" where
  "host_pairs lines = concat (map (\<lambda>l. case host_line l of None \<Rightarrow> [] | Some (ip, hs) \<Rightarrow> map (\<lambda>h. (h, ip)) hs) lines)"

definition ips_for :: "string \<Rightarrow> (string \<times> string) list \<Rightarrow> string list" where
  "ips_for h ps = map snd (filter (\<lambda>p. fst p = h) ps)"

lemma record_ip_spec:
  assumes "rv_inv r"
  obtains r' where "record_ip ip r h = Some r'" "rv_inv r'"
    "\<And>k. addrs_of r' k = addrs_of r k @ fresh (addrs_of r k) (if k = h then [ip] else [])"
proof (cases "r h")
  case None
  let ?r = "r(h \<mapsto> \<lparr>rr_addresses = [ip], rr_addrSet = Some {ip}, rr_transport = [], rr_proxyURL = [], rr_expiresAt = None\<rparr>)"
  show ?thesis
    using None assms by (intro that [of ?r]) (auto simp: record_ip_def rv_inv_def rec_ok_def addrs_of_def)
next
  case (Some rec)
  then have ok: "rr_addrSet rec = Some (set (rr_addresses rec))" using assms by (auto simp: rv_inv_def rec_ok_def)
  show ?thesis
  proof (cases "ip \<in> set (rr_addresses rec)")
    case True
    then show ?thesis using Some assms by (intro that [of r]) (auto simp: record_ip_def ok addrs_of_def)
  next
    case False
    let ?r = "r(h \<mapsto> rec\<lparr>rr_addresses := rr_addresses rec @ [ip], rr_addrSet := Some (insert ip (set (rr_addresses rec)))\<rparr>)"
    show ?thesis using False Some assms
      by (intro that [of ?r]) (auto simp: record_ip_def ok addrs_of_def rv_inv_def rec_ok_def)
  qed
qed

lemma hosts_loop_spec:
  assumes "rv_inv r"
  shows "\<exists>r'. hosts_loop ip (r, added) hs = Some (r', added \<union> set hs) \<and> rv_inv r' \<and>
    (\<forall>k. addrs_of r' k = addrs_of r k @ fresh (addrs_of r k) (ips_for k (map (\<lambda>h. (h, ip)) hs)))"
  using assms
proof (induction hs arbitrary: r added)
  case (Cons h hs)
  obtain r1 where r1: "record_ip ip r h = Some r1" "rv_inv r1"
    "\<And>k. addrs_of r1 k = addrs_of r k @ fresh (addrs_of r k) (if k = h then [ip] else [])"
    using record_ip_spec [OF Cons.prems, of ip h] by metis
  obtain r' where r': "hosts_loop ip (r1, insert h added) hs = Some (r', insert h added \<union> set hs)" "rv_inv r'"
    "\<And>k. addrs_of r' k = addrs_of r1 k @ fresh (addrs_of r1 k) (ips_for k (map (\<lambda>h. (h, ip)) hs))"
    using Cons.IH [OF r1(2), of "insert h added"] by blast
  have "addrs_of r' k = addrs_of r k @ fresh (addrs_of r k) (ips_for k (map (\<lambda>h. (h, ip)) (h # hs)))" for k
    using fresh_append [of "addrs_of r k" "if k = h then [ip] else []" "ips_for k (map (\<lambda>h. (h, ip)) hs)"]
    by (simp add: r'(3) r1(3) ips_for_def)
  then show ?case using r1(1) r'(1,2) by simp
qed (simp add: ips_for_def)

lemma lines_loop_spec:
  assumes "rv_inv r"
  shows "\<exists>r'. lines_loop (r, added) ls = Some (r', added \<union> fst ` set (host_pairs ls)) \<and> rv_inv r' \<and>
    (\<forall>k. addrs_of r' k = addrs_of r k @ fresh (addrs_of r k) (ips_for k (host_pairs ls)))"
  using assms
proof (induction ls arbitrary: r added)
  case (Cons l ls)
  show ?case
  proof (cases "host_line l")
    case None
    then show ?thesis using Cons by (simp add: host_pairs_def)
  next
    case (Some p)
    obtain ip hs where p: "p = (ip, hs)" by (cases p)
    obtain r1 where r1: "hosts_loop ip (r, added) hs = Some (r1, added \<union> set hs)" "rv_inv r1"
      "\<And>k. addrs_of r1 k = addrs_of r k @ fresh (addrs_of r k) (ips_for k (map (\<lambda>h. (h, ip)) hs))"
      using hosts_loop_spec [OF Cons.prems, of ip added hs] by blast
    obtain r' where r': "lines_loop (r1, added \<union> set hs) ls = Some (r', added \<union> set hs \<union> fst ` set (host_pairs ls))"
      "rv_inv r'" "\<And>k. addrs_of r' k = addrs_of r1 k @ fresh (addrs_of r1 k) (ips_for k (host_pairs ls))"
      using Cons.IH [OF r1(2), of "added \<union> set hs"] by blast
    have hp: "host_pairs (l # ls) = map (\<lambda>h. (h, ip)) hs @ host_pairs ls" using Some p by (simp add: host_pairs_def)
    have "fst ` set (host_pairs (l # ls)) = set hs \<union> fst ` set (host_pairs ls)" by (simp add: hp image_Un image_image)
    moreover have "addrs_of r' k = addrs_of r k @ fresh (addrs_of r k) (ips_for k (host_pairs (l # ls)))" for k
      using fresh_append [of "addrs_of r k" "ips_for k (map (\<lambda>h. (h, ip)) hs)" "ips_for k (host_pairs ls)"]
      by (simp add: r'(3) r1(3) ips_for_def hp)
    ultimately show ?thesis using Some p r1(1) r'(1,2) by (auto simp: Un_assoc)
  qed
qed (simp add: host_pairs_def ips_for_def)

text \<open>
  Reading a hosts file never panics and is exact: for every content the cache keeps its
  invariant, each host ends with the addresses it had followed by the addresses of its lines that are new, each once and in the
  order of the file, and the number returned is the number of different host names on the lines that are read.
\<close>

theorem parse_hosts_exact:
  assumes "rv_inv r"
  shows "\<exists>n err r'. ParseHostsContent r content = Some (n, err, r') \<and> rv_inv r' \<and>
    n = int (card (fst ` set (host_pairs (fst (scan_lines content))))) \<and>
    (\<forall>h. addrs_of r' h = addrs_of r h @ fresh (addrs_of r h) (ips_for h (host_pairs (fst (scan_lines content)))))"
proof -
  obtain ls err where sl: "scan_lines content = (ls, err)" by (cases "scan_lines content")
  from lines_loop_spec [OF assms, of "{}" ls] show ?thesis by (auto simp: ParseHostsContent_def sl)
qed

theorem parse_hosts_exact_witness:
  "\<exists>n err r'. ParseHostsContent NewResolver (''10.0.0.1 a b'' @ CHR 0x0A # ''::1 a'') = Some (n, err, r') \<and> n = 2 \<and>
     addrs_of r' ''a'' = [''10.0.0.1'', ''::1'']"
proof -
  let ?c = "''10.0.0.1 a b'' @ CHR 0x0A # ''::1 a''"
  have s: "fst (scan_lines (''10.0.0.1 a b'' @ CHR 0x0A # ''::1 a'')) = [''10.0.0.1 a b'', ''::1 a'']"
    by (simp add: scan_lines_def drop_cr_def)
  have "host_pairs [''10.0.0.1 a b'', ''::1 a''] = [(''a'', ''10.0.0.1''), (''b'', ''10.0.0.1''), (''a'', ''::1'')]"
    by (simp add: host_pairs_def host_line_def trim_space_def is_space_def ParseIP_def parse_ipv4_def parse_ipv6_def
        octet_def is_digit_def dec_val_def digit_of_def is_hex_def ipv6_end_def Let_def numeral_eq_Suc)
  note hp = this
  obtain n err r' where "ParseHostsContent NewResolver ?c = Some (n, err, r')" 
    "n = int (card (fst ` set (host_pairs (fst (scan_lines ?c)))))"
    "addrs_of r' ''a'' = addrs_of NewResolver ''a'' @ fresh (addrs_of NewResolver ''a'') (ips_for ''a'' (host_pairs (fst (scan_lines ?c))))"
    using parse_hosts_exact [OF rv_inv_new, of ?c] by blast
  then show ?thesis
    unfolding s hp by (intro exI [of _ n] exI [of _ err] exI [of _ r'] conjI) (simp_all add: ips_for_def addrs_of_def NewResolver_def card_insert_if)
qed

text \<open>
  A comment after the host names of a line is not recognised: the mark and the words after it are
  entered as host names.
\<close>

lemma str_fields_word:
  "w \<noteq> [] \<Longrightarrow> list_all (\<lambda>c. \<not> is_space c) w \<Longrightarrow> is_space s \<Longrightarrow> str_fields (w @ s # ys) = w # str_fields ys"
  by (cases w) (simp_all add: takeWhile_append dropWhile_append list_all_iff)

lemma trailing_comment_is_read:
  assumes "ParseIP ip" "ip \<noteq> []" "h \<noteq> []" "w \<noteq> []" "list_all (\<lambda>c. \<not> is_space c) (ip @ h @ w)" "hd ip \<noteq> CHR ''#''"
  shows "host_line (ip @ '' '' @ h @ '' # '' @ w) = Some (ip, [h, ''#'', w])"
proof -
  let ?l = "ip @ '' '' @ h @ '' # '' @ w"
  have sp: "is_space CHR '' ''" "\<not> is_space CHR ''#''" by (simp_all add: is_space_def)
  have w: "list_all (\<lambda>c. \<not> is_space c) ip" "list_all (\<lambda>c. \<not> is_space c) h" "list_all (\<lambda>c. \<not> is_space c) w"
    using assms(5) by simp_all
  have "str_fields w = [w]"
  proof (cases w)
    case (Cons c cs)
    then have "takeWhile (\<lambda>c. \<not> is_space c) cs = cs" "dropWhile (\<lambda>c. \<not> is_space c) cs = []" "\<not> is_space c"
      using w(3) by (simp_all add: takeWhile_eq_all_conv dropWhile_eq_Nil_conv list_all_iff)
    then show ?thesis using Cons by (simp del: takeWhile_eq_all_conv dropWhile_eq_Nil_conv)
  qed (use assms(4) in simp)
  then have f: "str_fields ?l = [ip, h, ''#'', w]"
    using str_fields_word [OF assms(2) w(1) sp(1)] str_fields_word [OF assms(3) w(2) sp(1)] sp by simp
  have "trim_space ?l = ?l"
    using assms(2,4) w by (intro trim_space_id) (auto simp: list_all_iff hd_append last_append)
  moreover have "\<not> prefix ''#'' ?l" using assms(2,6) by (cases ip) auto
  ultimately show ?thesis using f assms(1) by (simp add: host_line_def Let_def)
qed

section \<open>The impedance of a node\<close>

text \<open>The load figures as real numbers between 0 and 1.\<close>

definition unit :: "f64 \<Rightarrow> real \<Rightarrow> bool" where
  "unit v x \<longleftrightarrow> v = Num x \<and> 0 \<le> x \<and> x \<le> 1"

fun unit_of :: "f64 \<Rightarrow> real" where
  "unit_of (Num x) = max 0 (min 1 x)"
| "unit_of PosInf = 1"
| "unit_of _ = 0"

lemma clampNorm_unit_of: "v \<noteq> NaN \<Longrightarrow> unit (clampNorm v) (unit_of v)"
  by (cases v) (auto simp: clampNorm_def unit_def)

lemma unit_of_mono: "v \<noteq> NaN \<Longrightarrow> v' \<noteq> NaN \<Longrightarrow> \<not> flt v' v \<Longrightarrow> unit_of v \<le> unit_of v'"
  by (cases v; cases v') auto

lemma clampNorm_unit:
  assumes "v \<noteq> NaN" "v' \<noteq> NaN" "\<not> flt v' v"
  obtains x y where "unit (clampNorm v) x" "unit (clampNorm v') y" "x \<le> y"
  using that clampNorm_unit_of unit_of_mono assms by blast

lemma fscale_order: "0 < k \<Longrightarrow> flt (fscale k a) (fscale k b) = flt a b" "fscale k a = NaN \<longleftrightarrow> a = NaN"
  by (cases a; cases b; simp)+

definition stream_norm :: "int \<Rightarrow> real" where
  "stream_norm n = min 1 (max 0 (of_int n) / maxStreamPressure)"

lemma stream_norm_unit: "0 \<le> stream_norm n" "stream_norm n \<le> 1" "n \<le> n' \<Longrightarrow> stream_norm n \<le> stream_norm n'"
  by (auto simp: stream_norm_def maxStreamPressure_def intro!: min.mono divide_right_mono)

lemma Calculate_unit:
  assumes "unit (clampNorm (fscale (1 / 100) cpu)) x" "unit (clampNorm (fscale (1 / 100) mem)) y"
  shows "Calculate cpu mem streams = Num (1 + 99 * (60 / 100 * x + 25 / 100 * y + 15 / 100 * stream_norm streams))"
proof -
  define z where "z = stream_norm streams"
  have z: "(let streamCount0 = (of_int streams :: real);
          streamCount = (if streamCount0 < 0 then 0 else streamCount0);
          streamNorm0 = streamCount / maxStreamPressure
          in (if streamNorm0 > 1 then 1 else streamNorm0)) = z"
    by (simp add: Let_def z_def stream_norm_def maxStreamPressure_def min_def max_def)
  have b: "0 \<le> 60 / 100 * x + 25 / 100 * y + 15 / 100 * z" "60 / 100 * x + 25 / 100 * y + 15 / 100 * z \<le> 1"
    using assms stream_norm_unit [of streams] by (auto simp: unit_def z_def)
  have xy: "clampNorm (fscale (1 / 100) cpu) = Num x" "clampNorm (fscale (1 / 100) mem) = Num y"
    using assms by (simp_all add: unit_def)
  have "Calculate cpu mem streams = clamp_impedance (Num (1 + 99 * (60 / 100 * x + 25 / 100 * y + z * (15 / 100))))"
    using z by (simp add: Calculate_def Let_def xy MinImpedance_def MaxImpedance_def cpuWeight_def memWeight_def streamWeight_def)
  moreover have "clamp_impedance (Num v) = Num v" if "1 \<le> v" "v \<le> 100" for v
    using that by (simp add: clamp_impedance_def MinImpedance_def MaxImpedance_def)
  ultimately show ?thesis using b by (simp add: z_def [symmetric] mult.commute)
qed

text \<open>
  The impedance a node reports is between 1 and 100 and grows with every load figure: more CPU, more
  memory or more streams never give a smaller value, an idle node has 1 and a saturated one 100. This holds
  for every reading but NaN, which no clamp catches: it ends in the manifest, whatever the streams.
\<close>

theorem impedance_bounded_and_monotone:
  assumes "cpu \<noteq> NaN" "mem \<noteq> NaN" "cpu' \<noteq> NaN" "mem' \<noteq> NaN"
    and "\<not> flt cpu' cpu" "\<not> flt mem' mem" "streams \<le> streams'"
  shows "(\<exists>x y. m_impedance (ic_Update cpu mem streams m) = Num x \<and> m_impedance (ic_Update cpu' mem' streams' m) = Num y \<and>
      Calculate cpu mem streams = Num x \<and> 1 \<le> x \<and> x \<le> y \<and> y \<le> 100) \<and>
    Calculate (Num 0) (Num 0) 0 = Num 1 \<and> Calculate (Num 100) (Num 100) 500 = Num 100 \<and>
    m_impedance (ic_Update NaN mem streams m) = NaN"
proof -
  obtain x x' where x: "unit (clampNorm (fscale (1 / 100) cpu)) x" "unit (clampNorm (fscale (1 / 100) cpu')) x'" "x \<le> x'"
    using clampNorm_unit [of "fscale (1 / 100) cpu" "fscale (1 / 100) cpu'"] assms by (auto simp: fscale_order)
  obtain y y' where y: "unit (clampNorm (fscale (1 / 100) mem)) y" "unit (clampNorm (fscale (1 / 100) mem')) y'" "y \<le> y'"
    using clampNorm_unit [of "fscale (1 / 100) mem" "fscale (1 / 100) mem'"] assms by (auto simp: fscale_order)
  define z where "z = stream_norm streams"
  define z' where "z' = stream_norm streams'"
  have z: "0 \<le> z" "z' \<le> 1" "z \<le> z'" using stream_norm_unit assms(7) by (simp_all add: z_def z'_def)
  have cl: "clamp_impedance (Num v) = Num v" if "1 \<le> v" "v \<le> 100" for v
    using that by (simp add: clamp_impedance_def MinImpedance_def MaxImpedance_def)
  have b: "0 \<le> x" "0 \<le> y" "x' \<le> 1" "y' \<le> 1" using x y by (auto simp: unit_def)
  have c: "Calculate cpu mem streams = Num (1 + 99 * (60 / 100 * x + 25 / 100 * y + 15 / 100 * z))"
    "Calculate cpu' mem' streams' = Num (1 + 99 * (60 / 100 * x' + 25 / 100 * y' + 15 / 100 * z'))"
    using Calculate_unit x y by (simp_all add: z_def z'_def)
  have "\<exists>u v. m_impedance (ic_Update cpu mem streams m) = Num u \<and> m_impedance (ic_Update cpu' mem' streams' m) = Num v \<and>
      Calculate cpu mem streams = Num u \<and> 1 \<le> u \<and> u \<le> v \<and> v \<le> 100"
    using b z x(3) y(3) by (auto simp: ic_Update_def SetImpedance_def c cl)
  moreover have "Calculate (Num 0) (Num 0) 0 = Num 1" "Calculate (Num 100) (Num 100) 500 = Num 100"
    by (simp_all add: Calculate_def Let_def clampNorm_def clamp_impedance_def MinImpedance_def MaxImpedance_def
        cpuWeight_def memWeight_def streamWeight_def maxStreamPressure_def)
  moreover have "m_impedance (ic_Update NaN mem streams m) = NaN"
    by (simp add: ic_Update_def SetImpedance_def Calculate_def Let_def clampNorm_def clamp_impedance_def)
  ultimately show ?thesis by blast
qed

theorem impedance_bounded_and_monotone_witness:
  "\<exists>x y. m_impedance (ic_Update (Num 10) NegInf 3 (NewManifest ''n'')) = Num x \<and>
     m_impedance (ic_Update (Num 20) PosInf 700 (NewManifest ''n'')) = Num y \<and>
     Calculate (Num 10) NegInf 3 = Num x \<and> 1 \<le> x \<and> x \<le> y \<and> y \<le> 100"
  using impedance_bounded_and_monotone [of "Num 10" NegInf "Num 20" PosInf 3 700 "NewManifest ''n''"] by simp

end
