(* ===== verification/Sonar.thy ===== *)
theory Sonar
  imports Nucleus
begin

text \<open>
  Model of \<open>pkg/mesh/routing/sonar.go\<close>, the broadcast discovery of capabilities. A node that gets a WhoHas
  frame for the first time answers it when it has the capability and passes it on while the frame has hops left;
  a set of the identifiers seen lately, bounded by a time to live, ends the flood. The answers to the
  node's own queries go to collectors with a buffered channel. Collectors are shared by pointer, so the
  state holds them in a list and the map of the open queries holds positions in it. The two mutexes and the atomic
  counter make each operation one step; the clock is the argument \<open>now\<close>.
\<close>

section \<open>State\<close>

record whoHasFrame =
  wh_UUID :: string
  wh_capability :: string
  wh_originID :: node_id
  wh_maxHops :: "32 word"

record iHaveFrame =
  ih_UUID :: string
  ih_nodeID :: node_id
  ih_impedance :: f64

record responseCollector =
  rc_uuid :: string
  rc_results :: "iHaveFrame list"

record sonar =
  sn_manifest :: manifest
  sn_uuidPrefix :: string
  sn_uuidCounter :: "64 word"
  sn_seen :: "string \<rightharpoonup> time"
  sn_seenTTL :: duration
  sn_collectors :: "string \<rightharpoonup> nat"
  sn_heap :: "responseCollector list"

definition defaultSeenTTL :: duration where
  "defaultSeenTTL = 3000000000"

definition WithSeenTTL :: "duration \<Rightarrow> sonar \<Rightarrow> sonar" where
  "WithSeenTTL ttl s = s\<lparr>sn_seenTTL := ttl\<rparr>"

definition NewSonar :: "manifest \<Rightarrow> (sonar \<Rightarrow> sonar) list \<Rightarrow> sonar" where
  "NewSonar m opts =
     foldl (\<lambda>s opt. opt s)
       \<lparr>sn_manifest = m, sn_uuidPrefix = m_nodeID m @ '':'', sn_uuidCounter = 0, sn_seen = Map.empty,
        sn_seenTTL = defaultSeenTTL, sn_collectors = Map.empty, sn_heap = []\<rparr> opts"

section \<open>The set of seen identifiers\<close>

definition addSeenLocked :: "time \<Rightarrow> sonar \<Rightarrow> string \<Rightarrow> sonar" where
  "addSeenLocked now s uuid =
     (let cutoff = now - sn_seenTTL s;
          swept = (\<lambda>k. case sn_seen s k of None \<Rightarrow> None | Some t \<Rightarrow> if \<not> (t > cutoff) then None else Some t)
      in s\<lparr>sn_seen := swept(uuid \<mapsto> now)\<rparr>)"

definition containsSeenLocked :: "time \<Rightarrow> sonar \<Rightarrow> string \<Rightarrow> bool \<times> sonar" where
  "containsSeenLocked now s uuid =
     (case sn_seen s uuid of
        None \<Rightarrow> (False, s)
      | Some t \<Rightarrow>
          if now - t > sn_seenTTL s then (False, s\<lparr>sn_seen := (sn_seen s)(uuid := None)\<rparr>)
          else (True, s))"

section \<open>Incoming frames\<close>

definition ProcessWhoHas :: "time \<Rightarrow> sonar \<Rightarrow> whoHasFrame \<Rightarrow> iHaveFrame option \<times> bool \<times> sonar" where
  "ProcessWhoHas now s frame =
     (let (seen, s1) = containsSeenLocked now s (wh_UUID frame);
          s2 = (if \<not> seen then addSeenLocked now s1 (wh_UUID frame) else s1)
      in if seen then (None, False, s2)
         else if \<not> HasCapability (sn_manifest s2) (wh_capability frame) then (None, True, s2)
         else (Some \<lparr>ih_UUID = wh_UUID frame, ih_nodeID = m_nodeID (sn_manifest s2),
                     ih_impedance = m_impedance (sn_manifest s2)\<rparr>, True, s2))"

definition HandleWhoHas :: "time \<Rightarrow> sonar \<Rightarrow> whoHasFrame \<Rightarrow> iHaveFrame option \<times> sonar" where
  "HandleWhoHas now s frame = (let (resp, _, s') = ProcessWhoHas now s frame in (resp, s'))"

definition ShouldForward :: "time \<Rightarrow> sonar \<Rightarrow> whoHasFrame \<Rightarrow> bool \<times> sonar" where
  "ShouldForward now s frame =
     (if wh_originID frame = m_nodeID (sn_manifest s) then (False, s)
      else if wh_maxHops frame = 0 then (False, s)
      else let (seen, s1) = containsSeenLocked now s (wh_UUID frame) in
        if seen then (False, s1) else (True, addSeenLocked now s1 (wh_UUID frame)))"

section \<open>Queries of this node\<close>

text \<open>\<open>strconv.FormatUint(n, 36)\<close>.\<close>

definition digit36 :: "nat \<Rightarrow> char" where
  "digit36 d = char_of (if d < 10 then 48 + d else 87 + d)"

fun base36 :: "nat \<Rightarrow> string" where
  "base36 n = (if n < 36 then [digit36 n] else base36 (n div 36) @ [digit36 (n mod 36)])"

declare base36.simps [simp del]

definition generateUUID :: "sonar \<Rightarrow> string \<times> sonar" where
  "generateUUID s =
     (let seq = sn_uuidCounter s + 1
      in (sn_uuidPrefix s @ base36 (unat seq), s\<lparr>sn_uuidCounter := seq\<rparr>))"

definition CreateWhoHas :: "sonar \<Rightarrow> string \<Rightarrow> 32 word \<Rightarrow> whoHasFrame \<times> sonar" where
  "CreateWhoHas s capability maxHops =
     (let (uuid, s') = generateUUID s
      in (\<lparr>wh_UUID = uuid, wh_capability = capability, wh_originID = m_nodeID (sn_manifest s'),
           wh_maxHops = maxHops\<rparr>, s'))"

definition StartCollection :: "sonar \<Rightarrow> string \<Rightarrow> nat \<times> sonar" where
  "StartCollection s uuid =
     (let collector = length (sn_heap s)
      in (collector, s\<lparr>sn_heap := sn_heap s @ [\<lparr>rc_uuid = uuid, rc_results = []\<rparr>],
                       sn_collectors := (sn_collectors s)(uuid \<mapsto> collector)\<rparr>))"

definition StopCollection :: "sonar \<Rightarrow> string \<Rightarrow> sonar" where
  "StopCollection s uuid = s\<lparr>sn_collectors := (sn_collectors s)(uuid := None)\<rparr>"

text \<open>The non-blocking send on the collector's channel of capacity 100.\<close>

definition chan_offer :: "responseCollector \<Rightarrow> iHaveFrame \<Rightarrow> bool \<times> responseCollector" where
  "chan_offer rc frame =
     (if length (rc_results rc) < 100 then (True, rc\<lparr>rc_results := rc_results rc @ [frame]\<rparr>) else (False, rc))"

definition DeliverResponse :: "sonar \<Rightarrow> iHaveFrame \<Rightarrow> bool \<times> sonar" where
  "DeliverResponse s frame =
     (case sn_collectors s (ih_UUID frame) of
        None \<Rightarrow> (False, s)
      | Some collector \<Rightarrow>
          (let (sent, rc) = chan_offer (sn_heap s ! collector) frame
           in (sent, s\<lparr>sn_heap := (sn_heap s)[collector := rc]\<rparr>)))"

definition rc_Add :: "responseCollector \<Rightarrow> iHaveFrame \<Rightarrow> responseCollector" where
  "rc_Add rc frame = snd (chan_offer rc frame)"

text \<open>
  What can happen while \<open>Collect\<close> runs: a frame is put into the channel, the loop's select takes the
  receive branch, or it takes the branch of the expired context. The result is \<open>None\<close> while the context has not
  expired; the context always has a deadline, that of the caller or one second.
\<close>

datatype collect_event = Arrives iHaveFrame | Receives | Expires

fun Collect :: "responseCollector \<Rightarrow> iHaveFrame list \<Rightarrow> collect_event list \<Rightarrow>
    (iHaveFrame list \<times> responseCollector) option" where
  "Collect rc results [] = None"
| "Collect rc results (Arrives frame # es) = Collect (rc_Add rc frame) results es"
| "Collect rc results (Receives # es) =
     (case rc_results rc of
        [] \<Rightarrow> Collect rc results es
      | frame # q \<Rightarrow> Collect (rc\<lparr>rc_results := q\<rparr>) (results @ [frame]) es)"
| "Collect rc results (Expires # es) = Some (results, rc)"

section \<open>Floods are answered once\<close>

text \<open>The two operations that consult the set of seen identifiers, and whether they admit the frame as new.\<close>

datatype flood_event = Processed whoHasFrame | Forwarded whoHasFrame

fun fe_uuid :: "flood_event \<Rightarrow> string" where
  "fe_uuid (Processed f) = wh_UUID f"
| "fe_uuid (Forwarded f) = wh_UUID f"

fun fe_step :: "time \<Rightarrow> sonar \<Rightarrow> flood_event \<Rightarrow> bool \<times> sonar" where
  "fe_step now s (Processed f) = (let (_, firstSeen, s') = ProcessWhoHas now s f in (firstSeen, s'))"
| "fe_step now s (Forwarded f) = ShouldForward now s f"

fun fe_run :: "sonar \<Rightarrow> (time \<times> flood_event) list \<Rightarrow> bool list" where
  "fe_run s [] = []"
| "fe_run s ((now, ev) # evs) = (let (admitted, s') = fe_step now s ev in admitted # fe_run s' evs)"

text \<open>Whether the event looks at the set at all: a node's own frames and frames without hops left are refused before.\<close>

fun consults :: "sonar \<Rightarrow> flood_event \<Rightarrow> bool" where
  "consults s (Processed f) = True"
| "consults s (Forwarded f) = (wh_originID f \<noteq> m_nodeID (sn_manifest s) \<and> wh_maxHops f \<noteq> 0)"

definition admit :: "time \<Rightarrow> sonar \<Rightarrow> string \<Rightarrow> bool \<times> sonar" where
  "admit now s uuid =
     (let (seen, s1) = containsSeenLocked now s uuid
      in if seen then (False, s1) else (True, addSeenLocked now s1 uuid))"

lemma fe_step_eq: "fe_step now s ev = (if consults s ev then admit now s (fe_uuid ev) else (False, s))"
proof (cases ev)
  case (Processed f)
  obtain seen s1 where "containsSeenLocked now s (wh_UUID f) = (seen, s1)" by fastforce
  then show ?thesis using Processed by (simp add: ProcessWhoHas_def admit_def Let_def)
next
  case (Forwarded f)
  then show ?thesis by (simp add: ShouldForward_def admit_def)
qed

text \<open>
  The set against the history \<open>H\<close> of the admissions: an entry is the last admission of its identifier,
  and an identifier that was admitted but is not in the set was admitted a time to live ago or earlier.
\<close>

definition seen_ok :: "time \<Rightarrow> duration \<Rightarrow> (time \<times> string) set \<Rightarrow> (string \<rightharpoonup> time) \<Rightarrow> bool" where [inv_defs]:
  "seen_ok now ttl H seen \<longleftrightarrow>
     (\<forall>u t. seen u = Some t \<longrightarrow> (t, u) \<in> H \<and> (\<forall>t'. (t', u) \<in> H \<longrightarrow> t' \<le> t)) \<and>
     (\<forall>u t. (t, u) \<in> H \<longrightarrow> t \<le> now \<and> (seen u = None \<longrightarrow> now - t \<ge> ttl))"

lemma admit_manifest: "sn_manifest (snd (admit now s u)) = sn_manifest s" "sn_seenTTL (snd (admit now s u)) = sn_seenTTL s"
  by (auto simp: admit_def containsSeenLocked_def addSeenLocked_def Let_def split: option.split)

lemma admit_spec:
  assumes ok: "seen_ok t0 (sn_seenTTL s) H (sn_seen s)" and le: "t0 \<le> now" and a: "admit now s u = (b, s')"
  shows "seen_ok now (sn_seenTTL s) (if b then insert (now, u) H else H) (sn_seen s')"
    and "b \<Longrightarrow> (t, u) \<in> H \<Longrightarrow> now - t \<ge> sn_seenTTL s"
    and "\<not> b \<Longrightarrow> \<exists>t. (t, u) \<in> H \<and> now - t \<le> sn_seenTTL s"
proof -
  define ttl where "ttl = sn_seenTTL s"
  have s1: "seen u' = Some t \<Longrightarrow> (t, u') \<in> H" "seen u' = Some t \<Longrightarrow> (t', u') \<in> H \<Longrightarrow> t' \<le> t"
    "(t, u') \<in> H \<Longrightarrow> t \<le> now" "(t, u') \<in> H \<Longrightarrow> seen u' = None \<Longrightarrow> now - t \<ge> ttl"
    if "seen = sn_seen s" for u' t t' seen
    using ok le that unfolding seen_ok_def ttl_def by force+
  have old: "(t, u') \<in> H \<Longrightarrow> sn_seen s u' = Some t' \<Longrightarrow> now - t' \<ge> ttl \<Longrightarrow> now - t \<ge> ttl" for t t' u'
    using s1(2) [OF refl, of u' t' t] by linarith
  show "seen_ok now (sn_seenTTL s) (if b then insert (now, u) H else H) (sn_seen s')"
  proof (cases "\<exists>t. sn_seen s u = Some t \<and> \<not> now - t > ttl")
    case True
    then have "b = False \<and> s' = s" using a by (auto simp: admit_def containsSeenLocked_def ttl_def)
    then show ?thesis using s1 [OF refl] by (auto simp: seen_ok_def ttl_def)
  next
    case False
    then have b: "b" "sn_seen s' = (\<lambda>k. if k = u then Some now
        else case sn_seen s k of None \<Rightarrow> None | Some t \<Rightarrow> if \<not> (t > now - ttl) then None else Some t)"
      using a by (auto simp: admit_def containsSeenLocked_def addSeenLocked_def ttl_def Let_def fun_eq_iff split: option.splits)
    show ?thesis
      unfolding seen_ok_def ttl_def [symmetric]
    proof (intro conjI allI impI)
      fix k t assume k: "sn_seen s' k = Some t"
      show "(t, k) \<in> (if b then insert (now, u) H else H)"
        using k s1(1) [OF refl, of k t] by (auto simp: b split: if_splits option.splits)
      fix t' assume "(t', k) \<in> (if b then insert (now, u) H else H)"
      then show "t' \<le> t"
        using k s1(2) [OF refl, of k t t'] s1(3) [OF refl, of t' k] by (auto simp: b split: if_splits option.splits)
    next
      fix k t assume k: "(t, k) \<in> (if b then insert (now, u) H else H)"
      show "t \<le> now" using k s1(3) [OF refl, of t k] by (auto simp: b)
      assume n: "sn_seen s' k = None"
      then have kH: "(t, k) \<in> H" and "k \<noteq> u" using k by (auto simp: b split: if_splits)
      show "now - t \<ge> ttl"
      proof (cases "sn_seen s k")
        case None
        then show ?thesis using s1(4) [OF refl kH] by simp
      next
        case (Some t')
        then have "now - t' \<ge> ttl" using n \<open>k \<noteq> u\<close> by (simp add: b split: if_splits)
        then show ?thesis using old [OF kH Some] by simp
      qed
    qed
  qed
  show "now - t \<ge> sn_seenTTL s" if "b" "(t, u) \<in> H"
  proof (cases "sn_seen s u")
    case None
    then show ?thesis using s1(4) [OF refl that(2)] by (simp add: ttl_def)
  next
    case (Some t')
    then have "now - t' > ttl" using a that(1) by (auto simp: admit_def containsSeenLocked_def ttl_def split: if_splits)
    then show ?thesis using old [OF that(2) Some] by (simp add: ttl_def)
  qed
  show "\<exists>t. (t, u) \<in> H \<and> now - t \<le> sn_seenTTL s" if nb: "\<not> b"
  proof -
    obtain t where "sn_seen s u = Some t" "\<not> now - t > sn_seenTTL s"
      using a nb by (auto simp: admit_def containsSeenLocked_def split: option.splits if_splits)
    then show ?thesis using s1(1) [OF refl] by force
  qed
qed

lemma fe_run_spec:
  assumes "sorted (map fst evs)" "seen_ok t0 (sn_seenTTL s) H (sn_seen s)" "\<forall>ev\<in>set evs. t0 \<le> fst ev"
    and "j < length evs" "consults s (snd (evs ! j))"
  shows "(fe_run s evs ! j \<longrightarrow>
      (\<forall>t. (t, fe_uuid (snd (evs ! j))) \<in> H \<longrightarrow> fst (evs ! j) - t \<ge> sn_seenTTL s) \<and>
      (\<forall>i<j. fe_run s evs ! i \<longrightarrow> fe_uuid (snd (evs ! i)) = fe_uuid (snd (evs ! j)) \<longrightarrow>
         fst (evs ! j) - fst (evs ! i) \<ge> sn_seenTTL s)) \<and>
    (\<not> fe_run s evs ! j \<longrightarrow>
      (\<exists>t. (t, fe_uuid (snd (evs ! j))) \<in> H \<and> fst (evs ! j) - t \<le> sn_seenTTL s) \<or>
      (\<exists>i<j. fe_run s evs ! i \<and> fe_uuid (snd (evs ! i)) = fe_uuid (snd (evs ! j)) \<and>
         fst (evs ! j) - fst (evs ! i) \<le> sn_seenTTL s))"
  using assms
proof (induction evs arbitrary: s t0 H j)
  case (Cons e evs)
  obtain now ev where e: "e = (now, ev)" by (cases e)
  obtain b s' where st: "fe_step now s ev = (b, s')" by fastforce
  have run: "fe_run s (e # evs) = b # fe_run s' evs" using st by (simp add: e)
  have man: "sn_manifest s' = sn_manifest s" "sn_seenTTL s' = sn_seenTTL s"
    using st admit_manifest [of now s "fe_uuid ev"] by (auto simp: fe_step_eq split: if_splits)
  define H' where "H' = (if b then insert (now, fe_uuid ev) H else H)"
  have now: "t0 \<le> now" "\<forall>x\<in>set evs. now \<le> fst x" using Cons.prems by (auto simp: e)
  have ok': "seen_ok now (sn_seenTTL s') H' (sn_seen s')"
  proof (cases "consults s ev")
    case True
    then show ?thesis using admit_spec(1) [OF Cons.prems(2) now(1)] st by (simp add: fe_step_eq man H'_def)
  next
    case False
    then have "b = False" "s' = s" using st by (simp_all add: fe_step_eq)
    then show ?thesis using Cons.prems(2) now(1) unfolding seen_ok_def H'_def by fastforce
  qed
  have cons: "consults s' x = consults s x" for x by (cases x) (simp_all add: man)
  show ?case
  proof (cases j)
    case 0
    then have c: "consults s ev" using Cons.prems by (simp add: e)
    then have "admit now s (fe_uuid ev) = (b, s')" using st by (simp add: fe_step_eq)
    from admit_spec(2,3) [OF Cons.prems(2) now(1) this] show ?thesis using 0 run by (auto simp: e)
  next
    case (Suc k)
    have srt: "sorted (map fst evs)" "k < length evs" "consults s' (snd (evs ! k))" using Cons.prems Suc cons by simp_all
    note ih = Cons.IH [OF srt(1) ok' now(2) srt(2,3)]
    have pos: "fst (evs ! k) - t \<ge> sn_seenTTL s" if "fe_run s' evs ! k" "(t, fe_uuid (snd (evs ! k))) \<in> H'" for t
      using ih that man by simp
    have neg: "(\<exists>t. (t, fe_uuid (snd (evs ! k))) \<in> H' \<and> fst (evs ! k) - t \<le> sn_seenTTL s) \<or>
        (\<exists>i<k. fe_run s' evs ! i \<and> fe_uuid (snd (evs ! i)) = fe_uuid (snd (evs ! k)) \<and>
           fst (evs ! k) - fst (evs ! i) \<le> sn_seenTTL s)" if "\<not> fe_run s' evs ! k"
      using ih that man by simp
    have "fst ((e # evs) ! j) - fst ((e # evs) ! i) \<ge> sn_seenTTL s"
      if "fe_run s' evs ! k" "i < j" "fe_run s (e # evs) ! i" "fe_uuid (snd ((e # evs) ! i)) = fe_uuid (snd ((e # evs) ! j))" for i
    proof (cases i)
      case 0
      then show ?thesis using that Suc run pos [of now] by (simp add: e H'_def)
    next
      case (Suc i')
      then show ?thesis using that \<open>j = Suc k\<close> run ih man by simp
    qed
    moreover have "(\<exists>t. (t, fe_uuid (snd (evs ! k))) \<in> H \<and> fst (evs ! k) - t \<le> sn_seenTTL s) \<or>
      (\<exists>i<j. fe_run s (e # evs) ! i \<and> fe_uuid (snd ((e # evs) ! i)) = fe_uuid (snd (evs ! k)) \<and>
         fst (evs ! k) - fst ((e # evs) ! i) \<le> sn_seenTTL s)" if nk: "\<not> fe_run s' evs ! k"
      using neg [OF nk]
    proof
      assume "\<exists>t. (t, fe_uuid (snd (evs ! k))) \<in> H' \<and> fst (evs ! k) - t \<le> sn_seenTTL s"
      then obtain t where t: "(t, fe_uuid (snd (evs ! k))) \<in> H'" "fst (evs ! k) - t \<le> sn_seenTTL s" by blast
      show ?thesis
      proof (cases "(t, fe_uuid (snd (evs ! k))) \<in> H")
        case False
        then have "b" "t = now" "fe_uuid (snd (evs ! k)) = fe_uuid ev" using t by (auto simp: H'_def split: if_splits)
        then show ?thesis using t Suc run by (intro disjI2 exI [of _ 0]) (simp add: e)
      qed (use t in blast)
    next
      assume "\<exists>i<k. fe_run s' evs ! i \<and> fe_uuid (snd (evs ! i)) = fe_uuid (snd (evs ! k)) \<and>
         fst (evs ! k) - fst (evs ! i) \<le> sn_seenTTL s"
      then obtain i where "i < k" "fe_run s' evs ! i" "fe_uuid (snd (evs ! i)) = fe_uuid (snd (evs ! k))"
        "fst (evs ! k) - fst (evs ! i) \<le> sn_seenTTL s" by blast
      then show ?thesis using Suc run by (intro disjI2 exI [of _ "Suc i"]) simp
    qed
    moreover have "fst (evs ! k) - t \<ge> sn_seenTTL s" if "fe_run s' evs ! k" "(t, fe_uuid (snd (evs ! k))) \<in> H" for t
      using pos that by (simp add: H'_def)
    ultimately show ?thesis using Suc run by (simp add: e)
  qed
qed simp_all

text \<open>
  The flood of a WhoHas frame is cut exactly. In a run of \<open>ProcessWhoHas\<close> and \<open>ShouldForward\<close> calls at times that
  do not decrease, on a new node, a frame is never admitted twice within the time to live of its
  identifier, and a frame that is refused by the set of seen identifiers was admitted at most that long ago,
  although expired entries are removed at different moments by the two operations.
\<close>

theorem flood_admitted_once:
  assumes "sorted (map fst evs)" "s = NewSonar m [WithSeenTTL ttl]" "j < length evs" "consults s (snd (evs ! j))"
  shows "(fe_run s evs ! j \<longrightarrow>
      (\<forall>i<j. fe_run s evs ! i \<longrightarrow> fe_uuid (snd (evs ! i)) = fe_uuid (snd (evs ! j)) \<longrightarrow>
         fst (evs ! j) - fst (evs ! i) \<ge> ttl)) \<and>
    (\<not> fe_run s evs ! j \<longrightarrow>
      (\<exists>i<j. fe_run s evs ! i \<and> fe_uuid (snd (evs ! i)) = fe_uuid (snd (evs ! j)) \<and>
         fst (evs ! j) - fst (evs ! i) \<le> ttl))"
proof -
  define t0 where "t0 = fst (hd evs)"
  have s: "sn_seen s = Map.empty" "sn_seenTTL s = ttl" by (simp_all add: assms(2) NewSonar_def WithSeenTTL_def)
  have "seen_ok t0 (sn_seenTTL s) {} (sn_seen s)" by (simp add: seen_ok_def s)
  moreover have "\<forall>ev\<in>set evs. t0 \<le> fst ev" using assms(1) by (cases evs) (auto simp: t0_def)
  ultimately show ?thesis using fe_run_spec [OF assms(1) _ _ assms(3,4)] s(2) by auto
qed

theorem flood_admitted_once_witness:
  "fe_run (NewSonar (NewManifest ''n'') [WithSeenTTL 10])
     [(0, Processed \<lparr>wh_UUID = ''u'', wh_capability = ''c'', wh_originID = ''m'', wh_maxHops = 3\<rparr>),
      (5, Processed \<lparr>wh_UUID = ''u'', wh_capability = ''c'', wh_originID = ''m'', wh_maxHops = 2\<rparr>)] ! 1 = False"
proof -
  define f where "f h = Processed \<lparr>wh_UUID = ''u'', wh_capability = ''c'', wh_originID = ''m'', wh_maxHops = h\<rparr>" for h
  define s where "s = NewSonar (NewManifest ''n'') [WithSeenTTL 10]"
  define r where "r = fe_run s [(0, f 3), (5, f 2)]"
  have p: "sorted (map fst [(0::time, f 3), (5, f 2)])" "1 < length [(0::time, f 3), (5, f 2)]"
    "consults s (snd ([(0::time, f 3), (5, f 2)] ! 1))" by (simp_all add: f_def)
  have "r ! 0" by (simp add: r_def s_def f_def NewSonar_def ProcessWhoHas_def containsSeenLocked_def Let_def WithSeenTTL_def)
  moreover have "fe_uuid (f h) = ''u''" for h by (simp add: f_def)
  ultimately have "\<not> r ! 1"
    using flood_admitted_once [OF p(1) s_def p(2,3), folded r_def] by auto
  then show ?thesis by (simp add: r_def f_def s_def)
qed

section \<open>Identifiers are unique\<close>

definition val36 :: "char \<Rightarrow> nat" where
  "val36 c = (let n = of_char c in if n < 58 then n - 48 else n - 87)"

lemma digit36: "d < 36 \<Longrightarrow> val36 (digit36 d) = d" "d < 36 \<Longrightarrow> digit36 d \<noteq> CHR '':''"
proof -
  assume d: "d < 36"
  then have o: "(of_char (digit36 d) :: nat) = (if d < 10 then 48 + d else 87 + d)" by (simp add: digit36_def)
  then show "val36 (digit36 d) = d" by (simp add: val36_def Let_def)
  show "digit36 d \<noteq> CHR '':''"
  proof
    assume "digit36 d = CHR '':''"
    then have "(of_char (digit36 d) :: nat) = 58" by simp
    then show False using o by (simp split: if_splits)
  qed
qed

lemma base36_value: "foldl (\<lambda>v c. 36 * v + val36 c) 0 (base36 n) = n" and base36_no_colon: "CHR '':'' \<notin> set (base36 n)"
proof (induction n rule: base36.induct)
  case (1 n)
  have "n mod 36 < 36" by simp
  note d = digit36 [OF this]
  show "foldl (\<lambda>v c. 36 * v + val36 c) 0 (base36 n) = n"
    using 1 d by (subst base36.simps) (auto simp: digit36)
  show "CHR '':'' \<notin> set (base36 n)"
    using 1 d by (subst base36.simps) (auto simp: digit36 dest: sym)
qed

lemma base36_inj: "base36 m = base36 n \<longleftrightarrow> m = n"
  by (metis base36_value)

lemma append_colon_inj:
  assumes "CHR '':'' \<notin> set x" "CHR '':'' \<notin> set y"
  shows "a @ '':'' @ x = b @ '':'' @ y \<longleftrightarrow> a = b \<and> x = y"
proof
  assume "a @ '':'' @ x = b @ '':'' @ y"
  then have "rev x @ CHR '':'' # rev a = rev y @ CHR '':'' # rev b"
    by (metis append.assoc append_Cons append_Nil rev.simps(2) rev_append rev_rev_ident)
  note eq = this
  have "length (rev x) = length (rev y)"
    using arg_cong [where f = "\<lambda>l. index_byte l CHR '':''", OF eq] assms index_byte_append [of "CHR '':''" "rev x"]
      index_byte_append [of "CHR '':''" "rev y"] by simp
  then have "rev x = rev y \<and> rev a = rev b" using eq append_eq_append_conv [of "rev x" "rev y"] by simp
  then show "a = b \<and> x = y" by simp
qed simp

fun created :: "sonar \<Rightarrow> (string \<times> 32 word) list \<Rightarrow> whoHasFrame list" where
  "created s [] = []"
| "created s ((capability, maxHops) # qs) =
     (let (frame, s') = CreateWhoHas s capability maxHops in frame # created s' qs)"

lemma created_nth:
  "i < length qs \<Longrightarrow> created s qs ! i =
     \<lparr>wh_UUID = sn_uuidPrefix s @ base36 (unat (sn_uuidCounter s + of_nat (Suc i))), wh_capability = fst (qs ! i),
      wh_originID = m_nodeID (sn_manifest s), wh_maxHops = snd (qs ! i)\<rparr>"
proof (induction qs arbitrary: s i)
  case (Cons q qs)
  obtain c h where q: "q = (c, h)" by (cases q)
  show ?case
  proof (cases i)
    case (Suc k)
    have "k < length qs" using Suc Cons.prems by simp
    moreover have "of_nat (Suc (Suc k)) = (1 + of_nat (Suc k) :: 64 word)" by simp
    ultimately show ?thesis
      using Cons.IH [of k] Suc by (simp add: q CreateWhoHas_def generateUUID_def Let_def add.assoc del: of_nat_Suc)
  qed (simp add: q CreateWhoHas_def generateUUID_def Let_def)
qed simp

text \<open>
  The identifiers of broadcasts never collide: of all the WhoHas frames that any nodes create after their start, fewer than
  2^64 each, two have the same UUID only if they are the same frame of the same node. Node names may contain
  colons; the part after the last colon is the counter in base 36, so it determines the node and the number.
\<close>

theorem broadcast_ids_unique:
  assumes "length qs < 2 ^ 64" "length qs' < 2 ^ 64" "i < length qs" "j < length qs'"
  shows "wh_UUID (created (NewSonar m []) qs ! i) = wh_UUID (created (NewSonar m' []) qs' ! j) \<longleftrightarrow>
    m_nodeID m = m_nodeID m' \<and> i = j"
proof -
  have u: "unat (0 + of_nat (Suc k) :: 64 word) = Suc k" if "k < n" "n < 2 ^ 64" for k n
    using that by (simp add: unsigned_of_nat take_bit_nat_eq_self del: of_nat_Suc)
  have "wh_UUID (created (NewSonar n []) ps ! k) = m_nodeID n @ '':'' @ base36 (Suc k)"
    if "length ps < 2 ^ 64" "k < length ps" for n ps k
    using that u [of k "length ps"] by (simp add: created_nth NewSonar_def del: of_nat_Suc)
  then show ?thesis
    using assms by (simp only: append_colon_inj [OF base36_no_colon base36_no_colon] base36_inj) simp
qed

theorem broadcast_ids_unique_witness:
  "wh_UUID (created (NewSonar (NewManifest ''a:1'') []) [(''c'', 3), (''d'', 3)] ! 1) \<noteq>
   wh_UUID (created (NewSonar (NewManifest ''a'') []) [(''c'', 3)] ! 0)"
  using broadcast_ids_unique [of "[(''c'', 3), (''d'', 3)]" "[(''c'', 3)]" 1 0 "NewManifest ''a:1''" "NewManifest ''a''"] by simp

end
