(* ===== verification/Gradient.thy ===== *)
theory Gradient
  imports Prelude
begin

text \<open>
  Model of \<open>pkg/mesh/routing/gradient.go\<close>: the impedance-based routing table of a mesh node, filled by
  gossip, and the cached, size-limited route vector it gossips itself. The state is the record
  \<open>gradientTable\<close> of the Go struct without its mutex: every method runs under the lock, so a concurrent
  execution is a sequence of the steps of \<open>gt_step\<close>. Each method takes the clock reading \<open>now\<close> where
  the code calls \<open>time.Now()\<close> and, where the code walks a map, the order \<open>walk\<close> of its keys. A Go map
  that is nil is the empty map. \<open>gt_inv\<close> says that the cached vector is right whenever the table is not
  marked dirty; it is shown to hold in every reachable state, so gossip never carries stale routes.
\<close>

section \<open>State\<close>

record pathEntry =
  pe_nextHop :: node_id
  pe_totalCost :: f64
  pe_lastSeen :: time

record pathCost =
  pc_nextHop :: node_id
  pc_totalCost :: f64

record gossipRoute =
  gr_targetID :: node_id
  gr_cost :: f64

record gossipVector =
  gv_fromNodeID :: node_id
  gv_fromImpedance :: f64
  gv_routes :: "gossipRoute list"
  gv_fromCapabilities :: "string list"
  gv_nodeCapabilities :: "node_id \<rightharpoonup> string list"

record gossipInput =
  gi_localCapabilities :: "string list"
  gi_knownCapabilities :: "node_id \<rightharpoonup> string list"

record gradientTable =
  gt_selfID :: node_id
  gt_routes :: "node_id \<rightharpoonup> pathEntry list"
  gt_gossipCache :: "gossipRoute list option"
  gt_gossipImpedance :: f64
  gt_gossipBudget :: int
  gt_gossipGen :: "64 word"
  gt_dirty :: bool

definition NewGradientTable :: "node_id \<Rightarrow> gradientTable" where
  "NewGradientTable selfID =
     \<lparr>gt_selfID = selfID, gt_routes = Map.empty, gt_gossipCache = None, gt_gossipImpedance = Num 0,
      gt_gossipBudget = 0, gt_gossipGen = 0, gt_dirty = False\<rparr>"

section \<open>Route updates\<close>

text \<open>
  The loop of \<open>UpdateRoute\<close> over the known paths: \<open>None\<close> if no path goes through \<open>nextHop\<close>, otherwise
  the updated paths and whether the cost changed.
\<close>

fun update_paths :: "time \<Rightarrow> node_id \<Rightarrow> f64 \<Rightarrow> pathEntry list \<Rightarrow> (pathEntry list \<times> bool) option" where
  "update_paths now nextHop totalCost [] = None"
| "update_paths now nextHop totalCost (p # ps) =
     (if pe_nextHop p = nextHop then
        (let p' = p\<lparr>pe_lastSeen := now\<rparr> in
         if \<not> feq (pe_totalCost p) totalCost then Some (p'\<lparr>pe_totalCost := totalCost\<rparr> # ps, True)
         else Some (p' # ps, False))
      else map_option (\<lambda>(ps', changed). (p # ps', changed)) (update_paths now nextHop totalCost ps))"

definition paths_of :: "gradientTable \<Rightarrow> node_id \<Rightarrow> pathEntry list" where
  "paths_of gt t = (case gt_routes gt t of None \<Rightarrow> [] | Some ps \<Rightarrow> ps)"

definition UpdateRoute :: "time \<Rightarrow> gradientTable \<Rightarrow> node_id \<Rightarrow> node_id \<Rightarrow> f64 \<Rightarrow> gradientTable" where
  "UpdateRoute now gt targetID nextHop totalCost =
     (let paths = paths_of gt targetID in
      case update_paths now nextHop totalCost paths of
        Some (paths', changed) \<Rightarrow>
          gt\<lparr>gt_dirty := (if changed then True else gt_dirty gt), gt_routes := (gt_routes gt)(targetID \<mapsto> paths')\<rparr>
      | None \<Rightarrow>
          gt\<lparr>gt_routes := (gt_routes gt)(targetID \<mapsto>
               paths @ [\<lparr>pe_nextHop = nextHop, pe_totalCost = totalCost, pe_lastSeen = now\<rparr>]),
             gt_dirty := True\<rparr>)"

definition AddDirectNeighbor :: "time \<Rightarrow> gradientTable \<Rightarrow> node_id \<Rightarrow> f64 \<Rightarrow> gradientTable" where
  "AddDirectNeighbor now gt neighborID impedance = UpdateRoute now gt neighborID neighborID impedance"

fun process_loop :: "(nat \<Rightarrow> time) \<Rightarrow> gossipVector \<Rightarrow> gradientTable \<Rightarrow> gossipRoute list \<Rightarrow> gradientTable" where
  "process_loop clock gossip gt [] = gt"
| "process_loop clock gossip gt (route # routes) =
     (if gr_targetID route = gt_selfID gt then process_loop clock gossip gt routes
      else let totalCost = fadd (gr_cost route) (gv_fromImpedance gossip)
           in process_loop (\<lambda>i. clock (Suc i)) gossip
                (UpdateRoute (clock 0) gt (gr_targetID route) (gv_fromNodeID gossip) totalCost) routes)"

text \<open>Each route that is taken in is stamped with a reading of the clock of its own, the next of \<open>clock\<close>.\<close>

definition ProcessGossip :: "(nat \<Rightarrow> time) \<Rightarrow> gradientTable \<Rightarrow> gossipVector \<Rightarrow> gradientTable" where
  "ProcessGossip clock gt gossip = process_loop clock gossip gt (gv_routes gossip)"

section \<open>Queries\<close>

text \<open>The scan for the cheapest path; it is applied to non-empty lists only.\<close>

definition best_of :: "pathEntry list \<Rightarrow> pathEntry" where
  "best_of paths = foldl (\<lambda>best p. if flt (pe_totalCost p) (pe_totalCost best) then p else best) (hd paths) (tl paths)"

definition BestRoute :: "gradientTable \<Rightarrow> node_id \<Rightarrow> pathCost option" where
  "BestRoute gt targetID =
     (case gt_routes gt targetID of
        None \<Rightarrow> None
      | Some paths \<Rightarrow>
          if paths = [] then None
          else let best = best_of paths
               in Some \<lparr>pc_nextHop = pe_nextHop best, pc_totalCost = pe_totalCost best\<rparr>)"

definition AllRoutes :: "gradientTable \<Rightarrow> node_id \<rightharpoonup> pathCost" where
  "AllRoutes gt = (\<lambda>targetID.
     case gt_routes gt targetID of
       None \<Rightarrow> None
     | Some paths \<Rightarrow>
         if paths = [] then None
         else let best = best_of paths
              in Some \<lparr>pc_nextHop = pe_nextHop best, pc_totalCost = pe_totalCost best\<rparr>)"

section \<open>Gossip generation\<close>

definition DefaultGossipFrameBudget :: int where
  "DefaultGossipFrameBudget = 32 * 1024"

definition avgRouteOnWire :: int where
  "avgRouteOnWire = 40"

definition gossipOverheadEstimate :: int where
  "gossipOverheadEstimate = 128"

definition RouteBudget :: "int \<Rightarrow> int" where
  "RouteBudget frameBudgetBytes =
     (let available = frameBudgetBytes - gossipOverheadEstimate in
      if available < avgRouteOnWire then 1 else available div avgRouteOnWire)"

fun drain_ranked :: "(node_id \<rightharpoonup> string list) \<Rightarrow> node_id \<Rightarrow> int \<Rightarrow> (node_id \<rightharpoonup> string list) \<Rightarrow>
    gossipRoute list \<Rightarrow> node_id \<rightharpoonup> string list" where
  "drain_ranked caps selfID budget result [] = result"
| "drain_ranked caps selfID budget result (r # rs) =
     (if int (card (dom result)) \<ge> budget then result
      else if gr_targetID r = selfID then drain_ranked caps selfID budget result rs
      else case caps (gr_targetID r) of
        None \<Rightarrow> drain_ranked caps selfID budget result rs
      | Some c \<Rightarrow>
          if result (gr_targetID r) \<noteq> None then drain_ranked caps selfID budget result rs
          else drain_ranked caps selfID budget (result(gr_targetID r \<mapsto> c)) rs)"

fun fill_slack :: "(node_id \<rightharpoonup> string list) \<Rightarrow> int \<Rightarrow> (node_id \<rightharpoonup> string list) \<Rightarrow> node_id list \<Rightarrow>
    node_id \<rightharpoonup> string list" where
  "fill_slack caps budget result [] = result"
| "fill_slack caps budget result (n # ns) =
     (if int (card (dom result)) \<ge> budget then result
      else fill_slack caps budget (result(n := caps n)) ns)"

definition capHorizonRanked :: "(node_id \<rightharpoonup> string list) \<Rightarrow> node_id \<Rightarrow> gossipRoute list \<Rightarrow> int \<Rightarrow>
    node_id \<rightharpoonup> string list" where
  "capHorizonRanked caps selfID rankedRoutes budget =
     (if dom caps = {} \<or> budget \<le> 0 then Map.empty
      else let result = drain_ranked caps selfID budget Map.empty rankedRoutes in
        if int (card (dom result)) < budget
        then fill_slack caps budget result (sorted_list_of_set (dom caps - {selfID} - dom result))
        else result)"

definition best_routes :: "gradientTable \<Rightarrow> node_id list \<Rightarrow> gossipRoute list" where
  "best_routes gt walk =
     concat (map (\<lambda>t. let paths = paths_of gt t in
       if paths = [] then [] else [\<lparr>gr_targetID = t, gr_cost = pe_totalCost (best_of paths)\<rparr>]) walk)"

definition GenerateGossipBudgeted ::
    "node_id list \<Rightarrow> gradientTable \<Rightarrow> f64 \<Rightarrow> gossipInput \<Rightarrow> int \<Rightarrow> gossipVector \<times> gradientTable" where
  "GenerateGossipBudgeted walk gt localImpedance input frameBudgetBytes =
     (let horizon = RouteBudget frameBudgetBytes;
          vector = (\<lambda>routes. \<lparr>gv_fromNodeID = gt_selfID gt, gv_fromImpedance = localImpedance, gv_routes = routes,
             gv_fromCapabilities = gi_localCapabilities input,
             gv_nodeCapabilities = capHorizonRanked (gi_knownCapabilities input) (gt_selfID gt) routes horizon\<rparr>)
      in if \<not> gt_dirty gt \<and> gt_gossipCache gt \<noteq> None \<and> feq (gt_gossipImpedance gt) localImpedance \<and>
            gt_gossipBudget gt = frameBudgetBytes
         then (vector (the (gt_gossipCache gt)), gt)
         else let routes0 = best_routes gt walk;
                  routes = (if int (length routes0) > horizon
                            then take (nat horizon) (go_sort (\<lambda>a b. flt (gr_cost a) (gr_cost b)) routes0)
                            else routes0)
              in (vector routes,
                  gt\<lparr>gt_gossipCache := Some routes, gt_gossipImpedance := localImpedance,
                     gt_gossipBudget := frameBudgetBytes, gt_dirty := False, gt_gossipGen := gt_gossipGen gt + 1\<rparr>))"

definition GenerateGossip ::
    "node_id list \<Rightarrow> gradientTable \<Rightarrow> f64 \<Rightarrow> gossipInput \<Rightarrow> gossipVector \<times> gradientTable" where
  "GenerateGossip walk gt localImpedance input =
     GenerateGossipBudgeted walk gt localImpedance input DefaultGossipFrameBudget"

section \<open>Removal\<close>

text \<open>Filtering the paths of every target; a target that is left without a path is deleted.\<close>

definition filter_routes :: "(pathEntry \<Rightarrow> bool) \<Rightarrow> (node_id \<rightharpoonup> pathEntry list) \<Rightarrow> node_id \<rightharpoonup> pathEntry list" where
  "filter_routes P routes = (\<lambda>t. case routes t of None \<Rightarrow> None
     | Some paths \<Rightarrow> (let filtered = filter P paths in if filtered = [] then None else Some filtered))"

definition RemoveNeighbor :: "gradientTable \<Rightarrow> node_id \<Rightarrow> gradientTable" where
  "RemoveNeighbor gt neighborID =
     (let keep = (\<lambda>p. pe_nextHop p \<noteq> neighborID);
          mutated = (\<exists>t\<in>dom (gt_routes gt). length (filter keep (paths_of gt t)) \<noteq> length (paths_of gt t))
      in gt\<lparr>gt_routes := filter_routes keep (gt_routes gt), gt_dirty := (if mutated then True else gt_dirty gt)\<rparr>)"

definition PurgeStale :: "time \<Rightarrow> gradientTable \<Rightarrow> duration \<Rightarrow> int \<times> gradientTable" where
  "PurgeStale now gt maxAge =
     (let cutoff = now - maxAge;
          keep = (\<lambda>p. pe_lastSeen p > cutoff);
          purged = (\<Sum>t\<in>dom (gt_routes gt). int (length (filter (\<lambda>p. \<not> keep p) (paths_of gt t))))
      in (purged, gt\<lparr>gt_routes := filter_routes keep (gt_routes gt),
                     gt_dirty := (if purged > 0 then True else gt_dirty gt)\<rparr>))"

section \<open>The table as a step relation\<close>

text \<open>
  One step is one call of a method that changes the table, with any arguments, clock reading and walk
  order. \<open>gt_reach selfID\<close> are the tables that calls can produce from a new one.
\<close>

inductive gt_step :: "gradientTable \<Rightarrow> gradientTable \<Rightarrow> bool" where
  update: "gt_step gt (UpdateRoute now gt t n c)"
| direct: "gt_step gt (AddDirectNeighbor now gt n c)"
| gossip: "gt_step gt (ProcessGossip clock gt v)"
| remove: "gt_step gt (RemoveNeighbor gt n)"
| purge: "gt_step gt (snd (PurgeStale now gt age))"
| generate: "walk_of walk (gt_routes gt) \<Longrightarrow> gt_step gt (snd (GenerateGossipBudgeted walk gt imp input budget))"

inductive_cases gt_stepE: "gt_step gt gt'"

inductive gt_reach :: "node_id \<Rightarrow> gradientTable \<Rightarrow> bool" for selfID where
  start: "gt_reach selfID (NewGradientTable selfID)"
| step: "gt_reach selfID gt \<Longrightarrow> gt_step gt gt' \<Longrightarrow> gt_reach selfID gt'"

section \<open>Cheapest paths\<close>

lemma best_of_fold:
  assumes "ps \<noteq> []"
  shows "best_of ps \<in> set ps"
    "(\<And>p. p \<in> set ps \<Longrightarrow> pe_totalCost p \<noteq> NaN) \<Longrightarrow> p \<in> set ps \<Longrightarrow> \<not> flt (pe_totalCost p) (pe_totalCost (best_of ps))"
proof -
  let ?f = "\<lambda>best p. if flt (pe_totalCost p) (pe_totalCost best) then p else best"
  have mem: "foldl ?f b qs \<in> insert b (set qs)" for b qs
    by (induction qs arbitrary: b) auto
  obtain b qs where ps: "ps = b # qs" using assms by (cases ps) auto
  show "best_of ps \<in> set ps" using mem [of b qs] by (simp add: best_of_def ps)
  have min: "(\<And>p. p \<in> insert b (set qs) \<Longrightarrow> pe_totalCost p \<noteq> NaN) \<Longrightarrow>
    \<forall>p\<in>insert b (set qs). \<not> flt (pe_totalCost p) (pe_totalCost (foldl ?f b qs))" for b qs
  proof (induction qs arbitrary: b)
    case (Cons q qs)
    define b' where "b' = ?f b q"
    have nn: "p \<in> insert b' (set qs) \<Longrightarrow> pe_totalCost p \<noteq> NaN" for p
      using Cons.prems by (auto simp: b'_def split: if_splits)
    have ih: "\<forall>p\<in>insert b' (set qs). \<not> flt (pe_totalCost p) (pe_totalCost (foldl ?f b' qs))"
      by (rule Cons.IH [OF nn])
    have low: "\<not> flt (pe_totalCost x) (pe_totalCost b')" if "x = b \<or> x = q" for x
      using that by (auto simp: b'_def dest: flt_asym)
    have "\<not> flt (pe_totalCost x) (pe_totalCost (foldl ?f b' qs))" if "x = b \<or> x = q" for x
      using not_flt_trans [of "pe_totalCost b'" "pe_totalCost (foldl ?f b' qs)" "pe_totalCost x"]
        low [OF that] ih nn by blast
    then show ?case using ih by (simp add: b'_def [symmetric])
  qed auto
  show "\<not> flt (pe_totalCost p) (pe_totalCost (best_of ps))"
    if "\<And>p. p \<in> set ps \<Longrightarrow> pe_totalCost p \<noteq> NaN" "p \<in> set ps"
    using min [of b qs] that by (auto simp: best_of_def ps)
qed

lemma best_of_cost:
  "ps \<noteq> [] \<Longrightarrow> pe_totalCost (best_of ps) =
     foldl (\<lambda>b c. if flt c b then c else b) (hd (map pe_totalCost ps)) (tl (map pe_totalCost ps))"
proof -
  have "pe_totalCost (foldl (\<lambda>best p. if flt (pe_totalCost p) (pe_totalCost best) then p else best) b qs) =
    foldl (\<lambda>b c. if flt c b then c else b) (pe_totalCost b) (map pe_totalCost qs)" for b qs
    by (induction qs arbitrary: b) auto
  then show "ps \<noteq> [] \<Longrightarrow> ?thesis" by (cases ps) (auto simp: best_of_def)
qed

text \<open>
  \<open>BestRoute\<close> returns a known path of least cost: it answers for a target exactly when a path to
  it is known, the next hop and the cost it returns are those of one of these paths, and, when no cost
  is NaN, no known path to the target is cheaper.
\<close>

theorem best_route_least_cost:
  assumes "gt_routes gt t = Some ps" "ps \<noteq> []"
  shows "\<exists>p\<in>set ps. BestRoute gt t = Some \<lparr>pc_nextHop = pe_nextHop p, pc_totalCost = pe_totalCost p\<rparr> \<and>
    ((\<forall>q\<in>set ps. pe_totalCost q \<noteq> NaN) \<longrightarrow> (\<forall>q\<in>set ps. \<not> flt (pe_totalCost q) (pe_totalCost p)))"
  using best_of_fold [OF assms(2)] assms
  by (intro bexI [of _ "best_of ps"]) (auto simp: BestRoute_def Let_def)

theorem best_route_least_cost_witness:
  "\<exists>p::pathEntry. BestRoute (UpdateRoute 1 (UpdateRoute 0 (NewGradientTable ''a'') ''c'' ''b'' (Num 5)) ''c'' ''d'' (Num 3)) ''c'' =
     Some \<lparr>pc_nextHop = pe_nextHop p, pc_totalCost = pe_totalCost p\<rparr> \<and> \<not> flt (Num 3) (pe_totalCost p)"
proof -
  define gt where "gt = UpdateRoute 1 (UpdateRoute 0 (NewGradientTable ''a'') ''c'' ''b'' (Num 5)) ''c'' ''d'' (Num 3)"
  define ps where "ps = [\<lparr>pe_nextHop = ''b'', pe_totalCost = Num 5, pe_lastSeen = 0\<rparr>,
    \<lparr>pe_nextHop = ''d'', pe_totalCost = Num 3, pe_lastSeen = 1\<rparr>]"
  have "gt_routes gt ''c'' = Some ps" "ps \<noteq> []"
    by (simp_all add: gt_def ps_def UpdateRoute_def NewGradientTable_def paths_of_def)
  from best_route_least_cost [OF this] obtain p :: pathEntry where
    p: "BestRoute gt ''c'' = Some \<lparr>pc_nextHop = pe_nextHop p, pc_totalCost = pe_totalCost p\<rparr>"
    "(\<forall>q\<in>set ps. pe_totalCost q \<noteq> NaN) \<longrightarrow> (\<forall>q\<in>set ps. \<not> flt (pe_totalCost q) (pe_totalCost p))" by blast
  have "\<not> flt (Num 3) (pe_totalCost p)" using p(2) by (simp add: ps_def)
  with p(1) have "\<exists>p::pathEntry. BestRoute gt ''c'' = Some \<lparr>pc_nextHop = pe_nextHop p, pc_totalCost = pe_totalCost p\<rparr> \<and>
      \<not> flt (Num 3) (pe_totalCost p)" by blast
  then show ?thesis by (simp only: gt_def)
qed

text \<open>A NaN cost in the first position is never displaced, because no cost compares below it.\<close>

lemma best_route_nan_first:
  "gt_routes gt t = Some (p # ps) \<Longrightarrow> pe_totalCost p = NaN \<Longrightarrow>
   BestRoute gt t = Some \<lparr>pc_nextHop = pe_nextHop p, pc_totalCost = NaN\<rparr>"
proof -
  have "foldl (\<lambda>best p. if flt (pe_totalCost p) (pe_totalCost best) then p else best) b qs = b"
    if "pe_totalCost b = NaN" for b qs
    using that by (induction qs) auto
  from this [of p ps] show "gt_routes gt t = Some (p # ps) \<Longrightarrow> pe_totalCost p = NaN \<Longrightarrow> ?thesis"
    by (simp add: BestRoute_def best_of_def Let_def)
qed

section \<open>The invariant\<close>

text \<open>What the gossiped routes depend on: the costs of the known paths, by target.\<close>

definition cost_view :: "(node_id \<rightharpoonup> pathEntry list) \<Rightarrow> node_id \<rightharpoonup> f64 list" where
  "cost_view routes = (\<lambda>t. map_option (map pe_totalCost) (routes t))"

definition least_cost :: "f64 list \<Rightarrow> f64" where
  "least_cost cs = foldl (\<lambda>b c. if flt c b then c else b) (hd cs) (tl cs)"

definition fresh_routes :: "(node_id \<rightharpoonup> f64 list) \<Rightarrow> int \<Rightarrow> gossipRoute list \<Rightarrow> bool" where
  "fresh_routes costs horizon rs \<longleftrightarrow>
     distinct (map gr_targetID rs) \<and>
     (\<forall>r\<in>set rs. map_option least_cost (costs (gr_targetID r)) = Some (gr_cost r)) \<and>
     int (length rs) = min horizon (int (card (dom costs))) \<and>
     ((\<forall>t cs. costs t = Some cs \<longrightarrow> NaN \<notin> set cs) \<longrightarrow>
        (\<forall>t cs. costs t = Some cs \<longrightarrow> t \<notin> gr_targetID ` set rs \<longrightarrow>
           (\<forall>r\<in>set rs. \<not> flt (least_cost cs) (gr_cost r))))"

definition gt_inv :: "gradientTable \<Rightarrow> bool" where [inv_defs]:
  "gt_inv gt \<longleftrightarrow>
     finite (dom (gt_routes gt)) \<and>
     (\<forall>t ps. gt_routes gt t = Some ps \<longrightarrow> ps \<noteq> [] \<and> distinct (map pe_nextHop ps)) \<and>
     (\<not> gt_dirty gt \<longrightarrow> (\<forall>rs. gt_gossipCache gt = Some rs \<longrightarrow>
        fresh_routes (cost_view (gt_routes gt)) (RouteBudget (gt_gossipBudget gt)) rs))"

lemma gt_invI:
  assumes "finite (dom (gt_routes gt))"
    and "\<And>t ps. gt_routes gt t = Some ps \<Longrightarrow> ps \<noteq> [] \<and> distinct (map pe_nextHop ps)"
    and "\<And>rs. \<not> gt_dirty gt \<Longrightarrow> gt_gossipCache gt = Some rs \<Longrightarrow>
        fresh_routes (cost_view (gt_routes gt)) (RouteBudget (gt_gossipBudget gt)) rs"
  shows "gt_inv gt"
  using assms by (auto simp: gt_inv_def)

lemma gt_inv_paths: "gt_inv gt \<Longrightarrow> gt_routes gt t = Some ps \<Longrightarrow> ps \<noteq> [] \<and> distinct (map pe_nextHop ps)"
  by (simp add: gt_inv_def)

lemma gt_inv_new [inv_intros]: "gt_inv (NewGradientTable selfID)"
  by (rule gt_invI) (auto simp: NewGradientTable_def)

lemma dom_cost_view [simp]: "dom (cost_view routes) = dom routes"
  by (auto simp: cost_view_def dom_def)

lemma update_paths_None: "update_paths now n c ps = None \<longleftrightarrow> n \<notin> pe_nextHop ` set ps"
  by (induction now n c ps rule: update_paths.induct) (auto simp: Let_def)

lemma update_paths_Some:
  "update_paths now n c ps = Some (ps', changed) \<Longrightarrow>
   map pe_nextHop ps' = map pe_nextHop ps \<and> (\<not> changed \<longrightarrow> map pe_totalCost ps' = map pe_totalCost ps)"
  by (induction now n c ps arbitrary: ps' rule: update_paths.induct)
    (auto simp: Let_def feq_def split: if_splits)

lemma UpdateRoute_inv [inv_intros]:
  assumes "gt_inv gt"
  shows "gt_inv (UpdateRoute now gt t n c)"
proof (cases "update_paths now n c (paths_of gt t)")
  case None
  then have new: "n \<notin> pe_nextHop ` set (paths_of gt t)" by (simp add: update_paths_None)
  have "distinct (map pe_nextHop (paths_of gt t))"
    using assms by (auto simp: paths_of_def gt_inv_def split: option.splits)
  with None new assms show ?thesis
    by (intro gt_invI) (auto simp: UpdateRoute_def Let_def gt_inv_def split: if_splits)
next
  case (Some r)
  obtain ps' changed where r: "r = (ps', changed)" by (cases r)
  note u = update_paths_Some [OF Some [unfolded r]]
  have ne: "paths_of gt t \<noteq> []" using Some by auto
  then obtain ps where ps: "gt_routes gt t = Some ps" "paths_of gt t = ps"
    by (auto simp: paths_of_def split: option.splits)
  note inv = gt_inv_paths [OF assms ps(1)]
  have eq: "UpdateRoute now gt t n c =
      gt\<lparr>gt_dirty := (if changed then True else gt_dirty gt), gt_routes := (gt_routes gt)(t \<mapsto> ps')\<rparr>"
    using Some r by (simp add: UpdateRoute_def Let_def)
  define gt' where "gt' = gt\<lparr>gt_dirty := (if changed then True else gt_dirty gt), gt_routes := (gt_routes gt)(t \<mapsto> ps')\<rparr>"
  have sel: "gt_dirty gt' = (changed \<or> gt_dirty gt)" "gt_routes gt' = (gt_routes gt)(t \<mapsto> ps')"
    "gt_gossipCache gt' = gt_gossipCache gt" "gt_gossipBudget gt' = gt_gossipBudget gt"
    by (simp_all add: gt'_def)
  have nh: "map pe_nextHop ps' = map pe_nextHop ps" using u ps by simp
  then have ps': "ps' \<noteq> []" "distinct (map pe_nextHop ps')" using inv by auto
  have "gt_inv gt'"
  proof (rule gt_invI)
    show "finite (dom (gt_routes gt'))" using assms by (simp add: sel gt_inv_def)
    show "qs \<noteq> [] \<and> distinct (map pe_nextHop qs)" if "gt_routes gt' k = Some qs" for k qs
      using that ps' assms by (auto simp: sel gt_inv_def split: if_splits)
    fix rs
    assume clean: "\<not> gt_dirty gt'" "gt_gossipCache gt' = Some rs"
    then have "cost_view (gt_routes gt') = cost_view (gt_routes gt)"
      using u ps by (auto simp: cost_view_def sel)
    with clean assms show "fresh_routes (cost_view (gt_routes gt')) (RouteBudget (gt_gossipBudget gt')) rs"
      by (simp add: gt_inv_def sel)
  qed
  then show ?thesis by (simp add: eq gt'_def)
qed

lemma process_loop_inv: "gt_inv gt \<Longrightarrow> gt_inv (process_loop clock v gt rs)"
  by (induction clock v gt rs rule: process_loop.induct) (auto simp: Let_def intro: inv_intros)

lemma ProcessGossip_inv [inv_intros]: "gt_inv gt \<Longrightarrow> gt_inv (ProcessGossip clock gt v)"
  by (simp add: ProcessGossip_def process_loop_inv)

text \<open>Both removals filter every path list and set the dirty flag if anything was taken out.\<close>

lemma filter_routes_inv:
  assumes "gt_inv gt" "\<And>t ps. gt_routes gt t = Some ps \<Longrightarrow> filter P ps \<noteq> ps \<Longrightarrow> d"
  shows "gt_inv (gt\<lparr>gt_routes := filter_routes P (gt_routes gt), gt_dirty := (if d then True else gt_dirty gt)\<rparr>)"
    (is "gt_inv ?gt")
proof (rule gt_invI)
  have "dom (filter_routes P (gt_routes gt)) \<subseteq> dom (gt_routes gt)"
    by (auto simp: filter_routes_def split: option.splits)
  then show "finite (dom (gt_routes ?gt))" using assms(1) finite_subset by (auto simp: gt_inv_def)
  show "ps \<noteq> [] \<and> distinct (map pe_nextHop ps)" if "gt_routes ?gt t = Some ps" for t ps
    using that assms(1) distinct_map_filter
    by (fastforce simp: filter_routes_def gt_inv_def Let_def split: option.splits if_splits)
  fix rs assume "\<not> gt_dirty ?gt" "gt_gossipCache ?gt = Some rs"
  then have c: "\<not> d" "\<not> gt_dirty gt" "gt_gossipCache gt = Some rs" by (auto split: if_splits)
  have "filter_routes P (gt_routes gt) t = gt_routes gt t" for t
  proof (cases "gt_routes gt t")
    case (Some ps)
    then have "filter P ps = ps" "ps \<noteq> []" using assms(2) c(1) gt_inv_paths [OF assms(1)] by blast+
    with Some show ?thesis by (simp add: filter_routes_def)
  qed (simp add: filter_routes_def)
  then have "filter_routes P (gt_routes gt) = gt_routes gt" by (rule ext)
  then show "fresh_routes (cost_view (gt_routes ?gt)) (RouteBudget (gt_gossipBudget ?gt)) rs"
    using c assms(1) by (simp add: gt_inv_def)
qed

lemma RemoveNeighbor_inv [inv_intros]: "gt_inv gt \<Longrightarrow> gt_inv (RemoveNeighbor gt n)"
  unfolding RemoveNeighbor_def Let_def
proof (rule filter_routes_inv)
  fix t ps assume ps: "gt_routes gt t = Some ps" "filter (\<lambda>p. pe_nextHop p \<noteq> n) ps \<noteq> ps"
  then have "length (filter (\<lambda>p. pe_nextHop p \<noteq> n) ps) \<noteq> length ps"
    by (metis filter_id_conv length_filter_less less_irrefl)
  then show "\<exists>t\<in>dom (gt_routes gt). length (filter (\<lambda>p. pe_nextHop p \<noteq> n) (paths_of gt t)) \<noteq> length (paths_of gt t)"
    using ps(1) by (intro bexI [of _ t]) (auto simp: paths_of_def)
qed

lemma PurgeStale_inv [inv_intros]:
  assumes "gt_inv gt"
  shows "gt_inv (snd (PurgeStale now gt age))"
proof -
  define keep :: "pathEntry \<Rightarrow> bool" where "keep = (\<lambda>p. pe_lastSeen p > now - age)"
  define cnt where "cnt t = int (length (filter (\<lambda>p. \<not> keep p) (paths_of gt t)))" for t
  have "gt_inv (gt\<lparr>gt_routes := filter_routes keep (gt_routes gt),
      gt_dirty := (if (\<Sum>t\<in>dom (gt_routes gt). cnt t) > 0 then True else gt_dirty gt)\<rparr>)"
  proof (rule filter_routes_inv [OF assms])
    fix t ps assume ps: "gt_routes gt t = Some ps" "filter keep ps \<noteq> ps"
    then obtain p where "p \<in> set ps" "\<not> keep p" by (metis filter_id_conv)
    then have "filter (\<lambda>p. \<not> keep p) (paths_of gt t) \<noteq> []"
      using ps(1) by (auto simp: paths_of_def filter_empty_conv)
    then have "0 < cnt t" by (simp add: cnt_def)
    moreover have "cnt t \<le> (\<Sum>t\<in>dom (gt_routes gt). cnt t)"
      using assms ps(1) by (intro member_le_sum) (auto simp: gt_inv_def cnt_def)
    ultimately show "(\<Sum>t\<in>dom (gt_routes gt). cnt t) > 0" by linarith
  qed
  then show ?thesis by (simp add: PurgeStale_def Let_def keep_def cnt_def)
qed

section \<open>Gossip generation\<close>

lemma RouteBudget_pos: "1 \<le> RouteBudget b"
  by (auto simp: RouteBudget_def avgRouteOnWire_def gossipOverheadEstimate_def Let_def)

lemma best_routes_eq:
  assumes "gt_inv gt" "walk_of walk (gt_routes gt)"
  shows "best_routes gt walk = map (\<lambda>t. \<lparr>gr_targetID = t, gr_cost = pe_totalCost (best_of (paths_of gt t))\<rparr>) walk"
proof -
  have ne: "paths_of gt t \<noteq> []" if "t \<in> set walk" for t
  proof -
    have "t \<in> dom (gt_routes gt)" using that assms(2) by (simp add: walk_of_def)
    then obtain ps where "gt_routes gt t = Some ps" by auto
    then show ?thesis using gt_inv_paths [OF assms(1)] by (simp add: paths_of_def)
  qed
  have "concat (map (\<lambda>t. let paths = paths_of gt t in if paths = [] then [] else [f t paths]) ws) =
      map (\<lambda>t. f t (paths_of gt t)) ws" if "\<forall>t\<in>set ws. paths_of gt t \<noteq> []" for ws and f :: "node_id \<Rightarrow> pathEntry list \<Rightarrow> gossipRoute"
    using that by (induction ws) (auto simp: Let_def)
  then show ?thesis using ne by (simp add: best_routes_def)
qed

definition capped :: "int \<Rightarrow> gossipRoute list \<Rightarrow> gossipRoute list" where
  "capped horizon rs =
     (if int (length rs) > horizon then take (nat horizon) (go_sort (\<lambda>a b. flt (gr_cost a) (gr_cost b)) rs) else rs)"

lemma best_routes_fresh:
  assumes "gt_inv gt" "walk_of walk (gt_routes gt)" "1 \<le> horizon"
  shows "fresh_routes (cost_view (gt_routes gt)) horizon (capped horizon (best_routes gt walk))"
proof -
  define rs where "rs = best_routes gt walk"
  note eq = best_routes_eq [OF assms(1,2)]
  have w: "distinct walk" "set walk = dom (gt_routes gt)" using assms(2) by (simp_all add: walk_of_def)
  have tg: "map gr_targetID rs = walk" by (simp add: rs_def eq comp_def)
  have len: "length rs = card (dom (gt_routes gt))"
    using tg w distinct_card [OF w(1)] by (metis length_map)
  have cost: "map_option least_cost (cost_view (gt_routes gt) (gr_targetID r)) = Some (gr_cost r)" if r: "r \<in> set rs" for r
  proof -
    obtain t where t: "t \<in> set walk" "r = \<lparr>gr_targetID = t, gr_cost = pe_totalCost (best_of (paths_of gt t))\<rparr>"
      using r by (auto simp: rs_def eq)
    obtain ps where ps: "gt_routes gt t = Some ps" using t(1) w(2) by auto
    then have "ps \<noteq> []" using gt_inv_paths [OF assms(1)] by blast
    then show ?thesis using ps t by (simp add: cost_view_def paths_of_def best_of_cost least_cost_def)
  qed
  show ?thesis
  proof (cases "int (length rs) > horizon")
    case False
    have "t \<in> gr_targetID ` set rs" if "cost_view (gt_routes gt) t = Some cs" for t cs
    proof -
      have "t \<in> set walk" using that w(2) by (auto simp: cost_view_def)
      then show ?thesis using tg by (metis set_map)
    qed
    then show ?thesis
      using False cost tg w len by (auto simp: fresh_routes_def capped_def rs_def [symmetric])
  next
    case True
    define ss where "ss = go_sort (\<lambda>a b. flt (gr_cost a) (gr_cost b)) rs"
    define k where "k = nat horizon"
    have k: "k < length ss" "int k = horizon" using True assms(3) by (simp_all add: k_def ss_def)
    have ss: "set ss = set rs" "distinct (map gr_targetID ss)"
    proof -
      show "set ss = set rs" by (simp add: ss_def)
      have "mset (map gr_targetID ss) = mset (map gr_targetID rs)" by (simp add: ss_def)
      then show "distinct (map gr_targetID ss)" using tg w(1) by (metis mset_eq_imp_distinct_iff)
    qed
    have cap: "capped horizon rs = take k ss" using True by (simp add: capped_def ss_def k_def)
    have sub: "set (take k ss) \<subseteq> set rs" using ss(1) set_take_subset by fastforce
    have cheap: "\<not> flt (least_cost cs) (gr_cost r)"
      if nn: "\<forall>t cs. cost_view (gt_routes gt) t = Some cs \<longrightarrow> NaN \<notin> set cs"
        and t: "cost_view (gt_routes gt) t = Some cs" "t \<notin> gr_targetID ` set (take k ss)" and r: "r \<in> set (take k ss)" for t cs r
    proof -
      have "gr_cost x \<noteq> NaN" if x: "x \<in> set rs" for x
      proof -
        obtain ps where ps: "gt_routes gt (gr_targetID x) = Some ps" "least_cost (map pe_totalCost ps) = gr_cost x"
          using cost [OF x] by (auto simp: cost_view_def)
        then have "ps \<noteq> []" using gt_inv_paths [OF assms(1)] by blast
        then have "best_of ps \<in> set ps" "pe_totalCost (best_of ps) = gr_cost x"
          using best_of_fold(1) [of ps] best_of_cost [of ps] ps(2) by (simp_all add: least_cost_def)
        then have "gr_cost x \<in> set (map pe_totalCost ps)" using imageI [of "best_of ps" "set ps" pe_totalCost] by simp
        moreover have "NaN \<notin> set (map pe_totalCost ps)"
          using nn [rule_format, of "gr_targetID x" "map pe_totalCost ps"] ps(1) by (simp add: cost_view_def)
        ultimately show ?thesis by auto
      qed
      then have "weak_order_on (set rs) (\<lambda>a b. flt (gr_cost a) (gr_cost b))" by (rule weak_order_flt)
      then have so: "sorted_wrt (\<lambda>a b. \<not> flt (gr_cost b) (gr_cost a)) ss" unfolding ss_def by (rule sorted_go_sort)
      have "t \<in> set walk" using t(1) w(2) by (auto simp: cost_view_def)
      then obtain x where x: "x \<in> set ss" "gr_targetID x = t" using tg ss(1) by (metis imageE set_map)
      have "set ss = set (take k ss) \<union> set (drop k ss)" by (metis append_take_drop_id set_append)
      then have "x \<in> set (drop k ss)" using x t(2) by auto
      moreover have "sorted_wrt (\<lambda>a b. \<not> flt (gr_cost b) (gr_cost a)) (take k ss @ drop k ss)" using so by simp
      ultimately have "\<not> flt (gr_cost x) (gr_cost r)" using r by (simp only: sorted_wrt_append) blast
      moreover have "gr_cost x = least_cost cs" using cost [of x] x t(1) ss(1) by simp
      ultimately show ?thesis by simp
    qed
    have "distinct (map gr_targetID (take k ss))" using ss(2) by (simp add: take_map [symmetric])
    moreover have "int (length (take k ss)) = min horizon (int (card (dom (gt_routes gt))))"
      using k len by (simp add: ss_def)
    ultimately show ?thesis
      unfolding rs_def [symmetric] cap fresh_routes_def using cost sub cheap by auto
  qed
qed

lemma Generate_cases:
  obtains (hit) rs where "\<not> gt_dirty gt" "gt_gossipCache gt = Some rs" "gt_gossipBudget gt = budget"
      "gv_routes (fst (GenerateGossipBudgeted walk gt imp input budget)) = rs"
      "snd (GenerateGossipBudgeted walk gt imp input budget) = gt"
  | (miss) "gv_routes (fst (GenerateGossipBudgeted walk gt imp input budget)) = capped (RouteBudget budget) (best_routes gt walk)"
      "gt_routes (snd (GenerateGossipBudgeted walk gt imp input budget)) = gt_routes gt"
      "gt_gossipCache (snd (GenerateGossipBudgeted walk gt imp input budget)) =
         Some (capped (RouteBudget budget) (best_routes gt walk))"
      "gt_gossipBudget (snd (GenerateGossipBudgeted walk gt imp input budget)) = budget"
proof (cases "\<not> gt_dirty gt \<and> gt_gossipCache gt \<noteq> None \<and> feq (gt_gossipImpedance gt) imp \<and> gt_gossipBudget gt = budget")
  case True
  then obtain rs where "gt_gossipCache gt = Some rs" by auto
  with True hit show ?thesis by (simp add: GenerateGossipBudgeted_def Let_def)
next
  case False
  show ?thesis by (rule miss) (use False in \<open>auto simp: GenerateGossipBudgeted_def capped_def Let_def\<close>)
qed

lemma Generate_fresh:
  assumes "gt_inv gt" "walk_of walk (gt_routes gt)"
  shows "fresh_routes (cost_view (gt_routes gt)) (RouteBudget budget)
      (gv_routes (fst (GenerateGossipBudgeted walk gt imp input budget))) \<and>
    gt_inv (snd (GenerateGossipBudgeted walk gt imp input budget))"
proof (cases rule: Generate_cases [of gt budget walk imp input])
  case (hit rs)
  then show ?thesis using assms(1) by (simp add: gt_inv_def)
next
  case miss
  note f = best_routes_fresh [OF assms RouteBudget_pos, of budget]
  have "gt_inv (snd (GenerateGossipBudgeted walk gt imp input budget))"
    using assms(1) f miss by (intro gt_invI) (auto simp: gt_inv_def)
  with f miss show ?thesis by simp
qed

lemma gt_step_inv: "gt_step gt gt' \<Longrightarrow> gt_inv gt \<Longrightarrow> gt_inv gt'"
  by (erule gt_stepE) (auto simp: AddDirectNeighbor_def Generate_fresh intro: inv_intros)

lemma gt_reach_inv: "gt_reach selfID gt \<Longrightarrow> gt_inv gt"
  by (induction rule: gt_reach.induct) (auto intro: gt_step_inv inv_intros)

text \<open>
  Property C2. Gossip never carries stale routes: in every table that calls can produce, whatever they were,
  the vector that \<open>GenerateGossipBudgeted\<close> returns (from the cache or computed anew) lists distinct targets,
  gives for each the least cost among the paths known now, has as many entries as the table has
  targets up to the horizon derived from the budget, and, when no known cost is NaN, leaves out only
  targets that are not cheaper than the listed ones.
\<close>

theorem gossip_never_stale:
  assumes "gt_reach selfID gt" "walk_of walk (gt_routes gt)"
    and "GenerateGossipBudgeted walk gt impedance input budget = (v, gt')"
  shows "distinct (map gr_targetID (gv_routes v)) \<and>
    (\<forall>r\<in>set (gv_routes v). map_option least_cost (cost_view (gt_routes gt) (gr_targetID r)) = Some (gr_cost r)) \<and>
    int (length (gv_routes v)) = min (RouteBudget budget) (int (card (dom (gt_routes gt)))) \<and>
    ((\<forall>t cs. cost_view (gt_routes gt) t = Some cs \<longrightarrow> NaN \<notin> set cs) \<longrightarrow>
       (\<forall>t cs. cost_view (gt_routes gt) t = Some cs \<longrightarrow> t \<notin> gr_targetID ` set (gv_routes v) \<longrightarrow>
          (\<forall>r\<in>set (gv_routes v). \<not> flt (least_cost cs) (gr_cost r))))"
  using Generate_fresh [OF gt_reach_inv [OF assms(1)] assms(2), of budget impedance input] assms(3)
  by (simp add: fresh_routes_def)

theorem gossip_never_stale_witness:
  "\<exists>v gt'. GenerateGossipBudgeted [''b''] (AddDirectNeighbor 0 (NewGradientTable ''a'') ''b'' (Num 7)) (Num 1)
      \<lparr>gi_localCapabilities = [], gi_knownCapabilities = Map.empty\<rparr> 1000 = (v, gt') \<and>
     int (length (gv_routes v)) = min (RouteBudget 1000) 1"
proof -
  define gt where "gt = AddDirectNeighbor 0 (NewGradientTable ''a'') ''b'' (Num 7)"
  have r: "gt_reach ''a'' gt" unfolding gt_def by (intro gt_reach.step [OF gt_reach.start] gt_step.direct)
  have d: "dom (gt_routes gt) = {''b''}"
    by (simp add: gt_def AddDirectNeighbor_def UpdateRoute_def paths_of_def NewGradientTable_def)
  then have w: "walk_of [''b''] (gt_routes gt)" by (simp add: walk_of_def)
  obtain v gt' where g: "GenerateGossipBudgeted [''b''] gt (Num 1)
      \<lparr>gi_localCapabilities = [], gi_knownCapabilities = Map.empty\<rparr> 1000 = (v, gt')" by fastforce
  from gossip_never_stale [OF r w g] d g show ?thesis unfolding gt_def [symmetric] by simp
qed

section \<open>The capabilities that fit the horizon\<close>

definition eligible :: "(node_id \<rightharpoonup> string list) \<Rightarrow> node_id \<Rightarrow> gossipRoute list \<Rightarrow> node_id list" where
  "eligible caps selfID rs = filter (\<lambda>t. t \<noteq> selfID \<and> t \<in> dom caps) (map gr_targetID rs)"

lemma card_restrict: "distinct xs \<Longrightarrow> set xs \<subseteq> dom caps \<Longrightarrow> card (dom (caps |` set xs)) = length xs"
  by (simp add: Int_absorb1 distinct_card)

lemma restrict_snoc: "(caps |` set xs)(n := caps n) = caps |` set (xs @ [n])"
  by (auto simp: restrict_map_def fun_eq_iff)

lemma drain_ranked_eq:
  assumes "distinct (map gr_targetID rs)" "distinct xs" "set xs \<subseteq> dom caps" "int (length xs) \<le> budget"
    "set xs \<inter> gr_targetID ` set rs = {}"
  shows "drain_ranked caps selfID budget (caps |` set xs) rs =
    caps |` set (take (nat budget) (xs @ eligible caps selfID rs))"
  using assms
proof (induction rs arbitrary: xs)
  case Nil
  then show ?case by (simp add: eligible_def)
next
  case (Cons r rs)
  note card = card_restrict [OF Cons.prems(2,3)]
  show ?case
  proof (cases "int (length xs) \<ge> budget")
    case True
    then have "nat budget = length xs" using Cons.prems(4) by linarith
    with True card show ?thesis by simp
  next
    case False
    show ?thesis
    proof (cases "gr_targetID r \<noteq> selfID \<and> gr_targetID r \<in> dom caps")
      case True
      then obtain c where c: "caps (gr_targetID r) = Some c" by auto
      have nin: "gr_targetID r \<notin> set xs" using Cons.prems(5) by auto
      have "drain_ranked caps selfID budget (caps |` set xs) (r # rs) =
          drain_ranked caps selfID budget (caps |` set (xs @ [gr_targetID r])) rs"
        using True False card c nin restrict_snoc [of caps xs "gr_targetID r"] by (simp add: restrict_map_def)
      also have "\<dots> = caps |` set (take (nat budget) ((xs @ [gr_targetID r]) @ eligible caps selfID rs))"
        using Cons.prems False True nin by (intro Cons.IH) auto
      finally show ?thesis using True by (simp add: eligible_def)
    next
      case no: False
      then have "drain_ranked caps selfID budget (caps |` set xs) (r # rs) = drain_ranked caps selfID budget (caps |` set xs) rs"
        using False card by (auto split: option.splits)
      then show ?thesis using no Cons by (auto simp: eligible_def)
    qed
  qed
qed

lemma fill_slack_eq:
  assumes "distinct (xs @ ns)" "set (xs @ ns) \<subseteq> dom caps" "int (length xs) \<le> budget"
  shows "fill_slack caps budget (caps |` set xs) ns = caps |` set (take (nat budget) (xs @ ns))"
  using assms
proof (induction ns arbitrary: xs)
  case (Cons n ns)
  have card: "card (dom (caps |` set xs)) = length xs" using Cons.prems by (intro card_restrict) auto
  show ?case
  proof (cases "int (length xs) \<ge> budget")
    case True
    then have "nat budget = length xs" using Cons.prems(3) by linarith
    with True card show ?thesis by simp
  next
    case False
    then have "fill_slack caps budget (caps |` set xs) (n # ns) = fill_slack caps budget (caps |` set (xs @ [n])) ns"
      using card restrict_snoc [of caps xs n] by simp
    then show ?thesis using Cons.IH [of "xs @ [n]"] Cons.prems False by simp
  qed
qed simp

text \<open>
  The capability part of a gossip frame is determined by its inputs: \<open>capHorizonRanked\<close> emits the
  capabilities of the first \<open>budget\<close> nodes of the list that has the ranked nodes with known capabilities
  first, in ranked order, and then all other known nodes in the order of their names, the sender left
  out of both. Nothing depends on the order in which the runtime walks the map.
\<close>

theorem cap_horizon_deterministic:
  assumes "finite (dom caps)" "distinct (map gr_targetID ranked)"
  shows "capHorizonRanked caps selfID ranked budget =
    (let first = filter (\<lambda>t. t \<noteq> selfID \<and> t \<in> dom caps) (map gr_targetID ranked);
         rest = sorted_list_of_set (dom caps - {selfID} - set first)
     in caps |` set (take (nat budget) (first @ rest)))"
proof -
  define E where "E = eligible caps selfID ranked"
  define R where "R = sorted_list_of_set (dom caps - {selfID} - set E)"
  have E: "distinct E" "set E \<subseteq> dom caps - {selfID}" using assms(2) by (auto simp: E_def eligible_def)
  have R: "distinct (E @ R)" "set (E @ R) \<subseteq> dom caps" using E assms(1) by (auto simp: R_def)
  have "capHorizonRanked caps selfID ranked budget = caps |` set (take (nat budget) (E @ R))"
  proof (cases "dom caps = {} \<or> budget \<le> 0")
    case True
    then show ?thesis using R(2) by (auto simp: capHorizonRanked_def)
  next
    case False
    have dr: "drain_ranked caps selfID budget Map.empty ranked = caps |` set (take (nat budget) E)"
      using drain_ranked_eq [of ranked "[]" caps budget selfID] assms(2) False by (simp add: E_def)
    have sub: "distinct (take (nat budget) E)" "set (take (nat budget) E) \<subseteq> dom caps"
      using E set_take_subset [of "nat budget" E] by auto
    show ?thesis
    proof (cases "int (length E) < budget")
      case True
      then have "take (nat budget) E = E" by simp
      moreover have "dom (caps |` set E) = set E" "card (set E) = length E"
        using E by (auto simp: distinct_card)
      ultimately show ?thesis
        using False True dr fill_slack_eq [OF R, of budget]
        by (simp add: capHorizonRanked_def Let_def R_def)
    next
      case full: False
      then have "length (take (nat budget) E) = nat budget" "take (nat budget) (E @ R) = take (nat budget) E" by simp_all
      then show ?thesis
        using False full dr card_restrict [OF sub] by (simp add: capHorizonRanked_def Let_def)
    qed
  qed
  then show ?thesis by (simp add: E_def R_def eligible_def Let_def)
qed

theorem cap_horizon_deterministic_witness:
  "capHorizonRanked [''a'' \<mapsto> [], ''b'' \<mapsto> [''x''], ''c'' \<mapsto> []] ''a'' [\<lparr>gr_targetID = ''c'', gr_cost = Num 1\<rparr>] 1 =
     [''c'' \<mapsto> []]"
proof -
  have a: "finite (dom [''a'' \<mapsto> [], ''b'' \<mapsto> [''x''], ''c'' \<mapsto> ([]::string list)])" by simp
  have b: "distinct (map gr_targetID [\<lparr>gr_targetID = ''c'', gr_cost = Num 1\<rparr>])" by simp
  show ?thesis
    using cap_horizon_deterministic [OF a b, of "''a''" 1] by (simp add: Let_def restrict_map_def fun_eq_iff)
qed

section \<open>Removal\<close>

text \<open>
  Removal is exact. After \<open>RemoveNeighbor\<close> the table has, for every target and in the same order,
  the paths that do not go through the neighbor, so \<open>BestRoute\<close> never sends traffic to it; \<open>PurgeStale\<close>
  keeps the paths seen after the cutoff and returns the number of those it removed.
\<close>

theorem removal_exact:
  assumes "finite (dom (gt_routes gt))" "PurgeStale now gt maxAge = (n, gt')"
  shows "paths_of (RemoveNeighbor gt nb) t = filter (\<lambda>p. pe_nextHop p \<noteq> nb) (paths_of gt t) \<and>
    (\<forall>pc. BestRoute (RemoveNeighbor gt nb) t = Some pc \<longrightarrow> pc_nextHop pc \<noteq> nb) \<and>
    paths_of gt' t = filter (\<lambda>p. pe_lastSeen p > now - maxAge) (paths_of gt t) \<and>
    n = (\<Sum>t\<in>dom (gt_routes gt). int (length (paths_of gt t)) - int (length (paths_of gt' t)))"
proof -
  have fr: "paths_of g t = filter P (paths_of gt t)" if "gt_routes g = filter_routes P (gt_routes gt)" for g P t
    using that by (auto simp: filter_routes_def paths_of_def Let_def split: option.splits)
  have rm: "paths_of (RemoveNeighbor gt nb) t = filter (\<lambda>p. pe_nextHop p \<noteq> nb) (paths_of gt t)"
    by (rule fr) (simp add: RemoveNeighbor_def Let_def)
  have pg: "paths_of gt' t = filter (\<lambda>p. pe_lastSeen p > now - maxAge) (paths_of gt t)" for t
    by (rule fr) (use assms(2) in \<open>auto simp: PurgeStale_def Let_def\<close>)
  have best: "pc_nextHop pc \<noteq> nb" if b: "BestRoute (RemoveNeighbor gt nb) t = Some pc" for pc
  proof -
    obtain ps where ps: "gt_routes (RemoveNeighbor gt nb) t = Some ps" "ps \<noteq> []" "pc_nextHop pc = pe_nextHop (best_of ps)"
      using b by (auto simp: BestRoute_def Let_def split: option.splits if_splits)
    then have "best_of ps \<in> set (paths_of (RemoveNeighbor gt nb) t)"
      using best_of_fold(1) [OF ps(2)] by (simp add: paths_of_def)
    then show ?thesis using ps(3) by (simp add: rm)
  qed
  have "length (filter (\<lambda>p. \<not> P p) xs) + length (filter P xs) = length xs" for P and xs :: "pathEntry list"
    by (induction xs) auto
  then have len: "int (length (filter (\<lambda>p. \<not> P p) xs)) = int (length xs) - int (length (filter P xs))"
    for P and xs :: "pathEntry list" by (metis add_diff_cancel_right' of_nat_add)
  have "n = (\<Sum>t\<in>dom (gt_routes gt). int (length (filter (\<lambda>p. \<not> pe_lastSeen p > now - maxAge) (paths_of gt t))))"
    using assms(2) by (simp add: PurgeStale_def Let_def)
  then show ?thesis using rm pg best by (simp only: len) blast
qed

theorem removal_exact_witness:
  "\<exists>n gt'. PurgeStale 10 (AddDirectNeighbor 0 (NewGradientTable ''a'') ''b'' (Num 7)) 3 = (n, gt') \<and>
     paths_of gt' ''b'' = [] \<and> n = 1"
proof -
  define gt where "gt = AddDirectNeighbor 0 (NewGradientTable ''a'') ''b'' (Num 7)"
  have d: "dom (gt_routes gt) = {''b''}" "paths_of gt ''b'' = [\<lparr>pe_nextHop = ''b'', pe_totalCost = Num 7, pe_lastSeen = 0\<rparr>]"
    by (simp_all add: gt_def AddDirectNeighbor_def UpdateRoute_def paths_of_def NewGradientTable_def)
  then have f: "finite (dom (gt_routes gt))" by simp
  obtain n gt' where p: "PurgeStale 10 gt 3 = (n, gt')" by fastforce
  from removal_exact [OF f p, of "''x''" "''b''"] p d show ?thesis unfolding gt_def [symmetric] by simp
qed

end
