(* ===== verification/CapIndex.thy ===== *)
theory CapIndex
  imports GoText
begin

text \<open>
  Model of \<open>pkg/mesh/routing/capability_index.go\<close>: which node offers which capability at which impedance.
  The index keeps five maps. \<open>byNode\<close>, \<open>impedances\<close> and \<open>lastSeen\<close> hold the data by node; \<open>byCap\<close> and
  \<open>byNs\<close> are redundant and serve the exact and the prefix lookups. \<open>ci_inv\<close> says that the redundant maps
  are exactly what the data by node determines; every operation is shown to keep it and to act on the
  data by node as a plain update (\<open>ci_abs\<close>), and the lookups to return what a scan of all nodes would.
  The record has no mutex: each method runs under the lock. Clock readings and map walks are arguments.
\<close>

section \<open>State\<close>

record nodeCapEntry =
  nce_nodeID :: node_id
  nce_impedance :: f64

record ingestLimits =
  il_maxCapabilityLength :: int
  il_maxCapabilitiesPerNode :: int

record capIndex =
  ci_byCap :: "string \<rightharpoonup> (node_id \<rightharpoonup> f64)"
  ci_byNs :: "string \<rightharpoonup> (string \<rightharpoonup> (node_id \<rightharpoonup> f64))"
  ci_byNode :: "node_id \<rightharpoonup> string list"
  ci_impedances :: "node_id \<rightharpoonup> f64"
  ci_lastSeen :: "node_id \<rightharpoonup> time"
  ci_limits :: ingestLimits

definition NewCapabilityIndex :: capIndex where
  "NewCapabilityIndex =
     \<lparr>ci_byCap = Map.empty, ci_byNs = Map.empty, ci_byNode = Map.empty, ci_impedances = Map.empty,
      ci_lastSeen = Map.empty, ci_limits = \<lparr>il_maxCapabilityLength = 0, il_maxCapabilitiesPerNode = 0\<rparr>\<rparr>"

definition SetLimits :: "capIndex \<Rightarrow> ingestLimits \<Rightarrow> capIndex" where
  "SetLimits ci l = ci\<lparr>ci_limits := l\<rparr>"

definition effectiveLimits :: "capIndex \<Rightarrow> ingestLimits" where
  "effectiveLimits ci =
     (let l = ci_limits ci;
          l = (if il_maxCapabilityLength l \<le> 0 then l\<lparr>il_maxCapabilityLength := 256\<rparr> else l)
      in if il_maxCapabilitiesPerNode l \<le> 0 then l\<lparr>il_maxCapabilitiesPerNode := 256\<rparr> else l)"

definition capNamespace :: "string \<Rightarrow> string" where
  "capNamespace cap = (case index_byte cap CHR '':'' of Some i \<Rightarrow> take i cap | None \<Rightarrow> [])"

definition extractNamespacePrefix :: "string \<Rightarrow> string \<times> bool" where
  "extractNamespacePrefix pre =
     (case index_byte pre CHR '':'' of Some i \<Rightarrow> (take i pre, True) | None \<Rightarrow> ([], False))"

section \<open>The loops over a node's capabilities\<close>

text \<open>Writing the impedance of a node under a capability that is already indexed.\<close>

definition sync_cap :: "node_id \<Rightarrow> f64 \<Rightarrow> capIndex \<Rightarrow> string \<Rightarrow> capIndex" where
  "sync_cap nodeID impedance ci c =
     (let ci1 = (case ci_byCap ci c of
            None \<Rightarrow> ci
          | Some nodes \<Rightarrow> ci\<lparr>ci_byCap := (ci_byCap ci)(c \<mapsto> nodes(nodeID \<mapsto> impedance))\<rparr>);
          ns = capNamespace c
      in case ci_byNs ci1 ns of
           None \<Rightarrow> ci1
         | Some nsBucket \<Rightarrow>
             (case nsBucket c of
                None \<Rightarrow> ci1
              | Some nsNodes \<Rightarrow>
                  ci1\<lparr>ci_byNs := (ci_byNs ci1)(ns \<mapsto> nsBucket(c \<mapsto> nsNodes(nodeID \<mapsto> impedance)))\<rparr>))"

text \<open>Adding a node under a capability; the maps that do not exist yet are made.\<close>

definition index_cap :: "node_id \<Rightarrow> f64 \<Rightarrow> capIndex \<Rightarrow> string \<Rightarrow> capIndex" where
  "index_cap nodeID impedance ci c =
     (let nodes = (case ci_byCap ci c of None \<Rightarrow> Map.empty | Some nodes \<Rightarrow> nodes);
          ci1 = ci\<lparr>ci_byCap := (ci_byCap ci)(c \<mapsto> nodes(nodeID \<mapsto> impedance))\<rparr>;
          ns = capNamespace c;
          nsBucket = (case ci_byNs ci1 ns of None \<Rightarrow> Map.empty | Some b \<Rightarrow> b);
          nsNodes = (case nsBucket c of None \<Rightarrow> Map.empty | Some nodes \<Rightarrow> nodes)
      in ci1\<lparr>ci_byNs := (ci_byNs ci1)(ns \<mapsto> nsBucket(c \<mapsto> nsNodes(nodeID \<mapsto> impedance)))\<rparr>)"

text \<open>Taking a node out under a capability; a map that becomes empty is deleted.\<close>

definition unindex_cap :: "node_id \<Rightarrow> capIndex \<Rightarrow> string \<Rightarrow> capIndex" where
  "unindex_cap nodeID ci c =
     (let ci1 = (case ci_byCap ci c of
            None \<Rightarrow> ci
          | Some nodes \<Rightarrow>
              (let nodes' = nodes(nodeID := None) in
               ci\<lparr>ci_byCap := (ci_byCap ci)(c := (if dom nodes' = {} then None else Some nodes'))\<rparr>));
          ns = capNamespace c
      in case ci_byNs ci1 ns of
           None \<Rightarrow> ci1
         | Some nsBucket \<Rightarrow>
             (let nsBucket' = (case nsBucket c of
                    None \<Rightarrow> nsBucket
                  | Some nsNodes \<Rightarrow>
                      (let nsNodes' = nsNodes(nodeID := None) in
                       nsBucket(c := (if dom nsNodes' = {} then None else Some nsNodes'))))
              in ci1\<lparr>ci_byNs := (ci_byNs ci1)(ns := (if dom nsBucket' = {} then None else Some nsBucket'))\<rparr>))"

section \<open>Operations\<close>

definition purgeNodeLocked :: "capIndex \<Rightarrow> node_id \<Rightarrow> capIndex" where
  "purgeNodeLocked ci nodeID =
     (case ci_byNode ci nodeID of
        None \<Rightarrow> ci
      | Some caps \<Rightarrow>
          (let ci' = foldl (unindex_cap nodeID) ci caps
           in ci'\<lparr>ci_byNode := (ci_byNode ci')(nodeID := None),
                  ci_impedances := (ci_impedances ci')(nodeID := None),
                  ci_lastSeen := (ci_lastSeen ci')(nodeID := None)\<rparr>))"

definition PurgeNode :: "capIndex \<Rightarrow> node_id \<Rightarrow> capIndex" where
  "PurgeNode ci nodeID = purgeNodeLocked ci nodeID"

fun count_valid :: "ingestLimits \<Rightarrow> int \<Rightarrow> string list \<Rightarrow> int" where
  "count_valid l n [] = n"
| "count_valid l n (c # cs) =
     (if n \<ge> il_maxCapabilitiesPerNode l then n
      else if int (length c) > il_maxCapabilityLength l then count_valid l n cs
      else count_valid l (n + 1) cs)"

fun identical_loop :: "ingestLimits \<Rightarrow> string list \<Rightarrow> nat \<Rightarrow> string list \<Rightarrow> bool" where
  "identical_loop l existing idx [] = True"
| "identical_loop l existing idx (c # cs) =
     (if int idx \<ge> il_maxCapabilitiesPerNode l then True
      else if int (length c) > il_maxCapabilityLength l then identical_loop l existing idx cs
      else if existing ! idx \<noteq> c then False
      else identical_loop l existing (idx + 1) cs)"

fun copy_valid :: "ingestLimits \<Rightarrow> string list \<Rightarrow> string list \<Rightarrow> string list" where
  "copy_valid l capsCopy [] = capsCopy"
| "copy_valid l capsCopy (c # cs) =
     (if int (length capsCopy) \<ge> il_maxCapabilitiesPerNode l then capsCopy
      else if int (length c) > il_maxCapabilityLength l then copy_valid l capsCopy cs
      else copy_valid l (capsCopy @ [c]) cs)"

definition touch_node :: "time \<Rightarrow> node_id \<Rightarrow> f64 \<Rightarrow> capIndex \<Rightarrow> capIndex" where
  "touch_node now nodeID impedance ci =
     ci\<lparr>ci_impedances := (ci_impedances ci)(nodeID \<mapsto> impedance), ci_lastSeen := (ci_lastSeen ci)(nodeID \<mapsto> now)\<rparr>"

definition Update :: "time \<Rightarrow> capIndex \<Rightarrow> node_id \<Rightarrow> f64 \<Rightarrow> string list \<Rightarrow> capIndex" where
  "Update now ci nodeID impedance caps =
     (let limits = effectiveLimits ci;
          validCapsCount = count_valid limits 0 caps;
          same = (case ci_byNode ci nodeID of
              None \<Rightarrow> False
            | Some existing \<Rightarrow> int (length existing) = validCapsCount \<and> identical_loop limits existing 0 caps)
      in if same
         then foldl (sync_cap nodeID impedance) (touch_node now nodeID impedance ci) (the (ci_byNode ci nodeID))
         else let ci1 = touch_node now nodeID impedance (purgeNodeLocked ci nodeID);
                  capsCopy = copy_valid limits [] caps;
                  ci2 = ci1\<lparr>ci_byNode := (ci_byNode ci1)(nodeID \<mapsto> capsCopy)\<rparr>
              in foldl (index_cap nodeID impedance) ci2 capsCopy)"

definition Refresh :: "time \<Rightarrow> capIndex \<Rightarrow> node_id \<Rightarrow> f64 \<Rightarrow> capIndex" where
  "Refresh now ci nodeID impedance =
     (case ci_byNode ci nodeID of
        None \<Rightarrow> ci
      | Some caps \<Rightarrow> foldl (sync_cap nodeID impedance) (touch_node now nodeID impedance ci) caps)"

definition UpdateImpedance :: "capIndex \<Rightarrow> node_id \<Rightarrow> f64 \<Rightarrow> capIndex" where
  "UpdateImpedance ci nodeID impedance =
     (case ci_byNode ci nodeID of
        None \<Rightarrow> ci
      | Some caps \<Rightarrow>
          foldl (sync_cap nodeID impedance)
            (ci\<lparr>ci_impedances := (ci_impedances ci)(nodeID \<mapsto> impedance)\<rparr>) caps)"

definition ci_PurgeStale :: "time \<Rightarrow> node_id list \<Rightarrow> capIndex \<Rightarrow> duration \<Rightarrow> int \<times> capIndex" where
  "ci_PurgeStale now walk ci maxAge =
     (let cutoff = now - maxAge;
          stale = filter (\<lambda>n. \<not> (the (ci_lastSeen ci n) > cutoff)) walk
      in foldl (\<lambda>(purged, ci) n. (purged + 1, purgeNodeLocked ci n)) (0, ci) stale)"

definition entry_less :: "nodeCapEntry \<Rightarrow> nodeCapEntry \<Rightarrow> bool" where
  "entry_less a b = flt (nce_impedance a) (nce_impedance b)"

definition entries_of :: "node_id list \<Rightarrow> (node_id \<rightharpoonup> f64) \<Rightarrow> nodeCapEntry list" where
  "entries_of walk nodes = map (\<lambda>n. \<lparr>nce_nodeID = n, nce_impedance = the (nodes n)\<rparr>) walk"

definition Lookup :: "node_id list \<Rightarrow> capIndex \<Rightarrow> string \<Rightarrow> nodeCapEntry list" where
  "Lookup walk ci capability =
     (case ci_byCap ci capability of
        None \<Rightarrow> []
      | Some nodes \<Rightarrow> go_sort entry_less (entries_of walk nodes))"

fun scan_nodes :: "(node_id \<rightharpoonup> f64) \<Rightarrow> (node_id \<rightharpoonup> f64) \<Rightarrow> node_id list \<Rightarrow> node_id \<rightharpoonup> f64" where
  "scan_nodes nodes seen [] = seen"
| "scan_nodes nodes seen (n # ns) =
     (let impedance = the (nodes n) in
      if seen n = None \<or> flt impedance (the (seen n)) then scan_nodes nodes (seen(n \<mapsto> impedance)) ns
      else scan_nodes nodes seen ns)"

fun scan_caps :: "(string \<Rightarrow> node_id list) \<Rightarrow> string \<Rightarrow> (string \<rightharpoonup> (node_id \<rightharpoonup> f64)) \<Rightarrow> (node_id \<rightharpoonup> f64) \<Rightarrow>
    string list \<Rightarrow> node_id \<rightharpoonup> f64" where
  "scan_caps nodeWalk pre byCap seen [] = seen"
| "scan_caps nodeWalk pre byCap seen (c # cs) =
     (if prefix pre c then scan_caps nodeWalk pre byCap (scan_nodes (the (byCap c)) seen (nodeWalk c)) cs
      else scan_caps nodeWalk pre byCap seen cs)"

text \<open>
  The map \<open>seen\<close> of \<open>LookupWildcard\<close>. \<open>capWalk\<close> is the order in which the map that is scanned (one
  namespace bucket or all of \<open>byCap\<close>) is walked, \<open>nodeWalk c\<close> that of the nodes of capability \<open>c\<close>.
\<close>

definition wildcard_seen :: "string list \<Rightarrow> (string \<Rightarrow> node_id list) \<Rightarrow> capIndex \<Rightarrow> string \<Rightarrow> node_id \<rightharpoonup> f64" where
  "wildcard_seen capWalk nodeWalk ci pre =
     (let (ns, hasNs) = extractNamespacePrefix pre in
      if hasNs then
        (case ci_byNs ci ns of
           None \<Rightarrow> Map.empty
         | Some nsBucket \<Rightarrow> scan_caps nodeWalk pre nsBucket Map.empty capWalk)
      else scan_caps nodeWalk pre (ci_byCap ci) Map.empty capWalk)"

definition LookupWildcard ::
    "string list \<Rightarrow> (string \<Rightarrow> node_id list) \<Rightarrow> node_id list \<Rightarrow> capIndex \<Rightarrow> string \<Rightarrow> nodeCapEntry list" where
  "LookupWildcard capWalk nodeWalk seenWalk ci pre =
     go_sort entry_less (entries_of seenWalk (wildcard_seen capWalk nodeWalk ci pre))"

definition ci_Snapshot :: "capIndex \<Rightarrow> node_id \<rightharpoonup> string list" where
  "ci_Snapshot ci = (\<lambda>n. map_option (\<lambda>caps. caps) (ci_byNode ci n))"

definition ci_Count :: "capIndex \<Rightarrow> int" where
  "ci_Count ci = int (card (dom (ci_byNode ci)))"

section \<open>What the redundant maps must be\<close>

text \<open>A map that the code deletes when it is empty.\<close>

definition mk :: "('k \<rightharpoonup> 'v) \<Rightarrow> ('k \<rightharpoonup> 'v) option" where
  "mk m = (if dom m = {} then None else Some m)"

lemma mk_simps [simp]:
  "mk Map.empty = None" "mk (m(k \<mapsto> v)) = Some (m(k \<mapsto> v))"
  "(case mk m of None \<Rightarrow> Map.empty | Some x \<Rightarrow> x) = m"
  "mk m = None \<longleftrightarrow> m = Map.empty" "None = mk m \<longleftrightarrow> m = Map.empty" "mk m = Some x \<longleftrightarrow> m \<noteq> Map.empty \<and> x = m"
  by (auto simp: mk_def)

text \<open>\<open>V c\<close> is the map from the nodes that have capability \<open>c\<close> to their impedance.\<close>

definition bucket :: "(string \<Rightarrow> node_id \<rightharpoonup> f64) \<Rightarrow> string \<Rightarrow> string \<rightharpoonup> (node_id \<rightharpoonup> f64)" where
  "bucket V ns = (\<lambda>c. if capNamespace c = ns then mk (V c) else None)"

definition rep :: "capIndex \<Rightarrow> (string \<Rightarrow> node_id \<rightharpoonup> f64) \<Rightarrow> bool" where
  "rep ci V \<longleftrightarrow> (\<forall>c. ci_byCap ci c = mk (V c)) \<and> (\<forall>ns. ci_byNs ci ns = mk (bucket V ns))"

lemma bucket_upd:
  "bucket (V(c := m)) ns = (if capNamespace c = ns then (bucket V ns)(c := mk m) else bucket V ns)"
  by (auto simp: bucket_def fun_eq_iff)

lemma index_cap_rep:
  assumes "rep ci V"
  shows "rep (index_cap n imp ci c) (V(c := (V c)(n \<mapsto> imp)))"
proof -
  have b: "ci_byCap ci = (\<lambda>c. mk (V c))" "ci_byNs ci = (\<lambda>ns. mk (bucket V ns))"
    using assms by (auto simp: rep_def)
  have bc: "bucket V (capNamespace c) c = mk (V c)" by (simp add: bucket_def)
  show ?thesis
    by (simp add: rep_def index_cap_def Let_def b bc bucket_upd)
qed

lemma sync_cap_rep:
  assumes "rep ci V" "V c \<noteq> Map.empty"
  shows "sync_cap n imp ci c = index_cap n imp ci c"
proof -
  have bc: "bucket V (capNamespace c) c = Some (V c)" using assms(2) by (simp add: bucket_def)
  then have "bucket V (capNamespace c) \<noteq> Map.empty" by auto
  then have "ci_byCap ci c = Some (V c)" "ci_byNs ci (capNamespace c) = Some (bucket V (capNamespace c))"
    using assms by (auto simp: rep_def)
  then show ?thesis using bc by (simp add: sync_cap_def index_cap_def Let_def)
qed

lemma unindex_cap_rep:
  assumes "rep ci V"
  shows "rep (unindex_cap n ci c) (V(c := (V c)(n := None)))"
proof -
  define ns where "ns = capNamespace c"
  have b: "ci_byCap ci = (\<lambda>c. mk (V c))" "ci_byNs ci = (\<lambda>ns. mk (bucket V ns))"
    using assms by (auto simp: rep_def)
  have bc: "bucket V ns c = mk (V c)" by (simp add: bucket_def ns_def)
  show ?thesis
  proof (cases "V c = Map.empty")
    case True
    then have "V(c := (V c)(n := None)) = V" by (auto simp: fun_eq_iff)
    moreover have "unindex_cap n ci c = ci"
    proof (cases "bucket V ns = Map.empty")
      case False
      then have bs: "ci_byNs ci ns = Some (bucket V ns)" by (simp add: b)
      then have id: "(ci_byNs ci)(ns \<mapsto> bucket V ns) = ci_byNs ci" by (simp add: fun_upd_idem)
      have "ci_byCap ci c = None" "bucket V ns c = None" "dom (bucket V ns) \<noteq> {}" using True bc False by (simp_all add: b)
      then show ?thesis using bs id by (simp add: unindex_cap_def Let_def ns_def [symmetric])
    qed (use True in \<open>simp add: unindex_cap_def b Let_def ns_def [symmetric]\<close>)
    ultimately show ?thesis using assms by simp
  next
    case False
    then have ne: "bucket V ns \<noteq> Map.empty" using bc by auto
    have m: "(if dom m = {} then None else Some m) = mk m" for m :: "node_id \<rightharpoonup> f64" by (simp add: mk_def)
    have m': "(if dom m = {} then None else Some m) = mk m" for m :: "string \<rightharpoonup> (node_id \<rightharpoonup> f64)" by (simp add: mk_def)
    have "unindex_cap n ci c =
      ci\<lparr>ci_byCap := (ci_byCap ci)(c := mk ((V c)(n := None))),
         ci_byNs := (ci_byNs ci)(ns := mk ((bucket V ns)(c := mk ((V c)(n := None)))))\<rparr>"
    proof -
      have "ci_byCap ci c = Some (V c)" "ci_byNs ci ns = Some (bucket V ns)" "bucket V ns c = Some (V c)"
        using False ne bc by (simp_all add: b)
      then show ?thesis unfolding unindex_cap_def Let_def m m' ns_def [symmetric] by simp
    qed
    then show ?thesis by (simp add: rep_def b bucket_upd ns_def)
  qed
qed

lemma loop_fields [simp]:
  "ci_byNode (foldl (sync_cap n imp) ci cs) = ci_byNode ci"
  "ci_impedances (foldl (sync_cap n imp) ci cs) = ci_impedances ci"
  "ci_lastSeen (foldl (sync_cap n imp) ci cs) = ci_lastSeen ci"
  "ci_limits (foldl (sync_cap n imp) ci cs) = ci_limits ci"
  "ci_byNode (foldl (index_cap n imp) ci cs) = ci_byNode ci"
  "ci_impedances (foldl (index_cap n imp) ci cs) = ci_impedances ci"
  "ci_lastSeen (foldl (index_cap n imp) ci cs) = ci_lastSeen ci"
  "ci_limits (foldl (index_cap n imp) ci cs) = ci_limits ci"
  "ci_byNode (foldl (unindex_cap n) ci cs) = ci_byNode ci"
  "ci_impedances (foldl (unindex_cap n) ci cs) = ci_impedances ci"
  "ci_lastSeen (foldl (unindex_cap n) ci cs) = ci_lastSeen ci"
  "ci_limits (foldl (unindex_cap n) ci cs) = ci_limits ci"
  by (induction cs arbitrary: ci; simp add: sync_cap_def index_cap_def unindex_cap_def Let_def split: option.split)+

definition put :: "node_id \<Rightarrow> f64 option \<Rightarrow> string list \<Rightarrow> (string \<Rightarrow> node_id \<rightharpoonup> f64) \<Rightarrow> string \<Rightarrow> node_id \<rightharpoonup> f64" where
  "put n x cs V = (\<lambda>c. if c \<in> set cs then (V c)(n := x) else V c)"

lemma put_Cons: "put n x (c # cs) V = put n x cs (V(c := (V c)(n := x)))"
  by (auto simp: put_def fun_eq_iff)

lemma index_loop_rep: "rep ci V \<Longrightarrow> rep (foldl (index_cap n imp) ci cs) (put n (Some imp) cs V)"
proof (induction cs arbitrary: ci V)
  case (Cons c cs)
  then show ?case unfolding put_Cons foldl.simps by (intro Cons.IH index_cap_rep)
qed (simp add: put_def)

lemma unindex_loop_rep: "rep ci V \<Longrightarrow> rep (foldl (unindex_cap n) ci cs) (put n None cs V)"
proof (induction cs arbitrary: ci V)
  case (Cons c cs)
  then show ?case unfolding put_Cons foldl.simps by (intro Cons.IH unindex_cap_rep)
qed (simp add: put_def)

lemma sync_loop_eq:
  "rep ci V \<Longrightarrow> \<forall>c\<in>set cs. V c \<noteq> Map.empty \<Longrightarrow>
   foldl (sync_cap n imp) ci cs = foldl (index_cap n imp) ci cs"
proof (induction cs arbitrary: ci V)
  case (Cons c cs)
  have "sync_cap n imp ci c = index_cap n imp ci c" using Cons.prems by (intro sync_cap_rep) auto
  moreover have "foldl (sync_cap n imp) (index_cap n imp ci c) cs = foldl (index_cap n imp) (index_cap n imp ci c) cs"
    using Cons.prems by (intro Cons.IH [OF index_cap_rep [OF Cons.prems(1)]]) auto
  ultimately show ?case by simp
qed simp

section \<open>Invariant and abstraction\<close>

definition view :: "(node_id \<rightharpoonup> string list) \<Rightarrow> (node_id \<rightharpoonup> f64) \<Rightarrow> string \<Rightarrow> node_id \<rightharpoonup> f64" where
  "view byNode imps c n = (case byNode n of None \<Rightarrow> None | Some caps \<Rightarrow> if c \<in> set caps then imps n else None)"

definition ci_inv :: "capIndex \<Rightarrow> bool" where [inv_defs]:
  "ci_inv ci \<longleftrightarrow> rep ci (view (ci_byNode ci) (ci_impedances ci)) \<and>
     dom (ci_impedances ci) = dom (ci_byNode ci) \<and> dom (ci_lastSeen ci) = dom (ci_byNode ci) \<and>
     finite (dom (ci_byNode ci))"

record nodeInfo =
  ni_caps :: "string list"
  ni_impedance :: f64
  ni_lastSeen :: time

definition ci_abs :: "capIndex \<Rightarrow> node_id \<rightharpoonup> nodeInfo" where
  "ci_abs ci = (\<lambda>n. map_option (\<lambda>caps. \<lparr>ni_caps = caps, ni_impedance = the (ci_impedances ci n),
     ni_lastSeen = the (ci_lastSeen ci n)\<rparr>) (ci_byNode ci n))"

definition valid_caps :: "ingestLimits \<Rightarrow> string list \<Rightarrow> string list" where
  "valid_caps l caps =
     take (nat (il_maxCapabilitiesPerNode l)) (filter (\<lambda>c. int (length c) \<le> il_maxCapabilityLength l) caps)"

lemma ci_inv_new [inv_intros]: "ci_inv NewCapabilityIndex"
proof -
  have "view Map.empty Map.empty = (\<lambda>c. Map.empty)" by (simp add: view_def fun_eq_iff)
  then show ?thesis by (simp add: ci_inv_def NewCapabilityIndex_def rep_def bucket_def cong: if_cong)
qed

lemma purge_refines:
  assumes "ci_inv ci"
  shows "ci_inv (purgeNodeLocked ci n) \<and> ci_abs (purgeNodeLocked ci n) = (ci_abs ci)(n := None) \<and>
    ci_limits (purgeNodeLocked ci n) = ci_limits ci"
proof (cases "ci_byNode ci n")
  case None
  then show ?thesis using assms by (auto simp: purgeNodeLocked_def ci_abs_def fun_eq_iff)
next
  case (Some caps)
  define V where "V = view (ci_byNode ci) (ci_impedances ci)"
  define ci' where "ci' = foldl (unindex_cap n) ci caps"
  have "rep ci' (put n None caps V)"
    using assms unindex_loop_rep by (simp add: ci_inv_def V_def ci'_def)
  moreover have "put n None caps V = view ((ci_byNode ci)(n := None)) ((ci_impedances ci)(n := None))"
    using Some by (auto simp: put_def V_def view_def fun_eq_iff split: option.splits)
  ultimately have r: "rep ci' (view ((ci_byNode ci)(n := None)) ((ci_impedances ci)(n := None)))" by simp
  have p: "purgeNodeLocked ci n = ci'\<lparr>ci_byNode := (ci_byNode ci)(n := None),
      ci_impedances := (ci_impedances ci)(n := None), ci_lastSeen := (ci_lastSeen ci)(n := None)\<rparr>"
    using Some by (simp add: purgeNodeLocked_def ci'_def Let_def)
  have "rep (purgeNodeLocked ci n) (view ((ci_byNode ci)(n := None)) ((ci_impedances ci)(n := None)))"
    using r by (simp add: rep_def p)
  then show ?thesis using assms by (auto simp: ci_inv_def p ci_abs_def fun_eq_iff ci'_def)
qed

text \<open>Writing a new impedance under all capabilities of a known node.\<close>

lemma sync_refines:
  assumes "ci_inv ci" "ci_byNode ci n = Some caps"
    and "ci_byNode ci1 = ci_byNode ci" "ci_byCap ci1 = ci_byCap ci" "ci_byNs ci1 = ci_byNs ci"
      "ci_impedances ci1 = (ci_impedances ci)(n \<mapsto> imp)" "dom (ci_lastSeen ci1) = dom (ci_byNode ci)"
  shows "ci_inv (foldl (sync_cap n imp) ci1 caps)"
proof -
  define V where "V = view (ci_byNode ci) (ci_impedances ci)"
  have rep: "rep ci1 V" using assms by (simp add: ci_inv_def rep_def V_def)
  have "n \<in> dom (ci_impedances ci)" using assms(1,2) by (auto simp: ci_inv_def)
  then obtain i where i: "ci_impedances ci n = Some i" by auto
  have "V c n = Some i" if "c \<in> set caps" for c using that assms(2) i by (simp add: V_def view_def)
  then have "\<forall>c\<in>set caps. V c \<noteq> Map.empty" by fastforce
  then have "rep (foldl (sync_cap n imp) ci1 caps) (put n (Some imp) caps V)"
    using sync_loop_eq [OF rep] index_loop_rep [OF rep] by simp
  moreover have "put n (Some imp) caps V = view (ci_byNode ci) ((ci_impedances ci)(n \<mapsto> imp))"
    using assms(2) by (auto simp: put_def V_def view_def fun_eq_iff split: option.splits)
  moreover have "dom ((ci_impedances ci)(n \<mapsto> imp)) = dom (ci_byNode ci)"
    using assms(1,2) by (auto simp: ci_inv_def)
  ultimately show ?thesis using assms(1,3,6,7) by (simp add: ci_inv_def)
qed

lemma Refresh_refines:
  assumes "ci_inv ci"
  shows "ci_inv (Refresh now ci n imp) \<and> ci_abs (Refresh now ci n imp) =
    (case ci_abs ci n of None \<Rightarrow> ci_abs ci
     | Some info \<Rightarrow> (ci_abs ci)(n \<mapsto> info\<lparr>ni_impedance := imp, ni_lastSeen := now\<rparr>))"
proof (cases "ci_byNode ci n")
  case None
  then show ?thesis using assms by (simp add: Refresh_def ci_abs_def)
next
  case (Some caps)
  have "ci_inv (foldl (sync_cap n imp) (touch_node now n imp ci) caps)"
    using assms Some by (intro sync_refines [OF assms Some]) (auto simp: touch_node_def ci_inv_def)
  then show ?thesis using Some by (auto simp: Refresh_def ci_abs_def touch_node_def fun_eq_iff)
qed

lemma UpdateImpedance_refines:
  assumes "ci_inv ci"
  shows "ci_inv (UpdateImpedance ci n imp) \<and> ci_abs (UpdateImpedance ci n imp) =
    (case ci_abs ci n of None \<Rightarrow> ci_abs ci | Some info \<Rightarrow> (ci_abs ci)(n \<mapsto> info\<lparr>ni_impedance := imp\<rparr>))"
proof (cases "ci_byNode ci n")
  case None
  then show ?thesis using assms by (simp add: UpdateImpedance_def ci_abs_def)
next
  case (Some caps)
  have "ci_inv (foldl (sync_cap n imp) (ci\<lparr>ci_impedances := (ci_impedances ci)(n \<mapsto> imp)\<rparr>) caps)"
    using assms Some by (intro sync_refines [OF assms Some]) (auto simp: ci_inv_def)
  then show ?thesis using Some by (auto simp: UpdateImpedance_def ci_abs_def fun_eq_iff)
qed

section \<open>Ingest limits\<close>

lemma effectiveLimits_pos: "0 < il_maxCapabilitiesPerNode (effectiveLimits ci)"
  by (simp add: effectiveLimits_def Let_def)

lemma copy_valid_eq:
  "int (length acc) \<le> il_maxCapabilitiesPerNode l \<Longrightarrow>
   copy_valid l acc cs = acc @ take (nat (il_maxCapabilitiesPerNode l) - length acc)
     (filter (\<lambda>c. int (length c) \<le> il_maxCapabilityLength l) cs)"
proof (induction l acc cs rule: copy_valid.induct)
  case (2 l acc c cs)
  show ?case
  proof (cases "int (length acc) \<ge> il_maxCapabilitiesPerNode l")
    case True
    then have "nat (il_maxCapabilitiesPerNode l) - length acc = 0" using "2.prems" by linarith
    then show ?thesis using True by simp
  next
    case False
    then have "nat (il_maxCapabilitiesPerNode l) - length acc = Suc (nat (il_maxCapabilitiesPerNode l) - Suc (length acc))"
      by linarith
    then show ?thesis using False 2 by auto
  qed
qed simp

lemma count_valid_eq:
  "0 \<le> n \<Longrightarrow> n \<le> il_maxCapabilitiesPerNode l \<Longrightarrow>
   count_valid l n cs = n + int (length (take (nat (il_maxCapabilitiesPerNode l - n))
     (filter (\<lambda>c. int (length c) \<le> il_maxCapabilityLength l) cs)))"
proof (induction l n cs rule: count_valid.induct)
  case (2 l n c cs)
  show ?case
  proof (cases "n \<ge> il_maxCapabilitiesPerNode l")
    case False
    then have "nat (il_maxCapabilitiesPerNode l - n) = Suc (nat (il_maxCapabilitiesPerNode l - (n + 1)))"
      using "2.prems" by linarith
    then show ?thesis using False 2 by auto
  qed (use "2.prems" in simp)
qed simp

lemma identical_loop_eq:
  assumes "idx + length v \<le> length existing"
    and "v = take (nat (il_maxCapabilitiesPerNode l) - idx) (filter (\<lambda>c. int (length c) \<le> il_maxCapabilityLength l) cs)"
  shows "identical_loop l existing idx cs \<longleftrightarrow> take (length v) (drop idx existing) = v"
  using assms
proof (induction l existing idx cs arbitrary: v rule: identical_loop.induct)
  case (2 l existing idx c cs)
  show ?case
  proof (cases "int idx \<ge> il_maxCapabilitiesPerNode l")
    case True
    then show ?thesis using "2.prems"(2) by simp
  next
    case more: False
    show ?thesis
    proof (cases "int (length c) > il_maxCapabilityLength l")
      case True
      then show ?thesis using more "2.IH"(1) "2.prems" by auto
    next
      case False
      have "nat (il_maxCapabilitiesPerNode l) - idx = Suc (nat (il_maxCapabilitiesPerNode l) - (idx + 1))"
        using more by linarith
      then obtain v' where v': "v = c # v'"
        "v' = take (nat (il_maxCapabilitiesPerNode l) - (idx + 1)) (filter (\<lambda>c. int (length c) \<le> il_maxCapabilityLength l) cs)"
        using "2.prems"(2) False by auto
      have len: "idx < length existing" "idx + 1 + length v' \<le> length existing" using "2.prems"(1) v'(1) by auto
      then have "drop idx existing = existing ! idx # drop (idx + 1) existing" by (simp add: Cons_nth_drop_Suc)
      then show ?thesis
        using more False v' "2.IH"(2) [OF more False _ len(2) v'(2)] by auto
    qed
  qed
qed simp

lemma Update_refines:
  assumes "ci_inv ci"
  shows "ci_inv (Update now ci n imp caps) \<and> ci_abs (Update now ci n imp caps) =
    (ci_abs ci)(n \<mapsto> \<lparr>ni_caps = valid_caps (effectiveLimits ci) caps, ni_impedance = imp, ni_lastSeen = now\<rparr>)"
proof -
  define l where "l = effectiveLimits ci"
  define v where "v = valid_caps l caps"
  have pos: "0 < il_maxCapabilitiesPerNode l" unfolding l_def by (rule effectiveLimits_pos)
  have cnt: "count_valid l 0 caps = int (length v)"
    using count_valid_eq [of 0 l caps] pos by (simp add: v_def valid_caps_def)
  have cp: "copy_valid l [] caps = v" using copy_valid_eq [of "[]" l caps] pos by (simp add: v_def valid_caps_def)
  have idt: "identical_loop l existing 0 caps \<longleftrightarrow> existing = v" if "length existing = length v" for existing
    using identical_loop_eq [of 0 v existing l caps] that by (simp add: v_def valid_caps_def)
  show ?thesis
  proof (cases "ci_byNode ci n = Some v")
    case True
    have "Update now ci n imp caps = foldl (sync_cap n imp) (touch_node now n imp ci) v"
      using True cnt idt [of v] by (simp add: Update_def l_def [symmetric] Let_def)
    moreover have "ci_inv (foldl (sync_cap n imp) (touch_node now n imp ci) v)"
      using assms True by (intro sync_refines [OF assms True]) (auto simp: touch_node_def ci_inv_def)
    ultimately show ?thesis using True by (auto simp: ci_abs_def touch_node_def fun_eq_iff v_def l_def)
  next
    case False
    have slow: "Update now ci n imp caps = (let ci1 = touch_node now n imp (purgeNodeLocked ci n);
        ci2 = ci1\<lparr>ci_byNode := (ci_byNode ci1)(n \<mapsto> v)\<rparr> in foldl (index_cap n imp) ci2 v)"
    proof (cases "ci_byNode ci n")
      case (Some existing)
      then have "\<not> (int (length existing) = int (length v) \<and> identical_loop l existing 0 caps)"
        using False idt [of existing] by auto
      then show ?thesis using Some cnt cp by (auto simp: Update_def l_def [symmetric] Let_def)
    qed (simp add: Update_def l_def [symmetric] Let_def cp)
    define cp where "cp = purgeNodeLocked ci n"
    define ci2 where "ci2 = (touch_node now n imp cp)\<lparr>ci_byNode := (ci_byNode cp)(n \<mapsto> v)\<rparr>"
    have p: "ci_inv cp" "ci_abs cp = (ci_abs ci)(n := None)" using purge_refines [OF assms] by (simp_all add: cp_def)
    have none: "ci_byNode cp n = None" using fun_cong [OF p(2), of n] by (simp add: ci_abs_def)
    have "rep ci2 (view (ci_byNode cp) (ci_impedances cp))"
      using p(1) by (simp add: ci_inv_def rep_def ci2_def touch_node_def)
    then have "rep (foldl (index_cap n imp) ci2 v) (put n (Some imp) v (view (ci_byNode cp) (ci_impedances cp)))"
      by (rule index_loop_rep)
    moreover have "put n (Some imp) v (view (ci_byNode cp) (ci_impedances cp)) =
        view ((ci_byNode cp)(n \<mapsto> v)) ((ci_impedances cp)(n \<mapsto> imp))"
      using none by (auto simp: put_def view_def fun_eq_iff split: option.splits)
    ultimately have "ci_inv (foldl (index_cap n imp) ci2 v)"
      using p(1) by (simp add: ci_inv_def ci2_def touch_node_def)
    moreover have "ci_abs (foldl (index_cap n imp) ci2 v) =
        (ci_abs ci)(n \<mapsto> \<lparr>ni_caps = v, ni_impedance = imp, ni_lastSeen = now\<rparr>)"
    proof
      fix k
      show "ci_abs (foldl (index_cap n imp) ci2 v) k =
          ((ci_abs ci)(n \<mapsto> \<lparr>ni_caps = v, ni_impedance = imp, ni_lastSeen = now\<rparr>)) k"
        using fun_cong [OF p(2), of k] by (auto simp: ci_abs_def ci2_def touch_node_def)
    qed
    ultimately show ?thesis unfolding slow by (simp add: Let_def cp_def ci2_def touch_node_def v_def l_def)
  qed
qed

lemma purge_fold:
  assumes "ci_inv ci"
  shows "ci_inv (snd (foldl (\<lambda>(purged, ci) n. (purged + 1, purgeNodeLocked ci n)) (k, ci) ns)) \<and>
    ci_abs (snd (foldl (\<lambda>(purged, ci) n. (purged + 1, purgeNodeLocked ci n)) (k, ci) ns)) =
      (\<lambda>m. if m \<in> set ns then None else ci_abs ci m) \<and>
    fst (foldl (\<lambda>(purged, ci) n. (purged + 1, purgeNodeLocked ci n)) (k, ci) ns) = k + int (length ns)"
  using assms
proof (induction ns arbitrary: ci k)
  case (Cons n ns)
  note p = purge_refines [OF Cons.prems, of n]
  show ?case using Cons.IH [of "purgeNodeLocked ci n" "k + 1"] p by (auto simp: fun_eq_iff)
qed simp

text \<open>
  Property C1. The capability index refines a plain map from nodes to their capabilities, impedance and time
  of the last update. In every state that satisfies the invariant, \<open>Update\<close> sets the entry of the node to
  the capabilities that pass the ingest limits (also on its fast path for an unchanged list), \<open>Refresh\<close>
  and \<open>UpdateImpedance\<close> change only known nodes, \<open>PurgeNode\<close> deletes the entry, \<open>PurgeStale\<close> deletes exactly
  the entries not seen after the cutoff and returns their number, and all of them restore the invariant
  that ties the two redundant indexes to this map.
\<close>

theorem capability_index_refines_map:
  assumes "ci_inv ci" "walk_of walk (ci_lastSeen ci)" "ci_PurgeStale now walk ci maxAge = (purged, ci')"
  shows "(ci_inv (Update now ci n imp caps) \<and> ci_abs (Update now ci n imp caps) =
      (ci_abs ci)(n \<mapsto> \<lparr>ni_caps = valid_caps (effectiveLimits ci) caps, ni_impedance = imp, ni_lastSeen = now\<rparr>)) \<and>
    (ci_inv (Refresh now ci n imp) \<and> ci_abs (Refresh now ci n imp) =
      (case ci_abs ci n of None \<Rightarrow> ci_abs ci
       | Some info \<Rightarrow> (ci_abs ci)(n \<mapsto> info\<lparr>ni_impedance := imp, ni_lastSeen := now\<rparr>))) \<and>
    (ci_inv (UpdateImpedance ci n imp) \<and> ci_abs (UpdateImpedance ci n imp) =
      (case ci_abs ci n of None \<Rightarrow> ci_abs ci | Some info \<Rightarrow> (ci_abs ci)(n \<mapsto> info\<lparr>ni_impedance := imp\<rparr>))) \<and>
    (ci_inv (PurgeNode ci n) \<and> ci_abs (PurgeNode ci n) = (ci_abs ci)(n := None)) \<and>
    (ci_inv ci' \<and> ci_abs ci' = (\<lambda>k. case ci_abs ci k of None \<Rightarrow> None
        | Some info \<Rightarrow> if ni_lastSeen info > now - maxAge then Some info else None) \<and>
     purged = int (card (dom (ci_abs ci))) - int (card (dom (ci_abs ci'))))"
proof -
  define keep where "keep k \<longleftrightarrow> the (ci_lastSeen ci k) > now - maxAge" for k
  define stale where "stale = filter (\<lambda>k. \<not> keep k) walk"
  have w: "distinct walk" "set walk = dom (ci_byNode ci)" using assms(1,2) by (simp_all add: walk_of_def ci_inv_def)
  have eq: "(purged, ci') = foldl (\<lambda>(purged, ci) n. (purged + 1, purgeNodeLocked ci n)) (0, ci) stale"
    using assms(3) by (simp add: ci_PurgeStale_def Let_def stale_def keep_def)
  have st: "ci_inv ci'" "ci_abs ci' = (\<lambda>m. if m \<in> set stale then None else ci_abs ci m)" "purged = int (length stale)"
    using purge_fold [OF assms(1), of 0 stale] by (simp_all add: eq [symmetric])
  have dom: "dom (ci_abs ci) = dom (ci_byNode ci)" by (auto simp: ci_abs_def)
  have "ci_abs ci' k = (case ci_abs ci k of None \<Rightarrow> None
      | Some info \<Rightarrow> if ni_lastSeen info > now - maxAge then Some info else None)" for k
  proof -
    have "ci_abs ci' k = (if k \<in> set stale then None else ci_abs ci k)"
      unfolding st(2) by simp
    moreover have "k \<in> set stale \<longleftrightarrow> k \<in> dom (ci_byNode ci) \<and> \<not> keep k" using w(2) by (simp add: stale_def)
    ultimately show ?thesis by (cases "ci_byNode ci k") (auto simp: ci_abs_def keep_def split: option.splits)
  qed
  moreover have "purged = int (card (dom (ci_abs ci))) - int (card (dom (ci_abs ci')))"
  proof -
    have d: "dom (ci_abs ci') = dom (ci_abs ci) - set stale" by (auto simp: st(2) split: if_splits)
    have "set stale \<subseteq> dom (ci_abs ci)" using w(2) dom by (auto simp: stale_def)
    moreover have "finite (dom (ci_abs ci))" using assms(1) dom by (simp add: ci_inv_def)
    moreover have "card (set stale) = length stale" using distinct_card [OF distinct_filter [OF w(1)]] by (simp only: stale_def)
    moreover have "card (set stale) \<le> card (dom (ci_abs ci))" using calculation by (intro card_mono) auto
    ultimately show ?thesis
      unfolding d using st(3) by (simp add: card_Diff_subset finite_subset of_nat_diff)
  qed
  ultimately show ?thesis
    using Update_refines [OF assms(1)] Refresh_refines [OF assms(1)] UpdateImpedance_refines [OF assms(1)]
      purge_refines [OF assms(1)] st(1) by (simp add: PurgeNode_def fun_eq_iff)
qed

theorem capability_index_refines_map_witness:
  "ci_abs (Update 5 NewCapabilityIndex ''n1'' (Num 2) [''tool:a'']) =
     [''n1'' \<mapsto> \<lparr>ni_caps = [''tool:a''], ni_impedance = Num 2, ni_lastSeen = 5\<rparr>]"
proof -
  have w: "walk_of [] (ci_lastSeen NewCapabilityIndex)" by (simp add: walk_of_def NewCapabilityIndex_def)
  obtain k ci' where p: "ci_PurgeStale 5 [] NewCapabilityIndex 1 = (k, ci')" by fastforce
  have v: "valid_caps (effectiveLimits NewCapabilityIndex) [''tool:a''] = [''tool:a'']"
    by (simp add: valid_caps_def effectiveLimits_def NewCapabilityIndex_def Let_def)
  have a: "ci_abs NewCapabilityIndex = Map.empty" by (simp add: ci_abs_def NewCapabilityIndex_def)
  show ?thesis
    using capability_index_refines_map [OF ci_inv_new w p, of "''n1''" "Num 2" "[''tool:a'']"] v a by simp
qed

section \<open>What the lookups return\<close>

text \<open>The nodes with a capability in \<open>P\<close> and their impedance, as a scan of all nodes finds them.\<close>

definition offers :: "capIndex \<Rightarrow> (string \<Rightarrow> bool) \<Rightarrow> node_id \<rightharpoonup> f64" where
  "offers ci P n = (case ci_abs ci n of
     None \<Rightarrow> None | Some info \<Rightarrow> if list_ex P (ni_caps info) then Some (ni_impedance info) else None)"

text \<open>The map of capabilities that a wildcard lookup walks.\<close>

definition scanned :: "capIndex \<Rightarrow> string \<Rightarrow> string \<rightharpoonup> (node_id \<rightharpoonup> f64)" where
  "scanned ci pre = (case index_byte pre CHR '':'' of
     Some i \<Rightarrow> (case ci_byNs ci (take i pre) of None \<Rightarrow> Map.empty | Some nsBucket \<Rightarrow> nsBucket)
   | None \<Rightarrow> ci_byCap ci)"

abbreviation ci_view :: "capIndex \<Rightarrow> string \<Rightarrow> node_id \<rightharpoonup> f64" where
  "ci_view ci \<equiv> view (ci_byNode ci) (ci_impedances ci)"

lemma view_imp: "view b i c n = Some x \<Longrightarrow> i n = Some x"
  by (auto simp: view_def split: option.splits if_splits)

lemma scan_nodes_eq:
  assumes "\<And>n. n \<in> set ns \<Longrightarrow> nodes n = imp n \<and> imp n \<noteq> None" "\<And>n x. seen n = Some x \<Longrightarrow> imp n = Some x"
  shows "scan_nodes nodes seen ns = (\<lambda>n. if n \<in> set ns then imp n else seen n)"
  using assms
proof (induction ns arbitrary: seen)
  case (Cons n ns)
  obtain x where x: "nodes n = Some x" "imp n = Some x" using Cons.prems(1) [of n] by auto
  show ?case
  proof (cases "seen n = None \<or> flt x (the (seen n))")
    case True
    have ns: "\<And>m. m \<in> set ns \<Longrightarrow> nodes m = imp m \<and> imp m \<noteq> None" using Cons.prems(1) by auto
    have "\<And>m y. (seen(n \<mapsto> x)) m = Some y \<Longrightarrow> imp m = Some y"
      using Cons.prems(2) x(2) by (auto split: if_splits)
    then have ih: "scan_nodes nodes (seen(n \<mapsto> x)) ns = (\<lambda>m. if m \<in> set ns then imp m else (seen(n \<mapsto> x)) m)"
      by (intro Cons.IH ns)
    have step: "scan_nodes nodes seen (n # ns) = scan_nodes nodes (seen(n \<mapsto> x)) ns"
      using True x(1) by simp
    show ?thesis unfolding step ih using x(2) by (auto simp: fun_eq_iff)
  next
    case False
    then have "seen n = Some x" using Cons.prems(2) x by auto
    moreover have "scan_nodes nodes seen ns = (\<lambda>m. if m \<in> set ns then imp m else seen m)"
      using Cons by simp
    ultimately show ?thesis using False x by (auto simp: fun_eq_iff)
  qed
qed auto

lemma scan_caps_eq:
  assumes "\<And>c. c \<in> set cs \<Longrightarrow> byCap c = Some (view b imp c) \<and> walk_of (nodeWalk c) (view b imp c)"
    and "\<And>n x. seen n = Some x \<Longrightarrow> imp n = Some x"
  shows "scan_caps nodeWalk pre byCap seen cs =
    (\<lambda>n. if \<exists>c\<in>set cs. prefix pre c \<and> view b imp c n \<noteq> None then imp n else seen n)"
  using assms
proof (induction cs arbitrary: seen)
  case (Cons c cs)
  have c: "byCap c = Some (view b imp c)" "walk_of (nodeWalk c) (view b imp c)" using Cons.prems(1) by auto
  have cs: "\<And>c. c \<in> set cs \<Longrightarrow> byCap c = Some (view b imp c) \<and> walk_of (nodeWalk c) (view b imp c)"
    using Cons.prems(1) by auto
  show ?case
  proof (cases "prefix pre c")
    case True
    define seen' where "seen' = scan_nodes (view b imp c) seen (nodeWalk c)"
    have s: "seen' = (\<lambda>n. if n \<in> set (nodeWalk c) then imp n else seen n)"
      unfolding seen'_def
    proof (rule scan_nodes_eq)
      fix n assume "n \<in> set (nodeWalk c)"
      then obtain x where "view b imp c n = Some x" using walk_ofD(2) [OF c(2)] by auto
      then show "view b imp c n = imp n \<and> imp n \<noteq> None" using view_imp by fastforce
    qed (rule Cons.prems(2))
    have "\<And>n x. seen' n = Some x \<Longrightarrow> imp n = Some x" using s Cons.prems(2) by (simp split: if_splits)
    then have ih: "scan_caps nodeWalk pre byCap seen' cs =
        (\<lambda>n. if \<exists>c\<in>set cs. prefix pre c \<and> view b imp c n \<noteq> None then imp n else seen' n)"
      by (intro Cons.IH cs)
    have step: "scan_caps nodeWalk pre byCap seen (c # cs) = scan_caps nodeWalk pre byCap seen' cs"
      using True c(1) by (simp add: seen'_def)
    have "seen' n = (if view b imp c n \<noteq> None then imp n else seen n)" for n
      unfolding s using walk_ofD(2) [OF c(2)] by simp
    then show ?thesis unfolding step ih using True by (auto simp: fun_eq_iff)
  next
    case False
    then have "scan_caps nodeWalk pre byCap seen (c # cs) = scan_caps nodeWalk pre byCap seen cs" by simp
    moreover have "scan_caps nodeWalk pre byCap seen cs =
        (\<lambda>n. if \<exists>c\<in>set cs. prefix pre c \<and> view b imp c n \<noteq> None then imp n else seen n)"
      by (intro Cons.IH cs Cons.prems(2))
    ultimately show ?thesis using False by (auto simp: fun_eq_iff)
  qed
qed auto

lemma offers_view:
  assumes "ci_inv ci"
  shows "offers ci P n = (if \<exists>c. P c \<and> ci_view ci c n \<noteq> None then ci_impedances ci n else None)"
proof (cases "ci_byNode ci n")
  case (Some caps)
  then have "n \<in> dom (ci_impedances ci)" using assms by (auto simp: ci_inv_def)
  then show ?thesis using Some by (auto simp: offers_def ci_abs_def view_def list_ex_iff)
qed (simp add: offers_def ci_abs_def view_def)

lemma prefix_namespace:
  assumes "index_byte pre CHR '':'' = Some i" "prefix pre c"
  shows "capNamespace c = take i pre"
proof -
  obtain z where "c = pre @ z" using assms(2) by (auto simp: prefix_def)
  moreover have "i < length pre" "pre ! i = CHR '':''" "CHR '':'' \<notin> set (take i pre)"
    using assms(1) by (simp_all add: index_byte_Some)
  ultimately have "index_byte c CHR '':'' = Some i" by (simp add: index_byte_Some nth_append)
  then show ?thesis using \<open>c = pre @ z\<close> \<open>i < length pre\<close> by (simp add: capNamespace_def)
qed

lemma scanned_view:
  assumes "ci_inv ci"
  shows "scanned ci pre c = Some nodes \<Longrightarrow> nodes = ci_view ci c"
    and "prefix pre c \<Longrightarrow> ci_view ci c \<noteq> Map.empty \<Longrightarrow> scanned ci pre c = Some (ci_view ci c)"
proof -
  have r: "ci_byCap ci c = mk (ci_view ci c)" "ci_byNs ci ns = mk (bucket (ci_view ci) ns)" for c ns
    using assms by (simp_all add: ci_inv_def rep_def)
  show "nodes = ci_view ci c" if "scanned ci pre c = Some nodes"
    using that by (auto simp: scanned_def r bucket_def split: option.splits if_splits)
  show "scanned ci pre c = Some (ci_view ci c)" if "prefix pre c" "ci_view ci c \<noteq> Map.empty"
  proof (cases "index_byte pre CHR '':''")
    case None
    then show ?thesis using that by (simp add: scanned_def r)
  next
    case (Some i)
    then show ?thesis using that prefix_namespace [OF Some that(1)] by (simp add: scanned_def r bucket_def)
  qed
qed

lemma wildcard_seen_offers:
  assumes inv: "ci_inv ci" and cw: "walk_of capWalk (scanned ci pre)"
    and nw: "\<And>c nodes. ci_byCap ci c = Some nodes \<Longrightarrow> walk_of (nodeWalk c) nodes"
  shows "wildcard_seen capWalk nodeWalk ci pre = offers ci (prefix pre)"
proof -
  have r: "ci_byCap ci c = mk (ci_view ci c)" for c using inv by (simp add: ci_inv_def rep_def)
  have eq: "wildcard_seen capWalk nodeWalk ci pre = scan_caps nodeWalk pre (scanned ci pre) Map.empty capWalk"
  proof (cases "index_byte pre CHR '':''")
    case None
    then show ?thesis by (simp add: wildcard_seen_def extractNamespacePrefix_def scanned_def)
  next
    case (Some i)
    show ?thesis
    proof (cases "ci_byNs ci (take i pre)")
      case None
      then have "scanned ci pre = Map.empty" using Some by (simp add: scanned_def)
      moreover have "capWalk = []" using cw calculation by (simp add: walk_of_def)
      ultimately show ?thesis using Some None by (simp add: wildcard_seen_def extractNamespacePrefix_def)
    next
      case (Some b)
      then show ?thesis using \<open>index_byte pre CHR '':'' = Some i\<close>
        by (simp add: wildcard_seen_def extractNamespacePrefix_def scanned_def)
    qed
  qed
  have mem: "scanned ci pre c = Some (ci_view ci c) \<and> walk_of (nodeWalk c) (ci_view ci c)" if c: "c \<in> set capWalk" for c
  proof -
    obtain nodes where n: "scanned ci pre c = Some nodes" using walk_ofD(2) [OF cw] c by auto
    have v: "nodes = ci_view ci c" by (rule scanned_view(1) [OF inv n])
    have "ci_byCap ci c = Some nodes"
      using n v r inv by (auto simp: scanned_def ci_inv_def rep_def bucket_def split: option.splits if_splits)
    then show ?thesis using n v nw by simp
  qed
  have "wildcard_seen capWalk nodeWalk ci pre = (\<lambda>n. if \<exists>c\<in>set capWalk. prefix pre c \<and> ci_view ci c n \<noteq> None
      then ci_impedances ci n else None)"
    unfolding eq by (rule scan_caps_eq) (use mem in auto)
  moreover have "(\<exists>c\<in>set capWalk. prefix pre c \<and> ci_view ci c n \<noteq> None) \<longleftrightarrow>
      (\<exists>c. prefix pre c \<and> ci_view ci c n \<noteq> None)" for n
  proof -
    have "c \<in> set capWalk" if "prefix pre c" "ci_view ci c n \<noteq> None" for c
      using that scanned_view(2) [OF inv that(1)] walk_ofD(2) [OF cw] by fastforce
    then show ?thesis by blast
  qed
  ultimately show ?thesis using offers_view [OF inv] by (simp add: fun_eq_iff)
qed

lemma sorted_entries:
  assumes "walk_of walk m"
  shows "set (go_sort entry_less (entries_of walk m)) = {e. m (nce_nodeID e) = Some (nce_impedance e)}"
    and "distinct (map nce_nodeID (go_sort entry_less (entries_of walk m)))"
    and "NaN \<notin> ran m \<Longrightarrow>
      sorted_wrt (\<lambda>a b. \<not> flt (nce_impedance b) (nce_impedance a)) (go_sort entry_less (entries_of walk m))"
proof -
  have s: "set (entries_of walk m) = {e. m (nce_nodeID e) = Some (nce_impedance e)}"
  proof (intro set_eqI iffI)
    fix e :: nodeCapEntry
    assume "e \<in> {e. m (nce_nodeID e) = Some (nce_impedance e)}"
    then show "e \<in> set (entries_of walk m)"
      using walk_ofD(2) [OF assms] by (intro image_eqI [of e _ "nce_nodeID e"] | simp add: entries_of_def)+
  qed (use walk_ofD(2) [OF assms] in \<open>auto simp: entries_of_def\<close>)
  then show "set (go_sort entry_less (entries_of walk m)) = {e. m (nce_nodeID e) = Some (nce_impedance e)}" by simp
  have "mset (map nce_nodeID (go_sort entry_less (entries_of walk m))) = mset walk"
    by (simp add: entries_of_def image_mset.compositionality comp_def)
  then show "distinct (map nce_nodeID (go_sort entry_less (entries_of walk m)))"
    using walk_ofD(1) [OF assms] mset_eq_imp_distinct_iff by blast
  assume n: "NaN \<notin> ran m"
  have "weak_order_on (set (entries_of walk m)) (\<lambda>a b. flt (nce_impedance a) (nce_impedance b))"
  proof (rule weak_order_flt)
    fix e assume "e \<in> set (entries_of walk m)"
    then have "nce_impedance e \<in> ran m" unfolding s by (simp add: ranI)
    then show "nce_impedance e \<noteq> NaN" using n by metis
  qed
  then have "weak_order_on (set (entries_of walk m)) entry_less"
    unfolding entry_less_def [abs_def] .
  from sorted_go_sort [OF this]
  show "sorted_wrt (\<lambda>a b. \<not> flt (nce_impedance b) (nce_impedance a)) (go_sort entry_less (entries_of walk m))"
    by (simp add: entry_less_def)
qed

text \<open>
  Property C13. The lookups of the capability index are exact. For whatever order Go walks the maps in,
  \<open>Lookup\<close> lists exactly the nodes that offer the capability, each once and with its impedance, and
  \<open>LookupWildcard\<close> exactly the nodes that offer some capability with the prefix, although a prefix with a
  colon is served from one namespace bucket and the duplicates are merged on the way. Where no impedance is
  NaN both lists are ordered by impedance.
\<close>

theorem lookups_exact:
  assumes "ci_inv ci"
    and "case ci_byCap ci c of None \<Rightarrow> True | Some nodes \<Rightarrow> walk_of walk nodes"
    and "walk_of capWalk (scanned ci pre)"
    and "\<And>c nodes. ci_byCap ci c = Some nodes \<Longrightarrow> walk_of (nodeWalk c) nodes"
    and "walk_of seenWalk (wildcard_seen capWalk nodeWalk ci pre)"
  shows "set (Lookup walk ci c) = {e. offers ci (\<lambda>d. d = c) (nce_nodeID e) = Some (nce_impedance e)} \<and>
    distinct (map nce_nodeID (Lookup walk ci c)) \<and>
    set (LookupWildcard capWalk nodeWalk seenWalk ci pre) =
      {e. offers ci (prefix pre) (nce_nodeID e) = Some (nce_impedance e)} \<and>
    distinct (map nce_nodeID (LookupWildcard capWalk nodeWalk seenWalk ci pre)) \<and>
    (NaN \<notin> ran (ci_impedances ci) \<longrightarrow>
       sorted_wrt (\<lambda>a b. \<not> flt (nce_impedance b) (nce_impedance a)) (Lookup walk ci c) \<and>
       sorted_wrt (\<lambda>a b. \<not> flt (nce_impedance b) (nce_impedance a)) (LookupWildcard capWalk nodeWalk seenWalk ci pre))"
proof -
  have l: "Lookup walk ci c = go_sort entry_less (entries_of (if ci_byCap ci c = None then [] else walk) (ci_view ci c))"
    using assms(1) by (auto simp: Lookup_def ci_inv_def rep_def entries_of_def split: option.splits)
  have lw: "walk_of (if ci_byCap ci c = None then [] else walk) (ci_view ci c)"
  proof (cases "ci_view ci c = Map.empty")
    case True
    then have "ci_byCap ci c = None" using assms(1) by (simp add: ci_inv_def rep_def)
    then show ?thesis using True by (simp add: walk_of_def)
  next
    case False
    then have "ci_byCap ci c = Some (ci_view ci c)" using assms(1) by (simp add: ci_inv_def rep_def)
    then show ?thesis using assms(2) by simp
  qed
  have w: "wildcard_seen capWalk nodeWalk ci pre = offers ci (prefix pre)"
    by (rule wildcard_seen_offers) (use assms in auto)
  have o: "offers ci (\<lambda>d. d = c) = ci_view ci c"
    using view_imp by (fastforce simp: offers_view [OF assms(1)] fun_eq_iff)
  have n1: "NaN \<notin> ran (ci_view ci c)" if "NaN \<notin> ran (ci_impedances ci)"
    using that view_imp by (fastforce simp: ran_def)
  have n2: "NaN \<notin> ran (offers ci (prefix pre))" if "NaN \<notin> ran (ci_impedances ci)"
    using that by (auto simp: ran_def offers_view [OF assms(1)] split: if_splits)
  show ?thesis
    using sorted_entries [OF lw] sorted_entries [OF assms(5)] n1 n2
    by (simp add: l [symmetric] LookupWildcard_def w o)
qed

theorem lookups_exact_witness:
  "set (Lookup [''n''] (Update 5 NewCapabilityIndex ''n'' (Num 2) [''a:b'']) ''a:b'') = {\<lparr>nce_nodeID = ''n'', nce_impedance = Num 2\<rparr>}"
proof -
  define ci where "ci = Update 5 NewCapabilityIndex ''n'' (Num 2) [''a:b'']"
  have inv: "ci_inv ci" unfolding ci_def using Update_refines [OF ci_inv_new] by blast
  have cap: "ci_byCap ci = [''a:b'' \<mapsto> [''n'' \<mapsto> Num 2]]" "ci_byNs ci = [''a'' \<mapsto> [''a:b'' \<mapsto> [''n'' \<mapsto> Num 2]]]"
    by (simp_all add: ci_def Update_def NewCapabilityIndex_def effectiveLimits_def Let_def touch_node_def
        purgeNodeLocked_def index_cap_def capNamespace_def)
  have sc: "scanned ci ''a:'' = [''a:b'' \<mapsto> [''n'' \<mapsto> Num 2]]" by (simp add: scanned_def cap)
  have w: "walk_of [''a:b''] (scanned ci ''a:'')" "walk_of [''n''] [''n'' \<mapsto> Num 2]" by (auto simp: walk_of_def sc)
  have nw: "\<And>c nodes. ci_byCap ci c = Some nodes \<Longrightarrow> walk_of ((\<lambda>_. [''n'']) c) nodes"
    using w(2) by (simp add: cap split: if_splits)
  have seen: "wildcard_seen [''a:b''] (\<lambda>_. [''n'']) ci ''a:'' = [''n'' \<mapsto> Num 2]"
    by (simp add: wildcard_seen_def extractNamespacePrefix_def cap Let_def)
  have sw: "walk_of [''n''] (wildcard_seen [''a:b''] (\<lambda>_. [''n'']) ci ''a:'')" unfolding seen by (rule w(2))
  have lk: "case ci_byCap ci ''a:b'' of None \<Rightarrow> True | Some nodes \<Rightarrow> walk_of [''n''] nodes" using w(2) by (simp add: cap)
  have "ci_byNode ci = [''n'' \<mapsto> [''a:b'']]" "ci_impedances ci = [''n'' \<mapsto> Num 2]"
    by (simp_all add: ci_def Update_def NewCapabilityIndex_def effectiveLimits_def Let_def touch_node_def
        purgeNodeLocked_def index_cap_def)
  then have "offers ci (\<lambda>d. d = ''a:b'') m = (if m = ''n'' then Some (Num 2) else None)" for m
    by (simp add: offers_def ci_abs_def)
  then show ?thesis
    using lookups_exact [OF inv lk w(1) nw sw] by (auto simp: ci_def [symmetric] split: if_splits)
qed

end
