(* ===== verification/Vault.thy ===== *)
theory Vault
  imports HostMatch
begin

text \<open>
  Model of \<open>pkg/mesh/vault\<close>: the ordered store of credentials by host pattern and the choice of the most specific
  pattern for a host (\<open>store.go\<close>), and the delegation of a credential to a peer with its protection
  against replays (\<open>delegate.go\<close>, \<open>convert.go\<close>). The cipher of the sealed box, the conversion of public keys,
  SHA-512 and the JSON encoding of the payload are arguments; keys, nonces and sealed data are lists of bytes.
  The sealing of the whole store for the disk (\<open>Seal\<close>, \<open>Unseal\<close>, \<open>deriveAEAD\<close>) is a composition of library
  calls and is not modelled.
\<close>

section \<open>The store\<close>


record credential =
  cr_type :: int
  cr_username :: string
  cr_password :: string
  cr_privateKey :: octets
  cr_certificate :: octets

definition no_credential :: credential where
  "no_credential = \<lparr>cr_type = 0, cr_username = [], cr_password = [], cr_privateKey = [], cr_certificate = []\<rparr>"

record vault_entry =
  e_pattern :: string
  e_credential :: credential

record vault =
  v_entries :: "vault_entry list"
  v_privateKey :: octets

fun store_loop :: "string \<Rightarrow> credential \<Rightarrow> vault_entry list \<Rightarrow> vault_entry list option" where
  "store_loop pattern cred [] = None"
| "store_loop pattern cred (e # es) =
     (if e_pattern e = pattern then Some (e\<lparr>e_credential := cred\<rparr> # es)
      else map_option ((#) e) (store_loop pattern cred es))"

definition Store :: "vault \<Rightarrow> string \<Rightarrow> credential \<Rightarrow> vault" where
  "Store v pattern cred =
     (case store_loop pattern cred (v_entries v) of
        Some es \<Rightarrow> v\<lparr>v_entries := es\<rparr>
      | None \<Rightarrow> v\<lparr>v_entries := v_entries v @ [\<lparr>e_pattern = pattern, e_credential = cred\<rparr>]\<rparr>)"

definition AllPatterns :: "vault \<Rightarrow> string list" where
  "AllPatterns v = map e_pattern (v_entries v)"

definition is_wild :: "char \<Rightarrow> bool" where
  "is_wild c \<longleftrightarrow> c = CHR ''*'' \<or> c = CHR ''?''"

definition patternSpecificity :: "string \<Rightarrow> int" where
  "patternSpecificity pattern =
     (let hasWildcard = list_ex is_wild pattern;
          hasBracket = list_ex (\<lambda>c. c = CHR ''['') pattern
      in if \<not> hasWildcard \<and> \<not> hasBracket then 10000 + int (length pattern)
         else if hasBracket \<and> \<not> hasWildcard then 5000 + int (length pattern)
         else foldl (\<lambda>score c. if is_wild c then score - 100 else score) (int (length pattern) * 10) pattern)"

text \<open>The loop of \<open>Match\<close>, for any test of an entry and any score; \<open>found\<close> is the third component.\<close>

fun best_loop :: "('e \<Rightarrow> bool) \<Rightarrow> ('e \<Rightarrow> int) \<Rightarrow> ('e \<Rightarrow> 'c) \<Rightarrow> int \<times> 'c \<times> bool \<Rightarrow> 'e list \<Rightarrow> int \<times> 'c \<times> bool" where
  "best_loop matched spec get st [] = st"
| "best_loop matched spec get (bestSpecificity, bestCred, found) (e # es) =
     (if \<not> matched e then best_loop matched spec get (bestSpecificity, bestCred, found) es
      else if spec e > bestSpecificity then best_loop matched spec get (spec e, get e, True) es
      else best_loop matched spec get (bestSpecificity, bestCred, found) es)"

definition entry_matches :: "string \<Rightarrow> vault_entry \<Rightarrow> bool" where
  "entry_matches hostname e =
     (case Match (e_pattern e) hostname [] of Inl err \<Rightarrow> False | Inr matched \<Rightarrow> matched)"

definition vault_Match :: "vault \<Rightarrow> string \<Rightarrow> credential \<times> bool" where
  "vault_Match v hostname =
     (let (_, bestCred, found) =
        best_loop (entry_matches hostname) (\<lambda>e. patternSpecificity (e_pattern e)) e_credential
          (- (2 ^ 31), no_credential, False) (v_entries v)
      in (bestCred, found))"

section \<open>Delegation\<close>

record credentialRequest =
  rq_hostPattern :: string
  rq_requesterPubKey :: octets
  rq_nonce :: octets
  rq_requestedAt :: int

record sealedPayload =
  sp_credential :: credential
  sp_nonce :: octets
  sp_issuedAt :: int
  sp_expiresAt :: int

datatype vault_error =
    MarshalFailed | BadRecipientKey nat | BadSenderKey nat | NoRandomness
  | SealedTooShort | UnsealFailed | UnmarshalFailed | NonceMismatch | GrantExpired int
  | WrongKeySize nat | NonceTooShort nat | MissingTimestamp | OutsideSkewWindow int

definition DelegationSkewWindow :: duration where "DelegationSkewWindow = 120000000000"
definition DelegationGrantTTL :: duration where "DelegationGrantTTL = 300000000000"
definition DelegationMinNonceLen :: nat where "DelegationMinNonceLen = 16"

fun nonce_loop :: "8 word \<Rightarrow> octets \<Rightarrow> octets \<Rightarrow> 8 word" where
  "nonce_loop result (a # as) (b # bs) = nonce_loop (or result (xor a b)) as bs"
| "nonce_loop result as bs = result"

definition nonceEqual :: "octets \<Rightarrow> octets \<Rightarrow> bool" where
  "nonceEqual a b = (if length a \<noteq> length b then False else nonce_loop 0 a b = 0)"

definition validateRequest :: "time \<Rightarrow> credentialRequest \<Rightarrow> vault_error option" where
  "validateRequest now req =
     (if length (rq_requesterPubKey req) \<noteq> 32 then Some (WrongKeySize (length (rq_requesterPubKey req)))
      else if length (rq_nonce req) < DelegationMinNonceLen then Some (NonceTooShort (length (rq_nonce req)))
      else if rq_requestedAt req = 0 then Some MissingTimestamp
      else let delta0 = i64 (now - rq_requestedAt req);
               delta = (if delta0 < 0 then i64 (- delta0) else delta0)
        in if delta > DelegationSkewWindow then Some (OutsideSkewWindow delta) else None)"

text \<open>The clamping of the SHA-512 hash of the seed, the first 32 bytes of a private key.\<close>

definition edwardsToMontgomeryPriv :: "(octets \<Rightarrow> octets) \<Rightarrow> octets \<Rightarrow> octets" where
  "edwardsToMontgomeryPriv sha512 priv =
     (let h0 = sha512 (take 32 priv);
          h1 = h0[0 := and (h0 ! 0) 248];
          h2 = h1[31 := and (h1 ! 31) 127];
          h3 = h2[31 := or (h2 ! 31) 64]
      in take 32 h3)"

text \<open>\<open>montgomery\<close> stands for the decoding of the point and its Montgomery form, \<open>None\<close> for an invalid key.\<close>

definition edwardsToMontgomeryPub :: "(octets \<Rightarrow> octets option) \<Rightarrow> octets \<Rightarrow> octets" where
  "edwardsToMontgomeryPub montgomery pub =
     (case montgomery pub of None \<Rightarrow> replicate 32 0 | Some u \<Rightarrow> u)"

definition ed25519PubToCurve25519 :: "(octets \<Rightarrow> octets option) \<Rightarrow> octets \<Rightarrow> octets option" where
  "ed25519PubToCurve25519 montgomery pub =
     (if length pub \<noteq> 32 then None else Some (edwardsToMontgomeryPub montgomery pub))"

definition ed25519PrivToCurve25519 :: "(octets \<Rightarrow> octets) \<Rightarrow> octets \<Rightarrow> octets option" where
  "ed25519PrivToCurve25519 sha512 priv =
     (if length priv \<noteq> 64 then None else Some (edwardsToMontgomeryPriv sha512 priv))"

text \<open>What the package takes from its libraries.\<close>

record vault_lib =
  vl_marshal :: "sealedPayload \<Rightarrow> octets option"
  vl_unmarshal :: "octets \<Rightarrow> sealedPayload option"
  vl_montgomery :: "octets \<Rightarrow> octets option"
  vl_sha512 :: "octets \<Rightarrow> octets"
  vl_boxSeal :: "octets \<Rightarrow> octets \<Rightarrow> octets \<Rightarrow> octets \<Rightarrow> octets"
  vl_boxOpen :: "octets \<Rightarrow> octets \<Rightarrow> octets \<Rightarrow> octets \<Rightarrow> octets option"

text \<open>\<open>boxNonce\<close> is what the random generator delivers, \<open>None\<close> when it fails.\<close>

definition SealGrantWithNonce :: "vault_lib \<Rightarrow> time \<Rightarrow> octets option \<Rightarrow> credential \<Rightarrow> octets \<Rightarrow> octets \<Rightarrow> octets \<Rightarrow>
    duration \<Rightarrow> vault_error + octets" where
  "SealGrantWithNonce lib now boxNonce cred recipientPub senderPriv requestNonce ttl =
     (let payload = \<lparr>sp_credential = cred, sp_nonce = requestNonce, sp_issuedAt = now, sp_expiresAt = i64 (now + ttl)\<rparr>
      in case vl_marshal lib payload of
        None \<Rightarrow> Inl MarshalFailed
      | Some plaintext \<Rightarrow>
      (case ed25519PubToCurve25519 (vl_montgomery lib) recipientPub of
        None \<Rightarrow> Inl (BadRecipientKey (length recipientPub))
      | Some recipientCurve \<Rightarrow>
      (case ed25519PrivToCurve25519 (vl_sha512 lib) senderPriv of
        None \<Rightarrow> Inl (BadSenderKey (length senderPriv))
      | Some senderCurve \<Rightarrow>
      (case boxNonce of
        None \<Rightarrow> Inl NoRandomness
      | Some nonce \<Rightarrow> Inr (nonce @ vl_boxSeal lib plaintext nonce recipientCurve senderCurve)))))"

definition UnsealGrantWithNonce :: "vault_lib \<Rightarrow> time \<Rightarrow> octets \<Rightarrow> octets \<Rightarrow> octets \<Rightarrow> octets \<Rightarrow>
    vault_error + sealedPayload" where
  "UnsealGrantWithNonce lib now sealed recipientPriv senderPub expectedNonce =
     (if length sealed < 24 + 16 then Inl SealedTooShort
      else let nonce = take 24 sealed; ciphertext = drop 24 sealed in
      (case ed25519PrivToCurve25519 (vl_sha512 lib) recipientPriv of
        None \<Rightarrow> Inl (BadRecipientKey (length recipientPriv))
      | Some recipientCurve \<Rightarrow>
      (case ed25519PubToCurve25519 (vl_montgomery lib) senderPub of
        None \<Rightarrow> Inl (BadSenderKey (length senderPub))
      | Some senderCurve \<Rightarrow>
      (case vl_boxOpen lib ciphertext nonce senderCurve recipientCurve of
        None \<Rightarrow> Inl UnsealFailed
      | Some plaintext \<Rightarrow>
      (case vl_unmarshal lib plaintext of
        None \<Rightarrow> Inl UnmarshalFailed
      | Some payload \<Rightarrow>
          if \<not> nonceEqual (sp_nonce payload) expectedNonce then Inl NonceMismatch
          else if now > sp_expiresAt payload then Inl (GrantExpired (sp_expiresAt payload))
          else Inr payload)))))"

text \<open>\<open>HandleRequest\<close>: \<open>Inr None\<close> when nothing matches. It reads the clock twice.\<close>

definition HandleRequest :: "vault_lib \<Rightarrow> time \<Rightarrow> time \<Rightarrow> octets option \<Rightarrow> vault \<Rightarrow> credentialRequest \<Rightarrow>
    vault_error + octets option" where
  "HandleRequest lib now1 now2 boxNonce v req =
     (case validateRequest now1 req of
        Some err \<Rightarrow> Inl err
      | None \<Rightarrow>
          (let (cred, found) = vault_Match v (rq_hostPattern req) in
           if \<not> found then Inr None
           else case SealGrantWithNonce lib now2 boxNonce cred (rq_requesterPubKey req) (v_privateKey v)
                       (rq_nonce req) DelegationGrantTTL of
                  Inl err \<Rightarrow> Inl err
                | Inr sealed \<Rightarrow> Inr (Some sealed)))"

section \<open>Choosing the best entry\<close>

text \<open>
  What the choice needs of its two parts: every entry that can be chosen scores above the floor
  the loop starts from. \<open>valid\<close> says for which entries that holds.
\<close>

locale scored_entries =
  fixes matched :: "'e \<Rightarrow> bool" and spec :: "'e \<Rightarrow> int" and valid :: "'e \<Rightarrow> bool" and floor :: int
  assumes above_floor: "valid e \<Longrightarrow> floor < spec e"
begin

definition chosen :: "'e list \<Rightarrow> nat \<Rightarrow> bool" where
  "chosen es i \<longleftrightarrow> i < length es \<and> matched (es ! i) \<and>
     (\<forall>j < length es. matched (es ! j) \<longrightarrow> spec (es ! j) \<le> spec (es ! i) \<and> (j < i \<longrightarrow> spec (es ! j) < spec (es ! i)))"

lemma chosen_snoc:
  "chosen es i \<Longrightarrow> \<not> matched e \<or> spec e \<le> spec (es ! i) \<Longrightarrow> chosen (es @ [e]) i"
  "chosen es i \<Longrightarrow> matched e \<Longrightarrow> spec e > spec (es ! i) \<Longrightarrow> chosen (es @ [e]) (length es)"
  "\<forall>x\<in>set es. \<not> matched x \<Longrightarrow> matched e \<Longrightarrow> chosen (es @ [e]) (length es)"
  unfolding chosen_def by (fastforce simp: nth_append less_Suc_eq)+

lemma loop_snoc: "best_loop matched spec get st (es @ [e]) = best_loop matched spec get (best_loop matched spec get st es) [e]"
  by (induction matched spec get st es rule: best_loop.induct) simp_all

lemma best_loop_chosen:
  assumes "\<forall>e\<in>set es. valid e"
  shows "(\<exists>i. chosen es i \<and> best_loop matched spec get (floor, d, False) es = (spec (es ! i), get (es ! i), True)) \<or>
    (\<forall>e\<in>set es. \<not> matched e) \<and> best_loop matched spec get (floor, d, False) es = (floor, d, False)"
  using assms
proof (induction es rule: rev_induct)
  case (snoc e es)
  have v: "valid e" "\<forall>e\<in>set es. valid e" using snoc.prems by simp_all
  from snoc.IH [OF v(2)] show ?case
  proof
    assume "\<exists>i. chosen es i \<and> best_loop matched spec get (floor, d, False) es = (spec (es ! i), get (es ! i), True)"
    then obtain i where i: "chosen es i" "best_loop matched spec get (floor, d, False) es = (spec (es ! i), get (es ! i), True)"
      by blast
    have n: "(es @ [e]) ! i = es ! i" using i(1) by (simp add: chosen_def nth_append)
    show ?thesis
    proof (cases "matched e \<and> spec e > spec (es ! i)")
      case True
      then show ?thesis using chosen_snoc(2) [OF i(1)] i(2) by (intro disjI1 exI [of _ "length es"]) (simp add: loop_snoc)
    next
      case False
      then show ?thesis using chosen_snoc(1) [OF i(1), of e] i(2) n
        by (intro disjI1 exI [of _ i]) (auto simp: loop_snoc)
    qed
  next
    assume n: "(\<forall>e\<in>set es. \<not> matched e) \<and> best_loop matched spec get (floor, d, False) es = (floor, d, False)"
    show ?thesis
    proof (cases "matched e")
      case True
      then show ?thesis using chosen_snoc(3) [of es e] n above_floor [OF v(1)]
        by (intro disjI1 exI [of _ "length es"]) (simp add: loop_snoc)
    next
      case False
      then show ?thesis using n by (simp add: loop_snoc)
    qed
  qed
qed simp

end

lemma glob_score: "foldl (\<lambda>score c. if is_wild c then score - 100 else score) n s \<ge> n - 100 * int (length s)"
proof (induction s arbitrary: n)
  case (Cons c s)
  show ?case using Cons.IH [of n] Cons.IH [of "n - 100"] by (simp split: if_splits)
qed simp

lemma specificity_above_floor: "length p < 2 ^ 24 \<Longrightarrow> - (2 ^ 31) < patternSpecificity p"
  using glob_score [of "int (length p) * 10" p] by (auto simp: patternSpecificity_def Let_def)

interpretation vm: scored_entries "entry_matches hostname" "\<lambda>e. patternSpecificity (e_pattern e)"
  "\<lambda>e. length (e_pattern e) < 2 ^ 24" "- (2 ^ 31)" for hostname
  by unfold_locales (rule specificity_above_floor)

section \<open>The store as a map\<close>

definition vault_inv :: "vault \<Rightarrow> bool" where [inv_defs]:
  "vault_inv v \<longleftrightarrow> distinct (AllPatterns v)"

definition cred_of :: "vault \<Rightarrow> string \<rightharpoonup> credential" where
  "cred_of v = map_of (map (\<lambda>e. (e_pattern e, e_credential e)) (v_entries v))"

lemma store_loop_None: "store_loop p c es = None \<longleftrightarrow> p \<notin> e_pattern ` set es"
  by (induction es) auto

lemma store_loop_Some:
  "store_loop p c es = Some es' \<Longrightarrow> p \<in> e_pattern ` set es \<and> map e_pattern es' = map e_pattern es \<and>
     map_of (map (\<lambda>e. (e_pattern e, e_credential e)) es') = (map_of (map (\<lambda>e. (e_pattern e, e_credential e)) es))(p \<mapsto> c)"
proof (induction es arbitrary: es')
  case (Cons e es)
  then show ?case by (cases "e_pattern e = p") (auto simp: fun_eq_iff)
qed simp

lemma Store_spec:
  "AllPatterns (Store v p c) = (if p \<in> set (AllPatterns v) then AllPatterns v else AllPatterns v @ [p])"
  "cred_of (Store v p c) = (cred_of v)(p \<mapsto> c)"
proof -
  have "AllPatterns (Store v p c) = (if p \<in> set (AllPatterns v) then AllPatterns v else AllPatterns v @ [p]) \<and>
    cred_of (Store v p c) = (cred_of v)(p \<mapsto> c)"
  proof (cases "store_loop p c (v_entries v)")
    case None
    moreover have p: "p \<notin> e_pattern ` set (v_entries v)" using None by (simp add: store_loop_None)
    moreover have "map_of (map (\<lambda>e. (e_pattern e, e_credential e)) (v_entries v)) ++ [p \<mapsto> c] =
        (map_of (map (\<lambda>e. (e_pattern e, e_credential e)) (v_entries v)))(p \<mapsto> c)" by simp
    moreover have "[p \<mapsto> c] ++ m = m(p \<mapsto> c)" if "m p = None" for m :: "string \<rightharpoonup> credential"
      using that by (auto simp: map_add_def fun_eq_iff split: option.split)
    moreover have "map_of (map (\<lambda>e. (e_pattern e, e_credential e)) (v_entries v)) p = None"
      using p by (auto simp: map_of_eq_None_iff)
    ultimately show ?thesis
      by (simp add: Store_def AllPatterns_def cred_of_def)
  next
    case (Some es)
    then show ?thesis using store_loop_Some [OF Some] by (auto simp: Store_def AllPatterns_def cred_of_def)
  qed
  then show "AllPatterns (Store v p c) = (if p \<in> set (AllPatterns v) then AllPatterns v else AllPatterns v @ [p])"
    "cred_of (Store v p c) = (cred_of v)(p \<mapsto> c)" by blast+
qed

text \<open>
  Property C15. The vault is a map from patterns to credentials, and \<open>Match\<close> finds the right entry. \<open>Store\<close> replaces the
  credential of a pattern it has, in place, and appends one it has not, so patterns stay different. \<open>Match\<close> fails
  exactly when no pattern matches the host (a pattern that does not parse does not match), and otherwise
  returns the credential of the first of the matching entries with the highest specificity. Patterns are
  shorter than 2^24 bytes; a longer one could score below the start value of the search.
\<close>

theorem vault_match_most_specific:
  assumes "vault_inv v" "\<forall>p\<in>set (AllPatterns v). length p < 2 ^ 24" "vault_Match v hostname = (cred, found)"
  shows "vault_inv (Store v p c) \<and> cred_of (Store v p c) = (cred_of v)(p \<mapsto> c) \<and>
    set (AllPatterns (Store v p c)) = insert p (set (AllPatterns v)) \<and>
    (found \<longleftrightarrow> (\<exists>e\<in>set (v_entries v). Match (e_pattern e) hostname [] = Inr True)) \<and>
    (found \<longrightarrow> (\<exists>i < length (v_entries v). Match (AllPatterns v ! i) hostname [] = Inr True \<and>
       cred_of v (AllPatterns v ! i) = Some cred \<and>
       (\<forall>j < length (v_entries v). Match (AllPatterns v ! j) hostname [] = Inr True \<longrightarrow>
          patternSpecificity (AllPatterns v ! j) \<le> patternSpecificity (AllPatterns v ! i) \<and>
          (j < i \<longrightarrow> patternSpecificity (AllPatterns v ! j) < patternSpecificity (AllPatterns v ! i)))))"
proof -
  have m: "entry_matches hostname e \<longleftrightarrow> Match (e_pattern e) hostname [] = Inr True" for e
    by (auto simp: entry_matches_def split: sum.split)
  have "\<forall>e\<in>set (v_entries v). length (e_pattern e) < 2 ^ 24" using assms(2) by (simp add: AllPatterns_def)
  note best = vm.best_loop_chosen [OF this, of hostname e_credential no_credential]
  have "vault_inv (Store v p c)" using assms(1) by (simp add: vault_inv_def Store_spec)
  moreover have "(\<exists>i. vm.chosen hostname (v_entries v) i \<and> cred = e_credential (v_entries v ! i) \<and> found) \<or>
      (\<forall>e\<in>set (v_entries v). \<not> entry_matches hostname e) \<and> \<not> found"
    using best assms(3) by (auto simp: vault_Match_def)
  moreover have "cred_of v (e_pattern (v_entries v ! i)) = Some (e_credential (v_entries v ! i))" if "i < length (v_entries v)" for i
    using assms(1) that by (auto simp: cred_of_def vault_inv_def AllPatterns_def comp_def)
  moreover have "set (AllPatterns (Store v p c)) = insert p (set (AllPatterns v))" by (auto simp: Store_spec)
  moreover have "found \<longleftrightarrow> (\<exists>e\<in>set (v_entries v). entry_matches hostname e)"
    using calculation(2) by (auto simp: vm.chosen_def)
  ultimately show ?thesis
    unfolding m [symmetric] by (auto simp: Store_spec(2) m vm.chosen_def AllPatterns_def)
qed

theorem vault_match_most_specific_witness:
  "vault_inv (Store (Store \<lparr>v_entries = [], v_privateKey = []\<rparr> ''a'' no_credential) ''a,b'' no_credential)"
proof -
  let ?v = "Store \<lparr>v_entries = [], v_privateKey = []\<rparr> ''a'' no_credential"
  have v: "vault_inv ?v" "\<forall>p\<in>set (AllPatterns ?v). length p < 2 ^ 24"
    by (simp_all add: Store_def AllPatterns_def vault_inv_def)
  obtain c f where "vault_Match ?v ''a'' = (c, f)" by fastforce
  from vault_match_most_specific [OF v this] show ?thesis by blast
qed

lemma split_on_two: "CHR '','' \<notin> set a \<Longrightarrow> CHR '','' \<notin> set b \<Longrightarrow> split_on CHR '','' (a @ CHR '','' # b) = [a, b]"
  by (simp add: split_on_append split_on_single)

lemma Match_pair:
  assumes "host_prefix a" "host_prefix b"
  shows "Match (a @ '','' @ b) a opts = Inr True"
proof -
  let ?p = "a @ '','' @ b"
  have c: "list_all (\<lambda>c. host_char c \<or> c = CHR '','') ?p" using assms by (auto simp: host_prefix_def list_all_iff)
  then have n: "\<not> containsGlob ?p" "\<not> containsComplex ?p" "?p \<noteq> a"
    by (auto simp: containsGlob_def containsComplex_def list_ex_iff list_all_iff host_char_def plain_char_def is_operator_def)
  have nb: "CHR ''['' \<notin> set a" "CHR '','' \<notin> set a" "CHR '','' \<notin> set b" "a \<noteq> []"
    using assms by (auto simp: host_prefix_def list_all_iff host_char_def plain_char_def is_operator_def)
  have "trim_space a = a"
    using assms(1) by (intro trim_space_no_space) (auto simp: host_prefix_def list_all_iff host_char_def plain_char_def)
  moreover have "index_byte a CHR ''['' = None" using nb(1) by (simp add: index_byte_None)
  ultimately have "matchFast ?p a = Inr True"
    using nb split_on_two [OF nb(2,3)] by (simp add: matchFast_def matchSimplePattern_def match_loop.simps)
  moreover have "containsSetOrGroup ?p" by (auto simp: containsSetOrGroup_def list_ex_iff)
  ultimately show ?thesis using n by (simp add: Match_def Let_def)
qed

text \<open>
  An exact name does not win against a list. The comments on \<open>Match\<close> and \<open>patternSpecificity\<close> rank an exact
  name first, but a pattern that lists the name among others has neither a wildcard nor a bracket, so it counts
  as exact and, being longer, gets the higher score: with a credential for host \<open>a\<close> and one for the list
  \<open>a,b\<close>, in either order, the host \<open>a\<close> is given the credential of the list.
\<close>

theorem list_outranks_exact_name:
  assumes "host_prefix a" "host_prefix b" "v = \<lparr>v_entries = [], v_privateKey = key\<rparr>"
  shows "vault_Match (Store (Store v a c1) (a @ '','' @ b) c2) a = (c2, True) \<and>
    vault_Match (Store (Store v (a @ '','' @ b) c2) a c1) a = (c2, True)"
proof -
  have "list_all (\<lambda>c. host_char c \<or> c = CHR '','') (a @ '','' @ b)" using assms by (auto simp: host_prefix_def list_all_iff)
  then have "\<not> list_ex is_wild (a @ '','' @ b)" "\<not> list_ex (\<lambda>c. c = CHR ''['') (a @ '','' @ b)"
    by (auto simp: list_ex_iff list_all_iff is_wild_def host_char_def plain_char_def)
  then have sp: "patternSpecificity (a @ '','' @ b) = 10001 + int (length a) + int (length b)"
    "patternSpecificity a = 10000 + int (length a)"
    by (simp_all add: patternSpecificity_def Let_def)
  have m: "entry_matches a \<lparr>e_pattern = a, e_credential = c\<rparr>" "entry_matches a \<lparr>e_pattern = a @ '','' @ b, e_credential = c\<rparr>" for c
    using Match_pair [OF assms(1,2), of "[]"] by (simp_all add: entry_matches_def Match_def)
  show ?thesis using sp m by (simp add: assms(3) Store_def vault_Match_def)
qed

theorem list_outranks_exact_name_witness:
  "vault_Match (Store (Store \<lparr>v_entries = [], v_privateKey = []\<rparr> ''mds1'' no_credential) (''mds1'' @ '','' @ ''mds2'')
     (no_credential\<lparr>cr_username := ''root''\<rparr>)) ''mds1'' = (no_credential\<lparr>cr_username := ''root''\<rparr>, True)"
proof -
  have h: "host_prefix ''mds1''" "host_prefix ''mds2''" by code_simp+
  from list_outranks_exact_name [OF h refl, of "[]"] show ?thesis by blast
qed

section \<open>Replay protection\<close>

lemma nonce_loop_zero: "length a = length b \<Longrightarrow> nonce_loop r a b = 0 \<longleftrightarrow> r = 0 \<and> a = b"
proof (induction r a b rule: nonce_loop.induct)
  case (1 r a as b bs)
  have "xor a b = 0 \<longleftrightarrow> a = b" by (metis xor_self_eq xor.assoc xor.left_neutral)
  then show ?case using 1 by (auto simp: or_eq_0_iff)
qed auto

lemma nonceEqual_iff: "nonceEqual a b \<longleftrightarrow> a = b"
  by (auto simp: nonceEqual_def nonce_loop_zero)

text \<open>
  A delegation request is accepted exactly when its key and nonce have the right sizes and its timestamp is set and
  lies within the skew window of the granter's clock, with one exception: the timestamp 2^63 nanoseconds
  before the clock, where the difference is the least 64-bit number, negating it changes nothing, and the
  negative skew passes the test although the request is 292 years old.
\<close>

theorem replay_window_exact:
  assumes "0 \<le> now" "now < 2 ^ 62" "- (2 ^ 63) \<le> rq_requestedAt req" "rq_requestedAt req < 2 ^ 63"
  shows "validateRequest now req = None \<longleftrightarrow>
    length (rq_requesterPubKey req) = 32 \<and> 16 \<le> length (rq_nonce req) \<and> rq_requestedAt req \<noteq> 0 \<and>
    (\<bar>now - rq_requestedAt req\<bar> \<le> 120000000000 \<or> now - rq_requestedAt req = 2 ^ 63)"
proof -
  define d where "d = now - rq_requestedAt req"
  have d: "- (2 ^ 63) < d" "d \<le> 2 ^ 62 + 2 ^ 63" using assms by (simp_all add: d_def)
  define e where "e = (let delta0 = i64 d in if delta0 < 0 then i64 (- delta0) else delta0)"
  have "e > DelegationSkewWindow \<longleftrightarrow> \<not> (\<bar>d\<bar> \<le> 120000000000 \<or> d = 2 ^ 63)"
  proof (cases "d < 2 ^ 63")
    case True
    then have "i64 d = d" "i64 (- d) = - d" using d by (auto intro: i64_id)
    then show ?thesis using True by (auto simp: e_def Let_def DelegationSkewWindow_def)
  next
    case False
    have "(d - 2 ^ 64) + 2 ^ 63 = (d + 2 ^ 63) - 2 ^ 64" by simp
    then have "i64 d = i64 (d - 2 ^ 64)" unfolding i64_def by (simp only: minus_mod_self2)
    also have "\<dots> = d - 2 ^ 64" using d False by (intro i64_id) auto
    finally have w: "i64 d = d - 2 ^ 64" .
    show ?thesis
    proof (cases "d = 2 ^ 63")
      case True
      then have "e = - (2 ^ 63)" by (simp add: e_def i64_def)
      then show ?thesis using True by (simp add: DelegationSkewWindow_def)
    next
      case d2: False
      then have "i64 (- (d - 2 ^ 64)) = 2 ^ 64 - d" using d False i64_id [of "2 ^ 64 - d"] by simp
      then have "e = 2 ^ 64 - d" using w d False by (simp add: e_def Let_def)
      then show ?thesis using d d2 False by (auto simp: DelegationSkewWindow_def)
    qed
  qed
  then show ?thesis
    unfolding validateRequest_def d_def [symmetric] e_def [symmetric] DelegationMinNonceLen_def
    by (simp add: Let_def e_def)
qed

theorem replay_window_exact_witness:
  "validateRequest 1700000000000000000 \<lparr>rq_hostPattern = ''h'', rq_requesterPubKey = replicate 32 0,
     rq_nonce = replicate 16 0, rq_requestedAt = 1700000000000000000 - 2 ^ 63\<rparr> = None"
  using replay_window_exact [of 1700000000000000000 "\<lparr>rq_hostPattern = ''h'', rq_requesterPubKey = replicate 32 0,
     rq_nonce = replicate 16 0, rq_requestedAt = 1700000000000000000 - 2 ^ 63\<rparr>"] by simp

section \<open>A delegated credential\<close>

lemma curve_keys:
  "length pub = 32 \<Longrightarrow> ed25519PubToCurve25519 mg pub = Some (edwardsToMontgomeryPub mg pub)"
  "length priv = 64 \<Longrightarrow> ed25519PrivToCurve25519 sha priv = Some (edwardsToMontgomeryPriv sha priv)"
  by (simp_all add: ed25519PubToCurve25519_def ed25519PrivToCurve25519_def)

text \<open>
  Property C5. A grant opens only for its request and only in time. Let the payload survive the JSON encoding and the box
  open with the keys it was sealed for. Then whatever \<open>HandleRequest\<close> grants was asked for by a valid request, and
  carries the credential the vault matches for the host: the requester who presents the nonce of the request before the expiry gets exactly that
  credential; any other nonce is refused as a replay, and after five minutes the grant is refused as expired.
\<close>

theorem delegation_bound_to_request:
  assumes h: "HandleRequest lib now1 now2 (Some boxNonce) v req = Inr (Some sealed)"
    and pl: "payload = \<lparr>sp_credential = fst (vault_Match v (rq_hostPattern req)), sp_nonce = rq_nonce req,
       sp_issuedAt = now2, sp_expiresAt = i64 (now2 + DelegationGrantTTL)\<rparr>"
    and json: "\<And>text. vl_marshal lib payload = Some text \<Longrightarrow> vl_unmarshal lib text = Some payload"
    and box: "\<And>m. vl_boxOpen lib (vl_boxSeal lib m boxNonce
         (edwardsToMontgomeryPub (vl_montgomery lib) (rq_requesterPubKey req)) (edwardsToMontgomeryPriv (vl_sha512 lib) (v_privateKey v)))
         boxNonce (edwardsToMontgomeryPub (vl_montgomery lib) senderPub) (edwardsToMontgomeryPriv (vl_sha512 lib) requesterPriv) = Some m"
    and overhead: "\<And>m n p k. length (vl_boxSeal lib m n p k) = length m + 16"
    and lens: "length boxNonce = 24" "length senderPub = 32" "length requesterPriv = 64"
  shows "validateRequest now1 req = None \<and> vault_Match v (rq_hostPattern req) = (sp_credential payload, True) \<and>
    UnsealGrantWithNonce lib now3 sealed requesterPriv senderPub nonce =
      (if nonce \<noteq> rq_nonce req then Inl NonceMismatch
       else if now3 > i64 (now2 + 300000000000) then Inl (GrantExpired (i64 (now2 + 300000000000)))
       else Inr payload)"
proof -
  obtain cred where v: "validateRequest now1 req = None" and m: "vault_Match v (rq_hostPattern req) = (cred, True)"
    and s: "SealGrantWithNonce lib now2 (Some boxNonce) cred (rq_requesterPubKey req) (v_privateKey v) (rq_nonce req)
      DelegationGrantTTL = Inr sealed"
    using h by (auto simp: HandleRequest_def Let_def split: option.splits prod.splits if_splits sum.splits)
  obtain ptext where t: "vl_marshal lib payload = Some ptext" and k: "length (rq_requesterPubKey req) = 32" "length (v_privateKey v) = 64"
    and sealed: "sealed = boxNonce @ vl_boxSeal lib ptext boxNonce
       (edwardsToMontgomeryPub (vl_montgomery lib) (rq_requesterPubKey req)) (edwardsToMontgomeryPriv (vl_sha512 lib) (v_privateKey v))"
    using s m by (auto simp: SealGrantWithNonce_def pl Let_def ed25519PubToCurve25519_def ed25519PrivToCurve25519_def
        split: option.splits if_splits)
  have len: "\<not> length sealed < 24 + 16" by (simp add: sealed overhead lens)
  have "UnsealGrantWithNonce lib now3 sealed requesterPriv senderPub nonce =
      (if nonce \<noteq> rq_nonce req then Inl NonceMismatch
       else if now3 > i64 (now2 + 300000000000) then Inl (GrantExpired (i64 (now2 + 300000000000)))
       else Inr payload)"
    using len json [OF t] box [of ptext] lens
    by (auto simp: UnsealGrantWithNonce_def Let_def curve_keys sealed nonceEqual_iff pl DelegationGrantTTL_def)
  then show ?thesis using v m by (simp add: pl)
qed

definition sample_vault :: vault where
  "sample_vault = \<lparr>v_entries = [\<lparr>e_pattern = ''h'', e_credential = no_credential\<rparr>], v_privateKey = replicate 64 0\<rparr>"

definition sample_request :: credentialRequest where
  "sample_request = \<lparr>rq_hostPattern = ''h'', rq_requesterPubKey = replicate 32 0, rq_nonce = replicate 16 7, rq_requestedAt = 5\<rparr>"

definition sample_payload :: sealedPayload where
  "sample_payload = \<lparr>sp_credential = no_credential, sp_nonce = replicate 16 7, sp_issuedAt = 6, sp_expiresAt = 300000000006\<rparr>"

definition sample_lib :: vault_lib where
  "sample_lib = \<lparr>vl_marshal = \<lambda>p. Some [1], vl_unmarshal = \<lambda>t. Some sample_payload, vl_montgomery = Some,
     vl_sha512 = \<lambda>s. replicate 64 0, vl_boxSeal = \<lambda>m n p k. replicate 16 0 @ m, vl_boxOpen = \<lambda>c n p k. Some (drop 16 c)\<rparr>"

theorem delegation_bound_to_request_witness:
  "\<exists>sealed. HandleRequest sample_lib 5 6 (Some (replicate 24 0)) sample_vault sample_request = Inr (Some sealed) \<and>
     UnsealGrantWithNonce sample_lib 7 sealed (replicate 64 0) (replicate 32 0) (replicate 16 7) = Inr sample_payload"
proof -
  have v: "validateRequest 5 sample_request = None"
    by (simp add: validateRequest_def sample_request_def DelegationMinNonceLen_def DelegationSkewWindow_def i64_def)
  have m: "vault_Match sample_vault ''h'' = (no_credential, True)"
    by (simp add: vault_Match_def sample_vault_def entry_matches_def Match_def patternSpecificity_def is_wild_def)
  have sg: "SealGrantWithNonce sample_lib 6 (Some (replicate 24 0)) no_credential (replicate 32 0) (replicate 64 0)
      (replicate 16 7) DelegationGrantTTL = Inr (replicate 24 0 @ replicate 16 0 @ [1])"
    by (simp add: SealGrantWithNonce_def Let_def curve_keys sample_lib_def)
  obtain sealed where h: "HandleRequest sample_lib 5 6 (Some (replicate 24 0)) sample_vault sample_request = Inr (Some sealed)"
    using v m sg by (simp add: HandleRequest_def sample_request_def sample_vault_def)
  have p: "sample_payload = \<lparr>sp_credential = fst (vault_Match sample_vault (rq_hostPattern sample_request)),
      sp_nonce = rq_nonce sample_request, sp_issuedAt = 6, sp_expiresAt = i64 (6 + DelegationGrantTTL)\<rparr>"
    using m by (simp add: sample_payload_def sample_request_def DelegationGrantTTL_def i64_def)
  have "UnsealGrantWithNonce sample_lib 7 sealed (replicate 64 0) (replicate 32 0) (replicate 16 7) =
      (if replicate 16 7 \<noteq> rq_nonce sample_request then Inl NonceMismatch
       else if 7 > i64 (6 + 300000000000) then Inl (GrantExpired (i64 (6 + 300000000000))) else Inr sample_payload)"
    using delegation_bound_to_request [OF h p, of "replicate 32 0" "replicate 64 0" 7 "replicate 16 7"]
    by (simp add: sample_lib_def)
  then show ?thesis using h by (simp add: sample_request_def i64_def)
qed

end
