(* ===== verification/Node.thy ===== *)
theory Node
  imports Peers Sonar Gradient CapIndex Vault "HOL-Library.Log_Nat"
begin

text \<open>
  Model of a mesh node, \<open>pkg/mesh/api/neuron.go\<close>, \<open>health.go\<close>, \<open>connect.go\<close> and \<open>grpc.go\<close>: the record of its
  subsystems, the messages of the control plane (\<open>pkg/mesh/proto/mesh.pb.go\<close>), joining and losing peers, and the
  choice of the stream for a call to another node, directly or through a relay. The manifest is shared by
  pointer between the node and its Sonar; the model keeps the one copy in the Sonar. Streams to other nodes are a type
  parameter; opening one on a yamux session and the TLS handshake are outside and come in as their results.
\<close>

section \<open>Messages\<close>

record gossipFrame =
  gf_fromNode :: node_id
  gf_routes :: "node_id \<rightharpoonup> f64"
  gf_fromImpedance :: f64
  gf_fromCapabilities :: "string list"
  gf_nodeCapabilities :: "node_id \<rightharpoonup> string list"

text \<open>The frame on the wire has the origin of the query besides the fields of \<open>routing.IHaveFrame\<close>.\<close>

record wireIHave =
  wi_uuid :: string
  wi_nodeId :: node_id
  wi_impedance :: f64
  wi_originNode :: node_id

record hostEntry =
  he_addresses :: "string list"
  he_transport :: string
  he_proxyUrl :: string

record bootstrapFrame =
  bf_hosts :: "string \<rightharpoonup> hostEntry"
  bf_sequence :: "32 word"
  bf_total :: "32 word"
  bf_protocolVersion :: "32 word"
  bf_applicationVersion :: string

record relayOpenFrame =
  ro_targetNodeId :: node_id
  ro_circuitId :: string

record relayAcceptFrame =
  ra_circuitId :: string
  ra_success :: bool
  ra_error :: string

datatype controlFrame =
    FGossip gossipFrame | FWhoHas whoHasFrame | FIHave wireIHave | FBootstrap bootstrapFrame
  | FCredRequest credentialRequest | FCredGrant octets | FRelayOpen relayOpenFrame | FRelayAccept relayAcceptFrame
  | FUnknown

section \<open>State\<close>

text \<open>Which callbacks are set, and the calls of them.\<close>

record nodeEvents =
  ev_onPeerJoined :: bool
  ev_onPeerLost :: bool
  ev_onIsolated :: bool
  ev_onReconnected :: bool
  ev_onOrphaned :: bool

datatype node_event = PeerJoined node_id | PeerLost node_id | Isolated | Reconnected node_id | Orphaned

record reconnectPolicy =
  rp_enabled :: bool
  rp_initialDelay :: duration
  rp_maxDelay :: duration
  rp_maxAttempts :: int
  rp_timeout :: duration

definition DefaultReconnectPolicy :: reconnectPolicy where
  "DefaultReconnectPolicy = \<lparr>rp_enabled = True, rp_initialDelay = 1000000000, rp_maxDelay = 30000000000,
     rp_maxAttempts = 0, rp_timeout = 300000000000\<rparr>"

text \<open>
  The channels of the credential requests and of the relay dials have room for one element; a channel is
  the list of what is in it. \<open>n_reconnRunning\<close> is the flag of the reconnect loop.
\<close>

record 'conn node =
  n_sonar :: sonar
  n_gradient :: gradientTable
  n_resolver :: resolver
  n_capIndex :: capIndex
  n_peers :: "controlFrame peerManager"
  n_vault :: "vault option"
  n_credResolvers :: "octets \<rightharpoonup> (octets \<times> octets) list"
  n_pendingCircuits :: "string \<rightharpoonup> 'conn"
  n_relayWaiters :: "string \<rightharpoonup> relayAcceptFrame list"
  n_gossipInterval :: duration
  n_capabilityStaleTTL :: duration
  n_maxSonarHops :: "32 word"
  n_protocolVersion :: "16 word"
  n_applicationVersion :: string
  n_events :: nodeEvents
  n_reconnect :: reconnectPolicy
  n_reconnRunning :: bool
  n_fired :: "node_event list"

abbreviation n_manifest :: "'conn node \<Rightarrow> manifest" where
  "n_manifest n \<equiv> sn_manifest (n_sonar n)"

abbreviation n_id :: "'conn node \<Rightarrow> node_id" where
  "n_id n \<equiv> m_nodeID (n_manifest n)"

record nodeConfig =
  cfg_nodeID :: node_id
  cfg_protocolVersion :: "16 word"
  cfg_applicationVersion :: string
  cfg_knownHosts :: "string \<rightharpoonup> string list"
  cfg_events :: nodeEvents
  cfg_reconnect :: "reconnectPolicy option"
  cfg_gossipInterval :: duration
  cfg_vault :: "vault option"
  cfg_capabilityStaleTTL :: duration
  cfg_limits :: ingestLimits
  cfg_maxSonarHops :: "32 word"
  cfg_sonarSeenTTL :: duration

text \<open>\<open>None\<close> is the error of a missing identifier; the policy \<open>None\<close> is the zero value.\<close>

definition NewNode :: "time \<Rightarrow> string list \<Rightarrow> nodeConfig \<Rightarrow> 'conn node option" where
  "NewNode now walk cfg =
     (if cfg_nodeID cfg = [] then None
      else let gossipInterval = (if cfg_gossipInterval cfg = 0 then 3000000000 else cfg_gossipInterval cfg);
               staleTTL = (if cfg_capabilityStaleTTL cfg = 0 then 3 * gossipInterval else cfg_capabilityStaleTTL cfg);
               sonarOpts = (if cfg_sonarSeenTTL cfg > 0 then [WithSeenTTL (cfg_sonarSeenTTL cfg)] else [])
           in Some \<lparr>n_sonar = NewSonar (NewManifest (cfg_nodeID cfg)) sonarOpts,
                    n_gradient = NewGradientTable (cfg_nodeID cfg),
                    n_resolver = SeedKnownHosts now walk NewResolver (cfg_knownHosts cfg),
                    n_capIndex = SetLimits NewCapabilityIndex (cfg_limits cfg),
                    n_peers = newPeerManager, n_vault = cfg_vault cfg, n_credResolvers = Map.empty,
                    n_pendingCircuits = Map.empty, n_relayWaiters = Map.empty,
                    n_gossipInterval = gossipInterval, n_capabilityStaleTTL = staleTTL,
                    n_maxSonarHops = cfg_maxSonarHops cfg, n_protocolVersion = cfg_protocolVersion cfg,
                    n_applicationVersion = cfg_applicationVersion cfg, n_events = cfg_events cfg,
                    n_reconnect = (case cfg_reconnect cfg of None \<Rightarrow> DefaultReconnectPolicy | Some p \<Rightarrow> p),
                    n_reconnRunning = False, n_fired = []\<rparr>)"

text \<open>\<open>ceil(log2(max(peerCount, 32))) + 4\<close>, exact for every number of peers that a \<open>float64\<close> represents.\<close>

definition defaultSonarHops :: "nat \<Rightarrow> 32 word" where
  "defaultSonarHops peerCount =
     (let base = (if peerCount < 32 then 32 else peerCount) in of_nat (ceillog2 base) + 4)"

definition MaxSonarHops :: "'conn node \<Rightarrow> 32 word" where
  "MaxSonarHops n =
     (if n_maxSonarHops n \<noteq> 0 then n_maxSonarHops n else defaultSonarHops (nat (pm_Count (n_peers n))))"

definition n_RegisterCapability :: "'conn node \<Rightarrow> string \<Rightarrow> 'conn node" where
  "n_RegisterCapability n capability =
     n\<lparr>n_sonar := (n_sonar n)\<lparr>sn_manifest := RegisterCapability (n_manifest n) capability\<rparr>\<rparr>"

record nodeSummary =
  nsu_nodeID :: node_id
  nsu_impedance :: f64
  nsu_nextHop :: node_id
  nsu_capabilities :: "string list"
  nsu_isDirect :: bool

record topologySnapshot =
  ts_nodeID :: node_id
  ts_directPeers :: int
  ts_knownNodes :: int
  ts_resolverEntries :: int
  ts_nodeDetails :: "nodeSummary list"

definition MeshTopology :: "time \<Rightarrow> node_id list \<Rightarrow> string list \<Rightarrow> 'conn node \<Rightarrow> topologySnapshot" where
  "MeshTopology now routeWalk hostWalk n =
     (let routes = AllRoutes (n_gradient n); capSnap = ci_Snapshot (n_capIndex n);
          directSet = (\<lambda>c. peer_nodeID (pm_conns (n_peers n) ! c)) ` ran (pm_peers (n_peers n))
      in \<lparr>ts_nodeID = n_id n, ts_directPeers = pm_Count (n_peers n), ts_knownNodes = int (card (dom routes)),
          ts_resolverEntries = int (length (AllEntries now hostWalk (n_resolver n))),
          ts_nodeDetails =
            map (\<lambda>id. \<lparr>nsu_nodeID = id, nsu_impedance = pc_totalCost (the (routes id)), nsu_nextHop = pc_nextHop (the (routes id)),
                       nsu_capabilities = (case capSnap id of None \<Rightarrow> [] | Some cs \<Rightarrow> cs), nsu_isDirect = id \<in> directSet\<rparr>)
              routeWalk\<rparr>)"

section \<open>Peers join and die\<close>

definition fire :: "(nodeEvents \<Rightarrow> bool) \<Rightarrow> node_event \<Rightarrow> 'conn node \<Rightarrow> 'conn node" where
  "fire isSet e n = (if isSet (n_events n) then n\<lparr>n_fired := n_fired n @ [e]\<rparr> else n)"

text \<open>
  What \<open>AddPeer\<close> and \<open>AddPeerDual\<close> do once the handshake has named the peer; the connection is returned.
  The goroutines they start are steps of their own.
\<close>

definition add_peer :: "time \<Rightarrow> 'conn node \<Rightarrow> node_id \<Rightarrow> writer \<Rightarrow> octets \<Rightarrow> nat \<times> 'conn node" where
  "add_peer now n peerID control peerPubKey =
     (let (c, pm) = pm_Add (n_peers n) peerID (newPeerConnWithWriter peerID control peerPubKey);
          n1 = n\<lparr>n_peers := pm\<rparr>;
          n2 = n1\<lparr>n_gradient := AddDirectNeighbor now (n_gradient n1) peerID (Num 1)\<rparr>
      in (c, fire ev_onPeerJoined (PeerJoined peerID) n2))"

text \<open>
  The identities of the two connections of \<open>AddPeerDual\<close>: an empty name in the certificate is replaced by the
  remote address, and names that differ are refused.
\<close>

definition dual_identity :: "string \<Rightarrow> string \<Rightarrow> string \<Rightarrow> string \<Rightarrow> node_id option" where
  "dual_identity controlCert controlAddr dataCert dataAddr =
     (let controlPeerID = (if controlCert = [] then controlAddr else controlCert);
          dataPeerID = (if dataCert = [] then dataAddr else dataCert)
      in if controlPeerID \<noteq> dataPeerID then None else Some controlPeerID)"

text \<open>\<open>deathOnce\<close> makes this run at most once for a connection.\<close>

definition handlePeerDeath :: "(controlFrame \<Rightarrow> octets option) \<Rightarrow> 'conn node \<Rightarrow> nat \<Rightarrow> 'conn node" where
  "handlePeerDeath marshal n c =
     (let id = peer_nodeID (pm_conns (n_peers n) ! c);
          pm1 = pm_update c closeDead (n_peers n);
          pm2 = pm_Remove pm1 id;
          remaining = pm_Count pm2;
          n3 = n\<lparr>n_peers := pm2, n_gradient := RemoveNeighbor (n_gradient n) id\<rparr>;
          pm4 = pm_update c (\<lambda>pc. pc\<lparr>peer_sessionClosed := True\<rparr>) (n_peers n3);
          n5 = n3\<lparr>n_peers := pm_update c (stopWriter marshal) pm4\<rparr>;
          n6 = fire ev_onPeerLost (PeerLost id) n5
      in if remaining = 0
         then let n7 = fire ev_onIsolated Isolated n6
              in (if rp_enabled (n_reconnect n7) then n7\<lparr>n_reconnRunning := True\<rparr> else n7)
         else n6)"

definition peer_died :: "(controlFrame \<Rightarrow> octets option) \<Rightarrow> 'conn node \<Rightarrow> nat \<Rightarrow> 'conn node" where
  "peer_died marshal n c =
     (if peer_deathFired (pm_conns (n_peers n) ! c) then n
      else handlePeerDeath marshal (n\<lparr>n_peers := pm_update c (\<lambda>pc. pc\<lparr>peer_deathFired := True\<rparr>) (n_peers n)\<rparr>) c)"

section \<open>Calls to other nodes\<close>

text \<open>What \<open>session.Open\<close> returns on a connection.\<close>

datatype 'conn open_result = Opened 'conn | SessionDead | OpenError

datatype dial_error =
    ContextDone | OpenStreamFailed | NoRoute | NextHopNotConnected node_id
  | PeerDeadContextDone | PeerDeadNoRoute | PeerDeadNextHop node_id | PeerDeadReroute node_id

text \<open>A stream was opened, or the call goes through a relay circuit over the given connection.\<close>

datatype 'conn dial_plan = DirectStream 'conn | RelayOver nat

definition grpcDialerFallback :: "bool \<Rightarrow> (nat \<Rightarrow> 'conn open_result) \<Rightarrow> 'conn node \<Rightarrow> node_id \<Rightarrow> dial_error + 'conn dial_plan" where
  "grpcDialerFallback ctxDone opens n target =
     (if ctxDone then Inl PeerDeadContextDone
      else case BestRoute (n_gradient n) target of
        None \<Rightarrow> Inl PeerDeadNoRoute
      | Some route \<Rightarrow>
          (case pm_Get (n_peers n) (pc_nextHop route) of
             None \<Rightarrow> Inl (PeerDeadNextHop (pc_nextHop route))
           | Some c \<Rightarrow>
               if pc_nextHop route \<noteq> target then Inr (RelayOver c)
               else (case opens c of
                       Opened s \<Rightarrow> Inr (DirectStream s)
                     | _ \<Rightarrow> Inl (PeerDeadReroute (pc_nextHop route)))))"

definition GrpcDialer :: "bool \<Rightarrow> (nat \<Rightarrow> 'conn open_result) \<Rightarrow> 'conn node \<Rightarrow> node_id \<Rightarrow> dial_error + 'conn dial_plan" where
  "GrpcDialer ctxDone opens n target =
     (if ctxDone then Inl ContextDone
      else case pm_Get (n_peers n) target of
        Some c \<Rightarrow>
          (case opens c of
             Opened s \<Rightarrow> Inr (DirectStream s)
           | OpenError \<Rightarrow> Inl OpenStreamFailed
           | SessionDead \<Rightarrow> grpcDialerFallback ctxDone opens n target)
      | None \<Rightarrow>
          (case BestRoute (n_gradient n) target of
             None \<Rightarrow> Inl NoRoute
           | Some route \<Rightarrow>
               (case pm_Get (n_peers n) (pc_nextHop route) of
                  None \<Rightarrow> Inl (NextHopNotConnected (pc_nextHop route))
                | Some c \<Rightarrow> Inr (RelayOver c))))"

section \<open>Relay circuits\<close>

text \<open>
  \<open>dialRelayCircuit\<close> up to its wait, with the fresh circuit identifier: whether the request was queued. The wait ends
  with the answer, or the context ends it; both delete the waiter.
\<close>

definition relay_start :: "'conn node \<Rightarrow> nat \<Rightarrow> string \<Rightarrow> node_id \<Rightarrow> bool \<times> 'conn node" where
  "relay_start n c circuitID target =
     (let n1 = n\<lparr>n_relayWaiters := (n_relayWaiters n)(circuitID \<mapsto> [])\<rparr>;
          (ok, pm) = pm_send c (FRelayOpen \<lparr>ro_targetNodeId = target, ro_circuitId = circuitID\<rparr>) (n_peers n1);
          n2 = n1\<lparr>n_peers := pm\<rparr>
      in if \<not> ok then (False, n2\<lparr>n_relayWaiters := (n_relayWaiters n2)(circuitID := None)\<rparr>) else (True, n2))"

datatype relay_result = RelayTimeout | RelayRejected string | RelayReady

definition relay_finish :: "bool \<Rightarrow> 'conn node \<Rightarrow> string \<Rightarrow> (relay_result \<times> 'conn node) option" where
  "relay_finish ctxDone n circuitID =
     (let n1 = n\<lparr>n_relayWaiters := (n_relayWaiters n)(circuitID := None)\<rparr>
      in case n_relayWaiters n circuitID of
           Some (accept # _) \<Rightarrow> Some (if \<not> ra_success accept then RelayRejected (ra_error accept) else RelayReady, n1)
         | _ \<Rightarrow> if ctxDone then Some (RelayTimeout, n1) else None)"

text \<open>The answer to a request for a relay, when dialling its target returned \<open>dialled\<close>.\<close>

definition handleRelayOpenFrame :: "'conn node \<Rightarrow> nat \<Rightarrow> relayOpenFrame \<Rightarrow> string + 'conn \<Rightarrow> 'conn node" where
  "handleRelayOpenFrame n c req dialled =
     (case dialled of
        Inl err \<Rightarrow> n\<lparr>n_peers := snd (pm_send c (FRelayAccept \<lparr>ra_circuitId = ro_circuitId req, ra_success = False, ra_error = err\<rparr>)
                      (n_peers n))\<rparr>
      | Inr targetConn \<Rightarrow>
          (let n1 = n\<lparr>n_pendingCircuits := (n_pendingCircuits n)(ro_circuitId req \<mapsto> targetConn)\<rparr>
           in n1\<lparr>n_peers := snd (pm_send c (FRelayAccept \<lparr>ra_circuitId = ro_circuitId req, ra_success = True, ra_error = []\<rparr>)
                      (n_peers n1))\<rparr>))"

text \<open>A send on a channel with room for one element that does not wait.\<close>

definition offer_one :: "'a list \<Rightarrow> 'a \<Rightarrow> 'a list" where
  "offer_one ch x = (if length ch < 1 then ch @ [x] else ch)"

definition handleRelayAcceptFrame :: "'conn node \<Rightarrow> relayAcceptFrame \<Rightarrow> 'conn node" where
  "handleRelayAcceptFrame n req =
     (case n_relayWaiters n (ra_circuitId req) of
        None \<Rightarrow> n
      | Some waiter \<Rightarrow> n\<lparr>n_relayWaiters := (n_relayWaiters n)(ra_circuitId req \<mapsto> offer_one waiter req)\<rparr>)"

text \<open>
  An accepted data stream: its first byte tells a relay circuit, whose identifier of 36 bytes follows, from a
  call. The bytes are those that arrive before the deadline.
\<close>

definition MagicRelay :: "8 word" where "MagicRelay = 255"
definition UUIDLength :: nat where "UUIDLength = 36"

datatype 'conn stream_outcome = StreamClosed | Stitched 'conn | Delivered octets

definition accept_stream :: "'conn node \<Rightarrow> (octets \<Rightarrow> string) \<Rightarrow> octets \<Rightarrow> 'conn stream_outcome \<times> 'conn node" where
  "accept_stream n str incoming =
     (case incoming of
        [] \<Rightarrow> (StreamClosed, n)
      | magic # bs \<Rightarrow>
          if magic = MagicRelay then
            (case read_full UUIDLength bs of
               (None, _) \<Rightarrow> (StreamClosed, n)
             | (Some circuitIDBytes, _) \<Rightarrow>
                 (case n_pendingCircuits n (str circuitIDBytes) of
                    None \<Rightarrow> (StreamClosed, n)
                  | Some targetConn \<Rightarrow>
                      (Stitched targetConn,
                       n\<lparr>n_pendingCircuits := (n_pendingCircuits n)(str circuitIDBytes := None)\<rparr>)))
          else (Delivered (magic # bs), n))"

section \<open>Example nodes\<close>

definition sample_config :: "node_id \<Rightarrow> nodeConfig" where
  "sample_config nid =
     \<lparr>cfg_nodeID = nid, cfg_protocolVersion = 1, cfg_applicationVersion = ''v1'', cfg_knownHosts = Map.empty,
      cfg_events = \<lparr>ev_onPeerJoined = True, ev_onPeerLost = True, ev_onIsolated = True, ev_onReconnected = True, ev_onOrphaned = True\<rparr>,
      cfg_reconnect = None, cfg_gossipInterval = 0, cfg_vault = None, cfg_capabilityStaleTTL = 0,
      cfg_limits = \<lparr>il_maxCapabilityLength = 0, il_maxCapabilitiesPerNode = 0\<rparr>, cfg_maxSonarHops = 0, cfg_sonarSeenTTL = 0\<rparr>"

definition sample_node :: "node_id \<Rightarrow> nat node" where
  "sample_node nid = the (NewNode 0 [] (sample_config nid))"

end
