(* ===== verification/Bootstrap.thy ===== *)
theory Bootstrap
  imports Node
begin

text \<open>
  Model of \<open>pkg/mesh/api/bootstrap.go\<close>: when two nodes connect, each sends the other the hosts it knows, in frames of at most
  500 entries, and the receiver merges them into its own cache after comparing the protocol versions. The sender
  goes on trying with growing delays while the queue of the connection is full, until the peer dies or the node stops.
\<close>

section \<open>Frames\<close>

definition bootstrapChunkSize :: nat where "bootstrapChunkSize = 500"

definition host_entry :: "resolverEntry \<Rightarrow> hostEntry" where
  "host_entry entry =
     \<lparr>he_addresses = re_addresses entry, he_transport = re_transport entry, he_proxyUrl = re_proxyURL entry\<rparr>"

definition hosts_map :: "resolverEntry list \<Rightarrow> string \<rightharpoonup> hostEntry" where
  "hosts_map entries = foldl (\<lambda>hosts entry. hosts(re_hostname entry \<mapsto> host_entry entry)) Map.empty entries"

definition bootstrap_frame :: "'conn node \<Rightarrow> (string \<rightharpoonup> hostEntry) \<Rightarrow> nat \<Rightarrow> nat \<Rightarrow> bootstrapFrame" where
  "bootstrap_frame n hosts sequence tot =
     \<lparr>bf_hosts = hosts, bf_sequence = of_nat sequence, bf_total = of_nat tot,
      bf_protocolVersion = ucast (n_protocolVersion n), bf_applicationVersion = n_applicationVersion n\<rparr>"

text \<open>The single frame of earlier versions.\<close>

definition buildBootstrapFrame :: "time \<Rightarrow> string list \<Rightarrow> 'conn node \<Rightarrow> bootstrapFrame" where
  "buildBootstrapFrame now walk n = bootstrap_frame n (hosts_map (AllEntries now walk (n_resolver n))) 0 1"

function chunk_loop :: "'conn node \<Rightarrow> nat \<Rightarrow> bootstrapFrame list \<Rightarrow> resolverEntry list \<Rightarrow> bootstrapFrame list" where
  "chunk_loop n totalChunks frames entries =
     (if entries = [] then frames
      else chunk_loop n totalChunks
             (frames @ [bootstrap_frame n (hosts_map (take bootstrapChunkSize entries)) (length frames) totalChunks])
             (drop bootstrapChunkSize entries))"
  by pat_completeness auto
termination
  by (relation "measure (\<lambda>(n, t, f, es). length es)") (auto simp: bootstrapChunkSize_def)

declare chunk_loop.simps [simp del]

definition buildBootstrapFrames :: "time \<Rightarrow> string list \<Rightarrow> 'conn node \<Rightarrow> bootstrapFrame list" where
  "buildBootstrapFrames now walk n =
     (let entries = AllEntries now walk (n_resolver n) in
      if entries = [] then [bootstrap_frame n Map.empty 0 1]
      else chunk_loop n ((length entries + bootstrapChunkSize - 1) div bootstrapChunkSize) [] entries)"

section \<open>The receiver\<close>

definition handleBootstrapFrame :: "string list \<Rightarrow> 'conn node \<Rightarrow> nat \<Rightarrow> bootstrapFrame \<Rightarrow> 'conn node" where
  "handleBootstrapFrame walk n c bf =
     (if bf_protocolVersion bf \<noteq> ucast (n_protocolVersion n)
      then n\<lparr>n_peers := pm_update c closeDead (n_peers n)\<rparr>
      else if dom (bf_hosts bf) \<noteq> {} then
        (let entries = map (\<lambda>hostname. let he = the (bf_hosts bf hostname) in
               \<lparr>re_hostname = hostname, re_addresses = he_addresses he, re_transport = he_transport he,
                re_proxyURL = he_proxyUrl he, re_expiresAt = None\<rparr>) walk
         in n\<lparr>n_resolver := Merge (n_resolver n) entries\<rparr>)
      else n)"

section \<open>The sender\<close>

definition bootstrapRetryInitial :: duration where "bootstrapRetryInitial = 10000000"
definition bootstrapRetryMax :: duration where "bootstrapRetryMax = 500000000"

text \<open>
  \<open>sendBootstrapReliable\<close> as a state machine: it is about to send the first of the remaining frames, or waits for its timer,
  or it returned, having sent everything or not.
\<close>

datatype 'f boot_state = Sending "'f list" duration | Waiting "'f list" duration | Delivered_all | Aborted

definition sendBootstrapReliable :: "'f list \<Rightarrow> 'f boot_state" where
  "sendBootstrapReliable frames = (if frames = [] then Delivered_all else Sending frames bootstrapRetryInitial)"

definition next_backoff :: "duration \<Rightarrow> duration" where
  "next_backoff backoff = (let b = backoff * 2 in if b > bootstrapRetryMax then bootstrapRetryMax else b)"

fun boot_send :: "'f peerConn \<Rightarrow> 'f boot_state \<Rightarrow> 'f boot_state \<times> 'f peerConn" where
  "boot_send pc (Sending (frame # frames) backoff) =
     (case sendControl pc frame of
        (True, pc') \<Rightarrow> (if frames = [] then Delivered_all else Sending frames bootstrapRetryInitial, pc')
      | (False, pc') \<Rightarrow> (Waiting (frame # frames) backoff, pc'))"
| "boot_send pc st = (st, pc)"

fun boot_timer :: "'f boot_state \<Rightarrow> 'f boot_state" where
  "boot_timer (Waiting frames backoff) = Sending frames (next_backoff backoff)"
| "boot_timer st = st"

fun boot_quit :: "bool \<Rightarrow> 'f peerConn \<Rightarrow> 'f boot_state \<Rightarrow> 'f boot_state" where
  "boot_quit ctxDone pc (Waiting frames backoff) =
     (if ctxDone \<or> peer_dead pc then Aborted else Waiting frames backoff)"
| "boot_quit ctxDone pc st = st"

section \<open>The cache arrives\<close>

lemma merge_entry_local: "r h = r' h \<Longrightarrow> merge_entry r e h = merge_entry r' e h"
  by (cases "h = re_hostname e") (auto simp: merge_entry_def Let_def split: option.splits)

lemma Merge_distinct:
  "distinct (map re_hostname es) \<Longrightarrow>
   Merge r es h = (case map_of (map (\<lambda>e. (re_hostname e, e)) es) h of None \<Rightarrow> r h | Some e \<Rightarrow> merge_entry r e h)"
proof (induction es arbitrary: r)
  case (Cons e es)
  show ?case
  proof (cases "h = re_hostname e")
    case True
    then have "map_of (map (\<lambda>e. (re_hostname e, e)) es) h = None"
      using Cons.prems by (auto simp: map_of_eq_None_iff image_iff)
    then show ?thesis using Cons True by (simp add: Merge_Cons)
  next
    case False
    then have "merge_entry r e h = r h" by (rule merge_entry_other)
    then show ?thesis using Cons False by (auto simp: Merge_Cons intro: merge_entry_local split: option.split)
  qed
qed (simp add: Merge_Nil)

lemma hosts_map_snoc: "hosts_map (es @ [e]) = (hosts_map es)(re_hostname e \<mapsto> host_entry e)"
  by (simp add: hosts_map_def)

lemma dom_hosts_map: "dom (hosts_map es) = re_hostname ` set es"
proof (induction es rule: rev_induct)
  case (snoc e es)
  then show ?case by (simp only: hosts_map_snoc dom_fun_upd) simp
qed (simp add: hosts_map_def)

lemma hosts_map_of:
  "distinct (map re_hostname es) \<Longrightarrow> hosts_map es h = map_option host_entry (map_of (map (\<lambda>e. (re_hostname e, e)) es) h)"
proof (induction es rule: rev_induct)
  case Nil
  then show ?case by (simp add: hosts_map_def)
next
  case (snoc e es)
  have "map_of (map (\<lambda>e. (re_hostname e, e)) es) (re_hostname e) = None"
    using snoc.prems by (auto simp: map_of_eq_None_iff image_iff)
  then show ?case using snoc by (auto simp: hosts_map_snoc map_add_def split: option.split)
qed

text \<open>Receiving the frame of a chunk merges the chunk.\<close>

definition plain :: "resolverEntry \<Rightarrow> resolverEntry" where
  "plain e = e\<lparr>re_expiresAt := None\<rparr>"

lemma merge_entry_plain: "merge_entry r (plain e) = merge_entry r e"
proof -
  have f: "re_hostname (plain e) = re_hostname e" "re_addresses (plain e) = re_addresses e"
    "re_transport (plain e) = re_transport e" "re_proxyURL (plain e) = re_proxyURL e"
    by (simp_all add: plain_def)
  show ?thesis unfolding merge_entry_def f ..
qed

lemma receive_chunk:
  assumes v: "n_protocolVersion m = n_protocolVersion n" and d: "distinct (map re_hostname es)"
    and w: "walk_of walk (hosts_map es)"
  shows "handleBootstrapFrame walk m c (bootstrap_frame n (hosts_map es) i t) = m\<lparr>n_resolver := Merge (n_resolver m) es\<rparr>"
proof -
  let ?M = "map_of (map (\<lambda>e. (re_hostname e, e)) es)"
  have hm: "hosts_map es h = map_option host_entry (?M h)" for h
    by (rule hosts_map_of [OF d])
  let ?E = "\<lambda>hostname. let he = the (hosts_map es hostname) in
       \<lparr>re_hostname = hostname, re_addresses = he_addresses he, re_transport = he_transport he,
        re_proxyURL = he_proxyUrl he, re_expiresAt = None\<rparr>"
  have E: "?E h = plain e" if "?M h = Some e" for h e
    using that map_of_SomeD [OF that] by (auto simp: hm host_entry_def plain_def)
  have ws: "distinct walk" "\<And>h. h \<in> set walk \<longleftrightarrow> ?M h \<noteq> None" using walk_ofD [OF w] by (auto simp: hm)
  have hn: "re_hostname (?E h) = h" for h by (simp add: Let_def)
  have dE: "distinct (map re_hostname (map ?E walk))" using ws(1) by (simp add: comp_def hn)
  have mE: "map_of (map (\<lambda>e. (re_hostname e, e)) (map ?E walk)) h = (if h \<in> set walk then Some (?E h) else None)" for h
    by (simp add: comp_def hn map_of_map_restrict restrict_map_def del: re_hostname_def)
  have "Merge (n_resolver m) (map ?E walk) h = Merge (n_resolver m) es h" for h
  proof (cases "?M h")
    case None
    then have "h \<notin> set walk" using ws(2) by simp
    then show ?thesis unfolding Merge_distinct [OF dE] Merge_distinct [OF d] mE None by simp
  next
    case (Some e)
    then have "h \<in> set walk" using ws(2) by simp
    then show ?thesis unfolding Merge_distinct [OF dE] Merge_distinct [OF d] mE Some
      by (simp add: E [OF Some] merge_entry_plain del: Let_def)
  qed
  then have eq: "Merge (n_resolver m) (map ?E walk) = Merge (n_resolver m) es" by (rule ext)
  show ?thesis
  proof (cases "es = []")
    case True
    then show ?thesis using v by (simp add: handleBootstrapFrame_def bootstrap_frame_def hosts_map_def Merge_Nil)
  next
    case False
    then have "dom (hosts_map es) \<noteq> {}" by (simp add: dom_hosts_map)
    then show ?thesis using v eq by (simp add: handleBootstrapFrame_def bootstrap_frame_def Let_def)
  qed
qed

text \<open>The chunks of the entries, and the frames made of them.\<close>

function chunks_of :: "'a list \<Rightarrow> 'a list list" where
  "chunks_of es = (if es = [] then [] else take bootstrapChunkSize es # chunks_of (drop bootstrapChunkSize es))"
  by pat_completeness auto
termination
  by (relation "measure length") (auto simp: bootstrapChunkSize_def)

declare chunks_of.simps [simp del]

lemma chunks_of_spec: "concat (chunks_of es) = es \<and> (\<forall>ch\<in>set (chunks_of es). ch \<noteq> [] \<and> length ch \<le> bootstrapChunkSize) \<and>
    length (chunks_of es) = (length es + bootstrapChunkSize - 1) div bootstrapChunkSize"
proof (induction es rule: chunks_of.induct)
  case (1 es)
  show ?case
  proof (cases "es = []")
    case True
    then show ?thesis by (simp add: chunks_of.simps bootstrapChunkSize_def)
  next
    case False
    let ?d = "drop bootstrapChunkSize es"
    have u: "chunks_of es = take bootstrapChunkSize es # chunks_of ?d" using False by (subst chunks_of.simps) simp
    have "1 + (length ?d + bootstrapChunkSize - 1) div bootstrapChunkSize = (length es + bootstrapChunkSize - 1) div bootstrapChunkSize"
    proof (cases "length es \<le> bootstrapChunkSize")
      case True
      then have "length es + bootstrapChunkSize - 1 = bootstrapChunkSize + (length es - 1)" "length es - 1 < bootstrapChunkSize"
        using False by (cases es; simp add: bootstrapChunkSize_def)+
      then show ?thesis using True by (simp add: bootstrapChunkSize_def)
    next
      case f: False
      then have "length es + bootstrapChunkSize - 1 = bootstrapChunkSize + (length ?d + bootstrapChunkSize - 1)"
        by (simp add: bootstrapChunkSize_def)
      then show ?thesis by (simp add: bootstrapChunkSize_def)
    qed
    then show ?thesis using 1 [OF False] False by (auto simp: u bootstrapChunkSize_def)
  qed
qed

lemma chunk_loop_frames:
  "chunk_loop n t frames es =
     frames @ map (\<lambda>i. bootstrap_frame n (hosts_map (chunks_of es ! i)) (length frames + i) t) [0..<length (chunks_of es)]"
proof (induction es arbitrary: frames rule: chunks_of.induct)
  case (1 es)
  show ?case
  proof (cases "es = []")
    case True
    then show ?thesis by (simp add: chunks_of.simps chunk_loop.simps)
  next
    case False
    let ?d = "drop bootstrapChunkSize es" and ?f = "bootstrap_frame n (hosts_map (take bootstrapChunkSize es)) (length frames) t"
    have u: "chunks_of es = take bootstrapChunkSize es # chunks_of ?d" using False by (subst chunks_of.simps) simp
    have "chunk_loop n t frames es = chunk_loop n t (frames @ [?f]) ?d" using False by (subst chunk_loop.simps) simp
    also have "\<dots> = (frames @ [?f]) @
        map (\<lambda>i. bootstrap_frame n (hosts_map (chunks_of ?d ! i)) (length (frames @ [?f]) + i) t) [0..<length (chunks_of ?d)]"
      by (rule 1 [OF False])
    also have "\<dots> = frames @ map (\<lambda>i. bootstrap_frame n (hosts_map (chunks_of es ! i)) (length frames + i) t) [0..<Suc (length (chunks_of ?d))]"
      unfolding upt_conv_Cons [OF zero_less_Suc] map_Suc_upt [symmetric] by (simp add: u comp_def)
    finally show ?thesis by (simp add: u)
  qed
qed

text \<open>The receiver of a list of frames; each frame's map is walked in some order.\<close>

fun receive_all :: "(nat \<Rightarrow> string list) \<Rightarrow> 'conn node \<Rightarrow> nat \<Rightarrow> bootstrapFrame list \<Rightarrow> 'conn node" where
  "receive_all walks m c [] = m"
| "receive_all walks m c (bf # bfs) = receive_all (\<lambda>i. walks (Suc i)) (handleBootstrapFrame (walks 0) m c bf) c bfs"

lemma Merge_append: "Merge r (xs @ ys) = Merge (Merge r xs) ys"
  by (simp add: Merge_def)

lemma receive_chunks:
  assumes "n_protocolVersion m = n_protocolVersion n"
    and "\<forall>ch\<in>set chs. distinct (map re_hostname ch)"
    and "\<forall>i<length chs. walk_of (walks i) (hosts_map (chs ! i))"
  shows "receive_all walks m c (map (\<lambda>i. bootstrap_frame n (hosts_map (chs ! i)) (j + i) t) [0..<length chs]) =
    m\<lparr>n_resolver := Merge (n_resolver m) (concat chs)\<rparr>"
  using assms
proof (induction chs arbitrary: m walks j)
  case Nil
  then show ?case by (simp add: Merge_Nil)
next
  case (Cons ch chs)
  let ?m = "m\<lparr>n_resolver := Merge (n_resolver m) ch\<rparr>"
  have w: "walk_of (walks 0) (hosts_map ch)" "\<forall>i<length chs. walk_of (walks (Suc i)) (hosts_map (chs ! i))"
    using Cons.prems(3) by fastforce+
  have h: "handleBootstrapFrame (walks 0) m c (bootstrap_frame n (hosts_map ch) j t) = ?m"
    using receive_chunk [OF Cons.prems(1) _ w(1)] Cons.prems(2) by simp
  have "map (\<lambda>i. bootstrap_frame n (hosts_map ((ch # chs) ! i)) (j + i) t) [0..<length (ch # chs)] =
      bootstrap_frame n (hosts_map ch) j t # map (\<lambda>i. bootstrap_frame n (hosts_map (chs ! i)) (Suc j + i) t) [0..<length chs]"
    unfolding length_Cons upt_conv_Cons [OF zero_less_Suc] map_Suc_upt [symmetric] by (simp add: comp_def)
  then show ?case
    using Cons.IH [of ?m "\<lambda>i. walks (Suc i)" "Suc j"] Cons.prems(1,2) w(2) by (simp add: h Merge_append)
qed

text \<open>
  Property C6. The bootstrap hands the whole host cache over. The frames a node builds hold at most 500 hosts each and are
  numbered from 0 below their stated total; a peer of the same protocol version that receives them, walking their
  maps in whatever order, ends with exactly what merging the sender's unexpired entries gives, host by
  host, and nothing else of it changes.
\<close>

theorem bootstrap_transfers_cache:
  assumes "n_protocolVersion m = n_protocolVersion n" and "walk_of walk (n_resolver n)"
    and "length walk < 2 ^ 32"
    and "\<forall>i<length (buildBootstrapFrames now walk n). walk_of (walks i) (bf_hosts (buildBootstrapFrames now walk n ! i))"
  shows "receive_all walks m c (buildBootstrapFrames now walk n) =
      m\<lparr>n_resolver := Merge (n_resolver m) (AllEntries now walk (n_resolver n))\<rparr> \<and>
    (\<forall>h. Merge (n_resolver m) (AllEntries now walk (n_resolver n)) h =
       (case n_resolver n h of
          None \<Rightarrow> n_resolver m h
        | Some rec \<Rightarrow> if isExpired now rec then n_resolver m h
            else merge_entry (n_resolver m) \<lparr>re_hostname = h, re_addresses = rr_addresses rec, re_transport = rr_transport rec,
                   re_proxyURL = rr_proxyURL rec, re_expiresAt = rr_expiresAt rec\<rparr> h)) \<and>
    (\<forall>i<length (buildBootstrapFrames now walk n). let bf = buildBootstrapFrames now walk n ! i in
       card (dom (bf_hosts bf)) \<le> 500 \<and> unat (bf_sequence bf) = i \<and>
       unat (bf_total bf) = length (buildBootstrapFrames now walk n))"
proof -
  define es where "es = AllEntries now walk (n_resolver n)"
  define bfs where "bfs = buildBootstrapFrames now walk n"
  have dw: "distinct walk" "\<And>h. h \<in> set walk \<longleftrightarrow> n_resolver n h \<noteq> None" using walk_ofD [OF assms(2)] by auto
  have names: "map re_hostname es = filter (\<lambda>h. \<not> isExpired now (the (n_resolver n h))) walk"
    by (simp add: es_def AllEntries_def comp_def Let_def)
  have des: "distinct (map re_hostname es)" using dw(1) by (simp add: names)
  have les: "length es \<le> length walk" by (simp add: es_def AllEntries_def)
  note spec = chunks_of_spec [of es]
  let ?t = "(length es + bootstrapChunkSize - 1) div bootstrapChunkSize"
  have frames: "es \<noteq> [] \<Longrightarrow> bfs = map (\<lambda>i. bootstrap_frame n (hosts_map (chunks_of es ! i)) (0 + i) ?t) [0..<length (chunks_of es)]"
    using chunk_loop_frames [of n ?t "[]" es] by (simp add: bfs_def buildBootstrapFrames_def es_def [symmetric])
  have dch: "\<forall>ch\<in>set (chunks_of es). distinct (map re_hostname ch)"
  proof
    fix ch assume "ch \<in> set (chunks_of es)"
    then obtain a b where "chunks_of es = a @ ch # b" by (auto simp: in_set_conv_decomp)
    then have "es = concat a @ ch @ concat b" using spec by (metis concat.simps(2) concat_append)
    with des show "distinct (map re_hostname ch)" by simp
  qed
  have rec: "receive_all walks m c bfs = m\<lparr>n_resolver := Merge (n_resolver m) es\<rparr>"
  proof (cases "es = []")
    case True
    then show ?thesis using assms(1)
      by (simp add: bfs_def buildBootstrapFrames_def es_def [symmetric] handleBootstrapFrame_def bootstrap_frame_def Merge_Nil)
  next
    case False
    have "\<forall>i<length (chunks_of es). walk_of (walks i) (hosts_map (chunks_of es ! i))"
      using assms(4) unfolding bfs_def [symmetric] by (simp add: frames [OF False] bootstrap_frame_def)
    then show ?thesis using receive_chunks [OF assms(1) dch, of walks c 0 ?t] spec by (simp add: frames [OF False])
  qed
  have "Merge (n_resolver m) es h = (case n_resolver n h of None \<Rightarrow> n_resolver m h
        | Some rec \<Rightarrow> if isExpired now rec then n_resolver m h
            else merge_entry (n_resolver m) \<lparr>re_hostname = h, re_addresses = rr_addresses rec, re_transport = rr_transport rec,
                   re_proxyURL = rr_proxyURL rec, re_expiresAt = rr_expiresAt rec\<rparr> h)" for h
  proof -
    have "map_of (map (\<lambda>e. (re_hostname e, e)) es) h =
        (if h \<in> set (filter (\<lambda>h. \<not> isExpired now (the (n_resolver n h))) walk)
         then Some \<lparr>re_hostname = h, re_addresses = rr_addresses (the (n_resolver n h)), re_transport = rr_transport (the (n_resolver n h)),
                    re_proxyURL = rr_proxyURL (the (n_resolver n h)), re_expiresAt = rr_expiresAt (the (n_resolver n h))\<rparr> else None)"
      unfolding es_def AllEntries_def Let_def
      by (simp add: comp_def map_of_map_restrict restrict_map_def)
    then show ?thesis unfolding Merge_distinct [OF des] by (cases "n_resolver n h") (simp_all add: dw(2))
  qed
  moreover have "let bf = bfs ! i in card (dom (bf_hosts bf)) \<le> 500 \<and> unat (bf_sequence bf) = i \<and> unat (bf_total bf) = length bfs"
    if i: "i < length bfs" for i
  proof (cases "es = []")
    case True
    then show ?thesis using i by (simp add: bfs_def buildBootstrapFrames_def es_def [symmetric] bootstrap_frame_def Let_def)
  next
    case False
    have l: "length bfs = ?t" "length bfs = length (chunks_of es)" using spec by (simp_all add: frames [OF False])
    have "?t \<le> length es" using False by (cases es) (simp_all add: bootstrapChunkSize_def)
    then have small: "length bfs < 2 ^ 32" using les assms(3) l by linarith
    have "chunks_of es ! i \<in> set (chunks_of es)" using i l by simp
    then have "card (re_hostname ` set (chunks_of es ! i)) \<le> 500"
      using spec card_image_le [of "set (chunks_of es ! i)" re_hostname] card_length [of "chunks_of es ! i"]
      by (fastforce simp: bootstrapChunkSize_def)
    moreover have "bfs ! i = bootstrap_frame n (hosts_map (chunks_of es ! i)) i (length bfs)"
      using i l by (simp add: frames [OF False])
    ultimately show ?thesis using i small
      by (simp add: bootstrap_frame_def dom_hosts_map Let_def unsigned_of_nat take_bit_eq_mod)
  qed
  ultimately show ?thesis using rec by (simp add: bfs_def es_def)
qed

theorem bootstrap_transfers_cache_witness:
  "Resolve 5 (n_resolver (receive_all (\<lambda>_. [''h'']) (sample_node ''b'') 0
      (buildBootstrapFrames 0 [''h''] (sample_node ''a''\<lparr>n_resolver := AddEntry 0 NewResolver ''h'' [''x''] 0\<rparr>)))) ''h'' = [''x'']"
proof -
  define n where "n = sample_node ''a''\<lparr>n_resolver := AddEntry 0 NewResolver ''h'' [''x''] 0\<rparr>"
  define m where "m = sample_node ''b''"
  have r: "n_resolver n ''h'' = Some \<lparr>rr_addresses = [''x''], rr_addrSet = Some {''x''}, rr_transport = [], rr_proxyURL = [],
      rr_expiresAt = None\<rparr>" and d: "dom (n_resolver n) = {''h''}"
    by (simp_all add: n_def AddEntry_def AddEntryFull_def NewResolver_def)
  have m: "n_resolver m = Map.empty"
    by (simp add: m_def sample_node_def sample_config_def NewNode_def SeedKnownHosts_def NewResolver_def)
  have a: "AllEntries 0 [''h''] (n_resolver n) = [\<lparr>re_hostname = ''h'', re_addresses = [''x''], re_transport = [],
      re_proxyURL = [], re_expiresAt = None\<rparr>]"
    by (simp add: AllEntries_def r isExpired_def)
  have b: "length (buildBootstrapFrames 0 [''h''] n) = 1" "dom (bf_hosts (buildBootstrapFrames 0 [''h''] n ! 0)) = {''h''}"
    by (simp_all add: buildBootstrapFrames_def a chunk_loop.simps bootstrapChunkSize_def bootstrap_frame_def dom_hosts_map)
  have h: "n_protocolVersion m = n_protocolVersion n"
    by (simp add: m_def n_def sample_node_def sample_config_def NewNode_def Let_def)
  have w: "walk_of [''h''] (n_resolver n)" "length [''h''] < 2 ^ 32"
    "\<forall>i<length (buildBootstrapFrames 0 [''h''] n). walk_of ((\<lambda>_. [''h'']) i) (bf_hosts (buildBootstrapFrames 0 [''h''] n ! i))"
    using b by (simp_all add: walk_of_def d)
  from bootstrap_transfers_cache [OF h w, of 0]
  have "receive_all (\<lambda>_. [''h'']) m 0 (buildBootstrapFrames 0 [''h''] n) =
      m\<lparr>n_resolver := Merge (n_resolver m) (AllEntries 0 [''h''] (n_resolver n))\<rparr>" by blast
  then have "Resolve 5 (n_resolver (receive_all (\<lambda>_. [''h'']) m 0 (buildBootstrapFrames 0 [''h''] n))) ''h'' = [''x'']"
    by (simp add: a m Merge_Cons Merge_Nil merge_entry_def Resolve_def isExpired_def)
  then show ?thesis by (simp only: n_def m_def)
qed

section \<open>The bootstrap is delivered\<close>

text \<open>
  What can happen while \<open>sendBootstrapReliable\<close> runs: its own turns, and everything that happens to the connection. A run
  yields the frames it enqueued.
\<close>

datatype 'f boot_event = BSend | BTimer | BQuit bool | BConn "'f writer_event"

fun boot_step :: "('f \<Rightarrow> octets option) \<Rightarrow> 'f boot_state \<Rightarrow> 'f peerConn \<Rightarrow> 'f boot_event \<Rightarrow> 'f list \<times> 'f boot_state \<times> 'f peerConn" where
  "boot_step marshal st pc BSend =
     (let (st', pc') = boot_send pc st in
      ((case st of Sending (frame # frames) _ \<Rightarrow> if fst (sendControl pc frame) then [frame] else [] | _ \<Rightarrow> []), st', pc'))"
| "boot_step marshal st pc BTimer = ([], boot_timer st, pc)"
| "boot_step marshal st pc (BQuit ctxDone) = ([], boot_quit ctxDone pc st, pc)"
| "boot_step marshal st pc (BConn ev) = ([], st, snd (conn_step marshal pc ev))"

fun boot_run :: "('f \<Rightarrow> octets option) \<Rightarrow> 'f boot_state \<Rightarrow> 'f peerConn \<Rightarrow> 'f boot_event list \<Rightarrow> 'f list \<times> 'f boot_state \<times> 'f peerConn" where
  "boot_run marshal st pc [] = ([], st, pc)"
| "boot_run marshal st pc (ev # evs) =
     (let (a, st1, pc1) = boot_step marshal st pc ev; (b, st2, pc2) = boot_run marshal st1 pc1 evs in (a @ b, st2, pc2))"

lemma boot_run_append:
  "boot_run marshal st pc (xs @ ys) =
     (let (a, st1, pc1) = boot_run marshal st pc xs; (b, st2, pc2) = boot_run marshal st1 pc1 ys in (a @ b, st2, pc2))"
  by (induction xs arbitrary: st pc) (auto simp: Let_def split: prod.splits)

text \<open>The state agrees with the frames still to come, and its delay is within the bounds.\<close>

fun boot_ok :: "'f list \<Rightarrow> 'f boot_state \<Rightarrow> bool" where
  "boot_ok left (Sending fs b) \<longleftrightarrow> left = fs \<and> fs \<noteq> [] \<and> bootstrapRetryInitial \<le> b \<and> b \<le> bootstrapRetryMax"
| "boot_ok left (Waiting fs b) \<longleftrightarrow> left = fs \<and> fs \<noteq> [] \<and> bootstrapRetryInitial \<le> b \<and> b \<le> bootstrapRetryMax"
| "boot_ok left Delivered_all \<longleftrightarrow> left = []"
| "boot_ok left Aborted \<longleftrightarrow> True"

lemma boot_send_step:
  assumes "boot_ok left st" "boot_step marshal st pc ev = (a, st', pc')"
  shows "\<exists>left'. left = a @ left' \<and> boot_ok left' st'"
proof (cases ev)
  case BSend
  show ?thesis
  proof (cases st)
    case (Sending fs b)
    then obtain f fs' where fs: "fs = f # fs'" using assms(1) by (cases fs) auto
    then show ?thesis using assms BSend Sending
      by (cases "fst (sendControl pc f)")
         (auto simp: sendControl_def bootstrapRetryInitial_def bootstrapRetryMax_def split: if_splits)
  qed (use assms BSend in auto)
next
  case BTimer
  then show ?thesis using assms
    by (cases st) (auto simp: next_backoff_def bootstrapRetryInitial_def bootstrapRetryMax_def Let_def)
next
  case (BQuit x)
  then show ?thesis using assms by (cases st) auto
next
  case (BConn x)
  then show ?thesis using assms by auto
qed

lemma boot_run_ok:
  "boot_ok left st \<Longrightarrow> boot_run marshal st pc evs = (a, st', pc') \<Longrightarrow> \<exists>left'. left = a @ left' \<and> boot_ok left' st'"
proof (induction evs arbitrary: left st pc a)
  case (Cons ev evs)
  obtain a1 st1 pc1 where s: "boot_step marshal st pc ev = (a1, st1, pc1)" by (cases "boot_step marshal st pc ev") auto
  obtain a2 st2 pc2 where r: "boot_run marshal st1 pc1 evs = (a2, st2, pc2)" by (cases "boot_run marshal st1 pc1 evs") auto
  obtain left1 where l1: "left = a1 @ left1" "boot_ok left1 st1" using boot_send_step [OF Cons.prems(1) s] by blast
  have e: "a = a1 @ a2" "st' = st2" "pc' = pc2" using Cons.prems(2) s r by simp_all
  obtain left2 where "left1 = a2 @ left2" "boot_ok left2 st2" using Cons.IH [OF l1(2)] r e by blast
  then show ?case using l1 e by auto
qed auto

text \<open>A connection whose writer runs and whose stream takes everything.\<close>

definition live :: "'f peerConn \<Rightarrow> bool" where
  "live pc \<longleftrightarrow> \<not> peer_writerStopped pc \<and> \<not> peer_chClosed pc \<and> \<not> peer_writerDone pc \<and> \<not> peer_controlClosed pc \<and>
     w_room (peer_control pc) = None \<and> length (peer_writeCh pc) \<le> controlWriteQueueSize"

lemma WriteFrame_room: "w_room w = None \<Longrightarrow> marshal f = Some d \<Longrightarrow> fst (WriteFrame marshal w f) = None \<and> w_room (snd (WriteFrame marshal w f)) = None"
  by (auto simp: WriteFrame_def w_write_def)

lemma live_write:
  assumes "\<forall>f. marshal f \<noteq> None" "live pc"
  shows "live (controlWriteStep marshal pc)" and "length (peer_writeCh (controlWriteStep marshal pc)) = length (peer_writeCh pc) - 1"
proof -
  have room: "w_room (peer_control pc) = None" "stream_of pc = peer_control pc" using assms(2) by (auto simp: live_def stream_of_def)
  have m: "fst (write_msg marshal (peer_control pc) msg) = None \<and> w_room (snd (write_msg marshal (peer_control pc) msg)) = None" for msg
  proof (cases "cm_raw msg")
    case (Some d)
    then show ?thesis using WriteFrame_room [OF room(1), of Some d d] by (simp add: write_msg_def WriteRawFrame_eq)
  next
    case raw: None
    show ?thesis
    proof (cases "cm_frame msg")
      case None
      then show ?thesis using raw room(1) by (simp add: write_msg_def)
    next
      case (Some f)
      obtain d where "marshal f = Some d" using assms(1) by blast
      then show ?thesis using raw Some WriteFrame_room [OF room(1), of marshal f d] by (simp add: write_msg_def)
    qed
  qed
  have "live (controlWriteStep marshal pc) \<and> length (peer_writeCh (controlWriteStep marshal pc)) = length (peer_writeCh pc) - 1"
  proof (cases "peer_writeCh pc")
    case Nil
    then show ?thesis using assms(2) by (auto simp: live_def controlWriteStep_def)
  next
    case (Cons msg queue)
    obtain w where w: "write_msg marshal (peer_control pc) msg = (None, w)" "w_room w = None"
      using m [of msg] by (cases "write_msg marshal (peer_control pc) msg") auto
    then show ?thesis using assms(2) Cons room(2) by (simp add: live_def controlWriteStep_def)
  qed
  then show "live (controlWriteStep marshal pc)" "length (peer_writeCh (controlWriteStep marshal pc)) = length (peer_writeCh pc) - 1"
    by blast+
qed

lemma live_step:
  assumes "\<forall>f. marshal f \<noteq> None" "live pc" "ev \<noteq> StopWriter"
  shows "live (snd (conn_step marshal pc ev))"
  using assms live_write(1) [OF assms(1,2)] by (cases ev) (auto simp: sendControl_def sendControlRaw_def live_def)

text \<open>
  One round: whatever other goroutines send, then a turn of the writer, the timer if it is waited for, and a turn of
  the sender.
\<close>

definition boot_round :: "'f writer_event list \<Rightarrow> 'f boot_event list" where
  "boot_round others = map BConn others @ [BConn WriterTurn, BTimer, BSend]"

lemma others_live:
  assumes "\<forall>f. marshal f \<noteq> None" "live pc" "StopWriter \<notin> set others"
  shows "\<exists>pc'. boot_run marshal st pc (map BConn others) = ([], st, pc') \<and> live pc'"
  using assms(2,3)
proof (induction others arbitrary: pc)
  case (Cons ev evs)
  then show ?case using Cons.IH [of "snd (conn_step marshal pc ev)"] live_step [OF assms(1) Cons.prems(1), of ev] by fastforce
qed simp

lemma round_sends:
  assumes total: "\<forall>f. marshal f \<noteq> None" and l: "live pc" and o: "StopWriter \<notin> set others"
    and st: "st = Sending (f # fs) b \<or> st = Waiting (f # fs) b"
  shows "\<exists>pc'. boot_run marshal st pc (boot_round others) =
      ([f], if fs = [] then Delivered_all else Sending fs bootstrapRetryInitial, pc') \<and> live pc'"
proof -
  obtain pc1 where p1: "boot_run marshal st pc (map BConn others) = ([], st, pc1)" "live pc1"
    using others_live [OF total l o] by blast
  define pc2 where "pc2 = controlWriteStep marshal pc1"
  have l2: "live pc2" "length (peer_writeCh pc2) < controlWriteQueueSize" "\<not> peer_writerStopped pc2"
    using live_write [OF total p1(2)] p1(2) by (auto simp: pc2_def live_def controlWriteQueueSize_def)
  then have ok: "sendControl pc2 g = (True, pc2\<lparr>peer_writeCh := peer_writeCh pc2 @ [\<lparr>cm_frame = Some g, cm_raw = None\<rparr>]\<rparr>)" for g
    by (simp add: sendControl_def)
  have "live (pc2\<lparr>peer_writeCh := peer_writeCh pc2 @ [\<lparr>cm_frame = Some f, cm_raw = None\<rparr>]\<rparr>)" using l2 by (simp add: live_def)
  moreover obtain b' where t: "boot_timer st = Sending (f # fs) b'" using st by fastforce
  ultimately show ?thesis unfolding boot_round_def boot_run_append p1(1)
    by (simp add: pc2_def [symmetric] ok)
qed

text \<open>
  Property C11. The bootstrap arrives, whole and in order. Whatever happens to the connection, the frames enqueued so far are the first of the
  list, all of them when the sender is done, and while it retries its delay stays between 10 and 500
  milliseconds. And it makes progress: while the connection lives, every round in which the writer has a turn, however many
  frames others send in between, delivers a frame, so it ends after as many rounds as there are frames.
\<close>

theorem bootstrap_delivered:
  assumes total: "\<forall>f. marshal f \<noteq> None" and l: "live pc"
    and rounds: "length rounds = length frames" "\<forall>others\<in>set rounds. StopWriter \<notin> set others"
  shows "(\<forall>pc evs enq st pc'. boot_run marshal (sendBootstrapReliable frames) pc evs = (enq, st, pc') \<longrightarrow>
        prefix enq frames \<and> (st = Delivered_all \<longrightarrow> enq = frames) \<and>
        (\<forall>fs b. st = Waiting fs b \<longrightarrow> 10000000 \<le> b \<and> b \<le> 500000000)) \<and>
    (\<exists>pc'. boot_run marshal (sendBootstrapReliable frames) pc (concat (map boot_round rounds)) = (frames, Delivered_all, pc'))"
proof (intro conjI allI impI)
  fix pc evs enq st pc' assume r: "boot_run marshal (sendBootstrapReliable frames) pc evs = (enq, st, pc')"
  have "boot_ok frames (sendBootstrapReliable frames)"
    by (simp add: sendBootstrapReliable_def bootstrapRetryInitial_def bootstrapRetryMax_def)
  from boot_run_ok [OF this r] obtain left where left: "frames = enq @ left" "boot_ok left st" by blast
  show "prefix enq frames" using left(1) by simp
  show "enq = frames" if "st = Delivered_all" using left that by simp
  show "10000000 \<le> b" "b \<le> 500000000" if "st = Waiting fs b" for fs b
    using left(2) that by (simp_all add: bootstrapRetryInitial_def bootstrapRetryMax_def)
next
  have "\<exists>pc'. boot_run marshal (if frames = [] then Delivered_all else Sending frames bootstrapRetryInitial) pc
      (concat (map boot_round rounds)) = (frames, Delivered_all, pc')"
    using l rounds
  proof (induction frames arbitrary: pc rounds)
    case (Cons f fs)
    then obtain oth os where ro: "rounds = oth # os" by (cases rounds) auto
    obtain pc1 where p1: "boot_run marshal (Sending (f # fs) bootstrapRetryInitial) pc (boot_round oth) =
        ([f], if fs = [] then Delivered_all else Sending fs bootstrapRetryInitial, pc1)" "live pc1"
      using round_sends [OF total Cons.prems(1), of oth "Sending (f # fs) bootstrapRetryInitial"] Cons.prems(3) ro by auto
    obtain pc2 where "boot_run marshal (if fs = [] then Delivered_all else Sending fs bootstrapRetryInitial) pc1
        (concat (map boot_round os)) = (fs, Delivered_all, pc2)"
      using Cons.IH [OF p1(2), of os] Cons.prems(2,3) ro by auto
    then show ?case using p1(1) ro by (simp add: boot_run_append)
  qed simp
  then show "\<exists>pc'. boot_run marshal (sendBootstrapReliable frames) pc (concat (map boot_round rounds)) = (frames, Delivered_all, pc')"
    by (simp add: sendBootstrapReliable_def)
qed

theorem bootstrap_delivered_witness:
  "\<exists>pc'. boot_run Some (sendBootstrapReliable [[1::8 word], [2]]) (newPeerConnWithWriter ''b'' \<lparr>w_out = [], w_room = None\<rparr> [])
     (boot_round [SendRaw [9]] @ boot_round []) = ([[1], [2]], Delivered_all, pc')"
proof -
  have t: "\<forall>f::octets. Some f \<noteq> None" by simp
  have l: "live (newPeerConnWithWriter ''b'' \<lparr>w_out = [], w_room = None\<rparr> [] :: octets peerConn)"
    by (simp add: live_def newPeerConnWithWriter_def controlWriteQueueSize_def)
  have r: "length [[SendRaw [9 :: 8 word]], []] = length [[1::8 word], [2]]"
    "\<forall>others\<in>set [[SendRaw [9 :: 8 word]], []]. StopWriter \<notin> set (others :: octets writer_event list)" by simp_all
  show ?thesis using bootstrap_delivered [OF t l r, THEN conjunct2] by simp
qed

end
