(* ===== verification/Control.thy ===== *)
theory Control
  imports Bootstrap
begin

text \<open>
  Model of \<open>pkg/mesh/api/control.go\<close> and \<open>credential.go\<close>: what a node does with each frame of its control streams, the
  queries it starts, and the gossip it sends. The loop of a connection reads a frame and calls the handler of its
  type; a read that fails is the death of the peer. Everything a handler reads from outside (the clock, the orders of map
  walks, the random nonce, the result of a dial) is in the record \<open>ctl_env\<close>.
\<close>

section \<open>Gossip\<close>

record 'conn ctl_env =
  e_now :: time
  e_now2 :: time
  e_clock :: "nat \<Rightarrow> time"
  e_capClock :: "nat \<Rightarrow> time"
  e_peerWalk :: "node_id list"
  e_routeWalk :: "node_id list"
  e_capWalk :: "node_id list"
  e_hostWalk :: "string list"
  e_boxNonce :: "octets option"
  e_lib :: vault_lib
  e_dialled :: "string + 'conn"

fun learn_caps :: "(nat \<Rightarrow> time) \<Rightarrow> node_id \<Rightarrow> gossipFrame \<Rightarrow> capIndex \<Rightarrow> node_id list \<Rightarrow> capIndex" where
  "learn_caps clock self gossip ci [] = ci"
| "learn_caps clock self gossip ci (nodeID # ns) =
     (if nodeID = self then learn_caps clock self gossip ci ns
      else let caps = the (gf_nodeCapabilities gossip nodeID) in
        if length caps > 0 then
          (let impedance = (case gf_routes gossip nodeID of
                  Some routeCost \<Rightarrow> fadd routeCost (gf_fromImpedance gossip)
                | None \<Rightarrow> Num 100)
           in learn_caps (\<lambda>i. clock (Suc i)) self gossip (Update (clock 0) ci nodeID impedance caps) ns)
        else learn_caps clock self gossip ci ns)"

definition handleGossipFrame :: "'conn ctl_env \<Rightarrow> 'conn node \<Rightarrow> gossipFrame \<Rightarrow> 'conn node" where
  "handleGossipFrame e n gossip =
     (let routes = map (\<lambda>t. \<lparr>gr_targetID = t, gr_cost = the (gf_routes gossip t)\<rparr>) (e_routeWalk e);
          vec = \<lparr>gv_fromNodeID = gf_fromNode gossip, gv_fromImpedance = gf_fromImpedance gossip, gv_routes = routes,
                 gv_fromCapabilities = [], gv_nodeCapabilities = Map.empty\<rparr>;
          n1 = n\<lparr>n_gradient := ProcessGossip (e_clock e) (n_gradient n) vec\<rparr>;
          ci = (if length (gf_fromCapabilities gossip) > 0
                then Update (e_now e) (n_capIndex n1) (gf_fromNode gossip) (gf_fromImpedance gossip) (gf_fromCapabilities gossip)
                else n_capIndex n1)
      in n1\<lparr>n_capIndex := learn_caps (e_capClock e) (n_id n) gossip ci (e_capWalk e)\<rparr>)"

section \<open>Discovery\<close>

definition n_broadcastExcept :: "node_id list \<Rightarrow> 'conn node \<Rightarrow> node_id \<Rightarrow> controlFrame \<Rightarrow> 'conn node" where
  "n_broadcastExcept walk n excludeNodeID frame =
     n\<lparr>n_peers := snd (snd (broadcastExceptPeer walk (n_peers n) excludeNodeID frame))\<rparr>"

definition n_broadcastAll :: "node_id list \<Rightarrow> 'conn node \<Rightarrow> controlFrame \<Rightarrow> 'conn node" where
  "n_broadcastAll walk n frame = n\<lparr>n_peers := snd (snd (broadcastAllPeers walk (n_peers n) frame))\<rparr>"

definition n_send :: "nat \<Rightarrow> controlFrame \<Rightarrow> 'conn node \<Rightarrow> 'conn node" where
  "n_send c frame n = n\<lparr>n_peers := snd (pm_send c frame (n_peers n))\<rparr>"

definition sendToPeer :: "'conn node \<Rightarrow> node_id \<Rightarrow> controlFrame \<Rightarrow> bool \<times> 'conn node" where
  "sendToPeer n nodeID frame =
     (case pm_Get (n_peers n) nodeID of
        None \<Rightarrow> (False, n)
      | Some c \<Rightarrow> (fst (pm_send c frame (n_peers n)), n_send c frame n))"

definition handleWhoHasFrame :: "'conn ctl_env \<Rightarrow> 'conn node \<Rightarrow> nat \<Rightarrow> whoHasFrame \<Rightarrow> 'conn node" where
  "handleWhoHasFrame e n c whoHas =
     (if wh_originID whoHas = n_id n then n
      else let (resp, firstSeen, s) = ProcessWhoHas (e_now e) (n_sonar n) whoHas;
               n1 = n\<lparr>n_sonar := s\<rparr>
           in if \<not> firstSeen then n1
              else let n2 = (case resp of
                       None \<Rightarrow> n1
                     | Some r \<Rightarrow> n_send c (FIHave \<lparr>wi_uuid = ih_UUID r, wi_nodeId = ih_nodeID r, wi_impedance = ih_impedance r,
                                                  wi_originNode = wh_originID whoHas\<rparr>) n1)
                   in if wh_originID whoHas = n_id n2 then n2
                      else if wh_maxHops whoHas = 0 then n2
                      else n_broadcastExcept (e_peerWalk e) n2 (peer_nodeID (pm_conns (n_peers n2) ! c))
                             (FWhoHas (whoHas\<lparr>wh_maxHops := wh_maxHops whoHas - 1\<rparr>)))"

definition handleIHaveFrame :: "'conn node \<Rightarrow> wireIHave \<Rightarrow> 'conn node" where
  "handleIHaveFrame n iHave =
     (let (delivered, s) = DeliverResponse (n_sonar n)
            \<lparr>ih_UUID = wi_uuid iHave, ih_nodeID = wi_nodeId iHave, ih_impedance = wi_impedance iHave\<rparr>;
          n1 = n\<lparr>n_sonar := s\<rparr>
      in if delivered then n1
         else if wi_originNode iHave = [] then n1
         else case BestRoute (n_gradient n1) (wi_originNode iHave) of
                None \<Rightarrow> n1
              | Some route \<Rightarrow> snd (sendToPeer n1 (pc_nextHop route) (FIHave iHave)))"

text \<open>\<open>Sonar\<close> up to the collection of the answers: the identifier of the query and its collector.\<close>

definition Sonar_start :: "node_id list \<Rightarrow> 'conn node \<Rightarrow> string \<Rightarrow> string \<times> nat \<times> 'conn node" where
  "Sonar_start walk n capability =
     (let (whoHas, s1) = CreateWhoHas (n_sonar n) capability (MaxSonarHops n);
          (collector, s2) = StartCollection s1 (wh_UUID whoHas);
          n1 = n\<lparr>n_sonar := s2\<rparr>
      in (wh_UUID whoHas, collector, n_broadcastAll walk n1 (FWhoHas whoHas)))"

record agentInfo =
  ai_nodeID :: node_id
  ai_impedance :: f64

text \<open>\<open>Sonar\<close> after the collection, which returned \<open>iHaves\<close>.\<close>

definition Sonar_finish :: "'conn node \<Rightarrow> string \<Rightarrow> iHaveFrame list \<Rightarrow> agentInfo list \<times> 'conn node" where
  "Sonar_finish n uuid iHaves =
     (map (\<lambda>ih. \<lparr>ai_nodeID = ih_nodeID ih, ai_impedance = ih_impedance ih\<rparr>) iHaves,
      n\<lparr>n_sonar := StopCollection (n_sonar n) uuid\<rparr>)"

section \<open>Credentials\<close>

definition handleCredentialRequestFrame :: "'conn ctl_env \<Rightarrow> 'conn node \<Rightarrow> nat \<Rightarrow> credentialRequest \<Rightarrow> 'conn node" where
  "handleCredentialRequestFrame e n c req =
     (case n_vault n of
        None \<Rightarrow> n
      | Some v \<Rightarrow>
          (case HandleRequest (e_lib e) (e_now e) (e_now2 e) (e_boxNonce e) v req of
             Inl _ \<Rightarrow> n
           | Inr None \<Rightarrow> n
           | Inr (Some sealed) \<Rightarrow> n_send c (FCredGrant sealed) n))"

definition handleCredentialGrantFrame :: "'conn node \<Rightarrow> nat \<Rightarrow> octets \<Rightarrow> 'conn node" where
  "handleCredentialGrantFrame n c sealed =
     (let res = (sealed, peer_pubKey (pm_conns (n_peers n) ! c))
      in n\<lparr>n_credResolvers := (\<lambda>k. map_option (\<lambda>ch. offer_one ch res) (n_credResolvers n k))\<rparr>)"

text \<open>
  \<open>RequestCredential\<close> up to its loop, with the random nonce, and one round of the loop: a result that was received is
  unsealed; \<open>None\<close> means that the loop goes on.
\<close>

datatype cred_error = NoVault | CtxDone

definition RequestCredential_start :: "time \<Rightarrow> node_id list \<Rightarrow> 'conn node \<Rightarrow> octets \<Rightarrow> octets \<Rightarrow> string \<Rightarrow> cred_error + 'conn node" where
  "RequestCredential_start now walk n pubKey nonce hostPattern =
     (if n_vault n = None then Inl NoVault
      else let req = \<lparr>rq_hostPattern = hostPattern, rq_requesterPubKey = pubKey, rq_nonce = nonce, rq_requestedAt = now\<rparr>;
               n1 = n\<lparr>n_credResolvers := (n_credResolvers n)(nonce \<mapsto> [])\<rparr>
           in Inr (n_broadcastAll walk n1 (FCredRequest req)))"

definition RequestCredential_round :: "vault_lib \<Rightarrow> time \<Rightarrow> octets \<Rightarrow> octets \<Rightarrow> bool \<Rightarrow> 'conn node \<Rightarrow>
    (cred_error + credential) option \<times> 'conn node" where
  "RequestCredential_round lib now privKey nonce ctxDone n =
     (let finished = n\<lparr>n_credResolvers := (n_credResolvers n)(nonce := None)\<rparr>
      in if ctxDone then (Some (Inl CtxDone), finished)
         else case n_credResolvers n nonce of
           Some ((sealed, senderPub) # ch) \<Rightarrow>
             (case UnsealGrantWithNonce lib now sealed privKey senderPub nonce of
                Inr p \<Rightarrow> (Some (Inr (sp_credential p)), finished)
              | Inl _ \<Rightarrow> (None, n\<lparr>n_credResolvers := (n_credResolvers n)(nonce \<mapsto> ch)\<rparr>))
         | _ \<Rightarrow> (None, n))"

section \<open>The loop of a connection\<close>

definition dispatch :: "'conn ctl_env \<Rightarrow> 'conn node \<Rightarrow> nat \<Rightarrow> controlFrame \<Rightarrow> 'conn node" where
  "dispatch e n c frame =
     (case frame of
        FGossip gossip \<Rightarrow> handleGossipFrame e n gossip
      | FWhoHas whoHas \<Rightarrow> handleWhoHasFrame e n c whoHas
      | FIHave iHave \<Rightarrow> handleIHaveFrame n iHave
      | FBootstrap bf \<Rightarrow> handleBootstrapFrame (e_hostWalk e) n c bf
      | FCredRequest req \<Rightarrow> handleCredentialRequestFrame e n c req
      | FCredGrant sealed \<Rightarrow> handleCredentialGrantFrame n c sealed
      | FRelayOpen req \<Rightarrow> handleRelayOpenFrame n c req (e_dialled e)
      | FRelayAccept req \<Rightarrow> handleRelayAcceptFrame n req
      | FUnknown \<Rightarrow> n)"

text \<open>One round of \<open>startControlLoop\<close> on the bytes to come; \<open>None\<close> when the loop returns.\<close>

definition startControlLoop :: "(controlFrame \<Rightarrow> octets option) \<Rightarrow> (octets \<Rightarrow> controlFrame option) \<Rightarrow> 'conn ctl_env \<Rightarrow>
    'conn node \<Rightarrow> nat \<Rightarrow> octets \<Rightarrow> 'conn node \<times> octets option" where
  "startControlLoop marshal unmarshal e n c incoming =
     (let (frame, fr, incoming') = ReadFrame unmarshal (peer_frameReader (pm_conns (n_peers n) ! c)) incoming;
          n1 = n\<lparr>n_peers := pm_update c (\<lambda>pc. pc\<lparr>peer_frameReader := fr\<rparr>) (n_peers n)\<rparr>
      in case frame of
           Inl _ \<Rightarrow> (peer_died marshal n1 c, None)
         | Inr f \<Rightarrow> (dispatch e n1 c f, Some incoming'))"

section \<open>Gossip of this node\<close>

definition sendGossipToAll :: "(controlFrame \<Rightarrow> octets option) \<Rightarrow> 'conn ctl_env \<Rightarrow> node_id list \<Rightarrow> string list \<Rightarrow> 'conn node \<Rightarrow> 'conn node" where
  "sendGossipToAll marshal e staleWalk capList n =
     (let n1 = (if n_capabilityStaleTTL n > 0
                then n\<lparr>n_capIndex := snd (ci_PurgeStale (e_now e) staleWalk (n_capIndex n) (n_capabilityStaleTTL n))\<rparr> else n);
          n2 = n1\<lparr>n_gradient := snd (PurgeStale (e_now2 e) (n_gradient n1) (3 * n_gossipInterval n1))\<rparr>;
          input = \<lparr>gi_localCapabilities = capList, gi_knownCapabilities = ci_Snapshot (n_capIndex n2)\<rparr>;
          (gossip, gt) = GenerateGossip (e_routeWalk e) (n_gradient n2) (m_impedance (n_manifest n2)) input;
          n3 = n2\<lparr>n_gradient := gt\<rparr>;
          msg = \<lparr>gf_fromNode = gv_fromNodeID gossip,
                 gf_routes = foldl (\<lambda>m r. m(gr_targetID r \<mapsto> gr_cost r)) Map.empty (gv_routes gossip),
                 gf_fromImpedance = gv_fromImpedance gossip, gf_fromCapabilities = gv_fromCapabilities gossip,
                 gf_nodeCapabilities = gv_nodeCapabilities gossip\<rparr>
      in case marshal (FGossip msg) of
           None \<Rightarrow> n3
         | Some d \<Rightarrow> n3\<lparr>n_peers := snd (snd (broadcastAllRaw (e_peerWalk e) (n_peers n3) d))\<rparr>)"

text \<open>The delays of the ticker; \<open>r\<close> and \<open>u\<close> are the random numbers drawn, \<open>u\<close> in [0, 1).\<close>

definition jitteredFirstDelay :: "duration \<Rightarrow> int \<Rightarrow> duration" where
  "jitteredFirstDelay interval r = (if interval \<le> 0 then 0 else r)"

definition jitteredInterval :: "duration \<Rightarrow> real \<Rightarrow> duration" where
  "jitteredInterval interval u =
     (if interval \<le> 0 then 0
      else let base = real_of_int interval; jitter = base * (1 / 10); offset = (u * 2 - 1) * jitter
           in \<lfloor>base + offset\<rfloor>)"

section \<open>A query is handled once\<close>

lemma ProcessWhoHas_admit:
  "ProcessWhoHas now s f =
     (let (b, s') = admit now s (wh_UUID f)
      in (if b \<and> HasCapability (sn_manifest s) (wh_capability f)
          then Some \<lparr>ih_UUID = wh_UUID f, ih_nodeID = m_nodeID (sn_manifest s), ih_impedance = m_impedance (sn_manifest s)\<rparr> else None, b, s'))"
  using admit_manifest(1) [of now s "wh_UUID f"]
  by (auto simp: ProcessWhoHas_def admit_def Let_def split: prod.splits if_splits)

text \<open>An identifier stays in the set of the seen ones until its time to live is over.\<close>

lemma admit_keeps:
  assumes "sn_seen s u = Some t" "t \<le> now" "now < t + sn_seenTTL s"
  shows "sn_seen (snd (admit now s v)) u = Some t" "v = u \<Longrightarrow> admit now s v = (False, s)"
  using assms by (auto simp: admit_def containsSeenLocked_def addSeenLocked_def Let_def split: option.splits if_splits)

lemma admit_records: "admit now s u = (True, s') \<Longrightarrow> sn_seen s' u = Some now \<and> sn_seenTTL s' = sn_seenTTL s"
  by (auto simp: admit_def containsSeenLocked_def addSeenLocked_def Let_def split: option.splits if_splits prod.splits)

lemma DeliverResponse_keeps: "sn_seen (snd (DeliverResponse s fr)) = sn_seen s" "sn_seenTTL (snd (DeliverResponse s fr)) = sn_seenTTL s"
    "sn_manifest (snd (DeliverResponse s fr)) = sn_manifest s"
  by (auto simp: DeliverResponse_def split: option.splits prod.splits)

text \<open>Only the handlers of discovery frames touch the Sonar, the others not.\<close>

lemma sonar_of_handlers [simp]:
  "n_sonar (n_send c fr n) = n_sonar n" "n_sonar (n_broadcastExcept w n k fr) = n_sonar n"
  "n_sonar (handleGossipFrame e n g) = n_sonar n" "n_sonar (handleBootstrapFrame w n c bf) = n_sonar n"
  "n_sonar (handleCredentialRequestFrame e n c req) = n_sonar n" "n_sonar (handleCredentialGrantFrame n c sealed) = n_sonar n"
  "n_sonar (handleRelayOpenFrame n c ro d) = n_sonar n" "n_sonar (handleRelayAcceptFrame n ra) = n_sonar n"
  "n_sonar (snd (sendToPeer n k fr)) = n_sonar n"
  by (simp_all add: n_send_def n_broadcastExcept_def handleGossipFrame_def handleBootstrapFrame_def handleCredentialRequestFrame_def
      handleCredentialGrantFrame_def handleRelayOpenFrame_def handleRelayAcceptFrame_def sendToPeer_def Let_def
      split: option.split sum.split)

lemma sonar_of_whohas:
  "n_sonar (handleWhoHasFrame e n c f) =
     (if wh_originID f = n_id n then n_sonar n else snd (admit (e_now e) (n_sonar n) (wh_UUID f)))"
  by (auto simp: handleWhoHasFrame_def ProcessWhoHas_admit Let_def split: prod.split option.split)

lemma sonar_of_ihave: "n_sonar (handleIHaveFrame n ih) = snd (DeliverResponse (n_sonar n)
    \<lparr>ih_UUID = wi_uuid ih, ih_nodeID = wi_nodeId ih, ih_impedance = wi_impedance ih\<rparr>)"
  by (auto simp: handleIHaveFrame_def Let_def split: prod.split option.split)

lemma dispatch_keeps_seen:
  assumes "sn_seen (n_sonar n) u = Some t" "t \<le> e_now e" "e_now e < t + sn_seenTTL (n_sonar n)"
  shows "sn_seen (n_sonar (dispatch e n c fr)) u = Some t \<and> sn_seenTTL (n_sonar (dispatch e n c fr)) = sn_seenTTL (n_sonar n)"
  using assms admit_keeps(1) [OF assms] admit_manifest(2)
  by (cases fr) (simp_all add: dispatch_def sonar_of_whohas sonar_of_ihave DeliverResponse_keeps)

definition dispatch_all :: "'conn node \<Rightarrow> ('conn ctl_env \<times> nat \<times> controlFrame) list \<Rightarrow> 'conn node" where
  "dispatch_all n evs = foldl (\<lambda>n (e, c, fr). dispatch e n c fr) n evs"

lemma dispatch_all_keeps_seen:
  assumes "sn_seen (n_sonar n) u = Some t" "\<forall>(e, c, fr)\<in>set evs. t \<le> e_now e \<and> e_now e < t + sn_seenTTL (n_sonar n)"
  shows "sn_seen (n_sonar (dispatch_all n evs)) u = Some t \<and> sn_seenTTL (n_sonar (dispatch_all n evs)) = sn_seenTTL (n_sonar n)"
  using assms
proof (induction evs arbitrary: n)
  case Nil
  then show ?case by (simp add: dispatch_all_def)
next
  case (Cons ev evs)
  obtain e c fr where ev: "ev = (e, c, fr)" by (cases ev) auto
  have k: "sn_seen (n_sonar (dispatch e n c fr)) u = Some t" "sn_seenTTL (n_sonar (dispatch e n c fr)) = sn_seenTTL (n_sonar n)"
    using dispatch_keeps_seen [of n u t e c fr] Cons.prems ev by auto
  have "dispatch_all n (ev # evs) = dispatch_all (dispatch e n c fr) evs" by (simp add: dispatch_all_def ev)
  then show ?case using Cons.IH [of "dispatch e n c fr"] Cons.prems(2) k by auto
qed

text \<open>What a connection takes into its queue.\<close>

definition accepts :: "'f peerConn \<Rightarrow> bool" where
  "accepts pc \<longleftrightarrow> \<not> peer_writerStopped pc \<and> length (peer_writeCh pc) < controlWriteQueueSize"

abbreviation structured :: "'f \<Rightarrow> 'f controlMsg" where
  "structured f \<equiv> \<lparr>cm_frame = Some f, cm_raw = None\<rparr>"

lemma sendControl_queue: "peer_writeCh (snd (sendControl pc f)) = peer_writeCh pc @ (if accepts pc then [structured f] else [])"
  and sendControl_ok: "fst (sendControl pc f) = accepts pc"
  by (simp_all add: sendControl_def accepts_def)

lemma peers_of_send: "n_peers (n_send c f n) = pm_update c (\<lambda>pc. snd (sendControl pc f)) (n_peers n)"
  by (simp add: n_send_def pm_send_update)

lemma whohas_peers:
  assumes a: "admit (e_now e) (n_sonar n) (wh_UUID f) = (True, s)" and o: "wh_originID f \<noteq> n_id n"
  shows "n_peers (handleWhoHasFrame e n c f) =
    (let pm = (if HasCapability (n_manifest n) (wh_capability f)
               then pm_update c (\<lambda>pc. snd (sendControl pc (FIHave \<lparr>wi_uuid = wh_UUID f, wi_nodeId = n_id n,
                      wi_impedance = m_impedance (n_manifest n), wi_originNode = wh_originID f\<rparr>))) (n_peers n)
               else n_peers n)
     in if wh_maxHops f = 0 then pm
        else on_conns (\<lambda>pc. peer_nodeID pc \<noteq> peer_nodeID (pm_conns (n_peers n) ! c))
               (\<lambda>pc. snd (sendControl pc (FWhoHas (f\<lparr>wh_maxHops := wh_maxHops f - 1\<rparr>)))) (pm_All (e_peerWalk e) pm) pm)"
proof -
  have s: "sn_manifest s = n_manifest n" using admit_manifest(1) [of "e_now e" "n_sonar n" "wh_UUID f"] a by simp
  have nid: "peer_nodeID ((pm_conns (n_peers n))[c := snd (sendControl (pm_conns (n_peers n) ! c) g)] ! c) =
      peer_nodeID (pm_conns (n_peers n) ! c)" for g
    by (cases "c < length (pm_conns (n_peers n))") (auto simp: not_less list_update_beyond)
  show ?thesis using o
    by (simp add: handleWhoHasFrame_def ProcessWhoHas_admit a s Let_def n_broadcastExcept_def n_send_def pm_send_update broadcast_conns
        pm_update_def nid cong: if_cong split: option.split)
qed

text \<open>
  Property C9. A query spreads once and completely. When a node admits a WhoHas frame of another node, the queue of every
  connection grows by exactly: the answer, on the connection the frame came from, if the node has the capability; the
  frame with one hop less, on each of the connections to other peers, if hops are left; each if the
  connection takes it. And a frame with the same identifier that comes within the time to live, from whichever
  peer and whatever was handled in between, changes nothing at all.
\<close>

theorem whohas_spreads_once:
  assumes inv: "pm_inv (n_peers n)" and walk: "walk_of (e_peerWalk e) (pm_peers (n_peers n))"
    and origin: "wh_originID f \<noteq> n_id n"
    and first: "fst (snd (ProcessWhoHas (e_now e) (n_sonar n) f))"
    and c: "c < length (pm_conns (n_peers n))"
    and times: "\<forall>(e', c', fr)\<in>set evs. e_now e \<le> e_now e' \<and> e_now e' < e_now e + sn_seenTTL (n_sonar n)"
    and again: "e_now e \<le> e_now e2" "e_now e2 < e_now e + sn_seenTTL (n_sonar n)" "wh_UUID f2 = wh_UUID f"
  shows "(\<forall>i<length (pm_conns (n_peers n)).
       let pc = pm_conns (n_peers n) ! i; pc' = pm_conns (n_peers (handleWhoHasFrame e n c f)) ! i in
       peer_writeCh pc' = peer_writeCh pc @
         (if i = c \<and> HasCapability (n_manifest n) (wh_capability f) \<and> accepts pc
          then [structured (FIHave \<lparr>wi_uuid = wh_UUID f, wi_nodeId = n_id n, wi_impedance = m_impedance (n_manifest n),
                 wi_originNode = wh_originID f\<rparr>)] else []) @
         (if pm_peers (n_peers n) (peer_nodeID pc) = Some i \<and> peer_nodeID pc \<noteq> peer_nodeID (pm_conns (n_peers n) ! c) \<and>
             wh_maxHops f \<noteq> 0 \<and> accepts pc
          then [structured (FWhoHas (f\<lparr>wh_maxHops := wh_maxHops f - 1\<rparr>))] else [])) \<and>
    handleWhoHasFrame e2 (dispatch_all (handleWhoHasFrame e n c f) evs) c2 f2 = dispatch_all (handleWhoHasFrame e n c f) evs"
proof (intro conjI)
  obtain s where a: "admit (e_now e) (n_sonar n) (wh_UUID f) = (True, s)"
    using first by (cases "admit (e_now e) (n_sonar n) (wh_UUID f)") (auto simp: ProcessWhoHas_admit Let_def split: prod.splits)
  let ?n1 = "handleWhoHasFrame e n c f"
  let ?m = "dispatch_all ?n1 evs"
  have "sn_seen (n_sonar ?n1) (wh_UUID f) = Some (e_now e)" "sn_seenTTL (n_sonar ?n1) = sn_seenTTL (n_sonar n)"
    using admit_records [OF a] origin by (simp_all add: sonar_of_whohas a)
  then have m: "sn_seen (n_sonar ?m) (wh_UUID f) = Some (e_now e)" "sn_seenTTL (n_sonar ?m) = sn_seenTTL (n_sonar n)"
    using dispatch_all_keeps_seen [of ?n1 "wh_UUID f" "e_now e" evs] times by auto
  then have "admit (e_now e2) (n_sonar ?m) (wh_UUID f2) = (False, n_sonar ?m)"
    using again by (intro admit_keeps(2) [OF m(1)]) auto
  then show "handleWhoHasFrame e2 ?m c2 f2 = ?m"
    by (simp add: handleWhoHasFrame_def ProcessWhoHas_admit Let_def)
next
  obtain s where a: "admit (e_now e) (n_sonar n) (wh_UUID f) = (True, s)"
    using first by (cases "admit (e_now e) (n_sonar n) (wh_UUID f)") (auto simp: ProcessWhoHas_admit Let_def split: prod.splits)
  let ?ih = "FIHave \<lparr>wi_uuid = wh_UUID f, wi_nodeId = n_id n, wi_impedance = m_impedance (n_manifest n), wi_originNode = wh_originID f\<rparr>"
  let ?fw = "FWhoHas (f\<lparr>wh_maxHops := wh_maxHops f - 1\<rparr>)"
  let ?has = "HasCapability (n_manifest n) (wh_capability f)"
  define pm where "pm = (if ?has then pm_update c (\<lambda>pc. snd (sendControl pc ?ih)) (n_peers n) else n_peers n)"
  have pm: "pm_peers pm = pm_peers (n_peers n)" "length (pm_conns pm) = length (pm_conns (n_peers n))" "pm_inv pm"
    using inv by (auto simp: pm_def pm_update_def intro!: pm_inv_update [unfolded pm_update_def])
  have pmn: "pm_conns pm ! i = (if ?has \<and> i = c then snd (sendControl (pm_conns (n_peers n) ! i) ?ih) else pm_conns (n_peers n) ! i)"
    if "i < length (pm_conns (n_peers n))" for i
    using that by (auto simp: pm_def pm_update_def)
  have w: "walk_of (e_peerWalk e) (pm_peers pm)" using walk by (simp add: pm)
  note all = pm_All_distinct [OF pm(3) w]
  have ran: "i \<in> ran (pm_peers (n_peers n)) \<longleftrightarrow> pm_peers (n_peers n) (peer_nodeID (pm_conns (n_peers n) ! i)) = Some i" for i
    using inv by (auto simp: ran_def pm_inv_def)
  show "\<forall>i<length (pm_conns (n_peers n)).
       let pc = pm_conns (n_peers n) ! i; pc' = pm_conns (n_peers (handleWhoHasFrame e n c f)) ! i in
       peer_writeCh pc' = peer_writeCh pc @
         (if i = c \<and> ?has \<and> accepts pc then [structured ?ih] else []) @
         (if pm_peers (n_peers n) (peer_nodeID pc) = Some i \<and> peer_nodeID pc \<noteq> peer_nodeID (pm_conns (n_peers n) ! c) \<and>
             wh_maxHops f \<noteq> 0 \<and> accepts pc
          then [structured ?fw] else [])"
  proof (intro allI impI)
    fix i assume i: "i < length (pm_conns (n_peers n))"
    have nid: "peer_nodeID (pm_conns pm ! i) = peer_nodeID (pm_conns (n_peers n) ! i)" by (simp add: pmn [OF i])
    have e: "pm_conns (n_peers (handleWhoHasFrame e n c f)) ! i =
        (if wh_maxHops f \<noteq> 0 \<and> i \<in> ran (pm_peers (n_peers n)) \<and> peer_nodeID (pm_conns (n_peers n) ! i) \<noteq> peer_nodeID (pm_conns (n_peers n) ! c)
         then snd (sendControl (pm_conns pm ! i) ?fw) else pm_conns pm ! i)"
      using i unfolding whohas_peers [OF a origin] pm_def [symmetric] Let_def
      by (simp add: on_conns_nth [OF all(1)] all(2) pm nid)
    show "let pc = pm_conns (n_peers n) ! i; pc' = pm_conns (n_peers (handleWhoHasFrame e n c f)) ! i in
       peer_writeCh pc' = peer_writeCh pc @
         (if i = c \<and> ?has \<and> accepts pc then [structured ?ih] else []) @
         (if pm_peers (n_peers n) (peer_nodeID pc) = Some i \<and> peer_nodeID pc \<noteq> peer_nodeID (pm_conns (n_peers n) ! c) \<and>
             wh_maxHops f \<noteq> 0 \<and> accepts pc
          then [structured ?fw] else [])"
      unfolding e Let_def pmn [OF i] ran by (auto simp: sendControl_queue)
  qed
qed

definition sample_env :: "time \<Rightarrow> node_id list \<Rightarrow> nat ctl_env" where
  "sample_env t walk = \<lparr>e_now = t, e_now2 = t, e_clock = (\<lambda>_. t), e_capClock = (\<lambda>_. t), e_peerWalk = walk, e_routeWalk = [],
     e_capWalk = [], e_hostWalk = [], e_boxNonce = None, e_lib = sample_lib, e_dialled = Inl []\<rparr>"

definition open_stream :: writer where
  "open_stream = \<lparr>w_out = [], w_room = None\<rparr>"

text \<open>A node \<open>a\<close> that is connected to \<open>b\<close> and \<open>c\<close>.\<close>

definition sample_hub :: "nat node" where
  "sample_hub = snd (add_peer 0 (snd (add_peer 0 (sample_node ''a'') ''b'' open_stream [])) ''c'' open_stream [])"

lemma sample_hub_peers:
  "n_peers sample_hub = \<lparr>pm_peers = [''b'' \<mapsto> 0, ''c'' \<mapsto> 1],
     pm_conns = [newPeerConnWithWriter ''b'' open_stream [], newPeerConnWithWriter ''c'' open_stream []]\<rparr>"
  "n_sonar sample_hub = NewSonar (NewManifest ''a'') []"
  by (simp_all add: sample_hub_def add_peer_def pm_Add_def sample_node_def sample_config_def NewNode_def fire_def newPeerManager_def Let_def)

theorem whohas_spreads_once_witness:
  "peer_writeCh (pm_conns (n_peers (handleWhoHasFrame (sample_env 5 [''b'', ''c'']) sample_hub 0
      \<lparr>wh_UUID = ''b:1'', wh_capability = ''x'', wh_originID = ''b'', wh_maxHops = 9\<rparr>)) ! 1) =
   [structured (FWhoHas \<lparr>wh_UUID = ''b:1'', wh_capability = ''x'', wh_originID = ''b'', wh_maxHops = 8\<rparr>)]"
proof -
  let ?f = "\<lparr>wh_UUID = ''b:1'', wh_capability = ''x'', wh_originID = ''b'', wh_maxHops = 9\<rparr> :: whoHasFrame"
  let ?e = "sample_env 5 [''b'', ''c'']"
  have i: "pm_inv (n_peers sample_hub)" by (simp add: sample_hub_peers pm_inv_def newPeerConnWithWriter_def)
  have w: "walk_of (e_peerWalk ?e) (pm_peers (n_peers sample_hub))" by (simp add: sample_hub_peers sample_env_def walk_of_def) auto
  have o: "wh_originID ?f \<noteq> n_id sample_hub" by (simp add: sample_hub_peers NewSonar_def NewManifest_def)
  have f: "fst (snd (ProcessWhoHas (e_now ?e) (n_sonar sample_hub) ?f))"
    by (simp add: sample_hub_peers sample_env_def NewSonar_def ProcessWhoHas_admit admit_def containsSeenLocked_def)
  have c: "0 < length (pm_conns (n_peers sample_hub))" by (simp add: sample_hub_peers)
  have t: "\<forall>(e', c', fr)\<in>set []. e_now ?e \<le> e_now e' \<and> e_now e' < e_now ?e + sn_seenTTL (n_sonar sample_hub)" by simp
  have a: "e_now ?e \<le> e_now ?e" "e_now ?e < e_now ?e + sn_seenTTL (n_sonar sample_hub)" "wh_UUID ?f = wh_UUID ?f"
    by (simp_all add: sample_hub_peers NewSonar_def defaultSeenTTL_def)
  have has: "\<not> HasCapability (n_manifest sample_hub) ''x''"
    by (simp add: sample_hub_peers NewSonar_def HasCapability_def NewManifest_def suffix_def)
  have l: "1 < length (pm_conns (n_peers sample_hub))" by (simp add: sample_hub_peers)
  have acc: "accepts (newPeerConnWithWriter ''c'' open_stream [])"
    by (simp add: accepts_def newPeerConnWithWriter_def controlWriteQueueSize_def)
  from whohas_spreads_once [OF i w o f c t a, THEN conjunct1, rule_format, OF l]
  show ?thesis
    by (simp add: Let_def has sample_hub_peers acc) (simp add: newPeerConnWithWriter_def)
qed

section \<open>Where the node does not do what it means to\<close>

lemma fire_fields [simp]:
  "n_peers (fire s e n) = n_peers n" "n_gradient (fire s e n) = n_gradient n" "n_reconnect (fire s e n) = n_reconnect n"
  "n_sonar (fire s e n) = n_sonar n" "n_resolver (fire s e n) = n_resolver n" "n_capIndex (fire s e n) = n_capIndex n"
  by (simp_all add: fire_def)

lemma pm_update_fields [simp]:
  "pm_peers (pm_update c f pm) = pm_peers pm" "length (pm_conns (pm_update c f pm)) = length (pm_conns pm)"
  "i \<noteq> c \<Longrightarrow> pm_conns (pm_update c f pm) ! i = pm_conns pm ! i"
  "pm_peers (pm_Remove pm k) = (pm_peers pm)(k := None)" "pm_conns (pm_Remove pm k) = pm_conns pm"
  by (simp_all add: pm_update_def pm_Remove_def)

lemma peer_death_fields:
  assumes "\<not> peer_deathFired (pm_conns (n_peers n) ! c)" "peer_nodeID (pm_conns (n_peers n) ! c) = k"
    "c < length (pm_conns (n_peers n))"
  shows "pm_peers (n_peers (peer_died marshal n c)) = (pm_peers (n_peers n))(k := None)"
    and "i \<noteq> c \<Longrightarrow> pm_conns (n_peers (peer_died marshal n c)) ! i = pm_conns (n_peers n) ! i"
    and "n_gradient (peer_died marshal n c) = RemoveNeighbor (n_gradient n) k"
    and "(pm_peers (n_peers n))(k := None) = Map.empty \<Longrightarrow> rp_enabled (n_reconnect n) \<Longrightarrow> n_reconnRunning (peer_died marshal n c)"
proof -
  have k: "peer_nodeID (pm_conns (pm_update c (\<lambda>pc. pc\<lparr>peer_deathFired := True\<rparr>) (n_peers n)) ! c) = k"
    using assms(2,3) by (simp add: pm_update_def)
  show "pm_peers (n_peers (peer_died marshal n c)) = (pm_peers (n_peers n))(k := None)"
    "i \<noteq> c \<Longrightarrow> pm_conns (n_peers (peer_died marshal n c)) ! i = pm_conns (n_peers n) ! i"
    "n_gradient (peer_died marshal n c) = RemoveNeighbor (n_gradient n) k"
    using assms(1) by (simp_all add: peer_died_def handlePeerDeath_def k Let_def)
  assume e: "(pm_peers (n_peers n))(k := None) = Map.empty" and r: "rp_enabled (n_reconnect n)"
  have "dom (pm_peers (n_peers n)) - {k} = dom ((pm_peers (n_peers n))(k := None))" by simp
  then have "card (dom (pm_peers (n_peers n)) - {k}) = 0" by (simp only: e dom_empty card.empty)
  then show "n_reconnRunning (peer_died marshal n c)"
    using assms(1) r by (simp add: peer_died_def handlePeerDeath_def k Let_def pm_Count_def)
qed

text \<open>
  The death of a connection that was replaced cuts off its replacement. A peer that connects again
  while its old connection has not been noticed dead replaces it in the peer map; when the old connection's loop then
  ends, \<open>handlePeerDeath\<close> removes the peer by name. The new connection is open, its loops run and its
  writer takes frames, but it is no longer in the peer map, so nothing is ever sent to it, no known path leads through the peer,
  and if it was the only peer the node declares itself isolated and starts to reconnect.
\<close>

theorem stale_death_drops_live_peer:
  assumes "pm_inv (n_peers n)"
    and "add_peer now1 n pid ctl1 key1 = (c1, n1)" "add_peer now2 n1 pid ctl2 key2 = (c2, n2)"
  shows "pm_peers (n_peers n2) pid = Some c2 \<and>
    (let n3 = peer_died marshal n2 c1; pc2 = pm_conns (n_peers n3) ! c2 in
     \<not> peer_dead pc2 \<and> \<not> peer_sessionClosed pc2 \<and> \<not> peer_controlClosed pc2 \<and> accepts pc2 \<and>
     pm_peers (n_peers n3) pid = None \<and> (\<forall>frame. sendToPeer n3 pid frame = (False, n3)) \<and>
     (\<forall>t p. p \<in> set (paths_of (n_gradient n3) t) \<longrightarrow> pe_nextHop p \<noteq> pid) \<and>
     (dom (pm_peers (n_peers n)) \<subseteq> {pid} \<and> rp_enabled (n_reconnect n) \<longrightarrow> n_reconnRunning n3))"
proof -
  define pm where "pm = n_peers n"
  define pc1 pc2 where "pc1 = (newPeerConnWithWriter pid ctl1 key1 :: controlFrame peerConn)"
    and "pc2 = (newPeerConnWithWriter pid ctl2 key2 :: controlFrame peerConn)"
  have c: "c1 = length (pm_conns pm)" "c2 = Suc (length (pm_conns pm))"
    and p2: "n_peers n2 = \<lparr>pm_peers = (pm_peers pm)(pid \<mapsto> c2), pm_conns = pm_conns pm @ [pc1, pc2]\<rparr>"
    and r2: "n_reconnect n2 = n_reconnect n"
    using assms(2,3) by (auto simp: add_peer_def pm_Add_def fire_def pm_def pc1_def pc2_def Let_def split: if_splits)
  define n3 where "n3 = peer_died marshal n2 c1"
  have f: "\<not> peer_deathFired (pm_conns (n_peers n2) ! c1)" "peer_nodeID (pm_conns (n_peers n2) ! c1) = pid"
    by (simp_all add: p2 c pc1_def newPeerConnWithWriter_def)
  have l: "c1 < length (pm_conns (n_peers n2))" by (simp add: p2 c)
  note fields = peer_death_fields [OF f l, where marshal = marshal, folded n3_def]
  have conn: "pm_conns (n_peers n3) ! c2 = pc2" using fields(2) [of c2] by (simp add: p2 c nth_append)
  have peers: "pm_peers (n_peers n3) = (pm_peers pm)(pid := None)" using fields(1) by (simp add: p2)
  have grad: "n_gradient n3 = RemoveNeighbor (n_gradient n2) pid" by (rule fields(3))
  have run: "n_reconnRunning n3" if "dom (pm_peers pm) \<subseteq> {pid}" "rp_enabled (n_reconnect n)"
  proof (rule fields(4))
    show "(pm_peers (n_peers n2))(pid := None) = Map.empty" using that(1) by (auto simp: p2 fun_eq_iff dom_def)
  qed (simp add: that(2) r2)
  have "\<forall>t p. p \<in> set (paths_of (n_gradient n3) t) \<longrightarrow> pe_nextHop p \<noteq> pid"
    by (auto simp: grad RemoveNeighbor_def paths_of_def filter_routes_def Let_def split: option.splits if_splits)
  then show ?thesis
    using conn peers run
    by (simp add: n3_def [symmetric] Let_def p2 sendToPeer_def pm_Get_def pm_def accepts_def)
       (simp add: pc2_def newPeerConnWithWriter_def controlWriteQueueSize_def)
qed

theorem stale_death_drops_live_peer_witness:
  "\<exists>c1 c2 n1 n2 n3. add_peer 0 (sample_node ''a'') ''b'' open_stream [] = (c1, n1) \<and> add_peer 1 n1 ''b'' open_stream [] = (c2, n2) \<and>
     n3 = peer_died (\<lambda>_. None) n2 c1 \<and> accepts (pm_conns (n_peers n3) ! c2) \<and>
     sendToPeer n3 ''b'' FUnknown = (False, n3) \<and> n_reconnRunning n3"
proof -
  obtain c1 n1 where 1: "add_peer 0 (sample_node ''a'') ''b'' open_stream [] = (c1, n1)" by fastforce
  obtain c2 n2 where 2: "add_peer 1 n1 ''b'' open_stream [] = (c2, n2)" by fastforce
  have i: "pm_inv (n_peers (sample_node ''a''))"
    and d: "dom (pm_peers (n_peers (sample_node ''a''))) \<subseteq> {''b''}" "rp_enabled (n_reconnect (sample_node ''a''))"
    by (simp_all add: sample_node_def sample_config_def NewNode_def Let_def pm_inv_new DefaultReconnectPolicy_def) (simp add: newPeerManager_def)
  show ?thesis
    using stale_death_drops_live_peer [OF i 1 2, of "\<lambda>_. None"] d 1 2 unfolding Let_def by blast
qed

text \<open>
  A peer of another protocol version is not disconnected. The check of \<open>handleBootstrapFrame\<close> logs that it
  closes the connection, but it only closes \<open>deadCh\<close>, which nothing but the bootstrap sender watches. The
  connection stays in the peer map with its streams open and its death not handled, takes frames as before, and the
  next query that comes over it is admitted and answered.
\<close>

theorem version_mismatch_keeps_peer:
  assumes "pm_peers (n_peers n) k = Some c" "pm_inv (n_peers n)"
    and mismatch: "bf_protocolVersion bf \<noteq> ucast (n_protocolVersion n)"
    and query: "wh_originID f \<noteq> n_id n" "fst (snd (ProcessWhoHas (e_now e) (n_sonar n) f))" "wh_maxHops f = 0"
      "HasCapability (n_manifest n) (wh_capability f)" "accepts (pm_conns (n_peers n) ! c)"
  shows "let n1 = dispatch e0 n c (FBootstrap bf); pc = pm_conns (n_peers n) ! c; pc1 = pm_conns (n_peers n1) ! c;
      n2 = dispatch e n1 c (FWhoHas f) in
    pm_peers (n_peers n1) k = Some c \<and> pc1 = pc\<lparr>peer_dead := True\<rparr> \<and>
    peer_writeCh (pm_conns (n_peers n2) ! c) = peer_writeCh pc @
      [structured (FIHave \<lparr>wi_uuid = wh_UUID f, wi_nodeId = n_id n, wi_impedance = m_impedance (n_manifest n),
         wi_originNode = wh_originID f\<rparr>)]"
proof -
  have c: "c < length (pm_conns (n_peers n))" using assms(1,2) by (simp add: pm_inv_def)
  define n1 where "n1 = n\<lparr>n_peers := pm_update c closeDead (n_peers n)\<rparr>"
  have d: "dispatch e0 n c (FBootstrap bf) = n1" using mismatch by (simp add: dispatch_def handleBootstrapFrame_def n1_def)
  have n1: "n_sonar n1 = n_sonar n" "pm_peers (n_peers n1) = pm_peers (n_peers n)"
    "pm_conns (n_peers n1) ! c = (pm_conns (n_peers n) ! c)\<lparr>peer_dead := True\<rparr>" "length (pm_conns (n_peers n1)) = length (pm_conns (n_peers n))"
    using c by (simp_all add: n1_def pm_update_def closeDead_def)
  obtain s where a: "admit (e_now e) (n_sonar n1) (wh_UUID f) = (True, s)"
    using query(2) by (cases "admit (e_now e) (n_sonar n) (wh_UUID f)") (auto simp: n1 ProcessWhoHas_admit Let_def split: prod.splits)
  have acc: "accepts ((pm_conns (n_peers n) ! c)\<lparr>peer_dead := True\<rparr>)" using query(5) by (simp add: accepts_def)
  have "peer_writeCh (pm_conns (n_peers (handleWhoHasFrame e n1 c f)) ! c) = peer_writeCh (pm_conns (n_peers n) ! c) @
      [structured (FIHave \<lparr>wi_uuid = wh_UUID f, wi_nodeId = n_id n, wi_impedance = m_impedance (n_manifest n),
         wi_originNode = wh_originID f\<rparr>)]"
    using query(1,3,4) c acc whohas_peers [OF a, of c] by (simp add: n1 pm_update_def sendControl_queue)
  then show ?thesis using assms(1) unfolding Let_def d by (simp add: n1 dispatch_def)
qed

theorem version_mismatch_keeps_peer_witness:
  "let n = n_RegisterCapability sample_hub ''x'';
     bf = \<lparr>bf_hosts = Map.empty, bf_sequence = 0, bf_total = 1, bf_protocolVersion = 2, bf_applicationVersion = []\<rparr>;
     f = \<lparr>wh_UUID = ''b:1'', wh_capability = ''x'', wh_originID = ''b'', wh_maxHops = 0\<rparr>;
     n2 = dispatch (sample_env 5 []) (dispatch (sample_env 4 []) n 0 (FBootstrap bf)) 0 (FWhoHas f)
   in peer_writeCh (pm_conns (n_peers n2) ! 0) =
     [structured (FIHave \<lparr>wi_uuid = ''b:1'', wi_nodeId = ''a'', wi_impedance = Num 1, wi_originNode = ''b''\<rparr>)]"
proof -
  define n where "n = n_RegisterCapability sample_hub ''x''"
  define bf where "bf = \<lparr>bf_hosts = Map.empty, bf_sequence = 0, bf_total = 1, bf_protocolVersion = 2, bf_applicationVersion = []\<rparr>"
  define f :: whoHasFrame where "f = \<lparr>wh_UUID = ''b:1'', wh_capability = ''x'', wh_originID = ''b'', wh_maxHops = 0\<rparr>"
  have p: "n_peers n = n_peers sample_hub" "n_sonar n = (NewSonar (NewManifest ''a'') [])\<lparr>sn_manifest := RegisterCapability (NewManifest ''a'') ''x''\<rparr>"
    by (simp_all add: n_def n_RegisterCapability_def sample_hub_peers) (simp add: NewSonar_def)
  have v: "n_protocolVersion n = 1"
    by (simp add: n_def n_RegisterCapability_def sample_hub_def add_peer_def fire_def Let_def pm_Add_def sample_node_def sample_config_def NewNode_def)
  have 1: "pm_peers (n_peers n) ''b'' = Some 0" "pm_inv (n_peers n)"
    by (simp_all add: p sample_hub_peers pm_inv_def newPeerConnWithWriter_def)
  have 2: "bf_protocolVersion bf \<noteq> ucast (n_protocolVersion n)" by (simp add: bf_def v)
  have 3: "wh_originID f \<noteq> n_id n" "fst (snd (ProcessWhoHas (e_now (sample_env 5 [])) (n_sonar n) f))" "wh_maxHops f = 0"
      "HasCapability (n_manifest n) (wh_capability f)" "accepts (pm_conns (n_peers n) ! 0)"
    by (simp_all add: p f_def NewSonar_def NewManifest_def RegisterCapability_def ProcessWhoHas_admit admit_def containsSeenLocked_def
        HasCapability_def suffix_def sample_hub_peers accepts_def newPeerConnWithWriter_def controlWriteQueueSize_def)
  have q: "peer_writeCh (pm_conns (n_peers n) ! 0) = []" "n_id n = ''a''" "m_impedance (n_manifest n) = Num 1"
    by (simp_all add: p sample_hub_peers newPeerConnWithWriter_def NewSonar_def NewManifest_def RegisterCapability_def MinImpedance_def)
  show ?thesis
    using version_mismatch_keeps_peer [OF 1 2 3, of "sample_env 4 []"] q
    unfolding Let_def n_def [symmetric] bf_def [symmetric] f_def [symmetric] by (simp add: f_def)
qed

text \<open>
  A grant can be lost behind one for somebody else. Every grant that arrives is offered to all requests of the
  node that wait, over channels with room for one; a grant for another request that was not looked at yet makes
  the node drop the request's own. The waiting request takes out the foreign grant, cannot open it, goes on
  waiting, and there is nothing left for it, although a grant that it could open had arrived.
\<close>

theorem grant_lost_behind_foreign_grant:
  assumes "n_credResolvers n nonce = Some []"
    and foreign: "UnsealGrantWithNonce lib now g1 priv (peer_pubKey (pm_conns (n_peers n) ! c1)) nonce = Inl err"
    and own: "UnsealGrantWithNonce lib now g2 priv (peer_pubKey (pm_conns (n_peers n) ! c2)) nonce = Inr p"
  shows "(let n1 = dispatch e2 (dispatch e1 n c1 (FCredGrant g1)) c2 (FCredGrant g2);
        (res, n2) = RequestCredential_round lib now priv nonce False n1
      in res = None \<and> n_credResolvers n2 nonce = Some []) \<and>
    fst (RequestCredential_round lib now priv nonce False (dispatch e2 n c2 (FCredGrant g2))) = Some (Inr (sp_credential p))"
  using assms by (simp add: dispatch_def handleCredentialGrantFrame_def offer_one_def RequestCredential_round_def Let_def)

theorem grant_lost_behind_foreign_grant_witness:
  "let n = (snd (add_peer 0 (sample_node ''a'') ''b'' open_stream (replicate 32 0)))\<lparr>n_credResolvers := [replicate 16 7 \<mapsto> []]\<rparr>;
     g = replicate 41 0;
     n1 = dispatch (sample_env 2 []) (dispatch (sample_env 1 []) n 0 (FCredGrant [])) 0 (FCredGrant g)
   in fst (RequestCredential_round sample_lib 7 (replicate 64 0) (replicate 16 7) False n1) = None \<and>
     fst (RequestCredential_round sample_lib 7 (replicate 64 0) (replicate 16 7) False (dispatch (sample_env 2 []) n 0 (FCredGrant g))) =
       Some (Inr no_credential)"
proof -
  define n where "n = (snd (add_peer 0 (sample_node ''a'') ''b'' open_stream (replicate 32 0)))\<lparr>n_credResolvers := [replicate 16 7 \<mapsto> []]\<rparr>"
  have k: "peer_pubKey (pm_conns (n_peers n) ! 0) = replicate 32 0"
    by (simp add: n_def add_peer_def fire_def Let_def pm_Add_def sample_node_def sample_config_def NewNode_def newPeerManager_def
        newPeerConnWithWriter_def)
  have r: "n_credResolvers n (replicate 16 7) = Some []" by (simp add: n_def)
  have f: "UnsealGrantWithNonce sample_lib 7 [] (replicate 64 0) (peer_pubKey (pm_conns (n_peers n) ! 0)) (replicate 16 7) = Inl SealedTooShort"
    by (simp add: UnsealGrantWithNonce_def)
  have o: "UnsealGrantWithNonce sample_lib 7 (replicate 41 0) (replicate 64 0) (peer_pubKey (pm_conns (n_peers n) ! 0)) (replicate 16 7) =
      Inr sample_payload"
    by (simp add: k UnsealGrantWithNonce_def Let_def curve_keys sample_lib_def sample_payload_def nonceEqual_iff)
  show ?thesis
    using grant_lost_behind_foreign_grant [OF r f o, of "sample_env 2 []" "sample_env 1 []"]
    unfolding Let_def n_def [symmetric] by (auto simp: sample_payload_def split: prod.splits)
qed

end
