(* ===== verification/Network.thy ===== *)
theory Network
  imports Control
begin

text \<open>
  A network of nodes: their models, joined by links that carry the messages of one connection's queue, through
  the writer goroutine, the encoding and the stream, to the handler at the other end of the link. A run is any sequence of
  deliveries, gossip ticks, deaths of connections and frames that other goroutines enqueue, so every interleaving of the
  nodes is a run. Queries end here (a flood takes a bounded number of deliveries, by the hop budget), and answers need
  not: an IHave frame has no hop budget, and two nodes whose best routes point at each other pass it back and forth.
\<close>

section \<open>Runs\<close>

type_synonym 'conn network = "node_id \<Rightarrow> 'conn node"
type_synonym links = "node_id \<times> nat \<Rightarrow> (node_id \<times> nat) option"

definition upd_node :: "node_id \<Rightarrow> ('conn node \<Rightarrow> 'conn node) \<Rightarrow> 'conn network \<Rightarrow> 'conn network" where
  "upd_node i f nw = nw(i := f (nw i))"

definition on_peers :: "(controlFrame peerManager \<Rightarrow> controlFrame peerManager) \<Rightarrow> 'conn node \<Rightarrow> 'conn node" where
  "on_peers f n = n\<lparr>n_peers := f (n_peers n)\<rparr>"

text \<open>What arrives at the other end when the writer of connection \<open>c\<close> of node \<open>i\<close> has its turn: bytes of a whole message.\<close>

definition departing :: "(controlFrame \<Rightarrow> octets option) \<Rightarrow> 'conn node \<Rightarrow> nat \<Rightarrow> octets option" where
  "departing marshal n c =
     (let pc = pm_conns (n_peers n) ! c in
      if peer_writerDone pc then None
      else case peer_writeCh pc of
        [] \<Rightarrow> None
      | m # q \<Rightarrow> if fst (write_msg marshal (stream_of pc) m) = None then payload marshal m else None)"

datatype 'conn net_event =
    Deliver node_id nat "'conn ctl_env"
  | Ticks node_id "'conn ctl_env" "node_id list" "string list"
  | Dies node_id nat
  | Enqueues node_id nat controlFrame

definition deliver :: "(controlFrame \<Rightarrow> octets option) \<Rightarrow> (octets \<Rightarrow> controlFrame option) \<Rightarrow> links \<Rightarrow> 'conn network \<Rightarrow>
    node_id \<Rightarrow> nat \<Rightarrow> 'conn ctl_env \<Rightarrow> 'conn network" where
  "deliver marshal unmarshal link nw i c e =
     (let nw1 = upd_node i (on_peers (pm_update c (controlWriteStep marshal))) nw in
      case (departing marshal (nw i) c, link (i, c)) of
        (Some d, Some (j, c')) \<Rightarrow>
          (case unmarshal d of
             None \<Rightarrow> upd_node j (\<lambda>n. peer_died marshal n c') nw1
           | Some f \<Rightarrow> upd_node j (\<lambda>n. dispatch e n c' f) nw1)
      | _ \<Rightarrow> nw1)"

fun net_step :: "(controlFrame \<Rightarrow> octets option) \<Rightarrow> (octets \<Rightarrow> controlFrame option) \<Rightarrow> links \<Rightarrow> 'conn network \<Rightarrow>
    'conn net_event \<Rightarrow> 'conn network" where
  "net_step marshal unmarshal link nw (Deliver i c e) = deliver marshal unmarshal link nw i c e"
| "net_step marshal unmarshal link nw (Ticks i e staleWalk caps) = upd_node i (sendGossipToAll marshal e staleWalk caps) nw"
| "net_step marshal unmarshal link nw (Dies i c) = upd_node i (\<lambda>n. peer_died marshal n c) nw"
| "net_step marshal unmarshal link nw (Enqueues i c f) = upd_node i (n_send c f) nw"

text \<open>The number of queries that reach a handler in a run.\<close>

fun is_query :: "controlFrame \<Rightarrow> bool" where
  "is_query (FWhoHas f) = True"
| "is_query _ = False"

fun query_arrives :: "(controlFrame \<Rightarrow> octets option) \<Rightarrow> (octets \<Rightarrow> controlFrame option) \<Rightarrow> links \<Rightarrow> 'conn network \<Rightarrow>
    'conn net_event \<Rightarrow> bool" where
  "query_arrives marshal unmarshal link nw (Deliver i c e) =
     (case (departing marshal (nw i) c, link (i, c)) of
        (Some d, Some _) \<Rightarrow> (case unmarshal d of Some f \<Rightarrow> is_query f | None \<Rightarrow> False)
      | _ \<Rightarrow> False)"
| "query_arrives marshal unmarshal link nw _ = False"

fun query_arrivals :: "(controlFrame \<Rightarrow> octets option) \<Rightarrow> (octets \<Rightarrow> controlFrame option) \<Rightarrow> links \<Rightarrow> 'conn network \<Rightarrow>
    'conn net_event list \<Rightarrow> nat" where
  "query_arrivals marshal unmarshal link nw [] = 0"
| "query_arrivals marshal unmarshal link nw (ev # evs) =
     (if query_arrives marshal unmarshal link nw ev then 1 else 0) +
     query_arrivals marshal unmarshal link (net_step marshal unmarshal link nw ev) evs"

section \<open>The potential of a flood\<close>

text \<open>
  A query with \<open>h\<close> hops left is worth the deliveries of the tree it can still cause when no node has more than
  \<open>P\<close> peers.
\<close>

definition hop_weight :: "nat \<Rightarrow> nat \<Rightarrow> nat" where
  "hop_weight P h = (\<Sum>k\<le>h. P ^ k)"

lemma hop_weight_0: "hop_weight P 0 = 1"
  by (simp add: hop_weight_def)

lemma hop_weight_Suc: "hop_weight P (Suc h) = 1 + P * hop_weight P h"
  unfolding hop_weight_def sum.atMost_Suc_shift by (simp add: sum_distrib_left)

fun frame_weight :: "nat \<Rightarrow> controlFrame \<Rightarrow> nat" where
  "frame_weight P (FWhoHas f) = hop_weight P (unat (wh_maxHops f))"
| "frame_weight P _ = 0"

definition msg_weight :: "nat \<Rightarrow> (controlFrame \<Rightarrow> octets option) \<Rightarrow> (octets \<Rightarrow> controlFrame option) \<Rightarrow> controlFrame controlMsg \<Rightarrow> nat" where
  "msg_weight P marshal unmarshal m =
     (case payload marshal m of None \<Rightarrow> 0 | Some d \<Rightarrow> (case unmarshal d of None \<Rightarrow> 0 | Some f \<Rightarrow> frame_weight P f))"

text \<open>The law of the encoding: what it encodes is decoded as it was.\<close>

definition codec :: "(controlFrame \<Rightarrow> octets option) \<Rightarrow> (octets \<Rightarrow> controlFrame option) \<Rightarrow> bool" where
  "codec marshal unmarshal \<longleftrightarrow> (\<forall>f d. marshal f = Some d \<longrightarrow> unmarshal d = Some f)"

definition conn_weight :: "(controlFrame controlMsg \<Rightarrow> nat) \<Rightarrow> controlFrame peerConn \<Rightarrow> nat" where
  "conn_weight w pc = sum_list (map w (peer_writeCh pc))"

definition pm_weight :: "(controlFrame controlMsg \<Rightarrow> nat) \<Rightarrow> controlFrame peerManager \<Rightarrow> nat" where
  "pm_weight w pm = sum_list (map (conn_weight w) (pm_conns pm))"

lemma sum_list_upd_le:
  fixes xs :: "nat list"
  assumes "c < length xs \<Longrightarrow> y \<le> xs ! c + k"
  shows "sum_list (xs[c := y]) \<le> sum_list xs + k"
proof (cases "c < length xs")
  case True
  then have "sum_list (xs[c := y]) + xs ! c = sum_list xs + y"
    using elem_le_sum_list [OF True] by (simp add: sum_list_update)
  then show ?thesis using assms [OF True] by linarith
qed (simp add: list_update_beyond)

lemma pm_weight_update:
  assumes "\<And>pc. conn_weight w (f pc) \<le> conn_weight w pc + k"
  shows "pm_weight w (pm_update c f pm) \<le> pm_weight w pm + k"
  using assms unfolding pm_weight_def pm_update_def
  by (simp add: map_update) (rule sum_list_upd_le, simp)

lemma conn_weight_send:
  "conn_weight w (snd (sendControl pc f)) \<le> conn_weight w pc + w (structured f)"
  "conn_weight w (snd (sendControlRaw pc d)) \<le> conn_weight w pc + w \<lparr>cm_frame = None, cm_raw = Some d\<rparr>"
  by (simp_all add: conn_weight_def sendControl_def sendControlRaw_def)

lemma pm_weight_on_conns:
  assumes "\<And>pc. conn_weight w (f pc) \<le> conn_weight w pc + k"
  shows "pm_weight w (on_conns P f cs pm) \<le> pm_weight w pm + length cs * k"
proof (induction cs arbitrary: pm)
  case (Cons c cs)
  have "pm_weight w (if P (pm_conns pm ! c) then pm_update c f pm else pm) \<le> pm_weight w pm + k"
    using pm_weight_update [OF assms, of c pm] by auto
  then show ?case using Cons.IH [of "if P (pm_conns pm ! c) then pm_update c f pm else pm"] by (simp add: on_conns_Cons)
qed simp

lemma conn_weight_write: "conn_weight w (controlWriteStep marshal pc) \<le> conn_weight w pc"
  by (auto simp: conn_weight_def controlWriteStep_def Let_def split: list.split prod.split)

lemma conn_weight_stop: "conn_weight w (stopWriter marshal pc) \<le> conn_weight w pc"
proof -
  have "conn_weight w ((controlWriteStep marshal ^^ k) x) \<le> conn_weight w x" for k x
    by (induction k) (auto intro: order_trans [OF conn_weight_write])
  from this [of "Suc (length (peer_writeCh pc))" "pc\<lparr>peer_writerStopped := True, peer_chClosed := True, peer_controlClosed := True\<rparr>"]
  show ?thesis by (simp add: stopWriter_def Let_def conn_weight_def del: funpow.simps)
qed

text \<open>Frames other than queries weigh nothing, under the law of the encoding.\<close>

lemma structured_weight: "codec marshal unmarshal \<Longrightarrow> msg_weight P marshal unmarshal (structured f) \<le> frame_weight P f"
  by (auto simp: codec_def msg_weight_def payload_def split: option.split)

lemma light: "codec marshal unmarshal \<Longrightarrow> \<not> is_query f \<Longrightarrow> msg_weight P marshal unmarshal (structured f) = 0"
  using structured_weight [of marshal unmarshal P f] by (cases f) auto

lemma send_weight:
  assumes "codec marshal unmarshal" "\<not> is_query f"
  shows "pm_weight (msg_weight P marshal unmarshal) (snd (pm_send c f pm)) \<le> pm_weight (msg_weight P marshal unmarshal) pm"
  unfolding pm_send_update
  using pm_weight_update [of "msg_weight P marshal unmarshal" "\<lambda>pc. snd (sendControl pc f)" 0 c pm]
    conn_weight_send(1) [of "msg_weight P marshal unmarshal" _ f] light [OF assms, of P] by simp

abbreviation node_weight :: "nat \<Rightarrow> (controlFrame \<Rightarrow> octets option) \<Rightarrow> (octets \<Rightarrow> controlFrame option) \<Rightarrow> 'conn node \<Rightarrow> nat" where
  "node_weight P marshal unmarshal n \<equiv> pm_weight (msg_weight P marshal unmarshal) (n_peers n)"

lemma n_send_weight:
  "codec marshal unmarshal \<Longrightarrow> \<not> is_query f \<Longrightarrow> node_weight P marshal unmarshal (n_send c f n) \<le> node_weight P marshal unmarshal n"
  by (simp add: n_send_def send_weight)

lemma whohas_weight:
  assumes cd: "codec marshal unmarshal" and p: "length (e_peerWalk e) \<le> P"
  shows "node_weight P marshal unmarshal (handleWhoHasFrame e n c f) + 1 \<le>
    node_weight P marshal unmarshal n + hop_weight P (unat (wh_maxHops f))"
proof -
  let ?w = "msg_weight P marshal unmarshal"
  have pos: "1 \<le> hop_weight P h" for h by (cases h) (simp_all add: hop_weight_0 hop_weight_Suc)
  show ?thesis
  proof (cases "wh_originID f = n_id n \<or> \<not> fst (admit (e_now e) (n_sonar n) (wh_UUID f))")
    case True
    then have "n_peers (handleWhoHasFrame e n c f) = n_peers n"
      by (auto simp: handleWhoHasFrame_def ProcessWhoHas_admit Let_def split: prod.split)
    then show ?thesis using pos by simp
  next
    case False
    then obtain s where a: "admit (e_now e) (n_sonar n) (wh_UUID f) = (True, s)" "wh_originID f \<noteq> n_id n"
      by (cases "admit (e_now e) (n_sonar n) (wh_UUID f)") auto
    define ih where "ih = FIHave \<lparr>wi_uuid = wh_UUID f, wi_nodeId = n_id n, wi_impedance = m_impedance (n_manifest n),
        wi_originNode = wh_originID f\<rparr>"
    define pm where "pm = (if HasCapability (n_manifest n) (wh_capability f)
        then pm_update c (\<lambda>pc. snd (sendControl pc ih)) (n_peers n) else n_peers n)"
    have pm: "pm_weight ?w pm \<le> pm_weight ?w (n_peers n)"
      using send_weight [OF cd, of ih P c "n_peers n"] by (simp add: pm_def pm_send_update ih_def)
    note eq = whohas_peers [OF a, of c, folded ih_def, folded pm_def, unfolded Let_def]
    show ?thesis
    proof (cases "wh_maxHops f = 0")
      case True
      then show ?thesis using pm pos [of 0] by (simp add: eq hop_weight_0)
    next
      case hops: False
      let ?fw = "FWhoHas (f\<lparr>wh_maxHops := wh_maxHops f - 1\<rparr>)"
      have h: "unat (wh_maxHops f) = Suc (unat (wh_maxHops f - 1))" using hops by (simp add: unat_minus_one unat_gt_0)
      have "conn_weight ?w (snd (sendControl pc ?fw)) \<le> conn_weight ?w pc + hop_weight P (unat (wh_maxHops f - 1))" for pc
        using conn_weight_send(1) [of ?w pc ?fw] structured_weight [OF cd, of P ?fw] by simp
      then have "pm_weight ?w (n_peers (handleWhoHasFrame e n c f)) \<le>
          pm_weight ?w pm + length (pm_All (e_peerWalk e) pm) * hop_weight P (unat (wh_maxHops f - 1))"
        unfolding eq using hops by (simp add: pm_weight_on_conns)
      also have "\<dots> \<le> pm_weight ?w (n_peers n) + P * hop_weight P (unat (wh_maxHops f - 1))"
        using pm p by (intro add_mono mult_right_mono) (simp_all add: pm_All_def)
      finally show ?thesis by (simp add: h hop_weight_Suc)
    qed
  qed
qed

lemma closeDead_weight: "pm_weight w (pm_update c closeDead pm) \<le> pm_weight w pm"
  using pm_weight_update [of w closeDead 0 c pm] by (simp add: conn_weight_def closeDead_def)

lemma dispatch_weight:
  assumes cd: "codec marshal unmarshal" and p: "length (e_peerWalk e) \<le> P"
  shows "node_weight P marshal unmarshal (dispatch e n c f) + (if is_query f then 1 else 0) \<le>
    node_weight P marshal unmarshal n + frame_weight P f"
proof (cases f)
  case (FWhoHas x)
  then show ?thesis using whohas_weight [OF cd p] by (simp add: dispatch_def)
next
  case (FIHave ih)
  have "node_weight P marshal unmarshal (n_send k (FIHave ih) (n\<lparr>n_sonar := s\<rparr>)) \<le> node_weight P marshal unmarshal n" for k s
    using n_send_weight [OF cd, of "FIHave ih" P k "n\<lparr>n_sonar := s\<rparr>"] by simp
  then show ?thesis using FIHave
    by (auto simp: dispatch_def handleIHaveFrame_def sendToPeer_def Let_def split: prod.split option.split)
next
  case (FBootstrap bf)
  then show ?thesis by (simp add: dispatch_def handleBootstrapFrame_def closeDead_weight Let_def)
next
  case (FCredRequest req)
  have "node_weight P marshal unmarshal (n_send c (FCredGrant s) n) \<le> node_weight P marshal unmarshal n" for s
    by (rule n_send_weight [OF cd]) simp
  then show ?thesis using FCredRequest
    by (auto simp: dispatch_def handleCredentialRequestFrame_def split: option.split sum.split)
next
  case (FRelayOpen req)
  then show ?thesis using send_weight [OF cd]
    by (auto simp: dispatch_def handleRelayOpenFrame_def Let_def split: sum.split)
qed (auto simp: dispatch_def handleGossipFrame_def handleCredentialGrantFrame_def handleRelayAcceptFrame_def Let_def split: option.split)

lemma death_weight: "node_weight P marshal unmarshal (peer_died marshal n c) \<le> node_weight P marshal unmarshal n"
proof -
  let ?w = "msg_weight P marshal unmarshal"
  have u: "pm_weight ?w (pm_update c f pm) \<le> pm_weight ?w pm" if "\<And>pc. conn_weight ?w (f pc) \<le> conn_weight ?w pc" for f c pm
    using pm_weight_update [of ?w f 0 c pm] that by simp
  have same: "pm_weight ?w (pm_Remove pm k) = pm_weight ?w pm" for pm k by (simp add: pm_weight_def)
  have q: "conn_weight ?w (pc\<lparr>peer_deathFired := True\<rparr>) \<le> conn_weight ?w pc" "conn_weight ?w (closeDead pc) \<le> conn_weight ?w pc"
    "conn_weight ?w (pc\<lparr>peer_sessionClosed := True\<rparr>) \<le> conn_weight ?w pc" for pc
    by (simp_all add: conn_weight_def closeDead_def)
  let ?pm1 = "pm_update c (\<lambda>pc. pc\<lparr>peer_deathFired := True\<rparr>) (n_peers n)"
  have "pm_weight ?w (pm_update c (stopWriter marshal) (pm_update c (\<lambda>pc. pc\<lparr>peer_sessionClosed := True\<rparr>)
      (pm_Remove (pm_update c closeDead ?pm1) k))) \<le> pm_weight ?w (n_peers n)" for k
    by (rule order_trans [OF u [OF conn_weight_stop]], rule order_trans [OF u [OF q(3)]], unfold same,
        rule order_trans [OF u [OF q(2)]], rule u [OF q(1)])
  then show ?thesis by (simp add: peer_died_def handlePeerDeath_def Let_def)
qed

lemma gossip_weight:
  assumes cd: "codec marshal unmarshal"
  shows "node_weight P marshal unmarshal (sendGossipToAll marshal e staleWalk caps n) \<le> node_weight P marshal unmarshal n"
proof -
  have "msg_weight P marshal unmarshal \<lparr>cm_frame = None, cm_raw = Some d\<rparr> = 0" if "marshal (FGossip g) = Some d" for g d
    using cd that by (simp add: codec_def msg_weight_def payload_def)
  then have "pm_weight (msg_weight P marshal unmarshal) (snd (snd (broadcastAllRaw walk pm d))) \<le> pm_weight (msg_weight P marshal unmarshal) pm"
    if "marshal (FGossip g) = Some d" for g d walk pm
    unfolding broadcast_conns using that conn_weight_send(2) [of "msg_weight P marshal unmarshal" _ d]
      pm_weight_on_conns [of "msg_weight P marshal unmarshal" "\<lambda>pc. snd (sendControlRaw pc d)" 0] by simp
  then show ?thesis
    by (auto simp: sendGossipToAll_def Let_def split: prod.split option.split)
qed

text \<open>The weight of a network, and the step of a run.\<close>

definition network_weight :: "nat \<Rightarrow> (controlFrame \<Rightarrow> octets option) \<Rightarrow> (octets \<Rightarrow> controlFrame option) \<Rightarrow> node_id set \<Rightarrow> 'conn network \<Rightarrow> nat" where
  "network_weight P marshal unmarshal N nw = (\<Sum>i\<in>N. node_weight P marshal unmarshal (nw i))"

text \<open>The events the bound is about: at nodes of the network, broadcasts to at most \<open>P\<close> peers, and no new queries.\<close>

fun bounded_event :: "nat \<Rightarrow> node_id set \<Rightarrow> 'conn net_event \<Rightarrow> bool" where
  "bounded_event P N (Deliver i c e) \<longleftrightarrow> i \<in> N \<and> length (e_peerWalk e) \<le> P"
| "bounded_event P N (Ticks i e staleWalk caps) \<longleftrightarrow> i \<in> N"
| "bounded_event P N (Dies i c) \<longleftrightarrow> i \<in> N"
| "bounded_event P N (Enqueues i c f) \<longleftrightarrow> i \<in> N \<and> \<not> is_query f"

lemma network_weight_upd:
  assumes "finite N" "i \<in> N" "node_weight P marshal unmarshal (f (nw i)) + a \<le> node_weight P marshal unmarshal (nw i) + b"
  shows "network_weight P marshal unmarshal N (upd_node i f nw) + a \<le> network_weight P marshal unmarshal N nw + b"
proof -
  have "(\<Sum>j\<in>N. node_weight P marshal unmarshal (if j = i then f (nw i) else nw j)) =
      node_weight P marshal unmarshal (f (nw i)) + (\<Sum>j\<in>N - {i}. node_weight P marshal unmarshal (nw j))"
    using assms(1,2) by (subst sum.remove [of N i]) auto
  moreover have "network_weight P marshal unmarshal N nw =
      node_weight P marshal unmarshal (nw i) + (\<Sum>j\<in>N - {i}. node_weight P marshal unmarshal (nw j))"
    unfolding network_weight_def using assms(1,2) by (rule sum.remove)
  ultimately show ?thesis using assms(3) by (simp add: network_weight_def upd_node_def if_distrib)
qed

lemma departing_weight:
  assumes "departing marshal n c = Some d" "unmarshal d = Some f" "c < length (pm_conns (n_peers n))"
  shows "node_weight P marshal unmarshal (on_peers (pm_update c (controlWriteStep marshal)) n) + frame_weight P f \<le>
    node_weight P marshal unmarshal n"
proof -
  let ?w = "msg_weight P marshal unmarshal" and ?pc = "pm_conns (n_peers n) ! c"
  obtain m q where q: "\<not> peer_writerDone ?pc" "peer_writeCh ?pc = m # q" "payload marshal m = Some d"
    using assms(1) by (auto simp: departing_def Let_def split: if_splits list.splits)
  have w: "?w m = frame_weight P f" by (simp add: msg_weight_def q(3) assms(2))
  have "conn_weight ?w (controlWriteStep marshal ?pc) + frame_weight P f = conn_weight ?w ?pc"
    using q(1,2) w by (simp add: conn_weight_def controlWriteStep_def Let_def split: prod.split)
  moreover have "sum_list ((map (conn_weight ?w) (pm_conns (n_peers n)))[c := conn_weight ?w (controlWriteStep marshal ?pc)]) + conn_weight ?w ?pc =
      sum_list (map (conn_weight ?w) (pm_conns (n_peers n))) + conn_weight ?w (controlWriteStep marshal ?pc)"
    using assms(3) elem_le_sum_list [of c "map (conn_weight ?w) (pm_conns (n_peers n))"] by (simp add: sum_list_update)
  ultimately show ?thesis by (simp add: on_peers_def pm_weight_def pm_update_def map_update)
qed

lemma net_step_weight:
  assumes cd: "codec marshal unmarshal" and fin: "finite N" and b: "bounded_event P N ev"
    and links: "\<And>i c j c'. link (i, c) = Some (j, c') \<Longrightarrow> j \<in> N \<and> c < length (pm_conns (n_peers (nw i)))"
  shows "network_weight P marshal unmarshal N (net_step marshal unmarshal link nw ev) +
      (if query_arrives marshal unmarshal link nw ev then 1 else 0) \<le> network_weight P marshal unmarshal N nw"
proof (cases ev)
  case (Deliver i c e)
  let ?nw1 = "upd_node i (on_peers (pm_update c (controlWriteStep marshal))) nw"
  have i: "i \<in> N" "length (e_peerWalk e) \<le> P" using b Deliver by auto
  have "pm_weight (msg_weight P marshal unmarshal) (pm_update c (controlWriteStep marshal) pm) \<le> pm_weight (msg_weight P marshal unmarshal) pm" for pm
    using pm_weight_update [of _ "controlWriteStep marshal" 0 c pm] conn_weight_write by simp
  then have w1: "network_weight P marshal unmarshal N ?nw1 \<le> network_weight P marshal unmarshal N nw"
    using network_weight_upd [OF fin i(1), of P marshal unmarshal _ nw 0 0] by (simp add: on_peers_def)
  show ?thesis
  proof (cases "\<exists>d j c'. departing marshal (nw i) c = Some d \<and> link (i, c) = Some (j, c')")
    case False
    then show ?thesis using w1 Deliver by (auto simp: deliver_def Let_def split: option.split prod.split)
  next
    case True
    then obtain d j c' where d: "departing marshal (nw i) c = Some d" "link (i, c) = Some (j, c')" by blast
    have j: "j \<in> N" "c < length (pm_conns (n_peers (nw i)))" using links [OF d(2)] by auto
    show ?thesis
    proof (cases "unmarshal d")
      case None
      have "network_weight P marshal unmarshal N (upd_node j (\<lambda>n. peer_died marshal n c') ?nw1) \<le> network_weight P marshal unmarshal N ?nw1"
        using network_weight_upd [OF fin j(1), of P marshal unmarshal "\<lambda>n. peer_died marshal n c'" ?nw1 0 0] by (simp add: death_weight)
      then show ?thesis using w1 Deliver d None by (simp add: deliver_def)
    next
      case (Some f)
      have "network_weight P marshal unmarshal N ?nw1 + frame_weight P f \<le> network_weight P marshal unmarshal N nw"
        using network_weight_upd [OF fin i(1), of P marshal unmarshal _ nw "frame_weight P f" 0] departing_weight [of marshal "nw i" c d unmarshal f P, OF d(1) Some j(2)] by simp
      moreover have "network_weight P marshal unmarshal N (upd_node j (\<lambda>n. dispatch e n c' f) ?nw1) + (if is_query f then 1 else 0) \<le>
          network_weight P marshal unmarshal N ?nw1 + frame_weight P f"
        by (rule network_weight_upd [OF fin j(1)]) (rule dispatch_weight [OF cd i(2)])
      ultimately show ?thesis using Deliver d Some by (simp add: deliver_def)
    qed
  qed
next
  case (Ticks i e sw caps)
  then show ?thesis using network_weight_upd [OF fin, of i P marshal unmarshal "sendGossipToAll marshal e sw caps" nw 0 0] b
    by (simp add: gossip_weight [OF cd])
next
  case (Dies i c)
  then show ?thesis using network_weight_upd [OF fin, of i P marshal unmarshal "\<lambda>n. peer_died marshal n c" nw 0 0] b by (simp add: death_weight)
next
  case (Enqueues i c f)
  then show ?thesis using network_weight_upd [OF fin, of i P marshal unmarshal "n_send c f" nw 0 0] b
    by (simp add: n_send_weight [OF cd])
qed

text \<open>The connections of a node stay where they are.\<close>

abbreviation n_conns :: "'conn node \<Rightarrow> nat" where
  "n_conns n \<equiv> length (pm_conns (n_peers n))"

lemma conns_dispatch: "n_conns (dispatch e n c f) = n_conns n"
proof (cases f)
  case (FWhoHas x)
  then show ?thesis
    by (auto simp: dispatch_def handleWhoHasFrame_def n_broadcastExcept_def n_send_def pm_send_update broadcast_conns Let_def
        split: prod.split option.split)
next
  case (FIHave x)
  then show ?thesis by (auto simp: dispatch_def handleIHaveFrame_def sendToPeer_def n_send_def pm_send_update Let_def split: prod.split option.split)
qed (auto simp: dispatch_def handleGossipFrame_def handleBootstrapFrame_def handleCredentialRequestFrame_def handleCredentialGrantFrame_def
    handleRelayOpenFrame_def handleRelayAcceptFrame_def n_send_def pm_send_update Let_def split: option.split sum.split)

lemma conns_others:
  "n_conns (peer_died marshal n c) = n_conns n" "n_conns (n_send c f n) = n_conns n"
  "n_conns (on_peers (pm_update c g) n) = n_conns n" "n_conns (sendGossipToAll marshal e sw caps n) = n_conns n"
  by (auto simp: peer_died_def handlePeerDeath_def n_send_def pm_send_update on_peers_def sendGossipToAll_def broadcast_conns Let_def
      split: prod.split option.split)

lemma conns_step: "n_conns (net_step marshal unmarshal link nw ev i) = n_conns (nw i)"
  by (cases ev) (auto simp: deliver_def upd_node_def conns_others conns_dispatch Let_def split: option.split prod.split)

text \<open>
  Property C3. Floods end. In every run of a network in which no node has more than \<open>P\<close> peers, however deliveries, gossip, deaths of
  connections and other frames interleave, the number of queries that reach a handler is at most the weight of the
  queries that are queued at the start, \<open>P^0 + ... + P^h\<close> for one with \<open>h\<close> hops left. A new query of a node adds at most
  that for each of its peers, so it causes at most \<open>P * (P^0 + ... + P^h)\<close> deliveries, whatever the
  topology.
\<close>

theorem flood_terminates:
  assumes cd: "codec marshal unmarshal" and fin: "finite N" and events: "\<forall>ev\<in>set evs. bounded_event P N ev"
    and links: "\<forall>i c j c'. link (i, c) = Some (j, c') \<longrightarrow> j \<in> N \<and> c < n_conns (nw i)"
  shows "query_arrivals marshal unmarshal link nw evs \<le> network_weight P marshal unmarshal N nw \<and>
    (\<forall>i\<in>N. \<forall>walk cap. length walk \<le> P \<longrightarrow>
       network_weight P marshal unmarshal N (upd_node i (\<lambda>n. snd (snd (Sonar_start walk n cap))) nw) \<le>
       network_weight P marshal unmarshal N nw + P * (\<Sum>k\<le>unat (MaxSonarHops (nw i)). P ^ k))"
proof (intro conjI ballI allI impI)
  show "query_arrivals marshal unmarshal link nw evs \<le> network_weight P marshal unmarshal N nw"
    using events links
  proof (induction evs arbitrary: nw)
    case (Cons ev evs)
    let ?nw = "net_step marshal unmarshal link nw ev"
    have "network_weight P marshal unmarshal N ?nw + (if query_arrives marshal unmarshal link nw ev then 1 else 0) \<le>
        network_weight P marshal unmarshal N nw"
      using Cons.prems by (intro net_step_weight [OF cd fin]) auto
    moreover have "query_arrivals marshal unmarshal link ?nw evs \<le> network_weight P marshal unmarshal N ?nw"
      using Cons.prems by (intro Cons.IH) (auto simp: conns_step)
    ultimately show ?case by simp
  qed simp
next
  fix i and walk :: "node_id list" and cap assume i: "i \<in> N" and p: "length walk \<le> P"
  let ?n = "nw i" and ?h = "unat (MaxSonarHops (nw i))" and ?w = "msg_weight P marshal unmarshal"
  obtain f s1 where cw: "CreateWhoHas (n_sonar ?n) cap (MaxSonarHops ?n) = (f, s1)" by fastforce
  have fh: "wh_maxHops f = MaxSonarHops ?n" using cw by (auto simp: CreateWhoHas_def split: prod.splits)
  obtain col s2 where sc: "StartCollection s1 (wh_UUID f) = (col, s2)" by fastforce
  have "n_peers (snd (snd (Sonar_start walk ?n cap))) = on_conns (\<lambda>_. True) (\<lambda>pc. snd (sendControl pc (FWhoHas f))) (pm_All walk (n_peers ?n)) (n_peers ?n)"
    by (simp add: Sonar_start_def cw sc n_broadcastAll_def broadcast_conns)
  moreover have "conn_weight ?w (snd (sendControl pc (FWhoHas f))) \<le> conn_weight ?w pc + hop_weight P ?h" for pc
    using conn_weight_send(1) [of ?w pc "FWhoHas f"] structured_weight [OF cd, of P "FWhoHas f"] by (simp add: fh)
  ultimately have "node_weight P marshal unmarshal (snd (snd (Sonar_start walk ?n cap))) \<le>
      node_weight P marshal unmarshal ?n + length (pm_All walk (n_peers ?n)) * hop_weight P ?h"
    by (simp add: pm_weight_on_conns)
  also have "\<dots> \<le> node_weight P marshal unmarshal ?n + P * hop_weight P ?h"
    using p by (simp add: pm_All_def)
  finally show "network_weight P marshal unmarshal N (upd_node i (\<lambda>n. snd (snd (Sonar_start walk n cap))) nw) \<le>
      network_weight P marshal unmarshal N nw + P * (\<Sum>k\<le>?h. P ^ k)"
    using network_weight_upd [OF fin i, of P marshal unmarshal "\<lambda>n. snd (snd (Sonar_start walk n cap))" nw 0 "P * hop_weight P ?h"]
    by (simp add: hop_weight_def)
qed

text \<open>An encoding of one frame, for examples.\<close>

definition one_frame :: "controlFrame \<Rightarrow> controlFrame \<Rightarrow> octets option" where
  "one_frame f0 f = (if f = f0 then Some [1] else None)"

theorem flood_terminates_witness:
  "let f = FWhoHas \<lparr>wh_UUID = ''b:1'', wh_capability = ''x'', wh_originID = ''o'', wh_maxHops = 0\<rparr>;
     nw = (\<lambda>_. sample_hub)(''a'' := n_send 0 f sample_hub);
     link = [(''a'', 0) \<mapsto> (''b'', 0)]
   in query_arrivals (one_frame f) (\<lambda>_. Some f) link nw [Deliver ''a'' 0 (sample_env 5 [])] = 1 \<and>
      1 \<le> network_weight 0 (one_frame f) (\<lambda>_. Some f) {''a'', ''b''} nw"
proof -
  define f where "f = FWhoHas \<lparr>wh_UUID = ''b:1'', wh_capability = ''x'', wh_originID = ''o'', wh_maxHops = 0\<rparr>"
  define nw where "nw = (\<lambda>_. sample_hub)(''a'' := n_send 0 f sample_hub)"
  define link :: links where "link = [(''a'', 0) \<mapsto> (''b'', 0)]"
  have cd: "codec (one_frame f) (\<lambda>_. Some f)" by (simp add: codec_def one_frame_def)
  have ev: "\<forall>ev\<in>set [Deliver ''a'' 0 (sample_env 5 [])]. bounded_event 0 {''a'', ''b''} ev" by (simp add: sample_env_def)
  have l: "\<forall>i c j c'. link (i, c) = Some (j, c') \<longrightarrow> j \<in> {''a'', ''b''} \<and> c < n_conns (nw i)"
    by (simp add: link_def nw_def conns_others sample_hub_peers)
  have q: "peer_writeCh (pm_conns (n_peers (nw ''a'')) ! 0) = [structured f]" "\<not> peer_writerDone (pm_conns (n_peers (nw ''a'')) ! 0)"
    "stream_of (pm_conns (n_peers (nw ''a'')) ! 0) = open_stream"
    by (simp_all add: nw_def n_send_def pm_send_update pm_update_def sample_hub_peers newPeerConnWithWriter_def sendControl_def
        controlWriteQueueSize_def stream_of_def)
  have "departing (one_frame f) (nw ''a'') 0 = Some [1]"
    by (simp add: departing_def q write_msg_def WriteFrame_def one_frame_def w_write_def open_stream_def payload_def)
  then have one: "query_arrivals (one_frame f) (\<lambda>_. Some f) link nw [Deliver ''a'' 0 (sample_env 5 [])] = 1"
    by (simp add: link_def f_def)
  show ?thesis
    using flood_terminates [OF cd _ ev l] one unfolding Let_def f_def [symmetric] nw_def [symmetric] link_def [symmetric] by simp
qed

section \<open>Answers may circulate for ever\<close>

text \<open>
  An answer to node \<open>w\<close> waits at node \<open>a\<close> for its neighbour \<open>b\<close>, and the best routes of the two to \<open>w\<close> lead
  to each other. The connections are alive and neither node waits for the answer itself.
\<close>

definition caught :: "(controlFrame \<Rightarrow> octets option) \<Rightarrow> (octets \<Rightarrow> controlFrame option) \<Rightarrow> links \<Rightarrow> wireIHave \<Rightarrow>
    node_id \<Rightarrow> nat \<Rightarrow> node_id \<Rightarrow> nat \<Rightarrow> 'conn network \<Rightarrow> bool" where
  "caught marshal unmarshal link f a ca b cb nw \<longleftrightarrow>
     a \<noteq> b \<and> link (a, ca) = Some (b, cb) \<and> link (b, cb) = Some (a, ca) \<and>
     (\<exists>d. marshal (FIHave f) = Some d \<and> unmarshal d = Some (FIHave f)) \<and> wi_originNode f \<noteq> [] \<and>
     (\<forall>(x, cx, y) \<in> {(a, ca, b), (b, cb, a)}.
        pm_peers (n_peers (nw x)) y = Some cx \<and> cx < n_conns (nw x) \<and> live (pm_conns (n_peers (nw x)) ! cx) \<and>
        map_option pc_nextHop (BestRoute (n_gradient (nw x)) (wi_originNode f)) = Some y \<and>
        sn_collectors (n_sonar (nw x)) (wi_uuid f) = None) \<and>
     peer_writeCh (pm_conns (n_peers (nw a)) ! ca) = [structured (FIHave f)] \<and>
     peer_writeCh (pm_conns (n_peers (nw b)) ! cb) = []"

lemma live_write_one:
  assumes "live pc" "peer_writeCh pc = [structured f]" "marshal f = Some d"
  shows "live (controlWriteStep marshal pc)" "peer_writeCh (controlWriteStep marshal pc) = []"
    "fst (write_msg marshal (stream_of pc) (structured f)) = None" "\<not> peer_writerDone pc"
proof -
  have s: "stream_of pc = peer_control pc" "w_room (peer_control pc) = None" "\<not> peer_writerDone pc"
    using assms(1) by (auto simp: live_def stream_of_def)
  obtain w where "write_msg marshal (peer_control pc) (structured f) = (None, w)" "w_room w = None"
    using WriteFrame_room [of _ marshal f d, OF s(2) assms(3)] by (cases "WriteFrame marshal (peer_control pc) f") (simp add: write_msg_def)
  then show "live (controlWriteStep marshal pc)" "peer_writeCh (controlWriteStep marshal pc) = []"
    "fst (write_msg marshal (stream_of pc) (structured f)) = None" "\<not> peer_writerDone pc"
    using assms(1,2) s by (simp_all add: live_def controlWriteStep_def)
qed

lemma caught_passes:
  assumes t: "caught marshal unmarshal link f a ca b cb nw"
  shows "caught marshal unmarshal link f b cb a ca (net_step marshal unmarshal link nw (Deliver a ca e))"
proof -
  obtain d where d: "marshal (FIHave f) = Some d" "unmarshal d = Some (FIHave f)" using t by (auto simp: caught_def)
  let ?pa = "pm_conns (n_peers (nw a)) ! ca" and ?pb = "pm_conns (n_peers (nw b)) ! cb"
  have qa: "live ?pa" "peer_writeCh ?pa = [structured (FIHave f)]" and qb: "live ?pb" "peer_writeCh ?pb = []"
    and ab: "a \<noteq> b" "ca < n_conns (nw a)" "cb < n_conns (nw b)"
    and l: "link (a, ca) = Some (b, cb)" "link (b, cb) = Some (a, ca)" and o: "wi_originNode f \<noteq> []"
    and pa: "pm_peers (n_peers (nw a)) b = Some ca" and pb: "pm_peers (n_peers (nw b)) a = Some cb"
    and ra: "map_option pc_nextHop (BestRoute (n_gradient (nw a)) (wi_originNode f)) = Some b"
    and rb: "map_option pc_nextHop (BestRoute (n_gradient (nw b)) (wi_originNode f)) = Some a"
    and ka: "sn_collectors (n_sonar (nw a)) (wi_uuid f) = None" and kb: "sn_collectors (n_sonar (nw b)) (wi_uuid f) = None"
    using t by (simp_all add: caught_def)
  note w = live_write_one [of _ _ marshal, OF qa d(1)]
  have dep: "departing marshal (nw a) ca = Some d"
    using w(3,4) qa(2) d(1) by (simp add: departing_def payload_def)
  obtain r where r: "BestRoute (n_gradient (nw b)) (wi_originNode f) = Some r" "pc_nextHop r = a" using rb by auto
  have del: "DeliverResponse (n_sonar (nw b)) \<lparr>ih_UUID = wi_uuid f, ih_nodeID = wi_nodeId f, ih_impedance = wi_impedance f\<rparr> =
      (False, n_sonar (nw b))"
    using kb by (simp add: DeliverResponse_def)
  have hb: "handleIHaveFrame (nw b) f = n_send cb (FIHave f) (nw b)"
    using o r pb by (simp add: handleIHaveFrame_def del sendToPeer_def pm_Get_def)
  define nw' where "nw' = net_step marshal unmarshal link nw (Deliver a ca e)"
  have nb: "nw' b = n_send cb (FIHave f) (nw b)"
    and na: "nw' a = on_peers (pm_update ca (controlWriteStep marshal)) (nw a)"
    using ab(1) hb by (simp_all add: nw'_def deliver_def dep l d(2) upd_node_def dispatch_def)
  have acc: "sendControl ?pb (FIHave f) = (True, ?pb\<lparr>peer_writeCh := [structured (FIHave f)]\<rparr>)"
    using qb by (simp add: sendControl_def live_def controlWriteQueueSize_def)
  have ca: "pm_conns (n_peers (nw' a)) ! ca = controlWriteStep marshal ?pa" "n_conns (nw' a) = n_conns (nw a)"
    "pm_peers (n_peers (nw' a)) = pm_peers (n_peers (nw a))" "n_gradient (nw' a) = n_gradient (nw a)" "n_sonar (nw' a) = n_sonar (nw a)"
    using ab(2) by (simp_all add: na on_peers_def pm_update_def)
  have cb: "pm_conns (n_peers (nw' b)) ! cb = ?pb\<lparr>peer_writeCh := [structured (FIHave f)]\<rparr>" "n_conns (nw' b) = n_conns (nw b)"
    "pm_peers (n_peers (nw' b)) = pm_peers (n_peers (nw b))" "n_gradient (nw' b) = n_gradient (nw b)" "n_sonar (nw' b) = n_sonar (nw b)"
    using ab(3) by (simp_all add: nb n_send_def pm_send_update pm_update_def acc)
  have lb: "live (?pb\<lparr>peer_writeCh := [structured (FIHave f)]\<rparr>)" using qb by (simp add: live_def controlWriteQueueSize_def)
  show ?thesis unfolding nw'_def [symmetric] caught_def
    using ab l d o pa pb ra rb ka kb w(1,2) lb by (simp add: ca cb)
qed

text \<open>
  An answer can circulate for ever. IHave frames are passed on along the best route to their origin and carry
  no hop budget, so while the best routes of two neighbours to the origin lead to each other, which is what remains when
  the origin is lost and each has learned the other's route to it by gossip, the frame comes back to the node
  after every two deliveries, for any number of them.
\<close>

theorem ihave_circulates:
  assumes "caught marshal unmarshal link f a ca b cb nw"
  shows "peer_writeCh (pm_conns (n_peers (foldl (net_step marshal unmarshal link) nw
      (concat (replicate k [Deliver a ca e1, Deliver b cb e2])) a)) ! ca) = [structured (FIHave f)]"
proof -
  have "caught marshal unmarshal link f a ca b cb (foldl (net_step marshal unmarshal link) nw
      (concat (replicate k [Deliver a ca e1, Deliver b cb e2])))"
    using assms
  proof (induction k arbitrary: nw)
    case (Suc k)
    have "caught marshal unmarshal link f a ca b cb
        (net_step marshal unmarshal link (net_step marshal unmarshal link nw (Deliver a ca e1)) (Deliver b cb e2))"
      by (intro caught_passes Suc.prems)
    then show ?case using Suc.IH by simp
  qed simp
  then show ?thesis by (simp add: caught_def)
qed

text \<open>
  The tables of two neighbours of which \<open>a\<close> was the neighbour of \<open>o\<close>: \<open>b\<close> learned the route from \<open>a\<close>, told \<open>a\<close> of it, and
  then \<open>a\<close> lost \<open>o\<close>.
\<close>

definition told :: "node_id \<Rightarrow> node_id \<Rightarrow> real \<Rightarrow> gossipVector" where
  "told from_node target cost =
     \<lparr>gv_fromNodeID = from_node, gv_fromImpedance = Num 1, gv_routes = [\<lparr>gr_targetID = target, gr_cost = Num cost\<rparr>],
      gv_fromCapabilities = [], gv_nodeCapabilities = Map.empty\<rparr>"

definition table_a :: gradientTable where
  "table_a = RemoveNeighbor (ProcessGossip (\<lambda>_. 2)
     (AddDirectNeighbor 1 (AddDirectNeighbor 0 (NewGradientTable ''a'') ''b'' (Num 1)) ''o'' (Num 1)) (told ''b'' ''o'' 2)) ''o''"

definition table_b :: gradientTable where
  "table_b = ProcessGossip (\<lambda>_. 1) (AddDirectNeighbor 0 (NewGradientTable ''b'') ''a'' (Num 1)) (told ''a'' ''o'' 1)"

definition pair_node :: "node_id \<Rightarrow> node_id \<Rightarrow> gradientTable \<Rightarrow> nat node" where
  "pair_node x y gt = (snd (add_peer 0 (sample_node x) y open_stream []))\<lparr>n_gradient := gt\<rparr>"

lemma pair_node_fields:
  "n_peers (pair_node x y gt) = \<lparr>pm_peers = [y \<mapsto> 0], pm_conns = [newPeerConnWithWriter y open_stream []]\<rparr>"
  "n_gradient (pair_node x y gt) = gt" "sn_collectors (n_sonar (pair_node x y gt)) = Map.empty" if "x \<noteq> []"
  using that by (simp_all add: pair_node_def add_peer_def fire_def Let_def pm_Add_def sample_node_def sample_config_def NewNode_def
      newPeerManager_def NewSonar_def)

lemma table_routes:
  "map_option pc_nextHop (BestRoute table_a ''o'') = Some ''b''" "map_option pc_nextHop (BestRoute table_b ''o'') = Some ''a''"
  by (simp_all add: table_a_def table_b_def told_def ProcessGossip_def AddDirectNeighbor_def UpdateRoute_def paths_of_def
      NewGradientTable_def RemoveNeighbor_def filter_routes_def BestRoute_def best_of_def Let_def)

theorem ihave_circulates_witness:
  "let f = \<lparr>wi_uuid = ''o:1'', wi_nodeId = ''b'', wi_impedance = Num 1, wi_originNode = ''o''\<rparr>;
     nw = (\<lambda>_. pair_node ''b'' ''a'' table_b)(''a'' := n_send 0 (FIHave f) (pair_node ''a'' ''b'' table_a));
     link = [(''a'', 0) \<mapsto> (''b'', 0), (''b'', 0) \<mapsto> (''a'', 0)]
   in peer_writeCh (pm_conns (n_peers (foldl (net_step (one_frame (FIHave f)) (\<lambda>_. Some (FIHave f)) link) nw
        (concat (replicate 1000 [Deliver ''a'' 0 (sample_env 5 []), Deliver ''b'' 0 (sample_env 6 [])])) ''a'')) ! 0) = [structured (FIHave f)]"
proof -
  define f where "f = \<lparr>wi_uuid = ''o:1'', wi_nodeId = ''b'', wi_impedance = Num 1, wi_originNode = ''o''\<rparr>"
  define nw where "nw = (\<lambda>_. pair_node ''b'' ''a'' table_b)(''a'' := n_send 0 (FIHave f) (pair_node ''a'' ''b'' table_a))"
  define link :: links where "link = [(''a'', 0) \<mapsto> (''b'', 0), (''b'', 0) \<mapsto> (''a'', 0)]"
  have pa: "pm_peers (n_peers (nw ''a'')) = [''b'' \<mapsto> 0]" "n_conns (nw ''a'') = 1"
    "pm_conns (n_peers (nw ''a'')) ! 0 = (newPeerConnWithWriter ''b'' open_stream [])\<lparr>peer_writeCh := [structured (FIHave f)]\<rparr>"
    "n_gradient (nw ''a'') = table_a" "sn_collectors (n_sonar (nw ''a'')) = Map.empty"
    by (simp_all add: nw_def n_send_def pm_send_update pm_update_def pair_node_fields sendControl_def controlWriteQueueSize_def)
       (simp add: newPeerConnWithWriter_def)
  have pb: "pm_peers (n_peers (nw ''b'')) = [''a'' \<mapsto> 0]" "n_conns (nw ''b'') = 1"
    "pm_conns (n_peers (nw ''b'')) ! 0 = newPeerConnWithWriter ''a'' open_stream []"
    "n_gradient (nw ''b'') = table_b" "sn_collectors (n_sonar (nw ''b'')) = Map.empty"
    by (simp_all add: nw_def pair_node_fields)
  have "caught (one_frame (FIHave f)) (\<lambda>_. Some (FIHave f)) link f ''a'' 0 ''b'' 0 nw"
    unfolding caught_def using table_routes
    by (simp add: pa pb link_def one_frame_def)
       (simp add: f_def live_def newPeerConnWithWriter_def open_stream_def controlWriteQueueSize_def)
  from ihave_circulates [OF this] show ?thesis
    unfolding Let_def f_def [symmetric] nw_def [symmetric] link_def [symmetric] by blast
qed

end
