(* ===== verification/Reconnect.thy ===== *)
theory Reconnect
  imports Node
begin

text \<open>
  Model of \<open>pkg/mesh/api/reconnect.go\<close>: the loop that dials the known hosts, round after round with growing delays, when a node has
  lost all its peers. The loop observes the world at a sequence of moments, numbered from 0: the clock, whether
  the context was cancelled, the targets the resolver knows, the results of its dials. A wait of some delay
  separates two moments by at least that delay. With \<open>MaxAttempts\<close> and \<open>Timeout\<close> both zero the loop may run for
  ever, so it has fuel, one unit for each round; the theorem says how much is enough otherwise.
\<close>

section \<open>Delays\<close>

fun backoff_loop :: "reconnectPolicy \<Rightarrow> nat \<Rightarrow> duration \<Rightarrow> duration" where
  "backoff_loop policy 0 delay = delay"
| "backoff_loop policy (Suc i) delay =
     (let delay2 = i64 (delay * 2) in
      if delay2 > rp_maxDelay policy then rp_maxDelay policy else backoff_loop policy i delay2)"

definition backoff :: "reconnectPolicy \<Rightarrow> nat \<Rightarrow> duration" where
  "backoff policy rnd = backoff_loop policy rnd (rp_initialDelay policy)"

section \<open>The loop\<close>

datatype reconnect_outcome = Cancelled | OrphanedOut | ReconnectedTo node_id

text \<open>
  The world at a moment: whether the context is cancelled, the targets the resolver knows, the result of a dial and
  how long it takes, and by how much a wait that starts exceeds its delay.
\<close>

record world =
  w_cancelled :: "nat \<Rightarrow> bool"
  w_targets :: "nat \<Rightarrow> dialTarget list"
  w_dial :: "nat \<Rightarrow> dialTarget \<Rightarrow> node_id option"
  w_dialTime :: "nat \<Rightarrow> nat"
  w_slack :: "nat \<Rightarrow> nat"

definition ctx_done :: "reconnectPolicy \<Rightarrow> world \<Rightarrow> time \<Rightarrow> nat \<Rightarrow> time \<Rightarrow> bool" where
  "ctx_done policy w start k now \<longleftrightarrow> w_cancelled w k \<or> (rp_timeout policy > 0 \<and> now \<ge> start + rp_timeout policy)"

text \<open>The dials of one round: the outcome, if there is one, and the moment and the time afterwards.\<close>

fun try_targets :: "reconnectPolicy \<Rightarrow> world \<Rightarrow> time \<Rightarrow> nat \<Rightarrow> time \<Rightarrow> dialTarget list \<Rightarrow> reconnect_outcome option \<times> nat \<times> time" where
  "try_targets policy w start k now [] = (None, k, now)"
| "try_targets policy w start k now (target # targets) =
     (if ctx_done policy w start k now then (Some Cancelled, k, now)
      else case w_dial w k target of
        None \<Rightarrow> try_targets policy w start (Suc k) (now + int (w_dialTime w k)) targets
      | Some nodeID \<Rightarrow> (Some (ReconnectedTo nodeID), k, now))"

fun run :: "nat \<Rightarrow> reconnectPolicy \<Rightarrow> world \<Rightarrow> time \<Rightarrow> nat \<Rightarrow> nat \<Rightarrow> time \<Rightarrow> reconnect_outcome option" where
  "run 0 policy w start rnd k now = None"
| "run (Suc fuel) policy w start rnd k now =
     (if ctx_done policy w start k now then Some Cancelled
      else let targets = w_targets w k in
        if targets = [] \<and> rp_maxAttempts policy > 0 \<and> int rnd \<ge> rp_maxAttempts policy then Some OrphanedOut
        else case try_targets policy w start k now targets of
          (Some out, _, _) \<Rightarrow> Some out
        | (None, k1, now1) \<Rightarrow>
            (let rnd1 = rnd + 1 in
             if rp_maxAttempts policy > 0 \<and> int rnd1 \<ge> rp_maxAttempts policy then Some OrphanedOut
             else let now2 = now1 + max 0 (backoff policy (rnd1 - 1)) + int (w_slack w k1) in
               if ctx_done policy w start (Suc k1) now2 then Some Cancelled
               else run fuel policy w start rnd1 (Suc k1) now2))"

text \<open>The callbacks of an outcome; a cancelled loop calls none.\<close>

definition run_callbacks :: "reconnect_outcome \<Rightarrow> 'conn node \<Rightarrow> 'conn node" where
  "run_callbacks out n =
     (let n1 = (case out of
            Cancelled \<Rightarrow> n
          | OrphanedOut \<Rightarrow> fire ev_onOrphaned Orphaned n
          | ReconnectedTo nodeID \<Rightarrow> fire ev_onReconnected (Reconnected nodeID) n)
      in n1\<lparr>n_reconnRunning := False\<rparr>)"

text \<open>\<open>Start\<close> says whether it launched a loop.\<close>

definition rl_Start :: "'conn node \<Rightarrow> bool \<times> 'conn node" where
  "rl_Start n = (if n_reconnRunning n then (False, n) else (True, n\<lparr>n_reconnRunning := True\<rparr>))"

definition rl_Stop :: "'conn node \<Rightarrow> 'conn node" where
  "rl_Stop n = n\<lparr>n_reconnRunning := False\<rparr>"

text \<open>
  The dialer of the node: a target that is the node itself is refused before anything is dialled. The rest is the
  connection and the handshake, whose success is the argument.
\<close>

definition defaultDialer :: "'conn node \<Rightarrow> dialTarget \<Rightarrow> bool \<Rightarrow> node_id option" where
  "defaultDialer n target linked =
     (if dt_hostname target = n_id n then None
      else if linked then Some (dt_hostname target) else None)"

section \<open>The delays grow to their bound\<close>

lemma backoff_closed_form:
  assumes "0 \<le> d" "d \<le> rp_maxDelay policy" "rp_maxDelay policy < 2 ^ 62"
  shows "backoff_loop policy k d = min (d * 2 ^ k) (rp_maxDelay policy)"
  using assms(1,2)
proof (induction k arbitrary: d)
  case (Suc k)
  have w: "i64 (d * 2) = d * 2" using Suc.prems assms(3) by (intro i64_id) auto
  show ?case
  proof (cases "d * 2 > rp_maxDelay policy")
    case True
    have "d * 2 * 1 \<le> d * 2 * 2 ^ k" using Suc.prems(1) by (intro mult_left_mono) auto
    then have "rp_maxDelay policy \<le> d * 2 ^ Suc k" using True by simp
    then show ?thesis using True w by simp
  next
    case False
    then show ?thesis using Suc.IH [of "d * 2"] Suc.prems(1) w by (simp add: mult.assoc)
  qed
qed simp

lemma try_targets_time: "try_targets policy w start k now ts = (r, k1, now1) \<Longrightarrow> now \<le> now1"
  by (induction ts arbitrary: k now) (auto split: if_splits option.splits dest: order_trans [rotated], fastforce)

lemma run_attempts:
  assumes "rp_maxAttempts policy > 0"
  shows "run fuel policy w start rnd k now = None \<Longrightarrow> fuel = 0 \<or> int rnd + int fuel < rp_maxAttempts policy"
proof (induction fuel arbitrary: rnd k now)
  case (Suc fuel)
  obtain k1 now1 where t: "try_targets policy w start k now (w_targets w k) = (None, k1, now1)" "int rnd + 1 < rp_maxAttempts policy"
    using Suc.prems assms by (auto simp: Let_def split: if_splits prod.splits option.splits)
  have "run fuel policy w start (rnd + 1) (Suc k1) (now1 + max 0 (backoff policy rnd) + int (w_slack w k1)) = None"
    using Suc.prems t by (auto simp: Let_def split: if_splits)
  from Suc.IH [OF this] show ?case using t(2) by auto
qed simp

lemma run_time:
  assumes "rp_timeout policy > 0" and d: "\<And>r. delta \<le> backoff policy r"
  shows "run fuel policy w start rnd k now = None \<Longrightarrow> fuel = 0 \<or> now + (int fuel - 1) * delta < start + rp_timeout policy"
proof (induction fuel arbitrary: rnd k now)
  case (Suc fuel)
  have nd: "now < start + rp_timeout policy"
    using Suc.prems assms(1) by (auto simp: ctx_done_def split: if_splits)
  obtain k1 now1 where t: "try_targets policy w start k now (w_targets w k) = (None, k1, now1)"
    using Suc.prems by (auto simp: Let_def split: if_splits prod.splits option.splits)
  let ?now2 = "now1 + max 0 (backoff policy rnd) + int (w_slack w k1)"
  have "run fuel policy w start (rnd + 1) (Suc k1) ?now2 = None"
    using Suc.prems t by (auto simp: Let_def split: if_splits)
  from Suc.IH [OF this] have ih: "fuel = 0 \<or> ?now2 + (int fuel - 1) * delta < start + rp_timeout policy" .
  have "now + delta \<le> ?now2" using try_targets_time [OF t] d [of rnd] by linarith
  then show ?case using ih nd by (cases fuel) (auto simp: algebra_simps)
qed simp

lemma run_not_orphaned:
  "rp_maxAttempts policy \<le> 0 \<Longrightarrow> run fuel policy w start rnd k now \<noteq> Some OrphanedOut"
proof (induction fuel arbitrary: rnd k now)
  case (Suc fuel)
  have "fst (try_targets policy w start k now ts) \<noteq> Some OrphanedOut" for k now ts
    by (induction ts arbitrary: k now) (auto split: option.split)
  then have n: "try_targets policy w start k now ts \<noteq> (Some OrphanedOut, x)" for k now ts x by (metis fst_conv)
  have ih: "run fuel policy w start rnd k now \<noteq> Some OrphanedOut" for rnd k now using Suc by blast
  show ?case using Suc.prems by (auto simp: Let_def n ih split: prod.split option.split)
qed simp



text \<open>
  \<open>Stop\<close> does not stop a loop that runs: it only clears the flag, and the next \<open>Start\<close> launches a second loop.
\<close>

lemma stop_allows_second_loop: "fst (rl_Start (rl_Stop (snd (rl_Start n))))"
  by (simp add: rl_Start_def rl_Stop_def)

end
