(* ===== verification/GoJson.thy ===== *)
theory GoJson
  imports GoText
begin

text \<open>
  The parts of Go's \<open>encoding/json\<close> and of the verb \<open>%q\<close> of \<open>fmt\<close> that the tool protocol and the gateway use: the
  syntax that \<open>Unmarshal\<close> and the compaction of a \<open>RawMessage\<close> accept, the reading of string fields into a struct, and the
  rendering of strings, objects and embedded raw messages. Bytes above 127 are copied: texts are taken to be valid UTF-8
  without the two line separators that the encoder escapes, and the limit of 10000 on the nesting is not modelled. The reader
  recurses on fuel; one more than twice the length of the text is enough, as \<open>parse_fuel\<close> shows.
\<close>

section \<open>Reading\<close>

text \<open>The members of an object carry the text of their values, which a \<open>RawMessage\<close> keeps.\<close>

datatype json =
    JNull | JBool bool | JNumber string | JString string | JArray "json list" | JObject "(string \<times> string \<times> json) list"

definition json_space :: "char \<Rightarrow> bool" where
  "json_space c \<longleftrightarrow> c = CHR '' '' \<or> c = CHR 0x09 \<or> c = CHR 0x0A \<or> c = CHR 0x0D"

abbreviation skip_ws :: "string \<Rightarrow> string" where
  "skip_ws \<equiv> dropWhile json_space"

definition hex_val :: "char \<Rightarrow> nat option" where
  "hex_val c =
     (let n = of_char c :: nat in
      if 48 \<le> n \<and> n \<le> 57 then Some (n - 48)
      else if 97 \<le> n \<and> n \<le> 102 then Some (n - 87)
      else if 65 \<le> n \<and> n \<le> 70 then Some (n - 55)
      else None)"

fun hex4 :: "string \<Rightarrow> nat option" where
  "hex4 (a # b # c # d # _) =
     (case (hex_val a, hex_val b, hex_val c, hex_val d) of
        (Some x, Some y, Some z, Some w) \<Rightarrow> Some (((x * 16 + y) * 16 + z) * 16 + w)
      | _ \<Rightarrow> None)"
| "hex4 _ = None"

definition encode_rune :: "nat \<Rightarrow> string" where
  "encode_rune r =
     (if r < 128 then [char_of r]
      else if r < 2048 then [char_of (192 + r div 64), char_of (128 + r mod 64)]
      else if r < 65536 then [char_of (224 + r div 4096), char_of (128 + r div 64 mod 64), char_of (128 + r mod 64)]
      else [char_of (240 + r div 262144), char_of (128 + r div 4096 mod 64), char_of (128 + r div 64 mod 64), char_of (128 + r mod 64)])"

definition replacement_char :: nat where "replacement_char = 65533"

text \<open>The character of an escape of a code unit with the value \<open>r\<close> before the text \<open>s\<close>, and whether the low half of a pair in \<open>s\<close> is used.\<close>

definition decode_unit :: "nat \<Rightarrow> string \<Rightarrow> nat \<times> bool" where
  "decode_unit r s =
     (if r < 55296 \<or> 57344 \<le> r then (r, False)
      else if r < 56320 \<and> take 2 s = [CHR 0x5C, CHR ''u''] then
        (case hex4 (drop 2 s) of
           Some r2 \<Rightarrow> if 56320 \<le> r2 \<and> r2 < 57344 then (65536 + (r - 55296) * 1024 + (r2 - 56320), True) else (replacement_char, False)
         | None \<Rightarrow> (replacement_char, False))
      else (replacement_char, False))"

definition simple_escape :: "char \<Rightarrow> char option" where
  "simple_escape c =
     (if c = CHR 0x22 \<or> c = CHR 0x5C \<or> c = CHR ''/'' then Some c
      else if c = CHR ''b'' then Some (CHR 0x08) else if c = CHR ''f'' then Some (CHR 0x0C)
      else if c = CHR ''n'' then Some (CHR 0x0A) else if c = CHR ''r'' then Some (CHR 0x0D)
      else if c = CHR ''t'' then Some (CHR 0x09) else None)"

text \<open>The rest of a string literal after its opening quote.\<close>

function string_body :: "string \<Rightarrow> (string \<times> string) option" where
  "string_body [] = None"
| "string_body (c # s) =
     (if c = CHR 0x22 then Some ([], s)
      else if c = CHR 0x5C then
        (case s of
           [] \<Rightarrow> None
         | e # t \<Rightarrow>
             if e = CHR ''u'' then
               (case hex4 t of
                  None \<Rightarrow> None
                | Some r \<Rightarrow>
                    (let (rune, pair) = decode_unit r (drop 4 t) in
                     map_option (apfst (append (encode_rune rune))) (string_body (drop (if pair then 10 else 4) t))))
             else (case simple_escape e of
                     None \<Rightarrow> None
                   | Some d \<Rightarrow> map_option (apfst (Cons d)) (string_body t)))
      else if (of_char c :: nat) < 32 then None
      else map_option (apfst (Cons c)) (string_body s))"
  by pat_completeness auto
termination by (relation "measure length") auto

definition number_frac :: "string \<Rightarrow> (string \<times> string) option" where
  "number_frac s =
     (case s of
        c # t \<Rightarrow> if c = CHR ''.'' then
                  (if takeWhile is_digit t = [] then None else Some (c # takeWhile is_digit t, dropWhile is_digit t))
                else Some ([], s)
      | [] \<Rightarrow> Some ([], []))"

definition number_exp :: "string \<Rightarrow> (string \<times> string) option" where
  "number_exp s =
     (case s of
        c # t \<Rightarrow> if c = CHR ''e'' \<or> c = CHR ''E'' then
                  (let (sgn, u) = (case t of d # u \<Rightarrow> if d = CHR ''+'' \<or> d = CHR ''-'' then ([d], u) else ([], t) | [] \<Rightarrow> ([], []))
                   in if takeWhile is_digit u = [] then None else Some (c # sgn @ takeWhile is_digit u, dropWhile is_digit u))
                else Some ([], s)
      | [] \<Rightarrow> Some ([], []))"

definition number_int :: "string \<Rightarrow> (string \<times> string) option" where
  "number_int s =
     (case s of
        [] \<Rightarrow> None
      | c # t \<Rightarrow> if c = CHR ''0'' then Some ([c], t)
                else if is_digit c then Some (takeWhile is_digit s, dropWhile is_digit s)
                else None)"

definition parse_number :: "string \<Rightarrow> (json \<times> string) option" where
  "parse_number s =
     (let (sgn, s1) = (case s of c # t \<Rightarrow> if c = CHR ''-'' then ([c], t) else ([], s) | [] \<Rightarrow> ([], [])) in
      case number_int s1 of
        None \<Rightarrow> None
      | Some (i, s2) \<Rightarrow>
          (case number_frac s2 of
             None \<Rightarrow> None
           | Some (f, s3) \<Rightarrow>
               (case number_exp s3 of
                  None \<Rightarrow> None
                | Some (e, s4) \<Rightarrow> Some (JNumber (sgn @ i @ f @ e), s4))))"

text \<open>The text of the value that was read from \<open>s\<close>, when \<open>r\<close> is left.\<close>

definition text_before :: "string \<Rightarrow> string \<Rightarrow> string" where
  "text_before s r = (let u = skip_ws s in take (length u - length r) u)"

definition parse_word :: "string \<Rightarrow> json \<Rightarrow> string \<Rightarrow> (json \<times> string) option" where
  "parse_word word v s = (if prefix word s then Some (v, drop (length word) s) else None)"

fun parse_value :: "nat \<Rightarrow> string \<Rightarrow> (json \<times> string) option"
  and parse_elems :: "nat \<Rightarrow> string \<Rightarrow> (json list \<times> string) option"
  and parse_members :: "nat \<Rightarrow> string \<Rightarrow> ((string \<times> string \<times> json) list \<times> string) option" where
  "parse_value 0 s = None"
| "parse_value (Suc n) s =
     (case skip_ws s of
        [] \<Rightarrow> None
      | c # t \<Rightarrow>
          if c = CHR 0x22 then map_option (apfst JString) (string_body t)
          else if c = CHR 0x7B then
            (case skip_ws t of
               d # u \<Rightarrow> if d = CHR 0x7D then Some (JObject [], u) else map_option (apfst JObject) (parse_members n t)
             | [] \<Rightarrow> None)
          else if c = CHR 0x5B then
            (case skip_ws t of
               d # u \<Rightarrow> if d = CHR 0x5D then Some (JArray [], u) else map_option (apfst JArray) (parse_elems n t)
             | [] \<Rightarrow> None)
          else if c = CHR ''t'' then parse_word ''true'' (JBool True) (c # t)
          else if c = CHR ''f'' then parse_word ''false'' (JBool False) (c # t)
          else if c = CHR ''n'' then parse_word ''null'' JNull (c # t)
          else parse_number (c # t))"
| "parse_elems 0 s = None"
| "parse_elems (Suc n) s =
     (case parse_value n s of
        None \<Rightarrow> None
      | Some (v, t) \<Rightarrow>
          (case skip_ws t of
             [] \<Rightarrow> None
           | c # u \<Rightarrow>
               if c = CHR 0x5D then Some ([v], u)
               else if c = CHR '','' then map_option (apfst (Cons v)) (parse_elems n u)
               else None))"
| "parse_members 0 s = None"
| "parse_members (Suc n) s =
     (case skip_ws s of
        [] \<Rightarrow> None
      | q # t \<Rightarrow>
          if q \<noteq> CHR 0x22 then None
          else case string_body t of
            None \<Rightarrow> None
          | Some (key, t1) \<Rightarrow>
              (case skip_ws t1 of
                 [] \<Rightarrow> None
               | c # t2 \<Rightarrow>
                   if c \<noteq> CHR '':'' then None
                   else case parse_value n t2 of
                     None \<Rightarrow> None
                   | Some (v, t3) \<Rightarrow>
                       (case skip_ws t3 of
                          [] \<Rightarrow> None
                        | d # u \<Rightarrow>
                            if d = CHR 0x7D then Some ([(key, text_before t2 t3, v)], u)
                            else if d = CHR '','' then map_option (apfst (Cons (key, text_before t2 t3, v))) (parse_members n u)
                            else None)))"

definition json_parse :: "string \<Rightarrow> json option" where
  "json_parse s =
     (case parse_value (Suc (2 * length s)) s of
        Some (v, t) \<Rightarrow> if skip_ws t = [] then Some v else None
      | None \<Rightarrow> None)"

definition json_valid :: "string \<Rightarrow> bool" where
  "json_valid s \<longleftrightarrow> json_parse s \<noteq> None"

text \<open>
  A string field of a struct after \<open>Unmarshal\<close>: members are taken in turn, their names compared without regard to case, and a
  member that is not a string leaves the field as it is. Text that is not JSON leaves everything as it is.
\<close>

definition fold_byte :: "char \<Rightarrow> char" where
  "fold_byte c = (let n = of_char c :: nat in if 65 \<le> n \<and> n \<le> 90 then char_of (n + 32) else c)"

definition same_name :: "string \<Rightarrow> string \<Rightarrow> bool" where
  "same_name a b \<longleftrightarrow> map fold_byte a = map fold_byte b"

definition members_of :: "string \<Rightarrow> (string \<times> string \<times> json) list" where
  "members_of text = (case json_parse text of Some (JObject ms) \<Rightarrow> ms | _ \<Rightarrow> [])"

definition string_field :: "string \<Rightarrow> string \<Rightarrow> string" where
  "string_field name text =
     foldl (\<lambda>v (key, raw, j). case j of JString s \<Rightarrow> if same_name key name then s else v | _ \<Rightarrow> v) [] (members_of text)"

definition raw_field :: "string \<Rightarrow> string \<Rightarrow> string" where
  "raw_field name text = foldl (\<lambda>v (key, raw, j). if same_name key name then raw else v) [] (members_of text)"

section \<open>Writing\<close>

definition hex_digit :: "nat \<Rightarrow> char" where
  "hex_digit n = char_of (if n < 10 then 48 + n else 87 + n)"

definition html_char :: "char \<Rightarrow> bool" where
  "html_char c \<longleftrightarrow> c = CHR ''<'' \<or> c = CHR ''>'' \<or> c = CHR ''&''"

definition unicode_escape :: "char \<Rightarrow> string" where
  "unicode_escape c = (let n = of_char c :: nat in
     [CHR 0x5C, CHR ''u'', CHR ''0'', CHR ''0'', hex_digit (n div 16), hex_digit (n mod 16)])"

definition json_char :: "char \<Rightarrow> string" where
  "json_char c =
     (if c = CHR 0x22 \<or> c = CHR 0x5C then [CHR 0x5C, c]
      else if c = CHR 0x08 then [CHR 0x5C, CHR ''b''] else if c = CHR 0x0C then [CHR 0x5C, CHR ''f'']
      else if c = CHR 0x0A then [CHR 0x5C, CHR ''n''] else if c = CHR 0x0D then [CHR 0x5C, CHR ''r'']
      else if c = CHR 0x09 then [CHR 0x5C, CHR ''t'']
      else if (of_char c :: nat) < 32 \<or> html_char c then unicode_escape c
      else [c])"

definition json_string :: "string \<Rightarrow> string" where
  "json_string s = CHR 0x22 # concat (map json_char s) @ [CHR 0x22]"

definition json_bool :: "bool \<Rightarrow> string" where
  "json_bool b = (if b then ''true'' else ''false'')"

definition json_object :: "(string \<times> string) list \<Rightarrow> string" where
  "json_object fields = CHR 0x7B # join '','' (map (\<lambda>(k, v). json_string k @ '':'' @ v) fields) @ [CHR 0x7D]"

definition json_array :: "string list \<Rightarrow> string" where
  "json_array vs = CHR 0x5B # join '','' vs @ [CHR 0x5D]"

text \<open>
  A raw message inside a value: its text without white space outside strings and with the characters of HTML escaped; \<open>None\<close>
  when it is not JSON. A raw message that is nil is \<open>null\<close>.
\<close>

fun compact_text :: "bool \<Rightarrow> string \<Rightarrow> string" where
  "compact_text inString [] = []"
| "compact_text inString (c # s) =
     (if html_char c then unicode_escape c @ compact_text inString s
      else if inString then
        (if c = CHR 0x5C then (case s of [] \<Rightarrow> [c] | d # t \<Rightarrow> c # (if html_char d then unicode_escape d else [d]) @ compact_text True t)
         else c # compact_text (c \<noteq> CHR 0x22) s)
      else if json_space c then compact_text False s
      else c # compact_text (c = CHR 0x22) s)"

definition json_raw :: "string \<Rightarrow> string option" where
  "json_raw s = (if s = [] then Some ''null'' else if json_valid s then Some (compact_text False s) else None)"

section \<open>The verb \<open>%q\<close>\<close>

definition quote_char :: "char \<Rightarrow> string" where
  "quote_char c =
     (if c = CHR 0x22 \<or> c = CHR 0x5C then [CHR 0x5C, c]
      else if c = CHR 0x07 then [CHR 0x5C, CHR ''a''] else if c = CHR 0x08 then [CHR 0x5C, CHR ''b'']
      else if c = CHR 0x0C then [CHR 0x5C, CHR ''f''] else if c = CHR 0x0A then [CHR 0x5C, CHR ''n'']
      else if c = CHR 0x0D then [CHR 0x5C, CHR ''r''] else if c = CHR 0x09 then [CHR 0x5C, CHR ''t'']
      else if c = CHR 0x0B then [CHR 0x5C, CHR ''v'']
      else if (of_char c :: nat) < 32 \<or> c = CHR 0x7F then
        [CHR 0x5C, CHR ''x'', hex_digit (of_char c div 16), hex_digit (of_char c mod 16)]
      else [c])"

definition go_quote :: "string \<Rightarrow> string" where
  "go_quote s = CHR 0x22 # concat (map quote_char s) @ [CHR 0x22]"

declare parse_value.simps [simp del] parse_elems.simps [simp del] parse_members.simps [simp del]

section \<open>The reader ends, and more fuel changes nothing\<close>

lemma string_body_shorter: "string_body s = Some (v, r) \<Longrightarrow> length r < length s"
proof (induction s arbitrary: v r rule: string_body.induct)
  case (2 c s)
  show ?case
  proof (cases s)
    case Nil
    with 2 show ?thesis by (auto split: if_splits)
  next
    case (Cons e t)
    have shrink: "length (drop k t) < length s" "length (drop k t) \<le> length s" for k
      using Cons by simp_all
    from 2 Cons show ?thesis
      by (auto split: if_splits option.splits prod.splits simp: Let_def less_Suc_eq_le dest!: le_SucI less_imp_le_nat
          intro: less_le_trans less_imp_le_nat) (fastforce dest: less_le_trans [OF _ shrink(2)])+
  qed
qed simp

lemma dropWhile_shorter: "length (dropWhile P s) \<le> length s"
  by (rule length_dropWhile_le)

lemma number_int_shorter: "number_int s = Some (i, r) \<Longrightarrow> length r < length s"
  by (cases s) (auto simp: number_int_def less_Suc_eq_le dropWhile_shorter split: if_splits)

lemma number_frac_shorter: "number_frac s = Some (i, r) \<Longrightarrow> length r \<le> length s"
  by (cases s) (auto simp: number_frac_def intro: le_SucI dropWhile_shorter split: if_splits)

lemma number_exp_shorter: "number_exp s = Some (i, r) \<Longrightarrow> length r \<le> length s"
proof (cases s)
  case (Cons c t)
  assume "number_exp s = Some (i, r)"
  moreover have "length (dropWhile is_digit u) \<le> Suc (length u)" "length (dropWhile is_digit u) \<le> Suc (Suc (length u))" for u :: string
    by (simp_all add: le_SucI dropWhile_shorter)
  ultimately show ?thesis
    using Cons by (auto simp: number_exp_def Let_def split: if_splits list.splits)
qed (simp add: number_exp_def)

lemma parse_number_shorter:
  assumes "parse_number s = Some (v, r)"
  shows "length r < length s"
proof -
  obtain sgn s1 where s1: "(case s of c # t \<Rightarrow> if c = CHR ''-'' then ([c], t) else ([], s) | [] \<Rightarrow> ([], [])) = (sgn, s1)"
    by (meson surj_pair)
  then have "length s1 \<le> length s" by (auto split: list.splits if_splits)
  moreover obtain i s2 f s3 e where "number_int s1 = Some (i, s2)" "number_frac s2 = Some (f, s3)" "number_exp s3 = Some (e, r)"
    using assms by (auto simp: parse_number_def s1 split: option.splits)
  ultimately show ?thesis
    using number_int_shorter number_frac_shorter number_exp_shorter by (metis le_trans less_le_trans not_less_iff_gr_or_eq)
qed

lemma parse_word_shorter: "parse_word word v s = Some (j, r) \<Longrightarrow> word \<noteq> [] \<Longrightarrow> length r < length s"
  by (cases s) (auto simp: parse_word_def split: if_splits)

lemmas shorter = string_body_shorter parse_number_shorter parse_word_shorter

lemma skip_ws_Cons: "skip_ws s = c # t \<Longrightarrow> length t < length s"
  using dropWhile_shorter [of json_space s] by simp

lemma parse_shorter:
  shows "parse_value n s = Some (v, r) \<Longrightarrow> length r < length s"
    and "parse_elems n s = Some (vs, r) \<Longrightarrow> length r < length s"
    and "parse_members n s = Some (ms, r) \<Longrightarrow> length r < length s"
proof (induction n s and n s and n s arbitrary: v r and vs r and ms r rule: parse_value_parse_elems_parse_members.induct)
  case (2 n s)
  note parse_value.simps(2) [simp]
  from 2(3) obtain c t where ct: "skip_ws s = c # t" by (auto split: list.splits)
  have "length r \<le> length t"
  proof (cases "skip_ws t")
    case Nil
    then show ?thesis using 2(3) ct by (auto simp del: dropWhile_eq_Nil_conv split: if_splits dest!: shorter)
  next
    case (Cons d u)
    then show ?thesis
      using 2(1) [OF ct _ _ Cons] 2(2) [OF ct _ _ _ Cons] 2(3) ct skip_ws_Cons [OF Cons]
      by (auto split: if_splits dest!: shorter)
  qed
  with skip_ws_Cons [OF ct] show ?case by simp
next
  case (4 n s)
  note parse_elems.simps(2) [simp]
  from 4(3) obtain v t c u where "parse_value n s = Some (v, t)" and t: "skip_ws t = c # u"
    by (auto split: list.splits option.splits)
  moreover have "length r \<le> length u"
    using 4(2) [OF calculation(1) refl t] 4(3) calculation by (auto split: if_splits)
  ultimately show ?case using 4(1) skip_ws_Cons [OF t] by fastforce
next
  case (6 n s)
  note parse_members.simps(2) [simp]
  from 6(3) obtain q t key t1 where q: "skip_ws s = q # t" "string_body t = Some (key, t1)" "q = CHR 0x22"
    by (auto split: list.splits option.splits if_splits)
  with 6(3) obtain c t2 v t3 where c: "skip_ws t1 = c # t2" "parse_value n t2 = Some (v, t3)" "c = CHR '':''"
    by (auto split: list.splits option.splits if_splits)
  with 6(3) q obtain d u where d: "skip_ws t3 = d # u" by (auto split: list.splits)
  have "length r \<le> length u"
    using 6(2) [OF q(1) _ q(2) refl c(1) _ c(2) refl d] 6(3) q c d by (auto split: if_splits intro: less_imp_le_nat)
  moreover have "length t3 < length t2"
    using 6(1) [OF q(1) _ q(2) refl c(1) _] q c by simp
  ultimately show ?case
    using skip_ws_Cons [OF q(1)] string_body_shorter [OF q(2)] skip_ws_Cons [OF c(1)] skip_ws_Cons [OF d] by simp
qed (simp_all add: parse_value.simps(1) parse_elems.simps(1) parse_members.simps(1))

lemma parse_fuel_step:
  shows "2 * length s < n \<Longrightarrow> parse_value (Suc n) s = parse_value n s"
    and "2 * length s + 1 < n \<Longrightarrow> parse_elems (Suc n) s = parse_elems n s"
    and "2 * length s < n \<Longrightarrow> parse_members (Suc n) s = parse_members n s"
proof (induction n s and n s and n s rule: parse_value_parse_elems_parse_members.induct)
  case (2 n s)
  show ?case
  proof (cases "skip_ws s")
    case Nil
    then show ?thesis by (simp only: parse_value.simps(2) list.case)
  next
    case (Cons c t)
    then have room: "2 * length t + 1 < n" "2 * length t < n" using skip_ws_Cons [OF Cons] 2(3) by simp_all
    consider (object) "c = CHR 0x7B" | (array) "c = CHR 0x5B" | (other) "c \<noteq> CHR 0x7B" "c \<noteq> CHR 0x5B" by blast
    then show ?thesis
    proof cases
      case object
      have "parse_members (Suc n) t = parse_members n t" if "skip_ws t = d # u" "d \<noteq> CHR 0x7D" for d u
        using 2(1) [OF Cons _ object that] object room by simp
      then show ?thesis
        unfolding parse_value.simps(2) Cons list.case object by (cases "skip_ws t") (auto simp del: dropWhile_eq_Nil_conv)
    next
      case array
      have "parse_elems (Suc n) t = parse_elems n t" if "skip_ws t = d # u" "d \<noteq> CHR 0x5D" for d u
        using 2(2) [OF Cons _ _ array that] array room by simp
      then show ?thesis
        unfolding parse_value.simps(2) Cons list.case array by (cases "skip_ws t") (auto simp del: dropWhile_eq_Nil_conv)
    next
      case other
      then show ?thesis unfolding parse_value.simps(2) Cons list.case by simp
    qed
  qed
next
  case (4 n s)
  show ?case
  proof (cases "parse_value n s")
    case None
    then show ?thesis using 4(1,3) by (simp only: parse_elems.simps(2) option.case)
  next
    case (Some p)
    obtain v t where p: "parse_value n s = Some (v, t)" using Some by (cases p) simp
    with 4(1,3) have p': "parse_value (Suc n) s = Some (v, t)" by simp
    have "parse_elems (Suc n) u = parse_elems n u" if "skip_ws t = c # u" "c = CHR '',''" for c u
      using 4(2) [OF p refl that(1)] that parse_shorter(1) [OF p] skip_ws_Cons [OF that(1)] 4(3) by simp
    then show ?thesis
      unfolding parse_elems.simps(2) p p' by (cases "skip_ws t") (simp_all only: option.case prod.case list.case split: if_split, simp_all)
  qed
next
  case (6 n s)
  show ?case
  proof (cases "skip_ws s")
    case Nil
    then show ?thesis by (simp only: parse_members.simps(2) list.case)
  next
    case (Cons q t)
    have "parse_value (Suc n) t2 = parse_value n t2"
      "\<And>v t3 d u. parse_value n t2 = Some (v, t3) \<Longrightarrow> skip_ws t3 = d # u \<Longrightarrow> d = CHR '','' \<Longrightarrow> parse_members (Suc n) u = parse_members n u"
      if q: "q = CHR 0x22" "string_body t = Some (key, t1)" "skip_ws t1 = CHR '':'' # t2" for key t1 t2
    proof -
      have short: "length t2 + 3 \<le> length s"
        using skip_ws_Cons [OF Cons] string_body_shorter [OF q(2)] skip_ws_Cons [OF q(3)] by simp
      show "parse_value (Suc n) t2 = parse_value n t2"
        using 6(1) [OF Cons _ q(2) refl q(3)] q(1) short 6(3) by simp
      show "parse_members (Suc n) u = parse_members n u"
        if "parse_value n t2 = Some (v, t3)" "skip_ws t3 = d # u" "d = CHR '',''" for v t3 d u
        using 6(2) [OF Cons _ q(2) refl q(3) _ that(1) refl that(2)] q(1) that parse_shorter(1) [OF that(1)]
          skip_ws_Cons [OF that(2)] short 6(3) by simp
    qed
    then show ?thesis
      unfolding parse_members.simps(2) Cons list.case
      by (intro if_cong option.case_cong list.case_cong prod.case_cong refl; simp?)
  qed
qed simp_all

lemma parse_fuel: "2 * length s < n \<Longrightarrow> parse_value n s = parse_value (Suc (2 * length s)) s"
proof (induction n)
  case (Suc n)
  then show ?case using parse_fuel_step(1) [of s n] by (cases "2 * length s < n") (simp_all add: less_Suc_eq)
qed simp

section \<open>What is written is read back\<close>

lemma char_less_256: "(of_char c :: nat) < 256"
  by (rule nat_of_char_less_256)

lemma hex_val_digit: "n < 16 \<Longrightarrow> hex_val (hex_digit n) = Some n"
  by (auto simp: hex_val_def hex_digit_def)

lemma string_body_unicode:
  assumes "(of_char c :: nat) < 128"
  shows "string_body (unicode_escape c @ s) = map_option (apfst (Cons c)) (string_body s)"
proof -
  have z: "hex_val CHR ''0'' = Some 0" by (simp add: hex_val_def)
  have d: "of_char c div 16 < (16::nat)" "of_char c mod 16 < (16::nat)" using char_less_256 [of c] by (auto simp: less_mult_imp_div_less)
  have "encode_rune (of_char c) = [c]" using assms by (simp add: encode_rune_def)
  with assms d z show ?thesis
    by (simp add: unicode_escape_def Let_def hex_val_digit decode_unit_def split: option.split) (auto simp: fun_eq_iff apfst_def map_prod_def)
qed

lemma string_body_char:
  assumes "(of_char c :: nat) < 128"
  shows "string_body (json_char c @ s) = map_option (apfst (Cons c)) (string_body s)"
  using string_body_unicode [OF assms, of s] by (auto simp: json_char_def simple_escape_def)

lemma string_body_text:
  "(\<And>c. c \<in> set t \<Longrightarrow> (of_char c :: nat) < 128) \<Longrightarrow> string_body (concat (map json_char t) @ CHR 0x22 # s) = Some (t, s)"
proof (induction t)
  case (Cons c t)
  then show ?case by (simp add: string_body_char)
qed simp

lemma json_string_roundtrip:
  assumes "\<And>c. c \<in> set t \<Longrightarrow> (of_char c :: nat) < 128"
  shows "json_parse (json_string t) = Some (JString t)"
  using string_body_text [of t "[]"] assms
  by (simp add: json_parse_def json_string_def parse_value.simps(2) json_space_def)

text \<open>Not everything that \<open>%q\<close> prints is JSON: its escapes \<open>\a\<close>, \<open>\v\<close> and \<open>\x..\<close> are none of JSON's.\<close>

definition json_quotable :: "char \<Rightarrow> bool" where
  "json_quotable c \<longleftrightarrow> c \<in> {CHR 0x08, CHR 0x09, CHR 0x0A, CHR 0x0C, CHR 0x0D} \<or> (32 \<le> (of_char c :: nat) \<and> c \<noteq> CHR 0x7F)"

lemma string_body_quote:
  "string_body (quote_char c @ s) = (if json_quotable c then map_option (apfst (Cons c)) (string_body s) else None)"
  by (auto simp: quote_char_def json_quotable_def simple_escape_def)

lemma string_body_quoted:
  "string_body (concat (map quote_char t) @ CHR 0x22 # s) = (if list_all json_quotable t then Some (t, s) else None)"
proof (induction t)
  case (Cons c t)
  have "string_body (concat (map quote_char (c # t)) @ CHR 0x22 # s) = string_body (quote_char c @ concat (map quote_char t) @ CHR 0x22 # s)"
    by simp
  then show ?case by (simp only: string_body_quote Cons) simp
qed simp

lemma json_parse_quote:
  "json_parse (go_quote t) = (if list_all json_quotable t then Some (JString t) else None)"
  using string_body_quoted [of t "[]"]
  by (simp add: json_parse_def go_quote_def parse_value.simps(2) json_space_def)

end
