(* ===== verification/Tools.thy ===== *)
theory Tools
  imports Control GoJson
begin

text \<open>
  Model of \<open>pkg/mesh/tools\<close>: tool definitions and results (\<open>types.go\<close>), the local registry (\<open>registry.go\<close>), the wire protocol
  of calls (\<open>protocol.go\<close>), the bridge to the node (\<open>bridge.go\<close>) and remote invocation (\<open>invoke.go\<close>). Raw JSON is its text, an
  absent one the empty text; errors are their texts. A handler returns an error or a result, never neither. The encoding
  of requests and responses by protocol buffers, with the texts of its errors, is an argument.
\<close>

section \<open>Types\<close>

record toolParam =
  tp_name :: string
  tp_type :: string
  tp_description :: string
  tp_required :: bool
  tp_default :: string

record toolDefinition =
  td_name :: string
  td_description :: string
  td_longDescription :: string
  td_category :: string
  td_hidden :: bool
  td_parameters :: "toolParam list"
  td_inputSchema :: string

record toolResult =
  tr_content :: string
  tr_isError :: bool

type_synonym toolHandler = "string \<Rightarrow> string + toolResult"

definition property_text :: "toolParam \<Rightarrow> string" where
  "property_text p =
     json_object ((if tp_default p \<noteq> [] then [(''default'', json_string (tp_default p))] else []) @
       [(''description'', json_string (tp_description p)), (''type'', json_string (tp_type p))])"

text \<open>Maps are rendered in the order of their keys; a later parameter of the same name replaces an earlier one.\<close>

definition properties_text :: "toolParam list \<Rightarrow> string" where
  "properties_text ps =
     (let props = foldl (\<lambda>m p. m(tp_name p \<mapsto> property_text p)) Map.empty ps;
          keys = go_sort (<) (remdups (map tp_name ps))
      in json_object (map (\<lambda>k. (k, the (props k))) keys))"

definition GenerateSchema :: "toolDefinition \<Rightarrow> string" where
  "GenerateSchema d =
     (if length (td_parameters d) > 0 then
        (let req = map tp_name (filter tp_required (td_parameters d)) in
         json_object ([(''properties'', properties_text (td_parameters d))] @
           (if length req > 0 then [(''required'', json_array (map json_string req))] else []) @
           [(''type'', json_string ''object'')]))
      else json_object [(''type'', json_string ''object'')])"

definition EffectiveSchema :: "toolDefinition \<Rightarrow> string" where
  "EffectiveSchema d = (if td_inputSchema d \<noteq> [] then td_inputSchema d else GenerateSchema d)"

definition NewErrorResult :: "string \<Rightarrow> toolResult" where
  "NewErrorResult message = \<lparr>tr_content = json_object [(''error'', json_string message)], tr_isError = True\<rparr>"

text \<open>The text of a value, or \<open>None\<close> when it cannot be rendered: the error is ignored and no content is left.\<close>

definition NewJSONResult :: "string option \<Rightarrow> toolResult" where
  "NewJSONResult v = \<lparr>tr_content = (case v of Some t \<Rightarrow> t | None \<Rightarrow> []), tr_isError = False\<rparr>"

definition NewTextResult :: "string \<Rightarrow> toolResult" where
  "NewTextResult t = \<lparr>tr_content = json_object [(''text'', json_string t)], tr_isError = False\<rparr>"

section \<open>The registry\<close>

record registry =
  reg_tools :: "string \<rightharpoonup> toolDefinition \<times> toolHandler"
  reg_tracked :: bool

definition NewRegistry :: "bool \<Rightarrow> registry" where
  "NewRegistry tracked = \<lparr>reg_tools = Map.empty, reg_tracked = tracked\<rparr>"

text \<open>The tracker is the state that \<open>RegisterCapability\<close> of the interface changes.\<close>

definition Register :: "('t \<Rightarrow> string \<Rightarrow> 't) \<Rightarrow> 't \<times> registry \<Rightarrow> toolDefinition \<times> toolHandler \<Rightarrow> 't \<times> registry" where
  "Register registerCapability st tool =
     (let (tracker, r) = st;
          (def, handler) = tool;
          r1 = r\<lparr>reg_tools := (reg_tools r)(td_name def \<mapsto> (def, handler))\<rparr>
      in (if reg_tracked r1 then registerCapability tracker (''tool:'' @ td_name def) else tracker, r1))"

definition ListLocal :: "string list \<Rightarrow> registry \<Rightarrow> toolDefinition list" where
  "ListLocal walk r = filter (\<lambda>d. \<not> td_hidden d) (map (\<lambda>k. fst (the (reg_tools r k))) walk)"

definition ListLocalByCategory :: "string list \<Rightarrow> registry \<Rightarrow> string \<Rightarrow> toolDefinition list" where
  "ListLocalByCategory walk r category =
     filter (\<lambda>d. td_category d = category \<and> \<not> td_hidden d) (map (\<lambda>k. fst (the (reg_tools r k))) walk)"

definition InvokeLocal :: "registry \<Rightarrow> string \<Rightarrow> string \<Rightarrow> string + toolResult" where
  "InvokeLocal r toolName args =
     (case reg_tools r toolName of
        None \<Rightarrow> Inl (''registry: tool not found: '' @ toolName)
      | Some (_, handler) \<Rightarrow> handler args)"

definition GetDefinition :: "registry \<Rightarrow> string \<Rightarrow> toolDefinition option" where
  "GetDefinition r toolName = map_option fst (reg_tools r toolName)"

section \<open>The wire protocol\<close>

record toolRequest =
  tq_name :: string
  tq_argsJson :: string

record toolResponse =
  ts_isError :: bool
  ts_contentJson :: string

record tool_lib =
  lib_marshalRequest :: "toolRequest \<Rightarrow> string + octets"
  lib_unmarshalRequest :: "octets \<Rightarrow> string + toolRequest"
  lib_marshalResponse :: "toolResponse \<Rightarrow> string + octets"
  lib_unmarshalResponse :: "octets \<Rightarrow> string + toolResponse"
  lib_writeError :: string

definition maxToolFrameSize :: nat where "maxToolFrameSize = 2 ^ 20"

datatype read_error = ReadEOF | ReadUnexpectedEOF | ReadTooLarge nat

definition too_large_text :: "nat \<Rightarrow> string" where
  "too_large_text n = ''tools: frame too large: '' @ itoa (int n) @ '' > '' @ itoa (int maxToolFrameSize)"

fun read_error_text :: "read_error \<Rightarrow> string" where
  "read_error_text ReadEOF = ''EOF''"
| "read_error_text ReadUnexpectedEOF = ''unexpected EOF''"
| "read_error_text (ReadTooLarge n) = too_large_text n"

text \<open>\<open>io.ReadFull\<close> with its two errors: nothing was left, or not enough.\<close>

definition read_full_err :: "nat \<Rightarrow> octets \<Rightarrow> (read_error + octets) \<times> octets" where
  "read_full_err n r =
     (if n \<le> length r then (Inr (take n r), drop n r)
      else (Inl (if r = [] then ReadEOF else ReadUnexpectedEOF), []))"

definition readToolFrame :: "octets \<Rightarrow> (read_error + octets) \<times> octets" where
  "readToolFrame r =
     (case read_full_err 4 r of
        (Inl e, r1) \<Rightarrow> (Inl e, r1)
      | (Inr hdr, r1) \<Rightarrow>
          if get_uint32 hdr > maxToolFrameSize then (Inl (ReadTooLarge (get_uint32 hdr)), r1)
          else read_full_err (get_uint32 hdr) r1)"

definition writeToolFrame :: "tool_lib \<Rightarrow> writer \<Rightarrow> octets \<Rightarrow> string option \<times> writer" where
  "writeToolFrame lib w d =
     (if length d > maxToolFrameSize then (Some (too_large_text (length d)), w)
      else let (ok, w1) = w_write w (put_uint32 (length d)) in
        if \<not> ok then (Some (lib_writeError lib), w1)
        else let (ok2, w2) = w_write w1 d in
          if \<not> ok2 then (Some (lib_writeError lib), w2) else (None, w2))"

definition dispatchLocal :: "registry \<Rightarrow> toolRequest \<Rightarrow> toolResponse" where
  "dispatchLocal r req =
     (case InvokeLocal r (tq_name req) (tq_argsJson req) of
        Inl err \<Rightarrow>
          \<lparr>ts_isError = True, ts_contentJson = go_quote (''tool '' @ go_quote (tq_name req) @ '': '' @ err)\<rparr>
      | Inr result \<Rightarrow> \<lparr>ts_isError = tr_isError result, ts_contentJson = tr_content result\<rparr>)"

lemma readToolFrame_shorter: "readToolFrame r = (Inr d, r1) \<Longrightarrow> length r1 < length r"
  by (auto simp: readToolFrame_def read_full_err_def split: if_splits)

text \<open>
  The loop of a connection on the bytes still to come. The context is asked before every read and after a failed
  one; \<open>ctxDone\<close> gives its answers in turn.
\<close>

function serve_loop :: "tool_lib \<Rightarrow> registry \<Rightarrow> (nat \<Rightarrow> bool) \<Rightarrow> nat \<Rightarrow> octets \<Rightarrow> writer \<Rightarrow> string option \<times> writer" where
  "serve_loop lib reg ctxDone k input w =
     (if ctxDone k then (None, w)
      else case readToolFrame input of
        (Inl e, _) \<Rightarrow>
          if e = ReadEOF \<or> ctxDone (Suc k) then (None, w)
          else (Some (''tools: serve: read request: '' @ read_error_text e), w)
      | (Inr reqData, rest1) \<Rightarrow>
          (case lib_unmarshalRequest lib reqData of
             Inl err \<Rightarrow> (Some (''tools: serve: unmarshal request: '' @ err), w)
           | Inr req \<Rightarrow>
               (case lib_marshalResponse lib (dispatchLocal reg req) of
                  Inl err \<Rightarrow> (Some (''tools: serve: marshal response: '' @ err), w)
                | Inr respData \<Rightarrow>
                    (case writeToolFrame lib w respData of
                       (Some err, w1) \<Rightarrow> (Some (''tools: serve: write response: '' @ err), w1)
                     | (None, w1) \<Rightarrow> serve_loop lib reg ctxDone (Suc k) rest1 w1))))"
  by pat_completeness auto
termination by (relation "measure (\<lambda>(lib, reg, ctxDone, k, input, w). length input)") (auto dest: readToolFrame_shorter [OF sym])

declare serve_loop.simps [simp del]

definition ServeToolConn :: "tool_lib \<Rightarrow> registry \<Rightarrow> (nat \<Rightarrow> bool) \<Rightarrow> octets \<Rightarrow> writer \<Rightarrow> string option \<times> writer" where
  "ServeToolConn lib reg ctxDone input w = serve_loop lib reg ctxDone 0 input w"

text \<open>A call over a connection; \<open>reply\<close> is what can be read after the request has been written.\<close>

definition DialInvoke :: "tool_lib \<Rightarrow> writer \<Rightarrow> (octets \<Rightarrow> octets) \<Rightarrow> string \<Rightarrow> string \<Rightarrow> string + toolResult" where
  "DialInvoke lib w reply toolName args =
     (case lib_marshalRequest lib \<lparr>tq_name = toolName, tq_argsJson = args\<rparr> of
        Inl err \<Rightarrow> Inl (''tools: dial: marshal request: '' @ err)
      | Inr reqData \<Rightarrow>
          (case writeToolFrame lib w reqData of
             (Some err, _) \<Rightarrow> Inl (''tools: dial: write request: '' @ err)
           | (None, w1) \<Rightarrow>
               (case readToolFrame (reply (w_out w1)) of
                  (Inl e, _) \<Rightarrow> Inl (''tools: dial: read response: '' @ read_error_text e)
                | (Inr respData, _) \<Rightarrow>
                    (case lib_unmarshalResponse lib respData of
                       Inl err \<Rightarrow> Inl (''tools: dial: unmarshal response: '' @ err)
                     | Inr resp \<Rightarrow> Inr \<lparr>tr_content = ts_contentJson resp, tr_isError = ts_isError resp\<rparr>))))"

section \<open>The bridge to the node\<close>

text \<open>
  The interface \<open>MeshNode\<close>. A dialled stream is a writer and what the other end answers to the bytes
  written; Sonar returns the agents it has collected.
\<close>

record mesh_node =
  mn_sonar :: "string \<Rightarrow> string + agentInfo list"
  mn_grpcDialer :: "node_id \<Rightarrow> string + writer \<times> (octets \<Rightarrow> octets)"
  mn_lookupCapability :: "string \<Rightarrow> nodeCapEntry list"

definition DiscoverTool :: "mesh_node \<Rightarrow> string \<Rightarrow> string + agentInfo list" where
  "DiscoverTool node toolName =
     (let capability = ''tool:'' @ toolName;
          entries = mn_lookupCapability node capability
      in if length entries > 0
         then Inr (map (\<lambda>e. \<lparr>ai_nodeID = nce_nodeID e, ai_impedance = nce_impedance e\<rparr>) entries)
         else case mn_sonar node capability of
           Inl err \<Rightarrow> Inl (''bridge: discover '' @ go_quote toolName @ '': '' @ err)
         | Inr agents \<Rightarrow> Inr agents)"

definition InvokeRemote :: "tool_lib \<Rightarrow> mesh_node \<Rightarrow> node_id \<Rightarrow> string \<Rightarrow> string \<Rightarrow> string + toolResult" where
  "InvokeRemote lib node nodeID toolName args =
     (case mn_grpcDialer node nodeID of
        Inl err \<Rightarrow> Inl (''bridge: dial '' @ go_quote nodeID @ '': '' @ err)
      | Inr (w, reply) \<Rightarrow> DialInvoke lib w reply toolName args)"

text \<open>Each agent becomes an entry without a definition.\<close>

definition DiscoverAllTools :: "mesh_node \<Rightarrow> string + agentInfo list list" where
  "DiscoverAllTools node =
     (case mn_sonar node ''tool:*'' of
        Inl err \<Rightarrow> Inl (''bridge: discover all tools: '' @ err)
      | Inr agents \<Rightarrow> Inr (map (\<lambda>a. [a]) agents))"

section \<open>Remote invocation\<close>

text \<open>The interface \<open>MeshTransport\<close> is its operations \<open>DiscoverTool\<close> and \<open>InvokeRemote\<close>.\<close>

definition ti_Invoke :: "(string \<Rightarrow> string + agentInfo list) \<Rightarrow> (node_id \<Rightarrow> string \<Rightarrow> string \<Rightarrow> string + toolResult) \<Rightarrow>
    node_id \<Rightarrow> string \<Rightarrow> string \<Rightarrow> string + toolResult" where
  "ti_Invoke discover invokeRemote nodeID toolName args =
     (if nodeID = [] then
        (case discover toolName of
           Inl err \<Rightarrow> Inl (''invoke: discover '' @ go_quote toolName @ '': '' @ err)
         | Inr agents \<Rightarrow>
             if length agents = 0 then Inl (''invoke: no nodes available for tool: '' @ toolName)
             else let sorted = go_sort (\<lambda>a b. flt (ai_impedance a) (ai_impedance b)) agents
                  in invokeRemote (ai_nodeID (sorted ! 0)) toolName args)
      else invokeRemote nodeID toolName args)"

record nodeResult =
  tn_nodeID :: node_id
  tn_outcome :: "string + toolResult"

definition ti_FanOut :: "(node_id \<Rightarrow> string \<Rightarrow> string \<Rightarrow> string + toolResult) \<Rightarrow> node_id list \<Rightarrow> string \<Rightarrow> string \<Rightarrow> nodeResult list" where
  "ti_FanOut invokeRemote nodeIDs toolName args =
     (if length nodeIDs = 0 then []
      else map (\<lambda>node. \<lparr>tn_nodeID = node, tn_outcome = invokeRemote node toolName args\<rparr>) nodeIDs)"

section \<open>Registered tools are discoverable\<close>

text \<open>
  The interface \<open>CapabilityTracker\<close>, with what the registry relies on: a capability that was registered is there from then on.
  \<open>covers d c\<close> says that the query \<open>d\<close> is answered because of the capability \<open>c\<close>.
\<close>

locale capability_tracker =
  fixes registerCapability :: "'t \<Rightarrow> string \<Rightarrow> 't"
    and has :: "'t \<Rightarrow> string \<Rightarrow> bool"
    and covers :: "string \<Rightarrow> string \<Rightarrow> bool"
  assumes has_register: "has (registerCapability t c) d \<longleftrightarrow> has t d \<or> covers d c"
    and covers_self: "covers c c"
begin

lemma register_all:
  assumes "foldl (Register registerCapability) (t0, NewRegistry True) tools = (t, r)"
  shows "reg_tracked r"
    and "reg_tools r = map_of (rev (map (\<lambda>tool. (td_name (fst tool), tool)) tools))"
    and "has t d \<longleftrightarrow> has t0 d \<or> (\<exists>name\<in>dom (reg_tools r). covers d (''tool:'' @ name))"
  using assms
proof (induction tools arbitrary: t r rule: rev_induct)
  case Nil
  {
    case 1
    then show ?case by (auto simp: NewRegistry_def)
  next
    case 2
    then show ?case by (auto simp: NewRegistry_def)
  next
    case 3
    then show ?case by (auto simp: NewRegistry_def)
  }
next
  case (snoc tl tools)
  obtain t1 r1 where st: "foldl (Register registerCapability) (t0, NewRegistry True) tools = (t1, r1)" by fastforce
  have step: "Register registerCapability (t1, r1) tl =
      (registerCapability t1 (''tool:'' @ td_name (fst tl)), r1\<lparr>reg_tools := (reg_tools r1)(td_name (fst tl) \<mapsto> tl)\<rparr>)"
    using snoc.IH(1) [OF st] by (simp add: Register_def split: prod.split)
  {
    case 1
    then show ?case using st step snoc.IH(1) [OF st] by auto
  next
    case 2
    then show ?case using st step snoc.IH(2) [OF st] by auto
  next
    case 3
    then have eqs: "dom (reg_tools r) = insert (td_name (fst tl)) (dom (reg_tools r1))" "t = registerCapability t1 (''tool:'' @ td_name (fst tl))"
      using st step by auto
    show ?case unfolding eqs has_register snoc.IH(3) [OF st] by blast
  }
qed

lemma registered_is_tracked:
  "foldl (Register registerCapability) (t0, NewRegistry True) tools = (t, r) \<Longrightarrow> reg_tools r name \<noteq> None \<Longrightarrow> has t (''tool:'' @ name)"
  using register_all(3) covers_self by blast

end

text \<open>The manifest of the node is such a tracker; a query that ends in \<open>:*\<close> is answered for every capability with its prefix.\<close>

definition capability_covers :: "string \<Rightarrow> string \<Rightarrow> bool" where
  "capability_covers d c \<longleftrightarrow> (if suffix '':*'' d then prefix (butlast d) c else d = c)"

interpretation manifest_tracker: capability_tracker RegisterCapability HasCapability capability_covers
  by unfold_locales (auto simp: RegisterCapability_def HasCapability_def capability_covers_def Let_def prefixeq_butlast)

text \<open>
  Every tool that can be called can be found. After any registrations with the manifest of a node as the tracker, a
  query for the capability \<open>tool:<name>\<close> that is new to the node is answered by it if, and only if, a tool of that name is in the
  registry (for a name that ends in \<open>:*\<close>, a tool whose name begins with the rest); and the registry holds under each name the
  definition and the handler that were registered last.
\<close>

theorem registered_tools_answer:
  assumes "foldl (Register RegisterCapability) (m0, NewRegistry True) tools = (m, r)"
    and "\<not> HasCapability m0 (wh_capability f)"
    and "sn_manifest s = m"
    and "wh_capability f = ''tool:'' @ t"
  shows "(fst (HandleWhoHas now s f) \<noteq> None \<longleftrightarrow>
      fst (admit now s (wh_UUID f)) \<and>
      (if suffix '':*'' (wh_capability f) then \<exists>name\<in>dom (reg_tools r). prefix (butlast t) name else GetDefinition r t \<noteq> None)) \<and>
    GetDefinition r t = map_option fst (map_of (rev (map (\<lambda>tool. (td_name (fst tool), tool)) tools)) t) \<and>
    InvokeLocal r t args = (case map_of (rev (map (\<lambda>tool. (td_name (fst tool), tool)) tools)) t of
        None \<Rightarrow> Inl (''registry: tool not found: '' @ t)
      | Some tool \<Rightarrow> snd tool args)"
proof -
  have "HasCapability m (wh_capability f) \<longleftrightarrow> (\<exists>name\<in>dom (reg_tools r). capability_covers (wh_capability f) (''tool:'' @ name))"
    using manifest_tracker.register_all(3) [OF assms(1), of "wh_capability f"] assms(2) by simp
  also have "\<dots> \<longleftrightarrow> (if suffix '':*'' (wh_capability f) then \<exists>name\<in>dom (reg_tools r). prefix (butlast t) name else t \<in> dom (reg_tools r))"
  proof (cases "t = []")
    case False
    then have "butlast (''tool:'' @ t) = ''tool:'' @ butlast t" by (simp add: butlast_append)
    then show ?thesis unfolding capability_covers_def assms(4) by auto
  qed (auto simp: capability_covers_def assms(4) suffix_def)
  finally have has: "HasCapability m (wh_capability f) \<longleftrightarrow> \<dots>" .
  show ?thesis
    using manifest_tracker.register_all(2) [OF assms(1)] has
    by (auto simp: HandleWhoHas_def ProcessWhoHas_admit GetDefinition_def InvokeLocal_def assms(3) domIff split: prod.split option.split)
qed

definition sample_tool :: "string \<Rightarrow> toolDefinition \<times> toolHandler" where
  "sample_tool name =
     (\<lparr>td_name = name, td_description = ''d'', td_longDescription = [], td_category = ''c'', td_hidden = False,
       td_parameters = [], td_inputSchema = []\<rparr>, \<lambda>args. Inr (NewTextResult args))"

theorem registered_tools_answer_witness:
  "fst (HandleWhoHas 0 (NewSonar (RegisterCapability (NewManifest ''n'') ''tool:x'') [])
      \<lparr>wh_UUID = ''u'', wh_capability = ''tool:x'', wh_originID = ''o'', wh_maxHops = 3\<rparr>) \<noteq> None"
proof -
  obtain r where r: "foldl (Register RegisterCapability) (NewManifest ''n'', NewRegistry True) [sample_tool ''x'']
      = (RegisterCapability (NewManifest ''n'') ''tool:x'', r)" "reg_tools r ''x'' \<noteq> None"
    by (simp add: Register_def sample_tool_def NewRegistry_def)
  show ?thesis
    using registered_tools_answer [OF r(1), where t = "''x''" and now = 0 and s = "NewSonar (RegisterCapability (NewManifest ''n'') ''tool:x'') []"
        and f = "\<lparr>wh_UUID = ''u'', wh_capability = ''tool:x'', wh_originID = ''o'', wh_maxHops = 3\<rparr>"] r(2)
    by (simp add: HasCapability_def NewManifest_def NewSonar_def suffix_def GetDefinition_def admit_def containsSeenLocked_def)
qed

section \<open>Calls over a connection\<close>

lemma readToolFrame_encode:
  assumes "length d \<le> maxToolFrameSize"
  shows "readToolFrame (encode d @ rest) = (Inr d, rest)"
proof -
  have "length d < 2 ^ 32" using assms by (simp add: maxToolFrameSize_def)
  then have "get_uint32 (put_uint32 (length d)) = length d" by (rule put_get)
  moreover have "read_full_err 4 (encode d @ rest) = (Inr (put_uint32 (length d)), d @ rest)"
    by (simp add: read_full_err_def encode_def)
  moreover have "read_full_err (length d) (d @ rest) = (Inr d, rest)" by (simp add: read_full_err_def)
  ultimately show ?thesis using assms by (simp add: readToolFrame_def)
qed

lemma writeToolFrame_open:
  "length d \<le> maxToolFrameSize \<Longrightarrow> w_room w = None \<Longrightarrow> writeToolFrame lib w d = (None, w\<lparr>w_out := w_out w @ encode d\<rparr>)"
  by (simp add: writeToolFrame_def w_write_def encode_def)

text \<open>What the two sides send for a request, when it can be rendered.\<close>

definition sent :: "string + octets \<Rightarrow> octets" where
  "sent r = (case r of Inr d \<Rightarrow> encode d | Inl _ \<Rightarrow> [])"

lemma request_eta: "\<lparr>tq_name = tq_name q, tq_argsJson = tq_argsJson q\<rparr> = q"
  by (cases q) simp

lemma sent_Inr [simp]: "sent (Inr d) = encode d"
  by (simp add: sent_def)

definition fits :: "string + octets \<Rightarrow> bool" where
  "fits r \<longleftrightarrow> (case r of Inr d \<Rightarrow> length d \<le> maxToolFrameSize | Inl _ \<Rightarrow> False)"

abbreviation request_data :: "tool_lib \<Rightarrow> toolRequest \<Rightarrow> string + octets" where
  "request_data lib q \<equiv> lib_marshalRequest lib q"

abbreviation response_data :: "tool_lib \<Rightarrow> registry \<Rightarrow> toolRequest \<Rightarrow> string + octets" where
  "response_data lib reg q \<equiv> lib_marshalResponse lib (dispatchLocal reg q)"

definition tool_codec :: "tool_lib \<Rightarrow> bool" where
  "tool_codec lib \<longleftrightarrow>
     (\<forall>q d. lib_marshalRequest lib q = Inr d \<longrightarrow> lib_unmarshalRequest lib d = Inr q) \<and>
     (\<forall>p d. lib_marshalResponse lib p = Inr d \<longrightarrow> lib_unmarshalResponse lib d = Inr p)"

lemma serve_one:
  assumes "tool_codec lib" "fits (request_data lib q)"
  shows "serve_loop lib reg (\<lambda>_. False) k (sent (request_data lib q) @ rest) w =
    (case response_data lib reg q of
       Inl err \<Rightarrow> (Some (''tools: serve: marshal response: '' @ err), w)
     | Inr d \<Rightarrow>
         (case writeToolFrame lib w d of
            (Some err, w1) \<Rightarrow> (Some (''tools: serve: write response: '' @ err), w1)
          | (None, w1) \<Rightarrow> serve_loop lib reg (\<lambda>_. False) (Suc k) rest w1))"
proof -
  obtain d where d: "request_data lib q = Inr d" "length d \<le> maxToolFrameSize"
    using assms(2) by (cases "request_data lib q") (auto simp: fits_def)
  then have "lib_unmarshalRequest lib d = Inr q" using assms(1) by (simp add: tool_codec_def)
  with d show ?thesis by (simp add: serve_loop.simps readToolFrame_encode)
qed

lemma serve_end: "serve_loop lib reg (\<lambda>_. False) k [] w = (None, w)"
  by (simp add: serve_loop.simps readToolFrame_def read_full_err_def)

lemma serve_all:
  assumes "tool_codec lib" "\<forall>q\<in>set qs. fits (request_data lib q) \<and> fits (response_data lib reg q)" "w_room w = None"
  shows "serve_loop lib reg (\<lambda>_. False) k (concat (map (\<lambda>q. sent (request_data lib q)) qs) @ rest) w =
    serve_loop lib reg (\<lambda>_. False) (k + length qs) rest (w\<lparr>w_out := w_out w @ concat (map (\<lambda>q. sent (response_data lib reg q)) qs)\<rparr>)"
  using assms(2,3)
proof (induction qs arbitrary: k w)
  case (Cons q qs)
  then obtain d where d: "response_data lib reg q = Inr d" "length d \<le> maxToolFrameSize"
    by (cases "response_data lib reg q") (auto simp: fits_def)
  with Cons.prems have "writeToolFrame lib w d = (None, w\<lparr>w_out := w_out w @ encode d\<rparr>)" by (simp add: writeToolFrame_open)
  with d Cons show ?case by (simp add: serve_one [OF assms(1)])
qed simp

text \<open>The result of a call as the caller sees it.\<close>

definition seen_result :: "registry \<Rightarrow> string \<Rightarrow> string \<Rightarrow> toolResult" where
  "seen_result reg toolName args =
     (case InvokeLocal reg toolName args of
        Inr result \<Rightarrow> result
      | Inl err \<Rightarrow> \<lparr>tr_content = go_quote (''tool '' @ go_quote toolName @ '': '' @ err), tr_isError = True\<rparr>)"

abbreviation fresh_writer :: writer where
  "fresh_writer \<equiv> \<lparr>w_out = [], w_room = None\<rparr>"

abbreviation serving :: "tool_lib \<Rightarrow> registry \<Rightarrow> octets \<Rightarrow> octets" where
  "serving lib reg input \<equiv> w_out (snd (ServeToolConn lib reg (\<lambda>_. False) input fresh_writer))"

lemma DialInvoke_serving:
  assumes "tool_codec lib" "fits (request_data lib \<lparr>tq_name = t, tq_argsJson = args\<rparr>)"
    "fits (response_data lib reg \<lparr>tq_name = t, tq_argsJson = args\<rparr>)"
  shows "DialInvoke lib fresh_writer (serving lib reg) t args = Inr (seen_result reg t args)"
proof -
  let ?q = "\<lparr>tq_name = t, tq_argsJson = args\<rparr>"
  obtain d where d: "request_data lib ?q = Inr d" "length d \<le> maxToolFrameSize"
    using assms(2) by (cases "request_data lib ?q") (auto simp: fits_def)
  obtain e where e: "response_data lib reg ?q = Inr e" "length e \<le> maxToolFrameSize"
    using assms(3) by (cases "response_data lib reg ?q") (auto simp: fits_def)
  have "serving lib reg (encode d) = encode e"
    using serve_one [OF assms(1,2), where reg = reg and k = 0 and rest = "[]" and w = fresh_writer] d e
    by (simp add: ServeToolConn_def writeToolFrame_open serve_end)
  moreover have "readToolFrame (encode e) = (Inr e, [])" using readToolFrame_encode [OF e(2), of "[]"] by simp
  moreover have "lib_unmarshalResponse lib e = Inr (dispatchLocal reg ?q)" using assms(1) e by (simp add: tool_codec_def)
  ultimately show ?thesis
    using d by (auto simp: DialInvoke_def writeToolFrame_open dispatchLocal_def seen_result_def split: sum.split)
qed

text \<open>
  Property C22. A remote call is a local call. With a codec that decodes what it encodes, a connection on which any requests arrive that fit in
  a frame and have responses that fit is answered with those responses in order, without an error; a caller gets from a node that serves its
  connection the result of the tool there, or the quoted error of the handler as a result that is marked as an error; and a response above the limit
  ends the service with an error before anything of it is written.
\<close>

theorem tool_calls_roundtrip:
  assumes "tool_codec lib" and "\<forall>q\<in>set qs. fits (request_data lib q) \<and> fits (response_data lib reg q)" and "w_room w = None"
  shows "ServeToolConn lib reg (\<lambda>_. False) (concat (map (\<lambda>q. sent (request_data lib q)) qs)) w =
      (None, w\<lparr>w_out := w_out w @ concat (map (\<lambda>q. sent (response_data lib reg q)) qs)\<rparr>) \<and>
    (\<forall>q\<in>set qs. DialInvoke lib fresh_writer (serving lib reg) (tq_name q) (tq_argsJson q) = Inr (seen_result reg (tq_name q) (tq_argsJson q))) \<and>
    (\<forall>q d. fits (request_data lib q) \<longrightarrow> response_data lib reg q = Inr d \<longrightarrow> length d > maxToolFrameSize \<longrightarrow>
       ServeToolConn lib reg (\<lambda>_. False) (concat (map (\<lambda>q. sent (request_data lib q)) (qs @ [q]))) w =
         (Some (''tools: serve: write response: '' @ too_large_text (length d)),
          w\<lparr>w_out := w_out w @ concat (map (\<lambda>q. sent (response_data lib reg q)) qs)\<rparr>))"
proof (intro conjI ballI allI impI)
  show "ServeToolConn lib reg (\<lambda>_. False) (concat (map (\<lambda>q. sent (request_data lib q)) qs)) w =
      (None, w\<lparr>w_out := w_out w @ concat (map (\<lambda>q. sent (response_data lib reg q)) qs)\<rparr>)"
    using serve_all [OF assms, where k = 0 and rest = "[]"] by (simp add: ServeToolConn_def serve_end)
next
  fix q assume "q \<in> set qs"
  then show "DialInvoke lib fresh_writer (serving lib reg) (tq_name q) (tq_argsJson q) = Inr (seen_result reg (tq_name q) (tq_argsJson q))"
    using assms(2) DialInvoke_serving [OF assms(1), of "tq_name q" "tq_argsJson q" reg] by (simp add: request_eta)
next
  fix q d assume "fits (request_data lib q)" "response_data lib reg q = Inr d" "length d > maxToolFrameSize"
  then show "ServeToolConn lib reg (\<lambda>_. False) (concat (map (\<lambda>q. sent (request_data lib q)) (qs @ [q]))) w =
       (Some (''tools: serve: write response: '' @ too_large_text (length d)),
        w\<lparr>w_out := w_out w @ concat (map (\<lambda>q. sent (response_data lib reg q)) qs)\<rparr>)"
    using serve_all [OF assms, where k = 0 and rest = "sent (request_data lib q)"] serve_one [OF assms(1), where q = q and rest = "[]"]
    by (simp add: ServeToolConn_def writeToolFrame_def)
qed

definition one_call_lib :: "toolRequest \<Rightarrow> toolResponse \<Rightarrow> tool_lib" where
  "one_call_lib q p =
     \<lparr>lib_marshalRequest = (\<lambda>x. if x = q then Inr [1] else Inl ''unknown''), lib_unmarshalRequest = (\<lambda>_. Inr q),
      lib_marshalResponse = (\<lambda>x. if x = p then Inr [2] else Inl ''unknown''), lib_unmarshalResponse = (\<lambda>_. Inr p),
      lib_writeError = ''closed''\<rparr>"

lemma one_call_codec: "tool_codec (one_call_lib q p)"
  by (auto simp: tool_codec_def one_call_lib_def split: if_splits)

theorem tool_calls_roundtrip_witness:
  "let q = \<lparr>tq_name = ''x'', tq_argsJson = ''1''\<rparr>; reg = snd (Register RegisterCapability (NewManifest ''n'', NewRegistry True) (sample_tool ''x''));
       lib = one_call_lib q (dispatchLocal reg q)
   in DialInvoke lib fresh_writer (serving lib reg) ''x'' ''1'' = Inr (NewTextResult ''1'')"
proof -
  define q reg lib where "q = \<lparr>tq_name = ''x'', tq_argsJson = ''1''\<rparr>"
    and "reg = snd (Register RegisterCapability (NewManifest ''n'', NewRegistry True) (sample_tool ''x''))"
    and "lib = one_call_lib q (dispatchLocal reg q)"
  have codec: "tool_codec lib" unfolding lib_def by (rule one_call_codec)
  have data: "\<forall>p\<in>set [q]. fits (request_data lib p) \<and> fits (response_data lib reg p)"
    by (simp add: lib_def one_call_lib_def fits_def maxToolFrameSize_def)
  have "DialInvoke lib fresh_writer (serving lib reg) (tq_name q) (tq_argsJson q) = Inr (seen_result reg (tq_name q) (tq_argsJson q))"
    using tool_calls_roundtrip [OF codec data, of fresh_writer] by simp
  moreover have "seen_result reg ''x'' ''1'' = NewTextResult ''1''"
    by (simp add: seen_result_def reg_def InvokeLocal_def Register_def sample_tool_def NewRegistry_def)
  ultimately show ?thesis by (simp add: q_def reg_def lib_def Let_def)
qed

end
