(* ===== verification/Gateway.thy ===== *)
theory Gateway
  imports Tools HostMatch
begin

text \<open>
  Model of \<open>pkg/mesh/gateway\<close>: the three tools that a language model sees (\<open>gateway.go\<close>, \<open>metatools.go\<close>). A call without a
  node runs here or on the first node found, a call with a plain name on that node, and a call with a pattern on every
  node found that the pattern matches. The interface \<open>MeshBridge\<close> is a record of its operations. The calls of a fan-out run
  concurrently but each writes its own place, so their results are those of a map.
\<close>

section \<open>Texts of node set errors\<close>

definition atoi_error_text :: "string \<Rightarrow> string" where
  "atoi_error_text s =
     (let ds = (if s \<noteq> [] \<and> (hd s = CHR ''-'' \<or> hd s = CHR ''+'') then tl s else s)
      in ''strconv.Atoi: parsing '' @ go_quote s @
         (if ds = [] \<or> \<not> list_all is_digit ds then '': invalid syntax'' else '': value out of range''))"

text \<open>The multiplication sign is its two bytes in UTF-8.\<close>

fun ns_error_text :: "ns_error \<Rightarrow> string" where
  "ns_error_text EmptyBracketExpr = ''empty bracket expression''"
| "ns_error_text (InvalidRangeStart s) = ''invalid range start '' @ go_quote s @ '': '' @ atoi_error_text s"
| "ns_error_text (InvalidRangeEnd s) = ''invalid range end '' @ go_quote s @ '': '' @ atoi_error_text s"
| "ns_error_text (StartAfterEnd lo hi) = ''invalid range: start '' @ itoa lo @ '' > end '' @ itoa hi"
| "ns_error_text (InvalidStep s) = ''invalid step '' @ go_quote s @ '': '' @ atoi_error_text s"
| "ns_error_text (StepNotPositive k) = ''step must be positive, got '' @ itoa k"
| "ns_error_text (InvalidValue s) = ''invalid value '' @ go_quote s @ '': '' @ atoi_error_text s"
| "ns_error_text (UnclosedBracket s) = ''unclosed bracket in '' @ go_quote s"
| "ns_error_text (InvalidBracketExpr c e) = ''invalid bracket expression ['' @ c @ '']: '' @ ns_error_text e"
| "ns_error_text (ProductExceedsLimit a b m) =
     ''nodeset: cartesian product '' @ itoa a @ [CHR '' '', CHR 0xC3, CHR 0x97, CHR '' ''] @ itoa b @ '' exceeds limit of '' @ itoa m"
| "ns_error_text (ExpansionExceedsLimit a m) = ''expansion of '' @ itoa a @ '' nodes exceeds limit of '' @ itoa m"
| "ns_error_text (NoGroupResolver r) = ''group reference @'' @ r @ '' but no GroupResolver configured''"
| "ns_error_text (ResolveFailed r e) = ''resolving group @'' @ r @ '': '' @ e"
| "ns_error_text EmptyPattern = ''empty pattern''"
| "ns_error_text (UnmatchedBracket s) = ''unmatched ']' in '' @ go_quote s"
| "ns_error_text (EmptyOperand i s) = ''empty operand near position '' @ itoa (int i) @ '' in '' @ go_quote s"
| "ns_error_text (TrailingOperator s) = ''trailing operator in '' @ go_quote s"
| "ns_error_text (InvalidBracket e) = ''invalid bracket expr: '' @ ns_error_text e"
| "ns_error_text BadGlobPattern = ''syntax error in pattern''"

section \<open>The gateway\<close>

record mesh_bridge =
  mb_invokeRemote :: "node_id \<Rightarrow> string \<Rightarrow> string \<Rightarrow> string + toolResult"
  mb_discoverNodes :: "string \<Rightarrow> string + agentInfo list"

record gateway =
  gw_registry :: registry
  gw_mesh :: "mesh_bridge option"
  gw_groupResolver :: groupResolver

definition gw_New :: "registry \<Rightarrow> mesh_bridge option \<Rightarrow> (gateway \<Rightarrow> gateway) list \<Rightarrow> gateway" where
  "gw_New r mesh opts = foldl (\<lambda>gw opt. opt gw) \<lparr>gw_registry = r, gw_mesh = mesh, gw_groupResolver = None\<rparr> opts"

definition gw_WithGroupResolver :: "groupResolver \<Rightarrow> gateway \<Rightarrow> gateway" where
  "gw_WithGroupResolver r gw = gw\<lparr>gw_groupResolver := r\<rparr>"

definition isNodesetPattern :: "string \<Rightarrow> bool" where
  "isNodesetPattern s \<longleftrightarrow> (\<exists>c\<in>set s. c \<in> set ''*?[!&^,@'')"

text \<open>\<open>tools.NewNeuronBridge\<close> on a node, which is the bridge of the daemon, and what the node gives it: its capability index.\<close>

definition NewNeuronBridge :: "tool_lib \<Rightarrow> mesh_node \<Rightarrow> mesh_bridge" where
  "NewNeuronBridge lib nd = \<lparr>mb_invokeRemote = InvokeRemote lib nd, mb_discoverNodes = DiscoverTool nd\<rparr>"

definition LookupCapability :: "node_id list \<Rightarrow> 'conn node \<Rightarrow> string \<Rightarrow> nodeCapEntry list" where
  "LookupCapability walk n capability = Lookup walk (n_capIndex n) capability"

section \<open>Listing and help\<close>

definition list_entry_text :: "toolDefinition \<Rightarrow> string" where
  "list_entry_text d =
     json_object [(''name'', json_string (td_name d)), (''description'', json_string (td_description d)),
       (''category'', json_string (td_category d))]"

definition HandleListTools :: "string list \<Rightarrow> gateway \<Rightarrow> string \<Rightarrow> toolResult" where
  "HandleListTools walk gw args =
     (let category = string_field ''category'' args;
          defs = (if category \<noteq> [] then ListLocalByCategory walk (gw_registry gw) category else ListLocal walk (gw_registry gw))
      in NewJSONResult (Some (json_object [(''tools'', json_array (map list_entry_text defs))])))"

definition param_text :: "toolParam \<Rightarrow> string" where
  "param_text p =
     json_object ([(''name'', json_string (tp_name p)), (''type'', json_string (tp_type p)),
       (''description'', json_string (tp_description p)), (''required'', json_bool (tp_required p))] @
       (if tp_default p \<noteq> [] then [(''default'', json_string (tp_default p))] else []))"

text \<open>Empty optional fields are left out; a schema that is not JSON makes the response impossible to render.\<close>

definition help_text :: "toolDefinition \<Rightarrow> string option" where
  "help_text d =
     map_option (\<lambda>schema.
       json_object ([(''name'', json_string (td_name d)), (''description'', json_string (td_description d))] @
         (if td_longDescription d \<noteq> [] then [(''long_description'', json_string (td_longDescription d))] else []) @
         [(''category'', json_string (td_category d))] @
         (if length (td_parameters d) > 0 then [(''parameters'', json_array (map param_text (td_parameters d)))] else []) @
         [(''input_schema'', schema)]))
       (json_raw (EffectiveSchema d))"

definition HandleToolHelp :: "gateway \<Rightarrow> string \<Rightarrow> toolResult" where
  "HandleToolHelp gw args =
     (let toolName = string_field ''tool_name'' args in
      if toolName = [] then NewErrorResult ''tool_help requires 'tool_name' parameter''
      else case GetDefinition (gw_registry gw) toolName of
        None \<Rightarrow> NewErrorResult (''tool not found: '' @ toolName)
      | Some def \<Rightarrow> NewJSONResult (help_text def))"

section \<open>Calls\<close>

record callToolArgs =
  ct_toolName :: string
  ct_nodeName :: string
  ct_args :: string

definition parse_call_args :: "string \<Rightarrow> callToolArgs" where
  "parse_call_args args =
     \<lparr>ct_toolName = string_field ''tool_name'' args, ct_nodeName = string_field ''node_name'' args,
      ct_args = raw_field ''args'' args\<rparr>"

record gw_nodeResult =
  nr_nodeID :: node_id
  nr_content :: string
  nr_isError :: bool
  nr_error :: string

definition node_result_text :: "gw_nodeResult \<Rightarrow> string option" where
  "node_result_text r =
     map_option (\<lambda>content.
       json_object ([(''node_id'', json_string (nr_nodeID r))] @ content @ [(''is_error'', json_bool (nr_isError r))] @
         (if nr_error r \<noteq> [] then [(''error'', json_string (nr_error r))] else [])))
       (if nr_content r = [] then Some [] else map_option (\<lambda>t. [(''content'', t)]) (json_raw (nr_content r)))"

definition results_text :: "gw_nodeResult list \<Rightarrow> string option" where
  "results_text rs = map_option (\<lambda>ts. json_object [(''results'', json_array ts)]) (those (map node_result_text rs))"

definition handleAutoRoute :: "gateway \<Rightarrow> callToolArgs \<Rightarrow> toolResult" where
  "handleAutoRoute gw params =
     (if GetDefinition (gw_registry gw) (ct_toolName params) \<noteq> None then
        (case InvokeLocal (gw_registry gw) (ct_toolName params) (ct_args params) of
           Inl err \<Rightarrow> NewErrorResult err
         | Inr result \<Rightarrow> result)
      else case gw_mesh gw of
        None \<Rightarrow> NewErrorResult (''tool '' @ go_quote (ct_toolName params) @ '' not found locally and no mesh connection'')
      | Some mesh \<Rightarrow>
          (case mb_discoverNodes mesh (ct_toolName params) of
             Inl err \<Rightarrow> NewErrorResult (''auto-route failed (discovery): '' @ err)
           | Inr agents \<Rightarrow>
               if length agents = 0
               then NewErrorResult (''auto-route failed: no nodes available for tool '' @ go_quote (ct_toolName params))
               else let targetNode = ai_nodeID (agents ! 0) in
                 (case mb_invokeRemote mesh targetNode (ct_toolName params) (ct_args params) of
                    Inl err \<Rightarrow> NewErrorResult (''auto-route failed on '' @ go_quote targetNode @ '': '' @ err)
                  | Inr result \<Rightarrow> result)))"

definition handleUnicast :: "gateway \<Rightarrow> callToolArgs \<Rightarrow> toolResult" where
  "handleUnicast gw params =
     (case gw_mesh gw of
        None \<Rightarrow> NewErrorResult ''remote invocation not available (no mesh connection)''
      | Some mesh \<Rightarrow>
          (case mb_invokeRemote mesh (ct_nodeName params) (ct_toolName params) (ct_args params) of
             Inl err \<Rightarrow> NewErrorResult (''invoke on '' @ go_quote (ct_nodeName params) @ '' failed: '' @ err)
           | Inr result \<Rightarrow>
               NewJSONResult (results_text
                 [\<lparr>nr_nodeID = ct_nodeName params, nr_content = tr_content result, nr_isError = tr_isError result, nr_error = []\<rparr>])))"

fun filter_agents :: "string \<Rightarrow> (options \<Rightarrow> options) list \<Rightarrow> agentInfo list \<Rightarrow> node_id list \<Rightarrow> ns_error + node_id list" where
  "filter_agents pattern opts [] matched = Inr matched"
| "filter_agents pattern opts (a # agents) matched =
     (case Match pattern (ai_nodeID a) opts of
        Inl err \<Rightarrow> Inl err
      | Inr ok \<Rightarrow> filter_agents pattern opts agents (if ok then matched @ [ai_nodeID a] else matched))"

definition call_node :: "mesh_bridge \<Rightarrow> callToolArgs \<Rightarrow> node_id \<Rightarrow> gw_nodeResult" where
  "call_node mesh params node =
     (case mb_invokeRemote mesh node (ct_toolName params) (ct_args params) of
        Inl err \<Rightarrow> \<lparr>nr_nodeID = node, nr_content = [], nr_isError = True, nr_error = err\<rparr>
      | Inr result \<Rightarrow> \<lparr>nr_nodeID = node, nr_content = tr_content result, nr_isError = tr_isError result, nr_error = []\<rparr>)"

definition match_options :: "gateway \<Rightarrow> (options \<Rightarrow> options) list" where
  "match_options gw = (if gw_groupResolver gw \<noteq> None then [WithGroupResolver (gw_groupResolver gw)] else [])"

definition handleFanOut :: "gateway \<Rightarrow> callToolArgs \<Rightarrow> toolResult" where
  "handleFanOut gw params =
     (case gw_mesh gw of
        None \<Rightarrow> NewErrorResult ''fan-out not available (no mesh connection)''
      | Some mesh \<Rightarrow>
          (case mb_discoverNodes mesh (ct_toolName params) of
             Inl err \<Rightarrow> NewErrorResult (''discover nodes for '' @ go_quote (ct_toolName params) @ '': '' @ err)
           | Inr agents \<Rightarrow>
               (case filter_agents (ct_nodeName params) (match_options gw) agents [] of
                  Inl matchErr \<Rightarrow>
                    NewErrorResult (''invalid pattern '' @ go_quote (ct_nodeName params) @ '': '' @ ns_error_text matchErr)
                | Inr matched \<Rightarrow>
                    if length matched = 0
                    then NewErrorResult (''no nodes matching '' @ go_quote (ct_nodeName params) @ '' have tool '' @
                           go_quote (ct_toolName params))
                    else NewJSONResult (results_text (map (call_node mesh params) matched)))))"

definition HandleCallTool :: "gateway \<Rightarrow> string \<Rightarrow> toolResult" where
  "HandleCallTool gw args =
     (let params = parse_call_args args in
      if ct_toolName params = [] then NewErrorResult ''call_tool requires 'tool_name' parameter''
      else if ct_nodeName params = [] then handleAutoRoute gw params
      else if isNodesetPattern (ct_nodeName params) then handleFanOut gw params
      else handleUnicast gw params)"

definition gw_Dispatch :: "string list \<Rightarrow> gateway \<Rightarrow> string \<Rightarrow> string \<Rightarrow> toolResult" where
  "gw_Dispatch walk gw toolName args =
     (if toolName = ''list_tools'' then HandleListTools walk gw args
      else if toolName = ''tool_help'' then HandleToolHelp gw args
      else if toolName = ''call_tool'' then HandleCallTool gw args
      else NewErrorResult (''unknown meta-tool: '' @ toolName))"

section \<open>A fan-out reaches every matching node\<close>

lemma filter_agents_all:
  assumes "\<forall>a\<in>set agents. Match pattern (ai_nodeID a) opts = Inr (sel (ai_nodeID a))"
  shows "filter_agents pattern opts agents matched = Inr (matched @ filter sel (map ai_nodeID agents))"
  using assms by (induction agents arbitrary: matched) auto

lemma filter_agents_error:
  assumes "\<forall>a\<in>set as. Match pattern (ai_nodeID a) opts = Inr (sel (ai_nodeID a))" "Match pattern (ai_nodeID a) opts = Inl err"
  shows "filter_agents pattern opts (as @ a # bs) matched = Inl err"
  using assms by (induction as arbitrary: matched) auto

lemma filter_agents_subset:
  "filter_agents pattern opts agents matched = Inr m \<Longrightarrow> set m \<subseteq> set matched \<union> ai_nodeID ` set agents"
proof (induction agents arbitrary: matched)
  case (Cons a agents)
  then show ?case by (fastforce split: sum.splits if_splits)
qed simp

lemma those_map_Some: "\<forall>x\<in>set xs. f x = Some (g x) \<Longrightarrow> those (map f xs) = Some (map g xs)"
  by (induction xs) auto

lemma those_map_None: "x \<in> set xs \<Longrightarrow> f x = None \<Longrightarrow> those (map f xs) = None"
  by (induction xs) (auto split: option.split)

text \<open>The node \<open>i\<close> serves the registry \<open>reg\<close> and the call fits into the frames of the protocol.\<close>

definition serves_call :: "tool_lib \<Rightarrow> mesh_node \<Rightarrow> registry \<Rightarrow> callToolArgs \<Rightarrow> node_id \<Rightarrow> bool" where
  "serves_call lib nd reg params i \<longleftrightarrow>
     mn_grpcDialer nd i = Inr (fresh_writer, serving lib reg) \<and>
     fits (request_data lib \<lparr>tq_name = ct_toolName params, tq_argsJson = ct_args params\<rparr>) \<and>
     fits (response_data lib reg \<lparr>tq_name = ct_toolName params, tq_argsJson = ct_args params\<rparr>)"

lemma call_serving_node:
  assumes "tool_codec lib" "serves_call lib nd reg params i"
  shows "call_node (NewNeuronBridge lib nd) params i =
    (let res = seen_result reg (ct_toolName params) (ct_args params)
     in \<lparr>nr_nodeID = i, nr_content = tr_content res, nr_isError = tr_isError res, nr_error = []\<rparr>)"
  using assms DialInvoke_serving [OF assms(1), of "ct_toolName params" "ct_args params" reg]
  by (simp add: call_node_def NewNeuronBridge_def InvokeRemote_def serves_call_def Let_def)

definition result_entry :: "node_id \<Rightarrow> toolResult \<Rightarrow> string" where
  "result_entry i res =
     json_object ([(''node_id'', json_string i)] @
       (if tr_content res = [] then [] else [(''content'', compact_text False (tr_content res))]) @
       [(''is_error'', json_bool (tr_isError res))])"

lemma text_of_serving_node:
  assumes "tool_codec lib" "serves_call lib nd reg params i"
  shows "node_result_text (call_node (NewNeuronBridge lib nd) params i) =
    (let res = seen_result reg (ct_toolName params) (ct_args params)
     in if tr_content res = [] \<or> json_valid (tr_content res) then Some (result_entry i res) else None)"
  by (simp add: call_serving_node [OF assms] node_result_text_def result_entry_def json_raw_def Let_def)

lemma HandleCallTool_pattern:
  assumes "ct_toolName (parse_call_args args) \<noteq> []" "isNodesetPattern (ct_nodeName (parse_call_args args))"
  shows "HandleCallTool gw args = handleFanOut gw (parse_call_args args)"
  using assms by (auto simp: HandleCallTool_def Let_def isNodesetPattern_def)

lemma discover_indexed:
  assumes "mn_lookupCapability nd (''tool:'' @ t) = entries" "entries \<noteq> []"
  shows "mb_discoverNodes (NewNeuronBridge lib nd) t = Inr (map (\<lambda>e. \<lparr>ai_nodeID = nce_nodeID e, ai_impedance = nce_impedance e\<rparr>) entries)"
  using assms by (simp add: NewNeuronBridge_def DiscoverTool_def)

lemma fan_out_on_indexed:
  assumes mesh: "gw_mesh gw = Some (NewNeuronBridge lib nd)"
    and entries: "mn_lookupCapability nd (''tool:'' @ ct_toolName params) = entries"
    and sel: "\<forall>e\<in>set entries. Match (ct_nodeName params) (nce_nodeID e) (match_options gw) = Inr (sel (nce_nodeID e))"
    and some: "\<exists>e\<in>set entries. sel (nce_nodeID e)"
  shows "handleFanOut gw params =
    NewJSONResult (results_text (map (call_node (NewNeuronBridge lib nd) params) (filter sel (map nce_nodeID entries))))"
proof -
  define m where "m = filter sel (map nce_nodeID entries)"
  have ne: "entries \<noteq> []" "m \<noteq> []" using some by (auto simp: m_def filter_empty_conv)
  have "filter_agents (ct_nodeName params) (match_options gw)
      (map (\<lambda>e. \<lparr>ai_nodeID = nce_nodeID e, ai_impedance = nce_impedance e\<rparr>) entries) [] = Inr m"
    using filter_agents_all [of "map (\<lambda>e. \<lparr>ai_nodeID = nce_nodeID e, ai_impedance = nce_impedance e\<rparr>) entries" _ _ sel] sel
    by (simp add: comp_def m_def)
  then show ?thesis
    unfolding m_def [symmetric] by (simp add: handleFanOut_def mesh discover_indexed [OF entries ne(1)] ne(2))
qed


definition sample_registry :: registry where
  "sample_registry = snd (Register RegisterCapability (NewManifest ''n'', NewRegistry True) (sample_tool ''x''))"

definition sample_call :: string where
  "sample_call = CHR 0x7B # json_string ''tool_name'' @ '':'' @ json_string ''x'' @ '','' @ json_string ''node_name'' @ '':'' @ json_string ''n*'' @
     '','' @ json_string ''args'' @ '': 1'' @ [CHR 0x7D]"

lemma sample_call_args: "parse_call_args sample_call = \<lparr>ct_toolName = ''x'', ct_nodeName = ''n*'', ct_args = ''1''\<rparr>"
  by code_simp

definition sample_entries :: "nodeCapEntry list" where
  "sample_entries = [\<lparr>nce_nodeID = ''n1'', nce_impedance = Num 1\<rparr>, \<lparr>nce_nodeID = ''m'', nce_impedance = Num 2\<rparr>]"

definition sample_mesh :: "tool_lib \<Rightarrow> registry \<Rightarrow> mesh_node" where
  "sample_mesh lib reg = \<lparr>mn_sonar = (\<lambda>_. Inr []), mn_grpcDialer = (\<lambda>_. Inr (fresh_writer, serving lib reg)),
     mn_lookupCapability = (\<lambda>_. sample_entries)\<rparr>"

definition sample_gateway :: "tool_lib \<Rightarrow> registry \<Rightarrow> gateway" where
  "sample_gateway lib reg = gw_New reg (Some (NewNeuronBridge lib (sample_mesh lib reg))) []"

lemma sample_matches:
  "\<forall>e\<in>set sample_entries. Match ''n*'' (nce_nodeID e) [] = Inr (prefix ''n'' (nce_nodeID e))"
  by code_simp


section \<open>Where a fan-out loses results\<close>

lemma quoted_error_invalid: "\<not> list_all json_quotable err \<Longrightarrow> \<not> json_valid (go_quote (''tool '' @ go_quote t @ '': '' @ err))"
  unfolding json_valid_def json_parse_quote by simp

text \<open>
  One error message can erase the results of all nodes. The error of a tool is sent as the text that \<open>%q\<close> prints, which for a
  message with a character that JSON has no escape for there, as the escape sequences of a coloured terminal, is not JSON. The answer of the
  fan-out is rendered as a whole and the failure to render it is ignored: if the tool fails with such a message on one matching node, the
  answer is empty and not marked as an error, whatever the other nodes returned.
\<close>

theorem fan_out_erased:
  assumes "tool_codec lib" and "gw_mesh gw = Some (NewNeuronBridge lib nd)"
    and "parse_call_args args = params" and "ct_toolName params \<noteq> []" and "isNodesetPattern (ct_nodeName params)"
    and "mn_lookupCapability nd (''tool:'' @ ct_toolName params) = entries"
    and "\<forall>e\<in>set entries. Match (ct_nodeName params) (nce_nodeID e) (match_options gw) = Inr (sel (nce_nodeID e))"
    and "e \<in> set entries" and "sel (nce_nodeID e)" and "serves_call lib nd reg params (nce_nodeID e)"
    and "InvokeLocal reg (ct_toolName params) (ct_args params) = Inl err" and "\<not> list_all json_quotable err"
  shows "HandleCallTool gw args = \<lparr>tr_content = [], tr_isError = False\<rparr>"
proof -
  have "seen_result reg (ct_toolName params) (ct_args params) =
      \<lparr>tr_content = go_quote (''tool '' @ go_quote (ct_toolName params) @ '': '' @ err), tr_isError = True\<rparr>"
    using assms(11) by (simp add: seen_result_def)
  moreover have "go_quote s \<noteq> []" for s by (simp add: go_quote_def)
  ultimately have "node_result_text (call_node (NewNeuronBridge lib nd) params (nce_nodeID e)) = None"
    using text_of_serving_node [OF assms(1,10)] quoted_error_invalid [OF assms(12)] by (simp add: Let_def)
  moreover have "nce_nodeID e \<in> set (filter sel (map nce_nodeID entries))" using assms(8,9) by auto
  ultimately have "those (map (node_result_text \<circ> call_node (NewNeuronBridge lib nd) params) (filter sel (map nce_nodeID entries))) = None"
    by (intro those_map_None) auto
  moreover have "\<exists>e\<in>set entries. sel (nce_nodeID e)" using assms(8,9) by blast
  ultimately show ?thesis
    using HandleCallTool_pattern [of args gw] assms(3-5) fan_out_on_indexed [OF assms(2,6,7)]
    by (simp add: results_text_def NewJSONResult_def del: filter_map)
qed

definition failing_registry :: "string \<Rightarrow> registry" where
  "failing_registry err = \<lparr>reg_tools = [''x'' \<mapsto> (fst (sample_tool ''x''), \<lambda>_. Inl err)], reg_tracked = False\<rparr>"

theorem fan_out_erased_witness:
  "let q = \<lparr>tq_name = ''x'', tq_argsJson = ''1''\<rparr>; reg = failing_registry [CHR 0x1B]; lib = one_call_lib q (dispatchLocal reg q)
   in HandleCallTool (sample_gateway lib reg) sample_call = \<lparr>tr_content = [], tr_isError = False\<rparr>"
proof -
  define q reg lib where "q = \<lparr>tq_name = ''x'', tq_argsJson = ''1''\<rparr>" and "reg = failing_registry [CHR 0x1B]"
    and "lib = one_call_lib q (dispatchLocal reg q)"
  let ?params = "\<lparr>ct_toolName = ''x'', ct_nodeName = ''n*'', ct_args = ''1''\<rparr>" and ?e = "\<lparr>nce_nodeID = ''n1'', nce_impedance = Num 1\<rparr>"
  have codec: "tool_codec lib" unfolding lib_def by (rule one_call_codec)
  have gw: "gw_mesh (sample_gateway lib reg) = Some (NewNeuronBridge lib (sample_mesh lib reg))" "match_options (sample_gateway lib reg) = []"
    by (simp_all add: sample_gateway_def gw_New_def match_options_def)
  have serves: "serves_call lib (sample_mesh lib reg) reg ?params (nce_nodeID ?e)"
    by (simp add: serves_call_def sample_mesh_def lib_def one_call_lib_def fits_def q_def maxToolFrameSize_def)
  have entries: "mn_lookupCapability (sample_mesh lib reg) (''tool:'' @ ct_toolName ?params) = sample_entries" by (simp add: sample_mesh_def)
  have fails: "InvokeLocal reg (ct_toolName ?params) (ct_args ?params) = Inl [CHR 0x1B]" by (simp add: reg_def failing_registry_def InvokeLocal_def)
  have "HandleCallTool (sample_gateway lib reg) sample_call = \<lparr>tr_content = [], tr_isError = False\<rparr>"
    using sample_matches
    by (intro fan_out_erased [OF codec gw(1) sample_call_args _ _ entries _ _ _ serves fails, where sel = "prefix ''n''"])
      (simp_all add: isNodesetPattern_def gw(2) sample_entries_def json_quotable_def)
  then show ?thesis by (simp add: Let_def lib_def q_def reg_def)
qed

section \<open>A fan-out leaves out the node it starts from\<close>

text \<open>The index of a node knows everyone but the node itself.\<close>

definition foreign_index :: "'conn node \<Rightarrow> bool" where [inv_defs]:
  "foreign_index n \<longleftrightarrow> ci_inv (n_capIndex n) \<and> ci_abs (n_capIndex n) (n_id n) = None"

lemma learn_caps_foreign:
  "ci_inv ci \<Longrightarrow> ci_abs ci self = None \<Longrightarrow>
   ci_inv (learn_caps clock self gossip ci ns) \<and> ci_abs (learn_caps clock self gossip ci ns) self = None"
proof (induction ns arbitrary: ci clock)
  case (Cons nodeID ns)
  then show ?case using Update_refines [OF Cons.prems(1), of _ nodeID] by (simp add: Let_def)
qed simp

lemma gossip_foreign:
  assumes "foreign_index n" "gf_fromNode g \<noteq> n_id n"
  shows "foreign_index (handleGossipFrame e n g)"
  using assms learn_caps_foreign Update_refines [of "n_capIndex n" _ "gf_fromNode g"]
  by (simp add: foreign_index_def handleGossipFrame_def Let_def)

lemma manifest_of_dispatch: "n_manifest (dispatch e n c fr) = n_manifest n"
  by (cases fr) (simp_all add: dispatch_def sonar_of_whohas sonar_of_ihave DeliverResponse_keeps admit_manifest)

lemma capIndex_of_dispatch: "(\<nexists>g. fr = FGossip g) \<Longrightarrow> n_capIndex (dispatch e n c fr) = n_capIndex n"
  by (cases fr) (simp_all add: dispatch_def handleWhoHasFrame_def handleIHaveFrame_def handleBootstrapFrame_def
      handleCredentialRequestFrame_def handleCredentialGrantFrame_def handleRelayOpenFrame_def handleRelayAcceptFrame_def
      n_send_def n_broadcastExcept_def sendToPeer_def Let_def split: prod.split option.split sum.split)

lemma dispatch_foreign:
  assumes "foreign_index n" "\<And>g. fr = FGossip g \<Longrightarrow> gf_fromNode g \<noteq> n_id n"
  shows "foreign_index (dispatch e n c fr)"
proof (cases "\<exists>g. fr = FGossip g")
  case True
  then show ?thesis using gossip_foreign [OF assms(1)] assms(2) by (auto simp: dispatch_def)
next
  case False
  from assms(1) show ?thesis unfolding foreign_index_def manifest_of_dispatch capIndex_of_dispatch [OF False] .
qed

lemma dispatch_all_foreign:
  assumes "foreign_index n" "\<forall>(e, c, fr)\<in>set evs. \<forall>g. fr = FGossip g \<longrightarrow> gf_fromNode g \<noteq> n_id n"
  shows "foreign_index (dispatch_all n evs) \<and> n_manifest (dispatch_all n evs) = n_manifest n"
  using assms
proof (induction evs arbitrary: n)
  case (Cons ev evs)
  obtain e c fr where ev: "ev = (e, c, fr)" by (cases ev) auto
  have "dispatch_all n (ev # evs) = dispatch_all (dispatch e n c fr) evs" by (simp add: dispatch_all_def ev)
  moreover have "foreign_index (dispatch e n c fr)" using dispatch_foreign [OF Cons.prems(1)] Cons.prems(2) ev by auto
  ultimately show ?case using Cons.IH [of "dispatch e n c fr"] Cons.prems(2) by (simp add: manifest_of_dispatch)
qed (simp add: dispatch_all_def)

lemma Lookup_indexed:
  assumes "ci_inv ci" "case ci_byCap ci c of None \<Rightarrow> True | Some nodes \<Rightarrow> walk_of walk nodes" "en \<in> set (Lookup walk ci c)"
  shows "ci_abs ci (nce_nodeID en) \<noteq> None"
proof -
  obtain nodes where nodes: "ci_byCap ci c = Some nodes" using assms(3) by (cases "ci_byCap ci c") (auto simp: Lookup_def)
  with assms(1) have "nodes = ci_view ci c" by (auto simp: ci_inv_def rep_def split: if_splits)
  moreover have "nodes (nce_nodeID en) = Some (nce_impedance en)"
    using assms(2,3) nodes sorted_entries(1) [of walk nodes] by (auto simp: Lookup_def)
  ultimately show ?thesis by (auto simp: ci_abs_def view_def split: option.splits)
qed

text \<open>
  A fan-out never runs the tool on the node it is called at. However many frames the node has handled, as long as no gossip
  claims to come from the node itself, its capability index holds every node but its own; the nodes that a fan-out asks, when the index knows
  any, are nodes of the index, so even with the pattern that matches every name the gateway leaves out its own node, although the tool may be
  registered there.
\<close>

theorem own_node_left_out:
  assumes "n_capIndex n0 = NewCapabilityIndex" and "\<forall>(e, c, fr)\<in>set evs. \<forall>g. fr = FGossip g \<longrightarrow> gf_fromNode g \<noteq> n_id n0"
    and "n = dispatch_all n0 evs"
    and "\<forall>c. case ci_byCap (n_capIndex n) c of None \<Rightarrow> True | Some nodes \<Rightarrow> walk_of (walk c) nodes"
    and "\<forall>c. mn_lookupCapability nd c = LookupCapability (walk c) n c"
    and "mn_lookupCapability nd (''tool:'' @ t) \<noteq> []"
    and "mb_discoverNodes (NewNeuronBridge lib nd) t = Inr agents"
    and "filter_agents pattern opts agents [] = Inr matched"
  shows "n_id n \<notin> set matched \<and> n_id n = n_id n0"
proof -
  have "foreign_index n0" using assms(1) ci_inv_new by (auto simp: foreign_index_def ci_abs_def) (simp add: NewCapabilityIndex_def)
  then have f: "foreign_index n" "n_manifest n = n_manifest n0" using dispatch_all_foreign [OF _ assms(2)] assms(3) by simp_all
  define c where "c = ''tool:'' @ t"
  have "ai_nodeID ` set agents = nce_nodeID ` set (Lookup (walk c) (n_capIndex n) c)"
    using assms(5-7) discover_indexed [OF refl assms(6)] by (auto simp: LookupCapability_def image_image c_def)
  moreover have "ci_abs (n_capIndex n) (nce_nodeID en) \<noteq> None"
    if "en \<in> set (Lookup (walk c) (n_capIndex n) c)" for en
    using f(1) assms(4) that by (intro Lookup_indexed) (auto simp: foreign_index_def)
  ultimately have "n_id n \<notin> ai_nodeID ` set agents" using f(1) unfolding foreign_index_def by (metis image_iff)
  then show ?thesis using filter_agents_subset [OF assms(8)] f(2) by auto
qed

definition told_caps :: gossipFrame where
  "told_caps = \<lparr>gf_fromNode = ''b'', gf_routes = Map.empty, gf_fromImpedance = Num 1, gf_fromCapabilities = [''tool:x''],
     gf_nodeCapabilities = Map.empty\<rparr>"

definition sample_lib :: tool_lib where
  "sample_lib = one_call_lib \<lparr>tq_name = [], tq_argsJson = []\<rparr> \<lparr>ts_isError = False, ts_contentJson = []\<rparr>"

theorem own_node_left_out_witness:
  "\<exists>(n :: nat node) nd agents. mb_discoverNodes (NewNeuronBridge sample_lib nd) ''x'' = Inr agents \<and> agents \<noteq> [] \<and> n_id n = ''a'' \<and>
     (\<forall>matched. filter_agents ''*'' [] agents [] = Inr matched \<longrightarrow> n_id n \<notin> set matched)"
proof -
  define n where "n = dispatch_all (sample_node ''a'') [(sample_env 0 [], 0, FGossip told_caps)]"
  define nd where "nd = \<lparr>mn_sonar = (\<lambda>_. Inr []), mn_grpcDialer = (\<lambda>_. Inl ''x''), mn_lookupCapability = (\<lambda>c. LookupCapability [''b''] n c)\<rparr>"
  have n0: "n_capIndex (sample_node ''a'') = NewCapabilityIndex" "n_id (sample_node ''a'') = ''a''"
    by (simp_all add: sample_node_def sample_config_def NewNode_def NewSonar_def NewManifest_def Let_def SetLimits_def NewCapabilityIndex_def)
  have from_b: "\<forall>(e, c, fr)\<in>set [(sample_env 0 [], 0, FGossip told_caps)]. \<forall>g. fr = FGossip g \<longrightarrow> gf_fromNode g \<noteq> n_id (sample_node ''a'')"
    unfolding n0 by (simp add: told_caps_def)
  have ci: "n_capIndex n = Update 0 NewCapabilityIndex ''b'' (Num 1) [''tool:x'']"
    by (simp add: n_def dispatch_all_def dispatch_def handleGossipFrame_def told_caps_def sample_env_def n0 Let_def)
  have bycap: "ci_byCap (n_capIndex n) = [''tool:x'' \<mapsto> [''b'' \<mapsto> Num 1]]"
    by (simp add: ci Update_def NewCapabilityIndex_def effectiveLimits_def Let_def touch_node_def purgeNodeLocked_def index_cap_def capNamespace_def)
  have walk: "\<forall>c. case ci_byCap (n_capIndex n) c of None \<Rightarrow> True | Some nodes \<Rightarrow> walk_of [''b''] nodes"
    by (auto simp: bycap walk_of_def split: option.split)
  have lookup: "\<forall>c. mn_lookupCapability nd c = LookupCapability [''b''] n c" by (simp add: nd_def)
  have look: "mn_lookupCapability nd (''tool:'' @ ''x'') \<noteq> []"
    by (simp add: nd_def LookupCapability_def Lookup_def bycap entries_of_def)
  obtain agents where ag: "mb_discoverNodes (NewNeuronBridge sample_lib nd) ''x'' = Inr agents" "agents \<noteq> []"
    using discover_indexed [OF refl look, of sample_lib] look by auto
  have "n_id n \<notin> set matched \<and> n_id n = n_id (sample_node ''a'')" if "filter_agents ''*'' [] agents [] = Inr matched" for matched
    by (rule own_node_left_out [OF n0(1) from_b n_def walk lookup look ag(1) that])
  moreover have "n_id n = ''a''" by (simp add: n_def dispatch_all_def manifest_of_dispatch n0)
  ultimately show ?thesis using ag by (intro exI [of _ n] exI [of _ nd] exI [of _ agents]) simp
qed

end
