(* ===== verification/Plugins.thy ===== *)
theory Plugins
  imports Tools
begin

text \<open>
  Model of \<open>internal/registry\<close>: the categories of tools (\<open>category.go\<close>), the result envelope (\<open>result.go\<close>), the cache of one
  result (\<open>cache.go\<close>), the set of plugins of a node (\<open>registry.go\<close>) and their registration with the mesh (\<open>bridge.go\<close>), and
  the detection of the distribution and of the roles of a node (\<open>detect.go\<close>). What a tool answers at the moment of a call is a field of
  the tool; SHA-256, the clock and the files of the machine are arguments.
\<close>

section \<open>Categories\<close>

type_synonym category = "8 word"

definition CategoryUnknown :: category where "CategoryUnknown = 0"

definition categoryNames :: "string list" where
  "categoryNames = [''unknown'', ''system'', ''compute'', ''memory'', ''network'', ''storage'', ''hardware'', ''lifecycle'']"

definition category_String :: "category \<Rightarrow> string" where
  "category_String c = (if unat c \<ge> length categoryNames then categoryNames ! unat CategoryUnknown else categoryNames ! unat c)"

definition AllCategories :: "category list" where
  "AllCategories = [1, 2, 3, 4, 5, 6, 7]"

definition CategoryNames :: "string list" where
  "CategoryNames = map category_String AllCategories"

definition to_lower :: "string \<Rightarrow> string" where
  "to_lower s = map fold_byte s"

definition ParseCategory :: "string \<Rightarrow> string + category" where
  "ParseCategory s =
     (let name = to_lower s in
      case find (\<lambda>c. categoryNames ! unat c = name) AllCategories of
        Some c \<Rightarrow> Inr c
      | None \<Rightarrow> Inl (''registry: unknown category '' @ go_quote s @ '' (valid: '' @ join '', '' CategoryNames @ '')''))"

definition category_MarshalJSON :: "category \<Rightarrow> string" where
  "category_MarshalJSON c = json_string (category_String c)"

text \<open>\<open>null\<close> leaves the string empty; the error for a value of another kind is \<open>None\<close>.\<close>

definition category_UnmarshalJSON :: "string \<Rightarrow> (string + category) option" where
  "category_UnmarshalJSON text =
     (case json_parse text of
        Some (JString s) \<Rightarrow> Some (ParseCategory s)
      | Some JNull \<Rightarrow> Some (ParseCategory [])
      | _ \<Rightarrow> None)"

section \<open>Results and tools\<close>

datatype resultStatus = StatusOK | StatusWarning | StatusError | StatusDegraded

fun status_text :: "resultStatus \<Rightarrow> string" where
  "status_text StatusOK = ''ok''"
| "status_text StatusWarning = ''warning''"
| "status_text StatusError = ''error''"
| "status_text StatusDegraded = ''degraded''"

record envelope =
  ev_toolName :: string
  ev_nodeID :: node_id
  ev_status :: resultStatus
  ev_summary :: string
  ev_data :: string
  ev_executionTimeMs :: int
  ev_timestamp :: string
  ev_filteringMethod :: string

text \<open>\<open>NewResult\<close> on rendered data, \<open>None\<close> when they could not be rendered.\<close>

definition NewResult :: "string \<Rightarrow> string \<Rightarrow> resultStatus \<Rightarrow> string \<Rightarrow> string option \<Rightarrow> envelope" where
  "NewResult timestamp toolName status summary data =
     \<lparr>ev_toolName = toolName, ev_nodeID = [], ev_status = status, ev_summary = summary,
      ev_data = (case data of Some t \<Rightarrow> t | None \<Rightarrow> []), ev_executionTimeMs = 0, ev_timestamp = timestamp, ev_filteringMethod = []\<rparr>"

definition reg_NewErrorResult :: "string \<Rightarrow> string \<Rightarrow> string \<Rightarrow> envelope" where
  "reg_NewErrorResult timestamp toolName message =
     NewResult timestamp toolName StatusError message (Some (json_object [(''error'', json_string message)]))"

definition envelope_text :: "envelope \<Rightarrow> string option" where
  "envelope_text r =
     map_option (\<lambda>data.
       json_object [(''tool_name'', json_string (ev_toolName r)), (''node_id'', json_string (ev_nodeID r)),
         (''status'', json_string (status_text (ev_status r))), (''summary'', json_string (ev_summary r)), (''data'', data),
         (''metadata'', json_object [(''execution_time_ms'', itoa (ev_executionTimeMs r)),
            (''timestamp'', json_string (ev_timestamp r)), (''filtering_method'', json_string (ev_filteringMethod r))])])
       (json_raw (ev_data r))"

record plugin =
  pl_name :: string
  pl_description :: string
  pl_help :: string
  pl_category :: category
  pl_parameters :: "toolParam list"
  pl_hidden :: bool
  pl_isSupported :: "bool \<times> string"
  pl_execute :: "string \<Rightarrow> string + envelope"

section \<open>The cache\<close>

record cachedTool =
  ca_ttl :: duration
  ca_lastHash :: octets
  ca_lastRes :: "envelope option"
  ca_expiresAt :: time

definition WithCache :: "duration \<Rightarrow> cachedTool" where
  "WithCache ttl = \<lparr>ca_ttl = ttl, ca_lastHash = [], ca_lastRes = None, ca_expiresAt = 0\<rparr>"

text \<open>
  \<open>now\<close> is the time of the look-up and \<open>now2\<close> the time after the tool has run; the answer and whether the tool was run.
\<close>

definition cached_Execute :: "(string \<Rightarrow> octets) \<Rightarrow> time \<Rightarrow> time \<Rightarrow> (string \<Rightarrow> string + envelope) \<Rightarrow> cachedTool \<Rightarrow> string \<Rightarrow>
    (string + envelope option) \<times> bool \<times> cachedTool" where
  "cached_Execute sha256 now now2 execute c args =
     (let key = sha256 args;
          hit = (ca_lastHash c = key \<and> now < ca_expiresAt c)
      in if hit then (Inr (ca_lastRes c), False, c)
         else case execute args of
           Inl err \<Rightarrow> (Inl err, True, c)
         | Inr res \<Rightarrow>
             (Inr (Some res), True,
              if ev_status res = StatusOK \<or> ev_status res = StatusWarning
              then c\<lparr>ca_lastHash := key, ca_lastRes := Some res, ca_expiresAt := now2 + ca_ttl c\<rparr> else c))"

section \<open>The plugins of a node\<close>

record pluginRegistry =
  pr_nodeID :: node_id
  pr_supportedMap :: "string \<rightharpoonup> plugin"
  pr_supportedList :: "plugin list"
  pr_unsupported :: "string \<rightharpoonup> string"
  pr_allMap :: "string \<rightharpoonup> plugin"

definition load_plugin :: "pluginRegistry \<Rightarrow> plugin \<Rightarrow> pluginRegistry" where
  "load_plugin pr t =
     (let pr1 = pr\<lparr>pr_allMap := (pr_allMap pr)(pl_name t \<mapsto> t)\<rparr>;
          (ok, reason) = pl_isSupported t
      in if ok then pr1\<lparr>pr_supportedMap := (pr_supportedMap pr1)(pl_name t \<mapsto> t), pr_supportedList := pr_supportedList pr1 @ [t]\<rparr>
         else pr1\<lparr>pr_unsupported := (pr_unsupported pr1)(pl_name t \<mapsto> reason)\<rparr>)"

definition NewPluginRegistryFrom :: "node_id \<Rightarrow> plugin list \<Rightarrow> pluginRegistry" where
  "NewPluginRegistryFrom nodeID tools =
     foldl load_plugin \<lparr>pr_nodeID = nodeID, pr_supportedMap = Map.empty, pr_supportedList = [], pr_unsupported = Map.empty,
       pr_allMap = Map.empty\<rparr> tools"

definition GetTool :: "pluginRegistry \<Rightarrow> string \<Rightarrow> plugin option" where
  "GetTool pr name = pr_supportedMap pr name"

definition GetAnyTool :: "pluginRegistry \<Rightarrow> string \<Rightarrow> plugin option" where
  "GetAnyTool pr name = pr_allMap pr name"

text \<open>The handler of a plugin; \<open>elapsed\<close> is what the clock says its execution took.\<close>

definition plugin_handler :: "node_id \<Rightarrow> int \<Rightarrow> plugin \<Rightarrow> toolHandler" where
  "plugin_handler nodeID elapsed tool args =
     (case pl_execute tool args of
        Inl err \<Rightarrow> Inr (NewErrorResult err)
      | Inr result \<Rightarrow>
          Inr \<lparr>tr_content = (case envelope_text (result\<lparr>ev_nodeID := nodeID, ev_executionTimeMs := elapsed\<rparr>) of
                  Some t \<Rightarrow> t | None \<Rightarrow> []), tr_isError = False\<rparr>)"

definition plugin_definition :: "plugin \<Rightarrow> toolDefinition" where
  "plugin_definition tool =
     \<lparr>td_name = pl_name tool, td_description = pl_description tool, td_longDescription = pl_help tool,
      td_category = category_String (pl_category tool), td_hidden = pl_hidden tool, td_parameters = pl_parameters tool,
      td_inputSchema = []\<rparr>"

definition BridgeToMesh :: "('t \<Rightarrow> string \<Rightarrow> 't) \<Rightarrow> (plugin \<Rightarrow> int) \<Rightarrow> pluginRegistry \<Rightarrow> 't \<times> registry \<Rightarrow> 't \<times> registry" where
  "BridgeToMesh registerCapability elapsed pr st =
     foldl (\<lambda>st tool. Register registerCapability st (plugin_definition tool, plugin_handler (pr_nodeID pr) (elapsed tool) tool)) st
       (pr_supportedList pr)"

section \<open>Detection\<close>

definition trim_char :: "char \<Rightarrow> string \<Rightarrow> string" where
  "trim_char c s = rev (dropWhile (\<lambda>d. d = c) (rev (dropWhile (\<lambda>d. d = c) s)))"

definition os_release_line :: "(string \<rightharpoonup> string) \<Rightarrow> string \<Rightarrow> string \<rightharpoonup> string" where
  "os_release_line m line0 =
     (let line = trim_space line0 in
      if line = [] \<or> prefix ''#'' line then m
      else case index_byte line CHR ''='' of
        None \<Rightarrow> m
      | Some i \<Rightarrow> m(take i line \<mapsto> trim_char CHR 0x22 (drop (i + 1) line)))"

text \<open>\<open>ReadOSRelease\<close> on the contents of the file, \<open>None\<close> when it cannot be read.\<close>

definition ReadOSRelease :: "string option \<Rightarrow> string \<rightharpoonup> string" where
  "ReadOSRelease contents =
     (case contents of None \<Rightarrow> Map.empty | Some text \<Rightarrow> foldl os_release_line Map.empty (split_on (CHR 0x0A) text))"

definition IsDistro :: "string option \<Rightarrow> string list \<Rightarrow> bool" where
  "IsDistro contents names =
     (let distro = to_lower (case ReadOSRelease contents ''ID'' of Some v \<Rightarrow> v | None \<Rightarrow> [])
      in list_ex (\<lambda>name. to_lower name = distro) names)"

record nodeRoleInfo =
  ri_IsSFA :: bool
  ri_MGSs :: "string list"
  ri_MDTs :: "string list"
  ri_OSTs :: "string list"
  ri_Clients :: "string list"
  ri_IsMGS :: bool
  ri_IsMDS :: bool
  ri_IsOSS :: bool
  ri_IsClient :: bool

definition HasStorageRole :: "nodeRoleInfo \<Rightarrow> bool" where
  "HasStorageRole n \<longleftrightarrow> ri_IsSFA n \<or> ri_IsMGS n \<or> ri_IsMDS n \<or> ri_IsOSS n \<or> ri_IsClient n"

definition Roles :: "nodeRoleInfo \<Rightarrow> string list" where
  "Roles n =
     (let roles = (if ri_IsSFA n then [''sfa''] else []) @ (if ri_IsMGS n then [''mgs''] else []) @
            (if ri_IsMDS n then [''mds''] else []) @ (if ri_IsOSS n then [''oss''] else []) @ (if ri_IsClient n then [''client''] else [])
      in if length roles = 0 then [''generic''] else roles)"

text \<open>A directory is the names and kinds of its entries, or \<open>None\<close>.\<close>

definition listSubdirs :: "(string \<times> bool) list option \<Rightarrow> string list" where
  "listSubdirs entries = (case entries of None \<Rightarrow> [] | Some es \<Rightarrow> map fst (filter snd es))"

definition DetectNodeRoles :: "(string \<Rightarrow> bool) \<Rightarrow> (string \<Rightarrow> (string \<times> bool) list option) \<Rightarrow> nodeRoleInfo" where
  "DetectNodeRoles pathExists readDir =
     (let sfa = pathExists ''/sys/module/jsysdd'' \<or> pathExists ''/sys/class/jsys'' \<or> pathExists ''/sys/module/jnvme'' \<or>
            pathExists ''/sys/class/jnvme'';
          mgs = listSubdirs (readDir ''/sys/fs/lustre/mgs''); mdt = listSubdirs (readDir ''/sys/fs/lustre/mdt'');
          ost = listSubdirs (readDir ''/sys/fs/lustre/obdfilter''); llite = listSubdirs (readDir ''/sys/fs/lustre/llite'')
      in \<lparr>ri_IsSFA = sfa, ri_MGSs = mgs, ri_MDTs = mdt, ri_OSTs = ost, ri_Clients = llite,
          ri_IsMGS = length mgs > 0, ri_IsMDS = length mdt > 0, ri_IsOSS = length ost > 0, ri_IsClient = length llite > 0\<rparr>)"

section \<open>Categories survive their text\<close>

lemma parse_category_name: "c \<in> set AllCategories \<Longrightarrow> ParseCategory (category_String c) = Inr c"
  unfolding AllCategories_def by (simp only: list.set insert_iff empty_iff HOL.simp_thms, elim disjE; simp only:; code_simp)

lemma to_lower_idem: "to_lower (to_lower s) = to_lower s"
proof -
  have "fold_byte (fold_byte c) = fold_byte c" for c
    by (auto simp: fold_byte_def Let_def)
  then show ?thesis by (simp add: to_lower_def)
qed

lemma ParseCategory_valid: "ParseCategory s = Inr c \<Longrightarrow> c \<in> set AllCategories \<and> category_String c = to_lower s"
proof -
  assume "ParseCategory s = Inr c"
  then have "find (\<lambda>c. categoryNames ! unat c = to_lower s) AllCategories = Some c"
    by (simp add: ParseCategory_def Let_def split: option.splits)
  then have "c \<in> set AllCategories" "categoryNames ! unat c = to_lower s" by (auto simp: find_Some_iff)
  moreover have "\<forall>c\<in>set AllCategories. category_String c = categoryNames ! unat c" by code_simp
  ultimately show ?thesis by simp
qed

section \<open>A node offers exactly its supported plugins\<close>

definition supported_plugins :: "plugin list \<Rightarrow> plugin list" where
  "supported_plugins tools = filter (\<lambda>t. fst (pl_isSupported t)) tools"

text \<open>The plugin that was listed last under each name.\<close>

definition plugins_by_name :: "plugin list \<Rightarrow> string \<rightharpoonup> plugin" where
  "plugins_by_name tools = map_of (rev (map (\<lambda>t. (pl_name t, t)) tools))"

lemma plugins_by_name_snoc: "plugins_by_name (ts @ [t]) = (plugins_by_name ts)(pl_name t \<mapsto> t)"
  by (simp add: plugins_by_name_def)

lemma plugin_registry:
  "let pr = NewPluginRegistryFrom nodeID tools in
     pr_nodeID pr = nodeID \<and> pr_supportedList pr = supported_plugins tools \<and>
     pr_supportedMap pr = plugins_by_name (supported_plugins tools) \<and> pr_allMap pr = plugins_by_name tools \<and>
     dom (pr_unsupported pr) = pl_name ` {t \<in> set tools. \<not> fst (pl_isSupported t)}"
proof (induction tools rule: rev_induct)
  case Nil
  then show ?case by (simp add: NewPluginRegistryFrom_def supported_plugins_def plugins_by_name_def)
next
  case (snoc t ts)
  have "NewPluginRegistryFrom nodeID (ts @ [t]) = load_plugin (NewPluginRegistryFrom nodeID ts) t"
    by (simp add: NewPluginRegistryFrom_def)
  then show ?case
    using snoc by (cases "pl_isSupported t")
      (auto simp: load_plugin_def Let_def supported_plugins_def plugins_by_name_snoc)
qed

lemma map_of_tagged: "map_of (map (\<lambda>t. (k t, f t)) xs) x = map_option f (map_of (map (\<lambda>t. (k t, t)) xs) x)"
  by (induction xs) auto

lemma plugins_by_name_None: "plugins_by_name tools name = None \<longleftrightarrow> name \<notin> pl_name ` set tools"
  by (auto simp: plugins_by_name_def map_of_eq_None_iff image_image)

text \<open>
  A node offers exactly the plugins it supports. After the plugins of a node have been bridged into a fresh registry, a query for
  \<open>tool:<name>\<close> is answered if, and only if, a plugin of that name is supported; a call of that name runs the supported plugin that was listed
  last under it and never fails, as the error of a plugin becomes a result; and a name that is known but not offered has its reason
  among the unsupported ones.
\<close>

theorem plugins_offered:
  assumes "pr = NewPluginRegistryFrom nodeID tools"
    and "BridgeToMesh RegisterCapability elapsed pr (m0, NewRegistry True) = (m, r)"
    and "\<not> HasCapability m0 (''tool:'' @ name)" and "\<not> suffix '':*'' (''tool:'' @ name)"
  shows "(HasCapability m (''tool:'' @ name) \<longleftrightarrow> GetTool pr name \<noteq> None) \<and>
    InvokeLocal r name args = (case plugins_by_name (supported_plugins tools) name of
        None \<Rightarrow> Inl (''registry: tool not found: '' @ name)
      | Some t \<Rightarrow> plugin_handler nodeID (elapsed t) t args) \<and>
    (HasCapability m (''tool:'' @ name) \<longleftrightarrow> (\<exists>result. InvokeLocal r name args = Inr result)) \<and>
    GetTool pr name = plugins_by_name (supported_plugins tools) name \<and>
    (GetAnyTool pr name \<noteq> None \<and> GetTool pr name = None \<longrightarrow> pr_unsupported pr name \<noteq> None)"
proof -
  let ?sup = "supported_plugins tools"
  let ?reg = "\<lambda>t. (plugin_definition t, plugin_handler nodeID (elapsed t) t)"
  note pr = plugin_registry [of nodeID tools, unfolded Let_def, folded assms(1)]
  have "foldl (Register RegisterCapability) (m0, NewRegistry True) (map ?reg ?sup) = (m, r)"
    using assms(2) pr by (simp add: BridgeToMesh_def foldl_map)
  note reg = manifest_tracker.register_all [OF this]
  have named: "(\<lambda>tool. (td_name (fst tool), tool)) \<circ> ?reg = (\<lambda>t. (pl_name t, ?reg t))"
    by (simp add: comp_def plugin_definition_def)
  have tools: "reg_tools r = map_option ?reg \<circ> plugins_by_name ?sup"
    unfolding reg(2) map_map named plugins_by_name_def rev_map
    by (simp add: fun_eq_iff map_of_tagged [of pl_name ?reg])
  have has: "HasCapability m (''tool:'' @ name) \<longleftrightarrow> plugins_by_name ?sup name \<noteq> None"
    using assms(3,4) reg(3) [of "''tool:'' @ name"] by (auto simp: capability_covers_def tools)
  have answers: "\<exists>result. plugin_handler nodeID k t args = Inr result" for k t
    by (simp add: plugin_handler_def split: sum.split)
  have reason: "pr_unsupported pr name \<noteq> None" if "plugins_by_name tools name \<noteq> None" "plugins_by_name ?sup name = None"
  proof -
    have "name \<in> pl_name ` set tools" "name \<notin> pl_name ` set ?sup" using that by (simp_all add: plugins_by_name_None)
    then have "name \<in> dom (pr_unsupported pr)" using pr by (auto simp: supported_plugins_def)
    then show ?thesis by auto
  qed
  have get: "GetTool pr name = plugins_by_name ?sup name" "GetAnyTool pr name = plugins_by_name tools name"
    using pr by (simp_all add: GetTool_def GetAnyTool_def)
  have invoke: "InvokeLocal r name args = (case plugins_by_name ?sup name of
      None \<Rightarrow> Inl (''registry: tool not found: '' @ name) | Some t \<Rightarrow> plugin_handler nodeID (elapsed t) t args)"
    by (simp add: InvokeLocal_def tools split: option.split)
  show ?thesis
    unfolding has get invoke using answers reason by (cases "plugins_by_name ?sup name") simp_all
qed

definition sample_plugin :: "string \<Rightarrow> bool \<Rightarrow> plugin" where
  "sample_plugin name ok =
     \<lparr>pl_name = name, pl_description = ''d'', pl_help = ''h'', pl_category = 1, pl_parameters = [], pl_hidden = False,
      pl_isSupported = (ok, ''missing''), pl_execute = (\<lambda>args. Inr (NewResult ''t'' name StatusOK args (Some ''null'')))\<rparr>"

theorem plugins_offered_witness:
  "HasCapability (fst (BridgeToMesh RegisterCapability (\<lambda>_. 3) (NewPluginRegistryFrom ''n'' [sample_plugin ''a'' True, sample_plugin ''b'' False])
      (NewManifest ''n'', NewRegistry True))) ''tool:a''"
proof -
  define pr where "pr = NewPluginRegistryFrom ''n'' [sample_plugin ''a'' True, sample_plugin ''b'' False]"
  obtain m r where b: "BridgeToMesh RegisterCapability (\<lambda>_. 3) pr (NewManifest ''n'', NewRegistry True) = (m, r)" by fastforce
  have "GetTool pr ''a'' \<noteq> None"
    by (simp add: pr_def NewPluginRegistryFrom_def load_plugin_def sample_plugin_def GetTool_def)
  then have "HasCapability m (''tool:'' @ ''a'')"
    using plugins_offered [OF pr_def b, of "''a''"] by (simp add: HasCapability_def NewManifest_def suffix_def)
  then show ?thesis using b by (simp add: pr_def)
qed

section \<open>The cache is a memo of the last good call\<close>

record call_event =
  ce_now :: time
  ce_now2 :: time
  ce_args :: string
  ce_outcome :: "string + envelope"

definition good :: "string + envelope \<Rightarrow> bool" where
  "good out = (case out of Inr r \<Rightarrow> ev_status r = StatusOK \<or> ev_status r = StatusWarning | Inl _ \<Rightarrow> False)"

fun cache_run :: "(string \<Rightarrow> octets) \<Rightarrow> cachedTool \<Rightarrow> call_event list \<Rightarrow> ((string + envelope option) \<times> bool) list" where
  "cache_run sha256 c [] = []"
| "cache_run sha256 c (e # es) =
     (let (answer, called, c') = cached_Execute sha256 (ce_now e) (ce_now2 e) (\<lambda>_. ce_outcome e) c (ce_args e)
      in (answer, called) # cache_run sha256 c' es)"

text \<open>The abstract cache: the last call that was run and was good.\<close>

fun memo_run :: "duration \<Rightarrow> call_event option \<Rightarrow> call_event list \<Rightarrow> ((string + envelope option) \<times> bool) list" where
  "memo_run ttl memo [] = []"
| "memo_run ttl memo (e # es) =
     (case memo of
        Some g \<Rightarrow>
          if ce_args g = ce_args e \<and> ce_now e < ce_now2 g + ttl then (map_sum id Some (ce_outcome g), False) # memo_run ttl memo es
          else (map_sum id Some (ce_outcome e), True) # memo_run ttl (if good (ce_outcome e) then Some e else memo) es
      | None \<Rightarrow> (map_sum id Some (ce_outcome e), True) # memo_run ttl (if good (ce_outcome e) then Some e else None) es)"

definition cache_rel :: "(string \<Rightarrow> octets) \<Rightarrow> cachedTool \<Rightarrow> call_event option \<Rightarrow> bool" where
  "cache_rel sha256 c memo \<longleftrightarrow>
     (case memo of
        None \<Rightarrow> ca_lastHash c = []
      | Some g \<Rightarrow> good (ce_outcome g) \<and> ca_lastHash c = sha256 (ce_args g) \<and> map_sum id Some (ce_outcome g) = Inr (ca_lastRes c) \<and>
          ca_expiresAt c = ce_now2 g + ca_ttl c)"

lemma cache_run_memo:
  assumes "inj_on sha256 A" "\<forall>a\<in>A. sha256 a \<noteq> []" "cache_rel sha256 c memo" "\<forall>g. memo = Some g \<longrightarrow> ce_args g \<in> A" "ce_args ` set es \<subseteq> A"
  shows "cache_run sha256 c es = memo_run (ca_ttl c) memo es"
  using assms(3-5)
proof (induction es arbitrary: c memo)
  case (Cons e es)
  obtain answer called c' where x: "cached_Execute sha256 (ce_now e) (ce_now2 e) (\<lambda>_. ce_outcome e) c (ce_args e) = (answer, called, c')"
    by (metis prod_cases3)
  let ?hit = "\<exists>g. memo = Some g \<and> ce_args g = ce_args e \<and> ce_now e < ce_now2 g + ca_ttl c"
  have hash: "ca_lastHash c = sha256 (ce_args e) \<and> ce_now e < ca_expiresAt c \<longleftrightarrow> ?hit"
  proof (cases memo)
    case None
    then show ?thesis using Cons.prems(1,3) assms(2) by (auto simp: cache_rel_def)
  next
    case (Some g)
    then have "sha256 (ce_args g) = sha256 (ce_args e) \<longleftrightarrow> ce_args g = ce_args e"
      using Cons.prems(2,3) inj_on_eq_iff [OF assms(1)] by auto
    then show ?thesis using Cons.prems(1) Some by (simp add: cache_rel_def)
  qed
  show ?case
  proof (cases ?hit)
    case True
    then obtain g where g: "memo = Some g" "ce_args g = ce_args e" "ce_now e < ce_now2 g + ca_ttl c" by blast
    then have "(answer, called, c') = (map_sum id Some (ce_outcome g), False, c)"
      using x hash True Cons.prems(1) by (auto simp: cached_Execute_def Let_def cache_rel_def)
    then show ?thesis using g x Cons.IH [OF Cons.prems(1,2)] Cons.prems(3) by simp
  next
    case False
    define memo' where "memo' = (if good (ce_outcome e) then Some e else memo)"
    have res: "answer = map_sum id Some (ce_outcome e)" "called" "ca_ttl c' = ca_ttl c"
        "c' = (if good (ce_outcome e) then c\<lparr>ca_lastHash := sha256 (ce_args e), ca_lastRes := (case ce_outcome e of Inr r \<Rightarrow> Some r | _ \<Rightarrow> None),
           ca_expiresAt := ce_now2 e + ca_ttl c\<rparr> else c)"
      using x hash False by (auto simp: cached_Execute_def Let_def good_def split: sum.splits if_splits)
    have "cache_rel sha256 c' memo'"
      using Cons.prems(1) by (auto simp: res(4) memo'_def cache_rel_def good_def split: sum.splits option.splits)
    moreover have "\<forall>g. memo' = Some g \<longrightarrow> ce_args g \<in> A" using Cons.prems(2,3) by (auto simp: memo'_def)
    ultimately have "cache_run sha256 c' es = memo_run (ca_ttl c) memo' es"
      using Cons.IH [of c' memo'] Cons.prems(3) res(3) by simp
    moreover have "memo_run (ca_ttl c) memo (e # es) = (map_sum id Some (ce_outcome e), True) # memo_run (ca_ttl c) memo' es"
      using False by (cases memo) (auto simp: memo'_def)
    ultimately show ?thesis using x res(1,2) by simp
  qed
qed simp

lemma memo_run_fresh:
  assumes "i < length es" "memo_run ttl memo es ! i = (answer, called)"
  shows "if called then answer = map_sum id Some (ce_outcome (es ! i))
    else \<exists>g. (memo = Some g \<or> (\<exists>j<i. g = es ! j \<and> snd (memo_run ttl memo es ! j) \<and> good (ce_outcome g))) \<and>
      ce_args g = ce_args (es ! i) \<and> ce_now (es ! i) < ce_now2 g + ttl \<and> answer = map_sum id Some (ce_outcome g)"
  using assms
proof (induction es arbitrary: memo i)
  case (Cons e es)
  define memo' where "memo' = (if good (ce_outcome e) then Some e else memo)"
  consider (hit) g where "memo = Some g" "ce_args g = ce_args e" "ce_now e < ce_now2 g + ttl"
      "memo_run ttl memo (e # es) = (map_sum id Some (ce_outcome g), False) # memo_run ttl memo es"
    | (miss) "memo_run ttl memo (e # es) = (map_sum id Some (ce_outcome e), True) # memo_run ttl memo' es"
  proof (cases memo)
    case None
    then show ?thesis using that(2) by (simp add: memo'_def)
  next
    case (Some g)
    then show ?thesis using that by (cases "ce_args g = ce_args e \<and> ce_now e < ce_now2 g + ttl") (simp_all add: memo'_def)
  qed
  then show ?case
  proof cases
    case (hit g)
    show ?thesis
    proof (cases i)
      case 0
      then show ?thesis using hit Cons.prems by auto
    next
      case (Suc k)
      then have "k < length es" "memo_run ttl memo es ! k = (answer, called)" using hit Cons.prems by auto
      note Cons.IH [OF this]
      then show ?thesis unfolding hit(4) Suc by (cases called) (simp, fastforce)
    qed
  next
    case miss
    show ?thesis
    proof (cases i)
      case 0
      then show ?thesis using miss Cons.prems by auto
    next
      case (Suc k)
      then have k: "k < length es" "memo_run ttl memo' es ! k = (answer, called)" using miss Cons.prems by auto
      show ?thesis
      proof (cases called)
        case True
        then show ?thesis using Cons.IH [OF k] Suc by simp
      next
        case False
        then obtain g where g: "memo' = Some g \<or> (\<exists>j<k. g = es ! j \<and> snd (memo_run ttl memo' es ! j) \<and> good (ce_outcome g))"
            "ce_args g = ce_args (es ! k)" "ce_now (es ! k) < ce_now2 g + ttl" "answer = map_sum id Some (ce_outcome g)"
          using Cons.IH [OF k] by auto
        have "memo = Some g \<or> (\<exists>j<i. g = (e # es) ! j \<and> snd (memo_run ttl memo (e # es) ! j) \<and> good (ce_outcome g))"
          using g(1)
        proof
          assume "memo' = Some g"
          then show ?thesis unfolding miss using Suc by (auto simp: memo'_def split: if_splits intro: exI [of _ 0])
        next
          assume "\<exists>j<k. g = es ! j \<and> snd (memo_run ttl memo' es ! j) \<and> good (ce_outcome g)"
          then obtain j where "j < k" "g = es ! j" "snd (memo_run ttl memo' es ! j)" "good (ce_outcome g)" by blast
          then show ?thesis unfolding miss using Suc by (intro disjI2 exI [of _ "Suc j"]) simp
        qed
        moreover have "ce_args g = ce_args ((e # es) ! i)" "ce_now ((e # es) ! i) < ce_now2 g + ttl" using g Suc by simp_all
        ultimately show ?thesis unfolding if_not_P [OF False] using g(4) by blast
      qed
    qed
  qed
qed simp

text \<open>
  Property C21. The cache of a tool is a memo of its last good call. With a hash that tells the arguments of the calls apart, a tool behind the cache
  answers every sequence of calls like a memo that is keyed by the arguments: each answer is the one of the tool at that moment, or that of an
  earlier call with the same arguments, which was really run, succeeded with the status ok or warning and is younger than the time to live.
\<close>

theorem cache_refines_memo:
  assumes "inj_on sha256 (ce_args ` set es)" and "\<forall>a\<in>ce_args ` set es. sha256 a \<noteq> []"
  shows "cache_run sha256 (WithCache ttl) es = memo_run ttl None es \<and>
    (\<forall>i<length es. case cache_run sha256 (WithCache ttl) es ! i of (answer, called) \<Rightarrow>
       if called then answer = map_sum id Some (ce_outcome (es ! i))
       else \<exists>j<i. snd (cache_run sha256 (WithCache ttl) es ! j) \<and> good (ce_outcome (es ! j)) \<and> ce_args (es ! j) = ce_args (es ! i) \<and>
         ce_now (es ! i) < ce_now2 (es ! j) + ttl \<and> answer = map_sum id Some (ce_outcome (es ! j)))"
proof -
  have eq: "cache_run sha256 (WithCache ttl) es = memo_run ttl None es"
    using cache_run_memo [OF assms, of "WithCache ttl" None es] by (simp add: cache_rel_def WithCache_def)
  have "case memo_run ttl None es ! i of (answer, called) \<Rightarrow>
       if called then answer = map_sum id Some (ce_outcome (es ! i))
       else \<exists>j<i. snd (memo_run ttl None es ! j) \<and> good (ce_outcome (es ! j)) \<and> ce_args (es ! j) = ce_args (es ! i) \<and>
         ce_now (es ! i) < ce_now2 (es ! j) + ttl \<and> answer = map_sum id Some (ce_outcome (es ! j))" if "i < length es" for i
  proof -
    obtain answer called where m: "memo_run ttl None es ! i = (answer, called)" by fastforce
    show ?thesis using memo_run_fresh [OF that m] unfolding m by (cases called) auto
  qed
  then show ?thesis unfolding eq by blast
qed

theorem cache_refines_memo_witness:
  "let out = (\<lambda>k. Inr (NewResult ''t'' ''x'' StatusOK k None)); call = (\<lambda>t k. \<lparr>ce_now = t, ce_now2 = t, ce_args = ''{}'', ce_outcome = out k\<rparr>);
       es = [call 0 ''a'', call 4 ''b'', call 9 ''c'']
   in cache_run (\<lambda>a. [of_nat (length a)]) (WithCache 5) es = memo_run 5 None es \<and>
      map snd (memo_run 5 None es) = [True, False, True]"
proof -
  define out :: "string \<Rightarrow> string + envelope" where "out = (\<lambda>k. Inr (NewResult ''t'' ''x'' StatusOK k None))"
  define call where "call = (\<lambda>t k. \<lparr>ce_now = t, ce_now2 = t, ce_args = ''{}'', ce_outcome = out k\<rparr>)"
  have one: "ce_args ` set [call 0 ''a'', call 4 ''b'', call 9 ''c''] = {''{}''}" by (simp add: call_def)
  have hash: "inj_on (\<lambda>a. [of_nat (length a) :: 8 word]) (ce_args ` set [call 0 ''a'', call 4 ''b'', call 9 ''c''])"
      "\<forall>a\<in>ce_args ` set [call 0 ''a'', call 4 ''b'', call 9 ''c'']. [of_nat (length a) :: 8 word] \<noteq> []"
    unfolding one by simp_all
  have "cache_run (\<lambda>a. [of_nat (length a)]) (WithCache 5) [call 0 ''a'', call 4 ''b'', call 9 ''c''] =
      memo_run 5 None [call 0 ''a'', call 4 ''b'', call 9 ''c'']"
    by (rule cache_refines_memo [OF hash, THEN conjunct1])
  moreover have "map snd (memo_run 5 None [call 0 ''a'', call 4 ''b'', call 9 ''c'']) = [True, False, True]"
    by (simp add: call_def out_def good_def NewResult_def)
  ultimately show ?thesis unfolding Let_def call_def out_def by (rule conjI)
qed

end
