(* ===== verification/JsonDecode.thy ===== *)
theory JsonDecode
  imports GoJson "HOL-Library.Monad_Syntax"
begin

text \<open>
  Decoding JSON into a struct: \<open>None\<close> is the error of a member of the wrong type, \<open>null\<close> leaves a field as it is, and so
  does a member that is not there. A field that is there twice is decoded twice, the second time over the first.
\<close>

definition members_named :: "string \<Rightarrow> json \<Rightarrow> (string \<times> json) list option" where
  "members_named name j =
     (case j of
        JObject ms \<Rightarrow> Some (map snd (filter (\<lambda>(k, raw, v). same_name k name) ms))
      | JNull \<Rightarrow> Some []
      | _ \<Rightarrow> None)"

definition decode_member :: "(string \<times> json \<Rightarrow> 'a \<Rightarrow> 'a option) \<Rightarrow> 'a \<Rightarrow> string \<Rightarrow> json \<Rightarrow> 'a option" where
  "decode_member dec dflt name j =
     (case members_named name j of
        None \<Rightarrow> None
      | Some vs \<Rightarrow> foldl (\<lambda>acc v. case acc of None \<Rightarrow> None | Some x \<Rightarrow> dec v x) (Some dflt) vs)"

definition dec_string :: "string \<times> json \<Rightarrow> string \<Rightarrow> string option" where
  "dec_string v x = (case snd v of JString s \<Rightarrow> Some s | JNull \<Rightarrow> Some x | _ \<Rightarrow> None)"

definition dec_bool :: "string \<times> json \<Rightarrow> bool \<Rightarrow> bool option" where
  "dec_bool v x = (case snd v of JBool b \<Rightarrow> Some b | JNull \<Rightarrow> Some x | _ \<Rightarrow> None)"

definition dec_raw :: "string \<times> json \<Rightarrow> string \<Rightarrow> string option" where
  "dec_raw v x = Some (fst v)"

definition dec_float :: "(string \<Rightarrow> f64 option) \<Rightarrow> string \<times> json \<Rightarrow> f64 \<Rightarrow> f64 option" where
  "dec_float num v x = (case snd v of JNumber n \<Rightarrow> num n | JNull \<Rightarrow> Some x | _ \<Rightarrow> None)"

definition dec_int :: "string \<times> json \<Rightarrow> int \<Rightarrow> int option" where
  "dec_int v x = (case snd v of JNumber n \<Rightarrow> atoi n | JNull \<Rightarrow> Some x | _ \<Rightarrow> None)"

definition dec_uint16 :: "string \<times> json \<Rightarrow> int \<Rightarrow> int option" where
  "dec_uint16 v x =
     (case snd v of
        JNumber n \<Rightarrow> if list_all is_digit n \<and> dec_val n < 2 ^ 16 then Some (dec_val n) else None
      | JNull \<Rightarrow> Some x
      | _ \<Rightarrow> None)"

fun dec_elems :: "(string \<times> json \<Rightarrow> 'a \<Rightarrow> 'a option) \<Rightarrow> 'a \<Rightarrow> json list \<Rightarrow> 'a list \<Rightarrow> 'a list option" where
  "dec_elems dec dflt [] xs = Some []"
| "dec_elems dec dflt (v # vs) xs =
     (case (dec ([], v) (case xs of [] \<Rightarrow> dflt | x # _ \<Rightarrow> x), dec_elems dec dflt vs (drop 1 xs)) of
        (Some y, Some ys) \<Rightarrow> Some (y # ys)
      | _ \<Rightarrow> None)"

definition dec_list :: "(string \<times> json \<Rightarrow> 'a \<Rightarrow> 'a option) \<Rightarrow> 'a \<Rightarrow> string \<times> json \<Rightarrow> 'a list \<Rightarrow> 'a list option" where
  "dec_list dec dflt v xs = (case snd v of JArray vs \<Rightarrow> dec_elems dec dflt vs xs | JNull \<Rightarrow> Some [] | _ \<Rightarrow> None)"

end
