(* ===== verification/McpServer.thy ===== *)
theory McpServer
  imports Gateway Plugins JsonDecode "HOL-Library.AList"
begin

text \<open>
  Model of \<open>internal/mcp\<close>: the handlers of the four tools of the MCP server (\<open>server.go\<close>), which check the arguments of a call against the
  schema of the tool before they hand it to the gateway, and the overview of the mesh (\<open>mesh_overview.go\<close>), which asks every node for its
  system information and its topology and joins the answers into one graph. Decoded arguments are JSON values; the value of a
  number as a \<open>float64\<close> is an argument, and so are the orders in which Go walks its maps.
\<close>

section \<open>Results\<close>

record mcpResult =
  mr_isError :: bool
  mr_text :: string

abbreviation error_result :: "string \<Rightarrow> mcpResult" where
  "error_result t \<equiv> \<lparr>mr_isError = True, mr_text = t\<rparr>"

type_synonym dispatcher = "string \<Rightarrow> string \<Rightarrow> string + toolResult"

definition dispatchToMesh :: "dispatcher \<Rightarrow> string \<Rightarrow> string \<Rightarrow> mcpResult" where
  "dispatchToMesh disp toolName args =
     (case disp toolName args of
        Inl err \<Rightarrow> error_result (''dispatch error: '' @ err)
      | Inr res \<Rightarrow> \<lparr>mr_isError = tr_isError res, mr_text = tr_content res\<rparr>)"

section \<open>Listing and help\<close>

definition active_tools :: "topologySnapshot \<Rightarrow> string list" where
  "active_tools snap =
     remdups (map (drop 5) (filter (prefix ''tool:'') (concat (map nsu_capabilities (ts_nodeDetails snap)))))"

fun list_entries :: "pluginRegistry \<Rightarrow> category \<Rightarrow> string list \<Rightarrow> string list" where
  "list_entries plugins filt [] = []"
| "list_entries plugins filt (toolName # walk) =
     (case GetAnyTool plugins toolName of
        None \<Rightarrow> list_entries plugins filt walk
      | Some tool \<Rightarrow>
          if pl_hidden tool \<or> (filt \<noteq> CategoryUnknown \<and> pl_category tool \<noteq> filt) then list_entries plugins filt walk
          else list_entry_text (plugin_definition tool) # list_entries plugins filt walk)"

text \<open>\<open>walk\<close> puts the active tools into the order in which their map is walked.\<close>

definition handleListTools :: "dispatcher \<Rightarrow> topologySnapshot option \<Rightarrow> pluginRegistry option \<Rightarrow>
    (string list \<Rightarrow> string list) \<Rightarrow> string \<Rightarrow> mcpResult" where
  "handleListTools disp topology plugins walk category =
     (case (if category \<noteq> [] then ParseCategory category else Inr CategoryUnknown) of
        Inl err \<Rightarrow> error_result err
      | Inr filt \<Rightarrow>
          (case (topology, plugins) of
             (Some snap, Some pr) \<Rightarrow>
               \<lparr>mr_isError = False, mr_text = json_object [(''tools'', json_array (list_entries pr filt (walk (active_tools snap))))]\<rparr>
           | _ \<Rightarrow>
               dispatchToMesh disp ''list_tools''
                 (if filt \<noteq> CategoryUnknown then json_object [(''category'', json_string (category_String filt))] else [])))"

definition handleToolHelp :: "dispatcher \<Rightarrow> pluginRegistry option \<Rightarrow> string \<Rightarrow> mcpResult" where
  "handleToolHelp disp plugins toolName =
     (case plugins of
        None \<Rightarrow> dispatchToMesh disp ''tool_help'' (json_object [(''tool_name'', json_string toolName)])
      | Some pr \<Rightarrow>
          (case GetAnyTool pr toolName of
             None \<Rightarrow> error_result (''tool not found: '' @ toolName)
           | Some tool \<Rightarrow>
               \<lparr>mr_isError = False, mr_text = (case help_text (plugin_definition tool) of Some t \<Rightarrow> t | None \<Rightarrow> [])\<rparr>))"

section \<open>Calls\<close>

text \<open>\<open>f == float64(int(f))\<close>: an integer that fits into an \<open>int\<close>.\<close>

fun is_int64 :: "f64 \<Rightarrow> bool" where
  "is_int64 (Num r) \<longleftrightarrow> r = of_int \<lfloor>r\<rfloor> \<and> - (2 ^ 63) \<le> \<lfloor>r\<rfloor> \<and> \<lfloor>r\<rfloor> < 2 ^ 63"
| "is_int64 _ \<longleftrightarrow> False"

definition type_ok :: "(string \<Rightarrow> f64) \<Rightarrow> string \<Rightarrow> json \<Rightarrow> bool" where
  "type_ok num ty v =
     (if ty = ''string'' then (case v of JString _ \<Rightarrow> True | _ \<Rightarrow> False)
      else if ty = ''boolean'' then (case v of JBool _ \<Rightarrow> True | _ \<Rightarrow> False)
      else if ty = ''number'' then (case v of JNumber _ \<Rightarrow> True | _ \<Rightarrow> False)
      else if ty = ''integer'' then (case v of JNumber t \<Rightarrow> is_int64 (num t) | _ \<Rightarrow> False)
      else if ty = ''array'' then (case v of JArray _ \<Rightarrow> True | _ \<Rightarrow> False)
      else True)"

definition squote :: "string \<Rightarrow> string" where
  "squote s = CHR 0x27 # s @ [CHR 0x27]"

definition see_help :: "string \<Rightarrow> string" where
  "see_help toolName =
     ''. Please call '' @ squote ''get_tool_help'' @ '' with tool_name='' @ squote toolName @ '' to see the full schema.''"

datatype arg_error = MissingArg string | WrongType string string | UnknownArg string

fun check_params :: "(string \<Rightarrow> f64) \<Rightarrow> (string \<rightharpoonup> json) \<Rightarrow> toolParam list \<Rightarrow> arg_error option" where
  "check_params num args [] = None"
| "check_params num args (p # ps) =
     (let val = args (tp_name p); present = (val \<noteq> None \<and> val \<noteq> Some JNull) in
      if tp_required p \<and> \<not> present then Some (MissingArg (tp_name p))
      else if present \<and> \<not> type_ok num (tp_type p) (the val) then Some (WrongType (tp_name p) (tp_type p))
      else check_params num args ps)"

definition check_unknown :: "toolParam list \<Rightarrow> string list \<Rightarrow> arg_error option" where
  "check_unknown ps walk = map_option UnknownArg (find (\<lambda>a. a \<notin> tp_name ` set ps) walk)"

definition check_call :: "(string \<Rightarrow> f64) \<Rightarrow> string list \<Rightarrow> plugin \<Rightarrow> (string \<rightharpoonup> json) \<Rightarrow> arg_error option" where
  "check_call num walk tool args =
     (case check_params num args (pl_parameters tool) of
        Some err \<Rightarrow> Some err
      | None \<Rightarrow> check_unknown (pl_parameters tool) walk)"

definition arg_error_text :: "string \<Rightarrow> arg_error \<Rightarrow> string" where
  "arg_error_text toolName err =
     ''invalid arguments for '' @ squote toolName @ '': '' @
     (case err of
        MissingArg a \<Rightarrow> ''missing required argument '' @ squote a
      | WrongType a ty \<Rightarrow> ''argument '' @ squote a @ '' must be of type '' @ squote ty
      | UnknownArg a \<Rightarrow> ''unknown argument '' @ squote a) @ see_help toolName"

text \<open>Rendering decoded arguments: the keys of objects in order, numbers as \<open>num_text\<close> prints the \<open>float64\<close> they became.\<close>

definition sorted_members :: "(string \<times> string) list \<Rightarrow> (string \<times> string) list" where
  "sorted_members ms = map (\<lambda>k. (k, the (map_of (rev ms) k))) (go_sort (<) (remdups (map fst ms)))"

fun json_text :: "(string \<Rightarrow> string) \<Rightarrow> json \<Rightarrow> string" where
  "json_text num_text JNull = ''null''"
| "json_text num_text (JBool b) = json_bool b"
| "json_text num_text (JNumber n) = num_text n"
| "json_text num_text (JString s) = json_string s"
| "json_text num_text (JArray vs) = json_array (map (json_text num_text) vs)"
| "json_text num_text (JObject ms) = json_object (sorted_members (map (\<lambda>(k, raw, v). (k, json_text num_text v)) ms))"

definition call_input_text :: "(string \<Rightarrow> string) \<Rightarrow> string list \<Rightarrow> string \<Rightarrow> string \<Rightarrow> (string \<rightharpoonup> json) \<Rightarrow> string" where
  "call_input_text num_text walk toolName nodeName args =
     json_object ([(''tool_name'', json_string toolName)] @
       (if nodeName \<noteq> [] then [(''node_name'', json_string nodeName)] else []) @
       (if walk \<noteq> [] then [(''args'', json_object (map (\<lambda>k. (k, json_text num_text (the (args k)))) (go_sort (<) walk)))] else []))"

definition handleCallTool :: "(string \<Rightarrow> f64) \<Rightarrow> (string \<Rightarrow> string) \<Rightarrow> dispatcher \<Rightarrow> pluginRegistry option \<Rightarrow> string list \<Rightarrow>
    string \<Rightarrow> string \<Rightarrow> (string \<rightharpoonup> json) \<Rightarrow> mcpResult" where
  "handleCallTool num num_text disp plugins walk toolName nodeName args =
     (case (case plugins of
              None \<Rightarrow> None
            | Some pr \<Rightarrow> (case GetAnyTool pr toolName of None \<Rightarrow> None | Some tool \<Rightarrow> check_call num walk tool args)) of
        Some err \<Rightarrow> error_result (arg_error_text toolName err)
      | None \<Rightarrow> dispatchToMesh disp ''call_tool'' (call_input_text num_text walk toolName nodeName args))"

section \<open>The overview\<close>

record nodeOverview =
  no_NodeID :: node_id
  no_Hostname :: string
  no_Roles :: "string list"
  no_OS :: string
  no_Arch :: string
  no_CPUs :: int
  no_Kernel :: string
  no_Distro :: string
  no_Impedance :: f64
  no_IsDirect :: bool
  no_NextHop :: node_id
  no_PeerCount :: int
  no_Tools :: "string list"
  no_ProtocolVersion :: int
  no_ApplicationVersion :: string
  no_Status :: string
  no_Error :: string

record meshEdge =
  me_From :: node_id
  me_To :: node_id
  me_Impedance :: f64

record meshOverview =
  mo_GatewayNodeID :: node_id
  mo_TotalNodes :: int
  mo_DirectPeers :: int
  mo_RoleCounts :: "string \<Rightarrow> int"
  mo_VersionCounts :: "string \<Rightarrow> int"
  mo_Nodes :: "nodeOverview list"
  mo_Edges :: "meshEdge list"
  mo_MermaidGraph :: string

text \<open>The edges found so far, by the ordered pair of their ends.\<close>

type_synonym edge_set = "((node_id \<times> node_id) \<times> meshEdge) list"

definition edge_key :: "node_id \<Rightarrow> node_id \<Rightarrow> node_id \<times> node_id" where
  "edge_key a b = (if a > b then (b, a) else (a, b))"

definition addEdge :: "edge_set \<Rightarrow> node_id \<Rightarrow> node_id \<Rightarrow> f64 \<Rightarrow> edge_set" where
  "addEdge edgeSet a b impedance =
     (let key = edge_key a b
      in if map_of edgeSet key = None
         then edgeSet @ [(key, \<lparr>me_From = fst key, me_To = snd key, me_Impedance = impedance\<rparr>)] else edgeSet)"

definition extractTools :: "string list \<Rightarrow> string list" where
  "extractTools capabilities = map (drop 5) (filter (prefix ''tool:'') capabilities)"

record toolAnswer =
  ta_NodeID :: node_id
  ta_Content :: string
  ta_IsError :: bool
  ta_Error :: string

definition dec_toolAnswer :: "string \<times> json \<Rightarrow> toolAnswer \<Rightarrow> toolAnswer option" where
  "dec_toolAnswer v x = do {
     nodeID \<leftarrow> decode_member dec_string (ta_NodeID x) ''node_id'' (snd v);
     content \<leftarrow> decode_member dec_raw (ta_Content x) ''content'' (snd v);
     isError \<leftarrow> decode_member dec_bool (ta_IsError x) ''is_error'' (snd v);
     err \<leftarrow> decode_member dec_string (ta_Error x) ''error'' (snd v);
     Some \<lparr>ta_NodeID = nodeID, ta_Content = content, ta_IsError = isError, ta_Error = err\<rparr> }"

definition no_answer :: toolAnswer where
  "no_answer = \<lparr>ta_NodeID = [], ta_Content = [], ta_IsError = False, ta_Error = []\<rparr>"

record sysInfo =
  si_Hostname :: string
  si_OS :: string
  si_Arch :: string
  si_CPUs :: int
  si_Kernel :: string
  si_Distro :: string
  si_Roles :: "string list"
  si_ProtocolVersion :: int
  si_ApplicationVersion :: string

definition no_info :: sysInfo where
  "no_info = \<lparr>si_Hostname = [], si_OS = [], si_Arch = [], si_CPUs = 0, si_Kernel = [], si_Distro = [], si_Roles = [],
     si_ProtocolVersion = 0, si_ApplicationVersion = []\<rparr>"

definition dec_sysInfo :: "string \<times> json \<Rightarrow> sysInfo \<Rightarrow> sysInfo option" where
  "dec_sysInfo v x = do {
     hostname \<leftarrow> decode_member dec_string (si_Hostname x) ''hostname'' (snd v);
     os \<leftarrow> decode_member dec_string (si_OS x) ''os'' (snd v);
     arch \<leftarrow> decode_member dec_string (si_Arch x) ''arch'' (snd v);
     cpus \<leftarrow> decode_member dec_int (si_CPUs x) ''cpus'' (snd v);
     kernel \<leftarrow> decode_member dec_string (si_Kernel x) ''kernel'' (snd v);
     distro \<leftarrow> decode_member dec_string (si_Distro x) ''distro'' (snd v);
     roles \<leftarrow> decode_member (dec_list dec_string []) (si_Roles x) ''roles'' (snd v);
     protocol \<leftarrow> decode_member dec_uint16 (si_ProtocolVersion x) ''protocol_version'' (snd v);
     application \<leftarrow> decode_member dec_string (si_ApplicationVersion x) ''application_version'' (snd v);
     Some \<lparr>si_Hostname = hostname, si_OS = os, si_Arch = arch, si_CPUs = cpus, si_Kernel = kernel, si_Distro = distro,
       si_Roles = roles, si_ProtocolVersion = protocol, si_ApplicationVersion = application\<rparr> }"

record topoDetail =
  td_NodeID :: node_id
  td_Impedance :: f64
  td_IsDirect :: bool

definition dec_topoDetail :: "(string \<Rightarrow> f64 option) \<Rightarrow> string \<times> json \<Rightarrow> topoDetail \<Rightarrow> topoDetail option" where
  "dec_topoDetail num v x = do {
     nodeID \<leftarrow> decode_member dec_string (td_NodeID x) ''node_id'' (snd v);
     impedance \<leftarrow> decode_member (dec_float num) (td_Impedance x) ''impedance'' (snd v);
     isDirect \<leftarrow> decode_member dec_bool (td_IsDirect x) ''is_direct'' (snd v);
     Some \<lparr>td_NodeID = nodeID, td_Impedance = impedance, td_IsDirect = isDirect\<rparr> }"

definition no_detail :: topoDetail where
  "no_detail = \<lparr>td_NodeID = [], td_Impedance = Num 0, td_IsDirect = False\<rparr>"

section \<open>One tool on every node\<close>

text \<open>The answers by node, the last one of a node where it has more; \<open>json.Marshal\<close> sorts the keys of the map of arguments.\<close>

definition fanOutTool :: "dispatcher \<Rightarrow> string \<Rightarrow> (node_id \<times> string) list" where
  "fanOutTool disp toolName =
     (case disp ''call_tool'' (json_object [(''node_name'', json_string ''*''), (''tool_name'', json_string toolName)]) of
        Inl err \<Rightarrow> []
      | Inr res \<Rightarrow>
          (case Option.bind (json_parse (tr_content res)) (decode_member (dec_list dec_toolAnswer no_answer) [] ''results'') of
             None \<Rightarrow> []
           | Some answers \<Rightarrow>
               foldl (\<lambda>byNode r. if \<not> ta_IsError r \<and> ta_Content r \<noteq> [] then AList.update (ta_NodeID r) (ta_Content r) byNode else byNode)
                 [] answers))"

text \<open>\<open>err_text\<close> is the text of the error of \<open>Unmarshal\<close>.\<close>

definition fresh_overview :: "node_id \<Rightarrow> nodeOverview" where
  "fresh_overview nodeID =
     \<lparr>no_NodeID = nodeID, no_Hostname = [], no_Roles = [''generic''], no_OS = [], no_Arch = [], no_CPUs = 0, no_Kernel = [],
      no_Distro = [], no_Impedance = Num 0, no_IsDirect = False, no_NextHop = [], no_PeerCount = 0, no_Tools = [],
      no_ProtocolVersion = 0, no_ApplicationVersion = [], no_Status = ''ok'', no_Error = []\<rparr>"

definition parseSysInfoResult :: "(string \<Rightarrow> string) \<Rightarrow> node_id \<Rightarrow> string \<Rightarrow> nodeOverview" where
  "parseSysInfoResult err_text nodeID content =
     (case Option.bind (json_parse content) (decode_member dec_sysInfo no_info ''data'') of
        None \<Rightarrow> (fresh_overview nodeID)\<lparr>no_Status := ''unreachable'', no_Error := err_text content\<rparr>
      | Some i \<Rightarrow>
          (fresh_overview nodeID)\<lparr>no_Hostname := si_Hostname i, no_OS := si_OS i, no_Arch := si_Arch i, no_CPUs := si_CPUs i,
            no_Kernel := si_Kernel i, no_Distro := si_Distro i, no_ProtocolVersion := si_ProtocolVersion i,
            no_ApplicationVersion := si_ApplicationVersion i,
            no_Roles := (if si_Roles i \<noteq> [] then si_Roles i else [''generic''])\<rparr>)"

definition topo_details :: "(string \<Rightarrow> f64 option) \<Rightarrow> string \<Rightarrow> topoDetail list" where
  "topo_details num content =
     (case Option.bind (json_parse content) (decode_member (dec_list (dec_topoDetail num) no_detail) [] ''node_details'') of
        None \<Rightarrow> [] | Some ds \<Rightarrow> ds)"

definition parseTopoEdges :: "(string \<Rightarrow> f64 option) \<Rightarrow> edge_set \<Rightarrow> node_id \<Rightarrow> string \<Rightarrow> edge_set" where
  "parseTopoEdges num edgeSet reporterID content =
     foldl (\<lambda>es nd. if td_IsDirect nd then addEdge es reporterID (td_NodeID nd) (td_Impedance nd) else es)
       edgeSet (topo_details num content)"

text \<open>The error of \<open>Unmarshal\<close> is ignored here, which goes on after a member of the wrong type.\<close>

definition parseDirectPeerCount :: "string \<Rightarrow> int" where
  "parseDirectPeerCount content =
     foldl (\<lambda>n (k, v). if same_name k ''direct_peers'' then (case dec_int v n of Some m \<Rightarrow> m | None \<Rightarrow> n) else n) 0 (members_of content)"

section \<open>The graph\<close>

definition sanitizeMermaidID :: "string \<Rightarrow> string" where
  "sanitizeMermaidID = map (\<lambda>c. if c = CHR ''-'' \<or> c = CHR ''.'' \<or> c = CHR '' '' then CHR ''_'' else c)"

definition primaryRole :: "string list \<Rightarrow> string" where
  "primaryRole roles =
     (case find (\<lambda>p. p \<in> set roles) [''sfa'', ''mgs'', ''mds'', ''oss'', ''client''] of Some p \<Rightarrow> p | None \<Rightarrow> ''generic'')"

definition mermaid_line :: "string \<Rightarrow> string" where
  "mermaid_line t = ''    '' @ t @ [CHR 0x0A]"

definition mermaid_label :: "string \<Rightarrow> string" where
  "mermaid_label t = ''['' @ CHR 0x22 # t @ CHR 0x22 # '']''"

definition class_lines :: string where
  "class_lines = concat (map mermaid_line
     [''classDef gateway fill:#f39c12,color:white'', ''classDef mgs fill:#e74c3c,color:white'',
      ''classDef mds fill:#3498db,color:white'', ''classDef oss fill:#2ecc71,color:white'',
      ''classDef sfa fill:#9b59b6,color:white'', ''classDef client fill:#95a5a6,color:white'',
      ''classDef generic fill:#bdc3c7'']) @ [CHR 0x0A]"

text \<open>\<open>to_upper\<close> is \<open>strings.ToUpper\<close> and \<open>fixed2\<close> prints a number with two decimals.\<close>

definition renderMermaid :: "(string \<Rightarrow> string) \<Rightarrow> (f64 \<Rightarrow> string) \<Rightarrow> meshOverview \<Rightarrow> string" where
  "renderMermaid to_upper fixed2 ov =
     (if mo_Nodes ov = [] \<and> mo_Edges ov = [] then ''graph TD'' @ CHR 0x0A # ''    empty'' @ mermaid_label ''No nodes in mesh''
      else ''graph TD'' @ CHR 0x0A # class_lines @
        mermaid_line (sanitizeMermaidID (mo_GatewayNodeID ov) @
          mermaid_label (mo_GatewayNodeID ov @ ''<br/>MCP Gateway'') @ '':::gateway'') @
        concat (map (\<lambda>n. mermaid_line (sanitizeMermaidID (no_NodeID n) @
          mermaid_label (no_NodeID n @ ''<br/>'' @ to_upper (join ''+'' (no_Roles n))) @ '':::'' @ primaryRole (no_Roles n))) (mo_Nodes ov)) @
        CHR 0x0A # concat (map (\<lambda>e. mermaid_line (sanitizeMermaidID (me_From e) @ '' ---|'' @ fixed2 (me_Impedance e) @ ''| '' @
          sanitizeMermaidID (me_To e))) (mo_Edges ov)))"

section \<open>The whole overview\<close>

definition count_of :: "string \<Rightarrow> string list \<Rightarrow> int" where
  "count_of x xs = int (length (filter (\<lambda>y. y = x) xs))"

definition enrich :: "nodeSummary option \<Rightarrow> nodeOverview \<Rightarrow> nodeOverview" where
  "enrich gwv n =
     (case gwv of
        None \<Rightarrow> n
      | Some gv \<Rightarrow> n\<lparr>no_Impedance := nsu_impedance gv, no_IsDirect := nsu_isDirect gv, no_NextHop := nsu_nextHop gv,
          no_Tools := extractTools (nsu_capabilities gv)\<rparr>)"

definition edge_less :: "meshEdge \<Rightarrow> meshEdge \<Rightarrow> bool" where
  "edge_less e d \<longleftrightarrow> (if me_From e \<noteq> me_From d then me_From e < me_From d else me_To e < me_To d)"

text \<open>\<open>walk\<close> is the order in which the map of the topologies is walked.\<close>

definition overview_edges :: "(string \<Rightarrow> f64 option) \<Rightarrow> topologySnapshot \<Rightarrow> (node_id \<times> string) list \<Rightarrow> edge_set" where
  "overview_edges num gwTopo topos =
     foldl (\<lambda>es (reporterID, content). parseTopoEdges num es reporterID content)
       (foldl (\<lambda>es ns. if nsu_isDirect ns then addEdge es (ts_nodeID gwTopo) (nsu_nodeID ns) (nsu_impedance ns) else es)
         [] (ts_nodeDetails gwTopo))
       topos"

definition overview_Execute :: "(string \<Rightarrow> f64 option) \<Rightarrow> (string \<Rightarrow> string) \<Rightarrow> (string \<Rightarrow> string) \<Rightarrow> (f64 \<Rightarrow> string) \<Rightarrow>
    ((node_id \<times> string) list \<Rightarrow> (node_id \<times> string) list) \<Rightarrow> dispatcher \<Rightarrow> topologySnapshot \<Rightarrow> meshOverview" where
  "overview_Execute num err_text to_upper fixed2 walk disp gwTopo =
     (let gwView = map_of (rev (map (\<lambda>ns. (nsu_nodeID ns, ns)) (ts_nodeDetails gwTopo)));
          sysInfoByNode = fanOutTool disp ''get_system_info'';
          topoByNode = fanOutTool disp ''get_mesh_topology'';
          infos = map (\<lambda>(nodeID, content). enrich (gwView nodeID) (parseSysInfoResult err_text nodeID content)) sysInfoByNode;
          nodes = map (\<lambda>n. case map_of topoByNode (no_NodeID n) of
                             None \<Rightarrow> n | Some content \<Rightarrow> n\<lparr>no_PeerCount := parseDirectPeerCount content\<rparr>) infos;
          versions = filter (\<lambda>v. v \<noteq> []) (map no_ApplicationVersion infos);
          ov = \<lparr>mo_GatewayNodeID = ts_nodeID gwTopo, mo_TotalNodes = int (length nodes), mo_DirectPeers = ts_directPeers gwTopo,
            mo_RoleCounts = (\<lambda>role. count_of role (concat (map no_Roles infos))),
            mo_VersionCounts = (\<lambda>v. count_of v versions),
            mo_Nodes = go_sort (\<lambda>a b. no_NodeID a < no_NodeID b) nodes,
            mo_Edges = go_sort edge_less (map snd (overview_edges num gwTopo (walk topoByNode))),
            mo_MermaidGraph = []\<rparr>
      in ov\<lparr>mo_MermaidGraph := renderMermaid to_upper fixed2 ov\<rparr>)"

section \<open>The edges of the overview\<close>

text \<open>
  A link is what a node reports of itself: the node, the peer and the cost. The edges found so far stand for the links seen
  so far: one edge for each unordered pair, its ends in order, its cost one of those reported for it.
\<close>

type_synonym link = "node_id \<times> node_id \<times> f64"

definition edges_of :: "edge_set \<Rightarrow> link set \<Rightarrow> bool" where
  "edges_of es links \<longleftrightarrow>
     distinct (map fst es) \<and> fst ` set es = (\<lambda>(a, b, c). edge_key a b) ` links \<and>
     (\<forall>(key, e) \<in> set es. key = (me_From e, me_To e) \<and> me_From e \<le> me_To e \<and>
        (\<exists>(a, b, c) \<in> links. key = edge_key a b \<and> me_Impedance e = c))"

definition reported_links :: "(string \<Rightarrow> f64 option) \<Rightarrow> topologySnapshot \<Rightarrow> (node_id \<times> string) list \<Rightarrow> link set" where
  "reported_links num gwTopo topos =
     (\<lambda>ns. (ts_nodeID gwTopo, nsu_nodeID ns, nsu_impedance ns)) ` {ns \<in> set (ts_nodeDetails gwTopo). nsu_isDirect ns} \<union>
     (\<Union>(reporterID, content) \<in> set topos.
        (\<lambda>nd. (reporterID, td_NodeID nd, td_Impedance nd)) ` {nd \<in> set (topo_details num content). td_IsDirect nd})"

lemma edge_key_order: "fst (edge_key a b) \<le> snd (edge_key a b)"
  by (auto simp: edge_key_def)

lemma edges_of_addEdge:
  assumes "edges_of es links"
  shows "edges_of (addEdge es a b c) (insert (a, b, c) links)"
proof (cases "map_of es (edge_key a b)")
  case None
  then have fresh: "edge_key a b \<notin> fst ` set es"
    by (simp add: map_of_eq_None_iff)
  define e where "e = \<lparr>me_From = fst (edge_key a b), me_To = snd (edge_key a b), me_Impedance = c\<rparr>"
  have es': "addEdge es a b c = es @ [(edge_key a b, e)]"
    using None by (simp add: addEdge_def Let_def e_def)
  have old: "\<exists>(a', b', c') \<in> insert (a, b, c) links. key = edge_key a' b' \<and> me_Impedance d = c'"
    if "(key, d) \<in> set es" for key d
    using assms that unfolding edges_of_def by blast
  have new: "edge_key a b = (me_From e, me_To e) \<and> me_From e \<le> me_To e \<and> me_Impedance e = c"
    using edge_key_order [of a b] by (simp add: e_def)
  show ?thesis
    unfolding edges_of_def es'
    using assms fresh new old by (auto simp: edges_of_def)
next
  case (Some e)
  then have "edge_key a b \<in> fst ` set es"
    by (metis fst_conv image_eqI map_of_SomeD)
  with assms Some show ?thesis
    by (auto simp: edges_of_def addEdge_def Let_def insert_absorb)
qed

lemma edges_of_foldl:
  assumes "edges_of es links"
  shows "edges_of (foldl (\<lambda>es x. if P x then addEdge es (f x) (g x) (h x) else es) es xs)
           (links \<union> (\<lambda>x. (f x, g x, h x)) ` {x \<in> set xs. P x})"
  using assms
proof (induction xs arbitrary: es links)
  case Nil
  then show ?case by simp
next
  case (Cons x xs)
  have step: "edges_of (if P x then addEdge es (f x) (g x) (h x) else es) (if P x then insert (f x, g x, h x) links else links)"
    using edges_of_addEdge [OF Cons.prems] Cons.prems by simp
  have "links \<union> (\<lambda>x. (f x, g x, h x)) ` {y \<in> set (x # xs). P y} =
      (if P x then insert (f x, g x, h x) links else links) \<union> (\<lambda>x. (f x, g x, h x)) ` {y \<in> set xs. P y}"
    by auto
  with Cons.IH [OF step] show ?case by simp
qed

lemma edges_of_overview: "edges_of (overview_edges num gwTopo topos) (reported_links num gwTopo topos)"
proof -
  have nodes: "edges_of (foldl (\<lambda>es (reporterID, content). parseTopoEdges num es reporterID content) es topos)
      (links \<union> (\<Union>(reporterID, content) \<in> set topos.
        (\<lambda>nd. (reporterID, td_NodeID nd, td_Impedance nd)) ` {nd \<in> set (topo_details num content). td_IsDirect nd}))"
    if "edges_of es links" for es links
    using that
  proof (induction topos arbitrary: es links)
    case Nil
    then show ?case by simp
  next
    case (Cons t topos)
    obtain reporterID content where t: "t = (reporterID, content)" by (cases t)
    have "edges_of (parseTopoEdges num es reporterID content)
        (links \<union> (\<lambda>nd. (reporterID, td_NodeID nd, td_Impedance nd)) ` {nd \<in> set (topo_details num content). td_IsDirect nd})"
      unfolding parseTopoEdges_def using Cons.prems by (rule edges_of_foldl)
    from Cons.IH [OF this] show ?case by (simp add: t Un_assoc)
  qed
  have "edges_of [] {}" by (simp add: edges_of_def)
  from nodes [OF edges_of_foldl [OF this]] show ?thesis
    by (simp add: overview_edges_def reported_links_def)
qed

lemma reported_links_walk: "mset ws = mset topos \<Longrightarrow> reported_links num gwTopo ws = reported_links num gwTopo topos"
  unfolding reported_links_def by (drule mset_eq_setD) simp

lemma not_edge_less:
  "\<not> edge_less d e \<longleftrightarrow> me_From e < me_From d \<or> me_From e = me_From d \<and> me_To e \<le> me_To d"
  by (auto simp: edge_less_def not_less order.strict_iff_order split: if_splits)

lemma weak_order_edge_less: "weak_order_on A edge_less"
proof -
  have asym: "\<not> edge_less y x" if "edge_less x y" for x y
    using that unfolding not_edge_less by (auto simp: edge_less_def split: if_splits)
  have trans: "\<not> edge_less z x" if "\<not> edge_less y x" "\<not> edge_less z y" for x y z
    using that unfolding not_edge_less by (elim disjE conjE) (auto intro: order.strict_trans order_trans)
  from asym trans show ?thesis unfolding weak_order_on_def by blast
qed

lemma edge_less_total: "\<not> edge_less d e \<Longrightarrow> (me_From e, me_To e) \<noteq> (me_From d, me_To d) \<Longrightarrow> edge_less e d"
  by (auto simp: edge_less_def split: if_splits)

lemma sorted_edges_aux:
  "sorted_wrt (\<lambda>a b. \<not> edge_less b a) es \<Longrightarrow> distinct (map (\<lambda>e. (me_From e, me_To e)) es) \<Longrightarrow> sorted_wrt edge_less es"
proof (induction es)
  case Nil
  then show ?case by simp
next
  case (Cons e es)
  have "edge_less e d" if "d \<in> set es" for d
    using Cons.prems that by (intro edge_less_total) force+
  with Cons show ?case by simp
qed

lemma sorted_edges:
  assumes "distinct (map (\<lambda>e. (me_From e, me_To e)) es)"
  shows "sorted_wrt edge_less (go_sort edge_less es)"
proof -
  have keys: "distinct (map (\<lambda>e. (me_From e, me_To e)) (go_sort edge_less es))"
    using assms by (metis mset_eq_imp_distinct_iff mset_go_sort mset_map)
  have "sorted_wrt (\<lambda>a b. \<not> edge_less b a) (go_sort edge_less es)"
    by (rule sorted_go_sort [OF weak_order_edge_less])
  with keys show ?thesis
    by (intro sorted_edges_aux)
qed

text \<open>
  Property C23. The edges of the overview are exactly the direct links the nodes report: whatever the order in which the
  answers are walked, every link the gateway's own node or an answering node reports has one edge and no edge stands for
  nothing; the ends of an edge are in order, the edges strictly increase, so no pair of nodes has two, and the cost of an edge
  is one that one of its ends reported.
\<close>

theorem overview_links:
  assumes "\<forall>ts. mset (walk ts) = mset ts"
  shows "let links = reported_links num gwTopo (fanOutTool disp ''get_mesh_topology'');
             edges = mo_Edges (overview_Execute num err_text to_upper fixed2 walk disp gwTopo)
         in (\<lambda>e. (me_From e, me_To e)) ` set edges = (\<lambda>(a, b, c). edge_key a b) ` links \<and>
            sorted_wrt edge_less edges \<and>
            (\<forall>e \<in> set edges. me_From e \<le> me_To e \<and>
               (\<exists>(a, b, c) \<in> links. edge_key a b = (me_From e, me_To e) \<and> me_Impedance e = c))"
proof -
  define topos where "topos = fanOutTool disp ''get_mesh_topology''"
  define es where "es = overview_edges num gwTopo (walk topos)"
  have ok: "edges_of es (reported_links num gwTopo topos)"
    using edges_of_overview [of num gwTopo "walk topos"] reported_links_walk [OF assms [rule_format]]
    by (simp add: es_def)
  have keys: "map (\<lambda>e. (me_From e, me_To e)) (map snd es) = map fst es"
    using ok by (auto simp: edges_of_def)
  have sorted: "sorted_wrt edge_less (go_sort edge_less (map snd es))"
    by (rule sorted_edges, unfold keys) (use ok in \<open>simp add: edges_of_def\<close>)
  have "(\<lambda>e. (me_From e, me_To e)) ` set (map snd es) = fst ` set es"
    using keys by (metis list.set_map)
  with sorted ok show ?thesis
    unfolding overview_Execute_def Let_def
    by (auto simp: edges_of_def simp flip: es_def topos_def) fastforce+
qed

text \<open>The answer of a node \<open>b\<close> that reports a direct link to \<open>a\<close> of cost 2, as the gateway returns it.\<close>

definition sample_answer :: string where
  "sample_answer = json_object [(''results'', json_array [json_object
     [(''node_id'', json_string ''b''),
      (''content'', json_object [(''node_details'', json_array [json_object
         [(''node_id'', json_string ''a''), (''impedance'', ''2''), (''is_direct'', json_bool True)]])])]])]"

lemma sample_answer_links:
  "fanOutTool (\<lambda>_ _. Inr \<lparr>tr_content = sample_answer, tr_isError = False\<rparr>) ''get_mesh_topology'' =
     [(''b'', json_object [(''node_details'', json_array [json_object
         [(''node_id'', json_string ''a''), (''impedance'', ''2''), (''is_direct'', json_bool True)]])])]"
  "topo_details (\<lambda>_. Some (Num 2)) (json_object [(''node_details'', json_array [json_object
         [(''node_id'', json_string ''a''), (''impedance'', ''2''), (''is_direct'', json_bool True)]])]) =
     [\<lparr>td_NodeID = ''a'', td_Impedance = Num 2, td_IsDirect = True\<rparr>]"
  by code_simp+

lemma sample_keys: "edge_key ''c'' ''b'' = (''b'', ''c'')" "edge_key ''b'' ''a'' = (''a'', ''b'')"
  by code_simp+

definition sample_topology :: topologySnapshot where
  "sample_topology = \<lparr>ts_nodeID = ''c'', ts_directPeers = 1, ts_knownNodes = 1, ts_resolverEntries = 0,
     ts_nodeDetails = [\<lparr>nsu_nodeID = ''b'', nsu_impedance = Num 1, nsu_nextHop = ''b'', nsu_capabilities = [], nsu_isDirect = True\<rparr>]\<rparr>"

lemma sample_links:
  "(\<lambda>(a, b, c). edge_key a b) ` reported_links (\<lambda>_. Some (Num 2)) sample_topology
     (fanOutTool (\<lambda>_ _. Inr \<lparr>tr_content = sample_answer, tr_isError = False\<rparr>) ''get_mesh_topology'') = {(''b'', ''c''), (''a'', ''b'')}"
  by (simp add: reported_links_def sample_answer_links sample_topology_def Collect_conv_if sample_keys insert_commute)

theorem overview_links_witness:
  "(\<lambda>e. (me_From e, me_To e)) ` set (mo_Edges (overview_Execute (\<lambda>_. Some (Num 2)) (\<lambda>_. []) (\<lambda>s. s) (\<lambda>_. []) rev
      (\<lambda>_ _. Inr \<lparr>tr_content = sample_answer, tr_isError = False\<rparr>) sample_topology)) = {(''b'', ''c''), (''a'', ''b'')}"
proof -
  have "\<forall>ts :: (node_id \<times> string) list. mset (rev ts) = mset ts" by simp
  from overview_links [OF this, where num = "\<lambda>_. Some (Num 2)" and gwTopo = sample_topology
      and disp = "\<lambda>_ _. Inr \<lparr>tr_content = sample_answer, tr_isError = False\<rparr>", unfolded Let_def sample_links]
  show ?thesis by (rule conjunct1)
qed

end
