(* ===== verification/Config.thy ===== *)
theory Config
  imports Vault Nucleus
begin

text \<open>
  Model of \<open>internal/config/config.go\<close> on a decoded \<open>mesh.toml\<close>: the ports and addresses of the known hosts, which seed the
  resolver, the loading of credentials into the vault, and the copy without credentials that is sent to the fleet. The decoder of TOML is a
  library; files and the home directory are arguments. A slice or map that is nil is \<open>None\<close> where the code tells it apart.
\<close>

section \<open>The configuration\<close>

record cfg_node =
  cn_ID :: string
  cn_MeshPort :: int
  cn_SSHPort :: int

record cfg_host =
  ch_Addresses :: "string list option"
  ch_MeshPort :: int
  ch_SSHPort :: int

record credentialEntry =
  cre_Pattern :: string
  cre_Type :: string
  cre_Username :: string
  cre_Password :: string
  cre_KeyFile :: string
  cre_CertFile :: string

record proxyEntry =
  px_Pattern :: string
  px_URL :: string

record meshConfig =
  mc_Node :: cfg_node
  mc_Hosts :: "(string \<rightharpoonup> cfg_host) option"
  mc_Credentials :: "credentialEntry list option"
  mc_Proxies :: "proxyEntry list option"
  mc_Groups :: "(string \<rightharpoonup> string list option) option"

definition cfg_Default :: meshConfig where
  "cfg_Default =
     \<lparr>mc_Node = \<lparr>cn_ID = [], cn_MeshPort = 4443, cn_SSHPort = 22\<rparr>, mc_Hosts = Some Map.empty, mc_Credentials = None,
      mc_Proxies = None, mc_Groups = None\<rparr>"

definition GetMeshPort :: "cfg_host \<Rightarrow> int \<Rightarrow> int" where
  "GetMeshPort h defaultPort = (if ch_MeshPort h > 0 then ch_MeshPort h else defaultPort)"

definition GetSSHPort :: "cfg_host \<Rightarrow> int \<Rightarrow> int" where
  "GetSSHPort h defaultPort = (if ch_SSHPort h > 0 then ch_SSHPort h else defaultPort)"

definition elems :: "'a list option \<Rightarrow> 'a list" where
  "elems xs = (case xs of None \<Rightarrow> [] | Some ys \<Rightarrow> ys)"

definition with_port :: "int \<Rightarrow> string \<Rightarrow> string" where
  "with_port port addr = (if CHR '':'' \<notin> set addr then addr @ '':'' @ itoa port else addr)"

definition KnownHosts :: "meshConfig \<Rightarrow> string \<rightharpoonup> string list" where
  "KnownHosts mc =
     (case mc_Hosts mc of
        None \<Rightarrow> Map.empty
      | Some hosts \<Rightarrow> (\<lambda>nodeID. map_option (\<lambda>h.
          map (with_port (GetMeshPort h (cn_MeshPort (mc_Node mc)))) (elems (ch_Addresses h))) (hosts nodeID)))"

section \<open>Credentials\<close>

datatype cred_load_error = ReadKeyFile string | ReadCertFile string | UnknownType string

definition expandTilde :: "string option \<Rightarrow> string \<Rightarrow> string" where
  "expandTilde home path =
     (if prefix ''~/'' path then (case home of None \<Rightarrow> path | Some h \<Rightarrow> h @ drop 1 path) else path)"

definition CredSSHKey :: int where "CredSSHKey = 1"
definition CredSSHPassword :: int where "CredSSHPassword = 2"
definition CredTLSCert :: int where "CredTLSCert = 3"

definition entryToCredential :: "string option \<Rightarrow> (string \<Rightarrow> octets option) \<Rightarrow> credentialEntry \<Rightarrow> cred_load_error + credential" where
  "entryToCredential home readFile entry =
     (if cre_Type entry = ''ssh_key'' then
        (let keyPath = expandTilde home (cre_KeyFile entry) in
         case readFile keyPath of
           None \<Rightarrow> Inl (ReadKeyFile keyPath)
         | Some keyData \<Rightarrow> Inr (no_credential\<lparr>cr_type := CredSSHKey, cr_username := cre_Username entry, cr_privateKey := keyData\<rparr>))
      else if cre_Type entry = ''ssh_password'' then
        Inr (no_credential\<lparr>cr_type := CredSSHPassword, cr_username := cre_Username entry, cr_password := cre_Password entry\<rparr>)
      else if cre_Type entry = ''tls_cert'' then
        (let certPath = expandTilde home (cre_CertFile entry) in
         case readFile certPath of
           None \<Rightarrow> Inl (ReadCertFile certPath)
         | Some certData \<Rightarrow> Inr (no_credential\<lparr>cr_type := CredTLSCert, cr_certificate := certData\<rparr>))
      else Inl (UnknownType (cre_Type entry)))"

text \<open>The error carries the index of its entry; the vault keeps what was stored before it.\<close>

fun load_loop :: "string option \<Rightarrow> (string \<Rightarrow> octets option) \<Rightarrow> nat \<Rightarrow> credentialEntry list \<Rightarrow> vault \<Rightarrow>
    (nat \<times> string \<times> cred_load_error) option \<times> vault" where
  "load_loop home readFile i [] v = (None, v)"
| "load_loop home readFile i (entry # es) v =
     (case entryToCredential home readFile entry of
        Inl err \<Rightarrow> (Some (i, cre_Pattern entry, err), v)
      | Inr cred \<Rightarrow> load_loop home readFile (i + 1) es (Store v (cre_Pattern entry) cred))"

definition LoadCredentials :: "string option \<Rightarrow> (string \<Rightarrow> octets option) \<Rightarrow> meshConfig \<Rightarrow> vault \<Rightarrow>
    (nat \<times> string \<times> cred_load_error) option \<times> vault" where
  "LoadCredentials home readFile mc v = load_loop home readFile 0 (elems (mc_Credentials mc)) v"

section \<open>The copy without credentials\<close>

definition Stripped :: "meshConfig \<Rightarrow> meshConfig" where
  "Stripped mc =
     \<lparr>mc_Node = mc_Node mc,
      mc_Hosts = map_option (\<lambda>hosts k. map_option (\<lambda>v. \<lparr>ch_Addresses = ch_Addresses v, ch_MeshPort = ch_MeshPort v,
        ch_SSHPort = ch_SSHPort v\<rparr>) (hosts k)) (mc_Hosts mc),
      mc_Credentials = None,
      mc_Proxies = mc_Proxies mc,
      mc_Groups = map_option (\<lambda>groups k. case groups k of Some (Some v) \<Rightarrow> Some (Some v) | _ \<Rightarrow> None) (mc_Groups mc)\<rparr>"

section \<open>What the configuration yields\<close>

definition entry_credential :: "string option \<Rightarrow> (string \<Rightarrow> octets option) \<Rightarrow> credentialEntry \<Rightarrow> credential option" where
  "entry_credential home readFile entry = (case entryToCredential home readFile entry of Inr c \<Rightarrow> Some c | Inl _ \<Rightarrow> None)"

lemma load_loop_spec:
  "load_loop home readFile i es v = (r, v') \<Longrightarrow> vault_inv v \<Longrightarrow>
   vault_inv v' \<and>
   (case r of
      None \<Rightarrow> (\<forall>e\<in>set es. entry_credential home readFile e \<noteq> None) \<and>
        cred_of v' = foldl (\<lambda>m e. m(cre_Pattern e \<mapsto> the (entry_credential home readFile e))) (cred_of v) es
    | Some (k, p, err) \<Rightarrow> i \<le> k \<and> k - i < length es \<and> p = cre_Pattern (es ! (k - i)) \<and>
        entryToCredential home readFile (es ! (k - i)) = Inl err \<and>
        (\<forall>e\<in>set (take (k - i) es). entry_credential home readFile e \<noteq> None) \<and>
        cred_of v' = foldl (\<lambda>m e. m(cre_Pattern e \<mapsto> the (entry_credential home readFile e))) (cred_of v) (take (k - i) es))"
proof (induction es arbitrary: i v)
  case (Cons e es)
  show ?case
  proof (cases "entryToCredential home readFile e")
    case (Inl err)
    then show ?thesis using Cons.prems by auto
  next
    case (Inr c)
    then have c: "entry_credential home readFile e = Some c" by (simp add: entry_credential_def)
    have "vault_inv (Store v (cre_Pattern e) c)" using Cons.prems(2) by (simp add: vault_inv_def Store_spec)
    note ih = Cons.IH [OF _ this, of "i + 1"]
    have "load_loop home readFile (i + 1) es (Store v (cre_Pattern e) c) = (r, v')" using Cons.prems(1) Inr by simp
    note ih = ih [OF this]
    show ?thesis
    proof (cases r)
      case None
      then show ?thesis using ih c by (simp add: Store_spec(2))
    next
      case (Some x)
      obtain k p err where x: "x = (k, p, err)" by (cases x)
      then have "i + 1 \<le> k" using ih Some by simp
      then obtain d where d: "k = i + 1 + d" using le_Suc_ex by blast
      then have "k - i = Suc d" "k - (i + 1) = d" by simp_all
      then show ?thesis using ih c Some x d by (simp add: Store_spec(2))
    qed
  qed
qed simp

text \<open>
  Loading credentials is all or a prefix. When \<open>LoadCredentials\<close> succeeds, every entry is valid and the vault has gained the
  credential of each, a later entry of the same pattern replacing an earlier one; when it fails, the error names the first invalid entry by index
  and pattern and the vault has gained exactly the entries before it. The copy for the fleet has no credentials, and loading it stores
  nothing, while it seeds the same hosts and addresses.
\<close>

theorem credentials_loaded:
  assumes "LoadCredentials home readFile mc v = (r, v')" and "vault_inv v"
  shows "(case r of
      None \<Rightarrow> (\<forall>e\<in>set (elems (mc_Credentials mc)). entry_credential home readFile e \<noteq> None) \<and>
        cred_of v' = foldl (\<lambda>m e. m(cre_Pattern e \<mapsto> the (entry_credential home readFile e))) (cred_of v) (elems (mc_Credentials mc))
    | Some (k, p, err) \<Rightarrow> k < length (elems (mc_Credentials mc)) \<and> p = cre_Pattern (elems (mc_Credentials mc) ! k) \<and>
        entryToCredential home readFile (elems (mc_Credentials mc) ! k) = Inl err \<and>
        (\<forall>e\<in>set (take k (elems (mc_Credentials mc))). entry_credential home readFile e \<noteq> None) \<and>
        cred_of v' = foldl (\<lambda>m e. m(cre_Pattern e \<mapsto> the (entry_credential home readFile e))) (cred_of v) (take k (elems (mc_Credentials mc)))) \<and>
    LoadCredentials home readFile (Stripped mc) v = (None, v) \<and> KnownHosts (Stripped mc) = KnownHosts mc"
proof -
  have "KnownHosts (Stripped mc) = KnownHosts mc"
  proof (cases "mc_Hosts mc")
    case (Some hosts)
    have "KnownHosts (Stripped mc) k = KnownHosts mc k" for k
      using Some by (cases "hosts k") (simp_all add: KnownHosts_def Stripped_def GetMeshPort_def)
    then show ?thesis by (rule ext)
  qed (simp add: KnownHosts_def Stripped_def)
  then show ?thesis
    using load_loop_spec [OF assms(1) [unfolded LoadCredentials_def] assms(2)]
    by (auto simp: LoadCredentials_def Stripped_def elems_def split: option.splits)
qed

theorem credentials_loaded_witness:
  "let entry = \<lparr>cre_Pattern = ''*'', cre_Type = ''ssh_password'', cre_Username = ''u'', cre_Password = ''p'', cre_KeyFile = [], cre_CertFile = []\<rparr>;
       mc = cfg_Default\<lparr>mc_Credentials := Some [entry]\<rparr>
   in cred_of (snd (LoadCredentials None (\<lambda>_. None) mc \<lparr>v_entries = [], v_privateKey = []\<rparr>)) ''*'' \<noteq> None"
proof -
  define entry where "entry = \<lparr>cre_Pattern = ''*'', cre_Type = ''ssh_password'', cre_Username = ''u'', cre_Password = ''p'', cre_KeyFile = [], cre_CertFile = []\<rparr>"
  define mc where "mc = cfg_Default\<lparr>mc_Credentials := Some [entry]\<rparr>"
  obtain v' where l: "LoadCredentials None (\<lambda>_. None) mc \<lparr>v_entries = [], v_privateKey = []\<rparr> = (None, v')"
    by (simp add: LoadCredentials_def mc_def elems_def entry_def entryToCredential_def)
  have "vault_inv \<lparr>v_entries = [], v_privateKey = []\<rparr>" by (simp add: vault_inv_def AllPatterns_def)
  from credentials_loaded [OF l this] have "cred_of v' ''*'' \<noteq> None" by (simp add: mc_def elems_def) (simp add: entry_def)
  with l show ?thesis by (simp add: mc_def entry_def Let_def)
qed

text \<open>An address that is an IPv6 address counts as one that has a port.\<close>

lemma ipv6_without_port: "with_port 4443 ''fd00::1'' = ''fd00::1''"
  by (simp add: with_port_def)

end
