(* ===== verification/Circuit.thy ===== *)
theory Circuit
  imports Prelude "HOL-Library.Multiset" "HOL-Library.Sublist"
begin

text \<open>
  Model of the data path of the mesh: \<open>pkg/mesh/routing/bufpool.go\<close> and \<open>bufpool_shard.go\<close> (the pools of forwarding
  buffers) and \<open>circuit.go\<close> (copying between the two ends of a circuit, and the watchdog that closes an idle one). The goroutines of
  a circuit are the events of a step function: a read that returns, a write that returns, a tick of the watchdog.
\<close>

section \<open>Pools of buffers\<close>

text \<open>A slice of the heap has an identity besides its length and capacity. A channel of slices is their list.\<close>

record buffer =
  buf_id :: nat
  buf_len :: int
  buf_cap :: int

record bufPool =
  bp_ch :: "buffer list"
  bp_capacity :: nat
  bp_bufSize :: int

definition newBufPool :: "nat \<Rightarrow> int \<Rightarrow> bufPool" where
  "newBufPool cap bufSize = \<lparr>bp_ch = [], bp_capacity = cap, bp_bufSize = bufSize\<rparr>"

text \<open>\<open>a\<close> is the address \<open>make\<close> would return.\<close>

definition make_buffer :: "nat \<Rightarrow> int \<Rightarrow> buffer" where
  "make_buffer a size_of = \<lparr>buf_id = a, buf_len = size_of, buf_cap = size_of\<rparr>"

definition bp_get :: "nat \<Rightarrow> bufPool \<Rightarrow> buffer \<times> bufPool" where
  "bp_get a p =
     (case bp_ch p of
        b # ch \<Rightarrow> (b, p\<lparr>bp_ch := ch\<rparr>)
      | [] \<Rightarrow> (make_buffer a (bp_bufSize p), p))"

definition bp_put :: "bufPool \<Rightarrow> buffer \<Rightarrow> bufPool" where
  "bp_put p b =
     (if buf_cap b \<noteq> bp_bufSize p then p
      else let b1 = b\<lparr>buf_len := bp_bufSize p\<rparr>
           in if length (bp_ch p) < bp_capacity p then p\<lparr>bp_ch := bp_ch p @ [b1]\<rparr> else p)"

record shardedBufPool =
  sp_shards :: "bufPool list"
  sp_getCounter :: nat
  sp_putCounter :: nat

definition newShardedBufPool :: "int \<Rightarrow> int \<Rightarrow> int \<Rightarrow> shardedBufPool" where
  "newShardedBufPool maxProcs totalCapacity bufSize =
     (let numShards = (if maxProcs < 1 then 1 else maxProcs);
          per = totalCapacity div numShards;
          perShard = (if per < 1 then 1 else per)
      in \<lparr>sp_shards = replicate (nat numShards) (newBufPool (nat perShard) bufSize), sp_getCounter = 0, sp_putCounter = 0\<rparr>)"

text \<open>The counters are \<open>uint64\<close>; the shards are tried from the one the counter points at, in a circle.\<close>

definition tick :: "nat \<Rightarrow> nat" where
  "tick c = (c + 1) mod 2 ^ 64"

definition probe_order :: "nat \<Rightarrow> nat \<Rightarrow> nat list" where
  "probe_order c n = map (\<lambda>i. (c mod n + i) mod n) [0..<n]"

fun steal :: "bufPool list \<Rightarrow> nat list \<Rightarrow> (buffer \<times> bufPool list) option" where
  "steal shards [] = None"
| "steal shards (i # order) =
     (case bp_ch (shards ! i) of
        b # ch \<Rightarrow> Some (b, shards[i := (shards ! i)\<lparr>bp_ch := ch\<rparr>])
      | [] \<Rightarrow> steal shards order)"

fun offer :: "bufPool list \<Rightarrow> buffer \<Rightarrow> nat list \<Rightarrow> bufPool list" where
  "offer shards b [] = shards"
| "offer shards b (i # order) =
     (if length (bp_ch (shards ! i)) < bp_capacity (shards ! i)
      then shards[i := (shards ! i)\<lparr>bp_ch := bp_ch (shards ! i) @ [b]\<rparr>]
      else offer shards b order)"

definition sp_get :: "nat \<Rightarrow> shardedBufPool \<Rightarrow> buffer \<times> shardedBufPool" where
  "sp_get a sp =
     (let c = tick (sp_getCounter sp); sp1 = sp\<lparr>sp_getCounter := c\<rparr>
      in case steal (sp_shards sp) (probe_order c (length (sp_shards sp))) of
           Some (b, shards) \<Rightarrow> (b, sp1\<lparr>sp_shards := shards\<rparr>)
         | None \<Rightarrow> (make_buffer a (bp_bufSize (sp_shards sp ! 0)), sp1))"

definition sp_put :: "shardedBufPool \<Rightarrow> buffer \<Rightarrow> shardedBufPool" where
  "sp_put sp b =
     (let bufSize = bp_bufSize (sp_shards sp ! 0)
      in if buf_cap b \<noteq> bufSize then sp
         else let c = tick (sp_putCounter sp)
              in sp\<lparr>sp_putCounter := c,
                    sp_shards := offer (sp_shards sp) (b\<lparr>buf_len := bufSize\<rparr>) (probe_order c (length (sp_shards sp)))\<rparr>)"

section \<open>What a pool of buffers promises\<close>

text \<open>
  A pool is a bag of free buffers of one size with a bound: \<open>get\<close> takes one out of the bag or makes a new one when the bag is
  empty, \<open>put\<close> adds one of the right capacity, restored to its full length, while there is room.
\<close>

locale buffer_pool =
  fixes get :: "nat \<Rightarrow> 'p \<Rightarrow> buffer \<times> 'p"
    and put :: "'p \<Rightarrow> buffer \<Rightarrow> 'p"
    and free :: "'p \<Rightarrow> buffer multiset"
    and room :: "'p \<Rightarrow> nat"
    and width :: "'p \<Rightarrow> int"
    and sound :: "'p \<Rightarrow> bool"
  assumes get_free: "sound p \<Longrightarrow> free p \<noteq> {#} \<Longrightarrow>
      fst (get a p) \<in># free p \<and> free (snd (get a p)) = free p - {#fst (get a p)#}"
    and get_fresh: "sound p \<Longrightarrow> free p = {#} \<Longrightarrow> fst (get a p) = make_buffer a (width p) \<and> free (snd (get a p)) = {#}"
    and put_free: "sound p \<Longrightarrow> free (put p b) =
      (if buf_cap b = width p \<and> size (free p) < room p then add_mset (b\<lparr>buf_len := width p\<rparr>) (free p) else free p)"
    and get_keeps: "sound p \<Longrightarrow> sound (snd (get a p)) \<and> room (snd (get a p)) = room p \<and> width (snd (get a p)) = width p"
    and put_keeps: "sound p \<Longrightarrow> sound (put p b) \<and> room (put p b) = room p \<and> width (put p b) = width p"

text \<open>
  The users of a pool: \<open>Take\<close> takes a buffer, \<open>Return i n\<close> gives the \<open>i\<close>-th held buffer back, resliced to length \<open>n\<close>. Addresses
  of new buffers are counted up, so none is used twice.
\<close>

datatype pool_event = Take | Return nat int

fun pool_step :: "(nat \<Rightarrow> 'p \<Rightarrow> buffer \<times> 'p) \<Rightarrow> ('p \<Rightarrow> buffer \<Rightarrow> 'p) \<Rightarrow> pool_event \<Rightarrow> 'p \<times> buffer list \<times> nat \<Rightarrow> 'p \<times> buffer list \<times> nat" where
  "pool_step get put Take (p, held, a) = (let (b, p1) = get a p in (p1, held @ [b], a + 1))"
| "pool_step get put (Return i n) (p, held, a) =
     (if i < length held then (put p ((held ! i)\<lparr>buf_len := n\<rparr>), take i held @ drop (Suc i) held, a) else (p, held, a))"

definition pool_run :: "(nat \<Rightarrow> 'p \<Rightarrow> buffer \<times> 'p) \<Rightarrow> ('p \<Rightarrow> buffer \<Rightarrow> 'p) \<Rightarrow> pool_event list \<Rightarrow> 'p \<times> buffer list \<times> nat \<Rightarrow> 'p \<times> buffer list \<times> nat" where
  "pool_run get put evs s = fold (pool_step get put) evs s"

definition unshared :: "buffer multiset \<Rightarrow> buffer list \<Rightarrow> nat \<Rightarrow> bool" where
  "unshared free held a \<longleftrightarrow>
     (\<forall>x. count (image_mset buf_id (free + mset held)) x \<le> 1) \<and> (\<forall>b \<in># free + mset held. buf_id b < a)"

lemma mset_take_out: "i < length xs \<Longrightarrow> mset xs = add_mset (xs ! i) (mset (take i xs @ drop (Suc i) xs))"
  by (metis id_take_nth_drop mset_append mset.simps(2) union_mset_add_mset_right)

lemma unshared_Suc: "unshared F held a \<Longrightarrow> unshared F held (Suc a)"
  by (auto simp: unshared_def less_SucI)

lemma unshared_move:
  assumes "unshared F held a" "b \<in># F"
  shows "unshared (F - {#b#}) (held @ [b]) a"
proof -
  have "F - {#b#} + mset (held @ [b]) = F + mset held"
    using assms(2) by (simp add: insert_DiffM)
  with assms show ?thesis by (simp add: unshared_def)
qed

lemma unshared_fresh:
  assumes "unshared F held a"
  shows "unshared F (held @ [make_buffer a w]) (Suc a)"
proof -
  let ?ids = "image_mset buf_id (F + mset held)"
  have "count ?ids a = 0"
    using assms by (fastforce simp: unshared_def count_eq_zero_iff)
  moreover have "image_mset buf_id (F + mset (held @ [make_buffer a w])) = add_mset a ?ids"
    by (simp add: make_buffer_def)
  ultimately show ?thesis
    using assms by (auto simp: unshared_def make_buffer_def less_Suc_eq)
qed

lemma unshared_subset:
  assumes "unshared F held a" "image_mset buf_id (F' + mset held') \<subseteq># image_mset buf_id (F + mset held)"
  shows "unshared F' held' a"
proof -
  have "\<forall>x. count (image_mset buf_id (F' + mset held')) x \<le> 1"
    using assms unfolding unshared_def by (meson le_trans mset_subset_eq_count)
  moreover have "buf_id b < a" if "b \<in># F' + mset held'" for b
  proof -
    have "buf_id b \<in># image_mset buf_id (F + mset held)"
      using that assms(2) by (meson image_eqI mset_subset_eqD set_image_mset [THEN equalityD2] subsetD)
    then show ?thesis using assms(1) by (auto simp: unshared_def)
  qed
  ultimately show ?thesis by (simp add: unshared_def)
qed

context buffer_pool
begin

definition good :: "'p \<times> buffer list \<times> nat \<Rightarrow> bool" where
  "good s \<longleftrightarrow> (case s of (p, held, a) \<Rightarrow> sound p \<and> unshared (free p) held a \<and> size (free p) \<le> room p \<and>
     (\<forall>b \<in># free p. buf_len b = width p \<and> buf_cap b = width p) \<and> (\<forall>b \<in> set held. buf_cap b = width p))"

lemma good_take:
  assumes "good (p, held, a)"
  shows "good (pool_step get put Take (p, held, a))"
proof (cases "free p = {#}")
  case True
  then show ?thesis
    using assms get_fresh [of p a] get_keeps [of p a] unshared_fresh [of "free p" held a "width p"]
    by (auto simp: good_def make_buffer_def split: prod.split)
next
  case False
  obtain b p1 where g: "get a p = (b, p1)" by (cases "get a p")
  with assms False get_free [of p a] get_keeps [of p a]
  have b: "b \<in># free p" "free p1 = free p - {#b#}" "sound p1" "room p1 = room p" "width p1 = width p"
    by (auto simp: good_def)
  have "unshared (free p1) (held @ [b]) (Suc a)"
    using assms b by (auto simp: good_def intro!: unshared_Suc unshared_move)
  moreover have "size (free p1) \<le> room p1"
    using assms b by (auto simp: good_def size_Diff_singleton intro: le_trans [OF diff_le_self])
  ultimately show ?thesis
    using assms b by (auto simp: good_def g dest: in_diffD)
qed

lemma good_return:
  assumes "good (p, held, a)"
  shows "good (pool_step get put (Return i n) (p, held, a))"
proof (cases "i < length held")
  case True
  let ?b = "(held ! i)\<lparr>buf_len := n\<rparr>"
  let ?rest = "take i held @ drop (Suc i) held"
  have held: "mset held = add_mset (held ! i) (mset ?rest)"
    using True by (rule mset_take_out)
  have sub: "set ?rest \<subseteq> set held"
    using set_take_subset [of i held] set_drop_subset [of "Suc i" held] by simp
  have ids: "image_mset buf_id (free (put p ?b) + mset ?rest) \<subseteq># image_mset buf_id (free p + mset held)"
    using assms unfolding held by (auto simp: good_def put_free)
  have "unshared (free p) held a"
    using assms by (simp add: good_def)
  from this ids have "unshared (free (put p ?b)) ?rest a"
    by (rule unshared_subset)
  moreover have "size (free (put p ?b)) \<le> room (put p ?b)"
    using assms put_keeps [of p ?b] by (auto simp: good_def put_free)
  moreover have "buf_cap (held ! i) = width p"
    using assms True by (simp add: good_def)
  ultimately show ?thesis
    using assms True put_keeps [of p ?b] sub by (auto simp: good_def put_free split: if_splits)
qed (use assms in simp)

lemma good_run: "good s \<Longrightarrow> good (pool_run get put evs s)"
  unfolding pool_run_def
proof (induction evs arbitrary: s)
  case (Cons ev evs)
  obtain p held a where s: "s = (p, held, a)" by (cases s)
  have "good (pool_step get put ev s)"
    using Cons.prems good_take good_return by (cases ev) (simp_all add: s)
  with Cons.IH show ?case by simp
qed simp

lemma run_keeps:
  "sound p \<Longrightarrow> pool_run get put evs (p, held, a) = (p', held', a') \<Longrightarrow> room p' = room p \<and> width p' = width p"
  unfolding pool_run_def
proof (induction evs arbitrary: p held a)
  case (Cons ev evs)
  obtain p1 held1 a1 where s: "pool_step get put ev (p, held, a) = (p1, held1, a1)"
    by (cases "pool_step get put ev (p, held, a)")
  have "sound p1 \<and> room p1 = room p \<and> width p1 = width p"
    using s Cons.prems(1) get_keeps [of p a] put_keeps [of p]
    by (cases ev) (auto split: prod.splits if_splits)
  with Cons.IH [of p1 held1 a1] Cons.prems(2) s show ?case by simp
qed simp

lemma never_shared:
  assumes "sound p" "free p = {#}" "pool_run get put evs (p, [], 0) = (p', held, a)"
  shows "distinct (map buf_id held) \<and> buf_id ` set held \<inter> buf_id ` set_mset (free p') = {} \<and> size (free p') \<le> room p \<and>
     (\<forall>b \<in># free p'. buf_len b = width p)"
proof -
  have "good (p, [], 0)"
    using assms by (simp add: good_def unshared_def)
  then have g: "good (p', held, a)"
    using good_run assms(3) by metis
  then have c: "count (image_mset buf_id (free p' + mset held)) x \<le> 1" for x
    by (simp add: good_def unshared_def)
  have "distinct (map buf_id held)"
    unfolding distinct_count_atmost_1
    using c by (metis (no_types, lifting) add_leE count_union image_mset_union mset_map le_antisym not_less_eq_eq count_mset_0_iff One_nat_def le_SucE le_zero_eq)
  moreover have "buf_id ` set held \<inter> buf_id ` set_mset (free p') = {}"
  proof -
    have False if "x \<in> buf_id ` set held" "x \<in> buf_id ` set_mset (free p')" for x
    proof -
      have "0 < count (image_mset buf_id (mset held)) x" "0 < count (image_mset buf_id (free p')) x"
        using that by auto
      with c [of x] show False by simp
    qed
    then show ?thesis by blast
  qed
  ultimately show ?thesis
    using g run_keeps [OF assms(1,3)] by (auto simp: good_def)
qed

end

interpretation single_pool: buffer_pool bp_get bp_put "\<lambda>p. mset (bp_ch p)" bp_capacity bp_bufSize "\<lambda>_. True"
  by unfold_locales (auto simp: bp_get_def bp_put_def Let_def split: list.splits)

definition sp_free :: "shardedBufPool \<Rightarrow> buffer multiset" where
  "sp_free sp = (\<Sum>s\<leftarrow>sp_shards sp. mset (bp_ch s))"

definition sp_room :: "shardedBufPool \<Rightarrow> nat" where
  "sp_room sp = (\<Sum>s\<leftarrow>sp_shards sp. bp_capacity s)"

definition sp_sound :: "shardedBufPool \<Rightarrow> bool" where
  "sp_sound sp \<longleftrightarrow> sp_shards sp \<noteq> [] \<and> (\<forall>s \<in> set (sp_shards sp). length (bp_ch s) \<le> bp_capacity s)"

lemma sum_list_list_update:
  fixes f :: "'a \<Rightarrow> 'b :: comm_monoid_add"
  shows "i < length xs \<Longrightarrow> sum_list (map f (xs[i := y])) + f (xs ! i) = sum_list (map f xs) + f y"
proof (induction xs arbitrary: i)
  case (Cons x xs)
  show ?case
  proof (cases i)
    case 0
    then show ?thesis by (simp add: ac_simps)
  next
    case (Suc k)
    with Cons.IH [of k] Cons.prems show ?thesis by (simp add: add.assoc)
  qed
qed simp

lemma set_probe_order: "0 < n \<Longrightarrow> set (probe_order c n) = {..<n}"
proof -
  assume n: "0 < n"
  have "\<exists>i<n. (c mod n + i) mod n = k" if "k < n" for k
  proof (cases "c mod n \<le> k")
    case True
    with that show ?thesis by (intro exI [of _ "k - c mod n"]) simp
  next
    case False
    then have "c mod n + (k + n - c mod n) = k + n"
      using mod_less_divisor [OF n, of c] by simp
    with False that n show ?thesis
      by (intro exI [of _ "k + n - c mod n"]) (auto simp: less_imp_le)
  qed
  with n show ?thesis by (force simp: probe_order_def)
qed

lemma steal_None: "steal shards order = None \<longleftrightarrow> (\<forall>i \<in> set order. bp_ch (shards ! i) = [])"
  by (induction order) (auto split: list.splits)

lemma steal_Some:
  "steal shards order = Some (b, shards') \<Longrightarrow>
     \<exists>i ch. i \<in> set order \<and> bp_ch (shards ! i) = b # ch \<and> shards' = shards[i := (shards ! i)\<lparr>bp_ch := ch\<rparr>]"
  by (induction order) (auto split: list.splits)

lemma offer_cases:
  "(\<exists>i \<in> set order. length (bp_ch (shards ! i)) < bp_capacity (shards ! i) \<and>
      offer shards b order = shards[i := (shards ! i)\<lparr>bp_ch := bp_ch (shards ! i) @ [b]\<rparr>]) \<or>
   (\<forall>i \<in> set order. bp_capacity (shards ! i) \<le> length (bp_ch (shards ! i))) \<and> offer shards b order = shards"
  by (induction order) auto

lemma first_shard_update: "bp_bufSize (shards[i := (shards ! i)\<lparr>bp_ch := ch\<rparr>] ! 0) = bp_bufSize (shards ! 0)"
  by (cases "i < length shards"; cases "i = 0") simp_all

lemma capacity_update: "i < length shards \<Longrightarrow>
    sum_list (map bp_capacity (shards[i := (shards ! i)\<lparr>bp_ch := ch\<rparr>])) = sum_list (map bp_capacity shards)"
  using sum_list_list_update [of i shards bp_capacity "(shards ! i)\<lparr>bp_ch := ch\<rparr>"] by simp

lemma free_update: "i < length shards \<Longrightarrow>
    (\<Sum>s\<leftarrow>shards[i := (shards ! i)\<lparr>bp_ch := ch\<rparr>]. mset (bp_ch s)) + mset (bp_ch (shards ! i)) = (\<Sum>s\<leftarrow>shards. mset (bp_ch s)) + mset ch"
  using sum_list_list_update [of i shards "\<lambda>s. mset (bp_ch s)" "(shards ! i)\<lparr>bp_ch := ch\<rparr>"] by simp

lemma sum_list_mset_empty: "(\<Sum>s\<leftarrow>xs. mset (f s)) = {#} \<longleftrightarrow> (\<forall>s \<in> set xs. f s = [])"
  by (induction xs) auto

lemma sp_get_free:
  assumes "sp_sound sp" "sp_free sp \<noteq> {#}"
  shows "fst (sp_get a sp) \<in># sp_free sp \<and> sp_free (snd (sp_get a sp)) = sp_free sp - {#fst (sp_get a sp)#} \<and>
    sp_sound (snd (sp_get a sp)) \<and> sp_room (snd (sp_get a sp)) = sp_room sp \<and>
    bp_bufSize (sp_shards (snd (sp_get a sp)) ! 0) = bp_bufSize (sp_shards sp ! 0)"
proof -
  let ?S = "sp_shards sp" let ?order = "probe_order (tick (sp_getCounter sp)) (length ?S)"
  have order: "set ?order = {..<length ?S}"
    using assms(1) by (intro set_probe_order) (auto simp: sp_sound_def)
  have "\<exists>s \<in> set ?S. bp_ch s \<noteq> []"
    using assms(2) by (auto simp: sp_free_def sum_list_mset_empty)
  then have "steal ?S ?order \<noteq> None"
    by (auto simp: steal_None order in_set_conv_nth)
  then obtain b S' where s: "steal ?S ?order = Some (b, S')" by auto
  from steal_Some [OF this] obtain i ch where i: "i < length ?S" "bp_ch (?S ! i) = b # ch" "S' = ?S[i := (?S ! i)\<lparr>bp_ch := ch\<rparr>]"
    by (auto simp: order)
  have "(\<Sum>s\<leftarrow>S'. mset (bp_ch s)) + mset (b # ch) = (\<Sum>s\<leftarrow>?S. mset (bp_ch s)) + mset ch"
    using free_update [OF i(1), of ch] i by simp
  then have free: "(\<Sum>s\<leftarrow>?S. mset (bp_ch s)) = add_mset b (\<Sum>s\<leftarrow>S'. mset (bp_ch s))"
    by (metis add_right_cancel mset.simps(2) union_mset_add_mset_left union_mset_add_mset_right)
  have "length (bp_ch (?S ! i)) \<le> bp_capacity (?S ! i)"
    using assms(1) nth_mem [OF i(1)] by (simp add: sp_sound_def)
  then have "length ch \<le> bp_capacity (?S ! i)"
    using i(2) by simp
  then have "\<forall>s \<in> set S'. length (bp_ch s) \<le> bp_capacity s"
    using assms(1) i by (auto simp: sp_sound_def dest!: set_update_subset_insert [THEN subsetD])
  moreover have "S' \<noteq> []" using i by auto
  ultimately show ?thesis
    using free i by (simp add: sp_get_def Let_def s sp_free_def sp_room_def sp_sound_def capacity_update first_shard_update)
qed

lemma sp_get_fresh:
  assumes "sp_sound sp" "sp_free sp = {#}"
  shows "fst (sp_get a sp) = make_buffer a (bp_bufSize (sp_shards sp ! 0)) \<and> sp_shards (snd (sp_get a sp)) = sp_shards sp"
proof -
  have "\<forall>s \<in> set (sp_shards sp). bp_ch s = []"
    using assms(2) by (simp add: sp_free_def sum_list_mset_empty)
  moreover have "set (probe_order c (length (sp_shards sp))) = {..<length (sp_shards sp)}" for c
    using assms(1) by (intro set_probe_order) (auto simp: sp_sound_def)
  ultimately have "steal (sp_shards sp) (probe_order c (length (sp_shards sp))) = None" for c
    by (simp add: steal_None)
  then show ?thesis by (simp add: sp_get_def Let_def)
qed

lemma room_left:
  assumes "\<forall>s \<in> set shards. length (bp_ch s) \<le> bp_capacity s"
  shows "size (\<Sum>s\<leftarrow>shards. mset (bp_ch s)) < sum_list (map bp_capacity shards) \<longleftrightarrow>
    (\<exists>s \<in> set shards. length (bp_ch s) < bp_capacity s)"
proof -
  have le: "size (\<Sum>s\<leftarrow>shards. mset (bp_ch s)) \<le> sum_list (map bp_capacity shards)"
    using assms by (induction shards) (auto intro: add_mono)
  have eq: "size (\<Sum>s\<leftarrow>shards. mset (bp_ch s)) = sum_list (map bp_capacity shards) \<longleftrightarrow>
      (\<forall>s \<in> set shards. length (bp_ch s) = bp_capacity s)"
    using assms
  proof (induction shards)
    case (Cons s shards)
    have "size (\<Sum>s\<leftarrow>shards. mset (bp_ch s)) \<le> sum_list (map bp_capacity shards)"
      using Cons.prems by (induction shards) (auto intro: add_mono)
    with Cons show ?case by auto
  qed simp
  from le eq assms show ?thesis
    by (auto simp: order.strict_iff_order)
qed

lemma sp_put_free:
  assumes "sp_sound sp"
  shows "sp_free (sp_put sp b) =
      (if buf_cap b = bp_bufSize (sp_shards sp ! 0) \<and> size (sp_free sp) < sp_room sp
       then add_mset (b\<lparr>buf_len := bp_bufSize (sp_shards sp ! 0)\<rparr>) (sp_free sp) else sp_free sp) \<and>
    sp_sound (sp_put sp b) \<and> sp_room (sp_put sp b) = sp_room sp \<and>
    bp_bufSize (sp_shards (sp_put sp b) ! 0) = bp_bufSize (sp_shards sp ! 0)"
proof (cases "buf_cap b = bp_bufSize (sp_shards sp ! 0)")
  case True
  let ?S = "sp_shards sp" let ?b = "b\<lparr>buf_len := bp_bufSize (sp_shards sp ! 0)\<rparr>"
  let ?order = "probe_order (tick (sp_putCounter sp)) (length ?S)"
  have order: "set ?order = {..<length ?S}"
    using assms by (intro set_probe_order) (auto simp: sp_sound_def)
  have put: "sp_shards (sp_put sp b) = offer ?S ?b ?order"
    using True by (simp add: sp_put_def Let_def)
  have room: "size (sp_free sp) < sp_room sp \<longleftrightarrow> (\<exists>s \<in> set ?S. length (bp_ch s) < bp_capacity s)"
    using assms unfolding sp_free_def sp_room_def by (intro room_left) (simp add: sp_sound_def)
  from offer_cases [of ?order ?S ?b] show ?thesis
  proof
    assume "\<exists>i \<in> set ?order. length (bp_ch (?S ! i)) < bp_capacity (?S ! i) \<and>
      offer ?S ?b ?order = ?S[i := (?S ! i)\<lparr>bp_ch := bp_ch (?S ! i) @ [?b]\<rparr>]"
    then obtain i where i: "i < length ?S" "length (bp_ch (?S ! i)) < bp_capacity (?S ! i)"
      and S': "offer ?S ?b ?order = ?S[i := (?S ! i)\<lparr>bp_ch := bp_ch (?S ! i) @ [?b]\<rparr>]"
      by (auto simp: order)
    have "size (sp_free sp) < sp_room sp"
      using i nth_mem [OF i(1)] by (auto simp: room)
    moreover have "sp_free (sp_put sp b) = add_mset ?b (sp_free sp)"
      using free_update [OF i(1), of "bp_ch (?S ! i) @ [?b]"] unfolding sp_free_def put S' by simp
    moreover have "\<forall>s \<in> set (sp_shards (sp_put sp b)). length (bp_ch s) \<le> bp_capacity s"
      using assms i unfolding put S' by (auto simp: sp_sound_def dest!: set_update_subset_insert [THEN subsetD])
    moreover have "sp_shards (sp_put sp b) \<noteq> []"
      using i unfolding put S' by auto
    ultimately show ?thesis
      using True i by (simp add: sp_sound_def sp_room_def put S' capacity_update first_shard_update)
  next
    assume full: "(\<forall>i \<in> set ?order. bp_capacity (?S ! i) \<le> length (bp_ch (?S ! i))) \<and> offer ?S ?b ?order = ?S"
    then have "\<not> size (sp_free sp) < sp_room sp"
      by (auto simp: room order in_set_conv_nth not_less)
    with full assms put show ?thesis
      by (simp add: sp_free_def sp_sound_def sp_room_def)
  qed
qed (use assms in \<open>simp add: sp_put_def\<close>)

interpretation sharded_pool: buffer_pool sp_get sp_put sp_free sp_room "\<lambda>sp. bp_bufSize (sp_shards sp ! 0)" sp_sound
proof
  fix p a b
  assume "sp_sound p"
  then show "sp_free (sp_put p b) = (if buf_cap b = bp_bufSize (sp_shards p ! 0) \<and> size (sp_free p) < sp_room p
      then add_mset (b\<lparr>buf_len := bp_bufSize (sp_shards p ! 0)\<rparr>) (sp_free p) else sp_free p)"
    and "sp_sound (sp_put p b) \<and> sp_room (sp_put p b) = sp_room p \<and>
      bp_bufSize (sp_shards (sp_put p b) ! 0) = bp_bufSize (sp_shards p ! 0)"
    using sp_put_free [of p b] by auto
  from \<open>sp_sound p\<close> show "sp_sound (snd (sp_get a p)) \<and> sp_room (snd (sp_get a p)) = sp_room p \<and>
      bp_bufSize (sp_shards (snd (sp_get a p)) ! 0) = bp_bufSize (sp_shards p ! 0)"
    using sp_get_free [of p a] sp_get_fresh [of p a] by (cases "sp_free p = {#}") (auto simp: sp_sound_def sp_room_def)
  assume "sp_free p = {#}"
  with \<open>sp_sound p\<close> show "fst (sp_get a p) = make_buffer a (bp_bufSize (sp_shards p ! 0)) \<and> sp_free (snd (sp_get a p)) = {#}"
    using sp_get_fresh [of p a] by (auto simp: sp_free_def)
qed (use sp_get_free in blast)

lemma sharded_capacity: "int (sp_room (newShardedBufPool procs total_cap bufSize)) \<le> max total_cap (max 1 procs)"
proof -
  define n where "n = (if procs < 1 then 1 else procs)"
  define k where "k = (if total_cap div n < 1 then 1 else total_cap div n)"
  have n: "1 \<le> n" "n = max 1 procs" by (auto simp: n_def)
  have "sp_room (newShardedBufPool procs total_cap bufSize) = nat n * nat k"
    by (simp add: newShardedBufPool_def Let_def sp_room_def newBufPool_def n_def k_def map_replicate_const sum_list_replicate)
  then have "int (sp_room (newShardedBufPool procs total_cap bufSize)) = n * k"
    using n by (simp add: k_def)
  also have "\<dots> \<le> max total_cap n"
  proof (cases "total_cap div n < 1")
    case False
    have "n * (total_cap div n) \<le> total_cap"
      using n(1) mult_div_mod_eq [of n total_cap] pos_mod_sign [of n total_cap] by linarith
    with False show ?thesis by (simp add: k_def)
  qed (simp add: k_def)
  finally show ?thesis by (simp add: n(2))
qed

lemma single_unshared:
  assumes run: "pool_run bp_get bp_put evs (newBufPool cap bufSize, [], 0) = (p, held, a)"
  shows "distinct (map buf_id held) \<and> buf_id ` set held \<inter> buf_id ` set (bp_ch p) = {} \<and>
    length (bp_ch p) \<le> cap \<and> buf_len ` set (bp_ch p) \<subseteq> {bufSize}"
proof -
  have "mset (bp_ch (newBufPool cap bufSize)) = {#}" by (simp add: newBufPool_def)
  from single_pool.never_shared [OF TrueI this run] show ?thesis
    by (auto simp: newBufPool_def)
qed

lemma sharded_unshared:
  assumes run: "pool_run sp_get sp_put evs (newShardedBufPool procs total_cap bufSize, [], 0) = (sp, held, a)"
  shows "distinct (map buf_id held) \<and> buf_id ` set held \<inter> buf_id ` set_mset (sp_free sp) = {} \<and>
    int (size (sp_free sp)) \<le> max total_cap (max 1 procs) \<and> buf_len ` set_mset (sp_free sp) \<subseteq> {bufSize}"
proof -
  let ?sp = "newShardedBufPool procs total_cap bufSize"
  have sound: "sp_sound ?sp"
    by (auto simp: newShardedBufPool_def Let_def sp_sound_def newBufPool_def)
  have empty: "sp_free ?sp = {#}"
    unfolding sp_free_def sum_list_mset_empty by (simp add: newShardedBufPool_def Let_def newBufPool_def)
  have width: "bp_bufSize (sp_shards ?sp ! 0) = bufSize"
    by (simp add: newShardedBufPool_def Let_def newBufPool_def)
  from sharded_pool.never_shared [OF sound empty run] sharded_capacity [of procs total_cap bufSize]
  show ?thesis by (auto simp: width)
qed

text \<open>
  Property C27. Two circuits never forward through the same buffer: whatever sequence of takes and returns the users of the pool make, with
  the buffers resliced as they like, the buffers that are held at the same time are distinct, none of them is in the pool, and
  the pool keeps no more than its capacity, each at its full length. This holds for the pool of one channel and for the
  sharded one, whose capacity is its shards' share of the total.
\<close>

theorem buffers_never_shared:
  "(case pool_run bp_get bp_put evs (newBufPool cap bufSize, [], 0) of (p, held, a) \<Rightarrow>
      distinct (map buf_id held) \<and> buf_id ` set held \<inter> buf_id ` set (bp_ch p) = {} \<and>
      length (bp_ch p) \<le> cap \<and> buf_len ` set (bp_ch p) \<subseteq> {bufSize}) \<and>
   (case pool_run sp_get sp_put evs (newShardedBufPool procs total_cap bufSize, [], 0) of (sp, held, a) \<Rightarrow>
      distinct (map buf_id held) \<and> buf_id ` set held \<inter> buf_id ` set_mset (sp_free sp) = {} \<and>
      int (size (sp_free sp)) \<le> max total_cap (max 1 procs) \<and> buf_len ` set_mset (sp_free sp) \<subseteq> {bufSize})"
  using single_unshared sharded_unshared by (auto split: prod.split)

section \<open>Stitching two connections\<close>

definition stitchBufSize :: nat where "stitchBufSize = 32 * 1024"

definition stitchBufPoolSize :: nat where "stitchBufPoolSize = 256"

text \<open>Durations are nanoseconds.\<close>

definition DefaultIdleTimeout :: duration where "DefaultIdleTimeout = 5 * 60 * 1000000000"

datatype read_status = ReadOk | AtEOF | ReadErr string

datatype copy_end = CleanEOF | ReadFailed string | WriteFailed string | ShortWrite

text \<open>
  Where the goroutine of one direction is: in a read, in the write of what it read (with the error that came with the data), or at
  its end. \<open>cd_read\<close> and \<open>cd_written\<close> record what has passed, for the properties.
\<close>

datatype copier = Reading | Writing octets read_status | Copied copy_end

record direction =
  cd_total :: int
  cd_pc :: copier
  cd_read :: octets
  cd_written :: octets

definition read_ended :: "read_status \<Rightarrow> copier" where
  "read_ended status = (case status of ReadOk \<Rightarrow> Reading | AtEOF \<Rightarrow> Copied CleanEOF | ReadErr e \<Rightarrow> Copied (ReadFailed e))"

text \<open>The two halves of a round of \<open>copyPooledTracked\<close>: the read returns, the write returns.\<close>

definition copy_read :: "octets \<Rightarrow> read_status \<Rightarrow> direction \<Rightarrow> direction" where
  "copy_read bytes_read status d =
     d\<lparr>cd_pc := (if bytes_read \<noteq> [] then Writing bytes_read status else read_ended status), cd_read := cd_read d @ bytes_read\<rparr>"

definition copy_write :: "octets \<Rightarrow> read_status \<Rightarrow> nat \<Rightarrow> string option \<Rightarrow> direction \<Rightarrow> direction" where
  "copy_write bytes_read status nw writeErr d =
     d\<lparr>cd_total := (if nw > 0 then i64 (cd_total d + int nw) else cd_total d),
       cd_pc := (case writeErr of
                   Some e \<Rightarrow> Copied (WriteFailed e)
                 | None \<Rightarrow> if length bytes_read \<noteq> nw then Copied ShortWrite else read_ended status),
       cd_written := cd_written d @ take nw bytes_read\<rparr>"

datatype way = AtoB | BtoA

record stitch =
  st_dir :: "way \<Rightarrow> direction"
  st_lastActive :: time
  st_timeout :: duration
  st_watching :: bool
  st_closedA :: bool
  st_closedB :: bool

definition is_copied :: "direction \<Rightarrow> bool" where
  "is_copied d \<longleftrightarrow> (case cd_pc d of Copied _ \<Rightarrow> True | _ \<Rightarrow> False)"

definition StitchWithTimeout :: "time \<Rightarrow> duration \<Rightarrow> bool \<Rightarrow> stitch" where
  "StitchWithTimeout now idleTimeout netConns =
     \<lparr>st_dir = (\<lambda>_. \<lparr>cd_total = 0, cd_pc = Reading, cd_read = [], cd_written = []\<rparr>), st_lastActive = now, st_timeout = idleTimeout,
      st_watching = (idleTimeout > 0 \<and> netConns), st_closedA = False, st_closedB = False\<rparr>"

text \<open>A direction that has ended closes the connection it wrote to; when both have, the watchdog is stopped.\<close>

definition settle :: "stitch \<Rightarrow> stitch" where
  "settle s =
     s\<lparr>st_closedB := (st_closedB s \<or> is_copied (st_dir s AtoB)), st_closedA := (st_closedA s \<or> is_copied (st_dir s BtoA)),
       st_watching := (st_watching s \<and> \<not> (is_copied (st_dir s AtoB) \<and> is_copied (st_dir s BtoA)))\<rparr>"

definition checkInterval :: "duration \<Rightarrow> duration" where
  "checkInterval timeout =
     (let half = timeout div 2
      in if half < 10 * 1000000 then 10 * 1000000 else if half > 30 * 1000000000 then 30 * 1000000000 else half)"

definition watch_tick :: "time \<Rightarrow> stitch \<Rightarrow> stitch" where
  "watch_tick now s =
     (if st_watching s \<and> now - st_lastActive s \<ge> st_timeout s
      then s\<lparr>st_closedA := True, st_closedB := True, st_watching := False\<rparr> else s)"

datatype stitch_event = ReadDone way time octets read_status | WriteDone way nat "string option" | WatchTick time

fun stitch_step :: "stitch_event \<Rightarrow> stitch \<Rightarrow> stitch" where
  "stitch_step (ReadDone w now bytes_read status) s =
     (if cd_pc (st_dir s w) = Reading
      then settle (s\<lparr>st_dir := (st_dir s)(w := copy_read bytes_read status (st_dir s w)),
             st_lastActive := (if bytes_read \<noteq> [] then now else st_lastActive s)\<rparr>)
      else s)"
| "stitch_step (WriteDone w nw writeErr) s =
     (case cd_pc (st_dir s w) of
        Writing bytes_read status \<Rightarrow>
          settle (s\<lparr>st_dir := (st_dir s)(w := copy_write bytes_read status nw writeErr (st_dir s w))\<rparr>)
      | _ \<Rightarrow> s)"
| "stitch_step (WatchTick now) s = watch_tick now s"

definition stitch_run :: "stitch_event list \<Rightarrow> stitch \<Rightarrow> stitch" where
  "stitch_run evs s = fold stitch_step evs s"

record stitchResult =
  sr_BytesAtoB :: int
  sr_BytesBtoA :: int
  sr_EndAtoB :: copy_end
  sr_EndBtoA :: copy_end

definition stitch_result :: "stitch \<Rightarrow> stitchResult option" where
  "stitch_result s =
     (case (cd_pc (st_dir s AtoB), cd_pc (st_dir s BtoA)) of
        (Copied ea, Copied eb) \<Rightarrow> Some \<lparr>sr_BytesAtoB = cd_total (st_dir s AtoB), sr_BytesBtoA = cd_total (st_dir s BtoA),
           sr_EndAtoB = ea, sr_EndBtoA = eb\<rparr>
      | _ \<Rightarrow> None)"

section \<open>What a circuit does to the bytes\<close>

text \<open>What \<open>io.Reader\<close> and \<open>io.Writer\<close> promise: no more than the buffer is read, no more than the data is written.\<close>

fun io_promise :: "stitch \<Rightarrow> stitch_event \<Rightarrow> bool" where
  "io_promise s (ReadDone w now bytes_read status) \<longleftrightarrow> length bytes_read \<le> stitchBufSize"
| "io_promise s (WriteDone w nw writeErr) \<longleftrightarrow>
     (case cd_pc (st_dir s w) of Writing bytes_read status \<Rightarrow> nw \<le> length bytes_read | _ \<Rightarrow> True)"
| "io_promise s (WatchTick now) \<longleftrightarrow> True"

fun io_promises :: "stitch \<Rightarrow> stitch_event list \<Rightarrow> bool" where
  "io_promises s [] \<longleftrightarrow> True"
| "io_promises s (ev # evs) \<longleftrightarrow> io_promise s ev \<and> io_promises (stitch_step ev s) evs"

text \<open>One direction: what was read and not yet written is in the buffer, and nothing else is missing while the copy goes on.\<close>

definition faithful :: "direction \<Rightarrow> bool" where
  "faithful d \<longleftrightarrow>
     prefix (cd_written d) (cd_read d) \<and> cd_total d = i64 (int (length (cd_written d))) \<and>
     length (cd_read d) \<le> length (cd_written d) + stitchBufSize \<and>
     (case cd_pc d of
        Reading \<Rightarrow> cd_read d = cd_written d
      | Writing bytes_read status \<Rightarrow> cd_read d = cd_written d @ bytes_read
      | Copied e \<Rightarrow> e = CleanEOF \<or> (\<exists>t. e = ReadFailed t) \<longrightarrow> cd_read d = cd_written d)"

lemma i64_add: "i64 (i64 a + b) = i64 (a + b)"
proof -
  have "((a + 2 ^ 63) mod 2 ^ 64 + b) mod 2 ^ 64 = (a + 2 ^ 63 + b) mod 2 ^ 64"
    by (rule mod_add_left_eq)
  then show ?thesis
    unfolding i64_def by (simp add: algebra_simps)
qed

lemma faithful_read:
  assumes "faithful d" "cd_pc d = Reading" "length bytes_read \<le> stitchBufSize"
  shows "faithful (copy_read bytes_read status d)"
  using assms by (auto simp: faithful_def copy_read_def read_ended_def split: read_status.splits)

lemma faithful_write:
  assumes "faithful d" "cd_pc d = Writing bytes_read status" "nw \<le> length bytes_read"
  shows "faithful (copy_write bytes_read status nw writeErr d)"
proof -
  have r: "cd_read d = cd_written d @ bytes_read" and t: "cd_total d = i64 (int (length (cd_written d)))"
    using assms(1,2) by (simp_all add: faithful_def)
  have l: "length (cd_read d) \<le> length (cd_written d) + stitchBufSize"
    using assms(1) by (simp add: faithful_def)
  have "cd_total (copy_write bytes_read status nw writeErr d) = i64 (int (length (cd_written d @ take nw bytes_read)))"
    using assms(3) t i64_add [of "int (length (cd_written d))" "int nw"] by (auto simp: copy_write_def)
  moreover have "prefix (cd_written d @ take nw bytes_read) (cd_read d)"
    by (simp add: r take_is_prefix)
  moreover have "length (cd_read d) \<le> length (cd_written d @ take nw bytes_read) + stitchBufSize"
    using l by simp
  ultimately show ?thesis
    using r assms(3) unfolding faithful_def
    by (auto simp: copy_write_def read_ended_def split: option.splits read_status.splits)
qed

lemma st_dir_settle [simp]: "st_dir (settle s) = st_dir s"
  by (simp add: settle_def)

text \<open>The ends are closed only for a reason, and a circuit that has ended is closed and no longer watched.\<close>

definition closing_ok :: "stitch \<Rightarrow> bool" where
  "closing_ok s \<longleftrightarrow>
     (is_copied (st_dir s AtoB) \<longrightarrow> st_closedB s) \<and> (is_copied (st_dir s BtoA) \<longrightarrow> st_closedA s) \<and>
     (is_copied (st_dir s AtoB) \<and> is_copied (st_dir s BtoA) \<longrightarrow> \<not> st_watching s)"

lemma closing_ok_settle: "closing_ok (settle s)"
  by (simp add: closing_ok_def settle_def)

lemma faithful_step:
  assumes "\<forall>w. faithful (st_dir s w)" "closing_ok s" "io_promise s ev"
  shows "(\<forall>w. faithful (st_dir (stitch_step ev s) w)) \<and> closing_ok (stitch_step ev s)"
proof (cases ev)
  case (ReadDone w now bytes_read status)
  with assms show ?thesis
    by (auto simp: closing_ok_settle faithful_read)
next
  case (WriteDone w nw writeErr)
  with assms show ?thesis
    by (auto simp: closing_ok_settle faithful_write split: copier.splits)
next
  case (WatchTick now)
  with assms show ?thesis
    by (auto simp: watch_tick_def closing_ok_def)
qed

lemma faithful_run:
  "\<forall>w. faithful (st_dir s w) \<Longrightarrow> closing_ok s \<Longrightarrow> io_promises s evs \<Longrightarrow>
     (\<forall>w. faithful (st_dir (stitch_run evs s) w)) \<and> closing_ok (stitch_run evs s)"
proof (induction evs arbitrary: s)
  case (Cons ev evs)
  then show ?case
    using faithful_step [of s ev] by (simp add: stitch_run_def)
qed (simp add: stitch_run_def)

lemma faithful_start:
  "(\<forall>w. faithful (st_dir (StitchWithTimeout now timeout nets) w)) \<and> closing_ok (StitchWithTimeout now timeout nets)"
  by (simp add: StitchWithTimeout_def faithful_def closing_ok_def is_copied_def i64_def)

text \<open>
  Property C24. A circuit forwards faithfully. For every interleaving of reads, writes and ticks of the watchdog on connections
  that keep the contract of a reader and a writer: in each direction the bytes written to one end are a prefix of the
  bytes read from the other, at most one buffer behind; the reported number is their length (as an \<open>int64\<close>); a direction that ended with a
  clean end of input, or with an error of the reader, has delivered everything that was read; and when the stitch returns, both connections are closed and the
  watchdog is stopped.
\<close>

theorem stitch_faithful:
  assumes "io_promises (StitchWithTimeout now timeout nets) evs"
  shows "let s = stitch_run evs (StitchWithTimeout now timeout nets) in
    (\<forall>w. prefix (cd_written (st_dir s w)) (cd_read (st_dir s w)) \<and>
       length (cd_read (st_dir s w)) \<le> length (cd_written (st_dir s w)) + stitchBufSize \<and>
       cd_total (st_dir s w) = i64 (int (length (cd_written (st_dir s w)))) \<and>
       (cd_pc (st_dir s w) = Copied CleanEOF \<or> (\<exists>e. cd_pc (st_dir s w) = Copied (ReadFailed e)) \<longrightarrow>
          cd_written (st_dir s w) = cd_read (st_dir s w))) \<and>
    (stitch_result s \<noteq> None \<longrightarrow> st_closedA s \<and> st_closedB s \<and> \<not> st_watching s)"
proof -
  define s where "s = stitch_run evs (StitchWithTimeout now timeout nets)"
  have f: "\<forall>w. faithful (st_dir s w)" and c: "closing_ok s"
    using faithful_run [OF _ _ assms] faithful_start [of now timeout nets] by (auto simp: s_def)
  have "prefix (cd_written (st_dir s w)) (cd_read (st_dir s w)) \<and>
       length (cd_read (st_dir s w)) \<le> length (cd_written (st_dir s w)) + stitchBufSize \<and>
       cd_total (st_dir s w) = i64 (int (length (cd_written (st_dir s w)))) \<and>
       (cd_pc (st_dir s w) = Copied CleanEOF \<or> (\<exists>e. cd_pc (st_dir s w) = Copied (ReadFailed e)) \<longrightarrow>
          cd_written (st_dir s w) = cd_read (st_dir s w))" for w
    using f [THEN spec, of w] by (auto simp: faithful_def)
  moreover have "stitch_result s \<noteq> None \<longrightarrow> st_closedA s \<and> st_closedB s \<and> \<not> st_watching s"
    using c by (auto simp: closing_ok_def stitch_result_def is_copied_def split: copier.splits)
  ultimately show ?thesis by (simp add: s_def Let_def)
qed

theorem stitch_faithful_witness:
  "stitch_result (stitch_run [ReadDone AtoB 1 [1, 2] AtEOF, WriteDone AtoB 2 None, ReadDone BtoA 2 [] (ReadErr ''closed'')]
      (StitchWithTimeout 0 DefaultIdleTimeout True)) =
     Some \<lparr>sr_BytesAtoB = 2, sr_BytesBtoA = 0, sr_EndAtoB = CleanEOF, sr_EndBtoA = ReadFailed ''closed''\<rparr> \<and>
   prefix [1, 2 :: 8 word] [1, 2]"
proof -
  let ?evs = "[ReadDone AtoB 1 [1, 2] AtEOF, WriteDone AtoB 2 None, ReadDone BtoA 2 [] (ReadErr ''closed'')]"
  let ?s0 = "StitchWithTimeout 0 DefaultIdleTimeout True"
  have p: "io_promises ?s0 ?evs"
    by (simp add: StitchWithTimeout_def stitchBufSize_def settle_def copy_read_def copy_write_def read_ended_def)
  have d: "cd_written (st_dir (stitch_run ?evs ?s0) AtoB) = [1, 2]" "cd_read (st_dir (stitch_run ?evs ?s0) AtoB) = [1, 2]"
    by (simp_all add: stitch_run_def StitchWithTimeout_def settle_def copy_read_def copy_write_def read_ended_def)
  have "prefix [1, 2 :: 8 word] [1, 2]"
    using stitch_faithful [OF p, unfolded Let_def] d by metis
  then show ?thesis
    by (simp add: stitch_result_def stitch_run_def StitchWithTimeout_def settle_def copy_read_def copy_write_def read_ended_def i64_def)
qed

section \<open>The watchdog\<close>

text \<open>The ticker fires at \<open>t1\<close> and then after every check interval.\<close>

definition regular_ticks :: "time \<Rightarrow> duration \<Rightarrow> nat \<Rightarrow> stitch_event list" where
  "regular_ticks t1 timeout n = map (\<lambda>k. WatchTick (t1 + int k * checkInterval timeout)) [0..<n]"

lemma regular_ticks_Suc:
  "regular_ticks t1 timeout (Suc n) = regular_ticks t1 timeout n @ [WatchTick (t1 + int n * checkInterval timeout)]"
  by (simp add: regular_ticks_def)

lemma stitch_run_snoc: "stitch_run (evs @ [ev]) s = stitch_step ev (stitch_run evs s)"
  by (simp add: stitch_run_def)

lemma checkInterval_bounds:
  "0 < checkInterval timeout" "20 * 1000000 \<le> timeout \<Longrightarrow> 2 * checkInterval timeout \<le> timeout"
  by (auto simp: checkInterval_def Let_def)

lemma early_ticks:
  assumes "\<forall>k<n. t1 + int k * checkInterval (st_timeout s) - st_lastActive s < st_timeout s"
  shows "stitch_run (regular_ticks t1 (st_timeout s) n) s = s"
  using assms
proof (induction n)
  case 0
  then show ?case by (simp add: regular_ticks_def stitch_run_def)
next
  case (Suc n)
  then show ?case
    by (auto simp: regular_ticks_Suc stitch_run_snoc watch_tick_def)
qed

text \<open>
  A circuit that goes silent is closed in time and not before. From any state that is still watched, with the ticker firing
  regularly and nothing read any more, there is a tick before which nothing changes and at which both connections are closed; it comes
  no earlier than the idle timeout after the last read, and less than a check interval later, which is within half the timeout
  as documented for timeouts of at least 20 ms.
\<close>

theorem idle_circuit_reaped:
  assumes "st_watching s" "t1 \<le> st_lastActive s + st_timeout s"
  shows "\<exists>n. let t = t1 + int n * checkInterval (st_timeout s);
               s' = stitch_run (regular_ticks t1 (st_timeout s) (Suc n)) s in
     stitch_run (regular_ticks t1 (st_timeout s) n) s = s \<and> st_closedA s' \<and> st_closedB s' \<and> \<not> st_watching s' \<and>
     st_lastActive s + st_timeout s \<le> t \<and> t < st_lastActive s + st_timeout s + checkInterval (st_timeout s) \<and>
     (20 * 1000000 \<le> st_timeout s \<longrightarrow> 2 * (t - st_lastActive s) < 3 * st_timeout s)"
proof -
  let ?c = "checkInterval (st_timeout s)" let ?due = "st_lastActive s + st_timeout s"
  define P where "P n \<longleftrightarrow> ?due \<le> t1 + int n * ?c" for n
  have c: "0 < ?c" by (rule checkInterval_bounds)
  have "P (nat (?due - t1))"
  proof -
    have "?due - t1 \<le> (?due - t1) * ?c"
      using assms(2) c by (simp add: mult_le_cancel_left1)
    with assms(2) show ?thesis by (simp add: P_def)
  qed
  then have P: "P (LEAST n. P n)" by (rule LeastI)
  have least: "\<And>k. k < (LEAST n. P n) \<Longrightarrow> \<not> P k" by (rule not_less_Least)
  define n where "n = (LEAST n. P n)"
  have before: "\<forall>k<n. t1 + int k * ?c - st_lastActive s < st_timeout s"
    using least unfolding P_def n_def by (simp add: not_le algebra_simps)
  have at: "?due \<le> t1 + int n * ?c"
    using P by (simp add: n_def P_def)
  have late: "t1 + int n * ?c < ?due + ?c"
  proof (cases n)
    case 0
    then show ?thesis using assms(2) c by simp
  next
    case (Suc k)
    then show ?thesis using before [rule_format, of k] by (simp add: algebra_simps)
  qed
  have half: "2 * (t1 + int n * ?c - st_lastActive s) < 3 * st_timeout s" if "20 * 1000000 \<le> st_timeout s"
  proof -
    have "2 * (t - st_lastActive s) < 3 * st_timeout s" if "t < ?due + ?c" for t
      using that checkInterval_bounds(2) [OF \<open>20 * 1000000 \<le> st_timeout s\<close>] by (simp add: algebra_simps)
    with late show ?thesis by blast
  qed
  show ?thesis
    using early_ticks [OF before] assms(1) at late half
    by (intro exI [of _ n]) (simp add: Let_def regular_ticks_Suc stitch_run_snoc watch_tick_def)
qed

theorem idle_circuit_reaped_witness:
  "\<exists>n. st_closedA (stitch_run (regular_ticks 30000000000 DefaultIdleTimeout n) (StitchWithTimeout 0 DefaultIdleTimeout True))"
proof -
  have "st_watching (StitchWithTimeout 0 DefaultIdleTimeout True)"
    "30000000000 \<le> st_lastActive (StitchWithTimeout 0 DefaultIdleTimeout True) + st_timeout (StitchWithTimeout 0 DefaultIdleTimeout True)"
    by (simp_all add: StitchWithTimeout_def DefaultIdleTimeout_def)
  from idle_circuit_reaped [OF this] show ?thesis
    by (auto simp: Let_def StitchWithTimeout_def)
qed

end
