(* ===== verification/HostText.thy ===== *)
theory HostText
  imports GoText "HOL-Library.Sublist"
begin

text \<open>
  More of \<open>strings\<close> and \<open>math\<close>, as the tools use it that read the texts of the kernel: fields, cutting at a separator, prefixes and
  suffixes, and kilobytes as megabytes with one decimal.
\<close>

section \<open>Cutting texts\<close>

text \<open>\<open>strings.Fields\<close>: the maximal runs without white space.\<close>

fun text_fields :: "string \<Rightarrow> string list" where
  "text_fields [] = []"
| "text_fields (c # s) =
     (if is_space c then text_fields s
      else case s of
             [] \<Rightarrow> [[c]]
           | d # _ \<Rightarrow> if is_space d then [c] # text_fields s
                      else (case text_fields s of [] \<Rightarrow> [[c]] | w # ws \<Rightarrow> (c # w) # ws))"

text \<open>\<open>strings.SplitN(s, sep, 2)\<close> and \<open>strings.Cut\<close> for one byte: the parts around the first separator, \<open>None\<close> without one.\<close>

definition cut :: "char \<Rightarrow> string \<Rightarrow> (string \<times> string) option" where
  "cut c s = map_option (\<lambda>i. (take i s, drop (Suc i) s)) (index_byte s c)"

definition trim_suffix :: "string \<Rightarrow> string \<Rightarrow> string" where
  "trim_suffix suf s = (if suffix suf s then take (length s - length suf) s else s)"

definition trim_prefix :: "string \<Rightarrow> string \<Rightarrow> string" where
  "trim_prefix pre s = (if prefix pre s then drop (length pre) s else s)"

definition contains :: "string \<Rightarrow> string \<Rightarrow> bool" where
  "contains s sub \<longleftrightarrow> str_index s sub \<noteq> None"

definition last_index_byte :: "string \<Rightarrow> char \<Rightarrow> nat option" where
  "last_index_byte s c = map_option (\<lambda>i. length s - 1 - i) (index_byte (rev s) c)"

definition text_lines :: "string \<Rightarrow> string list" where
  "text_lines s = split_on (CHR 0x0A) s"

text \<open>
  The value \<open>strconv.Atoi\<close> returns beside its error: 0 for what is no number, the nearest end of the range for what is
  too large.
\<close>

definition atoi_value :: "string \<Rightarrow> int" where
  "atoi_value s =
     (let neg = (s \<noteq> [] \<and> hd s = CHR ''-'');
          ds = (if s \<noteq> [] \<and> (hd s = CHR ''-'' \<or> hd s = CHR ''+'') then tl s else s);
          v = (if neg then - dec_val ds else dec_val ds)
      in if ds = [] \<or> \<not> list_all is_digit ds then 0
         else if v < - (2 ^ 63) then - (2 ^ 63) else if max_int < v then max_int else v)"

lemma cut_append: "c \<notin> set a \<Longrightarrow> cut c (a @ c # b) = Some (a, b)"
  by (simp add: cut_def index_byte_append)

lemma cut_None: "c \<notin> set s \<Longrightarrow> cut c s = None"
  by (simp add: cut_def index_byte_None)

lemma trim_suffix_append [simp]: "trim_suffix suf (s @ suf) = s"
  by (simp add: trim_suffix_def suffix_def)

lemma fields_word: "w \<noteq> [] \<Longrightarrow> (\<And>c. c \<in> set w \<Longrightarrow> \<not> is_space c) \<Longrightarrow> text_fields w = [w]"
proof (induction w)
  case (Cons c w)
  show ?case
  proof (cases w)
    case (Cons d v)
    with Cons.IH Cons.prems show ?thesis by simp
  qed (use Cons.prems in simp)
qed simp

lemma fields_append:
  "w \<noteq> [] \<Longrightarrow> (\<And>c. c \<in> set w \<Longrightarrow> \<not> is_space c) \<Longrightarrow> is_space x \<Longrightarrow> text_fields (w @ x # s) = w # text_fields s"
proof (induction w)
  case (Cons c w)
  show ?case
  proof (cases w)
    case (Cons d v)
    with Cons.IH Cons.prems show ?thesis by simp
  qed (use Cons.prems in simp)
qed simp

lemma fields_words:
  "(\<And>w. w \<in> set ws \<Longrightarrow> w \<noteq> [] \<and> (\<forall>c \<in> set w. \<not> is_space c)) \<Longrightarrow> text_fields (join '' '' ws) = ws"
proof (induction ws)
  case (Cons w ws)
  have sp: "is_space CHR '' ''" by (simp add: is_space_def)
  have ih: "text_fields (join '' '' ws) = ws"
    by (rule Cons.IH) (use Cons.prems in auto)
  show ?case
  proof (cases ws)
    case Nil
    with Cons.prems show ?thesis by (simp add: fields_word)
  next
    case (Cons v vs)
    have "w \<noteq> []" "\<And>c. c \<in> set w \<Longrightarrow> \<not> is_space c"
      using Cons.prems [of w] by auto
    from fields_append [OF this sp, of "join '' '' ws"] ih Cons
    show ?thesis by simp
  qed
qed simp

section \<open>Numbers and first occurrences\<close>

lemma itoa_nonneg_digits: "0 \<le> n \<Longrightarrow> itoa n = itoa_nat (nat n)"
  by (simp add: itoa_def)

lemma itoa_chars: "c \<in> set (itoa n) \<Longrightarrow> is_digit c \<or> c = CHR ''-''"
  using itoa_nat_digits by (auto simp: itoa_def list_all_iff split: if_splits)

lemma not_in_itoa: "\<not> is_digit c \<Longrightarrow> c \<noteq> CHR ''-'' \<Longrightarrow> c \<notin> set (itoa n)"
  using itoa_chars by blast

lemma itoa_no_space:
  assumes "c \<in> set (itoa n)"
  shows "\<not> is_space c"
  using itoa_chars [OF assms]
proof
  assume "c = CHR ''-''"
  then show ?thesis by (simp add: is_space_def)
qed (rule is_digit_not_space)

lemma itoa_nonempty [simp]: "itoa n \<noteq> []"
  by (simp add: itoa_def)

lemma atoi_itoa: "0 \<le> n \<Longrightarrow> n \<le> max_int \<Longrightarrow> atoi (itoa n) = Some n"
  by (simp add: itoa_nonneg_digits atoi_itoa_nat)

lemma trim_suffix_absent: "suf \<noteq> [] \<Longrightarrow> last suf \<notin> set s \<Longrightarrow> trim_suffix suf s = s"
  by (auto simp: trim_suffix_def suffix_def)

lemma str_index_first:
  assumes "str_index a (c # t) = None" "c \<notin> set t"
  shows "str_index (a @ (c # t) @ b) (c # t) = Some (length a)"
  using assms(1)
proof (induction a)
  case Nil
  then show ?case by simp
next
  case (Cons x a)
  have np: "\<not> prefix (c # t) (x # a @ (c # t) @ b)"
  proof
    assume p: "prefix (c # t) (x # a @ (c # t) @ b)"
    have "\<not> prefix (c # t) (x # a)"
      using Cons.prems by (auto split: if_splits)
    with p have l: "length (x # a) < length (c # t)"
      by (metis append_Cons linorder_not_le prefix_length_prefix prefixI)
    have "(c # t) ! length (x # a) = (x # a @ (c # t) @ b) ! length (x # a)"
      using p l by (metis prefix_def nth_append)
    also have "\<dots> = c" by (simp add: nth_append)
    finally have "t ! length a = c" by simp
    moreover have "length a < length t" using l by simp
    ultimately show False using assms(2) nth_mem by blast
  qed
  from Cons.prems have "str_index a (c # t) = None"
    by (auto split: if_splits)
  with Cons.IH np show ?case by simp
qed

section \<open>Megabytes with one decimal\<close>

text \<open>
  \<open>math.Round(float64(kb)/1024.0*10) / 10\<close> as a sign and a number of tenths, rounded half away from zero. The
  floating-point computation is exact up to the last division for fewer than \<open>2 ^ 49\<close> kilobytes, as the quotient by a power of two and its
  tenfold have at most 53 bits; that division gives the number nearest to the decimal, which \<open>encoding/json\<close>
  prints with the digits of the tenths.
\<close>

definition kbToMB :: "int \<Rightarrow> bool \<times> nat" where
  "kbToMB kb = (kb < 0, (nat \<bar>kb\<bar> * 10 + 512) div 1024)"

fun tenths_text :: "bool \<times> nat \<Rightarrow> string" where
  "tenths_text (neg, n) =
     (if neg then ''-'' else []) @ itoa_nat (n div 10) @ (if n mod 10 = 0 then [] else ''.'' @ itoa_nat (n mod 10))"

end
