(* ===== verification/JsonWrite.thy ===== *)
theory JsonWrite
  imports JsonDecode HostText
begin

text \<open>
  What the writers of \<^theory_text>\<open>GoJson\<close> produce is read back as it was: \<open>json_reads t v\<close> says that the text \<open>t\<close> is read as the value \<open>v\<close>
  wherever it stands in a larger text. The lemmas compose as the writers do, so that a text made of them is
  JSON and its members are found.
\<close>

definition delim :: "string \<Rightarrow> bool" where
  "delim s \<longleftrightarrow> (case s of [] \<Rightarrow> True | c # _ \<Rightarrow> c = CHR '','' \<or> c = CHR 0x5D \<or> c = CHR 0x7D)"

definition json_reads :: "string \<Rightarrow> json \<Rightarrow> bool" where
  "json_reads t v \<longleftrightarrow>
     skip_ws t = t \<and> t \<noteq> [] \<and> hd t \<noteq> CHR 0x5D \<and> hd t \<noteq> CHR 0x7D \<and>
     (\<forall>s n. 2 * length (t @ s) < n \<longrightarrow> delim s \<longrightarrow> parse_value n (t @ s) = Some (v, s))"

lemma skip_head: "skip_ws (t @ s) = t @ s" if "skip_ws t = t" "t \<noteq> []"
proof -
  obtain c u where t: "t = c # u" using \<open>t \<noteq> []\<close> by (cases t) auto
  have "\<not> json_space c"
  proof
    assume "json_space c"
    then have "skip_ws t = skip_ws u" by (simp add: t)
    moreover have "length (skip_ws u) \<le> length u" by (rule dropWhile_shorter)
    ultimately show False using \<open>skip_ws t = t\<close> by (simp add: t)
  qed
  then show ?thesis by (simp add: t)
qed

lemma json_readsD:
  "json_reads t v \<Longrightarrow> 2 * length (t @ s) < n \<Longrightarrow> delim s \<Longrightarrow> parse_value n (t @ s) = Some (v, s)"
  "json_reads t v \<Longrightarrow> skip_ws (t @ s) = t @ s"
  "json_reads t v \<Longrightarrow> t \<noteq> [] \<and> hd t \<noteq> CHR 0x5D \<and> hd t \<noteq> CHR 0x7D"
  by (auto simp: json_reads_def skip_head)

lemma json_reads_parse: "json_reads t v \<Longrightarrow> json_parse t = Some v"
  using json_readsD(1) [of t v "[]" "Suc (2 * length t)"] by (simp add: json_parse_def delim_def)

lemma reads_intro:
  assumes "t = c # u" "\<not> json_space c" "c \<noteq> CHR 0x5D" "c \<noteq> CHR 0x7D"
    "\<And>s n. 2 * length (t @ s) < Suc n \<Longrightarrow> delim s \<Longrightarrow> parse_value (Suc n) (t @ s) = Some (v, s)"
  shows "json_reads t v"
  unfolding json_reads_def
proof (intro conjI allI impI)
  fix s n
  assume "2 * length (t @ s) < n" "delim s"
  then show "parse_value n (t @ s) = Some (v, s)" using assms(5) [of s "n - 1"] by (cases n) simp_all
qed (use assms(1-4) in simp_all)

lemma string_body_any: "string_body (json_char c @ s) = map_option (apfst (Cons c)) (string_body s)"
proof (cases "(of_char c :: nat) < 128")
  case False
  have "\<not> html_char c" using False by (auto simp: html_char_def)
  moreover have c: "c \<noteq> CHR 0x22 \<and> c \<noteq> CHR 0x5C" using False by auto
  moreover have "c \<noteq> CHR 0x08 \<and> c \<noteq> CHR 0x0C \<and> c \<noteq> CHR 0x0A \<and> c \<noteq> CHR 0x0D \<and> c \<noteq> CHR 0x09" using False by auto
  ultimately have "json_char c = [c]" using False by (simp add: json_char_def)
  moreover have "\<not> (of_char c :: nat) < 32" using False by simp
  ultimately show ?thesis using c by (simp only: append.simps string_body.simps(2) if_False simp_thms)
qed (rule string_body_char)

lemma string_body_written: "string_body (concat (map json_char t) @ CHR 0x22 # s) = Some (t, s)"
  by (induction t) (simp_all add: string_body_any)

lemma reads_string: "json_reads (json_string t) (JString t)"
  by (rule reads_intro [of _ "CHR 0x22"])
    (auto simp: json_string_def json_space_def parse_value.simps(2) string_body_written)

lemma reads_bool: "json_reads (json_bool b) (JBool b)"
  by (rule reads_intro [of _ "if b then CHR ''t'' else CHR ''f''" "if b then ''rue'' else ''alse''"])
    (auto simp: json_bool_def json_space_def parse_value.simps(2) parse_word_def)

lemma reads_null: "json_reads ''null'' JNull"
  by (rule reads_intro [of _ "CHR ''n''" "''ull''"])
    (auto simp: json_space_def parse_value.simps(2) parse_word_def)

lemma takeWhile_digits: "list_all is_digit w \<Longrightarrow> (s = [] \<or> \<not> is_digit (hd s)) \<Longrightarrow> takeWhile is_digit (w @ s) = w \<and> dropWhile is_digit (w @ s) = s"
  by (induction w) (cases s, auto)+

lemma delim_head: "delim s \<Longrightarrow> s = [] \<or> hd s \<in> {CHR '','', CHR 0x5D, CHR 0x7D}"
  by (cases s) (auto simp: delim_def)

lemma number_nat:
  assumes "delim s"
  shows "number_int (itoa_nat n @ s) = Some (itoa_nat n, s)" "number_frac s = Some ([], s)" "number_exp s = Some ([], s)"
proof -
  have d: "s = [] \<or> \<not> is_digit (hd s)" using delim_head [OF assms] by (auto simp: is_digit_def)
  note tw = takeWhile_digits [OF itoa_nat_digits d, of n]
  obtain c u where w: "itoa_nat n = c # u" by (cases "itoa_nat n") auto
  have c: "is_digit c" using itoa_nat_digits [of n] by (simp add: w)
  show "number_int (itoa_nat n @ s) = Some (itoa_nat n, s)"
  proof (cases "c = CHR ''0''")
    case True
    then have "n = 0" using itoa_nat_hd_zero [of n] by (simp add: w)
    then have "length (c # u) = 1" using length_itoa_nat_0 w by metis
    then have "u = []" by simp
    then show ?thesis using True by (simp add: number_int_def w)
  next
    case False
    then show ?thesis using tw c by (simp add: number_int_def w)
  qed
  show "number_frac s = Some ([], s)" "number_exp s = Some ([], s)"
    using delim_head [OF assms] by (cases s; auto simp: number_frac_def number_exp_def)+
qed

lemma parse_number_itoa: "delim s \<Longrightarrow> parse_number (itoa n @ s) = Some (JNumber (itoa n), s)"
proof -
  assume d: "delim s"
  show ?thesis
  proof (cases "n < 0")
    case True
    then show ?thesis by (simp add: itoa_def parse_number_def number_nat [OF d])
  next
    case False
    obtain c u where w: "itoa_nat (nat n) = c # u" by (cases "itoa_nat (nat n)") auto
    have "is_digit c" using itoa_nat_digits [of "nat n"] by (simp add: w)
    then have "c \<noteq> CHR ''-''" by auto
    then have "(case itoa_nat (nat n) @ s of c # t \<Rightarrow> if c = CHR ''-'' then ([c], t) else ([], itoa_nat (nat n) @ s) | [] \<Rightarrow> ([], []))
        = ([], itoa_nat (nat n) @ s)" by (simp add: w)
    then show ?thesis using False number_nat [OF d] by (simp add: itoa_def parse_number_def)
  qed
qed

lemma reads_int: "json_reads (itoa n) (JNumber (itoa n))"
proof -
  obtain c u where w: "itoa n = c # u" by (cases "itoa n") auto
  have c: "is_digit c \<or> c = CHR ''-''" using itoa_chars [of c n] by (simp add: w)
  then have "\<not> json_space c" "c \<noteq> CHR 0x5D" "c \<noteq> CHR 0x7D" "c \<noteq> CHR 0x22" "c \<noteq> CHR 0x7B" "c \<noteq> CHR 0x5B"
    "c \<noteq> CHR ''t''" "c \<noteq> CHR ''f''" "c \<noteq> CHR ''n''"
    by (auto simp: is_digit_def json_space_def)
  then show ?thesis
    using parse_number_itoa [of _ n]
    by (intro reads_intro [OF w]) (simp_all add: parse_value.simps(2) w)
qed

section \<open>Arrays and objects\<close>

lemma delim_Cons: "delim (CHR '','' # s)" "delim (CHR 0x5D # s)" "delim (CHR 0x7D # s)"
  by (simp_all add: delim_def)

lemma parse_elems_join:
  "list_all2 json_reads ts vs \<Longrightarrow> ts \<noteq> [] \<Longrightarrow> 2 * length (join '','' ts @ CHR 0x5D # s) + 1 < n \<Longrightarrow>
   parse_elems n (join '','' ts @ CHR 0x5D # s) = Some (vs, s)"
proof (induction ts vs arbitrary: n rule: list_all2_induct)
  case (Cons t ts v vs)
  obtain n' where n: "n = Suc n'" using Cons.prems(2) by (cases n) auto
  show ?case
  proof (cases "ts = []")
    case True
    then have "vs = []" using Cons.hyps(2) by simp
    have "parse_value n' (t @ CHR 0x5D # s) = Some (v, CHR 0x5D # s)"
      using Cons.prems(2) True by (intro json_readsD(1) [OF Cons.hyps(1)]) (simp_all add: n delim_Cons)
    then show ?thesis using True \<open>vs = []\<close> by (simp add: n parse_elems.simps(2) json_space_def)
  next
    case False
    let ?r = "join '','' ts @ CHR 0x5D # s"
    have j: "join '','' (t # ts) @ CHR 0x5D # s = t @ CHR '','' # ?r" using False by (simp add: join_Cons)
    have "parse_value n' (t @ CHR '','' # ?r) = Some (v, CHR '','' # ?r)"
      using Cons.prems(2) unfolding j by (intro json_readsD(1) [OF Cons.hyps(1)]) (simp_all add: n delim_Cons)
    moreover have "parse_elems n' ?r = Some (vs, s)"
      using Cons.prems(2) False unfolding j by (intro Cons.IH) (simp_all add: n)
    ultimately show ?thesis unfolding j by (simp add: n parse_elems.simps(2) json_space_def)
  qed
qed simp

lemma join_head:
  assumes "list_all2 json_reads ts vs" "ts \<noteq> []"
  shows "\<exists>c u. join '','' ts @ s = c # u \<and> \<not> json_space c \<and> c \<noteq> CHR 0x5D"
proof -
  obtain t us where ts: "ts = t # us" using \<open>ts \<noteq> []\<close> by (cases ts) auto
  then obtain v where v: "json_reads t v" using assms(1) by (auto simp: list_all2_Cons1)
  obtain c u where t: "t = c # u" using json_readsD(3) [OF v] by (cases t) auto
  have "\<not> json_space c" using json_readsD(2) [OF v, of "[]"] dropWhile_shorter [of json_space u] by (auto simp: t split: if_splits)
  moreover have "c \<noteq> CHR 0x5D" using json_readsD(3) [OF v] by (simp add: t)
  moreover have "\<exists>w. join '','' ts @ s = c # w" by (cases "us = []") (simp_all add: ts t join_Cons)
  ultimately show ?thesis by blast
qed

lemma reads_array:
  assumes "list_all2 json_reads ts vs"
  shows "json_reads (json_array ts) (JArray vs)"
proof (rule reads_intro [of _ "CHR 0x5B" "join '','' ts @ [CHR 0x5D]"])
  fix s n
  assume room: "2 * length (json_array ts @ s) < Suc n"
  show "parse_value (Suc n) (json_array ts @ s) = Some (JArray vs, s)"
  proof (cases "ts = []")
    case True
    then have "vs = []" using assms by simp
    then show ?thesis using True by (simp add: json_array_def parse_value.simps(2) json_space_def)
  next
    case False
    obtain c u where h: "join '','' ts @ CHR 0x5D # s = c # u" "\<not> json_space c" "c \<noteq> CHR 0x5D"
      using join_head [OF assms False] by blast
    have "parse_elems n (join '','' ts @ CHR 0x5D # s) = Some (vs, s)"
      using room by (intro parse_elems_join [OF assms False]) (simp add: json_array_def)
    then show ?thesis using h by (simp add: json_array_def parse_value.simps(2) json_space_def)
  qed
qed (simp_all add: json_array_def json_space_def)

definition field_text :: "string \<times> string \<Rightarrow> string" where
  "field_text f = json_string (fst f) @ '':'' @ snd f"

lemma json_object_fields: "json_object fs = CHR 0x7B # join '','' (map field_text fs) @ [CHR 0x7D]"
proof -
  have "field_text = (\<lambda>(k, v). json_string k @ '':'' @ v)" by (auto simp: field_text_def fun_eq_iff)
  then show ?thesis by (simp only: json_object_def)
qed

definition members_read :: "(string \<times> string) list \<Rightarrow> json list \<Rightarrow> (string \<times> string \<times> json) list" where
  "members_read fs vs = map (\<lambda>((k, t), v). (k, t, v)) (zip fs vs)"

lemma members_read_simps [simp]:
  "members_read [] vs = []" "members_read (f # fs) (v # vs) = (fst f, snd f, v) # members_read fs vs"
  by (simp_all add: members_read_def case_prod_beta)

lemma text_before_value: "json_reads t v \<Longrightarrow> text_before (t @ s) s = t"
  by (simp add: text_before_def json_readsD(2))

lemma parse_members_join:
  "list_all2 (\<lambda>f. json_reads (snd f)) fs vs \<Longrightarrow> fs \<noteq> [] \<Longrightarrow> 2 * length (join '','' (map field_text fs) @ CHR 0x7D # s) < n \<Longrightarrow>
   parse_members n (join '','' (map field_text fs) @ CHR 0x7D # s) = Some (members_read fs vs, s)"
proof (induction fs vs arbitrary: n rule: list_all2_induct)
  case (Cons f fs v vs)
  obtain n' where n: "n = Suc n'" using Cons.prems(2) by (cases n) auto
  obtain k t where f: "f = (k, t)" by (cases f)
  have t: "json_reads t v" using Cons.hyps(1) f by simp
  define r where "r = (if fs = [] then CHR 0x7D # s else CHR '','' # join '','' (map field_text fs) @ CHR 0x7D # s)"
  have j: "join '','' (map field_text (f # fs)) @ CHR 0x7D # s =
      CHR 0x22 # concat (map json_char k) @ CHR 0x22 # CHR '':'' # t @ r"
    by (simp add: join_Cons field_text_def f json_string_def r_def)
  have room: "2 * length (t @ r) < n'" using Cons.prems(2) unfolding j n by simp
  have v: "parse_value n' (t @ r) = Some (v, r)"
    by (rule json_readsD(1) [OF t room]) (simp add: delim_Cons r_def)
  note body = string_body_written [of k "CHR '':'' # t @ r"]
  have head: "parse_members n (join '','' (map field_text (f # fs)) @ CHR 0x7D # s) =
      (case skip_ws r of
         [] \<Rightarrow> None
       | d # u \<Rightarrow>
           if d = CHR 0x7D then Some ([(k, text_before (t @ r) r, v)], u)
           else if d = CHR '','' then map_option (apfst (Cons (k, text_before (t @ r) r, v))) (parse_members n' u) else None)"
    unfolding j n parse_members.simps(2)
    using v body by (simp add: json_space_def)
  show ?case
  proof (cases "fs = []")
    case True
    then have "vs = []" using Cons.hyps(2) by simp
    then show ?thesis unfolding head using True f by (simp add: json_space_def r_def text_before_value [OF t])
  next
    case False
    have "parse_members n' (join '','' (map field_text fs) @ CHR 0x7D # s) = Some (members_read fs vs, s)"
      using Cons.prems(2) False unfolding j n by (intro Cons.IH) (simp_all add: r_def)
    then show ?thesis unfolding head using False f by (simp add: json_space_def r_def text_before_value [OF t])
  qed
qed simp

lemma reads_object:
  assumes "list_all2 (\<lambda>f. json_reads (snd f)) fs vs"
  shows "json_reads (json_object fs) (JObject (members_read fs vs))"
proof (rule reads_intro [of _ "CHR 0x7B" "join '','' (map field_text fs) @ [CHR 0x7D]"])
  fix s n
  assume room: "2 * length (json_object fs @ s) < Suc n"
  show "parse_value (Suc n) (json_object fs @ s) = Some (JObject (members_read fs vs), s)"
  proof (cases fs)
    case Nil
    then show ?thesis using assms by (simp add: json_object_fields parse_value.simps(2) json_space_def)
  next
    case (Cons f gs)
    then have h: "\<exists>u. join '','' (map field_text fs) = CHR 0x22 # u"
      by (cases "gs = []") (simp_all add: field_text_def json_string_def join_Cons)
    have "parse_members n (join '','' (map field_text fs) @ CHR 0x7D # s) = Some (members_read fs vs, s)"
      using room Cons by (intro parse_members_join [OF assms]) (simp_all add: json_object_fields)
    then show ?thesis using h by (auto simp: json_object_fields parse_value.simps(2) json_space_def)
  qed
qed (simp_all add: json_object_fields json_space_def)

lemma reads_fields_Nil: "list_all2 (\<lambda>f. json_reads (snd f)) [] []"
  by simp

lemma reads_fields_Cons:
  "json_reads t v \<Longrightarrow> list_all2 (\<lambda>f. json_reads (snd f)) fs vs \<Longrightarrow> list_all2 (\<lambda>f. json_reads (snd f)) ((k, t) # fs) (v # vs)"
  by simp

lemmas reads_intros = reads_string reads_int reads_bool reads_null reads_object reads_array reads_fields_Nil reads_fields_Cons

text \<open>A member is found by its name.\<close>

lemma decode_found:
  "decode_member dec dflt name (JObject ms) =
     foldl (\<lambda>acc v. case acc of None \<Rightarrow> None | Some x \<Rightarrow> dec v x) (Some dflt) (map snd (filter (\<lambda>(k, raw, v). same_name k name) ms))"
  by (simp add: decode_member_def members_named_def)

section \<open>Compaction leaves it as it is\<close>

definition compacts :: "string \<Rightarrow> bool" where
  "compacts t \<longleftrightarrow> (\<forall>s. compact_text False (t @ s) = t @ compact_text False s)"

lemma compacts_append: "compacts a \<Longrightarrow> compacts b \<Longrightarrow> compacts (a @ b)"
  by (simp add: compacts_def)

lemma compacts_Nil: "compacts []"
  by (simp add: compacts_def)

lemma compacts_char: "\<not> json_space c \<Longrightarrow> \<not> html_char c \<Longrightarrow> c \<noteq> CHR 0x22 \<Longrightarrow> compacts (c # t) = compacts t"
  by (simp add: compacts_def)

lemma hex_digit_plain:
  "n < 16 \<Longrightarrow> \<not> html_char (hex_digit n) \<and> hex_digit n \<noteq> CHR 0x5C \<and> hex_digit n \<noteq> CHR 0x22"
proof -
  assume "n < 16"
  then have "of_char (hex_digit n) = (if n < 10 then 48 + n else 87 + n)" by (auto simp: hex_digit_def)
  then show ?thesis using \<open>n < 16\<close> by (auto simp: html_char_def split: if_splits)
qed

lemma compact_json_char: "compact_text True (json_char c @ s) = json_char c @ compact_text True s"
proof -
  have d: "of_char c div 16 < (16::nat)" "of_char c mod 16 < (16::nat)" using char_less_256 [of c] by (auto simp: less_mult_imp_div_less)
  have "compact_text True (unicode_escape c @ s) = unicode_escape c @ compact_text True s"
    using hex_digit_plain [OF d(1)] hex_digit_plain [OF d(2)] by (simp add: unicode_escape_def Let_def html_char_def)
  then show ?thesis by (auto simp: json_char_def html_char_def)
qed

lemma compacts_string: "compacts (json_string t)"
proof -
  have "compact_text True (concat (map json_char t) @ CHR 0x22 # s) = concat (map json_char t) @ CHR 0x22 # compact_text False s" for s
    by (induction t) (simp_all add: compact_json_char html_char_def)
  then show ?thesis by (simp add: compacts_def json_string_def html_char_def json_space_def)
qed

lemma compacts_plain: "(\<And>c. c \<in> set t \<Longrightarrow> \<not> json_space c \<and> \<not> html_char c \<and> c \<noteq> CHR 0x22) \<Longrightarrow> compacts t"
  by (induction t) (simp_all add: compacts_Nil compacts_char)

lemma compacts_int: "compacts (itoa n)"
proof (rule compacts_plain)
  fix c
  assume "c \<in> set (itoa n)"
  then have "is_digit c \<or> c = CHR ''-''" by (rule itoa_chars)
  then show "\<not> json_space c \<and> \<not> html_char c \<and> c \<noteq> CHR 0x22" by (auto simp: is_digit_def json_space_def html_char_def)
qed

lemma compacts_words: "compacts (json_bool b)" "compacts ''null''"
  by (auto intro!: compacts_plain simp: json_bool_def json_space_def html_char_def)

lemma compacts_join: "list_all compacts ts \<Longrightarrow> compacts (join '','' ts)"
proof (induction ts)
  case (Cons t ts)
  then show ?case
    by (cases "ts = []") (auto intro!: compacts_append simp: join_Cons compacts_char json_space_def html_char_def)
qed (simp add: compacts_Nil)

text \<open>\<open>json_written t v\<close>: the text is read as the value and is left alone by compaction.\<close>

definition json_written :: "string \<Rightarrow> json \<Rightarrow> bool" where
  "json_written t v \<longleftrightarrow> json_reads t v \<and> compacts t"

lemma written_string: "json_written (json_string t) (JString t)"
  by (simp add: json_written_def reads_string compacts_string)

lemma written_int: "json_written (itoa n) (JNumber (itoa n))"
  by (simp add: json_written_def reads_int compacts_int)

lemma written_bool: "json_written (json_bool b) (JBool b)"
  by (simp add: json_written_def reads_bool compacts_words)

lemma written_null: "json_written ''null'' JNull"
  by (simp add: json_written_def reads_null compacts_words)

lemma written_array:
  assumes "list_all2 json_written ts vs"
  shows "json_written (json_array ts) (JArray vs)"
proof -
  have "list_all2 json_reads ts vs" using assms by (rule list_all2_mono) (simp add: json_written_def)
  moreover have "list_all compacts ts" using assms by (induction rule: list_all2_induct) (simp_all add: json_written_def)
  ultimately show ?thesis
    using compacts_append [OF compacts_join [of ts] compacts_plain [of "[CHR 0x5D]"]] reads_array [of ts vs]
    by (simp add: json_written_def json_array_def compacts_char json_space_def html_char_def)
qed

lemma written_object:
  assumes "list_all2 (\<lambda>f. json_written (snd f)) fs vs"
  shows "json_written (json_object fs) (JObject (members_read fs vs))"
proof -
  have "list_all2 (\<lambda>f. json_reads (snd f)) fs vs" using assms by (rule list_all2_mono) (simp add: json_written_def)
  moreover have "list_all compacts (map field_text fs)"
    using assms
    by (induction rule: list_all2_induct)
      (auto simp: json_written_def field_text_def json_space_def html_char_def compacts_char intro!: compacts_append compacts_string)
  ultimately show ?thesis
    using compacts_append [OF compacts_join [of "map field_text fs"] compacts_plain [of "[CHR 0x7D]"]] reads_object [of fs vs]
    by (simp add: json_written_def json_object_fields compacts_char json_space_def html_char_def)
qed

lemma written_raw: "json_written t v \<Longrightarrow> json_raw t = Some t"
  using json_reads_parse [of t v] json_readsD(3) [of t v]
  by (auto simp: json_written_def json_raw_def json_valid_def compacts_def dest: spec [of _ "[]"])

lemma written_map: "(\<And>x. x \<in> set xs \<Longrightarrow> \<exists>v. json_written (f x) v) \<Longrightarrow> \<exists>vs. list_all2 json_written (map f xs) vs"
proof (induction xs)
  case (Cons x xs)
  then obtain v vs where "json_written (f x) v" "list_all2 json_written (map f xs) vs" by fastforce
  then show ?case by (auto intro!: exI [of _ "v # vs"])
qed auto

definition is_json :: "string \<Rightarrow> bool" where
  "is_json t \<longleftrightarrow> (\<exists>v. json_written t v)"

lemma is_json_string [simp]: "is_json (json_string t)"
  by (auto simp: is_json_def intro: written_string)

lemma is_json_int [simp]: "is_json (itoa n)"
  by (auto simp: is_json_def intro: written_int)

lemma is_json_bool [simp]: "is_json (json_bool b)"
  by (auto simp: is_json_def intro: written_bool)

lemma is_json_null [simp]: "is_json ''null''"
  by (auto simp: is_json_def intro: written_null)

lemma is_json_array [simp]: "list_all is_json ts \<Longrightarrow> is_json (json_array ts)"
proof -
  assume "list_all is_json ts"
  then have "\<exists>vs. list_all2 json_written (map (\<lambda>t. t) ts) vs" by (intro written_map) (auto simp: list_all_iff is_json_def)
  then show ?thesis by (auto simp: is_json_def intro: written_array)
qed

lemma is_json_object [simp]: "list_all (\<lambda>f. is_json (snd f)) fs \<Longrightarrow> is_json (json_object fs)"
proof -
  assume "list_all (\<lambda>f. is_json (snd f)) fs"
  then have "\<exists>vs. list_all2 json_written (map snd fs) vs" by (intro written_map) (auto simp: list_all_iff is_json_def)
  then show ?thesis by (auto simp: is_json_def list_all2_map1 intro: written_object)
qed

section \<open>Decimal numbers\<close>

definition decimal_text :: "bool \<Rightarrow> nat \<Rightarrow> string \<Rightarrow> string" where
  "decimal_text neg n fs = (if neg then ''-'' else []) @ itoa_nat n @ (if fs = [] then [] else ''.'' @ fs)"

lemma number_int_dot: "number_int (itoa_nat n @ CHR ''.'' # s) = Some (itoa_nat n, CHR ''.'' # s)"
proof -
  note tw = takeWhile_digits [OF itoa_nat_digits, of "CHR ''.'' # s" n, simplified]
  obtain c u where w: "itoa_nat n = c # u" by (cases "itoa_nat n") auto
  have c: "is_digit c" using itoa_nat_digits [of n] by (simp add: w)
  show ?thesis
  proof (cases "c = CHR ''0''")
    case True
    then have "n = 0" using itoa_nat_hd_zero [of n] by (simp add: w)
    then have "length (c # u) = 1" using length_itoa_nat_0 w by metis
    then have "u = []" by simp
    then show ?thesis using True by (simp add: number_int_def w)
  next
    case False
    then show ?thesis using tw c by (simp add: number_int_def w is_digit_def)
  qed
qed

lemma parse_number_decimal:
  assumes "delim s" "list_all is_digit fs"
  shows "parse_number (decimal_text neg n fs @ s) = Some (JNumber (decimal_text neg n fs), s)"
proof (cases "fs = []")
  case True
  then have t: "decimal_text neg n fs = (if neg then ''-'' else []) @ itoa_nat n" by (simp add: decimal_text_def)
  obtain c u where w: "itoa_nat n = c # u" by (cases "itoa_nat n") auto
  have "c \<noteq> CHR ''-''" using itoa_nat_digits [of n] by (auto simp: w is_digit_def)
  moreover have "number_int (c # u @ s) = Some (c # u, s)" using number_nat(1) [OF assms(1), of n] by (simp add: w)
  ultimately show ?thesis unfolding t w using number_nat(2,3) [OF assms(1)] by (simp add: parse_number_def)
next
  case False
  have dot: "number_frac (CHR ''.'' # fs @ s) = Some (CHR ''.'' # fs, s)" "number_exp s = Some ([], s)"
    using False takeWhile_digits [OF assms(2), of s] delim_head [OF assms(1)]
    by (cases s; auto simp: number_frac_def number_exp_def is_digit_def)+
  have "\<exists>c u. itoa_nat n = c # u \<and> c \<noteq> CHR ''-''"
    using itoa_nat_digits [of n] by (cases "itoa_nat n") (auto simp: is_digit_def)
  then show ?thesis
    using False number_int_dot [of n "fs @ s"] dot by (auto simp: decimal_text_def parse_number_def)
qed

lemma decimal_chars: "list_all is_digit fs \<Longrightarrow> c \<in> set (decimal_text neg n fs) \<Longrightarrow> is_digit c \<or> c = CHR ''-'' \<or> c = CHR ''.''"
  using itoa_nat_digits [of n] by (auto simp: decimal_text_def list_all_iff split: if_splits)

lemma written_decimal:
  assumes "list_all is_digit fs"
  shows "json_written (decimal_text neg n fs) (JNumber (decimal_text neg n fs))"
proof -
  have "decimal_text neg n fs \<noteq> []" by (cases "itoa_nat n") (auto simp: decimal_text_def)
  then obtain c u where w: "decimal_text neg n fs = c # u" by (cases "decimal_text neg n fs") auto
  have "is_digit c \<or> c = CHR ''-'' \<or> c = CHR ''.''" using decimal_chars [OF assms, of c neg n] by (simp add: w)
  then have "\<not> json_space c" "c \<noteq> CHR 0x5D" "c \<noteq> CHR 0x7D" "c \<noteq> CHR 0x22" "c \<noteq> CHR 0x7B" "c \<noteq> CHR 0x5B"
    "c \<noteq> CHR ''t''" "c \<noteq> CHR ''f''" "c \<noteq> CHR ''n''"
    by (auto simp: is_digit_def json_space_def)
  then have "json_reads (decimal_text neg n fs) (JNumber (decimal_text neg n fs))"
    using parse_number_decimal [OF _ assms, of _ neg n]
    by (intro reads_intro [OF w]) (simp_all add: parse_value.simps(2) w)
  moreover have "compacts (decimal_text neg n fs)"
    by (rule compacts_plain, drule decimal_chars [OF assms]) (auto simp: is_digit_def json_space_def html_char_def)
  ultimately show ?thesis by (simp add: json_written_def)
qed

lemma is_json_tenths [simp]: "is_json (tenths_text x)"
proof (cases x)
  case (Pair neg n)
  have "tenths_text x = decimal_text neg (n div 10) (if n mod 10 = 0 then [] else itoa_nat (n mod 10))"
    by (simp add: Pair decimal_text_def)
  moreover have "list_all is_digit (if n mod 10 = 0 then [] else itoa_nat (n mod 10))" by (simp add: itoa_nat_digits)
  ultimately show ?thesis unfolding is_json_def using written_decimal by metis
qed

end
