(* ===== verification/Lifecycle.thy ===== *)
theory Lifecycle
  imports Plugins HostText JsonWrite
begin

text \<open>
  Model of \<open>internal/registry/tools/lifecycle\<close>: the operations that install, remove, upgrade, restart and stop the service of a
  node, the tools that schedule them, and the socket that keeps a second instance out. An operation is a program of system calls
  (\<open>prog\<close>), so that it can be run against every outcome of every call and be cut off after any of them; a machine is its files, the
  commands it was given and the processes it killed. Paths are clean, and logging is left out.
\<close>

section \<open>System calls\<close>

datatype sysCall =
    SExecutable
  | SReadFile string
  | SMkdirAll string
  | STruncate string
  | SWrite string string
  | SRename string string
  | SRemove string
  | SRemoveAll string
  | SRun "string list"
  | SStart "string list"
  | SReadSocket string
  | SKill int

datatype sysResult = SFail string | SOk string

datatype prog = Return "string option" | Call sysCall "sysResult \<Rightarrow> prog"

primrec and_then :: "prog \<Rightarrow> (string option \<Rightarrow> prog) \<Rightarrow> prog" where
  "and_then (Return e) f = f e"
| "and_then (Call c k) f = Call c (\<lambda>r. and_then (k r) f)"

definition try_call :: "sysCall \<Rightarrow> (string \<Rightarrow> string) \<Rightarrow> (string \<Rightarrow> prog) \<Rightarrow> prog" where
  "try_call c wrap k = Call c (\<lambda>r. case r of SFail err \<Rightarrow> Return (Some (wrap err)) | SOk v \<Rightarrow> k v)"

definition path_dir :: "string \<Rightarrow> string" where
  "path_dir path =
     (case last_index_byte path CHR ''/'' of None \<Rightarrow> ''.'' | Some 0 \<Rightarrow> ''/'' | Some i \<Rightarrow> take i path)"

text \<open>\<open>os.WriteFile\<close> opens the file, which empties it, and then writes.\<close>

definition os_WriteFile :: "string \<Rightarrow> string \<Rightarrow> (string \<Rightarrow> string) \<Rightarrow> prog \<Rightarrow> prog" where
  "os_WriteFile path contents wrap k = try_call (STruncate path) wrap (\<lambda>_. try_call (SWrite path contents) wrap (\<lambda>_. k))"

section \<open>The machine\<close>

record machine =
  hm_files :: "string \<rightharpoonup> string"
  hm_commands :: "string list list"
  hm_killed :: "int list"

text \<open>The environment says which calls fail, what a failed write has written and a failed removal has removed.\<close>

record sysEnv =
  se_exe :: string
  se_socket :: "string \<Rightarrow> string option"
  se_fault :: "nat \<Rightarrow> string option"
  se_written :: "nat \<Rightarrow> nat"
  se_removed :: "nat \<Rightarrow> string \<Rightarrow> bool"

definition below :: "string \<Rightarrow> string \<Rightarrow> bool" where
  "below dir path \<longleftrightarrow> path = dir \<or> prefix (dir @ ''/'') path"

definition not_found :: string where "not_found = ''no such file or directory''"

fun perform :: "sysEnv \<Rightarrow> nat \<Rightarrow> sysCall \<Rightarrow> machine \<Rightarrow> sysResult \<times> machine" where
  "perform env i SExecutable m =
     (case se_fault env i of Some err \<Rightarrow> (SFail err, m) | None \<Rightarrow> (SOk (se_exe env), m))"
| "perform env i (SReadFile path) m =
     (case (se_fault env i, hm_files m path) of
        (None, Some contents) \<Rightarrow> (SOk contents, m)
      | (Some err, _) \<Rightarrow> (SFail err, m)
      | (None, None) \<Rightarrow> (SFail not_found, m))"
| "perform env i (SMkdirAll path) m = (case se_fault env i of Some err \<Rightarrow> (SFail err, m) | None \<Rightarrow> (SOk [], m))"
| "perform env i (STruncate path) m =
     (case se_fault env i of Some err \<Rightarrow> (SFail err, m) | None \<Rightarrow> (SOk [], m\<lparr>hm_files := (hm_files m)(path \<mapsto> [])\<rparr>))"
| "perform env i (SWrite path contents) m =
     (let before = (case hm_files m path of None \<Rightarrow> [] | Some t \<Rightarrow> t)
      in case se_fault env i of
           Some err \<Rightarrow> (SFail err, m\<lparr>hm_files := (hm_files m)(path \<mapsto> before @ take (se_written env i) contents)\<rparr>)
         | None \<Rightarrow> (SOk [], m\<lparr>hm_files := (hm_files m)(path \<mapsto> before @ contents)\<rparr>))"
| "perform env i (SRename src dest) m =
     (case (se_fault env i, hm_files m src) of
        (None, Some contents) \<Rightarrow> (SOk [], m\<lparr>hm_files := (hm_files m)(src := None, dest \<mapsto> contents)\<rparr>)
      | (Some err, _) \<Rightarrow> (SFail err, m)
      | (None, None) \<Rightarrow> (SFail not_found, m))"
| "perform env i (SRemove path) m =
     (case (se_fault env i, hm_files m path) of
        (None, Some contents) \<Rightarrow> (SOk [], m\<lparr>hm_files := (hm_files m)(path := None)\<rparr>)
      | (Some err, _) \<Rightarrow> (SFail err, m)
      | (None, None) \<Rightarrow> (SFail not_found, m))"
| "perform env i (SRemoveAll dir) m =
     (case se_fault env i of
        Some err \<Rightarrow> (SFail err, m\<lparr>hm_files := (\<lambda>path. if below dir path \<and> se_removed env i path then None else hm_files m path)\<rparr>)
      | None \<Rightarrow> (SOk [], m\<lparr>hm_files := (\<lambda>path. if below dir path then None else hm_files m path)\<rparr>))"
| "perform env i (SRun argv) m =
     (case se_fault env i of
        Some err \<Rightarrow> (SFail err, m\<lparr>hm_commands := hm_commands m @ [argv]\<rparr>)
      | None \<Rightarrow> (SOk [], m\<lparr>hm_commands := hm_commands m @ [argv]\<rparr>))"
| "perform env i (SStart argv) m =
     (case se_fault env i of
        Some err \<Rightarrow> (SFail err, m)
      | None \<Rightarrow> (SOk [], m\<lparr>hm_commands := hm_commands m @ [argv]\<rparr>))"
| "perform env i (SReadSocket name) m =
     (case (se_fault env i, se_socket env name) of
        (None, Some reply) \<Rightarrow> (SOk reply, m)
      | (Some err, _) \<Rightarrow> (SFail err, m)
      | (None, None) \<Rightarrow> (SFail ''connection refused'', m))"
| "perform env i (SKill pid) m =
     (case se_fault env i of
        Some err \<Rightarrow> (SFail err, m)
      | None \<Rightarrow> (SOk [], m\<lparr>hm_killed := hm_killed m @ [pid]\<rparr>))"

text \<open>
  A run of at most \<open>n\<close> calls: \<open>None\<close> when the program was cut off before it returned.
\<close>

fun run_prog :: "sysEnv \<Rightarrow> nat \<Rightarrow> nat \<Rightarrow> prog \<Rightarrow> machine \<Rightarrow> string option option \<times> machine" where
  "run_prog env n i (Return e) m = (Some e, m)"
| "run_prog env 0 i (Call c k) m = (None, m)"
| "run_prog env (Suc n) i (Call c k) m = (let (r, m') = perform env i c m in run_prog env n (Suc i) (k r) m')"

section \<open>Operations\<close>

definition defaultInstallPath :: string where "defaultInstallPath = ''/opt/cortex-mcp/bin/cortex-mcp''"

definition ServiceName :: string where "ServiceName = ''cortex-mcp''"

definition serviceUnitDir :: string where "serviceUnitDir = ''/etc/systemd/system''"

definition InstallRemotePath :: "string \<Rightarrow> string" where
  "InstallRemotePath custom = (if custom \<noteq> [] then custom else defaultInstallPath)"

definition serviceUnitPath :: string where
  "serviceUnitPath = serviceUnitDir @ ''/'' @ ServiceName @ ''.service''"

definition generateServiceUnit :: "string \<Rightarrow> string" where
  "generateServiceUnit binaryPath =
     concat (map (\<lambda>l. l @ [CHR 0x0A])
       [''[Unit]'', ''Description=Cortex Mesh Node'', ''After=network-online.target'', ''Wants=network-online.target'', [],
        ''[Service]'', ''Type=simple'', ''ExecStart='' @ binaryPath @ '' daemon'', ''Restart=on-failure'', ''RestartSec=5'',
        ''LimitNOFILE=65535'', [], ''[Install]'', ''WantedBy=multi-user.target''])"

record lifecycleOp =
  op_action :: string
  op_args :: string
  op_path :: string
  op_src :: string
  op_content :: string

definition op_of :: "string \<Rightarrow> lifecycleOp" where
  "op_of action = \<lparr>op_action = action, op_args = [], op_path = [], op_src = [], op_content = []\<rparr>"

definition SelfInstallOps :: "lifecycleOp list" where
  "SelfInstallOps =
     [(op_of ''copy_binary'')\<lparr>op_path := defaultInstallPath\<rparr>,
      (op_of ''write_file'')\<lparr>op_path := serviceUnitPath, op_content := generateServiceUnit defaultInstallPath\<rparr>,
      (op_of ''systemctl'')\<lparr>op_args := ''daemon-reload''\<rparr>,
      (op_of ''systemctl'')\<lparr>op_args := ''enable '' @ ServiceName\<rparr>,
      (op_of ''systemctl'')\<lparr>op_args := ''--no-block restart '' @ ServiceName\<rparr>]"

text \<open>The path of the running program is \<open>None\<close> when it cannot be found.\<close>

definition SelfUninstallOps :: "string option \<Rightarrow> lifecycleOp list" where
  "SelfUninstallOps exe =
     (let execPath = (case exe of None \<Rightarrow> ''/opt/cortex-mcp/bin/cortex-mcp'' | Some p \<Rightarrow> p)
      in [(op_of ''spawn_detached'')\<lparr>op_args := ''systemd-run --unit=cortex-mcp-cleanup '' @ execPath @ '' local-op uninstall''\<rparr>])"

definition lockName :: string where "lockName = ''@cortex-mcp-lock''"

definition DetachedUninstallOps :: "string option \<Rightarrow> lifecycleOp list" where
  "DetachedUninstallOps home =
     [(op_of ''systemctl'')\<lparr>op_args := ''stop '' @ ServiceName\<rparr>,
      (op_of ''systemctl'')\<lparr>op_args := ''disable '' @ ServiceName\<rparr>,
      (op_of ''remove_file'')\<lparr>op_path := serviceUnitPath\<rparr>,
      (op_of ''systemctl'')\<lparr>op_args := ''daemon-reload''\<rparr>,
      (op_of ''kill_abstract_socket'')\<lparr>op_path := lockName\<rparr>,
      (op_of ''remove_dir'')\<lparr>op_path := ''/opt/cortex-mcp''\<rparr>] @
     (case home of None \<Rightarrow> [] | Some h \<Rightarrow> [(op_of ''remove_dir'')\<lparr>op_path := h @ ''/.cortex-mcp''\<rparr>])"

definition nodeUpgradeOps :: "string \<Rightarrow> lifecycleOp list" where
  "nodeUpgradeOps srcPath =
     [(op_of ''copy_file'')\<lparr>op_src := srcPath, op_path := defaultInstallPath\<rparr>,
      (op_of ''systemctl'')\<lparr>op_args := ''daemon-reload''\<rparr>,
      (op_of ''systemctl'')\<lparr>op_args := ''--no-block restart '' @ ServiceName\<rparr>]"

fun splitSimple_loop :: "string list \<Rightarrow> string \<Rightarrow> string \<Rightarrow> string list" where
  "splitSimple_loop result current [] = (if current \<noteq> [] then result @ [current] else result)"
| "splitSimple_loop result current (c # s) =
     (if c = CHR '' '' then splitSimple_loop (result @ [current]) [] s else splitSimple_loop result (current @ [c]) s)"

definition splitSimple :: "string \<Rightarrow> string list" where
  "splitSimple s = splitSimple_loop [] [] s"

definition splitArgs :: "string \<Rightarrow> string list" where
  "splitArgs s = filter (\<lambda>part. part \<noteq> []) (splitSimple s)"

section \<open>The lock\<close>

record lockPayload =
  lp_pid :: int
  lp_path :: string

definition lockPayload_text :: "lockPayload \<Rightarrow> string" where
  "lockPayload_text p = json_object [(''pid'', itoa (lp_pid p)), (''path'', json_string (lp_path p))]"

text \<open>The sockets that are bound, each with what it serves.\<close>

definition AcquireLock :: "int \<Rightarrow> string \<Rightarrow> string \<Rightarrow> (string \<rightharpoonup> string) \<Rightarrow> bool \<times> (string \<rightharpoonup> string)" where
  "AcquireLock pid exePath socketName bound =
     (if bound socketName \<noteq> None then (False, bound)
      else (True, bound(socketName \<mapsto> lockPayload_text \<lparr>lp_pid = pid, lp_path = exePath\<rparr>)))"

definition decode_payload :: "string \<Rightarrow> lockPayload option" where
  "decode_payload t =
     do {
       j \<leftarrow> json_parse t;
       pid \<leftarrow> decode_member dec_int 0 ''pid'' j;
       path \<leftarrow> decode_member dec_string [] ''path'' j;
       Some \<lparr>lp_pid = pid, lp_path = path\<rparr>
     }"

text \<open>One read of at most 1024 bytes.\<close>

definition payload_of_reply :: "string \<Rightarrow> lockPayload option" where
  "payload_of_reply reply =
     (let buf = take 1024 reply
      in case decode_payload buf of
           Some p \<Rightarrow> Some p
         | None \<Rightarrow> map_option (\<lambda>pid. \<lparr>lp_pid = pid, lp_path = []\<rparr>) (atoi buf))"

definition KillLockedProcess :: "string \<Rightarrow> prog" where
  "KillLockedProcess socketName =
     try_call (SReadSocket socketName) (\<lambda>err. ''read payload from socket: '' @ err) (\<lambda>reply.
       case payload_of_reply reply of
         None \<Rightarrow> Return (Some ''read payload from socket: invalid payload'')
       | Some p \<Rightarrow>
           try_call (SKill (lp_pid p)) (\<lambda>err. ''kill process '' @ itoa (lp_pid p) @ '': '' @ err) (\<lambda>_.
             if lp_path p \<noteq> [] \<and> prefix ''/tmp/'' (lp_path p) then Call (SRemove (lp_path p)) (\<lambda>_. Return None)
             else Return None))"

section \<open>Executing operations\<close>

text \<open>The copy is written beside its destination and renamed over it; when that fails the copy is removed.\<close>

definition copy_over :: "string \<Rightarrow> string \<Rightarrow> string \<Rightarrow> prog" where
  "copy_over kind contents path =
     (let tmpPath = path @ ''.tmp''
      in try_call (SMkdirAll (path_dir path)) (\<lambda>err. ''mkdir path: '' @ err) (\<lambda>_.
           os_WriteFile tmpPath contents (\<lambda>err. ''write tmp '' @ kind @ '': '' @ err)
             (Call (SRename tmpPath path) (\<lambda>r. case r of
                SOk _ \<Rightarrow> Return None
              | SFail err \<Rightarrow> Call (SRemove tmpPath) (\<lambda>_. Return (Some (''rename tmp '' @ kind @ '': '' @ err)))))))"

definition ExecuteOp :: "lifecycleOp \<Rightarrow> prog" where
  "ExecuteOp op =
     (if op_action op = ''spawn_detached'' then
        try_call (SStart (splitArgs (op_args op))) (\<lambda>err. ''spawn_detached: '' @ err) (\<lambda>_. Return None)
      else if op_action op = ''systemctl'' then
        try_call (SRun (''systemctl'' # splitArgs (op_args op))) (\<lambda>err. err) (\<lambda>_. Return None)
      else if op_action op = ''write_file'' then
        try_call (SMkdirAll (path_dir (op_path op))) (\<lambda>err. ''mkdir path: '' @ err) (\<lambda>_.
          os_WriteFile (op_path op) (op_content op) (\<lambda>err. err) (Return None))
      else if op_action op = ''remove_file'' then try_call (SRemove (op_path op)) (\<lambda>err. err) (\<lambda>_. Return None)
      else if op_action op = ''remove_dir'' then try_call (SRemoveAll (op_path op)) (\<lambda>err. err) (\<lambda>_. Return None)
      else if op_action op = ''copy_binary'' then
        try_call SExecutable (\<lambda>err. ''resolve executable: '' @ err) (\<lambda>src.
          try_call (SReadFile src) (\<lambda>err. ''read binary: '' @ err) (\<lambda>contents. copy_over ''binary'' contents (op_path op)))
      else if op_action op = ''copy_file'' then
        try_call (SReadFile (op_src op)) (\<lambda>err. ''read source: '' @ err) (\<lambda>contents. copy_over ''file'' contents (op_path op))
      else if op_action op = ''kill_abstract_socket'' then
        and_then (KillLockedProcess (op_path op)) (\<lambda>_. Return None)
      else Return (Some (''unknown lifecycle action: '' @ op_action op)))"

fun ExecuteOps :: "lifecycleOp list \<Rightarrow> prog" where
  "ExecuteOps [] = Return None"
| "ExecuteOps (op # ops) =
     and_then (ExecuteOp op) (\<lambda>e. case e of
       None \<Rightarrow> ExecuteOps ops
     | Some err \<Rightarrow> Return (Some (op_action op @ '' '' @ op_args op @ '': '' @ err)))"

section \<open>The tools\<close>

text \<open>A call gives its answer at once, and what it has scheduled: the operations, and whether the process ends after them.\<close>

record scheduled =
  sd_ops :: "lifecycleOp list"
  sd_exits :: bool

definition not_scheduled :: scheduled where "not_scheduled = \<lparr>sd_ops = [], sd_exits = False\<rparr>"

definition omitempty :: "string \<Rightarrow> string \<Rightarrow> (string \<times> string) list" where
  "omitempty name v = (if v = [] then [] else [(name, json_string v)])"

definition op_text :: "lifecycleOp \<Rightarrow> string" where
  "op_text op =
     json_object ((''action'', json_string (op_action op)) # omitempty ''args'' (op_args op) @ omitempty ''path'' (op_path op) @
       omitempty ''src'' (op_src op) @ omitempty ''content'' (op_content op))"

definition status_word :: "bool \<Rightarrow> string" where
  "status_word liveMode = (if liveMode then ''scheduled'' else ''dry_run'')"

definition ops_answer :: "string \<Rightarrow> int \<Rightarrow> string \<Rightarrow> string \<Rightarrow> bool \<Rightarrow> lifecycleOp list \<Rightarrow> envelope" where
  "ops_answer timestamp elapsedMs name summary liveMode ops =
     (NewResult timestamp name StatusOK summary
        (Some (json_object [(''operations'', json_array (map op_text ops)), (''status'', json_string (status_word liveMode))])))
     \<lparr>ev_executionTimeMs := elapsedMs\<rparr>"

definition command_answer :: "string \<Rightarrow> int \<Rightarrow> string \<Rightarrow> string \<Rightarrow> bool \<Rightarrow> string \<Rightarrow> envelope" where
  "command_answer timestamp elapsedMs name summary liveMode cmd =
     (NewResult timestamp name StatusOK summary
        (Some (json_object [(''command'', json_string cmd), (''status'', json_string (status_word liveMode))])))
     \<lparr>ev_executionTimeMs := elapsedMs\<rparr>"

definition schedule :: "bool \<Rightarrow> lifecycleOp list \<Rightarrow> bool \<Rightarrow> scheduled" where
  "schedule liveMode ops exits = (if liveMode then \<lparr>sd_ops = ops, sd_exits = exits\<rparr> else not_scheduled)"

definition lifecycle_IsSupported :: "bool \<Rightarrow> bool \<times> string" where
  "lifecycle_IsSupported isLinux = (if isLinux then (True, []) else (False, ''lifecycle operations require linux''))"

definition install_Execute :: "string \<Rightarrow> int \<Rightarrow> bool \<Rightarrow> string + string \<Rightarrow> envelope \<times> scheduled" where
  "install_Execute timestamp elapsedMs liveMode exe =
     (case exe of
        Inl err \<Rightarrow> (reg_NewErrorResult timestamp ''node_install'' (''resolve executable: '' @ err), not_scheduled)
      | Inr _ \<Rightarrow>
          (ops_answer timestamp elapsedMs ''node_install'' ''scheduled install operations'' liveMode SelfInstallOps,
           schedule liveMode SelfInstallOps False))"

definition uninstall_ops :: "string \<Rightarrow> lifecycleOp list" where
  "uninstall_ops binaryPath =
     (if prefix defaultInstallPath binaryPath \<or> prefix ''/opt/'' binaryPath then SelfUninstallOps (Some binaryPath)
      else [(op_of ''kill_abstract_socket'')\<lparr>op_path := lockName\<rparr>])"

definition uninstall_Execute :: "string \<Rightarrow> int \<Rightarrow> bool \<Rightarrow> string + string \<Rightarrow> envelope \<times> scheduled" where
  "uninstall_Execute timestamp elapsedMs liveMode exe =
     (case exe of
        Inl err \<Rightarrow> (reg_NewErrorResult timestamp ''node_uninstall'' (''resolve executable: '' @ err), not_scheduled)
      | Inr binaryPath \<Rightarrow>
          (ops_answer timestamp elapsedMs ''node_uninstall'' ''scheduled uninstall operations'' liveMode (uninstall_ops binaryPath),
           schedule liveMode (uninstall_ops binaryPath) (\<not> prefix ''/opt/'' binaryPath)))"

definition restart_Execute :: "string \<Rightarrow> int \<Rightarrow> bool \<Rightarrow> envelope \<times> scheduled" where
  "restart_Execute timestamp elapsedMs liveMode =
     (let cmd = ''restart '' @ ServiceName
      in (command_answer timestamp elapsedMs ''node_restart'' ''scheduled restart operation'' liveMode cmd,
          schedule liveMode [(op_of ''systemctl'')\<lparr>op_args := cmd\<rparr>] False))"

definition stop_Execute :: "string \<Rightarrow> int \<Rightarrow> bool \<Rightarrow> envelope \<times> scheduled" where
  "stop_Execute timestamp elapsedMs liveMode =
     (let cmd = ''stop '' @ ServiceName
      in (command_answer timestamp elapsedMs ''node_stop'' ''scheduled stop operation'' liveMode cmd,
          schedule liveMode [(op_of ''systemctl'')\<lparr>op_args := cmd\<rparr>] False))"

definition upgrade_path :: "string \<Rightarrow> string option" where
  "upgrade_path args =
     (if args = [] then Some [] else Option.bind (json_parse args) (decode_member dec_string [] ''path''))"

definition upgrade_Execute :: "string \<Rightarrow> int \<Rightarrow> string \<Rightarrow> bool \<Rightarrow> string \<Rightarrow> envelope \<times> scheduled" where
  "upgrade_Execute timestamp elapsedMs parseError liveMode args =
     (case upgrade_path args of
        None \<Rightarrow> (reg_NewErrorResult timestamp ''node_upgrade'' (''parse args: '' @ parseError), not_scheduled)
      | Some path \<Rightarrow>
          if path = [] then
            (reg_NewErrorResult timestamp ''node_upgrade'' ''path is required: provide the path to the new binary'', not_scheduled)
          else
            (ops_answer timestamp elapsedMs ''node_upgrade'' ''scheduled upgrade operations'' liveMode (nodeUpgradeOps path),
             schedule liveMode (nodeUpgradeOps path) False))"

section \<open>A logic of programs\<close>

text \<open>
  \<open>always I Q p m\<close>: from machine \<open>m\<close>, whatever the calls give, \<open>I\<close> holds wherever the program is cut off and \<open>Q\<close> with its result
  when it returns.
\<close>

definition always :: "(machine \<Rightarrow> bool) \<Rightarrow> (string option \<Rightarrow> machine \<Rightarrow> bool) \<Rightarrow> sysEnv \<Rightarrow> nat \<Rightarrow> prog \<Rightarrow> machine \<Rightarrow> bool" where
  "always I Q env i p m \<longleftrightarrow> (\<forall>n. case run_prog env n i p m of (None, m') \<Rightarrow> I m' | (Some e, m') \<Rightarrow> Q e m')"

lemma always_Return: "Q e m \<Longrightarrow> always I Q env i (Return e) m"
  by (simp add: always_def)

lemma always_Call_iff:
  "always I Q env i (Call c k) m \<longleftrightarrow>
     I m \<and> (case perform env i c m of (r, m') \<Rightarrow> always I Q env (Suc i) (k r) m')" (is "?l \<longleftrightarrow> ?r")
proof -
  obtain r m' where p: "perform env i c m = (r, m')" by fastforce
  have all_nat: "(\<forall>n. P n) \<longleftrightarrow> P 0 \<and> (\<forall>n. P (Suc n))" for P :: "nat \<Rightarrow> bool"
    by (metis not0_implies_Suc)
  show ?thesis unfolding always_def by (subst all_nat) (simp add: p)
qed

lemma always_Call:
  assumes "I m" and "\<And>r m'. perform env i c m = (r, m') \<Longrightarrow> always I Q env (Suc i) (k r) m'"
  shows "always I Q env i (Call c k) m"
  using assms by (simp add: always_Call_iff split: prod.split)

lemma always_try:
  assumes "I m" and "\<And>err m'. perform env i c m = (SFail err, m') \<Longrightarrow> Q (Some (wrap err)) m'"
    and "\<And>v m'. perform env i c m = (SOk v, m') \<Longrightarrow> always I Q env (Suc i) (k v) m'"
  shows "always I Q env i (try_call c wrap k) m"
  unfolding try_call_def using assms
  by (intro always_Call) (auto intro: always_Return split: sysResult.split)

lemma always_and_then:
  "always I R env i p m \<Longrightarrow> (\<And>i e m'. R e m' \<Longrightarrow> always I Q env i (f e) m') \<Longrightarrow> always I Q env i (and_then p f) m"
proof (induction p arbitrary: m i)
  case (Return e)
  have "R e m" using Return(1) by (simp add: always_def)
  then show ?case using Return(2) by simp
next
  case (Call c k)
  obtain r m' where p: "perform env i c m = (r, m')" by fastforce
  have "I m" "always I R env (Suc i) (k r) m'" using Call.prems(1) p by (simp_all add: always_Call_iff)
  then show ?case using Call.IH [OF rangeI] Call.prems(2) p by (simp add: always_Call_iff)
qed

lemma always_weaken: "always I R env i p m \<Longrightarrow> (\<And>e m'. R e m' \<Longrightarrow> Q e m') \<Longrightarrow> always I Q env i p m"
  unfolding always_def by (auto split: prod.splits option.splits)

section \<open>What the calls change\<close>

lemma tmp_differs [simp]: "path @ ''.tmp'' \<noteq> path" "path \<noteq> path @ ''.tmp''"
  by simp_all

text \<open>The destination of a copy always holds what it held or the whole copy, and nothing but the temporary file changes beside it.\<close>

definition copied :: "string \<Rightarrow> string \<Rightarrow> machine \<Rightarrow> machine \<Rightarrow> bool" where
  "copied path contents m m' \<longleftrightarrow>
     (hm_files m' path = hm_files m path \<or> hm_files m' path = Some contents) \<and>
     (\<forall>q. q \<noteq> path \<and> q \<noteq> path @ ''.tmp'' \<longrightarrow> hm_files m' q = hm_files m q)"

lemma copy_over_atomic:
  "always (copied path contents m)
     (\<lambda>e m'. copied path contents m m' \<and> (if e = None then hm_files m' path = Some contents else hm_files m' path = hm_files m path))
     env i (copy_over kind contents path) m"
  unfolding copy_over_def os_WriteFile_def Let_def
  by (intro always_try always_Call)
    (auto simp: copied_def split: option.splits sysResult.splits intro!: always_Return always_Call)

definition files_kept :: "string set \<Rightarrow> machine \<Rightarrow> machine \<Rightarrow> bool" where
  "files_kept A m m' \<longleftrightarrow> (\<forall>q. q \<notin> A \<longrightarrow> hm_files m' q = hm_files m q)"

lemma files_kept_refl [simp]: "files_kept A m m"
  by (simp add: files_kept_def)

lemma files_kept_trans: "files_kept A m m' \<Longrightarrow> files_kept A m' m'' \<Longrightarrow> files_kept A m m''"
  by (simp add: files_kept_def)

lemma systemctl_keeps:
  "op_action op = ''systemctl'' \<Longrightarrow> files_kept A m0 m \<Longrightarrow>
   always (files_kept A m0) (\<lambda>e m'. files_kept A m0 m') env i (ExecuteOp op) m"
  by (auto simp: ExecuteOp_def files_kept_def intro!: always_try always_Return split: option.splits)

lemma write_file_keeps:
  "op_action op = ''write_file'' \<Longrightarrow> op_path op \<in> A \<Longrightarrow> files_kept A m0 m \<Longrightarrow>
   always (files_kept A m0) (\<lambda>e m'. files_kept A m0 m') env i (ExecuteOp op) m"
  by (auto simp: ExecuteOp_def os_WriteFile_def files_kept_def intro!: always_try always_Return split: option.splits)

lemma always_rest:
  "always (files_kept A m0) (\<lambda>e m'. files_kept A m0 m') env i (ExecuteOps ops) m"
  if "files_kept A m0 m" "\<And>op. op \<in> set ops \<Longrightarrow> op_action op = ''systemctl'' \<or> op_action op = ''write_file'' \<and> op_path op \<in> A"
  using that
proof (induction ops arbitrary: i m)
  case (Cons op ops)
  have "always (files_kept A m0) (\<lambda>e m'. files_kept A m0 m') env i (ExecuteOp op) m"
    using systemctl_keeps write_file_keeps Cons.prems by (metis list.set_intros(1))
  then show ?case
    using Cons by (auto intro!: always_and_then always_Return split: option.split)
qed (simp add: always_Return)

text \<open>The first operation of an installation or an upgrade copies the program to its place; the others do not touch it.\<close>

definition replaced :: "string \<Rightarrow> machine \<Rightarrow> machine \<Rightarrow> bool" where
  "replaced src m m' \<longleftrightarrow> hm_files m src \<noteq> None \<and> hm_files m' defaultInstallPath = hm_files m src"

definition placed :: "string set \<Rightarrow> string \<Rightarrow> machine \<Rightarrow> machine \<Rightarrow> bool" where
  "placed A src m m' \<longleftrightarrow>
     (hm_files m' defaultInstallPath = hm_files m defaultInstallPath \<or> replaced src m m') \<and>
     files_kept (A \<union> {defaultInstallPath, defaultInstallPath @ ''.tmp''}) m m'"

lemma always_mono:
  "always I R env i p m \<Longrightarrow> (\<And>m'. I m' \<Longrightarrow> J m') \<Longrightarrow> (\<And>e m'. R e m' \<Longrightarrow> Q e m') \<Longrightarrow> always J Q env i p m"
  unfolding always_def
proof (intro allI)
  fix n
  assume all: "\<forall>n. case run_prog env n i p m of (None, m') \<Rightarrow> I m' | (Some e, m') \<Rightarrow> R e m'"
    and "\<And>m'. I m' \<Longrightarrow> J m'" "\<And>e m'. R e m' \<Longrightarrow> Q e m'"
  then show "case run_prog env n i p m of (None, m') \<Rightarrow> J m' | (Some e, m') \<Rightarrow> Q e m'"
    using all [rule_format, of n] by (cases "run_prog env n i p m"; cases "fst (run_prog env n i p m)") auto
qed

lemma copy_then_rest:
  assumes copy: "op_action op = ''copy_file'' \<and> src = op_src op \<or> op_action op = ''copy_binary'' \<and> src = se_exe env"
    and path: "op_path op = defaultInstallPath"
    and rest: "\<And>op'. op' \<in> set ops \<Longrightarrow> op_action op' = ''systemctl'' \<or> op_action op' = ''write_file'' \<and> op_path op' \<in> A"
    and A: "defaultInstallPath \<notin> A"
  shows "always (placed A src m) (\<lambda>e m'. placed A src m m' \<and> (if e = None then replaced src m m' else True)) env i (ExecuteOps (op # ops)) m"
proof -
  let ?D = "defaultInstallPath"
  define Q where "Q e m' \<longleftrightarrow> placed A src m m' \<and> (if e = None then replaced src m m' else True)" for e :: "string option" and m'
  have here: "placed A src m m" "Q (Some err) m" for err by (simp_all add: placed_def Q_def)
  have copied: "always (placed A src m) Q env j (copy_over kind contents ?D) m" if "hm_files m src = Some contents" for kind contents j
    by (rule always_mono [OF copy_over_atomic])
      (auto simp: copied_def placed_def replaced_def files_kept_def that Q_def)
  have read: "always (placed A src m) Q env j (try_call (SReadFile src) wrap (\<lambda>contents. copy_over kind contents ?D)) m" for wrap kind j
    by (rule always_try) (auto simp: here split: option.splits intro: copied)
  have first: "always (placed A src m) Q env j (ExecuteOp op) m" for j
    using copy
  proof (elim disjE conjE)
    assume "op_action op = ''copy_file''" "src = op_src op"
    then show ?thesis using read by (simp add: ExecuteOp_def path)
  next
    assume a: "op_action op = ''copy_binary''" "src = se_exe env"
    have "always (placed A src m) Q env j (try_call SExecutable ((@) ''resolve executable: '') (\<lambda>src.
          try_call (SReadFile src) ((@) ''read binary: '') (\<lambda>contents. copy_over ''binary'' contents ?D))) m"
      by (rule always_try) (auto simp: here a(2) [symmetric] split: option.splits intro: read)
    then show ?thesis using a(1) by (simp add: ExecuteOp_def path)
  qed
  have others: "always (placed A src m) (\<lambda>e m''. placed A src m m'' \<and> replaced src m m'') env j (ExecuteOps ops) m'"
    if "placed A src m m'" "replaced src m m'" for j m'
  proof -
    have "always (files_kept A m') (\<lambda>e m''. files_kept A m' m'') env j (ExecuteOps ops) m'"
      by (rule always_rest) (auto simp: rest)
    moreover have "placed A src m m'' \<and> replaced src m m''" if k: "files_kept A m' m''" for m''
    proof -
      have "replaced src m m''" using k \<open>replaced src m m'\<close> A by (simp add: replaced_def files_kept_def)
      then show ?thesis using k \<open>placed A src m m'\<close> by (auto simp: placed_def files_kept_def)
    qed
    ultimately show ?thesis by (blast intro: always_mono)
  qed
  have rest_done: "always (placed A src m) Q env j (ExecuteOps ops) m'" if "placed A src m m'" "replaced src m m'" for j m'
    by (rule always_weaken [OF others [OF that]]) (simp add: Q_def)
  have "always (placed A src m) Q env i (ExecuteOps (op # ops)) m"
    unfolding ExecuteOps.simps
  proof (rule always_and_then [OF first])
    fix j e m'
    assume "Q e m'"
    then show "always (placed A src m) Q env j (case e of None \<Rightarrow> ExecuteOps ops
        | Some err \<Rightarrow> Return (Some (op_action op @ '' '' @ op_args op @ '': '' @ err))) m'"
      by (cases e) (auto simp: Q_def intro!: always_Return rest_done)
  qed
  then show ?thesis unfolding Q_def [abs_def] .
qed

lemma placed_run:
  assumes "always P (\<lambda>e m'. P m' \<and> (if e = None then R m' else True)) env i p m"
  shows "case run_prog env n i p m of (res, m') \<Rightarrow> P m' \<and> (if res = Some None then R m' else True)"
proof -
  obtain res m' where r: "run_prog env n i p m = (res, m')" by fastforce
  have "case run_prog env n i p m of (None, m') \<Rightarrow> P m' | (Some e, m') \<Rightarrow> P m' \<and> (if e = None then R m' else True)"
    using assms [unfolded always_def, THEN spec, of n] .
  then show ?thesis by (cases res) (simp_all add: r)
qed


section \<open>Removal\<close>

lemma execute_op_simps:
  "ExecuteOp ((op_of ''systemctl'')\<lparr>op_args := a\<rparr>) = try_call (SRun (''systemctl'' # splitArgs a)) (\<lambda>err. err) (\<lambda>_. Return None)"
  "ExecuteOp ((op_of ''remove_file'')\<lparr>op_path := p\<rparr>) = try_call (SRemove p) (\<lambda>err. err) (\<lambda>_. Return None)"
  "ExecuteOp ((op_of ''remove_dir'')\<lparr>op_path := p\<rparr>) = try_call (SRemoveAll p) (\<lambda>err. err) (\<lambda>_. Return None)"
  "ExecuteOp ((op_of ''kill_abstract_socket'')\<lparr>op_path := p\<rparr>) = and_then (KillLockedProcess p) (\<lambda>_. Return None)"
  by (simp_all add: ExecuteOp_def op_of_def)

text \<open>\<open>gone A m m'\<close>: of the files of \<open>m\<close>, those of \<open>A\<close> are gone in \<open>m'\<close>, and of the others at most some below \<open>/tmp\<close>.\<close>

definition gone :: "(string \<Rightarrow> bool) \<Rightarrow> machine \<Rightarrow> machine \<Rightarrow> bool" where
  "gone A m m' \<longleftrightarrow>
     (\<forall>q. if A q then hm_files m' q = None
          else hm_files m' q = hm_files m q \<or> prefix ''/tmp/'' q \<and> hm_files m' q = None)"

definition left :: "(string \<Rightarrow> bool) \<Rightarrow> machine \<Rightarrow> string option \<Rightarrow> machine \<Rightarrow> bool" where
  "left A m0 e m' \<longleftrightarrow> (if e = None then gone A m0 m' else True)"

lemma left_simps [simp]: "left A m0 None m' = gone A m0 m'" "left A m0 (Some err) m'"
  by (simp_all add: left_def)

definition removes :: "sysEnv \<Rightarrow> (string \<Rightarrow> bool) \<Rightarrow> lifecycleOp \<Rightarrow> bool" where
  "removes env B op \<longleftrightarrow>
     (\<forall>A m0 m i. gone A m0 m \<longrightarrow> always (\<lambda>_. True) (left (\<lambda>q. A q \<or> B q) m0) env i (ExecuteOp op) m)"

lemma gone_other [simp]:
  "gone A m0 (m\<lparr>hm_commands := cs\<rparr>) = gone A m0 m" "gone A m0 (m\<lparr>hm_killed := ks\<rparr>) = gone A m0 m"
  by (simp_all add: gone_def)

lemma gone_tmp: "gone A m0 m \<Longrightarrow> prefix ''/tmp/'' p \<Longrightarrow> gone A m0 (m\<lparr>hm_files := (hm_files m)(p := None)\<rparr>)"
  by (simp add: gone_def)

lemma removes_ops:
  "list_all2 (removes env) Bs ops \<Longrightarrow> gone A m0 m \<Longrightarrow>
   always (\<lambda>_. True) (left (\<lambda>q. A q \<or> (\<exists>B\<in>set Bs. B q)) m0) env i (ExecuteOps ops) m"
proof (induction Bs ops arbitrary: A i m rule: list_all2_induct)
  case (Cons B Bs op ops)
  have first: "always (\<lambda>_. True) (left (\<lambda>q. A q \<or> B q) m0) env i (ExecuteOp op) m"
    using Cons.hyps(1) Cons.prems unfolding removes_def by blast
  show ?case
    unfolding ExecuteOps.simps
  proof (rule always_and_then [OF first])
    fix j e m'
    assume e: "left (\<lambda>q. A q \<or> B q) m0 e m'"
    show "always (\<lambda>_. True) (left (\<lambda>q. A q \<or> (\<exists>B\<in>set (B # Bs). B q)) m0) env j
        (case e of None \<Rightarrow> ExecuteOps ops | Some err \<Rightarrow> Return (Some (op_action op @ '' '' @ op_args op @ '': '' @ err))) m'"
    proof (cases e)
      case None
      then show ?thesis using Cons.IH [of "\<lambda>q. A q \<or> B q" m' j] e by (simp add: disj_assoc)
    qed (simp add: always_Return)
  qed
qed (simp add: always_Return)

lemma systemctl_removes: "removes env (\<lambda>_. False) ((op_of ''systemctl'')\<lparr>op_args := a\<rparr>)"
  unfolding removes_def execute_op_simps
  by (auto intro!: always_try always_Return split: option.splits)

lemma remove_file_removes: "removes env (\<lambda>q. q = p) ((op_of ''remove_file'')\<lparr>op_path := p\<rparr>)"
  unfolding removes_def execute_op_simps
  by (auto intro!: always_try always_Return split: option.splits simp: gone_def)

lemma remove_dir_removes: "removes env (below p) ((op_of ''remove_dir'')\<lparr>op_path := p\<rparr>)"
  unfolding removes_def execute_op_simps
  by (auto intro!: always_try always_Return split: option.splits simp: gone_def)

lemma kill_keeps:
  assumes g: "gone A m0 m"
  shows "always (\<lambda>_. True) (\<lambda>e. gone A m0) env i (KillLockedProcess p) m"
proof -
  have rm: "always (\<lambda>_. True) (\<lambda>e. gone A m0) env j (Call (SRemove f) (\<lambda>_. Return None)) m'"
    if "gone A m0 m'" "prefix ''/tmp/'' f" for j f m'
    using that gone_tmp [OF that] by (auto intro!: always_Call always_Return split: option.splits)
  show ?thesis
    unfolding KillLockedProcess_def
  proof (rule always_try)
    fix reply m1
    assume "perform env i (SReadSocket p) m = (SOk reply, m1)"
    then have m1: "gone A m0 m1" using g by (auto split: option.splits)
    show "always (\<lambda>_. True) (\<lambda>e. gone A m0) env (Suc i)
        (case payload_of_reply reply of None \<Rightarrow> Return (Some ''read payload from socket: invalid payload'')
         | Some p \<Rightarrow> try_call (SKill (lp_pid p)) (\<lambda>err. ''kill process '' @ itoa (lp_pid p) @ '': '' @ err) (\<lambda>_.
             if lp_path p \<noteq> [] \<and> prefix ''/tmp/'' (lp_path p) then Call (SRemove (lp_path p)) (\<lambda>_. Return None)
             else Return None)) m1"
    proof (cases "payload_of_reply reply")
      case (Some pl)
      then show ?thesis
        using m1 by (auto intro!: always_try always_Return rm split: option.splits)
    qed (simp add: m1 always_Return)
  qed (use g in \<open>auto split: option.splits\<close>)
qed

lemma kill_removes: "removes env (\<lambda>_. False) ((op_of ''kill_abstract_socket'')\<lparr>op_path := p\<rparr>)"
  unfolding removes_def execute_op_simps
  by (auto intro!: always_and_then [OF kill_keeps] always_Return)

text \<open>The files that an uninstallation is about.\<close>

definition installed_file :: "string option \<Rightarrow> string \<Rightarrow> bool" where
  "installed_file home q \<longleftrightarrow>
     q = serviceUnitPath \<or> below ''/opt/cortex-mcp'' q \<or> (case home of None \<Rightarrow> False | Some h \<Rightarrow> below (h @ ''/.cortex-mcp'') q)"


section \<open>The lock and arguments\<close>

lemma payload_reads:
  "json_reads (lockPayload_text p)
     (JObject [(''pid'', itoa (lp_pid p), JNumber (itoa (lp_pid p))), (''path'', json_string (lp_path p), JString (lp_path p))])"
  using reads_object [OF reads_fields_Cons [OF reads_int reads_fields_Cons [OF reads_string reads_fields_Nil]]]
  by (simp add: lockPayload_text_def)

lemma payload_roundtrip:
  assumes "0 \<le> lp_pid p" "lp_pid p \<le> max_int" "length (lockPayload_text p) \<le> 1024"
  shows "payload_of_reply (lockPayload_text p) = Some p"
proof -
  have "decode_payload (lockPayload_text p) = Some p"
    using assms(1,2) atoi_itoa [of "lp_pid p"]
    by (simp add: decode_payload_def json_reads_parse [OF payload_reads] decode_found same_name_def fold_byte_def dec_int_def dec_string_def)
  then show ?thesis using assms(3) by (simp add: payload_of_reply_def)
qed

lemma splitSimple_word: "CHR '' '' \<notin> set w \<Longrightarrow> splitSimple_loop r c (w @ s) = splitSimple_loop r (c @ w) s"
  by (induction w arbitrary: c) auto

text \<open>Arguments come out as they were put in when they have no spaces and are not empty.\<close>

lemma splitArgs_join:
  assumes "\<And>w. w \<in> set ws \<Longrightarrow> w \<noteq> [] \<and> CHR '' '' \<notin> set w"
  shows "splitArgs (join '' '' ws) = ws"
proof -
  have "splitSimple_loop r [] (join '' '' ws) = r @ ws" for r
    using assms
  proof (induction ws arbitrary: r)
    case (Cons w ws)
    show ?case
    proof (cases "ws = []")
      case True
      then show ?thesis using Cons.prems splitSimple_word [of w r "[]" "[]"] by simp
    next
      case False
      then show ?thesis using Cons.prems Cons.IH [of "r @ [w]"] splitSimple_word [of w r "[]" "CHR '' '' # join '' '' ws"]
        by (simp add: join_Cons)
    qed
  qed simp
  from this [of "[]"] show ?thesis using assms by (simp add: splitArgs_def splitSimple_def filter_id_conv)
qed

text \<open>
  The removal of a node that is not installed kills the process that the lock names, which is the process itself, before the program file
  in \<open>/tmp\<close> is removed: cut off at the second call, the file is still there.
\<close>

lemma ephemeral_uninstall_leaves_file:
  assumes "prefix ''/tmp/'' exe" "0 \<le> pid" "pid \<le> max_int" "length (lockPayload_text \<lparr>lp_pid = pid, lp_path = exe\<rparr>) \<le> 1024"
    and "\<And>i. se_fault env i = None" and "snd (AcquireLock pid exe lockName Map.empty) = se_socket env"
  shows "run_prog env 2 0 (ExecuteOps (uninstall_ops exe)) m = (None, m\<lparr>hm_killed := hm_killed m @ [pid]\<rparr>)"
proof -
  have "se_socket env lockName = Some (lockPayload_text \<lparr>lp_pid = pid, lp_path = exe\<rparr>)"
    using assms(6) [symmetric] by (simp add: AcquireLock_def)
  moreover have "\<not> prefix defaultInstallPath exe \<and> \<not> prefix ''/opt/'' exe"
    using assms(1) by (auto simp: prefix_def defaultInstallPath_def)
  ultimately show ?thesis
    using assms(1,5) payload_roundtrip [of "\<lparr>lp_pid = pid, lp_path = exe\<rparr>"] assms(2-4)
    by (auto simp: uninstall_ops_def execute_op_simps KillLockedProcess_def try_call_def numeral_2_eq_2 prefix_def)
qed

end
