(* ===== verification/Upload.thy ===== *)
theory Upload
  imports Tools Lifecycle
begin

text \<open>
  Model of the byte protocols of the daemon: the stream on which a node is deployed (the signal of readiness of
  \<open>pkg/mesh/transport/deploy.go\<close>, then the mode, the configuration and the certificates of \<open>internal/mesh/pki.go\<close> and \<open>cli.go\<close>), and
  the listener of a node, which tells uploads of a new program from tool connections by their first byte
  (\<open>internal/mesh/transfer.go\<close>). Streams are those of \<^theory_text>\<open>Frames\<close>; parsing certificates is an argument.
\<close>

section \<open>Fields and certificates\<close>

record certBundle =
  cb_certPEM :: octets
  cb_keyPEM :: octets
  cb_caPEM :: octets

datatype field_error = FieldLength | FieldTooLarge nat | FieldData

definition writeField :: "writer \<Rightarrow> octets \<Rightarrow> bool \<times> writer" where
  "writeField w d = (let (ok, w1) = w_write w (put_uint32 (length d)) in if \<not> ok then (False, w1) else w_write w1 d)"

definition maxField :: nat where "maxField = 2 ^ 20"

definition readField :: "octets \<Rightarrow> (field_error + octets) \<times> octets" where
  "readField r =
     (let (header, r1) = read_full 4 r
      in case header of
           None \<Rightarrow> (Inl FieldLength, r1)
         | Some h \<Rightarrow>
             (let n = get_uint32 h
              in if n > maxField then (Inl (FieldTooLarge n), r1)
                 else let (d, r2) = read_full n r1
                   in case d of None \<Rightarrow> (Inl FieldData, r2) | Some bs \<Rightarrow> (Inr bs, r2)))"

definition writeCertBundle :: "writer \<Rightarrow> certBundle \<Rightarrow> bool \<times> writer" where
  "writeCertBundle w bundle =
     (let (ok, w1) = writeField w (cb_certPEM bundle)
      in if \<not> ok then (False, w1)
         else let (ok2, w2) = writeField w1 (cb_keyPEM bundle)
           in if \<not> ok2 then (False, w2) else writeField w2 (cb_caPEM bundle))"

datatype bundle_error = ReadCert field_error | ReadKey field_error | ReadCA field_error | BadKeyPair | BadCA

text \<open>The libraries: a key pair of a certificate and a key, a pool of the certificate of the authority.\<close>

record ('cert, 'pool) cert_lib =
  cl_keyPair :: "octets \<Rightarrow> octets \<Rightarrow> 'cert option"
  cl_pool :: "octets \<Rightarrow> 'pool option"

definition readCertBundle :: "('cert, 'pool) cert_lib \<Rightarrow> octets \<Rightarrow> (bundle_error + certBundle \<times> 'cert \<times> 'pool) \<times> octets" where
  "readCertBundle lib r =
     (case readField r of
        (Inl e, r1) \<Rightarrow> (Inl (ReadCert e), r1)
      | (Inr certPEM, r1) \<Rightarrow>
          (case readField r1 of
             (Inl e, r2) \<Rightarrow> (Inl (ReadKey e), r2)
           | (Inr keyPEM, r2) \<Rightarrow>
               (case readField r2 of
                  (Inl e, r3) \<Rightarrow> (Inl (ReadCA e), r3)
                | (Inr caPEM, r3) \<Rightarrow>
                    (case cl_keyPair lib certPEM keyPEM of
                       None \<Rightarrow> (Inl BadKeyPair, r3)
                     | Some cert \<Rightarrow>
                         (case cl_pool lib caPEM of
                            None \<Rightarrow> (Inl BadCA, r3)
                          | Some pool \<Rightarrow>
                              (Inr (\<lparr>cb_certPEM = certPEM, cb_keyPEM = keyPEM, cb_caPEM = caPEM\<rparr>, cert, pool), r3))))))"

section \<open>The stream of a deployment\<close>

definition ProtocolVersion :: "16 word" where "ProtocolVersion = 1"

definition DeployReadyMagic :: octets where
  "DeployReadyMagic = [67, 77, ucast (drop_bit 8 ProtocolVersion), ucast ProtocolVersion]"

definition SignalReady :: "writer \<Rightarrow> bool \<times> writer" where
  "SignalReady w = w_write w DeployReadyMagic"

datatype ready_error = ReadyRead | InvalidMagic octets

definition waitForReady :: "octets \<Rightarrow> ready_error option \<times> octets" where
  "waitForReady r =
     (case read_full 4 r of
        (None, r1) \<Rightarrow> (Some ReadyRead, r1)
      | (Some got, r1) \<Rightarrow> (if got \<noteq> DeployReadyMagic then Some (InvalidMagic got) else None, r1))"

text \<open>What the gateway sends after the signal: the mode, the configuration, the certificates.\<close>

datatype send_error = SendMode | SendConfig | SendBundle

definition send_deployment :: "bool \<Rightarrow> octets \<Rightarrow> certBundle \<Rightarrow> writer \<Rightarrow> send_error option \<times> writer" where
  "send_deployment install config bundle w =
     (let (ok, w1) = w_write w [if install then 1 else 0]
      in if \<not> ok then (Some SendMode, w1)
         else let (ok2, w2) = writeField w1 config
           in if \<not> ok2 then (Some SendConfig, w2)
              else let (ok3, w3) = writeCertBundle w2 bundle
                in if \<not> ok3 then (Some SendBundle, w3) else (None, w3))"

datatype receive_error = ReadMode | ReadConfig field_error | ReadBundle bundle_error

definition receive_deployment :: "('cert, 'pool) cert_lib \<Rightarrow> octets \<Rightarrow>
    (receive_error + bool \<times> octets \<times> certBundle \<times> 'cert \<times> 'pool) \<times> octets" where
  "receive_deployment lib r =
     (case read_full 1 r of
        (None, r1) \<Rightarrow> (Inl ReadMode, r1)
      | (Some modeBuf, r1) \<Rightarrow>
          (case readField r1 of
             (Inl e, r2) \<Rightarrow> (Inl (ReadConfig e), r2)
           | (Inr config, r2) \<Rightarrow>
               (case readCertBundle lib r2 of
                  (Inl e, r3) \<Rightarrow> (Inl (ReadBundle e), r3)
                | (Inr (bundle, cert, pool), r3) \<Rightarrow> (Inr (modeBuf = [1], config, bundle, cert, pool), r3))))"

text \<open>The acknowledgement of an installation.\<close>

definition installAck :: octets where "installAck = [79, 75, 0, 6]"

definition read_ack :: "octets \<Rightarrow> bool" where
  "read_ack r = (case read_full 4 r of (Some ack, _) \<Rightarrow> ack = installAck | (None, _) \<Rightarrow> False)"

section \<open>Uploads\<close>

definition MagicBinaryTransfer :: "8 word" where "MagicBinaryTransfer = 1"

definition DefaultUpdatePath :: string where "DefaultUpdatePath = ''/tmp/cortex-mcp.update''"

text \<open>A connection of which a prefix has been read and is put back.\<close>

record prefixConn =
  pc_prefix :: octets
  pc_conn :: octets

definition pc_Read :: "nat \<Rightarrow> prefixConn \<Rightarrow> octets \<times> prefixConn" where
  "pc_Read n c =
     (if pc_prefix c \<noteq> [] then (take n (pc_prefix c), c\<lparr>pc_prefix := drop n (pc_prefix c)\<rparr>)
      else (take n (pc_conn c), c\<lparr>pc_conn := drop n (pc_conn c)\<rparr>))"

text \<open>
  The file that receives an upload: whether it can be opened, and how many bytes fit. The bytes of a connection end cleanly or
  with an error. The result is what the file holds then, if it was opened, and the reply.
\<close>

record updateFile =
  uf_opens :: bool
  uf_room :: "nat option"

definition fits_in :: "nat option \<Rightarrow> octets \<Rightarrow> bool" where
  "fits_in room bs = (case room of None \<Rightarrow> True | Some n \<Rightarrow> length bs \<le> n)"

definition take_room :: "nat option \<Rightarrow> octets \<Rightarrow> octets" where
  "take_room room bs = (case room of None \<Rightarrow> bs | Some n \<Rightarrow> take n bs)"

definition handleBinaryTransfer :: "updateFile \<Rightarrow> octets \<Rightarrow> bool \<Rightarrow> octets option \<times> octets" where
  "handleBinaryTransfer f bs clean =
     (if \<not> uf_opens f then (None, [1])
      else if \<not> fits_in (uf_room f) bs \<or> \<not> clean then (Some (take_room (uf_room f) bs), [])
      else (Some bs, [0]))"

datatype served =
    Dropped
  | Uploaded "octets option" octets
  | ServedTools "string option" writer

text \<open>A connection of the listener: the bytes that arrive, and whether the first comes within its deadline.\<close>

definition serve_multiplexed :: "tool_lib \<Rightarrow> registry \<Rightarrow> (nat \<Rightarrow> bool) \<Rightarrow> updateFile \<Rightarrow> bool \<Rightarrow> octets \<Rightarrow> bool \<Rightarrow> writer \<Rightarrow> served" where
  "serve_multiplexed lib reg ctxDone f inTime input clean w =
     (if \<not> inTime then Dropped
      else case read_full 1 input of
        (None, _) \<Rightarrow> Dropped
      | (Some magic, r1) \<Rightarrow>
          if hd magic = MagicBinaryTransfer then (case handleBinaryTransfer f r1 clean of (contents, reply) \<Rightarrow> Uploaded contents reply)
          else let pc = \<lparr>pc_prefix = magic, pc_conn = r1\<rparr>
            in (case ServeToolConn lib reg ctxDone (pc_prefix pc @ pc_conn pc) w of (e, w1) \<Rightarrow> ServedTools e w1))"

datatype upload_error = UploadMagic | UploadOpen | UploadStream | UploadStatus | UploadRefused

text \<open>
  The sender: its writer, the program if it can be opened, and the reply of the other end to the bytes it was sent,
  with whether that ends cleanly. The connection is closed in any case.
\<close>

definition DialUploadBinary :: "writer \<Rightarrow> octets option \<Rightarrow> (octets \<Rightarrow> octets \<times> bool) \<Rightarrow> upload_error option \<times> octets" where
  "DialUploadBinary conn source peer =
     (let (ok, w1) = w_write conn [MagicBinaryTransfer]
      in if \<not> ok then (Some UploadMagic, w_out w1)
         else case source of
           None \<Rightarrow> (Some UploadOpen, w_out w1)
         | Some bs \<Rightarrow>
             (let (ok2, w2) = w_write w1 bs
              in if \<not> ok2 then (Some UploadStream, w_out w2)
                 else case peer (w_out w2) of
                   (reply, clean) \<Rightarrow>
                     (case reply of
                        [] \<Rightarrow> (if clean then None else Some UploadStatus, w_out w2)
                      | b # _ \<Rightarrow> (if b \<noteq> 0 then Some UploadRefused else None, w_out w2))))"

section \<open>What is sent is received\<close>

definition open_writer :: "writer \<Rightarrow> bool" where
  "open_writer w \<longleftrightarrow> w_room w = None"

lemma w_write_open: "open_writer w \<Longrightarrow> w_write w bs = (True, w\<lparr>w_out := w_out w @ bs\<rparr>)"
  by (simp add: w_write_def open_writer_def)

lemma open_writer_upd [simp]: "open_writer (w\<lparr>w_out := x\<rparr>) = open_writer w"
  by (simp add: open_writer_def)

lemma writeField_open: "open_writer w \<Longrightarrow> writeField w d = (True, w\<lparr>w_out := w_out w @ encode d\<rparr>)"
  by (simp add: writeField_def w_write_open encode_def)

lemma read_full_append: "length a = n \<Longrightarrow> read_full n (a @ b) = (Some a, b)"
  by (simp add: read_full_def)

lemma readField_bytes:
  "length d < 2 ^ 32 \<Longrightarrow> readField (encode d @ r) =
     (if length d > maxField then (Inl (FieldTooLarge (length d)), d @ r) else (Inr d, r))"
  by (simp add: readField_def encode_def read_full_append put_get)

definition bundle_bytes :: "certBundle \<Rightarrow> octets" where
  "bundle_bytes b = encode (cb_certPEM b) @ encode (cb_keyPEM b) @ encode (cb_caPEM b)"

lemma send_deployment_open:
  "open_writer w \<Longrightarrow> send_deployment install config bundle w =
     (None, w\<lparr>w_out := w_out w @ (if install then 1 else 0) # encode config @ bundle_bytes bundle\<rparr>)"
  by (simp add: send_deployment_def writeCertBundle_def writeField_open w_write_open bundle_bytes_def)

definition small_bundle :: "certBundle \<Rightarrow> bool" where
  "small_bundle b \<longleftrightarrow> length (cb_certPEM b) \<le> maxField \<and> length (cb_keyPEM b) \<le> maxField \<and> length (cb_caPEM b) \<le> maxField"

lemma readCertBundle_bytes:
  assumes "small_bundle b"
  shows "readCertBundle lib (bundle_bytes b @ r) =
    (case cl_keyPair lib (cb_certPEM b) (cb_keyPEM b) of
       None \<Rightarrow> (Inl BadKeyPair, r)
     | Some cert \<Rightarrow> (case cl_pool lib (cb_caPEM b) of None \<Rightarrow> (Inl BadCA, r) | Some pool \<Rightarrow> (Inr (b, cert, pool), r)))"
  using assms
  by (simp add: readCertBundle_def bundle_bytes_def small_bundle_def maxField_def readField_bytes split: option.split)

text \<open>
  Property C30. What a gateway sends to a node it deploys is what the node reads: the mode, the configuration and the
  certificates, for every configuration and certificates of at most a mebibyte each, and whatever
  follows on the stream, such as the handshake of the mesh, is left for its reader. A larger configuration is sent without an error and refused by the node. The signal of
  readiness passes the check of the gateway, and bytes that differ from it do not.
\<close>

theorem deployment_roundtrip:
  assumes "open_writer w" and "small_bundle bundle" and "length config < 2 ^ 32"
    and "cl_keyPair lib (cb_certPEM bundle) (cb_keyPEM bundle) = Some cert" and "cl_pool lib (cb_caPEM bundle) = Some pool"
  shows "(\<exists>sent. send_deployment install config bundle w = (None, w\<lparr>w_out := w_out w @ sent\<rparr>) \<and>
      fst (receive_deployment lib (sent @ later)) =
        (if length config \<le> maxField then Inr (install, config, bundle, cert, pool) else Inl (ReadConfig (FieldTooLarge (length config)))) \<and>
      (if length config \<le> maxField then snd (receive_deployment lib (sent @ later)) = later else True)) \<and>
    SignalReady w = (True, w\<lparr>w_out := w_out w @ DeployReadyMagic\<rparr>) \<and>
    (waitForReady r = (None, later) \<longleftrightarrow> r = DeployReadyMagic @ later)"
proof (intro conjI)
  let ?sent = "(if install then 1 else 0) # encode config @ bundle_bytes bundle"
  have mode: "read_full 1 (?sent @ later) = (Some [if install then 1 else 0], encode config @ bundle_bytes bundle @ later)"
    by (simp add: read_full_def)
  have "receive_deployment lib (?sent @ later) =
      (if length config \<le> maxField then (Inr (install, config, bundle, cert, pool), later)
       else (Inl (ReadConfig (FieldTooLarge (length config))), config @ bundle_bytes bundle @ later))"
    using assms(3-5) readField_bytes [OF assms(3), of "bundle_bytes bundle @ later"]
    unfolding receive_deployment_def mode
    by (simp add: readCertBundle_bytes [OF assms(2)])
  then show "\<exists>sent. send_deployment install config bundle w = (None, w\<lparr>w_out := w_out w @ sent\<rparr>) \<and>
      fst (receive_deployment lib (sent @ later)) =
        (if length config \<le> maxField then Inr (install, config, bundle, cert, pool) else Inl (ReadConfig (FieldTooLarge (length config)))) \<and>
      (if length config \<le> maxField then snd (receive_deployment lib (sent @ later)) = later else True)"
    by (intro exI [of _ ?sent] conjI send_deployment_open assms(1)) simp_all
  have len: "length DeployReadyMagic = 4" by (simp add: DeployReadyMagic_def)
  show "SignalReady w = (True, w\<lparr>w_out := w_out w @ DeployReadyMagic\<rparr>)"
    using assms(1) by (simp add: SignalReady_def w_write_open)
  show "waitForReady r = (None, later) \<longleftrightarrow> r = DeployReadyMagic @ later"
  proof
    assume "waitForReady r = (None, later)"
    then have "take 4 r = DeployReadyMagic" "drop 4 r = later"
      by (auto simp: waitForReady_def read_full_def split: if_splits)
    then show "r = DeployReadyMagic @ later" by (metis append_take_drop_id)
  qed (simp add: waitForReady_def read_full_append len)
qed

theorem deployment_roundtrip_witness:
  "\<exists>sent. send_deployment True [7, 8] \<lparr>cb_certPEM = [1], cb_keyPEM = [2], cb_caPEM = [3]\<rparr> \<lparr>w_out = [], w_room = None\<rparr> =
      (None, \<lparr>w_out = sent, w_room = None\<rparr>) \<and>
    fst (receive_deployment \<lparr>cl_keyPair = \<lambda>c k. Some (c, k), cl_pool = Some\<rparr> (sent @ [9])) =
      Inr (True, [7, 8], \<lparr>cb_certPEM = [1], cb_keyPEM = [2], cb_caPEM = [3]\<rparr>, ([1], [2]), [3])"
proof -
  have "open_writer \<lparr>w_out = [], w_room = None\<rparr>" "small_bundle \<lparr>cb_certPEM = [1], cb_keyPEM = [2], cb_caPEM = [3]\<rparr>"
    "length [7 :: 8 word, 8] < 2 ^ 32"
    by (simp_all add: open_writer_def small_bundle_def maxField_def)
  from deployment_roundtrip [OF this, of "\<lparr>cl_keyPair = \<lambda>c k. Some (c, k), cl_pool = Some\<rparr>" "([1], [2])" "[3]" True "[9]"]
  show ?thesis by (auto simp: maxField_def)
qed

section \<open>The listener\<close>

lemma tool_frame_first_byte:
  assumes "length d \<le> maxToolFrameSize"
  shows "\<exists>t. encode d @ s = 0 # t"
proof -
  have "length d div 2 ^ 24 = 0" using assms by (simp add: maxToolFrameSize_def div_eq_0_iff)
  then show ?thesis by (simp add: encode_def put_uint32_def)
qed

text \<open>
  The listener of a node keeps uploads and calls apart. A connection that begins with a frame of a call is served exactly as a
  tool connection is, byte for byte; an upload goes to the update file. The sender takes an upload for done
  exactly when the file could be opened, and then the file holds the program cut to the room there was: an upload that did not fit is
  reported as done.
\<close>

theorem listener_tells_uploads:
  assumes "open_writer conn" and "w_out conn = []" and "length d \<le> maxToolFrameSize"
  shows "serve_multiplexed lib reg ctxDone f True (encode d @ input) clean w =
      (case ServeToolConn lib reg ctxDone (encode d @ input) w of (e, w') \<Rightarrow> ServedTools e w') \<and>
    (let peer = (\<lambda>sent. case serve_multiplexed lib reg ctxDone f True sent True w of Uploaded contents reply \<Rightarrow> (reply, True) | _ \<Rightarrow> ([], True));
         (result, sent) = DialUploadBinary conn (Some program) peer
     in result = (if uf_opens f then None else Some UploadRefused) \<and>
        serve_multiplexed lib reg ctxDone f True sent True w =
          Uploaded (if uf_opens f then Some (take_room (uf_room f) program) else None)
            (if uf_opens f then if fits_in (uf_room f) program then [0] else [] else [1]))"
proof -
  obtain t where t: "encode d @ input = 0 # t" using tool_frame_first_byte [OF assms(3)] by blast
  have "serve_multiplexed lib reg ctxDone f True (1 # program) True w =
      (case handleBinaryTransfer f program True of (contents, reply) \<Rightarrow> Uploaded contents reply)"
    by (simp add: serve_multiplexed_def read_full_def MagicBinaryTransfer_def)
  then show ?thesis
    using t assms(1,2)
    by (auto simp: serve_multiplexed_def read_full_def MagicBinaryTransfer_def DialUploadBinary_def w_write_open
        handleBinaryTransfer_def fits_in_def take_room_def split: option.splits)
qed

theorem listener_tells_uploads_witness:
  "fst (DialUploadBinary \<lparr>w_out = [], w_room = None\<rparr> (Some [1, 2, 3, 4, 5])
     (\<lambda>sent. case serve_multiplexed (one_call_lib \<lparr>tq_name = [], tq_argsJson = []\<rparr> \<lparr>ts_isError = False, ts_contentJson = []\<rparr>) (NewRegistry False) (\<lambda>_. False) \<lparr>uf_opens = True, uf_room = Some 2\<rparr>
        True sent True \<lparr>w_out = [], w_room = None\<rparr> of Uploaded contents reply \<Rightarrow> (reply, True) | _ \<Rightarrow> ([], True))) = None"
  using listener_tells_uploads [of "\<lparr>w_out = [], w_room = None\<rparr>" "[]" "one_call_lib \<lparr>tq_name = [], tq_argsJson = []\<rparr> \<lparr>ts_isError = False, ts_contentJson = []\<rparr>" "NewRegistry False" "\<lambda>_. False"
      "\<lparr>uf_opens = True, uf_room = Some 2\<rparr>" "[]" True "\<lparr>w_out = [], w_room = None\<rparr>" "[1, 2, 3, 4, 5]"]
  by (simp add: open_writer_def case_prod_beta Let_def)

end
