(* ===== verification/Deploy.thy ===== *)
theory Deploy
  imports Upload Config
begin

text \<open>
  Model of the fleet management of the daemon, \<open>internal/mesh/cli.go\<close> and \<open>upgrade.go\<close>, with the parts of
  \<open>pkg/mesh/transport/deploy.go\<close> it calls: the addresses and the credential of a host, the chain of dialling methods, the round
  that connects to the hosts of the configuration or installs them, the reconciler that repeats it, and the upgrade of a peer. What
  the network and the other hosts do is an environment, asked by position: the log of a round lists what was done, and the
  \<open>k\<close>-th entry is answered by the environment at \<open>k\<close>. A connection is named by the position of the entry that opened it.
\<close>

section \<open>Addresses and credentials\<close>

text \<open>\<open>net.SplitHostPort\<close>\<close>

definition SplitHostPort :: "string \<Rightarrow> (string \<times> string) option" where
  "SplitHostPort hostport =
     (case last_index_byte hostport CHR '':'' of
        None \<Rightarrow> None
      | Some i \<Rightarrow>
          if hd hostport = CHR ''['' then
            (case index_byte hostport CHR '']'' of
               None \<Rightarrow> None
             | Some e \<Rightarrow>
                 if e + 1 \<noteq> i then None
                 else if CHR ''['' \<in> set (drop 1 hostport) \<or> CHR '']'' \<in> set (drop (e + 1) hostport) then None
                 else Some (take (e - 1) (drop 1 hostport), drop (i + 1) hostport))
          else if CHR '':'' \<in> set (take i hostport) \<or> CHR ''['' \<in> set hostport \<or> CHR '']'' \<in> set hostport then None
          else Some (take i hostport, drop (i + 1) hostport))"

definition split_addr :: "string \<Rightarrow> string \<times> string" where
  "split_addr base = (case SplitHostPort base of None \<Rightarrow> (base, []) | Some hp \<Rightarrow> hp)"

definition host_port :: "string \<Rightarrow> int \<Rightarrow> string" where
  "host_port host port = host @ '':'' @ itoa port"

definition ssh_addr_of :: "meshConfig \<Rightarrow> cfg_host \<Rightarrow> string \<Rightarrow> string" where
  "ssh_addr_of cfg hostCfg baseAddr =
     (let (hostStr, portStr) = split_addr baseAddr
      in if portStr \<noteq> [] then baseAddr else host_port hostStr (GetSSHPort hostCfg (cn_SSHPort (mc_Node cfg))))"

definition mesh_addr_of :: "meshConfig \<Rightarrow> cfg_host \<Rightarrow> string \<Rightarrow> string" where
  "mesh_addr_of cfg hostCfg baseAddr =
     host_port (fst (split_addr baseAddr)) (GetMeshPort hostCfg (cn_MeshPort (mc_Node cfg)))"

record deployCredential =
  dc_sshUser :: string
  dc_sshKey :: "octets option"
  dc_sshPass :: string

definition no_deploy_credential :: deployCredential where
  "no_deploy_credential = \<lparr>dc_sshUser = [], dc_sshKey = None, dc_sshPass = []\<rparr>"

text \<open>The credential is returned with the error; \<open>parseKey\<close> is the library's parser of private keys.\<close>

datatype cred_error = ParseSSHKey | UnsupportedType int

definition toDeployCredential :: "(octets \<Rightarrow> octets option) \<Rightarrow> credential \<Rightarrow> deployCredential \<times> cred_error option" where
  "toDeployCredential parseKey cred =
     (let dc = no_deploy_credential\<lparr>dc_sshUser := cr_username cred\<rparr>
      in if cr_type cred = CredSSHKey then
           (case parseKey (cr_privateKey cred) of
              None \<Rightarrow> (dc, Some ParseSSHKey)
            | Some signer \<Rightarrow> (dc\<lparr>dc_sshKey := Some signer\<rparr>, None))
         else if cr_type cred = CredSSHPassword then (dc\<lparr>dc_sshPass := cr_password cred\<rparr>, None)
         else (dc, Some (UnsupportedType (cr_type cred))))"

datatype auth_method = PublicKeys octets | Password string

definition buildSSHAuth :: "deployCredential \<Rightarrow> auth_method list option" where
  "buildSSHAuth cred =
     (let methods = (case dc_sshKey cred of None \<Rightarrow> [] | Some k \<Rightarrow> [PublicKeys k]) @
                    (if dc_sshPass cred \<noteq> [] then [Password (dc_sshPass cred)] else [])
      in if methods = [] then None else Some methods)"

text \<open>The credential of a host: that of its SSH address, or that of its name.\<close>

definition match_credential :: "vault \<Rightarrow> string \<Rightarrow> string \<Rightarrow> credential option" where
  "match_credential v sshAddr hostStr =
     (case vault_Match v sshAddr of
        (cred, True) \<Rightarrow> Some cred
      | (_, False) \<Rightarrow> (case vault_Match v hostStr of (cred, True) \<Rightarrow> Some cred | (_, False) \<Rightarrow> None))"

definition host_credential :: "(octets \<Rightarrow> octets option) \<Rightarrow> vault \<Rightarrow> meshConfig \<Rightarrow> cfg_host \<Rightarrow> string \<Rightarrow> deployCredential" where
  "host_credential parseKey v cfg hostCfg baseAddr =
     (case match_credential v (ssh_addr_of cfg hostCfg baseAddr) (fst (split_addr baseAddr)) of
        None \<Rightarrow> no_deploy_credential
      | Some cred \<Rightarrow> fst (toDeployCredential parseKey cred))"

section \<open>The command on the remote host\<close>

definition shellQuote :: "string \<Rightarrow> string" where
  "shellQuote s = CHR 0x27 # concat (map (\<lambda>c. if c = CHR 0x27 then [CHR 0x27, CHR 0x5C, CHR 0x27, CHR 0x27] else [c]) s) @ [CHR 0x27]"

definition exec_command :: "string \<Rightarrow> string list \<Rightarrow> string" where
  "exec_command remotePath execArgs =
     (let args = (if execArgs = [] then [''daemon''] else execArgs)
      in shellQuote remotePath @ '' '' @ join '' '' (map shellQuote args))"

definition upgradeRestartCommand :: "string \<Rightarrow> string" where
  "upgradeRestartCommand remotePath = ''sudo '' @ remotePath @ '' local-op install''"

text \<open>The commands of an upgrade over SSH: the program has been uploaded to \<open>tmpPath\<close>.\<close>

definition upgrade_tmp :: "string \<Rightarrow> string" where
  "upgrade_tmp remotePath = remotePath @ ''.tmp''"

definition upgrade_mv :: "string \<Rightarrow> string" where
  "upgrade_mv remotePath = ''sudo mv -f '' @ go_quote (upgrade_tmp remotePath) @ '' '' @ go_quote remotePath"

text \<open>The directory that \<open>uploadBinaryViaSFTP\<close> makes for the program.\<close>

definition sftp_dir :: "string \<Rightarrow> string" where
  "sftp_dir remotePath = take (length remotePath - length ''/cortex-mcp'') remotePath"

definition buildAuthMethods :: "deployCredential \<Rightarrow> auth_method list option" where
  "buildAuthMethods cred =
     (let methods = (case dc_sshKey cred of None \<Rightarrow> [] | Some k \<Rightarrow> [PublicKeys k]) @
                    (if dc_sshPass cred \<noteq> [] then [Password (dc_sshPass cred)] else [])
      in if methods = [] then None else Some methods)"

section \<open>Dialling\<close>

datatype route = DirectTCP | ViaProxy string | ViaGossipedProxy string | ViaTunnel string

text \<open>
  The network: the error of dialling an address, of a proxy, and of a tunnel over SSH. In a tunnel the key is used if there is one, else the
  password.
\<close>

record network_env =
  nv_tcp :: "string \<Rightarrow> string option"
  nv_proxy :: "string \<Rightarrow> string \<Rightarrow> string option"
  nv_tunnel :: "string \<Rightarrow> string \<Rightarrow> string \<Rightarrow> auth_method list \<Rightarrow> string option"

datatype dial_outcome = Connected route | DialFailed "string list"

definition proxy_matches :: "string \<Rightarrow> string \<Rightarrow> bool" where
  "proxy_matches pattern hostStr = (case filepath_Match pattern hostStr of Inr b \<Rightarrow> b | Inl _ \<Rightarrow> False)"

fun try_proxies :: "network_env \<Rightarrow> (string \<Rightarrow> route) \<Rightarrow> string \<Rightarrow> string \<Rightarrow> string \<Rightarrow> (string \<times> string) list \<Rightarrow> string list \<Rightarrow> dial_outcome" where
  "try_proxies net via kind hostStr addr [] errs = DialFailed errs"
| "try_proxies net via kind hostStr addr ((pattern, url) # ps) errs =
     (if proxy_matches pattern hostStr then
        (case nv_proxy net url addr of
           None \<Rightarrow> Connected (via url)
         | Some err \<Rightarrow> try_proxies net via kind hostStr addr ps (errs @ [kind @ ''('' @ url @ '')='' @ err]))
      else try_proxies net via kind hostStr addr ps errs)"

text \<open>A capability \<open>proxy:pattern=url\<close>.\<close>

definition gossiped_proxy :: "string \<Rightarrow> (string \<times> string) option" where
  "gossiped_proxy c = (if prefix ''proxy:'' c then cut CHR ''='' (trim_prefix ''proxy:'' c) else None)"

definition tunnel_auth :: "deployCredential \<Rightarrow> auth_method list" where
  "tunnel_auth dc =
     (case dc_sshKey dc of
        Some k \<Rightarrow> [PublicKeys k]
      | None \<Rightarrow> if dc_sshPass dc \<noteq> [] then [Password (dc_sshPass dc)] else [])"

definition cred_error_text :: "cred_error \<Rightarrow> string" where
  "cred_error_text e =
     (case e of
        ParseSSHKey \<Rightarrow> ''parse SSH key''
      | UnsupportedType ty \<Rightarrow> ''unsupported credential type '' @ itoa ty @ '' for SSH deployment'')"

definition try_tunnel :: "(octets \<Rightarrow> octets option) \<Rightarrow> network_env \<Rightarrow> meshConfig \<Rightarrow> vault \<Rightarrow> string \<Rightarrow> dialTarget \<Rightarrow> string list \<Rightarrow> dial_outcome" where
  "try_tunnel parseKey net cfg v hostStr target errs =
     (case vault_Match v hostStr of
        (_, False) \<Rightarrow> DialFailed (errs @ [''ssh=no_creds_in_vault''])
      | (cred, True) \<Rightarrow>
          (case toDeployCredential parseKey cred of
             (_, Some err) \<Rightarrow> DialFailed (errs @ [''ssh_cred_err='' @ cred_error_text err])
           | (dc, None) \<Rightarrow>
               let sshPort = (case Option.bind (mc_Hosts cfg) (\<lambda>hosts. hosts (dt_hostname target)) of
                      Some hCfg \<Rightarrow> if ch_SSHPort hCfg > 0 then ch_SSHPort hCfg else cn_SSHPort (mc_Node cfg)
                    | None \<Rightarrow> cn_SSHPort (mc_Node cfg));
                   sshAddr = host_port hostStr sshPort
               in (case nv_tunnel net sshAddr (dt_address target) (dc_sshUser dc) (tunnel_auth dc) of
                     None \<Rightarrow> Connected (ViaTunnel sshAddr)
                   | Some err \<Rightarrow> DialFailed (errs @ [''ssh='' @ err]))))"

text \<open>\<open>gossiped\<close>: the capabilities of all nodes as the index is walked, none when there is no node.\<close>

definition resilient_dial :: "(octets \<Rightarrow> octets option) \<Rightarrow> network_env \<Rightarrow> meshConfig \<Rightarrow> vault \<Rightarrow> string list \<Rightarrow> dialTarget \<Rightarrow> dial_outcome" where
  "resilient_dial parseKey net cfg v gossiped target =
     (let hostStr = fst (split_addr (dt_address target))
      in case nv_tcp net (dt_address target) of
           None \<Rightarrow> Connected DirectTCP
         | Some err \<Rightarrow>
             (case try_proxies net ViaProxy ''proxy'' hostStr (dt_address target)
                     (map (\<lambda>p. (px_Pattern p, px_URL p)) (elems (mc_Proxies cfg))) [''tcp='' @ err] of
                Connected r \<Rightarrow> Connected r
              | DialFailed errs1 \<Rightarrow>
                  (case try_proxies net ViaGossipedProxy ''gossip_proxy'' hostStr (dt_address target)
                          (List.map_filter gossiped_proxy gossiped) errs1 of
                     Connected r \<Rightarrow> Connected r
                   | DialFailed errs2 \<Rightarrow> try_tunnel parseKey net cfg v hostStr target errs2)))"

definition dial_error :: "dialTarget \<Rightarrow> string list \<Rightarrow> string" where
  "dial_error target errs = ''all dialing methods failed for '' @ dt_hostname target @ '': '' @ join '', '' errs"

section \<open>A round over the hosts\<close>

datatype effect =
    EDial dialTarget bool
  | EClose nat
  | EAddPeer nat bool
  | EUpgrade string bool
  | ERemoteVersion string "string option"
  | EDeploy string deployCredential bool
  | EBundle node_id bool
  | ESend nat octets bool
  | EAck nat bool
  | ECheckUpgrade node_id

record round_env =
  re_dial :: "nat \<Rightarrow> dialTarget \<Rightarrow> bool"
  re_addPeer :: "nat \<Rightarrow> nat \<Rightarrow> bool"
  re_upgrade :: "nat \<Rightarrow> bool"
  re_remoteVersion :: "nat \<Rightarrow> string option"
  re_deploy :: "nat \<Rightarrow> bool"
  re_bundle :: "nat \<Rightarrow> certBundle option"
  re_room :: "nat \<Rightarrow> nat option"
  re_ackBytes :: "nat \<Rightarrow> octets"
  re_now :: "nat \<Rightarrow> time"

record round_options =
  ro_skipDeploy :: bool
  ro_install :: bool
  ro_reconcile :: bool
  ro_force :: bool
  ro_regenerateKeys :: bool
  ro_hasPKI :: bool

type_synonym log = "effect list"

definition dial_log :: "round_env \<Rightarrow> node_id \<Rightarrow> string \<Rightarrow> log \<Rightarrow> nat option \<times> log" where
  "dial_log env host addr l =
     (let target = \<lparr>dt_hostname = host, dt_address = addr, dt_transport = [], dt_proxyURL = []\<rparr>; ok = re_dial env (length l) target
      in (if ok then Some (length l) else None, l @ [EDial target ok]))"

text \<open>The addresses in turn until one connects: the connection, its address for SSH, its address in the mesh and the credential.\<close>

fun dial_addresses :: "(octets \<Rightarrow> octets option) \<Rightarrow> round_env \<Rightarrow> vault \<Rightarrow> meshConfig \<Rightarrow> node_id \<Rightarrow> cfg_host \<Rightarrow> string list \<Rightarrow> log \<Rightarrow>
    (nat \<times> string \<times> string \<times> deployCredential) option \<times> log" where
  "dial_addresses parseKey env v cfg host hostCfg [] l = (None, l)"
| "dial_addresses parseKey env v cfg host hostCfg (baseAddr # addrs) l =
     (case dial_log env host (mesh_addr_of cfg hostCfg baseAddr) l of
        (Some c, l1) \<Rightarrow>
          (Some (c, ssh_addr_of cfg hostCfg baseAddr, mesh_addr_of cfg hostCfg baseAddr, host_credential parseKey v cfg hostCfg baseAddr), l1)
      | (None, l1) \<Rightarrow> dial_addresses parseKey env v cfg host hostCfg addrs l1)"

definition add_peer_log :: "round_env \<Rightarrow> nat \<Rightarrow> log \<Rightarrow> bool \<times> log" where
  "add_peer_log env c l =
     (let ok = re_addPeer env (length l) c
      in (ok, if ok then l @ [EAddPeer c True] else l @ [EAddPeer c False, EClose c]))"

fun dial_retry :: "round_env \<Rightarrow> node_id \<Rightarrow> string \<Rightarrow> nat \<Rightarrow> log \<Rightarrow> nat option \<times> log" where
  "dial_retry env host addr 0 l = (None, l)"
| "dial_retry env host addr (Suc n) l =
     (case dial_log env host addr l of (Some c, l1) \<Rightarrow> (Some c, l1) | (None, l1) \<Rightarrow> dial_retry env host addr n l1)"

text \<open>The backoff of a host that others reach; a time that was never set is \<open>None\<close>, and the clock is read once.\<close>

record nodeBackoff =
  nb_nextAttempt :: "time option"
  nb_interval :: duration

definition minute :: duration where "minute = 60 * 10 ^ 9"

definition hour :: duration where "hour = 60 * minute"

type_synonym backoffs = "(node_id \<rightharpoonup> nodeBackoff) option"

definition indirect_gate :: "time \<Rightarrow> node_id \<Rightarrow> backoffs \<Rightarrow> bool \<times> backoffs" where
  "indirect_gate now host bs =
     (case bs of
        None \<Rightarrow> (True, None)
      | Some m \<Rightarrow>
          (let b = (case m host of None \<Rightarrow> \<lparr>nb_nextAttempt = None, nb_interval = minute\<rparr> | Some b \<Rightarrow> b)
           in if (case nb_nextAttempt b of None \<Rightarrow> False | Some t \<Rightarrow> now < t) then (False, Some (m(host \<mapsto> b)))
              else (True, Some (m(host \<mapsto> \<lparr>nb_nextAttempt = Some (now + nb_interval b),
                nb_interval = (if nb_interval b * 2 > hour then hour else nb_interval b * 2)\<rparr>)))))"

record roundState =
  rs_log :: log
  rs_backoffs :: backoffs
  rs_deployed :: "(node_id \<times> nat) list"

definition join_mesh :: "round_env \<Rightarrow> node_id \<Rightarrow> nat \<Rightarrow> log \<Rightarrow> roundState \<Rightarrow> bool \<times> roundState" where
  "join_mesh env host c l st =
     (case add_peer_log env c l of
        (False, l1) \<Rightarrow> (False, st\<lparr>rs_log := l1\<rparr>)
      | (True, l1) \<Rightarrow> (True, st\<lparr>rs_log := l1, rs_deployed := rs_deployed st @ [(host, c)]\<rparr>))"

text \<open>A host that answers: it is joined, after an upgrade if it is reinstalled.\<close>

definition connect_host :: "round_env \<Rightarrow> round_options \<Rightarrow> node_id \<Rightarrow> nat \<Rightarrow> log \<Rightarrow> roundState \<Rightarrow> roundState" where
  "connect_host env ro host c l st =
     (case join_mesh env host c l st of
        (False, st1) \<Rightarrow> st1
      | (True, st1) \<Rightarrow>
          st1\<lparr>rs_backoffs := map_option (\<lambda>m. m(host := None)) (rs_backoffs st1),
            rs_log := rs_log st1 @ (if ro_skipDeploy ro then [] else [ECheckUpgrade host])\<rparr>)"

definition reinstall_host :: "round_env \<Rightarrow> round_options \<Rightarrow> node_id \<Rightarrow> nat \<Rightarrow> string \<Rightarrow> string \<Rightarrow> log \<Rightarrow> roundState \<Rightarrow> roundState" where
  "reinstall_host env ro host c sshAddr meshAddr l st =
     (let l1 = l @ [EClose c]; ok = re_upgrade env (length l1); l2 = l1 @ [EUpgrade sshAddr ok]
      in if \<not> ok then st\<lparr>rs_log := l2\<rparr>
         else case dial_log env host meshAddr l2 of
           (None, l3) \<Rightarrow> st\<lparr>rs_log := l3\<rparr>
         | (Some c2, l3) \<Rightarrow> connect_host env ro host c2 l3 st)"

text \<open>What is sent over the stream of a deployment; \<open>encodeConfig\<close> is the library's encoder of TOML.\<close>

definition deploy_bytes :: "(meshConfig \<Rightarrow> octets option) \<Rightarrow> meshConfig \<Rightarrow> bool \<Rightarrow> certBundle \<Rightarrow> nat option \<Rightarrow> bool \<times> octets" where
  "deploy_bytes encodeConfig cfg install bundle room =
     (let w = \<lparr>w_out = [], w_room = room\<rparr>
      in case encodeConfig (Stripped cfg) of
           None \<Rightarrow> (False, w_out (snd (w_write w [if install then 1 else 0])))
         | Some config \<Rightarrow>
             (case send_deployment install config bundle w of (e, w1) \<Rightarrow> (e = None, w_out w1)))"

definition fresh_host :: "(meshConfig \<Rightarrow> octets option) \<Rightarrow> round_env \<Rightarrow> round_options \<Rightarrow> meshConfig \<Rightarrow> node_id \<Rightarrow> string \<Rightarrow> string \<Rightarrow>
    deployCredential \<Rightarrow> log \<Rightarrow> roundState \<Rightarrow> roundState" where
  "fresh_host encodeConfig env ro cfg host sshAddr meshAddr cred l st =
     (if \<not> ro_hasPKI ro \<or> \<not> ro_install ro then st\<lparr>rs_log := l\<rparr>
      else
        let version = re_remoteVersion env (length l);
            l1 = (if ro_force ro then l else l @ [ERemoteVersion sshAddr version])
        in if \<not> ro_force ro \<and> version \<noteq> None \<and> version \<noteq> Some [] then st\<lparr>rs_log := l1\<rparr>
           else
             let s = length l1; ok = re_deploy env s; l2 = l1 @ [EDeploy sshAddr cred ok]
             in if \<not> ok then st\<lparr>rs_log := l2\<rparr>
                else case re_bundle env (length l2) of
                  None \<Rightarrow> st\<lparr>rs_log := l2 @ [EBundle host False, EClose s]\<rparr>
                | Some bundle \<Rightarrow>
                    let l3 = l2 @ [EBundle host True];
                        (sent, bytes) = deploy_bytes encodeConfig cfg (ro_install ro) bundle (re_room env (length l3));
                        l4 = l3 @ [ESend s bytes sent]
                    in if \<not> sent then st\<lparr>rs_log := l4 @ [EClose s]\<rparr>
                       else if ro_install ro then
                         (let ack = read_ack (re_ackBytes env (length l4)); l5 = l4 @ [EAck s ack, EClose s]
                          in if \<not> ack then st\<lparr>rs_log := l5\<rparr>
                             else case dial_retry env host meshAddr 30 l5 of
                               (None, l6) \<Rightarrow> st\<lparr>rs_log := l6\<rparr>
                             | (Some c, l6) \<Rightarrow> snd (join_mesh env host c l6 st))
                       else snd (join_mesh env host s l4 st))"

text \<open>One host of the configuration; \<open>isDirect\<close> and \<open>isIndirect\<close> are the nodes of the topology when the round began.\<close>

definition round_host :: "(octets \<Rightarrow> octets option) \<Rightarrow> (meshConfig \<Rightarrow> octets option) \<Rightarrow> round_env \<Rightarrow> round_options \<Rightarrow> vault \<Rightarrow> meshConfig \<Rightarrow>
    (node_id \<Rightarrow> bool) \<Rightarrow> (node_id \<Rightarrow> bool) \<Rightarrow> node_id \<times> cfg_host \<Rightarrow> roundState \<Rightarrow> roundState" where
  "round_host parseKey encodeConfig env ro v cfg isDirect isIndirect entry st0 =
     (let (host, hostCfg) = entry;
          (go, st) =
            (if ro_reconcile ro then
               if isDirect host then (False, st0)
               else if isIndirect host then
                 (case indirect_gate (re_now env (length (rs_log st0))) host (rs_backoffs st0) of
                    (g, bs) \<Rightarrow> (g, st0\<lparr>rs_backoffs := bs\<rparr>))
               else (True, st0)
             else (True, st0))
      in if \<not> go then st
         else case elems (ch_Addresses hostCfg) of
           [] \<Rightarrow> st
         | base0 # _ \<Rightarrow>
             (case dial_addresses parseKey env v cfg host hostCfg (elems (ch_Addresses hostCfg)) (rs_log st) of
                (None, l) \<Rightarrow>
                  fresh_host encodeConfig env ro cfg host (ssh_addr_of cfg hostCfg base0) (mesh_addr_of cfg hostCfg base0)
                    (host_credential parseKey v cfg hostCfg base0) l st
              | (Some (c, sshAddr, meshAddr, cred), l) \<Rightarrow>
                  if ro_install ro \<and> \<not> ro_force ro then st\<lparr>rs_log := l @ [EClose c]\<rparr>
                  else if ro_install ro \<and> ro_regenerateKeys ro then
                    fresh_host encodeConfig env ro cfg host sshAddr meshAddr cred (l @ [EClose c]) st
                  else if ro_install ro then reinstall_host env ro host c sshAddr meshAddr l st
                  else connect_host env ro host c l st))"

definition deployAndConnect :: "(octets \<Rightarrow> octets option) \<Rightarrow> (meshConfig \<Rightarrow> octets option) \<Rightarrow> round_env \<Rightarrow> round_options \<Rightarrow> vault \<Rightarrow> meshConfig \<Rightarrow>
    topologySnapshot \<Rightarrow> (node_id \<times> cfg_host) list \<Rightarrow> backoffs \<Rightarrow> roundState" where
  "deployAndConnect parseKey encodeConfig env ro v cfg topology hosts bs =
     fold (round_host parseKey encodeConfig env ro v cfg
        (\<lambda>h. \<exists>d\<in>set (ts_nodeDetails topology). nsu_nodeID d = h \<and> nsu_isDirect d)
        (\<lambda>h. \<exists>d\<in>set (ts_nodeDetails topology). nsu_nodeID d = h \<and> \<not> nsu_isDirect d))
       hosts \<lparr>rs_log = [], rs_backoffs = bs, rs_deployed = []\<rparr>"

section \<open>The reconciler\<close>

definition baseInterval :: duration where "baseInterval = 5 * 10 ^ 9"

definition maxInterval :: duration where "maxInterval = 60 * 10 ^ 9"

definition next_interval :: "duration \<Rightarrow> bool \<Rightarrow> duration" where
  "next_interval current joined =
     (if joined then baseInterval
      else let doubled = current * 2 in if doubled > maxInterval then maxInterval else doubled)"

text \<open>
  The rounds of the reconciler, the first at once and the others when the timer fires: what the environment is in each, with the
  topology and the order of the hosts. The result has the delays before the rounds and the states.
\<close>

fun reconcile_loop :: "(backoffs \<Rightarrow> 'r \<Rightarrow> roundState) \<Rightarrow> duration \<Rightarrow> backoffs \<Rightarrow> 'r list \<Rightarrow> (duration \<times> roundState) list" where
  "reconcile_loop runRound current bs [] = []"
| "reconcile_loop runRound current bs (r # rs) =
     (let st = runRound bs r
      in (current, st) # reconcile_loop runRound (next_interval current (rs_deployed st \<noteq> [])) (rs_backoffs st) rs)"

definition reconcile_options :: "bool \<Rightarrow> bool \<Rightarrow> round_options" where
  "reconcile_options skipDeploy hasPKI =
     \<lparr>ro_skipDeploy = skipDeploy, ro_install = False, ro_reconcile = True, ro_force = False, ro_regenerateKeys = False, ro_hasPKI = hasPKI\<rparr>"

record reconcile_round =
  rr_env :: round_env
  rr_topology :: topologySnapshot
  rr_hosts :: "(node_id \<times> cfg_host) list"

definition reconcile_step :: "(octets \<Rightarrow> octets option) \<Rightarrow> (meshConfig \<Rightarrow> octets option) \<Rightarrow> bool \<Rightarrow> bool \<Rightarrow> vault \<Rightarrow> meshConfig \<Rightarrow>
    backoffs \<Rightarrow> reconcile_round \<Rightarrow> roundState" where
  "reconcile_step parseKey encodeConfig skipDeploy hasPKI v cfg bs r =
     deployAndConnect parseKey encodeConfig (rr_env r) (reconcile_options skipDeploy hasPKI) v cfg (rr_topology r) (rr_hosts r) bs"

definition runConnectionReconciler :: "(octets \<Rightarrow> octets option) \<Rightarrow> (meshConfig \<Rightarrow> octets option) \<Rightarrow> bool \<Rightarrow> bool \<Rightarrow> vault \<Rightarrow> meshConfig \<Rightarrow>
    reconcile_round list \<Rightarrow> (duration \<times> roundState) list" where
  "runConnectionReconciler parseKey encodeConfig skipDeploy hasPKI v cfg rounds =
     (case rounds of
        [] \<Rightarrow> []
      | r # rs \<Rightarrow>
          (let runRound = reconcile_step parseKey encodeConfig skipDeploy hasPKI v cfg; st = runRound (Some Map.empty) r
           in (0, st) # reconcile_loop runRound baseInterval (rs_backoffs st) rs))"

section \<open>Upgrading a peer\<close>

text \<open>
  Decoding the version of an answer, \<open>data.application_version\<close>; \<open>None\<close> is an answer that is no JSON of that form.
\<close>

definition dec_version :: "string \<times> json \<Rightarrow> string \<Rightarrow> string option" where
  "dec_version v x = (case snd v of JNull \<Rightarrow> Some x | _ \<Rightarrow> decode_member dec_string x ''application_version'' (snd v))"

definition remote_version :: "string \<Rightarrow> string option" where
  "remote_version content = Option.bind (json_parse content) (decode_member dec_version [] ''data'')"

datatype upgrade_outcome =
    InfoFailed | BadAnswer | BadVersion | UpToDate | UploadFailed | DialUpgradeFailed | NotScheduled | Scheduled | Panics

definition upgrade_args :: string where
  "upgrade_args = json_object [(''path'', json_string DefaultUpdatePath)]"

text \<open>The peer: its answer to \<open>get_system_info\<close>, the result of the upload, and its answer to \<open>node_upgrade\<close>; \<open>None\<close> when it cannot be
  reached. A call of \<open>node_upgrade\<close> that fails after it was dialled has no result, and the log message that reads its content panics.\<close>

definition checkAndUpgradePeer :: "string \<Rightarrow> toolResult option \<Rightarrow> bool \<Rightarrow> (string \<Rightarrow> toolResult option option) \<Rightarrow> upgrade_outcome" where
  "checkAndUpgradePeer localVersion info uploadOk invokeUpgrade =
     (case info of
        None \<Rightarrow> InfoFailed
      | Some res \<Rightarrow>
          if tr_isError res then InfoFailed
          else case remote_version (tr_content res) of
            None \<Rightarrow> BadAnswer
          | Some remoteVersion \<Rightarrow>
              (case (atoi localVersion, atoi remoteVersion) of
                 (Some localVer, Some remoteVer) \<Rightarrow>
                   if localVer \<le> remoteVer then UpToDate
                   else if \<not> uploadOk then UploadFailed
                   else (case invokeUpgrade upgrade_args of
                           None \<Rightarrow> DialUpgradeFailed
                         | Some None \<Rightarrow> Panics
                         | Some (Some r) \<Rightarrow> if tr_isError r then NotScheduled else Scheduled)
               | _ \<Rightarrow> BadVersion))"

section \<open>Commands\<close>

text \<open>\<open>input\<close> is the line that was read, if any.\<close>

definition promptConfirmation :: "string \<Rightarrow> string option \<Rightarrow> string option" where
  "promptConfirmation action input =
     (case input of
        None \<Rightarrow> Some ''aborted''
      | Some l \<Rightarrow>
          let t = trim_space l
          in if t \<noteq> action then Some (''aborted: input '' @ CHR 0x27 # t @ CHR 0x27 # '' did not match '' @ CHR 0x27 # action @ [CHR 0x27]) else None)"

definition env_nodeID :: "meshConfig \<Rightarrow> string \<Rightarrow> string \<Rightarrow> string" where
  "env_nodeID cfg envVar hostname =
     (let id1 = cn_ID (mc_Node cfg); id2 = (if id1 = [] then envVar else id1) in if id2 = [] then hostname else id2)"

fun unique_loop :: "string list \<Rightarrow> string list \<Rightarrow> string list" where
  "unique_loop seen [] = []"
| "unique_loop seen (p # ps) = (if p \<in> set seen then unique_loop seen ps else p # unique_loop (seen @ [p]) ps)"

definition config_paths :: "string option \<Rightarrow> string option \<Rightarrow> string list" where
  "config_paths exe home =
     unique_loop [] ([''mesh.toml'', ''/opt/cortex-mcp/etc/mesh.toml'', ''/opt/cortex-mcp/bin/mesh.toml''] @
       (case exe of None \<Rightarrow> [] | Some e \<Rightarrow> [(if path_dir e = ''/'' then [] else path_dir e) @ ''/mesh.toml'']) @
       (case home of None \<Rightarrow> [] | Some h \<Rightarrow> [h @ ''/.cortex-mcp/mesh.toml'']))"

text \<open>The path that is loaded, or \<open>None\<close> when no file is found.\<close>

definition loadConfig_path :: "(string \<Rightarrow> bool) \<Rightarrow> string option \<Rightarrow> string option \<Rightarrow> string \<Rightarrow> string option" where
  "loadConfig_path isThere exe home path =
     (if path \<noteq> [] then Some path else find isThere (config_paths exe home))"

definition staticGroupResolver_Resolve :: "(string \<rightharpoonup> string list option) option \<Rightarrow> string \<Rightarrow> string \<Rightarrow> string + string list" where
  "staticGroupResolver_Resolve groups source name =
     (case Option.bind groups (\<lambda>m. m name) of
        Some nodes \<Rightarrow> Inr (elems nodes)
      | None \<Rightarrow> Inl (''unknown group: '' @ name))"

section \<open>Removing and starting the fleet\<close>

text \<open>
  What is done to which node: an uninstallation over the mesh, with its result, and one or a start over SSH. \<open>sort.Slice\<close> is not stable, so that
  \<open>order\<close> is any order by falling impedance.
\<close>

datatype fleet_effect =
    MeshUninstall node_id bool
  | NoCredentials node_id string
  | BadCredentials node_id string
  | SSHUninstall node_id string deployCredential bool
  | SSHStart node_id string deployCredential bool

fun mesh_uninstall :: "(node_id \<Rightarrow> bool) \<Rightarrow> string \<Rightarrow> meshConfig \<Rightarrow> nodeSummary list \<Rightarrow> fleet_effect list" where
  "mesh_uninstall invoke target cfg [] = []"
| "mesh_uninstall invoke target cfg (entry # entries) =
     (let id = nsu_nodeID entry; others = mesh_uninstall invoke target cfg entries
      in if id = ''uninstall-cli'' then others
         else if target \<noteq> [] \<and> id \<noteq> target then others
         else if Option.bind (mc_Hosts cfg) (\<lambda>hosts. hosts id) = None then others
         else MeshUninstall id (invoke id) # others)"

definition ssh_fleet :: "(octets \<Rightarrow> octets option) \<Rightarrow> (node_id \<Rightarrow> string \<Rightarrow> deployCredential \<Rightarrow> fleet_effect) \<Rightarrow> vault \<Rightarrow> meshConfig \<Rightarrow>
    node_id \<times> cfg_host \<Rightarrow> fleet_effect list" where
  "ssh_fleet parseKey act v cfg entry =
     (let (host, hostCfg) = entry
      in case elems (ch_Addresses hostCfg) of
           [] \<Rightarrow> []
         | baseAddr # _ \<Rightarrow>
             (let sshAddr = ssh_addr_of cfg hostCfg baseAddr
              in case match_credential v sshAddr (fst (split_addr baseAddr)) of
                   None \<Rightarrow> [NoCredentials host sshAddr]
                 | Some cred \<Rightarrow>
                     (case toDeployCredential parseKey cred of
                        (_, Some _) \<Rightarrow> [BadCredentials host sshAddr]
                      | (dc, None) \<Rightarrow> [act host sshAddr dc])))"

definition wanted :: "string \<Rightarrow> node_id \<Rightarrow> bool" where
  "wanted target h \<longleftrightarrow> \<not> (target \<noteq> [] \<and> h \<noteq> target)"

definition uninstallFleet :: "(octets \<Rightarrow> octets option) \<Rightarrow> (node_id \<Rightarrow> bool) \<Rightarrow> (node_id \<Rightarrow> bool) \<Rightarrow> vault \<Rightarrow> meshConfig \<Rightarrow> string \<Rightarrow>
    nodeSummary list \<Rightarrow> (node_id \<times> cfg_host) list \<Rightarrow> fleet_effect list" where
  "uninstallFleet parseKey invoke deploy v cfg target order hosts =
     (let first = mesh_uninstall invoke target cfg order
      in first @ concat (map (ssh_fleet parseKey (\<lambda>h a dc. SSHUninstall h a dc (deploy h)) v cfg)
           (filter (\<lambda>(h, _). wanted target h \<and> MeshUninstall h True \<notin> set first) hosts)))"

definition startFleet :: "(octets \<Rightarrow> octets option) \<Rightarrow> (node_id \<Rightarrow> bool) \<Rightarrow> vault \<Rightarrow> meshConfig \<Rightarrow> string \<Rightarrow> (node_id \<times> cfg_host) list \<Rightarrow> fleet_effect list" where
  "startFleet parseKey start v cfg target hosts =
     concat (map (ssh_fleet parseKey (\<lambda>h a dc. SSHStart h a dc (start h)) v cfg) (filter (\<lambda>(h, _). wanted target h) hosts))"

section \<open>Deploying from a node\<close>

text \<open>
  The tool \<open>node_deploy\<close>: the credential that the mesh grants, or an error; the stream of the deployment; and whether the peer
  joined. The texts of errors are arguments.
\<close>

record node_deploy_env =
  nd_parseError :: "string \<Rightarrow> string"
  nd_credential :: "string \<Rightarrow> string + credential"
  nd_parseKeyError :: string
  nd_deploy :: "string \<Rightarrow> deployCredential \<Rightarrow> string option"
  nd_addPeer :: "string option"

definition node_deploy_target :: "string \<Rightarrow> string option" where
  "node_deploy_target args =
     (if args = [] then Some [] else Option.bind (json_parse args) (decode_member dec_string [] ''target''))"

definition node_deploy :: "(octets \<Rightarrow> octets option) \<Rightarrow> node_deploy_env \<Rightarrow> bool \<Rightarrow> string \<Rightarrow> toolResult" where
  "node_deploy parseKey env hasNode args =
     (case node_deploy_target args of
        None \<Rightarrow> NewErrorResult (''parse args: '' @ nd_parseError env args)
      | Some target \<Rightarrow>
          if target = [] then NewErrorResult ''target is required: provide the host to deploy to''
          else if \<not> hasNode then NewErrorResult ''node_deploy requires an active mesh node''
          else case nd_credential env target of
            Inl err \<Rightarrow> NewErrorResult (''failed to get credentials: '' @ err)
          | Inr cred \<Rightarrow>
              (case toDeployCredential parseKey cred of
                 (_, Some e) \<Rightarrow> NewErrorResult (''failed to parse credential: '' @ (case e of
                    ParseSSHKey \<Rightarrow> ''parse SSH key: '' @ nd_parseKeyError env | _ \<Rightarrow> cred_error_text e))
               | (dc, None) \<Rightarrow>
                   (case nd_deploy env target dc of
                      Some err \<Rightarrow> NewErrorResult (''deployment failed: '' @ err)
                    | None \<Rightarrow>
                        (case nd_addPeer env of
                           Some err \<Rightarrow> NewErrorResult (''failed to add peer: '' @ err)
                         | None \<Rightarrow>
                             \<lparr>tr_content = json_object [(''status'', json_string ''deployed''), (''target'', json_string target)],
                              tr_isError = False\<rparr>))))"

section \<open>Quoting\<close>

text \<open>
  How a POSIX shell splits a command into words, as far as quotes, escapes and spaces go: \<open>None\<close> for an unfinished quote and for any character
  outside quotes that a shell may give a meaning. \<open>cur\<close> is the word that is being read.
\<close>

definition word_of :: "string option \<Rightarrow> string" where
  "word_of cur = (case cur of None \<Rightarrow> [] | Some w \<Rightarrow> w)"

definition plain_char :: "char \<Rightarrow> bool" where
  "plain_char c \<longleftrightarrow> c \<in> set ''abcdefghijklmnopqrstuvwxyzABCDEFGHIJKLMNOPQRSTUVWXYZ0123456789_./-+,:@''"

fun sh_words :: "string option \<Rightarrow> string \<Rightarrow> string list option"
  and sh_quoted :: "string \<Rightarrow> string \<Rightarrow> string list option" where
  "sh_words cur [] = Some (case cur of None \<Rightarrow> [] | Some w \<Rightarrow> [w])"
| "sh_words cur (c # s) =
     (if c = CHR 0x27 then sh_quoted (word_of cur) s
      else if c = CHR 0x5C then (case s of [] \<Rightarrow> None | d # t \<Rightarrow> sh_words (Some (word_of cur @ [d])) t)
      else if c = CHR '' '' then
        (case cur of None \<Rightarrow> sh_words None s | Some w \<Rightarrow> map_option (Cons w) (sh_words None s))
      else if plain_char c then sh_words (Some (word_of cur @ [c])) s
      else None)"
| "sh_quoted w [] = None"
| "sh_quoted w (c # s) = (if c = CHR 0x27 then sh_words (Some w) s else sh_quoted (w @ [c]) s)"

lemma word_of_Some [simp]: "word_of (Some w) = w"
  by (simp add: word_of_def)

lemma sh_quoted_body:
  "sh_quoted w (concat (map (\<lambda>c. if c = CHR 0x27 then [CHR 0x27, CHR 0x5C, CHR 0x27, CHR 0x27] else [c]) s) @ CHR 0x27 # r) =
   sh_words (Some (w @ s)) r"
  by (induction s arbitrary: w) simp_all

lemma sh_quote: "sh_words None (shellQuote s @ r) = sh_words (Some s) r"
  using sh_quoted_body [of "[]" s r] by (simp add: shellQuote_def word_of_def)

lemma sh_quote_join: "sh_words (Some w) (concat (map (\<lambda>a. CHR '' '' # shellQuote a) args)) = Some (w # args)"
proof (induction args arbitrary: w)
  case (Cons a args)
  then show ?case by (simp add: sh_quote)
qed simp

lemma join_space: "args \<noteq> [] \<Longrightarrow> CHR '' '' # join '' '' (map shellQuote args) = concat (map (\<lambda>a. CHR '' '' # shellQuote a) args)"
proof (induction args)
  case (Cons a args)
  then show ?case by (cases "args = []") (simp_all add: join_Cons)
qed simp


section \<open>No connection is left behind\<close>

fun opens_one :: "effect \<Rightarrow> bool" where
  "opens_one (EDial target ok) = ok"
| "opens_one (EDeploy addr cred ok) = ok"
| "opens_one _ = False"

fun closing_of :: "effect \<Rightarrow> nat list" where
  "closing_of (EClose c) = [c]"
| "closing_of _ = []"

fun joining_of :: "effect \<Rightarrow> nat list" where
  "joining_of (EAddPeer c ok) = (if ok then [c] else [])"
| "joining_of _ = []"

fun opens :: "nat \<Rightarrow> log \<Rightarrow> nat list" where
  "opens k [] = []"
| "opens k (e # l) = (if opens_one e then k # opens (Suc k) l else opens (Suc k) l)"

definition closes :: "log \<Rightarrow> nat list" where
  "closes l = concat (map closing_of l)"

definition joins :: "log \<Rightarrow> nat list" where
  "joins l = concat (map joining_of l)"

lemma opens_append: "opens k (a @ b) = opens k a @ opens (k + length a) b"
  by (induction a arbitrary: k) simp_all

lemma closes_append [simp]: "closes (a @ b) = closes a @ closes b" "closes [] = []" "closes (e # l) = closing_of e @ closes l"
  by (simp_all add: closes_def)

lemma joins_append [simp]: "joins (a @ b) = joins a @ joins b" "joins [] = []" "joins (e # l) = joining_of e @ joins l"
  by (simp_all add: joins_def)

text \<open>\<open>held l H\<close>: of the connections opened in \<open>l\<close>, those of \<open>H\<close> have been neither closed nor joined; \<open>all_used\<close>: none is left and those joined are the result.\<close>

definition held :: "log \<Rightarrow> nat multiset \<Rightarrow> bool" where
  "held l H \<longleftrightarrow> mset (opens 0 l) = mset (closes l) + mset (joins l) + H"

definition all_used :: "log \<Rightarrow> nat multiset \<Rightarrow> roundState \<Rightarrow> bool" where
  "all_used l H st \<longleftrightarrow> held l H \<and> map snd (rs_deployed st) = joins l"

lemma used_plain: "all_used l H st \<Longrightarrow> \<not> opens_one e \<Longrightarrow> closing_of e = [] \<Longrightarrow> joining_of e = [] \<Longrightarrow> all_used (l @ [e]) H st"
  by (simp add: all_used_def held_def opens_append)

lemma used_open: "all_used l H st \<Longrightarrow> opens_one e \<Longrightarrow> closing_of e = [] \<Longrightarrow> joining_of e = [] \<Longrightarrow> all_used (l @ [e]) (add_mset (length l) H) st"
  by (simp add: all_used_def held_def opens_append)

lemma used_close: "all_used l (add_mset c H) st \<Longrightarrow> all_used (l @ [EClose c]) H st"
  by (simp add: all_used_def held_def opens_append)

lemma used_join:
  "all_used l (add_mset c H) st \<Longrightarrow> all_used (l @ [EAddPeer c True]) H (st\<lparr>rs_log := x, rs_deployed := rs_deployed st @ [(host, c)]\<rparr>)"
  by (simp add: all_used_def held_def opens_append)

lemma used_state [simp]: "all_used l H (st\<lparr>rs_log := x\<rparr>) = all_used l H st" "all_used l H (st\<lparr>rs_backoffs := y\<rparr>) = all_used l H st"
  by (simp_all add: all_used_def)

definition settled :: "roundState \<Rightarrow> bool" where
  "settled st \<longleftrightarrow> all_used (rs_log st) {#} st"

lemma settled_log: "all_used l {#} st \<Longrightarrow> settled (st\<lparr>rs_log := l\<rparr>)"
  by (simp add: settled_def)

lemma settled_backoffs [simp]: "settled (st\<lparr>rs_backoffs := y\<rparr>) = settled st"
  by (simp add: settled_def)

lemma dial_log_used:
  "all_used l H st \<Longrightarrow> dial_log env host addr l = (r, l1) \<Longrightarrow>
   all_used l1 (case r of None \<Rightarrow> H | Some c \<Rightarrow> add_mset c H) st"
  using used_plain [of l H st "EDial t False" for t] used_open [of l H st "EDial t True" for t]
  by (auto simp: dial_log_def Let_def split: if_splits)

lemma dial_addresses_used:
  "all_used l H st \<Longrightarrow> dial_addresses parseKey env v cfg host hostCfg addrs l = (r, l1) \<Longrightarrow>
   all_used l1 (case r of None \<Rightarrow> H | Some (c, _) \<Rightarrow> add_mset c H) st"
proof (induction addrs arbitrary: l)
  case (Cons a addrs)
  obtain d l2 where d: "dial_log env host (mesh_addr_of cfg hostCfg a) l = (d, l2)" by fastforce
  note u = dial_log_used [OF Cons.prems(1) d]
  show ?case
  proof (cases d)
    case None
    then show ?thesis using Cons.IH [of l2] Cons.prems(2) u d by simp
  next
    case (Some c)
    then show ?thesis using Cons.prems(2) u d by auto
  qed
qed simp

lemma dial_retry_used:
  "all_used l H st \<Longrightarrow> dial_retry env host addr n l = (r, l1) \<Longrightarrow>
   all_used l1 (case r of None \<Rightarrow> H | Some c \<Rightarrow> add_mset c H) st"
proof (induction n arbitrary: l)
  case (Suc n)
  obtain d l2 where d: "dial_log env host addr l = (d, l2)" by fastforce
  note u = dial_log_used [OF Suc.prems(1) d]
  show ?case
  proof (cases d)
    case None
    then show ?thesis using Suc.IH [of l2] Suc.prems(2) u d by simp
  next
    case (Some c)
    then show ?thesis using Suc.prems(2) u d by auto
  qed
qed simp

lemma join_mesh_settled:
  assumes "all_used l {#c#} st" and "join_mesh env host c l st = (ok, st1)"
  shows "settled st1"
proof (cases "re_addPeer env (length l) c")
  case True
  then show ?thesis using assms used_join [OF assms(1)] by (auto simp: join_mesh_def add_peer_log_def settled_def)
next
  case False
  have "all_used ((l @ [EAddPeer c False]) @ [EClose c]) {#} st"
    by (intro used_close used_plain assms(1)) simp_all
  then show ?thesis using False assms(2) by (auto simp: join_mesh_def add_peer_log_def settled_def)
qed

lemma connect_host_settled: "all_used l {#c#} st \<Longrightarrow> settled (connect_host env ro host c l st)"
proof -
  assume u: "all_used l {#c#} st"
  obtain ok st1 where j: "join_mesh env host c l st = (ok, st1)" by fastforce
  have s: "settled st1" by (rule join_mesh_settled [OF u j])
  show ?thesis
  proof (cases ok)
    case True
    have "all_used (rs_log st1 @ [ECheckUpgrade host]) {#} st1" using s by (intro used_plain) (simp_all add: settled_def)
    then show ?thesis using True s by (simp add: connect_host_def j settled_def)
  qed (use s in \<open>simp add: connect_host_def j\<close>)
qed

lemma reinstall_host_settled: "all_used l {#c#} st \<Longrightarrow> settled (reinstall_host env ro host c sshAddr meshAddr l st)"
proof -
  assume u: "all_used l {#c#} st"
  define l1 where "l1 = l @ [EClose c]"
  define ok where "ok = re_upgrade env (length l1)"
  define l2 where "l2 = l1 @ [EUpgrade sshAddr ok]"
  have l2: "all_used l2 {#} st" unfolding l2_def l1_def by (intro used_plain used_close u) simp_all
  obtain r l3 where d: "dial_log env host meshAddr l2 = (r, l3)" by fastforce
  have "settled (case r of None \<Rightarrow> st\<lparr>rs_log := l3\<rparr> | Some c2 \<Rightarrow> connect_host env ro host c2 l3 st)"
    using dial_log_used [OF l2 d] by (cases r) (simp_all add: settled_log connect_host_settled)
  moreover have "reinstall_host env ro host c sshAddr meshAddr l st =
      (if \<not> ok then st\<lparr>rs_log := l2\<rparr> else case r of None \<Rightarrow> st\<lparr>rs_log := l3\<rparr> | Some c2 \<Rightarrow> connect_host env ro host c2 l3 st)"
    unfolding reinstall_host_def Let_def l1_def [symmetric] ok_def [symmetric] l2_def [symmetric] d by (simp split: option.split)
  ultimately show ?thesis using settled_log [OF l2] by simp
qed

lemma fresh_host_settled: "all_used l {#} st \<Longrightarrow> settled (fresh_host encodeConfig env ro cfg host sshAddr meshAddr cred l st)"
proof -
  assume u: "all_used l {#} st"
  define version where "version = re_remoteVersion env (length l)"
  define l1 where "l1 = (if ro_force ro then l else l @ [ERemoteVersion sshAddr version])"
  have l1: "all_used l1 {#} st" using u by (auto simp: l1_def intro: used_plain)
  define s where "s = length l1"
  define l2 where "l2 = l1 @ [EDeploy sshAddr cred True]"
  have l2: "all_used l2 {#s#} st" unfolding l2_def s_def by (intro used_open l1) simp_all
  have l2f: "all_used (l1 @ [EDeploy sshAddr cred False]) {#} st" by (intro used_plain l1) simp_all
  have nobundle: "all_used (l2 @ [EBundle host False, EClose s]) {#} st"
    using used_close [OF used_plain [OF l2, of "EBundle host False"]] by simp
  define l3 where "l3 = l2 @ [EBundle host True]"
  have l4: "all_used (l3 @ [ESend s bytes sent]) {#s#} st" for bytes sent
    unfolding l3_def by (intro used_plain l2) simp_all
  have l4c: "all_used (l3 @ [ESend s bytes sent, EClose s]) {#} st" for bytes sent
    using used_close [OF l4, of bytes sent] by simp
  have l5: "all_used (l3 @ [ESend s bytes sent, EAck s ack, EClose s]) {#} st" for bytes sent ack
    using used_close [OF used_plain [OF l4, of "EAck s ack" bytes sent]] by simp
  have retry: "settled (case dial_retry env host meshAddr n l5 of (None, l6) \<Rightarrow> st\<lparr>rs_log := l6\<rparr>
      | (Some c, l6) \<Rightarrow> snd (join_mesh env host c l6 st))" if "all_used l5 {#} st" for l5 n
  proof -
    obtain r l6 where d: "dial_retry env host meshAddr n l5 = (r, l6)" by fastforce
    note used = dial_retry_used [OF that d]
    show ?thesis
    proof (cases r)
      case (Some c)
      obtain ok st1 where "join_mesh env host c l6 st = (ok, st1)" by fastforce
      then show ?thesis using join_mesh_settled [of l6 c st env host ok st1] used d Some by simp
    qed (use used d settled_log in simp)
  qed
  have direct: "settled (snd (join_mesh env host s (l3 @ [ESend s bytes sent]) st))" for bytes sent
    using join_mesh_settled [OF l4] by (metis prod.collapse)
  show ?thesis
    unfolding fresh_host_def Let_def version_def [symmetric] l1_def [symmetric] s_def [symmetric]
    using settled_log [OF u] settled_log [OF l1] settled_log [OF l2f] settled_log [OF nobundle] settled_log [OF l4c] settled_log [OF l5]
      retry [OF l5] direct
    by (auto simp: l2_def [symmetric] l3_def [symmetric] split: option.split prod.split)
qed

lemma round_host_settled:
  assumes "settled st"
  shows "settled (round_host parseKey encodeConfig env ro v cfg isDirect isIndirect entry st)"
proof -
  obtain host hostCfg where entry: "entry = (host, hostCfg)" by fastforce
  define gated where "gated =
      (if ro_reconcile ro then
         if isDirect host then (False, st)
         else if isIndirect host then
           (case indirect_gate (re_now env (length (rs_log st))) host (rs_backoffs st) of (g, bs) \<Rightarrow> (g, st\<lparr>rs_backoffs := bs\<rparr>))
         else (True, st)
       else (True, st))"
  obtain go st1 where g: "gated = (go, st1)" by fastforce
  have s1: "settled st1" using assms g by (auto simp: gated_def split: if_splits prod.splits)
  have u1: "all_used (rs_log st1) {#} st1" using s1 by (simp add: settled_def)
  note gate = gated_def [symmetric] g
  show ?thesis
  proof (cases "go \<and> elems (ch_Addresses hostCfg) \<noteq> []")
    case False
    then show ?thesis
      unfolding round_host_def entry Let_def prod.case gate using s1 by (auto split: list.split)
  next
    case True
    then obtain base0 addrs where a: "elems (ch_Addresses hostCfg) = base0 # addrs" by (cases "elems (ch_Addresses hostCfg)") auto
    obtain r l where d: "dial_addresses parseKey env v cfg host hostCfg (base0 # addrs) (rs_log st1) = (r, l)" by fastforce
    note u = dial_addresses_used [OF u1 d]
    show ?thesis
    proof (cases r)
      case None
      then show ?thesis
        unfolding round_host_def entry Let_def prod.case gate using True u fresh_host_settled by (simp add: a d del: dial_addresses.simps)
    next
      case (Some x)
      obtain c sshAddr meshAddr cred where x: "x = (c, sshAddr, meshAddr, cred)" by (cases x)
      have uc: "all_used l {#c#} st1" using u Some x by simp
      show ?thesis
        unfolding round_host_def entry Let_def prod.case gate
        using True Some x settled_log [OF used_close [OF uc]] fresh_host_settled [OF used_close [OF uc]]
          reinstall_host_settled [OF uc] connect_host_settled [OF uc]
        by (simp add: a d del: dial_addresses.simps)
    qed
  qed
qed


section \<open>What a round may do\<close>

text \<open>The bytes of a deployment: its mode, the configuration without credentials, and the certificates.\<close>

definition deployment_bytes :: "(meshConfig \<Rightarrow> octets option) \<Rightarrow> meshConfig \<Rightarrow> bool \<Rightarrow> certBundle \<Rightarrow> octets" where
  "deployment_bytes encodeConfig cfg install bundle =
     (if install then 1 else 0) #
     (case encodeConfig (Stripped cfg) of None \<Rightarrow> [] | Some config \<Rightarrow> encode config @ bundle_bytes bundle)"

fun permitted :: "(meshConfig \<Rightarrow> octets option) \<Rightarrow> round_options \<Rightarrow> meshConfig \<Rightarrow> (node_id \<Rightarrow> bool) \<Rightarrow> log \<Rightarrow> effect \<Rightarrow> bool" where
  "permitted encodeConfig ro cfg isDirect l (EDial target ok) = (\<not> (ro_reconcile ro \<and> isDirect (dt_hostname target)))"
| "permitted encodeConfig ro cfg isDirect l (EUpgrade addr ok) = (ro_install ro \<and> ro_force ro)"
| "permitted encodeConfig ro cfg isDirect l (ERemoteVersion addr version) = (ro_install ro \<and> \<not> ro_force ro)"
| "permitted encodeConfig ro cfg isDirect l (EDeploy addr cred ok) = (ro_install ro \<and> ro_hasPKI ro)"
| "permitted encodeConfig ro cfg isDirect l (EBundle host ok) = (ro_install ro \<and> ro_hasPKI ro)"
| "permitted encodeConfig ro cfg isDirect l (ESend s bytes ok) =
     (ro_install ro \<and> s < length l \<and> (case l ! s of EDeploy addr cred started \<Rightarrow> started | _ \<Rightarrow> False) \<and>
      (\<exists>bundle. prefix bytes (deployment_bytes encodeConfig cfg (ro_install ro) bundle)))"
| "permitted encodeConfig ro cfg isDirect l (EAck s ok) = ro_install ro"
| "permitted encodeConfig ro cfg isDirect l _ = True"

definition all_permitted :: "(meshConfig \<Rightarrow> octets option) \<Rightarrow> round_options \<Rightarrow> meshConfig \<Rightarrow> (node_id \<Rightarrow> bool) \<Rightarrow> log \<Rightarrow> bool" where
  "all_permitted encodeConfig ro cfg isDirect l \<longleftrightarrow> list_all (permitted encodeConfig ro cfg isDirect l) l"

lemma permitted_mono: "permitted encodeConfig ro cfg D l e \<Longrightarrow> permitted encodeConfig ro cfg D (l @ x) e"
  by (cases e) (auto simp: nth_append)

lemma permitted_snoc:
  "all_permitted encodeConfig ro cfg D l \<Longrightarrow> permitted encodeConfig ro cfg D (l @ [e]) e \<Longrightarrow> all_permitted encodeConfig ro cfg D (l @ [e])"
  using permitted_mono by (auto simp: all_permitted_def list_all_iff)

lemma permitted_close: "all_permitted encodeConfig ro cfg D l \<Longrightarrow> all_permitted encodeConfig ro cfg D (l @ [EClose c])"
  by (intro permitted_snoc) simp_all

lemma dial_log_permitted:
  "all_permitted encodeConfig ro cfg D l \<Longrightarrow> \<not> (ro_reconcile ro \<and> D host) \<Longrightarrow> all_permitted encodeConfig ro cfg D (snd (dial_log env host addr l))"
  by (auto simp: dial_log_def Let_def intro!: permitted_snoc)

lemma dial_addresses_permitted:
  "all_permitted encodeConfig ro cfg D l \<Longrightarrow> \<not> (ro_reconcile ro \<and> D host) \<Longrightarrow>
   all_permitted encodeConfig ro cfg D (snd (dial_addresses parseKey env v cfg host hostCfg addrs l))"
proof (induction addrs arbitrary: l)
  case (Cons a addrs)
  obtain d l2 where d: "dial_log env host (mesh_addr_of cfg hostCfg a) l = (d, l2)" by fastforce
  have "all_permitted encodeConfig ro cfg D l2" using dial_log_permitted [OF Cons.prems, of env "mesh_addr_of cfg hostCfg a"] d by simp
  then show ?case using Cons d by (cases d) simp_all
qed simp

lemma dial_retry_permitted:
  "all_permitted encodeConfig ro cfg D l \<Longrightarrow> \<not> (ro_reconcile ro \<and> D host) \<Longrightarrow>
   all_permitted encodeConfig ro cfg D (snd (dial_retry env host addr n l))"
proof (induction n arbitrary: l)
  case (Suc n)
  obtain d l2 where d: "dial_log env host addr l = (d, l2)" by fastforce
  have "all_permitted encodeConfig ro cfg D l2" using dial_log_permitted [OF Suc.prems, of env addr] d by simp
  then show ?case using Suc d by (cases d) simp_all
qed simp

lemma join_mesh_permitted:
  "all_permitted encodeConfig ro cfg D l \<Longrightarrow> all_permitted encodeConfig ro cfg D (rs_log (snd (join_mesh env host c l st)))"
  using permitted_snoc [of encodeConfig ro cfg D l "EAddPeer c True"] permitted_snoc [of encodeConfig ro cfg D l "EAddPeer c False"]
    permitted_close [of encodeConfig ro cfg D "l @ [EAddPeer c False]" c]
  by (simp add: join_mesh_def add_peer_log_def Let_def)

lemma connect_host_permitted:
  assumes "all_permitted encodeConfig ro cfg D l"
  shows "all_permitted encodeConfig ro cfg D (rs_log (connect_host env ro host c l st))"
proof -
  obtain ok st1 where j: "join_mesh env host c l st = (ok, st1)" by fastforce
  have "all_permitted encodeConfig ro cfg D (rs_log st1)" using join_mesh_permitted [OF assms, of env host c st] j by simp
  then show ?thesis by (cases ok) (auto simp: connect_host_def j intro!: permitted_snoc)
qed

lemma reinstall_host_permitted:
  assumes "all_permitted encodeConfig ro cfg D l" "\<not> (ro_reconcile ro \<and> D host)" "ro_install ro" "ro_force ro"
  shows "all_permitted encodeConfig ro cfg D (rs_log (reinstall_host env ro host c sshAddr meshAddr l st))"
proof -
  define l2 where "l2 = (l @ [EClose c]) @ [EUpgrade sshAddr (re_upgrade env (length (l @ [EClose c])))]"
  have l2: "all_permitted encodeConfig ro cfg D l2" unfolding l2_def using assms by (intro permitted_snoc permitted_close) simp_all
  obtain r l3 where d: "dial_log env host meshAddr l2 = (r, l3)" by fastforce
  have l3: "all_permitted encodeConfig ro cfg D l3" using dial_log_permitted [OF l2 assms(2), of env meshAddr] d by simp
  have "reinstall_host env ro host c sshAddr meshAddr l st =
      (if \<not> re_upgrade env (length (l @ [EClose c])) then st\<lparr>rs_log := l2\<rparr>
       else case r of None \<Rightarrow> st\<lparr>rs_log := l3\<rparr> | Some c2 \<Rightarrow> connect_host env ro host c2 l3 st)"
    unfolding reinstall_host_def Let_def l2_def [symmetric] d by (simp split: option.split)
  then show ?thesis using l2 l3 connect_host_permitted [OF l3] by (simp split: option.split)
qed

definition writes :: "octets \<Rightarrow> bool \<times> writer \<Rightarrow> writer \<Rightarrow> bool" where
  "writes bs r w \<longleftrightarrow> prefix (w_out (snd r)) (w_out w @ bs) \<and> (if fst r then w_out (snd r) = w_out w @ bs else True)"

lemma writes_w_write: "writes bs (w_write w bs) w"
  by (auto simp: writes_def w_write_def take_is_prefix split: option.split)

lemma writes_append:
  assumes "writes a (ok, w1) w" and "\<And>w1. writes b (f w1) w1"
  shows "writes (a @ b) (if \<not> ok then (False, w1) else f w1) w"
proof (cases ok)
  case True
  then show ?thesis using assms(1) assms(2) [of w1] by (auto simp: writes_def)
next
  case False
  then have "prefix (w_out w1) (w_out w @ a)" using assms(1) by (simp add: writes_def)
  then have "prefix (w_out w1) ((w_out w @ a) @ b)" by (rule prefix_prefix)
  then show ?thesis using False by (simp add: writes_def)
qed

lemma writes_field: "writes (encode d) (writeField w d) w"
proof -
  obtain ok w1 where h: "w_write w (put_uint32 (length d)) = (ok, w1)" by fastforce
  have "writes (put_uint32 (length d)) (ok, w1) w" using writes_w_write [of "put_uint32 (length d)" w] h by simp
  from writes_append [OF this writes_w_write, of d] show ?thesis by (simp add: writeField_def h encode_def)
qed

lemma writes_bundle: "writes (bundle_bytes b) (writeCertBundle w b) w"
proof -
  obtain ok w1 where 1: "writeField w (cb_certPEM b) = (ok, w1)" by fastforce
  have s1: "writes (encode (cb_certPEM b)) (ok, w1) w" using writes_field [of "cb_certPEM b" w] 1 by simp
  have two: "writes (encode (cb_keyPEM b) @ encode (cb_caPEM b))
      (let (ok2, w2) = writeField w1 (cb_keyPEM b) in if \<not> ok2 then (False, w2) else writeField w2 (cb_caPEM b)) w1" for w1
  proof -
    obtain ok2 w2 where 2: "writeField w1 (cb_keyPEM b) = (ok2, w2)" by fastforce
    have "writes (encode (cb_keyPEM b)) (ok2, w2) w1" using writes_field [of "cb_keyPEM b" w1] 2 by simp
    from writes_append [OF this writes_field, of "cb_caPEM b"] show ?thesis by (simp add: 2)
  qed
  from writes_append [OF s1 two] show ?thesis by (simp add: writeCertBundle_def 1 bundle_bytes_def)
qed

lemma writes_deployment:
  "writes ((if install then 1 else 0) # encode config @ bundle_bytes b)
     (case send_deployment install config b w of (e, w1) \<Rightarrow> (e = None, w1)) w"
proof -
  obtain ok w1 where 1: "w_write w [if install then 1 else 0] = (ok, w1)" by fastforce
  have s1: "writes [if install then 1 else 0] (ok, w1) w" using writes_w_write [of "[if install then 1 else 0]" w] 1 by simp
  have two: "writes (encode config @ bundle_bytes b)
      (let (ok2, w2) = writeField w1 config in if \<not> ok2 then (False, w2) else writeCertBundle w2 b) w1" for w1
  proof -
    obtain ok2 w2 where 2: "writeField w1 config = (ok2, w2)" by fastforce
    have "writes (encode config) (ok2, w2) w1" using writes_field [of config w1] 2 by simp
    from writes_append [OF this writes_bundle, of b] show ?thesis by (simp add: 2)
  qed
  have "(case send_deployment install config b w of (e, w1) \<Rightarrow> (e = None, w1)) =
      (if \<not> ok then (False, w1)
       else (let (ok2, w2) = writeField w1 config in if \<not> ok2 then (False, w2) else writeCertBundle w2 b))"
  proof -
    obtain ok2 w2 where 2: "writeField w1 config = (ok2, w2)" by fastforce
    obtain ok3 w3 where 3: "writeCertBundle w2 b = (ok3, w3)" by fastforce
    show ?thesis unfolding send_deployment_def 1 by (simp add: 2 3)
  qed
  then show ?thesis using writes_append [OF s1 two] by simp
qed

lemma deploy_bytes_prefix:
  "prefix (snd (deploy_bytes encodeConfig cfg install bundle room)) (deployment_bytes encodeConfig cfg install bundle)"
proof (cases "encodeConfig (Stripped cfg)")
  case None
  then show ?thesis
    using writes_w_write [of "[if install then 1 else 0]" "\<lparr>w_out = [], w_room = room\<rparr>"]
    by (simp add: deploy_bytes_def deployment_bytes_def Let_def writes_def)
next
  case (Some config)
  then show ?thesis
    using writes_deployment [of install config "bundle" "\<lparr>w_out = [], w_room = room\<rparr>"]
    by (simp add: deploy_bytes_def deployment_bytes_def Let_def writes_def case_prod_beta)
qed

lemma fresh_host_permitted:
  assumes "all_permitted encodeConfig ro cfg D l" "\<not> (ro_reconcile ro \<and> D host)"
  shows "all_permitted encodeConfig ro cfg D (rs_log (fresh_host encodeConfig env ro cfg host sshAddr meshAddr cred l st))"
proof (cases "ro_hasPKI ro \<and> ro_install ro")
  case False
  then show ?thesis using assms(1) by (auto simp: fresh_host_def)
next
  case may: True
  define version where "version = re_remoteVersion env (length l)"
  define l1 where "l1 = (if ro_force ro then l else l @ [ERemoteVersion sshAddr version])"
  have l1: "all_permitted encodeConfig ro cfg D l1" using assms(1) may by (auto simp: l1_def intro: permitted_snoc)
  define s where "s = length l1"
  have l2: "all_permitted encodeConfig ro cfg D (l1 @ [EDeploy sshAddr cred ok])" for ok
    using l1 may by (intro permitted_snoc) simp_all
  define l2t where "l2t = l1 @ [EDeploy sshAddr cred True]"
  have here: "s < length l2t" "l2t ! s = EDeploy sshAddr cred True" by (simp_all add: s_def l2t_def)
  have nobundle: "all_permitted encodeConfig ro cfg D (l2t @ [EBundle host False, EClose s])"
    using permitted_close [OF permitted_snoc [of encodeConfig ro cfg D l2t "EBundle host False"], of s] l2 [of True] may
    by (simp add: l2t_def)
  define l3 where "l3 = l2t @ [EBundle host True]"
  have l3: "all_permitted encodeConfig ro cfg D l3" unfolding l3_def using l2 [of True] may by (intro permitted_snoc) (simp_all add: l2t_def)
  have here3: "s < length l3" "l3 ! s = EDeploy sshAddr cred True" using here by (simp_all add: l3_def nth_append)
  define bs4 where "bs4 = (\<lambda>cb room. snd (deploy_bytes encodeConfig cfg True cb room))"
  have l4: "all_permitted encodeConfig ro cfg D (l3 @ [ESend s (bs4 cb room) sent])" for cb room sent
    using l3 may here3 deploy_bytes_prefix [of encodeConfig cfg True cb room]
    by (intro permitted_snoc) (auto simp: nth_append bs4_def)
  have l4c: "all_permitted encodeConfig ro cfg D (l3 @ [ESend s (bs4 cb room) sent, EClose s])" for cb room sent
    using permitted_close [OF l4, of cb room sent s] by simp
  have l5: "all_permitted encodeConfig ro cfg D (l3 @ [ESend s (bs4 cb room) sent, EAck s ack, EClose s])" for cb room sent ack
    using permitted_close [OF permitted_snoc [OF l4 [of cb room sent], of "EAck s ack"], of s] may by simp
  have retry: "all_permitted encodeConfig ro cfg D (rs_log (case dial_retry env host meshAddr n l' of (None, l6) \<Rightarrow> st\<lparr>rs_log := l6\<rparr>
      | (Some c, l6) \<Rightarrow> snd (join_mesh env host c l6 st)))" if "all_permitted encodeConfig ro cfg D l'" for l' n
  proof -
    obtain r l6 where d: "dial_retry env host meshAddr n l' = (r, l6)" by fastforce
    have "all_permitted encodeConfig ro cfg D l6" using dial_retry_permitted [OF that assms(2), of env meshAddr n] d by simp
    then show ?thesis using d by (cases r) (simp_all add: join_mesh_permitted)
  qed
  let ?rest = "all_permitted encodeConfig ro cfg D (rs_log
      (case re_bundle env (length l2t) of
         None \<Rightarrow> st\<lparr>rs_log := l2t @ [EBundle host False, EClose s]\<rparr>
       | Some cb \<Rightarrow>
           let (sent, bytes) = deploy_bytes encodeConfig cfg True cb (re_room env (length l3)); l4 = l3 @ [ESend s bytes sent]
           in if \<not> sent then st\<lparr>rs_log := l4 @ [EClose s]\<rparr>
              else let ack = read_ack (re_ackBytes env (length l4)); l5 = l4 @ [EAck s ack, EClose s]
                in if \<not> ack then st\<lparr>rs_log := l5\<rparr>
                   else case dial_retry env host meshAddr 30 l5 of
                     (None, l6) \<Rightarrow> st\<lparr>rs_log := l6\<rparr>
                   | (Some c, l6) \<Rightarrow> snd (join_mesh env host c l6 st)))"
  have rest: ?rest
  proof (cases "re_bundle env (length l2t)")
    case None
    then show ?thesis using nobundle by simp
  next
    case (Some cb)
    obtain sent bytes where s: "deploy_bytes encodeConfig cfg True cb (re_room env (length l3)) = (sent, bytes)" by fastforce
    then have bytes: "bytes = bs4 cb (re_room env (length l3))" by (simp add: bs4_def)
    show ?thesis
      unfolding Some option.case Let_def s prod.case bytes append_assoc append.simps using l4c l5 retry [OF l5] by simp
  qed
  have may': "ro_install ro = True" "ro_hasPKI ro = True" using may by simp_all
  note unfolds = fresh_host_def Let_def version_def [symmetric] l1_def [symmetric] s_def [symmetric] may' not_True_eq_False disj_not1 if_True if_False
  show ?thesis
  proof (cases "re_deploy env s")
    case True
    then have deployed: "re_deploy env s = True" by simp
    show ?thesis
      unfolding unfolds deployed l2t_def [symmetric] l3_def [symmetric] using rest [unfolded Let_def] l1 by (split if_split) simp
  next
    case False
    then show ?thesis unfolding unfolds using l1 l2 [of False] by simp
  qed
qed

lemma round_host_permitted:
  assumes "all_permitted encodeConfig ro cfg isDirect (rs_log st)"
  shows "all_permitted encodeConfig ro cfg isDirect (rs_log (round_host parseKey encodeConfig env ro v cfg isDirect isIndirect entry st))"
proof -
  obtain host hostCfg where entry: "entry = (host, hostCfg)" by fastforce
  define gated where "gated =
      (if ro_reconcile ro then
         if isDirect host then (False, st)
         else if isIndirect host then
           (case indirect_gate (re_now env (length (rs_log st))) host (rs_backoffs st) of (g, bs) \<Rightarrow> (g, st\<lparr>rs_backoffs := bs\<rparr>))
         else (True, st)
       else (True, st))"
  obtain go st1 where g: "gated = (go, st1)" by fastforce
  have s1: "all_permitted encodeConfig ro cfg isDirect (rs_log st1)" using assms g by (auto simp: gated_def split: if_splits prod.splits)
  note gate = gated_def [symmetric] g
  show ?thesis
  proof (cases "go \<and> elems (ch_Addresses hostCfg) \<noteq> []")
    case False
    then show ?thesis
      unfolding round_host_def entry Let_def prod.case gate using s1 by (auto split: list.split)
  next
    case True
    then obtain base0 addrs where a: "elems (ch_Addresses hostCfg) = base0 # addrs" by (cases "elems (ch_Addresses hostCfg)") auto
    have far: "\<not> (ro_reconcile ro \<and> isDirect host)" using True g by (auto simp: gated_def split: if_splits)
    obtain r l where d: "dial_addresses parseKey env v cfg host hostCfg (base0 # addrs) (rs_log st1) = (r, l)" by fastforce
    have l: "all_permitted encodeConfig ro cfg isDirect l"
      using dial_addresses_permitted [OF s1 far, of parseKey env v hostCfg "base0 # addrs"] d by simp
    show ?thesis
    proof (cases r)
      case None
      then show ?thesis
        unfolding round_host_def entry Let_def prod.case gate using True fresh_host_permitted [OF l far] by (simp add: a d del: dial_addresses.simps)
    next
      case (Some x)
      obtain c sshAddr meshAddr cred where x: "x = (c, sshAddr, meshAddr, cred)" by (cases x)
      show ?thesis
        unfolding round_host_def entry Let_def prod.case gate
        using True Some x permitted_close [OF l] fresh_host_permitted [OF permitted_close [OF l] far]
          reinstall_host_permitted [OF l far] connect_host_permitted [OF l]
        by (simp add: a d del: dial_addresses.simps)
    qed
  qed
qed


text \<open>The dials of a node that is only indirectly connected: those of the times at which the reconciler comes to the host that the gate lets through.\<close>

fun indirect_dials :: "node_id \<Rightarrow> backoffs \<Rightarrow> time list \<Rightarrow> time list" where
  "indirect_dials host bs [] = []"
| "indirect_dials host bs (now # visits) =
     (case indirect_gate now host bs of (go, bs1) \<Rightarrow> (if go then [now] else []) @ indirect_dials host bs1 visits)"

lemma indirect_dials_spaced:
  assumes "bs = Some m" "m host = Some \<lparr>nb_nextAttempt = Some t0, nb_interval = min hour (2 ^ k * minute)\<rparr>"
  shows "successively (\<lambda>(i, t) (j, t'). t + min hour (2 ^ i * minute) \<le> t') (enumerate k (indirect_dials host bs visits)) \<and>
    list_all ((\<le>) t0) (take 1 (indirect_dials host bs visits))"
  using assms
proof (induction visits arbitrary: bs m t0 k)
  case (Cons now visits)
  show ?case
  proof (cases "now < t0")
    case True
    with Cons.prems have "m(host \<mapsto> \<lparr>nb_nextAttempt = Some t0, nb_interval = min hour (2 ^ k * minute)\<rparr>) = m" by auto
    then have "indirect_dials host bs (now # visits) = indirect_dials host bs visits"
      using True Cons.prems by (simp add: indirect_gate_def)
    then show ?thesis using Cons.IH [OF Cons.prems] by simp
  next
    case False
    let ?m = "m(host \<mapsto> \<lparr>nb_nextAttempt = Some (now + min hour (2 ^ k * minute)), nb_interval = min hour (2 ^ Suc k * minute)\<rparr>)"
    have "(if nb_interval b * 2 > hour then hour else nb_interval b * 2) = min hour (2 ^ Suc k * minute)"
      if "b = \<lparr>nb_nextAttempt = Some t0, nb_interval = min hour (2 ^ k * minute)\<rparr>" for b
      using that by (auto simp: min_def hour_def minute_def)
    with False Cons.prems have d: "indirect_dials host bs (now # visits) = now # indirect_dials host (Some ?m) visits"
      by (simp add: indirect_gate_def del: power_Suc split del: if_split)
    have "successively (\<lambda>(i, t) (j, t'). t + min hour (2 ^ i * minute) \<le> t') (enumerate (Suc k) (indirect_dials host (Some ?m) visits)) \<and>
      list_all ((\<le>) (now + min hour (2 ^ k * minute))) (take 1 (indirect_dials host (Some ?m) visits))"
      by (rule Cons.IH [OF refl]) simp
    then show ?thesis
      unfolding d using False by (cases "indirect_dials host (Some ?m) visits") (simp_all add: successively_Cons)
  qed
qed simp


end
