(* ===== verification/Wires.thy ===== *)
theory Wires
  imports Deploy Node
begin

text \<open>
  Model of how connections come about: \<open>pkg/mesh/membrane\<close> (the handshake with its check of certificates, the multiplexing, the
  pipelines for one and two connections), \<open>pkg/mesh/transport\<close> (dialling over a proxy, SSH, a tunnel and TLS, and placing the program on a
  host) and \<open>AddPeer\<close>, \<open>AddPeerDual\<close> of \<open>pkg/mesh/api\<close>. What these functions do to the outside is a program (\<open>wire\<close>): it acquires
  resources, makes calls that may fail, and closes resources. A program runs against an environment that says how each call ends,
  so that the resources left open can be told on every path. A wrapper around a connection (TLS, zstd, yamux, an SSH client) has
  the handle of the connection, as closing it closes the connection. Errors keep the texts of the code without their arguments.
\<close>

section \<open>Programs\<close>

datatype wire_error = Lib string | Wrap string wire_error | WithClose wire_error string

type_synonym handle = nat

type_synonym call = "string list"

text \<open>An acquired resource may belong to another one, with which it is closed.\<close>

datatype 'a wire =
    Finish 'a
  | Acquire call "handle option" "string + handle \<Rightarrow> 'a wire"
  | Try call "string option \<Rightarrow> 'a wire"
  | AskCerts call "string + octets list \<Rightarrow> 'a wire"
  | AskInt call "string + int \<Rightarrow> 'a wire"
  | AskBytes call "string + octets \<Rightarrow> 'a wire"
  | CloseHandle handle "string option \<Rightarrow> 'a wire"

type_synonym 'a fallible = "(wire_error + 'a) wire"

record wire_env =
  we_fault :: "nat \<Rightarrow> string option"
  we_certs :: "nat \<Rightarrow> octets list"
  we_int :: "nat \<Rightarrow> int"
  we_bytes :: "nat \<Rightarrow> octets"

record world =
  ww_step :: nat
  ww_next :: handle
  ww_live :: "(handle \<times> handle option) list"
  ww_log :: "(call \<times> bool) list"

text \<open>Every call is logged with whether it succeeded.\<close>

definition tick :: "wire_env \<Rightarrow> call \<Rightarrow> world \<Rightarrow> world" where
  "tick env c w = w\<lparr>ww_step := Suc (ww_step w), ww_log := ww_log w @ [(c, we_fault env (ww_step w) = None)]\<rparr>"

definition outcome :: "wire_env \<Rightarrow> world \<Rightarrow> 'a \<Rightarrow> string + 'a" where
  "outcome env w x = (case we_fault env (ww_step w) of Some e \<Rightarrow> Inl e | None \<Rightarrow> Inr x)"

text \<open>Closing a resource releases it also when it reports an error.\<close>

primrec run_wire :: "'a wire \<Rightarrow> wire_env \<Rightarrow> world \<Rightarrow> 'a \<times> world" where
  "run_wire (Finish x) env w = (x, w)"
| "run_wire (Acquire c p k) env w =
     (case we_fault env (ww_step w) of
        Some e \<Rightarrow> run_wire (k (Inl e)) env (tick env c w)
      | None \<Rightarrow> run_wire (k (Inr (ww_next w))) env
          ((tick env c w)\<lparr>ww_next := Suc (ww_next w), ww_live := ww_live w @ [(ww_next w, p)]\<rparr>))"
| "run_wire (Try c k) env w = run_wire (k (we_fault env (ww_step w))) env (tick env c w)"
| "run_wire (AskCerts c k) env w = run_wire (k (outcome env w (we_certs env (ww_step w)))) env (tick env c w)"
| "run_wire (AskInt c k) env w = run_wire (k (outcome env w (we_int env (ww_step w)))) env (tick env c w)"
| "run_wire (AskBytes c k) env w = run_wire (k (outcome env w (we_bytes env (ww_step w)))) env (tick env c w)"
| "run_wire (CloseHandle h k) env w =
     run_wire (k (we_fault env (ww_step w))) env
       ((tick env [''Close''] w)\<lparr>ww_live := filter (\<lambda>(k, p). k \<noteq> h \<and> p \<noteq> Some h) (ww_live w)\<rparr>)"

primrec wbind :: "'a wire \<Rightarrow> ('a \<Rightarrow> 'b wire) \<Rightarrow> 'b wire" where
  "wbind (Finish x) f = f x"
| "wbind (Acquire c p k) f = Acquire c p (\<lambda>r. wbind (k r) f)"
| "wbind (Try c k) f = Try c (\<lambda>r. wbind (k r) f)"
| "wbind (AskCerts c k) f = AskCerts c (\<lambda>r. wbind (k r) f)"
| "wbind (AskInt c k) f = AskInt c (\<lambda>r. wbind (k r) f)"
| "wbind (AskBytes c k) f = AskBytes c (\<lambda>r. wbind (k r) f)"
| "wbind (CloseHandle h k) f = CloseHandle h (\<lambda>r. wbind (k r) f)"

text \<open>The calls of the code with their error branch; \<open>bad\<close> is what is done with the error.\<close>

definition acquire :: "call \<Rightarrow> handle option \<Rightarrow> (wire_error \<Rightarrow> 'a wire) \<Rightarrow> (handle \<Rightarrow> 'a wire) \<Rightarrow> 'a wire" where
  "acquire c p bad k = Acquire c p (\<lambda>r. case r of Inl e \<Rightarrow> bad (Lib e) | Inr h \<Rightarrow> k h)"

definition try_wire :: "call \<Rightarrow> (wire_error \<Rightarrow> 'a wire) \<Rightarrow> 'a wire \<Rightarrow> 'a wire" where
  "try_wire c bad k = Try c (\<lambda>r. case r of Some e \<Rightarrow> bad (Lib e) | None \<Rightarrow> k)"

definition sub_wire :: "'a fallible \<Rightarrow> (wire_error \<Rightarrow> 'b wire) \<Rightarrow> ('a \<Rightarrow> 'b wire) \<Rightarrow> 'b wire" where
  "sub_wire m bad k = wbind m (\<lambda>r. case r of Inl e \<Rightarrow> bad e | Inr x \<Rightarrow> k x)"

definition give_up :: "string \<Rightarrow> wire_error \<Rightarrow> 'a fallible" where
  "give_up what e = Finish (Inl (Wrap what e))"

text \<open>\<open>_ = conn.Close()\<close>, and the form that reports an error of the close beside the first one.\<close>

definition close_quietly :: "handle \<Rightarrow> 'a wire \<Rightarrow> 'a wire" where
  "close_quietly h k = CloseHandle h (\<lambda>_. k)"

definition give_up_closing :: "handle \<Rightarrow> string \<Rightarrow> wire_error \<Rightarrow> 'a fallible" where
  "give_up_closing h what e =
     CloseHandle h (\<lambda>r. case r of None \<Rightarrow> Finish (Inl (Wrap what e)) | Some c \<Rightarrow> Finish (Inl (WithClose (Wrap what e) c)))"

section \<open>Certificates\<close>

datatype extKeyUsage = ClientAuth | ServerAuth

record x509cert =
  crt_commonName :: string
  crt_notBefore :: time
  crt_notAfter :: time
  crt_ed25519 :: "octets option"

text \<open>The parser of certificates and the verification of a chain against the pool of the configuration.\<close>

record x509_lib =
  xl_parse :: "octets \<Rightarrow> string + x509cert"
  xl_verify :: "x509cert \<Rightarrow> x509cert list \<Rightarrow> extKeyUsage \<Rightarrow> string option"

definition MaxCertLifetime :: duration where "MaxCertLifetime = 10 * 365 * 24 * hour"

fun parse_intermediates :: "x509_lib \<Rightarrow> octets list \<Rightarrow> wire_error + x509cert list" where
  "parse_intermediates lib [] = Inr []"
| "parse_intermediates lib (raw # raws) =
     (case xl_parse lib raw of
        Inl e \<Rightarrow> Inl (Wrap ''membrane: parse intermediate certificate'' (Lib e))
      | Inr cert \<Rightarrow> (case parse_intermediates lib raws of Inl e \<Rightarrow> Inl e | Inr certs \<Rightarrow> Inr (cert # certs)))"

definition verifyCertChain :: "x509_lib \<Rightarrow> octets list \<Rightarrow> extKeyUsage \<Rightarrow> wire_error option" where
  "verifyCertChain lib rawCerts expectedUsage =
     (case rawCerts of
        [] \<Rightarrow> Some (Lib ''membrane: peer presented no certificates'')
      | raw # others \<Rightarrow>
          (case xl_parse lib raw of
             Inl e \<Rightarrow> Some (Wrap ''membrane: parse peer certificate'' (Lib e))
           | Inr leaf \<Rightarrow>
               if crt_commonName leaf = [] then Some (Lib ''membrane: peer certificate has empty CommonName (NodeID)'')
               else if crt_notAfter leaf - crt_notBefore leaf > MaxCertLifetime then Some (Lib ''membrane: certificate lifetime exceeds maximum'')
               else (case parse_intermediates lib others of
                       Inl e \<Rightarrow> Some e
                     | Inr intermediates \<Rightarrow>
                         (case xl_verify lib leaf intermediates expectedUsage of
                            Some e \<Rightarrow> Some (Wrap ''membrane: certificate chain verification'' (Lib e))
                          | None \<Rightarrow> None))))"

text \<open>A connection over TLS, with the certificates that the peer presented.\<close>

record tlsConn =
  tc_handle :: handle
  tc_certs :: "octets list"

text \<open>
  The TLS library runs the check of the configuration as part of the handshake, which fails with its error.
\<close>

definition HandshakeServer :: "x509_lib \<Rightarrow> bool \<Rightarrow> handle \<Rightarrow> tlsConn fallible" where
  "HandshakeServer lib hasCfg conn =
     (if \<not> hasCfg then Finish (Inl (Lib ''membrane: handshake: nil config''))
      else AskCerts [''tls.Server''] (\<lambda>r. case r of
             Inl e \<Rightarrow> close_quietly conn (give_up ''membrane: server handshake'' (Lib e))
           | Inr raw \<Rightarrow>
               (case verifyCertChain lib raw ClientAuth of
                  Some e \<Rightarrow> close_quietly conn (give_up ''membrane: server handshake'' e)
                | None \<Rightarrow> Finish (Inr \<lparr>tc_handle = conn, tc_certs = raw\<rparr>))))"

definition HandshakeClient :: "x509_lib \<Rightarrow> bool \<Rightarrow> handle \<Rightarrow> tlsConn fallible" where
  "HandshakeClient lib hasCfg conn =
     (if \<not> hasCfg then Finish (Inl (Lib ''membrane: handshake: nil config''))
      else AskCerts [''tls.Client''] (\<lambda>r. case r of
             Inl e \<Rightarrow> close_quietly conn (give_up ''membrane: client handshake'' (Lib e))
           | Inr raw \<Rightarrow>
               (case verifyCertChain lib raw ServerAuth of
                  Some e \<Rightarrow> close_quietly conn (give_up ''membrane: client handshake'' e)
                | None \<Rightarrow> Finish (Inr \<lparr>tc_handle = conn, tc_certs = raw\<rparr>))))"

definition handshake :: "x509_lib \<Rightarrow> bool \<Rightarrow> bool \<Rightarrow> handle \<Rightarrow> tlsConn fallible" where
  "handshake lib hasCfg isServer conn =
     (if isServer then HandshakeServer lib hasCfg conn else HandshakeClient lib hasCfg conn)"

definition peer_cert :: "x509_lib \<Rightarrow> tlsConn \<Rightarrow> x509cert option" where
  "peer_cert lib c =
     (case tc_certs c of [] \<Rightarrow> None | raw # _ \<Rightarrow> (case xl_parse lib raw of Inl _ \<Rightarrow> None | Inr cert \<Rightarrow> Some cert))"

definition PeerNodeID :: "x509_lib \<Rightarrow> tlsConn \<Rightarrow> string" where
  "PeerNodeID lib c = (case peer_cert lib c of None \<Rightarrow> [] | Some cert \<Rightarrow> crt_commonName cert)"

definition PeerPubKey :: "x509_lib \<Rightarrow> tlsConn \<Rightarrow> octets" where
  "PeerPubKey lib c = (case peer_cert lib c of None \<Rightarrow> [] | Some cert \<Rightarrow> (case crt_ed25519 cert of None \<Rightarrow> [] | Some k \<Rightarrow> k))"

section \<open>Multiplexing\<close>

text \<open>The encoder of zstd cannot be made: the decoder that was made before it is closed; it holds no connection.\<close>

definition NewZstdConn :: "handle \<Rightarrow> handle fallible" where
  "NewZstdConn conn =
     try_wire [''zstd.NewReader''] (give_up ''membrane: zstd reader'')
       (try_wire [''zstd.NewWriter''] (give_up ''membrane: zstd writer'') (Finish (Inr conn)))"

text \<open>The handle of the session is that of its connection; a control stream is a stream of the session, or a connection of its own.\<close>

record multiplexedConn =
  mx_session :: handle
  mx_control :: handle
  mx_isDual :: bool

definition yamux_session :: "bool \<Rightarrow> call" where
  "yamux_session isServer = [if isServer then ''yamux.Server'' else ''yamux.Client'']"

definition Multiplex :: "handle option \<Rightarrow> bool \<Rightarrow> multiplexedConn fallible" where
  "Multiplex conn isServer =
     (case conn of
        None \<Rightarrow> Finish (Inl (Lib ''membrane: multiplex: nil connection''))
      | Some c \<Rightarrow>
          sub_wire (NewZstdConn c) (give_up ''membrane: multiplex: zstd init'')
            (\<lambda>zstdConn. try_wire (yamux_session isServer) (\<lambda>e. close_quietly zstdConn (give_up ''membrane: yamux session'' e))
               (acquire [if isServer then ''session.Accept'' else ''session.Open''] (Some zstdConn)
                  (\<lambda>e. close_quietly zstdConn
                     (give_up (if isServer then ''membrane: accept control stream'' else ''membrane: open control stream'') e))
                  (\<lambda>control. Finish (Inr \<lparr>mx_session = zstdConn, mx_control = control, mx_isDual = False\<rparr>)))))"

definition Upgrade :: "x509_lib \<Rightarrow> bool \<Rightarrow> bool \<Rightarrow> handle \<Rightarrow> multiplexedConn fallible" where
  "Upgrade lib hasCfg isServer conn =
     sub_wire (handshake lib hasCfg isServer conn) (give_up ''membrane: upgrade'')
       (\<lambda>t. sub_wire (Multiplex (Some (tc_handle t)) isServer) (\<lambda>e. close_quietly (tc_handle t) (give_up ''membrane: upgrade'' e))
          (\<lambda>mc. Finish (Inr mc)))"

definition MultiplexDual :: "handle option \<Rightarrow> handle option \<Rightarrow> bool \<Rightarrow> multiplexedConn fallible" where
  "MultiplexDual controlConn dataConn isServer =
     (case (controlConn, dataConn) of
        (None, _) \<Rightarrow> Finish (Inl (Lib ''membrane: multiplex dual: nil control connection''))
      | (_, None) \<Rightarrow> Finish (Inl (Lib ''membrane: multiplex dual: nil data connection''))
      | (Some c, Some d) \<Rightarrow>
          sub_wire (NewZstdConn c) (give_up ''membrane: multiplex dual: control zstd init'')
            (\<lambda>zc. sub_wire (NewZstdConn d) (\<lambda>e. close_quietly zc (give_up ''membrane: multiplex dual: data zstd init'' e))
               (\<lambda>zd. try_wire (yamux_session isServer)
                  (\<lambda>e. close_quietly zc (close_quietly zd (give_up ''membrane: yamux data session'' e)))
                  (Finish (Inr \<lparr>mx_session = zd, mx_control = zc, mx_isDual = True\<rparr>)))))"

definition UpgradeDual :: "x509_lib \<Rightarrow> bool \<Rightarrow> bool \<Rightarrow> handle \<Rightarrow> handle \<Rightarrow> multiplexedConn fallible" where
  "UpgradeDual lib hasCfg isServer controlConn dataConn =
     sub_wire (handshake lib hasCfg isServer controlConn) (give_up ''membrane: upgrade dual: control handshake'')
       (\<lambda>ct. sub_wire (handshake lib hasCfg isServer dataConn)
          (\<lambda>e. close_quietly (tc_handle ct) (give_up ''membrane: upgrade dual: data handshake'' e))
          (\<lambda>dt. sub_wire (MultiplexDual (Some (tc_handle ct)) (Some (tc_handle dt)) isServer)
             (\<lambda>e. close_quietly (tc_handle ct) (close_quietly (tc_handle dt) (give_up ''membrane: upgrade dual'' e)))
             (\<lambda>mc. Finish (Inr mc))))"

text \<open>Every part is closed, and the first error is returned; in the dual mode the wrapper and the connection below are both closed.\<close>

definition first_error :: "string option \<Rightarrow> string option \<Rightarrow> string option" where
  "first_error firstErr e = (case firstErr of None \<Rightarrow> e | Some _ \<Rightarrow> firstErr)"

definition mx_Close :: "multiplexedConn \<Rightarrow> string option wire" where
  "mx_Close mc =
     CloseHandle (mx_control mc) (\<lambda>e1. CloseHandle (mx_session mc) (\<lambda>e2.
       if mx_isDual mc then CloseHandle (mx_control mc) (\<lambda>e3. Finish (first_error (first_error e1 e2) e3))
       else Finish (first_error e1 e2)))"

section \<open>Adding a peer\<close>

text \<open>
  What is added to the node when all has gone well: the name of the peer, its key and the handles of its control stream and its session.
  \<open>addr\<close> is the remote address of the raw connection.
\<close>

record new_peer =
  np_id :: node_id
  np_pubKey :: octets
  np_mx :: multiplexedConn

definition AddPeer_conn :: "x509_lib \<Rightarrow> bool \<Rightarrow> bool \<Rightarrow> handle \<Rightarrow> string \<Rightarrow> new_peer fallible" where
  "AddPeer_conn lib hasCfg isServer conn addr =
     (if \<not> hasCfg then Finish (Inl (Lib ''api: membrane config not set (call SetMembraneConfig first)''))
      else sub_wire (handshake lib hasCfg isServer conn) (give_up ''api: add peer'')
        (\<lambda>t. let certID = PeerNodeID lib t; peerID = (if certID = [] then addr else certID)
             in sub_wire (Multiplex (Some (tc_handle t)) isServer)
                  (\<lambda>e. close_quietly (tc_handle t) (give_up ''api: add peer: multiplex'' e))
                  (\<lambda>mc. Finish (Inr \<lparr>np_id = peerID, np_pubKey = PeerPubKey lib t, np_mx = mc\<rparr>))))"

definition AddPeerDual_conn :: "x509_lib \<Rightarrow> bool \<Rightarrow> bool \<Rightarrow> handle \<Rightarrow> string \<Rightarrow> handle \<Rightarrow> string \<Rightarrow> new_peer fallible" where
  "AddPeerDual_conn lib hasCfg isServer controlConn controlAddr dataConn dataAddr =
     (if \<not> hasCfg then Finish (Inl (Lib ''api: membrane config not set (call SetMembraneConfig first)''))
      else sub_wire (handshake lib hasCfg isServer controlConn) (give_up ''api: add peer dual: control handshake'')
        (\<lambda>ct. sub_wire (handshake lib hasCfg isServer dataConn)
           (\<lambda>e. close_quietly (tc_handle ct) (give_up ''api: add peer dual: data handshake'' e))
           (\<lambda>dt. case dual_identity (PeerNodeID lib ct) controlAddr (PeerNodeID lib dt) dataAddr of
              None \<Rightarrow> close_quietly (tc_handle ct) (close_quietly (tc_handle dt) (Finish (Inl (Lib ''api: add peer dual: identity mismatch''))))
            | Some peerID \<Rightarrow>
                sub_wire (MultiplexDual (Some (tc_handle ct)) (Some (tc_handle dt)) isServer)
                  (\<lambda>e. close_quietly (tc_handle ct) (close_quietly (tc_handle dt) (give_up ''api: add peer dual: multiplex'' e)))
                  (\<lambda>mc. Finish (Inr \<lparr>np_id = peerID, np_pubKey = PeerPubKey lib ct, np_mx = mc\<rparr>)))))"

text \<open>The node after the program has ended: the peer is added, or nothing has changed. \<open>stream\<close> is where its control frames go.\<close>

definition admit :: "time \<Rightarrow> 'conn node \<Rightarrow> writer \<Rightarrow> wire_error + new_peer \<Rightarrow> (wire_error + nat) \<times> 'conn node" where
  "admit now n stream r =
     (case r of
        Inl e \<Rightarrow> (Inl e, n)
      | Inr p \<Rightarrow> (case add_peer now n (np_id p) stream (np_pubKey p) of (c, n1) \<Rightarrow> (Inr c, n1)))"

definition AddPeer :: "x509_lib \<Rightarrow> bool \<Rightarrow> bool \<Rightarrow> handle \<Rightarrow> string \<Rightarrow> time \<Rightarrow> writer \<Rightarrow> 'conn node \<Rightarrow> ((wire_error + nat) \<times> 'conn node) wire" where
  "AddPeer lib hasCfg isServer conn addr now stream n =
     wbind (AddPeer_conn lib hasCfg isServer conn addr) (\<lambda>r. Finish (admit now n stream r))"

definition AddPeerDual :: "x509_lib \<Rightarrow> bool \<Rightarrow> bool \<Rightarrow> handle \<Rightarrow> string \<Rightarrow> handle \<Rightarrow> string \<Rightarrow> time \<Rightarrow> writer \<Rightarrow> 'conn node \<Rightarrow>
    ((wire_error + nat) \<times> 'conn node) wire" where
  "AddPeerDual lib hasCfg isServer controlConn controlAddr dataConn dataAddr now stream n =
     wbind (AddPeerDual_conn lib hasCfg isServer controlConn controlAddr dataConn dataAddr) (\<lambda>r. Finish (admit now n stream r))"

section \<open>Transports\<close>

text \<open>\<open>None\<close> is a URL that cannot be parsed.\<close>

definition DialProxy :: "string option \<Rightarrow> string \<Rightarrow> (handle \<times> bool) fallible" where
  "DialProxy proxyHost targetHost =
     (case proxyHost of
        None \<Rightarrow> Finish (Inl (Lib ''transport: proxy: invalid proxy URL''))
      | Some proxyAddr \<Rightarrow>
          if proxyAddr = [] then Finish (Inl (Lib ''transport: proxy: missing host in proxy URL''))
          else acquire [''dial'', proxyAddr] None (give_up ''transport: proxy: dial proxy'')
            (\<lambda>conn. try_wire [''http.NewRequest'', targetHost] (give_up_closing conn ''transport: proxy: create CONNECT request'')
               (try_wire [''req.Write''] (give_up_closing conn ''transport: proxy: write CONNECT request'')
                  (AskInt [''http.ReadResponse''] (\<lambda>r. case r of
                     Inl e \<Rightarrow> give_up_closing conn ''transport: proxy: read CONNECT response'' (Lib e)
                   | Inr status \<Rightarrow>
                       try_wire [''resp.Body.Close''] (give_up ''transport: proxy: close response body'')
                         (if status \<noteq> 200 then give_up_closing conn ''transport: proxy: CONNECT failed'' (Lib [])
                          else AskInt [''br.Buffered''] (\<lambda>r. case r of
                             Inl _ \<Rightarrow> Finish (Inr (conn, False))
                           | Inr n \<Rightarrow> Finish (Inr (conn, n > 0)))))))))"

text \<open>A client over SSH has the handle of its TCP connection.\<close>

definition ssh_client :: "string \<Rightarrow> string \<Rightarrow> string \<Rightarrow> (handle \<Rightarrow> 'a fallible) \<Rightarrow> 'a fallible" where
  "ssh_client addr dialText handshakeText k =
     acquire [''dial'', addr] None (give_up dialText)
       (\<lambda>conn. try_wire [''ssh.NewClientConn'', addr] (give_up_closing conn handshakeText) (k conn))"

text \<open>The clean-up closes what there is, and its first error is reported beside the error that caused it.\<close>

definition ssh_cleanup :: "bool \<Rightarrow> handle option \<Rightarrow> handle \<Rightarrow> (string option \<Rightarrow> 'a wire) \<Rightarrow> 'a wire" where
  "ssh_cleanup hasStdin session client k =
     (let closeClient = (\<lambda>e2. CloseHandle client (\<lambda>e3. k (first_error e2 e3)));
          closeSession = (\<lambda>e1. case session of None \<Rightarrow> closeClient e1 | Some s \<Rightarrow> CloseHandle s (\<lambda>e2. closeClient (first_error e1 e2)))
      in if hasStdin then Try [''stdin.Close''] closeSession else closeSession None)"

definition give_up_cleaning :: "bool \<Rightarrow> handle option \<Rightarrow> handle \<Rightarrow> string \<Rightarrow> wire_error \<Rightarrow> 'a fallible" where
  "give_up_cleaning hasStdin session client what e =
     ssh_cleanup hasStdin session client
       (\<lambda>r. case r of None \<Rightarrow> Finish (Inl (Wrap what e)) | Some c \<Rightarrow> Finish (Inl (WithClose (Wrap what e) c)))"

record sshConn =
  sc_session :: handle
  sc_client :: handle

definition DialSSH :: "string \<Rightarrow> sshConn fallible" where
  "DialSSH addr =
     ssh_client addr ''transport: ssh: dial'' ''transport: ssh: handshake''
       (\<lambda>client. acquire [''client.NewSession''] (Some client) (give_up_cleaning False None client ''transport: ssh: open session'')
          (\<lambda>session. try_wire [''session.StdinPipe''] (give_up_cleaning False (Some session) client ''transport: ssh: stdin pipe'')
             (try_wire [''session.StdoutPipe''] (give_up_cleaning True (Some session) client ''transport: ssh: stdout pipe'')
                (try_wire [''session.Shell''] (give_up_cleaning True (Some session) client ''transport: ssh: start shell'')
                   (Finish (Inr \<lparr>sc_session = session, sc_client = client\<rparr>))))))"

definition DialSSHTunnel :: "string \<Rightarrow> string \<Rightarrow> (handle \<times> handle) fallible" where
  "DialSSHTunnel sshAddr targetHost =
     ssh_client sshAddr ''transport: ssh: dial'' ''transport: ssh: handshake''
       (\<lambda>client. acquire [''client.Dial'', targetHost] (Some client) (give_up_closing client ''transport: ssh: dial tunnel'')
          (\<lambda>fwdConn. Finish (Inr (fwdConn, client))))"

definition DialHTTPS :: "string \<Rightarrow> string \<Rightarrow> (handle \<times> string) fallible" where
  "DialHTTPS addr serverName =
     acquire [''dial'', addr] None (give_up ''transport: https: dial'')
       (\<lambda>conn. let name = (if serverName = [] then (case SplitHostPort addr of None \<Rightarrow> addr | Some (host, _) \<Rightarrow> host) else serverName)
               in try_wire [''tls.Client'', name] (give_up_closing conn ''transport: https: TLS handshake'') (Finish (Inr (conn, name))))"

text \<open>
  A connection that is closed at most once: what closing it does is a program, and its error is kept for the calls that follow.
  The session of SSH may report the end of the stream, which is no error.
\<close>

record closer =
  cl_closed :: bool
  cl_err :: "string option"

definition open_closer :: closer where "open_closer = \<lparr>cl_closed = False, cl_err = None\<rparr>"

definition close_once :: "string option wire \<Rightarrow> closer \<Rightarrow> (string option \<times> closer) wire" where
  "close_once m c =
     (if cl_closed c then Finish (cl_err c, c) else wbind m (\<lambda>e. Finish (e, \<lparr>cl_closed = True, cl_err = e\<rparr>)))"

definition not_eof :: "string option \<Rightarrow> string option" where
  "not_eof e = (if e = Some ''EOF'' then None else e)"

definition close_ssh :: "sshConn \<Rightarrow> string option wire" where
  "close_ssh c =
     Try [''stdin.Close''] (\<lambda>e1. CloseHandle (sc_session c) (\<lambda>e2. CloseHandle (sc_client c) (\<lambda>e3.
       Finish (first_error (first_error e1 (not_eof e2)) e3))))"

definition SSHConn_Close :: "sshConn \<Rightarrow> closer \<Rightarrow> (string option \<times> closer) wire" where
  "SSHConn_Close c = close_once (close_ssh c)"

definition sshTunnelConn_Close :: "handle \<times> handle \<Rightarrow> closer \<Rightarrow> (string option \<times> closer) wire" where
  "sshTunnelConn_Close t =
     close_once (case t of (fwdConn, client) \<Rightarrow> CloseHandle fwdConn (\<lambda>e1. CloseHandle client (\<lambda>e2. Finish (first_error e1 e2))))"

definition deployStream_Close :: "sshConn \<Rightarrow> closer \<Rightarrow> (string option \<times> closer) wire" where
  "deployStream_Close s = close_once (close_ssh s)"

text \<open>Reader and writer of a connection over standard input and output; a part that cannot be closed is \<open>None\<close>.\<close>

definition close_part :: "handle option \<Rightarrow> (string option \<Rightarrow> 'a wire) \<Rightarrow> 'a wire" where
  "close_part part k = (case part of None \<Rightarrow> k None | Some h \<Rightarrow> CloseHandle h k)"

definition StdioConn_Close :: "handle option \<Rightarrow> handle option \<Rightarrow> closer \<Rightarrow> (string option \<times> closer) wire" where
  "StdioConn_Close reader writer =
     close_once (close_part reader (\<lambda>e1. close_part writer (\<lambda>e2. Finish (first_error e1 e2))))"

text \<open>Reading and writing; \<open>None\<close> is the error of a closed connection.\<close>

definition StdioConn_Read :: "closer \<Rightarrow> nat \<Rightarrow> octets \<Rightarrow> (octets \<times> octets) option" where
  "StdioConn_Read c n input = (if cl_closed c then None else Some (take n input, drop n input))"

definition StdioConn_Write :: "closer \<Rightarrow> octets \<Rightarrow> writer \<Rightarrow> (bool \<times> writer) option" where
  "StdioConn_Write c d w = (if cl_closed c then None else Some (w_write w d))"

section \<open>Placing the program on a host\<close>

text \<open>What the program file is to the reader of ELF files: missing, no such file, or the types of its segments.\<close>

datatype elf_file = ElfMissing string | NotElf | Elf "int list"

definition PT_INTERP :: int where "PT_INTERP = 3"

definition isStaticBinary :: "elf_file \<Rightarrow> wire_error option" where
  "isStaticBinary f =
     (case f of
        ElfMissing e \<Rightarrow> Some (Wrap ''transport: deploy: binary not found'' (Lib e))
      | NotElf \<Rightarrow> None
      | Elf progs \<Rightarrow> if PT_INTERP \<in> set progs then Some (Lib ''transport: deploy: binary is dynamically linked (has PT_INTERP)'') else None)"

record selfDeployer =
  sd_binaryPath :: string
  sd_remotePath :: string
  sd_skipUpload :: bool
  sd_execArgs :: "string list"
  sd_noWaitReady :: bool

text \<open>The file of the program, its path when none is given, and what the deployed program has written to its standard error.\<close>

record deploy_site =
  ds_executable :: string
  ds_elf :: "string \<Rightarrow> elf_file"
  ds_stderr :: string

definition close_file :: "handle \<Rightarrow> string \<Rightarrow> 'a fallible \<Rightarrow> 'a fallible" where
  "close_file f what k = CloseHandle f (\<lambda>r. case r of Some e \<Rightarrow> give_up what (Lib e) | None \<Rightarrow> k)"

text \<open>The deferred close of the SFTP session: its error counts only when there is no other.\<close>

definition with_sftp :: "handle \<Rightarrow> (handle \<Rightarrow> unit fallible) \<Rightarrow> unit fallible" where
  "with_sftp client body =
     acquire [''sftp.NewClient''] (Some client) (give_up ''open SFTP session'')
       (\<lambda>sftpClient. sub_wire (body sftpClient) (\<lambda>e. close_quietly sftpClient (Finish (Inl e)))
          (\<lambda>_. close_file sftpClient ''close SFTP session'' (Finish (Inr ()))))"

definition uploadBinary :: "handle \<Rightarrow> string \<Rightarrow> unit fallible" where
  "uploadBinary client remotePath =
     with_sftp client (\<lambda>_. acquire [''sftp.Create'', remotePath] (Some client) (give_up ''create remote file'')
       (\<lambda>remoteFile. try_wire [''io.Copy'', remotePath] (give_up_closing remoteFile ''copy binary'')
          (close_file remoteFile ''close remote file''
             (try_wire [''sftp.Chmod'', remotePath] (give_up ''chmod remote file'') (Finish (Inr ()))))))"

text \<open>
  A pipe that cannot be opened: the ends that are open are closed, and the session too unless closing the standard input failed.
\<close>

definition give_up_exec :: "bool \<Rightarrow> handle \<Rightarrow> string \<Rightarrow> wire_error \<Rightarrow> 'a fallible" where
  "give_up_exec hasStdin session what e =
     (if hasStdin then
        Try [''stdin.Close''] (\<lambda>r. case r of
          Some c \<Rightarrow> Finish (Inl (WithClose (Wrap what e) c))
        | None \<Rightarrow> give_up_closing session what e)
      else give_up_closing session what e)"

definition execBinary :: "handle \<Rightarrow> string \<Rightarrow> string list \<Rightarrow> sshConn fallible" where
  "execBinary client remotePath execArgs =
     acquire [''client.NewSession''] (Some client) (give_up ''open exec session'')
       (\<lambda>session. try_wire [''session.StdinPipe''] (give_up_exec False session ''exec stdin pipe'')
          (try_wire [''session.StdoutPipe''] (give_up_exec True session ''exec stdout pipe'')
             (try_wire [''session.StderrPipe''] (give_up_exec True session ''exec stderr pipe'')
                (try_wire [''session.Start'', exec_command remotePath execArgs] (give_up_exec True session ''start binary'')
                   (Finish (Inr \<lparr>sc_session = session, sc_client = client\<rparr>))))))"

definition ready_failure :: "ready_error \<Rightarrow> wire_error" where
  "ready_failure e = (case e of ReadyRead \<Rightarrow> Lib ''transport: deploy: readiness read''
     | InvalidMagic _ \<Rightarrow> Lib ''transport: deploy: invalid ready magic'')"

definition wait_ready :: "selfDeployer \<Rightarrow> string \<Rightarrow> sshConn \<Rightarrow> sshConn fallible" where
  "wait_ready d stderr stream =
     (if sd_noWaitReady d then Finish (Inr stream)
      else AskBytes [''stream.Read''] (\<lambda>r.
        case (case r of Inl e \<Rightarrow> Some (Lib e) | Inr input \<Rightarrow> map_option ready_failure (fst (waitForReady input))) of
          None \<Rightarrow> Finish (Inr stream)
        | Some e \<Rightarrow>
            (let e1 = (if stderr \<noteq> [] then Wrap (''remote stderr: '' @ stderr) e else e)
             in wbind (close_ssh stream) (\<lambda>_. give_up ''transport: deploy: readiness'' e1))))"

text \<open>
  The program file is closed by a deferred call, whose error replaces a success: the stream is then returned beside the error, and
  left open by every caller.
\<close>

definition defer_close :: "handle \<Rightarrow> string \<Rightarrow> 'a fallible \<Rightarrow> 'a fallible" where
  "defer_close f what m =
     wbind m (\<lambda>r. CloseHandle f (\<lambda>c. case (r, c) of (Inr _, Some e) \<Rightarrow> give_up what (Lib e) | _ \<Rightarrow> Finish r))"

definition SelfDeployer_Deploy :: "deploy_site \<Rightarrow> selfDeployer \<Rightarrow> string \<Rightarrow> deployCredential \<Rightarrow> sshConn fallible" where
  "SelfDeployer_Deploy site d targetHost cred =
     (let rest =
        (\<lambda>binaryPath. case isStaticBinary (ds_elf site binaryPath) of
           Some e \<Rightarrow> Finish (Inl e)
         | None \<Rightarrow>
             acquire [''os.Open'', binaryPath] None (give_up ''transport: deploy: open binary'')
               (\<lambda>file. defer_close file ''transport: deploy: close binary''
                  (try_wire [''file.Stat''] (give_up ''transport: deploy: stat binary'')
                     (let remotePath = (if sd_remotePath d = [] then ''/tmp/cortex-mcp-node'' else sd_remotePath d)
                      in case buildAuthMethods cred of
                           None \<Rightarrow> Finish (Inl (Wrap ''transport: deploy'' (Lib ''no auth method: provide SSHKeyData or SSHPass'')))
                         | Some _ \<Rightarrow>
                             ssh_client targetHost ''transport: deploy: dial'' ''transport: deploy: SSH handshake''
                               (\<lambda>client. sub_wire (if sd_skipUpload d then Finish (Inr ()) else uploadBinary client remotePath)
                                  (give_up_closing client ''transport: deploy: upload'')
                                  (\<lambda>_. sub_wire (execBinary client remotePath (sd_execArgs d))
                                     (give_up_closing client ''transport: deploy: exec'')
                                     (wait_ready d (ds_stderr site))))))))
      in if sd_binaryPath d = [] then
           try_wire [''os.Executable''] (give_up ''transport: deploy: resolve executable'') (rest (ds_executable site))
         else rest (sd_binaryPath d))"

section \<open>Upgrading over SSH\<close>

definition dialSSH :: "string \<Rightarrow> deployCredential \<Rightarrow> handle fallible" where
  "dialSSH targetHost cred =
     (case buildSSHAuth cred of
        None \<Rightarrow> Finish (Inl (Lib ''no SSH auth method: provide SSHKeyData or SSHPass''))
      | Some _ \<Rightarrow>
          acquire [''dial'', targetHost] None (give_up ''dial'')
            (\<lambda>conn. try_wire [''ssh.NewClientConn'', targetHost] (\<lambda>e. close_quietly conn (give_up ''SSH handshake'' e))
               (Finish (Inr conn))))"

definition execSSHCommand :: "handle \<Rightarrow> string \<Rightarrow> unit fallible" where
  "execSSHCommand client cmd =
     acquire [''client.NewSession''] (Some client) (give_up ''open SSH session'')
       (\<lambda>session. try_wire [''session.CombinedOutput'', cmd] (\<lambda>e. close_quietly session (give_up ''exec'' e))
          (close_quietly session (Finish (Inr ()))))"

definition execSSHCommandOutput :: "handle \<Rightarrow> string \<Rightarrow> octets fallible" where
  "execSSHCommandOutput client cmd =
     acquire [''client.NewSession''] (Some client) (give_up ''open SSH session'')
       (\<lambda>session. AskBytes [''session.CombinedOutput'', cmd] (\<lambda>r. case r of
          Inl e \<Rightarrow> close_quietly session (give_up ''exec'' (Lib e))
        | Inr output \<Rightarrow> close_quietly session (Finish (Inr output))))"

definition getRemoteApplicationVersion :: "string \<Rightarrow> deployCredential \<Rightarrow> string \<Rightarrow> string fallible" where
  "getRemoteApplicationVersion targetAddr cred remotePath =
     sub_wire (dialSSH targetAddr cred) (\<lambda>e. Finish (Inl e))
       (\<lambda>client. wbind (execSSHCommandOutput client (remotePath @ '' version''))
          (\<lambda>r. close_quietly client (case r of Inl e \<Rightarrow> Finish (Inl e) | Inr out \<Rightarrow> Finish (Inr (trim_space (map (\<lambda>b. char_of (unat b)) out))))))"

definition uploadBinaryViaSFTP :: "handle \<Rightarrow> string \<Rightarrow> unit fallible" where
  "uploadBinaryViaSFTP client remotePath =
     with_sftp client (\<lambda>_. Try [''sftp.MkdirAll'', sftp_dir remotePath] (\<lambda>_.
       acquire [''sftp.Create'', remotePath] (Some client) (give_up ''create remote file'')
         (\<lambda>remoteFile. try_wire [''io.Copy'', remotePath] (\<lambda>e. close_quietly remoteFile (give_up ''copy binary'' e))
            (close_file remoteFile ''close remote file''
               (try_wire [''sftp.Chmod'', remotePath] (give_up ''chmod remote file'') (Finish (Inr ())))))))"

definition upgradeRemoteNode :: "string \<Rightarrow> deployCredential \<Rightarrow> string \<Rightarrow> unit fallible" where
  "upgradeRemoteNode targetHost cred remotePath =
     try_wire [''os.Executable''] (give_up ''upgrade: resolve executable'')
       (acquire [''os.Open''] None (give_up ''upgrade: open binary'')
          (\<lambda>file. sub_wire (dialSSH targetHost cred) (\<lambda>e. close_quietly file (give_up ''upgrade'' e))
             (\<lambda>client.
                wbind
                  (sub_wire (uploadBinaryViaSFTP client (upgrade_tmp remotePath)) (give_up ''upgrade: upload'')
                     (\<lambda>_. sub_wire (execSSHCommand client (upgrade_mv remotePath)) (give_up ''upgrade: atomic replace'')
                        (\<lambda>_. sub_wire (execSSHCommand client (upgradeRestartCommand remotePath)) (give_up ''upgrade: restart'')
                           (\<lambda>_. Finish (Inr ())))))
                  (\<lambda>r. close_quietly client (close_quietly file (Finish r))))))"

section \<open>What is left open\<close>

lemma run_wbind: "run_wire (wbind m f) env w = (case run_wire m env w of (r, w1) \<Rightarrow> run_wire (f r) env w1)"
  by (induction m arbitrary: w) (simp_all split: option.split)

lemma run_acquire:
  "run_wire (acquire c p bad k) env w =
     (case we_fault env (ww_step w) of
        Some e \<Rightarrow> run_wire (bad (Lib e)) env (tick env c w)
      | None \<Rightarrow> run_wire (k (ww_next w)) env
          ((tick env c w)\<lparr>ww_next := Suc (ww_next w), ww_live := ww_live w @ [(ww_next w, p)]\<rparr>))"
  by (simp add: acquire_def split: option.split)

lemma run_try:
  "run_wire (try_wire c bad k) env w =
     (case we_fault env (ww_step w) of Some e \<Rightarrow> run_wire (bad (Lib e)) env (tick env c w) | None \<Rightarrow> run_wire k env (tick env c w))"
  by (simp add: try_wire_def split: option.split)

lemma run_sub:
  "run_wire (sub_wire m bad k) env w =
     (case run_wire m env w of (Inl e, w1) \<Rightarrow> run_wire (bad e) env w1 | (Inr x, w1) \<Rightarrow> run_wire (k x) env w1)"
  by (auto simp: sub_wire_def run_wbind split: sum.split prod.split)

lemmas wire_runs = run_wbind run_acquire run_try run_sub give_up_def close_quietly_def give_up_closing_def

definition base :: "nat \<Rightarrow> (handle \<times> handle option) list" where
  "base n = map (\<lambda>h. (h, None)) [0..<n]"

text \<open>A world in which \<open>n\<close> other resources are open, with the handles below \<open>n\<close>.\<close>

definition start_world :: "nat \<Rightarrow> world" where
  "start_world n = \<lparr>ww_step = 0, ww_next = n, ww_live = base n, ww_log = []\<rparr>"

definition handles :: "world \<Rightarrow> handle set" where
  "handles w = fst ` set (ww_live w)"

lemma tick_simps [simp]:
  "ww_live (tick env c w) = ww_live w" "ww_next (tick env c w) = ww_next w" "ww_step (tick env c w) = Suc (ww_step w)"
  by (simp_all add: tick_def)

definition without :: "handle \<Rightarrow> (handle \<times> handle option) list \<Rightarrow> (handle \<times> handle option) list" where
  "without h l = filter (\<lambda>(k, p). k \<noteq> h \<and> p \<noteq> Some h) l"

lemma without_simps [simp]:
  "without h (l @ l') = without h l @ without h l'"
  "without h ((k, p) # l) = (if k = h \<or> p = Some h then without h l else (k, p) # without h l)"
  "without h [] = []"
  by (simp_all add: without_def)

lemma without_base [simp]: "n \<le> h \<Longrightarrow> without h (base n) = base n"
  by (auto simp: without_def base_def filter_id_conv)

lemma run_close:
  "run_wire (CloseHandle h k) env w =
     run_wire (k (we_fault env (ww_step w))) env ((tick env [''Close''] w)\<lparr>ww_live := without h (ww_live w)\<rparr>)"
  by (simp add: without_def)

lemma base_handles [simp]: "fst ` set (base n) = {..<n}"
  by (force simp: base_def)

lemma start_simps [simp]:
  "ww_live (start_world n) = base n" "ww_next (start_world n) = n" "ww_step (start_world n) = 0"
  by (simp_all add: start_world_def)

text \<open>The resources open at the end of a program, beside those of the start.\<close>

definition opens_only :: "wire_env \<Rightarrow> nat \<Rightarrow> 'a fallible \<Rightarrow> ('a \<Rightarrow> handle set) \<Rightarrow> (wire_error \<Rightarrow> handle set) \<Rightarrow> bool" where
  "opens_only env n m given left_over =
     (case run_wire m env (start_world n) of
        (Inl e, w) \<Rightarrow> handles w = {..<n} \<union> left_over e
      | (Inr x, w) \<Rightarrow> handles w = {..<n} \<union> given x)"

lemmas wire_eval = wire_runs run_close opens_only_def handles_def outcome_def

lemma https_opens: "opens_only env n (DialHTTPS addr name) (\<lambda>(c, _). {c}) (\<lambda>_. {})"
  by (simp add: DialHTTPS_def wire_eval Let_def del: run_wire.simps(7) split: option.split)

lemma tunnel_opens: "opens_only env n (DialSSHTunnel a t) (\<lambda>(f, c). {f, c}) (\<lambda>_. {})"
  by (auto simp: DialSSHTunnel_def ssh_client_def wire_eval simp del: run_wire.simps(7) split: option.split)

lemma ssh_opens: "opens_only env n (DialSSH a) (\<lambda>c. {sc_session c, sc_client c}) (\<lambda>_. {})"
  by (auto simp: DialSSH_def ssh_client_def give_up_cleaning_def ssh_cleanup_def Let_def wire_eval simp del: run_wire.simps(7) split: option.split)

lemma proxy_opens: "opens_only env n (DialProxy h t) (\<lambda>(c, _). {c})
   (\<lambda>e. case e of Wrap s _ \<Rightarrow> if s = ''transport: proxy: close response body'' then {n} else {} | _ \<Rightarrow> {})"
  by (auto simp: DialProxy_def wire_eval simp del: run_wire.simps(7) split: option.split)

text \<open>A part of a program runs in any world in which no resource has a handle of the future.\<close>

definition no_future :: "world \<Rightarrow> bool" where
  "no_future w \<longleftrightarrow> (\<forall>h\<ge>ww_next w. without h (ww_live w) = ww_live w)"

lemma no_future_without [simp]: "no_future w \<Longrightarrow> ww_next w \<le> h \<Longrightarrow> without h (ww_live w) = ww_live w"
  by (simp add: no_future_def)

lemma upload_restores:
  assumes "no_future w" "run_wire (uploadBinary client path) env w = (r, w1)"
  shows "ww_live w1 = ww_live w \<and> ww_next w \<le> ww_next w1 \<and> (case r of Inl _ \<Rightarrow> True | Inr _ \<Rightarrow> ww_next w1 = ww_next w + 2)"
  using assms
  by (auto simp: uploadBinary_def with_sftp_def close_file_def wire_runs run_close simp del: run_wire.simps(7) split: option.splits)

lemma exec_opens:
  assumes "no_future w" "run_wire (execBinary client path args) env w = (r, w1)"
  shows "ww_next w \<le> ww_next w1 \<and>
     (case r of
        Inl _ \<Rightarrow> ww_live w1 = ww_live w \<or> ww_live w1 = ww_live w @ [(ww_next w, Some client)]
      | Inr c \<Rightarrow> ww_live w1 = ww_live w @ [(ww_next w, Some client)] \<and> c = \<lparr>sc_session = ww_next w, sc_client = client\<rparr> \<and>
          ww_next w1 = Suc (ww_next w))"
  using assms
  by (auto simp: execBinary_def give_up_exec_def wire_runs run_close simp del: run_wire.simps(7) split: option.splits)

lemma ready_closes:
  assumes "run_wire (wait_ready d stderr c) env w = (r, w1)"
  shows "ww_next w1 = ww_next w \<and>
     (case r of Inl _ \<Rightarrow> ww_live w1 = without (sc_client c) (without (sc_session c) (ww_live w)) | Inr x \<Rightarrow> x = c \<and> ww_live w1 = ww_live w)"
  using assms
  by (auto simp: wait_ready_def close_ssh_def wire_runs run_close outcome_def Let_def simp del: run_wire.simps(7) split: option.splits sum.splits if_splits)

definition deploy_body :: "deploy_site \<Rightarrow> selfDeployer \<Rightarrow> string \<Rightarrow> string \<Rightarrow> sshConn fallible" where
  "deploy_body site d targetHost remotePath =
     ssh_client targetHost ''transport: deploy: dial'' ''transport: deploy: SSH handshake''
       (\<lambda>client. sub_wire (if sd_skipUpload d then Finish (Inr ()) else uploadBinary client remotePath)
          (give_up_closing client ''transport: deploy: upload'')
          (\<lambda>_. sub_wire (execBinary client remotePath (sd_execArgs d))
             (give_up_closing client ''transport: deploy: exec'')
             (wait_ready d (ds_stderr site))))"

lemma no_future_more: "no_future w \<Longrightarrow> ww_next w \<le> ww_next w1 \<Longrightarrow> ww_live w1 = ww_live w \<Longrightarrow> no_future w1"
  by (simp add: no_future_def)

lemma deploy_body_opens:
  assumes f: "no_future w" and r: "run_wire (deploy_body site d host path) env w = (r, w1)"
  shows "case r of
      Inl e \<Rightarrow> ww_live w1 = ww_live w \<and> (case e of Wrap s _ \<Rightarrow> s \<noteq> ''transport: deploy: close binary'' | _ \<Rightarrow> True)
    | Inr c \<Rightarrow> ww_live w1 = ww_live w @ [(sc_client c, None), (sc_session c, Some (sc_client c))] \<and>
        sc_client c = ww_next w \<and> sc_session c = ww_next w + (if sd_skipUpload d then 1 else 3)"
proof (cases "we_fault env (ww_step w)")
  case (Some e)
  then show ?thesis using r by (auto simp: deploy_body_def ssh_client_def wire_runs)
next
  case None
  define w2 where "w2 = (tick env [''dial'', host] w)\<lparr>ww_next := Suc (ww_next w), ww_live := ww_live w @ [(ww_next w, None)]\<rparr>"
  define w3 where "w3 = tick env [''ssh.NewClientConn'', host] w2"
  have live3: "ww_live w3 = ww_live w @ [(ww_next w, None)]" "ww_next w3 = Suc (ww_next w)" by (simp_all add: w3_def w2_def)
  have f3: "no_future w3" using f by (simp add: no_future_def live3)
  show ?thesis
  proof (cases "we_fault env (ww_step w2)")
    case (Some e)
    then show ?thesis
      using r f None unfolding deploy_body_def ssh_client_def
      by (auto simp: wire_runs run_close w2_def simp del: run_wire.simps(7) split: option.splits)
  next
    case ok: None
    obtain u w4 where u: "run_wire (if sd_skipUpload d then Finish (Inr ()) else uploadBinary (ww_next w) path) env w3 = (u, w4)" by fastforce
    have live4: "ww_live w4 = ww_live w @ [(ww_next w, None)]" "Suc (ww_next w) \<le> ww_next w4"
      "case u of Inl _ \<Rightarrow> True | Inr _ \<Rightarrow> ww_next w4 = ww_next w + (if sd_skipUpload d then 1 else 3)"
    proof -
      have "ww_live w4 = ww_live w3 \<and> ww_next w3 \<le> ww_next w4 \<and>
          (case u of Inl _ \<Rightarrow> True | Inr _ \<Rightarrow> ww_next w4 = ww_next w3 + (if sd_skipUpload d then 0 else 2))"
      proof (cases "sd_skipUpload d")
        case True
        then show ?thesis using u by auto
      next
        case False
        then show ?thesis using upload_restores [OF f3, of "ww_next w" path env u w4] u by simp
      qed
      then show "ww_live w4 = ww_live w @ [(ww_next w, None)]" "Suc (ww_next w) \<le> ww_next w4"
        "case u of Inl _ \<Rightarrow> True | Inr _ \<Rightarrow> ww_next w4 = ww_next w + (if sd_skipUpload d then 1 else 3)"
        by (auto simp: live3 split: sum.splits)
    qed
    have f4: "no_future w4" using f live4(2) by (simp add: no_future_def live4(1))
    have run: "run_wire (deploy_body site d host path) env w =
        (case u of Inl e \<Rightarrow> run_wire (give_up_closing (ww_next w) ''transport: deploy: upload'' e) env w4
         | Inr _ \<Rightarrow> run_wire (sub_wire (execBinary (ww_next w) path (sd_execArgs d))
             (give_up_closing (ww_next w) ''transport: deploy: exec'') (wait_ready d (ds_stderr site))) env w4)"
      using None ok u unfolding deploy_body_def ssh_client_def w3_def w2_def
      by (simp add: run_acquire run_try run_sub [of "if sd_skipUpload d then Finish (Inr ()) else uploadBinary (ww_next w) path"])
    show ?thesis
    proof (cases u)
      case (Inl e)
      then show ?thesis
        using r f unfolding run by (auto simp: wire_runs run_close live4(1) simp del: run_wire.simps(7) split: option.splits)
    next
      case (Inr x)
      obtain c w5 where c: "run_wire (execBinary (ww_next w) path (sd_execArgs d)) env w4 = (c, w5)" by fastforce
      note exec = exec_opens [OF f4 c]
      show ?thesis
      proof (cases c)
        case (Inl e)
        then show ?thesis
          using r f exec Inr unfolding run
          by (auto simp: run_sub c give_up_closing_def run_close live4(1) simp del: run_wire.simps(7) split: option.splits)
      next
        case c': (Inr y)
        have y: "y = \<lparr>sc_session = ww_next w4, sc_client = ww_next w\<rparr>" and live5: "ww_live w5 = ww_live w @ [(ww_next w, None), (ww_next w4, Some (ww_next w))]"
          using exec c' by (simp_all add: live4(1))
        have rr: "run_wire (wait_ready d (ds_stderr site) y) env w5 = (r, w1)" using r c Inr c' unfolding run by (simp add: run_sub)
        have "case r of Inl e \<Rightarrow> (case e of Wrap s _ \<Rightarrow> s = ''transport: deploy: readiness'' | _ \<Rightarrow> False) | Inr _ \<Rightarrow> True"
          using rr by (auto simp: wait_ready_def close_ssh_def wire_runs run_close outcome_def Let_def simp del: run_wire.simps(7)
              split: option.splits sum.splits if_splits)
        then show ?thesis
          using ready_closes [OF rr] f live4(2,3) Inr by (auto simp: y live5 split: sum.splits wire_error.splits)
      qed
    qed
  qed
qed

lemma deploy_unfold:
  "SelfDeployer_Deploy site d host cred =
     (let start = (\<lambda>binaryPath. case isStaticBinary (ds_elf site binaryPath) of
           Some e \<Rightarrow> Finish (Inl e)
         | None \<Rightarrow>
             acquire [''os.Open'', binaryPath] None (give_up ''transport: deploy: open binary'')
               (\<lambda>file. defer_close file ''transport: deploy: close binary''
                  (try_wire [''file.Stat''] (give_up ''transport: deploy: stat binary'')
                     (case buildAuthMethods cred of
                        None \<Rightarrow> Finish (Inl (Wrap ''transport: deploy'' (Lib ''no auth method: provide SSHKeyData or SSHPass'')))
                      | Some _ \<Rightarrow> deploy_body site d host (if sd_remotePath d = [] then ''/tmp/cortex-mcp-node'' else sd_remotePath d)))))
      in if sd_binaryPath d = [] then
           try_wire [''os.Executable''] (give_up ''transport: deploy: resolve executable'') (start (ds_executable site))
         else start (sd_binaryPath d))"
  unfolding SelfDeployer_Deploy_def deploy_body_def Let_def ..

definition deploy_left_over :: "selfDeployer \<Rightarrow> nat \<Rightarrow> wire_error \<Rightarrow> handle set" where
  "deploy_left_over d n e =
     (case e of Wrap s _ \<Rightarrow> if s = ''transport: deploy: close binary'' then {n, n + (if sd_skipUpload d then 1 else 3)} else {} | _ \<Rightarrow> {})"

lemma open_file_opens:
  assumes "ww_live w = base n" "ww_next w = n"
  shows "case run_wire (acquire c None (give_up ''transport: deploy: open binary'')
       (\<lambda>file. defer_close file ''transport: deploy: close binary''
          (try_wire [''file.Stat''] (give_up ''transport: deploy: stat binary'')
             (case buildAuthMethods cred of
                None \<Rightarrow> Finish (Inl (Wrap ''transport: deploy'' (Lib ''no auth method: provide SSHKeyData or SSHPass'')))
              | Some _ \<Rightarrow> deploy_body site d host path)))) env w of
     (Inl e, w1) \<Rightarrow> fst ` set (ww_live w1) = {..<n} \<union> deploy_left_over d (Suc n) e
   | (Inr c, w1) \<Rightarrow> fst ` set (ww_live w1) = {..<n} \<union> {sc_session c, sc_client c}"
proof (cases "we_fault env (ww_step w) = None \<and> we_fault env (Suc (ww_step w)) = None \<and> buildAuthMethods cred \<noteq> None")
  case False
  then show ?thesis
    using assms by (auto simp: wire_runs run_close defer_close_def deploy_left_over_def simp del: run_wire.simps(7) split: option.splits)
next
  case True
  then obtain ms where auth: "buildAuthMethods cred = Some ms" by blast
  define w2 where "w2 = tick env [''file.Stat''] ((tick env c w)\<lparr>ww_next := Suc n, ww_live := base n @ [(n, None)]\<rparr>)"
  have w2: "ww_live w2 = base n @ [(n, None)]" "ww_next w2 = Suc n" by (simp_all add: w2_def)
  have f2: "no_future w2" by (simp add: no_future_def w2)
  obtain r w3 where r: "run_wire (deploy_body site d host path) env w2 = (r, w3)" by fastforce
  note body = deploy_body_opens [OF f2 r]
  have fin: "run_wire (acquire c None (give_up ''transport: deploy: open binary'')
       (\<lambda>file. defer_close file ''transport: deploy: close binary''
          (try_wire [''file.Stat''] (give_up ''transport: deploy: stat binary'')
             (case buildAuthMethods cred of
                None \<Rightarrow> Finish (Inl (Wrap ''transport: deploy'' (Lib ''no auth method: provide SSHKeyData or SSHPass'')))
              | Some _ \<Rightarrow> deploy_body site d host path)))) env w =
     run_wire (CloseHandle n (\<lambda>c. case (r, c) of (Inr _, Some e) \<Rightarrow> give_up ''transport: deploy: close binary'' (Lib e) | _ \<Rightarrow> Finish r)) env w3"
    using True r assms by (simp add: run_acquire run_try defer_close_def run_wbind auth w2_def del: run_wire.simps(7))
  show ?thesis
  proof (cases r)
    case (Inl e)
    then show ?thesis unfolding fin using body
      by (auto simp: run_close w2 deploy_left_over_def simp del: run_wire.simps(7) split: wire_error.splits)
  next
    case (Inr c)
    then show ?thesis unfolding fin using body
      by (auto simp: run_close w2 deploy_left_over_def give_up_def simp del: run_wire.simps(7) split: option.splits)
  qed
qed

lemma deploy_opens:
  "opens_only env n (SelfDeployer_Deploy site d host cred) (\<lambda>c. {sc_session c, sc_client c}) (deploy_left_over d (Suc n))"
proof -
  define start where "start = (\<lambda>binaryPath. case isStaticBinary (ds_elf site binaryPath) of
           Some e \<Rightarrow> Finish (Inl e)
         | None \<Rightarrow>
             acquire [''os.Open'', binaryPath] None (give_up ''transport: deploy: open binary'')
               (\<lambda>file. defer_close file ''transport: deploy: close binary''
                  (try_wire [''file.Stat''] (give_up ''transport: deploy: stat binary'')
                     (case buildAuthMethods cred of
                        None \<Rightarrow> Finish (Inl (Wrap ''transport: deploy'' (Lib ''no auth method: provide SSHKeyData or SSHPass'')))
                      | Some _ \<Rightarrow> deploy_body site d host (if sd_remotePath d = [] then ''/tmp/cortex-mcp-node'' else sd_remotePath d)))))"
  have start: "case run_wire (start p) env w of
     (Inl e, w1) \<Rightarrow> fst ` set (ww_live w1) = {..<n} \<union> deploy_left_over d (Suc n) e
   | (Inr c, w1) \<Rightarrow> fst ` set (ww_live w1) = {..<n} \<union> {sc_session c, sc_client c}" if "ww_live w = base n" "ww_next w = n" for p w
  proof (cases "isStaticBinary (ds_elf site p)")
    case (Some e)
    then show ?thesis
      using that by (auto simp: start_def deploy_left_over_def isStaticBinary_def split: elf_file.splits if_splits)
  next
    case None
    then show ?thesis using open_file_opens [OF that] by (simp add: start_def)
  qed
  have run: "SelfDeployer_Deploy site d host cred =
      (if sd_binaryPath d = [] then
         try_wire [''os.Executable''] (give_up ''transport: deploy: resolve executable'') (start (ds_executable site))
       else start (sd_binaryPath d))"
    unfolding deploy_unfold Let_def start_def ..
  show ?thesis
    unfolding run opens_only_def handles_def
    using start [of "start_world n"] start [of "tick env [''os.Executable''] (start_world n)"]
    by (simp add: run_try give_up_def deploy_left_over_def split: option.split)
qed

lemma sftp_restores:
  assumes "no_future w" "run_wire (uploadBinaryViaSFTP client path) env w = (r, w1)"
  shows "ww_live w1 = ww_live w \<and> ww_next w \<le> ww_next w1"
  using assms
  by (auto simp: uploadBinaryViaSFTP_def with_sftp_def close_file_def wire_runs run_close simp del: run_wire.simps(7) split: option.splits)

lemma command_restores:
  assumes "no_future w" "run_wire (execSSHCommand client cmd) env w = (r, w1)"
  shows "ww_live w1 = ww_live w \<and> ww_next w \<le> ww_next w1"
  using assms by (auto simp: execSSHCommand_def wire_runs run_close simp del: run_wire.simps(7) split: option.splits)

text \<open>Three steps that restore the open resources do so together.\<close>

definition restores :: "'a fallible \<Rightarrow> wire_env \<Rightarrow> bool" where
  "restores m env \<longleftrightarrow> (\<forall>w. no_future w \<longrightarrow> (case run_wire m env w of (_, w1) \<Rightarrow> ww_live w1 = ww_live w \<and> ww_next w \<le> ww_next w1))"

lemma restores_sub:
  assumes "restores m env" "\<And>x. restores (k x) env"
  shows "restores (sub_wire m (give_up what) k) env"
  unfolding restores_def
proof (intro allI impI)
  fix w assume f: "no_future w"
  obtain r w1 where r: "run_wire m env w = (r, w1)" by fastforce
  have w1: "ww_live w1 = ww_live w" "ww_next w \<le> ww_next w1" using assms(1) f r by (auto simp: restores_def dest!: spec [of _ w])
  then have "no_future w1" using no_future_more [OF f] by simp
  then have k: "case run_wire (k x) env w1 of (_, w2) \<Rightarrow> ww_live w2 = ww_live w1 \<and> ww_next w1 \<le> ww_next w2" for x
    using assms(2) [of x] by (simp add: restores_def)
  show "case run_wire (sub_wire m (give_up what) k) env w of (_, w1) \<Rightarrow> ww_live w1 = ww_live w \<and> ww_next w \<le> ww_next w1"
  proof (cases r)
    case (Inl e)
    then show ?thesis using w1 by (simp add: run_sub r give_up_def)
  next
    case (Inr x)
    then show ?thesis using w1 k [of x] by (auto simp: run_sub r split: prod.splits)
  qed
qed

lemma restores_steps:
  "restores (uploadBinaryViaSFTP client path) env" "restores (execSSHCommand client cmd) env" "restores (Finish x) env"
  using sftp_restores command_restores by (fastforce simp: restores_def)+

lemma dialSSH_opens:
  "run_wire (dialSSH host cred) env w = (r, w1) \<Longrightarrow> no_future w \<Longrightarrow>
   case r of Inl _ \<Rightarrow> ww_live w1 = ww_live w
   | Inr c \<Rightarrow> c = ww_next w \<and> ww_live w1 = ww_live w @ [(c, None)] \<and> ww_next w1 = Suc c"
  by (auto simp: dialSSH_def wire_runs run_close simp del: run_wire.simps(7) split: option.splits)

lemma upgrade_opens: "opens_only env n (upgradeRemoteNode host cred path) (\<lambda>_. {}) (\<lambda>_. {})"
proof -
  define steps where "steps = (\<lambda>client. sub_wire (uploadBinaryViaSFTP client (upgrade_tmp path)) (give_up ''upgrade: upload'')
      (\<lambda>_. sub_wire (execSSHCommand client (upgrade_mv path)) (give_up ''upgrade: atomic replace'')
         (\<lambda>_. sub_wire (execSSHCommand client (upgradeRestartCommand path)) (give_up ''upgrade: restart'') (\<lambda>_. Finish (Inr ())))))"
  have steps: "restores (steps client) env" for client
    unfolding steps_def by (intro restores_sub restores_steps)
  define w2 where "w2 = (tick env [''os.Open''] (tick env [''os.Executable''] (start_world n)))\<lparr>ww_next := Suc n, ww_live := base n @ [(n, None)]\<rparr>"
  have w2: "ww_live w2 = base n @ [(n, None)]" "ww_next w2 = Suc n" by (simp_all add: w2_def)
  have f2: "no_future w2" by (simp add: no_future_def w2)
  obtain r w3 where r: "run_wire (dialSSH host cred) env w2 = (r, w3)" by fastforce
  note d = dialSSH_opens [OF r f2]
  show ?thesis
  proof (cases "we_fault env 0 = None \<and> we_fault env 1 = None")
    case False
    then show ?thesis by (auto simp: upgradeRemoteNode_def wire_eval simp del: run_wire.simps(7) split: option.split)
  next
    case True
    then have run: "run_wire (upgradeRemoteNode host cred path) env (start_world n) =
        (case r of Inl e \<Rightarrow> run_wire (close_quietly n (give_up ''upgrade'' e)) env w3
         | Inr client \<Rightarrow> run_wire (wbind (steps client) (\<lambda>r. close_quietly client (close_quietly n (Finish r)))) env w3)"
      using r by (simp add: upgradeRemoteNode_def steps_def run_try run_acquire run_sub w2_def split: sum.split)
    show ?thesis
    proof (cases r)
      case (Inl e)
      then show ?thesis using d unfolding opens_only_def run by (simp add: wire_eval w2 del: run_wire.simps(7))
    next
      case (Inr client)
      then have w3: "client = Suc n" "ww_live w3 = base n @ [(n, None), (Suc n, None)]" "ww_next w3 = Suc (Suc n)" using d by (simp_all add: w2)
      have f3: "no_future w3" by (simp add: no_future_def w3)
      obtain q w4 where q: "run_wire (steps client) env w3 = (q, w4)" by fastforce
      have "ww_live w4 = base n @ [(n, None), (Suc n, None)]" using steps [of client] f3 q w3 by (auto simp: restores_def dest!: spec [of _ w3])
      then show ?thesis using Inr unfolding opens_only_def run by (cases q) (simp_all add: wire_eval q [unfolded w3(1)] w3 del: run_wire.simps(7))
    qed
  qed
qed

text \<open>
  Property C35. Dialling, placing the program on a host and upgrading one leave no resource open that they do not hand out. Whichever calls fail,
  those that close something included, an attempt that fails has closed its sockets, SSH sessions, SFTP files and program files, and one that succeeds
  has open what it returns; resources of others are not touched. Two paths leak, exactly these: a proxy whose answer cannot be
  drained, and a deployment whose program file fails to close after the program has been started.
\<close>

theorem nothing_left_open:
  "opens_only env n (DialProxy proxyHost target) (\<lambda>(c, _). {c})
     (\<lambda>e. case e of Wrap s _ \<Rightarrow> if s = ''transport: proxy: close response body'' then {n} else {} | _ \<Rightarrow> {}) \<and>
   opens_only env n (DialSSH addr) (\<lambda>c. {sc_session c, sc_client c}) (\<lambda>_. {}) \<and>
   opens_only env n (DialSSHTunnel addr target) (\<lambda>(f, c). {f, c}) (\<lambda>_. {}) \<and>
   opens_only env n (DialHTTPS addr serverName) (\<lambda>(c, _). {c}) (\<lambda>_. {}) \<and>
   opens_only env n (SelfDeployer_Deploy site d addr cred) (\<lambda>c. {sc_session c, sc_client c})
     (\<lambda>e. case e of Wrap s _ \<Rightarrow> if s = ''transport: deploy: close binary'' then {Suc n, Suc n + (if sd_skipUpload d then 1 else 3)} else {} | _ \<Rightarrow> {}) \<and>
   opens_only env n (upgradeRemoteNode addr cred remotePath) (\<lambda>_. {}) (\<lambda>_. {})"
  using proxy_opens ssh_opens tunnel_opens https_opens deploy_opens [of env n site d addr cred, unfolded deploy_left_over_def [abs_def]] upgrade_opens
  by blast

section \<open>Who joins\<close>

text \<open>
  The chain of a peer that may join: its leaf parses, has a name and a lifetime within the limit, all other certificates parse, and the
  library verifies the leaf with them for the usage.
\<close>

definition certified :: "x509_lib \<Rightarrow> extKeyUsage \<Rightarrow> octets list \<Rightarrow> x509cert \<Rightarrow> bool" where
  "certified lib usage rawCerts cert \<longleftrightarrow>
     (\<exists>raw others intermediates. rawCerts = raw # others \<and> xl_parse lib raw = Inr cert \<and> crt_commonName cert \<noteq> [] \<and>
        crt_notAfter cert - crt_notBefore cert \<le> MaxCertLifetime \<and> map (xl_parse lib) others = map Inr intermediates \<and>
        xl_verify lib cert intermediates usage = None)"

lemma parse_intermediates_Inr: "parse_intermediates lib raws = Inr certs \<longleftrightarrow> map (xl_parse lib) raws = map Inr certs"
proof (induction raws arbitrary: certs)
  case (Cons raw raws)
  show ?case by (cases certs) (auto simp: Cons.IH [symmetric] split: sum.splits)
qed auto

lemma verify_certified: "verifyCertChain lib rawCerts usage = None \<longleftrightarrow> (\<exists>cert. certified lib usage rawCerts cert)"
proof (cases rawCerts)
  case (Cons raw others)
  show ?thesis
  proof (cases "parse_intermediates lib others")
    case (Inl e)
    then have "map (xl_parse lib) others \<noteq> map Inr certs" for certs using parse_intermediates_Inr [of lib others certs] by auto
    then show ?thesis using Inl Cons by (auto simp: verifyCertChain_def certified_def split: sum.splits)
  next
    case (Inr certs)
    then have "map (xl_parse lib) others = map Inr certs" by (simp add: parse_intermediates_Inr)
    moreover have "inj (Inr :: x509cert \<Rightarrow> string + x509cert)" by (simp add: inj_def)
    ultimately have "map (xl_parse lib) others = map Inr cs \<longleftrightarrow> cs = certs" for cs by (metis inj_map_eq_map)
    then show ?thesis using Inr Cons by (auto simp: verifyCertChain_def certified_def split: sum.splits option.splits)
  qed
qed (simp add: verifyCertChain_def certified_def)

lemma certified_peer:
  assumes "certified lib usage rawCerts cert"
  shows "peer_cert lib \<lparr>tc_handle = h, tc_certs = rawCerts\<rparr> = Some cert" "crt_commonName cert \<noteq> []"
  using assms by (auto simp: certified_def peer_cert_def)

text \<open>The handshake of either role: it closes the connection when it fails.\<close>

definition usage_of :: "bool \<Rightarrow> extKeyUsage" where
  "usage_of isServer = (if isServer then ClientAuth else ServerAuth)"

lemma run_handshake:
  "run_wire (handshake lib True isServer conn) env w =
     (case outcome env w (we_certs env (ww_step w)) of
        Inl e \<Rightarrow> (Inl (Wrap (if isServer then ''membrane: server handshake'' else ''membrane: client handshake'') (Lib e)),
          (tick env [''Close''] (tick env [if isServer then ''tls.Server'' else ''tls.Client''] w))\<lparr>ww_live := without conn (ww_live w)\<rparr>)
      | Inr raw \<Rightarrow>
          (case verifyCertChain lib raw (usage_of isServer) of
             Some e \<Rightarrow> (Inl (Wrap (if isServer then ''membrane: server handshake'' else ''membrane: client handshake'') e),
               (tick env [''Close''] (tick env [if isServer then ''tls.Server'' else ''tls.Client''] w))\<lparr>ww_live := without conn (ww_live w)\<rparr>)
           | None \<Rightarrow> (Inr \<lparr>tc_handle = conn, tc_certs = raw\<rparr>, tick env [if isServer then ''tls.Server'' else ''tls.Client''] w)))"
  by (simp add: handshake_def HandshakeServer_def HandshakeClient_def close_quietly_def give_up_def run_close usage_of_def
      del: run_wire.simps(7) split: sum.split option.split)

lemma base_Suc: "base (Suc n) = base n @ [(n, None)]"
  by (simp add: base_def)

lemma AddPeer_opens:
  "case run_wire (AddPeer_conn lib hasCfg isServer n addr) env (start_world (Suc n)) of
     (Inl e, w) \<Rightarrow> handles w = {..<n} \<union> (if hasCfg then {} else {n})
   | (Inr p, w) \<Rightarrow> handles w = {..<n} \<union> {n, Suc n} \<and>
       (\<exists>cert. certified lib (usage_of isServer) (we_certs env 0) cert \<and> np_id p = crt_commonName cert \<and>
          np_pubKey p = (case crt_ed25519 cert of None \<Rightarrow> [] | Some k \<Rightarrow> k))"
proof (cases hasCfg)
  case False
  then show ?thesis by (auto simp: AddPeer_conn_def handles_def)
next
  case True
  show ?thesis
  proof (cases "outcome env (start_world (Suc n)) (we_certs env 0)")
    case (Inl e)
    then show ?thesis using True by (simp add: AddPeer_conn_def run_sub run_handshake give_up_def handles_def base_Suc)
  next
    case (Inr raw)
    then have raw: "raw = we_certs env 0" by (simp add: outcome_def split: option.splits)
    show ?thesis
    proof (cases "verifyCertChain lib raw (usage_of isServer)")
      case (Some e)
      then show ?thesis using True Inr by (simp add: AddPeer_conn_def run_sub run_handshake give_up_def handles_def base_Suc)
    next
      case None
      then obtain cert where cert: "certified lib (usage_of isServer) raw cert" by (auto simp: verify_certified)
      note peer = certified_peer(1) [OF cert, of n] certified_peer(2) [OF cert]
      show ?thesis
        using True Inr None cert peer unfolding raw
        by (auto simp: AddPeer_conn_def run_sub run_handshake Let_def PeerNodeID_def PeerPubKey_def Multiplex_def NewZstdConn_def
            wire_eval handles_def base_Suc simp del: run_wire.simps(7) split: option.splits)
    qed
  qed
qed

text \<open>What is left open when a dual peer could not be added: the data connection, if the handshake of the other one failed.\<close>

definition dual_left_over :: "nat \<Rightarrow> wire_error \<Rightarrow> handle set" where
  "dual_left_over n e =
     (case e of Wrap s _ \<Rightarrow> if s = ''api: add peer dual: control handshake'' then {Suc n} else {} | _ \<Rightarrow> {})"

lemma run_dual_mx:
  "c < d \<Longrightarrow> d < ww_next w \<Longrightarrow>
   case run_wire (MultiplexDual (Some c) (Some d) isServer) env w of
     (Inl e, w1) \<Rightarrow> (ww_live w1 = ww_live w \<or> ww_live w1 = without c (ww_live w) \<or> ww_live w1 = without d (without c (ww_live w)))
   | (Inr mc, w1) \<Rightarrow> ww_live w1 = ww_live w"
  by (auto simp: MultiplexDual_def NewZstdConn_def wire_runs run_close simp del: run_wire.simps(7) split: option.splits)

lemma AddPeerDual_opens:
  "case run_wire (AddPeerDual_conn lib hasCfg isServer n addr (Suc n) dataAddr) env (start_world (Suc (Suc n))) of
     (Inl e, w) \<Rightarrow> handles w = {..<n} \<union> (if hasCfg then dual_left_over n e else {n, Suc n})
   | (Inr p, w) \<Rightarrow> handles w = {..<n} \<union> {n, Suc n} \<and>
       (\<exists>cert cert'. certified lib (usage_of isServer) (we_certs env 0) cert \<and> certified lib (usage_of isServer) (we_certs env 1) cert' \<and>
          crt_commonName cert' = crt_commonName cert \<and> np_id p = crt_commonName cert \<and>
          np_pubKey p = (case crt_ed25519 cert of None \<Rightarrow> [] | Some k \<Rightarrow> k))"
proof (cases hasCfg)
  case False
  then show ?thesis by (auto simp: AddPeerDual_conn_def handles_def)
next
  case cfg: True
  define w0 where "w0 = start_world (Suc (Suc n))"
  define w1 where "w1 = tick env [if isServer then ''tls.Server'' else ''tls.Client''] w0"
  define w2 where "w2 = tick env [if isServer then ''tls.Server'' else ''tls.Client''] w1"
  have live: "ww_live w0 = base n @ [(n, None), (Suc n, None)]" "ww_live w1 = ww_live w0" "ww_live w2 = ww_live w0" "ww_step w0 = 0" "ww_step w1 = 1"
    "ww_next w2 = Suc (Suc n)"
    by (simp_all add: w0_def w1_def w2_def base_Suc)
  note eval = AddPeerDual_conn_def run_sub run_handshake give_up_def handles_def live dual_left_over_def run_close close_quietly_def
  show ?thesis
    unfolding w0_def [symmetric]
  proof (cases "outcome env w0 (we_certs env 0)")
    case (Inl e)
    then show "case run_wire (AddPeerDual_conn lib hasCfg isServer n addr (Suc n) dataAddr) env w0 of
     (Inl e, w) \<Rightarrow> handles w = {..<n} \<union> (if hasCfg then dual_left_over n e else {n, Suc n})
   | (Inr p, w) \<Rightarrow> handles w = {..<n} \<union> {n, Suc n} \<and>
       (\<exists>cert cert'. certified lib (usage_of isServer) (we_certs env 0) cert \<and> certified lib (usage_of isServer) (we_certs env 1) cert' \<and>
          crt_commonName cert' = crt_commonName cert \<and> np_id p = crt_commonName cert \<and>
          np_pubKey p = (case crt_ed25519 cert of None \<Rightarrow> [] | Some k \<Rightarrow> k))"
      using cfg by (simp add: eval del: run_wire.simps(7))
  next
    case (Inr raw)
    then have raw: "raw = we_certs env 0" by (simp add: outcome_def split: option.splits)
    show "case run_wire (AddPeerDual_conn lib hasCfg isServer n addr (Suc n) dataAddr) env w0 of
     (Inl e, w) \<Rightarrow> handles w = {..<n} \<union> (if hasCfg then dual_left_over n e else {n, Suc n})
   | (Inr p, w) \<Rightarrow> handles w = {..<n} \<union> {n, Suc n} \<and>
       (\<exists>cert cert'. certified lib (usage_of isServer) (we_certs env 0) cert \<and> certified lib (usage_of isServer) (we_certs env 1) cert' \<and>
          crt_commonName cert' = crt_commonName cert \<and> np_id p = crt_commonName cert \<and>
          np_pubKey p = (case crt_ed25519 cert of None \<Rightarrow> [] | Some k \<Rightarrow> k))"
    proof (cases "verifyCertChain lib raw (usage_of isServer)")
      case (Some e)
      then show ?thesis using cfg Inr by (simp add: eval del: run_wire.simps(7))
    next
      case None
      then obtain cert where cert: "certified lib (usage_of isServer) raw cert" by (auto simp: verify_certified)
      note peer = certified_peer(1) [OF cert, of n] certified_peer(2) [OF cert]
      show ?thesis
      proof (cases "outcome env w1 (we_certs env 1)")
        case (Inl e)
        then show ?thesis using cfg Inr None by (simp add: eval w1_def [symmetric] del: run_wire.simps(7))
      next
        case raw': (Inr raw')
        then have raw'_eq: "raw' = we_certs env 1" by (simp add: outcome_def split: option.splits)
        show ?thesis
        proof (cases "verifyCertChain lib raw' (usage_of isServer)")
          case (Some e)
          then show ?thesis using cfg Inr None raw' by (simp add: eval w1_def [symmetric] del: run_wire.simps(7))
        next
          case none': None
          then obtain cert' where cert': "certified lib (usage_of isServer) raw' cert'" by (auto simp: verify_certified)
          note peer' = certified_peer(1) [OF cert', of "Suc n"] certified_peer(2) [OF cert']
          obtain r w3 where r: "run_wire (MultiplexDual (Some n) (Some (Suc n)) isServer) env w2 = (r, w3)" by fastforce
          have "case r of
              Inl e \<Rightarrow> without (Suc n) (without n (ww_live w3)) = base n
            | Inr mc \<Rightarrow> ww_live w3 = base n @ [(n, None), (Suc n, None)]"
            using run_dual_mx [of n "Suc n" w2 isServer env] r live by (auto split: sum.splits)
          note left = this
          have names: "dual_identity (PeerNodeID lib \<lparr>tc_handle = n, tc_certs = raw\<rparr>) addr
              (PeerNodeID lib \<lparr>tc_handle = Suc n, tc_certs = raw'\<rparr>) dataAddr =
            (if crt_commonName cert' = crt_commonName cert then Some (crt_commonName cert) else None)"
            using peer peer' by (simp add: dual_identity_def PeerNodeID_def Let_def)
          have key: "PeerPubKey lib \<lparr>tc_handle = n, tc_certs = raw\<rparr> = (case crt_ed25519 cert of None \<Rightarrow> [] | Some k \<Rightarrow> k)"
            using peer by (simp add: PeerPubKey_def)
          have run: "run_wire (AddPeerDual_conn lib hasCfg isServer n addr (Suc n) dataAddr) env w0 =
              run_wire (case dual_identity (PeerNodeID lib \<lparr>tc_handle = n, tc_certs = raw\<rparr>) addr
                  (PeerNodeID lib \<lparr>tc_handle = Suc n, tc_certs = raw'\<rparr>) dataAddr of
                None \<Rightarrow> close_quietly n (close_quietly (Suc n) (Finish (Inl (Lib ''api: add peer dual: identity mismatch''))))
              | Some peerID \<Rightarrow>
                  sub_wire (MultiplexDual (Some n) (Some (Suc n)) isServer)
                    (\<lambda>e. close_quietly n (close_quietly (Suc n) (give_up ''api: add peer dual: multiplex'' e)))
                    (\<lambda>mc. Finish (Inr \<lparr>np_id = peerID, np_pubKey = PeerPubKey lib \<lparr>tc_handle = n, tc_certs = raw\<rparr>, np_mx = mc\<rparr>))) env w2"
            using cfg Inr None raw' none' by (simp add: AddPeerDual_conn_def run_sub run_handshake live w1_def [symmetric] w2_def [symmetric] del: run_wire.simps(7) cong: option.case_cong)
          show ?thesis
          proof (cases "crt_commonName cert' = crt_commonName cert")
            case True
            show ?thesis
            proof (cases r)
              case (Inl e)
              then show ?thesis
                using left cfg r unfolding run names by (simp add: True run_sub eval del: run_wire.simps(7))
            next
              case (Inr mc)
              then show ?thesis
                using left cfg r cert [unfolded raw] cert' [unfolded raw'_eq] True unfolding run names key by (auto simp: run_sub handles_def)
            qed
          next
            case False
            then show ?thesis unfolding run names using cfg by (simp add: eval del: run_wire.simps(7))
          qed
        qed
      qed
    qed
  qed
qed

text \<open>
  Property C36. A peer joins the node under the name of a certificate that was verified. When a connection is added, its certificate parses,
  has a name and a lifetime within the limit and verifies against the pool for the role of the peer, and the peer is registered
  under exactly that name with the key of that certificate; with two connections both certificates carry the same name. When adding fails,
  at whichever step, the node is unchanged and the connections are closed, but for the data connection when the
  handshake of the control connection fails, and for a node without certificates, which leaves them to the caller.
\<close>

theorem peer_named_by_certificate:
  "(case run_wire (AddPeer lib hasCfg isServer n addr now stream node) env (start_world (Suc n)) of ((r, node'), w) \<Rightarrow>
      (case r of
         Inl e \<Rightarrow> node' = node \<and> handles w = {..<n} \<union> (if hasCfg then {} else {n})
       | Inr c \<Rightarrow> handles w = {..<n} \<union> {n, Suc n} \<and>
           (\<exists>cert. certified lib (usage_of isServer) (we_certs env 0) cert \<and>
              (c, node') = add_peer now node (crt_commonName cert) stream (case crt_ed25519 cert of None \<Rightarrow> [] | Some k \<Rightarrow> k)))) \<and>
   (case run_wire (AddPeerDual lib hasCfg isServer n addr (Suc n) dataAddr now stream node) env (start_world (Suc (Suc n))) of ((r, node'), w) \<Rightarrow>
      (case r of
         Inl e \<Rightarrow> node' = node \<and> handles w = {..<n} \<union> (if hasCfg then dual_left_over n e else {n, Suc n})
       | Inr c \<Rightarrow> handles w = {..<n} \<union> {n, Suc n} \<and>
           (\<exists>cert cert'. certified lib (usage_of isServer) (we_certs env 0) cert \<and> certified lib (usage_of isServer) (we_certs env 1) cert' \<and>
              crt_commonName cert' = crt_commonName cert \<and>
              (c, node') = add_peer now node (crt_commonName cert) stream (case crt_ed25519 cert of None \<Rightarrow> [] | Some k \<Rightarrow> k))))"
proof (rule conjI)
  obtain r w where r: "run_wire (AddPeer_conn lib hasCfg isServer n addr) env (start_world (Suc n)) = (r, w)" by fastforce
  show "case run_wire (AddPeer lib hasCfg isServer n addr now stream node) env (start_world (Suc n)) of ((r, node'), w) \<Rightarrow>
      (case r of
         Inl e \<Rightarrow> node' = node \<and> handles w = {..<n} \<union> (if hasCfg then {} else {n})
       | Inr c \<Rightarrow> handles w = {..<n} \<union> {n, Suc n} \<and>
           (\<exists>cert. certified lib (usage_of isServer) (we_certs env 0) cert \<and>
              (c, node') = add_peer now node (crt_commonName cert) stream (case crt_ed25519 cert of None \<Rightarrow> [] | Some k \<Rightarrow> k)))"
    using AddPeer_opens [where lib = lib and hasCfg = hasCfg and isServer = isServer and n = n and addr = addr and env = env]
    by (auto simp: AddPeer_def run_wbind r admit_def split: sum.splits prod.splits)
next
  obtain r w where r: "run_wire (AddPeerDual_conn lib hasCfg isServer n addr (Suc n) dataAddr) env (start_world (Suc (Suc n))) = (r, w)" by fastforce
  show "case run_wire (AddPeerDual lib hasCfg isServer n addr (Suc n) dataAddr now stream node) env (start_world (Suc (Suc n))) of ((r, node'), w) \<Rightarrow>
      (case r of
         Inl e \<Rightarrow> node' = node \<and> handles w = {..<n} \<union> (if hasCfg then dual_left_over n e else {n, Suc n})
       | Inr c \<Rightarrow> handles w = {..<n} \<union> {n, Suc n} \<and>
           (\<exists>cert cert'. certified lib (usage_of isServer) (we_certs env 0) cert \<and> certified lib (usage_of isServer) (we_certs env 1) cert' \<and>
              crt_commonName cert' = crt_commonName cert \<and>
              (c, node') = add_peer now node (crt_commonName cert) stream (case crt_ed25519 cert of None \<Rightarrow> [] | Some k \<Rightarrow> k)))"
    using AddPeerDual_opens [where lib = lib and hasCfg = hasCfg and isServer = isServer and n = n and addr = addr and dataAddr = dataAddr and env = env]
    by (auto simp: AddPeerDual_def run_wbind r admit_def split: sum.splits prod.splits) (metis prod.inject)+
qed

lemma close_once_again:
  "run_wire (close_once m c) env w = ((e, c1), w1) \<Longrightarrow> run_wire (close_once m' c1) env w1 = ((e, c1), w1)"
  by (auto simp: close_once_def run_wbind split: if_splits prod.splits)

end
