(* ===== verification/ProcStates.thy ===== *)
theory ProcStates
  imports Plugins HostText
begin

text \<open>
  Model of \<open>internal/registry/tools/processstates\<close>: the tool that counts the processes of a machine by state and finds the
  parents that do not reap their children. The files below \<open>/proc\<close> are functions from paths, as each is read once; a directory is the
  list of its entries with whether they are directories.
\<close>

section \<open>The files of a process\<close>

record procFs =
  fs_readFile :: "string \<Rightarrow> string option"
  fs_readDir :: "string \<Rightarrow> string + (string \<times> bool) list"

definition path_join :: "string \<Rightarrow> string \<Rightarrow> string" where
  "path_join dir name = dir @ ''/'' @ name"

record statInfo =
  pi_comm :: string
  pi_state :: char
  pi_ppid :: int

definition parseStat :: "string \<Rightarrow> statInfo option" where
  "parseStat contents =
     (case (index_byte contents CHR ''('', last_index_byte contents CHR '')'') of
        (Some lp, Some rp) \<Rightarrow>
          if rp < lp then None
          else (case text_fields (drop (rp + 1) contents) of
                  st # pp # _ \<Rightarrow>
                    (case atoi pp of
                       None \<Rightarrow> None
                     | Some ppid \<Rightarrow> Some \<lparr>pi_comm = take (rp - (lp + 1)) (drop (lp + 1) contents), pi_state = hd st, pi_ppid = ppid\<rparr>)
                | _ \<Rightarrow> None)
      | _ \<Rightarrow> None)"

definition listPids :: "procFs \<Rightarrow> string \<Rightarrow> string + int list" where
  "listPids fs dir =
     (case fs_readDir fs dir of
        Inl err \<Rightarrow> Inl err
      | Inr es \<Rightarrow>
          Inr (go_sort (<) (List.map_filter (\<lambda>(name, isDir).
            if \<not> isDir then None
            else case atoi name of None \<Rightarrow> None | Some pid \<Rightarrow> if pid \<le> 0 then None else Some pid) es)))"

definition readComm :: "procFs \<Rightarrow> string \<Rightarrow> string" where
  "readComm fs dir = (case fs_readFile fs (path_join dir ''comm'') of None \<Rightarrow> [] | Some t \<Rightarrow> trim_space t)"

definition cmdlineMaxLen :: nat where "cmdlineMaxLen = 100"

definition readCmdline :: "procFs \<Rightarrow> string \<Rightarrow> string" where
  "readCmdline fs dir =
     (case fs_readFile fs (path_join dir ''cmdline'') of
        None \<Rightarrow> []
      | Some t \<Rightarrow> take cmdlineMaxLen (trim_space (map (\<lambda>c. if c = CHR 0x00 then CHR '' '' else c) t)))"

definition readWchan :: "procFs \<Rightarrow> string \<Rightarrow> string" where
  "readWchan fs dir =
     (case fs_readFile fs (path_join dir ''wchan'') of
        None \<Rightarrow> ''?''
      | Some t \<Rightarrow> let s = trim_space t in if s = [] then ''?'' else s)"

definition stateName :: "char \<Rightarrow> string" where
  "stateName c =
     (if c = CHR ''R'' then ''running'' else if c = CHR ''S'' then ''sleeping''
      else if c = CHR ''D'' then ''disk_sleep'' else if c = CHR ''Z'' then ''zombie''
      else if c = CHR ''T'' then ''stopped'' else if c = CHR ''t'' then ''traced''
      else if c = CHR ''I'' then ''idle'' else ''other'')"

section \<open>The scan\<close>

definition maxZombies :: nat where "maxZombies = 25"

definition maxDState :: nat where "maxDState = 20"

definition dStateWarnThreshold :: int where "dStateWarnThreshold = 5"

record stateCounts =
  sc_running :: int
  sc_sleeping :: int
  sc_diskSleep :: int
  sc_zombie :: int
  sc_stopped :: int
  sc_traced :: int
  sc_idle :: int
  sc_other :: int
  sc_total :: int

record zombieProc =
  zp_pid :: int
  zp_comm :: string
  zp_ppid :: int
  zp_parentComm :: string
  zp_parentState :: string

record zombieParent =
  zq_ppid :: int
  zq_comm :: string
  zq_zombieCount :: int
  zq_isInit :: bool

record dStateProc =
  dp_pid :: int
  dp_comm :: string
  dp_wchan :: string
  dp_cmdline :: string

record procEntry =
  pe_pid :: int
  pe_comm :: string
  pe_state :: char
  pe_ppid :: int

text \<open>The entry of a process, \<open>None\<close> if it has vanished or its file is malformed.\<close>

definition pid_dir :: "string \<Rightarrow> int \<Rightarrow> string" where
  "pid_dir dir pid = path_join dir (itoa pid)"

definition read_entry :: "procFs \<Rightarrow> string \<Rightarrow> int \<Rightarrow> procEntry option" where
  "read_entry fs dir pid =
     (case Option.bind (fs_readFile fs (path_join (pid_dir dir pid) ''stat'')) parseStat of
        None \<Rightarrow> None
      | Some si \<Rightarrow>
          Some \<lparr>pe_pid = pid, pe_comm = (let c = readComm fs (pid_dir dir pid) in if c = [] then pi_comm si else c),
            pe_state = pi_state si, pe_ppid = pi_ppid si\<rparr>)"

text \<open>\<open>ctxErr\<close> gives the state of the context at each look: before the scan and before each process.\<close>

fun read_entries :: "procFs \<Rightarrow> string \<Rightarrow> (nat \<Rightarrow> string option) \<Rightarrow> nat \<Rightarrow> int list \<Rightarrow> string + procEntry list" where
  "read_entries fs dir ctxErr k [] = Inr []"
| "read_entries fs dir ctxErr k (pid # pids) =
     (case ctxErr k of
        Some err \<Rightarrow> Inl (''context canceled during process scan: '' @ err)
      | None \<Rightarrow>
          (case read_entries fs dir ctxErr (Suc k) pids of
             Inl err \<Rightarrow> Inl err
           | Inr es \<Rightarrow> Inr (case read_entry fs dir pid of None \<Rightarrow> es | Some e \<Rightarrow> e # es)))"

text \<open>\<open>entries\<close> is a map by process.\<close>

definition entry_map :: "procEntry list \<Rightarrow> int \<Rightarrow> procEntry option" where
  "entry_map es = map_of (rev (map (\<lambda>e. (pe_pid e, e)) es))"

record procScan =
  ps_counts :: stateCounts
  ps_zombies :: "zombieProc list"
  ps_dState :: "dStateProc list"
  ps_byParent :: "int \<Rightarrow> int option"
  ps_parentOrder :: "int list"

definition ps_start :: procScan where
  "ps_start = \<lparr>ps_counts = \<lparr>sc_running = 0, sc_sleeping = 0, sc_diskSleep = 0, sc_zombie = 0, sc_stopped = 0, sc_traced = 0,
     sc_idle = 0, sc_other = 0, sc_total = 0\<rparr>, ps_zombies = [], ps_dState = [], ps_byParent = (\<lambda>_. None), ps_parentOrder = []\<rparr>"

definition count_state :: "char \<Rightarrow> stateCounts \<Rightarrow> stateCounts" where
  "count_state c n0 =
     (let n = n0\<lparr>sc_total := sc_total n0 + 1\<rparr>
      in if c = CHR ''R'' then n\<lparr>sc_running := sc_running n + 1\<rparr>
         else if c = CHR ''S'' then n\<lparr>sc_sleeping := sc_sleeping n + 1\<rparr>
         else if c = CHR ''D'' then n\<lparr>sc_diskSleep := sc_diskSleep n + 1\<rparr>
         else if c = CHR ''Z'' then n\<lparr>sc_zombie := sc_zombie n + 1\<rparr>
         else if c = CHR ''T'' then n\<lparr>sc_stopped := sc_stopped n + 1\<rparr>
         else if c = CHR ''t'' then n\<lparr>sc_traced := sc_traced n + 1\<rparr>
         else if c = CHR ''I'' then n\<lparr>sc_idle := sc_idle n + 1\<rparr>
         else n\<lparr>sc_other := sc_other n + 1\<rparr>)"

definition zombie_of :: "(int \<Rightarrow> procEntry option) \<Rightarrow> procEntry \<Rightarrow> zombieProc" where
  "zombie_of entries e =
     \<lparr>zp_pid = pe_pid e, zp_comm = pe_comm e, zp_ppid = pe_ppid e,
      zp_parentComm = (case entries (pe_ppid e) of Some p \<Rightarrow> pe_comm p | None \<Rightarrow> ''?''),
      zp_parentState = (case entries (pe_ppid e) of Some p \<Rightarrow> stateName (pe_state p) | None \<Rightarrow> ''gone'')\<rparr>"

definition scan_entry :: "procFs \<Rightarrow> string \<Rightarrow> (int \<Rightarrow> procEntry option) \<Rightarrow> procEntry \<Rightarrow> procScan \<Rightarrow> procScan" where
  "scan_entry fs dir entries e s0 =
     (let s = s0\<lparr>ps_counts := count_state (pe_state e) (ps_counts s0)\<rparr>
      in if pe_state e = CHR ''D'' then
           (if length (ps_dState s) < maxDState
            then s\<lparr>ps_dState := ps_dState s @ [\<lparr>dp_pid = pe_pid e, dp_comm = pe_comm e,
                     dp_wchan = readWchan fs (pid_dir dir (pe_pid e)), dp_cmdline = readCmdline fs (pid_dir dir (pe_pid e))\<rparr>]\<rparr>
            else s)
         else if pe_state e = CHR ''Z'' then
           (let s1 = s\<lparr>ps_parentOrder := (if ps_byParent s (pe_ppid e) = None then ps_parentOrder s @ [pe_ppid e] else ps_parentOrder s),
                      ps_byParent := (ps_byParent s)(pe_ppid e \<mapsto>
                        (case ps_byParent s (pe_ppid e) of None \<Rightarrow> 0 | Some n \<Rightarrow> n) + 1)\<rparr>
            in if length (ps_zombies s1) < maxZombies then s1\<lparr>ps_zombies := ps_zombies s1 @ [zombie_of entries e]\<rparr> else s1)
         else s)"

definition proc_scan :: "procFs \<Rightarrow> string \<Rightarrow> procEntry list \<Rightarrow> procScan" where
  "proc_scan fs dir es = fold (scan_entry fs dir (entry_map es)) es ps_start"

definition parent_less :: "zombieParent \<Rightarrow> zombieParent \<Rightarrow> bool" where
  "parent_less p q \<longleftrightarrow>
     (if zq_zombieCount p \<noteq> zq_zombieCount q then zq_zombieCount p > zq_zombieCount q else zq_ppid p < zq_ppid q)"

definition zombie_parents :: "(int \<Rightarrow> procEntry option) \<Rightarrow> procScan \<Rightarrow> zombieParent list" where
  "zombie_parents entries s =
     go_sort parent_less (map (\<lambda>ppid.
       \<lparr>zq_ppid = ppid, zq_comm = (case entries ppid of Some p \<Rightarrow> pe_comm p | None \<Rightarrow> ''?''),
        zq_zombieCount = (case ps_byParent s ppid of Some n \<Rightarrow> n | None \<Rightarrow> 0), zq_isInit = (ppid = 1)\<rparr>) (ps_parentOrder s))"

definition em_dash3 :: string where
  "em_dash3 = [CHR 0xE2, CHR 0x80, CHR 0x94]"

definition proc_warnings :: "(int \<Rightarrow> procEntry option) \<Rightarrow> zombieParent list \<Rightarrow> stateCounts \<Rightarrow> string list" where
  "proc_warnings entries parents counts =
     map (\<lambda>p. itoa (zq_zombieCount p) @ '' zombie(s) not being reaped by '' @ zq_comm p @ '' (pid '' @ itoa (zq_ppid p) @ '')'')
       (filter (\<lambda>p. \<not> zq_isInit p \<and> entries (zq_ppid p) \<noteq> None) parents) @
     (if sc_diskSleep counts > dStateWarnThreshold
      then [itoa (sc_diskSleep counts) @ '' processes in uninterruptible (D-state) sleep '' @ em_dash3 @ '' possible I/O or lock stall'']
      else [])"

definition counts_text :: "stateCounts \<Rightarrow> string" where
  "counts_text n = json_object [(''running'', itoa (sc_running n)), (''sleeping'', itoa (sc_sleeping n)),
     (''disk_sleep'', itoa (sc_diskSleep n)), (''zombie'', itoa (sc_zombie n)), (''stopped'', itoa (sc_stopped n)),
     (''traced'', itoa (sc_traced n)), (''idle'', itoa (sc_idle n)), (''other'', itoa (sc_other n)), (''total'', itoa (sc_total n))]"

definition zombie_text :: "zombieProc \<Rightarrow> string" where
  "zombie_text z = json_object [(''pid'', itoa (zp_pid z)), (''comm'', json_string (zp_comm z)), (''ppid'', itoa (zp_ppid z)),
     (''parent_comm'', json_string (zp_parentComm z)), (''parent_state'', json_string (zp_parentState z))]"

definition parent_text :: "zombieParent \<Rightarrow> string" where
  "parent_text p = json_object [(''ppid'', itoa (zq_ppid p)), (''comm'', json_string (zq_comm p)),
     (''zombie_count'', itoa (zq_zombieCount p)), (''is_init'', json_bool (zq_isInit p))]"

definition dstate_text :: "dStateProc \<Rightarrow> string" where
  "dstate_text d = json_object [(''pid'', itoa (dp_pid d)), (''comm'', json_string (dp_comm d)), (''wchan'', json_string (dp_wchan d)),
     (''cmdline'', json_string (dp_cmdline d))]"

definition proc_summary :: "stateCounts \<Rightarrow> string" where
  "proc_summary n = ''Scanned '' @ itoa (sc_total n) @ '' processes: '' @ itoa (sc_running n) @ '' running, '' @ itoa (sc_sleeping n) @
     '' sleeping, '' @ itoa (sc_diskSleep n) @ '' disk_sleep, '' @ itoa (sc_zombie n) @ '' zombie, '' @ itoa (sc_stopped n) @
     '' stopped, '' @ itoa (sc_traced n) @ '' traced, '' @ itoa (sc_idle n) @ '' idle''"

definition proc_IsSupported :: "procFs \<Rightarrow> string \<Rightarrow> bool \<times> string" where
  "proc_IsSupported fs dir =
     (if fs_readFile fs (path_join (path_join dir ''self'') ''stat'') \<noteq> None then (True, [])
      else (False, ''process state scan not supported ('' @ dir @ ''/self/stat not readable)''))"

definition proc_Execute :: "string \<Rightarrow> int \<Rightarrow> procFs \<Rightarrow> string \<Rightarrow> (nat \<Rightarrow> string option) \<Rightarrow> envelope" where
  "proc_Execute timestamp elapsedMs fs dir ctxErr =
     (let fail = reg_NewErrorResult timestamp ''get_process_states''
      in case ctxErr 0 of
           Some err \<Rightarrow> fail (''context canceled before execution: '' @ err)
         | None \<Rightarrow>
             (case listPids fs dir of
                Inl err \<Rightarrow> fail (''cannot scan '' @ dir @ '': '' @ err)
              | Inr pids \<Rightarrow>
                  (case read_entries fs dir ctxErr 1 pids of
                     Inl message \<Rightarrow> fail message
                   | Inr es \<Rightarrow>
                       (let s = proc_scan fs dir es;
                            parents = zombie_parents (entry_map es) s;
                            warnings = proc_warnings (entry_map es) parents (ps_counts s)
                        in (NewResult timestamp ''get_process_states'' (if warnings \<noteq> [] then StatusWarning else StatusOK)
                              (proc_summary (ps_counts s))
                              (Some (json_object [(''counts'', counts_text (ps_counts s)),
                                 (''zombies'', json_array (map zombie_text (ps_zombies s))),
                                 (''parents_with_zombies'', json_array (map parent_text parents)),
                                 (''d_state'', json_array (map dstate_text (ps_dState s))),
                                 (''warning_reasons'', json_array (map json_string warnings))])))
                             \<lparr>ev_executionTimeMs := elapsedMs, ev_filteringMethod := ''deterministic''\<rparr>))))"

end
