(* ===== verification/HostTools.thy ===== *)
theory HostTools
  imports ProcStates
begin

text \<open>
  What the tools that read tables of the kernel share: counting by a key into a map, ranking what was counted, optional members of
  a JSON object, and the shape of their answers.
\<close>

section \<open>Counting by a key\<close>

definition count_up :: "'k \<Rightarrow> ('k \<Rightarrow> int option) \<Rightarrow> 'k \<Rightarrow> int option" where
  "count_up k m = m(k \<mapsto> (case m k of None \<Rightarrow> 0 | Some n \<Rightarrow> n) + 1)"

definition tally :: "'k list \<Rightarrow> 'k \<Rightarrow> int option" where
  "tally ks = fold count_up ks (\<lambda>_. None)"

definition occurrences :: "'k \<Rightarrow> 'k list \<Rightarrow> int" where
  "occurrences k ks = int (length (filter ((=) k) ks))"

lemma fold_step: "fold f (x # xs) s = fold f xs (f x s)"
  by simp

lemma count_up_apply:
  "count_up j m k = (if k = j then Some ((case m j of None \<Rightarrow> 0 | Some n \<Rightarrow> n) + 1) else m k)"
  by (simp add: count_up_def)

lemma fold_count_up:
  "fold count_up ks m k =
     (if k \<in> set ks then Some ((case m k of None \<Rightarrow> 0 | Some n \<Rightarrow> n) + occurrences k ks) else m k)"
proof (induction ks arbitrary: m)
  case (Cons j ks)
  have none: "filter ((=) k) ks = []" if "k \<notin> set ks" using that by (auto simp: filter_empty_conv)
  have step: "fold count_up (j # ks) m k =
      (if k \<in> set ks then Some ((case count_up j m k of None \<Rightarrow> 0 | Some n \<Rightarrow> n) + occurrences k ks) else count_up j m k)"
    unfolding fold_step by (rule Cons.IH)
  show ?case unfolding step using none by (auto simp: count_up_apply occurrences_def)
qed simp

lemma tally_exact: "tally ks k = (if k \<in> set ks then Some (occurrences k ks) else None)"
  by (simp add: tally_def fold_count_up)

lemma dom_tally [simp]: "dom (tally ks) = set ks"
  by (auto simp: tally_exact split: if_splits)

text \<open>What a ranking shows: the first of all that were counted, in order, and no other.\<close>

definition ranking :: "('a \<Rightarrow> 'a \<Rightarrow> bool) \<Rightarrow> 'a set \<Rightarrow> nat \<Rightarrow> 'a list \<Rightarrow> bool" where
  "ranking lt A k shown \<longleftrightarrow>
     (\<exists>ranked. shown = take k ranked \<and> set ranked = A \<and> distinct ranked \<and> sorted_wrt (\<lambda>a b. \<not> lt b a) ranked)"

lemma ranking_go_sort:
  "weak_order_on (set xs) lt \<Longrightarrow> distinct xs \<Longrightarrow> set xs = A \<Longrightarrow> ranking lt A k (take k (go_sort lt xs))"
  unfolding ranking_def using sorted_go_sort [of xs lt] by (intro exI [of _ "go_sort lt xs"]) auto

section \<open>Lines of words\<close>

text \<open>The kernel prints the columns of a table as words with one character of white space between them.\<close>

definition words_ok :: "string list \<Rightarrow> bool" where
  "words_ok ws \<longleftrightarrow> list_all (\<lambda>w. w \<noteq> [] \<and> list_all (\<lambda>c. \<not> is_space c) w) ws"

lemma words_ok_simps [simp]:
  "words_ok []" "words_ok (w # ws) \<longleftrightarrow> w \<noteq> [] \<and> list_all (\<lambda>c. \<not> is_space c) w \<and> words_ok ws"
  "words_ok (us @ ws) \<longleftrightarrow> words_ok us \<and> words_ok ws"
  by (auto simp: words_ok_def)

lemma words_ok_others: "list_all (\<lambda>w. w \<noteq> [] \<and> list_all (\<lambda>c. \<not> is_space c) w) ws \<Longrightarrow> words_ok ws"
  by (simp add: words_ok_def)

lemma plain_chars [simp]: "\<not> is_space CHR '':''" "\<not> is_space CHR ''0''" "\<not> is_space CHR ''1''" "\<not> is_space CHR ''-''" "\<not> is_space CHR ''.''"
  by (simp_all add: is_space_def)

lemma atoi_value_Some: "atoi s = Some v \<Longrightarrow> atoi_value s = v"
  by (auto simp: atoi_def atoi_value_def Let_def split: if_splits)

lemma itoa_nat_plain: "list_all (\<lambda>c. \<not> is_space c) (itoa_nat n)"
  using itoa_nat_digits [of n] by (auto simp: list_all_iff is_digit_not_space)

lemma fields_separated:
  assumes "is_space x"
  shows "words_ok ws \<Longrightarrow> text_fields (join [x] ws) = ws"
proof (induction ws)
  case (Cons w ws)
  have w: "w \<noteq> []" "\<And>c. c \<in> set w \<Longrightarrow> \<not> is_space c" using Cons.prems by (auto simp: list_all_iff)
  show ?case
  proof (cases "ws = []")
    case True
    then show ?thesis using w by (simp add: fields_word)
  next
    case False
    then show ?thesis using fields_append [OF w assms, of "join [x] ws"] Cons by (simp add: join_Cons)
  qed
qed simp

lemma join_ends:
  "words_ok ws \<Longrightarrow> ws \<noteq> [] \<Longrightarrow> join [x] ws \<noteq> [] \<and> hd (join [x] ws) = hd (hd ws) \<and> last (join [x] ws) = last (last ws)"
proof (induction ws)
  case (Cons v vs)
  then show ?case by (cases "vs = []") (auto simp: join_Cons)
qed simp

lemma words_trim:
  assumes "words_ok ws"
  shows "trim_space (join [x] ws) = join [x] ws"
proof (cases "ws = []")
  case False
  have "hd ws \<in> set ws" "last ws \<in> set ws" using False by simp_all
  then have "\<not> is_space (hd (hd ws))" "\<not> is_space (last (last ws))" using assms by (auto simp: words_ok_def list_all_iff)
  then show ?thesis using join_ends [OF assms False, of x] by (intro trim_space_id) simp
qed (simp add: trim_space_def)

lemma words_fields: "is_space x \<Longrightarrow> words_ok ws \<Longrightarrow> text_fields (trim_space (join [x] ws)) = ws"
  by (simp add: words_trim fields_separated)

lemma words_one_line:
  assumes "words_ok ws" "c \<noteq> x" "is_space c"
  shows "c \<notin> set (join [x] ws)"
proof -
  have "c \<notin> (\<Union>w \<in> set ws. set w)" using assms(1,3) by (auto simp: words_ok_def list_all_iff)
  then show ?thesis using set_join_subset [of "[x]" ws] assms(2) by auto
qed

lemma prefix_before: "prefix p (w @ x # s) \<Longrightarrow> x \<notin> set p \<Longrightarrow> prefix p w"
  by (auto simp: prefix_append prefix_Cons)

section \<open>Answers\<close>

definition deterministic :: "string \<Rightarrow> int \<Rightarrow> string \<Rightarrow> resultStatus \<Rightarrow> string \<Rightarrow> string \<Rightarrow> envelope" where
  "deterministic timestamp elapsedMs name status summary content =
     (NewResult timestamp name status summary (Some content))\<lparr>ev_executionTimeMs := elapsedMs, ev_filteringMethod := ''deterministic''\<rparr>"

definition if_text :: "string \<Rightarrow> string \<Rightarrow> (string \<times> string) list" where
  "if_text key s = (if s = [] then [] else [(key, json_string s)])"

definition if_number :: "string \<Rightarrow> int \<Rightarrow> (string \<times> string) list" where
  "if_number key n = (if n = 0 then [] else [(key, itoa n)])"

definition if_list :: "string \<Rightarrow> ('a \<Rightarrow> string) \<Rightarrow> 'a list \<Rightarrow> (string \<times> string) list" where
  "if_list key f xs = (if xs = [] then [] else [(key, json_array (map f xs))])"

text \<open>A slice that was never made prints as \<open>null\<close>.\<close>

definition nil_list :: "('a \<Rightarrow> string) \<Rightarrow> 'a list \<Rightarrow> string" where
  "nil_list f xs = (if xs = [] then ''null'' else json_array (map f xs))"

text \<open>The owner of a process in the files below \<open>/proc\<close>: the file \<open>comm\<close>, without the white space around it.\<close>

definition comm_of :: "procFs \<Rightarrow> string \<Rightarrow> int \<Rightarrow> string" where
  "comm_of fs dir pid = readComm fs (pid_dir dir pid)"

end
