(* ===== verification/ProcList.thy ===== *)
theory ProcList
  imports HostTools "HOL-Library.Word"
begin

text \<open>
  Model of \<open>internal/sys/process\<close> (\<open>process.go\<close>) and of \<open>internal/registry/tools/processlist\<close>: the processes that use the most CPU or memory,
  from two looks at the counters of each. The files are arguments, one for each time that one is read; regular expressions, the
  names of users and the printing of floating point numbers are arguments too. A panic is \<open>None\<close>.
\<close>

section \<open>Files\<close>

definition bufSize :: nat where "bufSize = 8192"

text \<open>One \<open>Read\<close> fills the buffer at most once.\<close>

definition readFileBuffered :: "string option \<Rightarrow> string option" where
  "readFileBuffered content = map_option (take bufSize) content"

definition parseUintBytes :: "string \<Rightarrow> 64 word" where
  "parseUintBytes s = foldl (\<lambda>n c. if is_digit c then n * 10 + of_int (digit_of c) else n) 0 s"

definition parseState :: "string \<Rightarrow> string" where
  "parseState s =
     (case s of
        [] \<Rightarrow> []
      | c # _ \<Rightarrow> if c \<in> {CHR ''S'', CHR ''R'', CHR ''I'', CHR ''Z'', CHR ''D'', CHR ''T'', CHR ''t''} then [c]
                  else if c = CHR ''X'' \<or> c = CHR ''x'' then ''X'' else s)"

record procStat =
  pt_utime :: "64 word"
  pt_stime :: "64 word"
  pt_state :: string
  pt_name :: string
  pt_ppid :: int

text \<open>The fields behind the name, up to the one with the number 14.\<close>

fun stat_fields :: "nat \<Rightarrow> string list \<Rightarrow> procStat \<Rightarrow> procStat" where
  "stat_fields fieldIdx [] st = st"
| "stat_fields fieldIdx (f # fs) st =
     (if fieldIdx = 14 then st\<lparr>pt_stime := parseUintBytes f\<rparr>
      else stat_fields (Suc fieldIdx) fs
        (if fieldIdx = 2 then st\<lparr>pt_state := parseState f\<rparr>
         else if fieldIdx = 3 then st\<lparr>pt_ppid := sint (parseUintBytes f)\<rparr>
         else if fieldIdx = 13 then st\<lparr>pt_utime := parseUintBytes f\<rparr> else st))"

definition readStat :: "string option \<Rightarrow> (string + procStat) option" where
  "readStat content =
     (case readFileBuffered content of
        None \<Rightarrow> Some (Inl ''no such process'')
      | Some d \<Rightarrow>
          (case last_index_byte d CHR '')'' of
             None \<Rightarrow> Some (Inl ''invalid stat format'')
           | Some rparen \<Rightarrow>
               (let start = (case index_byte d CHR ''('' of None \<Rightarrow> 0 | Some i \<Rightarrow> i + 1)
                in if rparen < start then None
                   else Some (Inr (stat_fields 2 (if rparen + 2 < length d then split_on CHR '' '' (drop (rparen + 2) d) else [])
                     \<lparr>pt_utime = 0, pt_stime = 0, pt_state = [], pt_name = take (rparen - start) (drop start d), pt_ppid = 0\<rparr>)))))"

definition blank :: "char \<Rightarrow> bool" where
  "blank c \<longleftrightarrow> c = CHR 0x09 \<or> c = CHR '' ''"

definition value_after :: "string \<Rightarrow> string \<Rightarrow> 64 word option" where
  "value_after pre line =
     (if prefix pre line then
        (let v = takeWhile (\<lambda>c. \<not> blank c) (dropWhile blank (drop (length pre) line)) in if v = [] then None else Some (parseUintBytes v))
      else None)"

text \<open>The lines of \<open>status\<close>: the loop ends when both values have been found.\<close>

fun status_lines :: "string list \<Rightarrow> 64 word option \<Rightarrow> 64 word option \<Rightarrow> 64 word option \<times> 64 word option" where
  "status_lines [] uid rss = (uid, rss)"
| "status_lines (l # ls) uid rss =
     (let uid1 = (if prefix (''Uid:'' @ [CHR 0x09]) l then (case value_after (''Uid:'' @ [CHR 0x09]) l of None \<Rightarrow> uid | Some v \<Rightarrow> Some v) else uid);
          rss1 = (if prefix (''Uid:'' @ [CHR 0x09]) l then rss
                  else (case value_after (''VmRSS:'' @ [CHR 0x09]) l of None \<Rightarrow> rss | Some kb \<Rightarrow> Some (kb * 1024)))
      in if uid1 \<noteq> None \<and> rss1 \<noteq> None then (uid1, rss1) else status_lines ls uid1 rss1)"

definition readStatus :: "string option \<Rightarrow> (int \<times> 64 word) option" where
  "readStatus content =
     (case readFileBuffered content of
        None \<Rightarrow> None
      | Some d \<Rightarrow>
          (case status_lines (text_lines d) None None of
             (uid, rss) \<Rightarrow> Some (case uid of None \<Rightarrow> 0 | Some v \<Rightarrow> sint v, case rss of None \<Rightarrow> 0 | Some v \<Rightarrow> v)))"

definition pl_readCmdline :: "string option \<Rightarrow> string option" where
  "pl_readCmdline content =
     (case readFileBuffered content of
        None \<Rightarrow> None
      | Some d \<Rightarrow> if d = [] then None else Some (trim_space (map (\<lambda>c. if c = CHR 0x00 then CHR '' '' else c) d)))"

definition readUptime :: "(string \<Rightarrow> f64 option) \<Rightarrow> string option \<Rightarrow> string + f64" where
  "readUptime parse_float content =
     (case readFileBuffered content of
        None \<Rightarrow> Inl ''open /proc/uptime''
      | Some d \<Rightarrow>
          (case index_byte d CHR '' '' of
             None \<Rightarrow> Inl ''invalid /proc/uptime format''
           | Some idx \<Rightarrow> (case parse_float (take idx d) of None \<Rightarrow> Inl ''invalid syntax'' | Some x \<Rightarrow> Inr x)))"

definition getPIDs :: "string list option \<Rightarrow> int list" where
  "getPIDs names =
     (case names of
        None \<Rightarrow> []
      | Some ns \<Rightarrow> List.map_filter (\<lambda>n. if is_digit (hd n) then atoi n else None) ns)"

definition getUsername :: "(int \<Rightarrow> string option) \<Rightarrow> int \<Rightarrow> string" where
  "getUsername users uid = (case users uid of Some name \<Rightarrow> name | None \<Rightarrow> itoa uid)"

section \<open>The list\<close>

record process =
  pc_pid :: int
  pc_uid :: int
  pc_user :: string
  pc_name :: string
  pc_state :: string
  pc_cmdline :: "string option"
  pc_cpuPercent :: f64
  pc_memoryBytes :: "64 word"

record filterOptions =
  fo_byMemory :: bool
  fo_limit :: int
  fo_user :: "(string \<Rightarrow> bool) option"
  fo_name :: "(string \<Rightarrow> bool) option"
  fo_state :: "(string \<Rightarrow> bool) option"
  fo_cmdline :: "(string \<Rightarrow> bool) option"

text \<open>The two looks; \<open>pv_ctxErr\<close> is the error of a context that ends while the tool waits between them.\<close>

record processEnv =
  pv_uptime1 :: "string option"
  pv_uptime2 :: "string option"
  pv_names :: "string list option"
  pv_stat1 :: "int \<Rightarrow> string option"
  pv_stat2 :: "int \<Rightarrow> string option"
  pv_status :: "int \<Rightarrow> string option"
  pv_cmdline :: "int \<Rightarrow> string option"
  pv_users :: "int \<Rightarrow> string option"
  pv_ctxErr :: "string option"
  pv_parseFloat :: "string \<Rightarrow> f64 option"

definition accepts :: "(string \<Rightarrow> bool) option \<Rightarrow> string \<Rightarrow> bool" where
  "accepts re s = (case re of None \<Rightarrow> True | Some p \<Rightarrow> p s)"

text \<open>The difference of the counters is one of unsigned numbers of 64 bits.\<close>

definition cpu_ticks :: "procStat \<Rightarrow> procStat \<Rightarrow> 64 word" where
  "cpu_ticks st1 st2 = (pt_utime st2 - pt_utime st1) + (pt_stime st2 - pt_stime st1)"

definition userHZ :: real where "userHZ = 100"

definition cpu_percent :: "64 word \<Rightarrow> f64 \<Rightarrow> f64" where
  "cpu_percent ticks deltaUptime =
     (case deltaUptime of
        Num u \<Rightarrow> Num (100 * (real (unat ticks) / userHZ) / u)
      | NaN \<Rightarrow> NaN
      | _ \<Rightarrow> Num 0)"

definition delta_uptime :: "f64 \<Rightarrow> f64 \<Rightarrow> f64" where
  "delta_uptime t1 t2 =
     (let d = fadd t2 (case t1 of NaN \<Rightarrow> NaN | NegInf \<Rightarrow> PosInf | PosInf \<Rightarrow> NegInf | Num x \<Rightarrow> Num (- x))
      in if flt d (Num 0) \<or> feq d (Num 0) then Num (1 / 1000) else d)"

definition process_row :: "processEnv \<Rightarrow> filterOptions \<Rightarrow> f64 \<Rightarrow> int \<Rightarrow> procStat \<Rightarrow> procStat \<Rightarrow> process option" where
  "process_row env opts deltaUptime pid st1 st2 =
     (case readStatus (pv_status env pid) of
        None \<Rightarrow> None
      | Some (uid, vmRSS) \<Rightarrow>
          (let username = getUsername (pv_users env) uid; cmdline = pl_readCmdline (pv_cmdline env pid)
           in if accepts (fo_user opts) username \<and> accepts (fo_name opts) (pt_name st2) \<and> accepts (fo_state opts) (pt_state st2) \<and>
                 (case fo_cmdline opts of None \<Rightarrow> True | Some p \<Rightarrow> (case cmdline of None \<Rightarrow> False | Some c \<Rightarrow> p c))
              then Some \<lparr>pc_pid = pid, pc_uid = uid, pc_user = username, pc_name = pt_name st2, pc_state = pt_state st2,
                     pc_cmdline = cmdline, pc_cpuPercent = cpu_percent (cpu_ticks st1 st2) deltaUptime, pc_memoryBytes = vmRSS\<rparr>
              else None))"

definition first_stats :: "processEnv \<Rightarrow> (int \<Rightarrow> procStat option) option" where
  "first_stats env =
     (let reads = map (\<lambda>pid. (pid, readStat (pv_stat1 env pid))) (getPIDs (pv_names env))
      in if list_ex (\<lambda>(pid, r). r = None) reads then None
         else Some (foldl (\<lambda>m (pid, r). case r of Some (Inr st) \<Rightarrow> m(pid \<mapsto> st) | _ \<Rightarrow> m) (\<lambda>_. None) reads))"

fun process_rows :: "processEnv \<Rightarrow> filterOptions \<Rightarrow> f64 \<Rightarrow> (int \<Rightarrow> procStat option) \<Rightarrow> int list \<Rightarrow> process list option" where
  "process_rows env opts deltaUptime stats1 [] = Some []"
| "process_rows env opts deltaUptime stats1 (pid # pids) =
     (case (stats1 pid, readStat (pv_stat2 env pid)) of
        (_, None) \<Rightarrow> None
      | (Some st1, Some (Inr st2)) \<Rightarrow>
          (case process_rows env opts deltaUptime stats1 pids of
             None \<Rightarrow> None
           | Some rs \<Rightarrow> Some (case process_row env opts deltaUptime pid st1 st2 of None \<Rightarrow> rs | Some r \<Rightarrow> r # rs))
      | _ \<Rightarrow> process_rows env opts deltaUptime stats1 pids)"

definition process_less :: "bool \<Rightarrow> process \<Rightarrow> process \<Rightarrow> bool" where
  "process_less byMemory a b =
     (if byMemory then pc_memoryBytes a > pc_memoryBytes b else flt (pc_cpuPercent b) (pc_cpuPercent a))"

definition top_processes :: "filterOptions \<Rightarrow> process list \<Rightarrow> process list" where
  "top_processes opts rs =
     (let sorted = go_sort (process_less (fo_byMemory opts)) rs
      in if fo_limit opts > 0 \<and> int (length sorted) > fo_limit opts then take (nat (fo_limit opts)) sorted else sorted)"

text \<open>\<open>walk\<close> is the order in which Go visits the processes of the first look.\<close>

definition GetList :: "processEnv \<Rightarrow> filterOptions \<Rightarrow> int list \<Rightarrow> (string + process list) option" where
  "GetList env opts walk =
     (case readUptime (pv_parseFloat env) (pv_uptime1 env) of
        Inl err \<Rightarrow> Some (Inl (''failed to read uptime: '' @ err))
      | Inr uptime1 \<Rightarrow>
          (case first_stats env of
             None \<Rightarrow> None
           | Some stats1 \<Rightarrow>
               (case pv_ctxErr env of
                  Some err \<Rightarrow> Some (Inl err)
                | None \<Rightarrow>
                    (case readUptime (pv_parseFloat env) (pv_uptime2 env) of
                       Inl err \<Rightarrow> Some (Inl (''failed to read uptime: '' @ err))
                     | Inr uptime2 \<Rightarrow>
                         map_option (\<lambda>rs. Inr (top_processes opts rs))
                           (process_rows env opts (delta_uptime uptime1 uptime2) stats1 walk)))))"

section \<open>The tool\<close>

text \<open>The arguments are a map of any JSON values, the last of a name; \<open>compile\<close> gives the predicate of a regular expression or its error.\<close>

definition args_map :: "string \<Rightarrow> (string \<Rightarrow> json option) option" where
  "args_map args =
     (if args = [] then Some (\<lambda>_. None)
      else case json_parse args of
             Some (JObject ms) \<Rightarrow> Some (map_of (rev (map (\<lambda>(k, raw, v). (k, v)) ms)))
           | Some JNull \<Rightarrow> Some (\<lambda>_. None)
           | _ \<Rightarrow> None)"

definition parseRegexOpt :: "(string \<Rightarrow> string + (string \<Rightarrow> bool)) \<Rightarrow> (string \<Rightarrow> json option) \<Rightarrow> string \<Rightarrow> string + (string \<Rightarrow> bool) option" where
  "parseRegexOpt compile m key =
     (case m key of
        None \<Rightarrow> Inr None
      | Some (JString s) \<Rightarrow>
          if s = [] then Inr None
          else (case compile s of Inl err \<Rightarrow> Inl (''invalid regex for '' @ key @ '': '' @ err) | Inr p \<Rightarrow> Inr (Some p))
      | Some _ \<Rightarrow> Inl (key @ '' must be a string''))"

text \<open>\<open>to_int\<close> is the number of a text as a \<open>float64\<close> turned into an \<open>int\<close>.\<close>

definition list_options :: "(string \<Rightarrow> string + (string \<Rightarrow> bool)) \<Rightarrow> (string \<Rightarrow> int) \<Rightarrow> (string \<Rightarrow> json option) \<Rightarrow> string + filterOptions" where
  "list_options compile to_int m =
     (let byMemory = (case m ''sort_by'' of Some (JString s) \<Rightarrow> s = ''memory'' | _ \<Rightarrow> False);
          limit = (case m ''limit'' of Some (JNumber n) \<Rightarrow> to_int n | _ \<Rightarrow> 10)
      in case parseRegexOpt compile m ''user_regex'' of Inl err \<Rightarrow> Inl err | Inr user \<Rightarrow>
         (case parseRegexOpt compile m ''name_regex'' of Inl err \<Rightarrow> Inl err | Inr name \<Rightarrow>
         (case parseRegexOpt compile m ''state_regex'' of Inl err \<Rightarrow> Inl err | Inr state \<Rightarrow>
         (case parseRegexOpt compile m ''cmdline_regex'' of Inl err \<Rightarrow> Inl err | Inr cmdline \<Rightarrow>
          Inr \<lparr>fo_byMemory = byMemory, fo_limit = limit, fo_user = user, fo_name = name, fo_state = state, fo_cmdline = cmdline\<rparr>))))"

definition process_text :: "(f64 \<Rightarrow> string) \<Rightarrow> process \<Rightarrow> string" where
  "process_text show_float p = json_object [(''pid'', itoa (pc_pid p)), (''uid'', itoa (pc_uid p)), (''user'', json_string (pc_user p)),
     (''name'', json_string (pc_name p)), (''state'', json_string (pc_state p)),
     (''cmdline'', case pc_cmdline p of None \<Rightarrow> ''null'' | Some c \<Rightarrow> json_string c), (''cpu_percent'', show_float (pc_cpuPercent p)),
     (''memory_bytes'', itoa (uint (pc_memoryBytes p)))]"

text \<open>A result with a number that is not finite cannot be rendered.\<close>

definition processes_text :: "(f64 \<Rightarrow> string) \<Rightarrow> process list \<Rightarrow> string option" where
  "processes_text show_float ps =
     (if list_all (\<lambda>p. case pc_cpuPercent p of Num _ \<Rightarrow> True | _ \<Rightarrow> False) ps then Some (nil_list (process_text show_float) ps) else None)"

definition processlist_IsSupported :: "bool \<Rightarrow> bool \<Rightarrow> bool \<times> string" where
  "processlist_IsSupported hasStat hasUptime =
     (if \<not> hasStat then (False, ''/proc/stat not found'') else if \<not> hasUptime then (False, ''/proc/uptime not found'') else (True, []))"

definition processlist_Execute :: "string \<Rightarrow> (string \<Rightarrow> string) \<Rightarrow> (string \<Rightarrow> string + (string \<Rightarrow> bool)) \<Rightarrow> (string \<Rightarrow> int) \<Rightarrow> (f64 \<Rightarrow> string) \<Rightarrow>
    processEnv \<Rightarrow> int list \<Rightarrow> string \<Rightarrow> envelope option" where
  "processlist_Execute timestamp argError compile to_int show_float env walk args =
     (let fail = reg_NewErrorResult timestamp ''get_process_list''
      in case args_map args of
           None \<Rightarrow> Some (fail (''failed to parse arguments: '' @ argError args))
         | Some m \<Rightarrow>
             (case list_options compile to_int m of
                Inl err \<Rightarrow> Some (fail err)
              | Inr opts \<Rightarrow>
                  (case GetList env opts walk of
                     None \<Rightarrow> None
                   | Some (Inl err) \<Rightarrow> Some (fail (''failed to get process list: '' @ err))
                   | Some (Inr ps) \<Rightarrow> Some (NewResult timestamp ''get_process_list'' StatusOK
                       (''Retrieved '' @ itoa (int (length ps)) @ '' processes'') (processes_text show_float ps)))))"

section \<open>The counters of a process\<close>

text \<open>
  The kernel prints the process, its name in parentheses whatever characters it has, its state and then numbers between spaces:
  the parent, nine others, the two counters of time and more.
\<close>

record kernelStat =
  ks_pid :: nat
  ks_comm :: string
  ks_state :: char
  ks_ppid :: nat
  ks_mid :: "string list"
  ks_utime :: nat
  ks_stime :: nat
  ks_more :: "string list"

definition stat_line :: "kernelStat \<Rightarrow> string" where
  "stat_line k = itoa_nat (ks_pid k) @ '' ('' @ ks_comm k @ '') '' @
     join '' '' ([[ks_state k], itoa_nat (ks_ppid k)] @ ks_mid k @ [itoa_nat (ks_utime k), itoa_nat (ks_stime k)] @ ks_more k)"

definition stat_ok :: "kernelStat \<Rightarrow> bool" where
  "stat_ok k \<longleftrightarrow> \<not> is_space (ks_state k) \<and> ks_state k \<noteq> CHR '')'' \<and> int (ks_ppid k) \<le> max_int \<and> ks_utime k < 2 ^ 64 \<and> ks_stime k < 2 ^ 64 \<and>
     length (ks_mid k) = 9 \<and> list_all (\<lambda>w. CHR '' '' \<notin> set w \<and> CHR '')'' \<notin> set w) (ks_mid k @ ks_more k) \<and> length (stat_line k) \<le> bufSize"

lemma last_index_append: "c \<notin> set b \<Longrightarrow> last_index_byte (a @ c # b) c = Some (length a)"
  by (simp add: last_index_byte_def index_byte_append)

lemma parse_uint_digits: "list_all is_digit s \<Longrightarrow> foldl (\<lambda>n c. if is_digit c then n * 10 + of_int (digit_of c) else n) (of_int v) s =
    (of_int (foldl (\<lambda>v c. v * 10 + digit_of c) v s) :: 64 word)"
proof (induction s arbitrary: v)
  case (Cons c s)
  then show ?case using Cons.IH [of "v * 10 + digit_of c"] by simp
qed simp

lemma parseUintBytes_itoa: "parseUintBytes (itoa_nat n) = of_nat n"
  using parse_uint_digits [OF itoa_nat_digits, of 0 n] dec_val_itoa_nat [of n]
  by (simp add: parseUintBytes_def dec_val_def)

lemma stat_fields_read:
  assumes "length mid = 9"
  shows "stat_fields 2 ([s, p] @ mid @ [u, t] @ others) st =
    st\<lparr>pt_state := parseState s, pt_ppid := sint (parseUintBytes p), pt_utime := parseUintBytes u, pt_stime := parseUintBytes t\<rparr>"
proof -
  obtain a b c d e f g h i where "mid = [a, b, c, d, e, f, g, h, i]"
    using assms by (auto simp: length_Suc_conv eval_nat_numeral)
  then show ?thesis by (simp add: eval_nat_numeral)
qed

lemma digits_no: "\<not> is_digit c \<Longrightarrow> c \<notin> set (itoa_nat n)"
  using itoa_nat_digits [of n] by (auto simp: list_all_iff)

lemma stat_parts:
  assumes "stat_ok k"
  defines "words \<equiv> [[ks_state k], itoa_nat (ks_ppid k)] @ ks_mid k @ [itoa_nat (ks_utime k), itoa_nat (ks_stime k)] @ ks_more k"
  shows "index_byte (stat_line k) CHR ''('' = Some (length (itoa_nat (ks_pid k)) + 1)"
    and "last_index_byte (stat_line k) CHR '')'' = Some (length (itoa_nat (ks_pid k)) + 2 + length (ks_comm k))"
    and "stat_line k = (itoa_nat (ks_pid k) @ '' ('' @ ks_comm k) @ '') '' @ join '' '' words"
    and "split_on CHR '' '' (join '' '' words) = words"
proof -
  show line: "stat_line k = (itoa_nat (ks_pid k) @ '' ('' @ ks_comm k) @ '') '' @ join '' '' words"
    by (simp add: stat_line_def words_def)
  have "CHR ''('' \<notin> set (itoa_nat (ks_pid k) @ '' '')" by (simp add: digits_no is_digit_def)
  then show "index_byte (stat_line k) CHR ''('' = Some (length (itoa_nat (ks_pid k)) + 1)"
    using index_byte_append [of "CHR ''(''" "itoa_nat (ks_pid k) @ '' ''"] by (simp add: stat_line_def)
  have w: "CHR '' '' \<notin> set w \<and> CHR '')'' \<notin> set w" if "w \<in> set words" for w
    using that assms(1) by (auto simp: words_def stat_ok_def list_all_iff digits_no is_digit_def is_space_def)
  then have "CHR '')'' \<notin> set (join '' '' words)" using set_join_subset [of "'' ''" words] by auto
  then show "last_index_byte (stat_line k) CHR '')'' = Some (length (itoa_nat (ks_pid k)) + 2 + length (ks_comm k))"
    using last_index_append [of "CHR '')''" "'' '' @ join '' '' words" "itoa_nat (ks_pid k) @ '' ('' @ ks_comm k"] unfolding line by simp
  show "split_on CHR '' '' (join '' '' words) = words"
    using w by (intro split_on_join) (auto simp: words_def)
qed

text \<open>
  Both readers of \<open>/proc/[pid]/stat\<close> find what the kernel printed, whatever characters the name of the process has, parentheses
  and spaces included: the list of processes reads the name, the state, the parent and both counters in full width, and the
  scan of states reads the same name and parent.
\<close>

theorem stat_readers_agree:
  assumes "stat_ok k"
  shows "readStat (Some (stat_line k)) =
      Some (Inr \<lparr>pt_utime = of_nat (ks_utime k), pt_stime = of_nat (ks_stime k), pt_state = parseState [ks_state k], pt_name = ks_comm k,
        pt_ppid = int (ks_ppid k)\<rparr>) \<and>
    parseStat (stat_line k) = Some \<lparr>pi_comm = ks_comm k, pi_state = ks_state k, pi_ppid = int (ks_ppid k)\<rparr>"
proof
  define words where "words = [[ks_state k], itoa_nat (ks_ppid k)] @ ks_mid k @ [itoa_nat (ks_utime k), itoa_nat (ks_stime k)] @ ks_more k"
  define m where "m = length (itoa_nat (ks_pid k))"
  note parts = stat_parts [OF assms, folded words_def, folded m_def]
  have len: "length (stat_line k) \<le> bufSize" "length (ks_mid k) = 9" "int (ks_ppid k) \<le> max_int" using assms by (simp_all add: stat_ok_def)
  have body: "join '' '' words \<noteq> []" by (simp add: words_def)
  have name: "take (length (ks_comm k)) (drop (m + 2) (stat_line k)) = ks_comm k" unfolding parts(3) by (simp add: m_def)
  have pre: "length (itoa_nat (ks_pid k) @ '' ('' @ ks_comm k @ '') '') = m + 2 + length (ks_comm k) + 2"
    "stat_line k = (itoa_nat (ks_pid k) @ '' ('' @ ks_comm k @ '') '') @ join '' '' words"
    unfolding parts(3) by (simp_all add: m_def)
  have tail: "drop (m + 2 + length (ks_comm k) + 2) (stat_line k) = join '' '' words"
    unfolding pre(1) [symmetric] pre(2) by (rule append_eq_conv_conj [THEN iffD1, THEN conjunct2, symmetric]) simp
  have tail_ws: "m + 2 + length (ks_comm k) + 2 < length (stat_line k)"
    unfolding pre(1) [symmetric] pre(2) using body by simp
  have ppid: "sint (parseUintBytes (itoa_nat (ks_ppid k))) = int (ks_ppid k)"
  proof -
    have "sint (of_nat (ks_ppid k) :: 64 word) = int (ks_ppid k)"
      using len(3) by (simp add: signed_of_nat signed_take_bit_int_eq_self)
    then show ?thesis by (simp add: parseUintBytes_itoa)
  qed
  have fields: "stat_fields 2 words \<lparr>pt_utime = 0, pt_stime = 0, pt_state = [], pt_name = ks_comm k, pt_ppid = 0\<rparr> =
      \<lparr>pt_utime = of_nat (ks_utime k), pt_stime = of_nat (ks_stime k), pt_state = parseState [ks_state k], pt_name = ks_comm k,
        pt_ppid = int (ks_ppid k)\<rparr>"
    unfolding words_def by (subst stat_fields_read [OF len(2)]) (simp add: ppid, simp add: parseUintBytes_itoa)
  show "readStat (Some (stat_line k)) =
      Some (Inr \<lparr>pt_utime = of_nat (ks_utime k), pt_stime = of_nat (ks_stime k), pt_state = parseState [ks_state k], pt_name = ks_comm k,
        pt_ppid = int (ks_ppid k)\<rparr>)"
    using len(1) name tail tail_ws parts(4) fields by (simp add: readStat_def readFileBuffered_def parts(1,2))
  have rest: "drop (m + 2 + length (ks_comm k) + 1) (stat_line k) = '' '' @ join '' '' words"
  proof -
    have pre: "length (itoa_nat (ks_pid k) @ '' ('' @ ks_comm k @ '')'') = m + 2 + length (ks_comm k) + 1"
      "stat_line k = (itoa_nat (ks_pid k) @ '' ('' @ ks_comm k @ '')'') @ '' '' @ join '' '' words"
      unfolding parts(3) by (simp_all add: m_def)
    show ?thesis unfolding pre(1) [symmetric] pre(2) by (rule append_eq_conv_conj [THEN iffD1, THEN conjunct2, symmetric]) simp
  qed
  have st: "\<not> is_space (ks_state k)" using assms by (simp add: stat_ok_def)
  obtain others where others: "'' '' @ join '' '' words = '' '' @ [ks_state k] @ '' '' @ itoa_nat (ks_ppid k) @ '' '' @ others"
    using len(2) by (cases "ks_mid k") (auto simp: words_def)
  have "text_fields ('' '' @ join '' '' words) = [ks_state k] # itoa_nat (ks_ppid k) # text_fields others"
    unfolding others using st fields_append [of "[ks_state k]" "CHR '' ''" "itoa_nat (ks_ppid k) @ '' '' @ others"]
      fields_append [of "itoa_nat (ks_ppid k)" "CHR '' ''" others] itoa_nat_plain [of "ks_ppid k"]
    by (auto simp: is_space_def list_all_iff)
  then show "parseStat (stat_line k) = Some \<lparr>pi_comm = ks_comm k, pi_state = ks_state k, pi_ppid = int (ks_ppid k)\<rparr>"
    using name rest len(3) by (simp add: parseStat_def parts(1,2) atoi_itoa_nat)
qed

definition sample_stat :: kernelStat where
  "sample_stat = \<lparr>ks_pid = 42, ks_comm = ''a) (b'', ks_state = CHR ''S'', ks_ppid = 1, ks_mid = replicate 9 ''0'', ks_utime = 7, ks_stime = 5,
     ks_more = [''0'']\<rparr>"

theorem stat_readers_agree_witness:
  "readStat (Some (stat_line sample_stat)) = Some (Inr \<lparr>pt_utime = 7, pt_stime = 5, pt_state = ''S'', pt_name = ''a) (b'', pt_ppid = 1\<rparr>)"
proof -
  have "length (stat_line sample_stat) = 38" by code_simp
  then have ok: "stat_ok sample_stat" by (simp add: stat_ok_def bufSize_def) (simp add: sample_stat_def is_space_def list_all_iff)
  show ?thesis using stat_readers_agree [OF ok] by (simp add: sample_stat_def parseState_def)
qed

section \<open>The top of the list\<close>

definition looked_at :: "processEnv \<Rightarrow> filterOptions \<Rightarrow> f64 \<Rightarrow> (int \<Rightarrow> procStat option) \<Rightarrow> int \<Rightarrow> process option" where
  "looked_at env opts du stats1 pid =
     (case (stats1 pid, readStat (pv_stat2 env pid)) of
        (Some st1, Some (Inr st2)) \<Rightarrow> process_row env opts du pid st1 st2
      | _ \<Rightarrow> None)"

lemma rows_looked_at: "process_rows env opts du stats1 pids = Some rs \<Longrightarrow> rs = List.map_filter (looked_at env opts du stats1) pids"
  by (induction env opts du stats1 pids arbitrary: rs rule: process_rows.induct)
    (auto simp: map_filter_simps looked_at_def split: option.splits sum.splits)

lemma row_pid: "looked_at env opts du stats1 pid = Some p \<Longrightarrow> pc_pid p = pid"
  by (auto simp: looked_at_def process_row_def Let_def split: option.splits sum.splits prod.splits if_splits)

lemma row_cpu: "looked_at env opts (Num u) stats1 pid = Some p \<Longrightarrow> pc_cpuPercent p \<noteq> NaN"
  by (auto simp: looked_at_def process_row_def Let_def cpu_percent_def split: option.splits sum.splits prod.splits if_splits)

lemma process_order:
  assumes "\<And>p. p \<in> A \<Longrightarrow> pc_cpuPercent p \<noteq> NaN"
  shows "weak_order_on A (process_less byMemory)"
  unfolding weak_order_on_def
proof (intro conjI ballI impI)
  fix x y assume "process_less byMemory x y"
  then show "\<not> process_less byMemory y x" using flt_asym by (auto simp: process_less_def split: if_splits)
next
  fix x y z
  assume "y \<in> A" "\<not> process_less byMemory y x" "\<not> process_less byMemory z y"
  then show "\<not> process_less byMemory z x"
    using assms [of y] not_flt_trans [of "pc_cpuPercent y" "pc_cpuPercent z" "pc_cpuPercent x"] by (auto simp: process_less_def split: if_splits)
qed

lemma map_filter_distinct:
  assumes "distinct xs" "\<And>x y. f x = Some y \<Longrightarrow> g y = x"
  shows "distinct (map g (List.map_filter f xs))" "set (map g (List.map_filter f xs)) \<subseteq> set xs"
proof -
  show *: "set (map g (List.map_filter f xs)) \<subseteq> set xs" for xs
    by (induction xs) (auto simp: map_filter_simps assms(2) split: option.splits)
  show "distinct (map g (List.map_filter f xs))"
    using assms(1) * by (induction xs) (fastforce simp: map_filter_simps assms(2) split: option.splits)+
qed

text \<open>
  The list of processes is the top of all. However the processes are visited, every process shown was there at both looks and
  passes all filters, each once; with a limit there are no more than that many and none that is left out uses more than one
  that is shown, by memory or by CPU time; without one all are shown.
\<close>

theorem process_list_top:
  assumes "GetList env opts walk = Some (Inr rs)" and "first_stats env = Some stats1" and "walk_of walk stats1"
    and "readUptime (pv_parseFloat env) (pv_uptime1 env) = Inr t1" and "readUptime (pv_parseFloat env) (pv_uptime2 env) = Inr t2"
    and "delta_uptime t1 t2 = Num u"
  shows "let eligible = {p. \<exists>pid. looked_at env opts (Num u) stats1 pid = Some p}
         in distinct (map pc_pid rs) \<and> set rs \<subseteq> eligible \<and>
            (if fo_limit opts > 0 then int (length rs) \<le> fo_limit opts else set rs = eligible) \<and>
            (\<forall>p q. p \<in> set rs \<and> q \<in> eligible - set rs \<longrightarrow> \<not> process_less (fo_byMemory opts) q p)"
proof -
  define look where "look = looked_at env opts (Num u) stats1"
  define all where "all = List.map_filter look walk"
  define sorted where "sorted = go_sort (process_less (fo_byMemory opts)) all"
  have w: "distinct walk" "\<And>pid. pid \<in> set walk \<longleftrightarrow> stats1 pid \<noteq> None" using assms(3) by (auto simp: walk_of_def)
  have rs: "rs = top_processes opts all"
  proof -
    obtain rs0 where r: "process_rows env opts (Num u) stats1 walk = Some rs0" "rs = top_processes opts rs0"
      using assms(1) by (auto simp: GetList_def assms(2,4,5,6) split: option.splits)
    then show ?thesis using rows_looked_at [OF r(1)] by (simp add: all_def look_def)
  qed
  have eligible: "set all = {p. \<exists>pid. look pid = Some p}"
  proof -
    have "pid \<in> set walk" if "look pid = Some p" for pid p using that w(2) by (auto simp: look_def looked_at_def split: option.splits)
    then show ?thesis by (force simp: all_def map_filter_def)
  qed
  have "distinct (map pc_pid all)" unfolding all_def by (rule map_filter_distinct(1) [OF w(1)]) (simp add: look_def row_pid)
  then have dist: "distinct (map pc_pid sorted)" unfolding sorted_def by (metis mset_go_sort mset_map mset_eq_imp_distinct_iff)
  have "pc_cpuPercent p \<noteq> NaN" if "p \<in> set all" for p using that row_cpu unfolding eligible look_def by blast
  then have ord: "sorted_wrt (\<lambda>a b. \<not> process_less (fo_byMemory opts) b a) sorted" unfolding sorted_def by (intro sorted_go_sort process_order)
  have set: "set sorted = set all" by (simp add: sorted_def)
  define k where "k = (if fo_limit opts > 0 \<and> int (length sorted) > fo_limit opts then nat (fo_limit opts) else length sorted)"
  have shown: "rs = take k sorted" by (simp add: rs top_processes_def Let_def sorted_def [symmetric] k_def)
  have "\<not> process_less (fo_byMemory opts) q p" if "p \<in> set rs" "q \<in> set sorted" "q \<notin> set rs" for p q
  proof -
    have "q \<in> set (drop k sorted)" using that(2,3) unfolding shown by (metis UnE append_take_drop_id set_append)
    moreover have "sorted_wrt (\<lambda>a b. \<not> process_less (fo_byMemory opts) b a) (take k sorted @ drop k sorted)" using ord by simp
    ultimately show ?thesis using that(1) unfolding shown sorted_wrt_append by blast
  qed
  moreover have "distinct (map pc_pid rs)" using dist unfolding shown by (metis distinct_take take_map)
  moreover have "set rs \<subseteq> set all" unfolding shown by (metis set set_take_subset)
  moreover have "if fo_limit opts > 0 then int (length rs) \<le> fo_limit opts else set rs = set all"
    unfolding shown k_def using set by auto
  ultimately show ?thesis unfolding Let_def look_def [symmetric] eligible [symmetric] using set by blast
qed

definition two_processes :: processEnv where
  "two_processes = \<lparr>pv_uptime1 = Some ''1 '', pv_uptime2 = Some ''2 '', pv_names = Some [''self'', ''7'', ''8''],
     pv_stat1 = (\<lambda>pid. Some ''7 (a) S''), pv_stat2 = (\<lambda>pid. Some ''7 (a) R''),
     pv_status = (\<lambda>pid. Some (if pid = 7 then [] else ''VmRSS:'' @ [CHR 0x09] @ ''4 kB'')),
     pv_cmdline = (\<lambda>pid. None), pv_users = (\<lambda>uid. Some ''root''), pv_ctxErr = None,
     pv_parseFloat = (\<lambda>s. if s = ''1'' then Some (Num 1) else if s = ''2'' then Some (Num 2) else None)\<rparr>"

definition by_memory :: "int \<Rightarrow> filterOptions" where
  "by_memory limit = \<lparr>fo_byMemory = True, fo_limit = limit, fo_user = None, fo_name = None, fo_state = None, fo_cmdline = None\<rparr>"

lemma two_processes_files:
  "readStat (Some ''7 (a) S'') = Some (Inr \<lparr>pt_utime = 0, pt_stime = 0, pt_state = ''S'', pt_name = ''a'', pt_ppid = 0\<rparr>)"
  "readStat (Some ''7 (a) R'') = Some (Inr \<lparr>pt_utime = 0, pt_stime = 0, pt_state = ''R'', pt_name = ''a'', pt_ppid = 0\<rparr>)"
  "readStatus (Some []) = Some (0, 0)" "readStatus (Some (''VmRSS:'' @ [CHR 0x09] @ ''4 kB'')) = Some (0, 4096)"
  "getPIDs (Some [''self'', ''7'', ''8'']) = [7, 8]"
  by code_simp+

lemma two_processes_uptime: "readUptime (pv_parseFloat two_processes) (pv_uptime1 two_processes) = Inr (Num 1)"
  "readUptime (pv_parseFloat two_processes) (pv_uptime2 two_processes) = Inr (Num 2)" "delta_uptime (Num 1) (Num 2) = Num 1"
  by (simp_all add: two_processes_def readUptime_def readFileBuffered_def bufSize_def delta_uptime_def Let_def feq_def)

definition first_look :: "int \<Rightarrow> procStat option" where
  "first_look = (\<lambda>_. Some \<lparr>pt_utime = 0, pt_stime = 0, pt_state = ''S'', pt_name = ''a'', pt_ppid = 0\<rparr>) |` {7, 8}"

lemma two_processes_first: "first_stats two_processes = Some first_look"
  by (simp add: first_stats_def two_processes_def two_processes_files first_look_def) (auto simp: restrict_map_def fun_eq_iff)

definition of_row :: "int \<Rightarrow> 64 word \<Rightarrow> process" where
  "of_row pid bytes = \<lparr>pc_pid = pid, pc_uid = 0, pc_user = ''root'', pc_name = ''a'', pc_state = ''R'', pc_cmdline = None, pc_cpuPercent = Num 0, pc_memoryBytes = bytes\<rparr>"

lemma two_processes_rows: "looked_at two_processes (by_memory n) (Num 1) first_look pid =
    (if pid = 7 then Some (of_row 7 0) else if pid = 8 then Some (of_row 8 4096) else None)"
  by (simp add: looked_at_def two_processes_def two_processes_files [simplified] first_look_def process_row_def by_memory_def getUsername_def
      pl_readCmdline_def readFileBuffered_def accepts_def cpu_percent_def cpu_ticks_def of_row_def)

lemma two_processes_list: "GetList two_processes (by_memory 1) [7, 8] = Some (Inr [of_row 8 4096])"
proof -
  obtain rs where rs: "process_rows two_processes (by_memory 1) (Num 1) first_look [7, 8] = Some rs"
    by (simp add: two_processes_def two_processes_files first_look_def)
  moreover have "List.map_filter (looked_at two_processes (by_memory 1) (Num 1) first_look) [7, 8] = [of_row 7 0, of_row 8 4096]"
    by (simp add: map_filter_simps two_processes_rows)
  ultimately have "rs = [of_row 7 0, of_row 8 4096]" using rows_looked_at by metis
  moreover have "top_processes (by_memory 1) [of_row 7 0, of_row 8 4096] = [of_row 8 4096]"
    by (simp add: top_processes_def by_memory_def go_sort_def process_less_def of_row_def)
  moreover have "pv_ctxErr two_processes = None" by (simp add: two_processes_def)
  ultimately show ?thesis using rs by (simp add: GetList_def two_processes_uptime two_processes_first)
qed

theorem process_list_top_witness:
  "GetList two_processes (by_memory 1) [7, 8] = Some (Inr [of_row 8 4096]) \<and> \<not> process_less True (of_row 7 0) (of_row 8 4096)"
proof -
  have walk: "walk_of [7, 8] first_look" by (auto simp: walk_of_def first_look_def restrict_map_def split: if_splits)
  have "of_row 7 0 \<in> {p. \<exists>pid. looked_at two_processes (by_memory 1) (Num 1) first_look pid = Some p} - set [of_row 8 4096]"
    by (auto simp: two_processes_rows of_row_def intro: exI [of _ 7])
  then show ?thesis
    using process_list_top [OF two_processes_list two_processes_first walk two_processes_uptime] two_processes_list
    by (simp add: Let_def by_memory_def)
qed

end
