(* ===== verification/Oom.thy ===== *)
theory Oom
  imports Plugins JsonDecode HostText "HOL-Library.AList"
begin

text \<open>
  Model of \<open>internal/registry/tools/oomevents\<close>: the tool that finds in the kernel's ring buffer which processes the out-of-memory killer
  has killed. The kernel writes a context line and a line for the kill; the tool joins the two when they follow each other
  with the same process. The contents of the ring buffer and of \<open>/proc/stat\<close>, the parser of a \<open>float64\<close> and the rendering
  of a time are arguments.
\<close>

section \<open>Lines\<close>

record oomEvent =
  oo_time :: "string option"
  oo_victimPID :: int
  oo_victimComm :: string
  oo_totalVM :: "bool \<times> nat"
  oo_anonRSS :: "bool \<times> nat"
  oo_fileRSS :: "bool \<times> nat"
  oo_shmemRSS :: "bool \<times> nat"
  oo_constraint :: string
  oo_memcg :: string
  oo_scope :: string

record killedRecord =
  kr_pid :: int
  kr_comm :: string
  kr_totalVM :: int
  kr_anonRSS :: int
  kr_fileRSS :: int
  kr_shmemRSS :: int
  kr_cgroupScope :: bool

record oomKillRecord =
  ok_constraint :: string
  ok_oomMemcg :: string
  ok_taskMemcg :: string
  ok_task :: string
  ok_pid :: int

text \<open>The offset of a line, if it has one, and its message.\<close>

definition parseLinePrefix :: "(string \<Rightarrow> f64 option) \<Rightarrow> string \<Rightarrow> f64 option \<times> string" where
  "parseLinePrefix parse_float line =
     (let msg = trim_space line;
          msg1 = (if prefix ''<'' msg
                  then (case str_index msg ''>'' of
                          Some i \<Rightarrow> if 0 < i \<and> i \<le> 4 \<and> atoi (drop 1 (take i msg)) \<noteq> None then trim_space (drop (i + 1) msg) else msg
                        | None \<Rightarrow> msg)
                  else msg)
      in if prefix ''['' msg1
         then (case str_index msg1 '']'' of
                 Some i \<Rightarrow>
                   if 0 < i then (case parse_float (trim_space (drop 1 (take i msg1))) of
                                    Some ts \<Rightarrow> (Some ts, trim_space (drop (i + 1) msg1))
                                  | None \<Rightarrow> (None, msg1))
                   else (None, msg1)
               | None \<Rightarrow> (None, msg1))
         else (None, msg1))"

definition killedGlobalPrefix :: string where
  "killedGlobalPrefix = ''Out of memory: Killed process ''"

definition killedCgroupPrefix :: string where
  "killedCgroupPrefix = ''Memory cgroup out of memory: Killed process ''"

definition killed_field :: "killedRecord \<Rightarrow> string \<Rightarrow> killedRecord" where
  "killed_field r field =
     (case cut CHR '':'' (trim_suffix '','' field) of
        None \<Rightarrow> r
      | Some (key, v) \<Rightarrow>
          (case atoi (trim_suffix ''kB'' v) of
             None \<Rightarrow> r
           | Some n \<Rightarrow>
               if key = ''total-vm'' then r\<lparr>kr_totalVM := n\<rparr>
               else if key = ''anon-rss'' then r\<lparr>kr_anonRSS := n\<rparr>
               else if key = ''file-rss'' then r\<lparr>kr_fileRSS := n\<rparr>
               else if key = ''shmem-rss'' then r\<lparr>kr_shmemRSS := n\<rparr> else r))"

text \<open>The command name ends before \<open>) total-vm:\<close>, or at the last parenthesis.\<close>

definition comm_end :: "string \<Rightarrow> nat option" where
  "comm_end s = (case str_index s '') total-vm:'' of Some i \<Rightarrow> Some i | None \<Rightarrow> last_index_byte s CHR '')'')"

definition parseKilledLine :: "string \<Rightarrow> killedRecord option" where
  "parseKilledLine msg =
     (let body = (if prefix killedGlobalPrefix msg then Some (False, drop (length killedGlobalPrefix) msg)
                  else if prefix killedCgroupPrefix msg then Some (True, drop (length killedCgroupPrefix) msg) else None)
      in case body of
           None \<Rightarrow> None
         | Some (cgroup, m) \<Rightarrow>
             (case index_byte m CHR '' '' of
                None \<Rightarrow> None
              | Some sp \<Rightarrow>
                  if sp = 0 then None
                  else case atoi (take sp m) of
                    None \<Rightarrow> None
                  | Some pid \<Rightarrow>
                      let after = drop (sp + 1) m
                      in if \<not> prefix ''('' after then None
                         else case comm_end after of
                           None \<Rightarrow> None
                         | Some i \<Rightarrow>
                             if i = 0 then None
                             else Some (foldl killed_field
                               \<lparr>kr_pid = pid, kr_comm = drop 1 (take i after), kr_totalVM = 0, kr_anonRSS = 0, kr_fileRSS = 0,
                                kr_shmemRSS = 0, kr_cgroupScope = cgroup\<rparr> (text_fields (drop (i + 1) after)))))"

definition oomkill_part :: "oomKillRecord \<Rightarrow> string \<Rightarrow> oomKillRecord" where
  "oomkill_part r part =
     (case cut CHR ''='' part of
        None \<Rightarrow> r
      | Some (key, v) \<Rightarrow>
          if key = ''constraint'' then r\<lparr>ok_constraint := v\<rparr>
          else if key = ''oom_memcg'' then r\<lparr>ok_oomMemcg := v\<rparr>
          else if key = ''task_memcg'' then r\<lparr>ok_taskMemcg := v\<rparr>
          else if key = ''task'' then r\<lparr>ok_task := v\<rparr>
          else if key = ''pid'' then r\<lparr>ok_pid := atoi_value v\<rparr> else r)"

definition parseOOMKillLine :: "string \<Rightarrow> oomKillRecord option" where
  "parseOOMKillLine msg =
     (if prefix ''oom-kill:'' msg
      then Some (foldl oomkill_part \<lparr>ok_constraint = [], ok_oomMemcg = [], ok_taskMemcg = [], ok_task = [], ok_pid = 0\<rparr>
                   (split_on CHR '','' (drop (length ''oom-kill:'') msg)))
      else None)"

section \<open>Joining context and kill\<close>

text \<open>The context line that waits for its kill, with its offset, and the events so far.\<close>

record oomScan =
  os_events :: "oomEvent list"
  os_pending :: "(f64 option \<times> oomKillRecord) option"

definition timeOf :: "(f64 \<Rightarrow> string) option \<Rightarrow> f64 option \<Rightarrow> string option" where
  "timeOf showTime off = (case (showTime, off) of (Some f, Some t) \<Rightarrow> Some (f t) | _ \<Rightarrow> None)"

definition record_memcg :: "oomKillRecord \<Rightarrow> string" where
  "record_memcg r = (if ok_oomMemcg r = [] then ok_taskMemcg r else ok_oomMemcg r)"

definition context_event :: "(f64 \<Rightarrow> string) option \<Rightarrow> f64 option \<times> oomKillRecord \<Rightarrow> oomEvent" where
  "context_event showTime c = (case c of (off, r) \<Rightarrow>
     \<lparr>oo_time = timeOf showTime off, oo_victimPID = ok_pid r, oo_victimComm = ok_task r,
      oo_totalVM = (False, 0), oo_anonRSS = (False, 0), oo_fileRSS = (False, 0), oo_shmemRSS = (False, 0),
      oo_constraint = ok_constraint r, oo_memcg = record_memcg r,
      oo_scope = (if ok_constraint r = ''CONSTRAINT_MEMCG'' then ''cgroup'' else ''global'')\<rparr>)"

definition flushPending :: "(f64 \<Rightarrow> string) option \<Rightarrow> oomScan \<Rightarrow> oomScan" where
  "flushPending showTime s =
     (case os_pending s of
        None \<Rightarrow> s
      | Some c \<Rightarrow> s\<lparr>os_events := os_events s @ [context_event showTime c], os_pending := None\<rparr>)"

definition killed_event :: "(f64 \<Rightarrow> string) option \<Rightarrow> f64 option \<Rightarrow> killedRecord \<Rightarrow> oomEvent" where
  "killed_event showTime off k =
     \<lparr>oo_time = timeOf showTime off, oo_victimPID = kr_pid k, oo_victimComm = kr_comm k,
      oo_totalVM = kbToMB (kr_totalVM k), oo_anonRSS = kbToMB (kr_anonRSS k), oo_fileRSS = kbToMB (kr_fileRSS k),
      oo_shmemRSS = kbToMB (kr_shmemRSS k), oo_constraint = [], oo_memcg = [],
      oo_scope = (if kr_cgroupScope k then ''cgroup'' else ''global'')\<rparr>"

definition add_context :: "oomKillRecord \<Rightarrow> oomEvent \<Rightarrow> oomEvent" where
  "add_context r ev =
     ev\<lparr>oo_constraint := ok_constraint r, oo_memcg := record_memcg r,
        oo_scope := (if ok_constraint r = ''CONSTRAINT_MEMCG'' then ''cgroup'' else oo_scope ev)\<rparr>"

definition oom_line :: "(string \<Rightarrow> f64 option) \<Rightarrow> (f64 \<Rightarrow> string) option \<Rightarrow> oomScan \<Rightarrow> string \<Rightarrow> oomScan" where
  "oom_line parse_float showTime s line =
     (case parseLinePrefix parse_float (trim_space line) of
        (off, msg) \<Rightarrow>
          if msg = [] then s
          else case parseOOMKillLine msg of
            Some r \<Rightarrow> (flushPending showTime s)\<lparr>os_pending := Some (off, r)\<rparr>
          | None \<Rightarrow>
              (case parseKilledLine msg of
                 None \<Rightarrow> s
               | Some k \<Rightarrow>
                   let ev = killed_event showTime off k
                   in case os_pending s of
                        Some (poff, r) \<Rightarrow>
                          if ok_pid r = kr_pid k
                          then s\<lparr>os_events := os_events s @ [add_context r ev], os_pending := None\<rparr>
                          else let s1 = flushPending showTime s in s1\<lparr>os_events := os_events s1 @ [ev]\<rparr>
                      | None \<Rightarrow> s\<lparr>os_events := os_events s @ [ev]\<rparr>))"

definition parseOOMEvents :: "(string \<Rightarrow> f64 option) \<Rightarrow> (f64 \<Rightarrow> string) option \<Rightarrow> string \<Rightarrow> oomEvent list" where
  "parseOOMEvents parse_float showTime raw =
     os_events (flushPending showTime
       (foldl (oom_line parse_float showTime) \<lparr>os_events = [], os_pending = None\<rparr> (text_lines raw)))"

section \<open>The tool\<close>

definition defaultLastN :: int where "defaultLastN = 10"

definition maxLastN :: int where "maxLastN = 50"

text \<open>
  What the tool reads: the state of its context, the ring buffer by system call and by command, and \<open>/proc/stat\<close>. An error is its
  text. \<open>oe_argError\<close> is the text of the error of \<open>Unmarshal\<close>.
\<close>

record oomEnv =
  oe_ctxErr :: "string option"
  oe_klogRead :: "string + string"
  oe_dmesg :: "string + string"
  oe_lookPath :: bool
  oe_stat :: "string option"
  oe_parseFloat :: "string \<Rightarrow> f64 option"
  oe_rfc3339 :: "int \<Rightarrow> f64 \<Rightarrow> string"
  oe_argError :: "string \<Rightarrow> string"
  oe_timestamp :: string
  oe_elapsedMs :: int

definition oom_IsSupported :: "oomEnv \<Rightarrow> bool \<times> string" where
  "oom_IsSupported env =
     (case oe_klogRead env of
        Inr _ \<Rightarrow> (True, [])
      | Inl _ \<Rightarrow> if oe_lookPath env then (True, [])
               else (False, ''OOM event query not supported (missing dmesg binary and klogctl blocked)''))"

fun btime_line :: "string list \<Rightarrow> int option" where
  "btime_line [] = None"
| "btime_line (line # ls) =
     (if prefix ''btime '' line then atoi (trim_space (drop (length ''btime '') line)) else btime_line ls)"

definition readBtime :: "string option \<Rightarrow> int option" where
  "readBtime stat = (case stat of None \<Rightarrow> None | Some t \<Rightarrow> btime_line (text_lines t))"

definition oom_count :: "oomEvent list \<Rightarrow> (string \<times> int) list" where
  "oom_count evs =
     foldl (\<lambda>m ev. AList.update (oo_victimComm ev)
              ((case map_of m (oo_victimComm ev) of Some n \<Rightarrow> n | None \<Rightarrow> 0) + 1) m) [] evs"

definition oom_event_text :: "oomEvent \<Rightarrow> string" where
  "oom_event_text ev = json_object (
     [(''time'', case oo_time ev of None \<Rightarrow> ''null'' | Some t \<Rightarrow> json_string t),
      (''victim_pid'', itoa (oo_victimPID ev)), (''victim_comm'', json_string (oo_victimComm ev)),
      (''total_vm_mb'', tenths_text (oo_totalVM ev)), (''anon_rss_mb'', tenths_text (oo_anonRSS ev)),
      (''file_rss_mb'', tenths_text (oo_fileRSS ev)), (''shmem_rss_mb'', tenths_text (oo_shmemRSS ev))] @
     (if oo_constraint ev = [] then [] else [(''constraint'', json_string (oo_constraint ev))]) @
     (if oo_memcg ev = [] then [] else [(''memcg'', json_string (oo_memcg ev))]) @
     [(''scope'', json_string (oo_scope ev))])"

definition oom_output_text :: "oomEvent list \<Rightarrow> oomEvent list \<Rightarrow> string" where
  "oom_output_text events found = json_object
     [(''events'', json_array (map oom_event_text events)), (''total_found'', itoa (int (length found))),
      (''count_by_comm'', json_object (map (\<lambda>(k, n). (k, itoa n)) (go_sort (\<lambda>a b. fst a < fst b) (oom_count found)))),
      (''note'', json_string ''kernel ring buffer covers recent history only; older OOM events may have rotated out'')]"

definition oom_lastN :: "int \<Rightarrow> int" where
  "oom_lastN n = (let n1 = (if n \<le> 0 then defaultLastN else n) in if n1 > maxLastN then maxLastN else n1)"

definition oom_args :: "string \<Rightarrow> int option" where
  "oom_args raw =
     (if raw = [] then Some defaultLastN
      else Option.bind (json_parse raw) (decode_member dec_int defaultLastN ''last_n''))"

text \<open>The ring buffer, or the message of the error; an empty buffer is read again with the command.\<close>

definition em_dash :: string where
  "em_dash = [CHR 0xE2, CHR 0x80, CHR 0x94]"

definition read_ring :: "oomEnv \<Rightarrow> string + string" where
  "read_ring env =
     (let again = (\<lambda>klogErr. case oe_dmesg env of
            Inr out \<Rightarrow> Inr out
          | Inl err \<Rightarrow> Inl (''failed to read kernel ring buffer (klogctl: '' @ klogErr @ ''; dmesg: '' @ err @ '') '' @ em_dash @
              '' reading the kernel log may require elevated privileges (CAP_SYSLOG or root, see kernel.dmesg_restrict)''))
      in case oe_klogRead env of
           Inl err \<Rightarrow> again err
         | Inr buf \<Rightarrow> if buf = [] then again ''<nil>'' else Inr buf)"

definition oom_found :: "oomEnv \<Rightarrow> string \<Rightarrow> oomEvent list" where
  "oom_found env buf = parseOOMEvents (oe_parseFloat env) (map_option (oe_rfc3339 env) (readBtime (oe_stat env))) buf"

definition oom_shown :: "int \<Rightarrow> oomEvent list \<Rightarrow> oomEvent list" where
  "oom_shown lastN found = take (nat (oom_lastN lastN)) (rev found)"

definition oom_Execute :: "oomEnv \<Rightarrow> string \<Rightarrow> envelope" where
  "oom_Execute env raw =
     (let fail = reg_NewErrorResult (oe_timestamp env) ''query_oom_events''
      in case oe_ctxErr env of
           Some err \<Rightarrow> fail (''context canceled before execution: '' @ err)
         | None \<Rightarrow>
             (case oom_args raw of
                None \<Rightarrow> fail (''invalid arguments: '' @ oe_argError env raw)
              | Some lastN \<Rightarrow>
                  (case read_ring env of
                     Inl message \<Rightarrow> fail message
                   | Inr buf \<Rightarrow>
                       (let found = oom_found env buf;
                            events = oom_shown lastN found;
                            (status, summary) = (if found \<noteq> []
                              then (StatusWarning, itoa (int (length found)) @ '' OOM kill event(s) found (showing '' @
                                      itoa (int (length events)) @ '', newest first)'')
                              else (StatusOK, ''No OOM kill events found in kernel ring buffer''))
                        in (NewResult (oe_timestamp env) ''query_oom_events'' status summary (Some (oom_output_text events found)))
                             \<lparr>ev_executionTimeMs := oe_elapsedMs env, ev_filteringMethod := ''deterministic''\<rparr>))))"

section \<open>Every kill is reported once\<close>

datatype oom_record = Context "f64 option" oomKillRecord | Kill "f64 option" killedRecord

definition log_record :: "(string \<Rightarrow> f64 option) \<Rightarrow> string \<Rightarrow> oom_record option" where
  "log_record parse_float line =
     (case parseLinePrefix parse_float (trim_space line) of
        (off, msg) \<Rightarrow>
          if msg = [] then None
          else case parseOOMKillLine msg of
            Some r \<Rightarrow> Some (Context off r)
          | None \<Rightarrow> map_option (Kill off) (parseKilledLine msg))"

text \<open>
  What the events of a log are, without the scan: a context directly followed by the kill of the same process is one event, every
  other context and every other kill is one.
\<close>

fun incidents :: "(f64 \<Rightarrow> string) option \<Rightarrow> oom_record list \<Rightarrow> oomEvent list" where
  "incidents showTime [] = []"
| "incidents showTime (Kill off k # rs) = killed_event showTime off k # incidents showTime rs"
| "incidents showTime [Context off r] = [context_event showTime (off, r)]"
| "incidents showTime (Context off r # Context off' r' # rs) =
     context_event showTime (off, r) # incidents showTime (Context off' r' # rs)"
| "incidents showTime (Context off r # Kill off' k # rs) =
     (if ok_pid r = kr_pid k then add_context r (killed_event showTime off' k) # incidents showTime rs
      else context_event showTime (off, r) # killed_event showTime off' k # incidents showTime rs)"

definition waiting :: "(f64 option \<times> oomKillRecord) option \<Rightarrow> oom_record list" where
  "waiting p = (case p of None \<Rightarrow> [] | Some (off, r) \<Rightarrow> [Context off r])"

lemma oom_line_none: "log_record parse_float line = None \<Longrightarrow> oom_line parse_float showTime s line = s"
  by (auto simp: log_record_def oom_line_def split: prod.splits option.splits if_splits)

lemma oom_line_context:
  "log_record parse_float line = Some (Context off r) \<Longrightarrow>
     oom_line parse_float showTime s line = (flushPending showTime s)\<lparr>os_pending := Some (off, r)\<rparr>"
  by (auto simp: log_record_def oom_line_def split: prod.splits option.splits if_splits)

lemma oom_line_kill:
  "log_record parse_float line = Some (Kill off k) \<Longrightarrow>
     oom_line parse_float showTime s line =
       (let ev = killed_event showTime off k
        in case os_pending s of
             Some (poff, r) \<Rightarrow>
               if ok_pid r = kr_pid k then s\<lparr>os_events := os_events s @ [add_context r ev], os_pending := None\<rparr>
               else let s1 = flushPending showTime s in s1\<lparr>os_events := os_events s1 @ [ev]\<rparr>
           | None \<Rightarrow> s\<lparr>os_events := os_events s @ [ev]\<rparr>)"
  by (auto simp: log_record_def oom_line_def split: prod.splits option.splits if_splits)

lemma scan_incidents:
  "os_events (flushPending showTime (foldl (oom_line parse_float showTime) s ls)) =
     os_events s @ incidents showTime (waiting (os_pending s) @ List.map_filter (log_record parse_float) ls)"
proof (induction ls arbitrary: s)
  case Nil
  then show ?case
    by (auto simp: flushPending_def waiting_def split: option.splits prod.splits)
next
  case (Cons line ls)
  show ?case
  proof (cases "log_record parse_float line")
    case None
    with Cons.IH show ?thesis by (simp add: oom_line_none)
  next
    case (Some rec)
    show ?thesis
    proof (cases rec)
      case (Context off r)
      with Some Cons.IH show ?thesis
        by (auto simp: oom_line_context flushPending_def waiting_def split: option.splits)
    next
      case (Kill off k)
      with Some Cons.IH show ?thesis
        by (auto simp: oom_line_kill flushPending_def waiting_def Let_def split: option.splits)
    qed
  qed
qed

text \<open>
  Property C26. The scan of the ring buffer is exact. For every content of the buffer the events are those of its records read in pairs: each kill
  the kernel logged is one event with its own process and sizes, it takes over the context of the record just before it when that
  is for the same process, and a context whose kill does not follow is an event of its own; the tool reports
  the newest of them in reverse order, at most as many as were asked for, at least 1 and at most 50.
\<close>

theorem oom_scan_exact:
  "oom_found env buf = incidents (map_option (oe_rfc3339 env) (readBtime (oe_stat env)))
      (List.map_filter (log_record (oe_parseFloat env)) (text_lines buf)) \<and>
   suffix (rev (oom_shown lastN (oom_found env buf))) (oom_found env buf) \<and>
   length (oom_shown lastN (oom_found env buf)) = min (length (oom_found env buf)) (nat (oom_lastN lastN)) \<and>
   1 \<le> oom_lastN lastN \<and> oom_lastN lastN \<le> 50"
proof -
  have "suffix (rev (take n (rev xs))) xs" for n and xs :: "oomEvent list"
    by (metis append_take_drop_id rev_append rev_rev_ident suffixI)
  then show ?thesis
    by (simp add: oom_found_def parseOOMEvents_def scan_incidents waiting_def oom_shown_def oom_lastN_def defaultLastN_def
        maxLastN_def Let_def)
qed

section \<open>What the kernel prints is read back\<close>

text \<open>The line of \<open>__oom_kill_process\<close> in \<open>mm/oom_kill.c\<close>.\<close>

definition kb_field :: "string \<Rightarrow> int \<Rightarrow> string" where
  "kb_field key n = key @ '':'' @ itoa n @ ''kB,''"

definition kernel_words :: "killedRecord \<Rightarrow> int \<Rightarrow> int \<Rightarrow> int \<Rightarrow> string list" where
  "kernel_words k uid pgtables adj =
     [kb_field ''total-vm'' (kr_totalVM k), kb_field ''anon-rss'' (kr_anonRSS k), kb_field ''file-rss'' (kr_fileRSS k),
      kb_field ''shmem-rss'' (kr_shmemRSS k), ''UID:'' @ itoa uid, ''pgtables:'' @ itoa pgtables @ ''kB'', ''oom_score_adj:'' @ itoa adj]"

definition kernel_killed_line :: "killedRecord \<Rightarrow> int \<Rightarrow> int \<Rightarrow> int \<Rightarrow> string" where
  "kernel_killed_line k uid pgtables adj =
     (if kr_cgroupScope k then killedCgroupPrefix else killedGlobalPrefix) @ itoa (kr_pid k) @ '' ('' @ kr_comm k @ '') '' @
     join '' '' (kernel_words k uid pgtables adj)"

definition sane_record :: "killedRecord \<Rightarrow> bool" where
  "sane_record k \<longleftrightarrow>
     (\<forall>n \<in> {kr_pid k, kr_totalVM k, kr_anonRSS k, kr_fileRSS k, kr_shmemRSS k}. 0 \<le> n \<and> n \<le> max_int) \<and>
     \<not> contains (kr_comm k) '') total-vm:''"

lemma killed_field_kb:
  assumes "CHR '':'' \<notin> set key" "0 \<le> n" "n \<le> max_int"
  shows "killed_field r (kb_field key n) =
    (if key = ''total-vm'' then r\<lparr>kr_totalVM := n\<rparr>
     else if key = ''anon-rss'' then r\<lparr>kr_anonRSS := n\<rparr>
     else if key = ''file-rss'' then r\<lparr>kr_fileRSS := n\<rparr>
     else if key = ''shmem-rss'' then r\<lparr>kr_shmemRSS := n\<rparr> else r)"
proof -
  have "trim_suffix '','' (kb_field key n) = key @ CHR '':'' # itoa n @ ''kB''"
    using trim_suffix_append [of "'',''" "key @ '':'' @ itoa n @ ''kB''"] by (simp add: kb_field_def)
  then have c: "cut CHR '':'' (trim_suffix '','' (kb_field key n)) = Some (key, itoa n @ ''kB'')"
    using cut_append [OF assms(1)] by simp
  have "atoi (trim_suffix ''kB'' (itoa n @ ''kB'')) = Some n"
    using atoi_itoa [OF assms(2,3)] trim_suffix_append [of "''kB''" "itoa n"] by simp
  with c show ?thesis by (simp add: killed_field_def)
qed

lemma not_digit_comma: "\<not> is_digit CHR '',''"
  by (simp add: is_digit_def)

lemma killed_field_other:
  assumes "CHR '':'' \<notin> set key" "CHR '','' \<notin> set key" "key \<notin> {''total-vm'', ''anon-rss'', ''file-rss'', ''shmem-rss''}"
    "CHR '','' \<notin> set v"
  shows "killed_field r (key @ CHR '':'' # v) = r"
proof -
  have "trim_suffix '','' (key @ CHR '':'' # v) = key @ CHR '':'' # v"
    using assms by (intro trim_suffix_absent) auto
  then have "cut CHR '':'' (trim_suffix '','' (key @ CHR '':'' # v)) = Some (key, v)"
    using cut_append [OF assms(1)] by simp
  with assms(3) show ?thesis
    by (auto simp: killed_field_def split: option.split)
qed

lemma kernel_words_read:
  assumes "sane_record k"
  shows "foldl killed_field \<lparr>kr_pid = kr_pid k, kr_comm = kr_comm k, kr_totalVM = 0, kr_anonRSS = 0, kr_fileRSS = 0,
      kr_shmemRSS = 0, kr_cgroupScope = kr_cgroupScope k\<rparr> (kernel_words k uid pgtables adj) = k"
proof -
  have comma: "CHR '','' \<notin> set (itoa n)" for n
    by (rule not_in_itoa) (simp_all add: not_digit_comma)
  have "killed_field r (''UID:'' @ itoa uid) = r" "killed_field r (''pgtables:'' @ itoa pgtables @ ''kB'') = r"
    "killed_field r (''oom_score_adj:'' @ itoa adj) = r" for r
    using comma killed_field_other [of "''UID''" "itoa uid" r] killed_field_other [of "''pgtables''" "itoa pgtables @ ''kB''" r]
      killed_field_other [of "''oom_score_adj''" "itoa adj" r] by simp_all
  then show ?thesis
    using assms by (simp add: kernel_words_def sane_record_def killed_field_kb)
qed

lemma kernel_words_fields: "text_fields (join '' '' (kernel_words k uid pgtables adj)) = kernel_words k uid pgtables adj"
proof (rule fields_words)
  fix w
  assume "w \<in> set (kernel_words k uid pgtables adj)"
  then show "w \<noteq> [] \<and> (\<forall>c \<in> set w. \<not> is_space c)"
    by (auto simp: kernel_words_def kb_field_def is_space_def dest: itoa_no_space [unfolded is_space_def])
qed

lemma killed_prefixes: "\<not> prefix killedGlobalPrefix (killedCgroupPrefix @ s)"
  by (simp add: killedGlobalPrefix_def killedCgroupPrefix_def)

lemma kernel_words_start:
  "\<exists>r. '') '' @ join '' '' (kernel_words k uid pgtables adj) = '') total-vm:'' @ r"
  by (simp add: kernel_words_def kb_field_def)

text \<open>
  The record of a kill that the kernel prints is read back as it was, whatever the name of the killed process is, spaces and
  parentheses included, as long as it does not contain the text that marks its end, and whatever the fields behind the sizes are.
\<close>

theorem kernel_line_roundtrip:
  assumes "sane_record k"
  shows "parseKilledLine (kernel_killed_line k uid pgtables adj) = Some k"
proof -
  define body where "body = itoa (kr_pid k) @ '' ('' @ kr_comm k @ '') '' @ join '' '' (kernel_words k uid pgtables adj)"
  define after where "after = ''('' @ kr_comm k @ '') '' @ join '' '' (kernel_words k uid pgtables adj)"
  have b: "body = itoa (kr_pid k) @ CHR '' '' # after"
    by (simp add: body_def after_def)
  have sp: "index_byte body CHR '' '' = Some (length (itoa (kr_pid k)))"
    unfolding b by (rule index_byte_append) (use itoa_no_space in \<open>force simp: is_space_def\<close>)
  have pid: "atoi (take (length (itoa (kr_pid k))) body) = Some (kr_pid k)"
    using assms by (simp add: b atoi_itoa sane_record_def)
  have rest: "drop (Suc (length (itoa (kr_pid k)))) body = after"
    by (simp add: b)
  obtain r where r: "'') '' @ join '' '' (kernel_words k uid pgtables adj) = '') total-vm:'' @ r"
    using kernel_words_start by blast
  have "str_index (''('' @ kr_comm k) '') total-vm:'' = None"
    using assms by (simp add: sane_record_def contains_def)
  then have "str_index ((''('' @ kr_comm k) @ '') total-vm:'' @ r) '') total-vm:'' = Some (length (''('' @ kr_comm k))"
    using str_index_first [of "''('' @ kr_comm k" "CHR '')''" "'' total-vm:''" r] by simp
  then have i: "comm_end after = Some (Suc (length (kr_comm k)))"
    using r by (simp add: comm_end_def after_def)
  have tail: "drop (Suc (Suc (length (kr_comm k)))) after = '' '' @ join '' '' (kernel_words k uid pgtables adj)"
    by (simp add: after_def)
  have comm: "drop (Suc 0) (take (Suc (length (kr_comm k))) after) = kr_comm k"
    by (simp add: after_def)
  have blank: "is_space CHR '' ''" by (simp add: is_space_def)
  have "prefix ''('' after" by (simp add: after_def)
  then have "parseKilledLine ((if kr_cgroupScope k then killedCgroupPrefix else killedGlobalPrefix) @ body) = Some k"
    using kernel_words_read [OF assms, of uid pgtables adj] sp pid rest i tail comm blank
    by (cases "kr_cgroupScope k") (simp_all add: parseKilledLine_def Let_def kernel_words_fields killed_prefixes)
  then show ?thesis
    by (simp add: kernel_killed_line_def body_def)
qed

theorem kernel_line_roundtrip_witness:
  "parseKilledLine (kernel_killed_line \<lparr>kr_pid = 42, kr_comm = ''my (app) x'', kr_totalVM = 2048, kr_anonRSS = 7, kr_fileRSS = 0,
     kr_shmemRSS = 1, kr_cgroupScope = True\<rparr> 0 5 (-17)) =
   Some \<lparr>kr_pid = 42, kr_comm = ''my (app) x'', kr_totalVM = 2048, kr_anonRSS = 7, kr_fileRSS = 0, kr_shmemRSS = 1, kr_cgroupScope = True\<rparr>"
  by (rule kernel_line_roundtrip) (simp add: sane_record_def contains_def)

end
