(* ===== verification/Firewall.thy ===== *)
theory Firewall
  imports Plugins JsonDecode HostText "HOL-Library.Word"
begin

text \<open>
  Model of \<open>internal/registry/tools/firewallsummary\<close>: the tool that sums up the tables, chains and rules of the packet filter from the
  JSON that \<open>nft\<close> prints or from the text of \<open>iptables-save\<close>. Both parsers collect into a list of tables with two maps from
  composed names to indices; an index that is out of range is a panic, the value \<open>None\<close>. The outputs of the commands are arguments.
\<close>

section \<open>Collecting tables and chains\<close>

record chainSummary =
  cs_name :: string
  cs_policy :: string
  cs_ruleCount :: int
  cs_packets :: "64 word"
  cs_bytes :: "64 word"

record tableSummary =
  tb_name :: string
  tb_family :: string
  tb_chains :: "chainSummary list"

record fwScan =
  fw_tables :: "tableSummary list"
  fw_tableIdx :: "string \<rightharpoonup> nat"
  fw_chainIdx :: "string \<rightharpoonup> nat"
  fw_total :: int
  fw_rules :: "string list"
  fw_truncated :: bool

definition fw_empty :: fwScan where
  "fw_empty = \<lparr>fw_tables = [], fw_tableIdx = (\<lambda>_. None), fw_chainIdx = (\<lambda>_. None), fw_total = 0, fw_rules = [], fw_truncated = False\<rparr>"

definition maxRenderedRules :: nat where "maxRenderedRules = 100"

text \<open>How a parser composes the names of its maps; \<open>iptables\<close> knows one family only.\<close>

type_synonym naming = "(string \<Rightarrow> string \<Rightarrow> string) \<times> (string \<Rightarrow> string \<Rightarrow> string \<Rightarrow> string)"

definition nft_naming :: naming where
  "nft_naming = ((\<lambda>family name. family @ ''|'' @ name), (\<lambda>family table chain. family @ ''|'' @ table @ ''|'' @ chain))"

definition ipt_naming :: naming where
  "ipt_naming = ((\<lambda>family name. name), (\<lambda>family table chain. table @ ''|'' @ chain))"

definition ensureTable :: "naming \<Rightarrow> string \<Rightarrow> string \<Rightarrow> fwScan \<Rightarrow> nat \<times> fwScan" where
  "ensureTable nm family name s =
     (let key = fst nm family name
      in case fw_tableIdx s key of
           Some i \<Rightarrow> (i, s)
         | None \<Rightarrow> (length (fw_tables s),
             s\<lparr>fw_tables := fw_tables s @ [\<lparr>tb_name = name, tb_family = family, tb_chains = []\<rparr>],
               fw_tableIdx := (fw_tableIdx s)(key \<mapsto> length (fw_tables s))\<rparr>))"

text \<open>\<open>tables[ti].Chains[ci]\<close> is changed in place.\<close>

definition update_chain :: "nat \<Rightarrow> nat \<Rightarrow> (chainSummary \<Rightarrow> chainSummary) \<Rightarrow> fwScan \<Rightarrow> fwScan option" where
  "update_chain ti ci f s =
     (if ti < length (fw_tables s) \<and> ci < length (tb_chains (fw_tables s ! ti))
      then Some (s\<lparr>fw_tables := (fw_tables s)[ti := (fw_tables s ! ti)\<lparr>tb_chains :=
             (tb_chains (fw_tables s ! ti))[ci := f (tb_chains (fw_tables s ! ti) ! ci)]\<rparr>]\<rparr>)
      else None)"

definition ensureChain :: "naming \<Rightarrow> string \<Rightarrow> string \<Rightarrow> string \<Rightarrow> string \<Rightarrow> fwScan \<Rightarrow> (nat \<times> nat \<times> fwScan) option" where
  "ensureChain nm family table chain policy s =
     (let (ti, s1) = ensureTable nm family table s;
          key = snd nm family table chain
      in case fw_chainIdx s1 key of
           Some ci \<Rightarrow>
             if policy \<noteq> [] then map_option (\<lambda>s2. (ti, ci, s2)) (update_chain ti ci (\<lambda>c. c\<lparr>cs_policy := policy\<rparr>) s1)
             else Some (ti, ci, s1)
         | None \<Rightarrow>
             let n = length (tb_chains (fw_tables s1 ! ti))
             in Some (ti, n, s1\<lparr>fw_tables := (fw_tables s1)[ti := (fw_tables s1 ! ti)\<lparr>tb_chains :=
                    tb_chains (fw_tables s1 ! ti) @ [\<lparr>cs_name = chain, cs_policy = policy, cs_ruleCount = 0, cs_packets = 0, cs_bytes = 0\<rparr>]\<rparr>],
                  fw_chainIdx := (fw_chainIdx s1)(key \<mapsto> n)\<rparr>))"

text \<open>
  What one object or line asks for: a table, a chain with its policy and perhaps its counters, a rule with what it adds to the
  counters and how it is rendered.
\<close>

datatype fw_item =
    TableItem string string
  | ChainItem string string string string "(64 word \<times> 64 word) option"
  | RuleItem string string string "64 word" "64 word" string

type_synonym fw_filter = "string \<times> string"

definition filter_matches :: "fw_filter \<Rightarrow> string \<Rightarrow> string \<Rightarrow> bool" where
  "filter_matches f table chain \<longleftrightarrow> fst f \<noteq> [] \<and> snd f \<noteq> [] \<and> table = fst f \<and> chain = snd f"

definition add_rule_text :: "string \<Rightarrow> fwScan \<Rightarrow> fwScan" where
  "add_rule_text t s =
     (if length (fw_rules s) < maxRenderedRules then s\<lparr>fw_rules := fw_rules s @ [t]\<rparr> else s\<lparr>fw_truncated := True\<rparr>)"

fun fw_step :: "naming \<Rightarrow> fw_filter \<Rightarrow> fw_item \<Rightarrow> fwScan \<Rightarrow> fwScan option" where
  "fw_step nm f (TableItem family name) s = Some (snd (ensureTable nm family name s))"
| "fw_step nm f (ChainItem family table chain policy counters) s =
     (case ensureChain nm family table chain policy s of
        None \<Rightarrow> None
      | Some (ti, ci, s1) \<Rightarrow>
          (case counters of
             None \<Rightarrow> Some s1
           | Some (pkts, byts) \<Rightarrow> update_chain ti ci (\<lambda>c. c\<lparr>cs_packets := pkts, cs_bytes := byts\<rparr>) s1))"
| "fw_step nm f (RuleItem family table chain pkts byts t) s =
     (case ensureChain nm family table chain [] s of
        None \<Rightarrow> None
      | Some (ti, ci, s1) \<Rightarrow>
          (case update_chain ti ci (\<lambda>c. c\<lparr>cs_ruleCount := cs_ruleCount c + 1, cs_packets := cs_packets c + pkts,
               cs_bytes := cs_bytes c + byts\<rparr>) s1 of
             None \<Rightarrow> None
           | Some s2 \<Rightarrow>
               let s3 = s2\<lparr>fw_total := fw_total s2 + 1\<rparr>
               in Some (if filter_matches f table chain then add_rule_text t s3 else s3)))"

fun fw_steps :: "naming \<Rightarrow> fw_filter \<Rightarrow> fw_item list \<Rightarrow> fwScan \<Rightarrow> fwScan option" where
  "fw_steps nm f [] s = Some s"
| "fw_steps nm f (item # items) s =
     (case fw_step nm f item s of None \<Rightarrow> None | Some s1 \<Rightarrow> fw_steps nm f items s1)"

section \<open>The text of iptables\<close>

definition parse_uint64 :: "string \<Rightarrow> 64 word option" where
  "parse_uint64 s =
     (if s \<noteq> [] \<and> list_all is_digit s \<and> dec_val s < 2 ^ 64 then Some (word_of_int (dec_val s)) else None)"

definition splitCounterPrefix :: "string \<Rightarrow> 64 word \<times> 64 word \<times> string" where
  "splitCounterPrefix line =
     (if \<not> prefix ''['' line then (0, 0, line)
      else case str_index line '']'' of
             None \<Rightarrow> (0, 0, line)
           | Some i \<Rightarrow>
               (let after = trim_space (drop (i + 1) line)
                in case cut CHR '':'' (drop 1 (take i line)) of
                     None \<Rightarrow> (0, 0, after)
                   | Some (p, b) \<Rightarrow>
                       (case (parse_uint64 p, parse_uint64 b) of
                          (Some pkts, Some byts) \<Rightarrow> (pkts, byts, after)
                        | _ \<Rightarrow> (0, 0, after))))"

text \<open>What a line asks for in the current table, which is the second component.\<close>

definition or_filter :: "string \<Rightarrow> string" where
  "or_filter cur = (if cur = [] then ''filter'' else cur)"

definition ipt_rule_line :: "string \<Rightarrow> string \<Rightarrow> fw_item option \<times> string" where
  "ipt_rule_line cur line =
     (case splitCounterPrefix line of
        (_, _, after) \<Rightarrow>
          (case text_fields after of
             verb # name # extra \<Rightarrow>
               let cur1 = or_filter cur
               in (if verb = ''-P'' then Some (ChainItem ''ip'' cur1 name (case extra of [] \<Rightarrow> [] | p # _ \<Rightarrow> p) None)
                   else if verb = ''-N'' then Some (ChainItem ''ip'' cur1 name [] None)
                   else if verb = ''-A'' \<or> verb = ''-I'' then Some (RuleItem ''ip'' cur1 name 0 0 after)
                   else None, cur1)
           | _ \<Rightarrow> (None, cur)))"

definition ipt_line :: "string \<Rightarrow> string \<Rightarrow> fw_item option \<times> string" where
  "ipt_line cur raw_line =
     (let line = trim_space raw_line
      in if line = [] \<or> prefix ''#'' line \<or> line = ''COMMIT'' then (None, cur)
         else if prefix ''*'' line then (let cur1 = trim_space (drop 1 line) in (Some (TableItem ''ip'' cur1), cur1))
         else if prefix '':'' line then
           (case text_fields line of
              f0 # f1 # extra \<Rightarrow>
                let policy = (if f1 = ''-'' then [] else f1); cur1 = or_filter cur;
                    counters = (case extra of [] \<Rightarrow> None | f2 # _ \<Rightarrow> (case splitCounterPrefix f2 of (pkts, byts, _) \<Rightarrow> Some (pkts, byts)))
                in (Some (ChainItem ''ip'' cur1 (trim_prefix '':'' f0) policy counters), cur1)
            | _ \<Rightarrow> (None, cur))
         else ipt_rule_line cur line)"

fun ipt_loop :: "fw_filter \<Rightarrow> string list \<Rightarrow> string \<Rightarrow> fwScan \<Rightarrow> fwScan option" where
  "ipt_loop f [] cur s = Some s"
| "ipt_loop f (line # ls) cur s =
     (case ipt_line cur line of
        (None, cur1) \<Rightarrow> ipt_loop f ls cur1 s
      | (Some item, cur1) \<Rightarrow>
          (case fw_step ipt_naming f item s of None \<Rightarrow> None | Some s1 \<Rightarrow> ipt_loop f ls cur1 s1))"

definition parseIptablesSave :: "string \<Rightarrow> fw_filter \<Rightarrow> fwScan option" where
  "parseIptablesSave output f = ipt_loop f (text_lines output) [] fw_empty"

section \<open>The JSON of nft\<close>

definition dec_uint64 :: "string \<times> json \<Rightarrow> 64 word \<Rightarrow> 64 word option" where
  "dec_uint64 v x = (case snd v of JNumber n \<Rightarrow> parse_uint64 n | JNull \<Rightarrow> Some x | _ \<Rightarrow> None)"

definition dec_ptr :: "(string \<times> json \<Rightarrow> 'a \<Rightarrow> 'a option) \<Rightarrow> 'a \<Rightarrow> string \<times> json \<Rightarrow> 'a option \<Rightarrow> 'a option option" where
  "dec_ptr dec dflt v x =
     (case snd v of JNull \<Rightarrow> Some None | _ \<Rightarrow> map_option Some (dec v (case x of None \<Rightarrow> dflt | Some y \<Rightarrow> y)))"

definition dec_counter :: "string \<times> json \<Rightarrow> 64 word \<times> 64 word \<Rightarrow> (64 word \<times> 64 word) option" where
  "dec_counter v x = do {
     pkts \<leftarrow> decode_member dec_uint64 (fst x) ''packets'' (snd v);
     byts \<leftarrow> decode_member dec_uint64 (snd x) ''bytes'' (snd v);
     Some (pkts, byts) }"

definition extractRuleCounter :: "json list \<Rightarrow> 64 word \<times> 64 word" where
  "extractRuleCounter exprs =
     foldl (\<lambda>(pkts, byts) e.
       case decode_member (dec_ptr dec_counter (0, 0)) None ''counter'' e of
         Some (Some (p, b)) \<Rightarrow> (pkts + p, byts + b)
       | _ \<Rightarrow> (pkts, byts)) (0, 0) exprs"

record nftTable =
  nt_family :: string
  nt_name :: string

record nftChain =
  nc_family :: string
  nc_table :: string
  nc_name :: string
  nc_policy :: string

text \<open>The expressions of a rule with the text they stand in, empty for \<open>nil\<close>.\<close>

record nftRule =
  nr_family :: string
  nr_table :: string
  nr_chain :: string
  nr_handle :: int
  nr_comment :: string
  nr_expr :: "string \<times> json list"

record nftObject =
  nj_table :: "nftTable option"
  nj_chain :: "nftChain option"
  nj_rule :: "nftRule option"

definition dec_nftTable :: "string \<times> json \<Rightarrow> nftTable \<Rightarrow> nftTable option" where
  "dec_nftTable v x = do {
     family \<leftarrow> decode_member dec_string (nt_family x) ''family'' (snd v);
     name \<leftarrow> decode_member dec_string (nt_name x) ''name'' (snd v);
     Some \<lparr>nt_family = family, nt_name = name\<rparr> }"

definition dec_nftChain :: "string \<times> json \<Rightarrow> nftChain \<Rightarrow> nftChain option" where
  "dec_nftChain v x = do {
     family \<leftarrow> decode_member dec_string (nc_family x) ''family'' (snd v);
     table \<leftarrow> decode_member dec_string (nc_table x) ''table'' (snd v);
     name \<leftarrow> decode_member dec_string (nc_name x) ''name'' (snd v);
     policy \<leftarrow> decode_member dec_string (nc_policy x) ''policy'' (snd v);
     Some \<lparr>nc_family = family, nc_table = table, nc_name = name, nc_policy = policy\<rparr> }"

definition dec_expr :: "string \<times> json \<Rightarrow> string \<times> json list \<Rightarrow> (string \<times> json list) option" where
  "dec_expr v x = (case snd v of JArray vs \<Rightarrow> Some (fst v, vs) | JNull \<Rightarrow> Some ([], []) | _ \<Rightarrow> None)"

definition dec_nftRule :: "string \<times> json \<Rightarrow> nftRule \<Rightarrow> nftRule option" where
  "dec_nftRule v x = do {
     family \<leftarrow> decode_member dec_string (nr_family x) ''family'' (snd v);
     table \<leftarrow> decode_member dec_string (nr_table x) ''table'' (snd v);
     chain \<leftarrow> decode_member dec_string (nr_chain x) ''chain'' (snd v);
     handle \<leftarrow> decode_member dec_int (nr_handle x) ''handle'' (snd v);
     comment \<leftarrow> decode_member dec_string (nr_comment x) ''comment'' (snd v);
     expr \<leftarrow> decode_member dec_expr (nr_expr x) ''expr'' (snd v);
     Some \<lparr>nr_family = family, nr_table = table, nr_chain = chain, nr_handle = handle, nr_comment = comment, nr_expr = expr\<rparr> }"

definition dec_nftObject :: "string \<times> json \<Rightarrow> nftObject \<Rightarrow> nftObject option" where
  "dec_nftObject v x = do {
     table \<leftarrow> decode_member (dec_ptr dec_nftTable \<lparr>nt_family = [], nt_name = []\<rparr>) (nj_table x) ''table'' (snd v);
     chain \<leftarrow> decode_member (dec_ptr dec_nftChain \<lparr>nc_family = [], nc_table = [], nc_name = [], nc_policy = []\<rparr>)
       (nj_chain x) ''chain'' (snd v);
     rule \<leftarrow> decode_member (dec_ptr dec_nftRule \<lparr>nr_family = [], nr_table = [], nr_chain = [], nr_handle = 0, nr_comment = [],
       nr_expr = ([], [])\<rparr>) (nj_rule x) ''rule'' (snd v);
     Some \<lparr>nj_table = table, nj_chain = chain, nj_rule = rule\<rparr> }"

definition renderNftRule :: "nftRule \<Rightarrow> string" where
  "renderNftRule r =
     nr_family r @ '' '' @ nr_table r @ '' '' @ nr_chain r @ '' handle '' @ itoa (nr_handle r) @ '': '' @
     (case json_raw (fst (nr_expr r)) of Some t \<Rightarrow> t | None \<Rightarrow> []) @
     (if nr_comment r \<noteq> [] then '' comment '' @ go_quote (nr_comment r) else [])"

definition nft_item :: "nftObject \<Rightarrow> fw_item option" where
  "nft_item obj =
     (case nj_table obj of
        Some t \<Rightarrow> Some (TableItem (nt_family t) (nt_name t))
      | None \<Rightarrow>
          (case nj_chain obj of
             Some c \<Rightarrow> Some (ChainItem (nc_family c) (nc_table c) (nc_name c) (nc_policy c) None)
           | None \<Rightarrow>
               (case nj_rule obj of
                  Some r \<Rightarrow> (case extractRuleCounter (snd (nr_expr r)) of
                      (pkts, byts) \<Rightarrow> Some (RuleItem (nr_family r) (nr_table r) (nr_chain r) pkts byts (renderNftRule r)))
                | None \<Rightarrow> None)))"

definition nft_decode :: "string \<Rightarrow> nftObject list option" where
  "nft_decode output =
     Option.bind (json_parse output)
       (decode_member (dec_list dec_nftObject \<lparr>nj_table = None, nj_chain = None, nj_rule = None\<rparr>) [] ''nftables'')"

text \<open>The outer \<open>None\<close> is the error of the decoder, the inner one the panic.\<close>

definition parseNftRuleset :: "string \<Rightarrow> fw_filter \<Rightarrow> fwScan option option" where
  "parseNftRuleset output f =
     map_option (\<lambda>objs. fw_steps nft_naming f (List.map_filter nft_item objs) fw_empty) (nft_decode output)"

section \<open>The tool\<close>

text \<open>
  The commands: which binaries are found, the user, and what a command prints, with the text of its error if it fails. \<open>fe_argError\<close> and
  \<open>fe_nftError\<close> are the texts of the errors of \<open>Unmarshal\<close>.
\<close>

record fwEnv =
  fe_ctxErr :: "string option"
  fe_lookPath :: "string \<Rightarrow> bool"
  fe_root :: bool
  fe_exec :: "string list \<Rightarrow> string \<times> string option"
  fe_argError :: "string \<Rightarrow> string"
  fe_nftError :: "string \<Rightarrow> string"
  fe_timestamp :: string
  fe_elapsedMs :: int

definition fw_IsSupported :: "fwEnv \<Rightarrow> bool \<times> string" where
  "fw_IsSupported env =
     (if list_ex (fe_lookPath env) [''nft'', ''iptables-save'', ''iptables''] then (True, [])
      else (False, ''no firewall inspection binaries found (nft, iptables-save, iptables)''))"

definition runPrivileged :: "fwEnv \<Rightarrow> string list \<Rightarrow> string \<times> string option" where
  "runPrivileged env cmd =
     (if \<not> fe_root env \<and> fe_lookPath env ''sudo'' then fe_exec env (''sudo'' # ''-n'' # cmd) else fe_exec env cmd)"

definition isPermissionError :: "string \<Rightarrow> string \<Rightarrow> bool" where
  "isPermissionError output err =
     (let combined = to_lower output @ '' '' @ to_lower err
      in contains combined ''permission denied'' \<or> contains combined ''operation not permitted'' \<or>
         contains combined ''password is required'')"

definition fw_args :: "string \<Rightarrow> fw_filter option" where
  "fw_args raw =
     (if raw = [] then Some ([], [])
      else Option.bind (json_parse raw) (\<lambda>j. do {
             table \<leftarrow> decode_member dec_string [] ''table'' j;
             chain \<leftarrow> decode_member dec_string [] ''chain'' j;
             Some (table, chain) }))"

text \<open>How reading one of the tools ends: a scan, no permission, or an error to go on from.\<close>

datatype fw_read = ReadScan fwScan | Unauthorized | ReadFailure string

definition squote_text :: "string \<Rightarrow> string" where
  "squote_text t = CHR 0x27 # t @ [CHR 0x27]"

definition read_nft :: "fwEnv \<Rightarrow> fw_filter \<Rightarrow> fw_read option" where
  "read_nft env want =
     (case runPrivileged env [''nft'', ''-j'', ''list'', ''ruleset''] of
        (output, None) \<Rightarrow>
          (case parseNftRuleset output want of
             None \<Rightarrow> Some (ReadFailure (''nft JSON output: '' @ fe_nftError env output))
           | Some None \<Rightarrow> None
           | Some (Some s) \<Rightarrow> Some (ReadScan s))
      | (output, Some err) \<Rightarrow>
          Some (if isPermissionError output err then Unauthorized
                else ReadFailure (squote_text ''nft -j list ruleset'' @ '' failed: '' @ err)))"

definition read_ipt :: "fwEnv \<Rightarrow> fw_filter \<Rightarrow> fw_read option" where
  "read_ipt env want =
     (let cmd = (if fe_lookPath env ''iptables-save'' then [''iptables-save'', ''-c''] else [''iptables'', ''-S''])
      in case runPrivileged env cmd of
           (output, None) \<Rightarrow> map_option ReadScan (parseIptablesSave output want)
         | (output, Some err) \<Rightarrow>
             Some (if isPermissionError output err then Unauthorized
                   else ReadFailure (squote_text (join '' '' cmd) @ '' failed: '' @ err)))"

definition chain_text :: "chainSummary \<Rightarrow> string" where
  "chain_text c = json_object ([(''name'', json_string (cs_name c))] @
     (if cs_policy c = [] then [] else [(''policy'', json_string (cs_policy c))]) @
     [(''rule_count'', itoa (cs_ruleCount c)), (''packets'', itoa (uint (cs_packets c))), (''bytes'', itoa (uint (cs_bytes c)))])"

text \<open>A slice that was never appended to is \<open>null\<close>.\<close>

definition slice_text :: "string list \<Rightarrow> string" where
  "slice_text ts = (if ts = [] then ''null'' else json_array ts)"

definition table_text :: "tableSummary \<Rightarrow> string" where
  "table_text t = json_object [(''name'', json_string (tb_name t)), (''family'', json_string (tb_family t)),
     (''chains'', slice_text (map chain_text (tb_chains t)))]"

definition chain_found :: "fw_filter \<Rightarrow> fwScan \<Rightarrow> bool" where
  "chain_found want s =
     list_ex (\<lambda>t. tb_name t = fst want \<and> list_ex (\<lambda>c. cs_name c = snd want) (tb_chains t)) (fw_tables s)"

definition fw_output_text :: "string \<Rightarrow> fw_filter \<Rightarrow> fwScan \<Rightarrow> string" where
  "fw_output_text backend want s =
     (let asked = fst want \<noteq> [] \<and> snd want \<noteq> []
      in json_object ([(''backend'', json_string backend), (''firewall_active'', json_bool (fw_total s > 0)),
           (''total_rules'', itoa (fw_total s)), (''tables'', slice_text (map table_text (fw_tables s)))] @
         (if asked then [(''requested_chain'', json_string (fst want @ ''/'' @ snd want)),
            (''requested_chain_found'', json_bool (chain_found want s))] else []) @
         (if asked \<and> fw_rules s \<noteq> [] then [(''rules'', json_array (map json_string (fw_rules s)))] else []) @
         (if asked \<and> fw_truncated s then [(''rules_truncated'', json_bool True)] else [])))"

definition fw_summary :: "string \<Rightarrow> fw_filter \<Rightarrow> fwScan \<Rightarrow> string" where
  "fw_summary backend want s =
     (let chainCount = (\<Sum>t\<leftarrow>fw_tables s. int (length (tb_chains t)))
      in (if fw_total s = 0 then ''Firewall ('' @ backend @ ''): no rules loaded (inactive)''
          else ''Firewall ('' @ backend @ ''): '' @ itoa (int (length (fw_tables s))) @ '' table(s), '' @ itoa chainCount @
            '' chain(s), '' @ itoa (fw_total s) @ '' rule(s)'') @
         (if fst want \<noteq> [] \<and> snd want \<noteq> []
          then (if chain_found want s
                then ''; rendered '' @ itoa (int (length (fw_rules s))) @ '' rule(s) from '' @ fst want @ ''/'' @ snd want
                else ''; chain '' @ fst want @ ''/'' @ snd want @ '' not found'')
          else []))"

text \<open>\<open>None\<close> is the panic of a parser.\<close>

definition fw_Execute :: "fwEnv \<Rightarrow> string \<Rightarrow> envelope option" where
  "fw_Execute env raw =
     (let fail = (\<lambda>m. Some (reg_NewErrorResult (fe_timestamp env) ''get_firewall_summary'' m));
          unauthorized = ''Unauthorized: root or passwordless sudo privileges required to read the firewall ruleset.'';
          hasIpt = fe_lookPath env ''iptables-save'' \<or> fe_lookPath env ''iptables'';
          answer = (\<lambda>backend want s.
            Some ((NewResult (fe_timestamp env) ''get_firewall_summary'' StatusOK (fw_summary backend want s)
              (Some (fw_output_text backend want s)))\<lparr>ev_executionTimeMs := fe_elapsedMs env\<rparr>));
          second = (\<lambda>want lastErr.
            if hasIpt then
              (case read_ipt env want of
                 None \<Rightarrow> None
               | Some (ReadScan s) \<Rightarrow> answer ''iptables'' want s
               | Some Unauthorized \<Rightarrow> fail unauthorized
               | Some (ReadFailure err) \<Rightarrow> fail (''failed to read firewall state: '' @ err))
            else fail (''failed to read firewall state: '' @ lastErr))
      in case fe_ctxErr env of
           Some err \<Rightarrow> fail (''execution cancelled: '' @ err)
         | None \<Rightarrow>
             (case fw_args raw of
                None \<Rightarrow> fail (''invalid arguments: '' @ fe_argError env raw)
              | Some want \<Rightarrow>
                  if \<not> fe_lookPath env ''nft'' \<and> \<not> hasIpt then
                    fail (''no firewall inspection binaries found in $PATH (nft, iptables-save, iptables)'')
                  else if fe_lookPath env ''nft'' then
                    (case read_nft env want of
                       None \<Rightarrow> None
                     | Some (ReadScan s) \<Rightarrow> answer ''nftables'' want s
                     | Some Unauthorized \<Rightarrow> fail unauthorized
                     | Some (ReadFailure err) \<Rightarrow> second want err)
                  else second want []))"

section \<open>The indices agree with the names\<close>

text \<open>Table \<open>i\<close> has a name, and chain \<open>j\<close> of it is this summary.\<close>

definition table_at :: "fwScan \<Rightarrow> nat \<Rightarrow> string \<Rightarrow> string \<Rightarrow> bool" where
  "table_at s i f t \<longleftrightarrow> i < length (fw_tables s) \<and> tb_family (fw_tables s ! i) = f \<and> tb_name (fw_tables s ! i) = t"

definition chain_at :: "fwScan \<Rightarrow> nat \<Rightarrow> nat \<Rightarrow> string \<Rightarrow> string \<Rightarrow> chainSummary \<Rightarrow> bool" where
  "chain_at s i j f t ch \<longleftrightarrow>
     table_at s i f t \<and> j < length (tb_chains (fw_tables s ! i)) \<and> tb_chains (fw_tables s ! i) ! j = ch"

definition fw_view :: "fwScan \<Rightarrow> string \<times> string \<times> string \<Rightarrow> chainSummary option" where
  "fw_view s k =
     (case k of (f, t, c) \<Rightarrow>
        (case find (\<lambda>tb. tb_family tb = f \<and> tb_name tb = t) (fw_tables s) of
           None \<Rightarrow> None
         | Some tb \<Rightarrow> find (\<lambda>ch. cs_name ch = c) (tb_chains tb)))"

definition names_ok :: "(string \<Rightarrow> bool) \<Rightarrow> (string \<Rightarrow> bool) \<Rightarrow> string \<Rightarrow> string \<Rightarrow> string \<Rightarrow> bool" where
  "names_ok family_ok simple f t c \<longleftrightarrow> family_ok f \<and> simple t \<and> simple c"

text \<open>
  What a way of naming has to promise: different tables and chains have different composed names, at least those whose names are
  simple.
\<close>

locale fw_naming =
  fixes nm :: naming and family_ok :: "string \<Rightarrow> bool" and simple :: "string \<Rightarrow> bool"
  assumes table_key: "family_ok f \<Longrightarrow> simple t \<Longrightarrow> family_ok f' \<Longrightarrow> simple t' \<Longrightarrow> fst nm f t = fst nm f' t' \<longleftrightarrow> f = f' \<and> t = t'"
    and chain_key: "names_ok family_ok simple f t c \<Longrightarrow> names_ok family_ok simple f' t' c' \<Longrightarrow>
      snd nm f t c = snd nm f' t' c' \<longleftrightarrow> f = f' \<and> t = t' \<and> c = c'"

text \<open>The abstract collection: a map from names to summaries, where a rule or a policy makes the chain it names.\<close>

definition new_chain :: "string \<Rightarrow> chainSummary" where
  "new_chain c = \<lparr>cs_name = c, cs_policy = [], cs_ruleCount = 0, cs_packets = 0, cs_bytes = 0\<rparr>"

definition with_policy :: "string \<Rightarrow> chainSummary \<Rightarrow> chainSummary" where
  "with_policy policy ch = (if policy \<noteq> [] then ch\<lparr>cs_policy := policy\<rparr> else ch)"

fun spec_item :: "fw_item \<Rightarrow> (string \<times> string \<times> string \<rightharpoonup> chainSummary) \<Rightarrow> (string \<times> string \<times> string \<rightharpoonup> chainSummary)" where
  "spec_item (TableItem f t) m = m"
| "spec_item (ChainItem f t c policy counters) m =
     (let ch = with_policy policy (case m (f, t, c) of Some ch \<Rightarrow> ch | None \<Rightarrow> new_chain c)
      in m((f, t, c) \<mapsto> (case counters of None \<Rightarrow> ch | Some (p, b) \<Rightarrow> ch\<lparr>cs_packets := p, cs_bytes := b\<rparr>)))"
| "spec_item (RuleItem f t c pkts byts r) m =
     (let ch = (case m (f, t, c) of Some ch \<Rightarrow> ch | None \<Rightarrow> new_chain c)
      in m((f, t, c) \<mapsto> ch\<lparr>cs_ruleCount := cs_ruleCount ch + 1, cs_packets := cs_packets ch + pkts, cs_bytes := cs_bytes ch + byts\<rparr>))"

fun item_ok :: "(string \<Rightarrow> bool) \<Rightarrow> (string \<Rightarrow> bool) \<Rightarrow> fw_item \<Rightarrow> bool" where
  "item_ok family_ok simple (TableItem f t) \<longleftrightarrow> family_ok f \<and> simple t"
| "item_ok family_ok simple (ChainItem f t c policy counters) \<longleftrightarrow> names_ok family_ok simple f t c"
| "item_ok family_ok simple (RuleItem f t c pkts byts r) \<longleftrightarrow> names_ok family_ok simple f t c"

lemma find_unique:
  assumes "i < length xs" "P (xs ! i)" "\<And>j. j < length xs \<Longrightarrow> P (xs ! j) \<Longrightarrow> j = i"
  shows "find P xs = Some (xs ! i)"
proof -
  have "\<not> P (xs ! j)" if "j < i" for j
    using assms(1) assms(3) [of j] that by auto
  with assms(1,2) show ?thesis
    unfolding find_Some_iff by blast
qed

text \<open>The texts of the rules asked for: the first hundred are kept, and that there are more is noted.\<close>

definition is_rule :: "fw_item \<Rightarrow> bool" where
  "is_rule item \<longleftrightarrow> (case item of RuleItem _ _ _ _ _ _ \<Rightarrow> True | _ \<Rightarrow> False)"

definition item_texts :: "fw_filter \<Rightarrow> fw_item \<Rightarrow> string list" where
  "item_texts want item = (case item of RuleItem f t c p b r \<Rightarrow> if filter_matches want t c then [r] else [] | _ \<Rightarrow> [])"

definition collected :: "string list \<Rightarrow> fwScan \<Rightarrow> bool" where
  "collected texts s \<longleftrightarrow> fw_rules s = take maxRenderedRules texts \<and> (fw_truncated s \<longleftrightarrow> maxRenderedRules < length texts)"

lemma add_rule_text_collected: "collected texts s \<Longrightarrow> collected (texts @ [r]) (add_rule_text r s)"
  by (auto simp: collected_def add_rule_text_def)

lemma collected_total: "collected texts (s\<lparr>fw_total := n\<rparr>) = collected texts s"
  by (simp add: collected_def)

lemma add_rule_text_total: "fw_total (add_rule_text r s) = fw_total s"
  by (simp add: add_rule_text_def)

lemma item_parts [simp]:
  "\<not> is_rule (TableItem f t)" "\<not> is_rule (ChainItem f t c policy counters)" "is_rule (RuleItem f t c p b r)"
  "item_texts want (TableItem f t) = []" "item_texts want (ChainItem f t c policy counters) = []"
  "item_texts want (RuleItem f t c p b r) = (if filter_matches want t c then [r] else [])"
  by (simp_all add: is_rule_def item_texts_def)

context fw_naming
begin

definition sound :: "fwScan \<Rightarrow> bool" where
  "sound s \<longleftrightarrow>
     (\<forall>i f t. table_at s i f t \<longrightarrow> family_ok f \<and> simple t) \<and>
     (\<forall>i j f t ch. chain_at s i j f t ch \<longrightarrow> simple (cs_name ch)) \<and>
     (\<forall>f t i. family_ok f \<longrightarrow> simple t \<longrightarrow> (fw_tableIdx s (fst nm f t) = Some i \<longleftrightarrow> table_at s i f t)) \<and>
     (\<forall>f t c j. names_ok family_ok simple f t c \<longrightarrow>
        (fw_chainIdx s (snd nm f t c) = Some j \<longleftrightarrow> (\<exists>i ch. chain_at s i j f t ch \<and> cs_name ch = c)))"

lemma soundD:
  assumes "sound s"
  shows "table_at s i f t \<Longrightarrow> family_ok f \<and> simple t"
    and "chain_at s i j f t ch \<Longrightarrow> names_ok family_ok simple f t (cs_name ch)"
    and "family_ok f \<Longrightarrow> simple t \<Longrightarrow> fw_tableIdx s (fst nm f t) = Some i \<longleftrightarrow> table_at s i f t"
    and "names_ok family_ok simple f t c \<Longrightarrow>
      fw_chainIdx s (snd nm f t c) = Some j \<longleftrightarrow> (\<exists>i ch. chain_at s i j f t ch \<and> cs_name ch = c)"
proof -
  note s = assms [unfolded sound_def]
  show "table_at s i f t \<Longrightarrow> family_ok f \<and> simple t"
    using s by blast
  then have "chain_at s i j f t ch \<Longrightarrow> family_ok f \<and> simple t"
    by (simp add: chain_at_def)
  then show "chain_at s i j f t ch \<Longrightarrow> names_ok family_ok simple f t (cs_name ch)"
    using s by (simp add: names_ok_def)
  show "family_ok f \<Longrightarrow> simple t \<Longrightarrow> fw_tableIdx s (fst nm f t) = Some i \<longleftrightarrow> table_at s i f t"
    using s by simp
  show "names_ok family_ok simple f t c \<Longrightarrow>
      fw_chainIdx s (snd nm f t c) = Some j \<longleftrightarrow> (\<exists>i ch. chain_at s i j f t ch \<and> cs_name ch = c)"
    using s by simp
qed

lemma table_unique:
  assumes "sound s" "table_at s i f t" "table_at s j f t"
  shows "i = j"
proof -
  have "family_ok f" "simple t"
    using soundD(1) [OF assms(1,2)] by auto
  then have "fw_tableIdx s (fst nm f t) = Some i" "fw_tableIdx s (fst nm f t) = Some j"
    using assms by (simp_all add: soundD(3))
  then show ?thesis by simp
qed

lemma chain_unique:
  assumes "sound s" "chain_at s i j f t ch" "chain_at s i' j' f t ch'" "cs_name ch' = cs_name ch"
  shows "i' = i \<and> j' = j \<and> ch' = ch"
proof -
  have t: "table_at s i f t" "table_at s i' f t"
    using assms(2,3) by (auto simp: chain_at_def)
  then have i: "i' = i" using table_unique [OF assms(1)] by blast
  have n: "names_ok family_ok simple f t (cs_name ch)"
    using assms(1,2) by (rule soundD(2))
  have "fw_chainIdx s (snd nm f t (cs_name ch)) = Some j" "fw_chainIdx s (snd nm f t (cs_name ch)) = Some j'"
    unfolding soundD(4) [OF assms(1) n] using assms(2-4) by blast+
  then have "j' = j" by simp
  with i assms(2,3) show ?thesis by (simp add: chain_at_def)
qed

lemma view_iff:
  assumes "sound s"
  shows "fw_view s (f, t, c) = Some ch \<longleftrightarrow> (\<exists>i j. chain_at s i j f t ch \<and> cs_name ch = c)"
proof
  assume "\<exists>i j. chain_at s i j f t ch \<and> cs_name ch = c"
  then obtain i j where at: "chain_at s i j f t ch" "cs_name ch = c" by blast
  then have i: "i < length (fw_tables s)" "tb_family (fw_tables s ! i) = f" "tb_name (fw_tables s ! i) = t"
    and j: "j < length (tb_chains (fw_tables s ! i))" "tb_chains (fw_tables s ! i) ! j = ch"
    by (simp_all add: chain_at_def table_at_def)
  have "find (\<lambda>tb. tb_family tb = f \<and> tb_name tb = t) (fw_tables s) = Some (fw_tables s ! i)"
  proof (rule find_unique)
    fix i'
    assume "i' < length (fw_tables s)" "tb_family (fw_tables s ! i') = f \<and> tb_name (fw_tables s ! i') = t"
    then show "i' = i"
      using table_unique [OF assms, of i' f t i] i by (simp add: table_at_def)
  qed (use i in simp_all)
  moreover have "find (\<lambda>ch. cs_name ch = c) (tb_chains (fw_tables s ! i)) = Some (tb_chains (fw_tables s ! i) ! j)"
  proof (rule find_unique)
    fix j'
    assume "j' < length (tb_chains (fw_tables s ! i))" "cs_name (tb_chains (fw_tables s ! i) ! j') = c"
    then show "j' = j"
      using chain_unique [OF assms at(1), of i j'] i at(2) by (simp add: chain_at_def table_at_def)
  qed (use j at(2) in simp_all)
  ultimately show "fw_view s (f, t, c) = Some ch"
    by (simp add: fw_view_def j(2))
next
  assume "fw_view s (f, t, c) = Some ch"
  then show "\<exists>i j. chain_at s i j f t ch \<and> cs_name ch = c"
    by (auto simp: fw_view_def find_Some_iff chain_at_def table_at_def split: option.splits)
qed

lemma view_eqI:
  assumes "sound s" "\<And>f t c ch. (\<exists>i j. chain_at s i j f t ch \<and> cs_name ch = c) \<longleftrightarrow> m (f, t, c) = Some ch"
  shows "fw_view s = m"
proof
  fix k :: "string \<times> string \<times> string"
  obtain f t c where k: "k = (f, t, c)" by (cases k)
  have "fw_view s (f, t, c) = Some ch \<longleftrightarrow> m (f, t, c) = Some ch" for ch
    using view_iff [OF assms(1)] assms(2) by simp
  then show "fw_view s k = m k"
    unfolding k by (metis option.exhaust)
qed

lemma sound_empty: "sound fw_empty" "fw_view fw_empty = (\<lambda>_. None)"
  by (auto simp: sound_def fw_empty_def table_at_def chain_at_def fw_view_def)

definition set_chains :: "nat \<Rightarrow> chainSummary list \<Rightarrow> fwScan \<Rightarrow> fwScan" where
  "set_chains i cs s = s\<lparr>fw_tables := (fw_tables s)[i := (fw_tables s ! i)\<lparr>tb_chains := cs\<rparr>]\<rparr>"

lemma set_chains_at:
  "table_at (set_chains i cs s) i' f t \<longleftrightarrow> table_at s i' f t"
  "chain_at (set_chains i cs s) i' j f t ch \<longleftrightarrow>
     (if i' = i then table_at s i f t \<and> j < length cs \<and> cs ! j = ch else chain_at s i' j f t ch)"
  by (cases "i' = i"; auto simp: set_chains_def table_at_def chain_at_def)+

lemma set_chains_other [simp]:
  "fw_tableIdx (set_chains i cs s) = fw_tableIdx s" "fw_chainIdx (set_chains i cs s) = fw_chainIdx s"
  "fw_total (set_chains i cs s) = fw_total s" "fw_rules (set_chains i cs s) = fw_rules s"
  "fw_truncated (set_chains i cs s) = fw_truncated s"
  by (simp_all add: set_chains_def)

lemma ensureTable_sound:
  assumes "sound s" "family_ok f" "simple t" "ensureTable nm f t s = (i, s1)"
  shows "sound s1 \<and> table_at s1 i f t \<and> fw_view s1 = fw_view s \<and> fw_total s1 = fw_total s \<and> fw_rules s1 = fw_rules s \<and>
    fw_truncated s1 = fw_truncated s"
proof (cases "fw_tableIdx s (fst nm f t)")
  case (Some i')
  with assms show ?thesis
    by (auto simp: ensureTable_def soundD(3))
next
  case None
  let ?n = "length (fw_tables s)"
  have i: "i = ?n" and s1: "s1 = s\<lparr>fw_tables := fw_tables s @ [\<lparr>tb_name = t, tb_family = f, tb_chains = []\<rparr>],
      fw_tableIdx := (fw_tableIdx s)(fst nm f t \<mapsto> ?n)\<rparr>"
    using assms(4) None by (auto simp: ensureTable_def)
  have tab: "table_at s1 i' f' t' \<longleftrightarrow> table_at s i' f' t' \<or> i' = ?n \<and> f' = f \<and> t' = t" for i' f' t'
    by (auto simp: s1 table_at_def nth_append less_Suc_eq)
  have ch: "chain_at s1 i' j f' t' c \<longleftrightarrow> chain_at s i' j f' t' c" for i' j f' t' c
    by (auto simp: s1 chain_at_def table_at_def nth_append less_Suc_eq)
  have none: "\<not> table_at s i' f t" for i'
    using None soundD(3) [OF assms(1-3)] by simp
  have idx: "fw_tableIdx s1 (fst nm f' t') = Some i' \<longleftrightarrow> table_at s1 i' f' t'" if "family_ok f'" "simple t'" for i' f' t'
  proof (cases "f' = f \<and> t' = t")
    case True
    then show ?thesis using none by (auto simp: s1 tab [unfolded s1])
  next
    case False
    with table_key [OF that assms(2,3)] soundD(3) [OF assms(1) that, of i'] tab show ?thesis
      by (auto simp: s1)
  qed
  have cidx: "fw_chainIdx s1 = fw_chainIdx s" by (simp add: s1)
  have "sound s1"
    unfolding sound_def cidx tab ch
  proof (intro conjI allI impI)
    fix i' f' t'
    assume "table_at s i' f' t' \<or> i' = ?n \<and> f' = f \<and> t' = t"
    then show "family_ok f'" "simple t'" using soundD(1) [OF assms(1)] assms(2,3) by auto
  next
    fix i' j f' t' c
    assume "chain_at s i' j f' t' c"
    then show "simple (cs_name c)" using soundD(2) [OF assms(1)] by (simp add: names_ok_def)
  next
    fix f' t' i'
    assume "family_ok f'" "simple t'"
    then show "fw_tableIdx s1 (fst nm f' t') = Some i' \<longleftrightarrow> table_at s i' f' t' \<or> i' = ?n \<and> f' = f \<and> t' = t"
      using idx tab by simp
  next
    fix f' t' c j
    assume "names_ok family_ok simple f' t' c"
    then show "fw_chainIdx s (snd nm f' t' c) = Some j \<longleftrightarrow> (\<exists>i ch. chain_at s i j f' t' ch \<and> cs_name ch = c)"
      by (rule soundD(4) [OF assms(1)])
  qed
  moreover from this have "fw_view s1 = fw_view s"
    by (rule view_eqI) (simp add: ch view_iff [OF assms(1)])
  moreover have "table_at s1 i f t" using tab i by blast
  ultimately show ?thesis by (simp add: s1)
qed

lemma update_sound:
  assumes "sound s" "chain_at s i j f t ch" "cs_name (g ch) = cs_name ch"
  shows "\<exists>s1. update_chain i j g s = Some s1 \<and> sound s1 \<and> chain_at s1 i j f t (g ch) \<and>
    fw_view s1 = (fw_view s)((f, t, cs_name ch) \<mapsto> g ch) \<and>
    fw_total s1 = fw_total s \<and> fw_rules s1 = fw_rules s \<and> fw_truncated s1 = fw_truncated s"
proof -
  let ?cs = "(tb_chains (fw_tables s ! i))[j := g ch]"
  have at: "table_at s i f t" "j < length (tb_chains (fw_tables s ! i))" "tb_chains (fw_tables s ! i) ! j = ch"
    using assms(2) by (simp_all add: chain_at_def)
  have upd: "update_chain i j g s = Some (set_chains i ?cs s)"
    using at by (simp add: update_chain_def set_chains_def table_at_def)
  have ch: "chain_at (set_chains i ?cs s) i' j' f' t' c \<longleftrightarrow>
      (if i' = i \<and> j' = j then table_at s i f' t' \<and> c = g ch else chain_at s i' j' f' t' c)" for i' j' f' t' c
    unfolding set_chains_at(2) using at by (auto simp: chain_at_def nth_list_update)
  have names: "(\<exists>i' c. chain_at (set_chains i ?cs s) i' j' f' t' c \<and> cs_name c = n) \<longleftrightarrow> (\<exists>i' c. chain_at s i' j' f' t' c \<and> cs_name c = n)"
    for j' f' t' n
  proof
    assume "\<exists>i' c. chain_at (set_chains i ?cs s) i' j' f' t' c \<and> cs_name c = n"
    then obtain i' c where c: "chain_at (set_chains i ?cs s) i' j' f' t' c" "cs_name c = n" by blast
    show "\<exists>i' c. chain_at s i' j' f' t' c \<and> cs_name c = n"
    proof (cases "i' = i \<and> j' = j")
      case True
      with c(1) have "table_at s i f' t'" "c = g ch" unfolding ch by simp_all
      with True c(2) at assms(3) have "chain_at s i j' f' t' ch \<and> cs_name ch = n" by (simp add: chain_at_def)
      then show ?thesis by blast
    next
      case False
      with c have "chain_at s i' j' f' t' c" unfolding ch by presburger
      with c(2) show ?thesis by blast
    qed
  next
    assume "\<exists>i' c. chain_at s i' j' f' t' c \<and> cs_name c = n"
    then obtain i' c where c: "chain_at s i' j' f' t' c" "cs_name c = n" by blast
    show "\<exists>i' c. chain_at (set_chains i ?cs s) i' j' f' t' c \<and> cs_name c = n"
    proof (cases "i' = i \<and> j' = j")
      case True
      with c at assms(3) have "chain_at (set_chains i ?cs s) i j' f' t' (g ch) \<and> cs_name (g ch) = n"
        unfolding ch by (simp add: chain_at_def)
      then show ?thesis by blast
    next
      case False
      with c have "chain_at (set_chains i ?cs s) i' j' f' t' c" unfolding ch by presburger
      with c(2) show ?thesis by blast
    qed
  qed
  have sound: "sound (set_chains i ?cs s)"
    unfolding sound_def set_chains_at(1) set_chains_other names
  proof (intro conjI allI impI)
    fix i' j' f' t' c
    assume "chain_at (set_chains i ?cs s) i' j' f' t' c"
    then show "simple (cs_name c)"
      using soundD(2) [OF assms(1)] assms(2,3) by (auto simp: ch names_ok_def split: if_splits)
  qed (use soundD [OF assms(1)] in blast)+
  moreover have "fw_view (set_chains i ?cs s) = (fw_view s)((f, t, cs_name ch) \<mapsto> g ch)"
  proof (rule view_eqI [OF sound])
    fix f' t' c d
    show "(\<exists>i' j'. chain_at (set_chains i ?cs s) i' j' f' t' d \<and> cs_name d = c) \<longleftrightarrow>
        ((fw_view s)((f, t, cs_name ch) \<mapsto> g ch)) (f', t', c) = Some d"
    proof (cases "(f', t', c) = (f, t, cs_name ch)")
      case True
      have "chain_at (set_chains i ?cs s) i j f t (g ch)"
        unfolding ch using at(1) by simp
      moreover have "d = g ch" if "chain_at (set_chains i ?cs s) i' j' f t d" "cs_name d = cs_name ch" for i' j'
      proof (cases "i' = i \<and> j' = j")
        case True
        with that(1) show ?thesis unfolding ch by simp
      next
        case False
        with that(1) have "chain_at s i' j' f t d" unfolding ch by presburger
        with False chain_unique [OF assms(1,2) _ that(2)] show ?thesis by blast
      qed
      ultimately show ?thesis
        using True assms(3) by auto
    next
      case False
      have other: "table_at s i f' t' \<Longrightarrow> f' = f \<and> t' = t"
        using at(1) by (auto simp: table_at_def)
      have "chain_at (set_chains i ?cs s) i' j' f' t' d \<longleftrightarrow> chain_at s i' j' f' t' d" if "cs_name d = c" for i' j'
      proof (cases "i' = i \<and> j' = j")
        case True
        have "\<not> (table_at s i f' t' \<and> d = g ch)" "\<not> (table_at s i f' t' \<and> d = ch)"
          using False other assms(3) that by auto
        with True at show ?thesis
          unfolding ch by (auto simp: chain_at_def [of s])
      qed (unfold ch, presburger)
      then have "(\<exists>i' j'. chain_at (set_chains i ?cs s) i' j' f' t' d \<and> cs_name d = c) \<longleftrightarrow>
          (\<exists>i' j'. chain_at s i' j' f' t' d \<and> cs_name d = c)"
        by blast
      moreover have "((fw_view s)((f, t, cs_name ch) \<mapsto> g ch)) (f', t', c) = fw_view s (f', t', c)"
        using False by auto
      ultimately show ?thesis by (simp only: view_iff [OF assms(1)])
    qed
  qed
  ultimately show ?thesis
    using upd at by (simp add: ch)
qed

lemma sound_cong:
  assumes "fw_tables s' = fw_tables s" "fw_tableIdx s' = fw_tableIdx s" "fw_chainIdx s' = fw_chainIdx s"
  shows "sound s' = sound s" "fw_view s' = fw_view s"
  using assms by (auto simp: sound_def table_at_def chain_at_def fw_view_def)

lemma sound_total: "sound (s\<lparr>fw_total := n\<rparr>) = sound s" "fw_view (s\<lparr>fw_total := n\<rparr>) = fw_view s"
  by (rule sound_cong; simp)+

lemma sound_texts: "sound (add_rule_text r s) = sound s" "fw_view (add_rule_text r s) = fw_view s"
  by (rule sound_cong; simp add: add_rule_text_def)+

text \<open>The chain an item names is there after \<open>ensureChain\<close>, with the policy if one is given.\<close>

lemma append_chain_sound:
  assumes "sound s" "names_ok family_ok simple f t c" "table_at s i f t" "fw_chainIdx s (snd nm f t c) = None" "cs_name ch = c"
  defines "s1 \<equiv> (set_chains i (tb_chains (fw_tables s ! i) @ [ch]) s)\<lparr>fw_chainIdx :=
      (fw_chainIdx s)(snd nm f t c \<mapsto> length (tb_chains (fw_tables s ! i)))\<rparr>"
  shows "sound s1 \<and> chain_at s1 i (length (tb_chains (fw_tables s ! i))) f t ch \<and> fw_view s1 = (fw_view s)((f, t, c) \<mapsto> ch)"
proof -
  let ?n = "length (tb_chains (fw_tables s ! i))"
  have tab: "table_at s1 i' f' t' \<longleftrightarrow> table_at s i' f' t'" for i' f' t'
    using set_chains_at(1) [of i _ s i' f' t'] by (simp add: s1_def table_at_def)
  have same: "table_at s i f' t' \<longleftrightarrow> f' = f \<and> t' = t" for f' t'
    using assms(3) by (auto simp: table_at_def)
  have at: "chain_at s1 i' j f' t' d \<longleftrightarrow> chain_at s i' j f' t' d \<or> i' = i \<and> j = ?n \<and> f' = f \<and> t' = t \<and> d = ch" for i' j f' t' d
  proof -
    have "chain_at s1 i' j f' t' d \<longleftrightarrow> chain_at (set_chains i (tb_chains (fw_tables s ! i) @ [ch]) s) i' j f' t' d"
      by (simp add: s1_def chain_at_def table_at_def)
    then show ?thesis
      unfolding set_chains_at(2) by (auto simp: chain_at_def same nth_append less_Suc_eq)
  qed
  have none: "\<not> (chain_at s i' j f t d \<and> cs_name d = c)" for i' j d
    using soundD(4) [OF assms(1,2)] assms(4) by auto
  have idx: "fw_tableIdx s1 = fw_tableIdx s" by (simp add: s1_def)
  have sound: "sound s1"
    unfolding sound_def tab idx
  proof (intro conjI allI impI)
    fix i' j f' t' d
    assume "chain_at s1 i' j f' t' d"
    then show "simple (cs_name d)"
      using soundD(2) [OF assms(1)] assms(2,5) by (auto simp: at names_ok_def)
  next
    fix f' t' c' j
    assume ok: "names_ok family_ok simple f' t' c'"
    show "fw_chainIdx s1 (snd nm f' t' c') = Some j \<longleftrightarrow> (\<exists>i ch. chain_at s1 i j f' t' ch \<and> cs_name ch = c')"
    proof (cases "f' = f \<and> t' = t \<and> c' = c")
      case True
      then have "fw_chainIdx s1 (snd nm f' t' c') = Some j \<longleftrightarrow> j = ?n"
        by (auto simp: s1_def)
      with True none assms(5) show ?thesis by (auto simp: at)
    next
      case False
      then have "snd nm f' t' c' \<noteq> snd nm f t c"
        using chain_key [OF ok assms(2)] by simp
      then have "fw_chainIdx s1 (snd nm f' t' c') = fw_chainIdx s (snd nm f' t' c')"
        by (simp add: s1_def)
      with False soundD(4) [OF assms(1) ok] assms(5) show ?thesis by (auto simp: at)
    qed
  qed (use soundD [OF assms(1)] in blast)+
  moreover have "fw_view s1 = (fw_view s)((f, t, c) \<mapsto> ch)"
  proof (rule view_eqI [OF sound])
    fix f' t' c' d
    show "(\<exists>i' j. chain_at s1 i' j f' t' d \<and> cs_name d = c') \<longleftrightarrow> ((fw_view s)((f, t, c) \<mapsto> ch)) (f', t', c') = Some d"
    proof (cases "(f', t', c') = (f, t, c)")
      case True
      with none assms(5) show ?thesis by (auto simp: at)
    next
      case False
      then have "(\<exists>i' j. chain_at s1 i' j f' t' d \<and> cs_name d = c') \<longleftrightarrow> (\<exists>i' j. chain_at s i' j f' t' d \<and> cs_name d = c')"
        using assms(5) by (auto simp: at)
      moreover have "((fw_view s)((f, t, c) \<mapsto> ch)) (f', t', c') = fw_view s (f', t', c')"
        using False by auto
      ultimately show ?thesis by (simp only: view_iff [OF assms(1)])
    qed
  qed
  ultimately show ?thesis by (simp add: at)
qed

definition ensured :: "string \<Rightarrow> string \<Rightarrow> chainSummary option \<Rightarrow> chainSummary" where
  "ensured c policy old = with_policy policy (case old of Some ch \<Rightarrow> ch | None \<Rightarrow> new_chain c)"

lemma ensured_name: "(\<And>ch. old = Some ch \<Longrightarrow> cs_name ch = c) \<Longrightarrow> cs_name (ensured c policy old) = c"
  by (auto simp: ensured_def with_policy_def new_chain_def split: option.split)

lemma ensureChain_sound:
  assumes "sound s" "names_ok family_ok simple f t c"
  shows "\<exists>i j s1. ensureChain nm f t c policy s = Some (i, j, s1) \<and> sound s1 \<and>
    chain_at s1 i j f t (ensured c policy (fw_view s (f, t, c))) \<and>
    fw_view s1 = (fw_view s)((f, t, c) \<mapsto> ensured c policy (fw_view s (f, t, c))) \<and>
    fw_total s1 = fw_total s \<and> fw_rules s1 = fw_rules s \<and> fw_truncated s1 = fw_truncated s"
proof -
  obtain i s0 where e: "ensureTable nm f t s = (i, s0)" by (cases "ensureTable nm f t s")
  have "family_ok f" "simple t" using assms(2) by (simp_all add: names_ok_def)
  from ensureTable_sound [OF assms(1) this e]
  have s0: "sound s0" "table_at s0 i f t" "fw_view s0 = fw_view s" "fw_total s0 = fw_total s" "fw_rules s0 = fw_rules s"
    "fw_truncated s0 = fw_truncated s"
    by auto
  show ?thesis
  proof (cases "fw_chainIdx s0 (snd nm f t c)")
    case None
    let ?ch = "\<lparr>cs_name = c, cs_policy = policy, cs_ruleCount = 0, cs_packets = 0, cs_bytes = 0\<rparr>"
    have new: "ensured c policy (fw_view s (f, t, c)) = ?ch"
    proof -
      have "fw_view s0 (f, t, c) = None"
        using view_iff [OF s0(1)] soundD(4) [OF s0(1) assms(2)] None by (metis option.exhaust option.distinct(1))
      then show ?thesis by (simp add: ensured_def s0(3) with_policy_def new_chain_def)
    qed
    from append_chain_sound [OF s0(1) assms(2) s0(2) None, of ?ch] s0(3-6) None show ?thesis
      by (simp add: ensureChain_def e Let_def set_chains_def new)
  next
    case (Some j)
    then obtain i' ch where at: "chain_at s0 i' j f t ch" "cs_name ch = c"
      using soundD(4) [OF s0(1) assms(2)] by auto
    then have "i' = i" using table_unique [OF s0(1) _ s0(2)] by (auto simp: chain_at_def)
    with at have ch: "chain_at s0 i j f t ch" by simp
    have old: "fw_view s (f, t, c) = Some ch"
      using ch at(2) view_iff [OF s0(1)] s0(3) by metis
    show ?thesis
    proof (cases "policy = []")
      case True
      moreover have "fw_view s0 = (fw_view s0)((f, t, c) \<mapsto> ch)"
        using old s0(3) by auto
      ultimately show ?thesis
        using e Some ch s0 old by (simp add: ensureChain_def ensured_def with_policy_def)
    next
      case False
      from update_sound [OF s0(1) ch, of "\<lambda>c. c\<lparr>cs_policy := policy\<rparr>"] obtain s1 where
        "update_chain i j (\<lambda>c. c\<lparr>cs_policy := policy\<rparr>) s0 = Some s1" "sound s1" "chain_at s1 i j f t (ch\<lparr>cs_policy := policy\<rparr>)"
        "fw_view s1 = (fw_view s0)((f, t, cs_name ch) \<mapsto> ch\<lparr>cs_policy := policy\<rparr>)" "fw_total s1 = fw_total s0"
        "fw_rules s1 = fw_rules s0" "fw_truncated s1 = fw_truncated s0"
        by auto
      with False e Some s0 old at(2) show ?thesis
        by (simp add: ensureChain_def ensured_def with_policy_def)
    qed
  qed
qed

lemma fw_step_sound:
  assumes "sound s" "item_ok family_ok simple item" "collected texts s"
  shows "\<exists>s1. fw_step nm want item s = Some s1 \<and> sound s1 \<and> fw_view s1 = spec_item item (fw_view s) \<and>
    fw_total s1 = fw_total s + (if is_rule item then 1 else 0) \<and> collected (texts @ item_texts want item) s1"
proof (cases item)
  case (TableItem f t)
  obtain i s1 where e: "ensureTable nm f t s = (i, s1)" by (cases "ensureTable nm f t s")
  with ensureTable_sound [OF assms(1) _ _ e] assms(2,3) TableItem show ?thesis
    by (simp add: collected_def)
next
  case (ChainItem f t c policy counters)
  with assms(2) have ok: "names_ok family_ok simple f t c" by simp
  from ensureChain_sound [OF assms(1) ok, of policy] obtain i j s0 where
    e: "ensureChain nm f t c policy s = Some (i, j, s0)" "sound s0"
      "chain_at s0 i j f t (ensured c policy (fw_view s (f, t, c)))"
      "fw_view s0 = (fw_view s)((f, t, c) \<mapsto> ensured c policy (fw_view s (f, t, c)))"
      "fw_total s0 = fw_total s" "fw_rules s0 = fw_rules s" "fw_truncated s0 = fw_truncated s"
    by blast
  let ?ch = "ensured c policy (fw_view s (f, t, c))"
  have name: "cs_name ?ch = c"
    by (rule ensured_name) (use view_iff [OF assms(1)] in blast)
  show ?thesis
  proof (cases counters)
    case None
    with e ChainItem assms(3) show ?thesis
      by (simp add: collected_def ensured_def Let_def)
  next
    case (Some pb)
    obtain p b where pb: "pb = (p, b)" by (cases pb)
    from update_sound [OF e(2,3), of "\<lambda>c. c\<lparr>cs_packets := p, cs_bytes := b\<rparr>"] obtain s1 where
      "update_chain i j (\<lambda>c. c\<lparr>cs_packets := p, cs_bytes := b\<rparr>) s0 = Some s1" "sound s1"
      "fw_view s1 = (fw_view s0)((f, t, cs_name ?ch) \<mapsto> ?ch\<lparr>cs_packets := p, cs_bytes := b\<rparr>)"
      "fw_total s1 = fw_total s0" "fw_rules s1 = fw_rules s0" "fw_truncated s1 = fw_truncated s0"
      by auto
    with e ChainItem Some pb assms(3) name show ?thesis
      by (simp add: collected_def ensured_def Let_def)
  qed
next
  case (RuleItem f t c p b r)
  with assms(2) have ok: "names_ok family_ok simple f t c" by simp
  from ensureChain_sound [OF assms(1) ok, of "[]"] obtain i j s0 where
    e: "ensureChain nm f t c [] s = Some (i, j, s0)" "sound s0"
      "chain_at s0 i j f t (ensured c [] (fw_view s (f, t, c)))"
      "fw_view s0 = (fw_view s)((f, t, c) \<mapsto> ensured c [] (fw_view s (f, t, c)))"
      "fw_total s0 = fw_total s" "fw_rules s0 = fw_rules s" "fw_truncated s0 = fw_truncated s"
    by blast
  let ?ch = "ensured c [] (fw_view s (f, t, c))"
  let ?g = "\<lambda>c. c\<lparr>cs_ruleCount := cs_ruleCount c + 1, cs_packets := cs_packets c + p, cs_bytes := cs_bytes c + b\<rparr>"
  have name: "cs_name ?ch = c"
    by (rule ensured_name) (use view_iff [OF assms(1)] in blast)
  from update_sound [OF e(2,3), of ?g] obtain s1 where
    s1: "update_chain i j ?g s0 = Some s1" "sound s1" "fw_view s1 = (fw_view s0)((f, t, cs_name ?ch) \<mapsto> ?g ?ch)"
      "fw_total s1 = fw_total s0" "fw_rules s1 = fw_rules s0" "fw_truncated s1 = fw_truncated s0"
    by auto
  have "collected texts s1"
    using assms(3) e s1 by (simp add: collected_def)
  with e s1 RuleItem name show ?thesis
    by (auto simp: Let_def ensured_def with_policy_def sound_total sound_texts add_rule_text_total collected_total
        add_rule_text_collected)
qed

lemma fw_steps_sound:
  assumes "sound s" "\<forall>item \<in> set items. item_ok family_ok simple item" "collected texts s"
  shows "\<exists>s1. fw_steps nm want items s = Some s1 \<and> sound s1 \<and> fw_view s1 = fold spec_item items (fw_view s) \<and>
    fw_total s1 = fw_total s + int (length (filter is_rule items)) \<and>
    collected (texts @ concat (map (item_texts want) items)) s1"
  using assms
proof (induction items arbitrary: s texts)
  case Nil
  then show ?case by simp
next
  case (Cons item items)
  from fw_step_sound [OF Cons.prems(1) _ Cons.prems(3), of item want] Cons.prems(2) obtain s0 where
    s0: "fw_step nm want item s = Some s0" "sound s0" "fw_view s0 = spec_item item (fw_view s)"
      "fw_total s0 = fw_total s + (if is_rule item then 1 else 0)" "collected (texts @ item_texts want item) s0"
    by auto
  from Cons.IH [OF s0(2) _ s0(5)] Cons.prems(2) s0 show ?case by auto
qed

text \<open>A parser that starts empty: no panic, and the result is that of the abstract collection.\<close>

lemma fw_steps_exact:
  assumes "\<forall>item \<in> set items. item_ok family_ok simple item"
  shows "\<exists>s. fw_steps nm want items fw_empty = Some s \<and> fw_view s = fold spec_item items (\<lambda>_. None) \<and>
    fw_total s = int (length (filter is_rule items)) \<and>
    fw_rules s = take 100 (concat (map (item_texts want) items)) \<and>
    (fw_truncated s \<longleftrightarrow> 100 < length (concat (map (item_texts want) items)))"
proof -
  have "collected [] fw_empty" by (simp add: collected_def fw_empty_def)
  from fw_steps_sound [OF sound_empty(1) assms this, of want] show ?thesis
    by (auto simp: sound_empty(2) collected_def maxRenderedRules_def) (simp_all add: fw_empty_def)
qed

end

section \<open>Both parsers\<close>

definition barless :: "string \<Rightarrow> bool" where
  "barless s \<longleftrightarrow> CHR ''|'' \<notin> set s"

lemma bar_split:
  assumes "barless a" "barless a'"
  shows "a @ CHR ''|'' # b = a' @ CHR ''|'' # b' \<longleftrightarrow> a = a' \<and> b = b'"
  using cut_append [of "CHR ''|''" a b] cut_append [of "CHR ''|''" a' b'] assms unfolding barless_def
  by (metis option.inject prod.inject)

interpretation ipt: fw_naming ipt_naming "\<lambda>f. f = ''ip''" barless
  by unfold_locales (auto simp: ipt_naming_def names_ok_def bar_split)

interpretation nft: fw_naming nft_naming barless barless
  by unfold_locales (simp_all add: nft_naming_def names_ok_def bar_split)

text \<open>The items of a text of \<open>iptables\<close>, line by line, and how many rules are for one chain.\<close>

fun ipt_items :: "string list \<Rightarrow> string \<Rightarrow> fw_item list" where
  "ipt_items [] cur = []"
| "ipt_items (line # ls) cur =
     (case ipt_line cur line of (None, cur1) \<Rightarrow> ipt_items ls cur1 | (Some item, cur1) \<Rightarrow> item # ipt_items ls cur1)"

lemma ipt_loop_items: "ipt_loop want ls cur s = fw_steps ipt_naming want (ipt_items ls cur) s"
  by (induction ls arbitrary: cur s) (auto split: option.splits prod.splits)

definition rule_of :: "string \<times> string \<times> string \<Rightarrow> fw_item \<Rightarrow> bool" where
  "rule_of k item \<longleftrightarrow> (case item of RuleItem f t c p b r \<Rightarrow> k = (f, t, c) | _ \<Rightarrow> False)"

definition rule_count :: "chainSummary option \<Rightarrow> int" where
  "rule_count old = (case old of None \<Rightarrow> 0 | Some ch \<Rightarrow> cs_ruleCount ch)"

lemma spec_rule_count:
  "rule_count (fold spec_item items m k) = rule_count (m k) + int (length (filter (rule_of k) items))"
proof (induction items arbitrary: m)
  case Nil
  then show ?case by simp
next
  case (Cons item items)
  have "rule_count (spec_item item m k) = rule_count (m k) + (if rule_of k item then 1 else 0)"
    by (cases item) (auto simp: rule_of_def rule_count_def with_policy_def new_chain_def Let_def split: option.splits)
  with Cons.IH [of "spec_item item m"] show ?case by simp
qed

definition exact_summary :: "fw_filter \<Rightarrow> fw_item list \<Rightarrow> fwScan \<Rightarrow> bool" where
  "exact_summary want items s \<longleftrightarrow>
     fw_view s = fold spec_item items (\<lambda>_. None) \<and>
     (\<forall>k. rule_count (fw_view s k) = int (length (filter (rule_of k) items))) \<and>
     fw_total s = int (length (filter is_rule items)) \<and>
     fw_rules s = take 100 (concat (map (item_texts want) items)) \<and>
     (fw_truncated s \<longleftrightarrow> 100 < length (concat (map (item_texts want) items)))"


definition sample_ipt :: string where
  "sample_ipt = join [CHR 0x0A] [''*filter'', '':INPUT DROP [5:300]'', ''[1:60] -A INPUT -j ACCEPT'', ''COMMIT'']"

definition sample_nft :: string where
  "sample_nft = json_object [(''nftables'', json_array [json_object [(''rule'', json_object
     [(''family'', json_string ''ip''), (''table'', json_string ''nat''), (''chain'', json_string ''out''), (''handle'', ''7''),
      (''expr'', json_array [json_object [(''counter'', json_object [(''packets'', ''3''), (''bytes'', ''9'')])]])])]])]"

lemma sample_ipt_items:
  "ipt_items (text_lines sample_ipt) [] =
     [TableItem ''ip'' ''filter'', ChainItem ''ip'' ''filter'' ''INPUT'' ''DROP'' (Some (5, 300)),
      RuleItem ''ip'' ''filter'' ''INPUT'' 0 0 ''-A INPUT -j ACCEPT'']"
  by code_simp

lemma sample_nft_items: "map_option (List.map_filter nft_item) (nft_decode sample_nft) =
    Some [RuleItem ''ip'' ''nat'' ''out'' 3 9
      (''ip nat out handle 7: '' @ json_array [json_object [(''counter'', json_object [(''packets'', ''3''), (''bytes'', ''9'')])]])]"
  by code_simp


end
