(* ===== verification/Locks.thy ===== *)
theory Locks
  imports HostTools
begin

text \<open>
  Model of \<open>internal/registry/tools/filelocks\<close>: the tool that counts the file locks of the kernel by type, mode and holder, and
  names the processes that wait for one. The table is a text, the names of processes come from the files below \<open>/proc\<close>.
\<close>

section \<open>The table of locks\<close>

record lockEntry =
  le_blocked :: bool
  le_type :: string
  le_mode :: string
  le_pid :: int

definition parseLockLine :: "string \<Rightarrow> lockEntry option" where
  "parseLockLine line =
     (let fields = text_fields (trim_space line)
      in if length fields < 5 then None
         else let blocked = (fields ! 1 = ''->''); idx = (if blocked then 2 else 1)
              in if length fields < idx + 4 then None
                 else case atoi (fields ! (idx + 3)) of
                        None \<Rightarrow> None
                      | Some pid \<Rightarrow> Some \<lparr>le_blocked = blocked, le_type = fields ! idx, le_mode = fields ! (idx + 2), le_pid = pid\<rparr>)"

definition parseLocks :: "string \<Rightarrow> lockEntry list" where
  "parseLocks text = List.map_filter parseLockLine (text_lines text)"

definition resolveComm :: "procFs \<Rightarrow> string \<Rightarrow> int \<Rightarrow> string" where
  "resolveComm fs dir pid =
     (if pid < 0 then ''OFD (no owner pid)''
      else case fs_readFile fs (path_join (pid_dir dir pid) ''comm'') of
             None \<Rightarrow> ''unknown''
           | Some raw \<Rightarrow> (let comm = trim_space raw in if comm = [] then ''unknown'' else comm))"

section \<open>The aggregation\<close>

definition topHoldersLimit :: nat where "topHoldersLimit = 15"

definition waitersListLimit :: nat where "waitersListLimit = 15"

record lockWaiter =
  lw_pid :: int
  lw_comm :: string
  lw_type :: string
  lw_mode :: string

record lockHolder =
  lh_pid :: int
  lh_comm :: string
  lh_count :: int

record lockData =
  ld_total :: int
  ld_posix :: int
  ld_flock :: int
  ld_ofdlck :: int
  ld_lease :: int
  ld_read :: int
  ld_write :: int
  ld_blocked :: int
  ld_waiters :: "lockWaiter list"
  ld_holders :: "lockHolder list"
  ld_reasons :: "string list"

definition no_locks :: lockData where
  "no_locks = \<lparr>ld_total = 0, ld_posix = 0, ld_flock = 0, ld_ofdlck = 0, ld_lease = 0, ld_read = 0, ld_write = 0, ld_blocked = 0,
     ld_waiters = [], ld_holders = [], ld_reasons = []\<rparr>"

definition waiter_of :: "procFs \<Rightarrow> string \<Rightarrow> lockEntry \<Rightarrow> lockWaiter" where
  "waiter_of fs dir e = \<lparr>lw_pid = le_pid e, lw_comm = resolveComm fs dir (le_pid e), lw_type = le_type e, lw_mode = le_mode e\<rparr>"

definition count_type :: "string \<Rightarrow> lockData \<Rightarrow> lockData" where
  "count_type t d =
     (if t = ''POSIX'' then d\<lparr>ld_posix := ld_posix d + 1\<rparr> else if t = ''FLOCK'' then d\<lparr>ld_flock := ld_flock d + 1\<rparr>
      else if t = ''OFDLCK'' then d\<lparr>ld_ofdlck := ld_ofdlck d + 1\<rparr> else if t = ''LEASE'' then d\<lparr>ld_lease := ld_lease d + 1\<rparr>
      else d)"

definition count_mode :: "string \<Rightarrow> lockData \<Rightarrow> lockData" where
  "count_mode m d =
     (if m = ''READ'' then d\<lparr>ld_read := ld_read d + 1\<rparr> else if m = ''WRITE'' then d\<lparr>ld_write := ld_write d + 1\<rparr> else d)"

definition add_lock :: "procFs \<Rightarrow> string \<Rightarrow> lockEntry \<Rightarrow> lockData \<times> (int \<Rightarrow> int option) \<Rightarrow> lockData \<times> (int \<Rightarrow> int option)" where
  "add_lock fs dir e =
     (\<lambda>(d, holderCounts).
        if le_blocked e then
          (let d1 = d\<lparr>ld_blocked := ld_blocked d + 1\<rparr>
           in (if length (ld_waiters d1) < waitersListLimit then d1\<lparr>ld_waiters := ld_waiters d1 @ [waiter_of fs dir e]\<rparr> else d1,
               holderCounts))
        else (count_mode (le_mode e) (count_type (le_type e) (d\<lparr>ld_total := ld_total d + 1\<rparr>)), count_up (le_pid e) holderCounts))"

definition holder_less :: "lockHolder \<Rightarrow> lockHolder \<Rightarrow> bool" where
  "holder_less a b \<longleftrightarrow> (if lh_count a \<noteq> lh_count b then lh_count a > lh_count b else lh_pid a < lh_pid b)"

text \<open>\<open>walk\<close> is the order in which Go visits the map of the holders.\<close>

definition lock_holders :: "procFs \<Rightarrow> string \<Rightarrow> int list \<Rightarrow> (int \<Rightarrow> int option) \<Rightarrow> lockHolder list" where
  "lock_holders fs dir walk counts =
     map (\<lambda>h. h\<lparr>lh_comm := resolveComm fs dir (lh_pid h)\<rparr>)
       (take topHoldersLimit (go_sort holder_less
          (map (\<lambda>pid. \<lparr>lh_pid = pid, lh_comm = [], lh_count = (case counts pid of None \<Rightarrow> 0 | Some n \<Rightarrow> n)\<rparr>) walk)))"

definition lock_reasons :: "int \<Rightarrow> string list" where
  "lock_reasons blocked = (if blocked > 0 then [itoa blocked @ '' process(es) blocked waiting on file locks''] else [])"

definition buildLockData :: "procFs \<Rightarrow> string \<Rightarrow> int list \<Rightarrow> lockEntry list \<Rightarrow> lockData" where
  "buildLockData fs dir walk entries =
     (case fold (add_lock fs dir) entries (no_locks, \<lambda>_. None) of
        (d, counts) \<Rightarrow> d\<lparr>ld_holders := lock_holders fs dir walk counts, ld_reasons := lock_reasons (ld_blocked d)\<rparr>)"

definition waiter_text :: "lockWaiter \<Rightarrow> string" where
  "waiter_text w = json_object [(''pid'', itoa (lw_pid w)), (''comm'', json_string (lw_comm w)), (''type'', json_string (lw_type w)),
     (''mode'', json_string (lw_mode w))]"

definition holder_text :: "lockHolder \<Rightarrow> string" where
  "holder_text h = json_object [(''pid'', itoa (lh_pid h)), (''comm'', json_string (lh_comm h)), (''lock_count'', itoa (lh_count h))]"

definition locks_text :: "lockData \<Rightarrow> string" where
  "locks_text d = json_object (
     [(''total_locks'', itoa (ld_total d)),
      (''by_type'', json_object [(''POSIX'', itoa (ld_posix d)), (''FLOCK'', itoa (ld_flock d)), (''OFDLCK'', itoa (ld_ofdlck d)),
         (''LEASE'', itoa (ld_lease d))]),
      (''by_mode'', json_object [(''READ'', itoa (ld_read d)), (''WRITE'', itoa (ld_write d))]),
      (''blocked_waiters'', json_object ((''count'', itoa (ld_blocked d)) # if_list ''waiters'' waiter_text (ld_waiters d)))] @
     if_list ''top_holders'' holder_text (ld_holders d) @ if_list ''warning_reasons'' json_string (ld_reasons d))"

definition locks_summary :: "lockData \<Rightarrow> string" where
  "locks_summary d = itoa (ld_total d) @ '' file lock(s) held (POSIX '' @ itoa (ld_posix d) @ '', FLOCK '' @ itoa (ld_flock d) @
     '', OFDLCK '' @ itoa (ld_ofdlck d) @ '', LEASE '' @ itoa (ld_lease d) @ ''), '' @ itoa (ld_blocked d) @ '' blocked waiter(s)''"

definition locks_IsSupported :: "string \<Rightarrow> bool \<Rightarrow> bool \<times> string" where
  "locks_IsSupported dir hasTable = (if hasTable then (True, []) else (False, path_join dir ''locks'' @ '' is missing''))"

text \<open>\<open>table\<close> is the content of the table, or the error of reading it.\<close>

definition locks_Execute :: "string \<Rightarrow> int \<Rightarrow> procFs \<Rightarrow> string \<Rightarrow> string option \<Rightarrow> string + string \<Rightarrow> int list \<Rightarrow> envelope" where
  "locks_Execute timestamp elapsedMs fs dir ctxErr table walk =
     (let fail = reg_NewErrorResult timestamp ''get_file_locks''
      in case ctxErr of
           Some err \<Rightarrow> fail (''cancelled: '' @ err)
         | None \<Rightarrow>
             (case table of
                Inl err \<Rightarrow> fail (''failed to read '' @ path_join dir ''locks'' @ '': '' @ err)
              | Inr raw \<Rightarrow>
                  (let d = buildLockData fs dir walk (parseLocks raw)
                   in deterministic timestamp elapsedMs ''get_file_locks''
                        (if ld_reasons d \<noteq> [] then StatusWarning else StatusOK) (locks_summary d) (locks_text d))))"

section \<open>What is counted\<close>

text \<open>The lines that count: a number, the arrow of a waiter, the type, whether it binds, the mode and the process.\<close>

definition lock_fields :: "string list \<Rightarrow> lockEntry \<Rightarrow> bool" where
  "lock_fields ws e \<longleftrightarrow>
     (\<exists>n adv p r. ws = n # (if le_blocked e then [''->''] else []) @ le_type e # adv # le_mode e # p # r \<and> atoi p = Some (le_pid e) \<and>
        le_blocked e = (ws ! 1 = ''->''))"

lemma five_fields: "\<not> length xs < 5 \<longleftrightarrow> (\<exists>a b c d e r. xs = a # b # c # d # e # r)"
  by (cases xs; cases "tl xs"; cases "tl (tl xs)"; cases "tl (tl (tl xs))"; cases "tl (tl (tl (tl xs)))"; auto)

lemma parse_lock_line: "parseLockLine line = Some e \<longleftrightarrow> lock_fields (text_fields (trim_space line)) e"
proof (cases "length (text_fields (trim_space line)) < 5")
  case True
  then show ?thesis by (cases "le_blocked e") (auto simp: parseLockLine_def Let_def lock_fields_def)
next
  case False
  then obtain a b c d x r where ws: "text_fields (trim_space line) = a # b # c # d # x # r" by (auto simp: five_fields)
  show ?thesis
    by (cases "b = ''->''"; cases r; cases e)
      (auto simp: parseLockLine_def Let_def lock_fields_def ws split: option.splits)
qed

lemma count_type_eq:
  "count_type t d = d\<lparr>ld_posix := ld_posix d + of_bool (t = ''POSIX''), ld_flock := ld_flock d + of_bool (t = ''FLOCK''),
     ld_ofdlck := ld_ofdlck d + of_bool (t = ''OFDLCK''), ld_lease := ld_lease d + of_bool (t = ''LEASE'')\<rparr>"
  by (cases d) (auto simp: count_type_def)

lemma count_mode_eq:
  "count_mode m d = d\<lparr>ld_read := ld_read d + of_bool (m = ''READ''), ld_write := ld_write d + of_bool (m = ''WRITE'')\<rparr>"
  by (cases d) (auto simp: count_mode_def)

definition having :: "(lockEntry \<Rightarrow> bool) \<Rightarrow> lockEntry list \<Rightarrow> int" where
  "having P es = int (length (filter P es))"

lemma having_simps: "having P [] = 0" "having P (e # es) = of_bool (P e) + having P es"
  by (simp_all add: having_def)

definition lock_counts :: "procFs \<Rightarrow> string \<Rightarrow> lockEntry list \<Rightarrow> lockData \<Rightarrow> lockData" where
  "lock_counts fs dir es d =
     (let held = filter (\<lambda>e. \<not> le_blocked e) es; waiting = filter le_blocked es
      in d\<lparr>ld_total := ld_total d + int (length held),
            ld_posix := ld_posix d + having (\<lambda>e. le_type e = ''POSIX'') held, ld_flock := ld_flock d + having (\<lambda>e. le_type e = ''FLOCK'') held,
            ld_ofdlck := ld_ofdlck d + having (\<lambda>e. le_type e = ''OFDLCK'') held, ld_lease := ld_lease d + having (\<lambda>e. le_type e = ''LEASE'') held,
            ld_read := ld_read d + having (\<lambda>e. le_mode e = ''READ'') held, ld_write := ld_write d + having (\<lambda>e. le_mode e = ''WRITE'') held,
            ld_blocked := ld_blocked d + int (length waiting),
            ld_waiters := ld_waiters d @ take (waitersListLimit - length (ld_waiters d)) (map (waiter_of fs dir) waiting)\<rparr>)"

lemma add_lock_counts:
  "add_lock fs dir e (d, m) = (lock_counts fs dir [e] d, if le_blocked e then m else count_up (le_pid e) m)"
  by (cases d) (simp add: add_lock_def lock_counts_def Let_def count_type_eq count_mode_eq having_simps take_Cons')

lemma lock_counts_Cons: "lock_counts fs dir es (lock_counts fs dir [e] d) = lock_counts fs dir (e # es) d"
  by (cases d; cases "le_blocked e") (simp_all add: lock_counts_def Let_def having_simps take_Cons')

lemma fold_add_lock:
  "fold (add_lock fs dir) es (d, m) = (lock_counts fs dir es d, fold count_up (map le_pid (filter (\<lambda>e. \<not> le_blocked e) es)) m)"
proof (induction es arbitrary: d m)
  case Nil
  then show ?case by (simp add: lock_counts_def having_simps)
next
  case (Cons e es)
  have "fold (add_lock fs dir) (e # es) (d, m) = fold (add_lock fs dir) es (add_lock fs dir e (d, m))" by simp
  then show ?case by (cases "le_blocked e") (simp_all add: Cons.IH add_lock_counts lock_counts_Cons)
qed

lemma holder_order: "weak_order_on A holder_less"
  by (auto simp: weak_order_on_def holder_less_def split: if_splits)

lemma ranking_map:
  assumes "ranking lt A k xs" "inj_on f A" "\<And>a b. a \<in> A \<Longrightarrow> b \<in> A \<Longrightarrow> lt (f a) (f b) = lt a b"
  shows "ranking lt (f ` A) k (map f xs)"
proof -
  obtain ys where ys: "xs = take k ys" "set ys = A" "distinct ys" "sorted_wrt (\<lambda>a b. \<not> lt b a) ys"
    using assms(1) by (auto simp: ranking_def)
  have "sorted_wrt (\<lambda>a b. \<not> lt b a) (map f ys)"
    unfolding sorted_wrt_map by (rule sorted_wrt_mono_rel [OF _ ys(4)]) (use assms(3) ys(2) in auto)
  then show ?thesis unfolding ranking_def using ys assms(2) by (intro exI [of _ "map f ys"]) (auto simp: take_map distinct_map)
qed

definition lock_holder :: "procFs \<Rightarrow> string \<Rightarrow> lockEntry list \<Rightarrow> int \<Rightarrow> lockHolder" where
  "lock_holder fs dir held pid =
     \<lparr>lh_pid = pid, lh_comm = resolveComm fs dir pid, lh_count = having (\<lambda>e. le_pid e = pid) held\<rparr>"

lemma having_occurrences: "having (\<lambda>e. le_pid e = pid) held = occurrences pid (map le_pid held)"
  by (induction held) (auto simp: having_simps occurrences_def having_def)

lemma lock_holders_ranking:
  assumes "walk_of walk (tally (map le_pid held))"
  shows "ranking holder_less (lock_holder fs dir held ` le_pid ` set held) topHoldersLimit
    (lock_holders fs dir walk (tally (map le_pid held)))"
proof -
  have w: "distinct walk" "set walk = le_pid ` set held" using assms by (auto simp: walk_of_def)
  define bare where "bare = (\<lambda>pid. \<lparr>lh_pid = pid, lh_comm = [], lh_count = (case tally (map le_pid held) pid of None \<Rightarrow> 0 | Some n \<Rightarrow> n)\<rparr>)"
  define named :: "lockHolder \<Rightarrow> lockHolder" where "named = (\<lambda>h. h\<lparr>lh_comm := resolveComm fs dir (lh_pid h)\<rparr>)"
  have inj: "inj bare" by (auto simp: inj_def bare_def)
  have r: "ranking holder_less (bare ` set walk) topHoldersLimit (take topHoldersLimit (go_sort holder_less (map bare walk)))"
    by (rule ranking_go_sort) (use w inj in \<open>auto simp: holder_order distinct_map inj_on_def inj_def\<close>)
  have "inj_on named (bare ` set walk)" by (auto simp: inj_on_def named_def bare_def)
  then have "ranking holder_less (named ` bare ` set walk) topHoldersLimit (map named (take topHoldersLimit (go_sort holder_less (map bare walk))))"
    by (rule ranking_map [OF r]) (simp add: named_def holder_less_def)
  moreover have "named ` bare ` set walk = lock_holder fs dir held ` le_pid ` set held"
    by (auto simp: w named_def bare_def lock_holder_def having_occurrences tally_exact image_image intro!: image_cong)
  moreover have "map named (take topHoldersLimit (go_sort holder_less (map bare walk))) = lock_holders fs dir walk (tally (map le_pid held))"
    by (simp add: lock_holders_def named_def bare_def)
  ultimately show ?thesis by simp
qed

text \<open>
  The answer about file locks is exact. The entries are those of the lines that name a type, a mode and a process, waiters those
  with the arrow; the totals by type and mode count the locks that are held and no waiter; waiters are counted in full and the
  first of them listed; and whatever order the map of holders is visited in, the holders shown are the first of all processes that hold a lock, each with the exact
  number of its locks, the most locks first. A warning is given exactly when a process waits.
\<close>

theorem file_locks_exact:
  assumes "walk_of walk (tally (map le_pid (filter (\<lambda>e. \<not> le_blocked e) (parseLocks table))))"
  shows "let es = parseLocks table; held = filter (\<lambda>e. \<not> le_blocked e) es; waiting = filter le_blocked es;
             d = buildLockData fs dir walk es
         in (\<forall>e. e \<in> set es = (\<exists>line. line \<in> set (text_lines table) \<and> lock_fields (text_fields (trim_space line)) e)) \<and>
            ld_total d = int (length held) \<and>
            ld_posix d = having (\<lambda>e. le_type e = ''POSIX'') held \<and> ld_flock d = having (\<lambda>e. le_type e = ''FLOCK'') held \<and>
            ld_ofdlck d = having (\<lambda>e. le_type e = ''OFDLCK'') held \<and> ld_lease d = having (\<lambda>e. le_type e = ''LEASE'') held \<and>
            ld_read d = having (\<lambda>e. le_mode e = ''READ'') held \<and> ld_write d = having (\<lambda>e. le_mode e = ''WRITE'') held \<and>
            ld_blocked d = int (length waiting) \<and> ld_waiters d = take 15 (map (waiter_of fs dir) waiting) \<and>
            ranking holder_less (lock_holder fs dir held ` le_pid ` set held) 15 (ld_holders d) \<and>
            (ld_reasons d = []) = (waiting = [])"
proof -
  define es where "es = parseLocks table"
  define held where "held = filter (\<lambda>e. \<not> le_blocked e) es"
  define waiting where "waiting = filter le_blocked es"
  have d: "buildLockData fs dir walk es = (lock_counts fs dir es no_locks)\<lparr>ld_holders := lock_holders fs dir walk (tally (map le_pid held)),
      ld_reasons := lock_reasons (ld_blocked (lock_counts fs dir es no_locks))\<rparr>"
    by (simp add: buildLockData_def fold_add_lock tally_def held_def)
  have entries: "e \<in> set es \<longleftrightarrow> (\<exists>line. line \<in> set (text_lines table) \<and> lock_fields (text_fields (trim_space line)) e)" for e
    by (force simp: es_def parseLocks_def map_filter_def parse_lock_line [symmetric])
  have rank: "ranking holder_less (lock_holder fs dir held ` le_pid ` set held) 15 (ld_holders (buildLockData fs dir walk es))"
    using lock_holders_ranking [of walk held fs dir] assms unfolding d by (simp add: held_def es_def topHoldersLimit_def)
  show ?thesis
    unfolding Let_def es_def [symmetric] held_def [symmetric] waiting_def [symmetric]
    using entries rank
    by (simp add: d lock_counts_def no_locks_def Let_def held_def waiting_def lock_reasons_def waitersListLimit_def)
qed

definition sample_locks :: string where
  "sample_locks = ''1: POSIX  ADVISORY  WRITE 42 08:01:7 0 EOF'' @ CHR 0x0A # ''1: -> POSIX  ADVISORY  WRITE 43 08:01:7 0 EOF'' @
     CHR 0x0A # ''2: FLOCK  ADVISORY  READ 42 08:01:8 0 EOF'' @ [CHR 0x0A]"

lemma sample_locks_parsed:
  "parseLocks sample_locks = [\<lparr>le_blocked = False, le_type = ''POSIX'', le_mode = ''WRITE'', le_pid = 42\<rparr>,
     \<lparr>le_blocked = True, le_type = ''POSIX'', le_mode = ''WRITE'', le_pid = 43\<rparr>, \<lparr>le_blocked = False, le_type = ''FLOCK'', le_mode = ''READ'', le_pid = 42\<rparr>]"
  by code_simp

theorem file_locks_exact_witness:
  "walk_of [42] (tally (map le_pid (filter (\<lambda>e. \<not> le_blocked e) (parseLocks sample_locks)))) \<and>
   ld_blocked (buildLockData fs dir [42] (parseLocks sample_locks)) = 1 \<and>
   ld_posix (buildLockData fs dir [42] (parseLocks sample_locks)) = 1"
proof -
  have w: "walk_of [42] (tally (map le_pid (filter (\<lambda>e. \<not> le_blocked e) (parseLocks sample_locks))))"
    by (simp add: walk_of_def sample_locks_parsed)
  show ?thesis
    using w file_locks_exact [OF w, of fs dir] by (simp add: Let_def sample_locks_parsed having_def)
qed

end
