(* ===== verification/NetText.thy ===== *)
theory NetText
  imports GoJson HostText
begin

text \<open>
  Hexadecimal numbers of \<open>strconv\<close> and addresses of \<open>net\<close> as the tools use them that read the network tables of the kernel: reading
  a number of a given width, and printing and reading addresses. The tables of the kernel print words with a fixed number of upper case digits.
\<close>

section \<open>Hexadecimal numbers\<close>

text \<open>\<open>ParseUint\<close> with base 16 and the largest value of the width: the value, or the value beside the error.\<close>

fun uint_loop :: "nat \<Rightarrow> nat \<Rightarrow> string \<Rightarrow> nat + nat" where
  "uint_loop maxVal n [] = Inr n"
| "uint_loop maxVal n (c # cs) =
     (case hex_val c of
        None \<Rightarrow> Inl 0
      | Some d \<Rightarrow> if n * 16 + d > maxVal then Inl maxVal else uint_loop maxVal (n * 16 + d) cs)"

definition parse_uint :: "nat \<Rightarrow> string \<Rightarrow> nat + nat" where
  "parse_uint bits s = (if s = [] then Inl 0 else uint_loop (2 ^ bits - 1) 0 s)"

definition either_value :: "'a + 'a \<Rightarrow> 'a" where
  "either_value r = (case r of Inl v \<Rightarrow> v | Inr v \<Rightarrow> v)"

text \<open>\<open>ParseInt\<close>: a sign, and the nearest end of the range beside the error of a number outside it.\<close>

definition parse_int :: "nat \<Rightarrow> string \<Rightarrow> int + int" where
  "parse_int bits s =
     (let neg = (s \<noteq> [] \<and> hd s = CHR ''-''); ds = (if s \<noteq> [] \<and> (hd s = CHR ''-'' \<or> hd s = CHR ''+'') then tl s else s);
          cutoff = 2 ^ (bits - 1)
      in if s = [] then Inl 0
         else case parse_uint bits ds of
           Inl v \<Rightarrow> if v = 0 then Inl 0 else Inl (if neg then - int cutoff else int cutoff - 1)
         | Inr v \<Rightarrow>
             if \<not> neg \<and> v \<ge> cutoff then Inl (int cutoff - 1)
             else if neg \<and> v > cutoff then Inl (- int cutoff)
             else Inr (if neg then - int v else int v))"

text \<open>
  Printing with a fixed number of digits, in upper case (\<open>%0kX\<close>) or lower case (\<open>%0kx\<close>): what the reader needs of the digits is the
  law of the locale.
\<close>

definition upper_digit :: "nat \<Rightarrow> char" where
  "upper_digit n = char_of (if n < 10 then 48 + n else 55 + n)"

fun hex_with :: "(nat \<Rightarrow> char) \<Rightarrow> nat \<Rightarrow> nat \<Rightarrow> string" where
  "hex_with digit 0 v = []"
| "hex_with digit (Suc k) v = hex_with digit k (v div 16) @ [digit (v mod 16)]"

definition hexU :: "nat \<Rightarrow> nat \<Rightarrow> string" where "hexU = hex_with upper_digit"

definition hexL :: "nat \<Rightarrow> nat \<Rightarrow> string" where "hexL = hex_with hex_digit"

lemma uint_loop_append:
  "uint_loop m n xs = Inr v \<Longrightarrow> uint_loop m n (xs @ ys) = uint_loop m v ys"
  by (induction m n xs rule: uint_loop.induct) (auto split: option.splits if_splits)

lemma hex_val_plain: "hex_val c \<noteq> None \<Longrightarrow> \<not> is_space c \<and> c \<noteq> CHR '':'' \<and> c \<noteq> CHR 0x0A"
  by (auto simp: is_space_def hex_val_def)

locale hex_digits =
  fixes digit :: "nat \<Rightarrow> char"
  assumes digit_value: "n < 16 \<Longrightarrow> hex_val (digit n) = Some n"
begin

lemma length_hex [simp]: "length (hex_with digit k v) = k"
  by (induction k arbitrary: v) auto

lemma hex_chars: "c \<in> set (hex_with digit k v) \<Longrightarrow> hex_val c \<noteq> None"
  by (induction k arbitrary: v) (auto simp: digit_value)

lemma hex_plain: "c \<in> set (hex_with digit k v) \<Longrightarrow> \<not> is_space c \<and> c \<noteq> CHR '':'' \<and> c \<noteq> CHR 0x0A"
  by (rule hex_val_plain, rule hex_chars)

lemma hex_nonempty [simp]: "0 < k \<Longrightarrow> hex_with digit k v \<noteq> []"
  using length_hex [of k v] by (metis length_0_conv less_irrefl)

lemma loop_hex: "v < 16 ^ k \<Longrightarrow> v \<le> m \<Longrightarrow> uint_loop m 0 (hex_with digit k v) = Inr v"
proof (induction k arbitrary: v)
  case (Suc k)
  have "v div 16 < 16 ^ k" using Suc.prems(1) by (simp add: less_mult_imp_div_less mult.commute)
  then have "uint_loop m 0 (hex_with digit k (v div 16)) = Inr (v div 16)" using Suc.prems(2) by (intro Suc.IH) linarith+
  then show ?case using Suc.prems(2) by (simp add: uint_loop_append digit_value)
qed simp

lemma parse_hex: "0 < k \<Longrightarrow> v < 16 ^ k \<Longrightarrow> v < 2 ^ bits \<Longrightarrow> parse_uint bits (hex_with digit k v) = Inr v"
  by (simp add: parse_uint_def loop_hex)

end

interpretation upper: hex_digits upper_digit
  by unfold_locales (auto simp: hex_val_def upper_digit_def)

interpretation lower: hex_digits hex_digit
  by unfold_locales (rule hex_val_digit)

lemmas length_hexU [simp] = upper.length_hex [folded hexU_def] and length_hexL [simp] = lower.length_hex [folded hexL_def]
  and hexU_plain = upper.hex_plain [folded hexU_def] and hexL_plain = lower.hex_plain [folded hexL_def]
  and hexU_nonempty [simp] = upper.hex_nonempty [folded hexU_def] and hexL_nonempty [simp] = lower.hex_nonempty [folded hexL_def]
  and parse_uint_hexU = upper.parse_hex [folded hexU_def] and parse_uint_hexL = lower.parse_hex [folded hexL_def]

lemma uint_loop_bound: "uint_loop m n xs = Inr v \<Longrightarrow> n \<le> m \<Longrightarrow> v \<le> m"
  by (induction m n xs rule: uint_loop.induct) (auto split: option.splits if_splits)

lemma parse_uint_bound: "parse_uint bits s = Inr v \<Longrightarrow> v < 2 ^ bits"
  using uint_loop_bound [of "2 ^ bits - 1" 0 s v] by (simp add: parse_uint_def le_diff_conv split: if_splits) (metis Suc_le_eq add.commute plus_1_eq_Suc Suc_pred le_imp_less_Suc zero_less_numeral zero_less_power)

section \<open>Addresses\<close>

text \<open>\<open>byte(v >> 8i)\<close>: the bytes of a word, the lowest first, and the word that four bytes in the memory of the machine are.\<close>

definition byte_at :: "nat \<Rightarrow> nat \<Rightarrow> 8 word" where
  "byte_at i v = of_nat (v div 2 ^ (8 * i))"

definition word_le :: "octets \<Rightarrow> nat" where
  "word_le bs = foldr (\<lambda>b v. unat b + 256 * v) bs 0"

definition bytes_le :: "nat \<Rightarrow> octets" where
  "bytes_le v = map (\<lambda>i. byte_at i v) [0..<4]"

lemma octet_bound: "unat (b :: 8 word) < 256"
  using unsigned_less [of b] by simp

lemma word_le_bound: "word_le bs < 256 ^ length bs"
proof (induction bs)
  case (Cons b bs)
  then show ?case using octet_bound [of b] by (simp add: word_le_def)
qed (simp add: word_le_def)

lemma byte_at_0: "byte_at 0 (unat b + 256 * v) = b"
proof -
  have "(256 :: 8 word) = of_nat 256" "of_nat 256 = (0 :: 8 word)" by simp_all
  then have z: "(256 :: 8 word) = 0" by metis
  have "(of_nat (unat b + 256 * v) :: 8 word) = b + 256 * of_nat v" by simp
  also have "\<dots> = b" unfolding z by simp
  finally show ?thesis by (simp add: byte_at_def del: of_nat_add of_nat_mult)
qed

lemma byte_at_unat: "byte_at 0 (unat b) = b"
  using byte_at_0 [of b 0] by simp

lemma byte_at_Suc: "byte_at (Suc i) (unat (b :: 8 word) + 256 * v) = byte_at i v"
proof -
  have "(unat b + 256 * v) div 2 ^ (8 * Suc i) = (unat b + 256 * v) div 256 div 2 ^ (8 * i)"
    by (simp add: div_mult2_eq power_add)
  also have "(unat b + 256 * v) div 256 = v" using octet_bound [of b] by simp
  finally show ?thesis by (simp add: byte_at_def)
qed

lemma bytes_word_le: "length bs = 4 \<Longrightarrow> bytes_le (word_le bs) = bs"
proof -
  assume "length bs = 4"
  then obtain a b c d where bs: "bs = [a, b, c, d]" by (auto simp: length_Suc_conv eval_nat_numeral)
  show ?thesis
    by (simp add: bytes_le_def bs word_le_def upt_rec byte_at_0 byte_at_unat byte_at_Suc del: distrib_left_numeral)
qed

definition ip4_string :: "octets \<Rightarrow> string" where
  "ip4_string bs = join ''.'' (map (\<lambda>b. itoa_nat (unat b)) bs)"

text \<open>A 16-byte address: the dotted form for one that embeds IPv4, otherwise eight groups, with the first longest run of zero groups left out.\<close>

definition group_at :: "octets \<Rightarrow> nat \<Rightarrow> nat" where
  "group_at ip i = unat (ip ! (2 * i)) * 256 + unat (ip ! (2 * i + 1))"

definition embeds_v4 :: "octets \<Rightarrow> bool" where
  "embeds_v4 ip \<longleftrightarrow> list_all (\<lambda>b. b = 0) (take 10 ip) \<and> ip ! 10 = 255 \<and> ip ! 11 = 255"

fun zero_run :: "nat list \<Rightarrow> nat" where
  "zero_run [] = 0"
| "zero_run (g # gs) = (if g = 0 then Suc (zero_run gs) else 0)"

fun best_run :: "nat list \<Rightarrow> nat \<Rightarrow> nat \<times> nat \<Rightarrow> nat \<times> nat" where
  "best_run [] i best = best"
| "best_run (g # gs) i best =
     (let l = zero_run (g # gs) in best_run gs (Suc i) (if 2 \<le> l \<and> snd best - fst best < l then (i, i + l) else best))"

fun hex_lower :: "nat \<Rightarrow> string" where
  "hex_lower n = (if n < 16 then [hex_digit n] else hex_lower (n div 16) @ [hex_digit (n mod 16)])"

declare hex_lower.simps [simp del]

definition ip6_string :: "octets \<Rightarrow> string" where
  "ip6_string ip =
     (if embeds_v4 ip then ip4_string (drop 12 ip)
      else let gs = map (group_at ip) [0..<8]; (zs, ze) = best_run gs 0 (0, 0)
           in if zs = ze then join '':'' (map hex_lower gs)
              else join '':'' (map hex_lower (take zs gs)) @ ''::'' @ join '':'' (map hex_lower (drop ze gs)))"

text \<open>\<open>ParseIP\<close> on dotted texts: four decimal numbers below 256 without leading zeros.\<close>

definition parse_part :: "string \<Rightarrow> 8 word option" where
  "parse_part s =
     (if s = [] \<or> \<not> list_all is_digit s \<or> (length s > 1 \<and> hd s = CHR ''0'') \<or> dec_val s > 255 then None else Some (of_int (dec_val s)))"

definition parse_ip4 :: "string \<Rightarrow> octets option" where
  "parse_ip4 s =
     (case map parse_part (split_on CHR ''.'' s) of
        [Some a, Some b, Some c, Some d] \<Rightarrow> Some [a, b, c, d]
      | _ \<Rightarrow> None)"

lemma parse_part_itoa: "parse_part (itoa_nat (unat (b :: 8 word))) = Some b"
proof -
  have "unat b < 256" by (rule octet_bound)
  moreover have "hd (itoa_nat (unat b)) = CHR ''0'' \<Longrightarrow> length (itoa_nat (unat b)) = 1" by (simp add: itoa_nat_hd_zero)
  moreover have "int (unat b) \<le> 255" using octet_bound [of b] by linarith
  ultimately show ?thesis using itoa_nat_digits [of "unat b"] by (auto simp: parse_part_def)
qed

lemma dot_not_digit: "CHR ''.'' \<notin> set (itoa_nat n)"
  using itoa_nat_digits [of n] by (auto simp: list_all_iff is_digit_def)

lemma parse_ip4_string: "length bs = 4 \<Longrightarrow> parse_ip4 (ip4_string bs) = Some bs"
proof -
  assume "length bs = 4"
  then obtain a b c d where bs: "bs = [a, b, c, d]" by (auto simp: length_Suc_conv eval_nat_numeral)
  have "split_on CHR ''.'' (ip4_string bs) = map (\<lambda>b. itoa_nat (unat b)) bs"
    unfolding ip4_string_def by (rule split_on_join) (auto simp: bs dot_not_digit)
  then show ?thesis by (simp add: parse_ip4_def bs parse_part_itoa)
qed

end
