(* ===== verification/Listening.thy ===== *)
theory Listening
  imports HostTools NetText "HOL-Library.List_Lexorder" "HOL-Library.Char_ord"
begin

text \<open>
  Model of \<open>internal/registry/tools/listeningservices\<close>: the tool that joins the listening sockets of the kernel's tables to the processes
  that own them, found through the links of their file descriptors. Tables, directories and links are arguments, as each is read once.
\<close>

section \<open>The tables of sockets\<close>

definition parseHexIPv4 :: "string \<Rightarrow> string option" where
  "parseHexIPv4 hexStr =
     (if length hexStr \<noteq> 8 then None
      else case parse_uint 32 hexStr of Inl _ \<Rightarrow> None | Inr val \<Rightarrow> Some (ip4_string (bytes_le val)))"

fun words_of :: "nat \<Rightarrow> string \<Rightarrow> octets option" where
  "words_of 0 s = Some []"
| "words_of (Suc i) s =
     (case parse_uint 32 (take 8 s) of
        Inl _ \<Rightarrow> None
      | Inr w \<Rightarrow> map_option (\<lambda>bs. bytes_le w @ bs) (words_of i (drop 8 s)))"

definition parseHexIPv6 :: "string \<Rightarrow> string option" where
  "parseHexIPv6 hexStr = (if length hexStr \<noteq> 32 then None else map_option ip6_string (words_of 4 hexStr))"

definition parseHexPort :: "string \<Rightarrow> int option" where
  "parseHexPort hexStr = (case parse_uint 16 hexStr of Inl _ \<Rightarrow> None | Inr port \<Rightarrow> Some (int port))"

record sockEntry =
  so_proto :: string
  so_address :: string
  so_port :: int
  so_uid :: int
  so_inode :: int

definition tcpListenState :: string where "tcpListenState = ''0A''"

definition parseSocketLine :: "string \<Rightarrow> string \<Rightarrow> sockEntry option" where
  "parseSocketLine line proto =
     (let fields = text_fields (trim_space line)
      in if length fields < 10 \<or> fields ! 0 = ''sl'' then None
         else if prefix ''tcp'' proto \<and> fields ! 3 \<noteq> tcpListenState then None
         else (case split_on CHR '':'' (fields ! 1) of
                 [host, portHex] \<Rightarrow>
                   (case parseHexPort portHex of
                      None \<Rightarrow> None
                    | Some port \<Rightarrow>
                        if prefix ''udp'' proto \<and> port = 0 then None
                        else (case (if suffix ''6'' proto then parseHexIPv6 host else parseHexIPv4 host) of
                                None \<Rightarrow> None
                              | Some address \<Rightarrow>
                                  (case (atoi (fields ! 7), atoi (fields ! 9)) of
                                     (Some uid, Some inode) \<Rightarrow>
                                       Some \<lparr>so_proto = proto, so_address = address, so_port = port, so_uid = uid, so_inode = inode\<rparr>
                                   | _ \<Rightarrow> None)))
               | _ \<Rightarrow> None))"

definition parseSocketFile :: "string \<Rightarrow> string \<Rightarrow> sockEntry list" where
  "parseSocketFile content proto = List.map_filter (\<lambda>line. parseSocketLine line proto) (text_lines content)"

text \<open>The tables by name, with the error of a table that cannot be read. Only the first is needed.\<close>

definition collectSockets :: "string \<Rightarrow> (string \<Rightarrow> string + string) \<Rightarrow> string + sockEntry list" where
  "collectSockets dir table =
     (case table ''tcp'' of
        Inl err \<Rightarrow> Inl (''failed to read '' @ path_join (path_join dir ''net'') ''tcp'' @ '': '' @ err)
      | Inr content \<Rightarrow>
          Inr (parseSocketFile content ''tcp'' @
            concat (map (\<lambda>proto. case table proto of Inl _ \<Rightarrow> [] | Inr c \<Rightarrow> parseSocketFile c proto) [''tcp6'', ''udp'', ''udp6''])))"

section \<open>The owners\<close>

text \<open>The directory of a process's descriptors: refused, not there, or the targets of its links, \<open>None\<close> for one that cannot be read.\<close>

datatype fdDir = FdRefused | FdGone | FdLinks "string option list"

record scanStats =
  ss_processesScanned :: int
  ss_fdDirsSkipped :: int

definition socket_inode :: "string \<Rightarrow> int option" where
  "socket_inode target =
     (if prefix ''socket:['' target \<and> suffix '']'' target
      then atoi (take (length target - 1 - length ''socket:['') (drop (length ''socket:['') target)) else None)"

definition fd_inodes :: "string option list \<Rightarrow> int list" where
  "fd_inodes links = List.map_filter (\<lambda>l. Option.bind l socket_inode) links"

definition scan_process :: "(string \<Rightarrow> fdDir) \<Rightarrow> string \<times> bool \<Rightarrow> (int \<Rightarrow> int option) \<times> scanStats \<Rightarrow> (int \<Rightarrow> int option) \<times> scanStats" where
  "scan_process fds e =
     (\<lambda>(m, st). case e of (name, isDir) \<Rightarrow>
        if \<not> isDir then (m, st)
        else case atoi name of
               None \<Rightarrow> (m, st)
             | Some pid \<Rightarrow>
                 (case fds name of
                    FdRefused \<Rightarrow> (m, st\<lparr>ss_fdDirsSkipped := ss_fdDirsSkipped st + 1\<rparr>)
                  | FdGone \<Rightarrow> (m, st)
                  | FdLinks links \<Rightarrow>
                      (fold (\<lambda>inode m. m(inode \<mapsto> pid)) (fd_inodes links) m,
                       st\<lparr>ss_processesScanned := ss_processesScanned st + 1\<rparr>)))"

fun scan_processes :: "(nat \<Rightarrow> string option) \<Rightarrow> (string \<Rightarrow> fdDir) \<Rightarrow> nat \<Rightarrow> (string \<times> bool) list \<Rightarrow>
    (int \<Rightarrow> int option) \<times> scanStats \<Rightarrow> string + (int \<Rightarrow> int option) \<times> scanStats" where
  "scan_processes ctxErr fds k [] s = Inr s"
| "scan_processes ctxErr fds k (e # es) s =
     (case ctxErr k of Some err \<Rightarrow> Inl err | None \<Rightarrow> scan_processes ctxErr fds (Suc k) es (scan_process fds e s))"

definition buildInodePIDMap :: "(nat \<Rightarrow> string option) \<Rightarrow> procFs \<Rightarrow> (string \<Rightarrow> fdDir) \<Rightarrow> string \<Rightarrow> string + (int \<Rightarrow> int option) \<times> scanStats" where
  "buildInodePIDMap ctxErr fs fds dir =
     (case fs_readDir fs dir of
        Inl err \<Rightarrow> Inl (''failed to read '' @ dir @ '': '' @ err)
      | Inr es \<Rightarrow> scan_processes ctxErr fds 0 es (\<lambda>_. None, \<lparr>ss_processesScanned = 0, ss_fdDirsSkipped = 0\<rparr>))"

section \<open>The answer\<close>

definition maxListeners :: nat where "maxListeners = 200"

definition ls_cmdlineMaxLen :: nat where "ls_cmdlineMaxLen = 80"

record listener =
  li_proto :: string
  li_address :: string
  li_port :: int
  li_wildcard :: bool
  li_uid :: int
  li_pid :: int
  li_comm :: string
  li_cmdline :: string

record listenData =
  da_listeners :: "listener list"
  da_unresolved :: "sockEntry list"
  da_tcp :: int
  da_udp :: int
  da_resolved :: int
  da_unresolvedCount :: int
  da_stats :: scanStats
  da_truncated :: bool
  da_note :: string

definition ls_readCmdline :: "procFs \<Rightarrow> string \<Rightarrow> int \<Rightarrow> string" where
  "ls_readCmdline fs dir pid =
     (case fs_readFile fs (path_join (pid_dir dir pid) ''cmdline'') of
        None \<Rightarrow> []
      | Some raw \<Rightarrow> take ls_cmdlineMaxLen (trim_space (map (\<lambda>c. if c = CHR 0x00 then CHR '' '' else c) raw)))"

definition listener_of :: "procFs \<Rightarrow> string \<Rightarrow> (int \<Rightarrow> int option) \<Rightarrow> sockEntry \<Rightarrow> listener" where
  "listener_of fs dir owner s =
     \<lparr>li_proto = so_proto s, li_address = so_address s, li_port = so_port s,
      li_wildcard = (so_address s = ''0.0.0.0'' \<or> so_address s = ''::''), li_uid = so_uid s,
      li_pid = (case owner (so_inode s) of Some pid \<Rightarrow> pid | None \<Rightarrow> 0),
      li_comm = (case owner (so_inode s) of Some pid \<Rightarrow> comm_of fs dir pid | None \<Rightarrow> []),
      li_cmdline = (case owner (so_inode s) of Some pid \<Rightarrow> ls_readCmdline fs dir pid | None \<Rightarrow> [])\<rparr>"

definition add_socket :: "procFs \<Rightarrow> string \<Rightarrow> (int \<Rightarrow> int option) \<Rightarrow> sockEntry \<Rightarrow> listenData \<Rightarrow> listenData" where
  "add_socket fs dir owner s d0 =
     (let d = (if prefix ''tcp'' (so_proto s) then d0\<lparr>da_tcp := da_tcp d0 + 1\<rparr> else d0\<lparr>da_udp := da_udp d0 + 1\<rparr>);
          d1 = (if owner (so_inode s) \<noteq> None then d\<lparr>da_resolved := da_resolved d + 1\<rparr>
                else d\<lparr>da_unresolvedCount := da_unresolvedCount d + 1, da_unresolved := da_unresolved d @ [s]\<rparr>)
      in d1\<lparr>da_listeners := da_listeners d1 @ [listener_of fs dir owner s]\<rparr>)"

definition listener_less :: "listener \<Rightarrow> listener \<Rightarrow> bool" where
  "listener_less a b \<longleftrightarrow>
     (if li_port a \<noteq> li_port b then li_port a < li_port b
      else if li_proto a \<noteq> li_proto b then li_proto a < li_proto b else li_address a < li_address b)"

definition rootHintNote :: string where
  "rootHintNote = ''run as root for complete socket'' @ [CHR 0xE2, CHR 0x86, CHR 0x92] @ ''process mapping''"

text \<open>The sort is not stable: \<open>shuffle\<close> is the order in which it leaves listeners of the same port, protocol and address.\<close>

definition listening_data :: "procFs \<Rightarrow> string \<Rightarrow> (listener list \<Rightarrow> listener list) \<Rightarrow> (int \<Rightarrow> int option) \<Rightarrow> scanStats \<Rightarrow> sockEntry list \<Rightarrow> listenData" where
  "listening_data fs dir shuffle owner st sockets =
     (let d = fold (add_socket fs dir owner) sockets
                \<lparr>da_listeners = [], da_unresolved = [], da_tcp = 0, da_udp = 0, da_resolved = 0, da_unresolvedCount = 0, da_stats = st,
                 da_truncated = False, da_note = []\<rparr>;
          ls = go_sort listener_less (shuffle (da_listeners d))
      in d\<lparr>da_listeners := take maxListeners ls, da_truncated := length ls > maxListeners,
           da_note := (if ss_fdDirsSkipped st > 0 then rootHintNote else [])\<rparr>)"

definition listener_text :: "listener \<Rightarrow> string" where
  "listener_text l = json_object (
     [(''proto'', json_string (li_proto l)), (''address'', json_string (li_address l)), (''port'', itoa (li_port l)),
      (''wildcard'', json_bool (li_wildcard l)), (''uid'', itoa (li_uid l))] @
     if_number ''pid'' (li_pid l) @ if_text ''comm'' (li_comm l) @ if_text ''cmdline'' (li_cmdline l))"

definition unresolved_text :: "sockEntry \<Rightarrow> string" where
  "unresolved_text s = json_object [(''proto'', json_string (so_proto s)), (''port'', itoa (so_port s)), (''inode'', itoa (so_inode s)),
     (''uid'', itoa (so_uid s))]"

definition listening_text :: "listenData \<Rightarrow> string" where
  "listening_text d = json_object (
     [(''listeners'', json_array (map listener_text (da_listeners d)))] @ if_list ''unresolved'' unresolved_text (da_unresolved d) @
     [(''summary'', json_object [(''tcp_listeners'', itoa (da_tcp d)), (''udp_sockets'', itoa (da_udp d)), (''resolved'', itoa (da_resolved d)),
        (''unresolved'', itoa (da_unresolvedCount d)), (''processes_scanned'', itoa (ss_processesScanned (da_stats d))),
        (''fd_dirs_skipped'', itoa (ss_fdDirsSkipped (da_stats d)))])] @
     (if da_truncated d then [(''truncated'', ''true'')] else []) @ if_text ''note'' (da_note d))"

definition listening_summary :: "listenData \<Rightarrow> string" where
  "listening_summary d = itoa (da_tcp d) @ '' TCP listener(s), '' @ itoa (da_udp d) @ '' bound UDP socket(s): '' @ itoa (da_resolved d) @
     '' resolved to processes, '' @ itoa (da_unresolvedCount d) @ '' unresolved''"

definition listening_IsSupported :: "string \<Rightarrow> bool \<Rightarrow> bool \<times> string" where
  "listening_IsSupported dir hasTable =
     (if hasTable then (True, []) else (False, path_join (path_join dir ''net'') ''tcp'' @ '' is missing (Linux procfs required)''))"

definition listening_Execute :: "string \<Rightarrow> int \<Rightarrow> procFs \<Rightarrow> string \<Rightarrow> (nat \<Rightarrow> string option) \<Rightarrow> (string \<Rightarrow> string + string) \<Rightarrow> (string \<Rightarrow> fdDir) \<Rightarrow>
    (listener list \<Rightarrow> listener list) \<Rightarrow> envelope" where
  "listening_Execute timestamp elapsedMs fs dir ctxErr table fds shuffle =
     (let fail = reg_NewErrorResult timestamp ''get_listening_services''
      in case collectSockets dir table of
           Inl err \<Rightarrow> fail err
         | Inr sockets \<Rightarrow>
             (case buildInodePIDMap ctxErr fs fds dir of
                Inl err \<Rightarrow> fail (''cancelled: '' @ err)
              | Inr (owner, st) \<Rightarrow>
                  (let d = listening_data fs dir shuffle owner st sockets
                   in deterministic timestamp elapsedMs ''get_listening_services'' StatusOK (listening_summary d) (listening_text d))))"

section \<open>What is listed\<close>

text \<open>The owners, written as a list: for each process directory that can be read, the inodes of its sockets with the process.\<close>

definition owned_by :: "(string \<Rightarrow> fdDir) \<Rightarrow> string \<times> bool \<Rightarrow> (int \<times> int) list" where
  "owned_by fds e =
     (case e of (name, isDir) \<Rightarrow>
        if \<not> isDir then []
        else (case (atoi name, fds name) of
                (Some pid, FdLinks links) \<Rightarrow> map (\<lambda>inode. (inode, pid)) (fd_inodes links)
              | _ \<Rightarrow> []))"

lemma fold_owner: "fold (\<lambda>i m. m(i \<mapsto> pid)) is m = m ++ map_of (rev (map (\<lambda>i. (i, pid)) is))"
  by (induction "is" arbitrary: m) simp_all

lemma scan_process_owner: "fst (scan_process fds e s) = fst s ++ map_of (rev (owned_by fds e))"
  by (cases e; cases s) (auto simp: scan_process_def owned_by_def fold_owner split: option.split fdDir.split)

lemma scan_processes_owner:
  "scan_processes ctxErr fds k es s = Inr s' \<Longrightarrow> fst s' = fst s ++ map_of (rev (concat (map (owned_by fds) es)))"
  by (induction ctxErr fds k es s rule: scan_processes.induct) (auto simp: scan_process_owner split: option.splits)

lemma scan_processes_end: "scan_processes ctxErr fds k es s = Inr s' \<Longrightarrow> s' = fold (scan_process fds) es s"
  by (induction ctxErr fds k es s rule: scan_processes.induct) (auto split: option.splits)

lemma owner_exact:
  assumes "buildInodePIDMap ctxErr fs fds dir = Inr (owner, st)" "fs_readDir fs dir = Inr es"
  shows "owner = map_of (rev (concat (map (owned_by fds) es)))"
  using scan_processes_owner [of ctxErr fds 0 es] assms by (fastforce simp: buildInodePIDMap_def map_add_def)

lemma fold_add_socket:
  "fold (add_socket fs dir owner) ss d =
     d\<lparr>da_listeners := da_listeners d @ map (listener_of fs dir owner) ss,
       da_tcp := da_tcp d + int (length (filter (\<lambda>s. prefix ''tcp'' (so_proto s)) ss)),
       da_udp := da_udp d + int (length (filter (\<lambda>s. \<not> prefix ''tcp'' (so_proto s)) ss)),
       da_resolved := da_resolved d + int (length (filter (\<lambda>s. owner (so_inode s) \<noteq> None) ss)),
       da_unresolvedCount := da_unresolvedCount d + int (length (filter (\<lambda>s. owner (so_inode s) = None) ss)),
       da_unresolved := da_unresolved d @ filter (\<lambda>s. owner (so_inode s) = None) ss\<rparr>"
proof (induction ss arbitrary: d)
  case Nil
  then show ?case by (cases d) simp
next
  case (Cons s ss)
  show ?case
    unfolding fold_step Cons.IH
    by (cases d; cases "prefix ''tcp'' (so_proto s)"; cases "owner (so_inode s)") (simp_all add: add_socket_def Let_def)
qed

lemma listener_order: "weak_order_on A listener_less"
  by (auto simp: weak_order_on_def listener_less_def split: if_splits)

text \<open>
  Property C38. The answer about listening services is exact. A socket belongs to the last process whose descriptors link to it, and to
  none when no readable directory does. Every socket of the tables is counted once as TCP or UDP and once as resolved or not, the
  unresolved ones are listed, and however the sort leaves equal ones, the listeners shown are the first 200 of all sockets in the order of
  port, protocol and address, each with its owner; the answer says when some are left out.
\<close>

theorem listening_services_exact:
  assumes "\<forall>ls. mset (shuffle ls) = mset ls"
    and "collectSockets dir table = Inr sockets" and "fs_readDir fs dir = Inr es"
    and "buildInodePIDMap ctxErr fs fds dir = Inr (owner, st)"
  shows "let d = listening_data fs dir shuffle owner st sockets
         in owner = map_of (rev (concat (map (owned_by fds) es))) \<and>
            da_tcp d + da_udp d = int (length sockets) \<and> da_resolved d + da_unresolvedCount d = int (length sockets) \<and>
            da_tcp d = int (length (filter (\<lambda>s. prefix ''tcp'' (so_proto s)) sockets)) \<and>
            da_unresolved d = filter (\<lambda>s. owner (so_inode s) = None) sockets \<and> da_unresolvedCount d = int (length (da_unresolved d)) \<and>
            (\<exists>all. mset all = mset (map (listener_of fs dir owner) sockets) \<and> sorted_wrt (\<lambda>a b. \<not> listener_less b a) all \<and>
               da_listeners d = take 200 all) \<and>
            da_truncated d = (length sockets > 200)"
proof -
  define d where "d = listening_data fs dir shuffle owner st sockets"
  define all where "all = go_sort listener_less (shuffle (map (listener_of fs dir owner) sockets))"
  have m: "mset all = mset (map (listener_of fs dir owner) sockets)" using assms(1) by (simp add: all_def)
  have s: "sorted_wrt (\<lambda>a b. \<not> listener_less b a) all" unfolding all_def by (rule sorted_go_sort [OF listener_order])
  have l: "length all = length sockets" using m by (metis length_map size_mset)
  have parts: "length (filter P sockets) + length (filter (\<lambda>s. \<not> P s) sockets) = length sockets" for P
    by (rule sum_length_filter_compl)
  have "da_listeners d = take 200 all \<and> da_truncated d = (length sockets > 200)"
    using l by (simp add: d_def listening_data_def fold_add_socket Let_def all_def maxListeners_def)
  moreover have "da_tcp d = int (length (filter (\<lambda>s. prefix ''tcp'' (so_proto s)) sockets))"
    "da_udp d = int (length (filter (\<lambda>s. \<not> prefix ''tcp'' (so_proto s)) sockets))"
    "da_resolved d = int (length (filter (\<lambda>s. owner (so_inode s) \<noteq> None) sockets))"
    "da_unresolved d = filter (\<lambda>s. owner (so_inode s) = None) sockets" "da_unresolvedCount d = int (length (da_unresolved d))"
    by (simp_all add: d_def listening_data_def fold_add_socket Let_def)
  ultimately show ?thesis
    using m s owner_exact [OF assms(4,3)] parts [of "\<lambda>s. prefix ''tcp'' (so_proto s)"] parts [of "\<lambda>s. owner (so_inode s) = None"]
    unfolding Let_def d_def [symmetric] by auto
qed

section \<open>Rows of the kernel\<close>

text \<open>
  The kernel prints an address as words in the memory of the machine, four bytes for IPv4 and sixteen for IPv6, and the port as a
  number. \<open>kr_others\<close> are the columns after the inode.
\<close>

record kernelRow =
  kr_slot :: nat
  kr_address :: "octets list"
  kr_port :: nat
  kr_remote :: "octets list"
  kr_remotePort :: nat
  kr_tx :: nat
  kr_rx :: nat
  kr_state :: nat
  kr_uid :: nat
  kr_inode :: nat
  kr_others :: "string list"

definition addr_hex :: "octets list \<Rightarrow> string" where
  "addr_hex ws = concat (map (\<lambda>w. hexU 8 (word_le w)) ws)"

definition row_words :: "kernelRow \<Rightarrow> string list" where
  "row_words r =
     [itoa_nat (kr_slot r) @ '':'', addr_hex (kr_address r) @ '':'' @ hexU 4 (kr_port r),
      addr_hex (kr_remote r) @ '':'' @ hexU 4 (kr_remotePort r), hexU 2 (kr_state r), hexU 8 (kr_tx r) @ '':'' @ hexU 8 (kr_rx r),
      ''00:00000000'', ''00000000'', itoa_nat (kr_uid r), ''0'', itoa_nat (kr_inode r)] @ kr_others r"

definition row_entry :: "string \<Rightarrow> kernelRow \<Rightarrow> sockEntry option" where
  "row_entry proto r =
     (if prefix ''tcp'' proto \<and> kr_state r \<noteq> 10 \<or> prefix ''udp'' proto \<and> kr_port r = 0 then None
      else Some \<lparr>so_proto = proto, so_address = (if suffix ''6'' proto then ip6_string else ip4_string) (concat (kr_address r)),
             so_port = int (kr_port r), so_uid = int (kr_uid r), so_inode = int (kr_inode r)\<rparr>)"

definition row_ok :: "string \<Rightarrow> kernelRow \<Rightarrow> bool" where
  "row_ok proto r \<longleftrightarrow>
     length (kr_address r) = (if suffix ''6'' proto then 4 else 1) \<and> list_all (\<lambda>w. length w = 4) (kr_address r) \<and>
     length (kr_remote r) = (if suffix ''6'' proto then 4 else 1) \<and> list_all (\<lambda>w. length w = 4) (kr_remote r) \<and>
     kr_port r < 65536 \<and> kr_remotePort r < 65536 \<and> kr_tx r < 2 ^ 32 \<and> kr_rx r < 2 ^ 32 \<and> kr_state r < 256 \<and> int (kr_uid r) \<le> max_int \<and> int (kr_inode r) \<le> max_int \<and>
     list_all (\<lambda>w. w \<noteq> [] \<and> list_all (\<lambda>c. \<not> is_space c) w) (kr_others r)"

lemma parse_word: "length w = 4 \<Longrightarrow> parse_uint 32 (hexU 8 (word_le w)) = Inr (word_le w)"
  using word_le_bound [of w] by (intro parse_uint_hexU) simp_all

lemma words_of_hex: "list_all (\<lambda>w. length w = 4) ws \<Longrightarrow> words_of (length ws) (addr_hex ws) = Some (concat ws)"
  by (induction ws) (simp_all add: addr_hex_def parse_word bytes_word_le)

lemma addr_hex_length: "length (addr_hex ws) = 8 * length ws"
  by (induction ws) (simp_all add: addr_hex_def)

lemma parse_address:
  assumes "list_all (\<lambda>w. length w = 4) ws"
  shows "length ws = 1 \<Longrightarrow> parseHexIPv4 (addr_hex ws) = Some (ip4_string (concat ws))"
    and "length ws = 4 \<Longrightarrow> parseHexIPv6 (addr_hex ws) = Some (ip6_string (concat ws))"
proof -
  assume "length ws = 1"
  then obtain w where "ws = [w]" by (auto simp: length_Suc_conv)
  then show "parseHexIPv4 (addr_hex ws) = Some (ip4_string (concat ws))"
    using assms by (simp add: parseHexIPv4_def addr_hex_def parse_word bytes_word_le)
next
  assume "length ws = 4"
  then show "parseHexIPv6 (addr_hex ws) = Some (ip6_string (concat ws))"
    using words_of_hex [OF assms] by (simp add: parseHexIPv6_def addr_hex_length)
qed

lemma addr_hex_plain: "c \<in> set (addr_hex ws) \<Longrightarrow> \<not> is_space c \<and> c \<noteq> CHR '':'' \<and> c \<noteq> CHR 0x0A"
  by (auto simp: addr_hex_def dest: hexU_plain)

lemma state_text: "n < 256 \<Longrightarrow> hexU 2 n = ''0A'' \<longleftrightarrow> n = 10"
proof
  assume n: "n < 256" and t: "hexU 2 n = ''0A''"
  have "parse_uint 8 (hexU 2 n) = Inr n" using n by (intro parse_uint_hexU) simp_all
  moreover have "parse_uint 8 ''0A'' = Inr 10" by code_simp
  ultimately show "n = 10" using t by simp
next
  assume "n = 10"
  moreover have "hexU 2 10 = ''0A''" by code_simp
  ultimately show "hexU 2 n = ''0A''" by simp
qed

lemma hexU_no_space: "list_all (\<lambda>c. \<not> is_space c) (hexU k v)" "list_all (\<lambda>c. \<not> is_space c) (addr_hex ws)"
  using hexU_plain addr_hex_plain by (auto simp: list_all_iff)

lemma row_fields: "row_ok proto r \<Longrightarrow> words_ok (row_words r)"
  by (simp add: row_words_def row_ok_def words_ok_others itoa_nat_plain hexU_no_space)

lemma parse_row: "row_ok proto r \<Longrightarrow> parseSocketLine (join '' '' (row_words r)) proto = row_entry proto r"
proof -
  assume ok: "row_ok proto r"
  have f: "text_fields (trim_space (join '' '' (row_words r))) = row_words r" by (rule words_fields [OF _ row_fields [OF ok]]) (simp add: is_space_def)
  have slot: "itoa_nat (kr_slot r) @ '':'' \<noteq> ''sl''" by (auto simp: append_eq_Cons_conv)
  have sp: "split_on CHR '':'' (addr_hex (kr_address r) @ '':'' @ hexU 4 (kr_port r)) = [addr_hex (kr_address r), hexU 4 (kr_port r)]"
  proof -
    have "CHR '':'' \<notin> set (addr_hex (kr_address r))" "CHR '':'' \<notin> set (hexU 4 (kr_port r))"
      using addr_hex_plain [of "CHR '':''"] hexU_plain [of "CHR '':''"] by blast+
    then show ?thesis by (simp add: split_on_append split_on_single)
  qed
  have port: "parseHexPort (hexU 4 (kr_port r)) = Some (int (kr_port r))"
    using ok by (simp add: parseHexPort_def parse_uint_hexU row_ok_def)
  have nums: "atoi (itoa_nat (kr_uid r)) = Some (int (kr_uid r))" "atoi (itoa_nat (kr_inode r)) = Some (int (kr_inode r))"
    using ok by (simp_all add: atoi_itoa_nat row_ok_def)
  have addr: "(if suffix ''6'' proto then parseHexIPv6 (addr_hex (kr_address r)) else parseHexIPv4 (addr_hex (kr_address r))) =
      Some ((if suffix ''6'' proto then ip6_string else ip4_string) (concat (kr_address r)))"
    using ok parse_address [of "kr_address r"] by (simp add: row_ok_def)
  have st: "hexU 2 (kr_state r) = tcpListenState \<longleftrightarrow> kr_state r = 10"
    using state_text [of "kr_state r"] ok by (simp add: row_ok_def tcpListenState_def)
  have cols: "row_words r ! 0 = itoa_nat (kr_slot r) @ '':''" "row_words r ! 1 = addr_hex (kr_address r) @ '':'' @ hexU 4 (kr_port r)"
    "row_words r ! 3 = hexU 2 (kr_state r)" "row_words r ! 7 = itoa_nat (kr_uid r)" "row_words r ! 9 = itoa_nat (kr_inode r)"
    "\<not> length (row_words r) < 10"
    by (simp_all add: row_words_def)
  show ?thesis
    unfolding parseSocketLine_def Let_def f cols sp list.case port option.case addr nums prod.case
    by (simp add: cols(6) slot st row_entry_def)
qed

lemma row_one_line: "row_ok proto r \<Longrightarrow> CHR 0x0A \<notin> set (join '' '' (row_words r))"
  using words_one_line [OF row_fields] by (simp add: is_space_def)

definition table_header :: string where
  "table_header = ''  sl  local_address rem_address   st tx_queue rx_queue tr tm->when retrnsmt   uid  timeout inode''"

definition kernel_table :: "kernelRow list \<Rightarrow> string" where
  "kernel_table rows = join [CHR 0x0A] (table_header # map (\<lambda>r. join '' '' (row_words r)) rows)"

lemma header_skipped: "parseSocketLine table_header proto = None"
proof -
  have "text_fields (trim_space table_header) ! 0 = ''sl''" by code_simp
  then show ?thesis by (simp add: parseSocketLine_def Let_def)
qed

lemma kernel_lines:
  assumes "\<forall>r \<in> set rows. row_ok proto r"
  shows "text_lines (kernel_table rows) = table_header # map (\<lambda>r. join '' '' (row_words r)) rows"
proof -
  have "CHR 0x0A \<notin> set table_header" by code_simp
  then show ?thesis unfolding text_lines_def kernel_table_def by (intro split_on_join) (use assms row_one_line in auto)
qed

text \<open>
  Whatever sockets a table lists, reading it gives, in order, the listening sockets of a TCP table and the bound sockets of a UDP table,
  each with the address in the byte order of the network, the port, the owner and the inode that the kernel printed.
\<close>

lemma socket_table_roundtrip:
  assumes "\<forall>r \<in> set rows. row_ok proto r"
  shows "parseSocketFile (kernel_table rows) proto = List.map_filter (row_entry proto) rows"
proof -
  have "text_lines (kernel_table rows) = table_header # map (\<lambda>r. join '' '' (row_words r)) rows" by (rule kernel_lines [OF assms])
  moreover have "List.map_filter (\<lambda>line. parseSocketLine line proto) (map (\<lambda>r. join '' '' (row_words r)) rows) = List.map_filter (row_entry proto) rows"
    using assms by (induction rows) (auto simp: map_filter_simps parse_row split: option.split)
  ultimately show ?thesis by (simp add: parseSocketFile_def map_filter_simps header_skipped)
qed

definition sample_row :: kernelRow where
  "sample_row = \<lparr>kr_slot = 0, kr_address = [[127, 0, 0, 1]], kr_port = 22, kr_remote = [[0, 0, 0, 0]], kr_remotePort = 0,
     kr_tx = 0, kr_rx = 0, kr_state = 10, kr_uid = 1000, kr_inode = 77, kr_others = [''1'']\<rparr>"

lemma sample_row_ok: "row_ok ''tcp'' sample_row"
  by (simp add: row_ok_def sample_row_def suffix_def is_space_def)

lemma sample_entry:
  "row_entry ''tcp'' sample_row = Some \<lparr>so_proto = ''tcp'', so_address = ''127.0.0.1'', so_port = 22, so_uid = 1000, so_inode = 77\<rparr>"
proof -
  have "ip4_string [127, 0, 0, 1] = ''127.0.0.1''" by code_simp
  moreover have "\<not> suffix ''6'' ''tcp''" by code_simp
  ultimately show ?thesis by (simp add: row_entry_def sample_row_def)
qed

definition sample_table :: "string \<Rightarrow> string + string" where
  "sample_table proto = (if proto = ''tcp'' then Inr (join '' '' (row_words sample_row)) else Inl ''no such file'')"

definition sample_fds :: "string \<Rightarrow> fdDir" where
  "sample_fds name = (if name = ''7'' then FdLinks [Some ''/dev/null'', Some ''socket:[77]''] else FdRefused)"

definition sample_fs :: procFs where
  "sample_fs = \<lparr>fs_readFile = (\<lambda>_. None), fs_readDir = (\<lambda>_. Inr [(''7'', True), (''9'', True), (''stat'', False)])\<rparr>"

lemma sample_sockets:
  "collectSockets ''/proc'' sample_table = Inr [\<lparr>so_proto = ''tcp'', so_address = ''127.0.0.1'', so_port = 22, so_uid = 1000, so_inode = 77\<rparr>]"
  by (simp add: collectSockets_def sample_table_def parseSocketFile_def text_lines_def map_filter_simps
      split_on_single row_one_line [OF sample_row_ok] parse_row [OF sample_row_ok] sample_entry)

lemma sample_fd_links: "fd_inodes [Some ''/dev/null'', Some ''socket:[77]''] = [77]"
  by code_simp

lemma sample_pids: "atoi ''7'' = Some 7" "atoi ''9'' = Some 9"
  by code_simp+

theorem listening_services_exact_witness:
  "li_pid (hd (da_listeners (listening_data sample_fs ''/proc'' (\<lambda>ls. ls) (\<lambda>i. if i = 77 then Some 7 else None)
       \<lparr>ss_processesScanned = 1, ss_fdDirsSkipped = 1\<rparr>
       [\<lparr>so_proto = ''tcp'', so_address = ''127.0.0.1'', so_port = 22, so_uid = 1000, so_inode = 77\<rparr>]))) = 7"
proof -
  have b: "buildInodePIDMap (\<lambda>_. None) sample_fs sample_fds ''/proc'' =
      Inr (\<lambda>i. if i = 77 then Some 7 else None, \<lparr>ss_processesScanned = 1, ss_fdDirsSkipped = 1\<rparr>)"
    by (simp add: buildInodePIDMap_def sample_fs_def scan_process_def sample_fds_def sample_fd_links sample_pids fun_eq_iff)
  have e: "fs_readDir sample_fs ''/proc'' = Inr [(''7'', True), (''9'', True), (''stat'', False)]" by (simp add: sample_fs_def)
  show ?thesis
    using listening_services_exact [OF _ sample_sockets e b, of "\<lambda>ls. ls"] by (auto simp: Let_def listener_of_def)
qed

end
