(* ===== verification/Sockets.thy ===== *)
theory Sockets
  imports Listening
begin

text \<open>
  Model of \<open>internal/registry/tools/socketstats\<close>: all sockets of the kernel's tables with their addresses, states and queues, or of the
  output of \<open>ss\<close> when the tables give none. Tables and the output of the command are arguments.
\<close>

section \<open>Addresses and states\<close>

definition hexIPPort :: "(string \<Rightarrow> string option) \<Rightarrow> string \<Rightarrow> (string \<times> int) option" where
  "hexIPPort parseIP hexStr =
     (case split_on CHR '':'' hexStr of
        [host, portHex] \<Rightarrow>
          (case parseIP host of
             None \<Rightarrow> None
           | Some ip \<Rightarrow> (case parse_uint 16 portHex of Inl _ \<Rightarrow> None | Inr port \<Rightarrow> Some (ip, int port)))
      | _ \<Rightarrow> None)"

definition parseIPv4HexIPPort :: "string \<Rightarrow> (string \<times> int) option" where
  "parseIPv4HexIPPort =
     hexIPPort (\<lambda>host. case parse_uint 32 host of Inl _ \<Rightarrow> None | Inr val \<Rightarrow> Some (ip4_string (bytes_le val)))"

definition parseIPv6HexIPPort :: "string \<Rightarrow> (string \<times> int) option" where
  "parseIPv6HexIPPort =
     hexIPPort (\<lambda>host. if length host \<noteq> 32 then None else map_option ip6_string (words_of 4 host))"

definition tcp_states :: "(string \<times> string) list" where
  "tcp_states = [(''01'', ''ESTABLISHED''), (''02'', ''SYN_SENT''), (''03'', ''SYN_RECV''), (''04'', ''FIN_WAIT1''), (''05'', ''FIN_WAIT2''),
     (''06'', ''TIME_WAIT''), (''07'', ''CLOSE''), (''08'', ''CLOSE_WAIT''), (''09'', ''LAST_ACK''), (''0A'', ''LISTEN''), (''0B'', ''CLOSING'')]"

definition mapTCPState :: "string \<Rightarrow> string" where
  "mapTCPState st = (case map_of tcp_states st of None \<Rightarrow> ''UNKNOWN'' | Some name \<Rightarrow> name)"

definition mapUDPState :: "string \<Rightarrow> string" where
  "mapUDPState st = (if st = ''01'' then ''ESTAB'' else if st = ''07'' then ''UNCONN'' else ''UNKNOWN'')"

record socketEntry =
  sk_protocol :: string
  sk_localIP :: string
  sk_localPort :: int
  sk_remoteIP :: string
  sk_remotePort :: int
  sk_state :: string
  sk_recvQueue :: int
  sk_sendQueue :: int
  sk_inode :: int
  sk_uid :: int

definition socket_queues :: "string \<Rightarrow> int \<times> int" where
  "socket_queues s =
     (case split_on CHR '':'' s of
        [tx, rx] \<Rightarrow> (int (either_value (parse_uint 32 tx)), int (either_value (parse_uint 32 rx)))
      | _ \<Rightarrow> (0, 0))"

definition proc_socket :: "string \<Rightarrow> string \<Rightarrow> socketEntry option" where
  "proc_socket proto line0 =
     (let line = trim_space line0; fields = text_fields line
      in if line = [] \<or> prefix ''sl'' line then None
         else if length fields < 10 then None
         else (let parse = (if suffix ''6'' proto then parseIPv6HexIPPort else parseIPv4HexIPPort);
                   (txQ, rxQ) = socket_queues (fields ! 4)
               in case (parse (fields ! 1), parse (fields ! 2)) of
                    (Some (localIP, localPort), Some (remoteIP, remotePort)) \<Rightarrow>
                      Some \<lparr>sk_protocol = proto, sk_localIP = localIP, sk_localPort = localPort, sk_remoteIP = remoteIP,
                        sk_remotePort = remotePort, sk_state = (if prefix ''tcp'' proto then mapTCPState (fields ! 3) else mapUDPState (fields ! 3)),
                        sk_recvQueue = rxQ, sk_sendQueue = txQ, sk_inode = atoi_value (fields ! 9), sk_uid = atoi_value (fields ! 7)\<rparr>
                  | _ \<Rightarrow> None))"

definition parseProcSockets :: "string \<Rightarrow> string \<Rightarrow> socketEntry list" where
  "parseProcSockets content proto = List.map_filter (proc_socket proto) (text_lines content)"

section \<open>The output of the command\<close>

definition parseAddrPortString :: "string \<Rightarrow> string \<times> int" where
  "parseAddrPortString s =
     (case last_index_byte s CHR '':'' of
        None \<Rightarrow> (s, 0)
      | Some idx \<Rightarrow>
          (let ipPart = take idx s; portPart = drop (idx + 1) s;
               ip = (if prefix ''['' ipPart \<and> suffix '']'' ipPart then take (length ipPart - 2) (drop 1 ipPart) else ipPart)
           in if portPart = ''*'' then (ip, 0) else (ip, atoi_value portPart)))"

definition ss_socket :: "string \<Rightarrow> socketEntry option" where
  "ss_socket line0 =
     (let line = trim_space line0; fields = text_fields line
      in if line = [] \<or> length fields < 6 then None
         else (case (parseAddrPortString (fields ! 4), parseAddrPortString (fields ! 5)) of
                 ((localIP, localPort), (remoteIP, remotePort)) \<Rightarrow>
                   Some \<lparr>sk_protocol = to_lower (fields ! 0), sk_localIP = localIP, sk_localPort = localPort, sk_remoteIP = remoteIP,
                     sk_remotePort = remotePort, sk_state = fields ! 1, sk_recvQueue = atoi_value (fields ! 2),
                     sk_sendQueue = atoi_value (fields ! 3), sk_inode = 0, sk_uid = 0\<rparr>))"

definition parseSsFallback :: "string \<Rightarrow> socketEntry list" where
  "parseSsFallback output = List.map_filter ss_socket (text_lines output)"

section \<open>The tool\<close>

definition native_sockets :: "(string \<Rightarrow> string option) \<Rightarrow> socketEntry list" where
  "native_sockets table =
     concat (map (\<lambda>proto. case table proto of None \<Rightarrow> [] | Some c \<Rightarrow> parseProcSockets c proto) [''tcp'', ''udp'', ''tcp6'', ''udp6''])"

definition all_sockets :: "(string \<Rightarrow> string option) \<Rightarrow> string option \<Rightarrow> socketEntry list" where
  "all_sockets table ssOutput =
     (if native_sockets table = [] then (case ssOutput of None \<Rightarrow> [] | Some out \<Rightarrow> parseSsFallback out) else native_sockets table)"

text \<open>The states are compared in upper case.\<close>

definition to_upper :: "string \<Rightarrow> string" where
  "to_upper s = map (\<lambda>c. if 97 \<le> (of_char c :: nat) \<and> (of_char c :: nat) \<le> 122 then char_of (of_char c - (32 :: nat)) else c) s"

definition in_states :: "string list \<Rightarrow> socketEntry list \<Rightarrow> int" where
  "in_states names ss = int (length (filter (\<lambda>s. to_upper (sk_state s) \<in> set names) ss))"

definition socket_text :: "socketEntry \<Rightarrow> string" where
  "socket_text s = json_object (
     [(''protocol'', json_string (sk_protocol s)), (''local_ip'', json_string (sk_localIP s)), (''local_port'', itoa (sk_localPort s)),
      (''remote_ip'', json_string (sk_remoteIP s)), (''remote_port'', itoa (sk_remotePort s)), (''state'', json_string (sk_state s)),
      (''recv_queue'', itoa (sk_recvQueue s)), (''send_queue'', itoa (sk_sendQueue s))] @
     if_number ''inode'' (sk_inode s) @ if_number ''uid'' (sk_uid s))"

definition sockets_summary :: "socketEntry list \<Rightarrow> string" where
  "sockets_summary ss = ''Socket Statistics: '' @ itoa (int (length ss)) @ '' active sockets (established: '' @
     itoa (in_states [''ESTAB'', ''ESTABLISHED''] ss) @ '', listening: '' @ itoa (in_states [''LISTEN'', ''LISTENING''] ss) @
     '', time-wait: '' @ itoa (in_states [''TIME-WAIT'', ''TIME_WAIT''] ss) @ '')''"

definition sockets_IsSupported :: "bool \<Rightarrow> bool \<Rightarrow> bool \<times> string" where
  "sockets_IsSupported hasProcNet hasSs =
     (if hasProcNet \<or> hasSs then (True, []) else (False, ''Socket statistics not supported (missing /proc/net and ss binary)''))"

definition sockets_Execute :: "string \<Rightarrow> int \<Rightarrow> (string \<Rightarrow> string option) \<Rightarrow> string option \<Rightarrow> envelope" where
  "sockets_Execute timestamp elapsedMs table ssOutput =
     (let ss = all_sockets table ssOutput
      in (NewResult timestamp ''get_socket_stats'' StatusOK (sockets_summary ss)
            (Some (json_object [(''sockets'', nil_list socket_text ss)])))\<lparr>ev_executionTimeMs := elapsedMs\<rparr>)"

section \<open>Two readers of one table\<close>

definition row_socket :: "string \<Rightarrow> kernelRow \<Rightarrow> socketEntry" where
  "row_socket proto r =
     (let show_ip = (if suffix ''6'' proto then ip6_string else ip4_string); state = hexU 2 (kr_state r)
      in \<lparr>sk_protocol = proto, sk_localIP = show_ip (concat (kr_address r)), sk_localPort = int (kr_port r),
          sk_remoteIP = show_ip (concat (kr_remote r)), sk_remotePort = int (kr_remotePort r),
          sk_state = (if prefix ''tcp'' proto then mapTCPState state else mapUDPState state), sk_recvQueue = int (kr_rx r),
          sk_sendQueue = int (kr_tx r), sk_inode = int (kr_inode r), sk_uid = int (kr_uid r)\<rparr>)"

lemma hex_colon:
  "split_on CHR '':'' (hexU k v @ '':'' @ hexU l w) = [hexU k v, hexU l w]"
  "split_on CHR '':'' (addr_hex ws @ '':'' @ hexU l w) = [addr_hex ws, hexU l w]"
proof -
  have "CHR '':'' \<notin> set (addr_hex ws)" "CHR '':'' \<notin> set (hexU k v)" for k v
    using addr_hex_plain [of "CHR '':''"] hexU_plain [of "CHR '':''"] by blast+
  then show "split_on CHR '':'' (hexU k v @ '':'' @ hexU l w) = [hexU k v, hexU l w]"
    "split_on CHR '':'' (addr_hex ws @ '':'' @ hexU l w) = [addr_hex ws, hexU l w]"
    by (simp_all add: split_on_append split_on_single)
qed

lemma parse_ip_port:
  assumes "length ws = (if suffix ''6'' proto then 4 else 1)" "list_all (\<lambda>w. length w = 4) ws" "port < 65536"
  shows "(if suffix ''6'' proto then parseIPv6HexIPPort else parseIPv4HexIPPort) (addr_hex ws @ '':'' @ hexU 4 port) =
    Some ((if suffix ''6'' proto then ip6_string else ip4_string) (concat ws), int port)"
proof -
  have p: "parse_uint 16 (hexU 4 port) = Inr port" using assms(3) by (simp add: parse_uint_hexU)
  show ?thesis
  proof (cases "suffix ''6'' proto")
    case True
    then show ?thesis
      using parse_address(2) [OF assms(2)] assms(1) p by (simp add: parseIPv6HexIPPort_def hexIPPort_def hex_colon(2) [simplified] parseHexIPv6_def)
  next
    case False
    then obtain w where "ws = [w]" using assms(1) by (auto simp: length_Suc_conv)
    moreover have "addr_hex [w] = hexU 8 (word_le w)" by (simp add: addr_hex_def)
    ultimately show ?thesis
      using False assms(2) p by (simp add: parseIPv4HexIPPort_def hexIPPort_def hex_colon(1) [simplified] parse_word bytes_word_le)
  qed
qed

lemma proc_socket_row: "row_ok proto r \<Longrightarrow> proc_socket proto (join '' '' (row_words r)) = Some (row_socket proto r)"
proof -
  assume ok: "row_ok proto r"
  note w = row_fields [OF ok]
  have f: "text_fields (join '' '' (row_words r)) = row_words r" "trim_space (join '' '' (row_words r)) = join '' '' (row_words r)"
    using w by (simp_all add: fields_separated is_space_def words_trim)
  have cols: "row_words r ! 1 = addr_hex (kr_address r) @ '':'' @ hexU 4 (kr_port r)"
    "row_words r ! 2 = addr_hex (kr_remote r) @ '':'' @ hexU 4 (kr_remotePort r)"
    "row_words r ! 3 = hexU 2 (kr_state r)" "row_words r ! 4 = hexU 8 (kr_tx r) @ '':'' @ hexU 8 (kr_rx r)"
    "row_words r ! 7 = itoa_nat (kr_uid r)" "row_words r ! 9 = itoa_nat (kr_inode r)" "\<not> length (row_words r) < 10"
    by (simp_all add: row_words_def)
  have "join '' '' (row_words r) = (itoa_nat (kr_slot r) @ '':'') @ CHR '' '' # join '' '' (tl (row_words r))"
    by (simp add: row_words_def)
  then have head: "join '' '' (row_words r) \<noteq> []" "\<not> prefix ''sl'' (join '' '' (row_words r))"
    using itoa_nat_digits [of "kr_slot r"] by (cases "itoa_nat (kr_slot r)"; auto simp: is_digit_def)+
  have nums: "atoi_value (itoa_nat (kr_uid r)) = int (kr_uid r)" "atoi_value (itoa_nat (kr_inode r)) = int (kr_inode r)"
    using ok by (auto simp: row_ok_def intro!: atoi_value_Some atoi_itoa_nat)
  have queues: "socket_queues (hexU 8 (kr_tx r) @ '':'' @ hexU 8 (kr_rx r)) = (int (kr_tx r), int (kr_rx r))"
    using ok by (simp add: socket_queues_def hex_colon(1) [simplified] parse_uint_hexU either_value_def row_ok_def)
  have "(if suffix ''6'' proto then parseIPv6HexIPPort else parseIPv4HexIPPort) (addr_hex (kr_address r) @ '':'' @ hexU 4 (kr_port r)) =
      Some ((if suffix ''6'' proto then ip6_string else ip4_string) (concat (kr_address r)), int (kr_port r))"
    "(if suffix ''6'' proto then parseIPv6HexIPPort else parseIPv4HexIPPort) (addr_hex (kr_remote r) @ '':'' @ hexU 4 (kr_remotePort r)) =
      Some ((if suffix ''6'' proto then ip6_string else ip4_string) (concat (kr_remote r)), int (kr_remotePort r))"
    by (intro parse_ip_port; use ok in \<open>simp add: row_ok_def\<close>)+
  note parts = this
  show ?thesis
    unfolding proc_socket_def Let_def f cols(1-6) parts option.case prod.case queues nums
    by (simp add: head cols(7) row_socket_def Let_def)
qed

lemma tcp_listen_state: "n < 256 \<Longrightarrow> mapTCPState (hexU 2 n) = ''LISTEN'' \<longleftrightarrow> n = 10"
  using state_text [of n] by (auto simp: mapTCPState_def tcp_states_def split: if_splits)

definition is_service :: "string \<Rightarrow> socketEntry \<Rightarrow> bool" where
  "is_service proto s = (if prefix ''tcp'' proto then sk_state s = ''LISTEN'' else sk_localPort s \<noteq> 0)"

definition service_of :: "socketEntry \<Rightarrow> sockEntry" where
  "service_of s = \<lparr>so_proto = sk_protocol s, so_address = sk_localIP s, so_port = sk_localPort s, so_uid = sk_uid s, so_inode = sk_inode s\<rparr>"

lemma row_service:
  assumes "row_ok proto r" "proto \<in> {''tcp'', ''tcp6'', ''udp'', ''udp6''}"
  shows "row_entry proto r = (if is_service proto (row_socket proto r) then Some (service_of (row_socket proto r)) else None)"
proof -
  have st: "kr_state r < 256" using assms(1) by (simp add: row_ok_def)
  have "prefix ''tcp'' proto \<longleftrightarrow> \<not> prefix ''udp'' proto" using assms(2) by auto
  then show ?thesis by (cases "prefix ''tcp'' proto") (auto simp: row_entry_def row_socket_def Let_def is_service_def service_of_def tcp_listen_state [OF st])
qed

lemma map_filter_if: "(\<And>x. x \<in> set xs \<Longrightarrow> f x = (if P (g x) then Some (h (g x)) else None)) \<Longrightarrow>
   List.map_filter f xs = map h (filter P (map g xs))"
  by (induction xs) (simp_all add: map_filter_simps)

text \<open>
  The two tools that read the kernel's tables of sockets read them back and agree. Whatever sockets a table lists, with addresses of the
  length of its family, \<open>get_socket_stats\<close> gives all of them in order, with addresses in the byte order of the network,
  ports, queues, owner and inode as the kernel printed them; and what \<open>get_listening_services\<close> takes from the same table are exactly those
  of them that listen, or for UDP are bound, with the same address, port, owner and inode.
\<close>

theorem socket_tables_read_back:
  assumes "\<forall>r \<in> set rows. row_ok proto r" and "proto \<in> {''tcp'', ''tcp6'', ''udp'', ''udp6''}"
  shows "parseProcSockets (kernel_table rows) proto = map (row_socket proto) rows \<and>
    parseSocketFile (kernel_table rows) proto =
      map service_of (filter (is_service proto) (parseProcSockets (kernel_table rows) proto))"
proof -
  have "proc_socket proto table_header = None"
  proof -
    have "prefix ''sl'' (trim_space table_header)" by code_simp
    then show ?thesis by (simp add: proc_socket_def Let_def)
  qed
  moreover have "List.map_filter (proc_socket proto) (map (\<lambda>r. join '' '' (row_words r)) rows) = map (row_socket proto) rows"
    using assms(1) by (induction rows) (simp_all add: map_filter_simps proc_socket_row)
  ultimately have all: "parseProcSockets (kernel_table rows) proto = map (row_socket proto) rows"
    using kernel_lines [OF assms(1)] by (simp add: parseProcSockets_def map_filter_simps)
  have "List.map_filter (row_entry proto) rows = map service_of (filter (is_service proto) (map (row_socket proto) rows))"
    by (rule map_filter_if) (use assms row_service in blast)
  then show ?thesis using all socket_table_roundtrip [OF assms(1)] by simp
qed

theorem socket_tables_read_back_witness:
  "(\<forall>r \<in> set [sample_row, sample_row\<lparr>kr_state := 1\<rparr>]. row_ok ''tcp'' r) \<and>
   parseSocketFile (kernel_table [sample_row, sample_row\<lparr>kr_state := 1\<rparr>]) ''tcp'' =
     [\<lparr>so_proto = ''tcp'', so_address = ''127.0.0.1'', so_port = 22, so_uid = 1000, so_inode = 77\<rparr>]"
proof -
  have ok: "\<forall>r \<in> set [sample_row, sample_row\<lparr>kr_state := 1\<rparr>]. row_ok ''tcp'' r"
    using sample_row_ok by (simp add: row_ok_def sample_row_def)
  have "hexU 2 10 = ''0A''" "hexU 2 1 = ''01''" "ip4_string [127, 0, 0, 1] = ''127.0.0.1''" "\<not> suffix ''6'' ''tcp''" by code_simp+
  then show ?thesis
    using ok socket_tables_read_back [OF ok]
    by (simp add: row_socket_def Let_def sample_row_def mapTCPState_def tcp_states_def is_service_def service_of_def)
qed

end
