(* ===== verification/OpenFiles.thy ===== *)
theory OpenFiles
  imports Listening JsonDecode
begin

text \<open>
  Model of \<open>internal/registry/tools/openfiles\<close>: the processes that hold files open under a path, found through the links of their file
  descriptors. Directories and links are arguments, as each is read once.
\<close>

section \<open>Arguments\<close>

definition of_defaultLimit :: int where "of_defaultLimit = 20"

definition of_maxLimit :: int where "of_maxLimit = 100"

definition examplePathsCap :: nat where "examplePathsCap = 3"

definition deletedSuffix :: string where "deletedSuffix = '' (deleted)''"

definition of_decode :: "string \<Rightarrow> (string \<times> int) option" where
  "of_decode args =
     (if args = [] then Some ([], 0)
      else case json_parse args of
             None \<Rightarrow> None
           | Some j \<Rightarrow>
               (case (decode_member dec_string [] ''path'' j, decode_member dec_int 0 ''limit'' j) of
                  (Some path, Some limit) \<Rightarrow> Some (path, limit)
                | _ \<Rightarrow> None))"

definition of_parseArgs :: "(string \<Rightarrow> string) \<Rightarrow> string \<Rightarrow> string + string \<times> nat" where
  "of_parseArgs argError args =
     (case of_decode args of
        None \<Rightarrow> Inl (''failed to parse arguments: '' @ argError args)
      | Some (path, n) \<Rightarrow>
          if path = [] then Inl ''missing required parameter: path (mount point or path prefix)''
          else (let limit = (if n \<le> 0 then of_defaultLimit else n)
                in Inr (path, nat (if limit > of_maxLimit then of_maxLimit else limit))))"

section \<open>The scan\<close>

record fdScan =
  fc_count :: int
  fc_deleted :: int
  fc_examples :: "string list"

definition scan_link :: "string \<Rightarrow> string option \<Rightarrow> fdScan \<Rightarrow> fdScan" where
  "scan_link pre link sc =
     (case link of
        None \<Rightarrow> sc
      | Some target0 \<Rightarrow>
          (let deleted = suffix deletedSuffix target0; target = trim_suffix deletedSuffix target0
           in if \<not> prefix pre target then sc
              else (let s1 = sc\<lparr>fc_count := fc_count sc + 1\<rparr>;
                        s2 = (if deleted then s1\<lparr>fc_deleted := fc_deleted s1 + 1\<rparr> else s1)
                    in if length (fc_examples s2) < examplePathsCap then s2\<lparr>fc_examples := fc_examples s2 @ [target]\<rparr> else s2)))"

definition scanFDDir :: "string \<Rightarrow> string option list \<Rightarrow> fdScan" where
  "scanFDDir pre links = fold (scan_link pre) links \<lparr>fc_count = 0, fc_deleted = 0, fc_examples = []\<rparr>"

definition of_readComm :: "procFs \<Rightarrow> string \<Rightarrow> string \<Rightarrow> string" where
  "of_readComm fs dir name =
     (case fs_readFile fs (path_join (path_join dir name) ''comm'') of
        None \<Rightarrow> ''unknown''
      | Some raw \<Rightarrow> (let comm = trim_space raw in if comm = [] then ''unknown'' else comm))"

record processFiles =
  pf_pid :: int
  pf_comm :: string
  pf_fdCount :: int
  pf_examples :: "string list"
  pf_hasDeleted :: bool

record openData =
  od_total :: int
  od_processes :: "processFiles list"
  od_deleted :: int
  od_skipped :: int

definition scan_files :: "procFs \<Rightarrow> string \<Rightarrow> (string \<Rightarrow> fdDir) \<Rightarrow> string \<Rightarrow> string \<times> bool \<Rightarrow> openData \<Rightarrow> openData" where
  "scan_files fs dir fds pre e d =
     (case e of (name, isDir) \<Rightarrow>
        if \<not> isDir then d
        else case atoi name of
               None \<Rightarrow> d
             | Some pid \<Rightarrow>
                 (case fds name of
                    FdRefused \<Rightarrow> d\<lparr>od_skipped := od_skipped d + 1\<rparr>
                  | FdGone \<Rightarrow> d
                  | FdLinks links \<Rightarrow>
                      (let sc = scanFDDir pre links
                       in if fc_count sc = 0 then d
                          else d\<lparr>od_total := od_total d + fc_count sc, od_deleted := od_deleted d + fc_deleted sc,
                                 od_processes := od_processes d @ [\<lparr>pf_pid = pid, pf_comm = of_readComm fs dir name, pf_fdCount = fc_count sc,
                                   pf_examples = fc_examples sc, pf_hasDeleted = (fc_deleted sc > 0)\<rparr>]\<rparr>)))"

fun scan_all_files :: "(nat \<Rightarrow> string option) \<Rightarrow> procFs \<Rightarrow> string \<Rightarrow> (string \<Rightarrow> fdDir) \<Rightarrow> string \<Rightarrow> nat \<Rightarrow> (string \<times> bool) list \<Rightarrow> openData \<Rightarrow>
    string + openData" where
  "scan_all_files ctxErr fs dir fds pre k [] d = Inr d"
| "scan_all_files ctxErr fs dir fds pre k (e # es) d =
     (case ctxErr k of Some err \<Rightarrow> Inl err | None \<Rightarrow> scan_all_files ctxErr fs dir fds pre (Suc k) es (scan_files fs dir fds pre e d))"

definition files_less :: "processFiles \<Rightarrow> processFiles \<Rightarrow> bool" where
  "files_less a b \<longleftrightarrow> (if pf_fdCount a \<noteq> pf_fdCount b then pf_fdCount a > pf_fdCount b else pf_pid a < pf_pid b)"

text \<open>\<open>shuffle\<close> is the order in which the sort, which is not stable, leaves entries that compare equal.\<close>

definition rank_files :: "(processFiles list \<Rightarrow> processFiles list) \<Rightarrow> nat \<Rightarrow> openData \<Rightarrow> openData" where
  "rank_files shuffle limit d = d\<lparr>od_processes := take limit (go_sort files_less (shuffle (od_processes d)))\<rparr>"

definition files_text :: "processFiles \<Rightarrow> string" where
  "files_text p = json_object ([(''pid'', itoa (pf_pid p)), (''comm'', json_string (pf_comm p)), (''fd_count'', itoa (pf_fdCount p))] @
     if_list ''example_paths'' json_string (pf_examples p) @ [(''has_deleted'', json_bool (pf_hasDeleted p))])"

definition openfiles_text :: "string \<Rightarrow> openData \<Rightarrow> string" where
  "openfiles_text path d = json_object ([(''path'', json_string path), (''total_matching_fds'', itoa (od_total d))] @
     if_list ''processes'' files_text (od_processes d) @
     [(''deleted_open_count'', itoa (od_deleted d)), (''processes_skipped'', itoa (od_skipped d))])"

definition openfiles_IsSupported :: "bool \<Rightarrow> procFs \<Rightarrow> string \<Rightarrow> bool \<times> string" where
  "openfiles_IsSupported isLinux fs dir =
     (if \<not> isLinux then (False, ''requires Linux procfs'')
      else (let selfFD = path_join (path_join dir ''self'') ''fd''
            in case fs_readDir fs selfFD of
                 Inl err \<Rightarrow> (False, selfFD @ '' is not readable: '' @ err)
               | Inr _ \<Rightarrow> (True, [])))"

definition no_files :: openData where
  "no_files = \<lparr>od_total = 0, od_processes = [], od_deleted = 0, od_skipped = 0\<rparr>"

definition openfiles_Execute :: "string \<Rightarrow> int \<Rightarrow> (string \<Rightarrow> string) \<Rightarrow> procFs \<Rightarrow> string \<Rightarrow> (nat \<Rightarrow> string option) \<Rightarrow> (string \<Rightarrow> fdDir) \<Rightarrow>
    (processFiles list \<Rightarrow> processFiles list) \<Rightarrow> string \<Rightarrow> envelope" where
  "openfiles_Execute timestamp elapsedMs argError fs dir ctxErr fds shuffle args =
     (let fail = reg_NewErrorResult timestamp ''get_open_files''
      in case of_parseArgs argError args of
           Inl message \<Rightarrow> fail message
         | Inr (path, limit) \<Rightarrow>
             (case fs_readDir fs dir of
                Inl err \<Rightarrow> fail (''failed to read '' @ dir @ '': '' @ err)
              | Inr es \<Rightarrow>
                  (case scan_all_files ctxErr fs dir fds path 0 es no_files of
                     Inl err \<Rightarrow> fail (''cancelled: '' @ err)
                   | Inr d \<Rightarrow>
                       deterministic timestamp elapsedMs ''get_open_files'' StatusOK
                         (itoa (od_total d) @ '' open fd(s) under '' @ path @ '' across '' @ itoa (int (length (od_processes d))) @
                          '' process(es), '' @ itoa (od_deleted d) @ '' deleted-but-open'')
                         (openfiles_text path (rank_files shuffle limit d)))))"

section \<open>What is found\<close>

text \<open>The descriptors of a process that are open under a path, as the target without the mark of a deleted file and the mark.\<close>

definition matching :: "string \<Rightarrow> string option list \<Rightarrow> (string \<times> bool) list" where
  "matching pre links =
     filter (\<lambda>(target, deleted). prefix pre target)
       (map (\<lambda>t. (trim_suffix deletedSuffix t, suffix deletedSuffix t)) (List.map_filter (\<lambda>l. l) links))"

definition found_in :: "procFs \<Rightarrow> string \<Rightarrow> (string \<Rightarrow> fdDir) \<Rightarrow> string \<Rightarrow> string \<times> bool \<Rightarrow> (processFiles \<times> (string \<times> bool) list) list" where
  "found_in fs dir fds pre e =
     (case e of (name, isDir) \<Rightarrow>
        (case (atoi name, fds name) of
           (Some pid, FdLinks links) \<Rightarrow>
             (let ms = matching pre links
              in if isDir \<and> ms \<noteq> []
                 then [(\<lparr>pf_pid = pid, pf_comm = of_readComm fs dir name, pf_fdCount = int (length ms), pf_examples = take 3 (map fst ms),
                         pf_hasDeleted = list_ex snd ms\<rparr>, ms)]
                 else [])
         | _ \<Rightarrow> []))"

definition refused :: "(string \<Rightarrow> fdDir) \<Rightarrow> string \<times> bool \<Rightarrow> bool" where
  "refused fds e = (case e of (name, isDir) \<Rightarrow> isDir \<and> atoi name \<noteq> None \<and> fds name = FdRefused)"

lemma fold_scan_link:
  "fold (scan_link pre) links sc =
     (let ms = matching pre links
      in sc\<lparr>fc_count := fc_count sc + int (length ms), fc_deleted := fc_deleted sc + int (length (filter snd ms)),
            fc_examples := fc_examples sc @ take (examplePathsCap - length (fc_examples sc)) (map fst ms)\<rparr>)"
proof (induction links arbitrary: sc)
  case Nil
  then show ?case by (simp add: matching_def map_filter_simps)
next
  case (Cons l links)
  have m: "matching pre (l # links) =
      (case l of None \<Rightarrow> [] | Some t \<Rightarrow> if prefix pre (trim_suffix deletedSuffix t) then [(trim_suffix deletedSuffix t, suffix deletedSuffix t)] else []) @
      matching pre links"
    by (cases l) (simp_all add: matching_def map_filter_simps)
  show ?case
    unfolding fold_step Cons.IH m
    by (cases l; cases sc) (auto simp: scan_link_def Let_def take_Cons')
qed

lemma scan_matching:
  "scanFDDir pre links = \<lparr>fc_count = int (length (matching pre links)), fc_deleted = int (length (filter snd (matching pre links))),
     fc_examples = take 3 (map fst (matching pre links))\<rparr>"
  by (simp add: scanFDDir_def fold_scan_link Let_def examplePathsCap_def)

lemma some_deleted: "filter snd ms = [] \<longleftrightarrow> \<not> list_ex snd ms"
  by (induction ms) auto

lemma scan_files_found:
  "scan_files fs dir fds pre e d =
     d\<lparr>od_total := od_total d + int (length (concat (map snd (found_in fs dir fds pre e)))),
       od_deleted := od_deleted d + int (length (filter snd (concat (map snd (found_in fs dir fds pre e))))),
       od_processes := od_processes d @ map fst (found_in fs dir fds pre e),
       od_skipped := od_skipped d + of_bool (refused fds e)\<rparr>"
  by (cases e; cases d; cases "atoi (fst e)"; cases "fds (fst e)"; cases "snd e")
    (auto simp: scan_files_def found_in_def refused_def scan_matching Let_def some_deleted)

lemma scan_all_found:
  "scan_all_files ctxErr fs dir fds pre k es d = Inr d' \<Longrightarrow>
   d' = (let all = concat (map (found_in fs dir fds pre) es); ms = concat (map snd all)
         in d\<lparr>od_total := od_total d + int (length ms), od_deleted := od_deleted d + int (length (filter snd ms)),
              od_processes := od_processes d @ map fst all, od_skipped := od_skipped d + int (length (filter (refused fds) es))\<rparr>)"
proof (induction ctxErr fs dir fds pre k es d rule: scan_all_files.induct)
  case (1 ctxErr fs dir fds pre k d)
  then show ?case by simp
next
  case (2 ctxErr fs dir fds pre k e es d)
  then have k: "ctxErr k = None" and "scan_all_files ctxErr fs dir fds pre (Suc k) es (scan_files fs dir fds pre e d) = Inr d'"
    by (auto split: option.splits)
  then have "d' = (let all = concat (map (found_in fs dir fds pre) es); ms = concat (map snd all); d = scan_files fs dir fds pre e d
         in d\<lparr>od_total := od_total d + int (length ms), od_deleted := od_deleted d + int (length (filter snd ms)),
              od_processes := od_processes d @ map fst all, od_skipped := od_skipped d + int (length (filter (refused fds) es))\<rparr>)"
    using "2.IH" [OF k] by (simp add: Let_def)
  then show ?case unfolding Let_def scan_files_found by (cases d) simp
qed

lemma files_order: "weak_order_on A files_less"
  by (auto simp: weak_order_on_def files_less_def split: if_splits)

text \<open>
  The answer about open files is exact. The totals count every descriptor under the path in all the processes that can be read,
  and those of deleted files among them; each process that holds one is found once, with its number of descriptors and its first three paths, and
  however the sort leaves equal ones, those shown are the first of all in the order of their descriptors, never more
  than a hundred; processes that refuse are counted.
\<close>

theorem open_files_exact:
  assumes "\<forall>ps. mset (shuffle ps) = mset ps" and "of_parseArgs argError args = Inr (path, limit)"
    and "scan_all_files ctxErr fs dir fds path 0 es no_files = Inr d"
  shows "let all = concat (map (found_in fs dir fds path) es); ms = concat (map snd all); shown = od_processes (rank_files shuffle limit d)
         in od_total d = int (length ms) \<and> od_deleted d = int (length (filter snd ms)) \<and>
            od_skipped d = int (length (filter (refused fds) es)) \<and>
            (\<exists>ranked. mset ranked = mset (map fst all) \<and> sorted_wrt (\<lambda>a b. \<not> files_less b a) ranked \<and> shown = take limit ranked) \<and>
            limit \<le> 100 \<and> 0 < limit"
proof -
  have l: "limit \<le> 100" "0 < limit"
    using assms(2) by (auto simp: of_parseArgs_def of_maxLimit_def of_defaultLimit_def Let_def split: option.splits if_splits)
  have "\<exists>ranked. mset ranked = mset (od_processes d) \<and> sorted_wrt (\<lambda>a b. \<not> files_less b a) ranked \<and>
      od_processes (rank_files shuffle limit d) = take limit ranked"
    using assms(1) sorted_go_sort [OF files_order] by (intro exI [of _ "go_sort files_less (shuffle (od_processes d))"]) (simp add: rank_files_def)
  then show ?thesis using l scan_all_found [OF assms(3)] unfolding Let_def by (simp add: no_files_def)
qed

theorem open_files_exact_witness:
  "od_total \<lparr>od_total = 1, od_processes = [\<lparr>pf_pid = 7, pf_comm = ''unknown'', pf_fdCount = 1, pf_examples = [''/mnt/x''], pf_hasDeleted = True\<rparr>],
     od_deleted = 1, od_skipped = 1\<rparr> = int (length (concat (map snd (concat (map (found_in sample_fs ''/proc''
       (\<lambda>n. if n = ''7'' then FdLinks [Some ''/mnt/x (deleted)'', Some ''/dev/null''] else FdRefused) ''/mnt'') [(''7'', True), (''9'', True)])))))"
proof -
  have a: "of_parseArgs (\<lambda>_. []) ''{\"path\":\"/mnt\"}'' = Inr (''/mnt'', 20)" by code_simp
  have s: "scanFDDir ''/mnt'' [Some ''/mnt/x (deleted)'', Some ''/dev/null''] = \<lparr>fc_count = 1, fc_deleted = 1, fc_examples = [''/mnt/x'']\<rparr>"
    by code_simp
  have r: "scan_all_files (\<lambda>_. None) sample_fs ''/proc'' (\<lambda>n. if n = ''7'' then FdLinks [Some ''/mnt/x (deleted)'', Some ''/dev/null''] else FdRefused)
      ''/mnt'' 0 [(''7'', True), (''9'', True)] no_files =
    Inr \<lparr>od_total = 1, od_processes = [\<lparr>pf_pid = 7, pf_comm = ''unknown'', pf_fdCount = 1, pf_examples = [''/mnt/x''], pf_hasDeleted = True\<rparr>],
      od_deleted = 1, od_skipped = 1\<rparr>"
    by (simp add: scan_files_def sample_pids s no_files_def of_readComm_def sample_fs_def Let_def)
  show ?thesis using open_files_exact [OF _ a r, of "\<lambda>ps. ps"] by (simp add: Let_def)
qed

end
