(* ===== verification/Routes.thy ===== *)
theory Routes
  imports HostTools NetText JsonDecode "HOL-Library.Monad_Syntax"
begin

text \<open>
  Model of \<open>internal/registry/tools/routingtable\<close>: the routes of the kernel's tables for IPv4 and IPv6, with the output of \<open>ip -j route\<close>
  where a table gives none, and the number of default gateways. Files and command outputs are arguments.
\<close>

section \<open>The tables\<close>

definition parseIPv4Hex :: "string \<Rightarrow> string option" where
  "parseIPv4Hex hexStr = (case parse_uint 32 hexStr of Inl _ \<Rightarrow> None | Inr val \<Rightarrow> Some (ip4_string (bytes_le val)))"

fun octets_of :: "nat \<Rightarrow> string \<Rightarrow> octets option" where
  "octets_of 0 s = Some []"
| "octets_of (Suc i) s =
     (case parse_uint 8 (take 2 s) of
        Inl _ \<Rightarrow> None
      | Inr b \<Rightarrow> map_option ((#) (of_nat b)) (octets_of i (drop 2 s)))"

definition parseIPv6Hex :: "string \<Rightarrow> string option" where
  "parseIPv6Hex hexStr = (if length hexStr \<noteq> 32 then None else map_option ip6_string (octets_of 16 hexStr))"

text \<open>The length of a mask: the leading ones, and 0 when ones follow a zero.\<close>

fun leading_ones :: "nat \<Rightarrow> nat \<Rightarrow> nat" where
  "leading_ones 0 v = 0"
| "leading_ones (Suc k) v = (if v \<ge> 2 ^ k then Suc (leading_ones k (v - 2 ^ k)) else 0)"

fun mask_ones :: "octets \<Rightarrow> nat option" where
  "mask_ones [] = Some 0"
| "mask_ones (b # bs) =
     (if b = 255 then map_option ((+) 8) (mask_ones bs)
      else let n = leading_ones 8 (unat b)
           in if unat b * 2 ^ n mod 256 \<noteq> 0 \<or> \<not> list_all (\<lambda>c. c = 0) bs then None else Some n)"

definition maskToPrefixLen :: "string \<Rightarrow> int" where
  "maskToPrefixLen maskStr =
     (case parse_ip4 maskStr of None \<Rightarrow> 0 | Some bs \<Rightarrow> (case mask_ones bs of None \<Rightarrow> 0 | Some n \<Rightarrow> int n))"

record routeEntry =
  rt_interface :: string
  rt_destination :: string
  rt_gateway :: string
  rt_mask :: string
  rt_prefixLen :: int
  rt_metric :: int
  rt_flags :: string
  rt_protocol :: string
  rt_family :: string

definition flag_names :: "nat \<Rightarrow> string" where
  "flag_names flags = join ''|''
     ((if odd flags then [''UP''] else []) @ (if odd (flags div 2) then [''GATEWAY''] else []) @ (if odd (flags div 4) then [''HOST''] else []))"

definition ipv4_route :: "string \<Rightarrow> routeEntry option" where
  "ipv4_route line0 =
     (let line = trim_space line0; fields = text_fields line
      in if line = [] \<or> prefix ''Iface'' line then None
         else if length fields < 8 then None
         else case (parseIPv4Hex (fields ! 1), parseIPv4Hex (fields ! 2), parseIPv4Hex (fields ! 7)) of
                (Some dest, Some gw, Some netmask) \<Rightarrow>
                  Some \<lparr>rt_interface = fields ! 0, rt_destination = dest, rt_gateway = gw, rt_mask = netmask,
                    rt_prefixLen = maskToPrefixLen netmask, rt_metric = atoi_value (fields ! 6),
                    rt_flags = flag_names (either_value (parse_uint 32 (fields ! 3))), rt_protocol = [], rt_family = ''ipv4''\<rparr>
              | _ \<Rightarrow> None)"

definition parseIPv4Routes :: "string \<Rightarrow> routeEntry list" where
  "parseIPv4Routes content = List.map_filter ipv4_route (text_lines content)"

definition ipv6_route :: "string \<Rightarrow> routeEntry option" where
  "ipv6_route line0 =
     (let line = trim_space line0; fields = text_fields line
      in if line = [] then None
         else if length fields < 10 then None
         else case (parseIPv6Hex (fields ! 0), parseIPv6Hex (fields ! 4)) of
                (Some dest, Some gw) \<Rightarrow>
                  Some \<lparr>rt_interface = fields ! 9, rt_destination = dest, rt_gateway = gw, rt_mask = [],
                    rt_prefixLen = either_value (parse_int 32 (fields ! 1)), rt_metric = either_value (parse_int 32 (fields ! 5)),
                    rt_flags = flag_names (either_value (parse_uint 32 (fields ! 8))), rt_protocol = [], rt_family = ''ipv6''\<rparr>
              | _ \<Rightarrow> None)"

definition parseIPv6Routes :: "string \<Rightarrow> routeEntry list" where
  "parseIPv6Routes content = List.map_filter ipv6_route (text_lines content)"

section \<open>The output of the command\<close>

record rawNexthop =
  nh_gateway :: string
  nh_dev :: string

record rawIpRoute =
  ir_dst :: string
  ir_gateway :: string
  ir_dev :: string
  ir_metric :: int
  ir_protocol :: string
  ir_nexthops :: "rawNexthop list"

definition dec_nexthop :: "string \<times> json \<Rightarrow> rawNexthop \<Rightarrow> rawNexthop option" where
  "dec_nexthop v x = do {
     gateway \<leftarrow> decode_member dec_string (nh_gateway x) ''gateway'' (snd v);
     dev \<leftarrow> decode_member dec_string (nh_dev x) ''dev'' (snd v);
     Some \<lparr>nh_gateway = gateway, nh_dev = dev\<rparr> }"

definition dec_ipRoute :: "string \<times> json \<Rightarrow> rawIpRoute \<Rightarrow> rawIpRoute option" where
  "dec_ipRoute v x = do {
     dst \<leftarrow> decode_member dec_string (ir_dst x) ''dst'' (snd v);
     gateway \<leftarrow> decode_member dec_string (ir_gateway x) ''gateway'' (snd v);
     dev \<leftarrow> decode_member dec_string (ir_dev x) ''dev'' (snd v);
     metric \<leftarrow> decode_member dec_int (ir_metric x) ''metric'' (snd v);
     protocol \<leftarrow> decode_member dec_string (ir_protocol x) ''protocol'' (snd v);
     nexthops \<leftarrow> decode_member (dec_list dec_nexthop \<lparr>nh_gateway = [], nh_dev = []\<rparr>) (ir_nexthops x) ''nexthops'' (snd v);
     Some \<lparr>ir_dst = dst, ir_gateway = gateway, ir_dev = dev, ir_metric = metric, ir_protocol = protocol, ir_nexthops = nexthops\<rparr> }"

definition json_routes :: "string \<Rightarrow> rawIpRoute list option" where
  "json_routes text = Option.bind (json_parse text)
     (\<lambda>j. dec_list dec_ipRoute \<lparr>ir_dst = [], ir_gateway = [], ir_dev = [], ir_metric = 0, ir_protocol = [], ir_nexthops = []\<rparr> ([], j) [])"

definition dst_parts :: "string \<Rightarrow> string \<Rightarrow> string \<times> int" where
  "dst_parts family dst =
     (if dst = ''default'' then (if family = ''ipv4'' then ''0.0.0.0'' else ''::'', 0)
      else let parts = split_on CHR ''/'' dst
           in (hd parts, if length parts = 2 then atoi_value (parts ! 1) else if family = ''ipv4'' then 32 else 128))"

definition json_entry :: "string \<Rightarrow> rawIpRoute \<Rightarrow> routeEntry list" where
  "json_entry family item =
     (case dst_parts family (ir_dst item) of
        (dest, prefixLen) \<Rightarrow>
          map (\<lambda>nh. \<lparr>rt_interface = nh_dev nh, rt_destination = dest, rt_gateway = nh_gateway nh, rt_mask = [], rt_prefixLen = prefixLen,
                     rt_metric = ir_metric item, rt_flags = [], rt_protocol = ir_protocol item, rt_family = family\<rparr>)
            (if ir_nexthops item \<noteq> [] then ir_nexthops item else [\<lparr>nh_gateway = ir_gateway item, nh_dev = ir_dev item\<rparr>]))"

definition parseIpRouteJSON :: "string \<Rightarrow> string \<Rightarrow> routeEntry list option" where
  "parseIpRouteJSON text family = map_option (\<lambda>items. concat (map (json_entry family) items)) (json_routes text)"

section \<open>The tool\<close>

text \<open>\<open>None\<close> is a file or a command that gives nothing.\<close>

record routeEnv =
  rv_route :: "string option"
  rv_ipv6Route :: "string option"
  rv_ipRoute :: "string option"
  rv_ip6Route :: "string option"

definition routes_or :: "routeEntry list \<Rightarrow> string \<Rightarrow> string option \<Rightarrow> routeEntry list" where
  "routes_or rs family output =
     (if rs = [] then (case Option.bind output (\<lambda>o'. parseIpRouteJSON o' family) of None \<Rightarrow> rs | Some rs' \<Rightarrow> rs') else rs)"

definition ipv4_routes :: "routeEnv \<Rightarrow> routeEntry list" where
  "ipv4_routes env = routes_or (case rv_route env of None \<Rightarrow> [] | Some t \<Rightarrow> parseIPv4Routes t) ''ipv4'' (rv_ipRoute env)"

definition ipv6_routes :: "routeEnv \<Rightarrow> routeEntry list" where
  "ipv6_routes env = routes_or (case rv_ipv6Route env of None \<Rightarrow> [] | Some t \<Rightarrow> parseIPv6Routes t) ''ipv6'' (rv_ip6Route env)"

definition default_gateways :: "routeEntry list \<Rightarrow> routeEntry list \<Rightarrow> int" where
  "default_gateways v4 v6 =
     int (length (filter (\<lambda>r. rt_destination r = ''0.0.0.0'' \<and> rt_gateway r \<noteq> ''0.0.0.0'') v4)) +
     int (length (filter (\<lambda>r. rt_destination r = ''::'' \<and> rt_gateway r \<noteq> ''::'' \<and> rt_gateway r \<noteq> []) v6))"

definition route_text :: "routeEntry \<Rightarrow> string" where
  "route_text r = json_object ([(''interface'', json_string (rt_interface r)), (''destination'', json_string (rt_destination r))] @
     if_text ''gateway'' (rt_gateway r) @ if_text ''mask'' (rt_mask r) @
     [(''prefix_len'', itoa (rt_prefixLen r)), (''metric'', itoa (rt_metric r))] @
     if_text ''flags'' (rt_flags r) @ if_text ''protocol'' (rt_protocol r) @ [(''family'', json_string (rt_family r))])"

definition routes_text :: "routeEntry list \<Rightarrow> routeEntry list \<Rightarrow> string" where
  "routes_text v4 v6 = json_object [(''ipv4_routes'', nil_list route_text v4), (''ipv6_routes'', nil_list route_text v6)]"

definition routes_summary :: "routeEntry list \<Rightarrow> routeEntry list \<Rightarrow> string" where
  "routes_summary v4 v6 = ''Routing Table: IPv4 Routes: '' @ itoa (int (length v4)) @ '', IPv6 Routes: '' @ itoa (int (length v6)) @
     '', Default Gateways: '' @ itoa (default_gateways v4 v6)"

definition routes_IsSupported :: "bool \<Rightarrow> bool \<Rightarrow> bool \<times> string" where
  "routes_IsSupported hasProcNet hasIp =
     (if hasProcNet \<or> hasIp then (True, []) else (False, ''Routing table not supported (missing /proc/net and ip binary)''))"

definition routes_Execute :: "string \<Rightarrow> int \<Rightarrow> routeEnv \<Rightarrow> envelope" where
  "routes_Execute timestamp elapsedMs env =
     (NewResult timestamp ''get_routing_table'' StatusOK (routes_summary (ipv4_routes env) (ipv6_routes env))
        (Some (routes_text (ipv4_routes env) (ipv6_routes env))))\<lparr>ev_executionTimeMs := elapsedMs\<rparr>"

section \<open>Rows of the kernel\<close>

text \<open>
  The kernel prints a route as words between tabs: addresses of IPv4 as one word in the memory of the machine, those of IPv6 as sixteen
  bytes. \<open>kv_others\<close> are the columns after the ones that count.
\<close>

record kernelRoute =
  kv_iface :: string
  kv_dest :: octets
  kv_gateway :: octets
  kv_flags :: nat
  kv_prefix :: nat
  kv_metric :: nat
  kv_others :: "string list"

definition net_mask :: "nat \<Rightarrow> octets" where
  "net_mask n = map (\<lambda>i. of_nat (256 - 2 ^ (8 - min 8 (n - 8 * i)))) [0..<4]"

definition route4_words :: "kernelRoute \<Rightarrow> string list" where
  "route4_words r =
     [kv_iface r, hexU 8 (word_le (kv_dest r)), hexU 8 (word_le (kv_gateway r)), hexU 4 (kv_flags r), ''0'', ''0'', itoa_nat (kv_metric r),
      hexU 8 (word_le (net_mask (kv_prefix r)))] @ kv_others r"

definition addr16_hex :: "octets \<Rightarrow> string" where
  "addr16_hex bs = concat (map (\<lambda>b. hexL 2 (unat b)) bs)"

definition route6_words :: "kernelRoute \<Rightarrow> string list" where
  "route6_words r =
     [addr16_hex (kv_dest r), hexL 2 (kv_prefix r), addr16_hex (replicate 16 0), ''00'', addr16_hex (kv_gateway r), hexL 8 (kv_metric r),
      ''00000001'', ''00000000'', hexL 8 (kv_flags r), kv_iface r] @ kv_others r"

definition iface_ok :: "string \<Rightarrow> bool" where
  "iface_ok s \<longleftrightarrow> s \<noteq> [] \<and> list_all (\<lambda>c. \<not> is_space c) s \<and> \<not> prefix ''Iface'' s"

definition route_ok :: "nat \<Rightarrow> kernelRoute \<Rightarrow> bool" where
  "route_ok len r \<longleftrightarrow> iface_ok (kv_iface r) \<and> length (kv_dest r) = len \<and> length (kv_gateway r) = len \<and> kv_prefix r \<le> 8 * len \<and>
     kv_flags r < 65536 \<and> kv_metric r < 2 ^ 32 \<and> list_all (\<lambda>w. w \<noteq> [] \<and> list_all (\<lambda>c. \<not> is_space c) w) (kv_others r)"

definition route4_entry :: "kernelRoute \<Rightarrow> routeEntry" where
  "route4_entry r = \<lparr>rt_interface = kv_iface r, rt_destination = ip4_string (kv_dest r), rt_gateway = ip4_string (kv_gateway r),
     rt_mask = ip4_string (net_mask (kv_prefix r)), rt_prefixLen = int (kv_prefix r), rt_metric = int (kv_metric r),
     rt_flags = flag_names (kv_flags r), rt_protocol = [], rt_family = ''ipv4''\<rparr>"

text \<open>The metric of IPv6 is read as a signed number, so metrics from \<open>2\<^sup>3\<^sup>1\<close> on are all shown as the greatest one.\<close>

definition route6_entry :: "kernelRoute \<Rightarrow> routeEntry" where
  "route6_entry r = \<lparr>rt_interface = kv_iface r, rt_destination = ip6_string (kv_dest r), rt_gateway = ip6_string (kv_gateway r),
     rt_mask = [], rt_prefixLen = int (kv_prefix r), rt_metric = int (min (kv_metric r) (2 ^ 31 - 1)),
     rt_flags = flag_names (kv_flags r), rt_protocol = [], rt_family = ''ipv6''\<rparr>"

lemma leading_ones_numeral [simp]:
  "leading_ones (numeral k) v =
     (if v \<ge> 2 ^ pred_numeral k then Suc (leading_ones (pred_numeral k) (v - 2 ^ pred_numeral k)) else 0)"
  by (simp add: numeral_eq_Suc)

definition ones_byte :: "nat \<Rightarrow> 8 word" where
  "ones_byte k = of_nat (256 - 2 ^ (8 - min 8 k))"

lemma ones_byte_full: "8 \<le> k \<Longrightarrow> ones_byte k = 255"
  by (simp add: ones_byte_def)

lemma ones_byte_values:
  "k \<in> {0, 1, 2, 3, 4, 5, 6, 7} \<Longrightarrow>
   (k, ones_byte k) \<in> {(0, 0), (1, 128), (2, 192), (3, 224), (4, 240), (5, 248), (6, 252), (7, 254)}"
  by (elim insertE) (simp_all add: ones_byte_def)

lemma ones_byte_part:
  assumes "k < 8"
  shows "ones_byte k \<noteq> 255" "leading_ones 8 (unat (ones_byte k)) = k" "unat (ones_byte k) * 2 ^ k mod 256 = 0"
proof -
  have "k \<in> {0, 1, 2, 3, 4, 5, 6, 7}" using assms by auto
  from ones_byte_values [OF this]
  show "ones_byte k \<noteq> 255" "leading_ones 8 (unat (ones_byte k)) = k" "unat (ones_byte k) * 2 ^ k mod 256 = 0"
    by (elim insertE; simp)+
qed

lemma ones_byte_0: "ones_byte 0 = 0"
  by (simp add: ones_byte_def)

lemma mask_ones_byte:
  "mask_ones (ones_byte k # bs) =
     (if 8 \<le> k then map_option ((+) 8) (mask_ones bs) else if list_all (\<lambda>c. c = 0) bs then Some k else None)"
  using ones_byte_full [of k] ones_byte_part [of k] by (simp add: not_le)

lemma net_mask_bytes: "net_mask n = [ones_byte n, ones_byte (n - 8), ones_byte (n - 16), ones_byte (n - 24)]"
proof -
  have "[0..<4] = [0, 1, 2, 3 :: nat]" by (simp add: upt_rec)
  then show ?thesis by (simp only: net_mask_def list.map ones_byte_def) simp
qed

lemma net_mask_prefix: "n \<le> 32 \<Longrightarrow> mask_ones (net_mask n) = Some n"
  by (auto simp: net_mask_bytes mask_ones_byte ones_byte_0 simp del: mask_ones.simps(2))

lemma length_net_mask [simp]: "length (net_mask n) = 4"
  by (simp add: net_mask_def)

lemma parse_v4: "length bs = 4 \<Longrightarrow> parseIPv4Hex (hexU 8 (word_le bs)) = Some (ip4_string bs)"
  using word_le_bound [of bs] by (simp add: parseIPv4Hex_def parse_uint_hexU bytes_word_le)

lemma octets_of_hex: "octets_of (length bs) (addr16_hex bs) = Some bs"
proof (induction bs)
  case (Cons b bs)
  have "parse_uint 8 (hexL 2 (unat b)) = Inr (unat b)" using octet_bound [of b] by (intro parse_uint_hexL) simp_all
  then show ?case using Cons by (simp add: addr16_hex_def)
qed (simp add: addr16_hex_def)

lemma addr16_length [simp]: "length (addr16_hex bs) = 2 * length bs"
  by (induction bs) (simp_all add: addr16_hex_def)

lemma parse_v6: "length bs = 16 \<Longrightarrow> parseIPv6Hex (addr16_hex bs) = Some (ip6_string bs)"
  using octets_of_hex [of bs] by (simp add: parseIPv6Hex_def)

lemma hex_words: "list_all (\<lambda>c. \<not> is_space c) (hexU k v)" "list_all (\<lambda>c. \<not> is_space c) (hexL k v)"
    "list_all (\<lambda>c. \<not> is_space c) (addr16_hex bs)"
  by (auto simp: list_all_iff addr16_hex_def dest: hexU_plain hexL_plain)

lemma parse_int_hexL:
  "v < 2 ^ 32 \<Longrightarrow> either_value (parse_int 32 (hexL 8 v)) = int (min v (2 ^ 31 - 1))"
  "v < 256 \<Longrightarrow> either_value (parse_int 32 (hexL 2 v)) = int v"
proof -
  have sign: "hexL k v \<noteq> [] \<and> hd (hexL k v) \<noteq> CHR ''-'' \<and> hd (hexL k v) \<noteq> CHR ''+''" if "0 < k" for k
  proof -
    have "hexL k v \<noteq> []" using that by simp
    then have "hex_val (hd (hexL k v)) \<noteq> None" using lower.hex_chars [folded hexL_def] hd_in_set by blast
    then show ?thesis using \<open>hexL k v \<noteq> []\<close> by (auto simp: hex_val_def)
  qed
  show "v < 2 ^ 32 \<Longrightarrow> either_value (parse_int 32 (hexL 8 v)) = int (min v (2 ^ 31 - 1))"
    using sign [of 8] by (simp add: parse_int_def Let_def parse_uint_hexL either_value_def min_def)
  show "v < 256 \<Longrightarrow> either_value (parse_int 32 (hexL 2 v)) = int v"
    using sign [of 2] by (simp add: parse_int_def Let_def parse_uint_hexL either_value_def)
qed

lemma tab_space: "is_space CHR 0x09"
  by (simp add: is_space_def)

definition table4_header :: string where
  "table4_header = ''Iface'' @ CHR 0x09 # ''Destination'' @ CHR 0x09 # ''Gateway ''"

definition route4_line :: "kernelRoute \<Rightarrow> string" where
  "route4_line r = join [CHR 0x09] (route4_words r)"

definition route6_line :: "kernelRoute \<Rightarrow> string" where
  "route6_line r = join '' '' (route6_words r)"

lemma route_words_ok: "route_ok 4 r \<Longrightarrow> words_ok (route4_words r)" "route_ok 16 r \<Longrightarrow> words_ok (route6_words r)"
proof -
  assume r: "route_ok 4 r"
  then show "words_ok (route4_words r)"
    by (simp add: route4_words_def route_ok_def iface_ok_def hex_words itoa_nat_plain words_ok_others)
next
  assume r: "route_ok 16 r"
  have "addr16_hex bs \<noteq> []" if "length bs = 16" for bs
    using addr16_length [of bs] that by (metis length_0_conv mult_is_0 zero_neq_numeral)
  then show "words_ok (route6_words r)"
    using r by (simp add: route6_words_def route_ok_def iface_ok_def hex_words words_ok_others)
qed

lemma route4_read: "route_ok 4 r \<Longrightarrow> ipv4_route (route4_line r) = Some (route4_entry r)"
proof -
  assume r: "route_ok 4 r"
  note ok = route_words_ok(1) [OF r]
  have f: "text_fields (route4_line r) = route4_words r" "trim_space (route4_line r) = route4_line r"
    unfolding route4_line_def by (simp_all add: fields_separated tab_space ok words_trim)
  have "\<not> prefix ''Iface'' (route4_line r)"
    using r prefix_before [of "''Iface''" "kv_iface r" "CHR 0x09"] by (auto simp: route4_line_def route4_words_def route_ok_def iface_ok_def)
  moreover have "route4_line r \<noteq> []" using f(1) by (auto simp: route4_words_def)
  moreover have "parse_uint 32 (hexU 4 (kv_flags r)) = Inr (kv_flags r)" using r by (simp add: parse_uint_hexU route_ok_def)
  moreover have "atoi_value (itoa_nat (kv_metric r)) = int (kv_metric r)"
    using r by (intro atoi_value_Some atoi_itoa_nat) (simp add: route_ok_def)
  moreover have "maskToPrefixLen (ip4_string (net_mask (kv_prefix r))) = int (kv_prefix r)"
    using r by (simp add: maskToPrefixLen_def parse_ip4_string net_mask_prefix route_ok_def)
  ultimately show ?thesis
    using r by (simp add: ipv4_route_def Let_def f route4_words_def parse_v4 route4_entry_def either_value_def route_ok_def)
qed

lemma route6_read: "route_ok 16 r \<Longrightarrow> ipv6_route (route6_line r) = Some (route6_entry r)"
proof -
  assume r: "route_ok 16 r"
  note ok = route_words_ok(2) [OF r]
  have f: "text_fields (route6_line r) = route6_words r" "trim_space (route6_line r) = route6_line r"
    unfolding route6_line_def by (simp_all add: fields_separated is_space_def ok words_trim)
  have "route6_line r \<noteq> []" using f(1) by (auto simp: route6_words_def)
  moreover have "parse_uint 32 (hexL 8 (kv_flags r)) = Inr (kv_flags r)" using r by (simp add: parse_uint_hexL route_ok_def)
  moreover have "either_value (parse_int 32 (hexL 8 (kv_metric r))) = int (min (kv_metric r) (2 ^ 31 - 1))"
    using r by (intro parse_int_hexL) (simp add: route_ok_def)
  moreover have "either_value (parse_int 32 (hexL 2 (kv_prefix r))) = int (kv_prefix r)"
    using r by (intro parse_int_hexL) (simp add: route_ok_def)
  ultimately show ?thesis
    using r by (simp add: ipv6_route_def Let_def f route6_words_def parse_v6 route6_entry_def either_value_def route_ok_def del: of_nat_min)
qed

lemma map_filter_all: "(\<And>x. x \<in> set xs \<Longrightarrow> f (g x) = Some (h x)) \<Longrightarrow> List.map_filter f (map g xs) = map h xs"
  by (induction xs) (simp_all add: map_filter_simps)

text \<open>
  The routing tables are read as the kernel printed them. For any routes, of IPv4 below the header and of IPv6 without one, the tool
  finds each in order with its interface, its destination and gateway in the notation of their family, its flags and the length of its prefix, which for IPv4 is
  found again from the mask. The metric is exact too, but for a metric of IPv6 above the signed range, which is shown as
  the greatest number of that range.
\<close>

theorem routing_tables_roundtrip:
  assumes "\<forall>r \<in> set rows4. route_ok 4 r" and "\<forall>r \<in> set rows6. route_ok 16 r"
  shows "parseIPv4Routes (join [CHR 0x0A] (table4_header # map route4_line rows4 @ [[]])) = map route4_entry rows4 \<and>
    parseIPv6Routes (join [CHR 0x0A] (map route6_line rows6 @ [[]])) = map route6_entry rows6"
proof -
  have h: "CHR 0x0A \<notin> set table4_header" "ipv4_route table4_header = None" "ipv4_route [] = None" "ipv6_route [] = None" by code_simp+
  have "CHR 0x0A \<notin> set (route4_line r)" if "r \<in> set rows4" for r
    using words_one_line [OF route_words_ok(1)] assms(1) that by (simp add: route4_line_def is_space_def)
  then have "text_lines (join [CHR 0x0A] (table4_header # map route4_line rows4 @ [[]])) = table4_header # map route4_line rows4 @ [[]]"
    unfolding text_lines_def by (intro split_on_join) (use h in auto)
  moreover have "CHR 0x0A \<notin> set (route6_line r)" if "r \<in> set rows6" for r
    using words_one_line [OF route_words_ok(2)] assms(2) that by (simp add: route6_line_def is_space_def)
  then have "text_lines (join [CHR 0x0A] (map route6_line rows6 @ [[]])) = map route6_line rows6 @ [[]]"
    unfolding text_lines_def by (intro split_on_join) auto
  moreover have "List.map_filter ipv4_route (map route4_line rows4) = map route4_entry rows4"
    "List.map_filter ipv6_route (map route6_line rows6) = map route6_entry rows6"
    by (intro map_filter_all route4_read route6_read; use assms in simp)+
  ultimately show ?thesis
    by (simp add: parseIPv4Routes_def parseIPv6Routes_def map_filter_simps h map_filter_def)
qed

definition sample_route4 :: kernelRoute where
  "sample_route4 = \<lparr>kv_iface = ''eth0'', kv_dest = [10, 1, 0, 0], kv_gateway = [0, 0, 0, 0], kv_flags = 1, kv_prefix = 20, kv_metric = 100,
     kv_others = [''0'']\<rparr>"

definition sample_route6 :: kernelRoute where
  "sample_route6 = \<lparr>kv_iface = ''lo'', kv_dest = replicate 16 0, kv_gateway = replicate 16 0, kv_flags = 512, kv_prefix = 0,
     kv_metric = 2 ^ 32 - 1, kv_others = []\<rparr>"

theorem routing_tables_roundtrip_witness:
  "rt_prefixLen (hd (parseIPv4Routes (join [CHR 0x0A] (table4_header # map route4_line [sample_route4] @ [[]])))) = 20 \<and>
   rt_metric (hd (parseIPv6Routes (join [CHR 0x0A] (map route6_line [sample_route6] @ [[]])))) = 2 ^ 31 - 1"
proof -
  have "\<forall>r \<in> set [sample_route4]. route_ok 4 r" "\<forall>r \<in> set [sample_route6]. route_ok 16 r"
    by (simp_all add: sample_route4_def sample_route6_def route_ok_def iface_ok_def is_space_def)
  from routing_tables_roundtrip [OF this] show ?thesis
    by (simp add: route4_entry_def route6_entry_def) (simp add: sample_route4_def sample_route6_def)
qed

end
