(* ===== verification/Sessions.thy ===== *)
theory Sessions
  imports HostTools JsonDecode "HOL-Library.Monad_Syntax"
begin

text \<open>
  Model of \<open>internal/registry/tools/loggedinsessions\<close>: the interactive logins of a machine, from the records of 384 bytes of the utmp
  database or, when it cannot be read, from the JSON of \<open>loginctl\<close>. Files, commands and the printing of times are arguments.
\<close>

section \<open>Records\<close>

record utmpRecord =
  ut_type :: int
  ut_pid :: int
  ut_line :: string
  ut_id :: string
  ut_user :: string
  ut_host :: string
  ut_exit :: string
  ut_session :: int
  ut_tvSec :: int
  ut_tvUsec :: int
  ut_addr :: string
  ut_unused :: string

text \<open>A little-endian number of 32 bits with a sign.\<close>

definition le32 :: "string \<Rightarrow> nat \<Rightarrow> int" where
  "le32 d off = (let v = foldr (\<lambda>c v. int (of_char c) + 256 * v) (take 4 (drop off d)) 0 in if v < 2 ^ 31 then v else v - 2 ^ 32)"

definition slice_of :: "string \<Rightarrow> nat \<Rightarrow> nat \<Rightarrow> string" where
  "slice_of d off n = take n (drop off d)"

definition utmpRecordSize :: nat where "utmpRecordSize = 384"

definition read_record :: "string \<Rightarrow> utmpRecord" where
  "read_record d =
     \<lparr>ut_type = le32 d 0, ut_pid = le32 d 4, ut_line = slice_of d 8 32, ut_id = slice_of d 40 4, ut_user = slice_of d 44 32,
      ut_host = slice_of d 76 256, ut_exit = slice_of d 332 4, ut_session = le32 d 336, ut_tvSec = le32 d 340, ut_tvUsec = le32 d 344,
      ut_addr = slice_of d 348 16, ut_unused = slice_of d 364 20\<rparr>"

definition cString :: "string \<Rightarrow> string" where
  "cString b = (case index_byte b CHR 0x00 of Some i \<Rightarrow> take i b | None \<Rightarrow> b)"

definition userProcess :: int where "userProcess = 7"

record session =
  se_user :: string
  se_tty :: string
  se_remoteHost :: string
  se_loginTime :: string
  se_pid :: int

text \<open>\<open>showTime\<close> prints a time given in seconds and microseconds.\<close>

definition session_of :: "(int \<Rightarrow> int \<Rightarrow> string) \<Rightarrow> utmpRecord \<Rightarrow> session option" where
  "session_of showTime rec =
     (if ut_type rec \<noteq> userProcess then None
      else if cString (ut_user rec) = [] then None
      else Some \<lparr>se_user = cString (ut_user rec), se_tty = cString (ut_line rec), se_remoteHost = cString (ut_host rec),
             se_loginTime = (if ut_tvSec rec > 0 then showTime (ut_tvSec rec) (ut_tvUsec rec) else []), se_pid = ut_pid rec\<rparr>)"

function parseUtmp :: "(int \<Rightarrow> int \<Rightarrow> string) \<Rightarrow> string \<Rightarrow> session list" where
  "parseUtmp showTime d =
     (if length d < utmpRecordSize then []
      else (case session_of showTime (read_record (take utmpRecordSize d)) of None \<Rightarrow> [] | Some s \<Rightarrow> [s]) @
        parseUtmp showTime (drop utmpRecordSize d))"
  by pat_completeness auto
termination
  by (relation "measure (\<lambda>(_, d). length d)") (auto simp: utmpRecordSize_def)

declare parseUtmp.simps [simp del]

section \<open>The command\<close>

record loginctlSession =
  lo_session :: string
  lo_uid :: int
  lo_user :: string
  lo_seat :: string
  lo_tty :: string

definition dec_loginctl :: "string \<times> json \<Rightarrow> loginctlSession \<Rightarrow> loginctlSession option" where
  "dec_loginctl v x = do {
     ses \<leftarrow> decode_member dec_string (lo_session x) ''session'' (snd v);
     uid \<leftarrow> decode_member dec_int (lo_uid x) ''uid'' (snd v);
     user \<leftarrow> decode_member dec_string (lo_user x) ''user'' (snd v);
     seat \<leftarrow> decode_member dec_string (lo_seat x) ''seat'' (snd v);
     tty \<leftarrow> decode_member dec_string (lo_tty x) ''tty'' (snd v);
     Some \<lparr>lo_session = ses, lo_uid = uid, lo_user = user, lo_seat = seat, lo_tty = tty\<rparr> }"

definition loginctl_sessions :: "string \<Rightarrow> loginctlSession list option" where
  "loginctl_sessions text = Option.bind (json_parse text)
     (\<lambda>j. dec_list dec_loginctl \<lparr>lo_session = [], lo_uid = 0, lo_user = [], lo_seat = [], lo_tty = []\<rparr> ([], j) [])"

definition parseLoginctlJSON :: "string \<Rightarrow> session list option" where
  "parseLoginctlJSON text =
     map_option (\<lambda>rs. map (\<lambda>r. \<lparr>se_user = lo_user r, se_tty = lo_tty r, se_remoteHost = [], se_loginTime = [], se_pid = 0\<rparr>)
       (filter (\<lambda>r. lo_user r \<noteq> []) rs)) (loginctl_sessions text)"

section \<open>The tool\<close>

definition maxSessions :: nat where "maxSessions = 100"

definition session_text :: "session \<Rightarrow> string" where
  "session_text s = json_object [(''user'', json_string (se_user s)), (''tty'', json_string (se_tty s)),
     (''remote_host'', json_string (se_remoteHost s)), (''login_time'', json_string (se_loginTime s)), (''pid'', itoa (se_pid s))]"

definition sessions_text :: "session list \<Rightarrow> string \<Rightarrow> string" where
  "sessions_text ss source = json_object [(''sessions'', json_array (map session_text ss)), (''count'', itoa (int (length ss))),
     (''source'', json_string source)]"

text \<open>The context, the database, whether \<open>loginctl\<close> is there and what it prints; \<open>sv_parseError\<close> is the text of the error of the decoder.\<close>

record sessionEnv =
  sv_ctxErr :: "string option"
  sv_utmp :: "string + string"
  sv_hasUtmp :: bool
  sv_hasLoginctl :: bool
  sv_loginctl :: "string + string"
  sv_showTime :: "int \<Rightarrow> int \<Rightarrow> string"
  sv_parseError :: "string \<Rightarrow> string"

definition sessions_IsSupported :: "sessionEnv \<Rightarrow> bool \<times> string" where
  "sessions_IsSupported env =
     (if sv_hasUtmp env then (True, []) else if sv_hasLoginctl env then (True, [])
      else (False, ''no utmp database and no loginctl binary found''))"

definition read_sessions :: "sessionEnv \<Rightarrow> string \<Rightarrow> string + session list \<times> string" where
  "read_sessions env utmpPath =
     (case sv_utmp env of
        Inr d \<Rightarrow> Inr (parseUtmp (sv_showTime env) d, ''utmp'')
      | Inl err \<Rightarrow>
          if sv_hasLoginctl env then
            (case sv_loginctl env of
               Inl cmdErr \<Rightarrow> Inl (''utmp unreadable ('' @ err @ '') and loginctl failed: '' @ cmdErr)
             | Inr out \<Rightarrow>
                 (case parseLoginctlJSON out of
                    None \<Rightarrow> Inl (''failed to parse loginctl output: '' @ sv_parseError env out)
                  | Some ss \<Rightarrow> Inr (ss, ''loginctl'')))
          else Inl (''no session source available: '' @ utmpPath @ '' unreadable ('' @ err @ '') and loginctl not in PATH''))"

definition sessions_Execute :: "string \<Rightarrow> int \<Rightarrow> sessionEnv \<Rightarrow> string \<Rightarrow> envelope" where
  "sessions_Execute timestamp elapsedMs env utmpPath =
     (let fail = reg_NewErrorResult timestamp ''get_logged_in_sessions''
      in case sv_ctxErr env of
           Some err \<Rightarrow> fail (''context cancelled: '' @ err)
         | None \<Rightarrow>
             (case read_sessions env utmpPath of
                Inl message \<Rightarrow> fail message
              | Inr (found, source) \<Rightarrow>
                  (let ss = take maxSessions found
                   in deterministic timestamp elapsedMs ''get_logged_in_sessions'' StatusOK
                        (itoa (int (length ss)) @ '' active login sessions (source: '' @ source @ '')'') (sessions_text ss source))))"

section \<open>What the database says\<close>

text \<open>The records as the login programs write them: numbers of 32 bits, texts filled up with zero bytes.\<close>

definition put_le32 :: "int \<Rightarrow> string" where
  "put_le32 v = (let n = nat (v mod 2 ^ 32) in map (\<lambda>i. char_of (n div 256 ^ i)) [0..<4])"

definition fill :: "nat \<Rightarrow> string \<Rightarrow> string" where
  "fill n s = s @ replicate (n - length s) CHR 0x00"

definition record_bytes :: "utmpRecord \<Rightarrow> string" where
  "record_bytes r =
     put_le32 (ut_type r) @ put_le32 (ut_pid r) @ fill 32 (ut_line r) @ fill 4 (ut_id r) @ fill 32 (ut_user r) @ fill 256 (ut_host r) @
     fill 4 (ut_exit r) @ put_le32 (ut_session r) @ put_le32 (ut_tvSec r) @ put_le32 (ut_tvUsec r) @ fill 16 (ut_addr r) @ fill 20 (ut_unused r)"

definition int32 :: "int \<Rightarrow> bool" where
  "int32 v \<longleftrightarrow> - (2 ^ 31) \<le> v \<and> v < 2 ^ 31"

definition text_fits :: "nat \<Rightarrow> string \<Rightarrow> bool" where
  "text_fits n s \<longleftrightarrow> length s \<le> n \<and> CHR 0x00 \<notin> set s"

definition record_ok :: "utmpRecord \<Rightarrow> bool" where
  "record_ok r \<longleftrightarrow>
     int32 (ut_type r) \<and> int32 (ut_pid r) \<and> int32 (ut_session r) \<and> int32 (ut_tvSec r) \<and> int32 (ut_tvUsec r) \<and>
     text_fits 32 (ut_line r) \<and> length (ut_id r) \<le> 4 \<and> text_fits 32 (ut_user r) \<and> text_fits 256 (ut_host r) \<and>
     length (ut_exit r) \<le> 4 \<and> length (ut_addr r) \<le> 16 \<and> length (ut_unused r) \<le> 20"

lemma length_put_le32 [simp]: "length (put_le32 v) = 4"
  by (simp add: put_le32_def)

lemma length_fill [simp]: "length s \<le> n \<Longrightarrow> length (fill n s) = n"
  by (simp add: fill_def)

lemma cString_fill: "CHR 0x00 \<notin> set s \<Longrightarrow> cString (fill n s) = s"
proof (cases "n - length s")
  case 0
  moreover assume "CHR 0x00 \<notin> set s"
  ultimately show ?thesis by (simp add: cString_def fill_def index_byte_None [THEN iffD2])
next
  case (Suc k)
  moreover assume "CHR 0x00 \<notin> set s"
  ultimately show ?thesis by (simp add: cString_def fill_def index_byte_append)
qed

fun le_value :: "string \<Rightarrow> nat" where
  "le_value [] = 0"
| "le_value (c # s) = of_char c + 256 * le_value s"

lemma le_value_foldr: "foldr (\<lambda>c v. int (of_char c) + 256 * v) s 0 = int (le_value s)"
  by (induction s) auto

fun le_bytes :: "nat \<Rightarrow> nat \<Rightarrow> string" where
  "le_bytes 0 n = []"
| "le_bytes (Suc k) n = char_of n # le_bytes k (n div 256)"

lemma le_bytes_map: "map (\<lambda>i. char_of (n div 256 ^ i)) [0..<k] = le_bytes k n"
proof (induction k arbitrary: n)
  case (Suc k)
  have "map (\<lambda>i. char_of (n div 256 ^ i)) [0..<Suc k] = char_of n # map (\<lambda>i. char_of (n div 256 ^ Suc i)) [0..<k]"
    by (simp add: upt_conv_Cons map_Suc_upt [symmetric] comp_def del: upt_Suc)
  also have "\<dots> = le_bytes (Suc k) n" using Suc.IH [of "n div 256"] by (simp add: div_mult2_eq)
  finally show ?case .
qed simp

lemma le_value_bytes: "n < 256 ^ k \<Longrightarrow> le_value (le_bytes k n) = n"
proof (induction k arbitrary: n)
  case (Suc k)
  have "n div 256 < 256 ^ k" using Suc.prems by (simp add: less_mult_imp_div_less mult.commute)
  then show ?case using Suc.IH [of "n div 256"] by simp
qed simp

lemma le32_put: "int32 v \<Longrightarrow> length p = off \<Longrightarrow> le32 (p @ put_le32 v @ s) off = v"
proof -
  assume v: "int32 v" and p: "length p = off"
  define n where "n = nat (v mod 2 ^ 32)"
  have n: "int n = v mod 2 ^ 32" "n < 256 ^ 4" by (simp_all add: n_def)
  have "take 4 (drop off (p @ put_le32 v @ s)) = put_le32 v" by (simp add: p [symmetric])
  also have "\<dots> = le_bytes 4 n" by (simp add: put_le32_def Let_def n_def le_bytes_map)
  finally have "foldr (\<lambda>c v. int (of_char c) + 256 * v) (take 4 (drop off (p @ put_le32 v @ s))) 0 = int n"
    using n(2) by (simp add: le_value_foldr le_value_bytes)
  moreover have "v mod 2 ^ 32 = (if 0 \<le> v then v else v + 2 ^ 32)"
  proof (cases "0 \<le> v")
    case True
    then show ?thesis using v by (simp add: int32_def)
  next
    case False
    have "v mod 2 ^ 32 = (v + 2 ^ 32) mod 2 ^ 32" by simp
    also have "\<dots> = v + 2 ^ 32" using v False by (intro mod_pos_pos_trivial) (simp_all add: int32_def)
    finally show ?thesis using False by simp
  qed
  then have "(if int n < 2 ^ 31 then int n else int n - 2 ^ 32) = v" using v unfolding n(1) by (simp add: int32_def)
  ultimately show ?thesis by (simp add: le32_def)
qed

lemma slice_put: "length p = off \<Longrightarrow> length x = n \<Longrightarrow> slice_of (p @ x @ s) off n = x"
  by (simp add: slice_of_def)

lemma record_fields:
  assumes "record_ok r"
  shows "read_record (record_bytes r) =
     r\<lparr>ut_line := fill 32 (ut_line r), ut_id := fill 4 (ut_id r), ut_user := fill 32 (ut_user r), ut_host := fill 256 (ut_host r),
       ut_exit := fill 4 (ut_exit r), ut_addr := fill 16 (ut_addr r), ut_unused := fill 20 (ut_unused r)\<rparr>"
    "length (record_bytes r) = utmpRecordSize"
proof -
  let ?ty = "put_le32 (ut_type r)" and ?pid = "put_le32 (ut_pid r)" and ?li = "fill 32 (ut_line r)" and ?id = "fill 4 (ut_id r)"
    and ?us = "fill 32 (ut_user r)" and ?ho = "fill 256 (ut_host r)" and ?ex = "fill 4 (ut_exit r)" and ?se = "put_le32 (ut_session r)"
    and ?s = "put_le32 (ut_tvSec r)" and ?u = "put_le32 (ut_tvUsec r)" and ?ad = "fill 16 (ut_addr r)" and ?un = "fill 20 (ut_unused r)"
  have len: "length ?li = 32" "length ?id = 4" "length ?us = 32" "length ?ho = 256" "length ?ex = 4" "length ?ad = 16" "length ?un = 20"
    using assms by (simp_all add: record_ok_def text_fits_def)
  have int: "int32 (ut_type r)" "int32 (ut_pid r)" "int32 (ut_session r)" "int32 (ut_tvSec r)" "int32 (ut_tvUsec r)"
    using assms by (simp_all add: record_ok_def)
  have nums: "le32 (record_bytes r) 0 = ut_type r" "le32 (record_bytes r) 4 = ut_pid r" "le32 (record_bytes r) 336 = ut_session r"
    "le32 (record_bytes r) 340 = ut_tvSec r" "le32 (record_bytes r) 344 = ut_tvUsec r"
    using le32_put [OF int(1), of "[]" 0] le32_put [OF int(2), of ?ty 4]
      le32_put [OF int(3), of "?ty @ ?pid @ ?li @ ?id @ ?us @ ?ho @ ?ex" 336]
      le32_put [OF int(4), of "?ty @ ?pid @ ?li @ ?id @ ?us @ ?ho @ ?ex @ ?se" 340]
      le32_put [OF int(5), of "?ty @ ?pid @ ?li @ ?id @ ?us @ ?ho @ ?ex @ ?se @ ?s" 344] len
    by (simp_all add: record_bytes_def)
  have texts: "slice_of (record_bytes r) 8 32 = ?li" "slice_of (record_bytes r) 40 4 = ?id" "slice_of (record_bytes r) 44 32 = ?us"
    "slice_of (record_bytes r) 76 256 = ?ho" "slice_of (record_bytes r) 332 4 = ?ex" "slice_of (record_bytes r) 348 16 = ?ad"
    "slice_of (record_bytes r) 364 20 = ?un"
    using slice_put [of "?ty @ ?pid" 8 ?li 32] slice_put [of "?ty @ ?pid @ ?li" 40 ?id 4] slice_put [of "?ty @ ?pid @ ?li @ ?id" 44 ?us 32]
      slice_put [of "?ty @ ?pid @ ?li @ ?id @ ?us" 76 ?ho 256] slice_put [of "?ty @ ?pid @ ?li @ ?id @ ?us @ ?ho" 332 ?ex 4]
      slice_put [of "?ty @ ?pid @ ?li @ ?id @ ?us @ ?ho @ ?ex @ ?se @ ?s @ ?u" 348 ?ad 16]
      slice_put [of "?ty @ ?pid @ ?li @ ?id @ ?us @ ?ho @ ?ex @ ?se @ ?s @ ?u @ ?ad" 364 ?un 20 "[]"] len
    by (simp_all add: record_bytes_def)
  show "read_record (record_bytes r) =
     r\<lparr>ut_line := ?li, ut_id := ?id, ut_user := ?us, ut_host := ?ho, ut_exit := ?ex, ut_addr := ?ad, ut_unused := ?un\<rparr>"
    unfolding read_record_def nums texts by simp
  show "length (record_bytes r) = utmpRecordSize" using len by (simp add: record_bytes_def utmpRecordSize_def)
qed

lemma session_of_read: "record_ok r \<Longrightarrow> session_of showTime (read_record (record_bytes r)) = session_of showTime r"
proof -
  assume r: "record_ok r"
  then have "CHR 0x00 \<notin> set (ut_user r)" "CHR 0x00 \<notin> set (ut_line r)" "CHR 0x00 \<notin> set (ut_host r)"
    by (simp_all add: record_ok_def text_fits_def)
  then have c: "cString (fill n (ut_user r)) = ut_user r" "cString (fill n (ut_line r)) = ut_line r" "cString (fill n (ut_host r)) = ut_host r"
      "cString (ut_user r) = ut_user r" "cString (ut_line r) = ut_line r" "cString (ut_host r) = ut_host r" for n
    by (simp_all add: cString_fill) (simp_all add: cString_def index_byte_None [THEN iffD2])
  show ?thesis by (simp add: session_of_def record_fields(1) [OF r] c)
qed

text \<open>
  Property C39. The database of logins is read as it was written. From any records, and whatever incomplete record follows them, the tool
  reports exactly those of the users that are logged in, in order, with the name, terminal, host and process of the record,
  and with its time unless the record has none.
\<close>

theorem utmp_roundtrip:
  assumes "\<forall>r \<in> set rs. record_ok r" and "length part < utmpRecordSize"
  shows "parseUtmp showTime (concat (map record_bytes rs) @ part) =
    map (\<lambda>r. \<lparr>se_user = ut_user r, se_tty = ut_line r, se_remoteHost = ut_host r,
           se_loginTime = (if ut_tvSec r > 0 then showTime (ut_tvSec r) (ut_tvUsec r) else []), se_pid = ut_pid r\<rparr>)
      (filter (\<lambda>r. ut_type r = userProcess \<and> ut_user r \<noteq> []) rs)"
  using assms
proof (induction rs)
  case Nil
  then show ?case by (simp add: parseUtmp.simps)
next
  case (Cons r rs)
  have r: "record_ok r" using Cons.prems by simp
  have c: "cString (ut_user r) = ut_user r" "cString (ut_line r) = ut_line r" "cString (ut_host r) = ut_host r"
    using r by (simp_all add: cString_def record_ok_def text_fits_def index_byte_None [THEN iffD2])
  note len = record_fields(2) [OF r]
  have "parseUtmp showTime (record_bytes r @ concat (map record_bytes rs) @ part) =
      (case session_of showTime r of None \<Rightarrow> [] | Some s \<Rightarrow> [s]) @ parseUtmp showTime (concat (map record_bytes rs) @ part)"
    by (subst parseUtmp.simps) (simp add: len session_of_read [OF r])
  moreover have "session_of showTime r =
      (if ut_type r \<noteq> userProcess then None else if ut_user r = [] then None
       else Some \<lparr>se_user = ut_user r, se_tty = ut_line r, se_remoteHost = ut_host r,
              se_loginTime = (if ut_tvSec r > 0 then showTime (ut_tvSec r) (ut_tvUsec r) else []), se_pid = ut_pid r\<rparr>)"
    unfolding session_of_def c ..
  ultimately show ?case using Cons.IH Cons.prems by simp
qed

definition sample_login :: utmpRecord where
  "sample_login = \<lparr>ut_type = 7, ut_pid = 4242, ut_line = ''pts/0'', ut_id = ''ts/0'', ut_user = ''ada'', ut_host = ''10.0.0.9'', ut_exit = [],
     ut_session = 0, ut_tvSec = 1000, ut_tvUsec = 5, ut_addr = [], ut_unused = []\<rparr>"

theorem utmp_roundtrip_witness:
  "parseUtmp (\<lambda>_ _. ''then'') (concat (map record_bytes [sample_login, sample_login\<lparr>ut_type := 8\<rparr>]) @ ''cut'') =
    [\<lparr>se_user = ''ada'', se_tty = ''pts/0'', se_remoteHost = ''10.0.0.9'', se_loginTime = ''then'', se_pid = 4242\<rparr>]"
proof -
  have "\<forall>r \<in> set [sample_login, sample_login\<lparr>ut_type := 8\<rparr>]. record_ok r" "length ''cut'' < utmpRecordSize"
    by (simp_all add: sample_login_def record_ok_def int32_def text_fits_def utmpRecordSize_def)
  from utmp_roundtrip [OF this, of "\<lambda>_ _. ''then''"] show ?thesis by (simp add: sample_login_def userProcess_def)
qed

end
