(* ===== verification/Bonds.thy ===== *)
theory Bonds
  imports HostTools
begin

text \<open>
  Model of \<open>internal/registry/tools/bondstatus\<close>: the state of bonded network interfaces, from the files of the bonding driver. The directory
  is the list of its entries with whether they are directories, each file its content or \<open>None\<close>.
\<close>

section \<open>The file of a bond\<close>

record bondSlave =
  bs_name :: string
  bs_miiStatus :: string
  bs_speedMbps :: int
  bs_duplex :: string
  bs_failures :: int

record bond =
  bo_name :: string
  bo_mode :: string
  bo_miiStatus :: string
  bo_activeSlave :: string
  bo_lacpRate :: string
  bo_partnerMAC :: string
  bo_slaves :: "bondSlave list"
  bo_reasons :: "string list"

definition fieldValue :: "string \<Rightarrow> string \<Rightarrow> string option" where
  "fieldValue line pre = (if prefix pre line then Some (trim_space (drop (length pre) line)) else None)"

definition parseSpeedMbps :: "string \<Rightarrow> int" where
  "parseSpeedMbps raw =
     (case text_fields raw of
        [] \<Rightarrow> 0
      | w # _ \<Rightarrow> (case atoi w of None \<Rightarrow> 0 | Some v \<Rightarrow> if v < 0 then 0 else v))"

definition bond_header :: "string \<Rightarrow> bond \<Rightarrow> bond" where
  "bond_header line b =
     (case fieldValue line ''Bonding Mode:'' of Some v \<Rightarrow> b\<lparr>bo_mode := v\<rparr> | None \<Rightarrow>
     (case fieldValue line ''MII Status:'' of Some v \<Rightarrow> b\<lparr>bo_miiStatus := v\<rparr> | None \<Rightarrow>
     (case fieldValue line ''Currently Active Slave:'' of Some v \<Rightarrow> if v \<noteq> ''None'' then b\<lparr>bo_activeSlave := v\<rparr> else b | None \<Rightarrow>
     (case fieldValue line ''Partner Mac Address:'' of Some v \<Rightarrow> b\<lparr>bo_partnerMAC := v\<rparr> | None \<Rightarrow>
      if prefix ''lacp rate:'' (to_lower line) then b\<lparr>bo_lacpRate := trim_space (drop (length ''lacp rate:'') line)\<rparr> else b))))"

definition slave_line :: "string \<Rightarrow> bondSlave \<Rightarrow> bondSlave" where
  "slave_line line s =
     (case fieldValue line ''MII Status:'' of Some v \<Rightarrow> s\<lparr>bs_miiStatus := v\<rparr> | None \<Rightarrow>
     (case fieldValue line ''Speed:'' of Some v \<Rightarrow> s\<lparr>bs_speedMbps := parseSpeedMbps v\<rparr> | None \<Rightarrow>
     (case fieldValue line ''Duplex:'' of Some v \<Rightarrow> s\<lparr>bs_duplex := v\<rparr> | None \<Rightarrow>
     (case fieldValue line ''Link Failure Count:'' of
        Some v \<Rightarrow> (case atoi v of Some n \<Rightarrow> if n \<ge> 0 then s\<lparr>bs_failures := n\<rparr> else s | None \<Rightarrow> s)
      | None \<Rightarrow> s))))"

text \<open>The slave that lines belong to is the last one; before the first the lines are of the bond.\<close>

definition bond_line :: "bond \<Rightarrow> string \<Rightarrow> bond" where
  "bond_line b rawLine =
     (let line = trim_space rawLine
      in if line = [] then b
         else case fieldValue line ''Slave Interface:'' of
                Some v \<Rightarrow> b\<lparr>bo_slaves := bo_slaves b @ [\<lparr>bs_name = v, bs_miiStatus = [], bs_speedMbps = 0, bs_duplex = [], bs_failures = 0\<rparr>]\<rparr>
              | None \<Rightarrow>
                  if bo_slaves b = [] then bond_header line b
                  else b\<lparr>bo_slaves := butlast (bo_slaves b) @ [slave_line line (last (bo_slaves b))]\<rparr>)"

definition slave_reasons :: "bondSlave \<Rightarrow> string list" where
  "slave_reasons s =
     (if bs_miiStatus s \<noteq> ''up'' then [''slave '' @ bs_name s @ '' MII status is '' @ go_quote (bs_miiStatus s) @ '' (expected up)''] else []) @
     (if bs_failures s > 0 then [''slave '' @ bs_name s @ '' has '' @ itoa (bs_failures s) @ '' link failure(s)''] else [])"

definition bond_reasons :: "bond \<Rightarrow> string list" where
  "bond_reasons b =
     (if bo_miiStatus b \<noteq> ''up'' then [''bond MII status is '' @ go_quote (bo_miiStatus b) @ '' (expected up)''] else []) @
     concat (map slave_reasons (bo_slaves b))"

definition new_bond :: "string \<Rightarrow> bond" where
  "new_bond name = \<lparr>bo_name = name, bo_mode = [], bo_miiStatus = [], bo_activeSlave = [], bo_lacpRate = [], bo_partnerMAC = [],
     bo_slaves = [], bo_reasons = []\<rparr>"

definition parseBondFile :: "string \<Rightarrow> string \<Rightarrow> bond" where
  "parseBondFile name content =
     (let b = foldl bond_line (new_bond name) (text_lines content) in b\<lparr>bo_reasons := bond_reasons b\<rparr>)"

section \<open>The tool\<close>

text \<open>\<open>ctxErr\<close> gives the state of the context at each look: before the directory and before each entry.\<close>

fun read_bonds :: "(nat \<Rightarrow> string option) \<Rightarrow> (string \<Rightarrow> string option) \<Rightarrow> nat \<Rightarrow> (string \<times> bool) list \<Rightarrow> string + bond list" where
  "read_bonds ctxErr file k [] = Inr []"
| "read_bonds ctxErr file k ((name, isDir) # es) =
     (case ctxErr k of
        Some err \<Rightarrow> Inl (''context canceled during procfs walk: '' @ err)
      | None \<Rightarrow>
          (case read_bonds ctxErr file (Suc k) es of
             Inl err \<Rightarrow> Inl err
           | Inr bs \<Rightarrow> Inr (if isDir then bs else case file name of None \<Rightarrow> bs | Some content \<Rightarrow> parseBondFile name content # bs)))"

record bondSummary =
  bm_totalBonds :: int
  bm_bondsUp :: int
  bm_totalSlaves :: int
  bm_slavesUp :: int
  bm_withWarnings :: int

definition bond_summary :: "bond list \<Rightarrow> bondSummary" where
  "bond_summary bs =
     \<lparr>bm_totalBonds = int (length bs), bm_bondsUp = int (length (filter (\<lambda>b. bo_miiStatus b = ''up'') bs)),
      bm_totalSlaves = int (length (concat (map bo_slaves bs))),
      bm_slavesUp = int (length (filter (\<lambda>s. bs_miiStatus s = ''up'') (concat (map bo_slaves bs)))),
      bm_withWarnings = int (length (filter (\<lambda>b. bo_reasons b \<noteq> []) bs))\<rparr>"

definition slave_text :: "bondSlave \<Rightarrow> string" where
  "slave_text s = json_object [(''name'', json_string (bs_name s)), (''mii_status'', json_string (bs_miiStatus s)),
     (''speed_mbps'', itoa (bs_speedMbps s)), (''duplex'', json_string (bs_duplex s)), (''link_failure_count'', itoa (bs_failures s))]"

definition bond_text :: "bond \<Rightarrow> string" where
  "bond_text b = json_object ([(''name'', json_string (bo_name b)), (''mode'', json_string (bo_mode b)), (''mii_status'', json_string (bo_miiStatus b))] @
     if_text ''active_slave'' (bo_activeSlave b) @ if_text ''lacp_rate'' (bo_lacpRate b) @ if_text ''partner_mac'' (bo_partnerMAC b) @
     [(''slaves'', json_array (map slave_text (bo_slaves b)))] @ if_list ''warning_reasons'' json_string (bo_reasons b))"

definition bonds_text :: "bondSummary \<Rightarrow> bond list \<Rightarrow> string" where
  "bonds_text m bs = json_object [(''system_summary'', json_object [(''total_bonds'', itoa (bm_totalBonds m)), (''bonds_up'', itoa (bm_bondsUp m)),
      (''total_slaves'', itoa (bm_totalSlaves m)), (''slaves_up'', itoa (bm_slavesUp m)), (''bonds_with_warnings'', itoa (bm_withWarnings m))]),
     (''bonds'', json_array (map bond_text bs))]"

definition bonds_summary_text :: "bondSummary \<Rightarrow> string" where
  "bonds_summary_text m = ''Bonding: '' @ itoa (bm_totalBonds m) @ '' bond(s) ('' @ itoa (bm_bondsUp m) @ '' up), '' @ itoa (bm_totalSlaves m) @
     '' slave(s) ('' @ itoa (bm_slavesUp m) @ '' up), '' @ itoa (bm_withWarnings m) @ '' bond(s) with warnings''"

definition bonds_IsSupported :: "string \<Rightarrow> bool \<Rightarrow> bool \<times> string" where
  "bonds_IsSupported dir hasDir = (if hasDir then (True, []) else (False, ''bonding module not loaded ('' @ dir @ '' missing)''))"

definition bonds_Execute :: "string \<Rightarrow> int \<Rightarrow> string \<Rightarrow> (nat \<Rightarrow> string option) \<Rightarrow> string + (string \<times> bool) list \<Rightarrow> (string \<Rightarrow> string option) \<Rightarrow>
    envelope" where
  "bonds_Execute timestamp elapsedMs dir ctxErr entries file =
     (let fail = reg_NewErrorResult timestamp ''get_bond_status''
      in case ctxErr 0 of
           Some err \<Rightarrow> fail (''context canceled before execution: '' @ err)
         | None \<Rightarrow>
             (case entries of
                Inl err \<Rightarrow> fail (''cannot read '' @ dir @ '': '' @ err)
              | Inr es \<Rightarrow>
                  (case read_bonds ctxErr file 1 es of
                     Inl message \<Rightarrow> fail message
                   | Inr bs \<Rightarrow>
                       deterministic timestamp elapsedMs ''get_bond_status''
                         (if list_ex (\<lambda>b. bo_reasons b \<noteq> []) bs then StatusWarning else StatusOK)
                         (bonds_summary_text (bond_summary bs)) (bonds_text (bond_summary bs) bs))))"

section \<open>What the driver prints\<close>

text \<open>
  The lines that the driver prints and the tool reads, in their order; a speed the driver does not know is printed as \<open>Unknown\<close>. \<open>sl_details\<close>
  are further lines of a slave, which none of the labels begin.
\<close>

record driverSlave =
  sl_name :: string
  sl_mii :: string
  sl_speed :: "nat option"
  sl_duplex :: string
  sl_failures :: nat
  sl_details :: "string list"

record driverBond =
  db_mode :: string
  db_active :: string
  db_mii :: string
  db_lacpRate :: string
  db_partner :: string
  db_slaves :: "driverSlave list"

definition labelled :: "string \<Rightarrow> string \<Rightarrow> string" where
  "labelled label v = label @ '' '' @ v"

definition slave_lines :: "driverSlave \<Rightarrow> string list" where
  "slave_lines s =
     [labelled ''Slave Interface:'' (sl_name s), labelled ''MII Status:'' (sl_mii s),
      labelled ''Speed:'' (case sl_speed s of None \<Rightarrow> ''Unknown'' | Some n \<Rightarrow> itoa_nat n @ '' Mbps''), labelled ''Duplex:'' (sl_duplex s),
      labelled ''Link Failure Count:'' (itoa_nat (sl_failures s))] @ sl_details s"

definition bond_lines :: "driverBond \<Rightarrow> string list" where
  "bond_lines b =
     [labelled ''Bonding Mode:'' (db_mode b), labelled ''Currently Active Slave:'' (db_active b), labelled ''MII Status:'' (db_mii b),
      labelled ''LACP rate:'' (db_lacpRate b), CHR 0x09 # labelled ''Partner Mac Address:'' (db_partner b), []] @
     concat (map slave_lines (db_slaves b))"

definition plain_value :: "string \<Rightarrow> bool" where
  "plain_value v \<longleftrightarrow> v \<noteq> [] \<and> \<not> is_space (hd v) \<and> \<not> is_space (last v) \<and> CHR 0x0A \<notin> set v"

definition slave_labels :: "string list" where
  "slave_labels = [''Slave Interface:'', ''MII Status:'', ''Speed:'', ''Duplex:'', ''Link Failure Count:'']"

definition slave_ok :: "driverSlave \<Rightarrow> bool" where
  "slave_ok s \<longleftrightarrow> plain_value (sl_name s) \<and> plain_value (sl_mii s) \<and> plain_value (sl_duplex s) \<and> int (sl_failures s) \<le> max_int \<and>
     (case sl_speed s of None \<Rightarrow> True | Some n \<Rightarrow> int n \<le> max_int) \<and>
     list_all (\<lambda>l. CHR 0x0A \<notin> set l \<and> list_all (\<lambda>p. \<not> prefix p (trim_space l)) slave_labels) (sl_details s)"

definition bond_ok :: "driverBond \<Rightarrow> bool" where
  "bond_ok b \<longleftrightarrow> plain_value (db_mode b) \<and> plain_value (db_active b) \<and> plain_value (db_mii b) \<and> plain_value (db_lacpRate b) \<and>
     plain_value (db_partner b) \<and> list_all slave_ok (db_slaves b)"

definition slave_of :: "driverSlave \<Rightarrow> bondSlave" where
  "slave_of s = \<lparr>bs_name = sl_name s, bs_miiStatus = sl_mii s, bs_speedMbps = (case sl_speed s of None \<Rightarrow> 0 | Some n \<Rightarrow> int n),
     bs_duplex = sl_duplex s, bs_failures = int (sl_failures s)\<rparr>"

lemma labelled_trim:
  assumes "plain_value v" "label \<noteq> []" "\<not> is_space (hd label)"
  shows "trim_space (labelled label v) = labelled label v"
  using assms by (intro trim_space_id) (simp add: labelled_def plain_value_def)

lemma trim_space_head: "is_space c \<Longrightarrow> trim_space (c # s) = trim_space s"
  by (simp add: trim_space_def)

lemma plain_trim: "plain_value v \<Longrightarrow> trim_space v = v"
  by (intro trim_space_id) (simp add: plain_value_def)

lemma value_labelled: "plain_value v \<Longrightarrow> fieldValue (labelled label v) label = Some v"
  by (simp add: fieldValue_def labelled_def trim_space_head is_space_def plain_trim)

lemma prefix_cases: "prefix p (q @ s) \<Longrightarrow> prefix p q \<or> prefix q p"
  by (metis prefix_append prefixI)

lemma other_label: "\<not> prefix p label \<Longrightarrow> \<not> prefix label p \<Longrightarrow> fieldValue (labelled label v) p = None"
  by (auto simp: fieldValue_def labelled_def dest: prefix_cases)

lemma trim_labels:
  assumes "plain_value v"
  shows "trim_space (labelled ''Slave Interface:'' v) = labelled ''Slave Interface:'' v"
    "trim_space (labelled ''MII Status:'' v) = labelled ''MII Status:'' v" "trim_space (labelled ''Speed:'' v) = labelled ''Speed:'' v"
    "trim_space (labelled ''Duplex:'' v) = labelled ''Duplex:'' v"
    "trim_space (labelled ''Link Failure Count:'' v) = labelled ''Link Failure Count:'' v"
    "trim_space (labelled ''Bonding Mode:'' v) = labelled ''Bonding Mode:'' v"
    "trim_space (labelled ''Currently Active Slave:'' v) = labelled ''Currently Active Slave:'' v"
    "trim_space (labelled ''LACP rate:'' v) = labelled ''LACP rate:'' v"
    "trim_space (CHR 0x09 # labelled ''Partner Mac Address:'' v) = labelled ''Partner Mac Address:'' v"
  using assms by (simp_all add: labelled_trim trim_space_head is_space_def)

lemma labelled_nonempty [simp]: "labelled label v \<noteq> []"
  by (simp add: labelled_def)

lemma speed_shown: "case sl_speed s of None \<Rightarrow> True | Some n \<Rightarrow> int n \<le> max_int \<Longrightarrow>
    plain_value (case sl_speed s of None \<Rightarrow> ''Unknown'' | Some n \<Rightarrow> itoa_nat n @ '' Mbps'') \<and>
    parseSpeedMbps (case sl_speed s of None \<Rightarrow> ''Unknown'' | Some n \<Rightarrow> itoa_nat n @ '' Mbps'') = (case sl_speed s of None \<Rightarrow> 0 | Some n \<Rightarrow> int n)"
proof (cases "sl_speed s")
  case None
  have "parseSpeedMbps ''Unknown'' = 0" by code_simp
  then show ?thesis using None by (simp add: plain_value_def is_space_def)
next
  case (Some n)
  assume "case sl_speed s of None \<Rightarrow> True | Some n \<Rightarrow> int n \<le> max_int"
  then have n: "int n \<le> max_int" using Some by simp
  have digits: "\<not> is_space c" if "c \<in> set (itoa_nat n)" for c using itoa_nat_plain that by (auto simp: list_all_iff)
  have "text_fields (itoa_nat n @ '' Mbps'') = [itoa_nat n, ''Mbps'']"
    using fields_append [of "itoa_nat n" "CHR '' ''" "''Mbps''"] digits fields_word [of "''Mbps''"] by (auto simp: is_space_def)
  then have "parseSpeedMbps (itoa_nat n @ '' Mbps'') = int n" using n by (simp add: parseSpeedMbps_def atoi_itoa_nat)
  moreover have "plain_value (itoa_nat n @ '' Mbps'')"
    using digits [of "hd (itoa_nat n)"] digits by (auto simp: plain_value_def is_space_def)
  ultimately show ?thesis using Some by simp
qed

lemma count_plain: "plain_value (itoa_nat n)"
  using itoa_nat_plain [of n] by (auto simp: plain_value_def list_all_iff is_space_def)

lemma details_kept:
  assumes "bo_slaves b \<noteq> []" "list_all (\<lambda>l. CHR 0x0A \<notin> set l \<and> list_all (\<lambda>p. \<not> prefix p (trim_space l)) slave_labels) ls"
  shows "foldl bond_line b ls = b"
  using assms(2)
proof (induction ls)
  case (Cons l ls)
  then have "bond_line b l = b"
    using assms(1) by (cases b) (auto simp: bond_line_def Let_def fieldValue_def slave_line_def slave_labels_def)
  then show ?case using Cons by simp
qed simp

lemma one_slave:
  assumes "slave_ok s"
  shows "foldl bond_line b (slave_lines s) = b\<lparr>bo_slaves := bo_slaves b @ [slave_of s]\<rparr>"
proof -
  have ok: "plain_value (sl_name s)" "plain_value (sl_mii s)" "plain_value (sl_duplex s)" "int (sl_failures s) \<le> max_int"
    "list_all (\<lambda>l. CHR 0x0A \<notin> set l \<and> list_all (\<lambda>p. \<not> prefix p (trim_space l)) slave_labels) (sl_details s)"
    using assms by (simp_all add: slave_ok_def)
  have sp: "case sl_speed s of None \<Rightarrow> True | Some n \<Rightarrow> int n \<le> max_int" using assms by (simp add: slave_ok_def)
  define speed where "speed = (case sl_speed s of None \<Rightarrow> ''Unknown'' | Some n \<Rightarrow> itoa_nat n @ '' Mbps'')"
  have speed: "plain_value speed" "parseSpeedMbps speed = (case sl_speed s of None \<Rightarrow> 0 | Some n \<Rightarrow> int n)"
    using speed_shown [OF sp] by (simp_all add: speed_def)
  define add where "add = (\<lambda>sl. b\<lparr>bo_slaves := bo_slaves b @ [sl]\<rparr>)"
  have l1: "bond_line b (labelled ''Slave Interface:'' (sl_name s)) =
      add \<lparr>bs_name = sl_name s, bs_miiStatus = [], bs_speedMbps = 0, bs_duplex = [], bs_failures = 0\<rparr>"
    by (simp add: bond_line_def Let_def trim_labels ok value_labelled add_def)
  have step: "bond_line (add sl) l = add (slave_line (trim_space l) sl)"
    if "trim_space l \<noteq> []" "fieldValue (trim_space l) ''Slave Interface:'' = None" for sl l
    using that by (simp add: bond_line_def Let_def add_def)
  have l2: "bond_line (add sl) (labelled ''MII Status:'' (sl_mii s)) = add (sl\<lparr>bs_miiStatus := sl_mii s\<rparr>)"
      "bond_line (add sl) (labelled ''Speed:'' speed) = add (sl\<lparr>bs_speedMbps := parseSpeedMbps speed\<rparr>)"
      "bond_line (add sl) (labelled ''Duplex:'' (sl_duplex s)) = add (sl\<lparr>bs_duplex := sl_duplex s\<rparr>)"
      "bond_line (add sl) (labelled ''Link Failure Count:'' (itoa_nat (sl_failures s))) = add (sl\<lparr>bs_failures := int (sl_failures s)\<rparr>)" for sl
    by (subst step; simp add: trim_labels ok speed(1) count_plain value_labelled other_label slave_line_def atoi_itoa_nat [OF ok(4)])+
  have "foldl bond_line b (slave_lines s) = foldl bond_line (add (slave_of s)) (sl_details s)"
    by (simp add: slave_lines_def speed_def [symmetric] l1 l2 speed(2) slave_of_def)
  also have "\<dots> = add (slave_of s)" by (rule details_kept [OF _ ok(5)]) (simp add: add_def)
  finally show ?thesis by (simp add: add_def)
qed

lemma all_slaves:
  "list_all slave_ok ss \<Longrightarrow> foldl bond_line b (concat (map slave_lines ss)) = b\<lparr>bo_slaves := bo_slaves b @ map slave_of ss\<rparr>"
  by (induction ss arbitrary: b) (simp_all add: one_slave)

definition bond_of :: "string \<Rightarrow> driverBond \<Rightarrow> bond" where
  "bond_of name d =
     (let b = \<lparr>bo_name = name, bo_mode = db_mode d, bo_miiStatus = db_mii d, bo_activeSlave = (if db_active d = ''None'' then [] else db_active d),
        bo_lacpRate = db_lacpRate d, bo_partnerMAC = db_partner d, bo_slaves = map slave_of (db_slaves d), bo_reasons = []\<rparr>
      in b\<lparr>bo_reasons := bond_reasons b\<rparr>)"

lemma header_line: "bo_slaves b = [] \<Longrightarrow> trim_space l \<noteq> [] \<Longrightarrow> fieldValue (trim_space l) ''Slave Interface:'' = None \<Longrightarrow>
    bond_line b l = bond_header (trim_space l) b"
  by (simp add: bond_line_def Let_def)

lemma lacp_line: "plain_value v \<Longrightarrow> bond_header (labelled ''LACP rate:'' v) b = b\<lparr>bo_lacpRate := v\<rparr>"
proof -
  assume v: "plain_value v"
  have p: "prefix ''lacp rate:'' (to_lower (labelled ''LACP rate:'' v))"
  proof -
    have "to_lower ''LACP rate:'' = ''lacp rate:''" by code_simp
    then show ?thesis by (simp add: labelled_def to_lower_def)
  qed
  have "drop (length ''lacp rate:'') (labelled ''LACP rate:'' v) = '' '' @ v" by (simp add: labelled_def)
  then show ?thesis using p v by (simp add: bond_header_def other_label trim_space_head is_space_def plain_trim)
qed

lemma parse_bond_lines:
  assumes "bond_ok d"
  shows "foldl bond_line (new_bond name) (bond_lines d) = (bond_of name d)\<lparr>bo_reasons := []\<rparr>"
proof -
  have ok: "plain_value (db_mode d)" "plain_value (db_active d)" "plain_value (db_mii d)" "plain_value (db_lacpRate d)"
    "plain_value (db_partner d)" "list_all slave_ok (db_slaves d)"
    using assms by (simp_all add: bond_ok_def)
  define b1 where "b1 = (new_bond name)\<lparr>bo_mode := db_mode d\<rparr>"
  define b2 where "b2 = b1\<lparr>bo_activeSlave := (if db_active d = ''None'' then [] else db_active d)\<rparr>"
  define b3 where "b3 = b2\<lparr>bo_miiStatus := db_mii d\<rparr>"
  define b4 where "b4 = b3\<lparr>bo_lacpRate := db_lacpRate d\<rparr>"
  define b5 where "b5 = b4\<lparr>bo_partnerMAC := db_partner d\<rparr>"
  have none: "bo_slaves (new_bond name) = []" "bo_slaves b1 = []" "bo_slaves b2 = []" "bo_slaves b3 = []" "bo_slaves b4 = []"
    by (simp_all add: b1_def b2_def b3_def b4_def new_bond_def)
  have "bo_activeSlave b1 = []" by (simp add: b1_def new_bond_def)
  then have active: "b1 = b1\<lparr>bo_activeSlave := []\<rparr>" by simp
  have "bond_line (new_bond name) (labelled ''Bonding Mode:'' (db_mode d)) = b1"
    "bond_line b1 (labelled ''Currently Active Slave:'' (db_active d)) = b2"
    "bond_line b2 (labelled ''MII Status:'' (db_mii d)) = b3"
    "bond_line b3 (labelled ''LACP rate:'' (db_lacpRate d)) = b4"
    "bond_line b4 (CHR 0x09 # labelled ''Partner Mac Address:'' (db_partner d)) = b5"
    "bond_line b5 [] = b5"
    subgoal by (subst header_line [OF none(1)]; simp add: trim_labels ok other_label bond_header_def value_labelled b1_def)
    subgoal using active by (subst header_line [OF none(2)]; simp add: trim_labels ok other_label bond_header_def value_labelled b2_def)
    subgoal by (subst header_line [OF none(3)]; simp add: trim_labels ok other_label bond_header_def value_labelled b3_def)
    subgoal by (subst header_line [OF none(4)]; simp add: trim_labels ok other_label lacp_line b4_def)
    subgoal by (subst header_line [OF none(5)]; simp add: trim_labels ok other_label bond_header_def value_labelled b5_def)
    subgoal by (simp add: bond_line_def trim_space_def)
    done
  then have "foldl bond_line (new_bond name) (bond_lines d) = b5\<lparr>bo_slaves := bo_slaves b5 @ map slave_of (db_slaves d)\<rparr>"
    by (simp add: bond_lines_def all_slaves [OF ok(6)])
  also have "\<dots> = (bond_of name d)\<lparr>bo_reasons := []\<rparr>"
    by (simp add: b5_def b4_def b3_def b2_def b1_def new_bond_def bond_of_def Let_def)
  finally show ?thesis .
qed


definition sample_slave :: driverSlave where
  "sample_slave = \<lparr>sl_name = ''eth0'', sl_mii = ''up'', sl_speed = Some 25000, sl_duplex = ''full'', sl_failures = 2,
     sl_details = [''Slave queue ID: 0'', []]\<rparr>"

definition sample_bond :: driverBond where
  "sample_bond = \<lparr>db_mode = ''IEEE 802.3ad'', db_active = ''None'', db_mii = ''up'', db_lacpRate = ''fast'', db_partner = ''00:01'',
     db_slaves = [sample_slave, sample_slave\<lparr>sl_speed := None\<rparr>]\<rparr>"


end
