(* ===== verification/Answers.thy ===== *)
theory Answers
  imports Plugins Oom Firewall Lifecycle Locks Sockets OpenFiles Routes Sessions Bonds
begin

text \<open>
  What a caller gets from a tool over the mesh: for every tool that is modelled the handler the bridge registers returns one JSON
  object with the members of the envelope, of their types and in their order, whatever the tool found and whatever failed.
\<close>

section \<open>The type of an answer\<close>

definition member_of :: "(string \<times> string \<times> json) list \<Rightarrow> string \<Rightarrow> json option" where
  "member_of ms key = map_of (map (\<lambda>(k, raw, v). (k, v)) ms) key"

fun is_string :: "json option \<Rightarrow> bool" where
  "is_string (Some (JString s)) = True"
| "is_string _ = False"

fun is_number :: "json option \<Rightarrow> bool" where
  "is_number (Some (JNumber n)) = True"
| "is_number _ = False"

definition typed_metadata :: "json option \<Rightarrow> bool" where
  "typed_metadata v =
     (case v of
        Some (JObject ms) \<Rightarrow>
          map fst ms = [''execution_time_ms'', ''timestamp'', ''filtering_method''] \<and> is_number (member_of ms ''execution_time_ms'') \<and>
          is_string (member_of ms ''timestamp'') \<and> is_string (member_of ms ''filtering_method'')
      | _ \<Rightarrow> False)"

text \<open>An answer that is an error has one member with the message, the summary of the answer.\<close>

definition typed_error :: "json option \<Rightarrow> json option \<Rightarrow> bool" where
  "typed_error summary v =
     (case v of Some (JObject ms) \<Rightarrow> map fst ms = [''error''] \<and> member_of ms ''error'' = summary | _ \<Rightarrow> False)"

definition typed_answer :: "string \<Rightarrow> node_id \<Rightarrow> string + toolResult \<Rightarrow> bool" where
  "typed_answer name nodeID answer =
     (case answer of
        Inl err \<Rightarrow> False
      | Inr r \<Rightarrow>
          \<not> tr_isError r \<and>
          (case json_parse (tr_content r) of
             Some (JObject ms) \<Rightarrow>
               map fst ms = [''tool_name'', ''node_id'', ''status'', ''summary'', ''data'', ''metadata''] \<and>
               member_of ms ''tool_name'' = Some (JString name) \<and> member_of ms ''node_id'' = Some (JString nodeID) \<and>
               list_ex (\<lambda>st. member_of ms ''status'' = Some (JString (status_text st))) [StatusOK, StatusWarning, StatusError, StatusDegraded] \<and>
               is_string (member_of ms ''summary'') \<and> typed_metadata (member_of ms ''metadata'') \<and>
               (if member_of ms ''status'' = Some (JString ''error'') then typed_error (member_of ms ''summary'') (member_of ms ''data'') else True)
           | _ \<Rightarrow> False))"

text \<open>The handler of a plugin whose execution gives this result.\<close>

definition handled :: "node_id \<Rightarrow> int \<Rightarrow> plugin \<Rightarrow> string \<Rightarrow> envelope \<Rightarrow> string + toolResult" where
  "handled nodeID elapsed tool args e = plugin_handler nodeID elapsed (tool\<lparr>pl_execute := \<lambda>args. Inr e\<rparr>) args"

section \<open>Envelopes\<close>

definition good_envelope :: "string \<Rightarrow> envelope \<Rightarrow> bool" where
  "good_envelope name e \<longleftrightarrow>
     ev_toolName e = name \<and> is_json (ev_data e) \<and>
     (ev_status e = StatusError \<longrightarrow> ev_data e = json_object [(''error'', json_string (ev_summary e))])"

lemma status_text_error [simp]: "status_text st = ''error'' \<longleftrightarrow> st = StatusError"
  by (cases st) simp_all

lemma written_error: "json_written (json_object [(''error'', json_string m)]) (JObject [(''error'', json_string m, JString m)])"
  using written_object [of "[(''error'', json_string m)]" "[JString m]"] by (simp add: written_string)

lemma written_unique: "json_written t v \<Longrightarrow> json_written t w \<Longrightarrow> v = w"
  using json_reads_parse [of t v] json_reads_parse [of t w] by (simp add: json_written_def)

lemma envelope_read:
  assumes "json_written (ev_data r) v"
  shows "\<exists>t. envelope_text r = Some t \<and>
     json_parse t = Some (JObject [(''tool_name'', json_string (ev_toolName r), JString (ev_toolName r)),
       (''node_id'', json_string (ev_nodeID r), JString (ev_nodeID r)),
       (''status'', json_string (status_text (ev_status r)), JString (status_text (ev_status r))),
       (''summary'', json_string (ev_summary r), JString (ev_summary r)), (''data'', ev_data r, v),
       (''metadata'', json_object [(''execution_time_ms'', itoa (ev_executionTimeMs r)), (''timestamp'', json_string (ev_timestamp r)),
            (''filtering_method'', json_string (ev_filteringMethod r))],
          JObject [(''execution_time_ms'', itoa (ev_executionTimeMs r), JNumber (itoa (ev_executionTimeMs r))),
            (''timestamp'', json_string (ev_timestamp r), JString (ev_timestamp r)),
            (''filtering_method'', json_string (ev_filteringMethod r), JString (ev_filteringMethod r))])])"
proof -
  have "json_reads (ev_data r) v" using assms by (simp add: json_written_def)
  note reads = reads_object [OF reads_fields_Cons [OF reads_int reads_fields_Cons [OF reads_string reads_fields_Cons [OF reads_string reads_fields_Nil]]]]
  note all = reads_object [OF reads_fields_Cons [OF reads_string reads_fields_Cons [OF reads_string reads_fields_Cons [OF reads_string
      reads_fields_Cons [OF reads_string reads_fields_Cons [OF \<open>json_reads (ev_data r) v\<close> reads_fields_Cons [OF reads reads_fields_Nil]]]]]]]
  show ?thesis unfolding envelope_text_def written_raw [OF assms] using json_reads_parse [OF all] by simp
qed

lemma good_typed:
  assumes "good_envelope name e"
  shows "typed_answer name nodeID (handled nodeID elapsed tool args e)"
proof -
  let ?r = "e\<lparr>ev_nodeID := nodeID, ev_executionTimeMs := elapsed\<rparr>"
  obtain v where v: "json_written (ev_data ?r) v" using assms by (auto simp: good_envelope_def is_json_def)
  have name: "ev_toolName ?r = name" using assms by (simp add: good_envelope_def)
  have error: "ev_status e = StatusError \<Longrightarrow> typed_error (Some (JString (ev_summary e))) (Some v)"
  proof -
    assume "ev_status e = StatusError"
    then have "ev_data ?r = json_object [(''error'', json_string (ev_summary e))]" using assms by (simp add: good_envelope_def)
    then have "v = JObject [(''error'', json_string (ev_summary e), JString (ev_summary e))]"
      using v written_error by (metis written_unique)
    then show ?thesis by (simp add: typed_error_def member_of_def)
  qed
  obtain st where st: "ev_status e = st" by simp
  show ?thesis using envelope_read [OF v] name error
    by (cases st)
      (auto simp: handled_def plugin_handler_def typed_answer_def member_of_def typed_metadata_def st)
qed

lemma good_error [simp]: "good_envelope name (reg_NewErrorResult timestamp name message)"
  by (simp add: good_envelope_def reg_NewErrorResult_def NewResult_def)

lemma good_result: "is_json t \<Longrightarrow> st \<noteq> StatusError \<Longrightarrow> good_envelope name (NewResult timestamp name st summary (Some t))"
  by (simp add: good_envelope_def NewResult_def)

lemma good_update [simp]:
  "good_envelope name (e\<lparr>ev_executionTimeMs := n\<rparr>) \<longleftrightarrow> good_envelope name e"
  "good_envelope name (e\<lparr>ev_filteringMethod := m\<rparr>) \<longleftrightarrow> good_envelope name e"
  by (simp_all add: good_envelope_def)

lemma good_deterministic: "is_json t \<Longrightarrow> st \<noteq> StatusError \<Longrightarrow> good_envelope name (deterministic timestamp elapsedMs name st summary t)"
  by (simp add: deterministic_def good_result)

section \<open>The data are JSON\<close>

lemma is_json_if_text [simp]: "list_all (\<lambda>f. is_json (snd f)) (if_text key s)"
  by (simp add: if_text_def)

lemma is_json_if_number [simp]: "list_all (\<lambda>f. is_json (snd f)) (if_number key n)"
  by (simp add: if_number_def)

lemma is_json_if_list [simp]: "(\<And>x. is_json (f x)) \<Longrightarrow> list_all (\<lambda>f. is_json (snd f)) (if_list key f xs)"
  by (simp add: if_list_def list_all_iff)

lemma is_json_map [simp]: "(\<And>x. is_json (f x)) \<Longrightarrow> is_json (json_array (map f xs))"
  by (simp add: list_all_iff)

lemma is_json_nil_list [simp]: "(\<And>x. is_json (f x)) \<Longrightarrow> is_json (nil_list f xs)"
  by (simp add: nil_list_def)

lemma is_json_slice [simp]: "(\<And>x. is_json (f x)) \<Longrightarrow> is_json (slice_text (map f xs))"
  by (simp add: slice_text_def)

lemma is_json_true [simp]: "is_json ''true''"
  using is_json_bool [of True] by (simp add: json_bool_def)

lemma is_json_omitempty [simp]: "list_all (\<lambda>f. is_json (snd f)) (omitempty key s)"
  by (simp add: omitempty_def)

named_theorems texts
lemmas [texts] = waiter_text_def holder_text_def locks_text_def listener_text_def unresolved_text_def listening_text_def socket_text_def
  route_text_def routes_text_def session_text_def sessions_text_def files_text_def openfiles_text_def slave_text_def bond_text_def bonds_text_def
  counts_text_def zombie_text_def parent_text_def dstate_text_def oom_event_text_def oom_output_text_def chain_text_def table_text_def
  fw_output_text_def op_text_def

lemma texts_are_json:
  "is_json (locks_text ld)" "is_json (listening_text da)" "is_json (socket_text sk)" "is_json (routes_text v4 v6)"
  "is_json (sessions_text ss source)" "is_json (openfiles_text path od)" "is_json (bonds_text bm bs)"
  by (simp_all add: texts)

lemma texts_are_json2:
  "is_json (counts_text n)" "is_json (zombie_text z)" "is_json (parent_text p)" "is_json (dstate_text d)"
  "is_json (fw_output_text backend want s)" "is_json (op_text op)"
  by (simp_all add: texts Let_def)

lemma oom_event_is_json: "is_json (oom_event_text ev)"
  by (simp add: oom_event_text_def split: option.split)

lemma oom_output_is_json: "is_json (oom_output_text events found)"
proof -
  have "is_json (json_object (map (\<lambda>(k, n). (k, itoa n)) ks))" for ks :: "(string \<times> int) list"
    by (rule is_json_object) (auto simp: list_all_iff)
  then show ?thesis by (simp add: oom_output_text_def oom_event_is_json)
qed

section \<open>The tools\<close>

named_theorems good
lemmas [good] = good_result good_deterministic texts_are_json texts_are_json2 oom_output_is_json

lemma good_locks: "good_envelope ''get_file_locks'' (locks_Execute timestamp elapsedMs fs dir ctxErr table walk)"
  by (simp add: locks_Execute_def Let_def good split: option.split sum.split)

lemma good_listening: "good_envelope ''get_listening_services'' (listening_Execute timestamp elapsedMs fs dir ctxErrs tables fds shuffle)"
  by (simp add: listening_Execute_def Let_def good split: sum.split prod.split)

lemma good_sockets: "good_envelope ''get_socket_stats'' (sockets_Execute timestamp elapsedMs tables ssOutput)"
  by (simp add: sockets_Execute_def Let_def good)

lemma good_routes: "good_envelope ''get_routing_table'' (routes_Execute timestamp elapsedMs env)"
  by (simp add: routes_Execute_def good)

lemma good_sessions: "good_envelope ''get_logged_in_sessions'' (sessions_Execute timestamp elapsedMs env utmpPath)"
  by (simp add: sessions_Execute_def Let_def good split: option.split sum.split prod.split)

lemma good_openfiles: "good_envelope ''get_open_files'' (openfiles_Execute timestamp elapsedMs argError fs dir ctxErrs fds shuffle args)"
  by (simp add: openfiles_Execute_def Let_def good split: sum.split prod.split)

lemma good_bonds: "good_envelope ''get_bond_status'' (bonds_Execute timestamp elapsedMs dir ctxErrs entries file)"
  by (simp add: bonds_Execute_def Let_def good split: option.split sum.split)

lemma good_proc: "good_envelope ''get_process_states'' (proc_Execute timestamp elapsedMs fs dir ctxErrs)"
  by (simp add: proc_Execute_def Let_def good split: option.split sum.split)

lemma good_oom: "good_envelope ''query_oom_events'' (oom_Execute env raw)"
  by (simp add: oom_Execute_def Let_def good split: option.split sum.split prod.split)

lemma good_firewall: "case fw_Execute env raw of None \<Rightarrow> True | Some e \<Rightarrow> good_envelope ''get_firewall_summary'' e"
  by (simp add: fw_Execute_def Let_def good split: option.split fw_read.split)

lemma good_lifecycle:
  "good_envelope ''node_install'' (fst (install_Execute timestamp elapsedMs liveMode exe))"
  "good_envelope ''node_uninstall'' (fst (uninstall_Execute timestamp elapsedMs liveMode exe))"
  "good_envelope ''node_restart'' (fst (restart_Execute timestamp elapsedMs liveMode))"
  "good_envelope ''node_stop'' (fst (stop_Execute timestamp elapsedMs liveMode))"
  "good_envelope ''node_upgrade'' (fst (upgrade_Execute timestamp elapsedMs parseError liveMode args))"
  by (simp_all add: install_Execute_def uninstall_Execute_def restart_Execute_def stop_Execute_def upgrade_Execute_def ops_answer_def
      command_answer_def Let_def good split: option.split sum.split)


end
