(* ===== verification/Spec2Isabelle.thy ===== *)
theory Spec2Isabelle
  imports HostMatch TopK Streams Network Reconnect McpServer Config Circuit Deploy Wires ProcList Answers
begin

text \<open>
  Verification development of the fleet-diagnostics program: a daemon (package tree \<open>internal\<close>) offers
  diagnostic tools of one machine over the Model Context Protocol, and a peer-to-peer mesh (package tree
  \<open>pkg/mesh\<close>) joins the daemons, so that a call made at one node is answered by the nodes that a host
  pattern selects.

  The parts and the theories that model them:

  \<^item> \<^theory_text>\<open>Prelude\<close>, \<^theory_text>\<open>GoText\<close>: Go's 64-bit integers and times as \<open>64 word\<close> or \<open>int\<close>, \<open>float64\<close> as a datatype
    with NaN and the infinities, maps, the stable sort of \<open>sort.SliceStable\<close> and \<open>sort.Slice\<close>, and the functions of
    \<open>strings\<close>, \<open>strconv\<close> and \<open>fmt\<close> that the code uses.
  \<^item> \<open>pkg/mesh/nodeset\<close>: \<^theory_text>\<open>RangeSet\<close> (\<open>rangeset.go\<close>, sorted disjoint ranges), \<^theory_text>\<open>Bracket\<close> and \<^theory_text>\<open>SetExpr\<close> (\<open>parser.go\<close>,
    bracket expressions, cartesian expansion, operators and groups), \<^theory_text>\<open>Fold\<close> (\<open>fold.go\<close>), \<^theory_text>\<open>NodeSet\<close> and
    \<^theory_text>\<open>HostMatch\<close> (\<open>nodeset.go\<close>, the type \<open>NodeSet\<close> and the matcher \<open>Match\<close>). Node sets select the nodes of a call
    and the credential of a host.
  \<^item> \<open>pkg/mesh/routing\<close>: \<^theory_text>\<open>Gradient\<close> (\<open>gradient.go\<close>, the routing table filled by gossip), \<^theory_text>\<open>CapIndex\<close>
    (\<open>capability_index.go\<close>, which node offers what), \<^theory_text>\<open>Sonar\<close> (\<open>sonar.go\<close>, discovery by flooding), \<^theory_text>\<open>Circuit\<close>
    (\<open>circuit.go\<close> and the buffer pools, the data path).
  \<^item> \<open>pkg/mesh/nucleus\<close>: \<^theory_text>\<open>Nucleus\<close> (\<open>manifest.go\<close>, \<open>impedance.go\<close>, \<open>resolver.go\<close>).
  \<^item> \<open>pkg/mesh/vault\<close>: \<^theory_text>\<open>Vault\<close> (\<open>store.go\<close>, \<open>delegate.go\<close>, \<open>convert.go\<close>).
  \<^item> \<open>pkg/mesh/proto\<close> and \<open>pkg/mesh/membrane\<close>: \<^theory_text>\<open>Frames\<close> (\<open>codec.go\<close>, \<open>proto/pair.go\<close>, \<open>membrane/pair.go\<close>).
  \<^item> \<^theory_text>\<open>Wires\<close>: the rest of \<open>pkg/mesh/membrane\<close> (\<open>mtls.go\<close>, \<open>yamux.go\<close>, \<open>zstd.go\<close>), \<open>pkg/mesh/transport\<close> and the two ways of adding a peer
    (\<open>api/connect.go\<close>), as programs whose calls of the TLS, yamux, zstd, SSH and HTTP libraries an environment answers.
  \<^item> \<open>pkg/mesh/api\<close>, the node that drives all of these: \<^theory_text>\<open>Peers\<close> (\<open>async_writer.go\<close> and \<open>peerConn\<close>, \<open>peerManager\<close> of
    \<open>neuron.go\<close>), \<^theory_text>\<open>Node\<close> (\<open>neuron.go\<close>, \<open>health.go\<close>, \<open>connect.go\<close>: the record of a node's state, the death of a peer, dialling and
    relay circuits), \<^theory_text>\<open>Bootstrap\<close> (\<open>bootstrap.go\<close>), \<^theory_text>\<open>Control\<close> (\<open>control.go\<close>, \<open>credential.go\<close>: one definition per frame handler and
    the gossip round), \<^theory_text>\<open>Reconnect\<close> (\<open>reconnect.go\<close>). \<^theory_text>\<open>Network\<close> composes the nodes: a step delivers a frame over a
    link to the handlers of its receiver, fires a gossip tick, kills a connection or queues a frame.
  \<^item> \<open>pkg/mesh/tools\<close> and \<open>pkg/mesh/gateway\<close>, the calls that travel over the mesh: \<^theory_text>\<open>Tools\<close> (definitions of tools, the registry of a
    node, both ends of a tool connection, discovery and remote calls) and \<^theory_text>\<open>Gateway\<close> (the meta tools that list, explain and
    call tools, on the own node, a named one or every node of a pattern). Their arguments and answers are JSON texts; \<^theory_text>\<open>GoJson\<close> is
    what they need of \<open>encoding/json\<close>, a reader and writer on strings.
  \<^item> \<open>internal/registry\<close>: \<^theory_text>\<open>Plugins\<close> (categories, results, the cache, the registry of plugins and its bridge to the mesh, the detection
    of roles). \<open>internal/mcp\<close>: \<^theory_text>\<open>McpServer\<close> (the handlers with their check of arguments, and the overview that joins the answers of
    all nodes into one graph). \<open>internal/config\<close>: \<^theory_text>\<open>Config\<close>. \<^theory_text>\<open>JsonDecode\<close> decodes JSON into structs, and \<^theory_text>\<open>JsonWrite\<close> shows
    which texts that the code puts together are JSON and what they read as.
  \<^item> \<open>internal/mesh\<close>, the daemon around the node: \<^theory_text>\<open>Lifecycle\<close> (\<open>internal/registry/tools/lifecycle\<close>: installing, upgrading and removing
    the program, as programs of system calls that a machine with faults performs), \<^theory_text>\<open>Upload\<close> (\<open>pki.go\<close>, \<open>transfer.go\<close>: what is sent over
    a deployment stream, and the listener that tells uploads from calls) and \<^theory_text>\<open>Deploy\<close> (\<open>cli.go\<close>, \<open>upgrade.go\<close>, \<open>transport/deploy.go\<close>:
    a round over the configured hosts as a log of its effects, the reconciler, the chain of dialling, the removal of the fleet).
  \<^item> \<open>internal/registry/tools\<close>, the tools themselves, as functions of the files and command outputs they read, on the text functions of
    \<^theory_text>\<open>HostText\<close>, \<^theory_text>\<open>NetText\<close> (numbers of any base and network addresses) and \<^theory_text>\<open>HostTools\<close> (what the tools share): \<^theory_text>\<open>Oom\<close> (kills by the
    kernel's out-of-memory killer), \<^theory_text>\<open>Firewall\<close> (the packet filter), \<^theory_text>\<open>ProcStates\<close> (processes by state), \<^theory_text>\<open>ProcList\<close> (the top of the processes,
    with \<open>internal/sys/process\<close>), \<^theory_text>\<open>Locks\<close> (file locks), \<^theory_text>\<open>Listening\<close> and \<^theory_text>\<open>Sockets\<close> (the tables of sockets), \<^theory_text>\<open>OpenFiles\<close> (descriptors
    under a path), \<^theory_text>\<open>Routes\<close> (routing tables), \<^theory_text>\<open>Sessions\<close> (logins) and \<^theory_text>\<open>Bonds\<close> (bonded interfaces). \<^theory_text>\<open>Answers\<close> follows their results through
    the bridge to the text that a caller receives.
  \<^item> \<open>internal/registry/stream\<close>: \<^theory_text>\<open>Streams\<close> (ring buffer, threshold emitter, deduplication, aggregator) and \<^theory_text>\<open>TopK\<close>.

  Correspondence. A struct is a record whose fields carry a prefix of the type, a method is a definition that takes the
  state and returns it changed; errors are values of a datatype or \<open>None\<close>. What a call reads from outside (the clock, random
  bytes, the order in which Go walks a map, the result of a library call) is an argument. A mutex makes an operation one step;
  where the code waits, for a channel or a timer, the operation is split into the part before and the parts after, and
  the properties quantify over what happens between.

  What the groups of lemmas show. The node set theories: every operation keeps the sorted disjoint ranges and is the set operation
  of its name, printing and parsing are inverse, the matcher agrees with expansion. The routing theories: the redundant state
  (index maps, cached gossip vector) always agrees with what it is derived from, and floods are admitted once. Vault and frames: a
  grant opens only for its request, and streams of frames stay aligned. The node theories: queues and writers lose and
  reorder nothing that was accepted, the bootstrap transfers the whole cache, and floods and the reconnect loop end. The theories of calls: what can be called
  can be found, calls and results cross a connection unchanged, a fan-out answers for exactly the nodes of its pattern, and a cached
  tool is one with a memory of its last good result. The data path: circuits deliver what they read, share no buffer and are closed
  when idle. The daemon: an installation is atomic at every cut, a deployment arrives as it was sent, and a round over the hosts
  leaves no connection behind and does nothing that it was not asked for. Connections: whatever library call fails, each is closed or returned, and a
  peer is known under the name of its certificate. The tools: their scanners agree with specifications that have no state, and read back what the kernel prints;
  their answers are JSON of one type.
  Locales state the interfaces: a store of intervals (\<^theory_text>\<open>RangeSet\<close>, interpreted on the sorted ranges), a set of keys that forgets the
  oldest one (\<^theory_text>\<open>Streams\<close>, interpreted on the deduplicator and on the aggregator), the choice of a best entry
  (\<^theory_text>\<open>Vault\<close>, interpreted on the credential store) the tracker that a registry of tools announces its capabilities to
  (\<^theory_text>\<open>Tools\<close>, interpreted on the manifest of a node), a pool of buffers (\<^theory_text>\<open>Circuit\<close>, interpreted on the simple and the sharded
  pool), composed names (\<^theory_text>\<open>Firewall\<close>, interpreted on both parsers) and hexadecimal digits (\<^theory_text>\<open>NetText\<close>, interpreted on the upper and the
  lower ones).

  Bounds and fuel. \<^theory_text>\<open>Reconnect.run\<close> has fuel, one unit for each round, as a policy without limits runs for ever; its property
  says how much is enough otherwise. The reader of JSON has fuel of twice the length of its text, which is always enough
  (\<^theory_text>\<open>GoJson.parse_fuel\<close>). All other recursions terminate. Queue lengths, frame limits, chunk sizes and hop budgets are the
  constants of the code.

  Not modelled: generated protobuf code (its messages are the records of \<^theory_text>\<open>Node\<close>, its encoding an argument), what the TLS, yamux, zstd, SSH,
  TOML and MCP libraries do and the configurations they are given, goroutines that only tick, the command line of the daemon and its files of
  keys and certificates, the texts that describe the tools, and the other tools that read \<open>/proc\<close> and \<open>/sys\<close> or parse the output of commands.
\<close>

end
